(* ===== verification/Prelude.thy ===== *)
theory Prelude
  imports Main "HOL-Library.Word" "HOL-Library.Sublist"
begin

text \<open>
  What every other theory of the development shares: Python's exceptions as values, the
  integer helpers of \<^verbatim>\<open>vllm.utils.math_utils\<close> that the sources call, one-dimensional tensors
  as lists with the torch operations the sources use on them (slicing, \<^verbatim>\<open>diff\<close>,
  \<^verbatim>\<open>cumsum\<close>, \<^verbatim>\<open>repeat_interleave\<close>), two-dimensional tensors as a flat storage with a row
  stride, and the chunk-plan interface: a locale for loops that cut a range into consecutive
  chunks.

  Conventions.  A count, an index or an address is a \<open>nat\<close>; a value the code lets become
  negative (a \<open>-1\<close> sentinel, a length before it is clamped) is an \<open>int\<close>.  Python's
  floor division is \<open>div\<close>.  An exception is the left summand of \<open>'a result\<close>, with
  Python's exception class as constructor and the words that identify the raise site.
\<close>

section \<open>Collections of rewrite rules\<close>

named_theorems tensor_simps \<open>rewrite rules for slices, prefix sums and strided rows\<close>
named_theorems kernel_simps \<open>rewrite rules for the writes of a kernel launch\<close>
named_theorems result_simps \<open>rewrite rules for computations that may raise\<close>

section \<open>Errors as values\<close>

datatype py_error =
    ValueError string
  | TypeError string
  | NotImplementedError string
  | RuntimeError string
  | AssertionError string
  | ImportError string
  | AttributeError string
  | IndexError string
  | KeyError string
  | ZeroDivisionError string
  | UnboundLocalError string

type_synonym 'a result = "py_error + 'a"

text \<open>\<open>if cond: raise e\<close> followed by the rest of the body.\<close>

definition raise_if :: "bool \<Rightarrow> py_error \<Rightarrow> 'a result \<Rightarrow> 'a result" where
  "raise_if c e k = (if c then Inl e else k)"

text \<open>A call that may raise, followed by the rest of the body.\<close>

definition bind_result :: "'a result \<Rightarrow> ('a \<Rightarrow> 'b result) \<Rightarrow> 'b result" where
  "bind_result r k = (case r of Inl e \<Rightarrow> Inl e | Inr x \<Rightarrow> k x)"

lemma bind_result_Inl [simp, result_simps]: "bind_result (Inl e) k = Inl e"
  by (simp add: bind_result_def)

lemma bind_result_Inr [simp, result_simps]: "bind_result (Inr x) k = k x"
  by (simp add: bind_result_def)

lemma bind_result_eq_Inr:
  "bind_result r k = Inr y \<longleftrightarrow> (\<exists>x. r = Inr x \<and> k x = Inr y)"
  by (cases r) auto

lemma raise_if_eq_Inr [result_simps]: "raise_if c e k = Inr y \<longleftrightarrow> \<not> c \<and> k = Inr y"
  by (simp add: raise_if_def)

lemma raise_if_False [simp]: "raise_if False e k = k"
  by (simp add: raise_if_def)

lemma raise_if_True [simp]: "raise_if True e k = Inl e"
  by (simp add: raise_if_def)

text \<open>\<^verbatim>\<open>assert x is not None\<close>, and the value.\<close>

definition required :: "string \<Rightarrow> 'a option \<Rightarrow> 'a result" where
  "required what x = (case x of None \<Rightarrow> Inl (AssertionError what) | Some v \<Rightarrow> Inr v)"

lemma required_simps [simp]: "required w (Some v) = Inr v" "required w None = Inl (AssertionError w)"
  by (simp_all add: required_def)

lemma required_eq_Inr [result_simps]: "required w x = Inr v \<longleftrightarrow> x = Some v"
  by (cases x) simp_all

section \<open>Integer helpers\<close>

text \<open>\<^verbatim>\<open>cdiv(a, b)\<close>: division rounding up.\<close>

definition cdiv :: "nat \<Rightarrow> nat \<Rightarrow> nat" where
  "cdiv a b = (a + b - 1) div b"

text \<open>\<^verbatim>\<open>next_power_of_2(n)\<close>: the least power of two that is at least \<open>n\<close>.\<close>

function next_pow2_from :: "nat \<Rightarrow> nat \<Rightarrow> nat" where
  "next_pow2_from p n = (if 0 < p \<and> p < n then next_pow2_from (2 * p) n else p)"
  by pat_completeness auto
termination
  by (relation "measure (\<lambda>(p, n). n - p)") auto

declare next_pow2_from.simps [simp del]

definition next_power_of_2 :: "nat \<Rightarrow> nat" where
  "next_power_of_2 n = next_pow2_from 1 n"

text \<open>\<^verbatim>\<open>torch.clamp(x, min, max)\<close> on integers.\<close>

definition clamp :: "int \<Rightarrow> int \<Rightarrow> int \<Rightarrow> int" where
  "clamp lo hi x = min (max x lo) hi"

text \<open>A 32-bit value written as \<^verbatim>\<open>int32\<close> and read back as \<^verbatim>\<open>uint32\<close>.\<close>

definition as_uint32 :: "int \<Rightarrow> int" where
  "as_uint32 x = uint (word_of_int x :: 32 word)"

lemma as_uint32_mod: "as_uint32 x = x mod 2 ^ 32"
  by (simp add: as_uint32_def uint_word_of_int)

lemma as_uint32_eq: "0 \<le> x \<Longrightarrow> x < 2 ^ 32 \<Longrightarrow> as_uint32 x = x"
  by (simp add: as_uint32_def uint_word_of_int)

lemma cdiv_mult_ge: "0 < b \<Longrightarrow> a \<le> cdiv a b * b"
proof -
  assume b: "0 < b"
  have "(a + b - 1) div b * b + (a + b - 1) mod b = a + b - 1" by simp
  moreover have "(a + b - 1) mod b < b" using b by simp
  ultimately show "a \<le> cdiv a b * b" unfolding cdiv_def by linarith
qed

lemma div_le_cdiv: "0 < b \<Longrightarrow> a div b \<le> cdiv a b"
  by (simp add: cdiv_def div_le_mono)

lemma next_pow2_from_pow:
  "\<exists>k. next_pow2_from (2 ^ j) n = 2 ^ k \<and> j \<le> k"
proof (induction "2 ^ j :: nat" n arbitrary: j rule: next_pow2_from.induct)
  case (1 n)
  show ?case
  proof (cases "2 ^ j < n")
    case True
    have "\<exists>k. next_pow2_from (2 ^ Suc j) n = 2 ^ k \<and> Suc j \<le> k"
      using "1" [of "Suc j"] True by simp
    then show ?thesis
      using True by (subst next_pow2_from.simps) (auto dest: Suc_leD)
  next
    case False
    then show ?thesis by (subst next_pow2_from.simps) auto
  qed
qed

lemma next_pow2_from_ge: "0 < p \<Longrightarrow> n \<le> next_pow2_from p n"
proof (induction p n rule: next_pow2_from.induct)
  case (1 p n)
  then show ?case by (subst next_pow2_from.simps) auto
qed

lemma next_power_of_2_ge: "n \<le> next_power_of_2 n"
  by (simp add: next_power_of_2_def next_pow2_from_ge)

lemma next_power_of_2_pow: "\<exists>k. next_power_of_2 n = 2 ^ k"
  using next_pow2_from_pow [of 0 n] by (auto simp: next_power_of_2_def)

lemma pow2_ge_dvd:
  assumes "(2::nat) ^ k \<ge> 2 ^ m"
  shows "(2::nat) ^ m dvd 2 ^ k"
  using assms by (simp add: le_imp_power_dvd)

section \<open>One-dimensional tensors\<close>

text \<open>\<open>xs[a:b]\<close> for non-negative bounds; Python and torch both clip.\<close>

definition pyslice :: "nat \<Rightarrow> nat \<Rightarrow> 'a list \<Rightarrow> 'a list" where
  "pyslice a b xs = take (b - a) (drop a xs)"

lemma length_slice [tensor_simps]: "length (pyslice a b xs) = min (b - a) (length xs - a)"
  by (simp add: pyslice_def min.commute)

lemma nth_slice [tensor_simps]:
  "i < b - a \<Longrightarrow> a + i < length xs \<Longrightarrow> pyslice a b xs ! i = xs ! (a + i)"
  by (simp add: pyslice_def)

lemma take_pyslice: "lo \<le> hi \<Longrightarrow> take hi xs = take lo xs @ pyslice lo hi xs"
  by (simp add: pyslice_def flip: take_add)

text \<open>\<open>xs[a:a+len(ys)] = ys\<close>: assignment of a slice.\<close>

definition set_slice :: "nat \<Rightarrow> 'a list \<Rightarrow> 'a list \<Rightarrow> 'a list" where
  "set_slice a ys xs = take a xs @ ys @ drop (a + length ys) xs"

lemma length_set_slice [simp, tensor_simps]:
  "a + length ys \<le> length xs \<Longrightarrow> length (set_slice a ys xs) = length xs"
  by (simp add: set_slice_def)

lemma nth_set_slice [tensor_simps]:
  assumes "a + length ys \<le> length xs" "i < length xs"
  shows "set_slice a ys xs ! i = (if a \<le> i \<and> i < a + length ys then ys ! (i - a) else xs ! i)"
  using assms by (auto simp: set_slice_def nth_append min_def)

lemma take_set_slice_0 [simp, tensor_simps]:
  "length ys \<le> length xs \<Longrightarrow> take (length ys) (set_slice 0 ys xs) = ys"
  by (simp add: set_slice_def)

text \<open>\<^verbatim>\<open>torch.diff\<close>.\<close>

fun diff :: "nat list \<Rightarrow> nat list" where
  "diff (a # b # xs) = (b - a) # diff (b # xs)"
| "diff xs = []"

lemma length_diff [simp, tensor_simps]: "length (diff xs) = length xs - 1"
  by (induction xs rule: diff.induct) auto

lemma nth_diff [tensor_simps]: "Suc i < length xs \<Longrightarrow> diff xs ! i = xs ! Suc i - xs ! i"
proof (induction xs arbitrary: i rule: diff.induct)
  case (1 a b xs)
  then show ?case by (cases i) auto
qed auto

text \<open>
  \<open>cu xs\<close>: the cumulative sums with a leading zero, as \<^verbatim>\<open>cu_seq_lens\<close> and
  \<^verbatim>\<open>query_start_loc\<close> are laid out.
\<close>

definition cu :: "nat list \<Rightarrow> nat list" where
  "cu xs = map (\<lambda>i. sum_list (take i xs)) [0..<Suc (length xs)]"

lemma length_cu [simp, tensor_simps]: "length (cu xs) = Suc (length xs)"
  by (simp add: cu_def)

lemma nth_cu [tensor_simps]: "i \<le> length xs \<Longrightarrow> cu xs ! i = sum_list (take i xs)"
  unfolding cu_def by (subst nth_map_upt) auto

lemma nth_cu_Suc:
  "i < length xs \<Longrightarrow> cu xs ! Suc i = cu xs ! i + xs ! i"
  by (simp add: nth_cu take_Suc_conv_app_nth)

lemma sum_take_mono: "i \<le> j \<Longrightarrow> sum_list (take i xs) \<le> sum_list (take j (xs :: nat list))"
proof -
  assume "i \<le> j"
  then have "take j xs = take i xs @ take (j - i) (drop i xs)"
    by (metis le_add_diff_inverse take_add)
  then show ?thesis by simp
qed

lemma cu_mono: "i \<le> j \<Longrightarrow> j \<le> length xs \<Longrightarrow> cu xs ! i \<le> cu xs ! j"
  by (simp add: nth_cu sum_take_mono)

lemma cu_le_sum: "i \<le> length xs \<Longrightarrow> cu xs ! i \<le> sum_list xs"
  using sum_take_mono [of i "length xs" xs] by (simp add: nth_cu)

text \<open>The segment of a position: every position below the total lies in exactly one segment.\<close>

lemma cu_segment_exists:
  "t < sum_list xs \<Longrightarrow> \<exists>b < length xs. cu xs ! b \<le> t \<and> t < cu xs ! Suc b"
proof (induction xs rule: rev_induct)
  case Nil
  then show ?case by simp
next
  case (snoc x xs)
  show ?case
  proof (cases "t < sum_list xs")
    case True
    with snoc obtain b where "b < length xs" "cu xs ! b \<le> t" "t < cu xs ! Suc b" by blast
    then show ?thesis by (intro exI [of _ b]) (auto simp: nth_cu)
  next
    case False
    with snoc.prems show ?thesis by (intro exI [of _ "length xs"]) (auto simp: nth_cu)
  qed
qed

lemma cu_segment_unique:
  assumes "b < length xs" "cu xs ! b \<le> t" "t < cu xs ! Suc b"
    and "c < length xs" "cu xs ! c \<le> t" "t < cu xs ! Suc c"
  shows "b = c"
proof (rule ccontr)
  assume "b \<noteq> c"
  then consider "Suc b \<le> c" | "Suc c \<le> b" by linarith
  then show False
  proof cases
    case 1
    then have "cu xs ! Suc b \<le> cu xs ! c" using assms by (intro cu_mono) auto
    with assms show False by linarith
  next
    case 2
    then have "cu xs ! Suc c \<le> cu xs ! b" using assms by (intro cu_mono) auto
    with assms show False by linarith
  qed
qed

lemma diff_cu [simp]: "diff (cu xs) = xs"
  by (rule nth_equalityI) (auto simp: nth_diff nth_cu take_Suc_conv_app_nth)

text \<open>
  \<^verbatim>\<open>torch.repeat_interleave(xs, reps, output_size=n)\<close>.  The caller promises that
  \<open>n\<close> is the sum of the repeats; torch does not check it, so entries past the repeats
  are whatever the allocation held, the parameter \<open>uninit\<close>.
\<close>

definition repeats :: "'a list \<Rightarrow> nat list \<Rightarrow> 'a list" where
  "repeats xs reps = concat (map2 (\<lambda>x r. replicate r x) xs reps)"

definition repeat_interleave :: "(nat \<Rightarrow> 'a) \<Rightarrow> 'a list \<Rightarrow> nat list \<Rightarrow> nat \<Rightarrow> 'a list" where
  "repeat_interleave uninit xs reps n =
     take n (repeats xs reps) @ map uninit [length (repeats xs reps)..<n]"

lemma repeats_simps [simp]:
  "repeats [] rs = []" "repeats xs [] = []"
  "repeats (x # xs) (r # rs) = replicate r x @ repeats xs rs"
  by (auto simp: repeats_def)

lemma length_repeats: "length xs = length reps \<Longrightarrow> length (repeats xs reps) = sum_list reps"
  by (induction xs reps rule: list_induct2) auto

lemma repeat_interleave_exact:
  "length xs = length reps \<Longrightarrow> n = sum_list reps \<Longrightarrow> repeat_interleave u xs reps n = repeats xs reps"
  by (simp add: repeat_interleave_def length_repeats)

lemma nth_repeats:
  "length xs = length reps \<Longrightarrow> b < length reps \<Longrightarrow> cu reps ! b \<le> t \<Longrightarrow> t < cu reps ! Suc b
   \<Longrightarrow> repeats xs reps ! t = xs ! b"
proof (induction xs reps arbitrary: b t rule: list_induct2)
  case Nil
  then show ?case by simp
next
  case (Cons x xs r reps)
  show ?case
  proof (cases b)
    case 0
    then show ?thesis using Cons.prems by (simp add: nth_cu nth_append)
  next
    case (Suc c)
    have ge: "r \<le> t" using Cons.prems Suc by (simp add: nth_cu)
    have "repeats xs reps ! (t - r) = xs ! c"
      using Cons.prems Suc by (intro Cons.IH) (auto simp: nth_cu)
    then show ?thesis using ge Suc by (simp add: nth_append)
  qed
qed

section \<open>Two-dimensional tensors\<close>

text \<open>A flat storage with the row stride the kernels use for address arithmetic.\<close>

record tensor2 =
  t_data :: "int list"
  t_stride :: nat
  t_rows :: nat
  t_cols :: nat

definition wf_tensor2 :: "tensor2 \<Rightarrow> bool" where
  "wf_tensor2 t \<longleftrightarrow> t_cols t \<le> t_stride t \<and> t_rows t * t_stride t \<le> length (t_data t)"

definition row :: "tensor2 \<Rightarrow> nat \<Rightarrow> int list" where
  "row t r = map (\<lambda>c. t_data t ! (r * t_stride t + c)) [0..<t_cols t]"

text \<open>\<open>t[:n]\<close>: the first rows, a view of the same storage.\<close>

definition first_rows :: "nat \<Rightarrow> tensor2 \<Rightarrow> tensor2" where
  "first_rows n t = t\<lparr>t_rows := min n (t_rows t)\<rparr>"

definition rows_of :: "tensor2 \<Rightarrow> int list list" where
  "rows_of t = map (row t) [0..<t_rows t]"

definition contiguous2 :: "tensor2 \<Rightarrow> bool" where
  "contiguous2 t \<longleftrightarrow> t_stride t = t_cols t"

lemma length_row [simp, tensor_simps]: "length (row t r) = t_cols t"
  by (simp add: row_def)

lemma nth_row [tensor_simps]: "c < t_cols t \<Longrightarrow> row t r ! c = t_data t ! (r * t_stride t + c)"
  by (simp add: row_def)

lemma row_first_rows [simp, tensor_simps]: "row (first_rows n t) r = row t r"
  by (simp add: row_def first_rows_def)

lemma row_address_bound:
  assumes "wf_tensor2 t" "r < t_rows t" "c < t_cols t"
  shows "r * t_stride t + c < length (t_data t)"
proof -
  have "r * t_stride t + c < r * t_stride t + t_stride t"
    using assms by (simp add: wf_tensor2_def)
  also have "\<dots> = Suc r * t_stride t" by simp
  also have "\<dots> \<le> t_rows t * t_stride t"
    using assms(2) by (intro mult_le_mono1) simp
  finally show ?thesis using assms(1) by (simp add: wf_tensor2_def)
qed

section \<open>Chunk plans\<close>

text \<open>
  \<open>range_step a n s\<close> is Python's \<^verbatim>\<open>range(a, n, s)\<close> for a positive step.
\<close>

function range_step :: "nat \<Rightarrow> nat \<Rightarrow> nat \<Rightarrow> nat list" where
  "range_step a n s = (if a < n \<and> 0 < s then a # range_step (a + s) n s else [])"
  by pat_completeness auto
termination
  by (relation "measure (\<lambda>(a, n, s). n - a)") auto

declare range_step.simps [simp del]

lemma range_step_stop [simp]: "n \<le> a \<Longrightarrow> range_step a n s = []"
  by (subst range_step.simps) simp

lemma range_step_less: "i \<in> set (range_step a n s) \<Longrightarrow> i < n"
proof (induction a n s rule: range_step.induct)
  case (1 a n s)
  then show ?case by (subst (asm) (2) range_step.simps) (auto split: if_splits)
qed

text \<open>A list of half-open intervals that follow each other from \<open>s\<close> to \<open>n\<close>.\<close>

inductive plan_from :: "nat \<Rightarrow> nat \<Rightarrow> (nat \<times> nat) list \<Rightarrow> bool" where
  stop: "plan_from n n []"
| chunk: "s < e \<Longrightarrow> e \<le> n \<Longrightarrow> plan_from e n cs \<Longrightarrow> plan_from s n ((s, e) # cs)"

inductive_cases plan_from_ConsE: "plan_from s n (c # cs)"
inductive_cases plan_from_NilE: "plan_from s n []"
inductive_simps plan_from_Nil [simp]: "plan_from s n []"
inductive_simps plan_from_Cons [simp]: "plan_from s n ((a, b) # cs)"

text \<open>Positions covered by a list of intervals, in order.\<close>

definition covered :: "(nat \<times> nat) list \<Rightarrow> nat list" where
  "covered cs = concat (map (\<lambda>(a, b). [a..<b]) cs)"

lemma covered_simps [simp]:
  "covered [] = []" "covered ((a, b) # cs) = [a..<b] @ covered cs"
  by (auto simp: covered_def)

lemma covered_append [simp]: "covered (xs @ ys) = covered xs @ covered ys"
  by (simp add: covered_def)

lemma plan_from_le: "plan_from s n cs \<Longrightarrow> s \<le> n"
  by (induction rule: plan_from.induct) auto

lemma upt_split: "s \<le> e \<Longrightarrow> e \<le> n \<Longrightarrow> [s..<e] @ [e..<n] = [s..<n]"
  using upt_add_eq_append [of s e "n - e"] by simp

lemma plan_from_covers: "plan_from s n cs \<Longrightarrow> covered cs = [s..<n]"
  by (induction rule: plan_from.induct) (simp_all add: upt_split)

lemma plan_from_member:
  "plan_from s n cs \<Longrightarrow> (a, b) \<in> set cs \<Longrightarrow> s \<le> a \<and> a < b \<and> b \<le> n"
  by (induction arbitrary: a b rule: plan_from.induct) (fastforce dest: plan_from_le)+

text \<open>A planner run from a start to the end: each chunk begins where the last one stopped.\<close>

function run_plan :: "(nat \<Rightarrow> nat) \<Rightarrow> nat \<Rightarrow> nat \<Rightarrow> (nat \<times> nat) list" where
  "run_plan adv n s =
     (if s < n \<and> s < adv s then (s, adv s) # run_plan adv n (adv s) else [])"
  by pat_completeness auto
termination
  by (relation "measure (\<lambda>(adv, n, s). n - s)") auto

declare run_plan.simps [simp del]

text \<open>
  The interface of a planner: from every start below the end it advances, and never past
  the end.  A client that runs it to the end gets every position exactly once, in order.
\<close>

locale chunk_planner =
  fixes advance :: "nat \<Rightarrow> nat" and n :: nat
  assumes advances: "s < n \<Longrightarrow> s < advance s"
    and bounded: "s < n \<Longrightarrow> advance s \<le> n"
begin

lemma run_is_plan: "s \<le> n \<Longrightarrow> plan_from s n (run_plan advance n s)"
proof (induction "n - s" arbitrary: s rule: less_induct)
  case less
  show ?case
  proof (cases "s < n")
    case True
    then have "n - advance s < n - s" using advances [of s] by linarith
    then have "plan_from (advance s) n (run_plan advance n (advance s))"
      using less.hyps bounded [OF True] by blast
    then show ?thesis using True advances bounded by (subst run_plan.simps) simp
  next
    case False
    with less.prems show ?thesis by (subst run_plan.simps) simp
  qed
qed

lemma run_covers: "covered (run_plan advance n 0) = [0..<n]"
  by (rule plan_from_covers [OF run_is_plan]) simp

lemma run_chunk_nonempty: "(a, b) \<in> set (run_plan advance n 0) \<Longrightarrow> a < b \<and> b \<le> n"
  using plan_from_member [OF run_is_plan] by blast

lemma run_chunk_step: "(a, b) \<in> set (run_plan advance n s) \<Longrightarrow> b = advance a"
proof (induction "n - s" arbitrary: s rule: less_induct)
  case less
  show ?case
  proof (cases "s < n")
    case True
    then have "n - advance s < n - s" using advances [of s] by linarith
    then show ?thesis
      using less.hyps less.prems True advances [OF True]
      by (subst (asm) run_plan.simps) auto
  next
    case False
    with less.prems show ?thesis by (subst (asm) run_plan.simps) simp
  qed
qed

end

text \<open>Fixed-sz chunks: the loop \<^verbatim>\<open>for i in range(0, n, s)\<close> with \<^verbatim>\<open>min(i + s, n)\<close>.\<close>

definition step_to :: "nat \<Rightarrow> nat \<Rightarrow> nat \<Rightarrow> nat" where
  "step_to sz n s = min (s + sz) n"

lemma step_planner: "0 < sz \<Longrightarrow> chunk_planner (step_to sz n) n"
  by unfold_locales (auto simp: step_to_def)

lemma range_step_plan:
  "0 < sz \<Longrightarrow> map (\<lambda>i. (i, min (i + sz) n)) (range_step s n sz) = run_plan (step_to sz n) n s"
proof (induction s n sz rule: range_step.induct)
  case (1 s n sz)
  show ?case
  proof (cases "s < n")
    case True
    with "1" have IH: "map (\<lambda>i. (i, min (i + sz) n)) (range_step (s + sz) n sz)
        = run_plan (step_to sz n) n (s + sz)" by simp
    have "run_plan (step_to sz n) n (step_to sz n s) = run_plan (step_to sz n) n (s + sz)"
      by (cases "s + sz \<le> n") (simp_all add: step_to_def min_def run_plan.simps)
    then show ?thesis
      using True "1.prems" IH
      by (subst range_step.simps, subst run_plan.simps) (auto simp: step_to_def)
  next
    case False
    then show ?thesis by (subst range_step.simps, subst run_plan.simps) simp
  qed
qed

section \<open>Strings\<close>

text \<open>\<^verbatim>\<open>x in s\<close> for strings: the substring test.\<close>

fun is_prefix :: "string \<Rightarrow> string \<Rightarrow> bool" where
  "is_prefix [] ys = True"
| "is_prefix (x # xs) [] = False"
| "is_prefix (x # xs) (y # ys) = (x = y \<and> is_prefix xs ys)"

fun in_str :: "string \<Rightarrow> string \<Rightarrow> bool" where
  "in_str x [] = (x = [])"
| "in_str x (c # s) = (is_prefix x (c # s) \<or> in_str x s)"

text \<open>\<^verbatim>\<open>s.replace(old, new)\<close> for a non-empty \<open>old\<close>: every occurrence, from the left, without overlap.\<close>

function str_replace :: "string \<Rightarrow> string \<Rightarrow> string \<Rightarrow> string" where
  "str_replace old new s =
     (case s of
        [] \<Rightarrow> []
      | c # cs \<Rightarrow>
          if old \<noteq> [] \<and> is_prefix old s then new @ str_replace old new (drop (length old) s)
          else c # str_replace old new cs)"
  by pat_completeness auto
termination
  by (relation "measure (\<lambda>(old, new, s). length s)") auto

declare str_replace.simps [simp del]

lemma is_prefix_append: "is_prefix x (x @ ys)"
  by (induction x) auto

lemma in_str_prefix: "is_prefix x ys \<Longrightarrow> in_str x ys"
  by (cases ys; cases x) auto

lemma in_str_append: "in_str x (a @ x @ b)"
  by (induction a) (simp_all add: in_str_prefix is_prefix_append)

section \<open>Dictionaries\<close>

text \<open>
  The interface the caches of the sources rely on: a lookup after an insertion.  A cache is
  coherent with a function when every entry is the function's value; a client that inserts only
  such values keeps it so, and then a hit is as good as a computation.
\<close>

locale memo =
  fixes find :: "'c \<Rightarrow> 'k \<Rightarrow> 'v option" and put :: "'k \<Rightarrow> 'v \<Rightarrow> 'c \<Rightarrow> 'c" and none :: 'c
  assumes find_none: "find none k = None"
    and find_put: "find (put k v c) k' = (if k' = k then Some v else find c k')"
begin

lemma coherent_none: "find none k = Some v \<longrightarrow> v = f k"
  by (simp add: find_none)

lemma coherent_put:
  assumes "\<And>k v. find c k = Some v \<Longrightarrow> v = f k" "find (put k (f k) c) k' = Some v"
  shows "v = f k'"
  using assms by (auto simp: find_put split: if_splits)

lemma put_keeps: "find c k = Some v \<Longrightarrow> k' \<noteq> k \<Longrightarrow> find (put k' w c) k = Some v"
  by (simp add: find_put)

end

interpretation dict: memo map_of "\<lambda>k v c. (k, v) # c" "[]"
  by unfold_locales simp_all

end
