(* ===== verification/Triton.thy ===== *)
theory Triton
  imports Prelude "HOL-Library.Multiset"
begin

text \<open>
  The memory model of the Triton kernels in \<^verbatim>\<open>src/docker/overlay-sm121-adaptive\<close>.  A
  program instance (one \<^verbatim>\<open>tl.program_id\<close>) reads its inputs and performs masked stores; its
  effect on an output buffer is the list of writes \<open>(address, value)\<close> in program order.  A
  launch applies the writes of every program of the grid.  A loop
  \<^verbatim>\<open>for i in range(0, n, BLOCK_SIZE)\<close> over \<^verbatim>\<open>offset = i + tl.arange(0, BLOCK_SIZE)\<close> visits
  the offsets \<open>block_offsets n BLOCK_SIZE\<close>, and a \<^verbatim>\<open>mask\<close> keeps those it admits.

  The locale \<open>row_kernel\<close> is the contract of the kernels whose program \<open>pid\<close> fills row
  \<open>pid\<close> of a strided buffer: rows do not overlap, so the result of a launch does not depend
  on the order in which the hardware runs the programs, every admitted cell has the value its
  program computed, and nothing else changes.
\<close>

section \<open>Integer division in a kernel\<close>

text \<open>\<^verbatim>\<open>//\<close> on Triton integers truncates towards zero, unlike Python's and torch's floor division.\<close>

definition tl_div :: "int \<Rightarrow> int \<Rightarrow> int" where
  "tl_div a b = sgn a * sgn b * (\<bar>a\<bar> div \<bar>b\<bar>)"

lemma tl_div_nonneg: "0 \<le> a \<Longrightarrow> 0 < b \<Longrightarrow> tl_div a b = a div b"
  by (cases "a = 0") (simp_all add: tl_div_def)

section \<open>Writes\<close>

type_synonym 'v writes = "(nat \<times> 'v) list"

definition apply_writes :: "'v list \<Rightarrow> 'v writes \<Rightarrow> 'v list" where
  "apply_writes buf ws = foldl (\<lambda>b (a, v). b[a := v]) buf ws"

text \<open>A launch over the programs \<open>pids\<close>, in the order given.\<close>

definition launch :: "nat list \<Rightarrow> (nat \<Rightarrow> 'v writes) \<Rightarrow> 'v list \<Rightarrow> 'v list" where
  "launch pids prog buf = apply_writes buf (concat (map prog pids))"

definition block_offsets :: "nat \<Rightarrow> nat \<Rightarrow> nat list" where
  "block_offsets n B = concat (map (\<lambda>i. map (\<lambda>j. i + j) [0..<B]) (range_step 0 n B))"

lemma apply_writes_simps [simp, kernel_simps]:
  "apply_writes buf [] = buf"
  "apply_writes buf ((a, v) # ws) = apply_writes (buf[a := v]) ws"
  by (simp_all add: apply_writes_def)

lemma apply_writes_append [simp, kernel_simps]:
  "apply_writes buf (ws @ vs) = apply_writes (apply_writes buf ws) vs"
  by (simp add: apply_writes_def)

lemma length_apply_writes [simp, kernel_simps]: "length (apply_writes buf ws) = length buf"
  by (induction ws arbitrary: buf) auto

lemma length_launch [simp, kernel_simps]: "length (launch pids prog buf) = length buf"
  by (simp add: launch_def)

text \<open>The last write to an address decides its contents.\<close>

lemma nth_apply_writes:
  "a < length buf \<Longrightarrow>
   apply_writes buf ws ! a = (case map_of (rev ws) a of Some v \<Rightarrow> v | None \<Rightarrow> buf ! a)"
proof (induction ws arbitrary: buf)
  case Nil
  then show ?case by simp
next
  case (Cons w ws)
  obtain b v where w: "w = (b, v)" by (cases w)
  show ?case
    using Cons by (auto simp: w map_add_def map_of_append split: option.splits)
qed

text \<open>
  A list of writes is consistent when no address receives two different values; then the
  order of the writes does not matter.
\<close>

definition consistent :: "'v writes \<Rightarrow> bool" where
  "consistent ws \<longleftrightarrow> (\<forall>(a, v) \<in> set ws. \<forall>(b, w) \<in> set ws. a = b \<longrightarrow> v = w)"

lemma consistent_map_of:
  assumes "consistent ws" "(a, v) \<in> set ws"
  shows "map_of ws a = Some v"
proof -
  obtain w where "map_of ws a = Some w"
    using assms(2) by (metis weak_map_of_SomeI)
  then have "(a, w) \<in> set ws" by (rule map_of_SomeD)
  with assms show ?thesis using \<open>map_of ws a = Some w\<close> by (fastforce simp: consistent_def)
qed

lemma consistent_rev [simp]: "consistent (rev ws) = consistent ws"
  by (simp add: consistent_def)

lemma apply_writes_consistent:
  assumes "consistent ws" "(a, v) \<in> set ws" "a < length buf"
  shows "apply_writes buf ws ! a = v"
  using assms by (simp add: nth_apply_writes consistent_map_of)

lemma apply_writes_untouched:
  assumes "a \<notin> fst ` set ws" "a < length buf"
  shows "apply_writes buf ws ! a = buf ! a"
  using assms by (auto simp: nth_apply_writes map_of_eq_None_iff split: option.splits dest!: map_of_SomeD)
    (metis fst_conv image_eqI)

lemma apply_writes_cong:
  assumes "consistent ws" "set ws = set vs"
  shows "apply_writes buf ws = apply_writes buf vs"
proof (rule nth_equalityI)
  show "length (apply_writes buf ws) = length (apply_writes buf vs)" by simp
  fix a assume "a < length (apply_writes buf ws)"
  then have a: "a < length buf" by simp
  have c: "consistent vs" using assms by (simp add: consistent_def)
  show "apply_writes buf ws ! a = apply_writes buf vs ! a"
  proof (cases "a \<in> fst ` set ws")
    case True
    then obtain v where "(a, v) \<in> set ws" by force
    then show ?thesis using assms a c by (simp add: apply_writes_consistent)
  next
    case False
    then show ?thesis using assms a by (simp add: apply_writes_untouched)
  qed
qed

text \<open>
  The interleaving of a grid: programs may run in any order, and stores of different
  programs may mix.  For a consistent kernel all orders give the same memory.
\<close>

lemma launch_any_order:
  assumes "consistent (concat (map prog pids))" "mset qids = mset pids"
  shows "launch qids prog buf = launch pids prog buf"
proof -
  have "set (concat (map prog pids)) = set (concat (map prog qids))"
    using assms(2) by (metis set_concat set_map mset_eq_setD)
  with assms(1) show ?thesis unfolding launch_def by (metis apply_writes_cong)
qed

section \<open>Blocked loops\<close>

lemma range_step_from_shift: "range_step (a + k) (n + k) s = map (\<lambda>i. i + k) (range_step a n s)"
proof (induction a n s rule: range_step.induct)
  case (1 a n s)
  show ?case
  proof (cases "a < n \<and> 0 < s")
    case True
    with "1" have "range_step (a + s + k) (n + k) s = map (\<lambda>i. i + k) (range_step (a + s) n s)"
      by simp
    then show ?thesis
      using True by (simp add: range_step.simps [of a] range_step.simps [of "a + k"] ac_simps)
  next
    case False
    then show ?thesis by (simp add: range_step.simps [of a] range_step.simps [of "a + k"])
  qed
qed

lemma filter_less_upt: "filter (\<lambda>off. off < n) [a..<b] = [a..<min n (b::nat)]"
proof (induction b)
  case (Suc b)
  have "[a..<min n (Suc b)] = (if b < n \<and> a \<le> b then [a..<min n b] @ [b] else [a..<min n b])"
    by (cases "b < n") (auto simp: min_def not_less le_Suc_eq)
  then show ?case using Suc by auto
qed simp

lemma blocks_from:
  "0 < B \<Longrightarrow> a \<le> n \<Longrightarrow> filter (\<lambda>off. off < n)
     (concat (map (\<lambda>i. map (\<lambda>j. i + j) [0..<B]) (range_step a n B))) = [a..<n]"
proof (induction a n B rule: range_step.induct)
  case (1 a n B)
  have first: "map (\<lambda>j. a + j) [0..<B] = [a..<a + B]"
    by (simp add: map_add_upt add.commute)
  have keep: "filter (\<lambda>off. off < n) [a..<a + B] = [a..<min n (a + B)]"
    by (rule filter_less_upt)
  let ?blocks = "\<lambda>a. concat (map (\<lambda>i. map (\<lambda>j. i + j) [0..<B]) (range_step a n B))"
  show ?case
  proof (cases "a < n")
    case True
    with "1.prems" have "?blocks a = [a..<a + B] @ ?blocks (a + B)"
      by (subst range_step.simps) (simp only: first if_True simp_thms list.map concat.simps)
    moreover have "filter (\<lambda>off. off < n) (?blocks (a + B)) = [min n (a + B)..<n]"
      using "1" True by (cases "a + B \<le> n") (auto simp: min_def)
    ultimately show ?thesis
      using True by (simp only: filter_append keep) (simp add: upt_split)
  next
    case False
    with "1.prems" show ?thesis by simp
  qed
qed

lemma block_offsets_masked [simp, kernel_simps]:
  "0 < B \<Longrightarrow> filter (\<lambda>off. off < n) (block_offsets n B) = [0..<n]"
  unfolding block_offsets_def by (rule blocks_from) simp_all

lemma block_offsets_masked_conj [kernel_simps]:
  "0 < B \<Longrightarrow> filter (\<lambda>off. off < n \<and> P off) (block_offsets n B) = filter P [0..<n]"
  using block_offsets_masked [of B n] by (metis (no_types, lifting) filter_cong filter_filter)

section \<open>Row kernels\<close>

text \<open>Program \<open>pid\<close> stores \<open>val pid off\<close> at \<open>pid * stride + off\<close> for every offset below the width.\<close>

definition row_writes :: "nat \<Rightarrow> nat \<Rightarrow> nat \<Rightarrow> (nat \<Rightarrow> nat \<Rightarrow> 'v) \<Rightarrow> nat \<Rightarrow> 'v writes" where
  "row_writes stride B width val pid =
     map (\<lambda>off. (pid * stride + off, val pid off))
       (filter (\<lambda>off. off < width) (block_offsets width B))"

lemma row_cell_unique:
  assumes "p * stride + i = q * stride + j" "i < stride" "j < (stride::nat)"
  shows "p = q \<and> i = j"
proof -
  have "(p * stride + i) div stride = (q * stride + j) div stride"
    "(p * stride + i) mod stride = (q * stride + j) mod stride"
    using assms(1) by auto
  with assms(2,3) show ?thesis by simp
qed

locale row_kernel =
  fixes val :: "nat \<Rightarrow> nat \<Rightarrow> 'v" and stride B width :: nat
  assumes block_pos: "0 < B" and fits: "width \<le> stride"
begin

lemma row_writes_eq:
  "row_writes stride B width val pid = map (\<lambda>off. (pid * stride + off, val pid off)) [0..<width]"
  using block_pos by (simp add: row_writes_def)

lemma row_writes_memD:
  "(a, v) \<in> set (concat (map (row_writes stride B width val) pids)) \<Longrightarrow>
   \<exists>pid off. pid \<in> set pids \<and> off < stride \<and> off < width \<and> a = pid * stride + off \<and> v = val pid off"
  using fits by (auto simp: row_writes_eq intro: order_less_le_trans)

lemma rows_consistent: "consistent (concat (map (row_writes stride B width val) pids))"
  unfolding consistent_def
  by (auto simp del: set_concat dest!: row_writes_memD dest: row_cell_unique)

theorem any_order:
  "mset qids = mset pids \<Longrightarrow>
   launch qids (row_writes stride B width val) buf = launch pids (row_writes stride B width val) buf"
  by (rule launch_any_order [OF rows_consistent])

theorem row_written:
  assumes "pid \<in> set pids" "off < width" "pid * stride + off < length buf"
  shows "launch pids (row_writes stride B width val) buf ! (pid * stride + off) = val pid off"
  unfolding launch_def
proof (rule apply_writes_consistent [OF rows_consistent])
  have "(pid * stride + off, val pid off) \<in> set (row_writes stride B width val pid)"
    using assms(2) by (simp add: row_writes_eq)
  with assms(1) show "(pid * stride + off, val pid off)
      \<in> set (concat (map (row_writes stride B width val) pids))" by auto
qed (use assms in simp)

theorem other_rows_kept:
  assumes "pid \<notin> set pids" "off < stride" "pid * stride + off < length buf"
  shows "launch pids (row_writes stride B width val) buf ! (pid * stride + off) = buf ! (pid * stride + off)"
  unfolding launch_def
proof (rule apply_writes_untouched)
  show "pid * stride + off \<notin> fst ` set (concat (map (row_writes stride B width val) pids))"
    using assms(1,2) fits by (auto simp: row_writes_eq dest!: row_cell_unique)
qed (use assms in simp)

theorem tail_kept:
  assumes "width \<le> off" "off < stride" "pid * stride + off < length buf"
  shows "launch pids (row_writes stride B width val) buf ! (pid * stride + off) = buf ! (pid * stride + off)"
  unfolding launch_def
proof (rule apply_writes_untouched)
  show "pid * stride + off \<notin> fst ` set (concat (map (row_writes stride B width val) pids))"
    using assms(1,2) fits by (auto simp: row_writes_eq dest!: row_cell_unique)
qed (use assms in simp)

theorem stores_in_bounds:
  assumes "(a, v) \<in> set (row_writes stride B width val pid)" "pid < rows" "rows * stride \<le> length buf"
  shows "a < length buf"
proof -
  from assms(1) obtain off where off: "a = pid * stride + off" "off < width"
    by (auto simp: row_writes_eq)
  have "a < Suc pid * stride" using off fits by simp
  also have "\<dots> \<le> rows * stride" using assms(2) by (intro mult_le_mono1) simp
  finally show ?thesis using assms(3) by simp
qed

end

text \<open>Kernels with one store per program: a row of width one.\<close>

definition cell_writes :: "(nat \<Rightarrow> 'v) \<Rightarrow> nat \<Rightarrow> 'v writes" where
  "cell_writes val pid = [(pid, val pid)]"

lemma launch_cells:
  assumes "n \<le> length buf"
  shows "launch [0..<n] (cell_writes val) buf = map val [0..<n] @ drop n buf"
proof (rule nth_equalityI)
  show "length (launch [0..<n] (cell_writes val) buf) = length (map val [0..<n] @ drop n buf)"
    using assms by simp
  fix a assume "a < length (launch [0..<n] (cell_writes val) buf)"
  then have a: "a < length buf" by simp
  have c: "consistent (concat (map (cell_writes val) [0..<n]))"
    by (auto simp: consistent_def cell_writes_def)
  show "launch [0..<n] (cell_writes val) buf ! a = (map val [0..<n] @ drop n buf) ! a"
  proof (cases "a < n")
    case True
    then have "launch [0..<n] (cell_writes val) buf ! a = val a"
      unfolding launch_def using a by (intro apply_writes_consistent [OF c]) (auto simp: cell_writes_def)
    then show ?thesis using True by (simp add: nth_append)
  next
    case False
    then have "launch [0..<n] (cell_writes val) buf ! a = buf ! a"
      unfolding launch_def using a by (intro apply_writes_untouched) (auto simp: cell_writes_def)
    then show ?thesis using False a by (simp add: nth_append)
  qed
qed

section \<open>Segment kernels\<close>

text \<open>
  Program \<open>b\<close> owns the positions \<open>starts ! b, \<dots>, starts ! Suc b - 1\<close> of a flattened batch
  and stores \<open>val b off\<close> for those inside the window from \<open>lo\<close> up to \<open>hi\<close>, at the position
  relative to \<open>lo\<close>.
\<close>

definition segment_writes ::
  "nat list \<Rightarrow> nat \<Rightarrow> nat \<Rightarrow> nat \<Rightarrow> (nat \<Rightarrow> nat \<Rightarrow> 'v) \<Rightarrow> nat \<Rightarrow> 'v writes" where
  "segment_writes starts B lo hi val b =
     (let s = starts ! b; len = starts ! Suc b - s
      in map (\<lambda>off. (s + off - lo, val b off))
           (filter (\<lambda>off. off < len \<and> lo \<le> s + off \<and> s + off < hi) (block_offsets len B)))"

locale segment_kernel =
  fixes lens :: "nat list" and B lo hi :: nat and val :: "nat \<Rightarrow> nat \<Rightarrow> 'v"
  assumes block_pos: "0 < B"
begin

lemma segment_writes_iff:
  assumes "b < length lens"
  shows "(a, v) \<in> set (segment_writes (cu lens) B lo hi val b) \<longleftrightarrow>
    (\<exists>t. cu lens ! b \<le> t \<and> t < cu lens ! Suc b \<and> lo \<le> t \<and> t < hi \<and>
         a = t - lo \<and> v = val b (t - cu lens ! b))"
  (is "?L \<longleftrightarrow> (\<exists>t. ?R t)")
proof
  assume ?L
  then obtain off where "off < cu lens ! Suc b - cu lens ! b" "lo \<le> cu lens ! b + off"
    "cu lens ! b + off < hi" "a = cu lens ! b + off - lo" "v = val b off"
    using block_pos by (auto simp: segment_writes_def Let_def block_offsets_masked_conj)
  then have "?R (cu lens ! b + off)" by auto
  then show "\<exists>t. ?R t" ..
next
  assume "\<exists>t. ?R t"
  then obtain t where "?R t" ..
  then show ?L
    using block_pos
    by (auto simp: segment_writes_def Let_def block_offsets_masked_conj image_iff
        intro!: exI [of _ "t - cu lens ! b"])
qed

lemma segments_consistent:
  "set bs \<subseteq> {..<length lens} \<Longrightarrow> consistent (concat (map (segment_writes (cu lens) B lo hi val) bs))"
proof (unfold consistent_def, safe, goal_cases)
  case (1 a v b w)
  then obtain c d where c: "c < length lens" "(b, v) \<in> set (segment_writes (cu lens) B lo hi val c)"
    and d: "d < length lens" "(b, w) \<in> set (segment_writes (cu lens) B lo hi val d)"
    by auto
  from c(2) obtain t where t: "cu lens ! c \<le> t" "t < cu lens ! Suc c" "lo \<le> t" "b = t - lo"
      "v = val c (t - cu lens ! c)"
    unfolding segment_writes_iff [OF c(1)] by blast
  from d(2) obtain u where u: "cu lens ! d \<le> u" "u < cu lens ! Suc d" "lo \<le> u" "b = u - lo"
      "w = val d (u - cu lens ! d)"
    unfolding segment_writes_iff [OF d(1)] by blast
  have "t = u" using t u by linarith
  moreover have "c = d" using c(1) d(1) t u \<open>t = u\<close> cu_segment_unique by blast
  ultimately show ?case using t u by simp
qed

theorem segments_any_order:
  "mset bs = mset [0..<length lens] \<Longrightarrow>
   launch bs (segment_writes (cu lens) B lo hi val) buf
     = launch [0..<length lens] (segment_writes (cu lens) B lo hi val) buf"
  by (rule launch_any_order [OF segments_consistent]) auto

theorem segment_written:
  assumes "b < length lens" "cu lens ! b \<le> t" "t < cu lens ! Suc b" "lo \<le> t" "t < hi"
    and "t - lo < length buf"
  shows "launch [0..<length lens] (segment_writes (cu lens) B lo hi val) buf ! (t - lo)
     = val b (t - cu lens ! b)"
  unfolding launch_def
proof (rule apply_writes_consistent [OF segments_consistent])
  have "(t - lo, val b (t - cu lens ! b)) \<in> set (segment_writes (cu lens) B lo hi val b)"
    unfolding segment_writes_iff [OF assms(1)] using assms by blast
  then show "(t - lo, val b (t - cu lens ! b))
      \<in> set (concat (map (segment_writes (cu lens) B lo hi val) [0..<length lens]))"
    using assms(1) by auto
qed (use assms in auto)

theorem segments_initialise:
  assumes "hi \<le> sum_list lens" "length buf = hi - lo" "length buf' = hi - lo"
  shows "launch [0..<length lens] (segment_writes (cu lens) B lo hi val) buf
     = launch [0..<length lens] (segment_writes (cu lens) B lo hi val) buf'"
proof (rule nth_equalityI)
  show "length (launch [0..<length lens] (segment_writes (cu lens) B lo hi val) buf)
      = length (launch [0..<length lens] (segment_writes (cu lens) B lo hi val) buf')"
    using assms by simp
  fix i assume i: "i < length (launch [0..<length lens] (segment_writes (cu lens) B lo hi val) buf)"
  then have "lo + i < sum_list lens" using assms by simp
  then obtain b where b: "b < length lens" "cu lens ! b \<le> lo + i" "lo + i < cu lens ! Suc b"
    using cu_segment_exists by blast
  then show "launch [0..<length lens] (segment_writes (cu lens) B lo hi val) buf ! i
      = launch [0..<length lens] (segment_writes (cu lens) B lo hi val) buf' ! i"
    using segment_written [OF b, of buf] segment_written [OF b, of buf'] i assms by simp
qed

end

end
