(* ===== verification/Platform.thy ===== *)
theory Platform
  imports Prelude
begin

text \<open>
  What the overlay files read of the rest of vLLM: the platform queries of
  \<^verbatim>\<open>vllm.platforms.current_platform\<close> and \<^verbatim>\<open>vllm.utils.deep_gemm\<close>, and the configuration
  objects.  None of that code is in the repository, so each query is a field of a record that
  the definitions take as an argument.  The enumeration \<^verbatim>\<open>AttentionCGSupport\<close> has here the two
  members the sources use.

  \<open>sm121\<close> is a platform as the published image runs on (CUDA, compute capability 12.1,
  DeepGEMM present); \<open>family_of_major\<close> is the documented meaning of the family query.
\<close>

datatype cg_support = UNIFORM_BATCH | ALWAYS

record platform =
  is_cuda :: bool
  is_rocm :: bool
  is_xpu :: bool
  is_device_capability_family :: "nat \<Rightarrow> bool"
  get_device_capability :: "(nat \<times> nat) option"
  has_deep_gemm :: bool
  native_next_n_supported :: "nat \<Rightarrow> bool"

definition family_of_major :: "platform \<Rightarrow> bool" where
  "family_of_major p \<longleftrightarrow>
     (case get_device_capability p of
        None \<Rightarrow> True
      | Some (major, minor) \<Rightarrow>
          is_device_capability_family p 90 = (major = 9) \<and>
          is_device_capability_family p 100 = (major = 10) \<and>
          is_device_capability_family p 120 = (major = 12))"

definition sm121 :: platform where
  "sm121 = \<lparr>is_cuda = True, is_rocm = False, is_xpu = False,
     is_device_capability_family = (\<lambda>c. c div 10 = 12),
     get_device_capability = Some (12, 1), has_deep_gemm = True,
     native_next_n_supported = (\<lambda>n. n \<le> 2)\<rparr>"

lemma sm121_family: "family_of_major sm121"
  by (simp add: family_of_major_def sm121_def)

text \<open>The speculative configuration as the attention builders read it.\<close>

record spec_view =
  sv_num_speculative_tokens :: nat
  sv_enable_adaptive_verification :: bool
  sv_parallel_drafting :: bool
  sv_use_dspark :: bool

text \<open>\<open>hf_compress_ratios\<close> is \<open>None\<close> when the checkpoint configuration has no such attribute.\<close>

record hf_view =
  hf_sliding_window :: nat
  hf_index_topk :: nat
  hf_vision_n_layers :: nat
  hf_vision_max_n_token :: nat
  hf_compress_ratios :: "nat list option"

record vllm_config =
  cfg_max_model_len :: nat
  cfg_max_num_batched_tokens :: nat
  cfg_max_num_seqs :: nat
  cfg_decode_context_parallel_size :: nat
  cfg_prefill_context_parallel_size :: nat
  cfg_cp_kv_cache_interleave_size :: nat
  cfg_dcp_rank_in_group :: nat
  cfg_num_speculative_tokens :: nat
  cfg_speculative_config :: "spec_view option"
  cfg_indexer_kv_dtype :: string
  cfg_use_non_causal :: bool
  cfg_hf_config :: hf_view

text \<open>
  \<^verbatim>\<open>CommonAttentionMetadata\<close>: the batch the scheduler hands to every builder.  Device tensors
  and their CPU copies are separate fields, because under adaptive verification the device
  query lengths may differ from the CPU ones.
\<close>

record common_meta =
  cm_num_reqs :: nat
  cm_num_actual_tokens :: nat
  cm_max_query_len :: nat
  cm_max_seq_len :: nat
  cm_query_start_loc :: "nat list"
  cm_query_start_loc_cpu :: "nat list"
  cm_seq_lens :: "nat list"
  cm_seq_lens_cpu_upper_bound :: "nat list option"
  cm_slot_mapping :: "int list"
  cm_block_table :: tensor2
  cm_dcp_local_seq_lens :: "nat list option"
  cm_positions :: "nat list option"
  cm_causal :: bool
  cm_mm_req_doc_ranges :: "(nat \<times> (nat \<times> nat) list) list"

text \<open>
  \<^verbatim>\<open>split_decodes_and_prefills\<close> (not in the repository): number of decode requests, prefill
  requests, decode tokens and prefill tokens.  Its documented contract on a batch reordered
  with decodes first is that the four counts cut the batch at a request boundary.
\<close>

type_synonym batch_split = "nat \<times> nat \<times> nat \<times> nat"

definition split_contract :: "common_meta \<Rightarrow> batch_split \<Rightarrow> bool" where
  "split_contract cm sp \<longleftrightarrow>
     (case sp of (num_decodes, num_prefills, num_decode_tokens, num_prefill_tokens) \<Rightarrow>
        num_decodes + num_prefills = cm_num_reqs cm \<and>
        num_decode_tokens + num_prefill_tokens = cm_num_actual_tokens cm)"

end
