(* ===== verification/IndexerPrefill.thy ===== *)
theory IndexerPrefill
  imports Triton Platform
begin

text \<open>
  The prefill half of the DeepSeek sparse indexer,
  \<^verbatim>\<open>src/docker/overlay-sm121-adaptive/indexer.py\<close>: how prefill requests are cut into chunks
  that respect the workspace and the logits budget (\<open>split_indexer_prefill_chunks\<close>), the Triton
  kernel that computes the key range each query token scores
  (\<^verbatim>\<open>BuildPrefillChunkMetadataKernel\<close>), the sharding of that range over decode-context-parallel
  ranks, and \<open>build_prefill_chunk_metadata\<close>, which puts them together.
\<close>

section \<open>Splitting prefill requests into chunks\<close>

text \<open>The inner loop: absorb requests while both constraints hold.\<close>

function absorb_reqs ::
  "nat list \<Rightarrow> nat list \<Rightarrow> nat \<Rightarrow> nat \<Rightarrow> nat \<Rightarrow> nat \<Rightarrow> nat \<Rightarrow> nat \<times> nat \<times> nat" where
  "absorb_reqs seq_lens_cpu query_lens_cpu workspace_size max_logits_elems stop chunk_m chunk_n =
     (if stop < length seq_lens_cpu then
        let q = query_lens_cpu ! stop; s = seq_lens_cpu ! stop;
            new_m = chunk_m + q; new_n = chunk_n + s
        in if new_n \<le> workspace_size \<and> new_m * new_n \<le> max_logits_elems
           then absorb_reqs seq_lens_cpu query_lens_cpu workspace_size max_logits_elems
                  (stop + 1) new_m new_n
           else (stop, chunk_m, chunk_n)
      else (stop, chunk_m, chunk_n))"
  by pat_completeness auto
termination
  by (relation "measure (\<lambda>(seq_lens_cpu, _, _, _, stop, _, _). length seq_lens_cpu - stop)") auto

declare absorb_reqs.simps [simp del]

text \<open>One iteration of the outer loop: the chunk that starts at \<open>start\<close>, as (end, M, N).\<close>

definition next_chunk ::
  "nat list \<Rightarrow> nat list \<Rightarrow> nat \<Rightarrow> nat \<Rightarrow> nat \<Rightarrow> nat \<times> nat \<times> nat" where
  "next_chunk seq_lens_cpu query_lens_cpu workspace_size max_logits_elems start =
     (case absorb_reqs seq_lens_cpu query_lens_cpu workspace_size max_logits_elems start 0 0 of
        (stop, chunk_m, chunk_n) \<Rightarrow>
          if stop = start then (stop + 1, query_lens_cpu ! stop, seq_lens_cpu ! stop)
          else (stop, chunk_m, chunk_n))"

text \<open>The query-dimension sub-chunks of one chunk.\<close>

definition chunk_max_q :: "nat \<Rightarrow> nat \<Rightarrow> nat \<Rightarrow> nat" where
  "chunk_max_q max_logits_elems chunk_m chunk_n =
     (if 0 < chunk_n then max 1 (max_logits_elems div chunk_n) else max 1 chunk_m)"

definition sub_chunks :: "nat \<Rightarrow> nat \<Rightarrow> nat \<Rightarrow> (nat \<times> nat) list" where
  "sub_chunks max_logits_elems chunk_m chunk_n =
     (let max_q = chunk_max_q max_logits_elems chunk_m chunk_n
      in map (\<lambda>q_off. (q_off, q_off + min max_q (chunk_m - q_off))) (range_step 0 chunk_m max_q))"

lemma absorb_reqs_step:
  "e < length ss \<Longrightarrow> n + ss ! e \<le> W \<Longrightarrow> (m + qs ! e) * (n + ss ! e) \<le> L \<Longrightarrow>
   absorb_reqs ss qs W L e m n = absorb_reqs ss qs W L (Suc e) (m + qs ! e) (n + ss ! e)"
  by (subst absorb_reqs.simps) (simp add: Let_def)

lemma absorb_reqs_stop:
  "\<not> (e < length ss \<and> n + ss ! e \<le> W \<and> (m + qs ! e) * (n + ss ! e) \<le> L) \<Longrightarrow>
   absorb_reqs ss qs W L e m n = (e, m, n)"
  by (subst absorb_reqs.simps) (auto simp: Let_def)

lemma absorb_reqs_bounds:
  "absorb_reqs ss qs W L e m n = (e', m', n') \<Longrightarrow> e \<le> length ss \<Longrightarrow> e \<le> e' \<and> e' \<le> length ss"
proof (induction "length ss - e" arbitrary: e m n rule: less_induct)
  case less
  show ?case
  proof (cases "e < length ss \<and> n + ss ! e \<le> W \<and> (m + qs ! e) * (n + ss ! e) \<le> L")
    case True
    with less.prems have "absorb_reqs ss qs W L (Suc e) (m + qs ! e) (n + ss ! e) = (e', m', n')"
      by (simp add: absorb_reqs_step)
    moreover have "length ss - Suc e < length ss - e" using True by linarith
    ultimately have "Suc e \<le> e' \<and> e' \<le> length ss" using less.hyps True by simp
    then show ?thesis by simp
  next
    case False
    with less.prems show ?thesis by (simp add: absorb_reqs_stop)
  qed
qed

lemma next_chunk_bounds:
  assumes "next_chunk ss qs W L s = (e, m, n)" "s < length ss"
  shows "s < e \<and> e \<le> length ss"
proof -
  obtain e' m' n' where a: "absorb_reqs ss qs W L s 0 0 = (e', m', n')" by (metis prod_cases3)
  have "s \<le> e' \<and> e' \<le> length ss" using absorb_reqs_bounds [OF a] assms(2) by simp
  then show ?thesis using assms a by (auto simp: next_chunk_def split: if_splits)
qed

text \<open>
  The outer loop from request \<open>end\<close>.  A chunk is a request slice and a query slice, each a
  half-open interval.
\<close>

function split_chunks_from ::
  "nat list \<Rightarrow> nat list \<Rightarrow> nat \<Rightarrow> nat \<Rightarrow> nat \<Rightarrow> nat \<Rightarrow> ((nat \<times> nat) \<times> (nat \<times> nat)) list" where
  "split_chunks_from seq_lens_cpu query_lens_cpu workspace_size max_logits_elems request_offset start =
     (if start < length seq_lens_cpu then
        (case next_chunk seq_lens_cpu query_lens_cpu workspace_size max_logits_elems start of
           (stop, chunk_m, chunk_n) \<Rightarrow>
             map (\<lambda>query_slice. ((start + request_offset, stop + request_offset), query_slice))
               (sub_chunks max_logits_elems chunk_m chunk_n)
             @ split_chunks_from seq_lens_cpu query_lens_cpu workspace_size max_logits_elems
                 request_offset stop)
      else [])"
  by pat_completeness auto
termination
  by (relation "measure (\<lambda>(seq_lens_cpu, _, _, _, _, start). length seq_lens_cpu - start)")
    (auto dest!: next_chunk_bounds [OF sym])

declare split_chunks_from.simps [simp del]

definition split_indexer_prefill_chunks ::
  "nat list \<Rightarrow> nat list \<Rightarrow> nat \<Rightarrow> nat \<Rightarrow> nat \<Rightarrow> ((nat \<times> nat) \<times> (nat \<times> nat)) list" where
  "split_indexer_prefill_chunks seq_lens_cpu query_lens_cpu workspace_size max_logits_bytes request_offset =
     split_chunks_from seq_lens_cpu query_lens_cpu workspace_size (max_logits_bytes div 4) request_offset 0"

section \<open>The key range of each query token\<close>

text \<open>
  Sharding of a context length over decode-context-parallel ranks, as the kernel computes it:
  blocks of \<open>interleave\<close> tokens are dealt to the ranks in turn.
\<close>

definition dcp_local_len :: "int \<Rightarrow> nat \<Rightarrow> nat \<Rightarrow> nat \<Rightarrow> int" where
  "dcp_local_len len_per_token DCP_RANK DCP_WORLD DCP_INTERLEAVE =
     (if DCP_WORLD > 1 then
        let base = tl_div (tl_div len_per_token (int DCP_INTERLEAVE)) (int DCP_WORLD) * int DCP_INTERLEAVE;
            remainder = len_per_token - base * int DCP_WORLD;
            remainder' = min (max (remainder - int DCP_RANK * int DCP_INTERLEAVE) 0) (int DCP_INTERLEAVE)
        in base + remainder'
      else len_per_token)"

record prefill_kernel_args =
  ka_query_start_loc :: "nat list"
  ka_uncompressed_seq_lens :: "nat list"
  ka_cu_compressed_seq_lens :: "nat list"
  ka_row_start_cu_compressed_seq_lens :: "nat list"
  ka_query_slice_start :: nat
  ka_query_slice_stop :: nat
  ka_DCP_RANK :: nat
  ka_DCP_WORLD :: nat
  ka_DCP_INTERLEAVE :: nat
  ka_BLOCK_SIZE :: nat
  ka_COMPRESS_RATIO :: nat

text \<open>Per-token context length of the token at offset \<open>off\<close> of request \<open>batch_idx\<close>.\<close>

definition kernel_len_per_token :: "prefill_kernel_args \<Rightarrow> nat \<Rightarrow> nat \<Rightarrow> int" where
  "kernel_len_per_token ka batch_idx off =
     (let query_len = int (ka_query_start_loc ka ! Suc batch_idx) - int (ka_query_start_loc ka ! batch_idx);
          start_pos = int (ka_uncompressed_seq_lens ka ! batch_idx) - query_len;
          global_ctx = start_pos + 1 + int off
      in dcp_local_len (tl_div global_ctx (int (ka_COMPRESS_RATIO ka)))
           (ka_DCP_RANK ka) (ka_DCP_WORLD ka) (ka_DCP_INTERLEAVE ka))"

text \<open>Program \<open>batch_idx\<close> of the kernel: its stores to the three outputs.\<close>

definition token_to_seq_program :: "prefill_kernel_args \<Rightarrow> nat \<Rightarrow> int writes" where
  "token_to_seq_program ka batch_idx =
     (let seq_start = ka_cu_compressed_seq_lens ka ! batch_idx;
          seq_end = ka_cu_compressed_seq_lens ka ! Suc batch_idx;
          compressed_seq_len = seq_end - seq_start
      in map (\<lambda>offset. (seq_start + offset, int batch_idx))
           (filter (\<lambda>offset. offset < compressed_seq_len)
              (block_offsets compressed_seq_len (ka_BLOCK_SIZE ka))))"

definition ks_program :: "prefill_kernel_args \<Rightarrow> nat \<Rightarrow> int writes" where
  "ks_program ka =
     segment_writes (ka_query_start_loc ka) (ka_BLOCK_SIZE ka)
       (ka_query_slice_start ka) (ka_query_slice_stop ka)
       (\<lambda>batch_idx offset. int (ka_row_start_cu_compressed_seq_lens ka ! batch_idx))"

definition ke_program :: "prefill_kernel_args \<Rightarrow> nat \<Rightarrow> int writes" where
  "ke_program ka =
     segment_writes (ka_query_start_loc ka) (ka_BLOCK_SIZE ka)
       (ka_query_slice_start ka) (ka_query_slice_stop ka)
       (\<lambda>batch_idx offset. int (ka_row_start_cu_compressed_seq_lens ka ! batch_idx)
          + kernel_len_per_token ka batch_idx offset)"

section \<open>Chunk metadata\<close>

record prefill_chunk_metadata =
  pc_block_table :: "int list list"
  pc_cu_seqlen_ks :: "int list"
  pc_cu_seqlen_ke :: "int list"
  pc_cu_seq_lens :: "nat list"
  pc_token_to_seq :: "int list"
  pc_total_seq_lens :: nat
  pc_token_start :: nat
  pc_token_end :: nat
  pc_num_reqs :: nat
  pc_skip_kv_gather :: bool
  pc_local_cu_seq_lens :: "nat list"
  pc_local_total_seq_lens :: nat
  pc_max_local_total_seq_lens :: nat

text \<open>
  \<open>shard len world rank interleave\<close> stands for \<^verbatim>\<open>get_dcp_local_seq_lens\<close> (not in the
  repository), element by element; \<open>uninit\<close> is what \<^verbatim>\<open>torch.empty\<close> returns.
\<close>

type_synonym shard_fn = "nat \<Rightarrow> nat \<Rightarrow> nat \<Rightarrow> nat \<Rightarrow> nat"

text \<open>The ranks' shares of the requests of a chunk, and the arguments of the kernel launch.\<close>

definition rank_counts :: "shard_fn \<Rightarrow> nat \<Rightarrow> nat \<Rightarrow> nat list \<Rightarrow> nat \<Rightarrow> nat list" where
  "rank_counts shard dcp_world_size interleave_size lens r =
     map (\<lambda>l. shard l dcp_world_size r interleave_size) lens"

definition prefill_kernel_args_for ::
  "shard_fn \<Rightarrow> nat \<Rightarrow> nat \<Rightarrow> nat list \<Rightarrow> nat list \<Rightarrow> nat list \<Rightarrow> nat \<Rightarrow> nat \<times> nat \<Rightarrow> nat \<Rightarrow> nat \<Rightarrow> nat
   \<Rightarrow> prefill_kernel_args" where
  "prefill_kernel_args_for shard start_idx end_idx query_start_loc uncompressed_seq_lens
     compressed_seq_lens compress_ratio qs dcp_rank dcp_world_size interleave_size =
     (let lens = pyslice start_idx end_idx compressed_seq_lens
      in \<lparr>ka_query_start_loc =
            map (\<lambda>x. x - query_start_loc ! start_idx) (pyslice start_idx (end_idx + 1) query_start_loc),
          ka_uncompressed_seq_lens = pyslice start_idx end_idx uncompressed_seq_lens,
          ka_cu_compressed_seq_lens = cu lens,
          ka_row_start_cu_compressed_seq_lens =
            (if dcp_world_size > 1 then cu (rank_counts shard dcp_world_size interleave_size lens dcp_rank)
             else cu lens),
          ka_query_slice_start = fst qs, ka_query_slice_stop = snd qs,
          ka_DCP_RANK = dcp_rank, ka_DCP_WORLD = dcp_world_size, ka_DCP_INTERLEAVE = interleave_size,
          ka_BLOCK_SIZE = 1024, ka_COMPRESS_RATIO = compress_ratio\<rparr>)"

definition build_prefill_chunk_metadata ::
  "shard_fn \<Rightarrow> (nat \<Rightarrow> int) \<Rightarrow> nat \<Rightarrow> nat \<Rightarrow> nat list \<Rightarrow> nat list \<Rightarrow> nat list \<Rightarrow> nat list \<Rightarrow> nat list
   \<Rightarrow> tensor2 \<Rightarrow> nat \<Rightarrow> (nat \<times> nat) option \<Rightarrow> bool \<Rightarrow> nat \<Rightarrow> nat \<Rightarrow> nat
   \<Rightarrow> prefill_chunk_metadata option" where
  "build_prefill_chunk_metadata shard uninit start_idx end_idx query_start_loc query_start_loc_cpu
     uncompressed_seq_lens compressed_seq_lens compressed_seq_lens_cpu block_table compress_ratio
     query_slice skip_kv_gather dcp_rank dcp_world_size interleave_size =
     (let total_seq_lens = sum_list (pyslice start_idx end_idx compressed_seq_lens_cpu)
      in if total_seq_lens = 0 then None
         else
           let num_reqs = end_idx - start_idx;
               lens = pyslice start_idx end_idx compressed_seq_lens;
               counts = rank_counts shard dcp_world_size interleave_size lens;
               total_query_len = query_start_loc_cpu ! end_idx - query_start_loc_cpu ! start_idx;
               (qs_start, qs_stop) =
                 (case query_slice of Some qs \<Rightarrow> qs | None \<Rightarrow> (0, total_query_len));
               output_query_len = qs_stop - qs_start;
               ka = prefill_kernel_args_for shard start_idx end_idx query_start_loc uncompressed_seq_lens
                      compressed_seq_lens compress_ratio (qs_start, qs_stop)
                      dcp_rank dcp_world_size interleave_size;
               local_cu_seq_lens = ka_row_start_cu_compressed_seq_lens ka;
               token_start = query_start_loc_cpu ! start_idx
           in Some \<lparr>pc_block_table = pyslice start_idx end_idx (rows_of block_table),
                pc_cu_seqlen_ks =
                  launch [0..<num_reqs] (ks_program ka) (map uninit [0..<output_query_len]),
                pc_cu_seqlen_ke =
                  launch [0..<num_reqs] (ke_program ka) (map uninit [0..<output_query_len]),
                pc_cu_seq_lens = cu lens,
                pc_token_to_seq =
                  launch [0..<num_reqs] (token_to_seq_program ka) (map uninit [0..<total_seq_lens]),
                pc_total_seq_lens = total_seq_lens,
                pc_token_start = (case query_slice of Some _ \<Rightarrow> token_start + qs_start | None \<Rightarrow> token_start),
                pc_token_end =
                  (case query_slice of Some _ \<Rightarrow> token_start + qs_stop
                                     | None \<Rightarrow> query_start_loc_cpu ! end_idx),
                pc_num_reqs = num_reqs,
                pc_skip_kv_gather =
                  (case query_slice of Some _ \<Rightarrow> skip_kv_gather \<or> qs_start > 0 | None \<Rightarrow> skip_kv_gather),
                pc_local_cu_seq_lens = local_cu_seq_lens,
                pc_local_total_seq_lens =
                  (if dcp_world_size > 1 then last local_cu_seq_lens else total_seq_lens),
                pc_max_local_total_seq_lens =
                  (if dcp_world_size > 1
                   then fold max (map (\<lambda>r. sum_list (counts r)) [0..<dcp_world_size]) 0
                   else total_seq_lens)\<rparr>)"

section \<open>The chunks cover the batch and respect the budgets\<close>

lemma slice_Suc_left:
  "e < e' \<Longrightarrow> e < length xs \<Longrightarrow> pyslice e e' xs = xs ! e # pyslice (Suc e) e' xs"
  by (simp add: pyslice_def Cons_nth_drop_Suc [symmetric] take_Cons' Suc_diff_Suc [symmetric])

lemma slice_empty [simp]: "pyslice e e xs = []"
  by (simp add: pyslice_def)

text \<open>What the inner loop has absorbed: exactly the sums over its requests, within both budgets.\<close>

lemma absorb_reqs_sums:
  "absorb_reqs ss qs W L e m n = (e', m', n') \<Longrightarrow> length qs = length ss \<Longrightarrow> e \<le> length ss \<Longrightarrow>
   m' = m + sum_list (pyslice e e' qs) \<and> n' = n + sum_list (pyslice e e' ss)
   \<and> (e < e' \<longrightarrow> n' \<le> W \<and> m' * n' \<le> L)"
proof (induction "length ss - e" arbitrary: e m n rule: less_induct)
  case less
  show ?case
  proof (cases "e < length ss \<and> n + ss ! e \<le> W \<and> (m + qs ! e) * (n + ss ! e) \<le> L")
    case True
    with less.prems have r: "absorb_reqs ss qs W L (Suc e) (m + qs ! e) (n + ss ! e) = (e', m', n')"
      by (simp add: absorb_reqs_step)
    have lt: "Suc e \<le> e'" using absorb_reqs_bounds [OF r] True by simp
    have dec: "length ss - Suc e < length ss - e" using True by linarith
    have IH: "m' = m + qs ! e + sum_list (pyslice (Suc e) e' qs)
        \<and> n' = n + ss ! e + sum_list (pyslice (Suc e) e' ss) \<and> (Suc e < e' \<longrightarrow> n' \<le> W \<and> m' * n' \<le> L)"
      by (rule less.hyps [OF dec r less.prems(2)]) (use True in simp)
    show ?thesis
    proof (cases "Suc e = e'")
      case e': True
      with IH True less.prems show ?thesis by (auto simp: slice_Suc_left)
    next
      case False
      with IH True less.prems lt show ?thesis by (auto simp: slice_Suc_left)
    qed
  next
    case False
    with less.prems show ?thesis by (simp add: absorb_reqs_stop)
  qed
qed

lemma next_chunk_sums:
  assumes "next_chunk ss qs W L s = (e, m, n)" "s < length ss" "length qs = length ss"
  shows "m = sum_list (pyslice s e qs) \<and> n = sum_list (pyslice s e ss)
    \<and> (n \<le> W \<and> m * n \<le> L \<or> e = Suc s)"
proof -
  obtain e' m' n' where a: "absorb_reqs ss qs W L s 0 0 = (e', m', n')" by (metis prod_cases3)
  have b: "s \<le> e'" using absorb_reqs_bounds [OF a] assms(2) by simp
  have c: "m' = sum_list (pyslice s e' qs) \<and> n' = sum_list (pyslice s e' ss)
    \<and> (s < e' \<longrightarrow> n' \<le> W \<and> m' * n' \<le> L)"
    using absorb_reqs_sums [OF a assms(3) less_imp_le [OF assms(2)]] unfolding add_0 .
  show ?thesis
    using assms a b c by (auto simp: next_chunk_def slice_Suc_left split: if_splits)
qed

text \<open>The requests a planner step absorbs, as a chunk planner.\<close>

definition chunk_stop :: "nat list \<Rightarrow> nat list \<Rightarrow> nat \<Rightarrow> nat \<Rightarrow> nat \<Rightarrow> nat" where
  "chunk_stop ss qs W L s = fst (next_chunk ss qs W L s)"

lemma indexer_planner: "chunk_planner (chunk_stop ss qs W L) (length ss)"
proof
  fix s assume s: "s < length ss"
  obtain e m n where "next_chunk ss qs W L s = (e, m, n)" by (metis prod_cases3)
  with s show "s < chunk_stop ss qs W L s" "chunk_stop ss qs W L s \<le> length ss"
    using next_chunk_bounds by (fastforce simp: chunk_stop_def)+
qed

interpretation indexer_plan: chunk_planner "chunk_stop ss qs W L" "length ss" for ss qs W L
  by (rule indexer_planner)

text \<open>A sub-chunk sequence cuts the query tokens of its chunk.\<close>

lemma chunk_max_q_pos: "0 < chunk_max_q L m n"
  by (simp add: chunk_max_q_def max_def)

interpretation query_plan: chunk_planner "step_to (chunk_max_q L m n) m" m for L m n
  by (rule step_planner [OF chunk_max_q_pos])

lemma sub_chunks_plan: "plan_from 0 m (sub_chunks L m n)"
proof -
  let ?q = "chunk_max_q L m n"
  have "sub_chunks L m n = map (\<lambda>i. (i, min (i + ?q) m)) (range_step 0 m ?q)"
    unfolding sub_chunks_def Let_def
  proof (rule map_cong [OF refl])
    fix i assume "i \<in> set (range_step 0 m ?q)"
    then have "i < m" by (rule range_step_less)
    then show "(i, i + min ?q (m - i)) = (i, min (i + ?q) m)" by simp
  qed
  also have "\<dots> = run_plan (step_to ?q m) m 0" by (rule range_step_plan [OF chunk_max_q_pos])
  finally show ?thesis using query_plan.run_is_plan by simp
qed

lemma sub_chunk_width:
  assumes "(a, b) \<in> set (sub_chunks L m n)"
  shows "b - a \<le> chunk_max_q L m n \<and> b \<le> m \<and> a < b"
proof -
  have "b = a + min (chunk_max_q L m n) (m - a)"
    using assms by (auto simp: sub_chunks_def Let_def)
  moreover have "a < b \<and> b \<le> m"
    using plan_from_member [OF sub_chunks_plan assms] by simp
  ultimately show ?thesis by simp
qed

text \<open>A chunk whose query tokens fit in one sub-chunk is not cut.\<close>

lemma sub_chunks_whole:
  assumes "(a, b) \<in> set (sub_chunks L m n)" "m \<le> chunk_max_q L m n"
  shows "a = 0 \<and> b = m"
proof -
  have m: "0 < m" using sub_chunk_width [OF assms(1)] by linarith
  have "range_step 0 m (chunk_max_q L m n) = [0]"
    using assms(2) m by (subst range_step.simps) (simp add: chunk_max_q_pos)
  then show ?thesis using assms by (simp add: sub_chunks_def Let_def)
qed

text \<open>A query slice of a chunk, in token positions of the whole prefill batch.\<close>

definition chunk_tokens :: "nat list \<Rightarrow> nat \<Rightarrow> (nat \<times> nat) \<times> (nat \<times> nat) \<Rightarrow> nat list" where
  "chunk_tokens query_lens_cpu request_offset c =
     (case c of ((r, _), (a, b)) \<Rightarrow>
        [cu query_lens_cpu ! (r - request_offset) + a ..< cu query_lens_cpu ! (r - request_offset) + b])"

lemma sum_slice: "s \<le> e \<Longrightarrow> e \<le> length xs \<Longrightarrow> sum_list (pyslice s e xs) = cu xs ! e - cu xs ! s"
proof -
  assume a: "s \<le> e" "e \<le> length xs"
  have "take e xs = take s xs @ pyslice s e xs"
    using a by (simp add: pyslice_def take_add [symmetric])
  then show ?thesis using a by (simp add: nth_cu)
qed

lemma concat_shifted_plan:
  "plan_from s n cs \<Longrightarrow> concat (map (\<lambda>(a, b). [k + a..<k + b]) cs) = [k + s..<k + n]"
  by (induction rule: plan_from.induct) (simp_all add: upt_split)

lemma split_chunks_from_covers:
  assumes "length query_lens_cpu = length seq_lens_cpu" "start \<le> length seq_lens_cpu"
  shows "concat (map (chunk_tokens query_lens_cpu off)
      (split_chunks_from seq_lens_cpu query_lens_cpu W L off start))
     = [cu query_lens_cpu ! start ..< sum_list query_lens_cpu]"
  using assms
proof (induction "length seq_lens_cpu - start" arbitrary: start rule: less_induct)
  case less
  show ?case
  proof (cases "start < length seq_lens_cpu")
    case True
    obtain e m n where nc: "next_chunk seq_lens_cpu query_lens_cpu W L start = (e, m, n)"
      by (metis prod_cases3)
    note b = next_chunk_bounds [OF nc True]
    have m: "cu query_lens_cpu ! start + m = cu query_lens_cpu ! e"
      using next_chunk_sums [OF nc True] less.prems b
        cu_mono [of start e query_lens_cpu] by (simp add: sum_slice)
    have this_chunk: "concat (map (chunk_tokens query_lens_cpu off)
        (map (\<lambda>sl. ((start + off, e + off), sl)) (sub_chunks L m n)))
        = [cu query_lens_cpu ! start ..< cu query_lens_cpu ! e]"
      using concat_shifted_plan [OF sub_chunks_plan [of m L n], of "cu query_lens_cpu ! start"] m
      by (simp add: chunk_tokens_def comp_def)
    have "concat (map (chunk_tokens query_lens_cpu off)
        (split_chunks_from seq_lens_cpu query_lens_cpu W L off e))
        = [cu query_lens_cpu ! e ..< sum_list query_lens_cpu]"
      using less.prems b True by (intro less.hyps) auto
    with this_chunk show ?thesis
      using True nc less.prems b cu_mono [of start e query_lens_cpu] cu_le_sum [of e query_lens_cpu]
      by (subst split_chunks_from.simps) (simp add: upt_split del: map_map)
  next
    case False
    with less.prems show ?thesis by (subst split_chunks_from.simps) (simp add: nth_cu)
  qed
qed

lemma split_chunks_from_member:
  assumes "((r, r'), (a, b)) \<in> set (split_chunks_from ss qs W L off start)"
    and "start \<le> length ss"
  shows "\<exists>s e m n. s < length ss \<and> next_chunk ss qs W L s = (e, m, n)
     \<and> r = s + off \<and> r' = e + off \<and> (a, b) \<in> set (sub_chunks L m n)"
  using assms
proof (induction "length ss - start" arbitrary: start rule: less_induct)
  case less
  show ?case
  proof (cases "start < length ss")
    case True
    obtain e m n where nc: "next_chunk ss qs W L start = (e, m, n)" by (metis prod_cases3)
    note bd = next_chunk_bounds [OF nc True]
    from less.prems True nc consider
        "(a, b) \<in> set (sub_chunks L m n)" "r = start + off" "r' = e + off"
      | "((r, r'), (a, b)) \<in> set (split_chunks_from ss qs W L off e)"
      by (subst (asm) split_chunks_from.simps) auto
    then show ?thesis
    proof cases
      case 1
      with True nc show ?thesis by blast
    next
      case 2
      have "length ss - e < length ss - start" using bd True by linarith
      from less.hyps [OF this 2] bd show ?thesis by blast
    qed
  next
    case False
    with less.prems show ?thesis by (subst (asm) split_chunks_from.simps) simp
  qed
qed

text \<open>
  C16. Splitting loses no query token and scores none twice: the query slices of the chunks,
  read as token positions of the flattened prefill batch and taken in the order in which the
  chunks are returned, are exactly the positions \<open>0, 1, \<dots>\<close> up to the total number of query
  tokens.
\<close>

theorem split_chunks_cover_once:
  assumes "length query_lens_cpu = length seq_lens_cpu"
  shows "concat (map (chunk_tokens query_lens_cpu request_offset)
      (split_indexer_prefill_chunks seq_lens_cpu query_lens_cpu workspace_size max_logits_bytes request_offset))
    = [0..<sum_list query_lens_cpu]"
  using split_chunks_from_covers [OF assms, of 0]
  by (simp add: split_indexer_prefill_chunks_def nth_cu)

theorem split_chunks_cover_once_witness:
  "concat (map (chunk_tokens [3, 9, 2] 5) (split_indexer_prefill_chunks [4, 8, 2] [3, 9, 2] 12 128 5))
     = [0..<14]"
  using split_chunks_cover_once [of "[3, 9, 2]" "[4, 8, 2]" 5 12 128] by simp

text \<open>
  C33. The budgets of the docstring, with the two exceptions the code makes.  For every chunk,
  with \<open>N\<close> the keys of its requests and \<open>M\<close> the width of its query slice: \<open>N\<close> is within the
  workspace unless the chunk is a single request; the logits \<open>4 * M * N\<close> are within the byte
  budget unless \<open>M\<close> is one token; and a chunk of more than one request is never cut on the
  query dimension.
\<close>

theorem split_chunks_within_budget:
  assumes mem: "((r, r'), (a, b)) \<in> set (split_indexer_prefill_chunks ss qs W B off)"
    and len: "length qs = length ss"
  shows "off \<le> r \<and> r < r' \<and> r' \<le> off + length ss
    \<and> (sum_list (pyslice (r - off) (r' - off) ss) \<le> W \<or> r' = Suc r)
    \<and> (4 * ((b - a) * sum_list (pyslice (r - off) (r' - off) ss)) \<le> B \<or> b = Suc a)
    \<and> (r' = Suc r \<or> a = 0 \<and> b = sum_list (pyslice (r - off) (r' - off) qs))"
proof -
  let ?L = "B div 4"
  from split_chunks_from_member [OF mem [unfolded split_indexer_prefill_chunks_def]]
  obtain s e m n where s: "s < length ss" and nc: "next_chunk ss qs W ?L s = (e, m, n)"
    and r: "r = s + off" "r' = e + off" and ab: "(a, b) \<in> set (sub_chunks ?L m n)" by auto
  note bd = next_chunk_bounds [OF nc s]
  note sums = next_chunk_sums [OF nc s len]
  note w = sub_chunk_width [OF ab]
  have N: "sum_list (pyslice (r - off) (r' - off) ss) = n"
    and M: "sum_list (pyslice (r - off) (r' - off) qs) = m" using r sums by auto
  have logits: "4 * ((b - a) * n) \<le> B \<or> b = Suc a"
  proof (cases "n = 0 \<or> b = Suc a")
    case False
    then have "b - a \<le> max 1 (?L div n)" using w by (simp add: chunk_max_q_def)
    with False w have "b - a \<le> ?L div n" by (auto simp: max_def split: if_splits)
    then have "(b - a) * n \<le> ?L" using False by (metis div_times_less_eq_dividend le_trans mult_le_mono1)
    then show ?thesis by linarith
  qed auto
  have whole: "e = Suc s \<or> a = 0 \<and> b = m"
  proof (cases "e = Suc s")
    case False
    with sums have fit: "m * n \<le> ?L" by auto
    have "m \<le> chunk_max_q ?L m n"
      using fit by (auto simp: chunk_max_q_def less_eq_div_iff_mult_less_eq le_max_iff_disj)
    then show ?thesis using ab sub_chunks_whole by blast
  qed simp
  show ?thesis unfolding N M using r bd sums logits whole by auto
qed

theorem split_chunks_within_budget_witness:
  "((6, 7), (0, 4)) \<in> set (split_indexer_prefill_chunks [4, 8, 2] [3, 9, 2] 12 128 5)
   \<and> 4 * ((4 - 0) * sum_list (pyslice (6 - 5) (7 - 5) [4, 8, 2])) \<le> (128::nat)"
proof -
  have c: "((6, 7), (0, 4)) \<in> set (split_indexer_prefill_chunks [4, 8, 2] [3, 9, 2] 12 128 5)"
    by code_simp
  show ?thesis using split_chunks_within_budget [OF c] c by simp
qed

section \<open>Sharding over decode-context-parallel ranks\<close>

text \<open>
  What the gather and the top-k merge rely on: the ranks' shares of a context add up to the
  context, a share is never negative, and a longer context never has a shorter share.
\<close>

locale kv_sharding =
  fixes local_len :: "int \<Rightarrow> nat \<Rightarrow> int" and world :: nat
  assumes total: "0 \<le> len \<Longrightarrow> (\<Sum>r<world. local_len len r) = len"
    and nonneg: "0 \<le> len \<Longrightarrow> 0 \<le> local_len len r"
    and monotone: "0 \<le> len \<Longrightarrow> len \<le> len' \<Longrightarrow> local_len len r \<le> local_len len' r"
begin

lemma local_le:
  assumes "0 \<le> len" "r < world"
  shows "local_len len r \<le> len"
proof -
  have "local_len len r \<le> (\<Sum>r<world. local_len len r)"
    using assms nonneg by (intro member_le_sum) auto
  with total [OF assms(1)] show ?thesis by simp
qed

text \<open>The keys added between two contexts are dealt to the ranks without loss.\<close>

lemma growth_split:
  assumes "0 \<le> len" "len \<le> len'"
  shows "(\<Sum>r<world. local_len len' r - local_len len r) = len' - len"
  using assms total by (simp add: sum_subtractf)

end

lemma sum_dealt:
  assumes "0 \<le> (x::int)" "0 \<le> K"
  shows "(\<Sum>r<n. min (max (x - int r * K) 0) K) = min x (int n * K)"
proof (induction n)
  case (Suc n)
  have "min (max (x - int n * K) 0) K + min x (int n * K) = min x (int n * K + K)"
    using assms by (simp add: min_def max_def)
  then show ?case using Suc by (simp add: algebra_simps)
qed (use assms in simp)

lemma dcp_local_len_eq:
  assumes "1 < W" "0 \<le> len" "0 < K"
  shows "dcp_local_len len r W K =
    (len div (int K * int W)) * int K + min (max (len mod (int K * int W) - int r * int K) 0) (int K)"
proof -
  have "0 \<le> len div int K" using assms by (simp add: pos_imp_zdiv_nonneg_iff)
  then have "tl_div (tl_div len (int K)) (int W) = len div (int K * int W)"
    using assms by (simp add: tl_div_nonneg zdiv_zmult2_eq)
  moreover have "len - len div (int K * int W) * int K * int W = len mod (int K * int W)"
    by (metis minus_div_mult_eq_mod mult.assoc)
  ultimately show ?thesis using assms by (simp add: dcp_local_len_def Let_def)
qed

lemma dcp_sum:
  assumes "0 \<le> len" "0 < W" "0 < K"
  shows "(\<Sum>r<W. dcp_local_len len r W K) = len"
proof (cases "1 < W")
  case True
  let ?p = "int K * int W"
  have p: "0 < ?p" using assms by simp
  have "(\<Sum>r<W. dcp_local_len len r W K)
      = (\<Sum>r<W. (len div ?p) * int K) + (\<Sum>r<W. min (max (len mod ?p - int r * int K) 0) (int K))"
    by (simp add: dcp_local_len_eq [OF True assms(1,3)] sum.distrib)
  also have "(\<Sum>r<W. min (max (len mod ?p - int r * int K) 0) (int K)) = min (len mod ?p) (int W * int K)"
    using p by (intro sum_dealt) auto
  also have "\<dots> = len mod ?p"
    using pos_mod_bound [OF p, of len] by (simp add: mult.commute)
  also have "(\<Sum>r<W. (len div ?p) * int K) = len div ?p * ?p" by (simp add: ac_simps)
  finally show ?thesis by (simp only: div_mult_mod_eq)
next
  case False
  with assms have "W = 1" by simp
  then show ?thesis by (simp add: dcp_local_len_def)
qed

lemma dcp_nonneg:
  assumes "0 \<le> len" "0 < K"
  shows "0 \<le> dcp_local_len len r W K"
proof (cases "1 < W")
  case True
  have "0 \<le> len div (int K * int W)" using assms True by (simp add: pos_imp_zdiv_nonneg_iff)
  then show ?thesis using assms by (simp add: dcp_local_len_eq [OF True assms])
qed (use assms in \<open>simp add: dcp_local_len_def\<close>)

lemma dcp_mono:
  assumes "0 \<le> len" "len \<le> len'" "0 < K"
  shows "dcp_local_len len r W K \<le> dcp_local_len len' r W K"
proof (cases "1 < W")
  case True
  let ?p = "int K * int W"
  have p: "0 < ?p" using assms True by simp
  have nn: "0 \<le> len'" using assms by simp
  note eqs = dcp_local_len_eq [OF True assms(1,3)] dcp_local_len_eq [OF True nn assms(3)]
  let ?s = "\<lambda>l. min (max (l mod ?p - int r * int K) 0) (int K)"
  have le: "len div ?p \<le> len' div ?p" using assms(2) p by (rule zdiv_mono1)
  show ?thesis
  proof (cases "len div ?p = len' div ?p")
    case same: True
    have "len mod ?p \<le> len' mod ?p"
      using same assms(2) by (metis add_le_cancel_left mult_div_mod_eq)
    then show ?thesis using same by (simp add: eqs min_def max_def)
  next
    case False
    then have "len div ?p + 1 \<le> len' div ?p" using le by simp
    then have "(len div ?p + 1) * int K \<le> len' div ?p * int K" by (intro mult_right_mono) auto
    moreover have "?s len \<le> int K" "0 \<le> ?s len'" by auto
    ultimately show ?thesis unfolding eqs by (simp add: algebra_simps)
  qed
qed (use assms in \<open>simp add: dcp_local_len_def\<close>)

text \<open>The kernel's formula meets the contract for every world size and interleave.\<close>

interpretation dcp: kv_sharding "\<lambda>len r. dcp_local_len len r (Suc w) (Suc k)" "Suc w" for w k
  by unfold_locales (auto intro: dcp_sum dcp_nonneg dcp_mono simp del: sum.lessThan_Suc)

text \<open>
  Under decode context parallelism the kernel gives every rank its share of the context of
  a query token: over all ranks the shares add up to the length the kernel computes without
  sharding, so no key is dropped and none is scored on two ranks, for every world size and
  every interleave.
\<close>

theorem dcp_ranks_share_context:
  assumes "0 < W" "0 < K" "0 < ka_COMPRESS_RATIO ka"
    and "ka_query_start_loc ka ! b \<le> ka_query_start_loc ka ! Suc b"
    and "ka_query_start_loc ka ! Suc b - ka_query_start_loc ka ! b \<le> ka_uncompressed_seq_lens ka ! b"
  shows "(\<Sum>r<W. kernel_len_per_token
            (ka\<lparr>ka_DCP_RANK := r, ka_DCP_WORLD := W, ka_DCP_INTERLEAVE := K\<rparr>) b off)
       = kernel_len_per_token (ka\<lparr>ka_DCP_WORLD := 1\<rparr>) b off"
proof -
  obtain w k where wk: "W = Suc w" "K = Suc k" using assms(1,2) by (metis Suc_pred)
  let ?g = "int (ka_uncompressed_seq_lens ka ! b)
     - (int (ka_query_start_loc ka ! Suc b) - int (ka_query_start_loc ka ! b)) + 1 + int off"
  let ?ctx = "tl_div ?g (int (ka_COMPRESS_RATIO ka))"
  have "0 \<le> ?g" using assms by auto
  then have "0 \<le> ?ctx"
    using assms(3) by (simp add: tl_div_nonneg) (simp add: pos_imp_zdiv_nonneg_iff)
  then show ?thesis
    using dcp.total [of ?ctx w k] by (simp add: kernel_len_per_token_def Let_def wk dcp_local_len_def)
qed

definition ka_example :: prefill_kernel_args where
  "ka_example = \<lparr>ka_query_start_loc = [0, 3], ka_uncompressed_seq_lens = [10],
     ka_cu_compressed_seq_lens = [0, 10], ka_row_start_cu_compressed_seq_lens = [0, 5],
     ka_query_slice_start = 0, ka_query_slice_stop = 3, ka_DCP_RANK = 0, ka_DCP_WORLD = 1,
     ka_DCP_INTERLEAVE = 1, ka_BLOCK_SIZE = 1024, ka_COMPRESS_RATIO = 1\<rparr>"

theorem dcp_ranks_share_context_witness:
  "(\<Sum>r<2. kernel_len_per_token
      (ka_example\<lparr>ka_DCP_RANK := r, ka_DCP_WORLD := 2, ka_DCP_INTERLEAVE := 1\<rparr>) 0 1) = 9"
  using dcp_ranks_share_context [of 2 1 ka_example 0 1]
  by (simp add: ka_example_def kernel_len_per_token_def dcp_local_len_def tl_div_nonneg)

section \<open>The kernel's outputs\<close>

lemma length_pyslice_full: "e \<le> length xs \<Longrightarrow> length (pyslice s e xs) = e - s"
  by (auto simp: length_slice min_def)

text \<open>Rebasing the query offsets of a request range gives the offsets of that range.\<close>

lemma rebase_cu:
  assumes "start \<le> stop" "stop \<le> length qs"
  shows "map (\<lambda>x. x - cu qs ! start) (pyslice start (stop + 1) (cu qs)) = cu (pyslice start stop qs)"
proof (rule nth_equalityI)
  show "length (map (\<lambda>x. x - cu qs ! start) (pyslice start (stop + 1) (cu qs)))
      = length (cu (pyslice start stop qs))"
    using assms by (simp add: length_slice)
  fix i assume "i < length (map (\<lambda>x. x - cu qs ! start) (pyslice start (stop + 1) (cu qs)))"
  then have i: "i \<le> stop - start" using assms by (simp add: length_slice)
  have "take i (pyslice start stop qs) = pyslice start (start + i) qs"
    using i by (simp add: pyslice_def min_def)
  then have "cu (pyslice start stop qs) ! i = cu qs ! (start + i) - cu qs ! start"
    using assms i by (simp add: nth_cu length_pyslice_full sum_slice)
  moreover have "pyslice start (stop + 1) (cu qs) ! i = cu qs ! (start + i)"
    by (rule nth_slice) (use assms i in auto)
  ultimately show "map (\<lambda>x. x - cu qs ! start) (pyslice start (stop + 1) (cu qs)) ! i
      = cu (pyslice start stop qs) ! i"
    using assms i by (simp add: length_slice)
qed

text \<open>The kernel's stores over the query tokens, with its block of 1024 offsets.\<close>

interpretation prefill_rows: segment_kernel lens 1024 lo hi val
  for lens lo hi and val :: "nat \<Rightarrow> nat \<Rightarrow> int"
  by unfold_locales simp

text \<open>The row that owns a gathered key: a segment kernel over the compressed lengths.\<close>

lemma token_to_seq_program_segments:
  assumes "ka_cu_compressed_seq_lens ka = cu lens" "sum_list lens \<le> n" "b < length lens"
  shows "token_to_seq_program ka b
     = segment_writes (cu lens) (ka_BLOCK_SIZE ka) 0 n (\<lambda>b off. int b) b"
proof -
  have "cu lens ! Suc b \<le> n"
    using assms cu_le_sum [of "Suc b" lens] by simp
  then have "off < cu lens ! Suc b - cu lens ! b \<Longrightarrow> cu lens ! b + off < n" for off
    by linarith
  then show ?thesis
    using assms(1) by (auto simp: token_to_seq_program_def segment_writes_def Let_def intro!: map_cong filter_cong)
qed

lemma launch_cong: "(\<And>p. p \<in> set ps \<Longrightarrow> f p = g p) \<Longrightarrow> launch ps f buf = launch ps g buf"
  unfolding launch_def by (metis map_cong)

lemma token_to_seq_written:
  assumes "ka_cu_compressed_seq_lens ka = cu lens" "0 < ka_BLOCK_SIZE ka" "b < length lens"
    and "cu lens ! b \<le> j" "j < cu lens ! Suc b" "length buf = sum_list lens"
  shows "launch [0..<length lens] (token_to_seq_program ka) buf ! j = int b"
proof -
  let ?n = "sum_list lens"
  have "launch [0..<length lens] (token_to_seq_program ka) buf
      = launch [0..<length lens] (segment_writes (cu lens) (ka_BLOCK_SIZE ka) 0 ?n (\<lambda>b off. int b)) buf"
    using token_to_seq_program_segments [OF assms(1) order_refl] by (intro launch_cong) simp
  moreover have "j < ?n" using assms(3,5) cu_le_sum [of "Suc b" lens] by simp
  ultimately show ?thesis
    using segment_kernel.segment_written [of "ka_BLOCK_SIZE ka" b lens j 0 ?n buf "\<lambda>b off. int b"] assms
    by (simp add: segment_kernel_def)
qed

lemma ctx_in_request:
  assumes "q \<le> u" "off < q" "0 < ratio"
  shows "tl_div (int u - int q + 1 + int off) (int ratio) = int ((u - q + 1 + off) div ratio)"
    and "(u - q + 1 + off) div ratio \<le> u div ratio"
proof -
  have "int u - int q + 1 + int off = int (u - q + 1 + off)" using assms by simp
  then show "tl_div (int u - int q + 1 + int off) (int ratio) = int ((u - q + 1 + off) div ratio)"
    using assms(3) by (simp only: tl_div_nonneg of_nat_0_le_iff of_nat_0_less_iff zdiv_int)
  show "(u - q + 1 + off) div ratio \<le> u div ratio" using assms by (intro div_le_mono) simp
qed

text \<open>
  The metadata of a chunk gives every query token its own causal key range.  For a query
  token \<open>t\<close> of request \<open>b\<close> of the chunk inside the query slice, the range from \<open>ks\<close> to \<open>ke\<close>
  has one key per \<open>compress_ratio\<close> tokens of its causal context, lies inside the gathered keys,
  and every gathered key in it belongs to request \<open>b\<close>: a token never scores the keys of another
  request, whatever \<^verbatim>\<open>torch.empty\<close> returned.
\<close>

theorem prefill_key_ranges:
  assumes wf: "length us = length qs" "start \<le> stop" "stop \<le> length qs" "0 < ratio"
      "\<forall>i < length qs. qs ! i \<le> us ! i"
    and sl: "qa \<le> t" "t < qb" "qb \<le> sum_list (pyslice start stop qs)"
    and b: "b < stop - start" "cu (pyslice start stop qs) ! b \<le> t" "t < cu (pyslice start stop qs) ! Suc b"
    and md: "build_prefill_chunk_metadata shard uninit start stop (cu qs) (cu qs) us
        (map (\<lambda>u. u div ratio) us) (map (\<lambda>u. u div ratio) us) bt ratio (Some (qa, qb)) skip rank 1 K
      = Some md"
  defines "ks \<equiv> pc_cu_seqlen_ks md ! (t - qa)" and "ke \<equiv> pc_cu_seqlen_ke md ! (t - qa)"
  shows "0 \<le> ks \<and> ks \<le> ke \<and> ke \<le> int (pc_total_seq_lens md)
    \<and> ke - ks = int ((us ! (start + b) - qs ! (start + b) + 1 + (t - cu (pyslice start stop qs) ! b)) div ratio)
    \<and> (\<forall>j. ks \<le> int j \<and> int j < ke \<longrightarrow> pc_token_to_seq md ! j = int b)"
proof -
  let ?cs = "map (\<lambda>u. u div ratio) us"
  let ?q = "pyslice start stop qs" and ?lens = "pyslice start stop ?cs" and ?u = "pyslice start stop us"
  let ?off = "t - cu ?q ! b"
  have lenq: "length ?q = stop - start" and lenl: "length ?lens = stop - start"
    using wf by (simp_all add: length_pyslice_full)
  have at: "?q ! b = qs ! (start + b)" "?u ! b = us ! (start + b)"
      "?lens ! b = us ! (start + b) div ratio"
    using wf b(1) by (simp_all add: nth_slice)
  have qle: "qs ! (start + b) \<le> us ! (start + b)" using wf b(1) by simp
  have qlen: "cu ?q ! Suc b - cu ?q ! b = qs ! (start + b)"
    using nth_cu_Suc [of b ?q] lenq b(1) at(1) by simp
  have qlen_int: "int (cu ?q ! Suc b) - int (cu ?q ! b) = int (qs ! (start + b))" using qlen b by linarith
  have off: "?off < qs ! (start + b)" using b qlen by linarith
  note ctx = ctx_in_request [OF qle off wf(4)]
  define ka where "ka = prefill_kernel_args_for shard start stop (cu qs) us ?cs ratio (qa, qb) rank 1 K"
  have ka: "ka_query_start_loc ka = cu ?q" "ka_uncompressed_seq_lens ka = ?u"
      "ka_cu_compressed_seq_lens ka = cu ?lens" "ka_row_start_cu_compressed_seq_lens ka = cu ?lens"
      "ka_query_slice_start ka = qa" "ka_query_slice_stop ka = qb" "ka_DCP_WORLD ka = 1"
      "ka_BLOCK_SIZE ka = 1024" "ka_COMPRESS_RATIO ka = ratio"
    unfolding ka_def prefill_kernel_args_for_def Let_def rebase_cu [OF wf(2,3)] by simp_all
  let ?buf = "map uninit [0..<qb - qa]"
  have outs: "pc_cu_seqlen_ks md = launch [0..<length ?q] (ks_program ka) ?buf"
      "pc_cu_seqlen_ke md = launch [0..<length ?q] (ke_program ka) ?buf"
      "pc_token_to_seq md = launch [0..<length ?lens] (token_to_seq_program ka) (map uninit [0..<sum_list ?lens])"
      "pc_total_seq_lens md = sum_list ?lens"
    using md unfolding build_prefill_chunk_metadata_def Let_def option.case prod.case ka_def [symmetric] lenq lenl
    by (auto split: if_splits)
  have ks: "ks = int (cu ?lens ! b)"
    unfolding ks_def outs(1) ks_program_def ka
    by (rule prefill_rows.segment_written) (use b sl outs lenq in auto)
  have "ke = int (cu ?lens ! b) + kernel_len_per_token ka b ?off"
    unfolding ke_def outs(2) ke_program_def ka
    by (rule prefill_rows.segment_written) (use b sl outs lenq in auto)
  also have "kernel_len_per_token ka b ?off = int ((us ! (start + b) - qs ! (start + b) + 1 + ?off) div ratio)"
    unfolding kernel_len_per_token_def ka Let_def dcp_local_len_def at qlen_int using ctx(1) by simp
  finally have ke: "ke = int (cu ?lens ! b) + int ((us ! (start + b) - qs ! (start + b) + 1 + ?off) div ratio)" .
  have seg: "cu ?lens ! Suc b = cu ?lens ! b + us ! (start + b) div ratio"
    using nth_cu_Suc [of b ?lens] lenl b(1) at(3) by simp
  have "cu ?lens ! Suc b \<le> sum_list ?lens" using cu_le_sum lenl b(1) by simp
  then have top: "ke \<le> int (sum_list ?lens)" using ke seg ctx(2) by linarith
  have own: "pc_token_to_seq md ! j = int b" if "ks \<le> int j" "int j < ke" for j
    unfolding outs(3)
    by (rule token_to_seq_written) (use that ks ke seg ctx(2) b(1) lenl ka in auto)
  show ?thesis using ks ke top own outs(4) by simp
qed

definition chunk_example :: "prefill_chunk_metadata option" where
  "chunk_example = build_prefill_chunk_metadata (\<lambda>l W r K. l) (\<lambda>_. 7) 1 3 (cu [3, 9, 2]) (cu [3, 9, 2])
     [4, 12, 5] (map (\<lambda>u. u div 4) [4, 12, 5]) (map (\<lambda>u. u div 4) [4, 12, 5])
     \<lparr>t_data = [], t_stride = 0, t_rows = 0, t_cols = 0\<rparr> 4 (Some (2, 8)) True 0 1 1"

theorem prefill_key_ranges_witness:
  "\<exists>md. chunk_example = Some md \<and> 0 \<le> pc_cu_seqlen_ks md ! (5 - 2)
     \<and> pc_cu_seqlen_ke md ! (5 - 2) - pc_cu_seqlen_ks md ! (5 - 2) = 2"
proof -
  obtain md where md: "chunk_example = Some md"
    by (simp add: chunk_example_def build_prefill_chunk_metadata_def Let_def pyslice_def)
  have c: "cu [9, 2] = [0, 9, 11]" by code_simp
  have r: "\<forall>i < length [3, 9, 2::nat]. [3, 9, 2] ! i \<le> ([4, 12, 5] ! i :: nat)"
    by code_simp
  have "0 \<le> pc_cu_seqlen_ks md ! (5 - 2) \<and> pc_cu_seqlen_ke md ! (5 - 2) - pc_cu_seqlen_ks md ! (5 - 2)
      = int ((12 - 9 + 1 + (5 - 0)) div 4)"
    using prefill_key_ranges [OF _ _ _ _ r _ _ _ _ _ _ md [unfolded chunk_example_def], of 5 0]
    by (simp add: c pyslice_def)
  then show ?thesis using md by auto
qed

end
