(* ===== verification/IndexerDecode.thy ===== *)
theory IndexerDecode
  imports IndexerPrefill
begin

text \<open>
  The capability gates, the metadata builder and the decode half of the sparse indexer,
  \<^verbatim>\<open>src/docker/overlay-sm121-adaptive/indexer.py\<close>.  This is where the SM121 overlay enters: on
  a device of family 120 with adaptive verification the builder flattens every decode query to
  a row of one token (\<open>use_flattening\<close>), and \<open>prepare_decode_tensors\<close> expands lengths and block
  tables accordingly, through a Triton kernel when all requests have the same width and through
  \<^verbatim>\<open>repeat_interleave\<close> otherwise.

  The builder's preallocated tensors are fields of a record that every operation returns
  updated, because several of them are views of the same storage: \<^verbatim>\<open>decode_lens\<close> is a view of
  the buffer that preparing the decode tensors overwrites with ones.
\<close>

section \<open>Capability gates\<close>

definition DSA_INDEXER_KV_DTYPES :: "string list" where
  "DSA_INDEXER_KV_DTYPES = [''fp8'', ''mxfp4'']"

definition dsa_indexer_uses_fp4 :: "platform \<Rightarrow> vllm_config \<Rightarrow> bool result" where
  "dsa_indexer_uses_fp4 p cfg =
     (let kv_dtype = cfg_indexer_kv_dtype cfg
      in raise_if (kv_dtype \<notin> set DSA_INDEXER_KV_DTYPES)
           (ValueError ''indexer_kv_dtype is not supported by the DeepSeek sparse indexer'')
         (let use_fp4 = (kv_dtype = ''mxfp4'')
          in raise_if (use_fp4 \<and> \<not> is_device_capability_family p 100)
               (ValueError ''indexer_kv_dtype=mxfp4 requires Blackwell datacenter GPUs'')
             (Inr use_fp4)))"

definition supports_varlen_paged_mqa_logits :: "platform \<Rightarrow> bool" where
  "supports_varlen_paged_mqa_logits p =
     (is_cuda p \<and> is_device_capability_family p 100 \<and> has_deep_gemm p)"

definition supports_flattened_device_query_lens :: "platform \<Rightarrow> bool" where
  "supports_flattened_device_query_lens p =
     (is_cuda p \<and> has_deep_gemm p \<and>
      (is_device_capability_family p 90 \<or> is_device_capability_family p 120))"

definition supports_native_decode :: "platform \<Rightarrow> nat \<Rightarrow> bool" where
  "supports_native_decode p next_n =
     (if \<not> (is_cuda p \<and> has_deep_gemm p) then next_n \<in> {1, 2}
      else if is_device_capability_family p 100 then True
      else if is_device_capability_family p 90 then native_next_n_supported p next_n
      else next_n \<in> {1, 2})"

definition use_flattening :: "platform \<Rightarrow> vllm_config \<Rightarrow> bool" where
  "use_flattening p cfg =
     (let next_n = 1 + cfg_num_speculative_tokens cfg
      in \<not> supports_native_decode p next_n \<or>
         (case cfg_speculative_config cfg of
            None \<Rightarrow> False
          | Some sc \<Rightarrow> sv_enable_adaptive_verification sc \<and> supports_flattened_device_query_lens p))"

definition supports_device_cpu_query_lens_mismatch :: "platform \<Rightarrow> bool" where
  "supports_device_cpu_query_lens_mismatch p =
     (supports_varlen_paged_mqa_logits p \<or> supports_flattened_device_query_lens p)"

definition indexer_cudagraph_support :: "platform \<Rightarrow> vllm_config \<Rightarrow> cg_support" where
  "indexer_cudagraph_support p cfg =
     (if supports_varlen_paged_mqa_logits p \<or> use_flattening p cfg then ALWAYS else UNIFORM_BATCH)"

definition get_max_prefill_buffer_size :: "vllm_config \<Rightarrow> nat" where
  "get_max_prefill_buffer_size cfg = cfg_max_model_len cfg * 40"

section \<open>The builder\<close>

record indexer_builder =
  ib_config :: vllm_config
  ib_dcp_world_size :: nat
  ib_dcp_rank :: nat
  ib_pcp_world_size :: nat
  ib_use_pcp :: bool
  ib_interleave_size :: nat
  ib_max_prefill_buffer_size :: nat
  ib_num_speculative_tokens :: nat
  ib_use_fp4_indexer_cache :: bool
  ib_decode_threshold :: nat
  ib_use_flattening :: bool
  ib_supports_varlen :: bool
  ib_num_sms :: nat
  ib_num_states :: nat
  ib_offsets_buffer :: "nat list"
  ib_decode_lens_buffer :: "nat list"
  ib_decode_seq_lens_buffer :: "int list"
  ib_global_decode_seq_lens_buffer :: "int list"
  ib_decode_indices_buffer :: "nat list"
  ib_arange_buffer :: "nat list"
  ib_expanded_block_table_buffer :: tensor2
  ib_scheduler_metadata_buffer :: "int list list"
  ib_compress_ratio :: nat
  ib_compressed_slot_mapping_buffer :: "int list"
  ib_expanded_seq_lens_buffer :: "int list"

text \<open>
  \<^verbatim>\<open>__init__\<close>.  \<open>tokens_per_state\<close> is \<open>Some\<close> for an \<^verbatim>\<open>MLAAttentionSpec\<close>; \<open>num_states\<close> and
  \<open>sm_count\<close> come from the cache specification and the device.
\<close>

definition indexer_init ::
  "platform \<Rightarrow> vllm_config \<Rightarrow> nat option \<Rightarrow> nat \<Rightarrow> nat \<Rightarrow> (nat \<Rightarrow> int) \<Rightarrow> nat \<Rightarrow> indexer_builder result" where
  "indexer_init p cfg tokens_per_state num_states sm_count uninit block_table_width =
     (let dcp_world_size = cfg_decode_context_parallel_size cfg;
          dcp_rank = (if dcp_world_size > 1 then cfg_dcp_rank_in_group cfg else 0);
          pcp_world_size = cfg_prefill_context_parallel_size cfg;
          interleave_size = cfg_cp_kv_cache_interleave_size cfg
      in raise_if (dcp_world_size > 1 \<and> interleave_size > 1)
           (NotImplementedError ''DCP sparse indexer currently supports only interleave size 1'')
         (bind_result (dsa_indexer_uses_fp4 p cfg) (\<lambda>use_fp4.
            let num_speculative_tokens =
                  (case cfg_speculative_config cfg of
                     Some sc \<Rightarrow> sv_num_speculative_tokens sc | None \<Rightarrow> 0);
                next_n = num_speculative_tokens + 1;
                max_tokens = cfg_max_num_batched_tokens cfg;
                compress_ratio = (case tokens_per_state of Some r \<Rightarrow> r | None \<Rightarrow> 1)
            in raise_if (dcp_world_size > 1 \<and> compress_ratio > 1)
                 (NotImplementedError ''DCP is not supported with sparse indexer KV compression'')
               (Inr \<lparr>ib_config = cfg,
                  ib_dcp_world_size = dcp_world_size, ib_dcp_rank = dcp_rank,
                  ib_pcp_world_size = pcp_world_size, ib_use_pcp = (pcp_world_size > 1),
                  ib_interleave_size = interleave_size,
                  ib_max_prefill_buffer_size = get_max_prefill_buffer_size cfg,
                  ib_num_speculative_tokens = num_speculative_tokens,
                  ib_use_fp4_indexer_cache = use_fp4,
                  ib_decode_threshold = next_n,
                  ib_use_flattening = use_flattening p cfg,
                  ib_supports_varlen = supports_varlen_paged_mqa_logits p,
                  ib_num_sms = sm_count,
                  ib_num_states = num_states,
                  ib_offsets_buffer = [0..<next_n],
                  ib_decode_lens_buffer = replicate max_tokens 0,
                  ib_decode_seq_lens_buffer = replicate max_tokens 0,
                  ib_global_decode_seq_lens_buffer = replicate max_tokens 0,
                  ib_decode_indices_buffer = replicate max_tokens 0,
                  ib_arange_buffer = [0..<max (cfg_max_num_seqs cfg * next_n) max_tokens],
                  ib_expanded_block_table_buffer =
                    \<lparr>t_data = replicate (max_tokens * block_table_width) 0,
                     t_stride = block_table_width, t_rows = max_tokens, t_cols = block_table_width\<rparr>,
                  ib_scheduler_metadata_buffer =
                    map (\<lambda>i. [uninit (2 * i), uninit (2 * i + 1)]) [0..<sm_count + 1],
                  ib_compress_ratio = compress_ratio,
                  ib_compressed_slot_mapping_buffer =
                    (if compress_ratio > 1 then replicate max_tokens 0 else []),
                  ib_expanded_seq_lens_buffer =
                    (if compress_ratio > 1 then replicate max_tokens 0 else [])\<rparr>))))"

section \<open>Decode lengths and block tables\<close>

text \<open>
  \<^verbatim>\<open>seq_lens\<close> of the decode metadata: one length per row, or, on the native path with
  speculation, one row of lengths per request.
\<close>

datatype seq_lens_t = Flat "int list" | Native "int list list"

fun map_seq_lens :: "(int \<Rightarrow> int) \<Rightarrow> seq_lens_t \<Rightarrow> seq_lens_t" where
  "map_seq_lens f (Flat xs) = Flat (map f xs)"
| "map_seq_lens f (Native rs) = Native (map (map f) rs)"

fun seq_lens_values :: "seq_lens_t \<Rightarrow> int list" where
  "seq_lens_values (Flat xs) = xs"
| "seq_lens_values (Native rs) = concat rs"

fun unsqueeze_last :: "seq_lens_t \<Rightarrow> seq_lens_t" where
  "unsqueeze_last (Flat xs) = Native (map (\<lambda>x. [x]) xs)"
| "unsqueeze_last (Native rs) = Native rs"

text \<open>\<open>_prepare_uniform_decode_kernel\<close>: the per-token length program \<open>idx\<close> stores.\<close>

definition uniform_per_token_seq_len :: "nat list \<Rightarrow> nat \<Rightarrow> nat \<Rightarrow> int" where
  "uniform_per_token_seq_len seq_lens max_decode_len idx =
     (let req_id = idx div max_decode_len; local_idx = idx mod max_decode_len
      in max (int (seq_lens ! req_id) - int max_decode_len + int local_idx + 1) 0)"

text \<open>The copy of a block-table row: the kernel copies as many columns as the destination stride.\<close>

definition uniform_block_table_program :: "tensor2 \<Rightarrow> nat \<Rightarrow> nat \<Rightarrow> nat \<Rightarrow> nat \<Rightarrow> int writes" where
  "uniform_block_table_program block_table expanded_bt_stride max_decode_len BLOCK_SIZE =
     row_writes expanded_bt_stride BLOCK_SIZE expanded_bt_stride
       (\<lambda>idx off. t_data block_table ! ((idx div max_decode_len) * t_stride block_table + off))"

text \<open>Assignment of whole rows to the first rows of a buffer.\<close>

definition set_rows :: "int list list \<Rightarrow> tensor2 \<Rightarrow> tensor2" where
  "set_rows rs t =
     t\<lparr>t_data := launch [0..<length rs] (row_writes (t_stride t) 1 (t_cols t) (\<lambda>r c. rs ! r ! c)) (t_data t)\<rparr>"

text \<open>Assignment of zero to column 0 of the rows \<open>a, \<dots>, b - 1\<close>.\<close>

definition zero_first_col :: "nat \<Rightarrow> nat \<Rightarrow> tensor2 \<Rightarrow> tensor2" where
  "zero_first_col a b t =
     t\<lparr>t_data := apply_writes (t_data t) (map (\<lambda>r. (r * t_stride t, 0)) [a..<b])\<rparr>"

definition prepare_uniform_decode ::
  "indexer_builder \<Rightarrow> nat list \<Rightarrow> tensor2 \<Rightarrow> nat \<Rightarrow> nat \<Rightarrow> indexer_builder" where
  "prepare_uniform_decode self seq_lens block_table num_decode_tokens max_decode_len =
     (let seq_buf = launch [0..<num_decode_tokens]
            (cell_writes (uniform_per_token_seq_len seq_lens max_decode_len)) (ib_decode_seq_lens_buffer self);
          ebt = ib_expanded_block_table_buffer self
      in self\<lparr>ib_decode_seq_lens_buffer :=
             take num_decode_tokens seq_buf @ replicate (length seq_buf - num_decode_tokens) 0,
          ib_expanded_block_table_buffer :=
             ebt\<lparr>t_data := launch [0..<num_decode_tokens]
               (uniform_block_table_program block_table (t_stride ebt) max_decode_len 1024) (t_data ebt)\<rparr>,
          ib_decode_lens_buffer :=
             launch [0..<num_decode_tokens] (cell_writes (\<lambda>_. 1)) (ib_decode_lens_buffer self)\<rparr>)"

definition expanded_lens ::
  "(nat \<Rightarrow> int) \<Rightarrow> nat list \<Rightarrow> nat list \<Rightarrow> nat list \<Rightarrow> nat list \<Rightarrow> nat \<Rightarrow> int list" where
  "expanded_lens uninit seq_lens decode_lens query_start_loc arange_buffer actual_expanded =
     (let offsets = map (\<lambda>i. int (seq_lens ! i) - int (decode_lens ! i) - int (query_start_loc ! i))
                      [0..<length decode_lens];
          expanded_offsets = repeat_interleave uninit offsets decode_lens actual_expanded
      in map2 (\<lambda>x a. x + int a + 1) expanded_offsets (take actual_expanded arange_buffer))"

definition prepare_variable_decode ::
  "(nat \<Rightarrow> int) \<Rightarrow> indexer_builder \<Rightarrow> nat list \<Rightarrow> tensor2 \<Rightarrow> nat list \<Rightarrow> nat list \<Rightarrow> nat list \<Rightarrow> nat
   \<Rightarrow> indexer_builder" where
  "prepare_variable_decode uninit self seq_lens block_table decode_lens decode_lens_cpu query_start_loc
     num_decode_tokens =
     (let actual_expanded = sum_list decode_lens_cpu;
          lens = expanded_lens uninit seq_lens decode_lens query_start_loc (ib_arange_buffer self) actual_expanded;
          seq_buf = set_slice 0 lens (ib_decode_seq_lens_buffer self);
          ebt = ib_expanded_block_table_buffer self;
          ebt' = set_rows (repeat_interleave (\<lambda>i. map (\<lambda>c. uninit (i + c)) [0..<t_cols ebt])
                             (rows_of block_table) decode_lens actual_expanded) ebt;
          ebt'' = (if actual_expanded < num_decode_tokens
                   then zero_first_col actual_expanded num_decode_tokens ebt' else ebt')
      in self\<lparr>ib_decode_seq_lens_buffer :=
             take actual_expanded seq_buf @ replicate (length seq_buf - actual_expanded) 0,
          ib_expanded_block_table_buffer := ebt'',
          ib_decode_lens_buffer :=
             set_slice 0 (replicate num_decode_tokens 1) (ib_decode_lens_buffer self)\<rparr>)"

record decode_tensors =
  dt_seq_lens :: seq_lens_t
  dt_block_table :: tensor2
  dt_decode_lens :: "nat list"
  dt_batch_size :: nat
  dt_requires_padding :: bool

text \<open>The result of the flattened paths: views of the first rows of the builder's buffers.\<close>

definition flattened_views :: "indexer_builder \<Rightarrow> nat \<Rightarrow> decode_tensors" where
  "flattened_views self num_decode_tokens =
     \<lparr>dt_seq_lens = Flat (take num_decode_tokens (ib_decode_seq_lens_buffer self)),
      dt_block_table = first_rows num_decode_tokens (ib_expanded_block_table_buffer self),
      dt_decode_lens = take num_decode_tokens (ib_decode_lens_buffer self),
      dt_batch_size = num_decode_tokens, dt_requires_padding = False\<rparr>"

text \<open>The native path: token \<open>j\<close> of a request attends to \<open>L - max_decode_len + j + 1\<close> keys.\<close>

definition native_row :: "nat list \<Rightarrow> nat \<Rightarrow> nat \<Rightarrow> int list" where
  "native_row offsets_buffer max_decode_len seq_len =
     map (\<lambda>off. max (int seq_len - int max_decode_len + 1 + int off) 0) (take max_decode_len offsets_buffer)"

text \<open>The guard of the kernel path, on the CPU copies of the lengths.\<close>

definition uniform_step :: "indexer_builder \<Rightarrow> nat list \<Rightarrow> nat \<Rightarrow> nat \<Rightarrow> nat \<Rightarrow> bool" where
  "uniform_step self decode_lens_cpu num_decodes num_decode_tokens max_decode_len =
     (let adaptive = (case cfg_speculative_config (ib_config self) of
                        Some sc \<Rightarrow> sv_enable_adaptive_verification sc | None \<Rightarrow> False);
          min_decode_len = fold min decode_lens_cpu (hd decode_lens_cpu)
      in \<not> ib_supports_varlen self \<and> (num_decodes = 1 \<or> \<not> adaptive)
         \<and> min_decode_len = max_decode_len \<and> num_decodes * max_decode_len = num_decode_tokens)"

definition prepare_decode_tensors ::
  "(nat \<Rightarrow> int) \<Rightarrow> indexer_builder \<Rightarrow> nat list \<Rightarrow> tensor2 \<Rightarrow> nat list \<Rightarrow> nat list \<Rightarrow> nat list
   \<Rightarrow> nat \<Rightarrow> nat \<Rightarrow> bool \<Rightarrow> nat \<Rightarrow> nat \<Rightarrow> decode_tensors \<times> indexer_builder" where
  "prepare_decode_tensors uninit self seq_lens block_table decode_lens decode_lens_cpu query_start_loc
     num_decodes num_decode_tokens use_native next_n max_decode_len =
     (let min_decode_len = fold min decode_lens_cpu (hd decode_lens_cpu)
      in if \<not> use_native then
           (if uniform_step self decode_lens_cpu num_decodes num_decode_tokens max_decode_len
            then let self' = prepare_uniform_decode self seq_lens block_table num_decode_tokens max_decode_len
                 in (flattened_views self' num_decode_tokens, self')
            else let self' = prepare_variable_decode uninit self seq_lens block_table decode_lens
                               decode_lens_cpu query_start_loc num_decode_tokens
                 in (flattened_views self' num_decode_tokens, self'))
         else
           (let requires_padding = (min_decode_len \<noteq> max_decode_len)
            in if next_n > 1 then
                 let rows = map (native_row (ib_offsets_buffer self) max_decode_len) seq_lens
                 in (\<lparr>dt_seq_lens = Native rows, dt_block_table = block_table, dt_decode_lens = decode_lens,
                      dt_batch_size = num_decodes, dt_requires_padding = requires_padding\<rparr>,
                     self\<lparr>ib_decode_seq_lens_buffer :=
                            set_slice 0 (concat rows) (ib_decode_seq_lens_buffer self)\<rparr>)
               else (\<lparr>dt_seq_lens = Flat (map int seq_lens), dt_block_table = block_table,
                      dt_decode_lens = decode_lens, dt_batch_size = num_decodes,
                      dt_requires_padding = requires_padding\<rparr>, self)))"

definition prepare_global_decode_seq_lens ::
  "(nat \<Rightarrow> int) \<Rightarrow> indexer_builder \<Rightarrow> nat list option \<Rightarrow> nat list \<Rightarrow> nat list \<Rightarrow> nat list \<Rightarrow> nat
   \<Rightarrow> bool \<Rightarrow> nat \<Rightarrow> int list option \<times> indexer_builder" where
  "prepare_global_decode_seq_lens uninit self global_seq_lens decode_lens decode_lens_cpu query_start_loc
     num_decode_tokens use_native max_decode_len =
     (case global_seq_lens of
        None \<Rightarrow> (None, self)
      | Some gs \<Rightarrow>
          if use_native \<or> max_decode_len \<le> 1 then (Some (map int gs), self)
          else
            let actual_expanded = sum_list decode_lens_cpu;
                buf = ib_global_decode_seq_lens_buffer self;
                buf1 = (if actual_expanded > 0
                        then set_slice 0 (expanded_lens uninit gs decode_lens query_start_loc
                                            (ib_arange_buffer self) actual_expanded) buf
                        else buf);
                buf2 = set_slice actual_expanded (replicate (num_decode_tokens - actual_expanded) 0) buf1
            in (Some (take num_decode_tokens buf2), self\<lparr>ib_global_decode_seq_lens_buffer := buf2\<rparr>))"

definition build_varlen_decode_indices ::
  "(nat \<Rightarrow> nat) \<Rightarrow> indexer_builder \<Rightarrow> nat list \<Rightarrow> nat list \<Rightarrow> nat \<Rightarrow> nat list \<times> indexer_builder" where
  "build_varlen_decode_indices uninit self decode_lens decode_lens_cpu num_decode_tokens =
     (let actual_expanded = sum_list decode_lens_cpu;
          num_decodes = length decode_lens;
          buf1 = set_slice 0 (repeat_interleave uninit (take num_decodes (ib_arange_buffer self))
                                decode_lens actual_expanded) (ib_decode_indices_buffer self);
          buf2 = (if actual_expanded < num_decode_tokens
                  then set_slice actual_expanded
                         (map (\<lambda>a. num_decodes + a)
                            (take (num_decode_tokens - actual_expanded) (ib_arange_buffer self))) buf1
                  else buf1)
      in (take num_decode_tokens buf2, self\<lparr>ib_decode_indices_buffer := buf2\<rparr>))"

text \<open>\<open>shard\<close> stands for \<^verbatim>\<open>get_dcp_local_seq_lens\<close> with a rank, element by element.\<close>

definition dcp_localize_decode_seq_lens ::
  "(int \<Rightarrow> nat \<Rightarrow> nat \<Rightarrow> nat \<Rightarrow> int) \<Rightarrow> indexer_builder \<Rightarrow> seq_lens_t \<Rightarrow> nat \<Rightarrow> bool \<Rightarrow> seq_lens_t \<times> indexer_builder" where
  "dcp_localize_decode_seq_lens shard self seq_lens num_decodes seq_lens_is_buffer_view =
     (let local_seq_lens = map_seq_lens
            (\<lambda>l. shard l (ib_dcp_world_size self) (ib_dcp_rank self) (ib_interleave_size self)) seq_lens;
          self' = self\<lparr>ib_decode_seq_lens_buffer :=
                         set_slice 0 (seq_lens_values local_seq_lens) (ib_decode_seq_lens_buffer self)\<rparr>
      in if seq_lens_is_buffer_view then (local_seq_lens, self')
         else (Flat (take num_decodes (ib_decode_seq_lens_buffer self')), self'))"

section \<open>The shape of the builder's buffers\<close>

text \<open>
  What the operations rely on: every per-token buffer has \<^verbatim>\<open>max_num_batched_tokens\<close> entries, the
  arange buffer reaches at least that far, and the expanded block table is contiguous.
\<close>

definition wf_builder :: "nat \<Rightarrow> indexer_builder \<Rightarrow> bool" where
  "wf_builder M self \<longleftrightarrow>
     length (ib_decode_lens_buffer self) = M \<and> length (ib_decode_seq_lens_buffer self) = M \<and>
     length (ib_global_decode_seq_lens_buffer self) = M \<and> length (ib_decode_indices_buffer self) = M \<and>
     ib_arange_buffer self = [0..<length (ib_arange_buffer self)] \<and> M \<le> length (ib_arange_buffer self) \<and>
     ib_offsets_buffer self = [0..<ib_num_speculative_tokens self + 1] \<and>
     t_rows (ib_expanded_block_table_buffer self) = M \<and>
     t_stride (ib_expanded_block_table_buffer self) = t_cols (ib_expanded_block_table_buffer self) \<and>
     wf_tensor2 (ib_expanded_block_table_buffer self)"

lemma wf_builderD:
  assumes "wf_builder M self"
  shows "length (ib_decode_lens_buffer self) = M" "length (ib_decode_seq_lens_buffer self) = M"
    "length (ib_global_decode_seq_lens_buffer self) = M" "length (ib_decode_indices_buffer self) = M"
    "k \<le> M \<Longrightarrow> take k (ib_arange_buffer self) = [0..<k]"
    "t_rows (ib_expanded_block_table_buffer self) = M"
    "t_stride (ib_expanded_block_table_buffer self) = t_cols (ib_expanded_block_table_buffer self)"
    "wf_tensor2 (ib_expanded_block_table_buffer self)"
proof -
  show "take k (ib_arange_buffer self) = [0..<k]" if "k \<le> M"
  proof -
    have "ib_arange_buffer self = [0..<length (ib_arange_buffer self)]" "k \<le> length (ib_arange_buffer self)"
      using assms that by (auto simp: wf_builder_def)
    then show ?thesis by (metis add_0 take_upt)
  qed
qed (use assms in \<open>auto simp: wf_builder_def\<close>)

lemma indexer_init_wf:
  assumes "indexer_init p cfg tps ns sms uninit w = Inr self"
  shows "wf_builder (cfg_max_num_batched_tokens cfg) self"
  using assms
  by (auto simp: indexer_init_def Let_def raise_if_eq_Inr bind_result_eq_Inr wf_builder_def wf_tensor2_def)

section \<open>Rows of the expanded block table\<close>

lemma set_rows_shape [simp, tensor_simps]:
  "t_rows (set_rows rs t) = t_rows t" "t_cols (set_rows rs t) = t_cols t"
  "t_stride (set_rows rs t) = t_stride t" "length (t_data (set_rows rs t)) = length (t_data t)"
  by (simp_all add: set_rows_def)

lemma zero_first_col_shape [simp, tensor_simps]:
  "t_rows (zero_first_col a b t) = t_rows t" "t_cols (zero_first_col a b t) = t_cols t"
  "t_stride (zero_first_col a b t) = t_stride t" "length (t_data (zero_first_col a b t)) = length (t_data t)"
  by (simp_all add: zero_first_col_def)

lemma wf_tensor2_cong:
  "wf_tensor2 t \<Longrightarrow> t_rows t' = t_rows t \<Longrightarrow> t_cols t' = t_cols t \<Longrightarrow> t_stride t' = t_stride t \<Longrightarrow>
   length (t_data t') = length (t_data t) \<Longrightarrow> wf_tensor2 t'"
  by (simp add: wf_tensor2_def)

text \<open>Assigning rows is a row kernel on the buffer's own layout.\<close>

interpretation assign_rows: row_kernel "\<lambda>r c. rs ! r ! c" "w + k" 1 w for rs :: "int list list" and w k
  by unfold_locales simp_all

lemma row_set_rows:
  assumes "wf_tensor2 t" "length rs \<le> t_rows t" "r < length rs" "length (rs ! r) = t_cols t"
  shows "row (set_rows rs t) r = rs ! r"
proof (rule nth_equalityI)
  show "length (row (set_rows rs t) r) = length (rs ! r)" using assms by simp
  fix c assume "c < length (row (set_rows rs t) r)"
  then have c: "c < t_cols t" by simp
  obtain k where k: "t_stride t = t_cols t + k"
    using assms(1) by (metis wf_tensor2_def le_iff_add)
  have "r * t_stride t + c < length (t_data t)"
    using assms c by (intro row_address_bound) auto
  then show "row (set_rows rs t) r ! c = rs ! r ! c"
    using c assms(3) assign_rows.row_written [where pid = r and pids = "[0..<length rs]" and off = c
        and w = "t_cols t" and k = k and buf = "t_data t" and rs = rs]
    by (simp add: nth_row) (simp add: set_rows_def k)
qed

lemma row_zero_first_col:
  assumes "wf_tensor2 t" "b \<le> t_rows t" "r < t_rows t" "0 < t_cols t"
  shows "row (zero_first_col a b t) r = (if a \<le> r \<and> r < b then (row t r)[0 := 0] else row t r)"
proof (rule nth_equalityI)
  show "length (row (zero_first_col a b t) r)
      = length (if a \<le> r \<and> r < b then (row t r)[0 := 0] else row t r)" by simp
  fix c assume "c < length (row (zero_first_col a b t) r)"
  then have c: "c < t_cols t" by simp
  let ?ws = "map (\<lambda>r. (r * t_stride t, 0 :: int)) [a..<b]"
  have s: "t_cols t \<le> t_stride t" using assms(1) by (simp add: wf_tensor2_def)
  have bound: "r * t_stride t + c < length (t_data t)"
    using assms c by (intro row_address_bound) auto
  have cell: "apply_writes (t_data t) ?ws ! (r * t_stride t + c)
      = (if a \<le> r \<and> r < b \<and> c = 0 then 0 else t_data t ! (r * t_stride t + c))"
  proof (cases "a \<le> r \<and> r < b \<and> c = 0")
    case True
    have "apply_writes (t_data t) ?ws ! (r * t_stride t + c) = 0"
    proof (rule apply_writes_consistent [OF _ _ bound])
      show "consistent ?ws" by (auto simp: consistent_def)
      show "(r * t_stride t + c, 0) \<in> set ?ws" using True by auto
    qed
    then show ?thesis using True by simp
  next
    case False
    have "r * t_stride t + c \<notin> fst ` set ?ws"
    proof
      assume "r * t_stride t + c \<in> fst ` set ?ws"
      then obtain i where "a \<le> i" "i < b" "r * t_stride t + c = i * t_stride t + 0" by auto
      with row_cell_unique [of r "t_stride t" c i 0] False c s assms(4) show False by auto
    qed
    from apply_writes_untouched [OF this bound] False show ?thesis by auto
  qed
  show "row (zero_first_col a b t) r ! c = (if a \<le> r \<and> r < b then (row t r)[0 := 0] else row t r) ! c"
    using c cell by (auto simp: nth_row nth_list_update zero_first_col_def)
qed

text \<open>The uniform kernel's copy, as a row kernel of full width.\<close>

interpretation uniform_bt: row_kernel
  "\<lambda>idx off. t_data bt ! ((idx div k) * t_stride bt + off)" w 1024 w for bt k w
  by unfold_locales simp_all

lemma row_uniform_copy:
  assumes ebt: "wf_tensor2 ebt" "t_stride ebt = t_cols ebt" and bt: "t_cols bt = t_cols ebt"
    and r: "r < n" "n \<le> t_rows ebt"
  shows "row (ebt\<lparr>t_data := launch [0..<n] (uniform_block_table_program bt (t_stride ebt) k 1024) (t_data ebt)\<rparr>) r
    = row bt (r div k)"
proof (rule nth_equalityI)
  fix c assume "c < length (row (ebt\<lparr>t_data := launch [0..<n]
      (uniform_block_table_program bt (t_stride ebt) k 1024) (t_data ebt)\<rparr>) r)"
  then have c: "c < t_cols ebt" by simp
  have "r * t_stride ebt + c < length (t_data ebt)"
    using assms c by (intro row_address_bound) auto
  then show "row (ebt\<lparr>t_data := launch [0..<n] (uniform_block_table_program bt (t_stride ebt) k 1024)
      (t_data ebt)\<rparr>) r ! c = row bt (r div k) ! c"
    using c r bt ebt(2) uniform_bt.row_written [where pid = r and pids = "[0..<n]" and off = c
        and w = "t_stride ebt" and buf = "t_data ebt" and bt = bt and k = k]
    by (simp add: nth_row uniform_block_table_program_def)
qed (use bt in simp)

section \<open>Both flattening paths implement one specification\<close>

text \<open>
  The specification: row \<open>t\<close> of the result is token \<open>j\<close> of the request \<open>b\<close> it came from, with
  the causal length of that token, the block table of that request and a query length of one;
  rows past the tokens are padding of length zero that point at block zero.
\<close>

definition flattened_spec :: "nat list \<Rightarrow> nat list \<Rightarrow> tensor2 \<Rightarrow> nat \<Rightarrow> decode_tensors \<Rightarrow> bool" where
  "flattened_spec seq_lens decode_lens bt n dt \<longleftrightarrow>
     length (seq_lens_values (dt_seq_lens dt)) = n \<and> dt_decode_lens dt = replicate n 1 \<and>
     dt_batch_size dt = n \<and> \<not> dt_requires_padding dt \<and>
     (\<forall>b < length decode_lens. \<forall>j < decode_lens ! b.
        let t = cu decode_lens ! b + j
        in seq_lens_values (dt_seq_lens dt) ! t = int (seq_lens ! b) - int (decode_lens ! b) + int j + 1 \<and>
           row (dt_block_table dt) t = row bt b) \<and>
     (\<forall>t. sum_list decode_lens \<le> t \<and> t < n \<longrightarrow>
        seq_lens_values (dt_seq_lens dt) ! t = 0 \<and> row (dt_block_table dt) t ! 0 = 0)"

lemma segment_position:
  assumes "b < length xs" "j < xs ! b"
  shows "cu xs ! b \<le> cu xs ! b + j" "cu xs ! b + j < cu xs ! Suc b" "cu xs ! b + j < sum_list xs"
  using assms nth_cu_Suc [of b xs] cu_le_sum [of "Suc b" xs] by linarith+

lemma nth_expanded_lens:
  assumes "length seq_lens = length dl" "sum_list dl = n" "n \<le> length ar" "take n ar = [0..<n]"
    and q: "\<forall>b < length dl. qsl ! b = cu dl ! b" and b: "b < length dl" "j < dl ! b"
  shows "expanded_lens uninit seq_lens dl qsl ar n ! (cu dl ! b + j)
    = int (seq_lens ! b) - int (dl ! b) + int j + 1"
proof -
  let ?offs = "map (\<lambda>i. int (seq_lens ! i) - int (dl ! i) - int (qsl ! i)) [0..<length dl]"
  let ?t = "cu dl ! b + j"
  note t = segment_position [OF b]
  have r: "repeat_interleave uninit ?offs dl n = repeats ?offs dl"
    using assms(2) by (intro repeat_interleave_exact) auto
  have len: "length (repeats ?offs dl) = n" using assms(2) by (simp add: length_repeats)
  have "repeats ?offs dl ! ?t = ?offs ! b" using t b by (intro nth_repeats) auto
  then show ?thesis
    using t b q len assms(2,4) by (simp add: expanded_lens_def r)
qed

lemma length_expanded_lens:
  "length seq_lens = length dl \<Longrightarrow> sum_list dl = n \<Longrightarrow> n \<le> length ar \<Longrightarrow>
   length (expanded_lens uninit seq_lens dl qsl ar n) = n"
  by (simp add: expanded_lens_def repeat_interleave_exact length_repeats)

lemma variable_flattened:
  assumes wf: "wf_builder M self" and lens: "length seq_lens = length dl" "sum_list cpu = sum_list dl"
    and n: "sum_list dl \<le> n" "n \<le> M"
    and bt: "t_rows bt = length dl" "t_cols bt = t_cols (ib_expanded_block_table_buffer self)" "0 < t_cols bt"
    and q: "\<forall>b < length dl. qsl ! b = cu dl ! b"
  shows "flattened_spec seq_lens dl bt n
    (flattened_views (prepare_variable_decode uninit self seq_lens bt dl cpu qsl n) n)"
proof -
  note wfD = wf_builderD [OF wf]
  let ?N = "sum_list dl" and ?ebt = "ib_expanded_block_table_buffer self"
  let ?lens = "expanded_lens uninit seq_lens dl qsl (ib_arange_buffer self) ?N"
  let ?rs = "repeats (rows_of bt) dl"
  have ar: "take ?N (ib_arange_buffer self) = [0..<?N]" using wfD(5) n by simp
  have arl: "?N \<le> length (ib_arange_buffer self)" using wf n by (simp add: wf_builder_def)
  have ll: "length ?lens = ?N" using lens(1) arl by (intro length_expanded_lens) auto
  have rs: "repeat_interleave u (rows_of bt) dl ?N = ?rs" for u
    using bt(1) by (intro repeat_interleave_exact) (auto simp: rows_of_def)
  have lrs: "length ?rs = ?N" using bt(1) by (simp add: length_repeats rows_of_def)
  have seqbuf: "take ?N (set_slice 0 ?lens (ib_decode_seq_lens_buffer self)) = ?lens"
    using ll n wfD(2) take_set_slice_0 [of ?lens "ib_decode_seq_lens_buffer self"] by simp
  define ebt2 where "ebt2 = (if ?N < n then zero_first_col ?N n (set_rows ?rs ?ebt) else set_rows ?rs ?ebt)"
  let ?self = "prepare_variable_decode uninit self seq_lens bt dl cpu qsl n"
  have bufs: "ib_decode_seq_lens_buffer ?self = ?lens @ replicate (M - ?N) 0"
      "ib_expanded_block_table_buffer ?self = ebt2"
      "ib_decode_lens_buffer ?self = set_slice 0 (replicate n 1) (ib_decode_lens_buffer self)"
    using seqbuf ll n wfD(2) unfolding prepare_variable_decode_def Let_def lens(2) rs ebt2_def by simp_all
  have wf2: "wf_tensor2 (set_rows ?rs ?ebt)" using wfD(8) by (rule wf_tensor2_cong) simp_all
  have rowat: "row ebt2 r = (if ?N \<le> r \<and> r < n then (row (set_rows ?rs ?ebt) r)[0 := 0]
      else row (set_rows ?rs ?ebt) r)" if "r < n" for r
    unfolding ebt2_def using wf2 wfD(6) n bt that by (simp add: row_zero_first_col)
  have src: "row (set_rows ?rs ?ebt) (cu dl ! b + j) = row bt b" if "b < length dl" "j < dl ! b" for b j
  proof -
    note t = segment_position [OF that]
    have "?rs ! (cu dl ! b + j) = rows_of bt ! b"
      using t bt(1) that by (intro nth_repeats) (auto simp: rows_of_def)
    then have "?rs ! (cu dl ! b + j) = row bt b" using bt(1) that by (simp add: rows_of_def)
    then show ?thesis using wfD(6,8) lrs t n bt by (subst row_set_rows) auto
  qed
  have tok: "take n (?lens @ replicate (M - ?N) 0) ! (cu dl ! b + j)
      = int (seq_lens ! b) - int (dl ! b) + int j + 1" if "b < length dl" "j < dl ! b" for b j
    using segment_position [OF that] ll n nth_expanded_lens [OF lens(1) refl arl ar q that]
    by (simp add: nth_append)
  have rowtok: "row ebt2 (cu dl ! b + j) = row bt b" if "b < length dl" "j < dl ! b" for b j
    using rowat [of "cu dl ! b + j"] segment_position(3) [OF that] src [OF that] n by simp
  have pad: "row ebt2 t ! 0 = 0" if "?N \<le> t" "t < n" for t
    using rowat [OF that(2)] that bt(2,3) by simp
  show ?thesis
    unfolding flattened_spec_def flattened_views_def Let_def bufs
    using ll n wfD(1) tok rowtok pad by (auto simp: nth_append set_slice_def)
qed

lemma sum_replicate: "sum_list (replicate n (k::nat)) = n * k"
  by (induction n) auto

lemma cu_replicate: "b \<le> n \<Longrightarrow> cu (replicate n k) ! b = b * k"
  by (simp add: nth_cu sum_replicate)

lemma uniform_flattened:
  assumes wf: "wf_builder M self" and lens: "length seq_lens = m" and fit: "m * k \<le> M"
    and le: "\<forall>b < m. k \<le> seq_lens ! b"
    and bt: "t_cols bt = t_cols (ib_expanded_block_table_buffer self)"
  shows "flattened_spec seq_lens (replicate m k) bt (m * k)
    (flattened_views (prepare_uniform_decode self seq_lens bt (m * k) k) (m * k))"
proof -
  note wfD = wf_builderD [OF wf]
  let ?ebt = "ib_expanded_block_table_buffer self" and ?n = "m * k"
  let ?self = "prepare_uniform_decode self seq_lens bt ?n k"
  let ?lens = "map (uniform_per_token_seq_len seq_lens k) [0..<?n]"
  have bufs: "take ?n (ib_decode_seq_lens_buffer ?self) = ?lens"
      "take ?n (ib_decode_lens_buffer ?self) = replicate ?n 1"
      "ib_expanded_block_table_buffer ?self
        = ?ebt\<lparr>t_data := launch [0..<?n] (uniform_block_table_program bt (t_stride ?ebt) k 1024) (t_data ?ebt)\<rparr>"
    using fit wfD(1,2) by (simp_all add: prepare_uniform_decode_def Let_def launch_cells map_replicate_const)
  have at: "(b * k + j) div k = b" "(b * k + j) mod k = j" if "j < k" for b j
    using that by simp_all
  have lt: "b * k + j < ?n" if "b < m" "j < k" for b j
  proof -
    have "b * k + j < Suc b * k" using that by simp
    also have "\<dots> \<le> m * k" using that by (intro mult_le_mono1) simp
    finally show ?thesis .
  qed
  have tok: "?lens ! (b * k + j) = int (seq_lens ! b) - int k + int j + 1" if "b < m" "j < k" for b j
    using that lt le at [OF that(2)] by (simp add: uniform_per_token_seq_len_def Let_def)
  have rowtok: "row (ib_expanded_block_table_buffer ?self) (b * k + j) = row bt b" if "b < m" "j < k" for b j
    unfolding bufs(3)
    using that lt at [OF that(2)] wfD(6,7,8) bt fit by (subst row_uniform_copy) auto
  show ?thesis
    unfolding flattened_spec_def flattened_views_def Let_def
    using tok rowtok by (simp add: bufs cu_replicate sum_replicate)
qed

lemma fold_min_le: "fold min xs a \<le> (a :: nat) \<and> (\<forall>x \<in> set xs. fold min xs a \<le> x)"
proof (induction xs arbitrary: a)
  case (Cons x xs)
  from Cons [of "min x a"] show ?case by auto
qed simp

lemma uniform_step_lens:
  assumes "uniform_step self cpu (length cpu) n k" "\<forall>x \<in> set cpu. x \<le> k"
  shows "cpu = replicate (length cpu) k \<and> length cpu * k = n"
proof -
  have "\<forall>x \<in> set cpu. x = k"
    using assms fold_min_le [of cpu "hd cpu"] unfolding uniform_step_def Let_def by (metis le_antisym)
  then show ?thesis using assms(1) by (auto simp: uniform_step_def Let_def intro: replicate_eqI)
qed

lemma flattened_step:
  assumes wf: "wf_builder M self"
    and lens: "length seq_lens = length dl" "length cpu = length dl" "sum_list cpu = sum_list dl"
      "sum_list dl \<le> n" "n \<le> M" "\<forall>x \<in> set cpu. x \<le> k" "\<forall>b < length dl. dl ! b \<le> seq_lens ! b"
    and dev: "uniform_step self cpu (length dl) n k \<Longrightarrow> length dl = 1 \<or> dl = cpu"
    and bt: "t_rows bt = length dl" "t_cols bt = t_cols (ib_expanded_block_table_buffer self)" "0 < t_cols bt"
    and q: "\<forall>b < length dl. qsl ! b = cu dl ! b"
    and res: "prepare_decode_tensors uninit self seq_lens bt dl cpu qsl (length dl) n False next_n k = (dt, self')"
  shows "flattened_spec seq_lens dl bt n dt"
proof (cases "uniform_step self cpu (length dl) n k")
  case True
  note u = uniform_step_lens [OF True [folded lens(2)] lens(6)]
  have "dl = cpu"
  proof (cases "length dl = 1")
    case one: True
    then obtain x y where "dl = [x]" "cpu = [y]" using lens(2) by (auto simp: length_Suc_conv)
    then show ?thesis using lens(3) by simp
  qed (use dev True in blast)
  have dl: "dl = replicate (length dl) k" using u unfolding \<open>dl = cpu\<close> by (rule conjunct1)
  have n: "n = length dl * k" using u lens(2) by simp
  have "dt = flattened_views (prepare_uniform_decode self seq_lens bt n k) n"
    using res True by (auto simp: prepare_decode_tensors_def Let_def)
  moreover have "flattened_spec seq_lens (replicate (length dl) k) bt (length dl * k)
      (flattened_views (prepare_uniform_decode self seq_lens bt (length dl * k) k) (length dl * k))"
  proof (rule uniform_flattened [OF wf lens(1)])
    show "length dl * k \<le> M" using n lens(5) by simp
    show "\<forall>b < length dl. k \<le> seq_lens ! b" using lens(7) dl by (metis nth_replicate)
    show "t_cols bt = t_cols (ib_expanded_block_table_buffer self)" by (rule bt(2))
  qed
  ultimately show ?thesis unfolding dl [symmetric] n [symmetric] by (simp only:)
next
  case False
  then have "dt = flattened_views (prepare_variable_decode uninit self seq_lens bt dl cpu qsl n) n"
    using res by (auto simp: prepare_decode_tensors_def Let_def)
  then show ?thesis using variable_flattened [OF wf lens(1,3,4,5) bt q] by simp
qed

text \<open>
  C19. Flattening is right on every decode step that does not use the native kernel.  Whichever
  of the two code paths the step takes (the Triton kernel for uniform widths, or
  \<^verbatim>\<open>repeat_interleave\<close> for the widths adaptive verification chose on the device), row
  \<open>cu_decode_lens[b] + j\<close> of the result is token \<open>j\<close> of request \<open>b\<close>: its length is
  \<open>seq_len - decode_len + j + 1\<close>, its block table is the request's, its query length is one, and
  the rows past the tokens are inert padding.  The device widths may differ from the CPU ones
  request by request; only their sums have to agree, and each width has to be within the length
  of its sequence.
\<close>

theorem flattening_paths_agree:
  assumes "wf_builder M self"
    and "length seq_lens = length dl" "length cpu = length dl" "sum_list cpu = sum_list dl"
      "sum_list dl \<le> n" "n \<le> M" "\<forall>x \<in> set cpu. x \<le> k" "\<forall>b < length dl. dl ! b \<le> seq_lens ! b"
    and "cfg_speculative_config (ib_config self) = Some sc"
      "\<not> sv_enable_adaptive_verification sc \<longrightarrow> dl = cpu"
    and "t_rows bt = length dl" "t_cols bt = t_cols (ib_expanded_block_table_buffer self)" "0 < t_cols bt"
    and "\<forall>b < length dl. qsl ! b = cu dl ! b"
    and "prepare_decode_tensors uninit self seq_lens bt dl cpu qsl (length dl) n False next_n k = (dt, self')"
  shows "flattened_spec seq_lens dl bt n dt"
  using assms(9,10) by (intro flattened_step [OF assms(1-8) _ assms(11-15)])
    (auto simp: uniform_step_def Let_def split: if_splits)

text \<open>A small SM121 configuration: adaptive verification of two draft tokens, batches of twelve tokens.\<close>

definition demo_config :: vllm_config where
  "demo_config = \<lparr>cfg_max_model_len = 64, cfg_max_num_batched_tokens = 12, cfg_max_num_seqs = 4,
     cfg_decode_context_parallel_size = 1, cfg_prefill_context_parallel_size = 1,
     cfg_cp_kv_cache_interleave_size = 1, cfg_dcp_rank_in_group = 0, cfg_num_speculative_tokens = 3,
     cfg_speculative_config = Some \<lparr>sv_num_speculative_tokens = 3, sv_enable_adaptive_verification = True,
       sv_parallel_drafting = False, sv_use_dspark = True\<rparr>,
     cfg_indexer_kv_dtype = ''fp8'', cfg_use_non_causal = False,
     cfg_hf_config = \<lparr>hf_sliding_window = 8, hf_index_topk = 16, hf_vision_n_layers = 0,
       hf_vision_max_n_token = 0, hf_compress_ratios = Some [4, 128]\<rparr>\<rparr>"

definition demo_builder :: indexer_builder where
  "demo_builder = projr (indexer_init sm121 demo_config (Some 4) 64 2 (\<lambda>_. 7) 2)"

definition demo_block_table :: tensor2 where
  "demo_block_table = \<lparr>t_data = [1, 2, 3, 4, 5, 6, 7, 8], t_stride = 2, t_rows = 4, t_cols = 2\<rparr>"

lemma demo_builder_init: "indexer_init sm121 demo_config (Some 4) 64 2 (\<lambda>_. 7) 2 = Inr demo_builder"
  by (simp add: demo_builder_def indexer_init_def Let_def raise_if_def bind_result_def demo_config_def
      dsa_indexer_uses_fp4_def DSA_INDEXER_KV_DTYPES_def)

lemma demo_builder_wf: "wf_builder 12 demo_builder"
  using indexer_init_wf [OF demo_builder_init] by (simp add: demo_config_def)

lemma demo_builder_fields:
  "ib_config demo_builder = demo_config" "t_cols (ib_expanded_block_table_buffer demo_builder) = 2"
  "ib_num_speculative_tokens demo_builder = 3"
  by (simp_all add: demo_builder_def indexer_init_def Let_def raise_if_def bind_result_def demo_config_def
      dsa_indexer_uses_fp4_def DSA_INDEXER_KV_DTYPES_def)

text \<open>The batch of the source's comment, with device widths that differ from the CPU ones.\<close>

theorem flattening_paths_agree_witness:
  "flattened_spec [10, 7, 12, 0] [3, 1, 4, 0] demo_block_table 10
     (fst (prepare_decode_tensors (\<lambda>_. 99) demo_builder [10, 7, 12, 0] demo_block_table
        [3, 1, 4, 0] [2, 2, 4, 0] [0, 3, 4, 8] 4 10 False 4 4))"
proof -
  obtain dt self' where r: "prepare_decode_tensors (\<lambda>_. 99) demo_builder [10, 7, 12, 0] demo_block_table
      [3, 1, 4, 0] [2, 2, 4, 0] [0, 3, 4, 8] (length [3, 1, 4, 0::nat]) 10 False 4 4 = (dt, self')"
    by fastforce
  have q: "\<forall>b < length [3, 1, 4, 0::nat]. [0, 3, 4, 8] ! b = cu [3, 1, 4, 0] ! b"
    "\<forall>b < length [3, 1, 4, 0::nat]. [3, 1, 4, 0] ! b \<le> ([10, 7, 12, 0] ! b :: nat)" by code_simp+
  show ?thesis
    using flattening_paths_agree [OF demo_builder_wf _ _ _ _ _ _ q(2) _ _ _ _ _ q(1) r] r
    by (simp add: demo_builder_fields demo_config_def demo_block_table_def eval_nat_numeral)
qed

section \<open>Lengths read as unsigned\<close>

lemma native_row_nth:
  assumes "k \<le> length offs" "offs = [0..<length offs]" "j < k"
  shows "native_row offs k L ! j = max (int L - int k + 1 + int j) 0"
proof -
  have "take k offs = [0..<k]" using assms by (metis add_0 take_upt)
  then show ?thesis using assms by (simp add: native_row_def)
qed

text \<open>
  On the native path every length is safe for kernels that read it as \<^verbatim>\<open>uint32\<close>: entry
  \<open>[b, j]\<close> is \<open>L - max_decode_len + j + 1\<close> when that is positive and zero otherwise (the padding
  requests of length zero included), so it never exceeds the sequence length and reading it
  unsigned does not change it.
\<close>

theorem native_lengths_unsigned:
  assumes "wf_builder M self" "1 < next_n" "k \<le> ib_num_speculative_tokens self + 1"
    and "b < length seq_lens" "j < k" "seq_lens ! b < 2 ^ 32"
    and "prepare_decode_tensors uninit self seq_lens bt dl cpu qsl m n True next_n k = (dt, self')"
  shows "\<exists>rows. dt_seq_lens dt = Native rows \<and> length rows = length seq_lens \<and>
    rows ! b ! j = max (int (seq_lens ! b) - int k + int j + 1) 0 \<and>
    rows ! b ! j \<le> int (seq_lens ! b) \<and> as_uint32 (rows ! b ! j) = rows ! b ! j"
proof -
  let ?rows = "map (native_row (ib_offsets_buffer self) k) seq_lens"
  have dt: "dt_seq_lens dt = Native ?rows"
    using assms(2,7) by (auto simp: prepare_decode_tensors_def Let_def)
  have "ib_offsets_buffer self = [0..<ib_num_speculative_tokens self + 1]"
    using assms(1) by (simp add: wf_builder_def)
  then have v: "?rows ! b ! j = max (int (seq_lens ! b) - int k + int j + 1) 0"
    using assms(3-5) by (simp add: native_row_nth)
  moreover have le: "?rows ! b ! j \<le> int (seq_lens ! b)" unfolding v using assms(5) by simp
  moreover have "as_uint32 (?rows ! b ! j) = ?rows ! b ! j"
    using v le assms(6) by (intro as_uint32_eq) auto
  ultimately show ?thesis using dt by auto
qed

theorem native_lengths_unsigned_witness:
  "\<exists>rows. dt_seq_lens (fst (prepare_decode_tensors (\<lambda>_. 99) demo_builder [10, 0] demo_block_table
       [2, 2] [2, 2] [0, 2] 2 4 True 4 2)) = Native rows \<and> rows ! 1 ! 0 = 0"
proof -
  obtain dt self' where r: "prepare_decode_tensors (\<lambda>_. 99) demo_builder [10, 0] demo_block_table
      [2, 2] [2, 2] [0, 2] 2 4 True 4 2 = (dt, self')" by fastforce
  show ?thesis
    using native_lengths_unsigned [OF demo_builder_wf _ _ _ _ _ r, of 1 0] r
    by (auto simp: demo_builder_fields)
qed

text \<open>
  The \<^verbatim>\<open>repeat_interleave\<close> path has no such clamp.  A request of length zero with a width of
  two or more (the padding request of the kernel's own comment) gets the negative length
  \<open>1 - decode_len\<close> on its first token, which a kernel that reads \<^verbatim>\<open>uint32\<close> sees as
  \<open>2 ^ 32 + 1 - decode_len\<close>.
\<close>

theorem variable_path_unclamped:
  assumes "wf_builder M self"
    and "length seq_lens = length dl" "sum_list cpu = sum_list dl" "sum_list dl \<le> n" "n \<le> M"
    and "t_rows bt = length dl" "t_cols bt = t_cols (ib_expanded_block_table_buffer self)" "0 < t_cols bt"
    and "\<forall>b < length dl. qsl ! b = cu dl ! b"
    and "b < length dl" "seq_lens ! b = 0" "2 \<le> dl ! b" "dl ! b < 2 ^ 31"
  shows "let v = seq_lens_values (dt_seq_lens (flattened_views
            (prepare_variable_decode uninit self seq_lens bt dl cpu qsl n) n)) ! (cu dl ! b)
    in v = 1 - int (dl ! b) \<and> as_uint32 v = 2 ^ 32 + 1 - int (dl ! b)"
proof -
  let ?dt = "flattened_views (prepare_variable_decode uninit self seq_lens bt dl cpu qsl n) n"
  have spec: "flattened_spec seq_lens dl bt n ?dt" by (rule variable_flattened [OF assms(1-9)])
  have "0 < dl ! b" using assms(12) by simp
  then have v: "seq_lens_values (dt_seq_lens ?dt) ! (cu dl ! b) = 1 - int (dl ! b)"
    using spec assms(10,11) unfolding flattened_spec_def Let_def by force
  have "(1 - int (dl ! b)) mod 2 ^ 32 = (1 - int (dl ! b) + 2 ^ 32) mod 2 ^ 32"
    by (simp only: mod_add_self2)
  also have "\<dots> = 1 - int (dl ! b) + 2 ^ 32"
    using assms(12,13) by (intro mod_pos_pos_trivial) auto
  finally show ?thesis
    unfolding Let_def v as_uint32_mod by simp
qed

theorem variable_path_unclamped_witness:
  "as_uint32 (seq_lens_values (dt_seq_lens (flattened_views (prepare_variable_decode (\<lambda>_. 99) demo_builder
     [5, 6, 7, 0] demo_block_table [2, 2, 2, 2] [2, 2, 2, 2] [0, 2, 4, 6] 8) 8)) ! 6) = 4294967295"
proof -
  have q: "\<forall>b < length [2, 2, 2, 2::nat]. [0, 2, 4, 6] ! b = cu [2, 2, 2, 2] ! b"
    and c: "cu [2, 2, 2, 2] ! 3 = 6" by code_simp+
  have "t_rows demo_block_table = 4" "t_cols demo_block_table = 2" by (simp_all add: demo_block_table_def)
  then show ?thesis
    using variable_path_unclamped [OF demo_builder_wf _ _ _ _ _ _ _ q,
        of "[5, 6, 7, 0]" "[2, 2, 2, 2]" 8 demo_block_table 3 "\<lambda>_. 99"] unfolding c
    by (simp add: demo_builder_fields Let_def as_uint32_mod)
qed

end
