(* ===== verification/IndexerBuild.thy ===== *)
theory IndexerBuild
  imports IndexerDecode
begin

text \<open>
  \<^verbatim>\<open>DeepseekV32IndexerMetadataBuilder.build\<close> of
  \<^verbatim>\<open>src/docker/overlay-sm121-adaptive/indexer.py\<close>: the split of the batch into decodes and
  prefills, the compressed slot mapping, the prefill chunks and the decode tensors, in the order
  the method has them.  Functions of vLLM that the method calls and that are not in the
  repository are the fields of \<open>indexer_ext\<close>.
\<close>

section \<open>Metadata\<close>

record indexer_decode_metadata =
  idm_block_table :: tensor2
  idm_seq_lens :: seq_lens_t
  idm_decode_lens :: "nat list"
  idm_requires_padding :: bool
  idm_schedule_metadata :: "int list list"
  idm_global_seq_lens :: "int list option"
  idm_indices :: "nat list option"

record indexer_metadata =
  im_seq_lens :: "nat list"
  im_max_seq_len :: nat
  im_slot_mapping :: "int list"
  im_num_decodes :: nat
  im_num_decode_tokens :: nat
  im_num_prefills :: nat
  im_num_prefill_tokens :: nat
  im_decode :: "indexer_decode_metadata option"
  im_prefill :: "prefill_chunk_metadata list option"

text \<open>
  \<open>ix_split cm threshold require_uniform treat_short_extends_as_decodes\<close> is
  \<^verbatim>\<open>split_decodes_and_prefills\<close>; \<open>ix_slot_mapping\<close> is \<^verbatim>\<open>get_compressed_slot_mapping\<close>, which
  writes its \<^verbatim>\<open>out\<close> buffer and returns a view of it; \<open>ix_all_gather\<close> is the gather of the
  prefill-context-parallel group; \<open>ix_paged_metadata\<close> is DeepGEMM's
  \<^verbatim>\<open>get_paged_mqa_logits_metadata\<close>; \<open>ix_shard\<close> is \<^verbatim>\<open>get_dcp_local_seq_lens\<close>.
\<close>

record indexer_ext =
  ix_split :: "common_meta \<Rightarrow> nat \<Rightarrow> bool \<Rightarrow> bool \<Rightarrow> batch_split"
  ix_slot_mapping ::
    "nat \<Rightarrow> nat list \<Rightarrow> nat list \<Rightarrow> tensor2 \<Rightarrow> nat \<Rightarrow> nat \<Rightarrow> int list \<Rightarrow> int list \<times> int list"
  ix_all_gather :: "int list \<Rightarrow> int list"
  ix_paged_metadata :: "seq_lens_t \<Rightarrow> nat \<Rightarrow> nat \<Rightarrow> nat list option \<Rightarrow> int list list"
  ix_shard :: "int \<Rightarrow> nat \<Rightarrow> nat \<Rightarrow> nat \<Rightarrow> int"
  ix_uninit :: "nat \<Rightarrow> int"
  ix_max_logits_mb :: nat

section \<open>Slot mapping\<close>

definition build_slot_mapping ::
  "indexer_ext \<Rightarrow> indexer_builder \<Rightarrow> common_meta \<Rightarrow> int list \<times> nat list \<times> indexer_builder" where
  "build_slot_mapping ix self cm =
     (if ib_compress_ratio self > 1 then
        let num_tokens = cm_num_actual_tokens cm;
            padded_num_tokens =
              (if ib_pcp_world_size self > 1 then length (cm_slot_mapping cm) div ib_pcp_world_size self
               else num_tokens);
            (view, buf) = ix_slot_mapping ix num_tokens (cm_query_start_loc cm) (cm_seq_lens cm)
                            (cm_block_table cm) (ib_num_states self) (ib_compress_ratio self)
                            (ib_compressed_slot_mapping_buffer self);
            compressed_slot_mapping =
              (if ib_pcp_world_size self > 1 then ix_all_gather ix (take padded_num_tokens buf) else view)
        in (compressed_slot_mapping, map (\<lambda>s. s div ib_compress_ratio self) (cm_seq_lens cm),
            self\<lparr>ib_compressed_slot_mapping_buffer := buf\<rparr>)
      else (cm_slot_mapping cm, cm_seq_lens cm, self))"

section \<open>Prefill part\<close>

definition prefill_chunk_specs ::
  "indexer_ext \<Rightarrow> indexer_builder \<Rightarrow> common_meta \<Rightarrow> nat list \<Rightarrow> nat \<Rightarrow> nat \<Rightarrow> ((nat \<times> nat) \<times> (nat \<times> nat)) list" where
  "prefill_chunk_specs ix self cm compressed_seq_lens_cpu num_decodes num_prefills =
     split_indexer_prefill_chunks (drop num_decodes compressed_seq_lens_cpu)
       (diff (pyslice num_decodes (num_decodes + num_prefills + 1) (cm_query_start_loc_cpu cm)))
       (ib_max_prefill_buffer_size self) (ix_max_logits_mb ix * 1024 * 1024) num_decodes"

definition build_prefill_chunks ::
  "indexer_ext \<Rightarrow> indexer_builder \<Rightarrow> common_meta \<Rightarrow> nat list \<Rightarrow> nat \<Rightarrow> nat
   \<Rightarrow> prefill_chunk_metadata list result" where
  "build_prefill_chunks ix self cm compressed_seq_lens num_decodes num_prefills =
     (case cm_seq_lens_cpu_upper_bound cm of
        None \<Rightarrow> Inl (AssertionError ''seq_lens_cpu_upper_bound is not None'')
      | Some seq_lens_cpu \<Rightarrow>
          let compressed_seq_lens_cpu =
                (if ib_compress_ratio self > 1 then map (\<lambda>s. s div ib_compress_ratio self) seq_lens_cpu
                 else seq_lens_cpu);
              chunk_specs = prefill_chunk_specs ix self cm compressed_seq_lens_cpu num_decodes num_prefills
          in Inr (List.map_filter (\<lambda>(req_slice, query_slice).
               build_prefill_chunk_metadata (\<lambda>l w r k. nat (ix_shard ix (int l) w r k)) (ix_uninit ix)
                 (fst req_slice) (snd req_slice) (cm_query_start_loc cm) (cm_query_start_loc_cpu cm)
                 (cm_seq_lens cm) compressed_seq_lens compressed_seq_lens_cpu (cm_block_table cm)
                 (ib_compress_ratio self) (Some query_slice) (fst query_slice > 0)
                 (ib_dcp_rank self) (ib_dcp_world_size self) (ib_interleave_size self)) chunk_specs))"

section \<open>Decode part\<close>

text \<open>The kernel is legal per step: it sees \<open>max_decode_len\<close> query rows.\<close>

definition step_use_native :: "platform \<Rightarrow> indexer_builder \<Rightarrow> nat \<Rightarrow> bool" where
  "step_use_native p self max_decode_len =
     (let next_n = 1 + ib_num_speculative_tokens self;
          step_next_n_ok = (max_decode_len \<le> 1 \<or> supports_native_decode p max_decode_len)
      in \<not> (ib_use_flattening self \<or> ib_supports_varlen self) \<and> max_decode_len \<le> next_n \<and> step_next_n_ok)"

text \<open>Division of the lengths by the compression ratio, in place when they are a view of the buffer.\<close>

definition compress_decode_seq_lens ::
  "indexer_builder \<Rightarrow> seq_lens_t \<Rightarrow> bool \<Rightarrow> nat \<Rightarrow> nat \<Rightarrow> seq_lens_t \<times> indexer_builder" where
  "compress_decode_seq_lens self seq_lens seq_lens_is_buffer_view num_decodes num_decode_tokens =
     (if ib_compress_ratio self > 1 then
        let compressed = map_seq_lens (\<lambda>l. l div int (ib_compress_ratio self)) seq_lens
        in if seq_lens_is_buffer_view
           then (compressed,
                 self\<lparr>ib_decode_seq_lens_buffer :=
                        set_slice 0 (seq_lens_values compressed) (ib_decode_seq_lens_buffer self)\<rparr>)
           else
             let buf = set_slice num_decodes (replicate (num_decode_tokens - num_decodes) 0)
                         (set_slice 0 (seq_lens_values compressed) (ib_expanded_seq_lens_buffer self))
             in (Flat (take num_decode_tokens buf), self\<lparr>ib_expanded_seq_lens_buffer := buf\<rparr>)
      else (seq_lens, self))"

text \<open>
  The scheduler metadata: DeepGEMM's answer is copied into the first rows of the buffer, which
  raises when it has more rows than the buffer.
\<close>

definition build_schedule_metadata ::
  "indexer_ext \<Rightarrow> platform \<Rightarrow> indexer_builder \<Rightarrow> seq_lens_t \<Rightarrow> nat list option
   \<Rightarrow> (int list list \<times> indexer_builder) result" where
  "build_schedule_metadata ix p self seq_lens decode_indices =
     (if is_cuda p \<and> has_deep_gemm p then
        let metadata = ix_paged_metadata ix seq_lens (ib_num_states self) (ib_num_sms self) decode_indices
        in raise_if (length metadata > length (ib_scheduler_metadata_buffer self))
             (RuntimeError ''schedule metadata larger than the buffer'')
             (Inr (metadata, self\<lparr>ib_scheduler_metadata_buffer :=
                     set_slice 0 metadata (ib_scheduler_metadata_buffer self)\<rparr>))
      else Inr (ib_scheduler_metadata_buffer self, self))"

text \<open>
  The lengths from the request level to the final per-row values: expansion (or the native
  layout), then localisation to this rank, then compression.
\<close>

definition decode_lengths ::
  "indexer_ext \<Rightarrow> indexer_builder \<Rightarrow> common_meta \<Rightarrow> nat list \<Rightarrow> nat list \<Rightarrow> bool \<Rightarrow> nat \<Rightarrow> nat \<Rightarrow> nat
   \<Rightarrow> decode_tensors \<times> seq_lens_t \<times> indexer_builder" where
  "decode_lengths ix self cm decode_lens decode_lens_cpu use_native max_decode_len num_decodes num_decode_tokens =
     (let next_n = 1 + ib_num_speculative_tokens self;
          (dt, self1) = prepare_decode_tensors (ix_uninit ix) self (take num_decodes (cm_seq_lens cm))
              (first_rows num_decodes (cm_block_table cm)) decode_lens decode_lens_cpu
              (take num_decodes (cm_query_start_loc cm)) num_decodes num_decode_tokens use_native next_n
              max_decode_len;
          seq_lens_is_buffer_view = (\<not> use_native \<or> next_n > 1);
          (seq_lens, self2) =
            (case cm_dcp_local_seq_lens cm of
               None \<Rightarrow> (dt_seq_lens dt, self1)
             | Some _ \<Rightarrow> dcp_localize_decode_seq_lens (ix_shard ix) self1 (dt_seq_lens dt) num_decodes
                          seq_lens_is_buffer_view);
          (seq_lens', self3) =
            compress_decode_seq_lens self2 seq_lens seq_lens_is_buffer_view num_decodes num_decode_tokens
      in (dt, unsqueeze_last seq_lens', self3))"

definition build_decode ::
  "indexer_ext \<Rightarrow> platform \<Rightarrow> indexer_builder \<Rightarrow> common_meta \<Rightarrow> nat \<Rightarrow> nat
   \<Rightarrow> (indexer_decode_metadata \<times> indexer_builder) result" where
  "build_decode ix p self cm num_decodes num_decode_tokens =
     (let decode_lens = diff (take (num_decodes + 1) (cm_query_start_loc cm));
          self0 = self\<lparr>ib_decode_lens_buffer := set_slice 0 decode_lens (ib_decode_lens_buffer self)\<rparr>;
          decode_lens_cpu = diff (take (num_decodes + 1) (cm_query_start_loc_cpu cm));
          global_seq_lens = (case cm_dcp_local_seq_lens cm of
                               None \<Rightarrow> None | Some _ \<Rightarrow> Some (take num_decodes (cm_seq_lens cm)));
          max_decode_len = fold max decode_lens_cpu 0;
          use_native = step_use_native p self0 max_decode_len;
          (global_lens, self1) =
            prepare_global_decode_seq_lens (ix_uninit ix) self0 global_seq_lens decode_lens decode_lens_cpu
              (take num_decodes (cm_query_start_loc cm)) num_decode_tokens use_native max_decode_len;
          (decode_indices, self2) =
            (if ib_supports_varlen self1
             then map_prod Some id (build_varlen_decode_indices (\<lambda>i. nat (ix_uninit ix i)) self1 decode_lens
                                      decode_lens_cpu num_decode_tokens)
             else (None, self1));
          (dt, seq_lens, self3) =
            decode_lengths ix self2 cm decode_lens decode_lens_cpu use_native max_decode_len
              num_decodes num_decode_tokens
      in bind_result (build_schedule_metadata ix p self3 seq_lens decode_indices) (\<lambda>(schedule_metadata, self4).
           Inr (\<lparr>idm_block_table = dt_block_table dt, idm_seq_lens = seq_lens,
                  idm_decode_lens = dt_decode_lens dt, idm_requires_padding = dt_requires_padding dt,
                  idm_schedule_metadata = schedule_metadata, idm_global_seq_lens = global_lens,
                  idm_indices = decode_indices\<rparr>, self4)))"

section \<open>The whole method\<close>

definition indexer_split :: "indexer_ext \<Rightarrow> indexer_builder \<Rightarrow> common_meta \<Rightarrow> batch_split" where
  "indexer_split ix self cm =
     ix_split ix cm (ib_decode_threshold self) (\<not> (ib_use_flattening self \<or> ib_supports_varlen self))
       (\<not> ib_use_pcp self)"

definition indexer_build ::
  "indexer_ext \<Rightarrow> platform \<Rightarrow> indexer_builder \<Rightarrow> common_meta \<Rightarrow> (indexer_metadata \<times> indexer_builder) result" where
  "indexer_build ix p self cm =
     (case indexer_split ix self cm of (num_decodes, num_prefills, num_decode_tokens, num_prefill_tokens) \<Rightarrow>
        raise_if (num_decodes + num_prefills \<noteq> cm_num_reqs cm)
          (AssertionError ''num_decodes + num_prefills == num_reqs'')
       (raise_if (num_decode_tokens + num_prefill_tokens \<noteq> cm_num_actual_tokens cm)
          (AssertionError ''num_decode_tokens + num_prefill_tokens == num_tokens'')
       (case build_slot_mapping ix self cm of (slot_mapping, compressed_seq_lens, self1) \<Rightarrow>
          bind_result
            (if num_prefills > 0
             then bind_result (build_prefill_chunks ix self1 cm compressed_seq_lens num_decodes num_prefills)
                    (\<lambda>chunks. Inr (Some chunks))
             else Inr None) (\<lambda>prefill_metadata.
          bind_result
            (if num_decodes > 0
             then bind_result (build_decode ix p self1 cm num_decodes num_decode_tokens)
                    (\<lambda>(md, self2). Inr (Some md, self2))
             else Inr (None, self1)) (\<lambda>(decode_metadata, self2).
          Inr (\<lparr>im_seq_lens = cm_seq_lens cm, im_max_seq_len = cm_max_seq_len cm,
                 im_slot_mapping = slot_mapping, im_num_decodes = num_decodes,
                 im_num_decode_tokens = num_decode_tokens, im_num_prefills = num_prefills,
                 im_num_prefill_tokens = num_prefill_tokens, im_decode = decode_metadata,
                 im_prefill = prefill_metadata\<rparr>, self2))))))"

section \<open>No prefill token is lost\<close>

text \<open>The token range of a chunk specification and of the metadata built for it.\<close>

definition chunk_range :: "prefill_chunk_metadata \<Rightarrow> nat \<times> nat" where
  "chunk_range c = (pc_token_start c, pc_token_end c)"

lemma chunk_metadata_range:
  assumes "build_prefill_chunk_metadata sh u r r' qsl (cu qs) ss cs cpu bt ratio (Some (a, b)) skip rank W K = Some md"
  shows "chunk_range md = (cu qs ! r + a, cu qs ! r + b)"
  using assms by (auto simp: build_prefill_chunk_metadata_def Let_def chunk_range_def split: if_splits)

lemma chunk_metadata_None:
  assumes "build_prefill_chunk_metadata sh u r r' qsl qc ss cs cpu bt ratio (Some (a, b)) skip rank W K = None"
  shows "sum_list (pyslice r r' cpu) = 0"
  using assms by (auto simp: build_prefill_chunk_metadata_def Let_def split: if_splits)

lemma cu_drop: "i + k \<le> length xs \<Longrightarrow> cu xs ! (i + k) = cu xs ! k + cu (drop k xs) ! i"
  using take_add [of k i xs] by (simp add: nth_cu add.commute)

lemma diff_suffix:
  "length qs = m + k \<Longrightarrow> diff (pyslice m (Suc (m + k)) (cu qs)) = drop m qs"
  by (rule nth_equalityI) (auto simp: nth_diff length_slice nth_slice nth_cu take_Suc_conv_app_nth)

lemma map_filter_ranges:
  assumes "\<And>x y. x \<in> set xs \<Longrightarrow> f x = Some y \<Longrightarrow> g y = h x"
  shows "map g (List.map_filter f xs) = map h (filter (\<lambda>x. f x \<noteq> None) xs)"
  using assms
proof (induction xs)
  case (Cons x xs)
  then show ?case by (cases "f x") (simp_all add: List.map_filter_simps)
qed (simp add: List.map_filter_simps)

lemma covered_memI:
  "c \<in> set cs \<Longrightarrow> h c = (x, y) \<Longrightarrow> x \<le> t \<Longrightarrow> t < y \<Longrightarrow> t \<in> set (covered (map h cs))"
  by (force simp: covered_def)

lemma subseq_set: "subseq xs ys \<Longrightarrow> set xs \<subseteq> set ys"
  by (auto elim: list_emb_set)

lemma subseq_sorted_wrt: "subseq xs ys \<Longrightarrow> sorted_wrt P ys \<Longrightarrow> sorted_wrt P xs"
  by (induction xs ys rule: list_emb.induct) (auto dest: subseq_set)

lemma covered_filter_subseq: "subseq (covered (map h (filter P xs))) (covered (map h xs))"
proof (induction xs)
  case (Cons x xs)
  then show ?case by (cases "h x") (auto intro: list_emb_append2 list_emb_append_mono)
qed simp

lemma map_add_upt': "map (\<lambda>t. k + t) [a..<b] = [k + a..<k + b :: nat]"
  by (rule nth_equalityI) auto

lemma split_spec_bounds:
  assumes "((r, r'), (a, b)) \<in> set (split_indexer_prefill_chunks ss qs W B off)" "length qs = length ss"
  shows "off \<le> r \<and> r < r' \<and> r' \<le> off + length ss \<and> b \<le> sum_list (pyslice (r - off) (r' - off) qs)"
proof -
  from split_chunks_from_member [OF assms(1) [unfolded split_indexer_prefill_chunks_def]]
  obtain s e m n where s: "s < length ss" and nc: "next_chunk ss qs W (B div 4) s = (e, m, n)"
    and r: "r = s + off" "r' = e + off" and ab: "(a, b) \<in> set (sub_chunks (B div 4) m n)" by auto
  show ?thesis
    using next_chunk_bounds [OF nc s] next_chunk_sums [OF nc s assms(2)] sub_chunk_width [OF ab] r by simp
qed

text \<open>The chunk specifications of the batch, as token positions of the whole batch.\<close>

definition spec_range :: "nat list \<Rightarrow> (nat \<times> nat) \<times> (nat \<times> nat) \<Rightarrow> nat \<times> nat" where
  "spec_range qs c = (cu qs ! fst (fst c) + fst (snd c), cu qs ! fst (fst c) + snd (snd c))"

lemma specs_cover:
  assumes "length qs = m + k" "length cpu = m + k"
  shows "covered (map (spec_range qs) (split_indexer_prefill_chunks (drop m cpu) (drop m qs) W B m))
    = [cu qs ! m..<sum_list qs]"
proof -
  let ?specs = "split_indexer_prefill_chunks (drop m cpu) (drop m qs) W B m"
  have one: "(case spec_range qs c of (a, b) \<Rightarrow> [a..<b]) = map (\<lambda>t. cu qs ! m + t) (chunk_tokens (drop m qs) m c)"
    if c: "c \<in> set ?specs" for c
  proof -
    obtain r r' a b where cc: "c = ((r, r'), (a, b))" by (metis surj_pair)
    have "m \<le> r \<and> r < r' \<and> r' \<le> m + length (drop m cpu)"
      using split_spec_bounds [of r r' a b "drop m cpu" "drop m qs" W B m] c assms cc by simp
    then have "cu qs ! r = cu qs ! m + cu (drop m qs) ! (r - m)"
      using cu_drop [of "r - m" m qs] assms by simp
    then show ?thesis
      by (simp add: cc spec_range_def chunk_tokens_def map_add_upt' add.assoc)
  qed
  have "covered (map (spec_range qs) ?specs)
      = map (\<lambda>t. cu qs ! m + t) (concat (map (chunk_tokens (drop m qs) m) ?specs))"
    using one by (simp add: covered_def map_concat comp_def cong: map_cong)
  also have "\<dots> = map (\<lambda>t. cu qs ! m + t) [0..<sum_list (drop m qs)]"
    using split_chunks_from_covers [of "drop m qs" "drop m cpu" 0 m W "B div 4"] assms
    by (simp add: split_indexer_prefill_chunks_def nth_cu)
  also have "\<dots> = [cu qs ! m..<cu qs ! m + sum_list (drop m qs)]"
    by (simp add: map_add_upt')
  also have "cu qs ! m + sum_list (drop m qs) = sum_list qs"
    using assms append_take_drop_id [of m qs] by (metis le_add1 nth_cu sum_list_append)
  finally show ?thesis .
qed

text \<open>A token of a request with at least one compressed key is inside a chunk that is kept.\<close>

lemma kept_chunk_of_token:
  assumes len: "length qs = m + k" "length cpu = m + k"
    and b: "m \<le> b" "b < m + k" "cu qs ! b \<le> t" "t < cu qs ! Suc b" "0 < cpu ! b"
  shows "\<exists>r r' a e. ((r, r'), (a, e)) \<in> set (split_indexer_prefill_chunks (drop m cpu) (drop m qs) W B m)
    \<and> cu qs ! r + a \<le> t \<and> t < cu qs ! r + e \<and> sum_list (pyslice r r' cpu) \<noteq> 0"
proof -
  let ?specs = "split_indexer_prefill_chunks (drop m cpu) (drop m qs) W B m"
  have "cu qs ! m \<le> t" using b cu_mono [of m b qs] len by linarith
  moreover have "t < sum_list qs" using b len cu_le_sum [of "Suc b" qs] by simp
  ultimately have "t \<in> set (covered (map (spec_range qs) ?specs))" using specs_cover [OF len] by simp
  then obtain r r' a e where c: "((r, r'), (a, e)) \<in> set ?specs" and t: "cu qs ! r + a \<le> t" "t < cu qs ! r + e"
    by (auto simp: covered_def spec_range_def)
  note bd = split_spec_bounds [OF c]
  have r: "m \<le> r" "r < r'" "r' \<le> m + k" "e \<le> sum_list (pyslice (r - m) (r' - m) (drop m qs))"
    using bd len by auto
  have "pyslice (r - m) (r' - m) (drop m qs) = pyslice r r' qs" using r by (simp add: pyslice_def)
  then have "t < cu qs ! r'"
    using t r len cu_mono [of r r' qs] by (simp add: sum_slice)
  then have "r \<le> b \<and> b < r'"
    using t b r len cu_mono [of "Suc b" r qs] cu_mono [of r' b qs]
    by (metis add_leD1 le_trans not_less not_less_eq_eq less_or_eq_imp_le)
  then have "cpu ! b \<in> set (pyslice r r' cpu)"
    using r len by (auto simp: in_set_conv_nth length_slice nth_slice intro!: exI [of _ "b - r"])
  then have "sum_list (pyslice r r' cpu) \<noteq> 0" using b(5) by auto
  with c t show ?thesis by blast
qed

text \<open>
  \<^verbatim>\<open>build\<close> loses no prefill token.  The token ranges of the chunk metadata it returns are
  in strictly increasing order (so no token is in two chunks), stay inside the prefill part of the
  batch, and contain every prefill token of a request that has at least one compressed key; the
  chunks it drops are those without keys.
\<close>

theorem build_prefill_keeps_tokens:
  assumes q: "cm_query_start_loc_cpu cm = cu qs" "length qs = m + k"
    and up: "cm_seq_lens_cpu_upper_bound cm = Some us" "length us = m + k" "1 < ib_compress_ratio self"
    and res: "build_prefill_chunks ix self cm cs m k = Inr chunks"
  shows "sorted_wrt (<) (covered (map chunk_range chunks))
    \<and> set (covered (map chunk_range chunks)) \<subseteq> {cu qs ! m..<sum_list qs}
    \<and> (\<forall>b t. m \<le> b \<and> b < m + k \<and> cu qs ! b \<le> t \<and> t < cu qs ! Suc b \<and> 0 < us ! b div ib_compress_ratio self
         \<longrightarrow> t \<in> set (covered (map chunk_range chunks)))"
proof -
  let ?cpu = "map (\<lambda>s. s div ib_compress_ratio self) us"
  let ?specs = "split_indexer_prefill_chunks (drop m ?cpu) (drop m qs)
     (ib_max_prefill_buffer_size self) (ix_max_logits_mb ix * 1024 * 1024) m"
  let ?sh = "\<lambda>l w r k. nat (ix_shard ix (int l) w r k)"
  let ?f = "\<lambda>(req_slice, query_slice). build_prefill_chunk_metadata ?sh (ix_uninit ix)
       (fst req_slice) (snd req_slice) (cm_query_start_loc cm) (cu qs) (cm_seq_lens cm) cs ?cpu
       (cm_block_table cm) (ib_compress_ratio self) (Some query_slice) (fst query_slice > 0)
       (ib_dcp_rank self) (ib_dcp_world_size self) (ib_interleave_size self)"
  have chunks: "chunks = List.map_filter ?f ?specs"
    using res q up by (simp add: build_prefill_chunks_def prefill_chunk_specs_def Let_def diff_suffix)
  have len: "length ?cpu = m + k" using up(2) by simp
  have ranges: "map chunk_range chunks = map (spec_range qs) (filter (\<lambda>c. ?f c \<noteq> None) ?specs)"
    unfolding chunks
    by (rule map_filter_ranges) (auto simp: spec_range_def dest!: chunk_metadata_range)
  have sub: "subseq (covered (map chunk_range chunks)) [cu qs ! m..<sum_list qs]"
    using covered_filter_subseq [of "spec_range qs" "\<lambda>c. ?f c \<noteq> None" ?specs]
    unfolding ranges specs_cover [OF q(2) len] .
  have "t \<in> set (covered (map chunk_range chunks))"
    if b: "m \<le> b" "b < m + k" "cu qs ! b \<le> t" "t < cu qs ! Suc b" "0 < us ! b div ib_compress_ratio self" for b t
  proof -
    have "0 < ?cpu ! b" using b up(2) by simp
    from kept_chunk_of_token [OF q(2) len b(1-4) this,
        of "ib_max_prefill_buffer_size self" "ix_max_logits_mb ix * 1024 * 1024"]
    obtain r r' a e where c: "((r, r'), (a, e)) \<in> set ?specs" and t: "cu qs ! r + a \<le> t" "t < cu qs ! r + e"
      and ne: "sum_list (pyslice r r' ?cpu) \<noteq> 0" by blast
    have "?f ((r, r'), (a, e)) \<noteq> None"
      using ne unfolding prod.case fst_conv snd_conv by (rule contrapos_nn) (rule chunk_metadata_None)
    with c have "((r, r'), (a, e)) \<in> set (filter (\<lambda>c. ?f c \<noteq> None) ?specs)" by simp
    then show ?thesis
      unfolding ranges by (rule covered_memI) (use t in \<open>auto simp: spec_range_def\<close>)
  qed
  moreover have "sorted_wrt (<) (covered (map chunk_range chunks))"
    by (rule subseq_sorted_wrt [OF sub]) simp
  moreover have "set (covered (map chunk_range chunks)) \<subseteq> {cu qs ! m..<sum_list qs}"
    using subseq_set [OF sub] by simp
  ultimately show ?thesis by blast
qed

text \<open>
  A batch of two decodes, whose widths the device changed from two and two to three and one,
  and a prefill of five tokens.
\<close>

definition demo_ext :: indexer_ext where
  "demo_ext = \<lparr>ix_split = (\<lambda>cm threshold uniform short. (2, 1, 4, 5)),
     ix_slot_mapping = (\<lambda>n qsl sl bt ns ratio out. (take n out, out)), ix_all_gather = id,
     ix_paged_metadata = (\<lambda>sl ns sms idx. [[0, 0], [1, 0]]),
     ix_shard = (\<lambda>l w r k. dcp_local_len l r w k), ix_uninit = (\<lambda>_. 99), ix_max_logits_mb = 512\<rparr>"

definition demo_batch :: common_meta where
  "demo_batch = \<lparr>cm_num_reqs = 3, cm_num_actual_tokens = 9, cm_max_query_len = 5, cm_max_seq_len = 10,
     cm_query_start_loc = cu [3, 1, 5], cm_query_start_loc_cpu = cu [2, 2, 5], cm_seq_lens = [10, 7, 5],
     cm_seq_lens_cpu_upper_bound = Some [10, 8, 5], cm_slot_mapping = replicate 9 0,
     cm_block_table = demo_block_table, cm_dcp_local_seq_lens = None, cm_positions = None,
     cm_causal = True, cm_mm_req_doc_ranges = []\<rparr>"

lemma demo_builder_compress: "ib_compress_ratio demo_builder = 4"
  by (simp add: demo_builder_def indexer_init_def Let_def raise_if_def bind_result_def demo_config_def
      dsa_indexer_uses_fp4_def DSA_INDEXER_KV_DTYPES_def)

theorem build_prefill_keeps_tokens_witness:
  "\<exists>chunks. build_prefill_chunks demo_ext demo_builder demo_batch [2, 1, 1] 2 1 = Inr chunks
     \<and> sorted_wrt (<) (covered (map chunk_range chunks)) \<and> 8 \<in> set (covered (map chunk_range chunks))"
proof -
  obtain chunks where r: "build_prefill_chunks demo_ext demo_builder demo_batch [2, 1, 1] 2 1 = Inr chunks"
    by (simp add: build_prefill_chunks_def demo_batch_def Let_def)
  have c: "cu [2, 2, 5] ! 2 = 4" "cu [2, 2, 5] ! Suc 2 = 9" by code_simp+
  have "sorted_wrt (<) (covered (map chunk_range chunks)) \<and>
      (\<forall>b t. 2 \<le> b \<and> b < 2 + 1 \<and> cu [2, 2, 5] ! b \<le> t \<and> t < cu [2, 2, 5] ! Suc b
         \<and> 0 < [10, 8, 5] ! b div ib_compress_ratio demo_builder \<longrightarrow> t \<in> set (covered (map chunk_range chunks)))"
    using build_prefill_keeps_tokens [OF _ _ _ _ _ r, of "[2, 2, 5]" "[10, 8, 5]"]
    by (simp add: demo_builder_compress demo_batch_def)
  note this [THEN conjunct1] this [THEN conjunct2, rule_format, of 2 8]
  then show ?thesis using r c by (simp add: demo_builder_compress)
qed

section \<open>The decode rows of a whole step\<close>

lemma fold_max_ge: "a \<le> fold max xs (a :: nat) \<and> (\<forall>x \<in> set xs. x \<le> fold max xs a)"
proof (induction xs arbitrary: a)
  case (Cons x xs)
  from Cons [of "max x a"] show ?case by auto
qed simp

text \<open>Operations keep the shape of the builder and its configuration.\<close>

definition same_config :: "indexer_builder \<Rightarrow> indexer_builder \<Rightarrow> bool" where
  "same_config self self' \<longleftrightarrow>
     ib_config self' = ib_config self \<and> ib_compress_ratio self' = ib_compress_ratio self \<and>
     ib_supports_varlen self' = ib_supports_varlen self \<and> ib_use_flattening self' = ib_use_flattening self \<and>
     ib_num_speculative_tokens self' = ib_num_speculative_tokens self \<and>
     t_cols (ib_expanded_block_table_buffer self') = t_cols (ib_expanded_block_table_buffer self)"

lemma same_config_refl [simp]: "same_config self self"
  by (simp add: same_config_def)

lemma same_config_trans: "same_config a b \<Longrightarrow> same_config b c \<Longrightarrow> same_config a c"
  by (simp add: same_config_def)

lemma decode_lens_kept:
  "wf_builder M self \<Longrightarrow> length dl \<le> M \<Longrightarrow>
   wf_builder M (self\<lparr>ib_decode_lens_buffer := set_slice 0 dl (ib_decode_lens_buffer self)\<rparr>)"
  by (simp add: wf_builder_def)

lemma decode_lens_same:
  "same_config self (self\<lparr>ib_decode_lens_buffer := buf\<rparr>)"
  by (simp add: same_config_def)

lemma length_indices:
  assumes "wf_builder M self" "length dl \<le> M" "sum_list cpu = sum_list dl" "sum_list dl \<le> n" "n \<le> M"
  shows "length (repeat_interleave u (take (length dl) (ib_arange_buffer self)) dl (sum_list cpu)) = sum_list dl"
  using assms wf_builderD(5) [OF assms(1), of "length dl"]
  by (simp add: repeat_interleave_exact length_repeats)

lemma varlen_indices_kept:
  assumes "wf_builder M self" "length dl \<le> M" "sum_list cpu = sum_list dl" "sum_list dl \<le> n" "n \<le> M"
    and "build_varlen_decode_indices u self dl cpu n = (idx, self')"
  shows "wf_builder M self'" "same_config self self'"
proof -
  have "length (take (n - sum_list dl) (ib_arange_buffer self)) \<le> n - sum_list dl" by simp
  then show "wf_builder M self'" "same_config self self'"
    using assms(1,3-6) length_indices [OF assms(1-5), of u]
    by (auto simp: build_varlen_decode_indices_def Let_def wf_builder_def same_config_def)
qed

lemma global_lens_kept:
  assumes "wf_builder M self" "length gs = length dl" "sum_list cpu = sum_list dl" "sum_list dl \<le> n" "n \<le> M"
    and "prepare_global_decode_seq_lens u self (Some gs) dl cpu qsl n native k = (r, self')"
  shows "wf_builder M self'" "same_config self self'"
proof -
  define N where "N = sum_list dl"
  have e: "length (expanded_lens u gs dl qsl (ib_arange_buffer self) N) = N"
    using assms unfolding N_def by (intro length_expanded_lens) (auto simp: wf_builder_def)
  have N: "sum_list cpu = N" "N \<le> n" using assms by (auto simp: N_def)
  show "wf_builder M self'" "same_config self self'"
    using assms(1,5,6) e N
    by (auto simp: prepare_global_decode_seq_lens_def Let_def wf_builder_def same_config_def split: if_splits)
qed

lemma global_lens_None [simp]:
  "prepare_global_decode_seq_lens u self None dl cpu qsl n native k = (None, self)"
  by (simp add: prepare_global_decode_seq_lens_def)

lemma prepare_uniform_kept:
  assumes "wf_builder M self" "n \<le> M"
  shows "wf_builder M (prepare_uniform_decode self ss bt n k)" "same_config self (prepare_uniform_decode self ss bt n k)"
  using assms by (auto simp: prepare_uniform_decode_def Let_def wf_builder_def wf_tensor2_def same_config_def)

lemma prepare_variable_kept:
  assumes "wf_builder M self" "length ss = length dl" "sum_list cpu = sum_list dl" "sum_list dl \<le> n" "n \<le> M"
  shows "wf_builder M (prepare_variable_decode u self ss bt dl cpu qsl n)"
    "same_config self (prepare_variable_decode u self ss bt dl cpu qsl n)"
proof -
  have "length (expanded_lens u ss dl qsl (ib_arange_buffer self) (sum_list dl)) = sum_list dl"
    using assms by (intro length_expanded_lens) (auto simp: wf_builder_def)
  then show "wf_builder M (prepare_variable_decode u self ss bt dl cpu qsl n)"
    "same_config self (prepare_variable_decode u self ss bt dl cpu qsl n)"
    using assms by (auto simp: prepare_variable_decode_def Let_def wf_builder_def wf_tensor2_def same_config_def)
qed

lemma length_native_rows:
  "k \<le> length offs \<Longrightarrow> length (concat (map (native_row offs k) ss)) = length ss * k"
  by (induction ss) (auto simp: native_row_def min_def)

lemma prepare_decode_kept:
  assumes wf: "wf_builder M self" "length ss = length dl" "sum_list cpu = sum_list dl" "sum_list dl \<le> n" "n \<le> M"
    and native: "native \<Longrightarrow> k \<le> ib_num_speculative_tokens self + 1 \<and> length ss * k \<le> M"
    and res: "prepare_decode_tensors u self ss bt dl cpu qsl m n native next_n k = (dt, self')"
  shows "wf_builder M self' \<and> same_config self self'"
proof (cases native)
  case True
  have "length (concat (map (native_row (ib_offsets_buffer self) k) ss)) = length ss * k"
    using native [OF True] wf(1) by (intro length_native_rows) (simp add: wf_builder_def)
  then show ?thesis
    using True res native wf(1)
    by (auto simp: prepare_decode_tensors_def Let_def wf_builder_def same_config_def split: if_splits)
next
  case False
  then show ?thesis
    using res prepare_uniform_kept [OF wf(1,5), of ss bt k] prepare_variable_kept [OF wf, of u bt qsl]
    by (auto simp: prepare_decode_tensors_def Let_def split: if_splits)
qed

text \<open>
  What the scheduler hands over for the decode part of a batch: device and CPU offsets whose
  widths may differ but have the same sum, and room in the builder's buffers.
\<close>

definition decode_batch :: "nat \<Rightarrow> common_meta \<Rightarrow> nat list \<Rightarrow> nat list \<Rightarrow> nat \<Rightarrow> bool" where
  "decode_batch M cm dl cpu n \<longleftrightarrow>
     take (length dl + 1) (cm_query_start_loc cm) = cu dl \<and>
     take (length dl + 1) (cm_query_start_loc_cpu cm) = cu cpu \<and>
     length cpu = length dl \<and> sum_list cpu = sum_list dl \<and> sum_list dl \<le> n \<and> n \<le> M \<and>
     length dl \<le> M \<and> length dl \<le> length (cm_seq_lens cm) \<and> length dl \<le> t_rows (cm_block_table cm)"

lemma decode_batchD:
  assumes "decode_batch M cm dl cpu n"
  shows "diff (take (length dl + 1) (cm_query_start_loc cm)) = dl"
    "diff (take (length dl + 1) (cm_query_start_loc_cpu cm)) = cpu"
    "length (take (length dl) (cm_seq_lens cm)) = length dl"
    "length cpu = length dl" "sum_list cpu = sum_list dl" "sum_list dl \<le> n" "n \<le> M" "length dl \<le> M"
    "\<forall>b < length dl. take (length dl) (cm_query_start_loc cm) ! b = cu dl ! b"
    "t_rows (first_rows (length dl) (cm_block_table cm)) = length dl"
proof -
  have q: "take (length dl + 1) (cm_query_start_loc cm) = cu dl" using assms by (simp add: decode_batch_def)
  show "\<forall>b < length dl. take (length dl) (cm_query_start_loc cm) ! b = cu dl ! b"
    using q by (metis less_add_one nth_take order_less_trans)
qed (use assms in \<open>simp_all add: decode_batch_def first_rows_def\<close>)

lemma prepare_decode_flat:
  assumes "prepare_decode_tensors u self ss bt dl cpu qsl m n False next_n k = (dt, self')"
  shows "\<exists>xs. dt_seq_lens dt = Flat xs \<and> length xs \<le> n"
  using assms by (auto simp: prepare_decode_tensors_def Let_def flattened_views_def split: if_splits)

lemma compressed_rows:
  assumes spec: "flattened_spec ss dl bt n dt" and flat: "dt_seq_lens dt = Flat xs"
    and ratio: "1 < ib_compress_ratio self" and n: "sum_list dl \<le> n"
    and comp: "compress_decode_seq_lens self (dt_seq_lens dt) True m n = (sl, self')"
  shows "\<exists>rows. unsqueeze_last sl = Native rows \<and> length rows = n \<and>
    (\<forall>b < length dl. \<forall>j < dl ! b. rows ! (cu dl ! b + j)
       = [(int (ss ! b) - int (dl ! b) + int j + 1) div int (ib_compress_ratio self)])"
proof -
  have len: "length xs = n" using spec by (simp add: flattened_spec_def flat)
  have x: "xs ! (cu dl ! b + j) = int (ss ! b) - int (dl ! b) + int j + 1" if "b < length dl" "j < dl ! b" for b j
    using spec that unfolding flattened_spec_def Let_def flat by simp
  have "cu dl ! b + j < n" if "b < length dl" "j < dl ! b" for b j
    using segment_position(3) [OF that] n by simp
  then show ?thesis
    using comp ratio x len by (auto simp: compress_decode_seq_lens_def Let_def flat)
qed

text \<open>The builder as the decode tensors are prepared: the earlier steps keep its shape.\<close>

definition before_prepare ::
  "indexer_ext \<Rightarrow> indexer_builder \<Rightarrow> nat list \<Rightarrow> nat list \<Rightarrow> nat \<Rightarrow> nat list option \<times> indexer_builder" where
  "before_prepare ix self decode_lens decode_lens_cpu n =
     (let self0 = self\<lparr>ib_decode_lens_buffer := set_slice 0 decode_lens (ib_decode_lens_buffer self)\<rparr>
      in if ib_supports_varlen self0
         then map_prod Some id (build_varlen_decode_indices (\<lambda>i. nat (ix_uninit ix i)) self0 decode_lens
                                  decode_lens_cpu n)
         else (None, self0))"

lemma before_prepare_kept:
  assumes "wf_builder M self" "decode_batch M cm dl cpu n" "before_prepare ix self dl cpu n = (idx, self2)"
  shows "wf_builder M self2 \<and> same_config self self2"
proof -
  note d = decode_batchD [OF assms(2)]
  let ?self0 = "self\<lparr>ib_decode_lens_buffer := set_slice 0 dl (ib_decode_lens_buffer self)\<rparr>"
  have w: "wf_builder M ?self0" by (rule decode_lens_kept [OF assms(1) d(8)])
  show ?thesis
  proof (cases "ib_supports_varlen ?self0")
    case True
    then obtain i where "build_varlen_decode_indices (\<lambda>i. nat (ix_uninit ix i)) ?self0 dl cpu n = (i, self2)"
      using assms(3) by (cases "build_varlen_decode_indices (\<lambda>i. nat (ix_uninit ix i)) ?self0 dl cpu n")
        (auto simp: before_prepare_def Let_def)
    from varlen_indices_kept [OF w d(8) d(5) d(6) d(7) this] show ?thesis
      using decode_lens_same same_config_trans by blast
  next
    case False
    then show ?thesis using assms(3) w decode_lens_same by (auto simp: before_prepare_def Let_def)
  qed
qed

lemma build_decode_steps:
  assumes d: "decode_batch M cm dl cpu n" and dcp: "cm_dcp_local_seq_lens cm = None"
    and nonnative: "ib_use_flattening self \<or> ib_supports_varlen self"
    and res: "build_decode ix p self cm (length dl) n = Inr (md, self')"
  obtains idx self2 dt self3 sl self4 where
    "before_prepare ix self dl cpu n = (idx, self2)"
    "prepare_decode_tensors (ix_uninit ix) self2 (take (length dl) (cm_seq_lens cm))
       (first_rows (length dl) (cm_block_table cm)) dl cpu (take (length dl) (cm_query_start_loc cm))
       (length dl) n False (1 + ib_num_speculative_tokens self2) (fold max cpu 0) = (dt, self3)"
    "compress_decode_seq_lens self3 (dt_seq_lens dt) True (length dl) n = (sl, self4)"
    "idm_seq_lens md = unsqueeze_last sl" "idm_block_table md = dt_block_table dt"
    "idm_decode_lens md = dt_decode_lens dt"
proof -
  note dl = decode_batchD(1,2) [OF d]
  obtain idx self2 where a: "before_prepare ix self dl cpu n = (idx, self2)" by fastforce
  obtain dt self3 where b: "prepare_decode_tensors (ix_uninit ix) self2 (take (length dl) (cm_seq_lens cm))
       (first_rows (length dl) (cm_block_table cm)) dl cpu (take (length dl) (cm_query_start_loc cm))
       (length dl) n False (1 + ib_num_speculative_tokens self2) (fold max cpu 0) = (dt, self3)" by fastforce
  obtain sl self4 where c: "compress_decode_seq_lens self3 (dt_seq_lens dt) True (length dl) n = (sl, self4)"
    by fastforce
  have un: "\<not> step_use_native p (self\<lparr>ib_decode_lens_buffer := buf\<rparr>) k" for buf k
    using nonnative by (simp add: step_use_native_def Let_def)
  have "idm_seq_lens md = unsqueeze_last sl \<and> idm_block_table md = dt_block_table dt
      \<and> idm_decode_lens md = dt_decode_lens dt"
    using res a [unfolded before_prepare_def Let_def] b c
    unfolding build_decode_def Let_def dl dcp option.case global_lens_None prod.case decode_lengths_def
    by (simp add: un bind_result_eq_Inr split: prod.splits) (auto)
  then show ?thesis using that a b c by blast
qed

text \<open>
  A whole decode step on a builder that flattens (SM121 with adaptive verification) or that
  has the variable-length kernel.  Composed through \<^verbatim>\<open>build\<close>, the row of token \<open>j\<close> of decode
  request \<open>b\<close> in the returned metadata has the number of compressed keys of that token's causal
  context, and the block table of request \<open>b\<close>; every row is a query of one token.  The device
  widths, not the CPU ones, decide the layout.
\<close>

theorem build_decode_rows:
  assumes wf: "wf_builder M self" and d: "decode_batch M cm dl cpu n"
    and nonnative: "ib_use_flattening self \<or> ib_supports_varlen self"
    and cfg: "cfg_speculative_config (ib_config self) = Some sc"
      "\<not> sv_enable_adaptive_verification sc \<longrightarrow> dl = cpu"
    and dcp: "cm_dcp_local_seq_lens cm = None" and ratio: "1 < ib_compress_ratio self"
    and le: "\<forall>b < length dl. dl ! b \<le> cm_seq_lens cm ! b"
    and bt: "t_cols (cm_block_table cm) = t_cols (ib_expanded_block_table_buffer self)"
      "0 < t_cols (cm_block_table cm)"
    and res: "build_decode ix p self cm (length dl) n = Inr (md, self')"
  shows "\<exists>rows. idm_seq_lens md = Native rows \<and> length rows = n \<and> idm_decode_lens md = replicate n 1 \<and>
    (\<forall>b < length dl. \<forall>j < dl ! b.
       rows ! (cu dl ! b + j)
         = [(int (cm_seq_lens cm ! b) - int (dl ! b) + int j + 1) div int (ib_compress_ratio self)] \<and>
       row (idm_block_table md) (cu dl ! b + j) = row (cm_block_table cm) b)"
proof -
  note D = decode_batchD [OF d]
  let ?ss = "take (length dl) (cm_seq_lens cm)" and ?bt = "first_rows (length dl) (cm_block_table cm)"
  from build_decode_steps [OF d dcp nonnative res]
  obtain idx self2 dt self3 sl self4 where st: "before_prepare ix self dl cpu n = (idx, self2)"
    "prepare_decode_tensors (ix_uninit ix) self2 ?ss ?bt dl cpu (take (length dl) (cm_query_start_loc cm))
       (length dl) n False (1 + ib_num_speculative_tokens self2) (fold max cpu 0) = (dt, self3)"
    "compress_decode_seq_lens self3 (dt_seq_lens dt) True (length dl) n = (sl, self4)"
    "idm_seq_lens md = unsqueeze_last sl" "idm_block_table md = dt_block_table dt"
    "idm_decode_lens md = dt_decode_lens dt" .
  have k2: "wf_builder M self2" "same_config self self2" using before_prepare_kept [OF wf d st(1)] by auto
  have k3: "same_config self2 self3"
    using prepare_decode_kept [OF k2(1) D(3) D(5) D(6) D(7) _ st(2)] by simp
  have conf: "cfg_speculative_config (ib_config self2) = Some sc" "ib_compress_ratio self3 = ib_compress_ratio self"
      "t_cols (ib_expanded_block_table_buffer self2) = t_cols (ib_expanded_block_table_buffer self)"
    using k2(2) k3 cfg by (auto simp: same_config_def)
  have spec: "flattened_spec ?ss dl ?bt n dt"
  proof (rule flattened_step [OF k2(1) D(3) D(4) D(5) D(6) D(7) _ _ _ D(10) _ _ D(9) st(2)])
    show "\<forall>x \<in> set cpu. x \<le> fold max cpu 0" using fold_max_ge by blast
    show "\<forall>b < length dl. dl ! b \<le> ?ss ! b" using le by simp
    show "length dl = 1 \<or> dl = cpu" if "uniform_step self2 cpu (length dl) n (fold max cpu 0)"
      using that cfg(2) conf(1) by (auto simp: uniform_step_def Let_def split: if_splits)
  qed (use bt conf in \<open>simp_all add: first_rows_def\<close>)
  from prepare_decode_flat [OF st(2)] obtain xs where "dt_seq_lens dt = Flat xs" by blast
  from compressed_rows [OF spec this _ D(6) st(3)] ratio conf(2)
  obtain rows where rows: "idm_seq_lens md = Native rows" "length rows = n"
      "\<forall>b < length dl. \<forall>j < dl ! b. rows ! (cu dl ! b + j)
         = [(int (?ss ! b) - int (dl ! b) + int j + 1) div int (ib_compress_ratio self)]"
    using st(4) by auto
  have "\<forall>b < length dl. \<forall>j < dl ! b. row (idm_block_table md) (cu dl ! b + j) = row (cm_block_table cm) b"
    using spec unfolding flattened_spec_def Let_def st(5) by simp
  moreover have "idm_decode_lens md = replicate n 1" using spec by (simp add: flattened_spec_def st(6))
  ultimately show ?thesis using rows by auto
qed

lemma demo_ext_paged: "ix_paged_metadata demo_ext sl ns sms idx = [[0, 0], [1, 0]]"
  by (simp add: demo_ext_def)

theorem build_decode_rows_witness:
  "\<exists>md self' rows. build_decode demo_ext sm121 demo_builder demo_batch 2 4 = Inr (md, self')
     \<and> idm_seq_lens md = Native rows \<and> length rows = 4
     \<and> rows ! 0 = [2] \<and> row (idm_block_table md) 3 = [3, 4]"
proof -
  have flat: "ib_use_flattening demo_builder"
    by (simp add: demo_builder_def indexer_init_def Let_def raise_if_def bind_result_def demo_config_def
      dsa_indexer_uses_fp4_def DSA_INDEXER_KV_DTYPES_def use_flattening_def sm121_def
      supports_flattened_device_query_lens_def)
  have b: "decode_batch 12 demo_batch [3, 1] [2, 2] 4" by code_simp
  have c: "cu [3, 1] ! 0 = 0" "cu [3, 1] ! 1 = 3" by code_simp+
  have r: "row demo_block_table 1 = [3, 4]" by code_simp
  have "\<not> isl (build_decode demo_ext sm121 demo_builder demo_batch 2 4)" by code_simp
  then obtain md self' where
    res: "build_decode demo_ext sm121 demo_builder demo_batch (length [3, 1::nat]) 4 = Inr (md, self')"
    by (cases "build_decode demo_ext sm121 demo_builder demo_batch 2 4") (auto simp: numeral_2_eq_2)
  from build_decode_rows [OF demo_builder_wf b disjI1 [OF flat] _ _ _ _ _ _ _ res]
  obtain rows where "idm_seq_lens md = Native rows" "length rows = 4"
      "\<forall>b < length [3, 1::nat]. \<forall>j < [3, 1] ! b. rows ! (cu [3, 1] ! b + j)
         = [(int (cm_seq_lens demo_batch ! b) - int ([3, 1] ! b) + int j + 1) div int (ib_compress_ratio demo_builder)] \<and>
       row (idm_block_table md) (cu [3, 1] ! b + j) = row (cm_block_table demo_batch) b"
    by (auto simp: demo_builder_fields demo_builder_compress demo_config_def demo_batch_def
        demo_block_table_def less_Suc_eq)
  note this this(3) [rule_format, of 0 0] this(3) [rule_format, of 1 0]
  then show ?thesis using res c r by (simp add: demo_batch_def demo_builder_compress numeral_2_eq_2)
qed

section \<open>Every step keeps the shape of the builder\<close>

lemma length_map_seq_lens [simp]: "length (seq_lens_values (map_seq_lens f sl)) = length (seq_lens_values sl)"
  by (cases sl) (auto simp: length_concat comp_def)

lemma localize_kept:
  assumes "wf_builder M self" "length (seq_lens_values sl) \<le> M" "m \<le> M"
    and "dcp_localize_decode_seq_lens shard self sl m view = (sl', self')"
  shows "wf_builder M self' \<and> same_config self self' \<and> length (seq_lens_values sl') \<le> M"
  using assms by (auto simp: dcp_localize_decode_seq_lens_def Let_def wf_builder_def same_config_def split: if_splits)

lemma compress_kept:
  assumes "wf_builder M self" "length (seq_lens_values sl) \<le> M"
    and "compress_decode_seq_lens self sl view m n = (sl', self')"
  shows "wf_builder M self' \<and> same_config self self'"
  using assms by (auto simp: compress_decode_seq_lens_def Let_def wf_builder_def same_config_def split: if_splits)

lemma schedule_kept:
  assumes "wf_builder M self" "build_schedule_metadata ix p self sl idx = Inr (sm, self')"
  shows "wf_builder M self' \<and> same_config self self'"
  using assms by (auto simp: build_schedule_metadata_def Let_def raise_if_eq_Inr wf_builder_def same_config_def split: if_splits)

lemma slot_mapping_kept:
  assumes "wf_builder M self" "build_slot_mapping ix self cm = (sm, cs, self')"
  shows "wf_builder M self' \<and> same_config self self'"
  using assms by (auto simp: build_slot_mapping_def Let_def wf_builder_def same_config_def split: if_splits prod.splits)

lemma native_values_length:
  assumes "prepare_decode_tensors u self ss bt dl cpu qsl m n native next_n k = (dt, self')"
    and "native \<Longrightarrow> length ss * k \<le> M \<and> length ss \<le> M" "n \<le> M" "k \<le> length (ib_offsets_buffer self) \<or> \<not> native"
  shows "length (seq_lens_values (dt_seq_lens dt)) \<le> M"
proof (cases native)
  case True
  then have "length (concat (map (native_row (ib_offsets_buffer self) k) ss)) = length ss * k"
    using assms(4) by (intro length_native_rows) auto
  then show ?thesis using True assms by (auto simp: prepare_decode_tensors_def Let_def split: if_splits)
next
  case False
  with prepare_decode_flat assms(1,3) show ?thesis by fastforce
qed

lemma decode_lengths_kept:
  assumes wf: "wf_builder M self" and d: "decode_batch M cm dl cpu n"
    and native: "native \<Longrightarrow> k \<le> ib_num_speculative_tokens self + 1 \<and> length dl * k \<le> M"
    and res: "decode_lengths ix self cm dl cpu native k (length dl) n = (dt, sl, self')"
  shows "wf_builder M self' \<and> same_config self self'"
proof -
  note D = decode_batchD [OF d]
  let ?ss = "take (length dl) (cm_seq_lens cm)"
  obtain dt1 self1 where p1: "prepare_decode_tensors (ix_uninit ix) self ?ss (first_rows (length dl) (cm_block_table cm))
      dl cpu (take (length dl) (cm_query_start_loc cm)) (length dl) n native (1 + ib_num_speculative_tokens self) k
      = (dt1, self1)" by fastforce
  let ?view = "\<not> native \<or> 1 + ib_num_speculative_tokens self > 1"
  obtain sl2 self2 where p2: "(case cm_dcp_local_seq_lens cm of None \<Rightarrow> (dt_seq_lens dt1, self1)
      | Some _ \<Rightarrow> dcp_localize_decode_seq_lens (ix_shard ix) self1 (dt_seq_lens dt1) (length dl) ?view) = (sl2, self2)"
    by fastforce
  obtain sl3 where p3: "compress_decode_seq_lens self2 sl2 ?view (length dl) n = (sl3, self')"
    using res p1 p2 unfolding decode_lengths_def Let_def by (auto split: prod.splits)
  have k1: "wf_builder M self1 \<and> same_config self self1"
    by (rule prepare_decode_kept [OF wf D(3) D(5) D(6) D(7) _ p1]) (use native D in auto)
  have l1: "length (seq_lens_values (dt_seq_lens dt1)) \<le> M"
    by (rule native_values_length [OF p1]) (use native D wf in \<open>auto simp: wf_builder_def\<close>)
  have k2: "wf_builder M self2 \<and> same_config self1 self2 \<and> length (seq_lens_values sl2) \<le> M"
    using p2 k1 l1 localize_kept [OF _ l1 D(8)] by (cases "cm_dcp_local_seq_lens cm") auto
  have k3: "wf_builder M self' \<and> same_config self2 self'"
    using compress_kept [OF _ _ p3] k2 by blast
  show ?thesis using k1 k2 k3 by (auto intro: same_config_trans)
qed

lemma build_decode_kept:
  assumes wf: "wf_builder M self" and d: "decode_batch M cm dl cpu n"
    and native: "step_use_native p self (fold max cpu 0) \<Longrightarrow> length dl * fold max cpu 0 \<le> M"
    and res: "build_decode ix p self cm (length dl) n = Inr (md, self')"
  shows "wf_builder M self' \<and> same_config self self'"
proof -
  note D = decode_batchD [OF d]
  let ?k = "fold max cpu 0"
  let ?self0 = "self\<lparr>ib_decode_lens_buffer := set_slice 0 dl (ib_decode_lens_buffer self)\<rparr>"
  let ?native = "step_use_native p ?self0 ?k"
  let ?gs = "case cm_dcp_local_seq_lens cm of None \<Rightarrow> None | Some _ \<Rightarrow> Some (take (length dl) (cm_seq_lens cm))"
  obtain gl self1 where p1: "prepare_global_decode_seq_lens (ix_uninit ix) ?self0 ?gs dl cpu
      (take (length dl) (cm_query_start_loc cm)) n ?native ?k = (gl, self1)" by fastforce
  obtain idx self2 where p2: "(if ib_supports_varlen self1
      then map_prod Some id (build_varlen_decode_indices (\<lambda>i. nat (ix_uninit ix i)) self1 dl cpu n)
      else (None, self1)) = (idx, self2)" by fastforce
  obtain dt sl self3 where p3: "decode_lengths ix self2 cm dl cpu ?native ?k (length dl) n = (dt, sl, self3)"
    by (metis prod_cases3)
  obtain sm where p4: "build_schedule_metadata ix p self3 sl idx = Inr (sm, self')"
    using res p1 p2 p3 unfolding build_decode_def Let_def D(1,2)
    by (auto simp: bind_result_eq_Inr split: prod.splits)
  have k0: "wf_builder M ?self0" "same_config self ?self0"
    using decode_lens_kept [OF wf D(8)] decode_lens_same by auto
  have k1: "wf_builder M self1 \<and> same_config ?self0 self1"
  proof (cases "cm_dcp_local_seq_lens cm")
    case (Some x)
    with p1 show ?thesis using global_lens_kept [OF k0(1) D(3) D(5) D(6) D(7)] by auto
  qed (use p1 k0 in auto)
  have k2: "wf_builder M self2 \<and> same_config self1 self2"
  proof (cases "ib_supports_varlen self1")
    case True
    then obtain i where "build_varlen_decode_indices (\<lambda>i. nat (ix_uninit ix i)) self1 dl cpu n = (i, self2)"
      using p2 by (cases "build_varlen_decode_indices (\<lambda>i. nat (ix_uninit ix i)) self1 dl cpu n") auto
    with varlen_indices_kept [OF _ D(8) D(5) D(6) D(7)] k1 show ?thesis by blast
  qed (use p2 k1 in auto)
  have c: "same_config ?self0 self2" using k1 k2 same_config_trans by blast
  have nat: "?k \<le> ib_num_speculative_tokens self2 + 1 \<and> length dl * ?k \<le> M" if ?native
    using that native c by (auto simp: step_use_native_def Let_def same_config_def)
  have k3: "wf_builder M self3 \<and> same_config self2 self3"
    using decode_lengths_kept [OF _ d nat p3] k2 by blast
  have k4: "wf_builder M self' \<and> same_config self3 self'" using schedule_kept [OF _ p4] k3 by blast
  show ?thesis using k0 c k3 k4 by (meson same_config_trans)
qed

text \<open>
  The shape invariant: from a builder made by \<^verbatim>\<open>__init__\<close>, every successful \<^verbatim>\<open>build\<close> leaves
  every preallocated buffer with its original size (so its address can stay captured in a CUDA
  graph), the expanded block table contiguous, and the configuration fields unchanged.
\<close>

theorem indexer_build_keeps_shape:
  assumes "wf_builder M self" "indexer_split ix self cm = (length dl, np, n, m)"
    and "decode_batch M cm dl cpu n"
    and "step_use_native p self (fold max cpu 0) \<longrightarrow> length dl * fold max cpu 0 \<le> M"
    and "indexer_build ix p self cm = Inr (md, self')"
  shows "wf_builder M self' \<and> same_config self self'"
proof -
  obtain sm cs self1 where p1: "build_slot_mapping ix self cm = (sm, cs, self1)" by (metis prod_cases3)
  note k1 = slot_mapping_kept [OF assms(1) p1]
  have nat: "step_use_native p self1 (fold max cpu 0) \<Longrightarrow> length dl * fold max cpu 0 \<le> M"
    using assms(4) k1 by (auto simp: step_use_native_def Let_def same_config_def)
  consider "self' = self1" | md' where "build_decode ix p self1 cm (length dl) n = Inr (md', self')"
    using assms(2,5) p1
    by (auto simp: indexer_build_def raise_if_eq_Inr bind_result_eq_Inr split: if_splits prod.splits)
  then show ?thesis
  proof cases
    case 2
    from build_decode_kept [OF _ assms(3) nat 2] k1 show ?thesis by (meson same_config_trans)
  qed (use k1 in simp)
qed

theorem indexer_build_keeps_shape_witness:
  "\<exists>md self'. indexer_build demo_ext sm121 demo_builder demo_batch = Inr (md, self') \<and> wf_builder 12 self'"
proof -
  have b: "decode_batch 12 demo_batch [3, 1] [2, 2] 4" by code_simp
  have s: "indexer_split demo_ext demo_builder demo_batch = (length [3, 1::nat], 1, 4, 5)"
    by (simp add: indexer_split_def demo_ext_def)
  obtain sm cs self1 where m: "build_slot_mapping demo_ext demo_builder demo_batch = (sm, cs, self1)"
    by (metis prod_cases3)
  have "\<not> isl (build_decode demo_ext sm121 (snd (snd (build_slot_mapping demo_ext demo_builder demo_batch)))
      demo_batch 2 4)" by code_simp
  then obtain md1 self2 where d: "build_decode demo_ext sm121 self1 demo_batch (Suc (Suc 0)) 4 = Inr (md1, self2)"
    unfolding m by (cases "build_decode demo_ext sm121 self1 demo_batch 2 4") (auto simp: numeral_2_eq_2)
  obtain chunks where "build_prefill_chunks demo_ext self1 demo_batch cs (Suc (Suc 0)) 1 = Inr chunks"
    by (simp add: build_prefill_chunks_def demo_batch_def Let_def)
  then obtain md self' where r: "indexer_build demo_ext sm121 demo_builder demo_batch = Inr (md, self')"
    using d by (simp add: indexer_build_def s m) (simp add: demo_batch_def)
  have "wf_builder 12 self'"
    using indexer_build_keeps_shape [OF demo_builder_wf s b _ r] by simp
  with r show ?thesis by blast
qed

section \<open>Localising decode lengths to a rank\<close>

context kv_sharding
begin

text \<open>Subtracting tokens from a rank's share of the whole sequence gives too short a share.\<close>

lemma early_localisation_short:
  assumes "0 \<le> len" "len \<le> len'" "r < world"
  shows "local_len len' r - (len' - len) \<le> local_len len r"
proof -
  have "local_len len' r - local_len len r \<le> (\<Sum>r<world. local_len len' r - local_len len r)"
    using assms monotone by (intro member_le_sum) auto
  with growth_split [OF assms(1,2)] show ?thesis by linarith
qed

end

text \<open>
  Localisation comes after expansion.  For a sharding function that meets the contract of
  \<^verbatim>\<open>get_dcp_local_seq_lens\<close>, the lengths the ranks compute for a row add up to the row's global
  length; and localising the request first and subtracting the token offset afterwards, which the
  code's comment warns of, never gives a longer range than this and so can only miss keys.
\<close>

theorem localize_after_expansion:
  assumes "kv_sharding (\<lambda>l r. shard l W r K) W"
    and "ib_dcp_world_size self = W" "ib_interleave_size self = K"
    and "t < length xs" "0 \<le> xs ! t" "xs ! t \<le> L" "r < W"
  shows "(\<Sum>r<W. seq_lens_values (fst (dcp_localize_decode_seq_lens shard (self\<lparr>ib_dcp_rank := r\<rparr>) (Flat xs) m True)) ! t)
      = xs ! t
    \<and> shard L W r K - (L - xs ! t)
      \<le> seq_lens_values (fst (dcp_localize_decode_seq_lens shard (self\<lparr>ib_dcp_rank := r\<rparr>) (Flat xs) m True)) ! t"
proof -
  have v: "seq_lens_values (fst (dcp_localize_decode_seq_lens shard (self\<lparr>ib_dcp_rank := r\<rparr>) (Flat xs) m True)) ! t
      = shard (xs ! t) W r K" for r
    using assms(2-4) by (simp add: dcp_localize_decode_seq_lens_def Let_def)
  show ?thesis
    unfolding v using kv_sharding.total [OF assms(1,5)] kv_sharding.early_localisation_short [OF assms(1,5,6,7)]
    by simp
qed

text \<open>The numbers of the comment: two ranks, global bounds 8, 9 and 10.\<close>

theorem localize_after_expansion_witness:
  "(\<Sum>r<2. seq_lens_values (fst (dcp_localize_decode_seq_lens (\<lambda>l w r k. dcp_local_len l r w k)
      (demo_builder\<lparr>ib_dcp_world_size := 2, ib_interleave_size := 1, ib_dcp_rank := r\<rparr>) (Flat [8, 9, 10]) 1 True)) ! 0) = 8
   \<and> dcp_local_len 10 1 2 1 - (10 - 8) = 3
   \<and> seq_lens_values (fst (dcp_localize_decode_seq_lens (\<lambda>l w r k. dcp_local_len l r w k)
      (demo_builder\<lparr>ib_dcp_world_size := 2, ib_interleave_size := 1, ib_dcp_rank := 1\<rparr>) (Flat [8, 9, 10]) 1 True)) = [4, 4, 5]"
proof -
  have "kv_sharding (\<lambda>l r. dcp_local_len l r 2 1) 2"
    using dcp.kv_sharding_axioms [of 1 0] by (simp add: numeral_2_eq_2)
  from localize_after_expansion [where shard = "\<lambda>l w r k. dcp_local_len l r w k", OF this,
      of "demo_builder\<lparr>ib_dcp_world_size := 2, ib_interleave_size := 1\<rparr>" 0 "[8, 9, 10]" 10 1 1]
  show ?thesis by (simp add: dcp_localize_decode_seq_lens_def Let_def dcp_local_len_def tl_div_nonneg)
qed

end
