(* ===== verification/SparseMLA.thy ===== *)
theory SparseMLA
  imports Triton Platform
begin

text \<open>
  The sparse-MLA metadata builder, \<^verbatim>\<open>src/docker/overlay-sm121-adaptive/sparse_mla.py\<close>: the
  CUDA-graph gate, the preallocated C128A buffers, the choice of the active top-k width, and the
  Triton kernel that writes, for every decode token, the global slot ids of its compressed
  context and, for every prefill token, its local indices.
\<close>

section \<open>Gates and constants\<close>

definition C128A_TOPK_ALIGNMENT :: nat where
  "C128A_TOPK_ALIGNMENT = 128"

definition mla_supports_compute_capability :: "nat \<times> nat \<Rightarrow> bool" where
  "mla_supports_compute_capability capability = (fst capability \<in> {9, 10})"

text \<open>\<open>cls_support\<close> is the class attribute \<^verbatim>\<open>_cudagraph_support\<close>, which a subclass overrides.\<close>

definition mla_cudagraph_support :: "platform \<Rightarrow> cg_support \<Rightarrow> cg_support" where
  "mla_cudagraph_support p cls_support =
     (case get_device_capability p of
        Some (major, minor) \<Rightarrow> if major = 12 then ALWAYS else cls_support
      | None \<Rightarrow> cls_support)"

section \<open>The C128A kernel\<close>

record c128a_args =
  ca_positions :: "nat list"
  ca_compress_ratio :: nat
  ca_max_compressed_tokens :: nat
  ca_num_decode_tokens :: nat
  ca_token_to_req_indices :: "nat list"
  ca_block_table :: tensor2
  ca_block_size :: nat
  ca_slot_mapping :: "int list"
  ca_BLOCK_SIZE :: nat

definition c128a_num_compressed :: "c128a_args \<Rightarrow> nat \<Rightarrow> nat" where
  "c128a_num_compressed a token_idx =
     min ((ca_positions a ! token_idx + 1) div ca_compress_ratio a) (ca_max_compressed_tokens a)"

text \<open>What a decode program stores at an offset of its row: the slot id, or \<open>-1\<close>.\<close>

definition c128a_slot_id :: "c128a_args \<Rightarrow> nat \<Rightarrow> nat \<Rightarrow> int" where
  "c128a_slot_id a token_idx off =
     (if off < c128a_num_compressed a token_idx then
        let req_idx = ca_token_to_req_indices a ! token_idx;
            block_number = t_data (ca_block_table a)
              ! (req_idx * t_stride (ca_block_table a) + off div ca_block_size a)
        in block_number * int (ca_block_size a) + int (off mod ca_block_size a)
      else - 1)"

definition c128a_decode_program :: "c128a_args \<Rightarrow> nat \<Rightarrow> nat \<Rightarrow> int writes" where
  "c128a_decode_program a global_decode_stride token_idx =
     (if token_idx < ca_num_decode_tokens a
      then row_writes global_decode_stride (ca_BLOCK_SIZE a) (ca_max_compressed_tokens a) (c128a_slot_id a) token_idx
      else [])"

text \<open>The number of valid entries, summed block by block.\<close>

definition c128a_count :: "c128a_args \<Rightarrow> nat \<Rightarrow> nat" where
  "c128a_count a token_idx =
     sum_list (map (\<lambda>off. if off < c128a_num_compressed a token_idx then 1 else 0)
       (block_offsets (ca_max_compressed_tokens a) (ca_BLOCK_SIZE a)))"

definition c128a_lens_program :: "c128a_args \<Rightarrow> nat \<Rightarrow> nat writes" where
  "c128a_lens_program a token_idx =
     (if token_idx < ca_num_decode_tokens a
      then [(token_idx, if ca_slot_mapping a ! token_idx \<ge> 0 then c128a_count a token_idx else 0)]
      else [])"

definition c128a_local_index :: "c128a_args \<Rightarrow> nat \<Rightarrow> nat \<Rightarrow> int" where
  "c128a_local_index a pfx_idx off =
     (if off < c128a_num_compressed a (ca_num_decode_tokens a + pfx_idx) then int off else - 1)"

definition c128a_prefill_program :: "c128a_args \<Rightarrow> nat \<Rightarrow> nat \<Rightarrow> int writes" where
  "c128a_prefill_program a prefill_local_stride token_idx =
     (if token_idx < ca_num_decode_tokens a then []
      else row_writes prefill_local_stride (ca_BLOCK_SIZE a) (ca_max_compressed_tokens a) (c128a_local_index a)
             (token_idx - ca_num_decode_tokens a))"

text \<open>\<open>t[:n, :w]\<close>: a view of the first rows and columns.\<close>

definition narrow :: "nat \<Rightarrow> nat \<Rightarrow> tensor2 \<Rightarrow> tensor2" where
  "narrow n w t = t\<lparr>t_rows := min n (t_rows t), t_cols := min w (t_cols t)\<rparr>"

record c128a_buffers =
  cb_global_decode :: tensor2
  cb_decode_lens :: "nat list"
  cb_prefill :: tensor2

text \<open>The host function: its assertions, the launch, and the returned views.\<close>

definition build_c128a_topk_metadata ::
  "nat list \<Rightarrow> nat \<Rightarrow> nat \<Rightarrow> nat list \<Rightarrow> tensor2 \<Rightarrow> nat \<Rightarrow> int list \<Rightarrow> c128a_buffers \<Rightarrow> nat
   \<Rightarrow> ((tensor2 \<times> nat list \<times> tensor2) \<times> c128a_buffers) result" where
  "build_c128a_topk_metadata positions compress_ratio num_decode_tokens token_to_req_indices block_table
     block_size slot_mapping bufs max_compressed_tokens =
     (let num_tokens = length positions;
          num_prefill_tokens = num_tokens - num_decode_tokens;
          g = cb_global_decode bufs; pf = cb_prefill bufs;
          a = \<lparr>ca_positions = positions, ca_compress_ratio = compress_ratio,
               ca_max_compressed_tokens = max_compressed_tokens, ca_num_decode_tokens = num_decode_tokens,
               ca_token_to_req_indices = token_to_req_indices, ca_block_table = block_table,
               ca_block_size = block_size, ca_slot_mapping = slot_mapping, ca_BLOCK_SIZE = 1024\<rparr>;
          views = (\<lambda>b. ((narrow num_decode_tokens max_compressed_tokens (cb_global_decode b),
                         take num_decode_tokens (cb_decode_lens b),
                         narrow num_prefill_tokens max_compressed_tokens (cb_prefill b)), b))
      in raise_if (max_compressed_tokens mod C128A_TOPK_ALIGNMENT \<noteq> 0)
           (AssertionError ''max_compressed_tokens % _C128A_TOPK_ALIGNMENT == 0'')
        (raise_if (\<not> (0 < max_compressed_tokens \<and> max_compressed_tokens \<le> min (t_cols g) (t_cols pf)))
           (AssertionError ''0 < max_compressed_tokens <= buffer width'')
        (if num_tokens = 0 then Inr (views bufs)
         else Inr (views (bufs\<lparr>
           cb_global_decode := g\<lparr>t_data :=
             launch [0..<num_tokens] (c128a_decode_program a (t_stride g)) (t_data g)\<rparr>,
           cb_decode_lens := launch [0..<num_tokens] (c128a_lens_program a) (cb_decode_lens bufs),
           cb_prefill := pf\<lparr>t_data :=
             launch [0..<num_tokens] (c128a_prefill_program a (t_stride pf)) (t_data pf)\<rparr>\<rparr>)))))"

section \<open>The builder\<close>

record mla_builder =
  mb_topk_tokens :: nat
  mb_reorder_batch_threshold :: nat
  mb_req_id_per_token_buffer :: "nat list"
  mb_compress_ratio :: nat
  mb_compressed_slot_mapping_buffer :: "int list"
  mb_c128a_max_compressed :: nat
  mb_c128a :: c128a_buffers
  mb_block_size :: nat
  mb_num_states :: nat

record mla_metadata =
  mm_num_reqs :: nat
  mm_max_query_len :: nat
  mm_max_seq_len :: nat
  mm_num_actual_tokens :: nat
  mm_query_start_loc :: "nat list"
  mm_slot_mapping :: "int list"
  mm_block_table :: tensor2
  mm_req_id_per_token :: "nat list"
  mm_block_size :: nat
  mm_topk_tokens :: nat
  mm_c128a_global_decode_topk_indices :: "tensor2 option"
  mm_c128a_decode_topk_lens :: "nat list option"
  mm_c128a_prefill_topk_indices :: "tensor2 option"

text \<open>The column count of the C128A buffers.\<close>

definition c128a_max_compressed_for :: "nat \<Rightarrow> nat \<Rightarrow> nat" where
  "c128a_max_compressed_for max_model_len compress_ratio =
     cdiv (cdiv max_model_len compress_ratio) C128A_TOPK_ALIGNMENT * C128A_TOPK_ALIGNMENT"

text \<open>
  \<^verbatim>\<open>__init__\<close>.  \<open>reorder_threshold\<close> is what the base class computes; the buffers hold whatever
  \<^verbatim>\<open>torch.empty\<close> returns.
\<close>

definition mla_init ::
  "vllm_config \<Rightarrow> nat \<Rightarrow> nat \<Rightarrow> nat \<Rightarrow> nat \<Rightarrow> (nat \<Rightarrow> int) \<Rightarrow> mla_builder" where
  "mla_init cfg reorder_threshold tokens_per_state block_size num_states uninit =
     (let max_num_batched_tokens = cfg_max_num_batched_tokens cfg;
          c128a_max_compressed = c128a_max_compressed_for (cfg_max_model_len cfg) tokens_per_state;
          buffer = \<lparr>t_data = map uninit [0..<max_num_batched_tokens * c128a_max_compressed],
                    t_stride = c128a_max_compressed, t_rows = max_num_batched_tokens,
                    t_cols = c128a_max_compressed\<rparr>;
          none = \<lparr>t_data = [], t_stride = 0, t_rows = 0, t_cols = 0\<rparr>;
          empty = map (\<lambda>i. nat (uninit i)) [0..<max_num_batched_tokens]
      in \<lparr>mb_topk_tokens = hf_index_topk (cfg_hf_config cfg),
          mb_reorder_batch_threshold = reorder_threshold,
          mb_req_id_per_token_buffer = empty,
          mb_compress_ratio = tokens_per_state,
          mb_compressed_slot_mapping_buffer =
            (if tokens_per_state > 1 then map uninit [0..<max_num_batched_tokens] else []),
          mb_c128a_max_compressed = (if tokens_per_state = 128 then c128a_max_compressed else 0),
          mb_c128a =
            (if tokens_per_state = 128
             then \<lparr>cb_global_decode = buffer, cb_decode_lens = empty, cb_prefill = buffer\<rparr>
             else \<lparr>cb_global_decode = none, cb_decode_lens = [], cb_prefill = none\<rparr>),
          mb_block_size = block_size, mb_num_states = num_states\<rparr>)"

text \<open>
  Functions of vLLM the builder calls: \<open>mx_split\<close> is \<^verbatim>\<open>split_decodes_and_prefills\<close>,
  \<open>mx_token_to_req\<close> the method \<^verbatim>\<open>token_to_req_indices\<close> of the common metadata, which fills and
  returns a prefix of its buffer, and \<open>mx_slot_mapping\<close> is \<^verbatim>\<open>get_compressed_slot_mapping\<close>.
\<close>

record mla_ext =
  mx_split :: "common_meta \<Rightarrow> nat \<Rightarrow> batch_split"
  mx_token_to_req :: "common_meta \<Rightarrow> nat list \<Rightarrow> nat list \<times> nat list"
  mx_slot_mapping ::
    "nat \<Rightarrow> nat list \<Rightarrow> nat list \<Rightarrow> tensor2 \<Rightarrow> nat \<Rightarrow> nat \<Rightarrow> int list \<Rightarrow> int list \<times> int list"

text \<open>The width of the rows the kernel fills in this step.\<close>

definition active_topk_width_for :: "mla_builder \<Rightarrow> nat \<Rightarrow> nat" where
  "active_topk_width_for self max_seq_len =
     min (max (next_power_of_2 (max (max_seq_len div mb_compress_ratio self) 1)) C128A_TOPK_ALIGNMENT)
       (mb_c128a_max_compressed self)"

record c128a_fields =
  cf_global_decode_topk_indices :: "tensor2 option"
  cf_decode_topk_lens :: "nat list option"
  cf_prefill_topk_indices :: "tensor2 option"

definition no_c128a_fields :: c128a_fields where
  "no_c128a_fields = \<lparr>cf_global_decode_topk_indices = None, cf_decode_topk_lens = None,
     cf_prefill_topk_indices = None\<rparr>"

definition build_c128a_metadata ::
  "mla_ext \<Rightarrow> mla_builder \<Rightarrow> common_meta \<Rightarrow> nat list \<Rightarrow> (c128a_fields \<times> mla_builder) result" where
  "build_c128a_metadata mx self cm req_id_per_token =
     (case mx_split mx cm (if mb_reorder_batch_threshold self = 0 then 1 else mb_reorder_batch_threshold self) of
        (num_decodes, num_prefills, num_decode_tokens, num_prefill_tokens) \<Rightarrow>
          let num_total = num_decode_tokens + num_prefill_tokens
          in if num_total = 0 then Inr (no_c128a_fields, self)
             else (case cm_positions cm of
                None \<Rightarrow> Inl (AssertionError ''positions is required for C128A metadata build'')
              | Some positions \<Rightarrow>
                  let active_topk_width = active_topk_width_for self (cm_max_seq_len cm)
                  in raise_if (active_topk_width < cm_max_seq_len cm div mb_compress_ratio self)
                       (AssertionError ''active_topk_width >= max_seq_len // compress_ratio'')
                    (raise_if (active_topk_width mod C128A_TOPK_ALIGNMENT \<noteq> 0)
                       (AssertionError ''active_topk_width % _C128A_TOPK_ALIGNMENT == 0'')
                    (bind_result
                       (build_c128a_topk_metadata (take num_total positions) (mb_compress_ratio self)
                          num_decode_tokens req_id_per_token (first_rows num_decodes (cm_block_table cm))
                          (mb_block_size self div mb_compress_ratio self) (cm_slot_mapping cm)
                          (mb_c128a self) active_topk_width)
                       (\<lambda>((global_decode, decode_lens, prefill_local), bufs).
                          Inr (\<lparr>cf_global_decode_topk_indices =
                                  (if num_decode_tokens > 0
                                   then Some (first_rows num_decode_tokens (cb_global_decode bufs)) else None),
                                cf_decode_topk_lens = (if num_decode_tokens > 0 then Some decode_lens else None),
                                cf_prefill_topk_indices =
                                  (if num_prefill_tokens > 0 then Some prefill_local else None)\<rparr>,
                               self\<lparr>mb_c128a := bufs\<rparr>))))))"

text \<open>\<^verbatim>\<open>block_table.clamp_(min=0)\<close> changes the batch's block table in place.\<close>

definition clamp_block_table :: "tensor2 \<Rightarrow> tensor2" where
  "clamp_block_table t = t\<lparr>t_data := map (max 0) (t_data t)\<rparr>"

definition mla_build ::
  "mla_ext \<Rightarrow> mla_builder \<Rightarrow> common_meta \<Rightarrow> (mla_metadata \<times> common_meta \<times> mla_builder) result" where
  "mla_build mx self cm =
     (let (req_id_per_token, req_buf) = mx_token_to_req mx cm (mb_req_id_per_token_buffer self);
          self1 = self\<lparr>mb_req_id_per_token_buffer := req_buf\<rparr>;
          (slot_mapping, cm', self2) =
            (if mb_compress_ratio self1 > 1 then
               let cm' = cm\<lparr>cm_block_table := clamp_block_table (cm_block_table cm)\<rparr>;
                   (view, buf) = mx_slot_mapping mx (cm_num_actual_tokens cm) (cm_query_start_loc cm)
                       (cm_seq_lens cm) (cm_block_table cm') (mb_num_states self1) (mb_compress_ratio self1)
                       (mb_compressed_slot_mapping_buffer self1)
               in (view, cm', self1\<lparr>mb_compressed_slot_mapping_buffer := buf\<rparr>)
             else (cm_slot_mapping cm, cm, self1))
      in bind_result
           (if mb_compress_ratio self2 = 128 then build_c128a_metadata mx self2 cm' req_id_per_token
            else Inr (no_c128a_fields, self2))
           (\<lambda>(fields, self3).
              Inr (\<lparr>mm_num_reqs = cm_num_reqs cm', mm_max_query_len = cm_max_query_len cm',
                     mm_max_seq_len = cm_max_seq_len cm', mm_num_actual_tokens = cm_num_actual_tokens cm',
                     mm_query_start_loc = cm_query_start_loc cm', mm_slot_mapping = slot_mapping,
                     mm_block_table = cm_block_table cm', mm_req_id_per_token = req_id_per_token,
                     mm_block_size = mb_block_size self3, mm_topk_tokens = mb_topk_tokens self3,
                     mm_c128a_global_decode_topk_indices = cf_global_decode_topk_indices fields,
                     mm_c128a_decode_topk_lens = cf_decode_topk_lens fields,
                     mm_c128a_prefill_topk_indices = cf_prefill_topk_indices fields\<rparr>, cm', self3)))"

section \<open>The kernel's stores\<close>

text \<open>Decode and prefill programs are row kernels on their buffers when a row fits in the stride.\<close>

interpretation decode_rows: row_kernel "c128a_slot_id a" "w + k" "Suc b" w for a w k b
  by unfold_locales simp_all

interpretation prefill_rows: row_kernel "c128a_local_index a" "w + k" "Suc b" w for a w k b
  by unfold_locales simp_all

lemma launch_skip:
  assumes "\<And>p. p \<in> set ps \<Longrightarrow> prog p = []"
  shows "launch (qs @ ps) prog buf = launch qs prog buf"
proof -
  have e: "concat (map prog ps) = []" using assms by simp
  show ?thesis unfolding launch_def map_append concat_append e append_Nil2 ..
qed

lemma upt_append: "a \<le> n \<Longrightarrow> [0..<n] = [0..<a] @ [a..<n :: nat]"
  using upt_add_eq_append [of 0 a "n - a"] by simp

text \<open>Only the decode programs write the decode rows.\<close>

lemma launch_decode:
  assumes "ca_num_decode_tokens a \<le> n"
  shows "launch [0..<n] (c128a_decode_program a st) buf
    = launch [0..<ca_num_decode_tokens a]
        (row_writes st (ca_BLOCK_SIZE a) (ca_max_compressed_tokens a) (c128a_slot_id a)) buf"
proof -
  have "launch [0..<n] (c128a_decode_program a st) buf
      = launch [0..<ca_num_decode_tokens a] (c128a_decode_program a st) buf"
    unfolding upt_append [OF assms] by (rule launch_skip) (simp add: c128a_decode_program_def)
  also have "\<dots> = launch [0..<ca_num_decode_tokens a]
      (row_writes st (ca_BLOCK_SIZE a) (ca_max_compressed_tokens a) (c128a_slot_id a)) buf"
    unfolding launch_def by (intro arg_cong [where f = "\<lambda>ws. apply_writes buf (concat ws)"] map_cong)
      (simp_all add: c128a_decode_program_def)
  finally show ?thesis .
qed

lemma launch_lens:
  assumes "ca_num_decode_tokens a \<le> n"
  shows "launch [0..<n] (c128a_lens_program a) buf
    = launch [0..<ca_num_decode_tokens a]
        (cell_writes (\<lambda>t. if ca_slot_mapping a ! t \<ge> 0 then c128a_count a t else 0)) buf"
proof -
  have "launch [0..<n] (c128a_lens_program a) buf = launch [0..<ca_num_decode_tokens a] (c128a_lens_program a) buf"
    unfolding upt_append [OF assms] by (rule launch_skip) (simp add: c128a_lens_program_def)
  also have "\<dots> = launch [0..<ca_num_decode_tokens a]
        (cell_writes (\<lambda>t. if ca_slot_mapping a ! t \<ge> 0 then c128a_count a t else 0)) buf"
    unfolding launch_def by (intro arg_cong [where f = "\<lambda>ws. apply_writes buf (concat ws)"] map_cong)
      (simp_all add: c128a_lens_program_def cell_writes_def)
  finally show ?thesis .
qed

text \<open>Only the prefill programs write the prefill rows, shifted by the decode tokens.\<close>

lemma launch_prefill:
  assumes "ca_num_decode_tokens a \<le> n"
  shows "launch [0..<n] (c128a_prefill_program a st) buf
    = launch [0..<n - ca_num_decode_tokens a]
        (row_writes st (ca_BLOCK_SIZE a) (ca_max_compressed_tokens a) (c128a_local_index a)) buf"
proof -
  let ?d = "ca_num_decode_tokens a"
  let ?w = "row_writes st (ca_BLOCK_SIZE a) (ca_max_compressed_tokens a) (c128a_local_index a)"
  have "map (c128a_prefill_program a st) [0..<?d] = replicate ?d []"
    by (rule nth_equalityI) (simp_all add: c128a_prefill_program_def)
  moreover have "map (c128a_prefill_program a st) [?d..<n] = map ?w [0..<n - ?d]"
    by (rule nth_equalityI) (simp_all add: c128a_prefill_program_def)
  moreover have "concat (replicate k ([] :: int writes)) = []" for k by (induction k) auto
  ultimately have "concat (map (c128a_prefill_program a st) [0..<n]) = concat (map ?w [0..<n - ?d])"
    unfolding upt_append [OF assms] by (simp del: concat_eq_Nil_conv)
  then show ?thesis by (simp add: launch_def)
qed

lemma sum_indicator: "sum_list (map (\<lambda>x. if P x then 1 else 0) xs) = length (filter P xs)"
  by (induction xs) auto

lemma c128a_count_eq:
  assumes "0 < ca_BLOCK_SIZE a"
  shows "c128a_count a t = c128a_num_compressed a t"
proof -
  let ?N = "c128a_num_compressed a t" and ?M = "ca_max_compressed_tokens a"
  have le: "?N \<le> ?M" by (simp add: c128a_num_compressed_def)
  have "c128a_count a t = length (filter (\<lambda>off. off < ?N) (block_offsets ?M (ca_BLOCK_SIZE a)))"
    unfolding c128a_count_def by (rule sum_indicator)
  also have "filter (\<lambda>off. off < ?N) (block_offsets ?M (ca_BLOCK_SIZE a))
      = filter (\<lambda>off. off < ?M \<and> off < ?N) (block_offsets ?M (ca_BLOCK_SIZE a))"
    using le by (intro filter_cong) auto
  also have "\<dots> = [0..<?N]"
    using assms le by (simp add: block_offsets_masked_conj filter_less_upt min_def)
  finally show ?thesis by simp
qed

section \<open>The width of the rows\<close>

definition c128a_shape :: "nat \<Rightarrow> nat \<Rightarrow> tensor2 \<Rightarrow> bool" where
  "c128a_shape M w t \<longleftrightarrow> t_rows t = M \<and> t_cols t = w \<and> t_stride t = w \<and> length (t_data t) = M * w"

definition wf_mla :: "vllm_config \<Rightarrow> mla_builder \<Rightarrow> bool" where
  "wf_mla cfg self \<longleftrightarrow>
     (mb_compress_ratio self = 128 \<longrightarrow>
        mb_c128a_max_compressed self = c128a_max_compressed_for (cfg_max_model_len cfg) 128 \<and>
        c128a_shape (cfg_max_num_batched_tokens cfg) (mb_c128a_max_compressed self) (cb_global_decode (mb_c128a self)) \<and>
        c128a_shape (cfg_max_num_batched_tokens cfg) (mb_c128a_max_compressed self) (cb_prefill (mb_c128a self)) \<and>
        length (cb_decode_lens (mb_c128a self)) = cfg_max_num_batched_tokens cfg)"

lemma mla_init_wf: "wf_mla cfg (mla_init cfg thr r bs ns u)"
  by (simp add: wf_mla_def mla_init_def Let_def c128a_shape_def)

lemma c128a_max_compressed_ge: "L div 128 \<le> c128a_max_compressed_for L 128"
proof -
  have "L div 128 \<le> cdiv L 128" by (rule div_le_cdiv) simp
  also have "\<dots> \<le> cdiv (cdiv L 128) 128 * 128" by (rule cdiv_mult_ge) simp
  finally show ?thesis by (simp add: c128a_max_compressed_for_def C128A_TOPK_ALIGNMENT_def)
qed

lemma c128a_max_compressed_pos: "0 < L \<Longrightarrow> 0 < c128a_max_compressed_for L 128"
proof -
  assume "0 < L"
  then have "0 < cdiv L 128" using cdiv_mult_ge [of 128 L] by (cases "cdiv L 128") auto
  then have "0 < cdiv (cdiv L 128) 128" using cdiv_mult_ge [of 128 "cdiv L 128"] by (cases "cdiv (cdiv L 128) 128") auto
  then show ?thesis by (simp add: c128a_max_compressed_for_def C128A_TOPK_ALIGNMENT_def)
qed

lemma active_width:
  assumes wf: "wf_mla cfg self" and r: "mb_compress_ratio self = 128"
    and len: "max_seq_len \<le> cfg_max_model_len cfg" "0 < cfg_max_model_len cfg"
  defines "W \<equiv> active_topk_width_for self max_seq_len"
  shows "max_seq_len div 128 \<le> W" "W mod 128 = 0" "0 < W" "W \<le> mb_c128a_max_compressed self"
proof -
  let ?p = "next_power_of_2 (max (max_seq_len div 128) 1)"
  have m: "mb_c128a_max_compressed self = c128a_max_compressed_for (cfg_max_model_len cfg) 128"
    using wf r by (simp add: wf_mla_def)
  have W: "W = min (max ?p 128) (mb_c128a_max_compressed self)"
    unfolding W_def active_topk_width_for_def r C128A_TOPK_ALIGNMENT_def ..
  have "max_seq_len div 128 \<le> ?p" using next_power_of_2_ge [of "max (max_seq_len div 128) 1"] by linarith
  moreover have "max_seq_len div 128 \<le> mb_c128a_max_compressed self"
    using div_le_mono [OF len(1), of 128] c128a_max_compressed_ge [of "cfg_max_model_len cfg"] m by linarith
  ultimately show "max_seq_len div 128 \<le> W" unfolding W by simp
  obtain k where k: "?p = 2 ^ k" using next_power_of_2_pow by blast
  have "128 dvd max ?p 128"
    using pow2_ge_dvd [of 7 k] unfolding k by (cases "(2::nat) ^ k \<ge> 128") (auto simp: max_def)
  moreover have "128 dvd mb_c128a_max_compressed self"
    by (simp add: m c128a_max_compressed_for_def C128A_TOPK_ALIGNMENT_def)
  ultimately show "W mod 128 = 0" unfolding W by (simp add: min_def)
  show "0 < W" unfolding W using c128a_max_compressed_pos [OF len(2)] m by simp
  show "W \<le> mb_c128a_max_compressed self" unfolding W by simp
qed

section \<open>The builder never fails on a batch within the model length\<close>

definition c128a_run :: "c128a_args \<Rightarrow> nat \<Rightarrow> c128a_buffers \<Rightarrow> c128a_buffers" where
  "c128a_run a n bufs = bufs\<lparr>
     cb_global_decode := (cb_global_decode bufs)\<lparr>t_data :=
       launch [0..<n] (c128a_decode_program a (t_stride (cb_global_decode bufs))) (t_data (cb_global_decode bufs))\<rparr>,
     cb_decode_lens := launch [0..<n] (c128a_lens_program a) (cb_decode_lens bufs),
     cb_prefill := (cb_prefill bufs)\<lparr>t_data :=
       launch [0..<n] (c128a_prefill_program a (t_stride (cb_prefill bufs))) (t_data (cb_prefill bufs))\<rparr>\<rparr>"

lemma c128a_run_empty: "c128a_run a 0 bufs = bufs"
  by (simp add: c128a_run_def launch_def)

lemma build_c128a_topk_ok:
  assumes "W mod 128 = 0" "0 < W" "W \<le> t_cols (cb_global_decode bufs)" "W \<le> t_cols (cb_prefill bufs)"
  shows "build_c128a_topk_metadata ps ratio nd tr bt bs sm bufs W =
    (let a = \<lparr>ca_positions = ps, ca_compress_ratio = ratio, ca_max_compressed_tokens = W,
               ca_num_decode_tokens = nd, ca_token_to_req_indices = tr, ca_block_table = bt,
               ca_block_size = bs, ca_slot_mapping = sm, ca_BLOCK_SIZE = 1024\<rparr>;
         b = c128a_run a (length ps) bufs
     in Inr ((narrow nd W (cb_global_decode b), take nd (cb_decode_lens b),
              narrow (length ps - nd) W (cb_prefill b)), b))"
  using assms
  by (cases "length ps = 0")
    (simp_all add: build_c128a_topk_metadata_def Let_def C128A_TOPK_ALIGNMENT_def c128a_run_def [symmetric] c128a_run_empty)

text \<open>The fields of a step, in terms of the kernel's arguments.\<close>

definition step_args :: "mla_builder \<Rightarrow> common_meta \<Rightarrow> nat list \<Rightarrow> nat list \<Rightarrow> nat \<Rightarrow> nat \<Rightarrow> c128a_args" where
  "step_args self cm ps tr num_decodes nd =
     \<lparr>ca_positions = ps, ca_compress_ratio = 128,
      ca_max_compressed_tokens = active_topk_width_for self (cm_max_seq_len cm),
      ca_num_decode_tokens = nd, ca_token_to_req_indices = tr,
      ca_block_table = first_rows num_decodes (cm_block_table cm),
      ca_block_size = mb_block_size self div 128, ca_slot_mapping = cm_slot_mapping cm, ca_BLOCK_SIZE = 1024\<rparr>"

lemma build_c128a_ok:
  fixes tr :: "nat list"
  assumes wf: "wf_mla cfg self" and r: "mb_compress_ratio self = 128"
    and len: "cm_max_seq_len cm \<le> cfg_max_model_len cfg" "0 < cfg_max_model_len cfg"
    and split: "mx_split mx cm (if mb_reorder_batch_threshold self = 0 then 1 else mb_reorder_batch_threshold self)
      = (num_decodes, num_prefills, nd, np)"
    and pos: "0 < nd + np" "cm_positions cm = Some ps"
  defines "b \<equiv> c128a_run (step_args self cm (take (nd + np) ps) tr num_decodes nd)
     (length (take (nd + np) ps)) (mb_c128a self)"
  shows "build_c128a_metadata mx self cm tr = Inr
     (\<lparr>cf_global_decode_topk_indices = (if nd > 0 then Some (first_rows nd (cb_global_decode b)) else None),
       cf_decode_topk_lens = (if nd > 0 then Some (take nd (cb_decode_lens b)) else None),
       cf_prefill_topk_indices =
         (if np > 0 then Some (narrow (length (take (nd + np) ps) - nd)
                                  (active_topk_width_for self (cm_max_seq_len cm)) (cb_prefill b)) else None)\<rparr>,
      self\<lparr>mb_c128a := b\<rparr>)"
proof -
  note w = active_width [OF wf r len]
  let ?W = "active_topk_width_for self (cm_max_seq_len cm)"
  have cols: "?W \<le> t_cols (cb_global_decode (mb_c128a self))" "?W \<le> t_cols (cb_prefill (mb_c128a self))"
    using w(4) wf r by (auto simp: wf_mla_def c128a_shape_def)
  show ?thesis
    unfolding build_c128a_metadata_def split prod.case r pos(2) option.case
      build_c128a_topk_ok [OF w(2,3) cols] b_def step_args_def Let_def
    using pos(1) w by (auto simp: C128A_TOPK_ALIGNMENT_def)
qed

lemma c128a_run_shape:
  "c128a_shape M w (cb_global_decode bufs) \<Longrightarrow> c128a_shape M w (cb_global_decode (c128a_run a n bufs))"
  "c128a_shape M w (cb_prefill bufs) \<Longrightarrow> c128a_shape M w (cb_prefill (c128a_run a n bufs))"
  "length (cb_decode_lens (c128a_run a n bufs)) = length (cb_decode_lens bufs)"
  by (simp_all add: c128a_run_def c128a_shape_def)

lemma wf_mla_run:
  "wf_mla cfg self \<Longrightarrow> wf_mla cfg (self\<lparr>mb_c128a := c128a_run a n (mb_c128a self)\<rparr>)"
  unfolding wf_mla_def by (auto simp: c128a_run_shape(3) intro: c128a_run_shape(1,2))

lemma build_c128a_total:
  assumes "wf_mla cfg self" "mb_compress_ratio self = 128"
    and "cm_max_seq_len cm \<le> cfg_max_model_len cfg" "0 < cfg_max_model_len cfg" "cm_positions cm = Some ps"
  shows "\<exists>fields self'. build_c128a_metadata mx self cm tr = Inr (fields, self') \<and> wf_mla cfg self'
     \<and> mb_compress_ratio self' = 128"
proof -
  obtain num_decodes num_prefills nd np where
    split: "mx_split mx cm (if mb_reorder_batch_threshold self = 0 then 1 else mb_reorder_batch_threshold self)
      = (num_decodes, num_prefills, nd, np)" by (metis prod_cases4)
  show ?thesis
  proof (cases "nd + np = 0")
    case True
    then show ?thesis using split assms(1,2) by (simp add: build_c128a_metadata_def)
  next
    case False
    then have "0 < nd + np" by simp
    from build_c128a_ok [OF assms(1-4) split this assms(5), of tr] show ?thesis
      using wf_mla_run [OF assms(1)] assms(2) by auto
  qed
qed

text \<open>No assertion on the way raises.\<close>

lemma mla_build_returns:
  assumes "wf_mla cfg self" "cm_max_seq_len cm \<le> cfg_max_model_len cfg" "0 < cfg_max_model_len cfg"
    and "cm_positions cm = Some ps"
  shows "\<exists>md cm' self'. mla_build mx self cm = Inr (md, cm', self') \<and> wf_mla cfg self'"
proof -
  obtain rid rbuf where r: "mx_token_to_req mx cm (mb_req_id_per_token_buffer self) = (rid, rbuf)" by fastforce
  let ?self1 = "self\<lparr>mb_req_id_per_token_buffer := rbuf\<rparr>"
  obtain sm cm' self2 where s: "(if mb_compress_ratio ?self1 > 1 then
      let cm' = cm\<lparr>cm_block_table := clamp_block_table (cm_block_table cm)\<rparr>;
          (view, buf) = mx_slot_mapping mx (cm_num_actual_tokens cm) (cm_query_start_loc cm)
             (cm_seq_lens cm) (cm_block_table cm') (mb_num_states ?self1) (mb_compress_ratio ?self1)
             (mb_compressed_slot_mapping_buffer ?self1)
      in (view, cm', ?self1\<lparr>mb_compressed_slot_mapping_buffer := buf\<rparr>)
    else (cm_slot_mapping cm, cm, ?self1)) = (sm, cm', self2)" by (metis prod_cases3)
  have kept: "wf_mla cfg self2 \<and> cm_max_seq_len cm' = cm_max_seq_len cm \<and> cm_positions cm' = Some ps"
    using s assms(1,4) by (auto simp: Let_def wf_mla_def split: if_splits prod.splits)
  obtain fields self3 where f: "(if mb_compress_ratio self2 = 128 then build_c128a_metadata mx self2 cm' rid
      else Inr (no_c128a_fields, self2)) = Inr (fields, self3)" "wf_mla cfg self3"
    using kept build_c128a_total [of cfg self2 cm' ps mx rid] assms(2,3) by (cases "mb_compress_ratio self2 = 128") auto
  show ?thesis unfolding mla_build_def Let_def r prod.case s [unfolded Let_def] f(1) using f(2) by simp
qed

text \<open>
  Building the sparse-MLA metadata never raises on a batch within the model length.  The
  width chosen for the step passes every assertion on the way (it is at least the compressed
  length, a multiple of the kernel's alignment, positive, and within the buffers), for C128A
  layers and all others, and the builder keeps the shape of its buffers, so the next step
  succeeds as well.
\<close>

theorem mla_build_total:
  assumes "wf_mla cfg self" "cm_max_seq_len cm \<le> cfg_max_model_len cfg" "0 < cfg_max_model_len cfg"
    and "cm_positions cm = Some ps"
  shows "\<exists>md cm' self'. mla_build mx self cm = Inr (md, cm', self') \<and> wf_mla cfg self'"
  by (rule mla_build_returns [OF assms])

definition mla_demo_config :: vllm_config where
  "mla_demo_config = \<lparr>cfg_max_model_len = 16384, cfg_max_num_batched_tokens = 4, cfg_max_num_seqs = 4,
     cfg_decode_context_parallel_size = 1, cfg_prefill_context_parallel_size = 1,
     cfg_cp_kv_cache_interleave_size = 1, cfg_dcp_rank_in_group = 0, cfg_num_speculative_tokens = 1,
     cfg_speculative_config = None, cfg_indexer_kv_dtype = ''fp8'', cfg_use_non_causal = False,
     cfg_hf_config = \<lparr>hf_sliding_window = 8, hf_index_topk = 16, hf_vision_n_layers = 0,
       hf_vision_max_n_token = 0, hf_compress_ratios = Some [128]\<rparr>\<rparr>"

text \<open>Two decode tokens of one request and one prefill token of another.\<close>

definition mla_demo_batch :: common_meta where
  "mla_demo_batch = \<lparr>cm_num_reqs = 2, cm_num_actual_tokens = 3, cm_max_query_len = 2, cm_max_seq_len = 400,
     cm_query_start_loc = [0, 2, 3], cm_query_start_loc_cpu = [0, 2, 3], cm_seq_lens = [400, 130],
     cm_seq_lens_cpu_upper_bound = None, cm_slot_mapping = [3, -1, 5],
     cm_block_table = \<lparr>t_data = [7, 9, 4, 6], t_stride = 2, t_rows = 2, t_cols = 2\<rparr>,
     cm_dcp_local_seq_lens = None, cm_positions = Some [398, 399, 129], cm_causal = True,
     cm_mm_req_doc_ranges = []\<rparr>"

definition mla_demo_ext :: mla_ext where
  "mla_demo_ext = \<lparr>mx_split = (\<lambda>cm t. (1, 1, 2, 1)), mx_token_to_req = (\<lambda>cm buf. ([0, 0, 1], [0, 0, 1, 0])),
     mx_slot_mapping = (\<lambda>n q s bt ns r buf. (take n buf, buf))\<rparr>"

lemma mla_demo_fields:
  "cm_max_seq_len mla_demo_batch = 400" "cfg_max_model_len mla_demo_config = 16384"
  "cm_positions mla_demo_batch = Some [398, 399, 129]"
  by (simp_all add: mla_demo_batch_def mla_demo_config_def)

theorem mla_build_total_witness:
  "\<exists>md cm' self'. mla_build mla_demo_ext (mla_init mla_demo_config 1 128 256 2 (\<lambda>_. 9)) mla_demo_batch
     = Inr (md, cm', self')"
  using mla_build_total [OF mla_init_wf _ _ mla_demo_fields(3),
      of mla_demo_config mla_demo_ext 1 128 256 2 "\<lambda>_. 9"] mla_demo_fields by auto

section \<open>What the rows hold\<close>

lemma wf_c128a_tensor: "c128a_shape M w t \<Longrightarrow> wf_tensor2 t"
  by (simp add: c128a_shape_def wf_tensor2_def)

lemma decode_row_entry:
  assumes "c128a_shape M w (cb_global_decode bufs)" "ca_max_compressed_tokens a \<le> w" "ca_BLOCK_SIZE a = Suc b"
    and "ca_num_decode_tokens a \<le> n" "t < ca_num_decode_tokens a" "t < M" "off < ca_max_compressed_tokens a"
  shows "row (cb_global_decode (c128a_run a n bufs)) t ! off = c128a_slot_id a t off"
proof -
  let ?g = "cb_global_decode bufs"
  obtain k where k: "w = ca_max_compressed_tokens a + k" using assms(2) by (metis le_iff_add)
  have sh: "t_stride ?g = w" "t_cols ?g = w" "t_rows ?g = M" using assms(1) by (simp_all add: c128a_shape_def)
  have "t * w + off < length (t_data ?g)"
    using row_address_bound [OF wf_c128a_tensor [OF assms(1)], of t off] sh assms(2,6,7) by simp
  then show ?thesis
    using decode_rows.row_written [where pids = "[0..<ca_num_decode_tokens a]" and pid = t and off = off
        and w = "ca_max_compressed_tokens a" and k = k and b = b and buf = "t_data ?g" and a = a] assms(5,7)
    by (simp add: nth_row sh k c128a_run_def launch_decode [OF assms(4)] assms(3))
qed

lemma prefill_row_entry:
  assumes "c128a_shape M w (cb_prefill bufs)" "ca_max_compressed_tokens a \<le> w" "ca_BLOCK_SIZE a = Suc b"
    and "ca_num_decode_tokens a \<le> n" "p < n - ca_num_decode_tokens a" "p < M" "off < ca_max_compressed_tokens a"
  shows "row (cb_prefill (c128a_run a n bufs)) p ! off = c128a_local_index a p off"
proof -
  let ?g = "cb_prefill bufs"
  obtain k where k: "w = ca_max_compressed_tokens a + k" using assms(2) by (metis le_iff_add)
  have sh: "t_stride ?g = w" "t_cols ?g = w" "t_rows ?g = M" using assms(1) by (simp_all add: c128a_shape_def)
  have "p * w + off < length (t_data ?g)"
    using row_address_bound [OF wf_c128a_tensor [OF assms(1)], of p off] sh assms(2,6,7) by simp
  then show ?thesis
    using prefill_rows.row_written [where pids = "[0..<n - ca_num_decode_tokens a]" and pid = p and off = off
        and w = "ca_max_compressed_tokens a" and k = k and b = b and buf = "t_data ?g" and a = a] assms(5,7)
    by (simp add: nth_row sh k c128a_run_def launch_prefill [OF assms(4)] assms(3))
qed

text \<open>A step of the builder within the model length, as the properties of its rows assume it.\<close>

definition c128a_step ::
  "vllm_config \<Rightarrow> mla_ext \<Rightarrow> mla_builder \<Rightarrow> common_meta \<Rightarrow> nat \<Rightarrow> nat \<Rightarrow> nat \<Rightarrow> nat \<Rightarrow> nat list \<Rightarrow> bool" where
  "c128a_step cfg mx self cm num_decodes num_prefills nd np ps \<longleftrightarrow>
     wf_mla cfg self \<and> mb_compress_ratio self = 128 \<and>
     cm_max_seq_len cm \<le> cfg_max_model_len cfg \<and> 0 < cfg_max_model_len cfg \<and>
     mx_split mx cm (if mb_reorder_batch_threshold self = 0 then 1 else mb_reorder_batch_threshold self)
       = (num_decodes, num_prefills, nd, np) \<and>
     0 < nd + np \<and> cm_positions cm = Some ps \<and> nd + np \<le> length ps \<and>
     nd + np \<le> cfg_max_num_batched_tokens cfg \<and> (\<forall>t < nd + np. ps ! t < cm_max_seq_len cm)"

lemma c128a_stepD:
  assumes "c128a_step cfg mx self cm num_decodes num_prefills nd np ps"
  shows "wf_mla cfg self" "mb_compress_ratio self = 128" "cm_max_seq_len cm \<le> cfg_max_model_len cfg"
    "0 < cfg_max_model_len cfg"
    "mx_split mx cm (if mb_reorder_batch_threshold self = 0 then 1 else mb_reorder_batch_threshold self)
       = (num_decodes, num_prefills, nd, np)"
    "0 < nd + np" "cm_positions cm = Some ps" "length (take (nd + np) ps) = nd + np"
    "nd + np \<le> cfg_max_num_batched_tokens cfg"
    "t < nd + np \<Longrightarrow> (ps ! t + 1) div 128 \<le> active_topk_width_for self (cm_max_seq_len cm)"
proof -
  show "(ps ! t + 1) div 128 \<le> active_topk_width_for self (cm_max_seq_len cm)" if "t < nd + np"
  proof -
    have "ps ! t + 1 \<le> cm_max_seq_len cm" using assms that unfolding c128a_step_def by (metis Suc_eq_plus1 Suc_leI)
    then have "(ps ! t + 1) div 128 \<le> cm_max_seq_len cm div 128" by (rule div_le_mono)
    also have "\<dots> \<le> active_topk_width_for self (cm_max_seq_len cm)"
      by (rule active_width(1)) (use assms in \<open>auto simp: c128a_step_def\<close>)
    finally show ?thesis .
  qed
qed (use assms in \<open>auto simp: c128a_step_def\<close>)

lemma step_num_compressed:
  assumes "c128a_step cfg mx self cm num_decodes num_prefills nd np ps" "t < nd + np"
  shows "c128a_num_compressed (step_args self cm (take (nd + np) ps) tr num_decodes nd) t = (ps ! t + 1) div 128"
  using c128a_stepD(10) [OF assms] assms(2) by (simp add: c128a_num_compressed_def step_args_def min_def)

text \<open>
  C18. The decode rows of a C128A step.  For decode token \<open>t\<close> at position \<open>p\<close>, with
  \<open>(p + 1) div 128\<close> compressed keys, entry \<open>off\<close> below that count is the cache slot of compressed
  key \<open>off\<close> of its request (block number from the request's row of the block table, times the
  block size, plus the offset inside the block), the entries from there to the active width are
  \<open>-1\<close>, and the length stored beside the row is that count, or zero for a padding token (slot
  mapping below zero).  The buffer handed to the kernel is contiguous and full width, as SM120
  requires; the lengths never reach past the active width into stale columns.
\<close>

theorem c128a_decode_rows:
  assumes st: "c128a_step cfg mx self cm num_decodes num_prefills nd np ps"
    and res: "build_c128a_metadata mx self cm tr = Inr (fs, self')"
    and t: "t < nd"
  shows "\<exists>tbl lens. cf_global_decode_topk_indices fs = Some tbl \<and> cf_decode_topk_lens fs = Some lens
    \<and> contiguous2 tbl \<and> t_rows tbl = nd \<and> length lens = nd
    \<and> (\<forall>off < (ps ! t + 1) div 128. row tbl t ! off =
         t_data (cm_block_table cm) ! (tr ! t * t_stride (cm_block_table cm) + off div (mb_block_size self div 128))
           * int (mb_block_size self div 128) + int (off mod (mb_block_size self div 128)))
    \<and> (\<forall>off. (ps ! t + 1) div 128 \<le> off \<and> off < active_topk_width_for self (cm_max_seq_len cm)
         \<longrightarrow> row tbl t ! off = - 1)
    \<and> lens ! t = (if cm_slot_mapping cm ! t \<ge> 0 then (ps ! t + 1) div 128 else 0)
    \<and> lens ! t \<le> active_topk_width_for self (cm_max_seq_len cm)"
proof -
  note D = c128a_stepD [OF st]
  let ?W = "active_topk_width_for self (cm_max_seq_len cm)" and ?M = "cfg_max_num_batched_tokens cfg"
  define a where "a = step_args self cm (take (nd + np) ps) tr num_decodes nd"
  define b where "b = c128a_run a (nd + np) (mb_c128a self)"
  have a: "ca_max_compressed_tokens a = ?W" "ca_BLOCK_SIZE a = Suc 1023" "ca_num_decode_tokens a = nd"
    by (simp_all add: a_def step_args_def)
  note w = active_width [OF D(1-4)]
  have f: "cf_global_decode_topk_indices fs = Some (first_rows nd (cb_global_decode b))"
      "cf_decode_topk_lens fs = Some (take nd (cb_decode_lens b))"
    using res build_c128a_ok [OF D(1-7), of tr] t unfolding D(8) a_def [symmetric] b_def [symmetric] by auto
  have sh: "c128a_shape ?M (mb_c128a_max_compressed self) (cb_global_decode (mb_c128a self))"
      "length (cb_decode_lens (mb_c128a self)) = ?M"
    using D(1,2) by (auto simp: wf_mla_def)
  have shb: "c128a_shape ?M (mb_c128a_max_compressed self) (cb_global_decode b)"
    unfolding b_def by (rule c128a_run_shape(1) [OF sh(1)])
  have N: "c128a_num_compressed a t = (ps ! t + 1) div 128"
    unfolding a_def by (rule step_num_compressed [OF st]) (use t in simp)
  have entry: "row (cb_global_decode b) t ! off = c128a_slot_id a t off" if "off < ?W" for off
    unfolding b_def
    by (rule decode_row_entry [OF sh(1) _ a(2)]) (use w(4) a that t D(9) in auto)
  have lens: "cb_decode_lens b ! t = (if cm_slot_mapping cm ! t \<ge> 0 then (ps ! t + 1) div 128 else 0)"
  proof -
    have "cb_decode_lens b = launch [0..<nd]
        (cell_writes (\<lambda>t. if ca_slot_mapping a ! t \<ge> 0 then c128a_count a t else 0)) (cb_decode_lens (mb_c128a self))"
      using launch_lens [of a "nd + np"] a(3) by (simp add: b_def c128a_run_def)
    also have "\<dots> ! t = (if ca_slot_mapping a ! t \<ge> 0 then c128a_count a t else 0)"
      using t sh(2) D(9) by (simp add: launch_cells nth_append)
    finally show ?thesis using N a(2) by (simp add: c128a_count_eq a_def step_args_def)
  qed
  have le: "(ps ! t + 1) div 128 \<le> ?W" using D(10) t by simp
  have slot: "c128a_slot_id a t off = (if off < (ps ! t + 1) div 128 then
      t_data (cm_block_table cm) ! (tr ! t * t_stride (cm_block_table cm) + off div (mb_block_size self div 128))
        * int (mb_block_size self div 128) + int (off mod (mb_block_size self div 128)) else - 1)" for off
    unfolding c128a_slot_id_def N by (simp add: a_def step_args_def first_rows_def)
  have shape: "contiguous2 (first_rows nd (cb_global_decode b))" "t_rows (first_rows nd (cb_global_decode b)) = nd"
      "length (take nd (cb_decode_lens b)) = nd"
    using shb D(9) c128a_run_shape(3) [of a "nd + np" "mb_c128a self"] sh(2)
    by (auto simp: contiguous2_def first_rows_def c128a_shape_def b_def)
  have rows: "row (first_rows nd (cb_global_decode b)) t ! off = c128a_slot_id a t off" if "off < ?W" for off
    using entry [OF that] by simp
  have lens': "take nd (cb_decode_lens b) ! t = (if cm_slot_mapping cm ! t \<ge> 0 then (ps ! t + 1) div 128 else 0)"
    using lens t by simp
  show ?thesis
    by (rule exI [of _ "first_rows nd (cb_global_decode b)"], rule exI [of _ "take nd (cb_decode_lens b)"])
      (use f shape lens' le rows slot in auto)
qed

text \<open>
  The prefill rows of a C128A step: for prefill token \<open>p\<close> (counted after the decode tokens),
  the row lists the local indices \<open>0, 1, \<dots>\<close> of its compressed context and is \<open>-1\<close> from there to
  the active width, whatever the buffer held before.
\<close>

theorem c128a_prefill_rows:
  assumes st: "c128a_step cfg mx self cm num_decodes num_prefills nd np ps"
    and res: "build_c128a_metadata mx self cm tr = Inr (fs, self')"
    and p: "p < np"
  shows "\<exists>tbl. cf_prefill_topk_indices fs = Some tbl \<and> t_rows tbl = np
    \<and> row tbl p = map (\<lambda>off. if off < (ps ! (nd + p) + 1) div 128 then int off else - 1)
        [0..<active_topk_width_for self (cm_max_seq_len cm)]"
proof -
  note D = c128a_stepD [OF st]
  let ?W = "active_topk_width_for self (cm_max_seq_len cm)" and ?M = "cfg_max_num_batched_tokens cfg"
  define a where "a = step_args self cm (take (nd + np) ps) tr num_decodes nd"
  define b where "b = c128a_run a (nd + np) (mb_c128a self)"
  define tbl where "tbl = narrow np ?W (cb_prefill b)"
  have a: "ca_max_compressed_tokens a = ?W" "ca_BLOCK_SIZE a = Suc 1023" "ca_num_decode_tokens a = nd"
    by (simp_all add: a_def step_args_def)
  note w = active_width [OF D(1-4)]
  have f: "cf_prefill_topk_indices fs = Some tbl"
    using res build_c128a_ok [OF D(1-7), of tr] p
    unfolding D(8) a_def [symmetric] b_def [symmetric] tbl_def by auto
  have sh: "c128a_shape ?M (mb_c128a_max_compressed self) (cb_prefill (mb_c128a self))"
    using D(1,2) by (auto simp: wf_mla_def)
  have shb: "c128a_shape ?M (mb_c128a_max_compressed self) (cb_prefill b)"
    unfolding b_def by (rule c128a_run_shape(2) [OF sh])
  have cols: "t_cols tbl = ?W" "t_rows tbl = np" "t_stride tbl = t_stride (cb_prefill b)" "t_data tbl = t_data (cb_prefill b)"
    using shb w(4) D(9) by (auto simp: tbl_def narrow_def c128a_shape_def)
  have N: "c128a_num_compressed a (nd + p) = (ps ! (nd + p) + 1) div 128"
    unfolding a_def by (rule step_num_compressed [OF st]) (use p in simp)
  have entry: "row (cb_prefill b) p ! off = c128a_local_index a p off" if "off < ?W" for off
    unfolding b_def
    by (rule prefill_row_entry [OF sh _ a(2)]) (use w(4) a that p D(9) in auto)
  have "row tbl p ! off = (if off < (ps ! (nd + p) + 1) div 128 then int off else - 1)" if "off < ?W" for off
  proof -
    have "row tbl p ! off = row (cb_prefill b) p ! off"
      using that cols w(4) shb by (simp add: nth_row c128a_shape_def)
    then show ?thesis using entry [OF that] N a(3) by (simp add: c128a_local_index_def)
  qed
  then have "row tbl p = map (\<lambda>off. if off < (ps ! (nd + p) + 1) div 128 then int off else - 1) [0..<?W]"
    by (intro nth_equalityI) (auto simp: cols)
  then show ?thesis using f cols by blast
qed

lemma mla_demo_step:
  "c128a_step mla_demo_config mla_demo_ext (mla_init mla_demo_config 1 128 256 2 (\<lambda>_. 9)) mla_demo_batch
     1 1 2 1 [398, 399, 129]"
  unfolding c128a_step_def mla_demo_fields
  by (simp add: mla_init_wf)
    (simp add: mla_init_def Let_def mla_demo_ext_def mla_demo_config_def less_Suc_eq numeral_3_eq_3)

theorem c128a_decode_rows_witness:
  "\<exists>fs self' tbl lens. build_c128a_metadata mla_demo_ext (mla_init mla_demo_config 1 128 256 2 (\<lambda>_. 9))
      mla_demo_batch [0, 0, 1] = Inr (fs, self')
    \<and> cf_global_decode_topk_indices fs = Some tbl \<and> cf_decode_topk_lens fs = Some lens
    \<and> row tbl 1 ! 2 = 18 \<and> lens ! 1 = 0"
proof -
  let ?self = "mla_init mla_demo_config 1 128 256 2 (\<lambda>_. 9)"
  have s: "mb_compress_ratio ?self = 128" "mb_block_size ?self = 256" by (simp_all add: mla_init_def Let_def)
  obtain fs self' where r: "build_c128a_metadata mla_demo_ext ?self mla_demo_batch [0, 0, 1] = Inr (fs, self')"
    using build_c128a_total [OF mla_init_wf s(1) _ _ mla_demo_fields(3), of mla_demo_ext "[0, 0, 1]"] mla_demo_fields by auto
  from c128a_decode_rows [OF mla_demo_step r, of 1] show ?thesis
    using r s by (auto simp: mla_demo_batch_def)
qed

theorem c128a_prefill_rows_witness:
  "\<exists>fs self' tbl. build_c128a_metadata mla_demo_ext (mla_init mla_demo_config 1 128 256 2 (\<lambda>_. 9))
      mla_demo_batch [0, 0, 1] = Inr (fs, self')
    \<and> cf_prefill_topk_indices fs = Some tbl \<and> t_rows tbl = 1 \<and> take 2 (row tbl 0) = [0, - 1]"
proof -
  let ?self = "mla_init mla_demo_config 1 128 256 2 (\<lambda>_. 9)"
  have s: "mb_compress_ratio ?self = 128" by (simp add: mla_init_def Let_def)
  have w: "active_topk_width_for ?self 400 = 128"
    by (simp add: active_topk_width_for_def mla_init_def Let_def mla_demo_config_def c128a_max_compressed_for_def
        C128A_TOPK_ALIGNMENT_def cdiv_def next_power_of_2_def next_pow2_from.simps)
  obtain fs self' where r: "build_c128a_metadata mla_demo_ext ?self mla_demo_batch [0, 0, 1] = Inr (fs, self')"
    using build_c128a_total [OF mla_init_wf s(1) _ _ mla_demo_fields(3), of mla_demo_ext "[0, 0, 1]"] mla_demo_fields by auto
  have u: "[0..<128] = 0 # 1 # [2..<128::nat]" by (simp add: upt_rec)
  from c128a_prefill_rows [OF mla_demo_step r, of 0] show ?thesis
    using r unfolding mla_demo_fields w u by auto
qed

end
