(* ===== verification/SwaPlan.thy ===== *)
theory SwaPlan
  imports Triton Platform
begin

text \<open>
  The sliding-window cache layer, the metadata and the prefill planning of
  \<^verbatim>\<open>src/docker/overlay-sm121-adaptive/sparse_swa.py\<close>: the layer types, the cache
  specification, the metadata record every attention layer of a step shares, the plan that cuts
  prefill requests into chunks whose gather workspace fits (\<open>get_prefill_chunk_plan\<close>), and the
  kernel that computes the gather lengths (\<^verbatim>\<open>ComputePrefillMetadataKernel\<close>).
\<close>

section \<open>Layer types\<close>

datatype layer_type = LAYER_TYPE_SWAONLY | LAYER_TYPE_C4A | LAYER_TYPE_C128A

definition layer_type_for :: "int \<Rightarrow> layer_type result" where
  "layer_type_for compress_ratio =
     (if compress_ratio \<le> 1 then Inr LAYER_TYPE_SWAONLY
      else if compress_ratio = 4 then Inr LAYER_TYPE_C4A
      else if compress_ratio = 128 then Inr LAYER_TYPE_C128A
      else Inl (ValueError ''Unsupported DeepseekV4 compress_ratio; expected 1, 4, or 128.''))"

section \<open>The cache layer\<close>

datatype swa_dtype = Uint8 | Bfloat16 | Float8_e4m3fn | Other_dtype

record swa_cache =
  sc_head_dim :: nat
  sc_window_size :: nat
  sc_prefix :: string
  sc_cache_dtype :: string
  sc_dtype :: swa_dtype
  sc_block_size :: nat

text \<open>
  \<^verbatim>\<open>__init__\<close>, with the compilation context's layer registry as state: a second layer of the
  same name is refused.
\<close>

definition swa_cache_init ::
  "string list \<Rightarrow> nat \<Rightarrow> nat \<Rightarrow> swa_dtype \<Rightarrow> string \<Rightarrow> string \<Rightarrow> (swa_cache \<times> string list) result" where
  "swa_cache_init static_forward_context head_dim window_size dtype prefix_name cache_dtype =
     raise_if (prefix_name \<in> set static_forward_context) (ValueError ''Duplicate layer name'')
    (raise_if (dtype \<notin> {Uint8, Bfloat16, Float8_e4m3fn})
       (AssertionError ''dtype in (torch.uint8, torch.bfloat16, torch.float8_e4m3fn)'')
     (Inr (\<lparr>sc_head_dim = head_dim, sc_window_size = window_size, sc_prefix = prefix_name,
            sc_cache_dtype = cache_dtype, sc_dtype = dtype, sc_block_size = 64\<rparr>,
          prefix_name # static_forward_context)))"

record swa_kv_spec =
  sp_block_size :: nat
  sp_num_kv_heads :: nat
  sp_head_size :: nat
  sp_dtype :: swa_dtype
  sp_sliding_window :: nat
  sp_cache_dtype_str :: string
  sp_state_content_bytes :: "nat option"
  sp_alignment :: nat

definition swa_get_kv_cache_spec :: "swa_cache \<Rightarrow> swa_kv_spec" where
  "swa_get_kv_cache_spec self =
     (let uses_fp8_ds_mla_layout = (sc_cache_dtype self = ''fp8_ds_mla'')
      in \<lparr>sp_block_size = sc_block_size self, sp_num_kv_heads = 1, sp_head_size = sc_head_dim self,
          sp_dtype = sc_dtype self, sp_sliding_window = sc_window_size self,
          sp_cache_dtype_str = sc_cache_dtype self,
          sp_state_content_bytes = (if uses_fp8_ds_mla_layout then Some 584 else None),
          sp_alignment = (if uses_fp8_ds_mla_layout then 576 else 512)\<rparr>)"

section \<open>Metadata\<close>

text \<open>
  A FlashMLA tile-scheduler plan, of which the code relies on one flag: whether the planner has
  run.  An entry of the sparse index cache is a pair of index and length tensors.
\<close>

record sched_meta =
  have_initialized :: bool

type_synonym index_entry = "int list list \<times> int list"

record swa_metadata =
  sm_block_table :: tensor2
  sm_slot_mapping :: "int list"
  sm_block_size :: nat
  sm_seq_lens :: "nat list option"
  sm_query_start_loc :: "nat list option"
  sm_query_start_loc_cpu :: "nat list option"
  sm_is_valid_token :: "bool list option"
  sm_token_to_req_indices :: "nat list option"
  sm_decode_swa_indices :: "tensor2 option"
  sm_decode_swa_lens :: "int list option"
  sm_decode_swa_width :: nat
  sm_prefill_swa_indices :: "tensor2 option"
  sm_prefill_swa_lens :: "int list option"
  sm_prefill_left_visible :: "int list option"
  sm_prefill_right_visible :: "int list option"
  sm_num_decodes :: nat
  sm_num_prefills :: nat
  sm_num_decode_tokens :: nat
  sm_num_prefill_tokens :: nat
  sm_max_decode_query_len :: nat
  sm_prefill_seq_lens :: "nat list option"
  sm_prefill_seq_lens_cpu :: "nat list option"
  sm_prefill_gather_lens :: "int list option"
  sm_prefill_query_lens_cpu :: "nat list option"
  sm_prefill_window_size :: nat
  sm_prefill_max_model_len :: nat
  sm_prefill_max_num_batched_tokens :: nat
  sm_tile_sched_swaonly :: "sched_meta option"
  sm_tile_sched_c4a :: "sched_meta option"
  sm_tile_sched_c128a :: "sched_meta option"
  sm_flashinfer_sparse_index_cache :: "(string \<times> index_entry) list"

section \<open>The prefill chunk plan\<close>

definition max_workspace_area :: "swa_metadata \<Rightarrow> nat \<Rightarrow> nat \<Rightarrow> int" where
  "max_workspace_area self compress_ratio prefill_chunk_size =
     int (prefill_chunk_size *
       ((if compress_ratio \<le> 1 then 0 else cdiv (sm_prefill_max_model_len self) compress_ratio)
        + sm_prefill_window_size self + sm_prefill_max_num_batched_tokens self))"

definition gather_lens_cpu :: "nat \<Rightarrow> nat list \<Rightarrow> nat list \<Rightarrow> int list" where
  "gather_lens_cpu window_size seq_lens_cpu query_lens_cpu =
     map2 (\<lambda>s q. int q + clamp 0 (int window_size - 1) (int s - int q)) seq_lens_cpu query_lens_cpu"

definition compressed_lens_cpu :: "nat \<Rightarrow> nat list \<Rightarrow> int list" where
  "compressed_lens_cpu compress_ratio seq_lens_cpu =
     map (\<lambda>s. if compress_ratio \<le> 1 then 0 else int (s div compress_ratio)) seq_lens_cpu"

text \<open>The inner loop: absorb requests while the padded rectangle fits the workspace.\<close>

function absorb_prefills ::
  "int list \<Rightarrow> int list \<Rightarrow> nat \<Rightarrow> int \<Rightarrow> nat \<Rightarrow> nat \<Rightarrow> int \<Rightarrow> int \<Rightarrow> nat \<times> int \<times> int" where
  "absorb_prefills cmp gath num_prefills area chunk_start chunk_end chunk_max_compressed chunk_max_gather =
     (if chunk_end < num_prefills then
        let candidate_max_compressed = max chunk_max_compressed (cmp ! chunk_end);
            candidate_max_gather = max chunk_max_gather (gath ! chunk_end);
            candidate_width = candidate_max_compressed + candidate_max_gather;
            candidate_area = (int chunk_end - int chunk_start + 1) * candidate_width
        in if candidate_area > area then (chunk_end, chunk_max_compressed, chunk_max_gather)
           else absorb_prefills cmp gath num_prefills area chunk_start (chunk_end + 1)
                  candidate_max_compressed candidate_max_gather
      else (chunk_end, chunk_max_compressed, chunk_max_gather))"
  by pat_completeness auto
termination
  by (relation "measure (\<lambda>(_, _, num_prefills, _, _, chunk_end, _, _). num_prefills - chunk_end)") auto

declare absorb_prefills.simps [simp del]

definition next_prefill_chunk :: "int list \<Rightarrow> int list \<Rightarrow> nat \<Rightarrow> int \<Rightarrow> nat \<Rightarrow> nat \<times> int \<times> int" where
  "next_prefill_chunk cmp gath num_prefills area chunk_start =
     absorb_prefills cmp gath num_prefills area chunk_start (chunk_start + 1)
       (cmp ! chunk_start) (gath ! chunk_start)"

lemma absorb_prefills_bounds:
  "absorb_prefills cmp gath n area s e c g = (e', c', g') \<Longrightarrow> e \<le> n \<Longrightarrow> e \<le> e' \<and> e' \<le> n"
proof (induction cmp gath n area s e c g rule: absorb_prefills.induct)
  case (1 cmp gath n area s e c g)
  show ?case
  proof (cases "e < n \<and> \<not> (int e - int s + 1) * (max c (cmp ! e) + max g (gath ! e)) > area")
    case True
    with "1.prems" have "absorb_prefills cmp gath n area s (e + 1) (max c (cmp ! e)) (max g (gath ! e)) = (e', c', g')"
      by (subst (asm) absorb_prefills.simps) (simp add: Let_def)
    then show ?thesis using "1.IH" [OF _ refl refl refl refl] True by auto
  next
    case False
    with "1.prems" show ?thesis by (subst (asm) absorb_prefills.simps) (auto simp: Let_def split: if_splits)
  qed
qed

lemma next_prefill_chunk_bounds:
  "next_prefill_chunk cmp gath n area s = (e, c, g) \<Longrightarrow> s < n \<Longrightarrow> s < e \<and> e \<le> n"
  unfolding next_prefill_chunk_def by (drule absorb_prefills_bounds) auto

function prefill_chunks_from ::
  "int list \<Rightarrow> int list \<Rightarrow> nat \<Rightarrow> int \<Rightarrow> nat \<Rightarrow> (nat \<times> nat \<times> int \<times> int) list" where
  "prefill_chunks_from cmp gath num_prefills area chunk_start =
     (if chunk_start < num_prefills then
        (case next_prefill_chunk cmp gath num_prefills area chunk_start of
           (chunk_end, chunk_max_compressed, chunk_max_gather) \<Rightarrow>
             (chunk_start, chunk_end, chunk_max_compressed, chunk_max_compressed + chunk_max_gather)
             # prefill_chunks_from cmp gath num_prefills area chunk_end)
      else [])"
  by pat_completeness auto
termination
  by (relation "measure (\<lambda>(_, _, num_prefills, _, chunk_start). num_prefills - chunk_start)")
    (auto dest!: next_prefill_chunk_bounds [OF sym])

declare prefill_chunks_from.simps [simp del]

definition get_prefill_chunk_plan ::
  "swa_metadata \<Rightarrow> nat \<Rightarrow> nat \<Rightarrow> (nat \<times> nat \<times> int \<times> int) list result" where
  "get_prefill_chunk_plan self compress_ratio prefill_chunk_size =
     (if sm_num_prefills self = 0 then Inr []
      else (case sm_prefill_seq_lens_cpu self of
         None \<Rightarrow> Inl (AssertionError ''prefill_seq_lens_cpu is not None'')
       | Some seq_lens_cpu \<Rightarrow>
           (case sm_prefill_query_lens_cpu self of
              None \<Rightarrow> Inl (AssertionError ''prefill_query_lens_cpu is not None'')
            | Some query_lens_cpu \<Rightarrow>
                Inr (prefill_chunks_from (compressed_lens_cpu compress_ratio seq_lens_cpu)
                       (gather_lens_cpu (sm_prefill_window_size self) seq_lens_cpu query_lens_cpu)
                       (sm_num_prefills self) (max_workspace_area self compress_ratio prefill_chunk_size) 0))))"

section \<open>The gather-length kernel\<close>

text \<open>
  One program with a power-of-two block.  The addresses of all lanes, the masked ones included,
  are computed from the clamped offset.
\<close>

definition gather_safe_offset :: "nat \<Rightarrow> nat \<Rightarrow> nat" where
  "gather_safe_offset num_prefills off = min off (num_prefills - 1)"

definition gather_len_at :: "nat list \<Rightarrow> nat list \<Rightarrow> nat \<Rightarrow> nat \<Rightarrow> nat \<Rightarrow> nat \<Rightarrow> int" where
  "gather_len_at seq_lens query_start_loc num_prefills num_decodes window_size off =
     (let safe_offset = gather_safe_offset num_prefills off;
          seq_len = int (seq_lens ! (num_decodes + safe_offset));
          query_len = int (query_start_loc ! (num_decodes + safe_offset + 1))
                    - int (query_start_loc ! (num_decodes + safe_offset));
          prefix_len = seq_len - query_len
      in query_len + min prefix_len (int window_size - 1))"

definition compute_prefill_metadata ::
  "nat list \<Rightarrow> nat list \<Rightarrow> nat \<Rightarrow> nat \<Rightarrow> nat \<Rightarrow> int list \<Rightarrow> int list" where
  "compute_prefill_metadata seq_lens query_start_loc num_prefills num_decodes window_size prefill_gather_lens =
     (let BLOCK_SIZE = next_power_of_2 num_prefills
      in apply_writes prefill_gather_lens
           (map (\<lambda>off. (off, gather_len_at seq_lens query_start_loc num_prefills num_decodes window_size off))
              (filter (\<lambda>off. off < num_prefills) [0..<BLOCK_SIZE])))"

section \<open>The plan covers the prefills and fits the workspace\<close>

lemma absorb_prefills_max:
  "absorb_prefills cmp gath n area s e c g = (e', c', g') \<Longrightarrow> e \<le> n \<Longrightarrow>
   c \<le> c' \<and> g \<le> g' \<and> (\<forall>i. e \<le> i \<and> i < e' \<longrightarrow> cmp ! i \<le> c' \<and> gath ! i \<le> g')
   \<and> (e < e' \<longrightarrow> (int e' - int s) * (c' + g') \<le> area) \<and> (e = e' \<longrightarrow> c' = c \<and> g' = g)"
proof (induction cmp gath n area s e c g rule: absorb_prefills.induct)
  case (1 cmp gath n area s e c g)
  let ?c = "max c (cmp ! e)" and ?g = "max g (gath ! e)"
  show ?case
  proof (cases "e < n \<and> \<not> (int e - int s + 1) * (?c + ?g) > area")
    case True
    with "1.prems" have r: "absorb_prefills cmp gath n area s (e + 1) ?c ?g = (e', c', g')"
      by (subst (asm) absorb_prefills.simps) (simp add: Let_def)
    have IH: "?c \<le> c' \<and> ?g \<le> g' \<and> (\<forall>i. e + 1 \<le> i \<and> i < e' \<longrightarrow> cmp ! i \<le> c' \<and> gath ! i \<le> g')
        \<and> (e + 1 < e' \<longrightarrow> (int e' - int s) * (c' + g') \<le> area) \<and> (e + 1 = e' \<longrightarrow> c' = ?c \<and> g' = ?g)"
      using "1.IH" [OF _ refl refl refl refl] True r by auto
    have e': "e + 1 \<le> e'" using absorb_prefills_bounds [OF r] True by simp
    have area: "(int e' - int s) * (c' + g') \<le> area"
    proof (cases "e + 1 = e'")
      case True
      with IH have "c' = ?c" "g' = ?g" by auto
      moreover have "int e' - int s = int e - int s + 1" using True by auto
      ultimately show ?thesis
        using \<open>e < n \<and> \<not> (int e - int s + 1) * (?c + ?g) > area\<close> by (simp only: not_less)
    qed (use IH e' in auto)
    have "cmp ! i \<le> c' \<and> gath ! i \<le> g'" if "e \<le> i" "i < e'" for i
      using IH that by (cases "i = e") auto
    then show ?thesis using IH area e' by auto
  next
    case False
    with "1.prems" show ?thesis by (subst (asm) absorb_prefills.simps) (auto simp: Let_def split: if_splits)
  qed
qed

definition prefill_stop :: "int list \<Rightarrow> int list \<Rightarrow> nat \<Rightarrow> int \<Rightarrow> nat \<Rightarrow> nat" where
  "prefill_stop cmp gath n area s = fst (next_prefill_chunk cmp gath n area s)"

interpretation prefill_plan: chunk_planner "prefill_stop cmp gath n area" n for cmp gath n area
proof
  fix s assume "s < n"
  moreover obtain e c g where "next_prefill_chunk cmp gath n area s = (e, c, g)" by (metis prod_cases3)
  ultimately show "s < prefill_stop cmp gath n area s" "prefill_stop cmp gath n area s \<le> n"
    using next_prefill_chunk_bounds by (fastforce simp: prefill_stop_def)+
qed

lemma prefill_chunks_run:
  "map (\<lambda>(s, e, _, _). (s, e)) (prefill_chunks_from cmp gath n area s) = run_plan (prefill_stop cmp gath n area) n s"
proof (induction "n - s" arbitrary: s rule: less_induct)
  case less
  show ?case
  proof (cases "s < n")
    case True
    obtain e c g where nc: "next_prefill_chunk cmp gath n area s = (e, c, g)" by (metis prod_cases3)
    have b: "s < e \<and> e \<le> n" using next_prefill_chunk_bounds [OF nc True] .
    have "map (\<lambda>(s, e, _, _). (s, e)) (prefill_chunks_from cmp gath n area e) = run_plan (prefill_stop cmp gath n area) n e"
      using less.hyps b True by (simp add: diff_less_mono2)
    then show ?thesis
      using True nc b by (subst prefill_chunks_from.simps, subst run_plan.simps) (simp add: prefill_stop_def)
  next
    case False
    then show ?thesis by (subst prefill_chunks_from.simps, subst run_plan.simps) simp
  qed
qed

lemma prefill_chunks_member:
  "(a, e, c, w) \<in> set (prefill_chunks_from cmp gath n area s) \<Longrightarrow>
   a < n \<and> (\<exists>g. next_prefill_chunk cmp gath n area a = (e, c, g) \<and> w = c + g)"
proof (induction "n - s" arbitrary: s rule: less_induct)
  case less
  show ?case
  proof (cases "s < n")
    case True
    obtain e' c' g' where nc: "next_prefill_chunk cmp gath n area s = (e', c', g')" by (metis prod_cases3)
    have b: "s < e' \<and> e' \<le> n" using next_prefill_chunk_bounds [OF nc True] .
    from less.prems True nc consider "(a, e, c, w) = (s, e', c', c' + g')"
      | "(a, e, c, w) \<in> set (prefill_chunks_from cmp gath n area e')"
      by (subst (asm) prefill_chunks_from.simps) auto
    then show ?thesis using less.hyps [of e'] b True nc by cases (auto simp: diff_less_mono2)
  next
    case False
    with less.prems show ?thesis by (subst (asm) prefill_chunks_from.simps) simp
  qed
qed

lemma single_prefill_fits:
  assumes "q \<le> s" "q \<le> max_batched" "s \<le> max_len" "0 < window" "0 < k"
  shows "(if r \<le> 1 then 0 else int (s div r)) + (int q + clamp 0 (int window - 1) (int s - int q))
    \<le> int (k * ((if r \<le> 1 then 0 else cdiv max_len r) + window + max_batched))"
proof -
  have g: "clamp 0 (int window - 1) (int s - int q) \<le> int window - 1" by (simp add: clamp_def)
  have c: "(if r \<le> 1 then 0 else int (s div r)) \<le> int (if r \<le> 1 then 0 else cdiv max_len r)"
    using div_le_mono [OF assms(3), of r] div_le_cdiv [of r max_len] by (cases "r \<le> 1") auto
  have "(if r \<le> 1 then 0 else int (s div r)) + (int q + clamp 0 (int window - 1) (int s - int q))
      \<le> int ((if r \<le> 1 then 0 else cdiv max_len r) + window + max_batched)"
    using g c assms(2) by linarith
  also have "\<dots> \<le> int (k * ((if r \<le> 1 then 0 else cdiv max_len r) + window + max_batched))"
    using assms(5) unfolding of_nat_le_iff by (cases k) (auto intro: trans_le_add1)
  finally show ?thesis .
qed

text \<open>
  C34. The prefill chunk plan is a plan and fits.  Its chunks follow each other from request
  \<open>0\<close> to the last one, so every prefill request is gathered exactly once; the padded rectangle
  of a chunk, its requests times its width, never exceeds the workspace the layers allocate; and
  the width of a chunk has room for the compressed prefix and the gathered window of every request
  in it.
\<close>

theorem prefill_chunk_plan_fits:
  assumes plan: "get_prefill_chunk_plan self r k = Inr plan"
    and lens: "sm_prefill_seq_lens_cpu self = Some ss" "sm_prefill_query_lens_cpu self = Some qs"
      "length ss = sm_num_prefills self" "length qs = sm_num_prefills self"
    and cfg: "0 < k" "0 < sm_prefill_window_size self"
      "\<forall>i < sm_num_prefills self. qs ! i \<le> ss ! i \<and> qs ! i \<le> sm_prefill_max_num_batched_tokens self
         \<and> ss ! i \<le> sm_prefill_max_model_len self"
  shows "covered (map (\<lambda>(s, e, _, _). (s, e)) plan) = [0..<sm_num_prefills self]
    \<and> (\<forall>(s, e, c, w) \<in> set plan. s < e \<and> int (e - s) * w \<le> max_workspace_area self r k
        \<and> (\<forall>i. s \<le> i \<and> i < e \<longrightarrow>
             (if r \<le> 1 then 0 else int (ss ! i div r)) \<le> c
             \<and> c + (int (qs ! i) + clamp 0 (int (sm_prefill_window_size self) - 1) (int (ss ! i) - int (qs ! i))) \<le> w))"
proof -
  let ?n = "sm_num_prefills self" and ?area = "max_workspace_area self r k"
  define cmp where "cmp = compressed_lens_cpu r ss"
  define gath where "gath = gather_lens_cpu (sm_prefill_window_size self) ss qs"
  have at: "cmp ! i = (if r \<le> 1 then 0 else int (ss ! i div r))"
    "gath ! i = int (qs ! i) + clamp 0 (int (sm_prefill_window_size self) - 1) (int (ss ! i) - int (qs ! i))"
    if "i < ?n" for i
    using that lens by (simp_all add: cmp_def gath_def compressed_lens_cpu_def gather_lens_cpu_def)
  have plan': "plan = prefill_chunks_from cmp gath ?n ?area 0"
    using plan lens by (cases "?n = 0")
      (simp_all add: get_prefill_chunk_plan_def cmp_def gath_def prefill_chunks_from.simps)
  have cov: "covered (map (\<lambda>(s, e, _, _). (s, e)) plan) = [0..<?n]"
    unfolding plan' prefill_chunks_run by (rule prefill_plan.run_covers)
  have mem: "s < e \<and> int (e - s) * w \<le> ?area \<and> (\<forall>i. s \<le> i \<and> i < e \<longrightarrow> cmp ! i \<le> c \<and> c + gath ! i \<le> w) \<and> e \<le> ?n"
    if "(s, e, c, w) \<in> set plan" for s e c w
  proof -
    from prefill_chunks_member [OF that [unfolded plan']] obtain g where
      s: "s < ?n" and nc: "next_prefill_chunk cmp gath ?n ?area s = (e, c, g)" and w: "w = c + g" by blast
    note b = next_prefill_chunk_bounds [OF nc s]
    note mx = absorb_prefills_max [OF nc [unfolded next_prefill_chunk_def]]
    have fit1: "cmp ! s + gath ! s \<le> ?area"
      using single_prefill_fits [of "qs ! s" "ss ! s" "sm_prefill_max_num_batched_tokens self"
          "sm_prefill_max_model_len self" "sm_prefill_window_size self" k r] cfg s
      by (simp add: at max_workspace_area_def)
    have "int (e - s) * w \<le> ?area"
    proof (cases "e = s + 1")
      case True
      then show ?thesis using mx s fit1 w by simp
    next
      case False
      with b have "s + 1 < e" by simp
      moreover have "int (e - s) = int e - int s" using b by simp
      ultimately show ?thesis using mx s w by simp
    qed
    moreover have "cmp ! i \<le> c \<and> gath ! i \<le> g" if "s \<le> i" "i < e" for i
      using mx s that by (cases "i = s") auto
    ultimately show ?thesis using b w by force
  qed
  show ?thesis
  proof (intro conjI cov ballI, clarify, intro conjI allI impI)
    fix s e c w assume m: "(s, e, c, w) \<in> set plan"
    then show "s < e" "int (e - s) * w \<le> ?area" using mem by blast+
    fix i assume "s \<le> i \<and> i < e"
    then show "(if r \<le> 1 then 0 else int (ss ! i div r)) \<le> c"
      "c + (int (qs ! i) + clamp 0 (int (sm_prefill_window_size self) - 1) (int (ss ! i) - int (qs ! i))) \<le> w"
      using mem [OF m] at [of i] by auto
  qed
qed

text \<open>Metadata of a step with four prefills, window 8, batches of 16 tokens, model length 64.\<close>

definition swa_demo_metadata :: swa_metadata where
  "swa_demo_metadata = \<lparr>sm_block_table = \<lparr>t_data = [], t_stride = 0, t_rows = 0, t_cols = 0\<rparr>,
     sm_slot_mapping = [], sm_block_size = 64, sm_seq_lens = Some [], sm_query_start_loc = Some [],
     sm_query_start_loc_cpu = Some [], sm_is_valid_token = Some [], sm_token_to_req_indices = Some [],
     sm_decode_swa_indices = Some \<lparr>t_data = [], t_stride = 0, t_rows = 0, t_cols = 0\<rparr>,
     sm_decode_swa_lens = Some [], sm_decode_swa_width = 8, sm_prefill_swa_indices = None,
     sm_prefill_swa_lens = None, sm_prefill_left_visible = None, sm_prefill_right_visible = None,
     sm_num_decodes = 0, sm_num_prefills = 4, sm_num_decode_tokens = 0, sm_num_prefill_tokens = 16,
     sm_max_decode_query_len = 1, sm_prefill_seq_lens = None,
     sm_prefill_seq_lens_cpu = Some [20, 40, 6, 3], sm_prefill_gather_lens = None,
     sm_prefill_query_lens_cpu = Some [4, 7, 2, 3], sm_prefill_window_size = 8,
     sm_prefill_max_model_len = 64, sm_prefill_max_num_batched_tokens = 16,
     sm_tile_sched_swaonly = None, sm_tile_sched_c4a = None, sm_tile_sched_c128a = None,
     sm_flashinfer_sparse_index_cache = []\<rparr>"

theorem prefill_chunk_plan_fits_witness:
  "get_prefill_chunk_plan swa_demo_metadata 4 1 = Inr [(0, 1, 5, 16), (1, 2, 10, 24), (2, 4, 1, 7)]
   \<and> covered (map (\<lambda>(s, e, _, _). (s, e)) [(0, 1, 5 :: int, 16 :: int), (1, 2, 10, 24), (2, 4, 1, 7)]) = [0..<4]"
proof -
  have plan: "get_prefill_chunk_plan swa_demo_metadata 4 1 = Inr [(0, 1, 5, 16), (1, 2, 10, 24), (2, 4, 1, 7)]"
    by code_simp
  have b: "\<forall>i < sm_num_prefills swa_demo_metadata. [4, 7, 2, 3] ! i \<le> ([20, 40, 6, 3] ! i :: nat)
      \<and> [4, 7, 2, 3] ! i \<le> sm_prefill_max_num_batched_tokens swa_demo_metadata
      \<and> [20, 40, 6, 3] ! i \<le> sm_prefill_max_model_len swa_demo_metadata"
    by code_simp
  show ?thesis
    using prefill_chunk_plan_fits [OF plan _ _ _ _ _ _ b] plan by (simp add: swa_demo_metadata_def)
qed

section \<open>Gather lengths on the device and on the CPU\<close>

lemma cells_concat: "concat (map (cell_writes f) xs) = map (\<lambda>x. (x, f x)) xs"
  by (induction xs) (simp_all add: cell_writes_def)

text \<open>
  The gather-length kernel computes what the planner assumes.  On a batch whose sequence
  lengths are at least their query lengths, the lengths it stores for the prefill requests are
  those of the CPU formula of the chunk plan; and the addresses of every lane of its block, masked
  or not, stay inside the tensors it reads.
\<close>

theorem gather_lens_match_plan:
  assumes "length seq_lens = num_decodes + num_prefills"
    and "query_start_loc = cu qs" "length qs = num_decodes + num_prefills" "0 < num_prefills"
    and "\<forall>i < num_prefills. qs ! (num_decodes + i) \<le> seq_lens ! (num_decodes + i)"
    and "length buf = num_prefills" "0 < window_size"
  shows "compute_prefill_metadata seq_lens query_start_loc num_prefills num_decodes window_size buf
      = gather_lens_cpu window_size (drop num_decodes seq_lens) (drop num_decodes qs)
    \<and> (\<forall>off < next_power_of_2 num_prefills.
         num_decodes + gather_safe_offset num_prefills off < length seq_lens
         \<and> num_decodes + gather_safe_offset num_prefills off + 1 < length query_start_loc)"
proof -
  let ?f = "gather_len_at seq_lens query_start_loc num_prefills num_decodes window_size"
  have "filter (\<lambda>off. off < num_prefills) [0..<next_power_of_2 num_prefills] = [0..<num_prefills]"
    using next_power_of_2_ge [of num_prefills] by (simp add: filter_less_upt min_def)
  then have "compute_prefill_metadata seq_lens query_start_loc num_prefills num_decodes window_size buf
      = launch [0..<num_prefills] (cell_writes ?f) buf"
    by (simp add: compute_prefill_metadata_def Let_def launch_def cells_concat)
  also have "\<dots> = map ?f [0..<num_prefills]" using assms(6) by (simp add: launch_cells)
  also have "\<dots> = gather_lens_cpu window_size (drop num_decodes seq_lens) (drop num_decodes qs)"
  proof (rule nth_equalityI)
    show "length (map ?f [0..<num_prefills])
        = length (gather_lens_cpu window_size (drop num_decodes seq_lens) (drop num_decodes qs))"
      using assms by (simp add: gather_lens_cpu_def)
    fix i assume "i < length (map ?f [0..<num_prefills])"
    then have i: "i < num_prefills" by simp
    then have q: "cu qs ! Suc (num_decodes + i) = cu qs ! (num_decodes + i) + qs ! (num_decodes + i)"
      using assms(3) by (intro nth_cu_Suc) simp
    have safe: "gather_safe_offset num_prefills i = i" using i by (simp add: gather_safe_offset_def)
    have "?f i = int (qs ! (num_decodes + i))
        + min (int (seq_lens ! (num_decodes + i)) - int (qs ! (num_decodes + i))) (int window_size - 1)"
      using q by (simp add: gather_len_at_def Let_def safe assms(2))
    moreover have "qs ! (num_decodes + i) \<le> seq_lens ! (num_decodes + i)" using assms(5) i by blast
    ultimately show "map ?f [0..<num_prefills] ! i
        = gather_lens_cpu window_size (drop num_decodes seq_lens) (drop num_decodes qs) ! i"
      using i assms(1,3) by (simp add: gather_lens_cpu_def clamp_def max_def)
  qed
  finally have eq: "compute_prefill_metadata seq_lens query_start_loc num_prefills num_decodes window_size buf
      = gather_lens_cpu window_size (drop num_decodes seq_lens) (drop num_decodes qs)" .
  have "gather_safe_offset num_prefills off < num_prefills" for off
    using assms(4) unfolding gather_safe_offset_def by linarith
  then show ?thesis using eq assms(1-3) by auto
qed

theorem gather_lens_match_plan_witness:
  "compute_prefill_metadata [9, 20, 6] (cu [1, 4, 2]) 2 1 8 [0, 0] = [11, 6]"
proof -
  have "\<forall>i < 2. [1, 4, 2] ! (1 + i) \<le> ([9, 20, 6] ! (1 + i) :: nat)" by (simp add: less_Suc_eq numeral_2_eq_2)
  then show ?thesis
    using gather_lens_match_plan [of "[9, 20, 6]" 1 2 "cu [1, 4, 2]" "[1, 4, 2]" "[0, 0]" 8]
    by (simp add: gather_lens_cpu_def clamp_def)
qed

end
