(* ===== verification/SwaKernels.thy ===== *)
theory SwaKernels
  imports SwaPlan
begin

text \<open>
  The Triton kernels of \<^verbatim>\<open>src/docker/overlay-sm121-adaptive/sparse_swa.py\<close> that compute, for
  every token, which cache slots its sliding window covers: the causal kernel with the in-image
  widening of the vision model (\<^verbatim>\<open>_compute_swa_indices_and_lens_kernel\<close>), the visibility kernel
  that feeds it (\<^verbatim>\<open>_compute_image_visibility_kernel\<close>), and the non-causal kernel of the DSpark
  draft block (\<^verbatim>\<open>_compute_dspark_noncausal_swa_indices_kernel\<close>).
\<close>

section \<open>Arguments shared by the kernels\<close>

record swa_args =
  sa_window_size :: nat
  sa_index_width :: nat
  sa_left_visible :: "int list"
  sa_right_visible :: "int list"
  sa_query_start_loc :: "nat list"
  sa_seq_lens :: "nat list"
  sa_token_to_req_indices :: "nat list"
  sa_is_valid_token :: "bool list"
  sa_block_table :: tensor2
  sa_block_size :: nat
  sa_token_offset :: nat
  sa_HAS_IMAGE :: bool
  sa_TRITON_BLOCK_SIZE :: nat

definition sa_req :: "swa_args \<Rightarrow> nat \<Rightarrow> nat" where
  "sa_req a token_idx = sa_token_to_req_indices a ! token_idx"

definition sa_query_len :: "swa_args \<Rightarrow> nat \<Rightarrow> int" where
  "sa_query_len a token_idx =
     int (sa_query_start_loc a ! (sa_req a token_idx + 1)) - int (sa_query_start_loc a ! sa_req a token_idx)"

definition sa_prefix_len :: "swa_args \<Rightarrow> nat \<Rightarrow> int" where
  "sa_prefix_len a token_idx = int (sa_seq_lens a ! sa_req a token_idx) - sa_query_len a token_idx"

text \<open>The position of a token in its sequence.\<close>

definition sa_pos :: "swa_args \<Rightarrow> nat \<Rightarrow> int" where
  "sa_pos a token_idx =
     sa_prefix_len a token_idx + int token_idx - int (sa_query_start_loc a ! sa_req a token_idx)"

text \<open>
  The store loop both index kernels share: entry \<open>off\<close> of a row is the cache slot of position
  \<open>start_pos + off\<close>, or \<open>-1\<close> from the length on.  The load of the block number is masked by the
  same bound, so its value is not used past the end.
\<close>

definition paged_slot :: "swa_args \<Rightarrow> nat \<Rightarrow> int \<Rightarrow> int" where
  "paged_slot a req_idx pos =
     t_data (sa_block_table a) ! (req_idx * t_stride (sa_block_table a) + nat (tl_div pos (int (sa_block_size a))))
       * int (sa_block_size a) + pos mod int (sa_block_size a)"

definition window_entry :: "swa_args \<Rightarrow> nat \<Rightarrow> int \<Rightarrow> int \<Rightarrow> nat \<Rightarrow> int" where
  "window_entry a req_idx start_pos swa_len off =
     (if int off < swa_len then paged_slot a req_idx (start_pos + int off) else - 1)"

section \<open>The causal kernel\<close>

definition swa_left :: "swa_args \<Rightarrow> nat \<Rightarrow> int" where
  "swa_left a token_idx = (if sa_HAS_IMAGE a then sa_left_visible a ! token_idx else 0)"

definition swa_right :: "swa_args \<Rightarrow> nat \<Rightarrow> int" where
  "swa_right a token_idx = (if sa_HAS_IMAGE a then sa_right_visible a ! token_idx else 0)"

definition swa_start_pos :: "swa_args \<Rightarrow> nat \<Rightarrow> int" where
  "swa_start_pos a token_idx =
     (let left_add = max (swa_left a token_idx - (int (sa_window_size a) - 1)) 0
      in max (sa_pos a token_idx - (int (sa_window_size a) - 1) - left_add) 0)"

definition swa_end_pos :: "swa_args \<Rightarrow> nat \<Rightarrow> int" where
  "swa_end_pos a token_idx = sa_pos a token_idx + swa_right a token_idx + 1"

definition swa_len_of :: "swa_args \<Rightarrow> nat \<Rightarrow> int" where
  "swa_len_of a pid =
     (let token_idx = pid + sa_token_offset a
      in if \<not> sa_is_valid_token a ! token_idx then 0
         else swa_end_pos a token_idx - swa_start_pos a token_idx)"

definition swa_entry :: "swa_args \<Rightarrow> nat \<Rightarrow> nat \<Rightarrow> int" where
  "swa_entry a pid off =
     (let token_idx = pid + sa_token_offset a
      in if \<not> sa_is_valid_token a ! token_idx then - 1
         else window_entry a (sa_req a token_idx) (swa_start_pos a token_idx) (swa_len_of a pid) off)"

definition swa_indices_program :: "swa_args \<Rightarrow> nat \<Rightarrow> nat \<Rightarrow> int writes" where
  "swa_indices_program a swa_indices_stride =
     row_writes swa_indices_stride (sa_TRITON_BLOCK_SIZE a) (sa_index_width a) (swa_entry a)"

definition swa_lens_program :: "swa_args \<Rightarrow> nat \<Rightarrow> int writes" where
  "swa_lens_program a = cell_writes (swa_len_of a)"

text \<open>A launch over \<open>n\<close> tokens on an index buffer and a length buffer.\<close>

definition compute_swa_indices_and_lens :: "swa_args \<Rightarrow> nat \<Rightarrow> tensor2 \<Rightarrow> int list \<Rightarrow> tensor2 \<times> int list" where
  "compute_swa_indices_and_lens a n swa_indices swa_lens =
     (swa_indices\<lparr>t_data := launch [0..<n] (swa_indices_program a (t_stride swa_indices)) (t_data swa_indices)\<rparr>,
      launch [0..<n] (swa_lens_program a) swa_lens)"

section \<open>The DSpark kernel\<close>

definition dspark_start_pos :: "swa_args \<Rightarrow> nat \<Rightarrow> int" where
  "dspark_start_pos a token_idx = max (sa_prefix_len a token_idx - int (sa_window_size a)) 0"

definition dspark_len_of :: "swa_args \<Rightarrow> nat \<Rightarrow> int" where
  "dspark_len_of a pid =
     (let token_idx = pid + sa_token_offset a
      in if \<not> sa_is_valid_token a ! token_idx then 0
         else int (sa_seq_lens a ! sa_req a token_idx) - dspark_start_pos a token_idx)"

definition dspark_entry :: "swa_args \<Rightarrow> nat \<Rightarrow> nat \<Rightarrow> int" where
  "dspark_entry a pid off =
     (let token_idx = pid + sa_token_offset a
      in if \<not> sa_is_valid_token a ! token_idx then - 1
         else window_entry a (sa_req a token_idx) (dspark_start_pos a token_idx) (dspark_len_of a pid) off)"

definition compute_dspark_noncausal_swa_indices ::
  "swa_args \<Rightarrow> nat \<Rightarrow> tensor2 \<Rightarrow> int list \<Rightarrow> tensor2 \<times> int list" where
  "compute_dspark_noncausal_swa_indices a n swa_indices swa_lens =
     (swa_indices\<lparr>t_data := launch [0..<n]
        (row_writes (t_stride swa_indices) (sa_TRITON_BLOCK_SIZE a) (sa_index_width a) (dspark_entry a))
        (t_data swa_indices)\<rparr>,
      launch [0..<n] (cell_writes (dspark_len_of a)) swa_lens)"

section \<open>The visibility kernel\<close>

record visibility_args =
  va_span_indptr :: "nat list"
  va_span_starts :: "nat list"
  va_span_ends :: "nat list"
  va_query_start_loc :: "nat list"
  va_seq_lens :: "nat list"
  va_token_to_req_indices :: "nat list"
  va_max_image_tokens :: nat
  va_token_offset :: nat

definition va_pos :: "visibility_args \<Rightarrow> nat \<Rightarrow> int" where
  "va_pos a token_idx =
     (let req_idx = va_token_to_req_indices a ! token_idx;
          query_start = int (va_query_start_loc a ! req_idx);
          query_end = int (va_query_start_loc a ! (req_idx + 1));
          seq_len = int (va_seq_lens a ! req_idx)
      in seq_len - (query_end - query_start) + int token_idx - query_start)"

text \<open>One iteration of the loop over the spans of a request.\<close>

definition visible_step :: "visibility_args \<Rightarrow> int \<Rightarrow> nat \<Rightarrow> int \<times> int \<Rightarrow> int \<times> int" where
  "visible_step a pos i lr =
     (let span_start = int (va_span_starts a ! i); span_end = int (va_span_ends a ! i);
          in_span = (pos \<ge> span_start \<and> pos \<le> span_end)
      in (if in_span then min (pos - span_start) (int (va_max_image_tokens a) - 1) else fst lr,
          if in_span then min (span_end - pos) (int (va_max_image_tokens a)) else snd lr))"

definition visible_of :: "visibility_args \<Rightarrow> nat \<Rightarrow> int \<times> int" where
  "visible_of a token_idx =
     (let req_idx = va_token_to_req_indices a ! token_idx
      in fold (visible_step a (va_pos a token_idx))
           [va_span_indptr a ! req_idx..<va_span_indptr a ! (req_idx + 1)] (0, 0))"

definition compute_image_visibility ::
  "visibility_args \<Rightarrow> nat \<Rightarrow> int list \<Rightarrow> int list \<Rightarrow> int list \<times> int list" where
  "compute_image_visibility a n left_visible right_visible =
     (launch [0..<n] (\<lambda>pid. [(pid + va_token_offset a, fst (visible_of a (pid + va_token_offset a)))]) left_visible,
      launch [0..<n] (\<lambda>pid. [(pid + va_token_offset a, snd (visible_of a (pid + va_token_offset a)))]) right_visible)"

section \<open>Rows of the index buffers\<close>

interpretation swa_rows: row_kernel "swa_entry a" "w + k" "Suc b" w for a w k b
  by unfold_locales simp_all

interpretation dspark_rows: row_kernel "dspark_entry a" "w + k" "Suc b" w for a w k b
  by unfold_locales simp_all

text \<open>An index buffer with room for \<open>n\<close> rows of the kernel's width.\<close>

definition index_buffer_ok :: "swa_args \<Rightarrow> nat \<Rightarrow> tensor2 \<Rightarrow> int list \<Rightarrow> bool" where
  "index_buffer_ok a n t lens \<longleftrightarrow> wf_tensor2 t \<and> n \<le> t_rows t \<and> t_cols t = sa_index_width a \<and>
     n \<le> length lens \<and> 0 < sa_TRITON_BLOCK_SIZE a"

lemma index_buffer_address:
  assumes "index_buffer_ok a n t lens" "pid < n" "off < sa_index_width a"
  shows "pid * t_stride t + off < length (t_data t)"
  using assms by (intro row_address_bound) (auto simp: index_buffer_ok_def)

lemma index_buffer_stride:
  assumes "index_buffer_ok a n t lens"
  obtains k b where "t_stride t = sa_index_width a + k" "sa_TRITON_BLOCK_SIZE a = Suc b"
  using assms by (metis index_buffer_ok_def wf_tensor2_def le_iff_add gr0_conv_Suc)

lemma swa_row:
  assumes ok: "index_buffer_ok a n t lens" and pid: "pid < n"
    and res: "compute_swa_indices_and_lens a n t lens = (t', lens')"
  shows "row t' pid = map (swa_entry a pid) [0..<sa_index_width a] \<and> lens' ! pid = swa_len_of a pid"
proof -
  obtain k b where kb: "t_stride t = sa_index_width a + k" "sa_TRITON_BLOCK_SIZE a = Suc b"
    using index_buffer_stride [OF ok] by metis
  have cols: "t_cols t' = sa_index_width a" "t_stride t' = t_stride t"
    and data: "t_data t' = launch [0..<n] (swa_indices_program a (t_stride t)) (t_data t)"
    and lens: "lens' = launch [0..<n] (cell_writes (swa_len_of a)) lens"
    using res ok by (auto simp: compute_swa_indices_and_lens_def index_buffer_ok_def swa_lens_program_def)
  have "row t' pid = map (swa_entry a pid) [0..<sa_index_width a]"
  proof (rule nth_equalityI)
    fix off assume "off < length (row t' pid)"
    then have off: "off < sa_index_width a" using cols by simp
    have "launch [0..<n] (row_writes (sa_index_width a + k) (Suc b) (sa_index_width a) (swa_entry a)) (t_data t)
        ! (pid * (sa_index_width a + k) + off) = swa_entry a pid off"
      using index_buffer_address [OF ok pid off] pid off kb(1) by (intro swa_rows.row_written) auto
    then show "row t' pid ! off = map (swa_entry a pid) [0..<sa_index_width a] ! off"
      using off cols by (simp add: nth_row data swa_indices_program_def kb)
  qed (simp add: cols)
  moreover have "lens' ! pid = swa_len_of a pid"
    using ok pid by (simp add: lens launch_cells index_buffer_ok_def nth_append)
  ultimately show ?thesis ..
qed

lemma dspark_row:
  assumes ok: "index_buffer_ok a n t lens" and pid: "pid < n"
    and res: "compute_dspark_noncausal_swa_indices a n t lens = (t', lens')"
  shows "row t' pid = map (dspark_entry a pid) [0..<sa_index_width a] \<and> lens' ! pid = dspark_len_of a pid"
proof -
  obtain k b where kb: "t_stride t = sa_index_width a + k" "sa_TRITON_BLOCK_SIZE a = Suc b"
    using index_buffer_stride [OF ok] by metis
  have cols: "t_cols t' = sa_index_width a" "t_stride t' = t_stride t"
    and data: "t_data t' = launch [0..<n] (row_writes (t_stride t) (sa_TRITON_BLOCK_SIZE a) (sa_index_width a)
        (dspark_entry a)) (t_data t)"
    and lens: "lens' = launch [0..<n] (cell_writes (dspark_len_of a)) lens"
    using res ok by (auto simp: compute_dspark_noncausal_swa_indices_def index_buffer_ok_def)
  have "row t' pid = map (dspark_entry a pid) [0..<sa_index_width a]"
  proof (rule nth_equalityI)
    fix off assume "off < length (row t' pid)"
    then have off: "off < sa_index_width a" using cols by simp
    have "launch [0..<n] (row_writes (sa_index_width a + k) (Suc b) (sa_index_width a) (dspark_entry a)) (t_data t)
        ! (pid * (sa_index_width a + k) + off) = dspark_entry a pid off"
      using index_buffer_address [OF ok pid off] pid off kb(1) by (intro dspark_rows.row_written) auto
    then show "row t' pid ! off = map (dspark_entry a pid) [0..<sa_index_width a] ! off"
      using off cols by (simp add: nth_row data kb)
  qed (simp add: cols)
  moreover have "lens' ! pid = dspark_len_of a pid"
    using ok pid by (simp add: lens launch_cells index_buffer_ok_def nth_append)
  ultimately show ?thesis ..
qed

text \<open>A window of positions, listed by slots and padded with \<open>-1\<close>.\<close>

definition window_slots :: "swa_args \<Rightarrow> nat \<Rightarrow> int \<Rightarrow> nat \<Rightarrow> int list" where
  "window_slots a req start len =
     map (\<lambda>i. paged_slot a req (start + int i)) [0..<len] @ replicate (sa_index_width a - len) (- 1)"

lemma window_entries:
  assumes "swa_len = int len" "len \<le> sa_index_width a"
  shows "map (window_entry a req start swa_len) [0..<sa_index_width a] = window_slots a req start len"
  using assms by (intro nth_equalityI) (auto simp: window_slots_def window_entry_def nth_append)

lemma map_const_upt: "map (\<lambda>_. c) [0..<n] = replicate n c"
  by (simp add: map_replicate_const)

text \<open>
  C17. The causal sliding window.  Row \<open>pid\<close> of a text-only launch lists the cache slots of the
  last \<open>window_size\<close> positions up to and including the token's own (fewer at the start of the
  sequence), in order, padded with \<open>-1\<close>, and its length is their number; a padding token gets a row
  of \<open>-1\<close> and length zero, whatever the buffer held.
\<close>

theorem causal_window_rows:
  assumes ok: "index_buffer_ok a n t lens" and pid: "pid < n"
    and causal: "\<not> sa_HAS_IMAGE a" "sa_index_width a = sa_window_size a" "0 < sa_window_size a"
    and pos: "sa_pos a (pid + sa_token_offset a) = int p"
    and res: "compute_swa_indices_and_lens a n t lens = (t', lens')"
  shows "if sa_is_valid_token a ! (pid + sa_token_offset a)
    then lens' ! pid = int (min (p + 1) (sa_window_size a))
      \<and> row t' pid = window_slots a (sa_req a (pid + sa_token_offset a))
          (int p + 1 - int (min (p + 1) (sa_window_size a))) (min (p + 1) (sa_window_size a))
    else lens' ! pid = 0 \<and> row t' pid = replicate (sa_window_size a) (- 1)"
proof -
  let ?tok = "pid + sa_token_offset a" and ?len = "min (p + 1) (sa_window_size a)"
  note r = swa_row [OF ok pid res]
  show ?thesis
  proof (cases "sa_is_valid_token a ! ?tok")
    case True
    have st: "swa_start_pos a ?tok = int p + 1 - int ?len"
      using causal pos by (auto simp: swa_start_pos_def swa_left_def Let_def)
    have len: "swa_len_of a pid = int ?len"
      using True causal pos st by (simp add: swa_len_of_def swa_end_pos_def swa_right_def Let_def)
    have "map (swa_entry a pid) [0..<sa_index_width a]
        = map (window_entry a (sa_req a ?tok) (swa_start_pos a ?tok) (swa_len_of a pid)) [0..<sa_index_width a]"
      using True by (simp add: swa_entry_def Let_def)
    also have "\<dots> = window_slots a (sa_req a ?tok) (int p + 1 - int ?len) ?len"
      unfolding st len by (rule window_entries) (simp_all add: causal(2))
    finally show ?thesis using True r len by simp
  next
    case False
    then have "swa_entry a pid = (\<lambda>_. - 1)" by (auto simp: swa_entry_def Let_def fun_eq_iff)
    then show ?thesis using False r causal(2) by (simp add: swa_len_of_def Let_def map_const_upt)
  qed
qed

text \<open>
  C35. The DSpark draft block.  Every valid token of a draft block gets the same row: the slots of
  the last \<open>window_size\<close> context positions before the block followed by the whole block, the
  tokens after it included; the length is their number and fits the row when the index width
  leaves room for the window and the block, as \<^verbatim>\<open>get_dspark_swa_index_width\<close> promises.
\<close>

theorem dspark_block_rows:
  assumes ok: "index_buffer_ok a n t lens" and pid: "pid < n"
    and valid: "sa_is_valid_token a ! (pid + sa_token_offset a)"
    and lens: "sa_query_len a (pid + sa_token_offset a) = int q" "sa_prefix_len a (pid + sa_token_offset a) = int c"
    and width: "sa_window_size a + q \<le> sa_index_width a"
    and res: "compute_dspark_noncausal_swa_indices a n t lens = (t', lens')"
  shows "lens' ! pid = int (min c (sa_window_size a) + q)
    \<and> row t' pid = window_slots a (sa_req a (pid + sa_token_offset a))
        (int (c - min c (sa_window_size a))) (min c (sa_window_size a) + q)"
proof -
  let ?tok = "pid + sa_token_offset a" and ?len = "min c (sa_window_size a) + q"
  note r = dspark_row [OF ok pid res]
  have seq: "int (sa_seq_lens a ! sa_req a ?tok) = int c + int q"
    using lens by (simp add: sa_prefix_len_def)
  have st: "dspark_start_pos a ?tok = int (c - min c (sa_window_size a))"
    using lens by (auto simp: dspark_start_pos_def)
  have len: "dspark_len_of a pid = int ?len"
    using valid seq st by (simp add: dspark_len_of_def Let_def)
  have "map (dspark_entry a pid) [0..<sa_index_width a]
      = map (window_entry a (sa_req a ?tok) (dspark_start_pos a ?tok) (dspark_len_of a pid)) [0..<sa_index_width a]"
    using valid by (simp add: dspark_entry_def Let_def)
  also have "\<dots> = window_slots a (sa_req a ?tok) (int (c - min c (sa_window_size a))) ?len"
    unfolding st len by (rule window_entries) (use width in auto)
  finally show ?thesis using r len by simp
qed

section \<open>Image spans\<close>

lemma visible_step_other:
  "\<not> (pos \<ge> int (va_span_starts a ! i) \<and> pos \<le> int (va_span_ends a ! i)) \<Longrightarrow> visible_step a pos i lr = lr"
  by (cases lr) (auto simp: visible_step_def Let_def)

lemma visible_fold_other:
  "(\<forall>i \<in> set is. \<not> (pos \<ge> int (va_span_starts a ! i) \<and> pos \<le> int (va_span_ends a ! i))) \<Longrightarrow>
   fold (visible_step a pos) is lr = lr"
  by (induction "is" arbitrary: lr) (auto simp: visible_step_other)

lemma visible_fold_span:
  assumes "i \<in> set is"
    and "\<forall>j \<in> set is. (pos \<ge> int (va_span_starts a ! j) \<and> pos \<le> int (va_span_ends a ! j)) \<longrightarrow> j = i"
    and "pos \<ge> int (va_span_starts a ! i)" "pos \<le> int (va_span_ends a ! i)"
  shows "fold (visible_step a pos) is lr
    = (min (pos - int (va_span_starts a ! i)) (int (va_max_image_tokens a) - 1),
       min (int (va_span_ends a ! i) - pos) (int (va_max_image_tokens a)))"
  using assms(1,2)
proof (induction "is" arbitrary: lr)
  case (Cons j js)
  show ?case
  proof (cases "i \<in> set js")
    case True
    have "\<forall>j \<in> set js. (pos \<ge> int (va_span_starts a ! j) \<and> pos \<le> int (va_span_ends a ! j)) \<longrightarrow> j = i"
      using Cons.prems(2) by (meson list.set_intros(2))
    from Cons.IH [OF True this] show ?thesis by (simp only: fold_simps)
  next
    case False
    with Cons.prems(1) have "j = i" by simp
    moreover have "\<forall>k \<in> set js. \<not> (pos \<ge> int (va_span_starts a ! k) \<and> pos \<le> int (va_span_ends a ! k))"
      using Cons.prems(2) False by (metis list.set_intros(2))
    moreover have "visible_step a pos i lr = (min (pos - int (va_span_starts a ! i)) (int (va_max_image_tokens a) - 1),
       min (int (va_span_ends a ! i) - pos) (int (va_max_image_tokens a)))"
      using assms(3,4) by (simp add: visible_step_def Let_def)
    ultimately show ?thesis by (simp only: fold_simps visible_fold_other)
  qed
qed simp

text \<open>
  The window of a token inside an image span, when the span has at most \<open>M\<close> tokens: it starts at
  the earlier of the causal window and the span, ends with the span, and fits a row of
  \<open>window_size + M\<close> entries.
\<close>

lemma image_window:
  assumes pos: "sa_pos a tok = int p" and win: "0 < sa_window_size a" and img: "sa_HAS_IMAGE a"
    and span: "s \<le> p" "p \<le> e" "e - s < M"
    and vis: "sa_left_visible a ! tok = int (p - s)" "sa_right_visible a ! tok = int (e - p)"
  shows "swa_start_pos a tok = int (min (p + 1 - min (p + 1) (sa_window_size a)) s)"
    and "swa_end_pos a tok = int (e + 1)"
    and "swa_end_pos a tok - swa_start_pos a tok \<le> int (sa_window_size a + M)"
proof -
  show st: "swa_start_pos a tok = int (min (p + 1 - min (p + 1) (sa_window_size a)) s)"
    using pos win img span vis by (auto simp: swa_start_pos_def swa_left_def Let_def)
  show en: "swa_end_pos a tok = int (e + 1)"
    using pos img span vis by (simp add: swa_end_pos_def swa_right_def)
  show "swa_end_pos a tok - swa_start_pos a tok \<le> int (sa_window_size a + M)"
    unfolding st en using span win by (auto simp: min_def)
qed

text \<open>
  C36. In-image attention.  For a prefill token at position \<open>p\<close> inside one image span from \<open>s\<close> to
  \<open>e\<close> of at most \<open>vision_max_n_token\<close> tokens, the visibility kernel followed by the index kernel
  gives a row that lists exactly the positions from the start of the causal window or of the
  image, whichever is earlier, up to the end of the image: every token of the image sees the whole
  image, tokens after it included.  The row never overflows its width.
\<close>

theorem image_span_rows:
  assumes ok: "index_buffer_ok a n t lens" and pid: "pid < n"
    and img: "sa_HAS_IMAGE a" "sa_index_width a = sa_window_size a + va_max_image_tokens va" "0 < sa_window_size a"
    and valid: "sa_is_valid_token a ! (pid + sa_token_offset a)"
    and pos: "sa_pos a (pid + sa_token_offset a) = int p" "va_pos va (pid + sa_token_offset a) = int p"
    and vis: "sa_left_visible a ! (pid + sa_token_offset a) = fst (visible_of va (pid + sa_token_offset a))"
      "sa_right_visible a ! (pid + sa_token_offset a) = snd (visible_of va (pid + sa_token_offset a))"
    and i: "va_span_indptr va ! (va_token_to_req_indices va ! (pid + sa_token_offset a)) \<le> i"
      "i < va_span_indptr va ! (va_token_to_req_indices va ! (pid + sa_token_offset a) + 1)"
    and span: "va_span_starts va ! i = s" "va_span_ends va ! i = e" "s \<le> p" "p \<le> e" "e - s < va_max_image_tokens va"
    and only: "\<forall>j. va_span_indptr va ! (va_token_to_req_indices va ! (pid + sa_token_offset a)) \<le> j
      \<and> j < va_span_indptr va ! (va_token_to_req_indices va ! (pid + sa_token_offset a) + 1)
      \<and> va_span_starts va ! j \<le> p \<and> p \<le> va_span_ends va ! j \<longrightarrow> j = i"
    and res: "compute_swa_indices_and_lens a n t lens = (t', lens')"
  shows "let start = min (p + 1 - min (p + 1) (sa_window_size a)) s
    in lens' ! pid = int (e + 1 - start) \<and> e + 1 - start \<le> sa_index_width a
      \<and> row t' pid = window_slots a (sa_req a (pid + sa_token_offset a)) (int start) (e + 1 - start)"
proof -
  let ?tok = "pid + sa_token_offset a"
  let ?start = "min (p + 1 - min (p + 1) (sa_window_size a)) s" and ?M = "va_max_image_tokens va"
  have "visible_of va ?tok = (min (int p - int (va_span_starts va ! i)) (int ?M - 1),
      min (int (va_span_ends va ! i) - int p) (int ?M))"
    unfolding visible_of_def Let_def pos(2)
  proof (rule visible_fold_span)
    let ?is = "[va_span_indptr va ! (va_token_to_req_indices va ! ?tok)
      ..<va_span_indptr va ! (va_token_to_req_indices va ! ?tok + 1)]"
    show "i \<in> set ?is" using i by simp
    show "\<forall>j \<in> set ?is. (int p \<ge> int (va_span_starts va ! j) \<and> int p \<le> int (va_span_ends va ! j)) \<longrightarrow> j = i"
      using only by (metis atLeastLessThan_iff atLeastLessThan_upt of_nat_le_iff)
  qed (use span in auto)
  then have v: "visible_of va ?tok = (min (int p - int s) (int ?M - 1), min (int e - int p) (int ?M))"
    unfolding span(1,2) .
  have lr: "sa_left_visible a ! ?tok = int (p - s)" "sa_right_visible a ! ?tok = int (e - p)"
    using vis v span(3-5) by auto
  note w = image_window [OF pos(1) img(3,1) span(3,4,5) lr]
  have le: "?start \<le> e + 1" using span(3,4) by (auto simp: min_def)
  have len: "swa_len_of a pid = int (e + 1 - ?start)"
    using valid w(1,2) le by (simp add: swa_len_of_def Let_def)
  have fit: "e + 1 - ?start \<le> sa_index_width a"
    using w(3) len valid img(2) by (simp add: swa_len_of_def Let_def)
  have "map (swa_entry a pid) [0..<sa_index_width a]
      = map (window_entry a (sa_req a ?tok) (int ?start) (swa_len_of a pid)) [0..<sa_index_width a]"
    using valid w(1) by (simp add: swa_entry_def Let_def)
  also have "\<dots> = window_slots a (sa_req a ?tok) (int ?start) (e + 1 - ?start)"
    unfolding len by (rule window_entries [OF refl fit])
  finally show ?thesis using swa_row [OF ok pid res] len fit by (simp add: Let_def)
qed

section \<open>Witnesses\<close>

text \<open>One request of nine tokens of which the last four are queried, window four, blocks of four.\<close>

definition swa_demo_args :: swa_args where
  "swa_demo_args = \<lparr>sa_window_size = 4, sa_index_width = 4, sa_left_visible = [], sa_right_visible = [],
     sa_query_start_loc = [0, 4], sa_seq_lens = [9], sa_token_to_req_indices = [0, 0, 0, 0],
     sa_is_valid_token = [True, True, True, False],
     sa_block_table = \<lparr>t_data = [7, 2, 5], t_stride = 3, t_rows = 1, t_cols = 3\<rparr>,
     sa_block_size = 4, sa_token_offset = 0, sa_HAS_IMAGE = False, sa_TRITON_BLOCK_SIZE = 8\<rparr>"

definition swa_demo_buffer :: "nat \<Rightarrow> tensor2" where
  "swa_demo_buffer w = \<lparr>t_data = replicate (4 * w) 99, t_stride = w, t_rows = 4, t_cols = w\<rparr>"

lemma swa_demo_buffer_ok:
  "sa_TRITON_BLOCK_SIZE a = 8 \<Longrightarrow> sa_index_width a = w \<Longrightarrow> index_buffer_ok a 4 (swa_demo_buffer w) [9, 9, 9, 9]"
  by (simp add: index_buffer_ok_def swa_demo_buffer_def wf_tensor2_def)

theorem causal_window_rows_witness:
  "let (t', lens') = compute_swa_indices_and_lens swa_demo_args 4 (swa_demo_buffer 4) [9, 9, 9, 9]
   in lens' ! 2 = 4 \<and> row t' 2 = [8, 9, 10, 11]"
proof -
  obtain t' lens' where r: "compute_swa_indices_and_lens swa_demo_args 4 (swa_demo_buffer 4) [9, 9, 9, 9] = (t', lens')"
    by fastforce
  have f: "sa_TRITON_BLOCK_SIZE swa_demo_args = 8" "sa_index_width swa_demo_args = 4"
    "sa_pos swa_demo_args (2 + sa_token_offset swa_demo_args) = int 7"
    by (simp_all add: swa_demo_args_def sa_pos_def sa_prefix_len_def sa_query_len_def sa_req_def)
  have w: "window_slots swa_demo_args 0 4 4 = [8, 9, 10, 11]" by code_simp
  from causal_window_rows [OF swa_demo_buffer_ok [OF f(1,2)] _ _ _ _ f(3) r] w show ?thesis
    using r by (simp add: swa_demo_args_def sa_req_def)
qed

definition dspark_demo_args :: swa_args where
  "dspark_demo_args = swa_demo_args\<lparr>sa_window_size := 3, sa_index_width := 8\<rparr>"

theorem dspark_block_rows_witness:
  "let (t', lens') = compute_dspark_noncausal_swa_indices dspark_demo_args 4 (swa_demo_buffer 8) [9, 9, 9, 9]
   in lens' ! 0 = 7 \<and> row t' 0 = [30, 31, 8, 9, 10, 11, 20, - 1]"
proof -
  obtain t' lens' where r: "compute_dspark_noncausal_swa_indices dspark_demo_args 4 (swa_demo_buffer 8) [9, 9, 9, 9]
      = (t', lens')" by fastforce
  have f: "sa_TRITON_BLOCK_SIZE dspark_demo_args = 8" "sa_index_width dspark_demo_args = 8"
    "sa_query_len dspark_demo_args (0 + sa_token_offset dspark_demo_args) = int 4"
    "sa_prefix_len dspark_demo_args (0 + sa_token_offset dspark_demo_args) = int 5"
    by (simp_all add: dspark_demo_args_def swa_demo_args_def sa_prefix_len_def sa_query_len_def sa_req_def)
  have w: "window_slots dspark_demo_args 0 2 7 = [30, 31, 8, 9, 10, 11, 20, - 1]" by code_simp
  from dspark_block_rows [OF swa_demo_buffer_ok [OF f(1,2)] _ _ f(3,4) _ r] w show ?thesis
    using r by (simp add: dspark_demo_args_def swa_demo_args_def sa_req_def)
qed

text \<open>The image spans positions 6 to 8; the token at position 7 sees all of it.\<close>

definition image_demo_visibility :: visibility_args where
  "image_demo_visibility = \<lparr>va_span_indptr = [0, 1], va_span_starts = [6], va_span_ends = [8],
     va_query_start_loc = [0, 4], va_seq_lens = [9], va_token_to_req_indices = [0, 0, 0, 0],
     va_max_image_tokens = 4, va_token_offset = 0\<rparr>"

definition image_demo_args :: swa_args where
  "image_demo_args = swa_demo_args\<lparr>sa_window_size := 2, sa_index_width := 6, sa_HAS_IMAGE := True,
     sa_left_visible := fst (compute_image_visibility image_demo_visibility 4 [0, 0, 0, 0] [0, 0, 0, 0]),
     sa_right_visible := snd (compute_image_visibility image_demo_visibility 4 [0, 0, 0, 0] [0, 0, 0, 0])\<rparr>"

theorem image_span_rows_witness:
  "let (t', lens') = compute_swa_indices_and_lens image_demo_args 4 (swa_demo_buffer 6) [9, 9, 9, 9]
   in lens' ! 2 = 3 \<and> row t' 2 = [10, 11, 20, - 1, - 1, - 1]"
proof -
  obtain t' lens' where r: "compute_swa_indices_and_lens image_demo_args 4 (swa_demo_buffer 6) [9, 9, 9, 9] = (t', lens')"
    by fastforce
  have f: "sa_TRITON_BLOCK_SIZE image_demo_args = 8" "sa_index_width image_demo_args = 6"
    "sa_pos image_demo_args (2 + sa_token_offset image_demo_args) = int 7"
    "va_pos image_demo_visibility (2 + sa_token_offset image_demo_args) = int 7"
    "sa_HAS_IMAGE image_demo_args" "sa_token_offset image_demo_args = 0" "sa_window_size image_demo_args = 2"
    "sa_is_valid_token image_demo_args ! (2 + sa_token_offset image_demo_args)"
    "va_max_image_tokens image_demo_visibility = 4"
    by (simp_all add: image_demo_args_def swa_demo_args_def sa_pos_def sa_prefix_len_def sa_query_len_def sa_req_def
        image_demo_visibility_def va_pos_def Let_def)
  have v: "sa_left_visible image_demo_args ! (2 + sa_token_offset image_demo_args)
      = fst (visible_of image_demo_visibility (2 + sa_token_offset image_demo_args))"
    "sa_right_visible image_demo_args ! (2 + sa_token_offset image_demo_args)
      = snd (visible_of image_demo_visibility (2 + sa_token_offset image_demo_args))" by code_simp+
  have w: "window_slots image_demo_args 0 6 3 = [10, 11, 20, - 1, - 1, - 1]" by code_simp
  have sp: "va_span_indptr image_demo_visibility = [0, 1]" "va_token_to_req_indices image_demo_visibility ! 2 = 0"
    "va_span_starts image_demo_visibility ! 0 = 6" "va_span_ends image_demo_visibility ! 0 = 8"
    "sa_req image_demo_args 2 = 0"
    by (simp_all add: image_demo_visibility_def image_demo_args_def swa_demo_args_def sa_req_def)
  have "lens' ! 2 = int (8 + 1 - 6) \<and> row t' 2 = window_slots image_demo_args 0 (int 6) (8 + 1 - 6)"
    using image_span_rows [OF swa_demo_buffer_ok [OF f(1,2)] _ f(5) _ _ f(8) f(3,4) v _ _ sp(3,4) _ _ _ _ r] f sp
    by (simp add: Let_def)
  then show ?thesis using r w by simp
qed

end
