(* ===== verification/SwaBuild.thy ===== *)
theory SwaBuild
  imports SwaKernels
begin

text \<open>
  \<^verbatim>\<open>DeepseekSparseSWAMetadataBuilder\<close> of \<^verbatim>\<open>src/docker/overlay-sm121-adaptive/sparse_swa.py\<close>: the
  CUDA-graph gate, the builder's buffers, \<^verbatim>\<open>build\<close> with its decode, vision and prefill parts,
  the tile-scheduler plans, and \<^verbatim>\<open>update_draft_decode_metadata\<close>, which recomputes the decode rows
  in place between draft steps and empties the sparse index cache.
\<close>

section \<open>The builder\<close>

definition swa_cudagraph_support :: "platform \<Rightarrow> cg_support \<Rightarrow> cg_support" where
  "swa_cudagraph_support p cls_support =
     (case get_device_capability p of
        Some (major, minor) \<Rightarrow> if major = 12 then ALWAYS else cls_support
      | None \<Rightarrow> cls_support)"

record swa_builder =
  sb_head_size :: nat
  sb_compress_ratio :: nat
  sb_block_size :: nat
  sb_max_model_len :: nat
  sb_max_num_batched_tokens :: nat
  sb_num_speculative_tokens :: nat
  sb_decode_threshold :: nat
  sb_window_size :: nat
  sb_max_image_tokens :: nat
  sb_prefill_index_width :: nat
  sb_layer_types :: "layer_type list"
  sb_token_to_req_indices :: "nat list"
  sb_decode_swa_indices :: tensor2
  sb_decode_swa_lens :: "int list"
  sb_prefill_swa_indices :: tensor2
  sb_prefill_swa_lens :: "int list"
  sb_left_visible :: "int list"
  sb_right_visible :: "int list"
  sb_span_indptr :: "nat list"
  sb_span_starts :: "nat list"
  sb_span_ends :: "nat list"
  sb_is_valid_token :: "bool list"
  sb_is_dspark :: bool
  sb_noncausal_index_width :: nat
  sb_decode_swa_indices_noncausal :: "tensor2 option"
  sb_max_tokens :: nat

text \<open>The set of layer types of a model; a ratio that is none of 1, 4 and 128 raises.\<close>

fun layer_types_of :: "nat list \<Rightarrow> layer_type list result" where
  "layer_types_of [] = Inr []"
| "layer_types_of (r # rs) =
     bind_result (layer_type_for (int r)) (\<lambda>t.
     bind_result (layer_types_of rs) (\<lambda>ts. Inr (List.insert t ts)))"

definition zeros2 :: "nat \<Rightarrow> nat \<Rightarrow> tensor2" where
  "zeros2 rows width = \<lparr>t_data = replicate (rows * width) 0, t_stride = width, t_rows = rows, t_cols = width\<rparr>"

text \<open>
  \<^verbatim>\<open>__init__\<close>; \<open>dspark_width\<close> is \<^verbatim>\<open>get_dspark_swa_index_width\<close>, and \<open>head_size\<close>,
  \<open>tokens_per_state\<close> and \<open>block_size\<close> come from the cache specification.
\<close>

definition swa_init ::
  "vllm_config \<Rightarrow> (nat \<Rightarrow> nat \<Rightarrow> nat) \<Rightarrow> nat \<Rightarrow> nat \<Rightarrow> nat \<Rightarrow> swa_builder result" where
  "swa_init cfg dspark_width head_size tokens_per_state block_size =
     (let spec_config = cfg_speculative_config cfg;
          num_speculative_tokens = (case spec_config of Some sc \<Rightarrow> sv_num_speculative_tokens sc | None \<Rightarrow> 0);
          spec_mult = (case spec_config of Some sc \<Rightarrow> (if sv_parallel_drafting sc then 2 else 1) | None \<Rightarrow> 1);
          hf = cfg_hf_config cfg;
          window_size = hf_sliding_window hf;
          max_image_tokens = (if hf_vision_n_layers hf > 0 then hf_vision_max_n_token hf else 0);
          prefill_index_width = window_size + max_image_tokens;
          compress_ratios = (case hf_compress_ratios hf of
                               None \<Rightarrow> [1] | Some rs \<Rightarrow> if rs = [] then [1] else rs);
          max_tokens = cfg_max_num_batched_tokens cfg;
          is_dspark = (case spec_config of Some sc \<Rightarrow> sv_use_dspark sc | None \<Rightarrow> False);
          vision_buf = (if max_image_tokens > 0 then replicate max_tokens 0 else [])
      in bind_result (layer_types_of compress_ratios) (\<lambda>layer_types.
           Inr \<lparr>sb_head_size = head_size, sb_compress_ratio = tokens_per_state, sb_block_size = block_size,
                sb_max_model_len = cfg_max_model_len cfg, sb_max_num_batched_tokens = max_tokens,
                sb_num_speculative_tokens = num_speculative_tokens,
                sb_decode_threshold = 1 + spec_mult * num_speculative_tokens,
                sb_window_size = window_size, sb_max_image_tokens = max_image_tokens,
                sb_prefill_index_width = prefill_index_width, sb_layer_types = layer_types,
                sb_token_to_req_indices = replicate max_tokens 0,
                sb_decode_swa_indices = zeros2 max_tokens window_size,
                sb_decode_swa_lens = replicate max_tokens 0,
                sb_prefill_swa_indices = zeros2 max_tokens prefill_index_width,
                sb_prefill_swa_lens = replicate max_tokens 0,
                sb_left_visible = vision_buf, sb_right_visible = vision_buf,
                sb_span_indptr = (if max_image_tokens > 0 then replicate (cfg_max_num_seqs cfg + 1) 0 else []),
                sb_span_starts = (if max_image_tokens > 0 then replicate max_tokens 0 else []),
                sb_span_ends = (if max_image_tokens > 0 then replicate max_tokens 0 else []),
                sb_is_valid_token = replicate max_tokens False,
                sb_is_dspark = is_dspark,
                sb_noncausal_index_width =
                  (if is_dspark then dspark_width window_size num_speculative_tokens else 0),
                sb_decode_swa_indices_noncausal = None, sb_max_tokens = max_tokens\<rparr>))"

text \<open>
  \<open>sx_split\<close> is \<^verbatim>\<open>split_decodes_and_prefills\<close>, \<open>sx_token_to_req\<close> fills and returns a prefix
  of its buffer, \<open>sx_fresh_sched\<close> is the plan \<^verbatim>\<open>get_mla_metadata\<close> returns.
\<close>

record swa_ext =
  sx_split :: "common_meta \<Rightarrow> nat \<Rightarrow> batch_split"
  sx_token_to_req :: "common_meta \<Rightarrow> nat list \<Rightarrow> nat list \<times> nat list"
  sx_fresh_sched :: sched_meta
  sx_uninit :: "nat \<Rightarrow> int"

section \<open>Tile-scheduler plans\<close>

definition build_tile_scheduler ::
  "platform \<Rightarrow> swa_ext \<Rightarrow> swa_builder \<Rightarrow> nat \<Rightarrow> layer_type \<Rightarrow> sched_meta option" where
  "build_tile_scheduler p sx self num_decode_tokens =
     (if num_decode_tokens = 0 \<or> is_rocm p \<or> is_xpu p \<or> is_device_capability_family p 120
      then (\<lambda>_. None)
      else (\<lambda>t. if t \<in> set (sb_layer_types self) then Some (sx_fresh_sched sx) else None))"

section \<open>Image spans\<close>

text \<open>The loop that flattens the spans of all requests: (indptr, starts, ends).\<close>

fun flatten_spans ::
  "(nat \<times> (nat \<times> nat) list) list \<Rightarrow> nat list \<Rightarrow> nat list \<times> nat list \<times> nat list \<Rightarrow> nat list \<times> nat list \<times> nat list" where
  "flatten_spans mm_ranges [] acc = acc"
| "flatten_spans mm_ranges (req_idx # rest) (indptr, starts, ends) =
     (let spans = (case map_of mm_ranges req_idx of Some ss \<Rightarrow> ss | None \<Rightarrow> []);
          starts' = starts @ map fst spans; ends' = ends @ map snd spans
      in flatten_spans mm_ranges rest (indptr @ [length starts'], starts', ends'))"

definition build_image_visibility ::
  "swa_builder \<Rightarrow> nat \<Rightarrow> (nat \<times> (nat \<times> nat) list) list \<Rightarrow> nat \<Rightarrow> nat \<Rightarrow> nat list \<Rightarrow> nat list \<Rightarrow> nat list
   \<Rightarrow> (int list \<times> int list \<times> swa_builder) result" where
  "build_image_visibility self num_reqs mm_ranges num_decode_tokens num_prefill_tokens seq_lens query_start_loc
     token_to_req_indices =
     (case flatten_spans mm_ranges [0..<num_reqs] ([0], [], []) of (indptr, starts, ends) \<Rightarrow>
        let num_spans = length starts
        in raise_if (num_spans > length (sb_span_starts self)) (AssertionError ''num_spans <= span_starts.shape[0]'')
           (let self1 = self\<lparr>sb_span_indptr := set_slice 0 indptr (sb_span_indptr self),
                  sb_span_starts := (if num_spans > 0 then set_slice 0 starts (sb_span_starts self) else sb_span_starts self),
                  sb_span_ends := (if num_spans > 0 then set_slice 0 ends (sb_span_ends self) else sb_span_ends self)\<rparr>;
                va = \<lparr>va_span_indptr = sb_span_indptr self1, va_span_starts = sb_span_starts self1,
                      va_span_ends = sb_span_ends self1, va_query_start_loc = query_start_loc,
                      va_seq_lens = seq_lens, va_token_to_req_indices = token_to_req_indices,
                      va_max_image_tokens = sb_max_image_tokens self, va_token_offset = num_decode_tokens\<rparr>;
                (left, right) = compute_image_visibility va num_prefill_tokens
                    (sb_left_visible self1) (sb_right_visible self1);
                stop = num_decode_tokens + num_prefill_tokens
            in Inr (take stop left, take stop right, self1\<lparr>sb_left_visible := left, sb_right_visible := right\<rparr>)))"

section \<open>Decode rows\<close>

definition decode_swa_args :: "swa_builder \<Rightarrow> common_meta \<Rightarrow> nat list \<Rightarrow> bool list \<Rightarrow> nat \<Rightarrow> swa_args" where
  "decode_swa_args self cm token_to_req_indices is_valid_token index_width =
     \<lparr>sa_window_size = sb_window_size self, sa_index_width = index_width,
      sa_left_visible = [], sa_right_visible = [], sa_query_start_loc = cm_query_start_loc cm,
      sa_seq_lens = cm_seq_lens cm, sa_token_to_req_indices = token_to_req_indices,
      sa_is_valid_token = is_valid_token, sa_block_table = cm_block_table cm, sa_block_size = sb_block_size self,
      sa_token_offset = 0, sa_HAS_IMAGE = False, sa_TRITON_BLOCK_SIZE = 1024\<rparr>"

text \<open>The index buffer of this step and the builder with its rows and lengths recomputed.\<close>

definition build_decode_swa ::
  "swa_builder \<Rightarrow> common_meta \<Rightarrow> nat list \<Rightarrow> bool list \<Rightarrow> nat \<Rightarrow> (tensor2 \<times> swa_builder) result" where
  "build_decode_swa self cm token_to_req_indices is_valid_token num_decode_tokens =
     (if num_decode_tokens = 0 then Inr (sb_decode_swa_indices self, self)
      else
        let lens0 = take num_decode_tokens (sb_decode_swa_lens self)
                    @ replicate (length (sb_decode_swa_lens self) - num_decode_tokens) 0
        in if \<not> cm_causal cm then
             raise_if (\<not> sb_is_dspark self)
               (AssertionError ''Non-causal DeepseekV4 SWA is only supported for the DSpark speculation mode'')
             (let buf = (case sb_decode_swa_indices_noncausal self of
                           None \<Rightarrow> zeros2 (sb_max_tokens self) (sb_noncausal_index_width self) | Some b \<Rightarrow> b);
                  (ind, lens) = compute_dspark_noncausal_swa_indices
                     (decode_swa_args self cm token_to_req_indices is_valid_token (sb_noncausal_index_width self))
                     num_decode_tokens buf lens0
              in Inr (ind, self\<lparr>sb_decode_swa_indices_noncausal := Some ind, sb_decode_swa_lens := lens\<rparr>))
           else
             (let (ind, lens) = compute_swa_indices_and_lens
                     (decode_swa_args self cm token_to_req_indices is_valid_token (t_cols (sb_decode_swa_indices self)))
                     num_decode_tokens (sb_decode_swa_indices self) lens0
              in Inr (ind, self\<lparr>sb_decode_swa_indices := ind, sb_decode_swa_lens := lens\<rparr>)))"

section \<open>Prefill rows\<close>

definition prefill_swa_args ::
  "swa_builder \<Rightarrow> common_meta \<Rightarrow> nat list \<Rightarrow> bool list \<Rightarrow> nat \<Rightarrow> (int list \<times> int list) option \<Rightarrow> swa_args" where
  "prefill_swa_args self cm token_to_req_indices is_valid_token num_decode_tokens visible =
     \<lparr>sa_window_size = sb_window_size self, sa_index_width = sb_prefill_index_width self,
      sa_left_visible = (case visible of Some (l, r) \<Rightarrow> l | None \<Rightarrow> []),
      sa_right_visible = (case visible of Some (l, r) \<Rightarrow> r | None \<Rightarrow> []),
      sa_query_start_loc = cm_query_start_loc cm, sa_seq_lens = cm_seq_lens cm,
      sa_token_to_req_indices = token_to_req_indices, sa_is_valid_token = is_valid_token,
      sa_block_table = cm_block_table cm, sa_block_size = sb_block_size self,
      sa_token_offset = num_decode_tokens, sa_HAS_IMAGE = (visible \<noteq> None), sa_TRITON_BLOCK_SIZE = 1024\<rparr>"

definition has_image_spans :: "swa_builder \<Rightarrow> common_meta \<Rightarrow> nat \<Rightarrow> bool" where
  "has_image_spans self cm num_prefill_tokens =
     (sb_max_image_tokens self > 0 \<and> num_prefill_tokens > 0 \<and> cm_mm_req_doc_ranges cm \<noteq> [] \<and>
      list_ex (\<lambda>(_, spans). spans \<noteq> []) (cm_mm_req_doc_ranges cm))"

definition build_prefill_swa ::
  "swa_builder \<Rightarrow> common_meta \<Rightarrow> nat list \<Rightarrow> bool list \<Rightarrow> nat \<Rightarrow> nat
   \<Rightarrow> ((int list \<times> int list) option \<times> swa_builder) result" where
  "build_prefill_swa self cm token_to_req_indices is_valid_token num_decode_tokens num_prefill_tokens =
     bind_result
       (if has_image_spans self cm num_prefill_tokens
        then bind_result
               (build_image_visibility self (cm_num_reqs cm) (cm_mm_req_doc_ranges cm) num_decode_tokens
                  num_prefill_tokens (cm_seq_lens cm) (cm_query_start_loc cm) token_to_req_indices)
               (\<lambda>(left, right, self1). Inr (Some (left, right), self1))
        else Inr (None, self))
       (\<lambda>(visible, self1).
          if num_prefill_tokens > 0 then
            let (ind, lens) = compute_swa_indices_and_lens
                  (prefill_swa_args self1 cm token_to_req_indices is_valid_token num_decode_tokens visible)
                  num_prefill_tokens (sb_prefill_swa_indices self1) (sb_prefill_swa_lens self1)
            in Inr (visible, self1\<lparr>sb_prefill_swa_indices := ind, sb_prefill_swa_lens := lens\<rparr>)
          else Inr (visible, self1))"

section \<open>Prefill fields shared by all layers\<close>

record v4_prefill_fields =
  vf_prefill_seq_lens :: "nat list option"
  vf_prefill_seq_lens_cpu :: "nat list option"
  vf_prefill_gather_lens :: "int list option"
  vf_prefill_query_lens_cpu :: "nat list option"
  vf_prefill_window_size :: nat
  vf_prefill_max_model_len :: nat
  vf_prefill_max_num_batched_tokens :: nat

definition build_deepseek_v4_metadata ::
  "swa_ext \<Rightarrow> swa_builder \<Rightarrow> nat \<Rightarrow> nat \<Rightarrow> common_meta \<Rightarrow> v4_prefill_fields result" where
  "build_deepseek_v4_metadata sx self num_decodes num_prefills cm =
     (if num_prefills > 0 then
        (case cm_seq_lens_cpu_upper_bound cm of
           None \<Rightarrow> Inl (AssertionError ''seq_lens_cpu is not None'')
         | Some seq_lens_cpu \<Rightarrow>
             Inr \<lparr>vf_prefill_seq_lens = Some (drop num_decodes (cm_seq_lens cm)),
                  vf_prefill_seq_lens_cpu = Some (drop num_decodes seq_lens_cpu),
                  vf_prefill_gather_lens = Some (compute_prefill_metadata (cm_seq_lens cm) (cm_query_start_loc cm)
                     num_prefills num_decodes (sb_window_size self) (map (sx_uninit sx) [0..<num_prefills])),
                  vf_prefill_query_lens_cpu = Some (map2 (\<lambda>e s. e - s)
                     (pyslice (num_decodes + 1) (num_decodes + num_prefills + 1) (cm_query_start_loc_cpu cm))
                     (pyslice num_decodes (num_decodes + num_prefills) (cm_query_start_loc_cpu cm))),
                  vf_prefill_window_size = sb_window_size self,
                  vf_prefill_max_model_len = sb_max_model_len self,
                  vf_prefill_max_num_batched_tokens = sb_max_num_batched_tokens self\<rparr>)
      else Inr \<lparr>vf_prefill_seq_lens = None, vf_prefill_seq_lens_cpu = None, vf_prefill_gather_lens = None,
               vf_prefill_query_lens_cpu = None, vf_prefill_window_size = 0, vf_prefill_max_model_len = 0,
               vf_prefill_max_num_batched_tokens = 0\<rparr>)"

section \<open>The whole method\<close>

definition swa_build ::
  "platform \<Rightarrow> swa_ext \<Rightarrow> swa_builder \<Rightarrow> common_meta \<Rightarrow> (swa_metadata \<times> swa_builder) result" where
  "swa_build p sx self cm =
     (case sx_split sx cm (sb_decode_threshold self) of
        (num_decodes, num_prefills, num_decode_tokens, num_prefill_tokens) \<Rightarrow>
      (case sx_token_to_req sx cm (sb_token_to_req_indices self) of (token_to_req_indices, req_buf) \<Rightarrow>
        let valid_buf = set_slice 0 (map (\<lambda>s. s \<ge> 0) (cm_slot_mapping cm)) (sb_is_valid_token self);
            is_valid_token = take (length (cm_slot_mapping cm)) valid_buf;
            self0 = self\<lparr>sb_token_to_req_indices := req_buf, sb_is_valid_token := valid_buf\<rparr>
        in bind_result (build_decode_swa self0 cm token_to_req_indices is_valid_token num_decode_tokens)
             (\<lambda>(decode_indices, self1).
           bind_result (build_prefill_swa self1 cm token_to_req_indices is_valid_token
                          num_decode_tokens num_prefill_tokens)
             (\<lambda>(visible, self2).
           bind_result (build_deepseek_v4_metadata sx self2 num_decodes num_prefills cm)
             (\<lambda>vf.
           let tile_sched = build_tile_scheduler p sx self2 num_decode_tokens
           in Inr (\<lparr>sm_block_table = cm_block_table cm, sm_slot_mapping = cm_slot_mapping cm,
                sm_block_size = sb_block_size self2, sm_seq_lens = Some (cm_seq_lens cm),
                sm_query_start_loc = Some (cm_query_start_loc cm), sm_query_start_loc_cpu = Some (cm_query_start_loc_cpu cm),
                sm_is_valid_token = Some is_valid_token, sm_token_to_req_indices = Some token_to_req_indices,
                sm_decode_swa_indices = Some (first_rows num_decode_tokens decode_indices),
                sm_decode_swa_lens = Some (take num_decode_tokens (sb_decode_swa_lens self2)),
                sm_decode_swa_width = (if \<not> cm_causal cm then sb_noncausal_index_width self2 else sb_window_size self2),
                sm_prefill_swa_indices =
                  (if num_prefill_tokens > 0 then Some (first_rows num_prefill_tokens (sb_prefill_swa_indices self2)) else None),
                sm_prefill_swa_lens =
                  (if num_prefill_tokens > 0 then Some (take num_prefill_tokens (sb_prefill_swa_lens self2)) else None),
                sm_prefill_left_visible = map_option fst visible, sm_prefill_right_visible = map_option snd visible,
                sm_num_decodes = num_decodes, sm_num_prefills = num_prefills,
                sm_num_decode_tokens = num_decode_tokens, sm_num_prefill_tokens = num_prefill_tokens,
                sm_max_decode_query_len = min (cm_max_query_len cm) (sb_decode_threshold self2),
                sm_prefill_seq_lens = vf_prefill_seq_lens vf, sm_prefill_seq_lens_cpu = vf_prefill_seq_lens_cpu vf,
                sm_prefill_gather_lens = vf_prefill_gather_lens vf,
                sm_prefill_query_lens_cpu = vf_prefill_query_lens_cpu vf,
                sm_prefill_window_size = vf_prefill_window_size vf,
                sm_prefill_max_model_len = vf_prefill_max_model_len vf,
                sm_prefill_max_num_batched_tokens = vf_prefill_max_num_batched_tokens vf,
                sm_tile_sched_swaonly = tile_sched LAYER_TYPE_SWAONLY, sm_tile_sched_c4a = tile_sched LAYER_TYPE_C4A,
                sm_tile_sched_c128a = tile_sched LAYER_TYPE_C128A, sm_flashinfer_sparse_index_cache = []\<rparr>, self2))))))"

section \<open>Between draft steps\<close>

text \<open>
  The index buffer of the metadata is a view, and its last dimension is both the window and the
  width of the launch.
\<close>

definition update_draft_args ::
  "swa_builder \<Rightarrow> tensor2 \<Rightarrow> nat list \<Rightarrow> nat list \<Rightarrow> nat list \<Rightarrow> bool list \<Rightarrow> tensor2 \<Rightarrow> swa_args" where
  "update_draft_args self decode_indices qsl seq_lens token_to_req valid block_table =
     \<lparr>sa_window_size = t_cols decode_indices, sa_index_width = t_cols decode_indices,
      sa_left_visible = [], sa_right_visible = [], sa_query_start_loc = qsl,
      sa_seq_lens = seq_lens, sa_token_to_req_indices = token_to_req,
      sa_is_valid_token = valid, sa_block_table = block_table,
      sa_block_size = sb_block_size self, sa_token_offset = 0, sa_HAS_IMAGE = False,
      sa_TRITON_BLOCK_SIZE = 1024\<rparr>"

definition update_draft_decode_metadata ::
  "platform \<Rightarrow> swa_ext \<Rightarrow> swa_builder \<Rightarrow> swa_metadata \<Rightarrow> swa_metadata result" where
  "update_draft_decode_metadata p sx self md =
     (if sm_num_decode_tokens md = 0 then Inr md
      else
        bind_result (required ''metadata.query_start_loc is not None'' (sm_query_start_loc md)) (\<lambda>qsl.
        bind_result (required ''metadata.seq_lens is not None'' (sm_seq_lens md)) (\<lambda>seq_lens.
        bind_result (required ''metadata.token_to_req_indices is not None'' (sm_token_to_req_indices md)) (\<lambda>token_to_req.
        bind_result (required ''metadata.is_valid_token is not None'' (sm_is_valid_token md)) (\<lambda>valid.
        bind_result (required ''metadata.decode_swa_indices is not None'' (sm_decode_swa_indices md)) (\<lambda>decode_indices.
        bind_result (required ''metadata.decode_swa_lens is not None'' (sm_decode_swa_lens md)) (\<lambda>decode_lens.
        let (ind, lens) = compute_swa_indices_and_lens
               (update_draft_args self decode_indices qsl seq_lens token_to_req valid (sm_block_table md))
               (sm_num_decode_tokens md) decode_indices decode_lens;
            tile_sched = build_tile_scheduler p sx self (sm_num_decode_tokens md)
        in Inr (md\<lparr>sm_decode_swa_indices := Some ind, sm_decode_swa_lens := Some lens,
              sm_tile_sched_swaonly := tile_sched LAYER_TYPE_SWAONLY,
              sm_tile_sched_c4a := tile_sched LAYER_TYPE_C4A,
              sm_tile_sched_c128a := tile_sched LAYER_TYPE_C128A,
              sm_flashinfer_sparse_index_cache := []\<rparr>))))))))"

section \<open>The shape of the builder's buffers\<close>

definition index_shape :: "nat \<Rightarrow> nat \<Rightarrow> tensor2 \<Rightarrow> bool" where
  "index_shape M w t \<longleftrightarrow> t_rows t = M \<and> t_cols t = w \<and> t_stride t = w \<and> length (t_data t) = M * w"

definition wf_swa :: "swa_builder \<Rightarrow> bool" where
  "wf_swa self \<longleftrightarrow>
     index_shape (sb_max_tokens self) (sb_window_size self) (sb_decode_swa_indices self) \<and>
     length (sb_decode_swa_lens self) = sb_max_tokens self \<and>
     index_shape (sb_max_tokens self) (sb_window_size self + sb_max_image_tokens self) (sb_prefill_swa_indices self) \<and>
     length (sb_prefill_swa_lens self) = sb_max_tokens self \<and> length (sb_is_valid_token self) = sb_max_tokens self \<and>
     (\<forall>t. sb_decode_swa_indices_noncausal self = Some t \<longrightarrow>
        index_shape (sb_max_tokens self) (sb_noncausal_index_width self) t) \<and>
     sb_prefill_index_width self = sb_window_size self + sb_max_image_tokens self \<and>
     (sb_max_image_tokens self > 0 \<longrightarrow>
        length (sb_left_visible self) = sb_max_tokens self \<and> length (sb_right_visible self) = sb_max_tokens self \<and>
        length (sb_span_starts self) = sb_max_tokens self \<and> length (sb_span_ends self) = sb_max_tokens self)"

lemma index_shape_zeros2: "index_shape M w (zeros2 M w)"
  by (simp add: index_shape_def zeros2_def)

lemma swa_init_wf:
  assumes "swa_init cfg dw hs tps bs = Inr self"
  shows "wf_swa self \<and> sb_max_tokens self = cfg_max_num_batched_tokens cfg"
  using assms by (auto simp: swa_init_def Let_def bind_result_eq_Inr wf_swa_def index_shape_zeros2)

lemma index_shape_ok:
  "index_shape M w t \<Longrightarrow> n \<le> M \<Longrightarrow> n \<le> length lens \<Longrightarrow> sa_index_width a = w \<Longrightarrow> sa_TRITON_BLOCK_SIZE a = 1024 \<Longrightarrow>
   index_buffer_ok a n t lens"
  by (simp add: index_shape_def index_buffer_ok_def wf_tensor2_def)

lemma compute_swa_shape:
  assumes "compute_swa_indices_and_lens a n t lens = (t', lens')"
  shows "index_shape M w t' = index_shape M w t" "length lens' = length lens"
    "t_rows t' = t_rows t" "t_cols t' = t_cols t" "t_stride t' = t_stride t" "length (t_data t') = length (t_data t)"
  using assms by (auto simp: compute_swa_indices_and_lens_def index_shape_def)

lemma compute_dspark_shape:
  assumes "compute_dspark_noncausal_swa_indices a n t lens = (t', lens')"
  shows "index_shape M w t' = index_shape M w t" "length lens' = length lens"
  using assms by (auto simp: compute_dspark_noncausal_swa_indices_def index_shape_def)

lemma flatten_spans_lengths:
  "flatten_spans mm rs (ip, ss, es) = (ip', ss', es') \<Longrightarrow> length ss = length es \<Longrightarrow> length ss' = length es'"
proof (induction rs arbitrary: ip ss es)
  case (Cons r rs)
  from Cons.prems(1) have "flatten_spans mm rs (ip @ [length (ss @ map fst (case map_of mm r of Some x \<Rightarrow> x | None \<Rightarrow> []))],
      ss @ map fst (case map_of mm r of Some x \<Rightarrow> x | None \<Rightarrow> []),
      es @ map snd (case map_of mm r of Some x \<Rightarrow> x | None \<Rightarrow> [])) = (ip', ss', es')"
    by (simp add: Let_def)
  from Cons.IH [OF this] Cons.prems(2) show ?case by simp
qed simp

lemma build_image_visibility_kept:
  assumes wf: "wf_swa self" and img: "0 < sb_max_image_tokens self"
    and res: "build_image_visibility self nr mm nd np sl qsl tr = Inr (l, r, self')"
  shows "wf_swa self' \<and> sb_max_tokens self' = sb_max_tokens self"
proof -
  obtain ip ss es where fs: "flatten_spans mm [0..<nr] ([0], [], []) = (ip, ss, es)" by (metis prod_cases3)
  have "length ss = length es" using flatten_spans_lengths [OF fs] by simp
  then show ?thesis
    using res wf img unfolding build_image_visibility_def fs prod.case Let_def
    by (auto simp: wf_swa_def Let_def raise_if_eq_Inr compute_image_visibility_def)
qed

lemma build_decode_swa_kept:
  assumes wf: "wf_swa self" and n: "n \<le> sb_max_tokens self"
    and res: "build_decode_swa self cm tr vt n = Inr (ind, self')"
  shows "wf_swa self' \<and> sb_max_tokens self' = sb_max_tokens self"
proof -
  let ?lens0 = "take n (sb_decode_swa_lens self) @ replicate (length (sb_decode_swa_lens self) - n) 0"
  have lens0: "length ?lens0 = length (sb_decode_swa_lens self)" using wf n by (simp add: wf_swa_def Let_def)
  show ?thesis
  proof (cases "n = 0 \<or> cm_causal cm")
    case True
    then show ?thesis
      using res wf lens0
      by (auto simp: build_decode_swa_def Let_def wf_swa_def compute_swa_shape split: prod.splits if_splits)
  next
    case False
    then show ?thesis
      using res wf lens0
      by (auto simp: build_decode_swa_def Let_def wf_swa_def raise_if_eq_Inr compute_dspark_shape index_shape_zeros2
          split: prod.splits option.splits)
  qed
qed

lemma build_prefill_swa_kept:
  assumes wf: "wf_swa self" and res: "build_prefill_swa self cm tr vt nd np = Inr (vis, self')"
  shows "wf_swa self' \<and> sb_max_tokens self' = sb_max_tokens self"
proof -
  obtain x where v: "(if has_image_spans self cm np
        then bind_result (build_image_visibility self (cm_num_reqs cm) (cm_mm_req_doc_ranges cm) nd np
               (cm_seq_lens cm) (cm_query_start_loc cm) tr) (\<lambda>(left, right, self1). Inr (Some (left, right), self1))
        else Inr (None, self)) = Inr x"
    and r: "(case x of (visible, self1) \<Rightarrow>
       if np > 0 then let (ind, lens) = compute_swa_indices_and_lens (prefill_swa_args self1 cm tr vt nd visible)
          np (sb_prefill_swa_indices self1) (sb_prefill_swa_lens self1)
       in Inr (visible, self1\<lparr>sb_prefill_swa_indices := ind, sb_prefill_swa_lens := lens\<rparr>)
       else Inr (visible, self1)) = (Inr (vis, self') :: ((int list \<times> int list) option \<times> swa_builder) result)"
    using res unfolding build_prefill_swa_def bind_result_eq_Inr by blast
  obtain vis1 self1 where x: "x = (vis1, self1)" by fastforce
  have k1: "wf_swa self1 \<and> sb_max_tokens self1 = sb_max_tokens self"
  proof (cases "has_image_spans self cm np")
    case True
    then obtain l rr where "build_image_visibility self (cm_num_reqs cm) (cm_mm_req_doc_ranges cm) nd np
        (cm_seq_lens cm) (cm_query_start_loc cm) tr = Inr (l, rr, self1)"
      using v x by (auto simp: bind_result_eq_Inr split: prod.splits)
    from build_image_visibility_kept [OF wf _ this] True show ?thesis by (simp add: has_image_spans_def)
  qed (use v wf x in simp)
  obtain ind lens where c: "compute_swa_indices_and_lens (prefill_swa_args self1 cm tr vt nd vis1)
      np (sb_prefill_swa_indices self1) (sb_prefill_swa_lens self1) = (ind, lens)" by fastforce
  have "self' = self1 \<or> self' = self1\<lparr>sb_prefill_swa_indices := ind, sb_prefill_swa_lens := lens\<rparr>"
    using r unfolding x prod.case c Let_def by (auto split: if_splits)
  then show ?thesis
    using k1 by (auto simp: wf_swa_def compute_swa_shape [OF c])
qed

text \<open>
  The shape invariant of the sliding-window builder: after \<^verbatim>\<open>__init__\<close> and after every
  successful \<^verbatim>\<open>build\<close> on a batch that fits, every index buffer still has its rows, width and
  stride, and every length and flag buffer its size.
\<close>

theorem swa_build_keeps_shape:
  assumes wf: "wf_swa self" and split: "sx_split sx cm (sb_decode_threshold self) = (nd, np, ndt, npt)"
    and fits: "ndt \<le> sb_max_tokens self" "length (cm_slot_mapping cm) \<le> sb_max_tokens self"
    and res: "swa_build p sx self cm = Inr (md, self')"
  shows "wf_swa self' \<and> sb_max_tokens self' = sb_max_tokens self"
proof -
  obtain tr rb where t: "sx_token_to_req sx cm (sb_token_to_req_indices self) = (tr, rb)" by fastforce
  let ?vb = "set_slice 0 (map (\<lambda>s. s \<ge> 0) (cm_slot_mapping cm)) (sb_is_valid_token self)"
  let ?self0 = "self\<lparr>sb_token_to_req_indices := rb, sb_is_valid_token := ?vb\<rparr>"
  have w0: "wf_swa ?self0 \<and> sb_max_tokens ?self0 = sb_max_tokens self"
    using wf fits by (simp add: wf_swa_def Let_def)
  from res obtain di self1 vis where
    d: "build_decode_swa ?self0 cm tr (take (length (cm_slot_mapping cm)) ?vb) ndt = Inr (di, self1)"
    and q: "build_prefill_swa self1 cm tr (take (length (cm_slot_mapping cm)) ?vb) ndt npt = Inr (vis, self')"
    unfolding swa_build_def split t prod.case Let_def
    by (auto simp: bind_result_eq_Inr split: prod.splits)
  have w1: "wf_swa self1 \<and> sb_max_tokens self1 = sb_max_tokens self"
    using build_decode_swa_kept [OF _ _ d] w0 fits by auto
  show ?thesis using build_prefill_swa_kept [OF _ q] w1 by auto
qed

section \<open>What a causal step stores for its decode tokens\<close>

text \<open>The flags and request indices of a step.\<close>

definition step_valid :: "common_meta \<Rightarrow> swa_builder \<Rightarrow> bool list" where
  "step_valid cm self = take (length (cm_slot_mapping cm))
     (set_slice 0 (map (\<lambda>s. s \<ge> 0) (cm_slot_mapping cm)) (sb_is_valid_token self))"

lemma step_valid_eq:
  "length (cm_slot_mapping cm) \<le> length (sb_is_valid_token self) \<Longrightarrow>
   step_valid cm self = map (\<lambda>s. s \<ge> 0) (cm_slot_mapping cm)"
  using take_set_slice_0 [of "map (\<lambda>s. s \<ge> 0) (cm_slot_mapping cm)" "sb_is_valid_token self"]
  by (simp add: step_valid_def)

text \<open>The prefill part leaves the decode buffers alone.\<close>

lemma prefill_keeps_decode:
  assumes "build_prefill_swa self cm tr vt nd np = Inr (vis, self')"
  shows "sb_decode_swa_lens self' = sb_decode_swa_lens self" "sb_window_size self' = sb_window_size self"
    "sb_decode_swa_indices self' = sb_decode_swa_indices self" "sb_block_size self' = sb_block_size self"
    "sb_layer_types self' = sb_layer_types self"
proof -
  obtain x where v: "(if has_image_spans self cm np
        then bind_result (build_image_visibility self (cm_num_reqs cm) (cm_mm_req_doc_ranges cm) nd np
               (cm_seq_lens cm) (cm_query_start_loc cm) tr) (\<lambda>(left, right, self1). Inr (Some (left, right), self1))
        else Inr (None, self)) = Inr x"
    and r: "(case x of (visible, self1) \<Rightarrow>
       if np > 0 then let (ind, lens) = compute_swa_indices_and_lens (prefill_swa_args self1 cm tr vt nd visible)
          np (sb_prefill_swa_indices self1) (sb_prefill_swa_lens self1)
       in Inr (visible, self1\<lparr>sb_prefill_swa_indices := ind, sb_prefill_swa_lens := lens\<rparr>)
       else Inr (visible, self1)) = (Inr (vis, self') :: ((int list \<times> int list) option \<times> swa_builder) result)"
    using assms unfolding build_prefill_swa_def bind_result_eq_Inr by blast
  obtain vis1 self1 where x: "x = (vis1, self1)" by fastforce
  let ?same = "\<lambda>a b. sb_decode_swa_lens a = sb_decode_swa_lens b \<and> sb_window_size a = sb_window_size b \<and>
      sb_decode_swa_indices a = sb_decode_swa_indices b \<and> sb_block_size a = sb_block_size b \<and>
      sb_layer_types a = sb_layer_types b"
  have "?same self1 self"
    using v x by (auto simp: bind_result_eq_Inr build_image_visibility_def raise_if_eq_Inr Let_def split: if_splits prod.splits)
  moreover have "?same self' self1"
    using r unfolding x prod.case Let_def by (auto split: if_splits prod.splits)
  ultimately show "sb_decode_swa_lens self' = sb_decode_swa_lens self" "sb_window_size self' = sb_window_size self"
    "sb_decode_swa_indices self' = sb_decode_swa_indices self" "sb_block_size self' = sb_block_size self"
    "sb_layer_types self' = sb_layer_types self" by auto
qed

lemma swa_build_parts:
  assumes split: "sx_split sx cm (sb_decode_threshold self) = (nd, np, ndt, npt)"
    and tr: "sx_token_to_req sx cm (sb_token_to_req_indices self) = (tr, rb)"
    and res: "swa_build p sx self cm = Inr (md, self')"
  obtains self0 di self1 vis where
    "self0 = self\<lparr>sb_token_to_req_indices := rb, sb_is_valid_token :=
        set_slice 0 (map (\<lambda>s. s \<ge> 0) (cm_slot_mapping cm)) (sb_is_valid_token self)\<rparr>"
    "build_decode_swa self0 cm tr (step_valid cm self) ndt = Inr (di, self1)"
    "build_prefill_swa self1 cm tr (step_valid cm self) ndt npt = Inr (vis, self')"
    "sm_decode_swa_indices md = Some (first_rows ndt di)" "sm_decode_swa_lens md = Some (take ndt (sb_decode_swa_lens self'))"
    "sm_query_start_loc md = Some (cm_query_start_loc cm)" "sm_seq_lens md = Some (cm_seq_lens cm)"
    "sm_token_to_req_indices md = Some tr" "sm_is_valid_token md = Some (step_valid cm self)"
    "sm_block_table md = cm_block_table cm" "sm_num_decode_tokens md = ndt"
    "sm_flashinfer_sparse_index_cache md = []"
    "sm_tile_sched_swaonly md = build_tile_scheduler p sx self' ndt LAYER_TYPE_SWAONLY"
    "sm_tile_sched_c4a md = build_tile_scheduler p sx self' ndt LAYER_TYPE_C4A"
    "sm_tile_sched_c128a md = build_tile_scheduler p sx self' ndt LAYER_TYPE_C128A"
proof -
  define self0 where "self0 = self\<lparr>sb_token_to_req_indices := rb, sb_is_valid_token :=
        set_slice 0 (map (\<lambda>s. s \<ge> 0) (cm_slot_mapping cm)) (sb_is_valid_token self)\<rparr>"
  from res obtain di self1 where
    d: "build_decode_swa self0 cm tr (step_valid cm self) ndt = Inr (di, self1)"
    unfolding swa_build_def split tr prod.case Let_def step_valid_def [symmetric] self0_def [symmetric]
    by (auto simp: bind_result_eq_Inr)
  from res obtain vis where q: "build_prefill_swa self1 cm tr (step_valid cm self) ndt npt = Inr (vis, self')"
    unfolding swa_build_def split tr prod.case Let_def step_valid_def [symmetric] self0_def [symmetric] d
    by (auto simp: bind_result_eq_Inr)
  show ?thesis
    by (rule that [OF self0_def d q])
      (use res in \<open>unfold swa_build_def split tr prod.case Let_def step_valid_def [symmetric] self0_def [symmetric]
         d bind_result_Inr q, auto simp: bind_result_eq_Inr\<close>)
qed

lemma swa_build_decode_entries:
  assumes wf: "wf_swa self" and split: "sx_split sx cm (sb_decode_threshold self) = (nd, np, ndt, npt)"
    and tr: "sx_token_to_req sx cm (sb_token_to_req_indices self) = (tr, rb)"
    and fits: "ndt \<le> sb_max_tokens self" and causal: "cm_causal cm" and pid: "pid < ndt"
    and res: "swa_build p sx self cm = Inr (md, self')"
  defines "a \<equiv> decode_swa_args self cm tr (step_valid cm self) (sb_window_size self)"
  shows "row (the (sm_decode_swa_indices md)) pid = map (swa_entry a pid) [0..<sb_window_size self]"
    and "the (sm_decode_swa_lens md) ! pid = swa_len_of a pid"
    and "sb_window_size self' = sb_window_size self" "sb_block_size self' = sb_block_size self"
    and "sb_layer_types self' = sb_layer_types self"
    and "index_shape (sb_max_tokens self) (sb_window_size self) (sb_decode_swa_indices self')"
    and "sm_decode_swa_indices md = Some (first_rows ndt (sb_decode_swa_indices self'))"
    and "\<exists>lens. sm_decode_swa_lens md = Some lens \<and> length lens = ndt"
proof -
  from swa_build_parts [OF split tr res] obtain self0 di self1 vis where
    s0: "self0 = self\<lparr>sb_token_to_req_indices := rb, sb_is_valid_token :=
        set_slice 0 (map (\<lambda>s. s \<ge> 0) (cm_slot_mapping cm)) (sb_is_valid_token self)\<rparr>"
    and d: "build_decode_swa self0 cm tr (step_valid cm self) ndt = Inr (di, self1)"
    and q: "build_prefill_swa self1 cm tr (step_valid cm self) ndt npt = Inr (vis, self')"
    and md: "sm_decode_swa_indices md = Some (first_rows ndt di)"
      "sm_decode_swa_lens md = Some (take ndt (sb_decode_swa_lens self'))" by metis
  have f0: "sb_decode_swa_indices self0 = sb_decode_swa_indices self" "sb_window_size self0 = sb_window_size self"
      "t_cols (sb_decode_swa_indices self) = sb_window_size self" "sb_block_size self0 = sb_block_size self"
      "sb_decode_swa_lens self0 = sb_decode_swa_lens self" "sb_layer_types self0 = sb_layer_types self"
    using wf by (simp_all add: s0 wf_swa_def index_shape_def)
  have a0: "decode_swa_args self0 cm tr (step_valid cm self) (t_cols (sb_decode_swa_indices self)) = a"
    by (simp add: a_def decode_swa_args_def f0)
  define lens0 where "lens0 = take ndt (sb_decode_swa_lens self) @ replicate (length (sb_decode_swa_lens self) - ndt) 0"
  obtain ind lens where c: "compute_swa_indices_and_lens a ndt (sb_decode_swa_indices self) lens0 = (ind, lens)"
    by fastforce
  have di: "di = ind" "self1 = self0\<lparr>sb_decode_swa_indices := ind, sb_decode_swa_lens := lens\<rparr>"
    using d causal pid c unfolding build_decode_swa_def f0(1,5) a0 lens0_def [symmetric] Let_def by auto
  have len0: "length lens0 = sb_max_tokens self" using wf fits by (simp add: lens0_def wf_swa_def)
  have sh: "index_shape (sb_max_tokens self) (sb_window_size self) (sb_decode_swa_indices self)"
    using wf by (simp add: wf_swa_def)
  have ok: "index_buffer_ok a ndt (sb_decode_swa_indices self) lens0"
    by (rule index_shape_ok [OF sh fits]) (use len0 fits in \<open>simp_all add: a_def decode_swa_args_def\<close>)
  note r = swa_row [OF ok pid c]
  have w: "sa_index_width a = sb_window_size self" by (simp add: a_def decode_swa_args_def)
  note kp = prefill_keeps_decode [OF q]
  show "row (the (sm_decode_swa_indices md)) pid = map (swa_entry a pid) [0..<sb_window_size self]"
    using r w by (simp add: md di)
  show "the (sm_decode_swa_lens md) ! pid = swa_len_of a pid"
    using r pid by (simp add: md kp(1) di)
  show "sb_window_size self' = sb_window_size self" "sb_block_size self' = sb_block_size self"
      "sb_layer_types self' = sb_layer_types self"
      "index_shape (sb_max_tokens self) (sb_window_size self) (sb_decode_swa_indices self')"
      "sm_decode_swa_indices md = Some (first_rows ndt (sb_decode_swa_indices self'))"
    using kp di f0 sh compute_swa_shape(1) [OF c] by (simp_all add: md)
  show "\<exists>lens. sm_decode_swa_lens md = Some lens \<and> length lens = ndt"
    using kp di compute_swa_shape(2) [OF c] len0 fits by (simp add: md)
qed

text \<open>
  C21. \<^verbatim>\<open>update_draft_decode_metadata\<close> is a rebuild.  After the sequence lengths of a causal step
  have grown, updating the step's metadata in place gives every decode token the index row and the
  length, and every layer type the scheduler plan, that building the metadata afresh for the new
  lengths would give; and no entry of the sparse index cache survives.
\<close>

theorem update_draft_is_rebuild:
  assumes wf: "wf_swa self" and causal: "cm_causal cm"
    and split: "sx_split sx cm (sb_decode_threshold self) = (nd, np, ndt, npt)"
      "sx_split sx (cm\<lparr>cm_seq_lens := ss\<rparr>) (sb_decode_threshold self) = (nd, np, ndt, npt)"
    and tr: "sx_token_to_req sx cm (sb_token_to_req_indices self) = (tr, rb)"
      "sx_token_to_req sx (cm\<lparr>cm_seq_lens := ss\<rparr>) (sb_token_to_req_indices self) = (tr, rb')"
    and fits: "ndt \<le> sb_max_tokens self"
    and old: "swa_build p sx self cm = Inr (md, self1)"
    and new: "swa_build p sx self (cm\<lparr>cm_seq_lens := ss\<rparr>) = Inr (md', self2)"
    and pid: "pid < ndt"
  shows "\<exists>u ind ind' lens lens'. update_draft_decode_metadata p sx self1 (md\<lparr>sm_seq_lens := Some ss\<rparr>) = Inr u
    \<and> sm_decode_swa_indices u = Some ind \<and> sm_decode_swa_indices md' = Some ind' \<and> row ind pid = row ind' pid
    \<and> sm_decode_swa_lens u = Some lens \<and> sm_decode_swa_lens md' = Some lens' \<and> lens ! pid = lens' ! pid
    \<and> sm_tile_sched_swaonly u = sm_tile_sched_swaonly md' \<and> sm_tile_sched_c4a u = sm_tile_sched_c4a md'
    \<and> sm_tile_sched_c128a u = sm_tile_sched_c128a md' \<and> sm_flashinfer_sparse_index_cache u = []"
proof -
  let ?cm = "cm\<lparr>cm_seq_lens := ss\<rparr>"
  have causal': "cm_causal ?cm" using causal by simp
  note o = swa_build_decode_entries [OF wf split(1) tr(1) fits causal pid old]
  note n = swa_build_decode_entries [OF wf split(2) tr(2) fits causal' pid new]
  from swa_build_parts [OF split(1) tr(1) old] have om: "sm_query_start_loc md = Some (cm_query_start_loc cm)"
      "sm_token_to_req_indices md = Some tr" "sm_is_valid_token md = Some (step_valid cm self)"
      "sm_block_table md = cm_block_table cm" "sm_num_decode_tokens md = ndt" by metis+
  from swa_build_parts [OF split(2) tr(2) new] have nm:
      "sm_tile_sched_swaonly md' = build_tile_scheduler p sx self2 ndt LAYER_TYPE_SWAONLY"
      "sm_tile_sched_c4a md' = build_tile_scheduler p sx self2 ndt LAYER_TYPE_C4A"
      "sm_tile_sched_c128a md' = build_tile_scheduler p sx self2 ndt LAYER_TYPE_C128A" by metis+
  have same_plans: "build_tile_scheduler p sx self1 ndt = build_tile_scheduler p sx self2 ndt"
    using o(5) n(5) by (simp add: build_tile_scheduler_def)
  let ?a = "decode_swa_args self ?cm tr (step_valid ?cm self) (sb_window_size self)"
  let ?di = "first_rows ndt (sb_decode_swa_indices self1)"
  obtain dl where dl: "sm_decode_swa_lens md = Some dl" "length dl = ndt" using o(8) by blast
  obtain dl' where dl': "sm_decode_swa_lens md' = Some dl'" using n(8) by blast
  have cols: "t_cols ?di = sb_window_size self"
    using o(6) by (simp add: first_rows_def index_shape_def)
  have args: "update_draft_args self1 ?di (cm_query_start_loc cm) ss tr (step_valid cm self) (cm_block_table cm) = ?a"
    by (simp add: update_draft_args_def decode_swa_args_def cols o(4) step_valid_def)
  obtain ind lens where c: "compute_swa_indices_and_lens ?a ndt ?di dl = (ind, lens)" by fastforce
  have ok: "index_buffer_ok ?a ndt ?di dl"
    using o(6) dl(2) fits
    by (simp add: index_buffer_ok_def first_rows_def index_shape_def wf_tensor2_def decode_swa_args_def mult_le_mono1)
  note r = swa_row [OF ok pid c]
  have w: "sa_index_width ?a = sb_window_size self" by (simp add: decode_swa_args_def)
  obtain u where u: "update_draft_decode_metadata p sx self1 (md\<lparr>sm_seq_lens := Some ss\<rparr>) = Inr u"
      "sm_decode_swa_indices u = Some ind" "sm_decode_swa_lens u = Some lens"
      "sm_tile_sched_swaonly u = build_tile_scheduler p sx self1 ndt LAYER_TYPE_SWAONLY"
      "sm_tile_sched_c4a u = build_tile_scheduler p sx self1 ndt LAYER_TYPE_C4A"
      "sm_tile_sched_c128a u = build_tile_scheduler p sx self1 ndt LAYER_TYPE_C128A"
      "sm_flashinfer_sparse_index_cache u = []"
    using pid c by (simp add: update_draft_decode_metadata_def om o(7) dl args Let_def)
  show ?thesis
    unfolding nm same_plans n(7) dl' option.sel
    by (rule exI [of _ u], rule exI [of _ ind], rule exI [of _ "first_rows ndt (sb_decode_swa_indices self2)"],
        rule exI [of _ lens], rule exI [of _ dl']) (use r w n(1,2) in \<open>simp add: u same_plans n(7) dl'\<close>)
qed

section \<open>Witnesses\<close>

lemma build_decode_swa_causal_ok:
  assumes "cm_causal cm"
  shows "\<exists>di self'. build_decode_swa self cm tr vt n = Inr (di, self')
    \<and> sb_max_image_tokens self' = sb_max_image_tokens self"
  using assms by (cases "n = 0") (simp_all add: build_decode_swa_def Let_def split: prod.split)

lemma build_prefill_swa_text_ok:
  assumes "sb_max_image_tokens self = 0"
  shows "\<exists>vis self'. build_prefill_swa self cm tr vt nd np = Inr (vis, self')"
  using assms by (simp add: build_prefill_swa_def has_image_spans_def Let_def split: prod.split)

lemma swa_build_text_ok:
  assumes "sx_split sx cm (sb_decode_threshold self) = (nd, np, ndt, npt)" "cm_causal cm" "sb_max_image_tokens self = 0"
    and "np = 0 \<or> cm_seq_lens_cpu_upper_bound cm = Some ls"
  shows "\<exists>md self'. swa_build p sx self cm = Inr (md, self')"
proof -
  obtain tr rb where t: "sx_token_to_req sx cm (sb_token_to_req_indices self) = (tr, rb)" by fastforce
  define self0 where "self0 = self\<lparr>sb_token_to_req_indices := rb, sb_is_valid_token :=
        set_slice 0 (map (\<lambda>s. s \<ge> 0) (cm_slot_mapping cm)) (sb_is_valid_token self)\<rparr>"
  obtain di self1 where d: "build_decode_swa self0 cm tr (step_valid cm self) ndt = Inr (di, self1)"
      "sb_max_image_tokens self1 = 0"
    using build_decode_swa_causal_ok [OF assms(2), of self0 tr "step_valid cm self" ndt] assms(3)
    by (auto simp: self0_def)
  obtain vis self2 where q: "build_prefill_swa self1 cm tr (step_valid cm self) ndt npt = Inr (vis, self2)"
    using build_prefill_swa_text_ok [OF d(2)] by blast
  have "\<exists>vf. build_deepseek_v4_metadata sx self2 nd np cm = Inr vf"
    using assms(4) by (auto simp: build_deepseek_v4_metadata_def)
  then show ?thesis
    unfolding swa_build_def assms(1) t prod.case Let_def step_valid_def [symmetric] self0_def [symmetric] d(1)
      bind_result_Inr q by auto
qed

definition swa_demo_config :: vllm_config where
  "swa_demo_config = \<lparr>cfg_max_model_len = 64, cfg_max_num_batched_tokens = 6, cfg_max_num_seqs = 2,
     cfg_decode_context_parallel_size = 1, cfg_prefill_context_parallel_size = 1,
     cfg_cp_kv_cache_interleave_size = 1, cfg_dcp_rank_in_group = 0, cfg_num_speculative_tokens = 2,
     cfg_speculative_config = Some \<lparr>sv_num_speculative_tokens = 2, sv_enable_adaptive_verification = False,
       sv_parallel_drafting = False, sv_use_dspark = False\<rparr>,
     cfg_indexer_kv_dtype = ''fp8'', cfg_use_non_causal = False,
     cfg_hf_config = \<lparr>hf_sliding_window = 4, hf_index_topk = 16, hf_vision_n_layers = 0,
       hf_vision_max_n_token = 0, hf_compress_ratios = Some [1, 4, 128]\<rparr>\<rparr>"

definition swa_demo_builder :: swa_builder where
  "swa_demo_builder = projr (swa_init swa_demo_config (\<lambda>w n. w + n + 1) 512 1 4)"

definition swa_demo_ext :: swa_ext where
  "swa_demo_ext = \<lparr>sx_split = (\<lambda>cm t. (2, 0, 4, 0)), sx_token_to_req = (\<lambda>cm buf. ([0, 0, 1, 1], [0, 0, 1, 1, 0, 0])),
     sx_fresh_sched = \<lparr>have_initialized = False\<rparr>, sx_uninit = (\<lambda>_. 9)\<rparr>"

definition swa_demo_batch :: common_meta where
  "swa_demo_batch = \<lparr>cm_num_reqs = 2, cm_num_actual_tokens = 4, cm_max_query_len = 2, cm_max_seq_len = 9,
     cm_query_start_loc = [0, 2, 4], cm_query_start_loc_cpu = [0, 2, 4], cm_seq_lens = [6, 3],
     cm_seq_lens_cpu_upper_bound = None, cm_slot_mapping = [4, 5, 14, -1],
     cm_block_table = \<lparr>t_data = [7, 9, 4, 3, 6, 5], t_stride = 3, t_rows = 2, t_cols = 3\<rparr>,
     cm_dcp_local_seq_lens = None, cm_positions = None, cm_causal = True, cm_mm_req_doc_ranges = []\<rparr>"

lemma swa_demo_builder_init: "swa_init swa_demo_config (\<lambda>w n. w + n + 1) 512 1 4 = Inr swa_demo_builder"
  by (simp add: swa_demo_builder_def swa_init_def Let_def swa_demo_config_def layer_type_for_def)

lemma swa_demo_builder_fields:
  "wf_swa swa_demo_builder" "sb_max_tokens swa_demo_builder = 6" "sb_max_image_tokens swa_demo_builder = 0"
  "sb_window_size swa_demo_builder = 4" "sb_block_size swa_demo_builder = 4"
  using swa_init_wf [OF swa_demo_builder_init]
  by (simp_all add: swa_demo_builder_def swa_init_def Let_def swa_demo_config_def layer_type_for_def)

lemma swa_demo_split:
  "sx_split swa_demo_ext cm t = (2, 0, 4, 0)" "sx_token_to_req swa_demo_ext cm b = ([0, 0, 1, 1], [0, 0, 1, 1, 0, 0])"
  by (simp_all add: swa_demo_ext_def)

theorem swa_build_keeps_shape_witness:
  "\<exists>md self'. swa_build sm121 swa_demo_ext swa_demo_builder swa_demo_batch = Inr (md, self') \<and> wf_swa self'"
proof -
  obtain md self' where r: "swa_build sm121 swa_demo_ext swa_demo_builder swa_demo_batch = Inr (md, self')"
    using swa_build_text_ok [of swa_demo_ext swa_demo_batch swa_demo_builder 2 0 4 0 _ sm121]
    by (auto simp: swa_demo_split swa_demo_batch_def swa_demo_builder_fields)
  then show ?thesis
    using swa_build_keeps_shape [OF swa_demo_builder_fields(1) swa_demo_split(1) _ _ r]
    by (auto simp: swa_demo_builder_fields swa_demo_batch_def)
qed

theorem update_draft_is_rebuild_witness:
  "\<exists>md self1 md' self2. swa_build sm121 swa_demo_ext swa_demo_builder swa_demo_batch = Inr (md, self1)
    \<and> swa_build sm121 swa_demo_ext swa_demo_builder (swa_demo_batch\<lparr>cm_seq_lens := [7, 4]\<rparr>) = Inr (md', self2)
    \<and> (\<exists>u ind ind'. update_draft_decode_metadata sm121 swa_demo_ext self1 (md\<lparr>sm_seq_lens := Some [7, 4]\<rparr>) = Inr u
        \<and> sm_decode_swa_indices u = Some ind \<and> sm_decode_swa_indices md' = Some ind' \<and> row ind 1 = row ind' 1)"
proof -
  obtain md self1 where r: "swa_build sm121 swa_demo_ext swa_demo_builder swa_demo_batch = Inr (md, self1)"
    using swa_build_text_ok [of swa_demo_ext swa_demo_batch swa_demo_builder 2 0 4 0 _ sm121]
    by (auto simp: swa_demo_split swa_demo_batch_def swa_demo_builder_fields)
  obtain md' self2 where r': "swa_build sm121 swa_demo_ext swa_demo_builder (swa_demo_batch\<lparr>cm_seq_lens := [7, 4]\<rparr>)
      = Inr (md', self2)"
    using swa_build_text_ok [of swa_demo_ext "swa_demo_batch\<lparr>cm_seq_lens := [7, 4]\<rparr>" swa_demo_builder 2 0 4 0 _ sm121]
    by (auto simp: swa_demo_split swa_demo_batch_def swa_demo_builder_fields)
  have "cm_causal swa_demo_batch" by (simp add: swa_demo_batch_def)
  from update_draft_is_rebuild [OF swa_demo_builder_fields(1) this swa_demo_split(1) swa_demo_split(1)
      swa_demo_split(2) swa_demo_split(2) _ r r', of 1] r r' show ?thesis
    by (simp add: swa_demo_builder_fields) blast
qed

section \<open>Image spans in compressed form\<close>

definition spans_of :: "(nat \<times> (nat \<times> nat) list) list \<Rightarrow> nat \<Rightarrow> (nat \<times> nat) list" where
  "spans_of mm_ranges r = (case map_of mm_ranges r of Some ss \<Rightarrow> ss | None \<Rightarrow> [])"

lemma flatten_spans_eq:
  "flatten_spans mm rs (ip, ss, es) =
    (ip @ map (\<lambda>i. length ss + sum_list (map (\<lambda>r. length (spans_of mm r)) (take (Suc i) rs))) [0..<length rs],
     ss @ concat (map (\<lambda>r. map fst (spans_of mm r)) rs), es @ concat (map (\<lambda>r. map snd (spans_of mm r)) rs))"
proof (induction rs arbitrary: ip ss es)
  case (Cons r rs)
  have "[0..<length (r # rs)] = 0 # map Suc [0..<length rs]" by (simp add: upt_conv_Cons map_Suc_upt del: upt_Suc)
  then show ?case
    by (simp add: Let_def spans_of_def [symmetric] Cons comp_def add.assoc del: upt_Suc)
qed simp

lemma concat_segment:
  "k < length xss \<Longrightarrow> j < length (xss ! k) \<Longrightarrow>
   concat xss ! (sum_list (map length (take k xss)) + j) = xss ! k ! j"
proof (induction xss arbitrary: k)
  case (Cons xs xss)
  show ?case
  proof (cases k)
    case (Suc k')
    with Cons show ?thesis by (simp add: nth_append add.assoc)
  qed (use Cons.prems in \<open>simp add: nth_append\<close>)
qed simp

text \<open>
  The compressed upload of the image spans is lossless: reading the spans of request \<open>r\<close>
  back through the index pointers, from \<open>indptr[r]\<close> to \<open>indptr[r + 1]\<close>, gives exactly the spans
  \<^verbatim>\<open>mm_req_doc_ranges\<close> has for it, in order.
\<close>

theorem span_upload_roundtrip:
  assumes "flatten_spans mm_ranges [0..<num_reqs] ([0], [], []) = (indptr, starts, ends)" "r < num_reqs"
  shows "map (\<lambda>i. (starts ! i, ends ! i)) [indptr ! r..<indptr ! (r + 1)] = spans_of mm_ranges r"
proof -
  let ?n = "\<lambda>r. length (spans_of mm_ranges r)"
  have f: "indptr = 0 # map (\<lambda>i. sum_list (map ?n [0..<Suc i])) [0..<num_reqs]"
      "starts = concat (map (\<lambda>r. map fst (spans_of mm_ranges r)) [0..<num_reqs])"
      "ends = concat (map (\<lambda>r. map snd (spans_of mm_ranges r)) [0..<num_reqs])"
    using assms(1) by (auto simp: flatten_spans_eq min_def simp del: upt_Suc cong: map_cong)
  have ip: "indptr ! k = sum_list (map ?n [0..<k])" if "k \<le> num_reqs" for k
    using that by (cases k) (simp_all add: f(1) del: upt_Suc)
  have lo: "indptr ! r = sum_list (map ?n [0..<r])" and hi: "indptr ! (r + 1) = indptr ! r + ?n r"
    using assms(2) ip [of r] ip [of "r + 1"] by simp_all
  have st: "starts ! (indptr ! r + j) = fst (spans_of mm_ranges r ! j)"
      "ends ! (indptr ! r + j) = snd (spans_of mm_ranges r ! j)" if "j < ?n r" for j
    using that assms(2) concat_segment [of r "map (\<lambda>r. map fst (spans_of mm_ranges r)) [0..<num_reqs]" j]
      concat_segment [of r "map (\<lambda>r. map snd (spans_of mm_ranges r)) [0..<num_reqs]" j]
    by (simp_all add: f(2,3) lo take_map comp_def min_def)
  show ?thesis unfolding hi by (rule nth_equalityI) (auto simp: st prod_eq_iff)
qed

theorem span_upload_roundtrip_witness:
  "let (indptr, starts, ends) = flatten_spans [(0, [(2, 4), (6, 9)]), (2, [(1, 3)])] [0..<3] ([0], [], [])
   in map (\<lambda>i. (starts ! i, ends ! i)) [indptr ! 0..<indptr ! 1] = [(2, 4), (6, 9)]"
proof -
  obtain ip ss es where r: "flatten_spans [(0, [(2, 4), (6, 9)]), (2, [(1, 3)])] [0..<3] ([0], [], []) = (ip, ss, es)"
    by (metis prod_cases3)
  from span_upload_roundtrip [OF r, of 0] show ?thesis unfolding r by (simp add: spans_of_def)
qed

end
