(* ===== verification/FlashInferSparse.thy ===== *)
theory FlashInferSparse
  imports SparseMLA SwaBuild
begin

text \<open>
  The FlashInfer backend, \<^verbatim>\<open>src/docker/overlay-sm121-adaptive/flashinfer_sparse.py\<close>, first part:
  the workspace registry, the capability checks, the head padding, and the SM100 attention layer,
  whose \<^verbatim>\<open>_build_sparse_index_metadata\<close> keeps a cache of sparse indices in the step's metadata.

  A call of the attention kernel is a record of its arguments.  Numbers inside query vectors are
  opaque to this code and are modelled as integers.
\<close>

section \<open>Workspace registry\<close>

definition FLASHINFER_DSV4_WORKSPACE_BUFFER_SIZE :: nat where
  "FLASHINFER_DSV4_WORKSPACE_BUFFER_SIZE = 128 * 1024 * 1024"

record workspace =
  ws_device :: nat
  ws_bytes :: nat

type_synonym workspace_registry = "(nat \<times> workspace) list"

definition get_flashinfer_dsv4_workspace :: "nat \<Rightarrow> workspace_registry \<Rightarrow> workspace \<times> workspace_registry" where
  "get_flashinfer_dsv4_workspace device reg =
     (case map_of reg device of
        Some w \<Rightarrow> (w, reg)
      | None \<Rightarrow>
          let w = \<lparr>ws_device = device, ws_bytes = FLASHINFER_DSV4_WORKSPACE_BUFFER_SIZE\<rparr>
          in (w, (device, w) # reg))"

section \<open>Layout and capability checks\<close>

text \<open>A cache pool: its element type, its shape, and the strides of its block and token dimensions.\<close>

datatype kv_dtype = KV_bfloat16 | KV_float8_e4m3fn | KV_uint8 | KV_other

record kv_pool =
  kp_dtype :: kv_dtype
  kp_shape :: "nat list"
  kp_block_stride :: nat
  kp_token_stride :: nat

definition packed_block_span :: "kv_pool \<Rightarrow> nat result" where
  "packed_block_span pool =
     raise_if (kp_block_stride pool mod kp_token_stride pool \<noteq> 0)
       (NotImplementedError ''packed KV requires the per-block stride to be a multiple of the per-token stride'')
       (Inr (kp_block_stride pool div kp_token_stride pool))"

definition SPARSE_MLA_SUPPORTED_Q_HEADS :: "nat list" where
  "SPARSE_MLA_SUPPORTED_Q_HEADS = [8, 16, 32, 64, 128]"

fun first_supported :: "nat \<Rightarrow> nat list \<Rightarrow> nat result" where
  "first_supported num_heads [] =
     Inl (ValueError ''DeepseekV4 FlashInfer MLA Sparse does not support this number of heads'')"
| "first_supported num_heads (supported # rest) =
     (if num_heads \<le> supported then Inr supported else first_supported num_heads rest)"

definition pad_to_supported_q_heads :: "nat \<Rightarrow> nat result" where
  "pad_to_supported_q_heads num_heads = first_supported num_heads SPARSE_MLA_SUPPORTED_Q_HEADS"

definition required_sm120_sparse_topk :: "(nat \<Rightarrow> nat \<Rightarrow> nat) \<Rightarrow> vllm_config \<Rightarrow> nat \<Rightarrow> nat" where
  "required_sm120_sparse_topk dspark_width cfg window_size =
     (if \<not> cfg_use_non_causal cfg then window_size
      else (case cfg_speculative_config cfg of
              None \<Rightarrow> window_size
            | Some sc \<Rightarrow> dspark_width window_size (sv_num_speculative_tokens sc)))"

definition fi_supports_compute_capability :: "nat \<times> nat \<Rightarrow> bool" where
  "fi_supports_compute_capability capability = (fst capability \<in> {10, 12})"

text \<open>The reason a combination is refused, or \<open>None\<close>.\<close>

definition supports_combination :: "bool \<Rightarrow> string option \<Rightarrow> nat \<Rightarrow> string option" where
  "supports_combination has_flashinfer_sparse_mla_sm120 kv_cache_dtype major =
     (if major = 10 then
        (if kv_cache_dtype = Some ''fp8_ds_mla''
         then Some ''FLASHINFER_MLA_SPARSE_DSV4 SM10x uses the plain per-tensor FP8 KV layout, not fp8_ds_mla''
         else if kv_cache_dtype \<notin> {None, Some ''auto'', Some ''bfloat16'', Some ''fp8'', Some ''fp8_e4m3''}
         then Some ''kv_cache_dtype not supported'' else None)
      else if major = 12 then
        (if kv_cache_dtype \<notin> {Some ''fp8'', Some ''fp8_e4m3'', Some ''fp8_ds_mla''}
         then Some ''kv_cache_dtype not supported''
         else if \<not> has_flashinfer_sparse_mla_sm120
         then Some ''FLASHINFER_MLA_SPARSE_DSV4 SM120 requires FlashInfer's sparse MLA decode API'' else None)
      else Some ''FLASHINFER_MLA_SPARSE_DSV4 requires SM10x or SM12x'')"

section \<open>The attention layer\<close>

text \<open>
  What the methods read of a layer.  \<open>al_topk_indices_buffer\<close> holds the indexer's output;
  \<open>al_scale\<close> is opaque.
\<close>

record attn_layer =
  al_compress_ratio :: nat
  al_window_size :: nat
  al_topk_indices_buffer :: "tensor2 option"
  al_kv_cache :: "kv_pool option"
  al_swa_kv_cache :: kv_pool
  al_kv_cache_torch_dtype :: kv_dtype
  al_scale :: int
  al_max_image_tokens :: nat
  al_PREFILL_CHUNK_SIZE :: nat
  al_device :: nat

text \<open>A matrix of indices: its rows and its width, which an empty matrix has too.\<close>

type_synonym idx2 = "int list list \<times> nat"

definition idx_rows :: "nat \<Rightarrow> nat \<Rightarrow> tensor2 \<Rightarrow> idx2" where
  "idx_rows a b t = (pyslice a b (rows_of t), t_cols t)"

definition empty_rows :: "nat \<Rightarrow> idx2" where
  "empty_rows n = (replicate n [], 0)"

section \<open>Sparse indices of a step (SM100)\<close>

record mixed_args =
  ma_decode_swa_indices :: "int list list"
  ma_decode_compressed_indices :: "idx2 option"
  ma_decode_compressed_topk_lens :: "int list option"
  ma_prefill_topk_indices :: "int list list"
  ma_query_start_loc :: "nat list"
  ma_seq_lens :: "nat list"
  ma_token_to_req_indices :: "nat list"
  ma_swa_block_table :: "int list list"
  ma_swa_block_size :: nat
  ma_compressed_block_table :: "int list list option"
  ma_compressed_block_size :: nat
  ma_window_size :: nat
  ma_compress_ratio :: nat
  ma_top_k :: nat
  ma_decode_compressed_indices_are_local :: bool
  ma_decode_is_valid_token :: "bool list option"
  ma_swa_block_span :: nat
  ma_compressed_block_span :: nat
  ma_prefill_left_visible :: "int list option"
  ma_prefill_right_visible :: "int list option"
  ma_max_image_tokens :: nat

text \<open>The compressed half of the arguments: (decode indices, decode lengths, prefill indices, top-k).\<close>

type_synonym compressed_part = "idx2 option \<times> int list option \<times> idx2 \<times> nat"

definition c4a_part :: "attn_layer \<Rightarrow> swa_metadata \<Rightarrow> compressed_part result" where
  "c4a_part self swa =
     (case al_topk_indices_buffer self of
        None \<Rightarrow> Inl (AssertionError ''topk_indices_buffer is not None'')
      | Some buf \<Rightarrow>
          bind_result (required ''swa_metadata.is_valid_token is not None'' (sm_is_valid_token swa)) (\<lambda>_.
          let ndt = sm_num_decode_tokens swa; npt = sm_num_prefill_tokens swa;
              prefill_topk_indices = (if npt > 0 then idx_rows ndt (ndt + npt) buf else ([], 0));
              top_k = (if npt > 0 then snd prefill_topk_indices else 0);
              decode_compressed_indices =
                (if ndt > 0 then idx_rows 0 ndt buf else ([], snd prefill_topk_indices))
          in Inr (Some decode_compressed_indices, None, prefill_topk_indices, top_k)))"

definition c128a_part :: "mla_metadata \<Rightarrow> swa_metadata \<Rightarrow> compressed_part result" where
  "c128a_part md swa =
     (let ndt = sm_num_decode_tokens swa; npt = sm_num_prefill_tokens swa
      in bind_result
           (if npt > 0 then
              (case mm_c128a_prefill_topk_indices md of
                 None \<Rightarrow> Inl (AssertionError ''c128a_prefill_topk_indices is not None'')
               | Some t \<Rightarrow> Inr ((rows_of t, t_cols t), t_cols t))
            else Inr (([], 0), 0))
           (\<lambda>(prefill_topk_indices, top_k).
              if ndt > 0 then
                (case mm_c128a_global_decode_topk_indices md of
                   None \<Rightarrow> Inl (AssertionError ''c128a_global_decode_topk_indices is not None'')
                 | Some g \<Rightarrow>
                     (case mm_c128a_decode_topk_lens md of
                        None \<Rightarrow> Inl (AssertionError ''c128a_decode_topk_lens is not None'')
                      | Some lens \<Rightarrow>
                          Inr (Some (rows_of g, t_cols g), Some (map int lens),
                               (if npt = 0 then ([], 0) else prefill_topk_indices), top_k)))
              else Inr (Some ([], snd prefill_topk_indices), Some [], prefill_topk_indices, top_k)))"

definition swa_only_part :: "attn_layer \<Rightarrow> swa_metadata \<Rightarrow> compressed_part result" where
  "swa_only_part self swa =
     (case al_topk_indices_buffer self of
        None \<Rightarrow> Inl (AssertionError ''topk_indices_buffer is not None'')
      | Some buf \<Rightarrow> Inr (None, None, empty_rows (sm_num_prefill_tokens swa), 0))"

definition compressed_part_for ::
  "attn_layer \<Rightarrow> swa_metadata \<Rightarrow> mla_metadata option \<Rightarrow> compressed_part result" where
  "compressed_part_for self swa attn_md =
     (if al_compress_ratio self \<le> 1 then swa_only_part self swa
      else
        bind_result (required ''kv_cache is not None'' (al_kv_cache self)) (\<lambda>_.
        bind_result (required ''attn_metadata is not None'' attn_md) (\<lambda>md.
          if al_compress_ratio self = 4 then c4a_part self swa else c128a_part md swa)))"

text \<open>The assertions the method begins with.\<close>

definition sparse_inputs :: "swa_metadata \<Rightarrow> (nat list \<times> nat list \<times> nat list \<times> tensor2) result" where
  "sparse_inputs swa =
     bind_result (required ''swa_metadata.seq_lens is not None'' (sm_seq_lens swa)) (\<lambda>seq_lens.
     bind_result (required ''swa_metadata.query_start_loc is not None'' (sm_query_start_loc swa)) (\<lambda>qsl.
     bind_result (required ''swa_metadata.token_to_req_indices is not None'' (sm_token_to_req_indices swa)) (\<lambda>token_to_req.
     bind_result (required ''swa_metadata.decode_swa_indices is not None'' (sm_decode_swa_indices swa)) (\<lambda>decode_indices.
     Inr (seq_lens, qsl, token_to_req, decode_indices)))))"

definition compressed_pool :: "attn_layer \<Rightarrow> kv_pool result" where
  "compressed_pool self =
     (if al_compress_ratio self \<le> 1 then Inr (al_swa_kv_cache self) else required ''kv_cache is not None'' (al_kv_cache self))"

text \<open>All arguments of \<^verbatim>\<open>build_flashinfer_mixed_sparse_indices\<close>, as the method collects them.\<close>

definition mixed_args_for ::
  "attn_layer \<Rightarrow> swa_metadata \<Rightarrow> mla_metadata option \<Rightarrow> mixed_args result" where
  "mixed_args_for self swa attn_md =
     (let swa_only = (al_compress_ratio self \<le> 1);
          num_reqs = sm_num_decodes swa + sm_num_prefills swa;
          num_tokens = sm_num_decode_tokens swa + sm_num_prefill_tokens swa
      in bind_result (sparse_inputs swa) (\<lambda>(seq_lens, qsl, token_to_req, decode_indices).
         bind_result (compressed_part_for self swa attn_md) (\<lambda>(dci, dcl, pti, top_k).
         bind_result (packed_block_span (al_swa_kv_cache self)) (\<lambda>swa_block_span.
         bind_result (compressed_pool self) (\<lambda>pool.
         bind_result (packed_block_span pool) (\<lambda>compressed_block_span.
         Inr \<lparr>ma_decode_swa_indices = rows_of decode_indices,
              ma_decode_compressed_indices = dci, ma_decode_compressed_topk_lens = dcl,
              ma_prefill_topk_indices = take (sm_num_prefill_tokens swa) (fst pti),
              ma_query_start_loc = take (num_reqs + 1) qsl,
              ma_seq_lens = take num_reqs seq_lens,
              ma_token_to_req_indices = take num_tokens token_to_req,
              ma_swa_block_table = take num_reqs (rows_of (sm_block_table swa)),
              ma_swa_block_size = sm_block_size swa,
              ma_compressed_block_table =
                (if swa_only then None
                 else map_option (\<lambda>md. take num_reqs (rows_of (mm_block_table md))) attn_md),
              ma_compressed_block_size =
                (if swa_only then sm_block_size swa
                 else (case attn_md of Some md \<Rightarrow> mm_block_size md div al_compress_ratio self | None \<Rightarrow> 0)),
              ma_window_size = al_window_size self, ma_compress_ratio = al_compress_ratio self, ma_top_k = top_k,
              ma_decode_compressed_indices_are_local = (\<not> swa_only \<and> al_compress_ratio self = 4),
              ma_decode_is_valid_token =
                (if \<not> swa_only \<and> al_compress_ratio self = 4
                 then map_option (take (sm_num_decode_tokens swa)) (sm_is_valid_token swa) else None),
              ma_swa_block_span = swa_block_span, ma_compressed_block_span = compressed_block_span,
              ma_prefill_left_visible = sm_prefill_left_visible swa,
              ma_prefill_right_visible = sm_prefill_right_visible swa,
              ma_max_image_tokens = al_max_image_tokens self\<rparr>))))))"

definition sparse_cache_key :: "attn_layer \<Rightarrow> string" where
  "sparse_cache_key self =
     (if al_compress_ratio self \<le> 1 then ''swa_only''
      else if al_compress_ratio self = 128 then ''c128a'' else ''c4a'')"

text \<open>
  The lookup, the computation on a miss, and the store; C4A stays uncached.  The inputs and the compressed
  part are collected before the lookup, so their assertions are checked on a hit as well.
\<close>

definition build_sparse_index_metadata ::
  "(mixed_args \<Rightarrow> index_entry) \<Rightarrow> attn_layer \<Rightarrow> swa_metadata \<Rightarrow> mla_metadata option
   \<Rightarrow> (index_entry \<times> swa_metadata) result" where
  "build_sparse_index_metadata mixed self swa attn_md =
     bind_result (sparse_inputs swa) (\<lambda>_.
     bind_result (compressed_part_for self swa attn_md) (\<lambda>_.
       (case map_of (sm_flashinfer_sparse_index_cache swa) (sparse_cache_key self) of
          Some entry \<Rightarrow> Inr (entry, swa)
        | None \<Rightarrow>
            bind_result (mixed_args_for self swa attn_md) (\<lambda>args.
              let entry = mixed args
              in Inr (entry,
                   if sparse_cache_key self \<noteq> ''c4a''
                   then swa\<lparr>sm_flashinfer_sparse_index_cache :=
                              (sparse_cache_key self, entry) # sm_flashinfer_sparse_index_cache swa\<rparr>
                   else swa)))))"

section \<open>Kernel calls (SM100)\<close>

text \<open>A query: tokens, heads, components.\<close>

type_synonym query_t = "int list list list"

record mla_call =
  mc_query :: query_t
  mc_swa_kv_cache :: kv_pool
  mc_compressed_kv_cache :: kv_pool
  mc_sparse_indices :: "int list list"
  mc_sparse_lens :: "int list"
  mc_seq_lens :: "nat list"
  mc_cum_seq_lens_q :: "nat list"
  mc_max_q_len :: nat
  mc_bmm1_scale :: int
  mc_workspace :: workspace
  mc_out :: "nat \<times> nat"

text \<open>Zero heads appended up to the padded count.\<close>

definition pad_heads :: "nat \<Rightarrow> nat \<Rightarrow> query_t \<Rightarrow> query_t" where
  "pad_heads padded_heads head_dim q =
     map (\<lambda>tok. if length tok < padded_heads
                then tok @ replicate (padded_heads - length tok) (replicate head_dim 0) else tok) q"

text \<open>
  \<^verbatim>\<open>_forward\<close>: the calls it makes, in order.  The FP8 path multiplies the scale by the scale
  constants 1.0 of the constructor, so both paths pass the layer's scale.
\<close>

definition sm100_forward ::
  "(mixed_args \<Rightarrow> index_entry) \<Rightarrow> attn_layer \<Rightarrow> workspace_registry \<Rightarrow> nat \<Rightarrow> nat \<Rightarrow> kv_dtype \<Rightarrow> query_t \<Rightarrow> swa_metadata
   \<Rightarrow> mla_metadata option \<Rightarrow> (mla_call list \<times> workspace_registry \<times> swa_metadata) result" where
  "sm100_forward mixed self reg padded_heads head_dim q_dtype q swa attn_md =
     raise_if (al_kv_cache_torch_dtype self \<notin> {KV_bfloat16, KV_float8_e4m3fn})
       (AssertionError ''kv_cache_torch_dtype in (torch.bfloat16, torch.float8_e4m3fn)'')
     (let num_decodes = sm_num_decodes swa; num_prefills = sm_num_prefills swa;
          ndt = sm_num_decode_tokens swa; npt = sm_num_prefill_tokens swa;
          num_reqs = num_decodes + num_prefills; num_tokens = ndt + npt
      in if num_tokens = 0 then Inr ([], reg, swa)
         else bind_result (build_sparse_index_metadata mixed self swa attn_md) (\<lambda>((ind, lens), swa').
           raise_if (q_dtype \<noteq> al_kv_cache_torch_dtype self) (AssertionError ''query.dtype'')
           (bind_result (compressed_pool self) (\<lambda>compressed_kv_cache.
            bind_result (required ''swa_metadata.seq_lens is not None'' (sm_seq_lens swa)) (\<lambda>seq_lens.
            bind_result (required ''query_start_loc is not None'' (sm_query_start_loc swa)) (\<lambda>qsl.
            bind_result (required ''query_start_loc_cpu is not None'' (sm_query_start_loc_cpu swa)) (\<lambda>qsl_cpu.
            let query = pad_heads padded_heads head_dim (take num_tokens q);
               (ws, reg') = get_flashinfer_dsv4_workspace (al_device self) reg;
               cpu = pyslice num_decodes (num_reqs + 1) qsl_cpu;
               decode_call = \<lparr>mc_query = take ndt query, mc_swa_kv_cache = al_swa_kv_cache self,
                  mc_compressed_kv_cache = compressed_kv_cache, mc_sparse_indices = take ndt ind,
                  mc_sparse_lens = take ndt lens,
                  mc_seq_lens = take num_decodes (take num_reqs seq_lens),
                  mc_cum_seq_lens_q = take (num_decodes + 1) qsl, mc_max_q_len = sm_max_decode_query_len swa,
                  mc_bmm1_scale = al_scale self, mc_workspace = ws, mc_out = (0, ndt)\<rparr>;
               prefill_call = \<lparr>mc_query = pyslice ndt num_tokens query, mc_swa_kv_cache = al_swa_kv_cache self,
                  mc_compressed_kv_cache = compressed_kv_cache,
                  mc_sparse_indices = pyslice ndt num_tokens ind, mc_sparse_lens = pyslice ndt num_tokens lens,
                  mc_seq_lens = pyslice num_decodes num_reqs (take num_reqs seq_lens),
                  mc_cum_seq_lens_q = map (\<lambda>x. x - qsl ! num_decodes) (pyslice num_decodes (num_reqs + 1) qsl),
                  mc_max_q_len = fold max (diff cpu) 0,
                  mc_bmm1_scale = al_scale self, mc_workspace = ws, mc_out = (ndt, num_tokens)\<rparr>
           in Inr ((if ndt > 0 then [decode_call] else []) @ (if npt > 0 then [prefill_call] else []), reg', swa'))))))))"

text \<open>
  What a forward pass does to its output: it is zeroed in a dummy run, or filled by the calls.
  The output has its own token count, head count, head size and type; the metadata of the forward
  context is the pair of what it holds under the layer's name and under its cache layer's name.
\<close>

datatype 'c forward_effect = ZeroOutput | KernelCalls "'c list"

record out_buffer =
  ob_tokens :: nat
  ob_heads :: nat
  ob_dim :: nat
  ob_dtype :: kv_dtype

definition check_output :: "nat \<Rightarrow> nat \<Rightarrow> kv_dtype \<Rightarrow> query_t \<Rightarrow> out_buffer \<Rightarrow> 'a result \<Rightarrow> 'a result" where
  "check_output q_heads q_dim q_dtype q out k =
     raise_if (\<not> (ob_tokens out = length q \<and> ob_dim out = q_dim))
       (AssertionError ''output buffer shape incompatible with q shape'')
     (raise_if (\<not> q_heads \<le> ob_heads out) (AssertionError ''output heads must be >= q heads'')
     (raise_if (ob_dtype out \<noteq> (if q_dtype = KV_float8_e4m3fn then KV_bfloat16 else q_dtype))
        (AssertionError ''output dtype must match expected'') k))"

definition sm100_forward_mqa ::
  "(mixed_args \<Rightarrow> index_entry) \<Rightarrow> attn_layer \<Rightarrow> workspace_registry \<Rightarrow> nat \<Rightarrow> nat \<Rightarrow> kv_dtype \<Rightarrow> query_t \<Rightarrow> out_buffer
   \<Rightarrow> (mla_metadata option \<times> swa_metadata option) option
   \<Rightarrow> (mla_call forward_effect \<times> workspace_registry \<times> swa_metadata option) result" where
  "sm100_forward_mqa mixed self reg q_heads q_dim q_dtype q out attn_metadata =
     check_output q_heads q_dim q_dtype q out
     (case attn_metadata of
        None \<Rightarrow> Inr (ZeroOutput, reg, None)
      | Some (flashmla, swa) \<Rightarrow>
          (case swa of
             None \<Rightarrow> Inl (AssertionError ''swa_metadata is not None'')
           | Some sw \<Rightarrow>
               bind_result (sm100_forward mixed self reg (ob_heads out) q_dim q_dtype q sw flashmla)
                 (\<lambda>(calls, reg', sw'). Inr (KernelCalls calls, reg', Some sw'))))"

section \<open>The workspace registry is coherent\<close>

text \<open>
  The workspace registry: whatever devices were asked for before, and in whatever order,
  a device gets one workspace of the full size on that device, asking again gives the same one and
  leaves the registry alone, and no other device's workspace changes.
\<close>

theorem workspace_per_device:
  assumes "\<forall>d w. map_of reg d = Some w \<longrightarrow> w = \<lparr>ws_device = d, ws_bytes = FLASHINFER_DSV4_WORKSPACE_BUFFER_SIZE\<rparr>"
    and "get_flashinfer_dsv4_workspace dev reg = (w, reg')"
  shows "w = \<lparr>ws_device = dev, ws_bytes = 134217728\<rparr>
    \<and> get_flashinfer_dsv4_workspace dev reg' = (w, reg')
    \<and> (\<forall>d. d \<noteq> dev \<longrightarrow> map_of reg' d = map_of reg d)
    \<and> (\<forall>d w. map_of reg' d = Some w \<longrightarrow> w = \<lparr>ws_device = d, ws_bytes = FLASHINFER_DSV4_WORKSPACE_BUFFER_SIZE\<rparr>)"
proof (cases "map_of reg dev")
  case None
  let ?f = "\<lambda>d. \<lparr>ws_device = d, ws_bytes = FLASHINFER_DSV4_WORKSPACE_BUFFER_SIZE\<rparr>"
  have r: "w = ?f dev" "reg' = (dev, ?f dev) # reg"
    using assms(2) None by (auto simp: get_flashinfer_dsv4_workspace_def Let_def)
  have coherent: "\<forall>d w. map_of reg' d = Some w \<longrightarrow> w = ?f d"
  proof (intro allI impI)
    fix d w assume "map_of reg' d = Some w"
    then show "w = ?f d"
      unfolding r(2) by (rule dict.coherent_put [where f = ?f, rotated]) (use assms(1) in blast)
  qed
  have "w = \<lparr>ws_device = dev, ws_bytes = 134217728\<rparr>"
    unfolding r(1) by (simp add: FLASHINFER_DSV4_WORKSPACE_BUFFER_SIZE_def)
  moreover have "get_flashinfer_dsv4_workspace dev reg' = (w, reg')"
    unfolding r by (simp add: get_flashinfer_dsv4_workspace_def)
  moreover have "\<forall>d. d \<noteq> dev \<longrightarrow> map_of reg' d = map_of reg d" unfolding r by simp
  ultimately show ?thesis using coherent by (intro conjI)
next
  case (Some v)
  then have "w = v" "reg' = reg" using assms(2) by (auto simp: get_flashinfer_dsv4_workspace_def)
  have "v = \<lparr>ws_device = dev, ws_bytes = FLASHINFER_DSV4_WORKSPACE_BUFFER_SIZE\<rparr>"
    using assms(1) Some by blast
  then have "w = \<lparr>ws_device = dev, ws_bytes = 134217728\<rparr>"
    unfolding \<open>w = v\<close> by (simp add: FLASHINFER_DSV4_WORKSPACE_BUFFER_SIZE_def)
  moreover have "get_flashinfer_dsv4_workspace dev reg' = (w, reg')"
    unfolding \<open>w = v\<close> \<open>reg' = reg\<close> using Some by (simp add: get_flashinfer_dsv4_workspace_def)
  ultimately show ?thesis unfolding \<open>reg' = reg\<close> using assms(1) by (intro conjI) blast+
qed

theorem workspace_per_device_witness:
  "get_flashinfer_dsv4_workspace 3 (snd (get_flashinfer_dsv4_workspace 3 []))
     = (\<lparr>ws_device = 3, ws_bytes = 134217728\<rparr>, snd (get_flashinfer_dsv4_workspace 3 []))"
proof -
  obtain w reg' where r: "get_flashinfer_dsv4_workspace 3 [] = (w, reg')" by fastforce
  from workspace_per_device [OF _ r] show ?thesis unfolding r by simp
qed

section \<open>The sparse index cache never goes stale\<close>

text \<open>
  Layers of one cache key are alike in everything the cached indices depend on, as the layers of
  one type of a DeepSeek-V4 model are.
\<close>

definition alike :: "attn_layer \<Rightarrow> attn_layer \<Rightarrow> bool" where
  "alike l l' \<longleftrightarrow>
     al_compress_ratio l = al_compress_ratio l' \<and> al_window_size l = al_window_size l' \<and>
     al_kv_cache l = al_kv_cache l' \<and> al_swa_kv_cache l = al_swa_kv_cache l' \<and>
     al_max_image_tokens l = al_max_image_tokens l' \<and>
     (al_topk_indices_buffer l = None) = (al_topk_indices_buffer l' = None)"

definition uniform_layers :: "attn_layer list \<Rightarrow> bool" where
  "uniform_layers ls \<longleftrightarrow> (\<forall>l \<in> set ls. \<forall>l' \<in> set ls.
     sparse_cache_key l = sparse_cache_key l' \<and> sparse_cache_key l \<noteq> ''c4a'' \<longrightarrow> alike l l')"

lemma alike_args:
  assumes "alike l l'" "sparse_cache_key l \<noteq> ''c4a''"
  shows "mixed_args_for l swa md = mixed_args_for l' swa md"
proof -
  have r: "al_compress_ratio l \<le> 1 \<or> al_compress_ratio l = 128"
    using assms(2) by (auto simp: sparse_cache_key_def split: if_splits)
  have cp: "compressed_part_for l swa md = compressed_part_for l' swa md"
    using assms(1) r
    by (auto simp: compressed_part_for_def swa_only_part_def alike_def split: option.splits)
  have eqs: "al_compress_ratio l = al_compress_ratio l'" "al_window_size l = al_window_size l'"
      "al_kv_cache l = al_kv_cache l'" "al_swa_kv_cache l = al_swa_kv_cache l'"
      "al_max_image_tokens l = al_max_image_tokens l'"
    using assms(1) by (simp_all add: alike_def)
  show ?thesis by (simp only: mixed_args_for_def compressed_pool_def cp eqs)
qed

text \<open>The arguments do not depend on the cache itself.\<close>

lemma compressed_part_cache:
  "compressed_part_for l (swa\<lparr>sm_flashinfer_sparse_index_cache := c\<rparr>) md = compressed_part_for l swa md"
proof -
  have p: "c4a_part l (swa\<lparr>sm_flashinfer_sparse_index_cache := c\<rparr>) = c4a_part l swa"
    "c128a_part m (swa\<lparr>sm_flashinfer_sparse_index_cache := c\<rparr>) = c128a_part m swa"
    "swa_only_part l (swa\<lparr>sm_flashinfer_sparse_index_cache := c\<rparr>) = swa_only_part l swa" for m
    by (simp_all add: c4a_part_def c128a_part_def swa_only_part_def split: option.split)
  show ?thesis unfolding compressed_part_for_def p by simp
qed

lemma sparse_inputs_cache: "sparse_inputs (swa\<lparr>sm_flashinfer_sparse_index_cache := c\<rparr>) = sparse_inputs swa"
  by (simp add: sparse_inputs_def)

lemma mixed_args_cache:
  "mixed_args_for l (swa\<lparr>sm_flashinfer_sparse_index_cache := c\<rparr>) md = mixed_args_for l swa md"
  by (simp add: mixed_args_for_def compressed_part_cache sparse_inputs_cache Let_def)

text \<open>
  The steps of a decode step with its draft steps: a layer asks for its sparse indices, or the
  sequence lengths (and the sparse-MLA metadata) move on and the metadata is updated.
\<close>

inductive serve_step ::
  "platform \<Rightarrow> swa_ext \<Rightarrow> swa_builder \<Rightarrow> (mixed_args \<Rightarrow> index_entry) \<Rightarrow> attn_layer list
   \<Rightarrow> swa_metadata \<times> mla_metadata option \<Rightarrow> swa_metadata \<times> mla_metadata option \<Rightarrow> bool"
  for p sx self mixed layers where
  forward: "l \<in> set layers \<Longrightarrow> build_sparse_index_metadata mixed l swa md = Inr (entry, swa') \<Longrightarrow>
     serve_step p sx self mixed layers (swa, md) (swa', md)"
| draft: "update_draft_decode_metadata p sx self (swa\<lparr>sm_seq_lens := Some ss\<rparr>) = Inr swa' \<Longrightarrow>
     serve_step p sx self mixed layers (swa, md) (swa', md')"

inductive_cases serve_stepE: "serve_step p sx self mixed layers st st'"

inductive serve_reach ::
  "platform \<Rightarrow> swa_ext \<Rightarrow> swa_builder \<Rightarrow> (mixed_args \<Rightarrow> index_entry) \<Rightarrow> attn_layer list
   \<Rightarrow> swa_metadata \<times> mla_metadata option \<Rightarrow> swa_metadata \<times> mla_metadata option \<Rightarrow> bool"
  for p sx self mixed layers st where
  start: "serve_reach p sx self mixed layers st st"
| step: "serve_reach p sx self mixed layers st st' \<Longrightarrow> serve_step p sx self mixed layers st' st'' \<Longrightarrow>
     serve_reach p sx self mixed layers st st''"

text \<open>The invariant: there are decode tokens, and every entry a layer would hit is its own.\<close>

definition cache_fresh :: "(mixed_args \<Rightarrow> index_entry) \<Rightarrow> attn_layer list \<Rightarrow> swa_metadata \<times> mla_metadata option \<Rightarrow> bool" where
  "cache_fresh mixed layers st \<longleftrightarrow>
     0 < sm_num_decode_tokens (fst st) \<and> map_of (sm_flashinfer_sparse_index_cache (fst st)) ''c4a'' = None \<and>
     (\<forall>l \<in> set layers. \<forall>e. map_of (sm_flashinfer_sparse_index_cache (fst st)) (sparse_cache_key l) = Some e \<longrightarrow>
        (\<exists>args. mixed_args_for l (fst st) (snd st) = Inr args \<and> e = mixed args))"

text \<open>A layer call changes the cache alone; an update moves the window rows and the plans, and empties it.\<close>

lemma build_sparse_keeps:
  assumes "build_sparse_index_metadata mixed l swa md = Inr (entry, swa')"
  shows "swa' = swa \<or> (\<exists>c. swa' = swa\<lparr>sm_flashinfer_sparse_index_cache := c\<rparr>)"
  using assms unfolding build_sparse_index_metadata_def bind_result_eq_Inr Let_def
  by (auto simp: bind_result_eq_Inr split: option.splits if_splits)

lemma update_draft_result:
  assumes "update_draft_decode_metadata p sx self md = Inr md'" "0 < sm_num_decode_tokens md"
  shows "\<exists>ind lens s1 s2 s3. md' = md\<lparr>sm_decode_swa_indices := Some ind, sm_decode_swa_lens := Some lens,
    sm_tile_sched_swaonly := s1, sm_tile_sched_c4a := s2, sm_tile_sched_c128a := s3, sm_flashinfer_sparse_index_cache := []\<rparr>"
proof -
  obtain di dl args where "md' = (let (ind, lens) = compute_swa_indices_and_lens args (sm_num_decode_tokens md) di dl;
        tile_sched = build_tile_scheduler p sx self (sm_num_decode_tokens md)
      in md\<lparr>sm_decode_swa_indices := Some ind, sm_decode_swa_lens := Some lens,
        sm_tile_sched_swaonly := tile_sched LAYER_TYPE_SWAONLY, sm_tile_sched_c4a := tile_sched LAYER_TYPE_C4A,
        sm_tile_sched_c128a := tile_sched LAYER_TYPE_C128A, sm_flashinfer_sparse_index_cache := []\<rparr>)"
    using assms by (auto simp: update_draft_decode_metadata_def bind_result_eq_Inr required_eq_Inr case_prod_beta Let_def)
  then show ?thesis unfolding Let_def case_prod_beta by (intro exI)
qed

lemma forward_fresh:
  assumes "cache_fresh mixed layers (swa, md)" "uniform_layers layers" "l \<in> set layers"
    and "build_sparse_index_metadata mixed l swa md = Inr (entry, swa')"
  shows "(\<exists>args. mixed_args_for l swa md = Inr args \<and> entry = mixed args) \<and> cache_fresh mixed layers (swa', md)"
proof (cases "map_of (sm_flashinfer_sparse_index_cache swa) (sparse_cache_key l)")
  case (Some e)
  then have "entry = e" "swa' = swa"
    using assms(4) by (auto simp: build_sparse_index_metadata_def bind_result_eq_Inr)
  moreover have "\<exists>args. mixed_args_for l swa md = Inr args \<and> e = mixed args"
    using assms(1,3) Some unfolding cache_fresh_def fst_conv snd_conv by blast
  ultimately show ?thesis using assms(1) by (simp only:)
next
  case None
  then obtain args where args: "mixed_args_for l swa md = Inr args" "entry = mixed args"
    and swa': "swa' = (if sparse_cache_key l \<noteq> ''c4a''
      then swa\<lparr>sm_flashinfer_sparse_index_cache :=
         (sparse_cache_key l, entry) # sm_flashinfer_sparse_index_cache swa\<rparr> else swa)"
    using assms(4) by (auto simp: build_sparse_index_metadata_def bind_result_eq_Inr Let_def)
  have "cache_fresh mixed layers (swa', md)"
  proof (cases "sparse_cache_key l = ''c4a''")
    case True
    then show ?thesis using swa' assms(1) by simp
  next
    case False
    have "\<exists>args. mixed_args_for l' swa md = Inr args \<and> e = mixed args"
      if "l' \<in> set layers" "map_of ((sparse_cache_key l, entry) # sm_flashinfer_sparse_index_cache swa) (sparse_cache_key l') = Some e"
      for l' e
    proof (cases "sparse_cache_key l' = sparse_cache_key l")
      case True
      have "alike l l'"
        using assms(2,3) that(1) True False unfolding uniform_layers_def by metis
      then show ?thesis using alike_args [OF _ False] args that(2) True by auto
    next
      case neq: False
      then have "map_of (sm_flashinfer_sparse_index_cache swa) (sparse_cache_key l') = Some e"
        using that(2) by simp
      then show ?thesis using that(1) assms(1) unfolding cache_fresh_def fst_conv snd_conv by blast
    qed
    then show ?thesis
      using False assms(1) unfolding swa' cache_fresh_def by (simp add: mixed_args_cache)
  qed
  then show ?thesis using args by blast
qed

lemma draft_fresh:
  assumes "cache_fresh mixed layers (swa, md)" "update_draft_decode_metadata p sx self (swa\<lparr>sm_seq_lens := Some ss\<rparr>) = Inr swa'"
  shows "cache_fresh mixed layers (swa', md')"
proof -
  have n: "0 < sm_num_decode_tokens (swa\<lparr>sm_seq_lens := Some ss\<rparr>)" using assms(1) by (simp add: cache_fresh_def)
  then show ?thesis using update_draft_result [OF assms(2) n] by (auto simp: cache_fresh_def)
qed

lemma serve_reach_fresh:
  assumes "serve_reach p sx self mixed layers st st'" "cache_fresh mixed layers st" "uniform_layers layers"
  shows "cache_fresh mixed layers st'"
  using assms(1)
proof (induction rule: serve_reach.induct)
  case (step st' st'')
  from step.hyps(2) show ?case
    by (cases rule: serve_step.cases) (use forward_fresh draft_fresh step.IH assms(3) in blast)+
qed (use assms in simp)

text \<open>
  C22. The sparse index cache is transparent.  From the metadata of a fresh \<^verbatim>\<open>build\<close>, through any
  sequence of layer calls and draft updates, whatever a layer gets from
  \<^verbatim>\<open>_build_sparse_index_metadata\<close>, from the cache or not, is what computing it from the current
  metadata gives: no layer ever attends through indices of an earlier draft position.
\<close>

theorem sparse_cache_transparent:
  assumes "serve_reach p sx self mixed layers (swa0, md0) (swa, md)"
    and "sm_flashinfer_sparse_index_cache swa0 = []" "0 < sm_num_decode_tokens swa0"
    and "uniform_layers layers" "l \<in> set layers"
    and "build_sparse_index_metadata mixed l swa md = Inr (entry, swa')"
  shows "\<exists>args. mixed_args_for l swa md = Inr args \<and> entry = mixed args"
proof -
  have "cache_fresh mixed layers (swa0, md0)" using assms(2,3) by (simp add: cache_fresh_def)
  from serve_reach_fresh [OF assms(1) this assms(4)] have "cache_fresh mixed layers (swa, md)" .
  from forward_fresh [OF this assms(4,5,6)] show ?thesis by blast
qed

definition fi_demo_layer :: attn_layer where
  "fi_demo_layer = \<lparr>al_compress_ratio = 1, al_window_size = 4,
     al_topk_indices_buffer = Some \<lparr>t_data = [], t_stride = 0, t_rows = 0, t_cols = 0\<rparr>,
     al_kv_cache = Some \<lparr>kp_dtype = KV_bfloat16, kp_shape = [8, 64, 1], kp_block_stride = 64, kp_token_stride = 1\<rparr>,
     al_swa_kv_cache = \<lparr>kp_dtype = KV_bfloat16, kp_shape = [8, 64, 1], kp_block_stride = 64, kp_token_stride = 1\<rparr>,
     al_kv_cache_torch_dtype = KV_bfloat16, al_scale = 1, al_max_image_tokens = 0,
     al_PREFILL_CHUNK_SIZE = 4, al_device = 0\<rparr>"

definition fi_demo_mixed :: "mixed_args \<Rightarrow> index_entry" where
  "fi_demo_mixed a = ([map int (ma_seq_lens a)], [0])"

definition fi_demo_swa :: swa_metadata where
  "fi_demo_swa = swa_demo_metadata\<lparr>sm_num_decodes := 2, sm_num_prefills := 0, sm_num_decode_tokens := 4,
     sm_num_prefill_tokens := 0, sm_seq_lens := Some [6, 3]\<rparr>"

text \<open>Two layers, a draft update, then a third call that must see the new lengths.\<close>

theorem sparse_cache_transparent_witness:
  "\<exists>swa1 swa2 swa' e1 e2. build_sparse_index_metadata fi_demo_mixed fi_demo_layer fi_demo_swa None = Inr (e1, swa1)
    \<and> update_draft_decode_metadata sm121 swa_demo_ext swa_demo_builder (swa1\<lparr>sm_seq_lens := Some [7, 4]\<rparr>) = Inr swa2
    \<and> build_sparse_index_metadata fi_demo_mixed fi_demo_layer swa2 None = Inr (e2, swa')
    \<and> e1 = ([[6, 3]], [0]) \<and> e2 = ([[7, 4]], [0])"
proof -
  let ?L = "[fi_demo_layer]"
  define full :: "swa_metadata \<Rightarrow> nat list \<Rightarrow> bool" where
    "full swa ss = (sm_num_decodes swa = 2 \<and> sm_num_prefills swa = 0 \<and> sm_num_decode_tokens swa = 4 \<and> sm_seq_lens swa = Some ss \<and>
       sm_query_start_loc swa \<noteq> None \<and> sm_token_to_req_indices swa \<noteq> None \<and> sm_is_valid_token swa \<noteq> None \<and>
       sm_decode_swa_indices swa \<noteq> None \<and> sm_decode_swa_lens swa \<noteq> None)" for swa ss
  have c: "\<exists>cp. compressed_part_for fi_demo_layer swa None = Inr cp" for swa
    by (simp add: compressed_part_for_def swa_only_part_def fi_demo_layer_def)
  have a: "\<exists>args. mixed_args_for fi_demo_layer swa None = Inr args \<and> ma_seq_lens args = take 2 ss" if "full swa ss" for swa ss
    using that c [of swa]
    by (auto simp: mixed_args_for_def compressed_pool_def sparse_inputs_def fi_demo_layer_def packed_block_span_def
        raise_if_def Let_def full_def)
  have tot: "\<exists>e swa'. build_sparse_index_metadata fi_demo_mixed fi_demo_layer swa None = Inr (e, swa')" if "full swa ss" for swa ss
    using a [OF that] c [of swa] that
    by (auto simp: build_sparse_index_metadata_def sparse_inputs_def full_def Let_def split: option.split)
  have u: "uniform_layers ?L" by (simp add: uniform_layers_def alike_def)
  have f0: "full fi_demo_swa [6, 3]" by (simp add: full_def fi_demo_swa_def swa_demo_metadata_def)
  obtain e1 swa1 where r1: "build_sparse_index_metadata fi_demo_mixed fi_demo_layer fi_demo_swa None = Inr (e1, swa1)"
    using tot [OF f0] by blast
  have f1: "full (swa1\<lparr>sm_seq_lens := Some [7, 4]\<rparr>) [7, 4]"
    using f0 build_sparse_keeps [OF r1] by (auto simp: full_def)
  have n1: "0 < sm_num_decode_tokens (swa1\<lparr>sm_seq_lens := Some [7, 4]\<rparr>)" using f1 by (simp add: full_def)
  obtain swa2 where d: "update_draft_decode_metadata sm121 swa_demo_ext swa_demo_builder (swa1\<lparr>sm_seq_lens := Some [7, 4]\<rparr>) = Inr swa2"
    using f1 by (auto simp: update_draft_decode_metadata_def full_def Let_def case_prod_beta)
  have f2: "full swa2 [7, 4]" using f1 update_draft_result [OF d n1] by (auto simp: full_def)
  obtain e2 swa3 where r2: "build_sparse_index_metadata fi_demo_mixed fi_demo_layer swa2 None = Inr (e2, swa3)"
    using tot [OF f2] by blast
  have s0: "sm_flashinfer_sparse_index_cache fi_demo_swa = []" "0 < sm_num_decode_tokens fi_demo_swa"
    by (simp_all add: fi_demo_swa_def swa_demo_metadata_def)
  have reach1: "serve_reach sm121 swa_demo_ext swa_demo_builder fi_demo_mixed ?L (fi_demo_swa, None) (swa1, None)"
    by (rule serve_reach.step [OF serve_reach.start serve_step.forward [OF _ r1]]) simp
  have reach2: "serve_reach sm121 swa_demo_ext swa_demo_builder fi_demo_mixed ?L (fi_demo_swa, None) (swa2, None)"
    by (rule serve_reach.step [OF reach1 serve_step.draft [OF d]])
  have "e1 = ([[6, 3]], [0])"
    using sparse_cache_transparent [OF serve_reach.start s0 u _ r1] a [OF f0] by (auto simp: fi_demo_mixed_def)
  moreover have "e2 = ([[7, 4]], [0])"
    using sparse_cache_transparent [OF reach2 s0 u _ r2] a [OF f2] by (auto simp: fi_demo_mixed_def)
  ultimately show ?thesis using r1 d r2 by blast
qed

end
