(* ===== verification/FlashInferSM120.thy ===== *)
theory FlashInferSM120
  imports FlashInferSparse
begin

text \<open>
  The FlashInfer backend, second part: \<^verbatim>\<open>DeepseekV4FlashInferSM120Attention\<close> of
  \<^verbatim>\<open>src/docker/overlay-sm121-adaptive/flashinfer_sparse.py\<close>, the attention layer of the SM12x
  devices.  Its prefill splits the requests into chunks of \<^verbatim>\<open>PREFILL_CHUNK_SIZE\<close> and makes one
  kernel call per chunk; its decode is one call.

  \<^verbatim>\<open>compute_global_topk_indices_and_lens\<close> is library code and a parameter, \<open>gtopk\<close>.
\<close>

section \<open>Caches and queries\<close>

text \<open>\<^verbatim>\<open>unsqueeze(-2)\<close> puts a dimension of size one before the last.\<close>

definition as_sparse_cache :: "kv_pool \<Rightarrow> kv_pool" where
  "as_sparse_cache kv =
     (let kv1 = (if kp_dtype kv = KV_float8_e4m3fn then kv\<lparr>kp_dtype := KV_uint8\<rparr> else kv);
          sh = kp_shape kv1
      in if length sh = 4 then kv1 else kv1\<lparr>kp_shape := butlast sh @ [1, last sh]\<rparr>)"

definition sm120_init :: "(nat \<Rightarrow> nat \<Rightarrow> nat) \<Rightarrow> (nat \<Rightarrow> nat \<Rightarrow> bool) \<Rightarrow> vllm_config \<Rightarrow> nat \<Rightarrow> nat \<Rightarrow> unit result" where
  "sm120_init dspark_width has_config cfg padded_heads window_size =
     raise_if (\<not> has_config padded_heads (required_sm120_sparse_topk dspark_width cfg window_size))
       (RuntimeError ''FLASHINFER_MLA_SPARSE_DSV4 on SM120 requires a FlashInfer DSV4 sparse MLA decode specialization'')
       (Inr ())"

definition prepare_query :: "attn_layer \<Rightarrow> nat \<Rightarrow> nat \<Rightarrow> kv_dtype \<Rightarrow> query_t \<Rightarrow> query_t result" where
  "prepare_query self padded_heads head_dim q_dtype q =
     raise_if (if al_kv_cache_torch_dtype self = KV_float8_e4m3fn then q_dtype \<noteq> KV_float8_e4m3fn
               else q_dtype \<noteq> KV_bfloat16) (AssertionError ''q.dtype'')
       (Inr (pad_heads padded_heads head_dim q))"

section \<open>Kernel calls\<close>

record sm120_call =
  sc_query :: query_t
  sc_swa_kv_cache :: kv_pool
  sc_workspace_buffer :: workspace
  sc_sparse_indices :: "int list list"
  sc_compressed_kv_cache :: "kv_pool option"
  sc_out :: "nat \<times> nat"
  sc_bmm1_scale :: int
  sc_swa_topk_lens :: "int list"
  sc_extra_sparse_indices :: "int list list option"
  sc_extra_sparse_topk_lens :: "int list option"

text \<open>A missing request mapping is handed on to the kernel in the decode part, where the code does not test it.\<close>

type_synonym global_topk =
  "int list list \<Rightarrow> nat list option \<Rightarrow> int list list \<Rightarrow> nat \<Rightarrow> bool list \<Rightarrow> int list list \<times> int list"

text \<open>The extra indices and lengths of the decode tokens.\<close>

definition decode_extra ::
  "global_topk \<Rightarrow> attn_layer \<Rightarrow> swa_metadata \<Rightarrow> mla_metadata option \<Rightarrow> bool
   \<Rightarrow> (int list list option \<times> int list option) result" where
  "decode_extra gtopk self swa attn_md swa_only =
     (if swa_only then Inr (None, None)
      else (case attn_md of
              None \<Rightarrow> Inl (RuntimeError ''Sparse MLA metadata is required for compressed layers.'')
            | Some md \<Rightarrow>
           (case sm_is_valid_token swa of
              None \<Rightarrow> Inl (RuntimeError ''SWA validity metadata is required for compressed layers.'')
            | Some is_valid_token \<Rightarrow>
                if al_compress_ratio self = 4 then
                  (case al_topk_indices_buffer self of
                     None \<Rightarrow> Inl (RuntimeError ''C4A decode requires top-k indices from the indexer.'')
                   | Some buf \<Rightarrow>
                       (case gtopk (take (sm_num_decode_tokens swa) (rows_of buf)) (sm_token_to_req_indices swa)
                               (take (sm_num_decodes swa) (rows_of (mm_block_table md)))
                               (mm_block_size md div al_compress_ratio self)
                               (take (sm_num_decode_tokens swa) is_valid_token) of
                          (ind, lens) \<Rightarrow> Inr (Some ind, Some lens)))
                else Inr (map_option rows_of (mm_c128a_global_decode_topk_indices md),
                          map_option (map int) (mm_c128a_decode_topk_lens md)))))"

definition forward_decode ::
  "global_topk \<Rightarrow> attn_layer \<Rightarrow> workspace_registry \<Rightarrow> nat \<Rightarrow> nat \<Rightarrow> kv_dtype \<Rightarrow> query_t \<Rightarrow> kv_pool option \<Rightarrow> swa_metadata
   \<Rightarrow> mla_metadata option \<Rightarrow> bool \<Rightarrow> (sm120_call \<times> workspace_registry) result" where
  "forward_decode gtopk self reg padded_heads head_dim q_dtype q kv_cache swa attn_md swa_only =
     bind_result (decode_extra gtopk self swa attn_md swa_only) (\<lambda>(extra_ind, extra_lens).
     bind_result (required ''swa_indices is not None'' (sm_decode_swa_indices swa)) (\<lambda>swa_indices.
     bind_result (required ''swa_lens is not None'' (sm_decode_swa_lens swa)) (\<lambda>swa_lens.
     bind_result (prepare_query self padded_heads head_dim q_dtype q) (\<lambda>query.
       let extra_cache = map_option as_sparse_cache kv_cache
       in raise_if (extra_cache \<noteq> None \<and> extra_ind = None)
            (RuntimeError ''Compressed sparse MLA decode requires compressed sparse indices.'')
          (let (ws, reg') = get_flashinfer_dsv4_workspace (al_device self) reg
           in Inr (\<lparr>sc_query = query, sc_swa_kv_cache = as_sparse_cache (al_swa_kv_cache self),
                    sc_workspace_buffer = ws, sc_sparse_indices = rows_of swa_indices,
                    sc_compressed_kv_cache = extra_cache, sc_out = (0, sm_num_decode_tokens swa),
                    sc_bmm1_scale = al_scale self, sc_swa_topk_lens = swa_lens,
                    sc_extra_sparse_indices = extra_ind, sc_extra_sparse_topk_lens = extra_lens\<rparr>, reg'))))))"

section \<open>Prefill\<close>

text \<open>The local top-k rows: from the indexer for C4A, from the metadata for C128A.\<close>

definition local_topk_indices ::
  "attn_layer \<Rightarrow> swa_metadata \<Rightarrow> mla_metadata option \<Rightarrow> int list list option result" where
  "local_topk_indices self swa attn_md =
     (if al_compress_ratio self \<le> 1 then Inr None
      else if al_compress_ratio self = 4 then
        (case al_topk_indices_buffer self of
           None \<Rightarrow> Inl (RuntimeError ''C4A prefill requires top-k indices from the indexer.'')
         | Some buf \<Rightarrow> Inr (Some (pyslice (sm_num_decode_tokens swa)
                              (sm_num_decode_tokens swa + sm_num_prefill_tokens swa) (rows_of buf))))
      else (case attn_md of
              None \<Rightarrow> Inl (RuntimeError ''C128A prefill metadata is missing.'')
            | Some md \<Rightarrow> Inr (map_option rows_of (mm_c128a_prefill_topk_indices md))))"

definition prefill_extra ::
  "global_topk \<Rightarrow> attn_layer \<Rightarrow> swa_metadata \<Rightarrow> mla_metadata option
   \<Rightarrow> (int list list option \<times> int list option) result" where
  "prefill_extra gtopk self swa attn_md =
     bind_result (local_topk_indices self swa attn_md) (\<lambda>local.
       (case local of
          None \<Rightarrow> Inr (None, None)
        | Some topk \<Rightarrow>
            (case attn_md of
               None \<Rightarrow> Inl (RuntimeError ''C4A prefill metadata is missing.'')
             | Some md \<Rightarrow>
            (case sm_token_to_req_indices swa of
               None \<Rightarrow> Inl (RuntimeError ''C4A prefill request mapping is missing.'')
             | Some token_to_req \<Rightarrow>
            (case sm_is_valid_token swa of
               None \<Rightarrow> Inl (RuntimeError ''C4A prefill validity metadata is missing.'')
             | Some is_valid_token \<Rightarrow>
                 let ndt = sm_num_decode_tokens swa; stop = ndt + sm_num_prefill_tokens swa;
                     (ind, lens) = gtopk topk (Some (pyslice ndt stop token_to_req))
                       (rows_of (mm_block_table md)) (mm_block_size md div al_compress_ratio self)
                       (pyslice ndt stop is_valid_token)
                 in Inr (Some ind, Some lens))))))"

text \<open>The chunks of requests: \<^verbatim>\<open>chunk_idx * PREFILL_CHUNK_SIZE\<close> to the smaller of the next one and the end.\<close>

definition prefill_request_chunks :: "nat \<Rightarrow> nat \<Rightarrow> (nat \<times> nat) list" where
  "prefill_request_chunks chunk_size num_prefills =
     map (\<lambda>chunk_idx. (chunk_idx * chunk_size, min (chunk_idx * chunk_size + chunk_size) num_prefills))
       [0..<cdiv num_prefills chunk_size]"

text \<open>The loop: a call per chunk, with the workspace registry threaded through.\<close>

fun prefill_calls ::
  "(nat \<Rightarrow> nat \<Rightarrow> workspace \<Rightarrow> sm120_call result) \<Rightarrow> nat \<Rightarrow> (nat \<times> nat) list \<Rightarrow> workspace_registry
   \<Rightarrow> (sm120_call list \<times> workspace_registry) result" where
  "prefill_calls call_for device [] reg = Inr ([], reg)"
| "prefill_calls call_for device ((query_start, query_end) # rest) reg =
     (let (ws, reg1) = get_flashinfer_dsv4_workspace device reg
      in bind_result (call_for query_start query_end ws) (\<lambda>call.
         bind_result (prefill_calls call_for device rest reg1) (\<lambda>(calls, reg2).
         Inr (call # calls, reg2))))"

definition prefill_chunk_call ::
  "attn_layer \<Rightarrow> nat \<Rightarrow> query_t \<Rightarrow> int list list \<Rightarrow> int list \<Rightarrow> int list list option \<Rightarrow> int list option
   \<Rightarrow> kv_pool option \<Rightarrow> nat \<Rightarrow> nat \<Rightarrow> workspace \<Rightarrow> sm120_call result" where
  "prefill_chunk_call self out_base query swa_ind swa_lens extra_ind extra_lens extra_cache query_start query_end ws =
     raise_if (extra_cache \<noteq> None \<and> extra_ind = None)
       (RuntimeError ''Compressed sparse MLA prefill requires compressed sparse indices.'')
       (Inr \<lparr>sc_query = pyslice query_start query_end query,
             sc_swa_kv_cache = as_sparse_cache (al_swa_kv_cache self), sc_workspace_buffer = ws,
             sc_sparse_indices = pyslice query_start query_end swa_ind,
             sc_compressed_kv_cache = extra_cache, sc_out = (out_base + query_start, out_base + query_end),
             sc_bmm1_scale = al_scale self, sc_swa_topk_lens = pyslice query_start query_end swa_lens,
             sc_extra_sparse_indices = map_option (pyslice query_start query_end) extra_ind,
             sc_extra_sparse_topk_lens = map_option (pyslice query_start query_end) extra_lens\<rparr>)"

definition forward_prefill ::
  "global_topk \<Rightarrow> attn_layer \<Rightarrow> workspace_registry \<Rightarrow> nat \<Rightarrow> nat \<Rightarrow> kv_dtype \<Rightarrow> query_t \<Rightarrow> kv_pool option \<Rightarrow> swa_metadata
   \<Rightarrow> mla_metadata option \<Rightarrow> (sm120_call list \<times> workspace_registry) result" where
  "forward_prefill gtopk self reg padded_heads head_dim q_dtype q compressed_k_cache swa attn_md =
     bind_result (required ''query_start_loc_cpu is not None'' (sm_query_start_loc_cpu swa)) (\<lambda>qsl.
      let nd = sm_num_decodes swa; prefill_token_base = qsl ! nd
      in bind_result (prefill_extra gtopk self swa attn_md) (\<lambda>(extra_ind, extra_lens).
         (case sm_prefill_swa_indices swa of
            None \<Rightarrow> Inl (AssertionError ''swa_metadata.prefill_swa_indices is not None'')
          | Some swa_ind \<Rightarrow>
         (case sm_prefill_swa_lens swa of
            None \<Rightarrow> Inl (AssertionError ''swa_metadata.prefill_swa_lens is not None'')
          | Some swa_lens \<Rightarrow>
         bind_result (prepare_query self padded_heads head_dim q_dtype q) (\<lambda>query.
         bind_result
           (if al_compress_ratio self \<le> 1 then Inr None
            else (case compressed_k_cache of
                    None \<Rightarrow> Inl (RuntimeError ''Compressed sparse MLA layers require their compressed KV cache.'')
                  | Some kv \<Rightarrow> Inr (Some (as_sparse_cache kv)))) (\<lambda>extra_cache.
           let bounds = map (\<lambda>(chunk_start, chunk_end).
                   (qsl ! (nd + chunk_start) - prefill_token_base, qsl ! (nd + chunk_end) - prefill_token_base))
                 (prefill_request_chunks (al_PREFILL_CHUNK_SIZE self) (sm_num_prefills swa))
           in prefill_calls
                (prefill_chunk_call self (sm_num_decode_tokens swa) query (rows_of swa_ind) swa_lens
                   extra_ind extra_lens extra_cache)
                (al_device self) bounds reg))))))"

section \<open>A forward pass\<close>

definition forward_sparse_impl ::
  "global_topk \<Rightarrow> attn_layer \<Rightarrow> workspace_registry \<Rightarrow> nat \<Rightarrow> nat \<Rightarrow> kv_dtype \<Rightarrow> query_t \<Rightarrow> mla_metadata option
   \<Rightarrow> swa_metadata \<Rightarrow> kv_pool option \<Rightarrow> bool \<Rightarrow> (sm120_call list \<times> workspace_registry) result" where
  "forward_sparse_impl gtopk self reg padded_heads head_dim q_dtype q attn_md swa self_kv_cache swa_only =
     (let ndt = sm_num_decode_tokens swa
      in bind_result
           (if sm_num_prefills swa > 0
            then forward_prefill gtopk self reg padded_heads head_dim q_dtype (drop ndt q) self_kv_cache swa attn_md
            else Inr ([], reg))
           (\<lambda>(prefill, reg1).
              if sm_num_decodes swa > 0
              then bind_result (forward_decode gtopk self reg1 padded_heads head_dim q_dtype (take ndt q) self_kv_cache swa attn_md swa_only)
                     (\<lambda>(call, reg2). Inr (prefill @ [call], reg2))
              else Inr (prefill, reg1)))"

text \<open>A layer without compression has no compressed cache of its own.\<close>

definition self_kv_cache :: "attn_layer \<Rightarrow> kv_pool option" where
  "self_kv_cache self = (if al_compress_ratio self \<le> 1 then None else al_kv_cache self)"

text \<open>A dummy run reserves the workspace before it zeroes the output.\<close>

definition forward_mqa ::
  "global_topk \<Rightarrow> attn_layer \<Rightarrow> workspace_registry \<Rightarrow> nat \<Rightarrow> nat \<Rightarrow> kv_dtype \<Rightarrow> query_t \<Rightarrow> out_buffer
   \<Rightarrow> (mla_metadata option \<times> swa_metadata option) option
   \<Rightarrow> (sm120_call forward_effect \<times> workspace_registry) result" where
  "forward_mqa gtopk self reg q_heads q_dim q_dtype q out attn_metadata =
     check_output q_heads q_dim q_dtype q out
     (case attn_metadata of
        None \<Rightarrow> Inr (ZeroOutput, snd (get_flashinfer_dsv4_workspace (al_device self) reg))
      | Some (flashmla, swa) \<Rightarrow>
          (case swa of
             None \<Rightarrow> Inl (AssertionError ''swa_metadata is not None'')
           | Some sw \<Rightarrow>
               bind_result (forward_sparse_impl gtopk self reg (ob_heads out) q_dim q_dtype q flashmla sw (self_kv_cache self) (al_compress_ratio self \<le> 1))
                 (\<lambda>(calls, reg'). Inr (KernelCalls calls, reg'))))"

section \<open>The chunks\<close>

lemma less_cdiv_iff: "0 < c \<Longrightarrow> k < cdiv n c \<longleftrightarrow> k * c < n"
proof -
  assume c: "0 < c"
  have "k < cdiv n c \<longleftrightarrow> Suc k \<le> (n + c - 1) div c" by (auto simp: cdiv_def)
  also have "\<dots> \<longleftrightarrow> Suc k * c \<le> n + c - 1" using c by (simp add: less_eq_div_iff_mult_less_eq)
  also have "\<dots> \<longleftrightarrow> k * c < n" using c by auto
  finally show ?thesis .
qed

lemma range_step_mult:
  "0 < c \<Longrightarrow> range_step (k * c) n c = map (\<lambda>i. i * c) [k..<cdiv n c]"
proof (induction "n - k * c" arbitrary: k rule: less_induct)
  case less
  show ?case
  proof (cases "k * c < n")
    case True
    then have "n - Suc k * c < n - k * c" using less.prems by simp
    from less.hyps [OF this less.prems] show ?thesis
      using True less.prems less_cdiv_iff [OF less.prems, of k n]
      by (subst range_step.simps) (simp add: upt_conv_Cons add.commute)
  next
    case False
    then show ?thesis using less_cdiv_iff [OF less.prems, of k n] by simp
  qed
qed

lemma prefill_request_chunks_run:
  assumes "0 < c"
  shows "prefill_request_chunks c n = run_plan (step_to c n) n 0"
  using range_step_plan [OF assms, of n 0] range_step_mult [OF assms, of 0 n]
  by (simp add: prefill_request_chunks_def comp_def)

lemma prefill_request_chunks_plan:
  assumes "0 < c"
  shows "plan_from 0 n (prefill_request_chunks c n)"
  unfolding prefill_request_chunks_run [OF assms]
  using chunk_planner.run_is_plan [OF step_planner [OF assms]] by simp

lemma chunk_at_most:
  assumes "0 < c" "(a, b) \<in> set (prefill_request_chunks c n)"
  shows "a < b \<and> b \<le> n \<and> b - a \<le> c"
  using plan_from_member [OF prefill_request_chunks_plan [OF assms(1)] assms(2)] assms(2)
  by (auto simp: prefill_request_chunks_def)

text \<open>A plan of requests, seen as a plan of tokens through monotone bounds.\<close>

lemma plan_image_covers:
  "plan_from s n cs \<Longrightarrow> (\<And>i j. s \<le> i \<Longrightarrow> i \<le> j \<Longrightarrow> j \<le> n \<Longrightarrow> f i \<le> f j) \<Longrightarrow>
   covered (map (\<lambda>(a, b). (f a, f b)) cs) = [f s..<f n]"
proof (induction rule: plan_from.induct)
  case (chunk s e n cs)
  have "covered (map (\<lambda>(a, b). (f a, f b)) cs) = [f e..<f n]" using chunk by simp
  moreover have "f s \<le> f e" "f e \<le> f n" using chunk by simp_all
  ultimately show ?case using upt_split by simp
qed simp

section \<open>The calls of a prefill\<close>

lemma workspace_again:
  "get_flashinfer_dsv4_workspace d reg = (w, reg') \<Longrightarrow> get_flashinfer_dsv4_workspace d reg' = (w, reg')"
  by (auto simp: get_flashinfer_dsv4_workspace_def Let_def split: option.splits)

lemma prefill_calls_map:
  assumes "\<And>a b w. call_for a b w = Inr (g a b w)" "get_flashinfer_dsv4_workspace d reg = (w, reg')"
  shows "prefill_calls call_for d cs reg
    = Inr (map (\<lambda>(a, b). g a b w) cs, if cs = [] then reg else reg')"
  using assms(2)
proof (induction cs arbitrary: reg)
  case (Cons c cs)
  obtain a b where c: "c = (a, b)" by fastforce
  show ?case
    using Cons.IH [OF workspace_again [OF Cons.prems]] Cons.prems by (simp add: c assms(1))
qed simp

text \<open>The call for a range of tokens once nothing can raise any more.\<close>

definition chunk_call ::
  "attn_layer \<Rightarrow> nat \<Rightarrow> query_t \<Rightarrow> int list list \<Rightarrow> int list \<Rightarrow> int list list option \<Rightarrow> int list option
   \<Rightarrow> kv_pool option \<Rightarrow> nat \<Rightarrow> nat \<Rightarrow> workspace \<Rightarrow> sm120_call" where
  "chunk_call self base query si sl ei el cache a b w =
     \<lparr>sc_query = pyslice a b query, sc_swa_kv_cache = as_sparse_cache (al_swa_kv_cache self),
      sc_workspace_buffer = w, sc_sparse_indices = pyslice a b si, sc_compressed_kv_cache = cache,
      sc_out = (base + a, base + b), sc_bmm1_scale = al_scale self, sc_swa_topk_lens = pyslice a b sl,
      sc_extra_sparse_indices = map_option (pyslice a b) ei, sc_extra_sparse_topk_lens = map_option (pyslice a b) el\<rparr>"

lemma prefill_calls_eq:
  assumes "get_flashinfer_dsv4_workspace d reg = (w, reg')"
  shows "prefill_calls (prefill_chunk_call self base query si sl ei el cache) d cs reg =
    (if cs \<noteq> [] \<and> cache \<noteq> None \<and> ei = None
     then Inl (RuntimeError ''Compressed sparse MLA prefill requires compressed sparse indices.'')
     else Inr (map (\<lambda>(a, b). chunk_call self base query si sl ei el cache a b w) cs,
               if cs = [] then reg else reg'))"
proof (cases "cache \<noteq> None \<and> ei = None")
  case True
  then show ?thesis
    by (cases cs) (auto simp: prefill_chunk_call_def raise_if_def split: prod.splits)
next
  case False
  then have "prefill_chunk_call self base query si sl ei el cache a b w
      = Inr (chunk_call self base query si sl ei el cache a b w)" for a b w
    by (auto simp: prefill_chunk_call_def chunk_call_def raise_if_def)
  from prefill_calls_map [OF this assms] False show ?thesis by auto
qed

section \<open>When a forward pass returns\<close>

text \<open>What the layer needs for its prefill and for its decode part.\<close>

definition query_dtype_ok :: "attn_layer \<Rightarrow> kv_dtype \<Rightarrow> bool" where
  "query_dtype_ok self q_dtype \<longleftrightarrow>
     q_dtype = (if al_kv_cache_torch_dtype self = KV_float8_e4m3fn then KV_float8_e4m3fn else KV_bfloat16)"

definition prefill_rows_ready :: "attn_layer \<Rightarrow> swa_metadata \<Rightarrow> mla_metadata option \<Rightarrow> bool" where
  "prefill_rows_ready self swa md \<longleftrightarrow>
     sm_token_to_req_indices swa \<noteq> None \<and> sm_is_valid_token swa \<noteq> None \<and>
     (if al_compress_ratio self = 4 then md \<noteq> None \<and> al_topk_indices_buffer self \<noteq> None
      else \<exists>m. md = Some m \<and> mm_c128a_prefill_topk_indices m \<noteq> None)"

definition prefill_ready :: "attn_layer \<Rightarrow> kv_pool option \<Rightarrow> swa_metadata \<Rightarrow> mla_metadata option \<Rightarrow> bool" where
  "prefill_ready self kv swa md \<longleftrightarrow>
     sm_query_start_loc_cpu swa \<noteq> None \<and> sm_prefill_swa_indices swa \<noteq> None \<and> sm_prefill_swa_lens swa \<noteq> None \<and>
     (al_compress_ratio self \<le> 1 \<or> kv \<noteq> None \<and> prefill_rows_ready self swa md)"

definition decode_ready :: "attn_layer \<Rightarrow> kv_pool option \<Rightarrow> bool \<Rightarrow> swa_metadata \<Rightarrow> mla_metadata option \<Rightarrow> bool" where
  "decode_ready self kv swa_only swa md \<longleftrightarrow>
     sm_decode_swa_indices swa \<noteq> None \<and> sm_decode_swa_lens swa \<noteq> None \<and>
     (if swa_only then kv = None
      else sm_is_valid_token swa \<noteq> None \<and>
        (if al_compress_ratio self = 4 then md \<noteq> None \<and> al_topk_indices_buffer self \<noteq> None
         else \<exists>m. md = Some m \<and> (kv = None \<or> mm_c128a_global_decode_topk_indices m \<noteq> None)))"

lemma prepare_query_eq:
  "prepare_query self ph hdim dt q =
    (if query_dtype_ok self dt then Inr (pad_heads ph hdim q) else Inl (AssertionError ''q.dtype''))"
  by (auto simp: prepare_query_def query_dtype_ok_def raise_if_def)

lemma prefill_extra_ready:
  "(\<exists>ei el. prefill_extra gtopk self swa md = Inr (ei, el) \<and> (al_compress_ratio self \<le> 1 \<or> ei \<noteq> None)) \<longleftrightarrow>
   al_compress_ratio self \<le> 1 \<or> prefill_rows_ready self swa md"
  by (auto simp: prefill_extra_def local_topk_indices_def prefill_rows_ready_def Let_def bind_result_eq_Inr
      split: option.splits prod.splits if_splits)

lemma chunks_empty_iff: "0 < c \<Longrightarrow> prefill_request_chunks c n = [] \<longleftrightarrow> n = 0"
  using prefill_request_chunks_plan [of c n] by (auto elim: plan_from.cases)

lemma forward_prefill_returns:
  assumes "0 < al_PREFILL_CHUNK_SIZE self" "0 < sm_num_prefills swa"
  shows "(\<exists>r. forward_prefill gtopk self reg ph hdim dt q kv swa md = Inr r) \<longleftrightarrow>
    query_dtype_ok self dt \<and> prefill_ready self kv swa md"
proof -
  obtain w reg' where w: "get_flashinfer_dsv4_workspace (al_device self) reg = (w, reg')" by fastforce
  have ne: "prefill_request_chunks (al_PREFILL_CHUNK_SIZE self) (sm_num_prefills swa) \<noteq> []"
    using assms chunks_empty_iff by simp
  have "(\<exists>r. forward_prefill gtopk self reg ph hdim dt q kv swa md = Inr r) \<longleftrightarrow>
     query_dtype_ok self dt \<and> sm_query_start_loc_cpu swa \<noteq> None \<and> sm_prefill_swa_indices swa \<noteq> None \<and> sm_prefill_swa_lens swa \<noteq> None \<and>
     (al_compress_ratio self \<le> 1 \<or> kv \<noteq> None) \<and>
     (\<exists>ei el. prefill_extra gtopk self swa md = Inr (ei, el) \<and> (al_compress_ratio self \<le> 1 \<or> ei \<noteq> None))"
    by (cases "sm_query_start_loc_cpu swa"; cases "prefill_extra gtopk self swa md"; cases "query_dtype_ok self dt")
      (auto simp: forward_prefill_def Let_def prepare_query_eq prefill_calls_eq [OF w] ne split: option.splits if_splits)
  then show ?thesis unfolding prefill_extra_ready prefill_ready_def by blast
qed

lemma forward_decode_returns:
  "(\<exists>r. forward_decode gtopk self reg ph hdim dt q kv swa md swa_only = Inr r) \<longleftrightarrow>
    query_dtype_ok self dt \<and> decode_ready self kv swa_only swa md"
proof -
  obtain w reg' where w: "get_flashinfer_dsv4_workspace (al_device self) reg = (w, reg')" by fastforce
  show ?thesis
    by (cases "query_dtype_ok self dt")
      (auto simp: forward_decode_def decode_extra_def Let_def prepare_query_eq w decode_ready_def
        bind_result_eq_Inr required_eq_Inr raise_if_def split: option.splits prod.splits)
qed

text \<open>The whole pass, from its two parts.\<close>

lemma forward_sparse_returns:
  assumes "0 < al_PREFILL_CHUNK_SIZE self"
  shows "(\<exists>r. forward_sparse_impl gtopk self reg ph hdim dt q md swa kv swa_only = Inr r) \<longleftrightarrow>
    (0 < sm_num_prefills swa \<longrightarrow> query_dtype_ok self dt \<and> prefill_ready self kv swa md) \<and>
    (0 < sm_num_decodes swa \<longrightarrow> query_dtype_ok self dt \<and> decode_ready self kv swa_only swa md)"
proof -
  let ?p = "if sm_num_prefills swa > 0
    then forward_prefill gtopk self reg ph hdim dt (drop (sm_num_decode_tokens swa) q) kv swa md else Inr ([], reg)"
  have p: "(\<exists>r. ?p = Inr r) \<longleftrightarrow>
      (0 < sm_num_prefills swa \<longrightarrow> query_dtype_ok self dt \<and> prefill_ready self kv swa md)"
    using forward_prefill_returns [OF assms] by auto
  have "(\<exists>r. forward_sparse_impl gtopk self reg ph hdim dt q md swa kv swa_only = Inr r) \<longleftrightarrow>
     (\<exists>calls reg1. ?p = Inr (calls, reg1) \<and>
       (0 < sm_num_decodes swa \<longrightarrow>
         (\<exists>r. forward_decode gtopk self reg1 ph hdim dt (take (sm_num_decode_tokens swa) q) kv swa md swa_only = Inr r)))"
    unfolding forward_sparse_impl_def Let_def bind_result_eq_Inr by (cases ?p) (auto simp: bind_result_eq_Inr)
  also have "\<dots> \<longleftrightarrow> (\<exists>r. ?p = Inr r) \<and> (0 < sm_num_decodes swa \<longrightarrow> query_dtype_ok self dt \<and> decode_ready self kv swa_only swa md)"
    unfolding forward_decode_returns by (cases ?p) auto
  finally show ?thesis unfolding p .
qed


section \<open>Every token exactly once\<close>

lemma nth_pyslice_at:
  "n + a \<le> t \<Longrightarrow> t < n + b \<Longrightarrow> b \<le> length xs \<Longrightarrow> pyslice a b xs ! (t - (n + a)) = xs ! (t - n)"
  by (subst nth_slice) auto

lemma forward_prefill_result:
  assumes "forward_prefill gtopk self reg ph hdim dt q kv swa md = Inr (calls, reg')"
  shows "\<exists>w ei el si sl qsl. prefill_extra gtopk self swa md = Inr (ei, el) \<and>
    sm_prefill_swa_indices swa = Some si \<and> sm_prefill_swa_lens swa = Some sl \<and> sm_query_start_loc_cpu swa = Some qsl \<and>
    calls = map (\<lambda>(a, b). chunk_call self (sm_num_decode_tokens swa) (pad_heads ph hdim q) (rows_of si) sl ei el
        (if al_compress_ratio self \<le> 1 then None else map_option as_sparse_cache kv) a b w)
      (map (\<lambda>(cs, ce). (qsl ! (sm_num_decodes swa + cs) - qsl ! sm_num_decodes swa,
                        qsl ! (sm_num_decodes swa + ce) - qsl ! sm_num_decodes swa))
        (prefill_request_chunks (al_PREFILL_CHUNK_SIZE self) (sm_num_prefills swa)))"
proof -
  obtain w reg1 where w: "get_flashinfer_dsv4_workspace (al_device self) reg = (w, reg1)" by fastforce
  show ?thesis
    using assms
    unfolding forward_prefill_def Let_def prefill_calls_eq [OF w] prepare_query_eq
    by (cases "sm_query_start_loc_cpu swa"; cases "prefill_extra gtopk self swa md"; cases "query_dtype_ok self dt")
      (auto simp del: map_map split: option.splits if_splits)
qed

lemma forward_decode_result:
  assumes "forward_decode gtopk self reg ph hdim dt q kv swa md swa_only = Inr (call, reg')"
  shows "\<exists>di dl. sm_decode_swa_indices swa = Some di \<and> sm_decode_swa_lens swa = Some dl \<and>
    sc_query call = pad_heads ph hdim q \<and> sc_out call = (0, sm_num_decode_tokens swa) \<and>
    sc_sparse_indices call = rows_of di \<and> sc_swa_topk_lens call = dl"
proof -
  obtain w reg1 where w: "get_flashinfer_dsv4_workspace (al_device self) reg = (w, reg1)" by fastforce
  show ?thesis
    using assms unfolding forward_decode_def Let_def w prepare_query_eq bind_result_eq_Inr prod.case
    by (auto simp: bind_result_eq_Inr required_eq_Inr raise_if_def split: if_splits)
qed

text \<open>The batch as the metadata describes it: the decode requests first, then the prefills.\<close>

definition batch_lens :: "swa_metadata \<Rightarrow> nat list \<Rightarrow> bool" where
  "batch_lens swa lens \<longleftrightarrow>
     sm_query_start_loc_cpu swa = Some (cu lens) \<and> length lens = sm_num_decodes swa + sm_num_prefills swa \<and>
     cu lens ! sm_num_decodes swa = sm_num_decode_tokens swa \<and>
     sum_list lens = sm_num_decode_tokens swa + sm_num_prefill_tokens swa"

definition rows_present :: "swa_metadata \<Rightarrow> bool" where
  "rows_present swa \<longleftrightarrow>
     (\<forall>di. sm_decode_swa_indices swa = Some di \<longrightarrow> t_rows di = sm_num_decode_tokens swa) \<and>
     (\<forall>dl. sm_decode_swa_lens swa = Some dl \<longrightarrow> length dl = sm_num_decode_tokens swa) \<and>
     (\<forall>si. sm_prefill_swa_indices swa = Some si \<longrightarrow> t_rows si = sm_num_prefill_tokens swa) \<and>
     (\<forall>sl. sm_prefill_swa_lens swa = Some sl \<longrightarrow> length sl = sm_num_prefill_tokens swa)"

text \<open>The sliding-window row and length of a token of the batch.\<close>

definition token_swa_row :: "swa_metadata \<Rightarrow> nat \<Rightarrow> int list" where
  "token_swa_row swa t =
     (if t < sm_num_decode_tokens swa then row (the (sm_decode_swa_indices swa)) t
      else row (the (sm_prefill_swa_indices swa)) (t - sm_num_decode_tokens swa))"

definition token_swa_len :: "swa_metadata \<Rightarrow> nat \<Rightarrow> int" where
  "token_swa_len swa t =
     (if t < sm_num_decode_tokens swa then the (sm_decode_swa_lens swa) ! t
      else the (sm_prefill_swa_lens swa) ! (t - sm_num_decode_tokens swa))"

definition call_serves :: "nat \<Rightarrow> nat \<Rightarrow> query_t \<Rightarrow> swa_metadata \<Rightarrow> sm120_call \<Rightarrow> nat \<Rightarrow> bool" where
  "call_serves ph hdim q swa c t \<longleftrightarrow>
     sc_query c ! (t - fst (sc_out c)) = pad_heads ph hdim q ! t \<and>
     sc_sparse_indices c ! (t - fst (sc_out c)) = token_swa_row swa t \<and>
     sc_swa_topk_lens c ! (t - fst (sc_out c)) = token_swa_len swa t"

lemma length_rows_of [simp]: "length (rows_of t) = t_rows t"
  by (simp add: rows_of_def)

lemma nth_rows_of: "i < t_rows t \<Longrightarrow> rows_of t ! i = row t i"
  by (simp add: rows_of_def)

lemma pad_heads_drop: "pad_heads ph hdim (drop n q) = drop n (pad_heads ph hdim q)"
  by (simp add: pad_heads_def drop_map)

lemma pad_heads_take: "pad_heads ph hdim (take n q) = take n (pad_heads ph hdim q)"
  by (simp add: pad_heads_def take_map)

lemma length_pad_heads [simp]: "length (pad_heads ph hdim q) = length q"
  by (simp add: pad_heads_def)

lemma chunk_call_serves:
  assumes "sm_num_decode_tokens swa \<le> length q" "b \<le> sm_num_prefill_tokens swa"
    "sm_num_decode_tokens swa + sm_num_prefill_tokens swa \<le> length q"
    "sm_prefill_swa_indices swa = Some si" "sm_prefill_swa_lens swa = Some sl" "rows_present swa"
    "sm_num_decode_tokens swa + a \<le> t" "t < sm_num_decode_tokens swa + b"
  shows "call_serves ph hdim q swa
    (chunk_call self (sm_num_decode_tokens swa) (pad_heads ph hdim (drop (sm_num_decode_tokens swa) q))
      (rows_of si) sl ei el cache a b w) t"
proof -
  let ?n = "sm_num_decode_tokens swa"
  have r: "t_rows si = sm_num_prefill_tokens swa" "length sl = sm_num_prefill_tokens swa"
    using assms(4-6) by (auto simp: rows_present_def)
  have i: "t - ?n < sm_num_prefill_tokens swa"
    using assms(2,7,8) by linarith
  have "drop ?n (pad_heads ph hdim q) ! (t - ?n) = pad_heads ph hdim q ! t"
    using assms(1,7) by simp
  then show ?thesis
    using assms(2-8) r i
    by (simp add: call_serves_def chunk_call_def token_swa_row_def token_swa_len_def pad_heads_drop
        nth_pyslice_at nth_rows_of)
qed

lemma batch_lens_mono:
  "batch_lens swa lens \<Longrightarrow> i \<le> j \<Longrightarrow> j \<le> sm_num_prefills swa \<Longrightarrow>
   sm_num_decode_tokens swa \<le> the (sm_query_start_loc_cpu swa) ! (sm_num_decodes swa + i) \<and>
   the (sm_query_start_loc_cpu swa) ! (sm_num_decodes swa + i) \<le> the (sm_query_start_loc_cpu swa) ! (sm_num_decodes swa + j) \<and>
   the (sm_query_start_loc_cpu swa) ! (sm_num_decodes swa + j) \<le> sm_num_decode_tokens swa + sm_num_prefill_tokens swa"
  using cu_mono [of "sm_num_decodes swa" "sm_num_decodes swa + i" lens]
    cu_mono [of "sm_num_decodes swa + i" "sm_num_decodes swa + j" lens]
    cu_le_sum [of "sm_num_decodes swa + j" lens]
  by (auto simp: batch_lens_def)

lemma batch_lens_ends:
  "batch_lens swa lens \<Longrightarrow> the (sm_query_start_loc_cpu swa) ! sm_num_decodes swa = sm_num_decode_tokens swa \<and>
   the (sm_query_start_loc_cpu swa) ! (sm_num_decodes swa + sm_num_prefills swa) = sm_num_decode_tokens swa + sm_num_prefill_tokens swa"
  by (auto simp: batch_lens_def nth_cu)

lemma forward_prefill_serves:
  assumes c: "0 < al_PREFILL_CHUNK_SIZE self" and b: "batch_lens swa lens" and rp: "rows_present swa"
    and q: "sm_num_decode_tokens swa + sm_num_prefill_tokens swa \<le> length q"
    and res: "forward_prefill gtopk self reg ph hdim dt (drop (sm_num_decode_tokens swa) q) kv swa md = Inr (calls, reg')"
  shows "covered (map sc_out calls) = [sm_num_decode_tokens swa..<sm_num_decode_tokens swa + sm_num_prefill_tokens swa]"
    and "call \<in> set calls \<Longrightarrow> fst (sc_out call) \<le> t \<Longrightarrow> t < snd (sc_out call) \<Longrightarrow> call_serves ph hdim q swa call t"
    and "length calls = cdiv (sm_num_prefills swa) (al_PREFILL_CHUNK_SIZE self)"
proof -
  let ?n = "sm_num_decode_tokens swa"
  let ?g = "\<lambda>i. the (sm_query_start_loc_cpu swa) ! (sm_num_decodes swa + i)"
  let ?cs = "prefill_request_chunks (al_PREFILL_CHUNK_SIZE self) (sm_num_prefills swa)"
  have base: "the (sm_query_start_loc_cpu swa) ! sm_num_decodes swa = ?n"
    and last: "?g (sm_num_prefills swa) = ?n + sm_num_prefill_tokens swa"
    using batch_lens_ends [OF b] by auto
  obtain w ei el si sl cache qsl where si: "sm_prefill_swa_indices swa = Some si" "sm_prefill_swa_lens swa = Some sl"
    and qsl: "sm_query_start_loc_cpu swa = Some qsl"
    and calls0: "calls = map (\<lambda>(x, y). chunk_call self ?n (pad_heads ph hdim (drop ?n q)) (rows_of si) sl ei el cache x y w)
      (map (\<lambda>(x, y). (qsl ! (sm_num_decodes swa + x) - qsl ! sm_num_decodes swa,
                       qsl ! (sm_num_decodes swa + y) - qsl ! sm_num_decodes swa)) ?cs)"
    using forward_prefill_result [OF res] by blast
  have b0: "qsl ! sm_num_decodes swa = ?n" using base by (simp add: qsl)
  have calls: "calls = map (\<lambda>(x, y). chunk_call self ?n (pad_heads ph hdim (drop ?n q)) (rows_of si) sl ei el cache x y w)
      (map (\<lambda>(x, y). (?g x - ?n, ?g y - ?n)) ?cs)"
    using calls0 unfolding qsl option.sel b0 .
  have plan: "plan_from 0 (sm_num_prefills swa) ?cs" by (rule prefill_request_chunks_plan [OF c])
  have rebase: "?n + (?g x - ?n) = ?g x \<and> ?n + (?g y - ?n) = ?g y \<and> ?g y - ?n \<le> sm_num_prefill_tokens swa"
    if "(x, y) \<in> set ?cs" for x y
    using batch_lens_mono [OF b, of x y] plan_from_member [OF plan that] by auto
  have outs: "map sc_out calls = map (\<lambda>(x, y). (?g x, ?g y)) ?cs"
    unfolding calls by (auto simp: chunk_call_def dest: rebase)
  show "covered (map sc_out calls) = [?n..<?n + sm_num_prefill_tokens swa]"
    unfolding outs by (subst plan_image_covers [OF plan]) (use batch_lens_mono [OF b] base last in auto)
  show "length calls = cdiv (sm_num_prefills swa) (al_PREFILL_CHUNK_SIZE self)"
    unfolding calls by (simp add: prefill_request_chunks_def)
  show "call_serves ph hdim q swa call t"
    if m: "call \<in> set calls" "fst (sc_out call) \<le> t" "t < snd (sc_out call)"
  proof -
    from m(1) obtain x y where xy: "(x, y) \<in> set ?cs"
      and call: "call = chunk_call self ?n (pad_heads ph hdim (drop ?n q)) (rows_of si) sl ei el cache (?g x - ?n) (?g y - ?n) w"
      unfolding calls by auto
    have "?n + (?g x - ?n) \<le> t" "t < ?n + (?g y - ?n)"
      using m(2,3) unfolding call by (simp_all add: chunk_call_def)
    moreover have "?n \<le> length q" using q by simp
    moreover have "?g y - ?n \<le> sm_num_prefill_tokens swa" using rebase [OF xy] by blast
    ultimately show ?thesis unfolding call using chunk_call_serves [OF _ _ q si rp] by blast
  qed
qed

text \<open>The calls of the whole pass, from those of its two parts.\<close>

lemma forward_sparse_serves:
  assumes c: "0 < al_PREFILL_CHUNK_SIZE self" and b: "batch_lens swa lens" and rp: "rows_present swa"
    and q: "sm_num_decode_tokens swa + sm_num_prefill_tokens swa \<le> length q"
    and res: "forward_sparse_impl gtopk self reg ph hdim dt q md swa kv swa_only = Inr (calls, reg')"
  shows "covered (map sc_out calls)
      = [sm_num_decode_tokens swa..<sm_num_decode_tokens swa + sm_num_prefill_tokens swa] @ [0..<sm_num_decode_tokens swa]
    \<and> (\<forall>call \<in> set calls. \<forall>t. fst (sc_out call) \<le> t \<and> t < snd (sc_out call) \<longrightarrow> call_serves ph hdim q swa call t)
    \<and> length calls = cdiv (sm_num_prefills swa) (al_PREFILL_CHUNK_SIZE self) + (if 0 < sm_num_decodes swa then 1 else 0)"
proof -
  let ?n = "sm_num_decode_tokens swa" and ?m = "sm_num_prefill_tokens swa"
  obtain pre reg1 where p: "(if sm_num_prefills swa > 0
      then forward_prefill gtopk self reg ph hdim dt (drop ?n q) kv swa md else Inr ([], reg)) = Inr (pre, reg1)"
    and d: "(if sm_num_decodes swa > 0
      then bind_result (forward_decode gtopk self reg1 ph hdim dt (take ?n q) kv swa md swa_only)
             (\<lambda>(call, reg2). Inr (pre @ [call], reg2)) else Inr (pre, reg1)) = Inr (calls, reg')"
    using res unfolding forward_sparse_impl_def Let_def bind_result_eq_Inr by auto
  have pre: "covered (map sc_out pre) = [?n..<?n + ?m]
    \<and> (\<forall>call \<in> set pre. \<forall>t. fst (sc_out call) \<le> t \<and> t < snd (sc_out call) \<longrightarrow> call_serves ph hdim q swa call t)
    \<and> length pre = cdiv (sm_num_prefills swa) (al_PREFILL_CHUNK_SIZE self)"
  proof (cases "sm_num_prefills swa > 0")
    case True
    with p have "forward_prefill gtopk self reg ph hdim dt (drop ?n q) kv swa md = Inr (pre, reg1)" by simp
    from forward_prefill_serves [OF c b rp q this] show ?thesis by blast
  next
    case False
    then have "pre = []" "?m = 0" using p b by (auto simp: batch_lens_def nth_cu)
    then show ?thesis using False c by (simp add: cdiv_def)
  qed
  show ?thesis
  proof (cases "sm_num_decodes swa > 0")
    case True
    then obtain call where call: "forward_decode gtopk self reg1 ph hdim dt (take ?n q) kv swa md swa_only = Inr (call, reg')"
      and calls: "calls = pre @ [call]" using d by (auto simp: bind_result_eq_Inr)
    have "call_serves ph hdim q swa call t" if "t < ?n" for t
      using that rp q forward_decode_result [OF call]
      by (auto simp: call_serves_def rows_present_def token_swa_row_def token_swa_len_def pad_heads_take nth_rows_of)
    moreover have "sc_out call = (0, ?n)" using forward_decode_result [OF call] by blast
    ultimately show ?thesis using pre True unfolding calls by auto
  next
    case False
    then have "calls = pre" "?n = 0" using d b by (auto simp: batch_lens_def nth_cu)
    then show ?thesis using pre False by simp
  qed
qed

text \<open>
  C20. The SM12x forward pass serves every token exactly once, with its own rows.  The output ranges
  of its calls are, in order, the prefill tokens and then the decode tokens, without gap or overlap;
  inside a call every token has its own padded query, sliding-window row and window length; and a
  prefill of \<open>n\<close> requests takes \<open>n / PREFILL_CHUNK_SIZE\<close> calls, rounded up.
\<close>

theorem sm120_forward_covers_once:
  assumes c: "0 < al_PREFILL_CHUNK_SIZE self" and b: "batch_lens swa lens" and rp: "rows_present swa"
    and q: "sm_num_decode_tokens swa + sm_num_prefill_tokens swa \<le> length q"
    and res: "forward_sparse_impl gtopk self reg ph hdim dt q md swa kv swa_only = Inr (calls, reg')"
  shows "covered (map sc_out calls)
      = [sm_num_decode_tokens swa..<sm_num_decode_tokens swa + sm_num_prefill_tokens swa] @ [0..<sm_num_decode_tokens swa]
    \<and> (\<forall>call \<in> set calls. \<forall>t. fst (sc_out call) \<le> t \<and> t < snd (sc_out call) \<longrightarrow> call_serves ph hdim q swa call t)
    \<and> length calls = cdiv (sm_num_prefills swa) (al_PREFILL_CHUNK_SIZE self) + (if 0 < sm_num_decodes swa then 1 else 0)"
  by (rule forward_sparse_serves [OF assms])

section \<open>Head padding\<close>

lemma first_supported_least:
  "sorted xs \<Longrightarrow> first_supported n xs = Inr p \<Longrightarrow> p \<in> set xs \<and> n \<le> p \<and> (\<forall>s \<in> set xs. n \<le> s \<longrightarrow> p \<le> s)"
  by (induction xs) (auto split: if_splits)

lemma first_supported_none: "first_supported n xs = Inl e \<Longrightarrow> \<forall>s \<in> set xs. s < n"
  by (induction xs) (auto split: if_splits)

lemma nth_pad_heads:
  assumes "i < length q" "length (q ! i) = h" "h \<le> p"
  shows "length (pad_heads p hdim q ! i) = p \<and> take h (pad_heads p hdim q ! i) = q ! i
    \<and> drop h (pad_heads p hdim q ! i) = replicate (p - h) (replicate hdim 0)"
  using assms by (auto simp: pad_heads_def)

text \<open>
  Head padding.  A head count is padded to the least count the kernel supports, or refused with
  a \<^verbatim>\<open>ValueError\<close> when it exceeds the largest; and a query of that many heads, padded for the
  kernel, keeps its own heads first and has only zero heads after them, so that slicing the output
  back to the head count loses nothing of the query and sees none of the padding.
\<close>

theorem head_padding:
  "case pad_to_supported_q_heads h of
     Inl e \<Rightarrow> 128 < h \<and> (\<exists>msg. e = ValueError msg)
   | Inr p \<Rightarrow> p \<in> {8, 16, 32, 64, 128} \<and> h \<le> p \<and> (\<forall>s \<in> {8, 16, 32, 64, 128}. h \<le> s \<longrightarrow> p \<le> s) \<and>
       (\<forall>q i. i < length q \<and> length (q ! i) = h \<longrightarrow>
          length (pad_heads p hdim q ! i) = p \<and> take h (pad_heads p hdim q ! i) = q ! i \<and>
          drop h (pad_heads p hdim q ! i) = replicate (p - h) (replicate hdim 0))"
proof (cases "pad_to_supported_q_heads h")
  case (Inl e)
  then have "128 < h" "\<exists>msg. e = ValueError msg"
    using first_supported_none [of h SPARSE_MLA_SUPPORTED_Q_HEADS e]
    by (auto simp: pad_to_supported_q_heads_def SPARSE_MLA_SUPPORTED_Q_HEADS_def split: if_splits)
  with Inl show ?thesis by simp
next
  case (Inr p)
  then have "p \<in> {8, 16, 32, 64, 128} \<and> h \<le> p \<and> (\<forall>s \<in> {8, 16, 32, 64, 128}. h \<le> s \<longrightarrow> p \<le> s)"
    using first_supported_least [of SPARSE_MLA_SUPPORTED_Q_HEADS h p]
    by (simp add: pad_to_supported_q_heads_def SPARSE_MLA_SUPPORTED_Q_HEADS_def)
  with Inr show ?thesis using nth_pad_heads by auto
qed

theorem head_padding_witness:
  "pad_to_supported_q_heads 3 = Inr 8 \<and> length (pad_heads 8 2 [[[1, 2], [3, 4], [5, 6]]] ! 0) = 8
   \<and> take 3 (pad_heads 8 2 [[[1, 2], [3, 4], [5, 6]]] ! 0) = [[1, 2], [3, 4], [5, 6]]"
proof -
  have p: "pad_to_supported_q_heads 3 = Inr 8"
    by (simp add: pad_to_supported_q_heads_def SPARSE_MLA_SUPPORTED_Q_HEADS_def)
  let ?q = "[[[1, 2], [3, 4], [5, 6]]] :: query_t"
  have i: "0 < length ?q \<and> length (?q ! 0) = 3" by simp
  have "\<forall>q i. i < length q \<and> length (q ! i) = 3 \<longrightarrow>
      length (pad_heads 8 2 q ! i) = 8 \<and> take 3 (pad_heads 8 2 q ! i) = q ! i \<and>
      drop 3 (pad_heads 8 2 q ! i) = replicate (8 - 3) (replicate 2 0)"
    using head_padding [of 3 2] unfolding p sum.case by blast
  from this [rule_format, OF i] p show ?thesis by simp
qed

section \<open>A batch with a decode and three prefills\<close>

definition sm120_demo_layer :: attn_layer where
  "sm120_demo_layer = fi_demo_layer\<lparr>al_PREFILL_CHUNK_SIZE := 2\<rparr>"

definition sm120_demo_swa :: swa_metadata where
  "sm120_demo_swa = swa_demo_metadata\<lparr>sm_num_decodes := 1, sm_num_prefills := 3, sm_num_decode_tokens := 2,
     sm_num_prefill_tokens := 6, sm_query_start_loc_cpu := Some (cu [2, 2, 1, 3]),
     sm_decode_swa_indices := Some \<lparr>t_data = [10, 11], t_stride = 1, t_rows = 2, t_cols = 1\<rparr>,
     sm_decode_swa_lens := Some [1, 1],
     sm_prefill_swa_indices := Some \<lparr>t_data = [20, 21, 22, 23, 24, 25], t_stride = 1, t_rows = 6, t_cols = 1\<rparr>,
     sm_prefill_swa_lens := Some [1, 1, 1, 1, 1, 1]\<rparr>"

definition sm120_demo_query :: query_t where
  "sm120_demo_query = map (\<lambda>i. [[int i]]) [0..<8]"

definition sm120_demo_gtopk :: global_topk where
  "sm120_demo_gtopk rows reqs bt bs valid = (rows, map (\<lambda>r. int (length r)) rows)"

lemma sm120_demo_fields:
  "0 < al_PREFILL_CHUNK_SIZE sm120_demo_layer" "al_PREFILL_CHUNK_SIZE sm120_demo_layer = 2"
  "batch_lens sm120_demo_swa [2, 2, 1, 3]" "rows_present sm120_demo_swa"
  "sm_num_decode_tokens sm120_demo_swa = 2" "sm_num_prefill_tokens sm120_demo_swa = 6"
  "sm_num_decodes sm120_demo_swa = 1" "sm_num_prefills sm120_demo_swa = 3" "length sm120_demo_query = 8"
  "query_dtype_ok sm120_demo_layer KV_bfloat16" "prefill_ready sm120_demo_layer None sm120_demo_swa None"
  "decode_ready sm120_demo_layer None True sm120_demo_swa None"
  by (simp_all add: sm120_demo_layer_def fi_demo_layer_def sm120_demo_swa_def batch_lens_def rows_present_def
      sm120_demo_query_def query_dtype_ok_def prefill_ready_def decode_ready_def nth_cu)


theorem sm120_forward_covers_once_witness:
  "\<exists>calls reg'. forward_sparse_impl sm120_demo_gtopk sm120_demo_layer [] 8 1 KV_bfloat16 sm120_demo_query None sm120_demo_swa None True
      = Inr (calls, reg')
    \<and> covered (map sc_out calls) = [2, 3, 4, 5, 6, 7, 0, 1] \<and> length calls = 3"
proof -
  obtain pre reg1 where p: "forward_prefill sm120_demo_gtopk sm120_demo_layer [] 8 1 KV_bfloat16
      (drop 2 sm120_demo_query) None sm120_demo_swa None = Inr (pre, reg1)"
    using forward_prefill_returns [OF sm120_demo_fields(1), of sm120_demo_swa] by (fastforce simp: sm120_demo_fields)
  obtain call reg' where d: "forward_decode sm120_demo_gtopk sm120_demo_layer reg1 8 1 KV_bfloat16
      (take 2 sm120_demo_query) None sm120_demo_swa None True = Inr (call, reg')"
    using forward_decode_returns sm120_demo_fields by (metis surj_pair)
  define calls where "calls = pre @ [call]"
  have r: "forward_sparse_impl sm120_demo_gtopk sm120_demo_layer [] 8 1 KV_bfloat16
      sm120_demo_query None sm120_demo_swa None True = Inr (calls, reg')"
    by (simp add: forward_sparse_impl_def sm120_demo_fields calls_def p [unfolded One_nat_def] d [unfolded One_nat_def])
  from sm120_forward_covers_once [OF sm120_demo_fields(1,3,4) _ r]
  have "covered (map sc_out calls) = [2, 3, 4, 5, 6, 7, 0, 1]" "length calls = 3"
    by (simp_all add: sm120_demo_fields cdiv_def upt_rec)
  with r show ?thesis by blast
qed

end
