(* ===== verification/StepPipeline.thy ===== *)
theory StepPipeline
  imports FlashInferSM120
begin

text \<open>
  One step of the served model through three files: the sliding-window builder of
  \<^verbatim>\<open>sparse_swa.py\<close> and the sparse-MLA builder of \<^verbatim>\<open>sparse_mla.py\<close> fill the metadata of a batch,
  and the SM12x layer of \<^verbatim>\<open>flashinfer_sparse.py\<close> turns it into kernel calls.
\<close>

section \<open>A batch and its cut\<close>

text \<open>
  A batch of positive query lengths, cut at a request boundary into decodes and prefills: what the
  engine's \<^verbatim>\<open>split_decodes_and_prefills\<close> promises of a batch that is reordered with decodes first.
\<close>

definition batch_cut :: "common_meta \<Rightarrow> nat list \<Rightarrow> batch_split \<Rightarrow> bool" where
  "batch_cut cm lens sp \<longleftrightarrow>
     (case sp of (nd, np, ndt, npt) \<Rightarrow>
        cm_query_start_loc_cpu cm = cu lens \<and> length lens = nd + np \<and> cu lens ! nd = ndt \<and>
        sum_list lens = ndt + npt \<and> 0 \<notin> set lens)"

lemma sum_positive: "0 \<notin> set xs \<Longrightarrow> xs \<noteq> [] \<Longrightarrow> 0 < sum_list (xs :: nat list)"
  by (cases xs) auto

text \<open>A part with requests has tokens.\<close>

lemma batch_cut_tokens:
  assumes "batch_cut cm lens (nd, np, ndt, npt)"
  shows "0 < nd \<Longrightarrow> 0 < ndt" "0 < np \<Longrightarrow> 0 < npt"
proof -
  have c: "length lens = nd + np" "sum_list (take nd lens) = ndt" "sum_list lens = ndt + npt" "0 \<notin> set lens"
    using assms by (auto simp: batch_cut_def nth_cu)
  have d: "sum_list (drop nd lens) = npt"
    using c(2,3) sum_list_append [of "take nd lens" "drop nd lens"] by simp
  show "0 < ndt" if "0 < nd"
    using sum_positive [of "take nd lens"] c that in_set_takeD [of 0 nd lens] by fastforce
  show "0 < npt" if "0 < np"
    using sum_positive [of "drop nd lens"] c d that by (auto dest: in_set_dropD)
qed

section \<open>What the builders promise\<close>

lemma build_decode_swa_rows:
  assumes wf: "wf_swa self" and n: "n \<le> sb_max_tokens self"
    and res: "build_decode_swa self cm tr vt n = Inr (ind, self')"
  shows "n \<le> t_rows ind"
proof -
  have "t_rows ind = sb_max_tokens self" if "n \<noteq> 0"
    using res wf that
    by (auto simp: build_decode_swa_def Let_def raise_if_eq_Inr wf_swa_def index_shape_def
        compute_swa_indices_and_lens_def compute_dspark_noncausal_swa_indices_def zeros2_def
        split: if_splits option.splits)
  then show ?thesis using n by (cases "n = 0") auto
qed

lemma swa_build_fields:
  assumes split: "sx_split sx cm (sb_decode_threshold self) = (nd, np, ndt, npt)"
    and res: "swa_build p sx self cm = Inr (md, self')"
  shows "sm_query_start_loc_cpu md = Some (cm_query_start_loc_cpu cm)" "sm_num_decodes md = nd" "sm_num_prefills md = np"
    "sm_num_decode_tokens md = ndt" "sm_num_prefill_tokens md = npt"
    "sm_prefill_swa_indices md = (if npt > 0 then Some (first_rows npt (sb_prefill_swa_indices self')) else None)"
    "sm_prefill_swa_lens md = (if npt > 0 then Some (take npt (sb_prefill_swa_lens self')) else None)"
    "sm_is_valid_token md \<noteq> None" "sm_token_to_req_indices md \<noteq> None" "sm_decode_swa_indices md \<noteq> None" "sm_decode_swa_lens md \<noteq> None"
  using res unfolding swa_build_def split prod.case
  by (auto simp: bind_result_eq_Inr Let_def split: prod.splits)

lemma swa_build_rows:
  assumes wf: "wf_swa self" and split: "sx_split sx cm (sb_decode_threshold self) = (nd, np, ndt, npt)"
    and fits: "ndt + npt \<le> sb_max_tokens self" "length (cm_slot_mapping cm) \<le> sb_max_tokens self"
    and res: "swa_build p sx self cm = Inr (md, self')"
  shows "rows_present md"
proof -
  obtain tr rb where tr: "sx_token_to_req sx cm (sb_token_to_req_indices self) = (tr, rb)" by fastforce
  from swa_build_parts [OF split tr res] obtain self0 di self1 vis where
    s0: "self0 = self\<lparr>sb_token_to_req_indices := rb, sb_is_valid_token :=
        set_slice 0 (map (\<lambda>s. s \<ge> 0) (cm_slot_mapping cm)) (sb_is_valid_token self)\<rparr>"
    and d: "build_decode_swa self0 cm tr (step_valid cm self) ndt = Inr (di, self1)"
    and q: "build_prefill_swa self1 cm tr (step_valid cm self) ndt npt = Inr (vis, self')"
    and md: "sm_decode_swa_indices md = Some (first_rows ndt di)"
      "sm_decode_swa_lens md = Some (take ndt (sb_decode_swa_lens self'))" by metis
  have w0: "wf_swa self0 \<and> sb_max_tokens self0 = sb_max_tokens self"
    using wf fits by (simp add: s0 wf_swa_def)
  then have n: "ndt \<le> sb_max_tokens self0" using fits by simp
  have w1: "wf_swa self1 \<and> sb_max_tokens self1 = sb_max_tokens self"
    using build_decode_swa_kept [OF _ n d] w0 by simp
  have w2: "wf_swa self' \<and> sb_max_tokens self' = sb_max_tokens self"
    using build_prefill_swa_kept [OF _ q] w1 by simp
  have di: "ndt \<le> t_rows di" using build_decode_swa_rows [OF _ n d] w0 by simp
  show ?thesis
    using w2 di fits swa_build_fields [OF split res]
    by (auto simp: rows_present_def md first_rows_def wf_swa_def index_shape_def)
qed

lemma swa_build_batch_lens:
  assumes "sx_split sx cm (sb_decode_threshold self) = (nd, np, ndt, npt)"
    and "swa_build p sx self cm = Inr (md, self')" and "batch_cut cm lens (nd, np, ndt, npt)"
  shows "batch_lens md lens"
  using swa_build_fields [OF assms(1,2)] assms(3) by (simp add: batch_lens_def batch_cut_def)

text \<open>The C128A rows are there for every part with tokens.\<close>

lemma build_c128a_present:
  assumes "mx_split mx cm (if mb_reorder_batch_threshold self = 0 then 1 else mb_reorder_batch_threshold self)
      = (nd, np, ndt, npt)"
    and "build_c128a_metadata mx self cm tr = Inr (f, self')"
  shows "0 < ndt \<Longrightarrow> cf_global_decode_topk_indices f \<noteq> None" "0 < npt \<Longrightarrow> cf_prefill_topk_indices f \<noteq> None"
  using assms unfolding build_c128a_metadata_def
  by (auto simp: Let_def bind_result_eq_Inr raise_if_eq_Inr split: option.splits)

lemma mla_build_c128a_present:
  assumes res: "mla_build mx self cm = Inr (md, cm', self')" and r: "mb_compress_ratio self = 128"
    and split: "mx_split mx cm' (if mb_reorder_batch_threshold self = 0 then 1 else mb_reorder_batch_threshold self)
      = (nd, np, ndt, npt)"
  shows "0 < ndt \<Longrightarrow> mm_c128a_global_decode_topk_indices md \<noteq> None"
    "0 < npt \<Longrightarrow> mm_c128a_prefill_topk_indices md \<noteq> None"
proof -
  obtain self2 f self3 tr where b: "build_c128a_metadata mx self2 cm' tr = Inr (f, self3)"
    and s2: "mb_reorder_batch_threshold self2 = mb_reorder_batch_threshold self"
    and md: "mm_c128a_global_decode_topk_indices md = cf_global_decode_topk_indices f"
      "mm_c128a_prefill_topk_indices md = cf_prefill_topk_indices f"
    using res r unfolding mla_build_def Let_def
    by (auto simp: bind_result_eq_Inr split: prod.splits)
  from build_c128a_present [OF split [folded s2] b] show
    "0 < ndt \<Longrightarrow> mm_c128a_global_decode_topk_indices md \<noteq> None"
    "0 < npt \<Longrightarrow> mm_c128a_prefill_topk_indices md \<noteq> None" by (simp_all add: md)
qed

section \<open>The step\<close>

text \<open>
  C2. A step through the three components.  Take any batch the engine cut at a request boundary that
  fits the buffers, let both builders build its metadata, and run a layer of ratio 1, 4 or 128 on it,
  with a query of the type the cache calls for, a compressed cache for ratios above 1 and, for ratio 4, the
  indexer's buffer: the forward pass never raises, its calls write every token exactly once and in order, each with its own padded
  query, window row and length; and for a causal batch the row of every decode token lists the slots
  the sliding-window kernel computes for that token.
\<close>

theorem step_served:
  assumes wf: "wf_swa sb" and split: "sx_split sx cm (sb_decode_threshold sb) = (nd, np, ndt, npt)"
    and cut: "batch_cut cm lens (nd, np, ndt, npt)"
    and fits: "ndt + npt \<le> sb_max_tokens sb" "length (cm_slot_mapping cm) \<le> sb_max_tokens sb"
    and tr: "sx_token_to_req sx cm (sb_token_to_req_indices sb) = (tr, rb)"
    and swa: "swa_build p sx sb cm = Inr (swa, sb')"
    and mla: "mla_build mx mb cmc = Inr (md, cmc', mb')"
    and msplit: "mx_split mx cmc' (if mb_reorder_batch_threshold mb = 0 then 1 else mb_reorder_batch_threshold mb)
      = (nd, np, ndt, npt)"
    and ratio: "al_compress_ratio layer = mb_compress_ratio mb" "mb_compress_ratio mb \<in> {1, 4, 128}"
    and topk: "mb_compress_ratio mb = 4 \<Longrightarrow> al_topk_indices_buffer layer \<noteq> None"
    and pool: "1 < mb_compress_ratio mb \<Longrightarrow> al_kv_cache layer \<noteq> None"
    and chunk: "0 < al_PREFILL_CHUNK_SIZE layer" and dt: "query_dtype_ok layer dt" and q: "length q = ndt + npt"
  shows "\<exists>calls reg'. forward_sparse_impl gtopk layer reg ph hdim dt q (Some md) swa (self_kv_cache layer) (al_compress_ratio layer \<le> 1)
      = Inr (calls, reg')
    \<and> covered (map sc_out calls) = [ndt..<ndt + npt] @ [0..<ndt]
    \<and> (\<forall>call \<in> set calls. \<forall>t. fst (sc_out call) \<le> t \<and> t < snd (sc_out call) \<longrightarrow> call_serves ph hdim q swa call t)
    \<and> (cm_causal cm \<longrightarrow> (\<forall>t < ndt. token_swa_row swa t
         = map (swa_entry (decode_swa_args sb cm tr (step_valid cm sb) (sb_window_size sb)) t) [0..<sb_window_size sb]))"
proof -
  note f = swa_build_fields [OF split swa]
  note m = mla_build_c128a_present [OF mla _ msplit]
  note t = batch_cut_tokens [OF cut]
  have "0 < np \<Longrightarrow> prefill_ready layer (self_kv_cache layer) swa (Some md)"
    "0 < nd \<Longrightarrow> decode_ready layer (self_kv_cache layer) (al_compress_ratio layer \<le> 1) swa (Some md)"
    using ratio topk pool m t f(1,6-11) by (auto simp: prefill_ready_def prefill_rows_ready_def decode_ready_def self_kv_cache_def)
  then obtain calls reg' where r: "forward_sparse_impl gtopk layer reg ph hdim dt q (Some md) swa (self_kv_cache layer)
      (al_compress_ratio layer \<le> 1) = Inr (calls, reg')"
    using forward_sparse_returns [OF chunk, of gtopk reg ph hdim dt q "Some md" swa "self_kv_cache layer" "al_compress_ratio layer \<le> 1"]
      dt f(2,3) by (metis surj_pair)
  have n: "ndt \<le> sb_max_tokens sb" using fits by simp
  have rows: "token_swa_row swa t
      = map (swa_entry (decode_swa_args sb cm tr (step_valid cm sb) (sb_window_size sb)) t) [0..<sb_window_size sb]"
    if "cm_causal cm" "t < ndt" for t
    using swa_build_decode_entries(1) [OF wf split tr n that swa] that(2) f(4) by (simp add: token_swa_row_def)
  have ql: "sm_num_decode_tokens swa + sm_num_prefill_tokens swa \<le> length q" using q f by simp
  note s = forward_sparse_serves [OF chunk swa_build_batch_lens [OF split swa cut]
      swa_build_rows [OF wf split fits swa] ql r, unfolded f(4,5)]
  show ?thesis using r s rows by blast
qed

section \<open>A step with a decode and a prefill through a C128A layer\<close>

definition step_demo_batch :: common_meta where
  "step_demo_batch = swa_demo_batch\<lparr>cm_num_actual_tokens := 3, cm_query_start_loc := cu [2, 1],
     cm_query_start_loc_cpu := cu [2, 1], cm_slot_mapping := [4, 5, 14],
     cm_seq_lens_cpu_upper_bound := Some [6, 3], cm_positions := Some [4, 5, 2]\<rparr>"

definition step_demo_swa_ext :: swa_ext where
  "step_demo_swa_ext = swa_demo_ext\<lparr>sx_split := (\<lambda>cm t. (1, 1, 2, 1)),
     sx_token_to_req := (\<lambda>cm buf. ([0, 0, 1], [0, 0, 1, 0, 0, 0]))\<rparr>"

definition step_demo_mla :: mla_builder where
  "step_demo_mla = mla_init mla_demo_config 1 128 256 2 (\<lambda>_. 9)"

definition step_demo_layer :: attn_layer where
  "step_demo_layer = fi_demo_layer\<lparr>al_compress_ratio := 128\<rparr>"

lemma step_demo_fields:
  "sx_split step_demo_swa_ext cm t = (1, 1, 2, 1)"
  "sx_token_to_req step_demo_swa_ext cm b = ([0, 0, 1], [0, 0, 1, 0, 0, 0])"
  "mx_split mla_demo_ext cm t = (1, 1, 2, 1)" "mb_compress_ratio step_demo_mla = 128"
  "al_compress_ratio step_demo_layer = 128" "al_kv_cache step_demo_layer \<noteq> None" "0 < al_PREFILL_CHUNK_SIZE step_demo_layer"
  "query_dtype_ok step_demo_layer KV_bfloat16" "cm_causal step_demo_batch"
  "cm_seq_lens_cpu_upper_bound step_demo_batch = Some [6, 3]" "length (cm_slot_mapping step_demo_batch) = 3"
  by (simp_all add: step_demo_swa_ext_def mla_demo_ext_def step_demo_mla_def mla_init_def Let_def
      step_demo_layer_def fi_demo_layer_def query_dtype_ok_def step_demo_batch_def swa_demo_batch_def)

lemma step_demo_cut: "batch_cut step_demo_batch [2, 1] (1, 1, 2, 1)"
  by (simp add: batch_cut_def step_demo_batch_def nth_cu)

theorem step_served_witness:
  "\<exists>swa sb' md cmc' mb' calls reg'.
     swa_build sm121 step_demo_swa_ext swa_demo_builder step_demo_batch = Inr (swa, sb')
   \<and> mla_build mla_demo_ext step_demo_mla step_demo_batch = Inr (md, cmc', mb')
   \<and> forward_sparse_impl sm120_demo_gtopk step_demo_layer [] 8 1 KV_bfloat16 [[[1]], [[2]], [[3]]] (Some md) swa
       (self_kv_cache step_demo_layer) False = Inr (calls, reg')
   \<and> covered (map sc_out calls) = [2, 0, 1]"
proof -
  obtain swa sb' where s: "swa_build sm121 step_demo_swa_ext swa_demo_builder step_demo_batch = Inr (swa, sb')"
    using swa_build_text_ok [of step_demo_swa_ext step_demo_batch swa_demo_builder 1 1 2 1 "[6, 3]" sm121]
    by (auto simp: step_demo_fields swa_demo_builder_fields)
  obtain md cmc' mb' where m: "mla_build mla_demo_ext step_demo_mla step_demo_batch = Inr (md, cmc', mb')"
    using mla_build_returns [OF mla_init_wf, of step_demo_batch mla_demo_config "[4, 5, 2]" mla_demo_ext 1 128 256 2 "\<lambda>_. 9"]
    by (auto simp: step_demo_mla_def step_demo_batch_def swa_demo_batch_def mla_demo_fields)
  have "\<exists>calls reg'. forward_sparse_impl sm120_demo_gtopk step_demo_layer [] 8 1 KV_bfloat16 [[[1]], [[2]], [[3]]] (Some md) swa
       (self_kv_cache step_demo_layer) False = Inr (calls, reg') \<and> covered (map sc_out calls) = [2..<2 + 1] @ [0..<2]"
    using step_served [OF swa_demo_builder_fields(1) step_demo_fields(1) step_demo_cut _ _ step_demo_fields(2) s m
        step_demo_fields(3), of step_demo_layer KV_bfloat16 "[[[1]], [[2]], [[3]]]" sm120_demo_gtopk "[]" 8 1]
    by (simp add: step_demo_fields swa_demo_builder_fields del: upt_Suc) blast
  then show ?thesis using s m by (auto simp: upt_rec)
qed

end
