(* ===== verification/HfConfig.thy ===== *)
theory HfConfig
  imports Prelude "HOL-Library.AList"
begin

text \<open>
  Checkpoint configurations and their rewriting for speculative decoding:
  \<^verbatim>\<open>SpeculativeConfig.hf_config_override\<close>, the composition with the target's overrides and the
  DSpark normalisation of \<^verbatim>\<open>src/docker/overlay-54631-image/vllm/config/speculative.py\<close>.

  A configuration object is an association list from attribute names to values; a nested
  configuration (\<^verbatim>\<open>text_config\<close>) is a value itself.  The rewriting mutates the object in place and
  returns it, so the model passes the object through.
\<close>

section \<open>Attribute objects\<close>

datatype hfval =
    VNone
  | VBool bool
  | VInt int
  | VStr string
  | VList "hfval list"
  | VObj "(string \<times> hfval) list"

type_synonym hf_obj = "(string \<times> hfval) list"

text \<open>\<^verbatim>\<open>getattr(hf, name, default)\<close>, \<^verbatim>\<open>hasattr\<close>, assignment and \<^verbatim>\<open>hf.update(dict)\<close>.\<close>

definition getattr :: "hf_obj \<Rightarrow> string \<Rightarrow> hfval \<Rightarrow> hfval" where
  "getattr hf name d = (case map_of hf name of Some v \<Rightarrow> v | None \<Rightarrow> d)"

definition hasattr :: "hf_obj \<Rightarrow> string \<Rightarrow> bool" where
  "hasattr hf name \<longleftrightarrow> map_of hf name \<noteq> None"

definition setattr :: "string \<Rightarrow> hfval \<Rightarrow> hf_obj \<Rightarrow> hf_obj" where
  "setattr name v hf = AList.update name v hf"

definition hf_update :: "(string \<times> hfval) list \<Rightarrow> hf_obj \<Rightarrow> hf_obj" where
  "hf_update kvs hf = fold (\<lambda>(k, v). setattr k v) kvs hf"

text \<open>\<^verbatim>\<open>getattr\<close> on an attribute that may itself be missing or \<^verbatim>\<open>None\<close>.\<close>

definition getattr_in :: "hfval \<Rightarrow> string \<Rightarrow> hfval \<Rightarrow> hfval" where
  "getattr_in v name d = (case v of VObj hf \<Rightarrow> getattr hf name d | _ \<Rightarrow> d)"

text \<open>
  \<^verbatim>\<open>getattr(hf, name, hf)\<close>: the nested configuration, or the object itself when the attribute is
  absent; and the same followed by an access, which fails on anything that is not an object.
\<close>

definition sub_config :: "string \<Rightarrow> hf_obj \<Rightarrow> hfval" where
  "sub_config name hf = getattr hf name (VObj hf)"

definition as_obj :: "hfval \<Rightarrow> hf_obj result" where
  "as_obj v = (case v of VObj hf \<Rightarrow> Inr hf | _ \<Rightarrow> Inl (AttributeError ''not a configuration''))"

text \<open>
  \<^verbatim>\<open>hf.model_type\<close>; the base class of all configurations has it as a class attribute, the empty
  string, so that a checkpoint without the key reads as \<open>''''\<close>.
\<close>

definition model_type :: "hf_obj \<Rightarrow> string" where
  "model_type hf = (case map_of hf ''model_type'' of Some (VStr s) \<Rightarrow> s | _ \<Rightarrow> '''')"

definition set_type :: "string \<Rightarrow> hf_obj \<Rightarrow> hf_obj" where
  "set_type s hf = setattr ''model_type'' (VStr s) hf"

text \<open>\<^verbatim>\<open>hf.architectures[0]\<close>, which raises on an absent or empty list.\<close>

definition first_arch :: "hf_obj \<Rightarrow> string result" where
  "first_arch hf =
     (case map_of hf ''architectures'' of
        Some (VList (VStr a # _)) \<Rightarrow> Inr a
      | Some (VList []) \<Rightarrow> Inl (IndexError ''list index out of range'')
      | _ \<Rightarrow> Inl (TypeError ''architectures is not subscriptable''))"

section \<open>Building blocks of the rewriting\<close>

definition set_predict :: "hfval \<Rightarrow> string \<Rightarrow> hf_obj \<Rightarrow> hf_obj" where
  "set_predict n arch hf = hf_update [(''n_predict'', n), (''architectures'', VList [VStr arch])] hf"

text \<open>\<^verbatim>\<open>if hf.model_type in olds: hf.model_type = new\<close>.\<close>

definition retype :: "string list \<Rightarrow> string \<Rightarrow> hf_obj \<Rightarrow> hf_obj" where
  "retype olds new hf = (if model_type hf \<in> set olds then set_type new hf else hf)"

text \<open>\<^verbatim>\<open>if hf.model_type == t\<close>: the prediction depth from the MTP layer count, and the MTP architecture.\<close>

definition predict_if :: "string \<Rightarrow> hfval \<Rightarrow> string \<Rightarrow> hf_obj \<Rightarrow> hf_obj" where
  "predict_if t d arch hf =
     (if model_type hf = t then set_predict (getattr hf ''num_nextn_predict_layers'' d) arch hf else hf)"

text \<open>\<^verbatim>\<open>if hf.architectures[0] == a\<close>: retype and set the prediction depth, with some layers dropped.\<close>

definition arch_case ::
  "string \<Rightarrow> string \<Rightarrow> (string \<times> hfval) list \<Rightarrow> string \<Rightarrow> hf_obj \<Rightarrow> hf_obj result" where
  "arch_case a t extra arch hf =
     bind_result (first_arch hf) (\<lambda>a0.
       if a0 = a
       then Inr (hf_update (extra @ [(''n_predict'', getattr hf ''num_nextn_predict_layers'' VNone),
                                     (''architectures'', VList [VStr arch])]) (set_type t hf))
       else Inr hf)"

section \<open>The stages, in the order of the code\<close>

definition dots3_stage :: "hf_obj \<Rightarrow> hf_obj result" where
  "dots3_stage hf =
     (if model_type hf = ''dots3_note'' then
        (let n_predict = getattr hf ''num_nextn_predict_layers'' (VInt 1);
             given = getattr hf ''mtp_layer_types'' VNone
         in bind_result
              (case (given, n_predict) of
                 (VNone, VInt n) \<Rightarrow> Inr (replicate (nat n) (VStr ''sliding_attention''))
               | (VNone, _) \<Rightarrow> Inl (TypeError ''can't multiply sequence by non-int'')
               | (VList ts, _) \<Rightarrow> Inr ts
               | _ \<Rightarrow> Inl (TypeError ''object has no len()''))
              (\<lambda>mtp_layer_types.
                 raise_if (VInt (int (length mtp_layer_types)) \<noteq> n_predict)
                   (ValueError ''mtp_layer_types must have one entry per MTP layer'')
                   (case map_of hf ''layer_types'' of
                      Some (VList layer_types) \<Rightarrow>
                        Inr (set_predict n_predict ''Dots3NoteMTPModel'' (set_type ''dots3_note_mtp''
                          (setattr ''layer_types'' (VList (layer_types @ mtp_layer_types)) hf)))
                    | _ \<Rightarrow> Inl (AttributeError ''layer_types''))))
      else Inr hf)"

definition deepseek_stage :: "bool \<Rightarrow> hf_obj \<Rightarrow> hf_obj" where
  "deepseek_stage use_v32_mtp hf =
     predict_if ''deepseek_mtp'' VNone (if use_v32_mtp then ''DeepseekV32MTPModel'' else ''DeepSeekMTPModel'')
       (retype [''deepseek_v3'', ''deepseek_v32'', ''glm_moe_dsa''] ''deepseek_mtp'' hf)"

definition deepseek_v4_stage :: "hf_obj \<Rightarrow> hf_obj" where
  "deepseek_v4_stage hf =
     (if model_type hf = ''deepseek_v4''
      then set_predict (getattr hf ''num_nextn_predict_layers'' VNone) ''DeepSeekV4MTPModel''
             (set_type ''deepseek_mtp'' hf)
      else hf)"

text \<open>The first test is on the string itself, not on a tuple: it asks for a substring.\<close>

definition pangu_stage :: "hf_obj \<Rightarrow> hf_obj" where
  "pangu_stage hf =
     predict_if ''pangu_ultra_moe_mtp'' VNone ''OpenPanguMTPModel''
       (if in_str (model_type hf) ''pangu_ultra_moe'' then set_type ''pangu_ultra_moe_mtp'' hf else hf)"

definition kimi_stage :: "hf_obj \<Rightarrow> hf_obj" where
  "kimi_stage hf =
     (if model_type hf = ''kimi_k3''
      then set_predict (getattr_in (sub_config ''text_config'' hf) ''num_nextn_predict_layers'' VNone) ''KimiK3MTPModel''
             (set_type ''kimi_k3_mtp'' hf)
      else hf)"

definition mimo_stage :: "hf_obj \<Rightarrow> hf_obj result" where
  "mimo_stage hf = arch_case ''MiMoForCausalLM'' ''mimo_mtp'' [(''num_hidden_layers'', VInt 0)] ''MiMoMTPModel'' hf"

text \<open>The MiMo-V2 layer counts are constants of a model file outside the overlay: parameters.\<close>

definition mimo_v2_update :: "int \<Rightarrow> string \<Rightarrow> hf_obj \<Rightarrow> hf_obj" where
  "mimo_v2_update n arch hf =
     hf_update [(''num_hidden_layers'', VInt 0), (''n_predict'', VInt n), (''num_nextn_predict_layers'', VInt n),
                (''architectures'', VList [VStr arch])] (set_type ''mimo_v2_mtp'' hf)"

definition mimo_v2_stage :: "int \<Rightarrow> int \<Rightarrow> hf_obj \<Rightarrow> hf_obj result" where
  "mimo_v2_stage pro_layers flash_layers hf =
     bind_result (first_arch hf) (\<lambda>arch.
     bind_result (Inr (if arch = ''MiMoV2ForCausalLM'' then mimo_v2_update pro_layers ''MiMoV2MTPModel'' hf
                       else if arch = ''MiMoV2OmniForCausalLM'' then mimo_v2_update pro_layers ''MiMoV2OmniMTPModel'' hf
                       else hf)) (\<lambda>hf1.
     bind_result (first_arch hf1) (\<lambda>arch1.
     Inr (if arch1 = ''MiMoV2FlashForCausalLM'' then mimo_v2_update flash_layers ''MiMoV2MTPModel'' hf1 else hf1))))"

definition glm_stage :: "hf_obj \<Rightarrow> hf_obj result" where
  "glm_stage hf =
     bind_result (arch_case ''Glm4MoeForCausalLM'' ''glm4_moe_mtp'' [] ''Glm4MoeMTPModel'' hf) (\<lambda>hf1.
     bind_result (arch_case ''Glm4MoeLiteForCausalLM'' ''glm4_moe_lite_mtp'' [(''num_hidden_layers'', VInt 0)]
                    ''Glm4MoeLiteMTPModel'' hf1) (\<lambda>hf2.
     arch_case ''GlmOcrForConditionalGeneration'' ''glm_ocr_mtp'' [(''num_hidden_layers'', VInt 0)] ''GlmOcrMTPModel'' hf2))"

definition ernie_stage :: "hf_obj \<Rightarrow> hf_obj" where
  "ernie_stage hf = predict_if ''ernie_mtp'' VNone ''ErnieMTPModel'' (retype [''ernie4_5_moe''] ''ernie_mtp'' hf)"

definition nemotron_stage :: "hf_obj \<Rightarrow> hf_obj result" where
  "nemotron_stage hf =
     bind_result (first_arch hf) (\<lambda>a0.
     bind_result
       (if a0 \<in> {''NemotronH_Super_Omni_Reasoning_V3'', ''NemotronH_Omni_Reasoning_V3''} then
          (case map_of hf ''text_config'' of
             Some (VObj o') \<Rightarrow> Inr o'
           | _ \<Rightarrow> Inl (AttributeError ''text_config''))
        else Inr hf)
       (\<lambda>hf1.
        bind_result
          (if model_type hf1 \<in> {''nemotron_h'', ''nemotron_h_puzzle''} then
             (case map_of hf1 ''num_nextn_predict_layers'' of
                None \<Rightarrow> Inr False
              | Some (VInt n) \<Rightarrow> Inr (n > 0)
              | Some (VBool b) \<Rightarrow> Inr b
              | Some _ \<Rightarrow> Inl (TypeError ''unorderable types''))
           else Inr False)
          (\<lambda>is_mtp.
             Inr (predict_if ''nemotron_h_mtp'' (VInt 1) ''NemotronHMTPModel''
                    (if is_mtp then set_type ''nemotron_h_mtp'' hf1 else hf1)))))"

definition qwen3_next_stage :: "hf_obj \<Rightarrow> hf_obj" where
  "qwen3_next_stage hf =
     predict_if ''qwen3_next_mtp'' VNone ''Qwen3NextMTP'' (retype [''qwen3_next''] ''qwen3_next_mtp'' hf)"

definition arch_list :: "hf_obj \<Rightarrow> hfval list" where
  "arch_list hf = (case getattr hf ''architectures'' (VList []) of VList xs \<Rightarrow> xs | _ \<Rightarrow> [])"

definition bailing_stage :: "string \<Rightarrow> hf_obj \<Rightarrow> hf_obj" where
  "bailing_stage initial_architecture hf =
     (let hf1 = (if initial_architecture = ''BailingMoeV3ForCausalLM'' then set_type ''bailing_hybrid_v3_mtp'' hf
                 else if model_type hf = ''bailing_hybrid'' \<or> VStr ''BailingMoeV2_5ForCausalLM'' \<in> set (arch_list hf)
                 then set_type ''bailing_hybrid_mtp'' hf else hf)
      in predict_if ''bailing_hybrid_v3_mtp'' VNone ''BailingMoeV3MTPModel''
           (predict_if ''bailing_hybrid_mtp'' VNone ''BailingMoeV25MTPModel'' hf1))"

definition exaone_stage :: "hf_obj \<Rightarrow> hf_obj" where
  "exaone_stage hf =
     (let hf1 = predict_if ''exaone_moe_mtp'' VNone ''ExaoneMoeMTP'' (retype [''exaone_moe''] ''exaone_moe_mtp'' hf);
          hf2 = (if in_str ''exaone4_5'' (model_type hf1) then set_type ''exaone4_5_mtp'' hf1 else hf1)
      in predict_if ''exaone4_5_mtp'' VNone ''Exaone4_5_MTP'' hf2)"

definition qwen3_5_stage :: "hf_obj \<Rightarrow> hf_obj" where
  "qwen3_5_stage hf =
     (if model_type hf \<in> {''qwen3_5'', ''qwen3_5_moe'', ''qwen3_5_text'', ''qwen3_5_moe_text''} then
        (let is_moe = (model_type hf \<in> {''qwen3_5_moe'', ''qwen3_5_moe_text''})
         in set_predict (getattr hf ''mtp_num_hidden_layers'' VNone) (if is_moe then ''Qwen3_5MoeMTP'' else ''Qwen3_5MTP'')
              (set_type ''qwen3_5_mtp'' hf))
      else hf)"

definition mobius_text :: "hf_obj \<Rightarrow> hf_obj result" where
  "mobius_text tc =
     (case map_of tc ''mtp_num_experts'' of
        None \<Rightarrow> Inl (AttributeError ''mtp_num_experts'')
      | Some e \<Rightarrow>
          (case map_of tc ''mtp_num_experts_per_tok'' of
             None \<Rightarrow> Inl (AttributeError ''mtp_num_experts_per_tok'')
           | Some t \<Rightarrow>
               Inr (setattr ''num_experts_per_tok'' t (setattr ''num_experts'' e (set_type ''qwen3_5_moe_text'' tc)))))"

definition intern_stage :: "hf_obj \<Rightarrow> hf_obj result" where
  "intern_stage hf =
     (if model_type hf \<in> {''intern_s2_preview'', ''interns2_mobius''} then
        (let is_mobius = (model_type hf = ''interns2_mobius'');
             text_config = getattr hf ''text_config'' VNone;
             is_moe = (is_mobius \<or> getattr_in text_config ''model_type'' VNone = VStr ''qwen3_5_moe_text'');
             arch = (if is_mobius then ''InternS2MobiusMTP''
                     else if is_moe then ''Qwen3_5MoeMTP'' else ''Qwen3_5MTP'')
         in bind_result
              (if is_mobius then
                 (case text_config of
                    VObj tc \<Rightarrow> bind_result (mobius_text tc) (\<lambda>tc'. Inr (setattr ''text_config'' (VObj tc') hf))
                  | _ \<Rightarrow> Inl (AssertionError ''text_config is not None''))
               else Inr hf)
              (\<lambda>hf1. Inr (set_predict (getattr_in (getattr hf1 ''text_config'' VNone) ''mtp_num_hidden_layers'' VNone) arch
                            (set_type ''qwen3_5_mtp'' hf1))))
      else Inr hf)"

definition longcat_stage :: "hf_obj \<Rightarrow> hf_obj" where
  "longcat_stage hf =
     (if model_type hf \<in> {''longcat_flash'', ''longcat_flash_ngram''}
      then set_predict (getattr hf ''num_nextn_predict_layers'' (VInt 1)) ''LongCatFlashMTPModel''
             (set_type ''longcat_flash_mtp'' hf)
      else hf)"

text \<open>Promote the text configuration, keeping the quantization of the outer one when it has none.\<close>

definition promote_text :: "hf_obj \<Rightarrow> hf_obj result" where
  "promote_text hf =
     bind_result (as_obj (sub_config ''text_config'' hf)) (\<lambda>tc.
       let q = getattr hf ''quantization_config'' VNone
       in Inr (if q \<noteq> VNone \<and> getattr tc ''quantization_config'' VNone = VNone
               then hf_update [(''quantization_config'', q)] tc else tc))"

definition step3p5_stage :: "hf_obj \<Rightarrow> hf_obj result" where
  "step3p5_stage hf =
     bind_result (if model_type hf \<in> {''step3p5'', ''step3p7''} then Inr True
                  else bind_result (first_arch hf) (\<lambda>a.
                    Inr (a \<in> {''Step3p5ForCausalLM'', ''Step3p7ForConditionalGeneration''})))
       (\<lambda>hit.
          if hit then
            bind_result (promote_text hf) (\<lambda>tc.
              let hf1 = set_type ''step3p5_mtp'' tc
              in Inr (set_predict (getattr hf1 ''num_nextn_predict_layers'' (VInt 1)) ''Step3p5MTP'' hf1))
          else Inr hf)"

definition mistral_stage :: "string \<Rightarrow> hf_obj \<Rightarrow> hf_obj" where
  "mistral_stage initial_architecture hf =
     (if initial_architecture = ''MistralLarge3ForCausalLM''
      then hf_update [(''architectures'', VList [VStr ''EagleMistralLarge3ForCausalLM''])] hf else hf)"

definition hy_stage :: "hf_obj \<Rightarrow> hf_obj" where
  "hy_stage hf =
     (let hf1 = (if model_type hf = ''hy_v3''
                 then set_predict (getattr hf ''num_nextn_predict_layers'' VNone) ''HYV3MTPModel''
                        (set_type ''hy_v3_mtp'' hf) else hf)
      in if model_type hf1 = ''hy_v4''
         then set_predict (getattr hf1 ''num_nextn_predict_layers'' VNone) ''HYV4MTPModel''
                (set_type ''hy_v4_mtp'' hf1) else hf1)"

definition inkling_stage :: "hf_obj \<Rightarrow> hf_obj result" where
  "inkling_stage hf =
     (if model_type hf \<in> {''inkling_mm_model'', ''inkling_model''} then
        (let mtp = (case getattr hf ''mtp_config'' VNone of VObj o' \<Rightarrow> o' | _ \<Rightarrow> [])
         in (case getattr mtp ''num_nextn_predict_layers'' (VInt 0) of
               VInt depths \<Rightarrow>
                 raise_if (depths < 1) (ValueError ''The Inkling checkpoint does not contain MTP weights'')
                 (bind_result (as_obj (sub_config ''text_config'' hf)) (\<lambda>tc.
                   Inr (hf_update [(''n_predict'', VInt depths), (''num_nextn_predict_layers'', VInt depths),
                     (''chain_hidden_post_norm'', getattr mtp ''chain_hidden_post_norm'' (VBool False)),
                     (''local_layer_ids'', getattr mtp ''local_layer_ids'' (VList [])),
                     (''architectures'', VList [VStr ''InklingMTPModel''])] (set_type ''inkling_mtp'' tc))))
             | _ \<Rightarrow> Inl (TypeError ''unorderable types'')))
      else Inr hf)"

text \<open>
  \<^verbatim>\<open>num_kv_shared_layers\<close> is reset on the text configuration when it has one, which is the object
  itself when it is not nested.
\<close>

definition gemma4_stage :: "hf_obj \<Rightarrow> hf_obj" where
  "gemma4_stage hf =
     (if model_type hf \<in> {''gemma4_assistant'', ''gemma4_unified_assistant''} then
        (let hf1 = set_type ''gemma4_mtp'' hf;
             hf2 = (case map_of hf1 ''text_config'' of
                      Some (VObj tc) \<Rightarrow>
                        (if hasattr tc ''num_kv_shared_layers''
                         then setattr ''text_config'' (VObj (setattr ''num_kv_shared_layers'' (VInt 0) tc)) hf1 else hf1)
                    | Some _ \<Rightarrow> hf1
                    | None \<Rightarrow> (if hasattr hf1 ''num_kv_shared_layers''
                               then setattr ''num_kv_shared_layers'' (VInt 0) hf1 else hf1))
         in set_predict (VInt 1) ''Gemma4MTPModel'' hf2)
      else hf)"

definition minimax_stage :: "string \<Rightarrow> hf_obj \<Rightarrow> hf_obj result" where
  "minimax_stage initial_architecture hf =
     (if model_type hf = ''minimax_m3_vl'' \<or> initial_architecture = ''MiniMaxM3SparseForConditionalGeneration'' then
        bind_result (promote_text hf) (\<lambda>tc.
          let hf1 = set_type ''minimax_m3_mtp'' tc
          in Inr (set_predict (getattr hf1 ''num_mtp_modules'' (VInt 1)) ''MiniMaxM3MTP'' hf1))
      else if model_type hf = ''minimax_m3_mtp'' \<or> initial_architecture = ''MiniMaxM3MTP''
      then Inr (set_predict (getattr hf ''num_mtp_modules'' (VInt 1)) ''MiniMaxM3MTP'' hf)
      else Inr hf)"

section \<open>The whole rewriting\<close>

fun run_stages :: "(hf_obj \<Rightarrow> hf_obj result) list \<Rightarrow> hf_obj \<Rightarrow> hf_obj result" where
  "run_stages [] hf = Inr hf"
| "run_stages (s # ss) hf = bind_result (s hf) (run_stages ss)"

text \<open>The stages of the DeepSeek and Pangu families, and those after them.\<close>

definition first_stages :: "bool \<Rightarrow> (hf_obj \<Rightarrow> hf_obj result) list" where
  "first_stages use_v32_mtp =
     [dots3_stage, Inr \<circ> deepseek_stage use_v32_mtp, Inr \<circ> deepseek_v4_stage, Inr \<circ> pangu_stage]"

definition later_stages :: "int \<Rightarrow> int \<Rightarrow> string \<Rightarrow> (hf_obj \<Rightarrow> hf_obj result) list" where
  "later_stages pro_layers flash_layers initial_architecture =
     [Inr \<circ> kimi_stage, mimo_stage, mimo_v2_stage pro_layers flash_layers, glm_stage, Inr \<circ> ernie_stage, nemotron_stage,
      Inr \<circ> qwen3_next_stage, Inr \<circ> bailing_stage initial_architecture, Inr \<circ> exaone_stage, Inr \<circ> qwen3_5_stage,
      intern_stage, Inr \<circ> longcat_stage, step3p5_stage, Inr \<circ> mistral_stage initial_architecture, Inr \<circ> hy_stage,
      inkling_stage, Inr \<circ> gemma4_stage, minimax_stage initial_architecture]"

definition hf_config_override :: "int \<Rightarrow> int \<Rightarrow> hf_obj \<Rightarrow> hf_obj result" where
  "hf_config_override pro_layers flash_layers hf =
     bind_result (first_arch hf) (\<lambda>initial_architecture.
       run_stages (first_stages (model_type hf \<in> {''deepseek_v32'', ''glm_moe_dsa''})
         @ later_stages pro_layers flash_layers initial_architecture) hf)"

text \<open>
  The overrides a target model carries: a callable, or a dictionary, or none.  Only a callable
  reaches the draft, after the rewriting.
\<close>

datatype hf_overrides = NoOverrides | OverrideDict hf_obj | OverrideFn "hf_obj \<Rightarrow> hf_obj result"

definition compose_draft_hf_overrides :: "int \<Rightarrow> int \<Rightarrow> hf_overrides \<Rightarrow> hf_obj \<Rightarrow> hf_obj result" where
  "compose_draft_hf_overrides pro_layers flash_layers target_hf_overrides hf =
     (case target_hf_overrides of
        OverrideFn f \<Rightarrow> bind_result (hf_config_override pro_layers flash_layers hf) f
      | _ \<Rightarrow> hf_config_override pro_layers flash_layers hf)"

text \<open>
  \<^verbatim>\<open>isinstance(block_size, int)\<close> holds of a boolean, which the second test excludes; in the model
  only a \<open>VInt\<close> passes both.
\<close>

definition normalize_deepseek_v4_dspark_hf_config :: "hf_obj \<Rightarrow> hf_obj result" where
  "normalize_deepseek_v4_dspark_hf_config hf =
     (case getattr hf ''dspark_block_size'' VNone of
        VInt block_size \<Rightarrow>
          raise_if (block_size \<le> 0) (ValueError ''DeepSeek-V4 DSpark requires a positive integer dspark_block_size'')
            (Inr (setattr ''n_predict'' (VInt block_size) (setattr ''architectures'' (VList [VStr ''DSparkDraftModel''])
               (set_type ''deepseek_v4'' hf))))
      | _ \<Rightarrow> Inl (ValueError ''DeepSeek-V4 DSpark requires a positive integer dspark_block_size''))"

section \<open>Attribute laws\<close>

text \<open>
  What the rewriting relies on of an attribute object: an assignment is seen under its own name
  and under no other.
\<close>

locale attributes =
  fixes get :: "'o \<Rightarrow> 'n \<Rightarrow> 'v option" and put :: "'n \<Rightarrow> 'v \<Rightarrow> 'o \<Rightarrow> 'o"
  assumes get_put: "get (put n v x) m = (if m = n then Some v else get x m)"
begin

definition put_all :: "('n \<times> 'v) list \<Rightarrow> 'o \<Rightarrow> 'o" where
  "put_all kvs x = fold (\<lambda>(k, v). put k v) kvs x"

lemma put_all_Nil [simp]: "put_all [] x = x"
  by (simp add: put_all_def)

lemma put_all_Cons [simp]: "put_all ((k, v) # kvs) x = put_all kvs (put k v x)"
  by (simp add: put_all_def)

lemma get_put_all_other: "n \<notin> fst ` set kvs \<Longrightarrow> get (put_all kvs x) n = get x n"
  by (induction kvs arbitrary: x) (auto simp: get_put)

end

interpretation hf: attributes "map_of :: hf_obj \<Rightarrow> string \<Rightarrow> hfval option" setattr
  by unfold_locales (simp add: setattr_def update_conv')

lemma hf_update_put_all: "hf_update = hf.put_all"
  by (simp add: fun_eq_iff hf_update_def hf.put_all_def)

lemma map_of_setattr [simp]: "map_of (setattr k v hf) k' = (if k' = k then Some v else map_of hf k')"
  by (rule hf.get_put)

lemma map_of_set_type [simp]:
  "map_of (set_type t hf) k = (if k = ''model_type'' then Some (VStr t) else map_of hf k)"
  by (simp add: set_type_def)

lemma map_of_set_predict [simp]:
  "map_of (set_predict n a hf) k =
    (if k = ''architectures'' then Some (VList [VStr a]) else if k = ''n_predict'' then Some n else map_of hf k)"
  by (simp add: set_predict_def hf_update_put_all)

lemma model_type_simps [simp]:
  "model_type (set_type t hf) = t" "model_type (set_predict n a hf) = model_type hf"
  by (simp_all add: model_type_def)

lemma first_arch_simps [simp]:
  "first_arch (set_predict n a hf) = Inr a" "first_arch (set_type t hf) = first_arch hf"
  by (simp_all add: first_arch_def)

lemma arch_list_simps [simp]:
  "arch_list (set_predict n a hf) = [VStr a]" "arch_list (set_type t hf) = arch_list hf"
  by (simp_all add: arch_list_def getattr_def)

lemma run_stages_append: "run_stages (xs @ ys) hf = bind_result (run_stages xs hf) (run_stages ys)"
proof (induction xs arbitrary: hf)
  case (Cons s ss)
  then show ?case by (cases "s hf") simp_all
qed simp

section \<open>What the later stages leave alone\<close>

definition later_types :: "string list" where
  "later_types = [''kimi_k3'', ''ernie4_5_moe'', ''ernie_mtp'', ''nemotron_h'', ''nemotron_h_puzzle'', ''nemotron_h_mtp'',
     ''qwen3_next'', ''qwen3_next_mtp'', ''bailing_hybrid'', ''bailing_hybrid_mtp'', ''bailing_hybrid_v3_mtp'',
     ''exaone_moe'', ''exaone_moe_mtp'', ''exaone4_5_mtp'', ''qwen3_5'', ''qwen3_5_moe'', ''qwen3_5_text'', ''qwen3_5_moe_text'',
     ''intern_s2_preview'', ''interns2_mobius'', ''longcat_flash'', ''longcat_flash_ngram'', ''step3p5'', ''step3p7'',
     ''hy_v3'', ''hy_v4'', ''inkling_mm_model'', ''inkling_model'', ''gemma4_assistant'', ''gemma4_unified_assistant'',
     ''minimax_m3_vl'', ''minimax_m3_mtp'']"

definition later_archs :: "string list" where
  "later_archs = [''MiMoForCausalLM'', ''MiMoV2ForCausalLM'', ''MiMoV2OmniForCausalLM'', ''MiMoV2FlashForCausalLM'',
     ''Glm4MoeForCausalLM'', ''Glm4MoeLiteForCausalLM'', ''GlmOcrForConditionalGeneration'',
     ''NemotronH_Super_Omni_Reasoning_V3'', ''NemotronH_Omni_Reasoning_V3'', ''Step3p5ForCausalLM'',
     ''Step3p7ForConditionalGeneration'']"

definition initial_archs :: "string list" where
  "initial_archs = [''BailingMoeV3ForCausalLM'', ''MistralLarge3ForCausalLM'',
     ''MiniMaxM3SparseForConditionalGeneration'', ''MiniMaxM3MTP'']"

text \<open>A configuration that no later stage recognises.\<close>

definition unrecognised :: "string \<Rightarrow> hf_obj \<Rightarrow> bool" where
  "unrecognised initial hf \<longleftrightarrow>
     model_type hf \<notin> set later_types \<and> \<not> in_str ''exaone4_5'' (model_type hf) \<and>
     (\<exists>a. first_arch hf = Inr a \<and> a \<notin> set later_archs) \<and>
     VStr ''BailingMoeV2_5ForCausalLM'' \<notin> set (arch_list hf) \<and> initial \<notin> set initial_archs"

text \<open>What each stage needs to leave a configuration alone.\<close>

named_theorems inert_stages \<open>stages that leave an unrecognised configuration alone\<close>

lemma retype_inert [inert_stages]: "model_type hf \<notin> set ts \<Longrightarrow> retype ts t hf = hf"
  by (simp add: retype_def)

lemma predict_inert [inert_stages]: "model_type hf \<noteq> t \<Longrightarrow> predict_if t d a hf = hf"
  by (simp add: predict_if_def)

lemma arch_case_inert [inert_stages]: "first_arch hf = Inr b \<Longrightarrow> b \<noteq> a \<Longrightarrow> arch_case a t ex ar hf = Inr hf"
  by (simp add: arch_case_def)

lemma kimi_inert [inert_stages]: "model_type hf \<noteq> ''kimi_k3'' \<Longrightarrow> kimi_stage hf = hf"
  by (simp add: kimi_stage_def)

lemma mimo_inert [inert_stages]:
  "first_arch hf = Inr b \<Longrightarrow> b \<notin> {''MiMoForCausalLM'', ''MiMoV2ForCausalLM'', ''MiMoV2OmniForCausalLM'', ''MiMoV2FlashForCausalLM''} \<Longrightarrow>
   mimo_v2_stage p f hf = Inr hf \<and> mimo_stage hf = Inr hf"
  by (auto simp: mimo_stage_def mimo_v2_stage_def inert_stages)

lemma glm_inert [inert_stages]:
  "first_arch hf = Inr b \<Longrightarrow> b \<notin> {''Glm4MoeForCausalLM'', ''Glm4MoeLiteForCausalLM'', ''GlmOcrForConditionalGeneration''} \<Longrightarrow>
   glm_stage hf = Inr hf"
  by (auto simp: glm_stage_def inert_stages)

lemma nemotron_inert [inert_stages]:
  "first_arch hf = Inr b \<Longrightarrow> b \<notin> {''NemotronH_Super_Omni_Reasoning_V3'', ''NemotronH_Omni_Reasoning_V3''} \<Longrightarrow>
   model_type hf \<notin> {''nemotron_h'', ''nemotron_h_puzzle'', ''nemotron_h_mtp''} \<Longrightarrow> nemotron_stage hf = Inr hf"
  by (auto simp: nemotron_stage_def inert_stages)

lemma bailing_inert [inert_stages]:
  "i \<noteq> ''BailingMoeV3ForCausalLM'' \<Longrightarrow> VStr ''BailingMoeV2_5ForCausalLM'' \<notin> set (arch_list hf) \<Longrightarrow>
   model_type hf \<notin> {''bailing_hybrid'', ''bailing_hybrid_mtp'', ''bailing_hybrid_v3_mtp''} \<Longrightarrow> bailing_stage i hf = hf"
  by (auto simp: bailing_stage_def inert_stages)

lemma exaone_inert [inert_stages]:
  "\<not> in_str ''exaone4_5'' (model_type hf) \<Longrightarrow> model_type hf \<notin> {''exaone_moe'', ''exaone_moe_mtp'', ''exaone4_5_mtp''} \<Longrightarrow>
   exaone_stage hf = hf"
  by (auto simp: exaone_stage_def inert_stages Let_def)

lemma qwen_inert [inert_stages]:
  "model_type hf \<notin> {''qwen3_5'', ''qwen3_5_moe'', ''qwen3_5_text'', ''qwen3_5_moe_text''} \<Longrightarrow> qwen3_5_stage hf = hf"
  by (simp add: qwen3_5_stage_def)

lemma intern_inert [inert_stages]:
  "model_type hf \<notin> {''intern_s2_preview'', ''interns2_mobius''} \<Longrightarrow> intern_stage hf = Inr hf"
  by (simp add: intern_stage_def)

lemma longcat_inert [inert_stages]:
  "model_type hf \<notin> {''longcat_flash'', ''longcat_flash_ngram''} \<Longrightarrow> longcat_stage hf = hf"
  by (simp add: longcat_stage_def)

lemma step3p5_inert [inert_stages]:
  "first_arch hf = Inr b \<Longrightarrow> b \<notin> {''Step3p5ForCausalLM'', ''Step3p7ForConditionalGeneration''} \<Longrightarrow>
   model_type hf \<notin> {''step3p5'', ''step3p7''} \<Longrightarrow> step3p5_stage hf = Inr hf"
  by (simp add: step3p5_stage_def)

lemma hy_inert [inert_stages]: "model_type hf \<notin> {''hy_v3'', ''hy_v4''} \<Longrightarrow> hy_stage hf = hf"
  by (simp add: hy_stage_def)

lemma inkling_inert [inert_stages]:
  "model_type hf \<notin> {''inkling_mm_model'', ''inkling_model''} \<Longrightarrow> inkling_stage hf = Inr hf"
  by (simp add: inkling_stage_def)

lemma gemma4_inert [inert_stages]:
  "model_type hf \<notin> {''gemma4_assistant'', ''gemma4_unified_assistant''} \<Longrightarrow> gemma4_stage hf = hf"
  by (simp add: gemma4_stage_def)

lemma minimax_inert [inert_stages]:
  "i \<notin> {''MiniMaxM3SparseForConditionalGeneration'', ''MiniMaxM3MTP''} \<Longrightarrow>
   model_type hf \<notin> {''minimax_m3_vl'', ''minimax_m3_mtp''} \<Longrightarrow> minimax_stage i hf = Inr hf"
  by (simp add: minimax_stage_def)

lemma later_stages_inert:
  assumes "unrecognised initial hf"
  shows "run_stages (later_stages pro flash initial) hf = Inr hf"
proof -
  obtain a where a: "first_arch hf = Inr a" "a \<notin> set later_archs" using assms by (auto simp: unrecognised_def)
  have t: "model_type hf \<notin> set later_types" "\<not> in_str ''exaone4_5'' (model_type hf)"
    "VStr ''BailingMoeV2_5ForCausalLM'' \<notin> set (arch_list hf)" "initial \<notin> set initial_archs"
    using assms by (auto simp: unrecognised_def)
  from a(2) t(1,4) show ?thesis
    unfolding later_stages_def later_types_def later_archs_def initial_archs_def
    by (simp add: inert_stages a(1) t(2,3) ernie_stage_def qwen3_next_stage_def mistral_stage_def del: in_str.simps)
qed

section \<open>The rewriting of the deployed checkpoint\<close>

lemma override_deepseek_v4:
  assumes "model_type hf = ''deepseek_v4''" "first_arch hf = Inr a" "a \<notin> set initial_archs"
  shows "hf_config_override pro flash hf = Inr (deepseek_v4_stage hf)"
proof -
  have first: "run_stages (first_stages False) hf = Inr (deepseek_v4_stage hf)"
    using assms(1)
    by (simp add: first_stages_def dots3_stage_def deepseek_stage_def retype_def predict_if_def deepseek_v4_stage_def
        pangu_stage_def)
  have "unrecognised a (deepseek_v4_stage hf)"
    using assms(1,3) by (simp add: unrecognised_def deepseek_v4_stage_def later_types_def later_archs_def)
  from later_stages_inert [OF this] first show ?thesis
    using assms(1,2) by (simp add: hf_config_override_def run_stages_append)
qed

lemma normalize_block:
  assumes "map_of hf ''dspark_block_size'' = Some (VInt b)" "0 < b"
  shows "normalize_deepseek_v4_dspark_hf_config hf =
    Inr (setattr ''n_predict'' (VInt b) (setattr ''architectures'' (VList [VStr ''DSparkDraftModel'']) (set_type ''deepseek_v4'' hf)))"
  using assms by (simp add: normalize_deepseek_v4_dspark_hf_config_def getattr_def)

text \<open>
  C24. The DSpark draft of a DeepSeek-V4 checkpoint.  The rewriting turns the checkpoint into the
  MTP form (model type \<^verbatim>\<open>deepseek_mtp\<close>, prediction depth from the MTP layer count) and no later family
  claims it; the DSpark normalisation turns it back: the model type is \<^verbatim>\<open>deepseek_v4\<close> again, the
  prediction depth is the trained block size and not the MTP depth, the architecture is the draft's,
  and every other attribute is the checkpoint's own.
\<close>

theorem dspark_config_roundtrip:
  assumes "model_type hf = ''deepseek_v4''" "first_arch hf = Inr a" "a \<notin> set initial_archs"
    and "map_of hf ''dspark_block_size'' = Some (VInt b)" "0 < b"
  shows "\<exists>hf1 hf2. hf_config_override pro flash hf = Inr hf1 \<and> model_type hf1 = ''deepseek_mtp''
      \<and> map_of hf1 ''n_predict'' = Some (getattr hf ''num_nextn_predict_layers'' VNone)
      \<and> normalize_deepseek_v4_dspark_hf_config hf1 = Inr hf2 \<and> model_type hf2 = ''deepseek_v4''
      \<and> map_of hf2 ''n_predict'' = Some (VInt b) \<and> first_arch hf2 = Inr ''DSparkDraftModel''
      \<and> (\<forall>k. k \<notin> {''n_predict'', ''architectures''} \<longrightarrow> map_of hf2 k = map_of hf k)"
proof -
  let ?hf1 = "deepseek_v4_stage hf"
  have m: "map_of ?hf1 k = (if k = ''architectures'' then Some (VList [VStr ''DeepSeekV4MTPModel''])
      else if k = ''n_predict'' then Some (getattr hf ''num_nextn_predict_layers'' VNone)
      else if k = ''model_type'' then Some (VStr ''deepseek_mtp'') else map_of hf k)" for k
    using assms(1) by (simp add: deepseek_v4_stage_def)
  have b: "map_of ?hf1 ''dspark_block_size'' = Some (VInt b)" using assms(4) by (simp add: m)
  have t: "map_of hf ''model_type'' = Some (VStr ''deepseek_v4'')"
    using assms(1) by (auto simp: model_type_def split: option.splits hfval.splits)
  show ?thesis
    by (intro exI conjI, rule override_deepseek_v4 [OF assms(1-3)], simp add: model_type_def m, simp add: m,
        rule normalize_block [OF b assms(5)])
      (auto simp: model_type_def first_arch_def m t)
qed

definition dspark_demo_checkpoint :: hf_obj where
  "dspark_demo_checkpoint =
     [(''model_type'', VStr ''deepseek_v4''), (''architectures'', VList [VStr ''DeepseekV4ForCausalLM'']),
      (''num_nextn_predict_layers'', VInt 1), (''dspark_block_size'', VInt 5), (''vocab_size'', VInt 129280)]"

lemma dspark_demo_attrs:
  "model_type dspark_demo_checkpoint = ''deepseek_v4''" "first_arch dspark_demo_checkpoint = Inr ''DeepseekV4ForCausalLM''"
  "''DeepseekV4ForCausalLM'' \<notin> set initial_archs" "map_of dspark_demo_checkpoint ''dspark_block_size'' = Some (VInt 5)"
  by (simp_all add: dspark_demo_checkpoint_def model_type_def first_arch_def initial_archs_def)

theorem dspark_config_roundtrip_witness:
  "\<exists>hf1 hf2. hf_config_override 3 1 dspark_demo_checkpoint = Inr hf1 \<and> map_of hf1 ''n_predict'' = Some (VInt 1)
    \<and> normalize_deepseek_v4_dspark_hf_config hf1 = Inr hf2 \<and> map_of hf2 ''n_predict'' = Some (VInt 5)
    \<and> map_of hf2 ''vocab_size'' = Some (VInt 129280)"
proof -
  obtain hf1 hf2 where r: "hf_config_override 3 1 dspark_demo_checkpoint = Inr hf1"
    "map_of hf1 ''n_predict'' = Some (getattr dspark_demo_checkpoint ''num_nextn_predict_layers'' VNone)"
    "normalize_deepseek_v4_dspark_hf_config hf1 = Inr hf2" "map_of hf2 ''n_predict'' = Some (VInt 5)"
    "\<forall>k. k \<notin> {''n_predict'', ''architectures''} \<longrightarrow> map_of hf2 k = map_of dspark_demo_checkpoint k"
    using dspark_config_roundtrip [OF dspark_demo_attrs, of 3 1] by auto
  have "map_of hf2 ''vocab_size'' = map_of dspark_demo_checkpoint ''vocab_size''" using r(5) by simp
  with r(1-4) show ?thesis by (auto simp: dspark_demo_checkpoint_def getattr_def)
qed

section \<open>Configurations of no family\<close>

definition first_types :: "string list" where
  "first_types = [''dots3_note'', ''deepseek_v3'', ''deepseek_v32'', ''glm_moe_dsa'', ''deepseek_mtp'', ''deepseek_v4'',
     ''pangu_ultra_moe_mtp'']"

text \<open>
  A configuration whose model type and architecture belong to no family that has its own
  rewriting comes back unchanged, attribute for attribute, so that a plain draft model keeps its own
  configuration, provided the model type is not a part of the word \<^verbatim>\<open>pangu_ultra_moe\<close>.
\<close>

theorem override_inert:
  assumes "unrecognised a hf" "first_arch hf = Inr a" "model_type hf \<notin> set first_types"
    and "\<not> in_str (model_type hf) ''pangu_ultra_moe''"
  shows "hf_config_override pro flash hf = Inr hf"
proof -
  have "run_stages (first_stages v) hf = Inr hf" for v
    using assms(3,4)
    by (simp add: first_stages_def dots3_stage_def deepseek_stage_def deepseek_v4_stage_def pangu_stage_def first_types_def
        inert_stages del: in_str.simps)
  with later_stages_inert [OF assms(1)] show ?thesis
    by (simp add: hf_config_override_def run_stages_append assms(2))
qed

definition llama_demo_config :: hf_obj where
  "llama_demo_config = [(''model_type'', VStr ''llama''), (''architectures'', VList [VStr ''LlamaForCausalLM''])]"

theorem override_inert_witness: "hf_config_override 3 1 llama_demo_config = Inr llama_demo_config"
  by (rule override_inert [where a = "''LlamaForCausalLM''"])
    (simp_all add: unrecognised_def llama_demo_config_def model_type_def first_arch_def arch_list_def getattr_def
      later_types_def later_archs_def initial_archs_def first_types_def)

text \<open>
  The missing comma of the Pangu test.  A configuration whose model type is any part of the word
  \<^verbatim>\<open>pangu_ultra_moe\<close>, the empty string of a checkpoint without a \<^verbatim>\<open>model_type\<close> included, is rewritten
  into an OpenPangu MTP model, whatever its architecture was (the four architectures that a later
  stage tests for on its own are out of the statement).
\<close>

theorem pangu_substring_captures:
  assumes "in_str (model_type hf) ''pangu_ultra_moe''" "first_arch hf = Inr a" "a \<notin> set initial_archs"
  shows "\<exists>hf'. hf_config_override pro flash hf = Inr hf' \<and> model_type hf' = ''pangu_ultra_moe_mtp''
    \<and> first_arch hf' = Inr ''OpenPanguMTPModel''"
proof -
  let ?hf' = "pangu_stage hf"
  have ne: "model_type hf \<notin> set first_types" using assms(1) by (auto simp: first_types_def)
  have p: "?hf' = set_predict (getattr (set_type ''pangu_ultra_moe_mtp'' hf) ''num_nextn_predict_layers'' VNone)
      ''OpenPanguMTPModel'' (set_type ''pangu_ultra_moe_mtp'' hf)"
    using assms(1) by (simp add: pangu_stage_def predict_if_def del: in_str.simps)
  have first: "run_stages (first_stages v) hf = Inr ?hf'" for v
    using ne
    by (simp add: first_stages_def dots3_stage_def deepseek_stage_def deepseek_v4_stage_def first_types_def inert_stages)
  have "unrecognised a ?hf'"
    using assms(3) by (simp add: unrecognised_def p later_types_def later_archs_def)
  from later_stages_inert [OF this] first have "hf_config_override pro flash hf = Inr ?hf'"
    by (simp add: hf_config_override_def run_stages_append assms(2))
  moreover have "model_type ?hf' = ''pangu_ultra_moe_mtp''" "first_arch ?hf' = Inr ''OpenPanguMTPModel''"
    by (simp_all add: p)
  ultimately show ?thesis by blast
qed

text \<open>A checkpoint with no model type.\<close>

theorem pangu_substring_captures_witness:
  "\<exists>hf'. hf_config_override 3 1 [(''architectures'', VList [VStr ''MedusaModel''])] = Inr hf'
    \<and> model_type hf' = ''pangu_ultra_moe_mtp''"
proof -
  let ?hf = "[(''architectures'', VList [VStr ''MedusaModel''])]"
  have "in_str (model_type ?hf) ''pangu_ultra_moe''" "first_arch ?hf = Inr ''MedusaModel''" "''MedusaModel'' \<notin> set initial_archs"
    by (simp_all add: model_type_def first_arch_def initial_archs_def)
  from pangu_substring_captures [OF this] show ?thesis by blast
qed

end
