(* ===== verification/QwenDspark.thy ===== *)
theory QwenDspark
  imports HfConfig
begin

text \<open>
  Model configurations and the checkpoint contract of a standalone Qwen3-Omni DSpark draft:
  \<^verbatim>\<open>_validate_qwen3_omni_dspark\<close> and its helpers, the first part of
  \<^verbatim>\<open>src/docker/overlay-54631-image/vllm/config/speculative.py\<close>.
\<close>

section \<open>Model configurations\<close>

text \<open>
  What the speculative configuration reads of the library's \<^verbatim>\<open>ModelConfig\<close>; its getters
  (\<^verbatim>\<open>get_hidden_size()\<close>, \<^verbatim>\<open>get_total_num_hidden_layers()\<close>, \<^verbatim>\<open>get_vocab_size()\<close>) are fields.
\<close>

record model_config =
  mdl_model :: string
  mdl_model_weights :: string
  mdl_hf_config :: hf_obj
  mdl_hf_text_config :: hfval
  mdl_hf_overrides :: hf_overrides
  mdl_architectures :: "string list"
  mdl_quantization :: "string option"
  mdl_max_model_len :: nat
  mdl_tokenizer :: string
  mdl_hidden_size :: int
  mdl_num_hidden_layers :: int
  mdl_vocab_size :: int
  mdl_inherited :: "(string \<times> hfval) list"

section \<open>Reading nested values\<close>

definition hf_archs :: "hf_obj \<Rightarrow> string list" where
  "hf_archs hf = concat (map (\<lambda>v. case v of VStr s \<Rightarrow> [s] | _ \<Rightarrow> []) (arch_list hf))"

definition all_archs :: "model_config \<Rightarrow> string list" where
  "all_archs mc = mdl_architectures mc @ hf_archs (mdl_hf_config mc)"

definition is_qwen3_omni_target :: "model_config \<Rightarrow> bool" where
  "is_qwen3_omni_target mc \<longleftrightarrow>
     getattr (mdl_hf_config mc) ''model_type'' VNone = VStr ''qwen3_omni_moe'' \<or>
     (\<exists>a \<in> set (all_archs mc). a \<in> {''Qwen3OmniMoeForConditionalGeneration'', ''Qwen3OmniMoeThinkerForConditionalGeneration''})"

definition get_qwen3_omni_text_config :: "model_config \<Rightarrow> hfval" where
  "get_qwen3_omni_text_config mc =
     (let text_config = getattr_in (getattr (mdl_hf_config mc) ''thinker_config'' VNone) ''text_config'' VNone
      in if text_config = VNone then mdl_hf_text_config mc else text_config)"

text \<open>\<^verbatim>\<open>isinstance(v, int)\<close>, which holds of a boolean too.\<close>

definition int_like :: "hfval \<Rightarrow> int option" where
  "int_like v = (case v of VInt i \<Rightarrow> Some i | VBool b \<Rightarrow> Some (if b then 1 else 0) | _ \<Rightarrow> None)"

definition get_attention_head_dim :: "hfval \<Rightarrow> hfval" where
  "get_attention_head_dim config =
     (let head_dim = getattr_in config ''head_dim'' VNone
      in if head_dim \<noteq> VNone then head_dim
         else (case (int_like (getattr_in config ''hidden_size'' VNone),
                     int_like (getattr_in config ''num_attention_heads'' VNone)) of
                 (Some h, Some n) \<Rightarrow> if n > 0 \<and> h mod n = 0 then VInt (h div n) else VNone
               | _ \<Rightarrow> VNone))"

definition get_nested_config_value :: "hf_obj \<Rightarrow> string \<Rightarrow> string \<Rightarrow> hfval" where
  "get_nested_config_value config sect name = getattr_in (getattr config sect VNone) name VNone"

definition get_qwen3_dspark_value :: "hf_obj \<Rightarrow> string \<Rightarrow> hfval" where
  "get_qwen3_dspark_value config name =
     (let v1 = get_nested_config_value config ''dflash_config'' name;
          v2 = (if v1 = VNone then get_nested_config_value config ''eagle_config'' name else v1)
      in if v2 = VNone then getattr config name VNone else v2)"

section \<open>The contract, check by check\<close>

text \<open>\<^verbatim>\<open>isinstance(v, int) and not isinstance(v, bool) and v > 0\<close>.\<close>

definition positive_int :: "hfval \<Rightarrow> bool" where
  "positive_int v = (case v of VInt i \<Rightarrow> i > 0 | _ \<Rightarrow> False)"

definition qwen_block_size :: "hf_obj \<Rightarrow> hfval" where
  "qwen_block_size hf =
     (let b = get_qwen3_dspark_value hf ''block_size''
      in if b = VNone then get_qwen3_dspark_value hf ''dspark_block_size'' else b)"

definition check_arch_and_block :: "model_config \<Rightarrow> int \<Rightarrow> unit result" where
  "check_arch_and_block draft num_speculative_tokens =
     raise_if (''Qwen3OmniDSparkModel'' \<notin> set (all_archs draft))
       (ValueError ''Qwen3-Omni DSpark requires a standalone draft checkpoint'')
     (raise_if (\<not> positive_int (qwen_block_size (mdl_hf_config draft)))
       (ValueError ''Qwen3-Omni DSpark requires a positive integer block_size in the draft config.'')
     (raise_if (qwen_block_size (mdl_hf_config draft) \<noteq> VInt num_speculative_tokens)
       (ValueError ''Qwen3-Omni DSpark requires num_speculative_tokens to match the trained block_size'')
     (Inr ())))"

definition check_hidden_sizes :: "model_config \<Rightarrow> hfval \<Rightarrow> hf_obj \<Rightarrow> unit result" where
  "check_hidden_sizes target text_config hf =
     (let target_hidden_size = getattr_in text_config ''hidden_size'' (VInt (mdl_hidden_size target))
      in raise_if (getattr hf ''target_hidden_size'' VNone \<noteq> target_hidden_size)
           (ValueError ''Qwen3-Omni DSpark draft target_hidden_size must match the target text hidden size'')
         (raise_if (getattr hf ''hidden_size'' VNone \<noteq> target_hidden_size)
           (ValueError ''Qwen3-Omni DSpark draft hidden_size must match the target thinker hidden size'')
         (Inr ())))"

text \<open>The attention shape of a configuration, in the order of the dictionary.\<close>

definition attention_shape :: "hfval \<Rightarrow> (string \<times> hfval) list" where
  "attention_shape config =
     [(''num_attention_heads'', getattr_in config ''num_attention_heads'' VNone),
      (''num_key_value_heads'', getattr_in config ''num_key_value_heads'' (getattr_in config ''num_attention_heads'' VNone)),
      (''head_dim'', get_attention_head_dim config)]"

fun check_attention :: "(string \<times> hfval) list \<Rightarrow> (string \<times> hfval) list \<Rightarrow> unit result" where
  "check_attention [] draft = Inr ()"
| "check_attention ((name, target_value) # rest) draft =
     raise_if (\<not> positive_int target_value)
       (ValueError ''Qwen3-Omni DSpark requires a positive integer in the target thinker text_config'')
     (raise_if (map_of draft name \<noteq> Some target_value)
       (ValueError ''Qwen3-Omni DSpark draft must match the target thinker value'')
     (check_attention rest draft))"

definition qwen_target_layer_ids :: "hf_obj \<Rightarrow> hfval" where
  "qwen_target_layer_ids hf =
     (let v1 = get_nested_config_value hf ''dflash_config'' ''target_layer_ids'';
          v2 = (if v1 = VNone then getattr hf ''dspark_target_layer_ids'' VNone else v1)
      in if v2 = VNone then getattr hf ''target_layer_ids'' VNone else v2)"

fun plain_ints :: "hfval list \<Rightarrow> int list option" where
  "plain_ints [] = Some []"
| "plain_ints (v # vs) =
     (case v of VInt i \<Rightarrow> map_option ((#) i) (plain_ints vs) | _ \<Rightarrow> None)"

text \<open>\<^verbatim>\<open>list(ids) != sorted(set(ids))\<close>.\<close>

definition sorted_set :: "int list \<Rightarrow> int list" where
  "sorted_set xs = sort (remdups xs)"

definition check_layer_ids :: "hfval \<Rightarrow> model_config \<Rightarrow> hf_obj \<Rightarrow> unit result" where
  "check_layer_ids text_config target hf =
     (case qwen_target_layer_ids hf of
        VList vs \<Rightarrow>
          if vs = [] then Inl (ValueError ''Qwen3-Omni DSpark requires a non-empty target_layer_ids list'')
          else (case plain_ints vs of
             None \<Rightarrow> Inl (ValueError ''Qwen3-Omni DSpark target_layer_ids must contain only integers.'')
           | Some ids \<Rightarrow>
               raise_if (ids \<noteq> sorted_set ids)
                 (ValueError ''Qwen3-Omni DSpark target_layer_ids must be unique and strictly increasing.'')
               (case int_like (getattr_in text_config ''num_hidden_layers'' (VInt (mdl_num_hidden_layers target))) of
                  None \<Rightarrow> Inl (TypeError ''unorderable types'')
                | Some target_num_layers \<Rightarrow>
                    raise_if (hd ids < 0 \<or> last ids \<ge> target_num_layers)
                      (ValueError ''Qwen3-Omni DSpark target_layer_ids must be zero-based text-layer indices'')
                    (Inr ())))
      | _ \<Rightarrow> Inl (ValueError ''Qwen3-Omni DSpark requires a non-empty target_layer_ids list''))"

definition check_conditioning :: "hf_obj \<Rightarrow> unit result" where
  "check_conditioning hf =
     raise_if (get_qwen3_dspark_value hf ''use_aux_hidden_state'' \<noteq> VBool True)
       (ValueError ''Qwen3-Omni DSpark requires use_aux_hidden_state=true'')
     (raise_if (\<not> positive_int (getattr hf ''markov_rank'' VNone))
       (ValueError ''Qwen3-Omni DSpark requires a positive integer markov_rank'')
     (raise_if (getattr hf ''markov_head_type'' VNone \<noteq> VStr ''vanilla'')
       (ValueError ''Qwen3-Omni DSpark currently requires markov_head_type=vanilla'')
     (raise_if (getattr hf ''sample_from_anchor'' (VBool True) \<noteq> VBool True \<or>
                getattr hf ''dspark_bonus_anchor'' (VBool False) \<noteq> VBool False)
       (ValueError ''Qwen3-Omni DSpark requires sample_from_anchor=true and dspark_bonus_anchor=false.'')
     (Inr ()))))"

definition qwen_output_vocab :: "hf_obj \<Rightarrow> hfval" where
  "qwen_output_vocab hf =
     (let v = getattr hf ''draft_vocab_size'' VNone in if v = VNone then getattr hf ''vocab_size'' VNone else v)"

definition check_vocab :: "hfval \<Rightarrow> model_config \<Rightarrow> hf_obj \<Rightarrow> unit result" where
  "check_vocab text_config target hf =
     raise_if (\<not> positive_int (getattr hf ''vocab_size'' VNone))
       (ValueError ''Qwen3-Omni DSpark input vocab_size must be a positive integer'')
     (case qwen_output_vocab hf of
        VInt v \<Rightarrow>
          (case int_like (getattr_in text_config ''vocab_size'' (VInt (mdl_vocab_size target))) of
             None \<Rightarrow> Inl (TypeError ''unorderable types'')
           | Some target_vocab \<Rightarrow>
               raise_if (\<not> (0 < v \<and> v \<le> target_vocab))
                 (ValueError ''Qwen3-Omni DSpark draft_vocab_size must be a positive integer no larger than target vocab_size'')
               (Inr ()))
      | _ \<Rightarrow> Inl (ValueError ''Qwen3-Omni DSpark draft_vocab_size must be a positive integer no larger than target vocab_size''))"

fun first_set :: "hf_obj \<Rightarrow> string list \<Rightarrow> hfval \<Rightarrow> hfval" where
  "first_set hf [] v = v"
| "first_set hf (name # names) v =
     (let v' = (if v = VNone then getattr hf name VNone else v)
      in if v' \<noteq> VNone then v' else first_set hf names v')"

definition qwen_noise_token :: "hf_obj \<Rightarrow> hfval" where
  "qwen_noise_token hf =
     first_set hf [''mask_token_id'', ''dspark_noise_token_id'', ''pard_token'', ''ptd_token_id'']
       (get_nested_config_value hf ''dflash_config'' ''mask_token_id'')"

definition check_noise_token :: "hf_obj \<Rightarrow> unit result" where
  "check_noise_token hf =
     (case (qwen_noise_token hf, getattr hf ''vocab_size'' VNone) of
        (VInt t, VInt v) \<Rightarrow>
          raise_if (\<not> (0 \<le> t \<and> t < v))
            (ValueError ''Qwen3-Omni DSpark requires a valid mask/noise token id'') (Inr ())
      | _ \<Rightarrow> Inl (ValueError ''Qwen3-Omni DSpark requires a valid mask/noise token id''))"

definition has_mrope :: "hf_obj \<Rightarrow> bool" where
  "has_mrope hf \<longleftrightarrow>
     getattr hf ''mrope_section'' VNone \<noteq> VNone \<or>
     (\<exists>name \<in> {''rope_parameters'', ''rope_scaling''}.
        case getattr hf name VNone of VObj o' \<Rightarrow> hasattr o' ''mrope_section'' | _ \<Rightarrow> False)"

definition validate_qwen3_omni_dspark :: "model_config \<Rightarrow> model_config \<Rightarrow> int \<Rightarrow> unit result" where
  "validate_qwen3_omni_dspark target draft num_speculative_tokens =
     (if \<not> is_qwen3_omni_target target then Inr ()
      else
        (let hf = mdl_hf_config draft; text_config = get_qwen3_omni_text_config target
         in bind_result (check_arch_and_block draft num_speculative_tokens) (\<lambda>_.
            raise_if (text_config = VNone)
              (ValueError ''Qwen3-Omni DSpark could not resolve the target thinker text_config.'')
            (bind_result (check_hidden_sizes target text_config hf) (\<lambda>_.
             bind_result (check_attention (attention_shape text_config) (attention_shape (VObj hf))) (\<lambda>_.
             bind_result (check_layer_ids text_config target hf) (\<lambda>_.
             bind_result (check_conditioning hf) (\<lambda>_.
             bind_result (check_vocab text_config target hf) (\<lambda>_.
             bind_result (check_noise_token hf) (\<lambda>_.
             raise_if (has_mrope hf)
               (ValueError ''Qwen3-Omni DSpark draft checkpoints must use logical 1-D RoPE'') (Inr ())))))))))))"

section \<open>The contract\<close>

text \<open>The same contract as a predicate: what a draft must be, with no order of checks.\<close>

definition attention_agrees :: "hfval \<Rightarrow> hf_obj \<Rightarrow> bool" where
  "attention_agrees text_config hf \<longleftrightarrow>
     (\<forall>(name, v) \<in> set (attention_shape text_config).
        positive_int v \<and> map_of (attention_shape (VObj hf)) name = Some v)"

definition layers_in_target :: "hfval \<Rightarrow> model_config \<Rightarrow> hf_obj \<Rightarrow> bool" where
  "layers_in_target text_config target hf \<longleftrightarrow>
     (\<exists>ids n. qwen_target_layer_ids hf = VList (map VInt ids) \<and> ids \<noteq> [] \<and>
        int_like (getattr_in text_config ''num_hidden_layers'' (VInt (mdl_num_hidden_layers target))) = Some n \<and>
        sorted_wrt (<) ids \<and> (\<forall>i \<in> set ids. 0 \<le> i \<and> i < n))"

definition conditioning_ok :: "hf_obj \<Rightarrow> bool" where
  "conditioning_ok hf \<longleftrightarrow>
     get_qwen3_dspark_value hf ''use_aux_hidden_state'' = VBool True \<and>
     positive_int (getattr hf ''markov_rank'' VNone) \<and> getattr hf ''markov_head_type'' VNone = VStr ''vanilla'' \<and>
     getattr hf ''sample_from_anchor'' (VBool True) = VBool True \<and>
     getattr hf ''dspark_bonus_anchor'' (VBool False) = VBool False"

definition vocab_ok :: "hfval \<Rightarrow> model_config \<Rightarrow> hf_obj \<Rightarrow> bool" where
  "vocab_ok text_config target hf \<longleftrightarrow>
     (\<exists>v out_v target_v noise. getattr hf ''vocab_size'' VNone = VInt v \<and> 0 < v \<and>
        qwen_output_vocab hf = VInt out_v \<and>
        int_like (getattr_in text_config ''vocab_size'' (VInt (mdl_vocab_size target))) = Some target_v \<and>
        0 < out_v \<and> out_v \<le> target_v \<and> qwen_noise_token hf = VInt noise \<and> 0 \<le> noise \<and> noise < v)"

definition qwen_contract :: "model_config \<Rightarrow> model_config \<Rightarrow> int \<Rightarrow> bool" where
  "qwen_contract target draft k \<longleftrightarrow>
     (let hf = mdl_hf_config draft; tc = get_qwen3_omni_text_config target;
          size = getattr_in tc ''hidden_size'' (VInt (mdl_hidden_size target))
      in ''Qwen3OmniDSparkModel'' \<in> set (all_archs draft) \<and> qwen_block_size hf = VInt k \<and> 0 < k \<and> tc \<noteq> VNone \<and>
         getattr hf ''target_hidden_size'' VNone = size \<and> getattr hf ''hidden_size'' VNone = size \<and>
         attention_agrees tc hf \<and> layers_in_target tc target hf \<and> conditioning_ok hf \<and> vocab_ok tc target hf \<and>
         \<not> has_mrope hf)"

text \<open>Each check accepts exactly its part of the contract.\<close>

named_theorems accepts \<open>when a check returns\<close>

lemma raise_if_accepts [accepts]: "raise_if c e k = Inr () \<longleftrightarrow> \<not> c \<and> k = Inr ()"
  by (simp add: raise_if_def)

lemma bind_accepts [accepts]: "bind_result r (\<lambda>_. k) = Inr () \<longleftrightarrow> r = Inr () \<and> k = Inr ()" for r :: "unit result"
  by (cases r) simp_all

lemma arch_and_block_accepts [accepts]:
  "check_arch_and_block draft k = Inr () \<longleftrightarrow>
    ''Qwen3OmniDSparkModel'' \<in> set (all_archs draft) \<and> qwen_block_size (mdl_hf_config draft) = VInt k \<and> 0 < k"
  by (auto simp: check_arch_and_block_def accepts positive_int_def)

lemma hidden_sizes_accepts [accepts]:
  "check_hidden_sizes target tc hf = Inr () \<longleftrightarrow>
    getattr hf ''target_hidden_size'' VNone = getattr_in tc ''hidden_size'' (VInt (mdl_hidden_size target)) \<and>
    getattr hf ''hidden_size'' VNone = getattr_in tc ''hidden_size'' (VInt (mdl_hidden_size target))"
  by (auto simp: check_hidden_sizes_def accepts Let_def)

lemma attention_accepts_gen:
  "check_attention ts ds = Inr () \<longleftrightarrow> (\<forall>(name, v) \<in> set ts. positive_int v \<and> map_of ds name = Some v)"
  by (induction ts) (auto simp: accepts)

lemma attention_accepts [accepts]:
  "check_attention (attention_shape tc) (attention_shape (VObj hf)) = Inr () \<longleftrightarrow> attention_agrees tc hf"
  by (simp add: attention_accepts_gen attention_agrees_def)

lemma plain_ints_Some: "plain_ints vs = Some ids \<longleftrightarrow> vs = map VInt ids"
  by (induction vs arbitrary: ids) (auto split: hfval.splits)

lemma sorted_set_iff: "ids = sorted_set ids \<longleftrightarrow> sorted_wrt (<) ids"
proof
  assume "ids = sorted_set ids"
  then have "distinct ids" "sorted ids" by (metis distinct_remdups distinct_sort sorted_set_def, metis sorted_set_def sorted_sort)
  then show "sorted_wrt (<) ids" by (simp add: strict_sorted_iff)
next
  assume "sorted_wrt (<) ids"
  then have "distinct ids" "sorted ids" by (simp_all add: strict_sorted_iff)
  then show "ids = sorted_set ids" by (simp add: sorted_set_def distinct_remdups_id sort_key_id_if_sorted)
qed

lemma ends_bound:
  assumes "sorted_wrt (<) (ids :: int list)" "ids \<noteq> []"
  shows "(0 \<le> hd ids \<and> last ids < n) \<longleftrightarrow> (\<forall>i \<in> set ids. 0 \<le> i \<and> i < n)"
proof -
  have s: "sorted ids" using assms(1) by (simp add: strict_sorted_iff)
  have lo: "hd ids \<le> i" if "i \<in> set ids" for i
    using that s by (cases ids) auto
  have hi: "i \<le> last ids" if "i \<in> set ids" for i
    using that s by (cases ids rule: rev_cases) (auto simp: sorted_append)
  show ?thesis using lo hi assms(2) by fastforce
qed

lemma layer_ids_accepts [accepts]: "check_layer_ids tc target hf = Inr () \<longleftrightarrow> layers_in_target tc target hf"
proof (cases "\<exists>ids. qwen_target_layer_ids hf = VList (map VInt ids) \<and> ids \<noteq> []")
  case True
  then obtain ids where ids: "qwen_target_layer_ids hf = VList (map VInt ids)" "ids \<noteq> []" by blast
  have inj: "map VInt ids = map VInt ids' \<longleftrightarrow> ids = ids'" for ids' by (metis inj_map_eq_map hfval.inject(2) inj_onI)
  have "check_layer_ids tc target hf = Inr () \<longleftrightarrow>
      sorted_wrt (<) ids \<and> (\<exists>n. int_like (getattr_in tc ''num_hidden_layers'' (VInt (mdl_num_hidden_layers target))) = Some n \<and>
        0 \<le> hd ids \<and> last ids < n)"
    using ids by (auto simp: check_layer_ids_def plain_ints_Some [THEN iffD2] accepts sorted_set_iff split: option.splits)
  also have "\<dots> \<longleftrightarrow> layers_in_target tc target hf"
    using ends_bound [OF _ ids(2)] by (auto simp: layers_in_target_def ids inj)
  finally show ?thesis .
next
  case False
  then have "check_layer_ids tc target hf \<noteq> Inr ()"
    by (auto simp: check_layer_ids_def plain_ints_Some split: hfval.splits option.splits)
  with False show ?thesis by (auto simp: layers_in_target_def)
qed

lemma conditioning_accepts [accepts]: "check_conditioning hf = Inr () \<longleftrightarrow> conditioning_ok hf"
  by (auto simp: check_conditioning_def conditioning_ok_def accepts)

lemma vocab_accepts [accepts]:
  "(check_vocab tc target hf = Inr () \<and> check_noise_token hf = Inr ()) \<longleftrightarrow> vocab_ok tc target hf"
  by (auto simp: check_vocab_def check_noise_token_def vocab_ok_def accepts positive_int_def
      split: hfval.splits option.splits)

text \<open>
  C38. The draft validation decides the checkpoint contract.  For a Qwen3-Omni target it returns
  exactly when the draft is one that declares the draft architecture, trained on blocks of the
  requested number of tokens, with the target's hidden size and attention shape, with strictly
  increasing layer indices all inside the target, with the conditioning flags the runtime needs, with
  a vocabulary inside the target's and a noise token inside its own, and without a sectioned rotary
  embedding; for any other target it returns at once.
\<close>

theorem qwen_validation_decides:
  "validate_qwen3_omni_dspark target draft k = Inr () \<longleftrightarrow>
    \<not> is_qwen3_omni_target target \<or> qwen_contract target draft k"
proof -
  let ?tc = "get_qwen3_omni_text_config target" and ?hf = "mdl_hf_config draft"
  have "validate_qwen3_omni_dspark target draft k = Inr () \<longleftrightarrow> \<not> is_qwen3_omni_target target \<or>
    (check_arch_and_block draft k = Inr () \<and> ?tc \<noteq> VNone \<and> check_hidden_sizes target ?tc ?hf = Inr () \<and>
     check_attention (attention_shape ?tc) (attention_shape (VObj ?hf)) = Inr () \<and>
     check_layer_ids ?tc target ?hf = Inr () \<and> check_conditioning ?hf = Inr () \<and>
     (check_vocab ?tc target ?hf = Inr () \<and> check_noise_token ?hf = Inr ()) \<and> \<not> has_mrope ?hf)"
    by (simp add: validate_qwen3_omni_dspark_def Let_def bind_accepts raise_if_accepts)
  then show ?thesis by (simp only: qwen_contract_def Let_def accepts) blast
qed

definition qwen_demo_text :: hf_obj where
  "qwen_demo_text = [(''hidden_size'', VInt 2048), (''num_attention_heads'', VInt 32), (''num_key_value_heads'', VInt 4),
     (''head_dim'', VInt 128), (''num_hidden_layers'', VInt 48), (''vocab_size'', VInt 1000)]"

definition qwen_demo_target :: model_config where
  "qwen_demo_target = \<lparr>mdl_model = ''omni'', mdl_model_weights = '''',
     mdl_hf_config = [(''model_type'', VStr ''qwen3_omni_moe''),
       (''thinker_config'', VObj [(''text_config'', VObj qwen_demo_text)])],
     mdl_hf_text_config = VNone, mdl_hf_overrides = NoOverrides, mdl_architectures = [], mdl_quantization = None,
     mdl_max_model_len = 4096, mdl_tokenizer = ''omni'', mdl_hidden_size = 2048, mdl_num_hidden_layers = 48,
     mdl_vocab_size = 1000, mdl_inherited = []\<rparr>"

definition qwen_demo_draft :: model_config where
  "qwen_demo_draft = qwen_demo_target\<lparr>mdl_architectures := [''Qwen3OmniDSparkModel''],
     mdl_hf_config := qwen_demo_text @ [(''target_hidden_size'', VInt 2048), (''block_size'', VInt 4),
       (''dflash_config'', VObj [(''target_layer_ids'', VList [VInt 1, VInt 23, VInt 47]), (''mask_token_id'', VInt 999)]),
       (''use_aux_hidden_state'', VBool True), (''markov_rank'', VInt 8), (''markov_head_type'', VStr ''vanilla'')]\<rparr>"

text \<open>A draft of block size four is taken with four tokens and refused with five.\<close>

theorem qwen_validation_decides_witness:
  "qwen_contract qwen_demo_target qwen_demo_draft 4 \<and> \<not> qwen_contract qwen_demo_target qwen_demo_draft 5"
proof -
  have "is_qwen3_omni_target qwen_demo_target" by code_simp
  moreover have "validate_qwen3_omni_dspark qwen_demo_target qwen_demo_draft 4 = Inr ()" by code_simp
  moreover have "validate_qwen3_omni_dspark qwen_demo_target qwen_demo_draft 5 \<noteq> Inr ()" by code_simp
  ultimately show ?thesis
    using qwen_validation_decides [of qwen_demo_target qwen_demo_draft 4]
      qwen_validation_decides [of qwen_demo_target qwen_demo_draft 5] by blast
qed

end
