(* ===== verification/SpecConfig.thy ===== *)
theory SpecConfig
  imports Complex_Main QwenDspark
begin

text \<open>
  \<^verbatim>\<open>SpeculativeConfig\<close> of \<^verbatim>\<open>src/docker/overlay-54631-image/vllm/config/speculative.py\<close>: the record,
  the constructor \<^verbatim>\<open>__post_init__\<close> stage by stage, and its helpers.

  The constructor of the library's \<^verbatim>\<open>ModelConfig\<close>, the EAGLE and hidden-state wrapper configurations
  and the registry lookup of \<^verbatim>\<open>update_arch_\<close> are library code: the record \<open>spec_ext\<close>.  Floating
  point rates are rationals, without rounding; log messages are left out.
\<close>

section \<open>Configurations\<close>

record parallel_config =
  pc_pipeline_parallel_size :: nat
  pc_tensor_parallel_size :: nat
  pc_others :: "(string \<times> hfval) list"

record spec_config =
  spc_num_speculative_tokens :: "int option"
  spc_model :: "string option"
  spc_method :: "string option"
  spc_draft_tensor_parallel_size :: "nat option"
  spc_tensor_parallel_size :: "nat option"
  spc_quantization :: "string option"
  spc_max_model_len :: "nat option"
  spc_revision :: "string option"
  spc_code_revision :: "string option"
  spc_use_heterogeneous_vocab :: bool
  spc_prompt_lookup_max :: "int option"
  spc_prompt_lookup_min :: "int option"
  spc_parallel_drafting :: bool
  spc_target_model_config :: "model_config option"
  spc_target_parallel_config :: "parallel_config option"
  spc_num_speculative_tokens_per_batch_size :: "(nat \<times> nat \<times> nat) list option"
  spc_draft_model_config :: "model_config option"
  spc_draft_parallel_config :: "parallel_config option"
  spc_suffix_decoding_max_tree_depth :: int
  spc_suffix_decoding_max_cached_requests :: int
  spc_suffix_decoding_max_spec_factor :: rat
  spc_suffix_decoding_min_token_prob :: rat
  spc_rejection_sample_method :: string
  spc_synthetic_acceptance_rates :: "rat list option"
  spc_synthetic_acceptance_length :: "rat option"
  spc_enable_adaptive_verification :: bool
  spc_draft_sample_method :: string
  spc_dspark_draft_topk :: "int option"

text \<open>The arguments the draft's \<^verbatim>\<open>ModelConfig\<close> is built from, and the library code.\<close>

record draft_request =
  dr_model :: string
  dr_tokenizer :: string
  dr_revision :: "string option"
  dr_code_revision :: "string option"
  dr_max_model_len :: "nat option"
  dr_spec_target_max_model_len :: nat
  dr_quantization :: "string option"
  dr_hf_overrides :: hf_overrides
  dr_inherited :: "(string \<times> hfval) list"

record spec_ext =
  se_model_config :: "draft_request \<Rightarrow> model_config result"
  se_architectures :: "hf_obj \<Rightarrow> string list"
  se_hf_text_config :: "hf_obj \<Rightarrow> hfval"
  se_is_eagle_config :: "hf_obj \<Rightarrow> bool"
  se_eagle_config :: "string \<Rightarrow> hf_obj \<Rightarrow> hf_obj"
  se_extract_config :: "hf_obj \<Rightarrow> hf_obj \<Rightarrow> hf_obj"
  se_has_arctic_inference :: bool
  se_verify_with_parallel :: "model_config \<Rightarrow> parallel_config option \<Rightarrow> unit result"
  se_mimo_pro_layers :: int
  se_mimo_flash_layers :: int

definition MTPModelTypes :: "string list" where
  "MTPModelTypes = [''deepseek_mtp'', ''dots3_note_mtp'', ''mimo_mtp'', ''mimo_v2_mtp'', ''glm4_moe_mtp'',
     ''glm4_moe_lite_mtp'', ''glm_ocr_mtp'', ''ernie_mtp'', ''nemotron_h_mtp'', ''exaone_moe_mtp'', ''exaone4_5_mtp'',
     ''qwen3_next_mtp'', ''qwen3_5_mtp'', ''longcat_flash_mtp'', ''bailing_hybrid_v3_mtp'', ''minimax_m3_mtp'',
     ''bailing_hybrid_mtp'', ''mtp'', ''kimi_k3_mtp'', ''pangu_ultra_moe_mtp'', ''step3p5_mtp'', ''hy_v3_mtp'',
     ''hy_v4_mtp'', ''gemma4_mtp'', ''inkling_mtp'']"

section \<open>Acceptance rates\<close>

text \<open>\<^verbatim>\<open>int(x)\<close> truncates; the argument is non-negative here.\<close>

definition acceptance_length_to_rates :: "rat \<Rightarrow> nat \<Rightarrow> rat list" where
  "acceptance_length_to_rates len n =
     (let num_drafts = len - 1; num_full = nat \<lfloor>num_drafts\<rfloor>
      in take n (replicate num_full 1 @ [num_drafts - of_nat num_full] @ replicate (n - num_full - 1) 0))"

definition resolve_synthetic_acceptance_rates ::
  "nat \<Rightarrow> rat list option \<Rightarrow> rat option \<Rightarrow> rat list result" where
  "resolve_synthetic_acceptance_rates n rates len =
     raise_if ((rates = None) = (len = None))
       (ValueError ''rejection_sample_method=synthetic requires exactly one of rates or length'')
     (case rates of
        Some rs \<Rightarrow>
          raise_if (length rs \<noteq> n) (ValueError ''synthetic_acceptance_rates must have length n'')
          (raise_if (\<not> list_all (\<lambda>r. 0 \<le> r \<and> r \<le> 1) rs)
             (ValueError ''synthetic_acceptance_rates entries must be in [0, 1]'')
          (raise_if (list_ex (\<lambda>i. rs ! i > rs ! (i - 1)) [1..<n])
             (ValueError ''synthetic_acceptance_rates must be non-increasing'')
          (Inr rs)))
      | None \<Rightarrow>
          (case len of
             None \<Rightarrow> Inl (AssertionError ''length is not None'')
           | Some l \<Rightarrow>
               raise_if (\<not> (1 \<le> l \<and> l \<le> of_nat (n + 1)))
                 (ValueError ''synthetic_acceptance_length must be in [1, n + 1]'')
               (Inr (acceptance_length_to_rates l n))))"

section \<open>Method and model\<close>

text \<open>
  \<^verbatim>\<open>str.split(".")\<close>, \<^verbatim>\<open>str.startswith\<close>, \<^verbatim>\<open>str.isidentifier\<close> and \<^verbatim>\<open>str.lower\<close> on ASCII strings.
\<close>

fun split_dots :: "string \<Rightarrow> string \<Rightarrow> string list" where
  "split_dots acc [] = [rev acc]"
| "split_dots acc (c # s) = (if c = CHR ''.'' then rev acc # split_dots [] s else split_dots (c # acc) s)"

definition char_nat :: "char \<Rightarrow> nat" where
  "char_nat c = of_char c"

definition is_letter :: "char \<Rightarrow> bool" where
  "is_letter c \<longleftrightarrow> 65 \<le> char_nat c \<and> char_nat c \<le> 90 \<or> 97 \<le> char_nat c \<and> char_nat c \<le> 122 \<or> c = CHR ''_''"

definition is_digit :: "char \<Rightarrow> bool" where
  "is_digit c \<longleftrightarrow> 48 \<le> char_nat c \<and> char_nat c \<le> 57"

definition isidentifier :: "string \<Rightarrow> bool" where
  "isidentifier s = (case s of [] \<Rightarrow> False | c # cs \<Rightarrow> is_letter c \<and> list_all (\<lambda>d. is_letter d \<or> is_digit d) cs)"

definition lower :: "string \<Rightarrow> string" where
  "lower s = map (\<lambda>c. if 65 \<le> char_nat c \<and> char_nat c \<le> 90 then char_of (char_nat c + 32) else c) s"

definition is_custom_proposer_path :: "string option \<Rightarrow> bool" where
  "is_custom_proposer_path model =
     (case model of
        None \<Rightarrow> False
      | Some s \<Rightarrow>
          if list_ex (\<lambda>p. is_prefix p s) [''http://'', ''https://'', ''file://''] then False
          else if CHR ''/'' \<in> set s then False
          else (let parts = split_dots [] s in length parts \<ge> 2 \<and> list_all isidentifier parts))"

definition infer_method :: "spec_config \<Rightarrow> spec_config" where
  "infer_method self =
     (let m = (case spc_method self of
                 Some m \<Rightarrow> m
               | None \<Rightarrow> if is_custom_proposer_path (spc_model self) then ''custom_class''
                         else if spc_model self \<in> {Some ''ngram'', Some ''[ngram]''} then ''ngram'' else ''draft_model'')
      in self\<lparr>spc_method := Some (if m \<in> set MTPModelTypes \<and> m \<noteq> ''mtp'' then ''mtp'' else m)\<rparr>)"

text \<open>A falsy quantization is replaced by the target's.\<close>

definition inherit_quantization :: "model_config \<Rightarrow> spec_config \<Rightarrow> spec_config" where
  "inherit_quantization t self =
     (if spc_quantization self \<in> {None, Some ''''} then self\<lparr>spc_quantization := mdl_quantization t\<rparr> else self)"

definition default_model :: "spec_config \<Rightarrow> spec_config result" where
  "default_model self =
     (if spc_model self = None \<and> spc_num_speculative_tokens self \<noteq> None then
        (let m = the (spc_method self) in
         if m = ''mtp'' then
           (case spc_target_model_config self of
              None \<Rightarrow> Inl (ValueError ''target_model_config must be present for mtp'')
            | Some t \<Rightarrow> Inr (inherit_quantization t (self\<lparr>spc_model :=
                Some (if mdl_model_weights t \<noteq> '''' then mdl_model_weights t else mdl_model t)\<rparr>)))
         else if m = ''dspark'' then
           (case spc_target_model_config self of
              None \<Rightarrow> Inl (ValueError ''target_model_config must be present for dspark'')
            | Some t \<Rightarrow> Inr (inherit_quantization t (self\<lparr>spc_model := Some (mdl_model t)\<rparr>)))
         else if m \<in> {''ngram'', ''[ngram]''} then Inr (self\<lparr>spc_model := Some ''ngram''\<rparr>)
         else if m \<in> {''ngram_gpu'', ''suffix'', ''extract_hidden_states''} then Inr (self\<lparr>spc_model := Some m\<rparr>)
         else if m = ''custom_class'' then Inl (ValueError ''method=custom_class requires model'')
         else Inl (ValueError ''num_speculative_tokens was provided but without speculative model.''))
      else Inr self)"

section \<open>Methods without a draft model\<close>

definition ngram_lookup :: "spec_config \<Rightarrow> spec_config result" where
  "ngram_lookup self =
     (let (lo, hi) = (case (spc_prompt_lookup_min self, spc_prompt_lookup_max self) of
                        (None, None) \<Rightarrow> (5, 5)
                      | (None, Some h) \<Rightarrow> (h, h)
                      | (Some l, None) \<Rightarrow> (l, l)
                      | (Some l, Some h) \<Rightarrow> (l, h))
      in raise_if (lo > hi) (ValueError ''prompt_lookup_min must be <= prompt_lookup_max'')
           (Inr (self\<lparr>spc_prompt_lookup_min := Some lo, spc_prompt_lookup_max := Some hi,
                      spc_draft_model_config := spc_target_model_config self,
                      spc_draft_parallel_config := spc_target_parallel_config self\<rparr>)))"

definition validate_suffix_decoding :: "spec_ext \<Rightarrow> spec_config \<Rightarrow> spec_config result" where
  "validate_suffix_decoding ext self =
     raise_if (\<not> se_has_arctic_inference ext) (ImportError ''Arctic Inference is required for suffix decoding.'')
     (let self1 = (if spc_num_speculative_tokens self = None
                   then self\<lparr>spc_num_speculative_tokens := Some (spc_suffix_decoding_max_tree_depth self)\<rparr> else self)
      in raise_if (spc_suffix_decoding_max_tree_depth self1 < 1) (ValueError ''suffix_decoding_max_tree_depth must be >= 1'')
         (raise_if (spc_suffix_decoding_max_cached_requests self1 < 0) (ValueError ''suffix_decoding_max_cached_requests must be >= 0'')
         (raise_if (spc_suffix_decoding_max_spec_factor self1 < 0) (ValueError ''suffix_decoding_max_spec_factor must be >= 0'')
         (raise_if (\<not> (0 \<le> spc_suffix_decoding_min_token_prob self1 \<and> spc_suffix_decoding_min_token_prob self1 \<le> 1))
            (ValueError ''suffix_decoding_min_token_prob must be in [0, 1]'')
         (Inr self1)))))"

definition custom_class_config :: "spec_config \<Rightarrow> spec_config" where
  "custom_class_config self =
     self\<lparr>spc_prompt_lookup_max := Some 0, spc_prompt_lookup_min := Some 0,
          spc_draft_model_config := spc_target_model_config self,
          spc_draft_parallel_config := spc_target_parallel_config self\<rparr>"

text \<open>\<^verbatim>\<open>update_arch_\<close>: everything derived from the architectures is computed again.\<close>

definition update_arch :: "spec_ext \<Rightarrow> model_config \<Rightarrow> model_config" where
  "update_arch ext mc =
     mc\<lparr>mdl_hf_text_config := se_hf_text_config ext (mdl_hf_config mc),
        mdl_architectures := se_architectures ext (mdl_hf_config mc)\<rparr>"

definition extract_hidden_states_config :: "spec_ext \<Rightarrow> spec_config \<Rightarrow> spec_config result" where
  "extract_hidden_states_config ext self =
     (let given = (case spc_draft_model_config self of Some d \<Rightarrow> mdl_hf_config d | None \<Rightarrow> [])
      in (case spc_target_model_config self of
            None \<Rightarrow> Inl (AttributeError ''hf_config'')
          | Some t \<Rightarrow>
              Inr (self\<lparr>spc_model := Some ''extract_hidden_states'',
                        spc_prompt_lookup_max := Some 0, spc_prompt_lookup_min := Some 0,
                        spc_draft_model_config := Some (update_arch ext
                          (t\<lparr>mdl_hf_config := se_extract_config ext (mdl_hf_config t) given\<rparr>)),
                        spc_draft_parallel_config := spc_target_parallel_config self\<rparr>)))"

section \<open>The draft model\<close>

text \<open>The overrides: a dictionary for Medusa, the composed rewriting otherwise.\<close>

definition draft_overrides :: "spec_ext \<Rightarrow> spec_config \<Rightarrow> model_config \<Rightarrow> hf_overrides" where
  "draft_overrides ext self t =
     (if spc_method self = Some ''medusa'' then OverrideDict [(''model_type'', VStr ''medusa'')]
      else OverrideFn (compose_draft_hf_overrides (se_mimo_pro_layers ext) (se_mimo_flash_layers ext) (mdl_hf_overrides t)))"

definition draft_request_for :: "spec_ext \<Rightarrow> spec_config \<Rightarrow> string \<Rightarrow> model_config \<Rightarrow> draft_request" where
  "draft_request_for ext self model t =
     \<lparr>dr_model = model,
      dr_tokenizer = (if spc_use_heterogeneous_vocab self then model else mdl_tokenizer t),
      dr_revision = spc_revision self, dr_code_revision = spc_code_revision self,
      dr_max_model_len = spc_max_model_len self, dr_spec_target_max_model_len = mdl_max_model_len t,
      dr_quantization = spc_quantization self, dr_hf_overrides = draft_overrides ext self t,
      dr_inherited = mdl_inherited t\<rparr>"

text \<open>Medusa drafts take the target's vocabulary size.\<close>

definition align_medusa_vocab :: "spec_config \<Rightarrow> model_config \<Rightarrow> model_config \<Rightarrow> model_config result" where
  "align_medusa_vocab self t d =
     (if spc_method self = Some ''medusa'' then
        (case (map_of (mdl_hf_config t) ''vocab_size'', map_of (mdl_hf_config d) ''vocab_size'') of
           (Some v, Some w) \<Rightarrow>
             Inr (if w \<noteq> v
                  then d\<lparr>mdl_hf_config := setattr ''truncated_vocab_size'' v (setattr ''vocab_size'' v (mdl_hf_config d))\<rparr>
                  else d)
         | _ \<Rightarrow> Inl (AttributeError ''vocab_size''))
      else Inr d)"

definition is_dspark_draft :: "model_config \<Rightarrow> bool" where
  "is_dspark_draft d \<longleftrightarrow>
     in_str ''dspark'' (lower (mdl_model d)) \<or>
     ''Qwen3DSparkModel'' \<in> set (mdl_architectures d) \<or> ''Qwen3OmniDSparkModel'' \<in> set (mdl_architectures d) \<or>
     ''Gemma4DSparkModel'' \<in> set (mdl_architectures d) \<or>
     ''DSparkDraftModel'' \<in> set (mdl_architectures d) \<and> model_type (mdl_hf_config d) = ''qwen3''"

text \<open>The detection of the method; the comparison in the MTP branch raises on an unset token count.\<close>

definition detect_method :: "spec_config \<Rightarrow> model_config \<Rightarrow> string result" where
  "detect_method self d =
     (let m = the (spc_method self); name = lower (mdl_model d); t = model_type (mdl_hf_config d)
      in if m \<in> {''eagle'', ''eagle3'', ''dflash'', ''dspark''} then Inr m
         else if in_str ''eagle-'' name then Inr ''eagle''
         else if in_str ''eagle3'' name then Inr ''eagle3''
         else if in_str ''dflash'' name \<or> ''MuseGlimmerAssistantModel'' \<in> set (mdl_architectures d) then Inr ''dflash''
         else if is_dspark_draft d then Inr ''dspark''
         else if t = ''medusa'' then Inr ''medusa''
         else if t = ''mlp_speculator'' then Inr ''mlp_speculator''
         else if t \<in> set MTPModelTypes then
           (case spc_num_speculative_tokens self of
              None \<Rightarrow> Inl (TypeError ''> not supported between instances of NoneType and int'')
            | Some _ \<Rightarrow> Inr ''mtp'')
         else if m = ''draft_model'' then Inr m
         else Inl (NotImplementedError ''Unsupported speculative method''))"

definition maybe_override_draft_max_position_embeddings :: "hf_obj \<Rightarrow> nat \<Rightarrow> hf_obj" where
  "maybe_override_draft_max_position_embeddings hf target_max_model_len =
     (case getattr hf ''max_position_embeddings'' VNone of
        VInt n \<Rightarrow> if n \<ge> int target_max_model_len then hf
                  else setattr ''max_position_embeddings'' (VInt (int target_max_model_len)) hf
      | _ \<Rightarrow> hf)"

definition eagle_config_stage :: "spec_ext \<Rightarrow> string \<Rightarrow> nat \<Rightarrow> model_config \<Rightarrow> model_config" where
  "eagle_config_stage ext m target_max_model_len d =
     (let d1 = (if m \<in> {''eagle'', ''eagle3''}
                then d\<lparr>mdl_hf_config := maybe_override_draft_max_position_embeddings (mdl_hf_config d) target_max_model_len\<rparr>
                else d)
      in if m \<in> {''eagle'', ''eagle3'', ''dflash''} \<and> \<not> se_is_eagle_config ext (mdl_hf_config d1)
         then update_arch ext (d1\<lparr>mdl_hf_config := se_eagle_config ext m (mdl_hf_config d1)\<rparr>) else d1)"

text \<open>The three DSpark families: a Qwen3 draft, a DeepSeek-V4 checkpoint, a Gemma4 draft.\<close>

definition gemma4_dspark_keys :: "hf_obj \<Rightarrow> hf_obj" where
  "gemma4_dspark_keys hf =
     (let ids = getattr hf ''target_layer_ids'' VNone;
          hf1 = (if getattr hf ''dspark_target_layer_ids'' VNone = VNone \<and> ids \<noteq> VNone
                 then setattr ''dspark_target_layer_ids'' ids hf else hf);
          b = getattr hf1 ''block_size'' VNone
      in if getattr hf1 ''n_predict'' VNone = VNone \<and> b \<noteq> VNone then setattr ''n_predict'' b hf1 else hf1)"

definition dspark_config_stage :: "spec_ext \<Rightarrow> string \<Rightarrow> model_config \<Rightarrow> model_config \<Rightarrow> model_config result" where
  "dspark_config_stage ext m t d =
     (if m \<noteq> ''dspark'' then Inr d
      else if ''DSparkDraftModel'' \<in> set (mdl_architectures d) \<and> model_type (mdl_hf_config d) = ''qwen3'' then
        Inr (update_arch ext (d\<lparr>mdl_hf_config :=
          setattr ''architectures'' (VList [VStr ''Qwen3DSparkModel'']) (mdl_hf_config d)\<rparr>))
      else if list_all (\<lambda>a. a \<notin> set (mdl_architectures d))
                [''Qwen3DSparkModel'', ''Qwen3OmniDSparkModel'', ''Gemma4DSparkModel'', ''K3DSparkModel''] then
        bind_result (normalize_deepseek_v4_dspark_hf_config (mdl_hf_config d)) (\<lambda>hf.
          Inr (update_arch ext (d\<lparr>mdl_hf_config := hf, mdl_quantization := mdl_quantization t\<rparr>)))
      else if ''Gemma4DSparkModel'' \<in> set (mdl_architectures d) then
        Inr (d\<lparr>mdl_hf_config := gemma4_dspark_keys (mdl_hf_config d)\<rparr>)
      else Inr d)"

section \<open>The number of tokens and the draft's limits\<close>

text \<open>
  \<^verbatim>\<open>n_predict\<close> of the draft: the default for an unset count, and a bound on a given one.  Python's
  remainder and HOL's agree; a zero divisor raises.
\<close>

definition settle_num_tokens :: "hfval \<Rightarrow> int option \<Rightarrow> int result" where
  "settle_num_tokens n_predict k =
     (case n_predict of
        VNone \<Rightarrow> (case k of
                   None \<Rightarrow> Inl (ValueError ''A speculative model was provided, but num_speculative_tokens was not provided'')
                 | Some k \<Rightarrow> Inr k)
      | VInt n \<Rightarrow>
          (case k of
             None \<Rightarrow> Inr n
           | Some k \<Rightarrow>
               if k > n then
                 (if n = 0 then Inl (ZeroDivisionError ''integer modulo by zero'')
                  else raise_if (k mod n \<noteq> 0) (ValueError ''num_speculative_tokens must be divisible by n_predict'') (Inr k))
               else Inr k)
      | _ \<Rightarrow> Inl (TypeError ''unsupported n_predict''))"

definition dspark_topk_stage :: "spec_config \<Rightarrow> string \<Rightarrow> model_config \<Rightarrow> model_config result" where
  "dspark_topk_stage self m d =
     raise_if (spc_dspark_draft_topk self \<noteq> None \<and> m \<noteq> ''dspark'') (ValueError ''dspark_draft_topk is only supported by DSpark'')
     (if m \<noteq> ''dspark'' then Inr d
      else
        (let hf = mdl_hf_config d;
             topk = (case spc_dspark_draft_topk self of Some k \<Rightarrow> VInt k | None \<Rightarrow> getattr hf ''dspark_draft_topk'' VNone)
         in (case topk of
               VNone \<Rightarrow> Inr d
             | VInt k \<Rightarrow>
                 (let dv = getattr hf ''draft_vocab_size'' VNone;
                      v = (if dv \<in> {VNone, VInt 0} then getattr hf ''vocab_size'' VNone else dv)
                  in (case v of
                        VInt v \<Rightarrow>
                          raise_if (\<not> (1 \<le> k \<and> k \<le> v)) (ValueError ''dspark_draft_topk must be between 1 and the draft vocabulary size'')
                          (raise_if (''Qwen3DSparkModel'' \<notin> set (mdl_architectures d) \<and> ''Qwen3OmniDSparkModel'' \<notin> set (mdl_architectures d))
                             (ValueError ''dspark_draft_topk is only supported by Qwen3DSparkModel and Qwen3OmniDSparkModel'')
                          (Inr (d\<lparr>mdl_hf_config := setattr ''dspark_draft_topk'' (VInt k) hf\<rparr>)))
                      | _ \<Rightarrow> Inl (AttributeError ''vocab_size'')))
             | _ \<Rightarrow> Inl (TypeError ''unorderable types''))))"

definition verify_and_get_draft_tp :: "parallel_config \<Rightarrow> nat option \<Rightarrow> hf_obj \<Rightarrow> nat result" where
  "verify_and_get_draft_tp target tp_size hf =
     (case tp_size of
        None \<Rightarrow> Inr (if model_type hf = ''mlp_speculator'' then 1 else pc_tensor_parallel_size target)
      | Some s \<Rightarrow>
          raise_if (s \<notin> {1, pc_tensor_parallel_size target})
            (ValueError ''draft tensor parallel size cannot be other value than 1 or target model tensor_parallel_size'')
            (Inr s))"

definition maybe_override_draft_max_model_len :: "nat option \<Rightarrow> nat \<Rightarrow> nat \<Rightarrow> nat result" where
  "maybe_override_draft_max_model_len spec_len draft_len target_len =
     (case spec_len of
        Some l \<Rightarrow>
          raise_if (l > draft_len) (ValueError ''speculative_max_model_len cannot be larger than draft_max_model_len'')
          (raise_if (l > target_len) (ValueError ''speculative_max_model_len cannot be larger than target_max_model_len'')
          (Inr l))
      | None \<Rightarrow> Inr (min draft_len target_len))"

text \<open>The pipeline size and the five passed-on settings (\<open>pc_others\<close>) of the target, with the draft's own size.\<close>

definition create_draft_parallel_config :: "parallel_config \<Rightarrow> nat \<Rightarrow> parallel_config" where
  "create_draft_parallel_config target tp_size = target\<lparr>pc_tensor_parallel_size := tp_size\<rparr>"

section \<open>The constructor\<close>

text \<open>The draft from its configuration on: method, wrappers, lookahead, token count, checks, limits.\<close>

definition lookahead_stage :: "int option \<Rightarrow> model_config \<Rightarrow> model_config" where
  "lookahead_stage k d =
     (case k of
        Some k \<Rightarrow> if hasattr (mdl_hf_config d) ''num_lookahead_tokens''
                  then d\<lparr>mdl_hf_config := setattr ''num_lookahead_tokens'' (VInt k) (mdl_hf_config d)\<rparr> else d
      | None \<Rightarrow> d)"

definition draft_limits ::
  "spec_config \<Rightarrow> model_config \<Rightarrow> model_config \<Rightarrow> (nat \<times> model_config \<times> parallel_config) result" where
  "draft_limits self t d =
     (case spc_target_parallel_config self of
        None \<Rightarrow> Inl (AttributeError ''NoneType has no attribute tensor_parallel_size'')
      | Some tp \<Rightarrow>
     bind_result (verify_and_get_draft_tp tp (spc_draft_tensor_parallel_size self) (mdl_hf_config d)) (\<lambda>n.
     bind_result (maybe_override_draft_max_model_len (spc_max_model_len self) (mdl_max_model_len d) (mdl_max_model_len t)) (\<lambda>l.
     Inr (n, d\<lparr>mdl_max_model_len := l\<rparr>, create_draft_parallel_config tp n))))"

definition configure_draft ::
  "spec_ext \<Rightarrow> spec_config \<Rightarrow> model_config \<Rightarrow> model_config \<Rightarrow> spec_config result" where
  "configure_draft ext self t d0 =
     bind_result (align_medusa_vocab self t d0) (\<lambda>d1.
     bind_result (detect_method self d1) (\<lambda>m.
     bind_result (dspark_config_stage ext m t (eagle_config_stage ext m (mdl_max_model_len t) d1)) (\<lambda>d2.
     let d3 = lookahead_stage (spc_num_speculative_tokens self) d2
     in bind_result (settle_num_tokens (getattr (mdl_hf_config d3) ''n_predict'' VNone) (spc_num_speculative_tokens self)) (\<lambda>k.
     bind_result (dspark_topk_stage self m d3) (\<lambda>d4.
     bind_result (if m = ''dspark'' then validate_qwen3_omni_dspark t d4 k else Inr ()) (\<lambda>_.
     bind_result (draft_limits self t d4) (\<lambda>(n, d5, dp).
     Inr (self\<lparr>spc_method := Some m, spc_num_speculative_tokens := Some k,
               spc_parallel_drafting := (if m \<in> {''dflash'', ''dspark''} then True else spc_parallel_drafting self),
               spc_draft_tensor_parallel_size := Some n, spc_draft_model_config := Some d5,
               spc_draft_parallel_config := Some dp\<rparr>))))))))"

text \<open>The branch of the methods with a draft model; without one only the lookup bounds are reset.\<close>

definition draft_model_branch :: "spec_ext \<Rightarrow> spec_config \<Rightarrow> spec_config result" where
  "draft_model_branch ext self0 =
     (let self = self0\<lparr>spc_prompt_lookup_max := Some 0, spc_prompt_lookup_min := Some 0\<rparr>
      in (case spc_model self of
            None \<Rightarrow> Inr self
          | Some model \<Rightarrow>
              (case spc_target_model_config self of
                 None \<Rightarrow> Inl (AttributeError ''NoneType has no attribute hf_overrides'')
               | Some t \<Rightarrow>
                   bind_result (se_model_config ext (draft_request_for ext self model t)) (configure_draft ext self t))))"

definition post_init :: "spec_ext \<Rightarrow> spec_config \<Rightarrow> spec_config result" where
  "post_init ext self0 =
     bind_result (default_model (infer_method self0)) (\<lambda>self.
       let m0 = the (spc_method self); m = (if m0 = ''[ngram]'' then ''ngram'' else m0);
           self1 = self\<lparr>spc_method := Some m\<rparr>
       in bind_result
            (if m \<in> {''ngram'', ''ngram_gpu''} then ngram_lookup self1
             else if m = ''suffix'' then validate_suffix_decoding ext self1
             else if m = ''custom_class'' then Inr (custom_class_config self1)
             else if m = ''extract_hidden_states'' then extract_hidden_states_config ext self1
             else draft_model_branch ext self1)
            (\<lambda>self2.
               raise_if (spc_method self2 \<noteq> Some ''dspark'' \<and> spc_enable_adaptive_verification self2)
                 (ValueError ''Adaptive verification only supported with DSpark'')
                 (Inr self2)))"

section \<open>Validation after construction, and the queries of the rest of the engine\<close>

definition verify_equal_vocab_size_if_draft_model :: "spec_config \<Rightarrow> unit result" where
  "verify_equal_vocab_size_if_draft_model self =
     (case (spc_target_model_config self, spc_draft_model_config self) of
        (Some t, Some d) \<Rightarrow>
          raise_if (spc_method self = Some ''draft_model'' \<and> mdl_vocab_size t \<noteq> mdl_vocab_size d)
            (ValueError ''Target and draft model should have the same vocabulary size.'') (Inr ())
      | _ \<Rightarrow> Inr ())"

definition settle_rates :: "spec_config \<Rightarrow> int \<Rightarrow> spec_config result" where
  "settle_rates self k =
     (if spc_rejection_sample_method self = ''synthetic'' then
        bind_result (resolve_synthetic_acceptance_rates (nat k) (spc_synthetic_acceptance_rates self)
                       (spc_synthetic_acceptance_length self)) (\<lambda>rs.
          Inr (self\<lparr>spc_synthetic_acceptance_rates := Some rs, spc_synthetic_acceptance_length := None\<rparr>))
      else raise_if (spc_synthetic_acceptance_rates self \<noteq> None \<or> spc_synthetic_acceptance_length self \<noteq> None)
             (ValueError ''synthetic rates are only valid with rejection_sample_method=synthetic'') (Inr self))"

definition verify_args :: "spec_ext \<Rightarrow> spec_config \<Rightarrow> spec_config result" where
  "verify_args ext self =
     raise_if (spc_tensor_parallel_size self \<noteq> None)
       (ValueError ''tensor_parallel_size is not a valid argument in the speculative_config'')
     (case spc_num_speculative_tokens self of
        None \<Rightarrow> Inl (ValueError ''num_speculative_tokens must be provided'')
      | Some k \<Rightarrow>
          raise_if (k \<le> 0) (ValueError ''Expected num_speculative_tokens to be greater than zero'')
          (bind_result (settle_rates self k) (\<lambda>self1.
           bind_result (case spc_draft_model_config self1 of
                          None \<Rightarrow> Inr ()
                        | Some d \<Rightarrow> se_verify_with_parallel ext d (spc_draft_parallel_config self1)) (\<lambda>_.
           raise_if (spc_use_heterogeneous_vocab self1 \<and> spc_method self1 \<noteq> Some ''draft_model'')
             (ValueError ''use_heterogeneous_vocab only works with method=draft_model'')
           (raise_if (spc_use_heterogeneous_vocab self1 \<and> spc_draft_sample_method self1 \<noteq> ''greedy'')
             (ValueError ''use_heterogeneous_vocab currently only supports greedy draft sampling'')
           (bind_result (if \<not> spc_use_heterogeneous_vocab self1 then verify_equal_vocab_size_if_draft_model self1 else Inr ())
              (\<lambda>_. Inr self1)))))))"

definition uses_draft_model :: "spec_config \<Rightarrow> bool" where
  "uses_draft_model self \<longleftrightarrow> spc_method self = Some ''draft_model''"

definition use_dflash :: "spec_config \<Rightarrow> bool" where
  "use_dflash self \<longleftrightarrow> spc_method self = Some ''dflash''"

definition use_dspark :: "spec_config \<Rightarrow> bool" where
  "use_dspark self \<longleftrightarrow> spc_method self = Some ''dspark''"

definition use_eagle :: "spec_config \<Rightarrow> bool" where
  "use_eagle self \<longleftrightarrow> spc_method self \<in> Some ` {''eagle'', ''eagle3'', ''mtp'', ''dflash'', ''dspark''}"

definition max_num_new_slots_for_drafting :: "spec_config \<Rightarrow> int" where
  "max_num_new_slots_for_drafting self =
     (let num_draft_tokens = the (spc_num_speculative_tokens self)
      in if use_dflash self then num_draft_tokens
         else if spc_parallel_drafting self then
           (if uses_draft_model self then num_draft_tokens else num_draft_tokens - 1)
         else if uses_draft_model self then 1 else 0)"

definition mtp_of_type :: "string \<Rightarrow> spec_config \<Rightarrow> bool" where
  "mtp_of_type t self \<longleftrightarrow>
     spc_method self = Some ''mtp'' \<and>
     (case spc_draft_model_config self of
        None \<Rightarrow> False
      | Some d \<Rightarrow> getattr (mdl_hf_config d) ''model_type'' VNone = VStr t)"

definition use_multi_module_mtp :: "spec_config \<Rightarrow> bool" where
  "use_multi_module_mtp self =
     (case spc_draft_model_config self of
        None \<Rightarrow> False
      | Some d \<Rightarrow>
          spc_method self = Some ''mtp'' \<and>
          (case getattr (mdl_hf_config d) ''num_nextn_predict_layers'' (VInt 1) of
             VInt n \<Rightarrow> min n (the (spc_num_speculative_tokens self)) > 1 | _ \<Rightarrow> False))"

text \<open>Construction: the constructor, then the validator.\<close>

definition speculative_config :: "spec_ext \<Rightarrow> spec_config \<Rightarrow> spec_config result" where
  "speculative_config ext self = bind_result (post_init ext self) (verify_args ext)"

end
