(* ===== verification/SpecProps.thy ===== *)
theory SpecProps
  imports SpecConfig
begin

text \<open>
  What the speculative configuration guarantees: the synthetic acceptance schedule, the token count
  of a DSpark deployment, adaptive verification, the limits of a draft, and the branches in which the
  code does not do what its comments say.
\<close>

section \<open>The synthetic acceptance schedule\<close>

lemma full_drafts:
  assumes "1 \<le> len" "len \<le> of_nat (n + 1)"
  shows "nat \<lfloor>len - 1\<rfloor> \<le> n" "of_nat (nat \<lfloor>len - 1\<rfloor>) \<le> len - 1" "len - 1 < of_nat (nat \<lfloor>len - 1\<rfloor>) + (1 :: rat)"
    "nat \<lfloor>len - 1\<rfloor> = n \<Longrightarrow> len - 1 = of_nat n"
proof -
  have z: "0 \<le> \<lfloor>len - 1\<rfloor>" using assms(1) by simp
  have "len - 1 \<le> of_int (int n)" using assms(2) by simp
  then have "\<lfloor>len - 1\<rfloor> \<le> int n" by (metis floor_mono floor_of_int)
  then show "nat \<lfloor>len - 1\<rfloor> \<le> n" by simp
  have f: "of_nat (nat \<lfloor>len - 1\<rfloor>) = (of_int \<lfloor>len - 1\<rfloor> :: rat)" using z by simp
  show le: "of_nat (nat \<lfloor>len - 1\<rfloor>) \<le> len - 1" unfolding f by simp
  show "len - 1 < of_nat (nat \<lfloor>len - 1\<rfloor>) + (1 :: rat)" unfolding f by linarith
  show "nat \<lfloor>len - 1\<rfloor> = n \<Longrightarrow> len - 1 = of_nat n" using le assms(2) by simp
qed

lemma take_schedule:
  "f \<le> n \<Longrightarrow> take n (replicate f a @ [d] @ replicate (n - f - 1) c)
    = (if f = n then replicate n a else replicate f a @ [d] @ replicate (n - f - 1) c)"
  by auto

lemma schedule_shape:
  assumes "1 \<le> len" "len \<le> of_nat (n + 1)"
  shows "acceptance_length_to_rates len n =
    (if nat \<lfloor>len - 1\<rfloor> = n then replicate n 1
     else replicate (nat \<lfloor>len - 1\<rfloor>) 1 @ [len - 1 - of_nat (nat \<lfloor>len - 1\<rfloor>)] @ replicate (n - nat \<lfloor>len - 1\<rfloor> - 1) 0)"
  unfolding acceptance_length_to_rates_def Let_def by (rule take_schedule [OF full_drafts(1) [OF assms]])

lemma sorted_replicate_desc: "sorted_wrt (\<ge>) (replicate k (c :: rat))"
  by (induction k) auto

text \<open>
  A mean acceptance length is turned into a schedule that means just that: one rate per draft
  position, all between 0 and 1, never increasing, with the length itself as the expected number of
  tokens (the accepted drafts add up to the length less one); and the schedule is one that the
  validation takes when it is given as rates.
\<close>

theorem acceptance_schedule:
  assumes "1 \<le> len" "len \<le> of_nat (n + 1)"
  defines "rs \<equiv> acceptance_length_to_rates len n"
  shows "resolve_synthetic_acceptance_rates n None (Some len) = Inr rs \<and> length rs = n
    \<and> (\<forall>r \<in> set rs. 0 \<le> r \<and> r \<le> 1) \<and> sorted_wrt (\<ge>) rs \<and> sum_list rs = len - 1
    \<and> resolve_synthetic_acceptance_rates n (Some rs) None = Inr rs"
proof -
  let ?f = "nat \<lfloor>len - 1\<rfloor>"
  note b = full_drafts [OF assms(1,2)]
  have sh: "rs = (if ?f = n then replicate n 1 else replicate ?f 1 @ [len - 1 - of_nat ?f] @ replicate (n - ?f - 1) 0)"
    unfolding rs_def by (rule schedule_shape [OF assms(1,2)])
  have len: "length rs = n" using b(1) by (auto simp: sh)
  have rng: "\<forall>r \<in> set rs. 0 \<le> r \<and> r \<le> 1" using b(2,3) by (auto simp: sh)
  have desc: "sorted_wrt (\<ge>) rs"
    using b(2,3) by (auto simp: sh sorted_wrt_append sorted_replicate_desc)
  have total: "sum_list rs = len - 1"
    using b(4) by (auto simp: sh sum_list_replicate)
  have "resolve_synthetic_acceptance_rates n None (Some len) = Inr rs"
    using assms(1,2) by (simp add: resolve_synthetic_acceptance_rates_def rs_def)
  moreover have "resolve_synthetic_acceptance_rates n (Some rs) None = Inr rs"
  proof -
    have "\<not> list_ex (\<lambda>i. rs ! i > rs ! (i - 1)) [1..<n]"
      using desc len by (auto simp: list_ex_iff not_less sorted_wrt_iff_nth_less)
    then show ?thesis
      using len rng by (simp add: resolve_synthetic_acceptance_rates_def list_all_iff)
  qed
  ultimately show ?thesis using len rng desc total by blast
qed

theorem acceptance_schedule_witness:
  "acceptance_length_to_rates (7/2) 5 = [1, 1, 1/2, 0, 0]
   \<and> resolve_synthetic_acceptance_rates 5 (Some [1, 1, 1/2, 0, 0]) None = Inr [1, 1, 1/2, 0, 0]"
proof -
  have e: "acceptance_length_to_rates (7/2) 5 = [1, 1, 1/2, 0, 0]"
  proof -
    have "\<lfloor>7/2 - 1 :: rat\<rfloor> = 2" by (simp add: floor_eq_iff)
    then show ?thesis using schedule_shape [of "7/2" 5] by (simp add: numeral_eq_Suc)
  qed
  show ?thesis using acceptance_schedule [of "7/2" 5] unfolding e by simp
qed

section \<open>A DSpark deployment\<close>

text \<open>
  What the code relies on of the library: \<^verbatim>\<open>ModelConfig\<close> reads the checkpoint's configuration,
  applies the callable override to it, and takes the architectures from the result.
\<close>

definition loads_draft :: "spec_ext \<Rightarrow> model_config \<Rightarrow> hf_obj \<Rightarrow> bool" where
  "loads_draft ext base ckpt \<longleftrightarrow>
     (\<forall>hf. se_architectures ext hf = hf_archs hf) \<and>
     (\<forall>req f. dr_hf_overrides req = OverrideFn f \<longrightarrow>
        se_model_config ext req = bind_result (f ckpt) (\<lambda>hf.
          Inr (base\<lparr>mdl_model := dr_model req, mdl_hf_config := hf, mdl_architectures := se_architectures ext hf\<rparr>)))"

text \<open>The checkpoint is a DeepSeek-V4 one with a trained block size.\<close>

definition v4_checkpoint :: "hf_obj \<Rightarrow> int \<Rightarrow> bool" where
  "v4_checkpoint ckpt b \<longleftrightarrow>
     model_type ckpt = ''deepseek_v4'' \<and> (\<exists>a. first_arch ckpt = Inr a \<and> a \<notin> set initial_archs) \<and>
     map_of ckpt ''dspark_block_size'' = Some (VInt b) \<and> 0 < b \<and> map_of ckpt ''dspark_draft_topk'' = None"

text \<open>A request for DSpark drafting of \<open>k\<close> tokens with the drafter inside the target's checkpoint.\<close>

definition dspark_request :: "spec_config \<Rightarrow> model_config \<Rightarrow> parallel_config \<Rightarrow> int \<Rightarrow> bool" where
  "dspark_request self t tp k \<longleftrightarrow>
     spc_method self = Some ''dspark'' \<and> spc_model self = None \<and> spc_num_speculative_tokens self = Some k \<and>
     spc_target_model_config self = Some t \<and> spc_target_parallel_config self = Some tp \<and>
     spc_draft_tensor_parallel_size self = None \<and> spc_max_model_len self = None \<and>
     spc_dspark_draft_topk self = None \<and> mdl_hf_overrides t = NoOverrides \<and> \<not> is_qwen3_omni_target t"

lemma settle_block:
  "0 < b \<Longrightarrow> settle_num_tokens (VInt b) (Some k) = (if k \<le> b \<or> b dvd k then Inr k
     else Inl (ValueError ''num_speculative_tokens must be divisible by n_predict''))"
  by (auto simp: settle_num_tokens_def raise_if_def mod_eq_0_iff_dvd)

lemma dspark_stage_v4:
  assumes "mdl_architectures d = [''DeepSeekV4MTPModel'']"
    and "normalize_deepseek_v4_dspark_hf_config (mdl_hf_config d) = Inr hf2"
  shows "dspark_config_stage ext ''dspark'' t d
    = Inr (update_arch ext (d\<lparr>mdl_hf_config := hf2, mdl_quantization := mdl_quantization t\<rparr>))"
  using assms by (simp add: dspark_config_stage_def)

lemma getattr_lookahead:
  "getattr (mdl_hf_config (lookahead_stage k d)) name v = getattr (mdl_hf_config d) name v"
  if "name \<noteq> ''num_lookahead_tokens''"
  using that by (auto simp: lookahead_stage_def getattr_def split: option.splits)

lemma lookahead_fields [simp]:
  "mdl_architectures (lookahead_stage k d) = mdl_architectures d" "mdl_quantization (lookahead_stage k d) = mdl_quantization d"
  "mdl_max_model_len (lookahead_stage k d) = mdl_max_model_len d" "mdl_model (lookahead_stage k d) = mdl_model d"
  by (auto simp: lookahead_stage_def split: option.splits)

lemma update_arch_fields [simp]:
  "mdl_hf_config (update_arch ext d) = mdl_hf_config d" "mdl_quantization (update_arch ext d) = mdl_quantization d"
  "mdl_architectures (update_arch ext d) = se_architectures ext (mdl_hf_config d)"
  "mdl_max_model_len (update_arch ext d) = mdl_max_model_len d"
  by (simp_all add: update_arch_def)

text \<open>The draft the configuration ends with.\<close>

definition dspark_draft :: "spec_ext \<Rightarrow> int \<Rightarrow> model_config \<Rightarrow> hf_obj \<Rightarrow> model_config \<Rightarrow> model_config" where
  "dspark_draft ext k t hf2 d =
     (let d3 = lookahead_stage (Some k) (update_arch ext (d\<lparr>mdl_hf_config := hf2, mdl_quantization := mdl_quantization t\<rparr>))
      in d3\<lparr>mdl_max_model_len := min (mdl_max_model_len d) (mdl_max_model_len t)\<rparr>)"

lemma configure_dspark:
  assumes d: "mdl_architectures d = [''DeepSeekV4MTPModel'']"
      "normalize_deepseek_v4_dspark_hf_config (mdl_hf_config d) = Inr hf2"
      "getattr hf2 ''n_predict'' VNone = VInt b" "0 < b" "getattr hf2 ''dspark_draft_topk'' VNone = VNone"
      "model_type hf2 = ''deepseek_v4''"
    and r: "spc_method self = Some ''dspark''" "spc_num_speculative_tokens self = Some k" "spc_dspark_draft_topk self = None"
      "spc_target_parallel_config self = Some tp" "spc_draft_tensor_parallel_size self = None" "spc_max_model_len self = None"
      "\<not> is_qwen3_omni_target t"
  shows "configure_draft ext self t d = (if k \<le> b \<or> b dvd k
    then Inr (self\<lparr>spc_method := Some ''dspark'', spc_num_speculative_tokens := Some k, spc_parallel_drafting := True,
           spc_draft_tensor_parallel_size := Some (pc_tensor_parallel_size tp),
           spc_draft_model_config := Some (dspark_draft ext k t hf2 d),
           spc_draft_parallel_config := Some (create_draft_parallel_config tp (pc_tensor_parallel_size tp))\<rparr>)
    else Inl (ValueError ''num_speculative_tokens must be divisible by n_predict''))"
proof -
  let ?d3 = "lookahead_stage (Some k) (update_arch ext (d\<lparr>mdl_hf_config := hf2, mdl_quantization := mdl_quantization t\<rparr>))"
  have g: "getattr (mdl_hf_config ?d3) ''n_predict'' VNone = VInt b"
    "getattr (mdl_hf_config ?d3) ''dspark_draft_topk'' VNone = VNone"
    using d(3,5) by (simp_all add: getattr_lookahead)
  have e: "eagle_config_stage ext ''dspark'' n d = d" for n by (simp add: eagle_config_stage_def)
  have topk: "dspark_topk_stage self ''dspark'' ?d3 = Inr ?d3"
    using r(3) g(2) by (simp add: dspark_topk_stage_def)
  have t: "model_type (mdl_hf_config ?d3) = ''deepseek_v4''"
    using d(6) by (auto simp: model_type_def lookahead_stage_def split: option.splits hfval.splits)
  have lim: "draft_limits self t ?d3 = Inr (pc_tensor_parallel_size tp, dspark_draft ext k t hf2 d,
      create_draft_parallel_config tp (pc_tensor_parallel_size tp))"
    using r t by (simp add: draft_limits_def verify_and_get_draft_tp_def maybe_override_draft_max_model_len_def
        dspark_draft_def Let_def)
  show ?thesis
    using r(1,2,7)
    by (simp add: configure_draft_def align_medusa_vocab_def detect_method_def e dspark_stage_v4 [OF d(1,2)] g(1) settle_block [OF d(4)]
        topk validate_qwen3_omni_dspark_def lim Let_def)
qed

text \<open>The draft configuration that the library hands back for such a request.\<close>

lemma v4_draft_loaded:
  assumes ld: "loads_draft ext base ckpt" and ck: "v4_checkpoint ckpt b"
    and m: "spc_method self = Some ''dspark''" and t: "mdl_hf_overrides t = NoOverrides"
  shows "\<exists>d hf2. se_model_config ext (draft_request_for ext self model t) = Inr d
    \<and> mdl_architectures d = [''DeepSeekV4MTPModel''] \<and> mdl_max_model_len d = mdl_max_model_len base
    \<and> normalize_deepseek_v4_dspark_hf_config (mdl_hf_config d) = Inr hf2 \<and> getattr hf2 ''n_predict'' VNone = VInt b
    \<and> getattr hf2 ''dspark_draft_topk'' VNone = VNone \<and> model_type hf2 = ''deepseek_v4'' \<and> hf_archs hf2 = [''DSparkDraftModel'']"
proof -
  obtain a where ck': "model_type ckpt = ''deepseek_v4''" "first_arch ckpt = Inr a" "a \<notin> set initial_archs"
      "map_of ckpt ''dspark_block_size'' = Some (VInt b)" "0 < b" "map_of ckpt ''dspark_draft_topk'' = None"
    using ck by (auto simp: v4_checkpoint_def)
  let ?hf1 = "deepseek_v4_stage ckpt"
  let ?hf2 = "setattr ''n_predict'' (VInt b) (setattr ''architectures'' (VList [VStr ''DSparkDraftModel'']) (set_type ''deepseek_v4'' ?hf1))"
  let ?d = "base\<lparr>mdl_model := model, mdl_hf_config := ?hf1, mdl_architectures := hf_archs ?hf1\<rparr>"
  have "dr_hf_overrides (draft_request_for ext self model t)
      = OverrideFn (compose_draft_hf_overrides (se_mimo_pro_layers ext) (se_mimo_flash_layers ext) NoOverrides)"
    using m t by (simp add: draft_request_for_def draft_overrides_def)
  moreover have "compose_draft_hf_overrides p f NoOverrides ckpt = Inr ?hf1" for p f
    using override_deepseek_v4 [OF ck'(1-3)] by (simp add: compose_draft_hf_overrides_def)
  ultimately have "se_model_config ext (draft_request_for ext self model t) = Inr ?d"
    using ld by (simp add: loads_draft_def draft_request_for_def)
  moreover have "hf_archs ?hf1 = [''DeepSeekV4MTPModel'']" using ck'(1) by (simp add: hf_archs_def deepseek_v4_stage_def)
  moreover have "normalize_deepseek_v4_dspark_hf_config ?hf1 = Inr ?hf2"
    by (rule normalize_block) (use ck' in \<open>simp_all add: deepseek_v4_stage_def\<close>)
  moreover have "getattr ?hf2 ''dspark_draft_topk'' VNone = VNone"
    using ck'(1,6) by (simp add: getattr_def deepseek_v4_stage_def)
  moreover have "getattr ?hf2 ''n_predict'' VNone = VInt b" "model_type ?hf2 = ''deepseek_v4''"
    "hf_archs ?hf2 = [''DSparkDraftModel'']"
    by (simp_all add: getattr_def model_type_def hf_archs_def arch_list_def)
  ultimately show ?thesis
    by (intro exI [where x = ?d] exI [where x = ?hf2] conjI) simp_all
qed

text \<open>The configuration just before the draft is configured, and the whole constructor on it.\<close>

definition dspark_prepared :: "spec_config \<Rightarrow> model_config \<Rightarrow> spec_config" where
  "dspark_prepared self t =
     (inherit_quantization t (self\<lparr>spc_method := Some ''dspark'', spc_model := Some (mdl_model t)\<rparr>))
       \<lparr>spc_method := Some ''dspark'', spc_prompt_lookup_max := Some 0, spc_prompt_lookup_min := Some 0\<rparr>"

lemma dspark_post_init:
  assumes "loads_draft ext base ckpt" "v4_checkpoint ckpt b" "dspark_request self t tp k"
  shows "\<exists>d hf2. getattr hf2 ''n_predict'' VNone = VInt b \<and> hf_archs hf2 = [''DSparkDraftModel''] \<and>
    mdl_max_model_len d = mdl_max_model_len base \<and>
    post_init ext self = (if k \<le> b \<or> b dvd k
      then Inr ((dspark_prepared self t)\<lparr>spc_method := Some ''dspark'', spc_num_speculative_tokens := Some k,
           spc_parallel_drafting := True, spc_draft_tensor_parallel_size := Some (pc_tensor_parallel_size tp),
           spc_draft_model_config := Some (dspark_draft ext k t hf2 d),
           spc_draft_parallel_config := Some (create_draft_parallel_config tp (pc_tensor_parallel_size tp))\<rparr>)
      else Inl (ValueError ''num_speculative_tokens must be divisible by n_predict''))"
proof -
  have r: "spc_method self = Some ''dspark''" "spc_model self = None" "spc_num_speculative_tokens self = Some k"
      "spc_target_model_config self = Some t" "spc_target_parallel_config self = Some tp"
      "spc_draft_tensor_parallel_size self = None" "spc_max_model_len self = None" "spc_dspark_draft_topk self = None"
      "mdl_hf_overrides t = NoOverrides" "\<not> is_qwen3_omni_target t"
    using assms(3) by (simp_all add: dspark_request_def)
  have b: "0 < b" using assms(2) by (simp add: v4_checkpoint_def)
  let ?iq = "inherit_quantization t (self\<lparr>spc_method := Some ''dspark'', spc_model := Some (mdl_model t)\<rparr>)"
  let ?s = "dspark_prepared self t"
  have s1: "spc_method ?s = Some ''dspark''" "spc_model ?s = Some (mdl_model t)"
      "spc_num_speculative_tokens ?s = Some k" "spc_target_model_config ?s = Some t"
      "spc_target_parallel_config ?s = Some tp" "spc_draft_tensor_parallel_size ?s = None"
      "spc_max_model_len ?s = None" "spc_dspark_draft_topk ?s = None"
    using r by (simp_all add: dspark_prepared_def inherit_quantization_def)
  obtain d hf2 where d: "se_model_config ext (draft_request_for ext ?s (mdl_model t) t) = Inr d"
      "mdl_architectures d = [''DeepSeekV4MTPModel'']" "mdl_max_model_len d = mdl_max_model_len base"
      "normalize_deepseek_v4_dspark_hf_config (mdl_hf_config d) = Inr hf2" "getattr hf2 ''n_predict'' VNone = VInt b"
      "getattr hf2 ''dspark_draft_topk'' VNone = VNone" "model_type hf2 = ''deepseek_v4''" "hf_archs hf2 = [''DSparkDraftModel'']"
    using v4_draft_loaded [OF assms(1,2) s1(1) r(9)] by blast
  have dm: "default_model (infer_method self) = Inr ?iq"
    using r by (simp add: infer_method_def default_model_def MTPModelTypes_def)
  have mi: "spc_method ?iq = Some ''dspark''" by (simp add: inherit_quantization_def)
  have br: "draft_model_branch ext (?iq\<lparr>spc_method := Some ''dspark''\<rparr>) = configure_draft ext ?s t d"
    unfolding draft_model_branch_def Let_def dspark_prepared_def [symmetric] by (simp add: s1 d(1))
  have "post_init ext self = bind_result (configure_draft ext ?s t d) (\<lambda>self2.
      raise_if (spc_method self2 \<noteq> Some ''dspark'' \<and> spc_enable_adaptive_verification self2)
        (ValueError ''Adaptive verification only supported with DSpark'') (Inr self2))"
    by (simp add: post_init_def dm mi br)
  then show ?thesis
    using d(3,5,8) unfolding configure_dspark [OF d(2,4,5) b d(6,7) s1(1,3,8,5,6,7) r(10)]
    by (intro exI [where x = d] exI [where x = hf2]) (simp add: raise_if_def)
qed

lemma dspark_draft_fields:
  assumes "loads_draft ext base ckpt" "getattr hf2 ''n_predict'' VNone = VInt b" "hf_archs hf2 = [''DSparkDraftModel'']"
  shows "mdl_architectures (dspark_draft ext k t hf2 d) = [''DSparkDraftModel'']"
    "getattr (mdl_hf_config (dspark_draft ext k t hf2 d)) ''n_predict'' VNone = VInt b"
    "mdl_quantization (dspark_draft ext k t hf2 d) = mdl_quantization t"
    "mdl_max_model_len (dspark_draft ext k t hf2 d) = min (mdl_max_model_len d) (mdl_max_model_len t)"
  using assms by (simp_all add: loads_draft_def dspark_draft_def Let_def getattr_lookahead)

text \<open>
  What else the validator looks at: the target's parallel size is not repeated in the draft's
  configuration, rejection sampling is the standard one, the vocabularies are shared, and the draft's
  parallel configuration passes the library's own check.
\<close>

definition plain_request :: "spec_ext \<Rightarrow> spec_config \<Rightarrow> bool" where
  "plain_request ext self \<longleftrightarrow>
     spc_tensor_parallel_size self = None \<and> spc_rejection_sample_method self = ''standard'' \<and>
     spc_synthetic_acceptance_rates self = None \<and> spc_synthetic_acceptance_length self = None \<and>
     \<not> spc_use_heterogeneous_vocab self \<and> (\<forall>d dp. se_verify_with_parallel ext d dp = Inr ())"

lemma verify_plain:
  assumes "plain_request ext self" "spc_method self = Some ''dspark''" "spc_num_speculative_tokens self = Some k"
  shows "verify_args ext self = (if 0 < k then Inr self
      else Inl (ValueError ''Expected num_speculative_tokens to be greater than zero''))"
  using assms by (auto simp: plain_request_def verify_args_def settle_rates_def verify_equal_vocab_size_if_draft_model_def
      raise_if_def split: option.splits)

text \<open>
  C23. The deployed configuration, end to end.  Asking for DSpark drafting of \<open>k\<close> tokens with a
  DeepSeek-V4 checkpoint of block size \<open>b\<close> and no separate draft model, through the constructor and
  the validator after it, succeeds exactly when \<open>k\<close> is positive and at most \<open>b\<close> or a multiple of it,
  and raises a \<^verbatim>\<open>ValueError\<close> otherwise.  When it succeeds the length and the adaptive switch are
  those that were asked for, and the drafter is the target's own
  checkpoint under the draft architecture, with the block size as its prediction depth, the target's
  quantization and tensor-parallel size, no longer context than the target, and drafting in parallel.
  So with the block size five of the checkpoint a length of three or of ten tokens is accepted as well,
  although the README says that the length must divide the block size.
\<close>

theorem dspark_deployment:
  assumes "loads_draft ext base ckpt" "v4_checkpoint ckpt b" "dspark_request self t tp k" "plain_request ext self"
  shows "(0 < k \<and> (k \<le> b \<or> b dvd k) \<longrightarrow>
      (\<exists>cfg d. speculative_config ext self = Inr cfg \<and> use_dspark cfg \<and> spc_num_speculative_tokens cfg = Some k
        \<and> spc_enable_adaptive_verification cfg = spc_enable_adaptive_verification self
        \<and> spc_parallel_drafting cfg \<and> spc_model cfg = Some (mdl_model t)
        \<and> spc_draft_tensor_parallel_size cfg = Some (pc_tensor_parallel_size tp)
        \<and> spc_draft_model_config cfg = Some d \<and> mdl_architectures d = [''DSparkDraftModel'']
        \<and> getattr (mdl_hf_config d) ''n_predict'' VNone = VInt b \<and> mdl_quantization d = mdl_quantization t
        \<and> mdl_max_model_len d = min (mdl_max_model_len base) (mdl_max_model_len t)))
    \<and> (\<not> (0 < k \<and> (k \<le> b \<or> b dvd k)) \<longrightarrow> (\<exists>msg. speculative_config ext self = Inl (ValueError msg)))"
proof -
  obtain d hf2 where d: "getattr hf2 ''n_predict'' VNone = VInt b" "hf_archs hf2 = [''DSparkDraftModel'']"
      "mdl_max_model_len d = mdl_max_model_len base"
    and p: "post_init ext self = (if k \<le> b \<or> b dvd k
      then Inr ((dspark_prepared self t)\<lparr>spc_method := Some ''dspark'', spc_num_speculative_tokens := Some k,
           spc_parallel_drafting := True, spc_draft_tensor_parallel_size := Some (pc_tensor_parallel_size tp),
           spc_draft_model_config := Some (dspark_draft ext k t hf2 d),
           spc_draft_parallel_config := Some (create_draft_parallel_config tp (pc_tensor_parallel_size tp))\<rparr>)
      else Inl (ValueError ''num_speculative_tokens must be divisible by n_predict''))"
    using dspark_post_init [OF assms(1-3)] by blast
  let ?c = "(dspark_prepared self t)\<lparr>spc_method := Some ''dspark'', spc_num_speculative_tokens := Some k,
           spc_parallel_drafting := True, spc_draft_tensor_parallel_size := Some (pc_tensor_parallel_size tp),
           spc_draft_model_config := Some (dspark_draft ext k t hf2 d),
           spc_draft_parallel_config := Some (create_draft_parallel_config tp (pc_tensor_parallel_size tp))\<rparr>"
  have kept: "plain_request ext ?c" "spc_model (dspark_prepared self t) = Some (mdl_model t)"
      "spc_enable_adaptive_verification (dspark_prepared self t) = spc_enable_adaptive_verification self"
    using assms(4) by (simp_all add: plain_request_def dspark_prepared_def inherit_quantization_def)
  have v: "verify_args ext ?c = (if 0 < k then Inr ?c
      else Inl (ValueError ''Expected num_speculative_tokens to be greater than zero''))"
    by (rule verify_plain [OF kept(1)]) simp_all
  show ?thesis using dspark_draft_fields [OF assms(1) d(1,2)] d(3) kept(2,3)
    by (auto simp: speculative_config_def p v use_dspark_def)
qed

definition spec_demo_ext :: spec_ext where
  "spec_demo_ext = \<lparr>se_model_config = (\<lambda>req. case dr_hf_overrides req of
        OverrideFn f \<Rightarrow> bind_result (f dspark_demo_checkpoint) (\<lambda>hf. Inr (qwen_demo_target\<lparr>mdl_model := dr_model req,
          mdl_hf_config := hf, mdl_architectures := hf_archs hf\<rparr>))
      | _ \<Rightarrow> Inl (RuntimeError ''unused'')),
     se_architectures = hf_archs, se_hf_text_config = VObj, se_is_eagle_config = (\<lambda>_. False),
     se_eagle_config = (\<lambda>_ hf. hf), se_extract_config = (\<lambda>hf _. hf), se_has_arctic_inference = False,
     se_verify_with_parallel = (\<lambda>_ _. Inr ()), se_mimo_pro_layers = 3, se_mimo_flash_layers = 1\<rparr>"

definition spec_demo_target :: model_config where
  "spec_demo_target = qwen_demo_target\<lparr>mdl_model := ''DeepSeek-V4-Flash'', mdl_hf_config := dspark_demo_checkpoint,
     mdl_architectures := [''DeepseekV4ForCausalLM''], mdl_quantization := Some ''fp8'', mdl_max_model_len := 1024\<rparr>"

definition spec_demo_parallel :: parallel_config where
  "spec_demo_parallel = \<lparr>pc_pipeline_parallel_size = 1, pc_tensor_parallel_size = 2, pc_others = []\<rparr>"

definition spec_demo_self :: "int \<Rightarrow> spec_config" where
  "spec_demo_self k = \<lparr>spc_num_speculative_tokens = Some k, spc_model = None, spc_method = Some ''dspark'',
     spc_draft_tensor_parallel_size = None, spc_tensor_parallel_size = None, spc_quantization = None,
     spc_max_model_len = None, spc_revision = None, spc_code_revision = None, spc_use_heterogeneous_vocab = False,
     spc_prompt_lookup_max = None, spc_prompt_lookup_min = None, spc_parallel_drafting = False,
     spc_target_model_config = Some spec_demo_target, spc_target_parallel_config = Some spec_demo_parallel,
     spc_num_speculative_tokens_per_batch_size = None, spc_draft_model_config = None, spc_draft_parallel_config = None,
     spc_suffix_decoding_max_tree_depth = 24, spc_suffix_decoding_max_cached_requests = 10000,
     spc_suffix_decoding_max_spec_factor = 1, spc_suffix_decoding_min_token_prob = 1/10,
     spc_rejection_sample_method = ''standard'', spc_synthetic_acceptance_rates = None,
     spc_synthetic_acceptance_length = None, spc_enable_adaptive_verification = True,
     spc_draft_sample_method = ''greedy'', spc_dspark_draft_topk = None\<rparr>"

lemma spec_demo_facts:
  "loads_draft spec_demo_ext qwen_demo_target dspark_demo_checkpoint" "v4_checkpoint dspark_demo_checkpoint 5"
  "dspark_request (spec_demo_self k) spec_demo_target spec_demo_parallel k"
proof -
  show "loads_draft spec_demo_ext qwen_demo_target dspark_demo_checkpoint"
    by (simp add: loads_draft_def spec_demo_ext_def)
  show "v4_checkpoint dspark_demo_checkpoint 5"
    using dspark_demo_attrs by (simp add: v4_checkpoint_def) (simp add: dspark_demo_checkpoint_def)
  have "\<not> is_qwen3_omni_target spec_demo_target" by code_simp
  then show "dspark_request (spec_demo_self k) spec_demo_target spec_demo_parallel k"
    by (simp add: dspark_request_def spec_demo_self_def spec_demo_target_def qwen_demo_target_def)
qed

text \<open>
  With the trained block of five tokens: five, three (which does not divide five) and ten tokens are
  taken, six and zero are refused.
\<close>

theorem dspark_deployment_witness:
  "(\<exists>cfg. speculative_config spec_demo_ext (spec_demo_self 5) = Inr cfg \<and> spc_num_speculative_tokens cfg = Some 5
      \<and> spc_enable_adaptive_verification cfg)
   \<and> (\<exists>cfg. speculative_config spec_demo_ext (spec_demo_self 3) = Inr cfg \<and> spc_num_speculative_tokens cfg = Some 3)
   \<and> (\<exists>cfg. speculative_config spec_demo_ext (spec_demo_self 10) = Inr cfg \<and> spc_num_speculative_tokens cfg = Some 10)
   \<and> (\<exists>msg. speculative_config spec_demo_ext (spec_demo_self 6) = Inl (ValueError msg))
   \<and> (\<exists>msg. speculative_config spec_demo_ext (spec_demo_self 0) = Inl (ValueError msg))"
proof -
  have pl: "plain_request spec_demo_ext (spec_demo_self k)" for k
    by (simp add: plain_request_def spec_demo_self_def spec_demo_ext_def)
  have ad: "spc_enable_adaptive_verification (spec_demo_self k)" for k by (simp add: spec_demo_self_def)
  note d = dspark_deployment [OF spec_demo_facts(1,2,3) pl]
  have "\<not> (5 :: int) dvd 6" by simp
  then show ?thesis using d [of 5] d [of 3] d [of 10] d [of 6] d [of 0] ad by auto
qed

section \<open>Adaptive verification and the limits of a draft\<close>

lemma settled_tokens:
  assumes "settle_num_tokens v kopt = Inr k" "v = VInt n" "0 < n"
  shows "k \<le> n \<or> n dvd k"
  using assms by (auto simp: settle_num_tokens_def raise_if_def mod_eq_0_iff_dvd split: option.splits if_splits)

lemma configure_draft_parts:
  assumes "configure_draft ext self t d0 = Inr cfg"
  shows "\<exists>m k n d dp tp. spc_target_parallel_config self = Some tp \<and> n \<in> {1, pc_tensor_parallel_size tp}
    \<and> mdl_max_model_len d \<le> mdl_max_model_len t \<and> dp = create_draft_parallel_config tp n
    \<and> cfg = self\<lparr>spc_method := Some m, spc_num_speculative_tokens := Some k,
        spc_parallel_drafting := (if m \<in> {''dflash'', ''dspark''} then True else spc_parallel_drafting self),
        spc_draft_tensor_parallel_size := Some n, spc_draft_model_config := Some d, spc_draft_parallel_config := Some dp\<rparr>"
proof -
  obtain d1 m d3 k d4 n d5 dp where lim: "draft_limits self t d4 = Inr (n, d5, dp)"
    and cfg: "cfg = self\<lparr>spc_method := Some m, spc_num_speculative_tokens := Some k,
        spc_parallel_drafting := (if m \<in> {''dflash'', ''dspark''} then True else spc_parallel_drafting self),
        spc_draft_tensor_parallel_size := Some n, spc_draft_model_config := Some d5, spc_draft_parallel_config := Some dp\<rparr>"
    using assms unfolding configure_draft_def Let_def bind_result_eq_Inr by (auto simp: bind_result_eq_Inr)
  obtain tp where tp: "spc_target_parallel_config self = Some tp"
    using lim by (auto simp: draft_limits_def split: option.splits)
  have "n \<in> {1, pc_tensor_parallel_size tp}" "mdl_max_model_len d5 \<le> mdl_max_model_len t"
      "dp = create_draft_parallel_config tp n"
    using lim tp
    by (auto simp: draft_limits_def bind_result_eq_Inr verify_and_get_draft_tp_def maybe_override_draft_max_model_len_def
        raise_if_eq_Inr split: option.splits if_splits)
  with tp cfg show ?thesis by blast
qed

lemma default_model_kept:
  assumes "default_model self = Inr s"
  shows "spc_method s = spc_method self"
    "spc_enable_adaptive_verification s = spc_enable_adaptive_verification self"
    "spc_model s = None \<longrightarrow> spc_num_speculative_tokens s = None"
  using assms
  by (auto simp: default_model_def Let_def inherit_quantization_def split: if_splits option.splits)

text \<open>The methods that have no draft model of their own.\<close>

definition draftless :: "string list" where
  "draftless = [''ngram'', ''ngram_gpu'', ''suffix'', ''custom_class'', ''extract_hidden_states'']"

text \<open>A draft within its limits.\<close>

definition draft_in_limits :: "spec_config \<Rightarrow> bool" where
  "draft_in_limits cfg \<longleftrightarrow>
     (\<exists>t tp d n. spc_target_model_config cfg = Some t \<and> spc_target_parallel_config cfg = Some tp \<and>
        spc_draft_model_config cfg = Some d \<and> mdl_max_model_len d \<le> mdl_max_model_len t \<and>
        spc_draft_tensor_parallel_size cfg = Some n \<and> n \<in> {1, pc_tensor_parallel_size tp} \<and>
        spc_draft_parallel_config cfg = Some (create_draft_parallel_config tp n))"

lemma draft_branch_result:
  assumes "draft_model_branch ext s = Inr cfg" "spc_model s = None \<longrightarrow> spc_num_speculative_tokens s = None"
  shows "spc_enable_adaptive_verification cfg = spc_enable_adaptive_verification s \<and>
    (spc_num_speculative_tokens cfg \<noteq> None \<longrightarrow> draft_in_limits cfg \<and> (spc_method cfg = Some ''dspark'' \<longrightarrow> spc_parallel_drafting cfg))"
proof (cases "spc_model s")
  case None
  then have "cfg = s\<lparr>spc_prompt_lookup_max := Some 0, spc_prompt_lookup_min := Some 0\<rparr>"
    using assms(1) by (simp add: draft_model_branch_def)
  then show ?thesis using assms(2) None by simp
next
  case (Some model)
  let ?s = "s\<lparr>spc_prompt_lookup_max := Some 0, spc_prompt_lookup_min := Some 0\<rparr>"
  obtain t d0 where t: "spc_target_model_config s = Some t" and c: "configure_draft ext ?s t d0 = Inr cfg"
    using assms(1) Some by (auto simp: draft_model_branch_def Let_def bind_result_eq_Inr split: option.splits)
  obtain m k n d dp tp where p: "spc_target_parallel_config ?s = Some tp" "n \<in> {1, pc_tensor_parallel_size tp}"
      "mdl_max_model_len d \<le> mdl_max_model_len t" "dp = create_draft_parallel_config tp n"
      "cfg = ?s\<lparr>spc_method := Some m, spc_num_speculative_tokens := Some k,
        spc_parallel_drafting := (if m \<in> {''dflash'', ''dspark''} then True else spc_parallel_drafting ?s),
        spc_draft_tensor_parallel_size := Some n, spc_draft_model_config := Some d, spc_draft_parallel_config := Some dp\<rparr>"
    using configure_draft_parts [OF c] by blast
  then show ?thesis using t by (simp add: draft_in_limits_def)
qed

lemma draftless_kept:
  "ngram_lookup s = Inr cfg \<Longrightarrow> spc_method cfg = spc_method s \<and>
     spc_enable_adaptive_verification cfg = spc_enable_adaptive_verification s \<and>
     (\<exists>lo hi. spc_prompt_lookup_min cfg = Some lo \<and> spc_prompt_lookup_max cfg = Some hi \<and> lo \<le> hi)"
  "validate_suffix_decoding ext s = Inr cfg \<Longrightarrow> spc_method cfg = spc_method s \<and>
     spc_enable_adaptive_verification cfg = spc_enable_adaptive_verification s"
  "spc_method (custom_class_config s) = spc_method s \<and>
     spc_enable_adaptive_verification (custom_class_config s) = spc_enable_adaptive_verification s"
  "extract_hidden_states_config ext s = Inr cfg \<Longrightarrow> spc_method cfg = spc_method s \<and>
     spc_enable_adaptive_verification cfg = spc_enable_adaptive_verification s"
  by (auto simp: ngram_lookup_def validate_suffix_decoding_def custom_class_config_def extract_hidden_states_config_def
      raise_if_eq_Inr Let_def split: option.splits if_splits prod.splits)

text \<open>What the constructor leaves behind, by branch.\<close>

lemma post_init_result:
  assumes "post_init ext self = Inr cfg"
  shows "spc_enable_adaptive_verification cfg = spc_enable_adaptive_verification self"
    "spc_enable_adaptive_verification self \<Longrightarrow> spc_method cfg = Some ''dspark''"
    "spc_num_speculative_tokens cfg \<noteq> None \<Longrightarrow> the (spc_method cfg) \<notin> set draftless \<Longrightarrow> draft_in_limits cfg"
    "spc_num_speculative_tokens cfg \<noteq> None \<Longrightarrow> spc_method cfg = Some ''dspark'' \<Longrightarrow> spc_parallel_drafting cfg"
proof -
  obtain s where s: "default_model (infer_method self) = Inr s" using assms by (auto simp: post_init_def bind_result_eq_Inr)
  define m where "m = (if the (spc_method s) = ''[ngram]'' then ''ngram'' else the (spc_method s))"
  let ?s1 = "s\<lparr>spc_method := Some m\<rparr>"
  have branch: "(if m \<in> {''ngram'', ''ngram_gpu''} then ngram_lookup ?s1
      else if m = ''suffix'' then validate_suffix_decoding ext ?s1
      else if m = ''custom_class'' then Inr (custom_class_config ?s1)
      else if m = ''extract_hidden_states'' then extract_hidden_states_config ext ?s1
      else draft_model_branch ext ?s1) = Inr cfg"
    and ad: "\<not> (spc_method cfg \<noteq> Some ''dspark'' \<and> spc_enable_adaptive_verification cfg)"
    using assms by (auto simp: post_init_def s Let_def m_def bind_result_eq_Inr raise_if_eq_Inr)
  have keep: "spc_enable_adaptive_verification s = spc_enable_adaptive_verification self"
    using default_model_kept(2) [OF s] by (simp add: infer_method_def Let_def)
  have nomodel: "spc_model ?s1 = None \<longrightarrow> spc_num_speculative_tokens ?s1 = None"
    using default_model_kept(3) [OF s] by simp
  consider (draftless) "m \<in> set draftless" "spc_method cfg = Some m"
      "spc_enable_adaptive_verification cfg = spc_enable_adaptive_verification s"
    | (draft) "draft_model_branch ext ?s1 = Inr cfg"
    using branch draftless_kept(1,3) [of ?s1] draftless_kept(2,4) [of ext ?s1] by (auto simp: draftless_def split: if_splits)
  then have "spc_enable_adaptive_verification cfg = spc_enable_adaptive_verification self \<and>
    (spc_num_speculative_tokens cfg \<noteq> None \<longrightarrow> the (spc_method cfg) \<notin> set draftless \<longrightarrow>
       draft_in_limits cfg \<and> (spc_method cfg = Some ''dspark'' \<longrightarrow> spc_parallel_drafting cfg))"
  proof cases
    case draftless
    then show ?thesis using keep by simp
  next
    case draft
    then show ?thesis using draft_branch_result [OF draft nomodel] keep by simp
  qed
  note c = this
  show a: "spc_enable_adaptive_verification cfg = spc_enable_adaptive_verification self" using c by blast
  show "spc_enable_adaptive_verification self \<Longrightarrow> spc_method cfg = Some ''dspark''" using ad unfolding a by blast
  show "spc_num_speculative_tokens cfg \<noteq> None \<Longrightarrow> the (spc_method cfg) \<notin> set draftless \<Longrightarrow> draft_in_limits cfg"
    using c by blast
  show "spc_num_speculative_tokens cfg \<noteq> None \<Longrightarrow> spc_method cfg = Some ''dspark'' \<Longrightarrow> spc_parallel_drafting cfg"
    using c by (simp add: draftless_def)
qed

text \<open>The validator keeps what it does not settle.\<close>

lemma verify_args_result:
  assumes "verify_args ext self = Inr cfg"
  shows "\<exists>rs. cfg = self\<lparr>spc_synthetic_acceptance_rates := rs, spc_synthetic_acceptance_length := None\<rparr>"
    "\<exists>k. 0 < k \<and> spc_num_speculative_tokens self = Some k" "spc_tensor_parallel_size self = None"
proof -
  obtain k where k: "spc_num_speculative_tokens self = Some k" "\<not> k \<le> 0" "spc_tensor_parallel_size self = None"
    and "\<exists>s. settle_rates self k = Inr s \<and> cfg = s"
    using assms unfolding verify_args_def
    by (auto simp: raise_if_eq_Inr bind_result_eq_Inr split: option.splits)
  then have sr: "settle_rates self k = Inr cfg" by blast
  show "\<exists>k. 0 < k \<and> spc_num_speculative_tokens self = Some k" "spc_tensor_parallel_size self = None"
    using k by auto
  show "\<exists>rs. cfg = self\<lparr>spc_synthetic_acceptance_rates := rs, spc_synthetic_acceptance_length := None\<rparr>"
  proof (cases "spc_rejection_sample_method self = ''synthetic''")
    case True
    then show ?thesis using sr by (auto simp: settle_rates_def bind_result_eq_Inr)
  next
    case False
    then have "cfg = self" "spc_synthetic_acceptance_rates self = None" "spc_synthetic_acceptance_length self = None"
      using sr by (auto simp: settle_rates_def raise_if_eq_Inr)
    then show ?thesis by (intro exI [where x = None]) simp
  qed
qed

text \<open>What the whole construction leaves of an adaptive request.\<close>

lemma adaptive_constructed:
  assumes "speculative_config ext self = Inr cfg" "spc_enable_adaptive_verification self"
  shows "spc_enable_adaptive_verification cfg \<and> use_dspark cfg \<and> spc_parallel_drafting cfg \<and> draft_in_limits cfg
    \<and> (\<exists>k. 0 < k \<and> spc_num_speculative_tokens cfg = Some k \<and> max_num_new_slots_for_drafting cfg = k - 1)"
proof -
  obtain c where c: "post_init ext self = Inr c" "verify_args ext c = Inr cfg"
    using assms(1) by (auto simp: speculative_config_def bind_result_eq_Inr)
  obtain rs where cfg: "cfg = c\<lparr>spc_synthetic_acceptance_rates := rs, spc_synthetic_acceptance_length := None\<rparr>"
    using verify_args_result(1) [OF c(2)] by blast
  obtain k where k: "0 < k" "spc_num_speculative_tokens c = Some k" using verify_args_result(2) [OF c(2)] by blast
  note p = post_init_result [OF c(1)]
  have m: "spc_method c = Some ''dspark''" by (rule p(2) [OF assms(2)])
  have "spc_parallel_drafting c" "draft_in_limits c" using p(3,4) m k(2) by (simp_all add: draftless_def)
  then show ?thesis
    using p(1) assms(2) m k
    by (simp add: cfg use_dspark_def draft_in_limits_def max_num_new_slots_for_drafting_def use_dflash_def uses_draft_model_def)
qed

text \<open>
  Adaptive verification is on only where it works.  Whatever arguments and library are given, a
  configuration that is constructed with adaptive verification uses DSpark, drafts in parallel, has a
  draft model within its limits and a positive number of tokens, and asks the scheduler for one slot
  less than that number; every other combination is refused.
\<close>

theorem adaptive_only_dspark:
  assumes "speculative_config ext self = Inr cfg" "spc_enable_adaptive_verification self"
  shows "spc_enable_adaptive_verification cfg \<and> use_dspark cfg \<and> spc_parallel_drafting cfg \<and> draft_in_limits cfg
    \<and> (\<exists>k. 0 < k \<and> spc_num_speculative_tokens cfg = Some k \<and> max_num_new_slots_for_drafting cfg = k - 1)"
  by (rule adaptive_constructed [OF assms])

lemma spec_demo_constructed:
  "\<exists>cfg. speculative_config spec_demo_ext (spec_demo_self 5) = Inr cfg"
proof -
  obtain d hf2 where "post_init spec_demo_ext (spec_demo_self 5) =
      Inr ((dspark_prepared (spec_demo_self 5) spec_demo_target)\<lparr>spc_method := Some ''dspark'',
        spc_num_speculative_tokens := Some 5, spc_parallel_drafting := True,
        spc_draft_tensor_parallel_size := Some (pc_tensor_parallel_size spec_demo_parallel),
        spc_draft_model_config := Some (dspark_draft spec_demo_ext 5 spec_demo_target hf2 d),
        spc_draft_parallel_config := Some (create_draft_parallel_config spec_demo_parallel (pc_tensor_parallel_size spec_demo_parallel))\<rparr>)"
    using dspark_post_init [OF spec_demo_facts(1,2,3), of 5] by auto
  then show ?thesis
    by (simp add: speculative_config_def verify_args_def settle_rates_def dspark_prepared_def inherit_quantization_def
        spec_demo_self_def spec_demo_ext_def verify_equal_vocab_size_if_draft_model_def)
qed

theorem adaptive_only_dspark_witness:
  "\<exists>cfg. speculative_config spec_demo_ext (spec_demo_self 5) = Inr cfg \<and> use_dspark cfg \<and> spc_parallel_drafting cfg"
proof -
  obtain cfg where c: "speculative_config spec_demo_ext (spec_demo_self 5) = Inr cfg" using spec_demo_constructed by blast
  have "spc_enable_adaptive_verification (spec_demo_self 5)" by (simp add: spec_demo_self_def)
  from adaptive_only_dspark [OF c this] c show ?thesis by blast
qed

text \<open>
  C39. A constructed configuration is within its limits.  It has a positive number of tokens, it was
  not given the target's parallel size by mistake, a method with a draft model has a draft that is no
  longer than the target and runs at size one or the target's, and the scheduler is asked for between
  zero and that number of extra slots.
\<close>

theorem constructed_in_limits:
  assumes "speculative_config ext self = Inr cfg"
  shows "spc_tensor_parallel_size cfg = None \<and> (the (spc_method cfg) \<notin> set draftless \<longrightarrow> draft_in_limits cfg)
    \<and> (\<exists>k. 0 < k \<and> spc_num_speculative_tokens cfg = Some k
         \<and> 0 \<le> max_num_new_slots_for_drafting cfg \<and> max_num_new_slots_for_drafting cfg \<le> k)"
proof -
  obtain c where c: "post_init ext self = Inr c" "verify_args ext c = Inr cfg"
    using assms by (auto simp: speculative_config_def bind_result_eq_Inr)
  obtain rs where cfg: "cfg = c\<lparr>spc_synthetic_acceptance_rates := rs, spc_synthetic_acceptance_length := None\<rparr>"
    using verify_args_result(1) [OF c(2)] by blast
  obtain k where k: "0 < k" "spc_num_speculative_tokens c = Some k" using verify_args_result(2) [OF c(2)] by blast
  show ?thesis
    using post_init_result(3) [OF c(1)] verify_args_result(3) [OF c(2)] k
    by (auto simp: cfg draft_in_limits_def max_num_new_slots_for_drafting_def Let_def)
qed

theorem constructed_in_limits_witness:
  "\<exists>cfg k. speculative_config spec_demo_ext (spec_demo_self 5) = Inr cfg \<and> spc_num_speculative_tokens cfg = Some k
     \<and> max_num_new_slots_for_drafting cfg \<le> k"
  using spec_demo_constructed constructed_in_limits [of spec_demo_ext "spec_demo_self 5"] by blast

section \<open>Where the detection goes its own way\<close>

lemma mtp_prepared:
  assumes "spc_method self = Some ''mtp''" "default_model self = Inr s"
  shows "post_init ext self = bind_result (draft_model_branch ext (s\<lparr>spc_method := Some ''mtp''\<rparr>)) (\<lambda>self2.
      raise_if (spc_method self2 \<noteq> Some ''dspark'' \<and> spc_enable_adaptive_verification self2)
        (ValueError ''Adaptive verification only supported with DSpark'') (Inr self2))"
proof -
  have i: "infer_method self = self" using assms(1) by (simp add: infer_method_def)
  have "spc_method s = Some ''mtp''" using default_model_kept(1) [OF assms(2)] assms(1) by simp
  then show ?thesis by (simp add: post_init_def i assms(2))
qed

text \<open>A draft whose name gives no method away.\<close>

definition plain_name :: "model_config \<Rightarrow> bool" where
  "plain_name d \<longleftrightarrow>
     list_all (\<lambda>w. \<not> in_str w (lower (mdl_model d))) [''eagle-'', ''eagle3'', ''dflash''] \<and>
     ''MuseGlimmerAssistantModel'' \<notin> set (mdl_architectures d)"

lemma detect_mtp_unset:
  assumes "spc_method self = Some ''mtp''" "spc_num_speculative_tokens self = None" "plain_name d" "\<not> is_dspark_draft d"
    and "model_type (mdl_hf_config d) \<in> set MTPModelTypes"
  shows "\<exists>msg. detect_method self d = Inl (TypeError msg)"
proof -
  have "model_type (mdl_hf_config d) \<noteq> ''medusa''" "model_type (mdl_hf_config d) \<noteq> ''mlp_speculator''"
    using assms(5) by (auto simp: MTPModelTypes_def)
  with assms show ?thesis by (simp add: detect_method_def Let_def plain_name_def del: in_str.simps)
qed

text \<open>
  The default token count of an MTP draft is never reached.  With the count unset and a draft whose
  configuration carries a prediction depth, which the count is documented to default to and the later
  code would take, construction fails before that, comparing the unset count with a number.
\<close>

theorem mtp_default_unreachable:
  assumes "spc_method self = Some ''mtp''" "spc_model self = Some model" "spc_num_speculative_tokens self = None"
    and "spc_target_model_config self = Some t"
    and "\<And>s. se_model_config ext (draft_request_for ext s model t) = Inr d"
    and "plain_name d" "\<not> is_dspark_draft d" "model_type (mdl_hf_config d) \<in> set MTPModelTypes"
    and "getattr (mdl_hf_config d) ''n_predict'' VNone = VInt n"
  shows "(\<exists>msg. post_init ext self = Inl (TypeError msg)) \<and>
    settle_num_tokens (getattr (mdl_hf_config d) ''n_predict'' VNone) (spc_num_speculative_tokens self) = Inr n"
proof -
  have dm: "default_model self = Inr self" using assms(2) by (simp add: default_model_def)
  let ?s = "self\<lparr>spc_method := Some ''mtp'', spc_prompt_lookup_max := Some 0, spc_prompt_lookup_min := Some 0\<rparr>"
  obtain msg where "detect_method ?s d = Inl (TypeError msg)"
    using detect_mtp_unset [of ?s d] assms(3,6,7,8) by auto
  then have "draft_model_branch ext (self\<lparr>spc_method := Some ''mtp''\<rparr>) = Inl (TypeError msg)"
    using assms(2,4,5) by (simp add: draft_model_branch_def configure_draft_def align_medusa_vocab_def)
  then show ?thesis using mtp_prepared [OF assms(1) dm] assms(3,9) by (simp add: settle_num_tokens_def)
qed

definition mtp_demo_draft :: model_config where
  "mtp_demo_draft = qwen_demo_target\<lparr>mdl_model := ''deepseek-v3'', mdl_architectures := [''DeepSeekMTPModel''],
     mdl_hf_config := [(''model_type'', VStr ''deepseek_mtp''), (''n_predict'', VInt 1)]\<rparr>"

theorem mtp_default_unreachable_witness:
  "\<exists>msg. post_init (spec_demo_ext\<lparr>se_model_config := (\<lambda>_. Inr mtp_demo_draft)\<rparr>)
    ((spec_demo_self 1)\<lparr>spc_method := Some ''mtp'', spc_model := Some ''deepseek-v3'', spc_num_speculative_tokens := None\<rparr>)
    = Inl (TypeError msg)"
proof -
  have "plain_name mtp_demo_draft" "\<not> is_dspark_draft mtp_demo_draft" by code_simp+
  moreover have "model_type (mdl_hf_config mtp_demo_draft) \<in> set MTPModelTypes"
    by (simp add: mtp_demo_draft_def model_type_def MTPModelTypes_def)
  moreover have "getattr (mdl_hf_config mtp_demo_draft) ''n_predict'' VNone = VInt 1"
    by (simp add: mtp_demo_draft_def getattr_def)
  ultimately show ?thesis
    using mtp_default_unreachable [of "(spec_demo_self 1)\<lparr>spc_method := Some ''mtp'', spc_model := Some ''deepseek-v3'',
        spc_num_speculative_tokens := None\<rparr>" "''deepseek-v3''" spec_demo_target
        "spec_demo_ext\<lparr>se_model_config := (\<lambda>_. Inr mtp_demo_draft)\<rparr>" mtp_demo_draft 1]
    by (simp add: spec_demo_self_def)
qed

text \<open>
  An explicit method does not always win.  Asked for MTP drafting with a checkpoint whose name
  contains the word \<^verbatim>\<open>dspark\<close> in any case, the constructor detects the method from the name and
  returns, if it returns, a DSpark configuration that drafts in parallel.
\<close>

theorem explicit_mtp_reclassified:
  assumes "spc_method self = Some ''mtp''" "spc_model self = Some model"
    and "\<And>s t. se_model_config ext (draft_request_for ext s model t) = Inr d" "mdl_model d = model" "plain_name d"
    and "in_str ''dspark'' (lower model)" "post_init ext self = Inr cfg"
  shows "spc_method cfg = Some ''dspark'' \<and> spc_parallel_drafting cfg"
proof -
  have dm: "default_model self = Inr self" using assms(2) by (simp add: default_model_def)
  let ?s = "self\<lparr>spc_method := Some ''mtp'', spc_prompt_lookup_max := Some 0, spc_prompt_lookup_min := Some 0\<rparr>"
  have "draft_model_branch ext (self\<lparr>spc_method := Some ''mtp''\<rparr>) = Inr cfg"
    using assms(7) unfolding mtp_prepared [OF assms(1) dm] by (auto simp: bind_result_eq_Inr raise_if_eq_Inr)
  then obtain t where c: "configure_draft ext ?s t d = Inr cfg"
    using assms(2,3) by (auto simp: draft_model_branch_def Let_def split: option.splits)
  have "detect_method ?s d = Inr ''dspark''"
    using assms(4,5,6) by (simp add: detect_method_def plain_name_def is_dspark_draft_def Let_def del: in_str.simps)
  then show ?thesis
    using c unfolding configure_draft_def align_medusa_vocab_def by (auto simp: bind_result_eq_Inr Let_def)
qed

definition named_demo_draft :: model_config where
  "named_demo_draft = spec_demo_target\<lparr>mdl_model := ''V4-DSpark'', mdl_architectures := [''DeepSeekV4MTPModel''],
     mdl_hf_config := [(''model_type'', VStr ''deepseek_mtp''), (''n_predict'', VInt 1), (''dspark_block_size'', VInt 5),
       (''architectures'', VList [VStr ''DeepSeekV4MTPModel''])]\<rparr>"

theorem explicit_mtp_reclassified_witness:
  "\<exists>cfg. post_init (spec_demo_ext\<lparr>se_model_config := (\<lambda>_. Inr named_demo_draft)\<rparr>)
    ((spec_demo_self 1)\<lparr>spc_method := Some ''mtp'', spc_model := Some ''V4-DSpark''\<rparr>) = Inr cfg
    \<and> spc_method cfg = Some ''dspark''"
proof -
  let ?ext = "spec_demo_ext\<lparr>se_model_config := (\<lambda>_. Inr named_demo_draft)\<rparr>"
  let ?self = "(spec_demo_self 1)\<lparr>spc_method := Some ''mtp'', spc_model := Some ''V4-DSpark''\<rparr>"
  have d: "plain_name named_demo_draft" "in_str ''dspark'' (lower ''V4-DSpark'')" by code_simp+
  have "\<not> isl (post_init ?ext ?self)" by code_simp
  then obtain cfg where c: "post_init ?ext ?self = Inr cfg" by (cases "post_init ?ext ?self") simp_all
  have "spc_method cfg = Some ''dspark'' \<and> spc_parallel_drafting cfg"
    by (rule explicit_mtp_reclassified [where self = ?self and ext = ?ext and d = named_demo_draft and model = "''V4-DSpark''"])
      (simp_all add: d c, simp add: named_demo_draft_def)
  with c show ?thesis by blast
qed

end
