(* ===== verification/ModelForward.thy ===== *)
theory ModelForward
  imports Platform
begin

text \<open>
  The control flow of \<^verbatim>\<open>DeepseekV4Model\<close> and \<^verbatim>\<open>DeepseekV4DecoderLayer\<close> in
  \<^verbatim>\<open>src/docker/overlay-54631-image/vllm/models/deepseek_v4/nvidia/model.py\<close>: the choice of the attention
  class and of sequence parallelism, a decoder layer as the sequence of its fused kernels, and the
  forward pass with its pipeline stages, the auxiliary hidden states for draft models and the buffer
  of hidden states.

  Tensors are opaque, of type \<open>'h\<close>; the kernels and collectives are library code and fields of the
  records.  The attention and the expert layer may raise, and change what is kept between layers (caches of
  keys and values, buffers, counters), which is of type \<open>'e\<close> and threaded through.  The padding mask of the
  forward context is left out.
\<close>

section \<open>Choices\<close>

datatype attn_backend =
    FLASHINFER_MLA_SPARSE | FLASHINFER_MLA_SPARSE_SM120 | FLASHINFER_MLA_SPARSE_DSV4
  | FLASHMLA_SPARSE | FLASHMLA_SPARSE_DSV4 | OTHER_BACKEND

datatype attn_cls = FlashInferSM120Attention | FlashInferMLAAttention | FlashMLAAttention

definition is_major_12 :: "platform \<Rightarrow> bool" where
  "is_major_12 p = (case get_device_capability p of Some (major, minor) \<Rightarrow> major = 12 | None \<Rightarrow> False)"

definition select_dsv4_attn_cls :: "platform \<Rightarrow> attn_backend option \<Rightarrow> attn_cls result" where
  "select_dsv4_attn_cls p backend =
     raise_if (backend \<in> {Some FLASHINFER_MLA_SPARSE, Some FLASHINFER_MLA_SPARSE_SM120})
       (ValueError ''not a DeepSeek V4 attention backend'')
     (if backend = Some FLASHINFER_MLA_SPARSE_DSV4 then
        Inr (if is_major_12 p then FlashInferSM120Attention else FlashInferMLAAttention)
      else if backend \<in> {Some FLASHMLA_SPARSE, Some FLASHMLA_SPARSE_DSV4} then Inr FlashMLAAttention
      else Inr (if is_major_12 p then FlashInferSM120Attention else FlashMLAAttention))"

record model_parallel =
  mp_pipeline_parallel_size :: nat
  mp_tensor_parallel_size :: nat
  mp_data_parallel_size :: nat
  mp_enable_expert_parallel :: bool
  mp_use_mega_moe :: bool

definition use_sequence_parallel :: "model_parallel \<Rightarrow> bool" where
  "use_sequence_parallel mp \<longleftrightarrow>
     mp_pipeline_parallel_size mp = 1 \<and> mp_enable_expert_parallel mp \<and> mp_tensor_parallel_size mp > 1 \<and>
     (mp_use_mega_moe mp \<or> mp_data_parallel_size mp > 1)"

section \<open>A decoder layer\<close>

text \<open>The residual stream with its two mixing matrices.\<close>

type_synonym 'h stream = "'h \<times> 'h \<times> 'h"

record ('h, 'e) layer_ops =
  lo_dim2 :: "'h \<Rightarrow> bool"
  lo_broadcast :: "'h option"
  lo_pre_broadcast :: "'h \<Rightarrow> 'h \<Rightarrow> 'h stream \<times> 'h"
  lo_pre :: "'h \<Rightarrow> 'h \<times> 'h \<times> 'h"
  lo_attn_post_pre :: "'h \<Rightarrow> 'h stream \<Rightarrow> 'h stream \<times> 'h"
  lo_ffn_post_pre :: "'h \<Rightarrow> 'h stream \<Rightarrow> 'h stream \<times> 'h"
  lo_all_gather :: "'h \<Rightarrow> 'h"
  lo_reduce_scatter :: "'h \<Rightarrow> 'h"
  lo_first :: "nat \<Rightarrow> 'h \<Rightarrow> 'h"
  lo_attn :: "nat list \<Rightarrow> 'h \<Rightarrow> 'e \<Rightarrow> ('h \<times> 'e) result"
  lo_ffn :: "'h \<Rightarrow> nat list option \<Rightarrow> 'e \<Rightarrow> ('h \<times> 'e) result"

text \<open>The standalone kernel of the first layer, or the one fused with the previous layer's end.\<close>

definition enter_layer :: "('h, 'e) layer_ops \<Rightarrow> 'h \<Rightarrow> 'h stream option \<Rightarrow> ('h stream \<times> 'h) result" where
  "enter_layer lo x stream =
     (case stream of
        None \<Rightarrow>
          if lo_dim2 lo x then
            (case lo_broadcast lo of
               None \<Rightarrow> Inl (AssertionError ''hc_attn_fn_broadcast is not None'')
             | Some fn \<Rightarrow> Inr (lo_pre_broadcast lo x fn))
          else (let (post_mix, res_mix, x') = lo_pre lo x in Inr ((x, post_mix, res_mix), x'))
      | Some s \<Rightarrow> Inr (lo_attn_post_pre lo x s))"

definition decoder_layer ::
  "bool \<Rightarrow> ('h, 'e) layer_ops \<Rightarrow> nat list \<Rightarrow> nat list option \<Rightarrow> 'h \<Rightarrow> 'h stream option \<Rightarrow> 'e
   \<Rightarrow> (('h \<times> 'h stream) \<times> 'e) result" where
  "decoder_layer use_sp lo positions input_ids x stream env =
     bind_result (enter_layer lo x stream) (\<lambda>(s1, x1).
       let x2 = (if use_sp then lo_first lo (length positions) (lo_all_gather lo x1) else x1)
       in bind_result (lo_attn lo positions x2 env) (\<lambda>(x3, env1).
            let x4 = (if use_sp then lo_reduce_scatter lo x3 else x3);
                (s2, x5) = lo_ffn_post_pre lo x4 s1
            in bind_result (lo_ffn lo x5 input_ids env1) (\<lambda>(x6, env2). Inr ((x6, s2), env2))))"

section \<open>The forward pass\<close>

text \<open>\<open>mf_embed\<close> and \<open>mf_shard_ids\<close> are library code, which also decides what happens without token ids.\<close>

record ('h, 'e) model_ops =
  mf_first_rank :: bool
  mf_last_rank :: bool
  mf_use_sp :: bool
  mf_use_mega_moe :: bool
  mf_embed :: "nat list option \<Rightarrow> 'h result"
  mf_shard :: "'h \<Rightarrow> 'h"
  mf_shard_ids :: "nat list option \<Rightarrow> nat list option result"
  mf_gather :: "'h \<Rightarrow> 'h"
  mf_first :: "nat \<Rightarrow> 'h \<Rightarrow> 'h"
  mf_rows :: "'h \<Rightarrow> nat"
  mf_mhc_post :: "'h \<Rightarrow> 'h stream \<Rightarrow> 'h"
  mf_mean :: "'h \<Rightarrow> 'h"
  mf_head_norm :: "'h \<Rightarrow> 'h"
  mf_layers :: "(nat list \<Rightarrow> nat list option \<Rightarrow> 'h \<Rightarrow> 'h stream option \<Rightarrow> 'e \<Rightarrow> (('h \<times> 'h stream) \<times> 'e) result) list"
  mf_start_layer :: nat
  mf_end_layer :: nat
  mf_aux_hidden_state_layers :: "nat list"

text \<open>The state of the loop: the last layer's output, the auxiliary states, the last reconstruction.\<close>

record ('h, 'e) loop_state =
  lp_hidden :: 'h
  lp_stream :: "'h stream option"
  lp_aux :: "'h list"
  lp_final_recon :: "'h option"
  lp_env :: 'e

definition aux_of :: "('h, 'e) model_ops \<Rightarrow> nat \<Rightarrow> 'h \<Rightarrow> 'h" where
  "aux_of mo full_num_tokens recon =
     (if mf_use_sp mo then mf_first mo full_num_tokens (mf_gather mo (mf_mean mo recon)) else mf_mean mo recon)"

definition layer_step ::
  "('h, 'e) model_ops \<Rightarrow> nat list \<Rightarrow> nat list option \<Rightarrow> nat \<Rightarrow> ('h, 'e) loop_state \<Rightarrow> ('h, 'e) loop_state result" where
  "layer_step mo positions ids idx st =
     bind_result ((mf_layers mo ! idx) positions ids (lp_hidden st) (lp_stream st) (lp_env st)) (\<lambda>((x, s), env).
       let st1 = st\<lparr>lp_hidden := x, lp_stream := Some s, lp_env := env\<rparr>
       in Inr (if idx + 1 \<in> set (mf_aux_hidden_state_layers mo)
               then let recon = mf_mhc_post mo x s
                    in st1\<lparr>lp_aux := lp_aux st1 @ [aux_of mo (length positions) recon], lp_final_recon := Some recon\<rparr>
               else st1))"

fun run_layers ::
  "('h, 'e) model_ops \<Rightarrow> nat list \<Rightarrow> nat list option \<Rightarrow> nat list \<Rightarrow> ('h, 'e) loop_state \<Rightarrow> ('h, 'e) loop_state result" where
  "run_layers mo positions ids [] st = Inr st"
| "run_layers mo positions ids (idx # rest) st =
     bind_result (layer_step mo positions ids idx st) (run_layers mo positions ids rest)"

definition stage_input :: "('h, 'e) model_ops \<Rightarrow> nat list option \<Rightarrow> 'h option \<Rightarrow> 'h option \<Rightarrow> 'h result" where
  "stage_input mo input_ids inputs_embeds intermediate =
     (if mf_first_rank mo then (case inputs_embeds of Some e \<Rightarrow> Inr e | None \<Rightarrow> mf_embed mo input_ids)
      else (case intermediate of
              None \<Rightarrow> Inl (AssertionError ''intermediate_tensors is not None'')
            | Some h \<Rightarrow> Inr h))"

text \<open>The token ids the layers get: \<^verbatim>\<open>input_ids.to(torch.int64)\<close> keeps the values, and raises without ids.\<close>

definition stage_ids :: "('h, 'e) model_ops \<Rightarrow> nat list option \<Rightarrow> nat list option result" where
  "stage_ids mo input_ids =
     raise_if (mf_use_mega_moe mo \<and> input_ids = None) (AttributeError ''to'')
       (if mf_use_sp mo then mf_shard_ids mo input_ids else Inr input_ids)"

text \<open>Leaving the loop: the reconstruction of the last layer is reused when it was captured.\<close>

definition leave_layers :: "('h, 'e) model_ops \<Rightarrow> ('h, 'e) loop_state \<Rightarrow> 'h result" where
  "leave_layers mo st =
     (case lp_stream st of
        None \<Rightarrow> Inl (UnboundLocalError ''layer'')
      | Some s \<Rightarrow>
          if mf_end_layer mo \<in> set (mf_aux_hidden_state_layers mo)
          then (case lp_final_recon st of
                  None \<Rightarrow> Inl (TypeError ''hidden_states is None'') | Some h \<Rightarrow> Inr h)
          else Inr (mf_mhc_post mo (lp_hidden st) s))"

datatype 'h stage_output = Intermediate 'h | Final 'h "'h list"

text \<open>The buffer of hidden states is its capacity and what was last copied to its front.\<close>

type_synonym 'h mtp_buffer = "nat \<times> 'h option"

definition finish ::
  "('h, 'e) model_ops \<Rightarrow> nat \<Rightarrow> 'h mtp_buffer option \<Rightarrow> 'h list \<Rightarrow> 'h \<Rightarrow> ('h stage_output \<times> 'h mtp_buffer option) result" where
  "finish mo full_num_tokens buf aux h =
     (if \<not> mf_last_rank mo then Inr (Intermediate h, buf)
      else
        let h1 = (if mf_use_sp mo then mf_first mo full_num_tokens (mf_gather mo h) else h)
        in bind_result
             (case buf of
                None \<Rightarrow> Inr None
              | Some (capacity, _) \<Rightarrow>
                  raise_if (mf_rows mo h1 > capacity) (RuntimeError ''The size of tensors must match'')
                    (Inr (Some (capacity, Some h1))))
             (\<lambda>buf'. Inr (Final (mf_head_norm mo h1) aux, buf')))"

definition model_forward ::
  "('h, 'e) model_ops \<Rightarrow> nat list option \<Rightarrow> nat list \<Rightarrow> 'h option \<Rightarrow> 'h option \<Rightarrow> 'h mtp_buffer option \<Rightarrow> 'e
   \<Rightarrow> ('h stage_output \<times> 'h mtp_buffer option \<times> 'e) result" where
  "model_forward mo input_ids positions intermediate inputs_embeds buf env =
     bind_result (stage_input mo input_ids inputs_embeds intermediate) (\<lambda>h0.
     bind_result (stage_ids mo input_ids) (\<lambda>ids.
       let h = (if mf_use_sp mo then mf_shard mo h0 else h0)
       in bind_result (run_layers mo positions ids [mf_start_layer mo..<mf_end_layer mo]
                         \<lparr>lp_hidden = h, lp_stream = None, lp_aux = [], lp_final_recon = None, lp_env = env\<rparr>) (\<lambda>st.
          bind_result (leave_layers mo st) (\<lambda>x.
          bind_result (finish mo (length positions) buf (lp_aux st) x) (\<lambda>(out, buf'). Inr (out, buf', lp_env st))))))"

section \<open>The reference: every layer's output, reconstructed where it is needed\<close>

fun layer_trace ::
  "('h, 'e) model_ops \<Rightarrow> nat list \<Rightarrow> nat list option \<Rightarrow> nat list \<Rightarrow> 'h \<Rightarrow> 'h stream option \<Rightarrow> 'e
   \<Rightarrow> (('h \<times> 'h stream) list \<times> 'e) result" where
  "layer_trace mo positions ids [] x stream env = Inr ([], env)"
| "layer_trace mo positions ids (idx # rest) x stream env =
     bind_result ((mf_layers mo ! idx) positions ids x stream env) (\<lambda>((x', s'), env').
     bind_result (layer_trace mo positions ids rest x' (Some s') env') (\<lambda>(tr, env''). Inr ((x', s') # tr, env'')))"

definition captured :: "('h, 'e) model_ops \<Rightarrow> nat list \<Rightarrow> ('h \<times> 'h stream) list \<Rightarrow> 'h list" where
  "captured mo idxs tr =
     map (\<lambda>(idx, x, s). mf_mhc_post mo x s)
       (filter (\<lambda>(idx, x, s). idx + 1 \<in> set (mf_aux_hidden_state_layers mo)) (zip idxs tr))"

definition reference_forward ::
  "('h, 'e) model_ops \<Rightarrow> nat list option \<Rightarrow> nat list \<Rightarrow> 'h option \<Rightarrow> 'h option \<Rightarrow> 'h mtp_buffer option \<Rightarrow> 'e
   \<Rightarrow> ('h stage_output \<times> 'h mtp_buffer option \<times> 'e) result" where
  "reference_forward mo input_ids positions intermediate inputs_embeds buf env =
     bind_result (stage_input mo input_ids inputs_embeds intermediate) (\<lambda>h0.
     bind_result (stage_ids mo input_ids) (\<lambda>ids.
       let h = (if mf_use_sp mo then mf_shard mo h0 else h0);
           idxs = [mf_start_layer mo..<mf_end_layer mo]
       in bind_result (layer_trace mo positions ids idxs h None env) (\<lambda>(tr, env').
          bind_result (finish mo (length positions) buf (map (aux_of mo (length positions)) (captured mo idxs tr))
              (mf_mhc_post mo (fst (last tr)) (snd (last tr)))) (\<lambda>(out, buf'). Inr (out, buf', env')))))"

lemma layer_trace_length: "layer_trace mo ps ids idxs x s env = Inr (tr, env') \<Longrightarrow> length tr = length idxs"
  by (induction idxs arbitrary: x s env tr env') (auto simp: bind_result_eq_Inr split: prod.splits)

definition after_trace ::
  "('h, 'e) model_ops \<Rightarrow> nat \<Rightarrow> nat list \<Rightarrow> ('h \<times> 'h stream) list \<times> 'e \<Rightarrow> ('h, 'e) loop_state \<Rightarrow> ('h, 'e) loop_state" where
  "after_trace mo n idxs te st =
     (let (tr, env) = te in
     \<lparr>lp_hidden = (if tr = [] then lp_hidden st else fst (last tr)),
      lp_stream = (if tr = [] then lp_stream st else Some (snd (last tr))),
      lp_aux = lp_aux st @ map (aux_of mo n) (captured mo idxs tr),
      lp_final_recon = (if captured mo idxs tr = [] then lp_final_recon st else Some (last (captured mo idxs tr))),
      lp_env = env\<rparr>)"

text \<open>The loop is the trace, with what it collects on the way.\<close>

lemma run_layers_trace:
  "run_layers mo ps ids idxs st
    = bind_result (layer_trace mo ps ids idxs (lp_hidden st) (lp_stream st) (lp_env st))
        (\<lambda>te. Inr (after_trace mo (length ps) idxs te st))"
proof (induction idxs arbitrary: st)
  case Nil
  show ?case by (simp add: after_trace_def captured_def)
next
  case (Cons idx idxs)
  show ?case
  proof (cases "(mf_layers mo ! idx) ps ids (lp_hidden st) (lp_stream st) (lp_env st)")
    case (Inl e)
    then show ?thesis by (simp add: layer_step_def)
  next
    case (Inr xs)
    obtain x s env where xs: "xs = ((x, s), env)" by (metis surj_pair)
    define st1 where "st1 = (let st1 = st\<lparr>lp_hidden := x, lp_stream := Some s, lp_env := env\<rparr>
      in if idx + 1 \<in> set (mf_aux_hidden_state_layers mo)
         then let recon = mf_mhc_post mo x s
              in st1\<lparr>lp_aux := lp_aux st1 @ [aux_of mo (length ps) recon], lp_final_recon := Some recon\<rparr>
         else st1)"
    have "layer_step mo ps ids idx st = Inr st1" using Inr xs by (simp add: layer_step_def st1_def Let_def)
    then have "run_layers mo ps ids (idx # idxs) st = run_layers mo ps ids idxs st1" by simp
    also have "\<dots> = bind_result (layer_trace mo ps ids idxs x (Some s) env) (\<lambda>te. Inr (after_trace mo (length ps) idxs te st1))"
      unfolding Cons.IH by (simp add: st1_def Let_def)
    finally have r: "run_layers mo ps ids (idx # idxs) st
      = bind_result (layer_trace mo ps ids idxs x (Some s) env) (\<lambda>te. Inr (after_trace mo (length ps) idxs te st1))" .
    have "after_trace mo (length ps) idxs (tr, e) st1 = after_trace mo (length ps) (idx # idxs) ((x, s) # tr, e) st" for tr e
      by (auto simp: after_trace_def captured_def st1_def Let_def)
    then show ?thesis unfolding r using Inr xs
      by (cases "layer_trace mo ps ids idxs x (Some s) env") (auto split: prod.splits)
  qed
qed

lemma leave_after_trace:
  assumes "layer_trace mo ps ids [a..<mf_end_layer mo] x None env = Inr (tr, env')" "a < mf_end_layer mo"
  shows "leave_layers mo (after_trace mo n [a..<mf_end_layer mo] (tr, env')
      \<lparr>lp_hidden = h, lp_stream = None, lp_aux = [], lp_final_recon = None, lp_env = e\<rparr>)
    = Inr (mf_mhc_post mo (fst (last tr)) (snd (last tr)))"
proof -
  have len: "length tr = length [a..<mf_end_layer mo]" by (rule layer_trace_length [OF assms(1)])
  then have ne: "tr \<noteq> []" using assms(2) by auto
  obtain tr0 x s where tr: "tr = tr0 @ [(x, s)]" using ne by (metis append_butlast_last_id surj_pair)
  have up: "[a..<mf_end_layer mo] = [a..<mf_end_layer mo - 1] @ [mf_end_layer mo - 1]"
    using assms(2) by (metis Suc_diff_1 gr_implies_not_zero le_eq_less_or_eq less_Suc_eq_le not_gr_zero upt_Suc_append)
  have l0: "length tr0 = length [a..<mf_end_layer mo - 1]" using len by (simp add: tr)
  have c: "captured mo [a..<mf_end_layer mo] tr
      = captured mo [a..<mf_end_layer mo - 1] tr0
        @ (if mf_end_layer mo \<in> set (mf_aux_hidden_state_layers mo) then [mf_mhc_post mo x s] else [])"
    unfolding up tr captured_def using l0 assms(2) by simp
  show ?thesis by (simp add: leave_layers_def after_trace_def ne c) (simp add: tr)
qed

lemma model_forward_reference:
  assumes "mf_start_layer mo < mf_end_layer mo"
  shows "model_forward mo input_ids positions intermediate inputs_embeds buf env
    = reference_forward mo input_ids positions intermediate inputs_embeds buf env"
proof (cases "stage_input mo input_ids inputs_embeds intermediate")
  case in0: (Inr h0)
  show ?thesis
  proof (cases "stage_ids mo input_ids")
    case ids0: (Inr ids)
    let ?h = "if mf_use_sp mo then mf_shard mo h0 else h0"
    let ?I = "[mf_start_layer mo..<mf_end_layer mo]"
    let ?st = "\<lparr>lp_hidden = ?h, lp_stream = None, lp_aux = [], lp_final_recon = None, lp_env = env\<rparr>"
    show ?thesis
    proof (cases "layer_trace mo positions ids ?I ?h None env")
      case (Inr te)
      obtain tr env' where te: "te = (tr, env')" by fastforce
      have l: "leave_layers mo (after_trace mo (length positions) ?I (tr, env') ?st)
          = Inr (mf_mhc_post mo (fst (last tr)) (snd (last tr)))"
        by (rule leave_after_trace [OF Inr [unfolded te] assms])
      have aux: "lp_aux (after_trace mo (length positions) ?I (tr, env') ?st)
          = map (aux_of mo (length positions)) (captured mo ?I tr)"
        "lp_env (after_trace mo (length positions) ?I (tr, env') ?st) = env'" by (simp_all add: after_trace_def)
      show ?thesis
        unfolding model_forward_def reference_forward_def in0 ids0
          bind_result_Inr Let_def run_layers_trace loop_state.simps Inr te l aux prod.case ..
    qed (simp add: model_forward_def reference_forward_def Let_def run_layers_trace in0 ids0)
  qed (simp add: model_forward_def reference_forward_def in0)
qed (simp add: model_forward_def reference_forward_def)

text \<open>
  C30. The forward pass computes what the plain pass does.  For a stage with at least one layer, the
  pass that collects auxiliary states in its loop, and reuses the last reconstruction when the last
  layer was captured, agrees on every input, exceptions included, with the one that runs the layers,
  reconstructs the captured outputs afterwards and always reconstructs the last one anew.
\<close>

theorem forward_is_reference:
  assumes "mf_start_layer mo < mf_end_layer mo"
  shows "model_forward mo input_ids positions intermediate inputs_embeds buf env
    = reference_forward mo input_ids positions intermediate inputs_embeds buf env"
  by (rule model_forward_reference [OF assms])

text \<open>Two layers over integers, both captured, which count their calls.\<close>

definition forward_demo :: "(int, nat) model_ops" where
  "forward_demo = \<lparr>mf_first_rank = True, mf_last_rank = True, mf_use_sp = False, mf_use_mega_moe = False,
     mf_embed = (\<lambda>ids. Inr (int (sum_list (the ids)))),
     mf_shard = id, mf_shard_ids = Inr, mf_gather = id, mf_first = (\<lambda>n h. h), mf_rows = (\<lambda>h. 2),
     mf_mhc_post = (\<lambda>x (r, p, m). x + r), mf_mean = (\<lambda>h. 2 * h), mf_head_norm = (\<lambda>h. h + 100),
     mf_layers = replicate 2 (\<lambda>ps ids x s n. Inr ((x + 1, (case s of None \<Rightarrow> x | Some (r, _, _) \<Rightarrow> r + x, 0, 0)), n + 1)),
     mf_start_layer = 0, mf_end_layer = 2, mf_aux_hidden_state_layers = [1, 2]\<rparr>"

theorem forward_is_reference_witness:
  "model_forward forward_demo (Some [3, 4]) [0, 1] None None (Some (8, None)) 0 = Inr (Final 124 [30, 48], Some (8, Some 24), 2)"
proof -
  have c: "mf_start_layer forward_demo < mf_end_layer forward_demo" by (simp add: forward_demo_def)
  have u: "[0..<2] = [0, Suc 0]" by (simp add: numeral_2_eq_2)
  show ?thesis
    unfolding forward_is_reference [OF c]
    by (simp add: reference_forward_def forward_demo_def stage_input_def stage_ids_def captured_def finish_def aux_of_def u raise_if_def)
qed

section \<open>The folded matrix\<close>

text \<open>
  \<^verbatim>\<open>finalize_mhc_broadcast_weights\<close> gives the first layer of the first stage the matrix its two-dimensional
  input needs; \<open>folded\<close> is the sum over the streams.
\<close>

definition finalize_mhc_broadcast_weights ::
  "(('h, 'e) layer_ops \<Rightarrow> 'h) \<Rightarrow> bool \<Rightarrow> nat \<Rightarrow> nat \<Rightarrow> ('h, 'e) layer_ops list \<Rightarrow> ('h, 'e) layer_ops list" where
  "finalize_mhc_broadcast_weights folded first_rank start_layer end_layer layers =
     (if \<not> first_rank \<or> start_layer \<ge> end_layer then layers
      else layers[start_layer := (layers ! start_layer)\<lparr>lo_broadcast := Some (folded (layers ! start_layer))\<rparr>])"

end
