(* ===== verification/Deployment.thy ===== *)
theory Deployment
  imports IndexerBuild StepPipeline SpecProps ModelForward
begin

text \<open>
  The deployment the repository publishes: adaptive DSpark verification on an SM12x device.  The
  speculative configuration that \<^verbatim>\<open>speculative.py\<close> constructs is what the attention builders of
  \<^verbatim>\<open>indexer.py\<close>, \<^verbatim>\<open>sparse_mla.py\<close> and \<^verbatim>\<open>sparse_swa.py\<close> read, \<^verbatim>\<open>model.py\<close> chooses the attention class, and each of them decides by itself
  whether the device supports what adaptive verification needs.
\<close>

section \<open>The configuration the builders see\<close>

text \<open>The attributes the builders read of a constructed configuration.\<close>

definition spec_view_of :: "spec_config \<Rightarrow> spec_view" where
  "spec_view_of c =
     \<lparr>sv_num_speculative_tokens = nat (the (spc_num_speculative_tokens c)),
      sv_enable_adaptive_verification = spc_enable_adaptive_verification c,
      sv_parallel_drafting = spc_parallel_drafting c, sv_use_dspark = use_dspark c\<rparr>"

text \<open>A CUDA device of the SM12x family with DeepGEMM, as the image is built for.\<close>

definition sm12x :: "platform \<Rightarrow> nat \<Rightarrow> bool" where
  "sm12x p minor \<longleftrightarrow>
     get_device_capability p = Some (12, minor) \<and> family_of_major p \<and> is_cuda p \<and> has_deep_gemm p"

lemma sm121_sm12x: "sm12x sm121 1"
  by (simp add: sm12x_def family_of_major_def sm121_def)

section \<open>The gates\<close>

lemma sm12x_gates:
  assumes "sm12x p minor"
  shows "supports_flattened_device_query_lens p" "\<not> supports_varlen_paged_mqa_logits p"
    "supports_device_cpu_query_lens_mismatch p" "mla_cudagraph_support p cls = ALWAYS"
    "swa_cudagraph_support p cls = ALWAYS" "build_tile_scheduler p sx sb n t = None"
    "fi_supports_compute_capability (12, minor)" "select_dsv4_attn_cls p None = Inr FlashInferSM120Attention"
  using assms
  by (auto simp: sm12x_def family_of_major_def supports_flattened_device_query_lens_def
      supports_varlen_paged_mqa_logits_def supports_device_cpu_query_lens_mismatch_def
      mla_cudagraph_support_def swa_cudagraph_support_def build_tile_scheduler_def fi_supports_compute_capability_def
      select_dsv4_attn_cls_def is_major_12_def)

lemma indexer_init_flags:
  assumes "indexer_init p cfg tps ns sms u w = Inr ib"
  shows "ib_use_flattening ib = use_flattening p cfg" "ib_supports_varlen ib = supports_varlen_paged_mqa_logits p"
    "ib_decode_threshold ib = (case cfg_speculative_config cfg of Some sc \<Rightarrow> sv_num_speculative_tokens sc | None \<Rightarrow> 0) + 1"
  using assms unfolding indexer_init_def by (auto simp: Let_def raise_if_eq_Inr bind_result_eq_Inr)

lemma swa_init_flags:
  assumes "swa_init cfg dw hs tps bs = Inr sb" "cfg_speculative_config cfg = Some sc"
  shows "sb_is_dspark sb = sv_use_dspark sc"
    "sb_decode_threshold sb = 1 + (if sv_parallel_drafting sc then 2 else 1) * sv_num_speculative_tokens sc"
  using assms unfolding swa_init_def by (auto simp: Let_def bind_result_eq_Inr)

text \<open>
  C7. In the published deployment every component takes the path that adaptive verification needs.  Any
  speculative configuration that is constructed
  with adaptive verification, read by the builders on any SM12x device with DeepGEMM, switches every
  component to the path that tolerates query lengths the host does not know: the indexer flattens its
  decode batch and reports that device and host lengths may differ, without the variable-length kernel
  of another family; all three builders allow CUDA graphs for any batch; no scheduler plan of the
  other kernels is made; the FlashInfer backend accepts the device and, without an explicit choice,
  the model's layers are of its SM12x class; and the sliding-window builder accepts the non-causal rows
  of DSpark.  The builders do not agree on what a decode is: the indexer takes a request of
  up to \<open>1 + k\<close> tokens for a decode, the sliding-window builder one of up to \<open>1 + 2k\<close>, because it
  doubles the length of a draft made in parallel although its comment says that it follows the
  indexer, and the sparse-MLA builder one of up to what the library's base class computed, a single token where that is zero.
  Every request the indexer takes for a decode is one for the sliding-window builder too, not conversely.
\<close>

theorem adaptive_deployment:
  assumes dev: "sm12x p minor" and con: "speculative_config ext self = Inr c"
    and ad: "spc_enable_adaptive_verification self" and cfg: "cfg_speculative_config cfg = Some (spec_view_of c)"
  shows "\<exists>k > 0. spc_num_speculative_tokens c = Some (int k)
    \<and> use_flattening p cfg \<and> \<not> supports_varlen_paged_mqa_logits p \<and> supports_device_cpu_query_lens_mismatch p
    \<and> indexer_cudagraph_support p cfg = ALWAYS \<and> mla_cudagraph_support p cls = ALWAYS
    \<and> swa_cudagraph_support p cls = ALWAYS \<and> (\<forall>sx sb n t. build_tile_scheduler p sx sb n t = None)
    \<and> fi_supports_compute_capability (12, minor) \<and> select_dsv4_attn_cls p None = Inr FlashInferSM120Attention
    \<and> (\<forall>tps ns sms u w ib. indexer_init p cfg tps ns sms u w = Inr ib \<longrightarrow>
         ib_use_flattening ib \<and> \<not> ib_supports_varlen ib \<and> ib_decode_threshold ib = 1 + k)
    \<and> (\<forall>dw hs tps bs sb. swa_init cfg dw hs tps bs = Inr sb \<longrightarrow>
         wf_swa sb \<and> sb_is_dspark sb \<and> sb_decode_threshold sb = 1 + 2 * k)
    \<and> (\<forall>thr tps bs ns u. mb_reorder_batch_threshold (mla_init cfg thr tps bs ns u) = thr)"
proof -
  note a = adaptive_constructed [OF con ad]
  then obtain j where j: "0 < j" "spc_num_speculative_tokens c = Some j" by blast
  define k where "k = nat j"
  have k: "0 < k" "spc_num_speculative_tokens c = Some (int k)" using j by (simp_all add: k_def)
  have v: "cfg_speculative_config cfg = Some \<lparr>sv_num_speculative_tokens = k, sv_enable_adaptive_verification = True,
      sv_parallel_drafting = True, sv_use_dspark = True\<rparr>"
    using a cfg k by (simp add: spec_view_of_def)
  note g = sm12x_gates [OF dev]
  have fl: "use_flattening p cfg" using g(1) by (simp add: use_flattening_def v)
  have cg: "indexer_cudagraph_support p cfg = ALWAYS" using fl by (simp add: indexer_cudagraph_support_def)
  have ib: "ib_use_flattening ib \<and> \<not> ib_supports_varlen ib \<and> ib_decode_threshold ib = 1 + k"
    if "indexer_init p cfg tps ns sms u w = Inr ib" for tps ns sms u w ib
    using indexer_init_flags [OF that] fl g(2) v by simp
  have sb: "wf_swa sb \<and> sb_is_dspark sb \<and> sb_decode_threshold sb = 1 + 2 * k"
    if "swa_init cfg dw hs tps bs = Inr sb" for dw hs tps bs sb
    using swa_init_flags [OF that v] swa_init_wf [OF that] by simp
  have ml: "mb_reorder_batch_threshold (mla_init cfg thr tps bs ns u) = thr" for thr tps bs ns u
    by (simp add: mla_init_def Let_def)
  show ?thesis
    by (intro exI [of _ k] conjI allI impI) (rule k fl g cg ml | blast dest: ib sb)+
qed

definition deploy_demo_config :: "spec_config \<Rightarrow> vllm_config" where
  "deploy_demo_config c = swa_demo_config\<lparr>cfg_speculative_config := Some (spec_view_of c)\<rparr>"

theorem adaptive_deployment_witness:
  "\<exists>c sb. speculative_config spec_demo_ext (spec_demo_self 5) = Inr c
    \<and> use_flattening sm121 (deploy_demo_config c) \<and> indexer_cudagraph_support sm121 (deploy_demo_config c) = ALWAYS
    \<and> swa_init (deploy_demo_config c) (\<lambda>w n. w + n + 1) 512 1 4 = Inr sb \<and> sb_is_dspark sb"
proof -
  obtain c where c: "speculative_config spec_demo_ext (spec_demo_self 5) = Inr c" using spec_demo_constructed by blast
  have ad: "spc_enable_adaptive_verification (spec_demo_self 5)" by (simp add: spec_demo_self_def)
  have cfg: "cfg_speculative_config (deploy_demo_config c) = Some (spec_view_of c)" by (simp add: deploy_demo_config_def)
  note d = adaptive_deployment [OF sm121_sm12x c ad cfg, where cls = UNIFORM_BATCH]
  have "\<exists>sb. swa_init (deploy_demo_config c) (\<lambda>w n. w + n + 1) 512 1 4 = Inr sb"
    by (simp add: swa_init_def Let_def deploy_demo_config_def swa_demo_config_def layer_type_for_def)
  then obtain sb where sb: "swa_init (deploy_demo_config c) (\<lambda>w n. w + n + 1) 512 1 4 = Inr sb" by blast
  then have s: "sb_is_dspark sb" using d by blast
  have "use_flattening sm121 (deploy_demo_config c)" "indexer_cudagraph_support sm121 (deploy_demo_config c) = ALWAYS"
    using d by blast+
  then show ?thesis using c sb s by (intro exI [of _ c] exI [of _ sb]) simp
qed

end
