(* ===== verification/MegaExperts.thy ===== *)
theory MegaExperts
  imports Prelude
begin

text \<open>
  The routed experts of \<^verbatim>\<open>src/docker/overlay-54631-image/vllm/models/deepseek_v4/nvidia/model.py\<close>:
  the placement of physical experts on the ranks (\<^verbatim>\<open>DeepseekV4MoE\<close>), and
  \<^verbatim>\<open>DeepseekV4MegaMoEExperts\<close> with its parameters, its weight loader, the conversion of the shared
  experts' scales, the finalisation of the weights, and the cache of symmetric buffers.

  DeepGEMM is library code: the record \<open>deep_gemm\<close>.  A weight is a matrix of opaque integers.
\<close>

section \<open>Placement\<close>

text \<open>
  \<^verbatim>\<open>_init_mega_moe_experts\<close> and \<^verbatim>\<open>_init_fused_moe_experts\<close> compute the same numbers, the first from the
  expert-parallel group and the second from the tensor-parallel one.
\<close>

record moe_shape =
  ms_n_redundant_experts :: nat
  ms_n_shared_experts :: nat
  ms_n_logical_experts :: nat
  ms_n_physical_experts :: nat
  ms_n_local_physical_experts :: nat
  ms_physical_expert_start :: nat
  ms_physical_expert_end :: nat

definition expert_placement :: "nat \<Rightarrow> nat \<Rightarrow> nat option \<Rightarrow> nat \<Rightarrow> nat \<Rightarrow> moe_shape result" where
  "expert_placement n_routed n_redundant n_shared group_size rank =
     (let n_physical = n_routed + n_redundant; n_local = n_physical div group_size
      in raise_if (n_physical mod group_size \<noteq> 0)
           (AssertionError ''n_physical_experts must be divisible by the group size'')
         (Inr \<lparr>ms_n_redundant_experts = n_redundant,
               ms_n_shared_experts = (case n_shared of None \<Rightarrow> 0 | Some n \<Rightarrow> n),
               ms_n_logical_experts = n_routed, ms_n_physical_experts = n_physical,
               ms_n_local_physical_experts = n_local, ms_physical_expert_start = rank * n_local,
               ms_physical_expert_end = rank * n_local + n_local\<rparr>))"

text \<open>The native fusion of shared experts needs the whole shared MLP on every rank.\<close>

definition fuse_shared_experts :: "bool \<Rightarrow> bool \<Rightarrow> bool \<Rightarrow> nat \<Rightarrow> bool \<Rightarrow> bool" where
  "fuse_shared_experts has_shared disabled use_sequence_parallel tp_size use_fi_mega_moe \<longleftrightarrow>
     has_shared \<and> \<not> disabled \<and> (use_sequence_parallel \<or> tp_size = 1) \<and> \<not> use_fi_mega_moe"

section \<open>The module and its parameters\<close>

text \<open>
  A byte parameter over the local experts, and a matrix of the checkpoint with its element type; both
  carry their width.
\<close>

datatype w_dtype = W_uint8 | W_int32 | W_float8_e4m3fn | W_float8_e8m0fnu | W_other

record expert_param =
  xp_data :: "int list list list"
  xp_cols :: nat

record ckpt_weight =
  cw_dtype :: w_dtype
  cw_rows :: "int list list"
  cw_cols :: nat

definition zeros3 :: "nat \<Rightarrow> nat \<Rightarrow> nat \<Rightarrow> expert_param" where
  "zeros3 experts rows cols = \<lparr>xp_data = replicate experts (replicate rows (replicate cols 0)), xp_cols = cols\<rparr>"

type_synonym packed = "int list \<times> int list"

record mega_experts =
  me_prefix :: string
  me_num_experts :: nat
  me_num_local_experts :: nat
  me_experts_start_idx :: nat
  me_experts_end_idx :: nat
  me_top_k :: nat
  me_hidden_size :: nat
  me_intermediate_size :: nat
  me_num_shared_experts :: nat
  me_max_num_tokens :: nat
  me_num_logical_experts :: nat
  me_w13_weight :: "expert_param option"
  me_w13_weight_scale :: "expert_param option"
  me_w2_weight :: "expert_param option"
  me_w2_weight_scale :: "expert_param option"
  me_transformed_l1_weights :: "packed option"
  me_transformed_l2_weights :: "packed option"
  me_transformed_shared_l1_weights :: "packed option"
  me_transformed_shared_l2_weights :: "packed option"

text \<open>\<open>names\<close> holds the names of \<^verbatim>\<open>static_forward_context\<close>.\<close>

definition mega_init ::
  "string list \<Rightarrow> nat \<Rightarrow> moe_shape \<Rightarrow> nat \<Rightarrow> nat \<Rightarrow> nat \<Rightarrow> nat \<Rightarrow> string \<Rightarrow> (mega_experts \<times> string list) result" where
  "mega_init names max_num_batched_tokens ms top_k hidden_size intermediate_size num_shared_experts layer_name =
     (let n = ms_n_local_physical_experts ms; start = ms_physical_expert_start ms
      in raise_if (layer_name \<in> set names) (ValueError ''Duplicate layer name'')
         (Inr (\<lparr>me_prefix = layer_name, me_num_experts = ms_n_physical_experts ms, me_num_local_experts = n,
                me_experts_start_idx = start, me_experts_end_idx = start + n, me_top_k = top_k,
                me_hidden_size = hidden_size, me_intermediate_size = intermediate_size,
                me_num_shared_experts = num_shared_experts, me_max_num_tokens = max_num_batched_tokens,
                me_num_logical_experts = ms_n_logical_experts ms,
                me_w13_weight = Some (zeros3 n (2 * intermediate_size) (hidden_size div 2)),
                me_w13_weight_scale = Some (zeros3 n (2 * intermediate_size) (hidden_size div 32)),
                me_w2_weight = Some (zeros3 n hidden_size (intermediate_size div 2)),
                me_w2_weight_scale = Some (zeros3 n hidden_size (intermediate_size div 32)),
                me_transformed_l1_weights = None, me_transformed_l2_weights = None,
                me_transformed_shared_l1_weights = None, me_transformed_shared_l2_weights = None\<rparr>,
               names @ [layer_name])))"

text \<open>
  \<^verbatim>\<open>_init_mega_moe_experts\<close>: the placement, the decision on the fusion, the module.  The record holds
  what it reads of the configuration; a shared MLP exists when the configuration counts one.
\<close>

record moe_setup =
  mo_n_routed_experts :: nat
  mo_num_redundant_experts :: nat
  mo_n_shared_experts :: "nat option"
  mo_num_experts_per_tok :: nat
  mo_hidden_size :: nat
  mo_moe_intermediate_size :: nat
  mo_max_num_batched_tokens :: nat
  mo_disable_fusion :: bool
  mo_use_sequence_parallel :: bool
  mo_tp_size :: nat
  mo_use_fi_mega_moe :: bool

definition init_mega_moe_experts ::
  "moe_setup \<Rightarrow> string list \<Rightarrow> nat \<Rightarrow> nat \<Rightarrow> string \<Rightarrow> (mega_experts \<times> string list) result" where
  "init_mega_moe_experts mo names ep_size ep_rank layer_name =
     bind_result (expert_placement (mo_n_routed_experts mo) (mo_num_redundant_experts mo) (mo_n_shared_experts mo)
                    ep_size ep_rank) (\<lambda>ms.
       mega_init names (mo_max_num_batched_tokens mo) ms (mo_num_experts_per_tok mo) (mo_hidden_size mo)
         (mo_moe_intermediate_size mo)
         (if fuse_shared_experts (mo_n_shared_experts mo \<noteq> None) (mo_disable_fusion mo) (mo_use_sequence_parallel mo)
               (mo_tp_size mo) (mo_use_fi_mega_moe mo)
          then ms_n_shared_experts ms else 0)
         (layer_name @ ''.experts''))"

section \<open>The weight loader\<close>

definition map_global_expert_id :: "mega_experts \<Rightarrow> nat \<Rightarrow> nat list" where
  "map_global_expert_id self expert_id =
     map (\<lambda>p. p - me_experts_start_idx self)
       (filter (\<lambda>p. p mod me_num_logical_experts self = expert_id)
          [me_experts_start_idx self..<me_experts_end_idx self])"

text \<open>
  \<^verbatim>\<open>copy_\<close> into a byte parameter converts numerically when the types differ; how is torch's matter, the
  parameter \<open>conv\<close>.
\<close>

definition copied_rows :: "(w_dtype \<Rightarrow> int \<Rightarrow> int) \<Rightarrow> ckpt_weight \<Rightarrow> int list list" where
  "copied_rows conv w = (if cw_dtype w = W_uint8 then cw_rows w else map (map (conv (cw_dtype w))) (cw_rows w))"

text \<open>One iteration of the loop over the local slots; the flag says that something was copied.\<close>

definition load_slot ::
  "(w_dtype \<Rightarrow> int \<Rightarrow> int) \<Rightarrow> nat \<Rightarrow> ckpt_weight \<Rightarrow> string \<Rightarrow> string \<Rightarrow> nat \<Rightarrow> expert_param \<Rightarrow> (expert_param \<times> bool) result" where
  "load_slot conv intermediate_size w weight_name shard_id slot param =
     raise_if (slot \<ge> length (xp_data param)) (IndexError ''index out of bounds'')
     (let rows = xp_data param ! slot;
          mismatch = ValueError ''DeepSeek V4 MegaMoE expert weight shape mismatch''
      in if shard_id \<in> {''w1'', ''w3''} then
           if \<not> in_str ''w13_'' weight_name then Inr (param, False)
           else
             let shard_offset = (if shard_id = ''w1'' then 0 else intermediate_size)
             in raise_if (shard_offset + intermediate_size > length rows) (RuntimeError ''narrow exceeds the dimension'')
               (raise_if ((intermediate_size, xp_cols param) \<noteq> (length (cw_rows w), cw_cols w)) mismatch
               (Inr (param\<lparr>xp_data := (xp_data param)[slot := set_slice shard_offset (copied_rows conv w) rows]\<rparr>, True)))
         else if shard_id = ''w2'' then
           if \<not> in_str ''w2_'' weight_name then Inr (param, False)
           else raise_if ((length rows, xp_cols param) \<noteq> (length (cw_rows w), cw_cols w)) mismatch
                  (Inr (param\<lparr>xp_data := (xp_data param)[slot := copied_rows conv w]\<rparr>, True))
         else Inl (ValueError ''Unsupported expert shard id''))"

fun load_slots ::
  "(w_dtype \<Rightarrow> int \<Rightarrow> int) \<Rightarrow> nat \<Rightarrow> ckpt_weight \<Rightarrow> string \<Rightarrow> string \<Rightarrow> nat list \<Rightarrow> expert_param \<Rightarrow> bool \<Rightarrow> (expert_param \<times> bool) result" where
  "load_slots conv intermediate_size w weight_name shard_id [] param loaded_any = Inr (param, loaded_any)"
| "load_slots conv intermediate_size w weight_name shard_id (slot # slots) param loaded_any =
     bind_result (load_slot conv intermediate_size w weight_name shard_id slot param) (\<lambda>(param', done).
       load_slots conv intermediate_size w weight_name shard_id slots param' (loaded_any \<or> done))"

text \<open>The returned flag is \<^verbatim>\<open>None\<close> unless the caller asks for it.\<close>

definition weight_loader ::
  "(w_dtype \<Rightarrow> int \<Rightarrow> int) \<Rightarrow> mega_experts \<Rightarrow> expert_param \<Rightarrow> ckpt_weight \<Rightarrow> string \<Rightarrow> string \<Rightarrow> nat \<Rightarrow> bool \<Rightarrow> (expert_param \<times> bool option) result" where
  "weight_loader conv self param w weight_name shard_id expert_id return_success =
     (let slots = map_global_expert_id self expert_id
      in if slots = [] then Inr (param, if return_success then Some False else None)
         else bind_result (load_slots conv (me_intermediate_size self) w weight_name shard_id slots param False)
                (\<lambda>(param', loaded_any). Inr (param', if return_success then Some loaded_any else None)))"

section \<open>Scales of the shared experts\<close>

text \<open>A linear layer of the shared MLP: its weight, and its scales as the checkpoint has them.\<close>

record shared_linear =
  sl_weight :: ckpt_weight
  sl_scale_dtype :: w_dtype
  sl_scale_rows :: "8 word list list"
  sl_scale_cols :: nat
  sl_weight_block_size :: "nat list option"

text \<open>A scale tensor after the library's layout change: its type and its opaque contents.\<close>

type_synonym packed_scale = "w_dtype \<times> int list"

record deep_gemm =
  dg_signatures :: bool
  dg_attributes :: "string list"
  dg_buffer_params :: "string list"
  dg_kernel_params :: "string list"
  dg_transform_sf :: "32 word list list list \<Rightarrow> nat \<Rightarrow> nat \<Rightarrow> nat \<Rightarrow> packed_scale"
  dg_transform_weights :: "packed \<Rightarrow> packed \<Rightarrow> packed \<times> packed"
  dg_symm_buffer :: "nat \<Rightarrow> nat \<Rightarrow> nat \<Rightarrow> nat \<Rightarrow> nat \<Rightarrow> nat \<Rightarrow> nat \<Rightarrow> nat"

text \<open>The bits of a \<^verbatim>\<open>float32\<close>: the byte becomes the exponent.\<close>

definition ue8m0_uint8_to_float :: "8 word \<Rightarrow> 32 word" where
  "ue8m0_uint8_to_float sf = push_bit 23 (ucast sf)"

definition repeat_each :: "nat \<Rightarrow> 'a list \<Rightarrow> 'a list" where
  "repeat_each n xs = concat (map (replicate n) xs)"

definition scale_1x32 :: "nat \<Rightarrow> nat \<Rightarrow> nat \<Rightarrow> nat \<Rightarrow> 32 word list list \<Rightarrow> 32 word list list" where
  "scale_1x32 block_m block_k mn k scale =
     map (take (k div 32)) (take mn (map (repeat_each (block_k div 32)) (repeat_each block_m scale)))"

text \<open>\<open>None\<close> disables the fusion; block sizes are positive.\<close>

definition prepare_shared_expert_scale :: "deep_gemm \<Rightarrow> shared_linear \<Rightarrow> nat \<Rightarrow> nat \<Rightarrow> packed_scale option" where
  "prepare_shared_expert_scale dg linear mn k =
     (case sl_weight_block_size linear of
        Some [block_m, block_k] \<Rightarrow>
          if block_k mod 32 \<noteq> 0 \<or>
             (length (sl_scale_rows linear), sl_scale_cols linear)
               \<noteq> ((mn + block_m - 1) div block_m, (k + block_k - 1) div block_k)
          then None
          else Some (dg_transform_sf dg
                 [scale_1x32 block_m block_k mn k (map (map ue8m0_uint8_to_float) (sl_scale_rows linear))] mn k 1)
      | _ \<Rightarrow> None)"

section \<open>Finalisation\<close>

definition check_runtime_supported :: "nat \<Rightarrow> mega_experts \<Rightarrow> 'a result \<Rightarrow> 'a result" where
  "check_runtime_supported major self rest =
     raise_if (major \<noteq> 10) (NotImplementedError ''DeepGEMM MegaMoE requires SM100 GPUs.'')
     (raise_if (me_hidden_size self mod 128 \<noteq> 0 \<or> me_intermediate_size self mod 128 \<noteq> 0)
       (ValueError ''DeepGEMM MegaMoE requires hidden and intermediate sizes to be multiples of 128.'') rest)"

definition deep_gemm_supports_shared_experts :: "deep_gemm \<Rightarrow> bool" where
  "deep_gemm_supports_shared_experts dg \<longleftrightarrow>
     dg_signatures dg \<and> ''get_block_m_for_mega_moe'' \<in> set (dg_attributes dg) \<and>
     ''transform_weights_for_mega_moe'' \<in> set (dg_attributes dg) \<and>
     ''num_shared_experts'' \<in> set (dg_buffer_params dg) \<and>
     ''shared_l1_weights'' \<in> set (dg_kernel_params dg) \<and> ''shared_l2_weights'' \<in> set (dg_kernel_params dg)"

definition raw_scale :: "shared_linear \<Rightarrow> packed_scale" where
  "raw_scale l = (sl_scale_dtype l, map uint (concat (sl_scale_rows l)))"

definition shape_of :: "ckpt_weight \<Rightarrow> nat \<times> nat" where
  "shape_of w = (length (cw_rows w), cw_cols w)"

definition shared_scales ::
  "deep_gemm \<Rightarrow> shared_linear \<Rightarrow> shared_linear \<Rightarrow> packed_scale option \<times> packed_scale option" where
  "shared_scales dg gate_up down =
     (if sl_scale_dtype gate_up \<in> {W_float8_e8m0fnu, W_uint8} \<and> sl_scale_dtype down \<in> {W_float8_e8m0fnu, W_uint8}
      then (prepare_shared_expert_scale dg gate_up (fst (shape_of (sl_weight gate_up))) (snd (shape_of (sl_weight gate_up))),
            prepare_shared_expert_scale dg down (fst (shape_of (sl_weight down))) (snd (shape_of (sl_weight down))))
      else (Some (raw_scale gate_up), Some (raw_scale down)))"

text \<open>
  The second component says that the loader's gate-up weight was re-homed on the transformed one.
\<close>

definition finalize_shared_expert_weights ::
  "deep_gemm \<Rightarrow> mega_experts \<Rightarrow> shared_linear \<Rightarrow> shared_linear \<Rightarrow> mega_experts \<times> bool" where
  "finalize_shared_expert_weights dg self gate_up down =
     (let shared_size = me_intermediate_size self * me_num_shared_experts self;
          off = (self\<lparr>me_num_shared_experts := 0\<rparr>, False)
      in (case shared_scales dg gate_up down of
            (Some gs, Some ds) \<Rightarrow>
              if cw_dtype (sl_weight gate_up) \<noteq> W_float8_e4m3fn \<or> cw_dtype (sl_weight down) \<noteq> W_float8_e4m3fn \<or>
                 fst gs \<noteq> W_int32 \<or> fst ds \<noteq> W_int32 \<or>
                 shape_of (sl_weight gate_up) \<noteq> (2 * shared_size, me_hidden_size self) \<or>
                 shape_of (sl_weight down) \<noteq> (me_hidden_size self, shared_size)
              then off
              else
                let (l1, l2) = dg_transform_weights dg (concat (cw_rows (sl_weight gate_up)), snd gs)
                                 (concat (cw_rows (sl_weight down)), snd ds)
                in (self\<lparr>me_transformed_shared_l1_weights := Some l1, me_transformed_shared_l2_weights := Some l2\<rparr>, True)
          | _ \<Rightarrow> off))"

text \<open>A byte read as \<^verbatim>\<open>int8\<close>, and the scales of a parameter as floats.\<close>

definition as_int8 :: "int \<Rightarrow> int" where
  "as_int8 x = sint (word_of_int x :: 8 word)"

definition param_int8 :: "expert_param \<Rightarrow> int list" where
  "param_int8 p = map as_int8 (concat (concat (xp_data p)))"

definition param_scales :: "expert_param \<Rightarrow> 32 word list list list" where
  "param_scales p = map (map (map (\<lambda>b. ue8m0_uint8_to_float (word_of_int b)))) (xp_data p)"

definition finalize_routed :: "deep_gemm \<Rightarrow> nat \<Rightarrow> mega_experts \<Rightarrow> mega_experts result" where
  "finalize_routed dg major self =
     (if me_transformed_l1_weights self \<noteq> None then Inr self
      else check_runtime_supported major self
        (case (me_w13_weight self, me_w13_weight_scale self, me_w2_weight self, me_w2_weight_scale self) of
           (Some w13, Some s13, Some w2, Some s2) \<Rightarrow>
             let sf13 = dg_transform_sf dg (param_scales s13) (2 * me_intermediate_size self) (me_hidden_size self)
                          (me_num_local_experts self);
                 sf2 = dg_transform_sf dg (param_scales s2) (me_hidden_size self) (me_intermediate_size self)
                          (me_num_local_experts self);
                 (l1, l2) = dg_transform_weights dg (param_int8 w13, snd sf13) (param_int8 w2, snd sf2)
             in Inr (self\<lparr>me_transformed_l1_weights := Some l1, me_transformed_l2_weights := Some l2,
                   me_w13_weight := None, me_w13_weight_scale := None, me_w2_weight := None, me_w2_weight_scale := None\<rparr>)
         | _ \<Rightarrow> Inl (AttributeError ''NoneType has no attribute data'')))"

definition finalize_weights ::
  "deep_gemm \<Rightarrow> nat \<Rightarrow> mega_experts \<Rightarrow> (shared_linear \<times> shared_linear) option \<Rightarrow> mega_experts result" where
  "finalize_weights dg major self shared =
     bind_result (finalize_routed dg major self) (\<lambda>self1.
       (case shared of
          None \<Rightarrow> Inr self1
        | Some (gate_up, down) \<Rightarrow>
            if me_num_shared_experts self1 = 0 \<or> me_transformed_shared_l1_weights self1 \<noteq> None then Inr self1
            else if \<not> deep_gemm_supports_shared_experts dg then Inr (self1\<lparr>me_num_shared_experts := 0\<rparr>)
            else Inr (fst (finalize_shared_expert_weights dg self1 gate_up down))))"

definition has_fused_shared_experts :: "mega_experts \<Rightarrow> bool" where
  "has_fused_shared_experts self \<longleftrightarrow> me_transformed_shared_l1_weights self \<noteq> None"

section \<open>Symmetric buffers\<close>

type_synonym symm_key = "nat \<times> nat \<times> nat \<times> nat \<times> nat \<times> nat \<times> nat \<times> nat"

definition fused_shared_count :: "mega_experts \<Rightarrow> nat" where
  "fused_shared_count self = (if has_fused_shared_experts self then me_num_shared_experts self else 0)"

definition symm_key_of :: "nat \<Rightarrow> nat \<Rightarrow> mega_experts \<Rightarrow> symm_key" where
  "symm_key_of grp device self =
     (grp, device, me_num_experts self, me_max_num_tokens self, me_top_k self, me_hidden_size self,
      me_intermediate_size self, fused_shared_count self)"

definition get_symm_buffer ::
  "deep_gemm \<Rightarrow> nat \<Rightarrow> nat \<Rightarrow> mega_experts \<Rightarrow> (symm_key \<times> nat) list \<Rightarrow> nat \<times> (symm_key \<times> nat) list" where
  "get_symm_buffer dg grp device self cache =
     (case map_of cache (symm_key_of grp device self) of
        Some b \<Rightarrow> (b, cache)
      | None \<Rightarrow>
          let b = dg_symm_buffer dg grp (me_num_experts self) (me_max_num_tokens self) (me_top_k self)
                    (me_hidden_size self) (me_intermediate_size self) (fused_shared_count self)
          in (b, (symm_key_of grp device self, b) # cache))"

section \<open>Every expert has a place\<close>

lemma set_map_global_expert_id:
  "slot \<in> set (map_global_expert_id self e) \<longleftrightarrow>
   me_experts_start_idx self + slot < me_experts_end_idx self \<and>
   (me_experts_start_idx self + slot) mod me_num_logical_experts self = e"
  by (auto simp: map_global_expert_id_def image_iff) (metis add_diff_cancel_left' le_add1)

lemma distinct_map_global_expert_id: "distinct (map_global_expert_id self e)"
  by (auto simp: map_global_expert_id_def distinct_map inj_on_def)

lemma init_mega_fields:
  assumes "init_mega_moe_experts mo names ep_size r name = Inr (self, names')"
  defines "n \<equiv> (mo_n_routed_experts mo + mo_num_redundant_experts mo) div ep_size"
  shows "(mo_n_routed_experts mo + mo_num_redundant_experts mo) mod ep_size = 0"
    "me_experts_start_idx self = r * n" "me_experts_end_idx self = r * n + n" "me_num_local_experts self = n"
    "me_num_logical_experts self = mo_n_routed_experts mo" "me_intermediate_size self = mo_moe_intermediate_size mo"
    "me_hidden_size self = mo_hidden_size mo"
  using assms(1) unfolding init_mega_moe_experts_def expert_placement_def mega_init_def n_def
  by (auto simp: Let_def bind_result_eq_Inr raise_if_eq_Inr)

lemma length_map_global_expert_id:
  "length (map_global_expert_id self e)
    = card {p. me_experts_start_idx self \<le> p \<and> p < me_experts_end_idx self \<and> p mod me_num_logical_experts self = e}"
proof -
  let ?P = "\<lambda>p. p mod me_num_logical_experts self = e"
  let ?xs = "filter ?P [me_experts_start_idx self..<me_experts_end_idx self]"
  have "length (map_global_expert_id self e) = length ?xs" by (simp add: map_global_expert_id_def)
  also have "\<dots> = card (set ?xs)" by (rule distinct_card [symmetric]) simp
  also have "set ?xs = {p. me_experts_start_idx self \<le> p \<and> p < me_experts_end_idx self \<and> ?P p}" by auto
  finally show ?thesis .
qed

text \<open>Consecutive intervals partition their union.\<close>

lemma sum_card_intervals:
  "(\<Sum>r<k. card {p. r * n \<le> p \<and> p < r * n + n \<and> Q p}) = card {p :: nat. p < k * n \<and> Q p}"
proof (induction k)
  case (Suc k)
  have "{p. p < Suc k * n \<and> Q p} = {p. p < k * n \<and> Q p} \<union> {p. k * n \<le> p \<and> p < k * n + n \<and> Q p}" by auto
  then have "card {p. p < Suc k * n \<and> Q p} = card {p. p < k * n \<and> Q p} + card {p. k * n \<le> p \<and> p < k * n + n \<and> Q p}"
    by (simp add: card_Un_disjoint disjoint_iff)
  with Suc show ?case by simp
qed simp

text \<open>
  Expert placement.  When the construction succeeds on every rank, each local slot of each rank
  belongs to exactly one logical expert, every logical expert has a slot on some rank, and the slots
  of an expert over all ranks are as many as the physical experts that are its replicas.
\<close>

theorem experts_all_placed:
  assumes ranks: "\<forall>r < ep_size. \<exists>names'. init_mega_moe_experts mo names ep_size r name = Inr (ex r, names')"
    and pos: "0 < mo_n_routed_experts mo" "0 < ep_size"
  defines "L \<equiv> mo_n_routed_experts mo"
  shows "(\<forall>e < L. \<exists>r < ep_size. map_global_expert_id (ex r) e \<noteq> [])
    \<and> (\<forall>r < ep_size. \<forall>slot < me_num_local_experts (ex r). \<exists>!e. e < L \<and> slot \<in> set (map_global_expert_id (ex r) e))
    \<and> (\<forall>e < L. (\<Sum>r<ep_size. length (map_global_expert_id (ex r) e))
         = card {p. p < L + mo_num_redundant_experts mo \<and> p mod L = e})"
proof -
  let ?P = "L + mo_num_redundant_experts mo" and ?n = "(L + mo_num_redundant_experts mo) div ep_size"
  have f: "?P mod ep_size = 0" "me_experts_start_idx (ex r) = r * ?n" "me_experts_end_idx (ex r) = r * ?n + ?n"
      "me_num_local_experts (ex r) = ?n" "me_num_logical_experts (ex r) = L" if "r < ep_size" for r
    using ranks that init_mega_fields [of mo names ep_size r name "ex r"] by (auto simp: L_def)
  have total: "ep_size * ?n = ?P" using f(1) [OF pos(2)] by (simp add: mult.commute mod_eq_0_iff_dvd)
  have count: "(\<Sum>r<ep_size. length (map_global_expert_id (ex r) e)) = card {p. p < ?P \<and> p mod L = e}" for e
    using sum_card_intervals [of ?n "\<lambda>p. p mod L = e" ep_size] f total
    by (simp add: length_map_global_expert_id)
  have some: "\<exists>r < ep_size. map_global_expert_id (ex r) e \<noteq> []" if "e < L" for e
  proof (rule ccontr)
    assume "\<not> ?thesis"
    then have "(\<Sum>r<ep_size. length (map_global_expert_id (ex r) e)) = 0" by simp
    then have "card {p. p < ?P \<and> p mod L = e} = 0" unfolding count .
    moreover have "e \<in> {p. p < ?P \<and> p mod L = e}" using that by simp
    moreover have "finite {p. p < ?P \<and> p mod L = e}" by simp
    ultimately show False by (metis card_gt_0_iff empty_iff less_irrefl)
  qed
  have one: "\<exists>!e. e < L \<and> slot \<in> set (map_global_expert_id (ex r) e)"
    if "r < ep_size" "slot < me_num_local_experts (ex r)" for r slot
    by (rule ex1I [of _ "(r * ?n + slot) mod L"])
      (use that f [OF that(1)] pos(1) in \<open>auto simp: set_map_global_expert_id L_def\<close>)
  show ?thesis using some one count by blast
qed

definition mega_demo_setup :: moe_setup where
  "mega_demo_setup = \<lparr>mo_n_routed_experts = 4, mo_num_redundant_experts = 2, mo_n_shared_experts = Some 1,
     mo_num_experts_per_tok = 2, mo_hidden_size = 64, mo_moe_intermediate_size = 2, mo_max_num_batched_tokens = 8,
     mo_disable_fusion = False, mo_use_sequence_parallel = False, mo_tp_size = 1, mo_use_fi_mega_moe = False\<rparr>"

definition mega_demo_rank :: "nat \<Rightarrow> mega_experts" where
  "mega_demo_rank r = fst (projr (init_mega_moe_experts mega_demo_setup [] 3 r ''layers.0.ffn''))"

lemma mega_demo_init:
  "init_mega_moe_experts mega_demo_setup [] 3 r ''layers.0.ffn'' = Inr (mega_demo_rank r, [''layers.0.ffn.experts''])"
  by (simp add: mega_demo_rank_def init_mega_moe_experts_def mega_demo_setup_def expert_placement_def mega_init_def Let_def)

theorem experts_all_placed_witness:
  "(\<exists>r < 3. map_global_expert_id (mega_demo_rank r) 3 \<noteq> [])
   \<and> (\<Sum>r<3. length (map_global_expert_id (mega_demo_rank r) 1)) = card {p. p < 4 + 2 \<and> p mod 4 = (1 :: nat)}"
proof -
  have r: "\<forall>r < 3. \<exists>names'. init_mega_moe_experts mega_demo_setup [] 3 r ''layers.0.ffn'' = Inr (mega_demo_rank r, names')"
    using mega_demo_init by blast
  have m: "mo_n_routed_experts mega_demo_setup = 4" "mo_num_redundant_experts mega_demo_setup = 2"
    by (simp_all add: mega_demo_setup_def)
  show ?thesis using experts_all_placed [OF r] by (simp add: m)
qed

section \<open>The converted scales mean the same\<close>

lemma length_repeat_each [simp]: "length (repeat_each n xs) = n * length xs"
  by (induction xs) (simp_all add: repeat_each_def)

lemma nth_repeat_each: "i < n * length xs \<Longrightarrow> repeat_each n xs ! i = xs ! (i div n)"
proof (induction xs arbitrary: i)
  case (Cons x xs)
  have n: "0 < n" using Cons.prems by (cases n) auto
  have c: "repeat_each n (x # xs) = replicate n x @ repeat_each n xs" by (simp add: repeat_each_def)
  show ?case
  proof (cases "i < n")
    case True
    then show ?thesis by (simp add: c nth_append)
  next
    case False
    then have "i - n < n * length xs" using Cons.prems by simp
    from Cons.IH [OF this] False n show ?thesis by (simp add: c nth_append le_div_geq)
  qed
qed simp

lemma scale_1x32_entry:
  assumes "0 < bm" "0 < q" "mn \<le> bm * length S" "\<forall>row \<in> set S. k div 32 \<le> q * length row"
    and "i < mn" "j < k div 32"
  shows "scale_1x32 bm (32 * q) mn k S ! i ! j = S ! (i div bm) ! (j div q)"
    and "length (scale_1x32 bm (32 * q) mn k S) = mn" "length (scale_1x32 bm (32 * q) mn k S ! i) = k div 32"
proof -
  have i: "i div bm < length S" using assms(1,3,5) by (simp add: less_mult_imp_div_less mult.commute)
  have r: "scale_1x32 bm (32 * q) mn k S ! i = take (k div 32) (repeat_each q (S ! (i div bm)))"
    using assms(3,5) by (simp add: scale_1x32_def nth_repeat_each)
  have w: "k div 32 \<le> q * length (S ! (i div bm))" using assms(4) i by simp
  show "scale_1x32 bm (32 * q) mn k S ! i ! j = S ! (i div bm) ! (j div q)"
    using w assms(6) by (simp add: r nth_repeat_each)
  show "length (scale_1x32 bm (32 * q) mn k S) = mn" using assms(3) by (simp add: scale_1x32_def)
  show "length (scale_1x32 bm (32 * q) mn k S ! i) = k div 32" using w by (simp add: r)
qed

lemma ue8m0_bits:
  "drop_bit 23 (ue8m0_uint8_to_float b) = ucast b" "take_bit 23 (ue8m0_uint8_to_float b) = 0"
  by (simp_all add: ue8m0_uint8_to_float_def)
    (rule bit_word_eqI; auto simp: bit_simps dest: bit_imp_le_length)+

text \<open>
  The scales of the shared experts keep their meaning.  Whenever the conversion of a block-scaled
  weight of shape \<open>(mn, k)\<close> is not refused, what is handed to DeepGEMM has a scale for every row and
  every 32 columns, and the scale of weight element \<open>(i, c)\<close> is the checkpoint's scale of the block
  that element lies in, as the float whose exponent is the stored byte and whose sign and mantissa
  are zero.
\<close>

theorem shared_scale_equivalent:
  assumes res: "prepare_shared_expert_scale dg linear mn k = Some ps"
    and bs: "sl_weight_block_size linear = Some [bm, bk]" "0 < bm" "0 < bk"
    and rows: "\<forall>row \<in> set (sl_scale_rows linear). length row = sl_scale_cols linear"
  shows "\<exists>S. ps = dg_transform_sf dg [S] mn k 1 \<and> length S = mn
    \<and> (\<forall>i < mn. \<forall>c < k div 32 * 32.
         length (S ! i) = k div 32 \<and> take_bit 23 (S ! i ! (c div 32)) = 0
         \<and> drop_bit 23 (S ! i ! (c div 32)) = (ucast (sl_scale_rows linear ! (i div bm) ! (c div bk)) :: 32 word))"
proof -
  let ?R = "sl_scale_rows linear"
  let ?F = "map (map ue8m0_uint8_to_float) ?R"
  have sh: "bk mod 32 = 0" "length ?R = (mn + bm - 1) div bm" "sl_scale_cols linear = (k + bk - 1) div bk"
    and ps: "ps = dg_transform_sf dg [scale_1x32 bm bk mn k ?F] mn k 1"
    using res bs(1) by (auto simp: prepare_shared_expert_scale_def split: if_splits)
  obtain q where q: "bk = 32 * q" using sh(1) by (auto simp: mod_eq_0_iff_dvd dvd_def)
  have q0: "0 < q" using q bs(3) by simp
  have mn: "mn \<le> bm * length ?F"
    using cdiv_mult_ge [OF bs(2), of mn] sh(2) by (simp add: cdiv_def mult.commute)
  have k: "k \<le> sl_scale_cols linear * (32 * q)"
    using cdiv_mult_ge [OF bs(3), of k] sh(3) by (simp add: cdiv_def q)
  then have kk: "k div 32 \<le> q * sl_scale_cols linear"
    by (metis div_le_mono div_mult_self1_is_m mult.assoc mult.commute zero_less_numeral)
  have wide: "\<forall>row \<in> set ?F. k div 32 \<le> q * length row" using kk rows by auto
  note e = scale_1x32_entry [OF bs(2) q0 mn wide]
  have cell: "length (scale_1x32 bm bk mn k ?F ! i) = k div 32
       \<and> take_bit 23 (scale_1x32 bm bk mn k ?F ! i ! (c div 32)) = 0
       \<and> drop_bit 23 (scale_1x32 bm bk mn k ?F ! i ! (c div 32)) = (ucast (?R ! (i div bm) ! (c div bk)) :: 32 word)"
    if i: "i < mn" and c: "c < k div 32 * 32" for i c
  proof -
    have j: "c div 32 < k div 32" using c by (simp add: less_mult_imp_div_less)
    have ib: "i div bm < length ?R" using i mn bs(2) by (simp add: less_mult_imp_div_less mult.commute)
    have "c div 32 < q * sl_scale_cols linear" using j kk by simp
    then have jb: "c div 32 div q < length (?R ! (i div bm))"
      using rows ib q0 by (simp add: less_mult_imp_div_less mult.commute)
    have "scale_1x32 bm bk mn k ?F ! i ! (c div 32) = ue8m0_uint8_to_float (?R ! (i div bm) ! (c div bk))"
      using e(1) [OF i j] ib jb by (simp add: q div_mult2_eq)
    then show ?thesis using e(3) [OF i j] by (simp add: ue8m0_bits q)
  qed
  have len: "length (scale_1x32 bm bk mn k ?F) = mn" using mn by (simp add: scale_1x32_def)
  show ?thesis by (intro exI [of _ "scale_1x32 bm bk mn k ?F"]) (use ps len cell in blast)
qed

definition mega_demo_dg :: deep_gemm where
  "mega_demo_dg = \<lparr>dg_signatures = True,
     dg_attributes = [''get_block_m_for_mega_moe'', ''transform_weights_for_mega_moe''],
     dg_buffer_params = [''num_shared_experts''], dg_kernel_params = [''shared_l1_weights'', ''shared_l2_weights''],
     dg_transform_sf = (\<lambda>S mn k g. (W_int32, map uint (concat (concat S)))),
     dg_transform_weights = (\<lambda>a b. (a, b)), dg_symm_buffer = (\<lambda>_ _ _ _ _ _ _. 1)\<rparr>"

definition mega_demo_linear :: shared_linear where
  "mega_demo_linear = \<lparr>
     sl_weight = \<lparr>cw_dtype = W_float8_e4m3fn, cw_rows = replicate 3 (replicate 128 0), cw_cols = 128\<rparr>, sl_scale_dtype = W_uint8,
     sl_scale_rows = [[127, 128], [126, 125]], sl_scale_cols = 2, sl_weight_block_size = Some [2, 64]\<rparr>"

theorem shared_scale_equivalent_witness:
  "\<exists>S. prepare_shared_expert_scale mega_demo_dg mega_demo_linear 3 128 = Some (dg_transform_sf mega_demo_dg [S] 3 128 1)
     \<and> drop_bit 23 (S ! 2 ! (100 div 32)) = (125 :: 32 word)"
proof -
  obtain ps where r: "prepare_shared_expert_scale mega_demo_dg mega_demo_linear 3 128 = Some ps"
    by (simp add: prepare_shared_expert_scale_def mega_demo_linear_def)
  have b: "sl_weight_block_size mega_demo_linear = Some [2, 64]"
    "\<forall>row \<in> set (sl_scale_rows mega_demo_linear). length row = sl_scale_cols mega_demo_linear"
    by (simp_all add: mega_demo_linear_def)
  from shared_scale_equivalent [OF r b(1) _ _ b(2)] obtain S where ps: "ps = dg_transform_sf mega_demo_dg [S] 3 128 1"
    and S: "\<forall>i < 3. \<forall>c < 128 div 32 * 32. drop_bit 23 (S ! i ! (c div 32))
       = (ucast (sl_scale_rows mega_demo_linear ! (i div 2) ! (c div 64)) :: 32 word)" by auto
  have "drop_bit 23 (S ! 2 ! (100 div 32)) = (125 :: 32 word)"
    using S [rule_format, of 2 100] by (simp add: mega_demo_linear_def)
  with r ps show ?thesis by blast
qed

section \<open>What the loader stores\<close>

text \<open>The rows of an expert after a shard has been copied into them.\<close>

definition shard_rows :: "(w_dtype \<Rightarrow> int \<Rightarrow> int) \<Rightarrow> nat \<Rightarrow> string \<Rightarrow> ckpt_weight \<Rightarrow> int list list \<Rightarrow> int list list" where
  "shard_rows conv n shard_id w rows =
     (if shard_id = ''w2'' then copied_rows conv w
      else set_slice (if shard_id = ''w1'' then 0 else n) (copied_rows conv w) rows)"

text \<open>A parameter and a weight that fit each other, under the parameter's name.\<close>

definition shard_fits :: "nat \<Rightarrow> string \<Rightarrow> string \<Rightarrow> ckpt_weight \<Rightarrow> expert_param \<Rightarrow> bool" where
  "shard_fits n weight_name shard_id w p \<longleftrightarrow>
     cw_cols w = xp_cols p \<and>
     (shard_id \<in> {''w1'', ''w3''} \<and> in_str ''w13_'' weight_name \<and> length (cw_rows w) = n \<and>
        (\<forall>rows \<in> set (xp_data p). length rows = 2 * n)
      \<or> shard_id = ''w2'' \<and> in_str ''w2_'' weight_name \<and> (\<forall>rows \<in> set (xp_data p). length rows = length (cw_rows w)))"

lemma length_copied_rows [simp]: "length (copied_rows conv w) = length (cw_rows w)"
  by (simp add: copied_rows_def)

lemma load_slot_ok:
  assumes "slot < length (xp_data p)" "shard_fits n wn s w p"
  shows "load_slot conv n w wn s slot p
    = Inr (p\<lparr>xp_data := (xp_data p)[slot := shard_rows conv n s w (xp_data p ! slot)]\<rparr>, True)"
  using assms by (auto simp: load_slot_def shard_fits_def shard_rows_def raise_if_def Let_def dest: nth_mem)

lemma shard_fits_step:
  assumes "slot < length (xp_data p)" "shard_fits n wn s w p"
  shows "shard_fits n wn s w (p\<lparr>xp_data := (xp_data p)[slot := shard_rows conv n s w (xp_data p ! slot)]\<rparr>)"
proof -
  have "length (shard_rows conv n s w (xp_data p ! slot)) = length (xp_data p ! slot)"
    using assms by (auto simp: shard_rows_def shard_fits_def)
  then show ?thesis
    using assms by (auto simp: shard_fits_def dest!: subsetD [OF set_update_subset_insert])
qed

lemma load_slots_ok:
  assumes "\<forall>slot \<in> set slots. slot < length (xp_data p)" "shard_fits n wn s w p" "distinct slots"
  shows "\<exists>p'. load_slots conv n w wn s slots p b = Inr (p', b \<or> slots \<noteq> []) \<and> shard_fits n wn s w p'
    \<and> xp_cols p' = xp_cols p \<and> length (xp_data p') = length (xp_data p)
    \<and> (\<forall>j < length (xp_data p). xp_data p' ! j
         = (if j \<in> set slots then shard_rows conv n s w (xp_data p ! j) else xp_data p ! j))"
  using assms
proof (induction slots arbitrary: p b)
  case (Cons slot slots)
  let ?p = "p\<lparr>xp_data := (xp_data p)[slot := shard_rows conv n s w (xp_data p ! slot)]\<rparr>"
  have "\<forall>x \<in> set slots. x < length (xp_data ?p)" "shard_fits n wn s w ?p" "distinct slots"
    using Cons.prems shard_fits_step by simp_all
  from Cons.IH [OF this, of True] obtain p' where "load_slots conv n w wn s slots ?p True = Inr (p', True)"
      "shard_fits n wn s w p'" "xp_cols p' = xp_cols ?p" "length (xp_data p') = length (xp_data ?p)"
      "\<forall>j < length (xp_data ?p). xp_data p' ! j
         = (if j \<in> set slots then shard_rows conv n s w (xp_data ?p ! j) else xp_data ?p ! j)" by auto
  moreover have "load_slot conv n w wn s slot p = Inr (?p, True)" using load_slot_ok Cons.prems by simp
  ultimately show ?case using Cons.prems by (auto simp: nth_list_update)
qed simp

lemma weight_loader_ok:
  assumes "length (xp_data p) = me_experts_end_idx self - me_experts_start_idx self"
    and "shard_fits (me_intermediate_size self) wn s w p"
  shows "\<exists>p'. weight_loader conv self p w wn s e True = Inr (p', Some (map_global_expert_id self e \<noteq> []))
    \<and> xp_cols p' = xp_cols p \<and> length (xp_data p') = length (xp_data p)
    \<and> shard_fits (me_intermediate_size self) wn s w p'
    \<and> (\<forall>j < length (xp_data p). xp_data p' ! j
         = (if (me_experts_start_idx self + j) mod me_num_logical_experts self = e
            then shard_rows conv (me_intermediate_size self) s w (xp_data p ! j) else xp_data p ! j))"
proof -
  let ?ids = "map_global_expert_id self e"
  have ids: "\<forall>x \<in> set ?ids. x < length (xp_data p)"
    using assms(1) by (auto simp: set_map_global_expert_id)
  have mem: "j \<in> set ?ids \<longleftrightarrow> (me_experts_start_idx self + j) mod me_num_logical_experts self = e"
    if "j < length (xp_data p)" for j using that assms(1) by (auto simp: set_map_global_expert_id)
  obtain p' where p': "load_slots conv (me_intermediate_size self) w wn s ?ids p False = Inr (p', ?ids \<noteq> [])"
      "shard_fits (me_intermediate_size self) wn s w p'" "xp_cols p' = xp_cols p" "length (xp_data p') = length (xp_data p)"
      "\<forall>j < length (xp_data p). xp_data p' ! j
         = (if j \<in> set ?ids then shard_rows conv (me_intermediate_size self) s w (xp_data p ! j) else xp_data p ! j)"
    using load_slots_ok [OF ids assms(2) distinct_map_global_expert_id, of conv False] by auto
  show ?thesis
  proof (cases "?ids = []")
    case True
    then show ?thesis using assms(2) mem by (intro exI [of _ p]) (auto simp: weight_loader_def Let_def)
  next
    case False
    then show ?thesis using p' mem by (intro exI [of _ p']) (simp add: weight_loader_def Let_def)
  qed
qed

section \<open>Finalisation happens once\<close>

lemma finalize_routed_result:
  assumes "finalize_routed dg major self = Inr self1"
  shows "me_transformed_l1_weights self1 \<noteq> None" "me_num_shared_experts self1 = me_num_shared_experts self"
    "me_transformed_shared_l1_weights self1 = me_transformed_shared_l1_weights self"
    "me_transformed_l1_weights self = None \<Longrightarrow> major = 10 \<and> me_hidden_size self mod 128 = 0
       \<and> me_intermediate_size self mod 128 = 0 \<and> me_w13_weight self1 = None \<and> me_w2_weight self1 = None"
  using assms
  by (auto simp: finalize_routed_def check_runtime_supported_def raise_if_eq_Inr Let_def
      split: if_splits option.splits prod.splits)

lemma finalize_shared_result:
  assumes "finalize_shared_expert_weights dg self g d = (self1, b)"
  shows "me_transformed_l1_weights self1 = me_transformed_l1_weights self"
    "me_w13_weight self1 = me_w13_weight self" "me_w2_weight self1 = me_w2_weight self"
    "if b then me_transformed_shared_l1_weights self1 \<noteq> None \<and> me_num_shared_experts self1 = me_num_shared_experts self
     else self1 = self\<lparr>me_num_shared_experts := 0\<rparr>"
  using assms
  by (auto simp: finalize_shared_expert_weights_def Let_def split: if_splits option.splits prod.splits)

text \<open>
  Finalisation of the experts is done once and leaves a consistent module.  When it returns, the
  packed weights are there and, if this call packed them, the loader's parameters are gone and the
  device and sizes are the supported ones; calling it again, whatever library or device it then sees,
  changes nothing and cannot raise; and with a shared MLP at hand the count of fused shared experts
  that sizes the symmetric buffer is the module's own count, zero when the serial path is kept.
\<close>

theorem finalize_weights_once:
  assumes res: "finalize_weights dg major self shared = Inr self1"
    and fresh: "me_transformed_shared_l1_weights self = None"
  shows "me_transformed_l1_weights self1 \<noteq> None
    \<and> (me_transformed_l1_weights self = None \<longrightarrow> major = 10 \<and> me_hidden_size self mod 128 = 0
         \<and> me_intermediate_size self mod 128 = 0 \<and> me_w13_weight self1 = None \<and> me_w2_weight self1 = None)
    \<and> (\<forall>dg' major'. finalize_weights dg' major' self1 shared = Inr self1)
    \<and> (shared \<noteq> None \<longrightarrow> fused_shared_count self1 = me_num_shared_experts self1)"
proof -
  obtain s where s: "finalize_routed dg major self = Inr s" using res by (auto simp: finalize_weights_def bind_result_eq_Inr)
  note r = finalize_routed_result [OF s]
  have again: "finalize_routed dg' major' x = Inr x" if "me_transformed_l1_weights x \<noteq> None" for dg' major' x
    using that by (simp add: finalize_routed_def)
  show ?thesis
  proof (cases shared)
    case None
    then have "self1 = s" using res s by (simp add: finalize_weights_def)
    then show ?thesis using r None again by (simp add: finalize_weights_def)
  next
    case (Some gd)
    obtain g d where gd: "gd = (g, d)" by fastforce
    obtain self2 b where fs: "finalize_shared_expert_weights dg s g d = (self2, b)" by fastforce
    have e: "self1 = (if me_num_shared_experts s = 0 then s
        else if \<not> deep_gemm_supports_shared_experts dg then s\<lparr>me_num_shared_experts := 0\<rparr> else self2)"
      using res s r(3) fresh fs by (simp add: finalize_weights_def Some gd split: if_splits)
    have kept: "me_transformed_l1_weights self1 = me_transformed_l1_weights s" "me_w13_weight self1 = me_w13_weight s"
        "me_w2_weight self1 = me_w2_weight s"
      using e finalize_shared_result(1-3) [OF fs] by auto
    have settled: "me_num_shared_experts self1 = 0 \<or> me_transformed_shared_l1_weights self1 \<noteq> None"
      using e finalize_shared_result(4) [OF fs] by (auto split: if_splits)
    have "finalize_weights dg' major' self1 shared = Inr self1" for dg' major'
      using again [of self1] kept(1) r(1) settled by (auto simp: finalize_weights_def Some gd)
    moreover have "fused_shared_count self1 = me_num_shared_experts self1"
      using settled by (auto simp: fused_shared_count_def has_fused_shared_experts_def)
    ultimately show ?thesis using kept r by simp
  qed
qed

text \<open>A module of the smallest supported size with one shared expert.\<close>

definition mega_demo_big :: mega_experts where
  "mega_demo_big = fst (projr (init_mega_moe_experts
     (mega_demo_setup\<lparr>mo_hidden_size := 128, mo_moe_intermediate_size := 128\<rparr>) [] 3 0 ''layers.0.ffn''))"

theorem finalize_weights_once_witness:
  "\<exists>self1. finalize_weights mega_demo_dg 10 mega_demo_big (Some (mega_demo_linear, mega_demo_linear)) = Inr self1
    \<and> finalize_weights mega_demo_dg 9 self1 (Some (mega_demo_linear, mega_demo_linear)) = Inr self1"
proof -
  have f: "me_transformed_l1_weights mega_demo_big = None" "me_transformed_shared_l1_weights mega_demo_big = None"
      "me_hidden_size mega_demo_big = 128" "me_intermediate_size mega_demo_big = 128"
      "me_w13_weight mega_demo_big \<noteq> None" "me_w13_weight_scale mega_demo_big \<noteq> None"
      "me_w2_weight mega_demo_big \<noteq> None" "me_w2_weight_scale mega_demo_big \<noteq> None"
    unfolding mega_demo_big_def init_mega_moe_experts_def expert_placement_def mega_init_def mega_demo_setup_def
    by (simp_all add: Let_def)
  have "\<exists>s. finalize_routed mega_demo_dg 10 mega_demo_big = Inr s"
    using f by (auto simp: finalize_routed_def check_runtime_supported_def Let_def split: prod.splits)
  then have "\<exists>self1. finalize_weights mega_demo_dg 10 mega_demo_big (Some (mega_demo_linear, mega_demo_linear)) = Inr self1"
    by (auto simp: finalize_weights_def split: if_split)
  then obtain self1 where r:
      "finalize_weights mega_demo_dg 10 mega_demo_big (Some (mega_demo_linear, mega_demo_linear)) = Inr self1" by blast
  from finalize_weights_once [OF r f(2)] r show ?thesis by blast
qed

end
