(* ===== verification/WeightLoading.thy ===== *)
theory WeightLoading
  imports MegaExperts "HOL-Library.AList"
begin

text \<open>
  \<^verbatim>\<open>DeepseekV4Model.load_weights\<close> of \<^verbatim>\<open>src/docker/overlay-54631-image/vllm/models/deepseek_v4/nvidia/model.py\<close>,
  with the padding of the shared experts and the expert mapping: the loop over the checkpoint's
  tensors that finds, by name, the parameter each of them belongs to.

  The parameters are a dictionary from names to tensors.  The loaders that vLLM attaches to ordinary
  parameters, and the test for parameters of another pipeline stage, are library code: the record
  \<open>load_env\<close>.
\<close>

section \<open>Names\<close>

text \<open>Python's decimal notation, \<^verbatim>\<open>endswith\<close> and \<^verbatim>\<open>rpartition(".")\<close>.\<close>

fun nat_str :: "nat \<Rightarrow> string" where
  "nat_str n = (if n < 10 then [char_of (48 + n)] else nat_str (n div 10) @ [char_of (48 + n mod 10)])"

declare nat_str.simps [simp del]

definition endswith :: "string \<Rightarrow> string \<Rightarrow> bool" where
  "endswith s x = is_prefix (rev x) (rev s)"

definition rpartition_dot :: "string \<Rightarrow> string \<times> string" where
  "rpartition_dot s =
     (let leaf = rev (takeWhile (\<lambda>c. c \<noteq> CHR ''.'') (rev s)) in (take (length s - length leaf - 1) s, leaf))"

section \<open>The shared experts' padding\<close>

text \<open>The intermediate size \<^verbatim>\<open>DeepseekV4MLP\<close> is built with.\<close>

definition mlp_intermediate_size :: "nat option \<Rightarrow> bool \<Rightarrow> nat \<Rightarrow> nat \<Rightarrow> nat" where
  "mlp_intermediate_size block_size is_sequence_parallel tp_size intermediate_size =
     (case block_size of
        None \<Rightarrow> intermediate_size
      | Some b \<Rightarrow> if is_sequence_parallel then intermediate_size
                  else cdiv (intermediate_size div b) tp_size * b * tp_size)"

definition pad_shared_expert_weight :: "nat \<Rightarrow> nat \<Rightarrow> string \<Rightarrow> ckpt_weight \<Rightarrow> ckpt_weight" where
  "pad_shared_expert_weight tp_size block_size name w =
     (let step = (if endswith name ''weight_scale_inv'' then 1 else block_size);
          mult = tp_size * step
      in if in_str ''.down_proj.'' name then
           let pad = cdiv (cw_cols w) mult * mult - cw_cols w
           in if pad = 0 then w
              else w\<lparr>cw_rows := map (\<lambda>r. r @ replicate pad 0) (cw_rows w), cw_cols := cw_cols w + pad\<rparr>
         else
           let n = length (cw_rows w); pad = cdiv n mult * mult - n
           in if pad = 0 then w else w\<lparr>cw_rows := cw_rows w @ replicate pad (replicate (cw_cols w) 0)\<rparr>)"

section \<open>Mappings\<close>

definition stacked_params_mapping :: "(string \<times> string \<times> nat) list" where
  "stacked_params_mapping =
     [(''gate_up_proj'', ''w1'', 0), (''gate_up_proj'', ''w3'', 1),
      (''attn.fused_wqa_wkv'', ''attn.wq_a'', 0), (''attn.fused_wqa_wkv'', ''attn.wkv'', 1),
      (''compressor.fused_wkv_wgate'', ''compressor.wkv'', 0), (''compressor.fused_wkv_wgate'', ''compressor.wgate'', 1)]"

definition make_deepseek_v4_expert_params_mapping :: "nat \<Rightarrow> (string \<times> string \<times> nat \<times> string) list" where
  "make_deepseek_v4_expert_params_mapping num_experts =
     concat (map (\<lambda>expert_id. map (\<lambda>shard_id.
         (if shard_id \<in> {''w1'', ''w3''} then ''experts.w13_'' else ''experts.w2_'',
          ''experts.'' @ nat_str expert_id @ ''.'' @ shard_id @ ''.'', expert_id, shard_id))
       [''w1'', ''w2'', ''w3'']) [0..<num_experts])"

section \<open>Loading\<close>

datatype model_param = ExpertParam expert_param | TensorParam ckpt_weight

type_synonym params = "(string \<times> model_param) list"

record load_env =
  le_pp_missing :: "string \<Rightarrow> bool"
  le_stacked_loader :: "string \<Rightarrow> model_param \<Rightarrow> ckpt_weight \<Rightarrow> nat \<Rightarrow> model_param result"
  le_plain_loader :: "string \<Rightarrow> model_param \<Rightarrow> ckpt_weight \<Rightarrow> model_param result"
  le_expert_loader :: "model_param \<Rightarrow> ckpt_weight \<Rightarrow> string \<Rightarrow> string \<Rightarrow> nat \<Rightarrow> (model_param \<times> bool) result"
  le_expert_mapping :: "(string \<times> string \<times> nat \<times> string) list"
  le_pad :: "nat option"
  le_tp_size :: nat
  le_tp_rank :: nat
  le_num_attention_heads :: nat

text \<open>\<open>ls_name_mapped\<close> is the local variable of the expert loop, which outlives an iteration.\<close>

record load_state =
  ls_params :: params
  ls_loaded :: "string list"
  ls_name_mapped :: "string option"

definition find_stacked :: "string \<Rightarrow> (string \<times> string \<times> nat) option" where
  "find_stacked name =
     (if in_str ''.experts.'' name then None
      else find (\<lambda>(param_name, weight_name, shard_id). in_str weight_name name) stacked_params_mapping)"

definition base_layer_name :: "params \<Rightarrow> string \<Rightarrow> string" where
  "base_layer_name ps name =
     (if map_of ps name \<noteq> None then name
      else let (h, leaf) = rpartition_dot name; suffixed = h @ ''.base_layer.'' @ leaf
           in if map_of ps suffixed \<noteq> None then suffixed else name)"

definition put_param :: "string \<Rightarrow> model_param \<Rightarrow> load_state \<Rightarrow> load_state" where
  "put_param name p st = st\<lparr>ls_params := AList.update name p (ls_params st)\<rparr>"

definition mark_loaded :: "string \<Rightarrow> load_state \<Rightarrow> load_state" where
  "mark_loaded name st = st\<lparr>ls_loaded := List.insert name (ls_loaded st)\<rparr>"

definition load_stacked :: "load_env \<Rightarrow> string \<Rightarrow> nat \<Rightarrow> ckpt_weight \<Rightarrow> load_state \<Rightarrow> load_state result" where
  "load_stacked env name shard_id w st =
     (if le_pp_missing env name then Inr st
      else let n = base_layer_name (ls_params st) name
           in (case map_of (ls_params st) n of
                 None \<Rightarrow> Inl (KeyError n)
               | Some p \<Rightarrow> bind_result (le_stacked_loader env n p w shard_id) (\<lambda>p'. Inr (mark_loaded n (put_param n p' st)))))"

fun expert_loop ::
  "load_env \<Rightarrow> string \<Rightarrow> ckpt_weight \<Rightarrow> (string \<times> string \<times> nat \<times> string) list \<Rightarrow> load_state \<Rightarrow> load_state result" where
  "expert_loop env name w [] st = Inr st"
| "expert_loop env name w ((param_name, weight_name, expert_id, shard_id) # rest) st =
     (if \<not> in_str weight_name name then expert_loop env name w rest st
      else
        let name_mapped = str_replace weight_name param_name name;
            st1 = st\<lparr>ls_name_mapped := Some name_mapped\<rparr>
        in if le_pp_missing env name_mapped then expert_loop env name w rest st1
           else (case map_of (ls_params st1) name_mapped of
                   None \<Rightarrow> Inl (KeyError name_mapped)
                 | Some p \<Rightarrow>
                     bind_result (le_expert_loader env p w name_mapped shard_id expert_id) (\<lambda>(p', success).
                       let st2 = put_param name_mapped p' st1
                       in if success then Inr st2 else expert_loop env name w rest st2)))"

text \<open>A scale of type E8M0 is read as raw bytes.\<close>

definition view_e8m0 :: "string \<Rightarrow> ckpt_weight \<Rightarrow> ckpt_weight" where
  "view_e8m0 name w =
     (if in_str ''weight_scale'' name \<and> cw_dtype w = W_float8_e8m0fnu then w\<lparr>cw_dtype := W_uint8\<rparr> else w)"

definition load_expert :: "load_env \<Rightarrow> string \<Rightarrow> ckpt_weight \<Rightarrow> load_state \<Rightarrow> load_state result" where
  "load_expert env name w st =
     bind_result (expert_loop env name (view_e8m0 name w) (le_expert_mapping env) st) (\<lambda>st'.
       (case ls_name_mapped st' of
          None \<Rightarrow> Inl (UnboundLocalError ''name_mapped'')
        | Some n \<Rightarrow> Inr (mark_loaded n st')))"

text \<open>The attention sinks: the heads of this rank, copied to the front of the parameter.\<close>

definition load_sink :: "load_env \<Rightarrow> string \<Rightarrow> ckpt_weight \<Rightarrow> load_state \<Rightarrow> load_state result" where
  "load_sink env name w st =
     (if le_pp_missing env name then Inr st
      else
        let n_local_head = le_num_attention_heads env div le_tp_size env;
            narrow_rows = pyslice (n_local_head * le_tp_rank env) (n_local_head * (le_tp_rank env + 1)) (cw_rows w)
        in (case map_of (ls_params st) name of
              Some (TensorParam p) \<Rightarrow>
                raise_if (length (cw_rows p) < length narrow_rows) (RuntimeError ''The size of tensors must match'')
                  (Inr (mark_loaded name (put_param name
                     (TensorParam (p\<lparr>cw_rows := set_slice 0 narrow_rows (cw_rows p)\<rparr>)) st)))
            | Some (ExpertParam p) \<Rightarrow> Inl (RuntimeError ''The size of tensors must match'')
            | None \<Rightarrow> Inl (KeyError name)))"

definition load_plain :: "load_env \<Rightarrow> string \<Rightarrow> ckpt_weight \<Rightarrow> load_state \<Rightarrow> load_state result" where
  "load_plain env name w st =
     (if le_pp_missing env name then Inr st
      else let n = base_layer_name (ls_params st) name
           in (case map_of (ls_params st) n of
                 None \<Rightarrow> Inl (KeyError n)
               | Some p \<Rightarrow> bind_result (le_plain_loader env n p w) (\<lambda>p'. Inr (mark_loaded n (put_param n p' st)))))"

definition load_one :: "load_env \<Rightarrow> string \<times> ckpt_weight \<Rightarrow> load_state \<Rightarrow> load_state result" where
  "load_one env nw st =
     (let name = fst nw;
          w = (case le_pad env of
                 Some b \<Rightarrow> if in_str ''.shared_experts.'' name then pad_shared_expert_weight (le_tp_size env) b name (snd nw)
                           else snd nw
               | None \<Rightarrow> snd nw)
      in (case find_stacked name of
            Some (param_name, weight_name, shard_id) \<Rightarrow>
              load_stacked env (str_replace weight_name param_name name) shard_id w st
          | None \<Rightarrow>
              if in_str ''.experts.'' name then load_expert env name w st
              else if in_str ''attn_sink'' name then load_sink env name w st
              else load_plain env name w st))"

fun load_all :: "load_env \<Rightarrow> (string \<times> ckpt_weight) list \<Rightarrow> load_state \<Rightarrow> load_state result" where
  "load_all env [] st = Inr st"
| "load_all env (nw # nws) st = bind_result (load_one env nw st) (load_all env nws)"

definition load_weights :: "load_env \<Rightarrow> (string \<times> ckpt_weight) list \<Rightarrow> params \<Rightarrow> (string list \<times> params) result" where
  "load_weights env weights ps =
     bind_result (load_all env weights \<lparr>ls_params = ps, ls_loaded = [], ls_name_mapped = None\<rparr>)
       (\<lambda>st. Inr (ls_loaded st, ls_params st))"

text \<open>The loader of MegaMoE's expert parameters, as \<^verbatim>\<open>load_weights\<close> calls it.\<close>

definition mega_expert_loader ::
  "(w_dtype \<Rightarrow> int \<Rightarrow> int) \<Rightarrow> mega_experts \<Rightarrow> model_param \<Rightarrow> ckpt_weight \<Rightarrow> string \<Rightarrow> string \<Rightarrow> nat \<Rightarrow> (model_param \<times> bool) result" where
  "mega_expert_loader conv self p w weight_name shard_id expert_id =
     (case p of
        ExpertParam xp \<Rightarrow>
          bind_result (weight_loader conv self xp w weight_name shard_id expert_id True)
            (\<lambda>(xp', ok). Inr (ExpertParam xp', ok = Some True))
      | TensorParam _ \<Rightarrow> Inl (AttributeError ''no weight_loader''))"

section \<open>The padding fits the layer\<close>

lemma concat_slices:
  "concat (map (\<lambda>r. pyslice (r * n) ((r + 1) * n) xs) [0..<k]) = take (k * n) xs"
proof (induction k)
  case (Suc k)
  have "take (Suc k * n) xs = take (k * n) xs @ take n (drop (k * n) xs)"
    using take_add [of "k * n" n xs] by (simp add: add.commute)
  with Suc show ?case by (simp add: pyslice_def)
qed simp

text \<open>Where rounding the size and rounding the block count differ: a partial block after full shares.\<close>

lemma cdiv_eq_div: "0 < c \<Longrightarrow> cdiv a c = a div c + (if a mod c = 0 then 0 else 1)"
proof -
  assume c: "0 < c"
  have "a + c - 1 = a div c * c + (a mod c + c - 1)" using c by simp
  then have "cdiv a c = a div c + (a mod c + c - 1) div c"
    unfolding cdiv_def using c by (metis div_mult_self3 mult.commute add.commute less_not_refl)
  moreover have "(a mod c + c - 1) div c = (if a mod c = 0 then 0 else 1)"
  proof (cases "a mod c = 0")
    case False
    have "a mod c + c - 1 = c + (a mod c - 1)" using False by simp
    moreover have "(c + (a mod c - 1)) div c = 1" using c False by (intro div_nat_eqI) (auto simp: less_imp_diff_less)
    ultimately show ?thesis using False by simp
  qed (use c in simp)
  ultimately show ?thesis by simp
qed

lemma cdiv_blocks:
  assumes "0 < tp" "0 < b"
  shows "cdiv I (tp * b) = cdiv (I div b) tp \<longleftrightarrow> I mod b = 0 \<or> I div b mod tp \<noteq> 0"
proof -
  have d: "I div (tp * b) = I div b div tp" by (simp add: div_mult2_eq mult.commute)
  have m: "I mod (tp * b) = b * (I div b mod tp) + I mod b" by (simp add: mod_mult2_eq mult.commute)
  show ?thesis using assms by (auto simp: cdiv_eq_div d m)
qed

lemma pad_rows:
  assumes "\<not> in_str ''.down_proj.'' name" "0 < tp" "0 < b"
  defines "mult \<equiv> tp * (if endswith name ''weight_scale_inv'' then 1 else b)"
  shows "cw_rows (pad_shared_expert_weight tp b name w)
    = cw_rows w @ replicate (cdiv (length (cw_rows w)) mult * mult - length (cw_rows w)) (replicate (cw_cols w) 0)"
    and "length (cw_rows (pad_shared_expert_weight tp b name w)) = cdiv (length (cw_rows w)) mult * mult"
proof -
  show r: "cw_rows (pad_shared_expert_weight tp b name w)
    = cw_rows w @ replicate (cdiv (length (cw_rows w)) mult * mult - length (cw_rows w)) (replicate (cw_cols w) 0)"
    using assms(1) by (auto simp: pad_shared_expert_weight_def Let_def mult_def)
  have "0 < mult" using assms(2,3) by (simp add: mult_def)
  from cdiv_mult_ge [OF this] show "length (cw_rows (pad_shared_expert_weight tp b name w)) = cdiv (length (cw_rows w)) mult * mult"
    by (simp add: r)
qed

lemma pad_cols:
  assumes "in_str ''.down_proj.'' name" "0 < tp" "0 < b"
  defines "mult \<equiv> tp * (if endswith name ''weight_scale_inv'' then 1 else b)"
  shows "cw_cols (pad_shared_expert_weight tp b name w) = cdiv (cw_cols w) mult * mult"
    and "length (cw_rows (pad_shared_expert_weight tp b name w)) = length (cw_rows w)"
proof -
  have "0 < mult" using assms(2,3) by (simp add: mult_def)
  from cdiv_mult_ge [OF this, of "cw_cols w"] show "cw_cols (pad_shared_expert_weight tp b name w) = cdiv (cw_cols w) mult * mult"
    using assms(1) by (simp add: pad_shared_expert_weight_def Let_def mult_def)
  show "length (cw_rows (pad_shared_expert_weight tp b name w)) = length (cw_rows w)"
    using assms(1) by (simp add: pad_shared_expert_weight_def Let_def)
qed

text \<open>
  The padding of the shared experts is the one the layer was built for.  A gate or up weight is
  padded to exactly the intermediate size of the layer if and only if its size is a whole number of
  blocks or the whole blocks do not divide evenly among the ranks.  For a whole number of blocks, the
  down weight and both kinds of scales are padded to the matching sizes, the shares of the ranks are
  block-aligned, and put together they are the weight followed by zero rows.
\<close>

theorem shared_padding_matches_layer:
  fixes w s v :: ckpt_weight
  assumes pos: "0 < tp" "0 < b"
    and up: "\<not> in_str ''.down_proj.'' up" "\<not> endswith up ''weight_scale_inv''"
    and ups: "\<not> in_str ''.down_proj.'' ups" "endswith ups ''weight_scale_inv''"
    and dn: "in_str ''.down_proj.'' dn" "\<not> endswith dn ''weight_scale_inv''"
  defines "I \<equiv> length (cw_rows w)" and "P \<equiv> pad_shared_expert_weight tp b up w"
  defines "size' \<equiv> mlp_intermediate_size (Some b) False tp I"
  shows "(length (cw_rows P) = size' \<longleftrightarrow> I mod b = 0 \<or> I div b mod tp \<noteq> 0)
    \<and> (I mod b = 0 \<longrightarrow>
         b dvd size' div tp
       \<and> (length (cw_rows s) = I div b \<longrightarrow> length (cw_rows (pad_shared_expert_weight tp b ups s)) * b = size')
       \<and> (cw_cols v = I \<longrightarrow> cw_cols (pad_shared_expert_weight tp b dn v) = size')
       \<and> concat (map (\<lambda>r. pyslice (r * (size' div tp)) ((r + 1) * (size' div tp)) (cw_rows P)) [0..<tp])
           = cw_rows w @ replicate (size' - I) (replicate (cw_cols w) 0))"
proof -
  have sz: "size' = cdiv (I div b) tp * (tp * b)" by (simp add: size'_def mlp_intermediate_size_def)
  have len: "length (cw_rows P) = cdiv I (tp * b) * (tp * b)"
    using pad_rows(2) [OF up(1) pos, of w] up(2) by (simp add: P_def I_def)
  have iff: "length (cw_rows P) = size' \<longleftrightarrow> I mod b = 0 \<or> I div b mod tp \<noteq> 0"
    unfolding len sz using pos cdiv_blocks [OF pos, of I] by simp
  have share: "size' div tp = cdiv (I div b) tp * b" "tp * (size' div tp) = size'" using pos by (simp_all add: sz)
  have whole: "b dvd size' div tp
       \<and> (length (cw_rows s) = I div b \<longrightarrow> length (cw_rows (pad_shared_expert_weight tp b ups s)) * b = size')
       \<and> (cw_cols v = I \<longrightarrow> cw_cols (pad_shared_expert_weight tp b dn v) = size')
       \<and> concat (map (\<lambda>r. pyslice (r * (size' div tp)) ((r + 1) * (size' div tp)) (cw_rows P)) [0..<tp])
           = cw_rows w @ replicate (size' - I) (replicate (cw_cols w) 0)" if "I mod b = 0"
  proof (intro conjI impI)
    have lp: "length (cw_rows P) = size'" using iff that by blast
    show "b dvd size' div tp" by (simp add: share(1))
    show "length (cw_rows (pad_shared_expert_weight tp b ups s)) * b = size'" if "length (cw_rows s) = I div b"
      using pad_rows(2) [OF ups(1) pos, of s] ups(2) that by (simp add: sz mult.assoc)
    show "cw_cols (pad_shared_expert_weight tp b dn v) = size'" if "cw_cols v = I"
      using pad_cols(1) [OF dn(1) pos, of v] dn(2) that len lp by simp
    have "concat (map (\<lambda>r. pyslice (r * (size' div tp)) ((r + 1) * (size' div tp)) (cw_rows P)) [0..<tp]) = cw_rows P"
      unfolding concat_slices share(2) by (simp add: lp)
    also have "cw_rows P = cw_rows w @ replicate (size' - I) (replicate (cw_cols w) 0)"
      using pad_rows(1) [OF up(1) pos, of w] up(2) len lp by (simp add: P_def I_def)
    finally show "concat (map (\<lambda>r. pyslice (r * (size' div tp)) ((r + 1) * (size' div tp)) (cw_rows P)) [0..<tp])
       = cw_rows w @ replicate (size' - I) (replicate (cw_cols w) 0)" .
  qed
  show ?thesis using iff whole by blast
qed

definition pad_demo_weight :: ckpt_weight where
  "pad_demo_weight = \<lparr>cw_dtype = W_float8_e4m3fn, cw_rows = [[1], [2], [3], [4], [5], [6]], cw_cols = 1\<rparr>"

theorem shared_padding_matches_layer_witness:
  "mlp_intermediate_size (Some 2) False 2 6 = 8
   \<and> length (cw_rows (pad_shared_expert_weight 2 2 ''layers.0.ffn.shared_experts.w1.weight'' pad_demo_weight)) = 8"
proof -
  have n: "\<not> in_str ''.down_proj.'' ''layers.0.ffn.shared_experts.w1.weight''"
    "\<not> endswith ''layers.0.ffn.shared_experts.w1.weight'' ''weight_scale_inv''"
    "\<not> in_str ''.down_proj.'' ''layers.0.ffn.shared_experts.w1.weight_scale_inv''"
    "endswith ''layers.0.ffn.shared_experts.w1.weight_scale_inv'' ''weight_scale_inv''"
    "in_str ''.down_proj.'' ''layers.0.ffn.shared_experts.down_proj.weight''"
    "\<not> endswith ''layers.0.ffn.shared_experts.down_proj.weight'' ''weight_scale_inv''"
    by (simp_all add: endswith_def)
  have s: "mlp_intermediate_size (Some 2) False 2 6 = 8" by (simp add: mlp_intermediate_size_def cdiv_def)
  have l: "length (cw_rows pad_demo_weight) = 6" by (simp add: pad_demo_weight_def)
  show ?thesis
    using shared_padding_matches_layer [OF _ _ n, of 2 2 pad_demo_weight pad_demo_weight pad_demo_weight] s
    unfolding l by simp
qed

section \<open>The names of the experts' tensors\<close>

text \<open>A decimal numeral has only digits, and different numbers have different numerals.\<close>

definition digit :: "char \<Rightarrow> bool" where
  "digit c \<longleftrightarrow> 48 \<le> (of_char c :: nat) \<and> (of_char c :: nat) \<le> 57"

lemma digits_nat_str: "c \<in> set (nat_str n) \<Longrightarrow> digit c"
proof (induction n rule: nat_str.induct)
  case (1 n)
  have d: "digit (char_of (48 + k))" if "k < 10" for k :: nat
    using that by (simp add: digit_def of_char_of take_bit_nat_eq_self_iff)
  show ?case
    using "1" d [of n] d [of "n mod 10"] by (subst (asm) (2) nat_str.simps) (auto split: if_splits)
qed

lemma not_digit: "\<not> digit CHR ''.''" "\<not> digit CHR ''e''" "\<not> digit CHR ''w''" "\<not> digit CHR ''s''"
  by (simp_all add: digit_def of_char_def)

fun str_nat :: "string \<Rightarrow> nat \<Rightarrow> nat" where
  "str_nat [] acc = acc"
| "str_nat (c # cs) acc = str_nat cs (10 * acc + (of_char c - 48))"

lemma str_nat_append: "str_nat (xs @ ys) acc = str_nat ys (str_nat xs acc)"
  by (induction xs arbitrary: acc) auto

lemma str_nat_nat_str: "str_nat (nat_str n) 0 = n"
proof (induction n rule: nat_str.induct)
  case (1 n)
  have d: "(of_char (char_of (48 + k) :: char) :: nat) = 48 + k" if "k < 10" for k
    using that by (simp add: of_char_of take_bit_nat_eq_self_iff)
  show ?case
  proof (cases "n < 10")
    case True
    then show ?thesis by (subst nat_str.simps) (simp add: d)
  next
    case False
    then show ?thesis using "1" by (subst nat_str.simps) (simp add: str_nat_append d)
  qed
qed

lemma nat_str_inject [simp]: "nat_str m = nat_str n \<longleftrightarrow> m = n"
  by (metis str_nat_nat_str)

lemma is_prefix_digits:
  "\<forall>c \<in> set a. digit c \<Longrightarrow> \<forall>c \<in> set b. digit c \<Longrightarrow>
   is_prefix (a @ CHR ''.'' # x) (b @ CHR ''.'' # y) \<longleftrightarrow> a = b \<and> is_prefix x y"
proof (induction a arbitrary: b)
  case Nil
  then show ?case using not_digit by (cases b) auto
next
  case (Cons c a)
  then show ?case using not_digit by (cases b) auto
qed

lemma in_str_skip: "c \<notin> set a \<Longrightarrow> in_str (c # x) (a @ b) = in_str (c # x) b"
  by (induction a) auto

lemma str_replace_skip: "c \<notin> set a \<Longrightarrow> str_replace (c # x) y (a @ b) = a @ str_replace (c # x) y b"
  by (induction a) (simp_all add: str_replace.simps [of _ _ "_ # _"])

lemma no_e: "CHR ''e'' \<notin> set (nat_str n)"
  using digits_nat_str not_digit by blast

definition expert_shards :: "string list" where
  "expert_shards = [''w1'', ''w2'', ''w3'']"

definition expert_tensor_name :: "nat \<Rightarrow> nat \<Rightarrow> string \<Rightarrow> string \<Rightarrow> string" where
  "expert_tensor_name i e s leaf = ''layers.'' @ nat_str i @ ''.ffn.experts.'' @ nat_str e @ ''.'' @ s @ ''.'' @ leaf"

definition expert_param_name :: "nat \<Rightarrow> string \<Rightarrow> string \<Rightarrow> string" where
  "expert_param_name i s leaf =
     ''layers.'' @ nat_str i @ ''.ffn.'' @ (if s \<in> {''w1'', ''w3''} then ''experts.w13_'' else ''experts.w2_'') @ leaf"

lemma prefix_experts:
  "is_prefix (nat_str e' @ CHR ''.'' # x) (nat_str e @ CHR ''.'' # y) \<longleftrightarrow> e' = e \<and> is_prefix x y"
  using is_prefix_digits [of "nat_str e'" "nat_str e"] digits_nat_str by auto

lemma expert_name_match:
  assumes "s \<in> set expert_shards" "s' \<in> set expert_shards" "leaf \<in> {''weight'', ''weight_scale''}"
  shows "in_str (''experts.'' @ nat_str e' @ ''.'' @ s' @ ''.'') (expert_tensor_name i e s leaf) \<longleftrightarrow> e' = e \<and> s' = s"
  using assms
  by (auto simp: expert_tensor_name_def expert_shards_def in_str_skip [OF no_e] prefix_experts)

lemma expert_name_replace:
  assumes "s \<in> set expert_shards" "leaf \<in> {''weight'', ''weight_scale''}"
  shows "str_replace (''experts.'' @ nat_str e @ ''.'' @ s @ ''.'') pn (expert_tensor_name i e s leaf)
    = ''layers.'' @ nat_str i @ ''.ffn.'' @ pn @ leaf"
proof -
  have p: "is_prefix (s @ ''.'') (s @ CHR ''.'' # leaf)" using is_prefix_append [of "s @ ''.''" leaf] by simp
  have leaf: "str_replace (''experts.'' @ x) pn leaf = leaf" for x
    using assms(2) by (auto simp: str_replace.simps)
  have "str_replace (''experts.'' @ nat_str e @ ''.'' @ s @ ''.'') pn (''experts.'' @ nat_str e @ ''.'' @ s @ ''.'' @ leaf)
      = pn @ leaf"
    by (subst str_replace.simps) (simp add: prefix_experts p leaf [simplified])
  then show ?thesis
    by (simp add: expert_tensor_name_def str_replace.simps [of _ _ "_ # _"] str_replace_skip [OF no_e])
qed

section \<open>The loop finds the one entry\<close>

lemma mapping_entry:
  "(pn, wn, e, s) \<in> set (make_deepseek_v4_expert_params_mapping L) \<longleftrightarrow>
   e < L \<and> s \<in> set expert_shards \<and> wn = ''experts.'' @ nat_str e @ ''.'' @ s @ ''.''
   \<and> pn = (if s \<in> {''w1'', ''w3''} then ''experts.w13_'' else ''experts.w2_'')"
  by (auto simp: make_deepseek_v4_expert_params_mapping_def expert_shards_def)

lemma mapping_distinct: "distinct (map (\<lambda>x. snd (snd x)) (make_deepseek_v4_expert_params_mapping L))"
proof -
  have "map (\<lambda>x. snd (snd x)) (make_deepseek_v4_expert_params_mapping L) = List.product [0..<L] expert_shards"
    by (simp add: make_deepseek_v4_expert_params_mapping_def map_concat comp_def expert_shards_def product_concat_map)
  then show ?thesis by (simp add: distinct_product expert_shards_def)
qed

lemma expert_loop_skip:
  "\<forall>(pn, wn, e, s) \<in> set pre. \<not> in_str wn name \<Longrightarrow> expert_loop env name w (pre @ rest) st = expert_loop env name w rest st"
  by (induction pre) (auto split: prod.splits)

lemma expert_loop_one:
  assumes "e < L" "s \<in> set expert_shards" "leaf \<in> {''weight'', ''weight_scale''}"
    and "\<not> le_pp_missing env (expert_param_name i s leaf)" "map_of (ls_params st) (expert_param_name i s leaf) = Some p"
    and "le_expert_loader env p w (expert_param_name i s leaf) s e = Inr (p', ok)"
  shows "expert_loop env (expert_tensor_name i e s leaf) w (make_deepseek_v4_expert_params_mapping L) st
    = Inr (put_param (expert_param_name i s leaf) p' (st\<lparr>ls_name_mapped := Some (expert_param_name i s leaf)\<rparr>))"
proof -
  let ?name = "expert_tensor_name i e s leaf" and ?M = "make_deepseek_v4_expert_params_mapping L"
  define pn where "pn = (if s \<in> {''w1'', ''w3''} then ''experts.w13_'' else ''experts.w2_'')"
  define wn where "wn = ''experts.'' @ nat_str e @ ''.'' @ s @ ''.''"
  have "(pn, wn, e, s) \<in> set ?M" using assms(1,2) by (simp add: mapping_entry pn_def wn_def)
  then obtain pre post where m: "?M = pre @ (pn, wn, e, s) # post" by (meson split_list)
  have other: "\<not> in_str wn' ?name" if "(pn', wn', e', s') \<in> set pre \<union> set post" for pn' wn' e' s'
  proof -
    have "(e, s) \<notin> (\<lambda>x. snd (snd x)) ` (set pre \<union> set post)"
      using mapping_distinct [of L] unfolding m by auto
    then have "(e', s') \<noteq> (e, s)" using that by force
    moreover have "(pn', wn', e', s') \<in> set ?M" using that m by auto
    ultimately show ?thesis using expert_name_match [OF assms(2) _ assms(3)] by (auto simp: mapping_entry)
  qed
  have here: "in_str wn ?name" "str_replace wn pn ?name = expert_param_name i s leaf"
    using expert_name_match [OF assms(2,2,3)] expert_name_replace [OF assms(2,3)]
    by (simp_all add: wn_def pn_def expert_param_name_def)
  have pre: "\<forall>(pn, wn, e, s) \<in> set pre. \<not> in_str wn ?name" and post: "\<forall>(pn, wn, e, s) \<in> set post. \<not> in_str wn ?name"
    using other by blast+
  show ?thesis
    unfolding m expert_loop_skip [OF pre]
    using here assms(4-6) expert_loop_skip [OF post, of env w "[]"] by (simp add: Let_def)
qed

text \<open>Where \<^verbatim>\<open>load_weights\<close> sends such a tensor.\<close>

lemma no_dot_w: "CHR ''.'' \<notin> set (nat_str n)" "CHR ''w'' \<notin> set (nat_str n)"
  using digits_nat_str not_digit by blast+

lemma not_prefix_nat_str: "\<not> digit c \<Longrightarrow> \<not> is_prefix (c # x) (nat_str n @ y)"
proof -
  assume c: "\<not> digit c"
  have "nat_str n \<noteq> []" by (subst nat_str.simps) simp
  then show ?thesis using c digits_nat_str [of "hd (nat_str n)" n] by (cases "nat_str n") auto
qed

lemma expert_name_kind:
  assumes "s \<in> set expert_shards" "leaf \<in> {''weight'', ''weight_scale''}"
  shows "in_str ''.experts.'' (expert_tensor_name i e s leaf)" "\<not> in_str ''.shared_experts.'' (expert_tensor_name i e s leaf)"
    "in_str ''weight_scale'' (expert_tensor_name i e s leaf) \<longleftrightarrow> leaf = ''weight_scale''"
  using assms by (auto simp: expert_tensor_name_def expert_shards_def in_str_skip [OF no_dot_w(1)] in_str_skip [OF no_dot_w(2)]
      not_prefix_nat_str [OF not_digit(4)])

lemma load_one_expert:
  assumes "e < L" "s \<in> set expert_shards" "leaf \<in> {''weight'', ''weight_scale''}"
    and "\<not> le_pp_missing env (expert_param_name i s leaf)" "map_of (ls_params st) (expert_param_name i s leaf) = Some p"
    and "le_expert_mapping env = make_deepseek_v4_expert_params_mapping L"
    and "le_expert_loader env p (view_e8m0 (expert_tensor_name i e s leaf) w) (expert_param_name i s leaf) s e = Inr (p', ok)"
  shows "load_one env (expert_tensor_name i e s leaf, w) st
    = Inr (mark_loaded (expert_param_name i s leaf) (put_param (expert_param_name i s leaf) p'
        (st\<lparr>ls_name_mapped := Some (expert_param_name i s leaf)\<rparr>)))"
  using expert_name_kind [OF assms(2,3), of i e] expert_loop_one [OF assms(1-5,7)] assms(6)
  by (simp add: load_one_def load_expert_def find_stacked_def Let_def put_param_def split: option.split)

section \<open>Every slot gets its expert\<close>

text \<open>The tensors of a layer's experts, each of the shape its parameter calls for, as raw bytes.\<close>

definition expert_ckpt_ok :: "nat \<Rightarrow> nat \<Rightarrow> expert_param \<Rightarrow> expert_param \<Rightarrow> string \<Rightarrow> (nat \<Rightarrow> string \<Rightarrow> ckpt_weight) \<Rightarrow> bool" where
  "expert_ckpt_ok L n p13 p2 leaf ckpt \<longleftrightarrow>
     (\<forall>e < L. \<forall>s \<in> set expert_shards.
        (cw_dtype (ckpt e s) = W_uint8 \<or> leaf = ''weight_scale'' \<and> cw_dtype (ckpt e s) = W_float8_e8m0fnu) \<and>
        (if s = ''w2'' then cw_cols (ckpt e s) = xp_cols p2 \<and> (\<forall>rows \<in> set (xp_data p2). length rows = length (cw_rows (ckpt e s)))
         else cw_cols (ckpt e s) = xp_cols p13 \<and> length (cw_rows (ckpt e s)) = n)) \<and>
     (\<forall>rows \<in> set (xp_data p13). length rows = 2 * n)"

lemma view_e8m0_raw:
  fixes i e :: nat
  assumes "s \<in> set expert_shards" "leaf \<in> {''weight'', ''weight_scale''}"
    and "cw_dtype w = W_uint8 \<or> leaf = ''weight_scale'' \<and> cw_dtype w = W_float8_e8m0fnu"
  defines "v \<equiv> view_e8m0 (expert_tensor_name i e s leaf) w"
  shows "cw_rows v = cw_rows w" "cw_cols v = cw_cols w" "copied_rows conv v = cw_rows w"
proof -
  have "cw_dtype v = W_uint8 \<and> cw_rows v = cw_rows w \<and> cw_cols v = cw_cols w"
    using assms(3) expert_name_kind(3) [OF assms(1,2), of i e] by (auto simp: v_def view_e8m0_def)
  then show "cw_rows v = cw_rows w" "cw_cols v = cw_cols w" "copied_rows conv v = cw_rows w"
    by (simp_all add: copied_rows_def)
qed

text \<open>Both parameters' names carry the tag the loader tests for.\<close>

lemma param_name_tags:
  "in_str ''w13_'' (expert_param_name i ''w1'' leaf)" "in_str ''w2_'' (expert_param_name i ''w2'' leaf)"
  "expert_param_name i ''w3'' leaf = expert_param_name i ''w1'' leaf"
  "expert_param_name i ''w1'' leaf \<noteq> expert_param_name i ''w2'' leaf"
  using in_str_append [of "''w13_''" "''layers.'' @ nat_str i @ ''.ffn.experts.''" leaf]
    in_str_append [of "''w2_''" "''layers.'' @ nat_str i @ ''.ffn.experts.''" leaf]
  by (simp_all add: expert_param_name_def)

text \<open>What holds once the tensors \<open>fin\<close> have been loaded.\<close>

definition slots_loaded ::
  "mega_experts \<Rightarrow> (nat \<Rightarrow> string \<Rightarrow> ckpt_weight) \<Rightarrow> (nat \<times> string) set \<Rightarrow> expert_param \<Rightarrow> expert_param \<Rightarrow> bool" where
  "slots_loaded self ckpt fin q13 q2 \<longleftrightarrow>
     (\<forall>j < me_experts_end_idx self - me_experts_start_idx self.
        let e = (me_experts_start_idx self + j) mod me_num_logical_experts self; n = me_intermediate_size self
        in ((e, ''w1'') \<in> fin \<longrightarrow> take n (xp_data q13 ! j) = cw_rows (ckpt e ''w1''))
         \<and> ((e, ''w3'') \<in> fin \<longrightarrow> drop n (xp_data q13 ! j) = cw_rows (ckpt e ''w3''))
         \<and> ((e, ''w2'') \<in> fin \<longrightarrow> xp_data q2 ! j = cw_rows (ckpt e ''w2'')))"

definition param_shape :: "nat \<Rightarrow> expert_param \<Rightarrow> expert_param \<Rightarrow> bool" where
  "param_shape k p q \<longleftrightarrow> xp_cols q = xp_cols p \<and> length (xp_data q) = k \<and> map length (xp_data q) = map length (xp_data p)"

lemma param_shape_rows:
  assumes "param_shape k p q"
  shows "(\<forall>rows \<in> set (xp_data q). length rows = m) \<longleftrightarrow> (\<forall>rows \<in> set (xp_data p). length rows = m)"
proof -
  have "length ` set (xp_data q) = length ` set (xp_data p)"
    using assms by (metis param_shape_def list.set_map)
  then show ?thesis by (metis (no_types, lifting) imageE imageI)
qed

lemma load_gate_up:
  assumes s: "s \<in> {''w1'', ''w3''}" and fits: "shard_fits n wn s w q" and raw: "copied_rows conv w = rows"
    and upd: "\<forall>j < length (xp_data q). xp_data q' ! j
       = (if (start + j) mod L = e then shard_rows conv n s w (xp_data q ! j) else xp_data q ! j)"
    and j: "j < length (xp_data q)"
  shows "take n (xp_data q' ! j) = (if (start + j) mod L = e \<and> s = ''w1'' then rows else take n (xp_data q ! j))"
    "drop n (xp_data q' ! j) = (if (start + j) mod L = e \<and> s = ''w3'' then rows else drop n (xp_data q ! j))"
proof -
  have "length rows = length (cw_rows w)" using raw length_copied_rows by metis
  then have len: "length rows = n" "length (xp_data q ! j) = 2 * n"
    using fits s j by (auto simp: shard_fits_def)
  have u: "xp_data q' ! j = (if (start + j) mod L = e
      then set_slice (if s = ''w1'' then 0 else n) rows (xp_data q ! j) else xp_data q ! j)"
    using upd j s raw by (auto simp: shard_rows_def)
  show "take n (xp_data q' ! j) = (if (start + j) mod L = e \<and> s = ''w1'' then rows else take n (xp_data q ! j))"
    unfolding u using s len by (simp add: set_slice_def)
  show "drop n (xp_data q' ! j) = (if (start + j) mod L = e \<and> s = ''w3'' then rows else drop n (xp_data q ! j))"
    unfolding u using s len by (auto simp: set_slice_def)
qed

definition load_inv ::
  "mega_experts \<Rightarrow> (nat \<Rightarrow> string \<Rightarrow> ckpt_weight) \<Rightarrow> nat \<Rightarrow> string \<Rightarrow> params \<Rightarrow> expert_param \<Rightarrow> expert_param
   \<Rightarrow> (nat \<times> string) set \<Rightarrow> load_state \<Rightarrow> bool" where
  "load_inv self ckpt i leaf ps p13 p2 fin st \<longleftrightarrow>
     (\<exists>q13 q2. map_of (ls_params st) (expert_param_name i ''w1'' leaf) = Some (ExpertParam q13) \<and>
        map_of (ls_params st) (expert_param_name i ''w2'' leaf) = Some (ExpertParam q2) \<and>
        param_shape (me_experts_end_idx self - me_experts_start_idx self) p13 q13 \<and>
        param_shape (me_experts_end_idx self - me_experts_start_idx self) p2 q2 \<and> slots_loaded self ckpt fin q13 q2) \<and>
     (\<forall>nm. nm \<notin> {expert_param_name i ''w1'' leaf, expert_param_name i ''w2'' leaf} \<longrightarrow> map_of (ls_params st) nm = map_of ps nm) \<and>
     set (ls_loaded st) = (\<lambda>(e, s). expert_param_name i s leaf) ` fin"

lemma load_invI:
  "map_of (ls_params st) (expert_param_name i ''w1'' leaf) = Some (ExpertParam q13) \<Longrightarrow>
   map_of (ls_params st) (expert_param_name i ''w2'' leaf) = Some (ExpertParam q2) \<Longrightarrow>
   param_shape (me_experts_end_idx self - me_experts_start_idx self) p13 q13 \<Longrightarrow>
   param_shape (me_experts_end_idx self - me_experts_start_idx self) p2 q2 \<Longrightarrow> slots_loaded self ckpt fin q13 q2 \<Longrightarrow>
   (\<And>nm. nm \<notin> {expert_param_name i ''w1'' leaf, expert_param_name i ''w2'' leaf} \<Longrightarrow> map_of (ls_params st) nm = map_of ps nm) \<Longrightarrow>
   set (ls_loaded st) = (\<lambda>(e, s). expert_param_name i s leaf) ` fin \<Longrightarrow> load_inv self ckpt i leaf ps p13 p2 fin st"
  unfolding load_inv_def by blast

text \<open>The loader of MegaMoE on an expert parameter that fits.\<close>

lemma mega_expert_loader_ok:
  assumes "length (xp_data q) = me_experts_end_idx self - me_experts_start_idx self"
    and "shard_fits (me_intermediate_size self) wn s w q"
  obtains q' ok where "mega_expert_loader conv self (ExpertParam q) w wn s e = Inr (ExpertParam q', ok)"
    "param_shape (length (xp_data q)) q q'"
    "\<forall>j < length (xp_data q). xp_data q' ! j
       = (if (me_experts_start_idx self + j) mod me_num_logical_experts self = e
          then shard_rows conv (me_intermediate_size self) s w (xp_data q ! j) else xp_data q ! j)"
proof -
  from weight_loader_ok [OF assms, of conv e] obtain q' where q': "weight_loader conv self q w wn s e True
        = Inr (q', Some (map_global_expert_id self e \<noteq> []))" "xp_cols q' = xp_cols q" "length (xp_data q') = length (xp_data q)"
      "\<forall>j < length (xp_data q). xp_data q' ! j
         = (if (me_experts_start_idx self + j) mod me_num_logical_experts self = e
            then shard_rows conv (me_intermediate_size self) s w (xp_data q ! j) else xp_data q ! j)" by blast
  have "length (xp_data q' ! j) = length (xp_data q ! j)" if "j < length (xp_data q)" for j
  proof -
    have "xp_data q ! j \<in> set (xp_data q)" using that by simp
    then show ?thesis using assms(2) q'(4) that by (auto simp: shard_rows_def shard_fits_def)
  qed
  then have "param_shape (length (xp_data q)) q q'"
    using q'(2,3) by (auto simp: param_shape_def intro: nth_equalityI)
  with q' show ?thesis using that by (simp add: mega_expert_loader_def)
qed

lemma param_shape_trans: "param_shape k p q \<Longrightarrow> param_shape k q r \<Longrightarrow> param_shape k p r"
  by (auto simp: param_shape_def)

lemma load_step:
  assumes inv: "load_inv self ckpt i leaf ps p13 p2 fin st"
    and es: "e < me_num_logical_experts self" "s \<in> set expert_shards" and leaf: "leaf \<in> {''weight'', ''weight_scale''}"
    and ok: "expert_ckpt_ok (me_num_logical_experts self) (me_intermediate_size self) p13 p2 leaf ckpt"
    and env: "\<And>nm. \<not> le_pp_missing env nm" "le_expert_loader env = mega_expert_loader conv self"
      "le_expert_mapping env = make_deepseek_v4_expert_params_mapping (me_num_logical_experts self)"
  shows "\<exists>st'. load_one env (expert_tensor_name i e s leaf, ckpt e s) st = Inr st'
    \<and> load_inv self ckpt i leaf ps p13 p2 (insert (e, s) fin) st'"
proof -
  let ?k = "me_experts_end_idx self - me_experts_start_idx self" and ?n = "me_intermediate_size self"
  let ?P = "expert_param_name i s leaf" and ?v = "view_e8m0 (expert_tensor_name i e s leaf) (ckpt e s)"
  from inv obtain q13 q2 where q: "map_of (ls_params st) (expert_param_name i ''w1'' leaf) = Some (ExpertParam q13)"
      "map_of (ls_params st) (expert_param_name i ''w2'' leaf) = Some (ExpertParam q2)"
      "param_shape ?k p13 q13" "param_shape ?k p2 q2" "slots_loaded self ckpt fin q13 q2"
    and rest: "\<forall>nm. nm \<notin> {expert_param_name i ''w1'' leaf, expert_param_name i ''w2'' leaf} \<longrightarrow> map_of (ls_params st) nm = map_of ps nm"
      "set (ls_loaded st) = (\<lambda>(e, s). expert_param_name i s leaf) ` fin" by (auto simp: load_inv_def)
  have dt: "cw_dtype (ckpt e s) = W_uint8 \<or> leaf = ''weight_scale'' \<and> cw_dtype (ckpt e s) = W_float8_e8m0fnu"
    using ok es by (simp add: expert_ckpt_ok_def)
  note v = view_e8m0_raw [OF es(2) leaf dt, where i = i and e = e]
  have len: "length (xp_data q13) = ?k" "length (xp_data q2) = ?k" using q(3,4) by (simp_all add: param_shape_def)
  define q where "q = (if s = ''w2'' then q2 else q13)"
  have qP: "map_of (ls_params st) ?P = Some (ExpertParam q)" "length (xp_data q) = ?k"
    using q(1,2) es(2) param_name_tags(3) [of i leaf] len by (auto simp: q_def expert_shards_def)
  have fits: "shard_fits ?n ?P s ?v q"
    using ok es q(3,4) param_name_tags(1-3) [of i leaf] v(1,2) param_shape_rows [OF q(3)] param_shape_rows [OF q(4)]
    by (auto simp: shard_fits_def expert_ckpt_ok_def param_shape_def q_def expert_shards_def)
  from mega_expert_loader_ok [OF qP(2) fits, of conv e] obtain q' okf where
    l: "mega_expert_loader conv self (ExpertParam q) ?v ?P s e = Inr (ExpertParam q', okf)" "param_shape ?k q q'"
    and upd: "\<forall>j < ?k. xp_data q' ! j = (if (me_experts_start_idx self + j) mod me_num_logical_experts self = e
          then shard_rows conv ?n s ?v (xp_data q ! j) else xp_data q ! j)" using qP(2) by metis
  define st' where "st' = mark_loaded ?P (put_param ?P (ExpertParam q') (st\<lparr>ls_name_mapped := Some ?P\<rparr>))"
  have one: "load_one env (expert_tensor_name i e s leaf, ckpt e s) st = Inr st'"
    unfolding st'_def by (rule load_one_expert [OF es leaf env(1) qP(1) env(3)]) (simp add: env(2) l(1))
  have m: "map_of (ls_params st') nm = (if nm = ?P then Some (ExpertParam q') else map_of (ls_params st) nm)" for nm
    by (simp add: st'_def mark_loaded_def put_param_def update_conv')
  have loaded: "set (ls_loaded st') = (\<lambda>(e, s). expert_param_name i s leaf) ` insert (e, s) fin"
    using rest(2) by (auto simp: st'_def mark_loaded_def put_param_def)
  have "load_inv self ckpt i leaf ps p13 p2 (insert (e, s) fin) st'"
  proof (cases "s = ''w2''")
    case True
    have sl: "slots_loaded self ckpt (insert (e, s) fin) q13 q'"
      using q(5) upd v(3) [where conv = conv] True by (simp add: slots_loaded_def Let_def q_def shard_rows_def)
    have sh: "param_shape ?k p2 q'" using param_shape_trans [OF q(4)] l(2) True by (simp add: q_def)
    show ?thesis
      by (rule load_invI [OF _ _ q(3) sh sl _ loaded])
        (use True m rest(1) q(1) param_name_tags(4) [of i leaf] in simp_all)
  next
    case False
    then have s: "s \<in> {''w1'', ''w3''}" using es(2) by (auto simp: expert_shards_def)
    have g: "take ?n (xp_data q' ! j) = (if (me_experts_start_idx self + j) mod me_num_logical_experts self = e \<and> s = ''w1''
          then cw_rows (ckpt e s) else take ?n (xp_data q13 ! j))"
        "drop ?n (xp_data q' ! j) = (if (me_experts_start_idx self + j) mod me_num_logical_experts self = e \<and> s = ''w3''
          then cw_rows (ckpt e s) else drop ?n (xp_data q13 ! j))" if "j < ?k" for j
      using load_gate_up [OF s fits v(3) upd [folded qP(2)], of j] that False unfolding qP(2) by (simp_all add: q_def)
    have sl: "slots_loaded self ckpt (insert (e, s) fin) q' q2"
      using q(5) g False by (auto simp: slots_loaded_def Let_def)
    have sh: "param_shape ?k p13 q'" using param_shape_trans [OF q(3)] l(2) False by (simp add: q_def)
    have P: "?P = expert_param_name i ''w1'' leaf" using s param_name_tags(3) [of i leaf] by auto
    show ?thesis
      by (rule load_invI [OF _ _ sh q(4) sl _ loaded])
        (use P m rest(1) q(2) param_name_tags(4) [of i leaf] in simp_all)
  qed
  with one show ?thesis by blast
qed

lemma load_all_experts:
  assumes "load_inv self ckpt i leaf ps p13 p2 fin st"
    and "\<forall>(e, s) \<in> set calls. e < me_num_logical_experts self \<and> s \<in> set expert_shards"
    and leaf: "leaf \<in> {''weight'', ''weight_scale''}"
    and ok: "expert_ckpt_ok (me_num_logical_experts self) (me_intermediate_size self) p13 p2 leaf ckpt"
    and env: "\<And>nm. \<not> le_pp_missing env nm" "le_expert_loader env = mega_expert_loader conv self"
      "le_expert_mapping env = make_deepseek_v4_expert_params_mapping (me_num_logical_experts self)"
  shows "\<exists>st'. load_all env (map (\<lambda>(e, s). (expert_tensor_name i e s leaf, ckpt e s)) calls) st = Inr st'
    \<and> load_inv self ckpt i leaf ps p13 p2 (fin \<union> set calls) st'"
  using assms(1,2)
proof (induction calls arbitrary: fin st)
  case (Cons c calls)
  obtain e s where c: "c = (e, s)" by fastforce
  obtain st1 where "load_one env (expert_tensor_name i e s leaf, ckpt e s) st = Inr st1"
      "load_inv self ckpt i leaf ps p13 p2 (insert (e, s) fin) st1"
    using load_step [OF Cons.prems(1) _ _ leaf ok env, of e s] Cons.prems(2) by (auto simp: c)
  with Cons.IH [of "insert (e, s) fin" st1] Cons.prems(2) show ?case by (simp add: c)
qed simp

text \<open>
  C25. The experts are loaded where they belong.  Take a rank of any placement, the parameters of
  layer \<open>i\<close> in their allocated shape, and the tensors of all logical experts of that layer, weights
  or scales, in any order and possibly repeated.  Then \<^verbatim>\<open>load_weights\<close> returns, reports exactly the
  two stacked parameters as loaded and touches no other; and in every local slot the first parameter
  holds the gate rows and then the up rows, and the second the down rows, of the logical expert the
  slot's physical number stands for, byte for byte, whatever torch's conversion of E8M0 would do.
\<close>

theorem expert_weights_loaded:
  assumes init: "init_mega_moe_experts mo names ep_size r layer = Inr (self, names')"
    and leaf: "leaf \<in> {''weight'', ''weight_scale''}"
    and calls: "set calls = {0..<mo_n_routed_experts mo} \<times> set expert_shards" "calls \<noteq> []"
    and ok: "expert_ckpt_ok (mo_n_routed_experts mo) (mo_moe_intermediate_size mo) p13 p2 leaf ckpt"
    and ps: "map_of ps (expert_param_name i ''w1'' leaf) = Some (ExpertParam p13)"
      "map_of ps (expert_param_name i ''w2'' leaf) = Some (ExpertParam p2)"
      "length (xp_data p13) = me_num_local_experts self" "length (xp_data p2) = me_num_local_experts self"
    and env: "\<forall>nm. \<not> le_pp_missing env nm" "le_expert_loader env = mega_expert_loader conv self"
      "le_expert_mapping env = make_deepseek_v4_expert_params_mapping (mo_n_routed_experts mo)"
  shows "\<exists>loaded ps' q13 q2.
     load_weights env (map (\<lambda>(e, s). (expert_tensor_name i e s leaf, ckpt e s)) calls) ps = Inr (loaded, ps')
   \<and> set loaded = {expert_param_name i ''w1'' leaf, expert_param_name i ''w2'' leaf}
   \<and> map_of ps' (expert_param_name i ''w1'' leaf) = Some (ExpertParam q13)
   \<and> map_of ps' (expert_param_name i ''w2'' leaf) = Some (ExpertParam q2)
   \<and> (\<forall>nm. nm \<notin> set loaded \<longrightarrow> map_of ps' nm = map_of ps nm)
   \<and> (\<forall>j < me_num_local_experts self. let e = (me_experts_start_idx self + j) mod mo_n_routed_experts mo
        in xp_data q13 ! j = cw_rows (ckpt e ''w1'') @ cw_rows (ckpt e ''w3'') \<and> xp_data q2 ! j = cw_rows (ckpt e ''w2''))"
proof -
  note f = init_mega_fields [OF init]
  let ?L = "mo_n_routed_experts mo" and ?n = "mo_moe_intermediate_size mo"
  have k: "me_experts_end_idx self - me_experts_start_idx self = me_num_local_experts self" using f(2-4) by simp
  have L: "0 < ?L" using calls by (auto simp: neq_Nil_conv)
  define st where "st = \<lparr>ls_params = ps, ls_loaded = [], ls_name_mapped = None\<rparr>"
  have "load_inv self ckpt i leaf ps p13 p2 {} st"
    by (rule load_invI) (use ps k in \<open>simp_all add: st_def param_shape_def slots_loaded_def Let_def\<close>)
  from load_all_experts [OF this _ leaf ok [folded f(5,6)] _ env(2) env(3) [folded f(5)], of calls]
  obtain st' where st': "load_all env (map (\<lambda>(e, s). (expert_tensor_name i e s leaf, ckpt e s)) calls) st = Inr st'"
      "load_inv self ckpt i leaf ps p13 p2 (set calls) st'"
    using env(1) calls(1) f(5) by auto
  from st'(2) obtain q13 q2 where q: "map_of (ls_params st') (expert_param_name i ''w1'' leaf) = Some (ExpertParam q13)"
      "map_of (ls_params st') (expert_param_name i ''w2'' leaf) = Some (ExpertParam q2)" "slots_loaded self ckpt (set calls) q13 q2"
      and rest: "\<forall>nm. nm \<notin> {expert_param_name i ''w1'' leaf, expert_param_name i ''w2'' leaf} \<longrightarrow> map_of (ls_params st') nm = map_of ps nm"
      and loaded: "set (ls_loaded st') = (\<lambda>(e, s). expert_param_name i s leaf) ` set calls"
    unfolding load_inv_def by blast
  have names: "set (ls_loaded st') = {expert_param_name i ''w1'' leaf, expert_param_name i ''w2'' leaf}"
    using L param_name_tags(3) [of i leaf] unfolding loaded calls(1) by (force simp: expert_shards_def image_iff)
  have slot: "xp_data q13 ! j = cw_rows (ckpt e ''w1'') @ cw_rows (ckpt e ''w3'') \<and> xp_data q2 ! j = cw_rows (ckpt e ''w2'')"
    if "j < me_num_local_experts self" "e = (me_experts_start_idx self + j) mod ?L" for j e
  proof -
    have "e < ?L" using that(2) L by simp
    then have "(e, s) \<in> set calls" if "s \<in> set expert_shards" for s using that calls(1) by simp
    then have "take ?n (xp_data q13 ! j) = cw_rows (ckpt e ''w1'') \<and> drop ?n (xp_data q13 ! j) = cw_rows (ckpt e ''w3'')
        \<and> xp_data q2 ! j = cw_rows (ckpt e ''w2'')"
      using q(3) that k f(5,6) by (simp add: slots_loaded_def Let_def expert_shards_def)
    then show ?thesis by (metis append_take_drop_id)
  qed
  show ?thesis
    using st'(1) q(1,2) rest names slot unfolding load_weights_def st_def by (auto simp: Let_def)
qed

text \<open>The scales of layer 7 on the second of three ranks: four experts and two replicas.\<close>

definition load_demo_ckpt :: "nat \<Rightarrow> string \<Rightarrow> ckpt_weight" where
  "load_demo_ckpt e s = \<lparr>cw_dtype = W_float8_e8m0fnu,
     cw_rows = map (\<lambda>k. [int (10 * e + k)]) (if s = ''w2'' then [5, 6, 7] else if s = ''w1'' then [1, 2] else [3, 4]), cw_cols = 1\<rparr>"

definition load_demo_env :: load_env where
  "load_demo_env = \<lparr>le_pp_missing = (\<lambda>_. False), le_stacked_loader = (\<lambda>n p w s. Inr p), le_plain_loader = (\<lambda>n p w. Inr p),
     le_expert_loader = mega_expert_loader (\<lambda>_ _. 0) (mega_demo_rank 1),
     le_expert_mapping = make_deepseek_v4_expert_params_mapping 4,
     le_pad = Some 128, le_tp_size = 1, le_tp_rank = 0, le_num_attention_heads = 4\<rparr>"

definition load_demo_params :: params where
  "load_demo_params = [(expert_param_name 7 ''w1'' ''weight_scale'', ExpertParam (zeros3 2 4 1)),
     (expert_param_name 7 ''w2'' ''weight_scale'', ExpertParam (zeros3 2 3 1))]"

theorem expert_weights_loaded_witness:
  "\<exists>loaded ps' q13. load_weights load_demo_env
       (map (\<lambda>(e, s). (expert_tensor_name 7 e s ''weight_scale'', load_demo_ckpt e s)) (rev (List.product [0..<4] expert_shards)))
       load_demo_params = Inr (loaded, ps')
   \<and> map_of ps' (expert_param_name 7 ''w1'' ''weight_scale'') = Some (ExpertParam q13)
   \<and> xp_data q13 ! 1 = [[31], [32], [33], [34]]"
proof -
  let ?calls = "rev (List.product [0..<4] expert_shards)"
  have m: "mo_n_routed_experts mega_demo_setup = 4" "mo_moe_intermediate_size mega_demo_setup = 2"
    by (simp_all add: mega_demo_setup_def)
  have f: "me_num_local_experts (mega_demo_rank 1) = 2" "me_experts_start_idx (mega_demo_rank 1) = 2"
    using init_mega_fields [OF mega_demo_init [of 1]] by (simp_all add: mega_demo_setup_def)
  have "(0, ''w1'') \<in> set ?calls" by (simp add: expert_shards_def)
  then have c: "set ?calls = {0..<mo_n_routed_experts mega_demo_setup} \<times> set expert_shards" "?calls \<noteq> []"
    by (simp add: m) (metis \<open>(0, ''w1'') \<in> set ?calls\<close> empty_iff empty_set)
  have ok: "expert_ckpt_ok (mo_n_routed_experts mega_demo_setup) (mo_moe_intermediate_size mega_demo_setup)
      (zeros3 2 4 1) (zeros3 2 3 1) ''weight_scale'' load_demo_ckpt"
    by (simp add: m expert_ckpt_ok_def load_demo_ckpt_def zeros3_def expert_shards_def)
  have p: "map_of load_demo_params (expert_param_name 7 ''w1'' ''weight_scale'') = Some (ExpertParam (zeros3 2 4 1))"
      "map_of load_demo_params (expert_param_name 7 ''w2'' ''weight_scale'') = Some (ExpertParam (zeros3 2 3 1))"
      "length (xp_data (zeros3 2 4 1)) = me_num_local_experts (mega_demo_rank 1)"
      "length (xp_data (zeros3 2 3 1)) = me_num_local_experts (mega_demo_rank 1)"
    using param_name_tags(4) [of 7 "''weight_scale''"] by (simp_all add: load_demo_params_def zeros3_def f [unfolded One_nat_def])
  have e: "\<forall>nm. \<not> le_pp_missing load_demo_env nm" "le_expert_loader load_demo_env = mega_expert_loader (\<lambda>_ _. 0) (mega_demo_rank 1)"
      "le_expert_mapping load_demo_env = make_deepseek_v4_expert_params_mapping (mo_n_routed_experts mega_demo_setup)"
    by (simp_all add: load_demo_env_def m)
  have l: "''weight_scale'' \<in> {''weight'', ''weight_scale''}" by simp
  note t = expert_weights_loaded [OF mega_demo_init [of 1] l c ok p e, unfolded f m(1) Let_def]
  from t obtain loaded ps' q13 where
    r: "load_weights load_demo_env (map (\<lambda>(e, s). (expert_tensor_name 7 e s ''weight_scale'', load_demo_ckpt e s)) ?calls)
       load_demo_params = Inr (loaded, ps')" "map_of ps' (expert_param_name 7 ''w1'' ''weight_scale'') = Some (ExpertParam q13)"
    and q: "\<forall>j < 2. xp_data q13 ! j = cw_rows (load_demo_ckpt ((2 + j) mod 4) ''w1'') @ cw_rows (load_demo_ckpt ((2 + j) mod 4) ''w3'')"
    by blast
  have "xp_data q13 ! 1 = [[31], [32], [33], [34]]" using q [rule_format, of 1] by (simp add: load_demo_ckpt_def)
  with r show ?thesis by blast
qed

end
