(* ===== verification/VisionModel.thy ===== *)
theory VisionModel
  imports Prelude
begin

text \<open>
  The vision wrapper, \<^verbatim>\<open>src/docker/overlay-54631-image/vllm/models/deepseek_v4/nvidia/vl_model.py\<close>: the
  checks of an image input, the loop that cuts the patches of all images into the images and reorders
  their embeddings, and \<^verbatim>\<open>embed_input_ids\<close>, which puts text, learned and vision embeddings at the
  positions of a prompt.

  The tower, the mask of sentinel tokens and the merge of vision embeddings are library code and
  arguments; an embedding is an opaque value of type \<open>'e\<close>, a patch of type \<open>'p\<close>.
\<close>

section \<open>The wrapper\<close>

text \<open>The learned vectors; they are absent when images are disabled.\<close>

record 'e image_vectors =
  iv_start :: 'e
  iv_pad :: 'e
  iv_newline :: 'e
  iv_end :: 'e

record ('p, 'e) vl_model =
  vl_tower :: "('p list \<Rightarrow> nat \<Rightarrow> nat \<Rightarrow> 'e list) option"
  vl_vectors :: "'e image_vectors option"
  vl_embed_text :: "nat \<Rightarrow> 'e"

definition get_placeholder_str :: "string \<Rightarrow> string \<Rightarrow> string result" where
  "get_placeholder_str placeholder modality =
     (if modality = ''image'' then Inr placeholder else Inl (ValueError ''Unsupported modality''))"

definition image_enabled :: "nat \<Rightarrow> nat \<Rightarrow> bool" where
  "image_enabled vision_n_layers limit_per_prompt \<longleftrightarrow> vision_n_layers > 0 \<and> limit_per_prompt > 0"

text \<open>\<^verbatim>\<open>__init__\<close>: the tower and the vectors exist together.\<close>

definition vl_init ::
  "nat \<Rightarrow> nat option \<Rightarrow> ('p list \<Rightarrow> nat \<Rightarrow> nat \<Rightarrow> 'e list) \<Rightarrow> 'e image_vectors \<Rightarrow> (nat \<Rightarrow> 'e) \<Rightarrow> ('p, 'e) vl_model result" where
  "vl_init vision_n_layers image_limit tower vectors embed_text =
     (case image_limit of
        None \<Rightarrow> Inl (AssertionError ''self.multimodal_config is not None'')
      | Some limit \<Rightarrow>
          let on = image_enabled vision_n_layers limit
          in Inr \<lparr>vl_tower = (if on then Some tower else None), vl_vectors = (if on then Some vectors else None),
                  vl_embed_text = embed_text\<rparr>)"

section \<open>Image inputs\<close>

record 'p image_input =
  im_patches :: "'p list"
  im_vit_grid :: "(nat \<times> nat) list"
  im_llm_grid :: "(nat \<times> nat) list"
  im_perm :: "nat list"

definition parse_and_validate_image_input ::
  "'p list option \<Rightarrow> (nat \<times> nat) list option \<Rightarrow> (nat \<times> nat) list option \<Rightarrow> nat list option \<Rightarrow> 'p image_input option result" where
  "parse_and_validate_image_input patches vit_grid llm_grid perm =
     (case patches of
        None \<Rightarrow> Inr None
      | Some ps \<Rightarrow>
          (case (vit_grid, llm_grid, perm) of
             (Some v, Some l, Some p) \<Rightarrow> Inr (Some \<lparr>im_patches = ps, im_vit_grid = v, im_llm_grid = l, im_perm = p\<rparr>)
           | _ \<Rightarrow> Inl (AssertionError ''vit_grid is not None and llm_grid is not None and perm is not None'')))"

text \<open>Indexing with a list of positions raises on one that is out of range.\<close>

definition gather :: "'e list \<Rightarrow> nat list \<Rightarrow> 'e list result" where
  "gather xs ids = raise_if (\<exists>i \<in> set ids. i \<ge> length xs) (IndexError ''index out of range'') (Inr (map (\<lambda>i. xs ! i) ids))"

text \<open>The loop, over the two grids in step; \<^verbatim>\<open>zip(strict=True)\<close> raises when one ends early.\<close>

fun image_loop ::
  "('p list \<Rightarrow> nat \<Rightarrow> nat \<Rightarrow> 'e list) \<Rightarrow> 'p list \<Rightarrow> nat list \<Rightarrow> (nat \<times> nat) list \<Rightarrow> (nat \<times> nat) list \<Rightarrow> nat \<Rightarrow> nat
   \<Rightarrow> 'e list list result" where
  "image_loop tower patches perm [] [] vit_offset llm_offset = Inr []"
| "image_loop tower patches perm ((vh, vw) # vit) ((lh, lw) # llm) vit_offset llm_offset =
     (let n_vit = vh * vw; n_llm = lh * lw;
          image_embeds = tower (pyslice vit_offset (vit_offset + n_vit) patches) vh vw
      in bind_result (gather image_embeds (pyslice llm_offset (llm_offset + n_llm) perm)) (\<lambda>e.
         bind_result (image_loop tower patches perm vit llm (vit_offset + n_vit) (llm_offset + n_llm)) (\<lambda>es. Inr (e # es))))"
| "image_loop tower patches perm _ _ vit_offset llm_offset = Inl (ValueError ''zip() arguments have different lengths'')"

definition process_image_input :: "('p, 'e) vl_model \<Rightarrow> 'p image_input \<Rightarrow> 'e list list result" where
  "process_image_input self im =
     (case vl_tower self of
        None \<Rightarrow> Inl (AssertionError ''self.vision is not None and self.aligner is not None'')
      | Some tower \<Rightarrow> image_loop tower (im_patches im) (im_perm im) (im_vit_grid im) (im_llm_grid im) 0 0)"

definition embed_multimodal ::
  "('p, 'e) vl_model \<Rightarrow> 'p list option \<Rightarrow> (nat \<times> nat) list option \<Rightarrow> (nat \<times> nat) list option \<Rightarrow> nat list option
   \<Rightarrow> 'e list list result" where
  "embed_multimodal self patches vit_grid llm_grid perm =
     bind_result (parse_and_validate_image_input patches vit_grid llm_grid perm) (\<lambda>im.
       (case im of
          None \<Rightarrow> Inr []
        | Some x \<Rightarrow> if vl_tower self = None then Inr [] else process_image_input self x))"

section \<open>The embeddings of a prompt\<close>

definition sentinel_table :: "'e image_vectors \<Rightarrow> 'e list" where
  "sentinel_table iv = [iv_start iv, iv_pad iv, iv_pad iv, iv_newline iv, iv_end iv]"

text \<open>The overwrite of the sentinel positions that do not get a vision embedding.\<close>

definition overwrite_sentinels ::
  "(nat \<Rightarrow> bool) \<Rightarrow> nat \<Rightarrow> 'e image_vectors \<Rightarrow> bool list option \<Rightarrow> nat list \<Rightarrow> 'e list \<Rightarrow> 'e list" where
  "overwrite_sentinels is_sentinel base iv is_multimodal input_ids embeds =
     map (\<lambda>i. let tok = input_ids ! i;
                  hit = is_sentinel tok \<and> (case is_multimodal of None \<Rightarrow> True | Some mm \<Rightarrow> \<not> mm ! i)
              in if hit then sentinel_table iv ! nat (clamp 0 4 (int tok - int base)) else embeds ! i)
       [0..<length input_ids]"

definition embed_input_ids ::
  "(nat \<Rightarrow> bool) \<Rightarrow> nat \<Rightarrow> ('e list \<Rightarrow> 'e list list \<Rightarrow> bool list \<Rightarrow> 'e list result) \<Rightarrow> ('p, 'e) vl_model
   \<Rightarrow> nat list \<Rightarrow> 'e list list option \<Rightarrow> bool list option \<Rightarrow> 'e list result" where
  "embed_input_ids is_sentinel base merge self input_ids mm_embeds is_multimodal =
     (let embeds = map (vl_embed_text self) input_ids;
          embeds1 = (case vl_vectors self of
                       None \<Rightarrow> embeds
                     | Some iv \<Rightarrow> overwrite_sentinels is_sentinel base iv is_multimodal input_ids embeds)
      in (case mm_embeds of
            None \<Rightarrow> Inr embeds1
          | Some es \<Rightarrow>
              if es = [] then Inr embeds1
              else (case is_multimodal of
                      None \<Rightarrow> Inl (AssertionError ''is_multimodal is not None'')
                    | Some mm \<Rightarrow> merge embeds1 es mm)))"

section \<open>The images of a batch\<close>

text \<open>Entry \<open>i\<close> of a list of block sizes: the block starts where the sizes before it end.\<close>

definition block :: "nat list \<Rightarrow> 'a list \<Rightarrow> nat \<Rightarrow> 'a list" where
  "block sizes xs i = pyslice (cu sizes ! i) (cu sizes ! Suc i) xs"

definition area :: "nat \<times> nat \<Rightarrow> nat" where
  "area g = fst g * snd g"

lemma area_pair [simp]: "area (h, w) = h * w"
  by (simp add: area_def)

lemma image_loop_result:
  "image_loop tower patches perm vit llm vo lo = Inr es \<Longrightarrow>
   length vit = length llm \<and> length es = length llm \<and>
   (\<forall>i < length llm. es ! i = map (\<lambda>k. tower
        (pyslice (vo + cu (map area vit) ! i) (vo + cu (map area vit) ! Suc i) patches) (fst (vit ! i)) (snd (vit ! i)) ! k)
      (pyslice (lo + cu (map area llm) ! i) (lo + cu (map area llm) ! Suc i) perm))"
proof (induction tower patches perm vit llm vo lo arbitrary: es rule: image_loop.induct)
  case (2 tower patches perm vh vw vit lh lw llm vo lo)
  let ?e = "tower (pyslice vo (vo + vh * vw) patches) vh vw"
  let ?p = "pyslice lo (lo + lh * lw) perm"
  from "2.prems" obtain e es' where g: "gather ?e ?p = Inr e"
    and r: "image_loop tower patches perm vit llm (vo + vh * vw) (lo + lh * lw) = Inr es'" and es: "es = e # es'"
    by (auto simp: Let_def bind_result_eq_Inr)
  have e: "e = map (\<lambda>k. ?e ! k) ?p" using g by (simp add: gather_def raise_if_eq_Inr)
  note IH = "2.IH" [OF refl refl refl r]
  have cu_shift: "cu (x # xs) ! Suc i = x + cu xs ! i" if "i \<le> length xs" for x xs and i :: nat
    using that by (simp add: nth_cu)
  show ?case
  proof (intro conjI allI impI)
    fix i assume i: "i < length ((lh, lw) # llm)"
    show "es ! i = map (\<lambda>k. tower
        (pyslice (vo + cu (map area ((vh, vw) # vit)) ! i) (vo + cu (map area ((vh, vw) # vit)) ! Suc i) patches)
          (fst (((vh, vw) # vit) ! i)) (snd (((vh, vw) # vit) ! i)) ! k)
      (pyslice (lo + cu (map area ((lh, lw) # llm)) ! i) (lo + cu (map area ((lh, lw) # llm)) ! Suc i) perm)"
    proof (cases i)
      case 0
      then show ?thesis by (simp add: es e nth_cu)
    next
      case (Suc j)
      then show ?thesis using i IH by (simp add: es cu_shift add.assoc)
    qed
  qed (use IH es in simp_all)
qed simp_all

section \<open>Every position gets its own embedding\<close>

text \<open>
  What the engine documents of the merge: as many vision embeddings as marked positions, taken in
  order; and of the sentinels: five consecutive token ids.
\<close>

definition merge_in_order :: "('e list \<Rightarrow> 'e list list \<Rightarrow> bool list \<Rightarrow> 'e list result) \<Rightarrow> bool" where
  "merge_in_order merge \<longleftrightarrow>
     (\<forall>embeds es mm. length mm = length embeds \<and> length (filter id mm) = length (concat es) \<longrightarrow>
        merge embeds es mm = Inr (map (\<lambda>i. if mm ! i then concat es ! length (filter id (take i mm)) else embeds ! i)
          [0..<length embeds]))"

definition sentinels_from :: "nat \<Rightarrow> (nat \<Rightarrow> bool) \<Rightarrow> bool" where
  "sentinels_from base is_sentinel \<longleftrightarrow> (\<forall>t. is_sentinel t \<longleftrightarrow> base \<le> t \<and> t < base + 5)"

text \<open>The embedding of a token that is not replaced by a vision embedding.\<close>

definition token_embedding :: "nat \<Rightarrow> 'e image_vectors \<Rightarrow> (nat \<Rightarrow> 'e) \<Rightarrow> nat \<Rightarrow> 'e" where
  "token_embedding base iv embed_text t =
     (if t = base then iv_start iv else if t \<in> {base + 1, base + 2} then iv_pad iv
      else if t = base + 3 then iv_newline iv else if t = base + 4 then iv_end iv else embed_text t)"

lemma overwrite_sentinels_nth:
  assumes "sentinels_from base is_sentinel" "i < length ids" "length embeds = length ids"
    "embeds ! i = embed_text (ids ! i)"
  shows "overwrite_sentinels is_sentinel base iv mm ids embeds ! i
    = (if (case mm of None \<Rightarrow> True | Some m \<Rightarrow> \<not> m ! i) then token_embedding base iv embed_text (ids ! i) else embeds ! i)"
proof -
  let ?t = "ids ! i"
  have tab: "sentinel_table iv ! nat (clamp 0 4 (int ?t - int base)) = token_embedding base iv embed_text ?t"
    if "base \<le> ?t" "?t < base + 5"
  proof -
    have "?t \<in> {base, base + 1, base + 2, base + 3, base + 4}" using that by auto
    then show ?thesis by (auto simp: sentinel_table_def token_embedding_def clamp_def)
  qed
  have out: "token_embedding base iv embed_text ?t = embed_text ?t" if "\<not> (base \<le> ?t \<and> ?t < base + 5)"
    using that by (auto simp: token_embedding_def)
  let ?free = "case mm of None \<Rightarrow> True | Some m \<Rightarrow> \<not> m ! i"
  have u: "overwrite_sentinels is_sentinel base iv mm ids embeds ! i
      = (if is_sentinel ?t \<and> ?free then sentinel_table iv ! nat (clamp 0 4 (int ?t - int base)) else embeds ! i)"
    using assms(2) by (cases mm) (simp_all add: overwrite_sentinels_def Let_def)
  have "is_sentinel ?t \<longleftrightarrow> base \<le> ?t \<and> ?t < base + 5" using assms(1) by (simp add: sentinels_from_def)
  then show ?thesis unfolding u using assms(4) tab out by (cases "base \<le> ?t \<and> ?t < base + 5") simp_all
qed

text \<open>
  C31. From images to the prompt.  When a prompt's images are processed and their embeddings merged
  at the marked positions, as many as there are, the result has one embedding per token: a marked
  position gets the next vision embedding, which for the \<open>k\<close>-th entry of image \<open>m\<close> is the tower's output on
  exactly that image's patches, at the index the image's own slice of the permutation gives; any
  other position gets the learned start, pad, newline or end vector if its token is a sentinel, and
  the text embedding otherwise.
\<close>

theorem prompt_embeddings:
  assumes lib: "merge_in_order merge" "sentinels_from base is_sentinel"
    and on: "vl_tower self = Some tower" "vl_vectors self = Some iv"
    and im: "embed_multimodal self (Some patches) (Some vit) (Some llm) (Some perm) = Inr es" "llm \<noteq> []"
    and mm: "length mm = length ids" "length (filter id mm) = length (concat es)"
  shows "\<exists>out. embed_input_ids is_sentinel base merge self ids (Some es) (Some mm) = Inr out \<and> length out = length ids
    \<and> (\<forall>i < length ids. out ! i = (if mm ! i then concat es ! length (filter id (take i mm))
         else token_embedding base iv (vl_embed_text self) (ids ! i)))
    \<and> length es = length llm
    \<and> (\<forall>m < length llm. es ! m = map (\<lambda>k. tower (block (map area vit) patches m) (fst (vit ! m)) (snd (vit ! m)) ! k)
         (block (map area llm) perm m))"
proof -
  have loop: "image_loop tower patches perm vit llm 0 0 = Inr es"
    using im(1) on(1) by (simp add: embed_multimodal_def parse_and_validate_image_input_def process_image_input_def)
  note r = image_loop_result [OF loop]
  have ne: "es \<noteq> []" using r im(2) by auto
  let ?e = "overwrite_sentinels is_sentinel base iv (Some mm) ids (map (vl_embed_text self) ids)"
  have len: "length ?e = length ids" by (simp add: overwrite_sentinels_def)
  have "embed_input_ids is_sentinel base merge self ids (Some es) (Some mm) = merge ?e es mm"
    using ne on(2) by (simp add: embed_input_ids_def)
  also have "\<dots> = Inr (map (\<lambda>i. if mm ! i then concat es ! length (filter id (take i mm)) else ?e ! i) [0..<length ?e])"
    using lib(1) mm len by (simp add: merge_in_order_def)
  finally have out: "embed_input_ids is_sentinel base merge self ids (Some es) (Some mm)
      = Inr (map (\<lambda>i. if mm ! i then concat es ! length (filter id (take i mm)) else ?e ! i) [0..<length ids])"
    unfolding len .
  have "?e ! i = token_embedding base iv (vl_embed_text self) (ids ! i)" if "i < length ids" "\<not> mm ! i" for i
    using overwrite_sentinels_nth [OF lib(2) that(1), of "map (vl_embed_text self) ids" "vl_embed_text self" iv "Some mm"] that
    by simp
  with out r show ?thesis by (auto simp: block_def)
qed

definition vision_demo :: "(nat, int) vl_model" where
  "vision_demo = \<lparr>vl_tower = Some (\<lambda>ps h w. map (\<lambda>p. int p + 1000) ps),
     vl_vectors = Some \<lparr>iv_start = -1, iv_pad = -2, iv_newline = -3, iv_end = -4\<rparr>, vl_embed_text = int\<rparr>"

definition vision_demo_merge :: "int list \<Rightarrow> int list list \<Rightarrow> bool list \<Rightarrow> int list result" where
  "vision_demo_merge embeds es mm =
     Inr (map (\<lambda>i. if mm ! i then concat es ! length (filter id (take i mm)) else embeds ! i) [0..<length embeds])"

text \<open>Two images of two patches and one; the first is reordered.\<close>

theorem prompt_embeddings_witness:
  "\<exists>out. embed_input_ids (\<lambda>t. 50 \<le> t \<and> t < 55) 50 vision_demo_merge vision_demo [7, 50, 52, 52, 53, 52, 54]
      (Some [[1006, 1005], [1009]]) (Some [False, False, True, True, False, True, False]) = Inr out
    \<and> out ! 0 = 7 \<and> out ! 1 = -1 \<and> out ! 2 = 1006 \<and> out ! 4 = -3 \<and> out ! 5 = 1009"
proof -
  let ?ids = "[7, 50, 52, 52, 53, 52, 54]" and ?mm = "[False, False, True, True, False, True, False]"
  let ?es = "[[1006, 1005], [1009]] :: int list list"
  have lib: "merge_in_order vision_demo_merge" "sentinels_from 50 (\<lambda>t. 50 \<le> t \<and> t < 55)"
    by (simp_all add: merge_in_order_def vision_demo_merge_def sentinels_from_def)
  have on: "vl_tower vision_demo = Some (\<lambda>ps h w. map (\<lambda>p. int p + 1000) ps)"
      "vl_vectors vision_demo = Some \<lparr>iv_start = -1, iv_pad = -2, iv_newline = -3, iv_end = -4\<rparr>"
      "vl_embed_text vision_demo = int" by (simp_all add: vision_demo_def)
  have im: "embed_multimodal vision_demo (Some [5, 6, 9]) (Some [(1, 2), (1, 1)]) (Some [(2, 1), (1, 1)]) (Some [1, 0, 0]) = Inr ?es"
    by (simp add: embed_multimodal_def parse_and_validate_image_input_def process_image_input_def on gather_def
        raise_if_def pyslice_def)
  obtain out where "embed_input_ids (\<lambda>t. 50 \<le> t \<and> t < 55) 50 vision_demo_merge vision_demo ?ids (Some ?es) (Some ?mm) = Inr out"
    and o: "\<forall>i < length ?ids. out ! i = (if ?mm ! i then concat ?es ! length (filter id (take i ?mm))
         else token_embedding 50 \<lparr>iv_start = -1, iv_pad = -2, iv_newline = -3, iv_end = -4\<rparr> int (?ids ! i))"
    using prompt_embeddings [OF lib on(1,2) im, of ?mm ?ids] unfolding on(3) by auto
  moreover have "out ! 0 = 7" "out ! 1 = -1" "out ! 2 = 1006" "out ! 4 = -3" "out ! 5 = 1009"
    using o [rule_format, of 0] o [rule_format, of 1] o [rule_format, of 2] o [rule_format, of 4] o [rule_format, of 5]
    by (simp_all add: token_embedding_def numeral_eq_Suc)
  ultimately show ?thesis by blast
qed

end
