(* ===== verification/MoeLayer.thy ===== *)
theory MoeLayer
  imports Complex_Main "HOL-Library.Multiset" MegaExperts
begin

text \<open>
  The mixture-of-experts layer of \<^verbatim>\<open>src/docker/overlay-54631-image/vllm/models/deepseek_v4/nvidia/model.py\<close>:
  the construction and the forward pass of \<^verbatim>\<open>DeepseekV4MoE\<close>, the forward pass of its MegaMoE experts,
  the views the expert load balancer moves, and the bookkeeping of \<^verbatim>\<open>DeepseekV4MixtureOfExperts\<close>.

  Hidden states are lists with one entry per token, of an opaque type.  Routers, kernels, collectives
  and the shared MLP's arithmetic are library code: the record \<open>moe_ops\<close>.  Uninitialised parameters are
  arguments.
\<close>

section \<open>Construction\<close>

text \<open>What \<^verbatim>\<open>__init__\<close> reads of the configuration beside \<open>moe_setup\<close>; \<open>None\<close> is a missing attribute.\<close>

record moe_config =
  mc_setup :: moe_setup
  mc_moe_backend :: string
  mc_enable_expert_parallel :: bool
  mc_enable_eplb :: bool
  mc_routed_scaling_factor :: "rat option"
  mc_swiglu_limit :: "rat option"
  mc_norm_topk_prob :: bool
  mc_scoring_func :: "string option"
  mc_expert_dtype :: "string option"
  mc_vision_n_layers :: "nat option"
  mc_num_hash_layers :: nat
  mc_topk_method :: "string option"

text \<open>The library's part: backend names, the backend check, the layer's index in a name, the sentinel base.\<close>

record moe_lib =
  ml_mega_moe_backends :: "string list"
  ml_is_fi_moe_ep_backend :: "string \<Rightarrow> bool"
  ml_validate_fi_moe_ep_config :: "moe_config \<Rightarrow> unit result"
  ml_extract_layer_index :: "string \<Rightarrow> nat"
  ml_image_sentinel_base_id :: nat

text \<open>The gate's routing parameters.\<close>

record moe_gate =
  gt_e_score_correction_bias :: "rat list option"
  gt_tid2eid :: "nat list list option"
  gt_bias_vl :: "rat list option"

record shared_mlp =
  sm_intermediate_size :: nat
  sm_reduce_results :: bool
  sm_is_sequence_parallel :: bool

text \<open>The arguments of \<^verbatim>\<open>FusedMoEFactory\<close>, and those of the FlashInfer class, which is not in the repository.\<close>

record fused_args =
  fa_num_experts :: nat
  fa_top_k :: nat
  fa_renormalize :: bool
  fa_scoring_func :: string
  fa_routed_scaling_factor :: rat
  fa_gate :: moe_gate
  fa_shared_experts :: "shared_mlp option"
  fa_image_sentinel_lo :: nat
  fa_swiglu_limit :: "rat option"
  fa_enable_eplb :: bool
  fa_num_redundant_experts :: nat
  fa_is_sequence_parallel :: bool
  fa_layer_name :: string

datatype moe_experts =
    Mega mega_experts
  | MegaFI moe_shape "rat option" string
  | Fused fused_args

record moe_layer =
  mk_prefix :: string
  mk_use_mega_moe :: bool
  mk_routed_scaling_factor :: rat
  mk_n_activated_experts :: nat
  mk_swiglu_limit :: "rat option"
  mk_renormalize :: bool
  mk_scoring_func :: string
  mk_gate :: moe_gate
  mk_image_sentinel_lo :: nat
  mk_hash_int64 :: bool
  mk_shared_experts :: "shared_mlp option"
  mk_shape :: moe_shape
  mk_experts :: moe_experts

definition or_default :: "'a \<Rightarrow> 'a option \<Rightarrow> 'a" where
  "or_default d x = (case x of None \<Rightarrow> d | Some v \<Rightarrow> v)"

definition has_vision :: "moe_config \<Rightarrow> bool" where
  "has_vision mc \<longleftrightarrow> or_default 0 (mc_vision_n_layers mc) > 0"

text \<open>\<open>table\<close> and \<open>raw\<close> are what \<^verbatim>\<open>torch.randint\<close> and \<^verbatim>\<open>torch.empty\<close> leave in a new parameter.\<close>

definition init_gate :: "moe_lib \<Rightarrow> moe_config \<Rightarrow> nat list list \<Rightarrow> rat list \<Rightarrow> string \<Rightarrow> moe_gate" where
  "init_gate ml mc table raw layer_name =
     (let is_hash_moe = ml_extract_layer_index ml layer_name < mc_num_hash_layers mc
      in \<lparr>gt_e_score_correction_bias =
            (if mc_topk_method mc = Some ''noaux_tc'' \<and> (\<not> is_hash_moe \<or> has_vision mc) then Some raw else None),
          gt_tid2eid = (if is_hash_moe then Some table else None),
          gt_bias_vl = (if has_vision mc then Some raw else None)\<rparr>)"

definition init_shared_experts :: "moe_config \<Rightarrow> bool \<Rightarrow> shared_mlp option" where
  "init_shared_experts mc use_mega_moe =
     (case mo_n_shared_experts (mc_setup mc) of
        None \<Rightarrow> None
      | Some n \<Rightarrow> Some \<lparr>sm_intermediate_size = mo_moe_intermediate_size (mc_setup mc) * n,
                       sm_reduce_results = use_mega_moe,
                       sm_is_sequence_parallel = mo_use_sequence_parallel (mc_setup mc)\<rparr>)"

text \<open>
  The guards of \<^verbatim>\<open>__init__\<close> in their order.  The layer's choice between the two MegaMoE classes and the
  fused factory follows the backend.
\<close>

definition moe_guards :: "moe_lib \<Rightarrow> moe_config \<Rightarrow> bool \<Rightarrow> unit result" where
  "moe_guards ml mc mega =
     bind_result (ml_validate_fi_moe_ep_config ml mc) (\<lambda>_.
       raise_if (mega \<and> \<not> mc_enable_expert_parallel mc)
         (NotImplementedError ''DeepSeek V4 MegaMoE currently requires expert parallel.'')
       (raise_if (mega \<and> or_default ''sqrtsoftplus'' (mc_scoring_func mc) \<noteq> ''sqrtsoftplus'')
         (NotImplementedError ''DeepSeek V4 MegaMoE currently supports sqrtsoftplus routing only.'')
       (raise_if (mega \<and> or_default ''fp4'' (mc_expert_dtype mc) \<noteq> ''fp4'')
         (NotImplementedError ''DeepSeek V4 MegaMoE only supports fp4 experts'') (Inr ()))))"

definition init_fused_moe_experts ::
  "moe_config \<Rightarrow> moe_gate \<Rightarrow> shared_mlp option \<Rightarrow> nat \<Rightarrow> nat \<Rightarrow> nat \<Rightarrow> string \<Rightarrow> (moe_shape \<times> moe_experts) result" where
  "init_fused_moe_experts mc gate shared sentinel tp_size tp_rank layer_name =
     (let mo = mc_setup mc
      in bind_result (expert_placement (mo_n_routed_experts mo) (mo_num_redundant_experts mo) (mo_n_shared_experts mo)
                        tp_size tp_rank) (\<lambda>ms.
         Inr (ms, Fused \<lparr>fa_num_experts = mo_n_routed_experts mo, fa_top_k = mo_num_experts_per_tok mo,
               fa_renormalize = mc_norm_topk_prob mc, fa_scoring_func = or_default ''sqrtsoftplus'' (mc_scoring_func mc),
               fa_routed_scaling_factor = or_default 1 (mc_routed_scaling_factor mc), fa_gate = gate,
               fa_shared_experts = shared, fa_image_sentinel_lo = sentinel, fa_swiglu_limit = mc_swiglu_limit mc,
               fa_enable_eplb = mc_enable_eplb mc, fa_num_redundant_experts = mo_num_redundant_experts mo,
               fa_is_sequence_parallel = mo_use_sequence_parallel mo, fa_layer_name = layer_name @ ''.experts''\<rparr>)))"

text \<open>\<open>names\<close> is the table of layer names, as in \<open>mega_init\<close>; groups are given as size and rank.\<close>

definition moe_init ::
  "moe_lib \<Rightarrow> moe_config \<Rightarrow> nat list list \<Rightarrow> rat list \<Rightarrow> string list \<Rightarrow> nat \<times> nat \<Rightarrow> nat \<Rightarrow> string
   \<Rightarrow> (moe_layer \<times> string list) result" where
  "moe_init ml mc table raw names ep tp_rank layer_name =
     (let mega = mc_moe_backend mc \<in> set (ml_mega_moe_backends ml);
          fi = ml_is_fi_moe_ep_backend ml (mc_moe_backend mc);
          mo = (mc_setup mc)\<lparr>mo_use_fi_mega_moe := fi\<rparr>;
          gate = init_gate ml mc table raw layer_name;
          shared = init_shared_experts mc mega;
          sentinel = (if has_vision mc then ml_image_sentinel_base_id ml else 0);
          layer = (\<lambda>ms xs. \<lparr>mk_prefix = layer_name, mk_use_mega_moe = mega,
              mk_routed_scaling_factor = or_default 1 (mc_routed_scaling_factor mc),
              mk_n_activated_experts = mo_num_experts_per_tok mo, mk_swiglu_limit = mc_swiglu_limit mc,
              mk_renormalize = mc_norm_topk_prob mc,
              mk_scoring_func = or_default ''sqrtsoftplus'' (mc_scoring_func mc), mk_gate = gate,
              mk_image_sentinel_lo = sentinel, mk_hash_int64 = mega, mk_shared_experts = shared,
              mk_shape = ms, mk_experts = xs\<rparr>)
      in bind_result (moe_guards ml mc mega) (\<lambda>_.
         if mega then
           bind_result (expert_placement (mo_n_routed_experts mo) (mo_num_redundant_experts mo) (mo_n_shared_experts mo)
                          (fst ep) (snd ep)) (\<lambda>ms.
             if fi then Inr (layer ms (MegaFI ms (mc_swiglu_limit mc) (layer_name @ ''.experts'')), names)
             else bind_result (init_mega_moe_experts mo names (fst ep) (snd ep) layer_name) (\<lambda>(me, names').
                    Inr (layer ms (Mega me), names')))
         else bind_result (init_fused_moe_experts mc gate shared sentinel (mo_tp_size mo) tp_rank layer_name)
                (\<lambda>(ms, xs). Inr (layer ms xs, names))))"

section \<open>The forward pass\<close>

record topk_args =
  ta_scoring_func :: string
  ta_e_score_correction_bias :: "rat list option"
  ta_topk :: nat
  ta_renormalize :: bool
  ta_int64 :: bool
  ta_input_tokens :: "nat list option"
  ta_hash_indices_table :: "nat list list option"
  ta_routed_scaling_factor :: rat
  ta_bias_vl :: "rat list option"
  ta_image_sentinel_lo :: nat

text \<open>The state of the load balancer for one layer; \<open>None\<close> until \<^verbatim>\<open>set_eplb_state\<close>.\<close>

record eplb_state =
  ep_expert_load_view :: "nat list option"
  ep_logical_to_physical_map :: "nat list list option"
  ep_logical_replica_count :: "nat list option"
  ep_should_record :: "bool option"
  ep_num_unpadded_tokens :: "nat list option"

text \<open>
  Router, kernels and the shared MLP.  \<open>ox_prepare\<close> quantises and lays out the rows a call puts into the
  symmetric buffer; the buffer's rows are of type \<open>'q\<close>.  \<open>ox_kernel\<close> reads the buffer and the number of
  output rows.
\<close>

record ('h, 'q) moe_ops =
  ox_gate :: "'h list \<Rightarrow> rat list list"
  ox_fused_topk_bias :: "topk_args \<Rightarrow> 'h list \<Rightarrow> rat list list \<Rightarrow> rat list list \<times> int list list"
  ox_eplb_map :: "int list list \<Rightarrow> nat list \<Rightarrow> nat list list \<Rightarrow> nat list \<Rightarrow> bool \<Rightarrow> nat option \<Rightarrow> int list list \<times> nat list"
  ox_block_m :: "nat \<Rightarrow> nat \<Rightarrow> nat \<Rightarrow> nat \<Rightarrow> nat \<Rightarrow> nat"
  ox_prepare :: "'h list \<Rightarrow> rat list list \<Rightarrow> int list list \<Rightarrow> bool list option \<Rightarrow> nat option \<Rightarrow> 'q list"
  ox_kernel :: "packed \<Rightarrow> packed \<Rightarrow> (packed \<times> packed) option \<Rightarrow> 'q list \<Rightarrow> nat \<Rightarrow> rat option \<Rightarrow> bool \<Rightarrow> 'h list"
  ox_shared_mlp :: "shared_mlp \<Rightarrow> 'h list \<Rightarrow> 'h list"
  ox_add :: "'h \<Rightarrow> 'h \<Rightarrow> 'h"
  ox_fused :: "fused_args \<Rightarrow> 'h list \<Rightarrow> nat list option \<Rightarrow> 'h list"
  ox_fi :: "moe_shape \<Rightarrow> 'h list \<Rightarrow> rat list list \<Rightarrow> int list list \<Rightarrow> rat option \<Rightarrow> 'h list"

text \<open>
  What a forward pass reads of its process and changes in it: the cache of symmetric buffers and their
  contents, which all layers share, the load balancer's state, and the routing decisions handed to a
  capture function (\<open>None\<close> when there is none).  \<open>mv_is_padding\<close> is \<open>None\<close> when padding is not skipped or
  there is no forward context.
\<close>

record 'q moe_env =
  mv_ep_world_size :: nat
  mv_group :: nat
  mv_device :: nat
  mv_ubatch :: nat
  mv_is_padding :: "bool list option option"
  mv_buffers :: "(symm_key \<times> nat) list"
  mv_rows :: "nat \<Rightarrow> 'q list"
  mv_eplb :: eplb_state
  mv_captured :: "int list list list option"

definition padding_mask :: "'q moe_env \<Rightarrow> nat \<Rightarrow> bool list option" where
  "padding_mask env num_tokens =
     (case mv_is_padding env of Some (Some pads) \<Rightarrow> Some (take num_tokens pads) | _ \<Rightarrow> None)"

definition mask_padding :: "bool list option \<Rightarrow> int list list \<Rightarrow> int list list" where
  "mask_padding pads ids =
     (case pads of None \<Rightarrow> ids | Some m \<Rightarrow> map2 (\<lambda>pad row. if pad then map (\<lambda>_. - 1) row else row) m ids)"

text \<open>Logical ids become physical replicas, and the load is recorded.\<close>

definition eplb_route ::
  "('h, 'q) moe_ops \<Rightarrow> nat \<Rightarrow> bool list option \<Rightarrow> int list list \<Rightarrow> eplb_state \<Rightarrow> (int list list \<times> eplb_state) result" where
  "eplb_route ox ubatch pads ids st =
     (case ep_logical_to_physical_map st of
        None \<Rightarrow> Inr (ids, st)
      | Some phys \<Rightarrow>
          (case (ep_expert_load_view st, ep_logical_replica_count st, ep_should_record st) of
             (Some loads, Some replicas, Some rec) \<Rightarrow>
               bind_result
                 (case ep_num_unpadded_tokens st of
                    None \<Rightarrow> Inr None
                  | Some ns \<Rightarrow> if ubatch < length ns then Inr (Some (ns ! ubatch))
                              else Inl (IndexError ''list index out of range''))
                 (\<lambda>unpadded.
                   let (ids', loads') = ox_eplb_map ox (mask_padding pads ids) loads phys replicas rec unpadded
                   in Inr (ids', st\<lparr>ep_expert_load_view := Some loads'\<rparr>))
           | _ \<Rightarrow> Inl (AssertionError ''eplb_state is not set'')))"

definition mega_forward ::
  "deep_gemm \<Rightarrow> ('h, 'q) moe_ops \<Rightarrow> mega_experts \<Rightarrow> 'h list \<Rightarrow> rat list list \<Rightarrow> int list list \<Rightarrow> rat option \<Rightarrow> bool
   \<Rightarrow> 'q moe_env \<Rightarrow> ('h list \<times> 'q moe_env) result" where
  "mega_forward dg ox self x topk_weights topk_ids activation_clamp fast_math env =
     raise_if (length x > me_max_num_tokens self)
       (ValueError ''the symmetric buffer was sized for fewer tokens'')
     (let (buf, cache) = get_symm_buffer dg (mv_group env) (mv_device env) self (mv_buffers env);
          num_tokens = length x;
          pads = padding_mask env num_tokens;
          captured = map_option (\<lambda>c. c @ [topk_ids]) (mv_captured env)
      in bind_result (eplb_route ox (mv_ubatch env) pads topk_ids (mv_eplb env)) (\<lambda>(ids, eplb).
         let block_m = (if has_fused_shared_experts self
                        then Some (ox_block_m ox (mv_ep_world_size env) (me_num_experts self) (me_max_num_tokens self)
                                     num_tokens (me_top_k self)) else None);
             rows = set_slice 0 (ox_prepare ox x topk_weights ids pads block_m) (mv_rows env buf);
             env' = env\<lparr>mv_buffers := cache, mv_rows := (mv_rows env)(buf := rows), mv_eplb := eplb,
                        mv_captured := captured\<rparr>
         in (case (me_transformed_l1_weights self, me_transformed_l2_weights self) of
               (Some l1, Some l2) \<Rightarrow>
                 let shared = (case (me_transformed_shared_l1_weights self, me_transformed_shared_l2_weights self) of
                                 (Some s1, Some s2) \<Rightarrow> Some (s1, s2) | _ \<Rightarrow> None)
                 in Inr (ox_kernel ox l1 l2 (if has_fused_shared_experts self then shared else None) rows num_tokens
                           activation_clamp fast_math, env')
             | _ \<Rightarrow> Inl (AssertionError ''_transformed_l1_weights is not None''))))"

definition route_args :: "moe_layer \<Rightarrow> nat list option \<Rightarrow> topk_args" where
  "route_args self input_ids =
     (let bias_vl = gt_bias_vl (mk_gate self)
      in \<lparr>ta_scoring_func = mk_scoring_func self,
          ta_e_score_correction_bias = gt_e_score_correction_bias (mk_gate self),
          ta_topk = mk_n_activated_experts self, ta_renormalize = mk_renormalize self,
          ta_int64 = mk_hash_int64 self, ta_input_tokens = input_ids,
          ta_hash_indices_table = gt_tid2eid (mk_gate self),
          ta_routed_scaling_factor = mk_routed_scaling_factor self, ta_bias_vl = bias_vl,
          ta_image_sentinel_lo = (if bias_vl \<noteq> None then mk_image_sentinel_lo self else 0)\<rparr>)"

text \<open>
  \<^verbatim>\<open>DeepseekV4MoE.forward\<close>.  The serial shared experts are added to the routed output unless the
  kernel has them fused; the FlashInfer class never fuses.
\<close>

definition moe_forward ::
  "deep_gemm \<Rightarrow> ('h, 'q) moe_ops \<Rightarrow> moe_layer \<Rightarrow> 'h list \<Rightarrow> nat list option \<Rightarrow> 'q moe_env \<Rightarrow> ('h list \<times> 'q moe_env) result" where
  "moe_forward dg ox self x input_ids env =
     raise_if (gt_tid2eid (mk_gate self) \<noteq> None \<and> input_ids = None)
       (ValueError ''DeepSeek V4 hash MoE routing requires input_ids.'')
     (raise_if (gt_bias_vl (mk_gate self) \<noteq> None \<and> input_ids = None)
       (ValueError ''DeepSeek V4 vision MoE routing requires input_ids.'')
     (let (w, ids) = ox_fused_topk_bias ox (route_args self input_ids) x (ox_gate ox x);
          serial = (\<lambda>y. case mk_shared_experts self of
                          None \<Rightarrow> y | Some sm \<Rightarrow> map2 (ox_add ox) y (ox_shared_mlp ox sm x))
      in (case mk_experts self of
            Fused fa \<Rightarrow> Inr (ox_fused ox fa x input_ids, env)
          | MegaFI ms clamp_value _ \<Rightarrow> Inr (serial (ox_fi ox ms x w ids (mk_swiglu_limit self)), env)
          | Mega me \<Rightarrow>
              bind_result (mega_forward dg ox me x w ids (mk_swiglu_limit self) True env) (\<lambda>(y, env').
                Inr (if has_fused_shared_experts me then y else serial y, env')))))"

text \<open>\<^verbatim>\<open>finalize_mega_moe_weights\<close>; \<open>lin\<close> are the layers of the shared MLP, when there is one.\<close>

definition finalize_mega_moe_weights ::
  "deep_gemm \<Rightarrow> nat \<Rightarrow> shared_linear \<times> shared_linear \<Rightarrow> moe_layer \<Rightarrow> moe_layer result" where
  "finalize_mega_moe_weights dg major lin self =
     (case mk_experts self of
        Mega me \<Rightarrow> bind_result (finalize_weights dg major me (if mk_shared_experts self = None then None else Some lin))
                     (\<lambda>me'. Inr (self\<lparr>mk_experts := Mega me'\<rparr>))
      | _ \<Rightarrow> Inr self)"

section \<open>The load balancer's views and counters\<close>

text \<open>
  A tensor as a view of a storage: sizes and strides of its dimensions.  \<^verbatim>\<open>is_contiguous\<close> ignores the
  stride of a dimension of size one, and every empty tensor is contiguous.
\<close>

record strided =
  st_shape :: "nat list"
  st_strides :: "nat list"
  st_data :: "int list"

fun row_major :: "nat list \<Rightarrow> nat list \<Rightarrow> bool" where
  "row_major [] [] = True"
| "row_major (d # ds) (s # ss) = ((d = 1 \<or> s = prod_list ds) \<and> row_major ds ss)"
| "row_major _ _ = False"

definition is_contiguous :: "strided \<Rightarrow> bool" where
  "is_contiguous t \<longleftrightarrow> prod_list (st_shape t) = 0 \<or> row_major (st_shape t) (st_strides t)"

definition view_rows :: "nat \<Rightarrow> strided \<Rightarrow> int list list result" where
  "view_rows n t =
     raise_if (n = 0) (RuntimeError ''cannot reshape tensor of 0 elements'')
     (let k = prod_list (st_shape t) div n
      in Inr (map (\<lambda>e. map (\<lambda>j. st_data t ! (e * k + j)) [0..<k]) [0..<n]))"

definition to_eplb_view :: "nat \<Rightarrow> strided \<Rightarrow> int list list result" where
  "to_eplb_view n t =
     (case st_shape t of
        [] \<Rightarrow> Inl (IndexError ''tuple index out of range'')
      | d # _ \<Rightarrow>
          raise_if (d \<noteq> n) (AssertionError ''t.shape[0] == self.num_local_experts'')
          (if is_contiguous t then view_rows n t
           else (case (st_shape t, st_strides t) of
                   ([d0, d1, d2], [s0, s1, s2]) \<Rightarrow>
                     if s1 = 1 \<and> s2 = d1 then
                       (let swapped = t\<lparr>st_shape := [d0, d2, d1], st_strides := [s0, s2, s1]\<rparr>
                        in raise_if (\<not> is_contiguous swapped) (AssertionError ''back.is_contiguous()'') (view_rows n swapped))
                     else Inl (AssertionError ''non-contiguous expert tensor with unexpected layout'')
                 | _ \<Rightarrow> Inl (AssertionError ''non-contiguous expert tensor with unexpected layout''))))"

text \<open>
  \<^verbatim>\<open>get_expert_weights\<close> finalises the routed weights first; \<open>parts\<close> are the layouts DeepGEMM gave the four
  tensors.
\<close>

fun eplb_views :: "nat \<Rightarrow> strided list \<Rightarrow> int list list list result" where
  "eplb_views n [] = Inr []"
| "eplb_views n (t # ts) = bind_result (to_eplb_view n t) (\<lambda>v. bind_result (eplb_views n ts) (\<lambda>vs. Inr (v # vs)))"

definition get_expert_weights ::
  "deep_gemm \<Rightarrow> nat \<Rightarrow> (packed \<Rightarrow> packed \<Rightarrow> strided list) \<Rightarrow> mega_experts \<Rightarrow> (mega_experts \<times> int list list list) result" where
  "get_expert_weights dg major parts self =
     bind_result (finalize_weights dg major self None) (\<lambda>self1.
       (case (me_transformed_l1_weights self1, me_transformed_l2_weights self1) of
          (Some l1, Some l2) \<Rightarrow>
            bind_result (eplb_views (me_num_local_experts self1) (parts l1 l2)) (\<lambda>vs. Inr (self1, vs))
        | _ \<Rightarrow> Inl (AssertionError ''_transformed_l1_weights is not None'')))"

text \<open>
  The counters of \<^verbatim>\<open>DeepseekV4MixtureOfExperts\<close>, and for each of its layers the local, physical and
  redundant experts.
\<close>

record moe_counters =
  mx_num_moe_layers :: nat
  mx_num_expert_groups :: nat
  mx_num_logical_experts :: nat
  mx_num_physical_experts :: nat
  mx_num_local_physical_experts :: nat
  mx_num_shared_experts :: nat
  mx_num_redundant_experts :: int
  mx_layers :: "(nat \<times> nat \<times> int) list"

text \<open>\<^verbatim>\<open>None\<close> among the layers is one that another pipeline stage holds.\<close>

definition extract_moe_parameters :: "nat \<Rightarrow> moe_shape list \<Rightarrow> moe_counters" where
  "extract_moe_parameters n_group shapes =
     (if shapes = []
      then \<lparr>mx_num_moe_layers = 0, mx_num_expert_groups = 0, mx_num_logical_experts = 0, mx_num_physical_experts = 0,
            mx_num_local_physical_experts = 0, mx_num_shared_experts = 0, mx_num_redundant_experts = 0, mx_layers = []\<rparr>
      else let e = last shapes
           in \<lparr>mx_num_moe_layers = length shapes, mx_num_expert_groups = n_group,
               mx_num_logical_experts = ms_n_logical_experts e, mx_num_physical_experts = ms_n_physical_experts e,
               mx_num_local_physical_experts = ms_n_local_physical_experts e, mx_num_shared_experts = ms_n_shared_experts e,
               mx_num_redundant_experts = int (ms_n_redundant_experts e),
               mx_layers = map (\<lambda>ms. (ms_n_local_physical_experts ms, ms_n_physical_experts ms, int (ms_n_redundant_experts ms))) shapes\<rparr>)"

definition set_moe_parameters :: "nat \<Rightarrow> moe_layer option list \<Rightarrow> moe_counters" where
  "set_moe_parameters n_group layers = extract_moe_parameters n_group (map mk_shape (List.map_filter id layers))"

definition update_physical_experts_metadata :: "nat \<Rightarrow> nat \<Rightarrow> moe_counters \<Rightarrow> moe_counters result" where
  "update_physical_experts_metadata num_physical num_local self =
     raise_if (mx_num_local_physical_experts self \<noteq> num_local)
       (AssertionError ''self.num_local_physical_experts == num_local_physical_experts'')
     (let redundant = int num_physical - int (mx_num_logical_experts self)
      in Inr (self\<lparr>mx_num_physical_experts := num_physical, mx_num_local_physical_experts := num_local,
              mx_num_redundant_experts := redundant,
              mx_layers := map (\<lambda>_. (num_local, num_physical, redundant)) (mx_layers self)\<rparr>))"

section \<open>A view's rows are the experts\<close>

definition elem3 :: "strided \<Rightarrow> nat \<Rightarrow> nat \<Rightarrow> nat \<Rightarrow> int" where
  "elem3 t i j k = (case st_strides t of [a, b, c] \<Rightarrow> st_data t ! (i * a + j * b + k * c) | _ \<Rightarrow> 0)"

lemma upt_as_product: "map (\<lambda>(j, k). j * n + k) (List.product [0..<m] [0..<n]) = [0..<m * n]"
proof (rule nth_equalityI)
  fix i assume "i < length (map (\<lambda>(j, k). j * n + k) (List.product [0..<m] [0..<n]))"
  then have i: "i < m * n" by simp
  then have "0 < n" "i div n < m" by (auto simp: less_mult_imp_div_less intro: ccontr)
  with i show "map (\<lambda>(j, k). j * n + k) (List.product [0..<m] [0..<n]) ! i = [0..<m * n] ! i"
    by (simp add: product_nth)
qed simp

lemma view_rows_elements:
  assumes v: "view_rows d0 t = Inr rows" and e: "e < d0" and s: "st_shape t = [d0, d1, d2]"
    and c: "is_contiguous t" "length (st_strides t) = 3"
  shows "rows ! e = map (\<lambda>(j, k). elem3 t e j k) (List.product [0..<d1] [0..<d2])"
proof -
  obtain s0 s1 s2 where st: "st_strides t = [s0, s1, s2]" using c(2) by (auto simp: length_Suc_conv numeral_3_eq_3)
  have at: "e * s0 + j * s1 + k * s2 = e * (d1 * d2) + (j * d2 + k)" if "j < d1" "k < d2" for j k
    using c(1) that e by (auto simp: is_contiguous_def s st)
  have "rows ! e = map (\<lambda>i. st_data t ! (e * (d1 * d2) + i)) [0..<d1 * d2]"
    using v e by (auto simp: view_rows_def raise_if_def s Let_def split: if_splits)
  also have "\<dots> = map (\<lambda>(j, k). st_data t ! (e * (d1 * d2) + (j * d2 + k))) (List.product [0..<d1] [0..<d2])"
    unfolding upt_as_product [symmetric] by (simp add: o_def case_prod_beta)
  also have "\<dots> = map (\<lambda>(j, k). elem3 t e j k) (List.product [0..<d1] [0..<d2])"
    by (auto simp: elem3_def st at)
  finally show ?thesis .
qed

lemma product_swap_mset:
  "mset (map (\<lambda>(j, k). f k j) (List.product ys xs)) = mset (map (\<lambda>(j, k). f j k) (List.product xs ys))"
proof -
  have "mset (map (\<lambda>(j, k). f k j) (List.product ys xs)) = (\<Sum>y\<in>#mset ys. \<Sum>x\<in>#mset xs. {#f x y#})"
    by (induction ys) (auto simp: o_def image_mset.compositionality[symmetric] intro: arg_cong2 [of _ _ _ _ "(+)"])
  also have "\<dots> = (\<Sum>x\<in>#mset xs. \<Sum>y\<in>#mset ys. {#f x y#})" by (rule sum_mset.swap)
  also have "\<dots> = mset (map (\<lambda>(j, k). f j k) (List.product xs ys))"
    by (induction xs) (auto simp: o_def intro: arg_cong2 [of _ _ _ _ "(+)"])
  finally show ?thesis .
qed

text \<open>
  The load balancer moves whole experts.  When a three-dimensional weight or scale tensor, in either
  of the two layouts DeepGEMM leaves, is viewed for the load balancer, row \<open>e\<close> of the view holds every
  element of local expert \<open>e\<close> exactly once and nothing of another expert; any other layout is refused.
\<close>

theorem eplb_view_rows_are_experts:
  assumes v: "to_eplb_view d0 t = Inr rows" and s: "st_shape t = [d0, d1, d2]" "length (st_strides t) = 3"
  shows "length rows = d0 \<and>
    (\<forall>e < d0. mset (rows ! e) = mset (map (\<lambda>(j, k). elem3 t e j k) (List.product [0..<d1] [0..<d2])))"
proof -
  obtain s0 s1 s2 where st: "st_strides t = [s0, s1, s2]" using s(2) by (auto simp: length_Suc_conv numeral_3_eq_3)
  let ?t' = "t\<lparr>st_shape := [d0, d2, d1], st_strides := [s0, s2, s1]\<rparr>"
  consider "is_contiguous t" "view_rows d0 t = Inr rows" | "is_contiguous ?t'" "view_rows d0 ?t' = Inr rows"
    using v by (auto simp: to_eplb_view_def s(1) st raise_if_def Let_def split: if_splits)
  then show ?thesis
  proof cases
    case 1
    then have "length rows = d0" by (auto simp: view_rows_def raise_if_def Let_def split: if_splits)
    with view_rows_elements [OF 1(2) _ s(1) 1(1) s(2)] show ?thesis by simp
  next
    case 2
    then have l: "length rows = d0" by (auto simp: view_rows_def raise_if_def Let_def split: if_splits)
    have "rows ! e = map (\<lambda>(k, j). elem3 t e j k) (List.product [0..<d2] [0..<d1])" if "e < d0" for e
      using view_rows_elements [OF 2(2) that _ 2(1)] by (simp add: elem3_def st ac_simps)
    then show ?thesis using l product_swap_mset [of "\<lambda>j k. elem3 t _ j k"] by simp
  qed
qed

definition eplb_demo :: strided where
  "eplb_demo = \<lparr>st_shape = [2, 2, 3], st_strides = [6, 1, 2], st_data = [0, 1, 2, 3, 4, 5, 10, 11, 12, 13, 14, 15]\<rparr>"

theorem eplb_view_rows_are_experts_witness:
  "\<exists>rows. to_eplb_view 2 eplb_demo = Inr rows \<and>
    mset (rows ! 1) = mset (map (\<lambda>(j, k). elem3 eplb_demo 1 j k) (List.product [0..<2] [0..<3]))"
proof -
  obtain rows where v: "to_eplb_view 2 eplb_demo = Inr rows"
    by (simp add: to_eplb_view_def eplb_demo_def is_contiguous_def view_rows_def Let_def)
  have s: "st_shape eplb_demo = [2, 2, 3]" "length (st_strides eplb_demo) = 3" by (simp_all add: eplb_demo_def)
  show ?thesis using eplb_view_rows_are_experts [OF v s] v by (metis one_less_numeral_iff semiring_norm(76))
qed

section \<open>Shared experts count once\<close>

text \<open>
  What the fused kernel promises: it reads the first rows of the buffer only, one per token; and with
  the shared weights and the rows prepared for them it adds the shared MLP's output.
\<close>

definition kernel_reads_own_rows :: "('h, 'q) moe_ops \<Rightarrow> bool" where
  "kernel_reads_own_rows ox \<longleftrightarrow>
     (\<forall>x w ids pads b. length (ox_prepare ox x w ids pads b) = length x) \<and>
     (\<forall>l1 l2 s rows rows' n c f. take n rows = take n rows' \<longrightarrow>
        ox_kernel ox l1 l2 s rows n c f = ox_kernel ox l1 l2 s rows' n c f)"

definition kernel_adds_shared :: "('h, 'q) moe_ops \<Rightarrow> packed \<times> packed \<Rightarrow> shared_mlp \<Rightarrow> bool" where
  "kernel_adds_shared ox shared sm \<longleftrightarrow>
     (\<forall>l1 l2 x w ids pads b c f.
        ox_kernel ox l1 l2 (Some shared) (ox_prepare ox x w ids pads (Some b)) (length x) c f
        = map2 (ox_add ox) (ox_kernel ox l1 l2 None (ox_prepare ox x w ids pads None) (length x) c f)
            (ox_shared_mlp ox sm x))"

lemma kernel_ignores_old_rows:
  assumes "kernel_reads_own_rows ox"
  shows "ox_kernel ox l1 l2 s (set_slice 0 (ox_prepare ox x w ids pads b) old) (length x) c f
       = ox_kernel ox l1 l2 s (ox_prepare ox x w ids pads b) (length x) c f"
proof -
  have len: "length (ox_prepare ox x w ids pads b) = length x"
    using assms unfolding kernel_reads_own_rows_def by blast
  then have "take (length x) (set_slice 0 (ox_prepare ox x w ids pads b) old)
      = take (length x) (ox_prepare ox x w ids pads b)" by (simp add: set_slice_def)
  then show ?thesis using assms unfolding kernel_reads_own_rows_def by blast
qed

lemma finalize_routed_weights:
  assumes "finalize_routed dg major me = Inr me'" "me_transformed_l1_weights me = None"
  shows "\<exists>l1 l2. me_transformed_l1_weights me' = Some l1 \<and> me_transformed_l2_weights me' = Some l2"
    "me_transformed_shared_l1_weights me' = me_transformed_shared_l1_weights me"
    "me_max_num_tokens me' = me_max_num_tokens me"
  using assms unfolding finalize_routed_def check_runtime_supported_def
  by (auto simp: Let_def raise_if_eq_Inr split: option.splits prod.splits)

lemma finalize_shared_weights:
  assumes "finalize_shared_expert_weights dg me gate_up down = (me', flag)"
    "me_transformed_shared_l1_weights me = None"
  shows "me_transformed_l1_weights me' = me_transformed_l1_weights me"
    "me_transformed_l2_weights me' = me_transformed_l2_weights me" "me_max_num_tokens me' = me_max_num_tokens me"
    "me_transformed_shared_l1_weights me' = None \<or>
     (\<exists>s1 s2. me_transformed_shared_l1_weights me' = Some s1 \<and> me_transformed_shared_l2_weights me' = Some s2)"
  using assms unfolding finalize_shared_expert_weights_def
  by (auto simp: Let_def split: option.splits prod.splits if_splits)

text \<open>After the finalisation the routed weights are there, and shared weights only if the layer has a shared MLP.\<close>

lemma finalized_weights:
  assumes fin: "finalize_weights dg major me shared = Inr me'"
    and new: "me_transformed_l1_weights me = None" "me_transformed_shared_l1_weights me = None"
  shows "\<exists>l1 l2. me_transformed_l1_weights me' = Some l1 \<and> me_transformed_l2_weights me' = Some l2"
    "me_max_num_tokens me' = me_max_num_tokens me"
    "\<not> has_fused_shared_experts me' \<or> shared \<noteq> None \<and>
       (\<exists>s1 s2. me_transformed_shared_l1_weights me' = Some s1 \<and> me_transformed_shared_l2_weights me' = Some s2)"
proof -
  obtain me1 where r: "finalize_routed dg major me = Inr me1"
    using fin unfolding finalize_weights_def by (auto simp: bind_result_eq_Inr)
  note w = finalize_routed_weights [OF r new(1)]
  have "me' = me1 \<or> me' = me1\<lparr>me_num_shared_experts := 0\<rparr> \<or>
      (\<exists>g d. shared = Some (g, d) \<and> me' = fst (finalize_shared_expert_weights dg me1 g d))"
    using fin r unfolding finalize_weights_def by (auto split: option.splits if_splits prod.splits)
  then consider "me' = me1 \<or> me' = me1\<lparr>me_num_shared_experts := 0\<rparr>"
    | g d f where "shared = Some (g, d)" "finalize_shared_expert_weights dg me1 g d = (me', f)"
    by (metis prod.collapse)
  note cases = this
  have n1: "me_transformed_shared_l1_weights me1 = None" using w(2) new(2) by simp
  have "(\<exists>l1 l2. me_transformed_l1_weights me' = Some l1 \<and> me_transformed_l2_weights me' = Some l2) \<and>
     me_max_num_tokens me' = me_max_num_tokens me \<and>
     (\<not> has_fused_shared_experts me' \<or> shared \<noteq> None \<and>
       (\<exists>s1 s2. me_transformed_shared_l1_weights me' = Some s1 \<and> me_transformed_shared_l2_weights me' = Some s2))"
    using cases
  proof cases
    case 1 with n1 w show ?thesis by (auto simp: has_fused_shared_experts_def)
  next
    case 2 with finalize_shared_weights [OF 2(2) n1] w show ?thesis by (auto simp: has_fused_shared_experts_def)
  qed
  then show "\<exists>l1 l2. me_transformed_l1_weights me' = Some l1 \<and> me_transformed_l2_weights me' = Some l2"
    "me_max_num_tokens me' = me_max_num_tokens me"
    "\<not> has_fused_shared_experts me' \<or> shared \<noteq> None \<and>
       (\<exists>s1 s2. me_transformed_shared_l1_weights me' = Some s1 \<and> me_transformed_shared_l2_weights me' = Some s2)"
    by blast+
qed

text \<open>A constructed layer with MegaMoE experts, before its weights are finalised.\<close>

lemma moe_init_mega:
  assumes "moe_init ml mc table raw names ep tp_rank nm = Inr (self, names')" "mk_experts self = Mega me"
  shows "me_transformed_l1_weights me = None" "me_transformed_shared_l1_weights me = None"
    "me_max_num_tokens me = mo_max_num_batched_tokens (mc_setup mc)"
  using assms unfolding moe_init_def init_fused_moe_experts_def init_mega_moe_experts_def mega_init_def
  by (auto simp: Let_def bind_result_eq_Inr raise_if_eq_Inr split: if_splits)

text \<open>The output of the routed experts alone, on rows prepared for this call.\<close>

definition routed_output ::
  "('h, 'q) moe_ops \<Rightarrow> moe_layer \<Rightarrow> mega_experts \<Rightarrow> 'h list \<Rightarrow> rat list list \<Rightarrow> int list list \<Rightarrow> bool list option \<Rightarrow> 'h list" where
  "routed_output ox self me x w ids pads =
     ox_kernel ox (the (me_transformed_l1_weights me)) (the (me_transformed_l2_weights me)) None
       (ox_prepare ox x w ids pads None) (length x) (mk_swiglu_limit self) True"

lemma mega_forward_output:
  assumes own: "kernel_reads_own_rows ox" and len: "length x \<le> me_max_num_tokens me"
    and w: "me_transformed_l1_weights me = Some l1" "me_transformed_l2_weights me = Some l2"
    and route: "eplb_route ox (mv_ubatch env) (padding_mask env (length x)) ids (mv_eplb env) = Inr (ids', eplb')"
    and sh: "has_fused_shared_experts me \<Longrightarrow>
      me_transformed_shared_l1_weights me = Some s1 \<and> me_transformed_shared_l2_weights me = Some s2 \<and>
      kernel_adds_shared ox (s1, s2) sm"
  shows "\<exists>env'. mega_forward dg ox me x wts ids c True env = Inr
      (let y = ox_kernel ox l1 l2 None (ox_prepare ox x wts ids' (padding_mask env (length x)) None) (length x) c True
       in if has_fused_shared_experts me then map2 (ox_add ox) y (ox_shared_mlp ox sm x) else y, env')"
proof -
  obtain buf cache where b: "get_symm_buffer dg (mv_group env) (mv_device env) me (mv_buffers env) = (buf, cache)"
    by fastforce
  show ?thesis
  proof (cases "has_fused_shared_experts me")
    case True
    from sh [OF True] have s: "me_transformed_shared_l1_weights me = Some s1" "me_transformed_shared_l2_weights me = Some s2"
      and add: "kernel_adds_shared ox (s1, s2) sm" by blast+
    have add': "ox_kernel ox l1 l2 (Some (s1, s2)) (ox_prepare ox x wts i p (Some bm)) (length x) c True
        = map2 (ox_add ox) (ox_kernel ox l1 l2 None (ox_prepare ox x wts i p None) (length x) c True) (ox_shared_mlp ox sm x)"
      for i p bm using add unfolding kernel_adds_shared_def by blast
    show ?thesis
      using len unfolding mega_forward_def
      by (simp add: b route w s True Let_def kernel_ignores_old_rows [OF own] add')
  next
    case False
    then show ?thesis
      using len unfolding mega_forward_def
      by (simp add: b route w Let_def kernel_ignores_old_rows [OF own])
  qed
qed

text \<open>
  C13. Shared experts count exactly once.  Take a layer as it is constructed and finalised, with MegaMoE
  experts, on a batch within the scheduler's token budget and with the token ids its routing needs.
  Whether the finalisation fused the shared experts into the kernel or switched the fusion off (an
  old DeepGEMM, unsuitable weights or scales), the forward pass returns the routed experts' output plus
  the shared MLP's output, and the routed output alone when the model has no shared experts.  The result
  does not depend on what earlier calls of this or another layer left in the shared symmetric buffer.
\<close>

theorem shared_experts_once:
  assumes init: "moe_init ml mc table raw names ep tp_rank nm = Inr (self0, names')"
    and fin: "finalize_mega_moe_weights dg major lin self0 = Inr self" and mega: "mk_experts self = Mega me"
    and ids: "gt_tid2eid (mk_gate self) = None \<and> gt_bias_vl (mk_gate self) = None \<or> input_ids \<noteq> None"
    and len: "length x \<le> mo_max_num_batched_tokens (mc_setup mc)"
    and topk: "ox_fused_topk_bias ox (route_args self input_ids) x (ox_gate ox x) = (w, chosen)"
    and route: "eplb_route ox (mv_ubatch env) (padding_mask env (length x)) chosen (mv_eplb env) = Inr (placed, eplb)"
    and own: "kernel_reads_own_rows ox"
    and adds: "\<And>s1 s2 sm. me_transformed_shared_l1_weights me = Some s1 \<Longrightarrow> me_transformed_shared_l2_weights me = Some s2 \<Longrightarrow>
      mk_shared_experts self = Some sm \<Longrightarrow> kernel_adds_shared ox (s1, s2) sm"
  shows "\<exists>env'. moe_forward dg ox self x input_ids env = Inr
    (let y = routed_output ox self me x w placed (padding_mask env (length x))
     in case mk_shared_experts self of None \<Rightarrow> y | Some sm \<Rightarrow> map2 (ox_add ox) y (ox_shared_mlp ox sm x), env')"
proof -
  obtain me0 where me0: "mk_experts self0 = Mega me0" and sh: "mk_shared_experts self = mk_shared_experts self0"
    and f: "finalize_weights dg major me0 (if mk_shared_experts self0 = None then None else Some lin) = Inr me"
    using fin mega unfolding finalize_mega_moe_weights_def by (auto simp: bind_result_eq_Inr split: moe_experts.splits)
  note m0 = moe_init_mega [OF init me0]
  note m = finalized_weights [OF f m0(1,2)]
  obtain l1 l2 where l: "me_transformed_l1_weights me = Some l1" "me_transformed_l2_weights me = Some l2" using m(1) by blast
  have len': "length x \<le> me_max_num_tokens me" using len m(2) m0(3) by simp
  let ?s1 = "the (me_transformed_shared_l1_weights me)" and ?s2 = "the (me_transformed_shared_l2_weights me)"
    and ?sm = "the (mk_shared_experts self)"
  have fused: "me_transformed_shared_l1_weights me = Some ?s1 \<and> me_transformed_shared_l2_weights me = Some ?s2 \<and>
      kernel_adds_shared ox (?s1, ?s2) ?sm \<and> mk_shared_experts self = Some ?sm"
    if "has_fused_shared_experts me" using m(3) that adds by (auto simp: sh split: if_splits)
  obtain env' where mf: "mega_forward dg ox me x w chosen (mk_swiglu_limit self) True env = Inr
      (let y = ox_kernel ox l1 l2 None (ox_prepare ox x w placed (padding_mask env (length x)) None) (length x) (mk_swiglu_limit self) True
       in if has_fused_shared_experts me then map2 (ox_add ox) y (ox_shared_mlp ox ?sm x) else y, env')"
    using mega_forward_output [OF own len' l route, of ?s1 ?s2 ?sm dg w "mk_swiglu_limit self"] fused by blast
  show ?thesis
    using fused ids unfolding moe_forward_def
    by (cases "has_fused_shared_experts me")
      (auto simp: topk mega mf l routed_output_def Let_def raise_if_def split: option.splits)
qed

definition moe_demo_lib :: moe_lib where
  "moe_demo_lib = \<lparr>ml_mega_moe_backends = [''deep_gemm_mega_moe''], ml_is_fi_moe_ep_backend = (\<lambda>_. False),
     ml_validate_fi_moe_ep_config = (\<lambda>_. Inr ()), ml_extract_layer_index = (\<lambda>_. 0), ml_image_sentinel_base_id = 128\<rparr>"

definition moe_demo_config :: moe_config where
  "moe_demo_config = \<lparr>mc_setup = mega_demo_setup\<lparr>mo_hidden_size := 128, mo_moe_intermediate_size := 128\<rparr>,
     mc_moe_backend = ''deep_gemm_mega_moe'', mc_enable_expert_parallel = True, mc_enable_eplb = False,
     mc_routed_scaling_factor = None, mc_swiglu_limit = None, mc_norm_topk_prob = True, mc_scoring_func = None,
     mc_expert_dtype = None, mc_vision_n_layers = Some 2, mc_num_hash_layers = 1, mc_topk_method = Some ''noaux_tc''\<rparr>"

definition moe_demo_linear :: "nat \<Rightarrow> shared_linear" where
  "moe_demo_linear rows = \<lparr>
     sl_weight = \<lparr>cw_dtype = W_float8_e4m3fn, cw_rows = replicate rows (replicate 128 0), cw_cols = 128\<rparr>,
     sl_scale_dtype = W_int32, sl_scale_rows = [[1]], sl_scale_cols = 1, sl_weight_block_size = None\<rparr>"

definition moe_demo_ops :: "(int, int) moe_ops" where
  "moe_demo_ops = \<lparr>ox_gate = (\<lambda>_. []), ox_fused_topk_bias = (\<lambda>_ _ _. ([], [])), ox_eplb_map = (\<lambda>ids loads _ _ _ _. (ids, loads)),
     ox_block_m = (\<lambda>_ _ _ _ _. 64), ox_prepare = (\<lambda>x _ _ _ _. x),
     ox_kernel = (\<lambda>_ _ s rows n _ _. map (\<lambda>q. if s = None then 10 * q else 13 * q) (take n rows)),
     ox_shared_mlp = (\<lambda>_. map ((*) 3)), ox_add = (+), ox_fused = (\<lambda>_ x _. x), ox_fi = (\<lambda>_ x _ _ _. x)\<rparr>"

definition moe_demo_env :: "int moe_env" where
  "moe_demo_env = \<lparr>mv_ep_world_size = 3, mv_group = 0, mv_device = 0, mv_ubatch = 0, mv_is_padding = None, mv_buffers = [],
     mv_rows = (\<lambda>_. [7, 7, 7, 7]), mv_eplb = \<lparr>ep_expert_load_view = None, ep_logical_to_physical_map = None,
       ep_logical_replica_count = None, ep_should_record = None, ep_num_unpadded_tokens = None\<rparr>, mv_captured = Some []\<rparr>"

lemma moe_demo_contract: "kernel_reads_own_rows moe_demo_ops" "kernel_adds_shared moe_demo_ops s sm"
  unfolding kernel_reads_own_rows_def kernel_adds_shared_def moe_demo_ops_def
  by (auto simp: list_eq_iff_nth_eq)

text \<open>A layer of the demonstration can be constructed and finalised.\<close>

lemma moe_demo_layer:
  "\<exists>self0 names' self me. moe_init moe_demo_lib moe_demo_config [[0]] [0] [] (3, 0) 0 ''layers.0.ffn'' = Inr (self0, names')
    \<and> finalize_mega_moe_weights mega_demo_dg 10 (moe_demo_linear 256, moe_demo_linear 128) self0 = Inr self
    \<and> mk_experts self = Mega me \<and> mk_shared_experts self \<noteq> None"
proof -
  let ?lin = "(moe_demo_linear 256, moe_demo_linear 128)"
  obtain self0 names' me0 where i: "moe_init moe_demo_lib moe_demo_config [[0]] [0] [] (3, 0) 0 ''layers.0.ffn'' = Inr (self0, names')"
    and me0: "mk_experts self0 = Mega me0" "mk_shared_experts self0 \<noteq> None" "me_hidden_size me0 = 128" "me_intermediate_size me0 = 128"
      "me_w13_weight me0 \<noteq> None" "me_w13_weight_scale me0 \<noteq> None" "me_w2_weight me0 \<noteq> None" "me_w2_weight_scale me0 \<noteq> None"
    unfolding moe_init_def moe_demo_lib_def moe_demo_config_def mega_demo_setup_def moe_guards_def expert_placement_def
      init_mega_moe_experts_def mega_init_def or_default_def init_shared_experts_def
    by (auto simp: Let_def)
  have "\<exists>s. finalize_routed mega_demo_dg 10 me0 = Inr s"
    using me0 moe_init_mega [OF i me0(1)] by (auto simp: finalize_routed_def check_runtime_supported_def Let_def split: prod.splits)
  then have "\<exists>me. finalize_weights mega_demo_dg 10 me0 (Some ?lin) = Inr me" by (auto simp: finalize_weights_def split: if_split)
  then obtain me where me: "finalize_weights mega_demo_dg 10 me0 (Some ?lin) = Inr me" by blast
  have "finalize_mega_moe_weights mega_demo_dg 10 ?lin self0 = Inr (self0\<lparr>mk_experts := Mega me\<rparr>)"
    using me0(1,2) me by (auto simp: finalize_mega_moe_weights_def)
  then show ?thesis using i me0(2)
    by (intro exI [of _ self0] exI [of _ names'] exI [of _ "self0\<lparr>mk_experts := Mega me\<rparr>"] exI [of _ me]) simp
qed

text \<open>Two tokens through the first layer, whose shared expert is fused.\<close>

theorem shared_experts_once_witness:
  "\<exists>self0 names' self env'. moe_init moe_demo_lib moe_demo_config [[0]] [0] [] (3, 0) 0 ''layers.0.ffn'' = Inr (self0, names')
    \<and> finalize_mega_moe_weights mega_demo_dg 10 (moe_demo_linear 256, moe_demo_linear 128) self0 = Inr self
    \<and> moe_forward mega_demo_dg moe_demo_ops self [1, 2] (Some [0, 0]) moe_demo_env = Inr ([13, 26], env')"
proof -
  obtain self0 names' self me where i: "moe_init moe_demo_lib moe_demo_config [[0]] [0] [] (3, 0) 0 ''layers.0.ffn'' = Inr (self0, names')"
    and f: "finalize_mega_moe_weights mega_demo_dg 10 (moe_demo_linear 256, moe_demo_linear 128) self0 = Inr self"
    and m: "mk_experts self = Mega me" "mk_shared_experts self \<noteq> None" using moe_demo_layer by blast
  have n: "length [1, 2 :: int] \<le> mo_max_num_batched_tokens (mc_setup moe_demo_config)"
    by (simp add: moe_demo_config_def mega_demo_setup_def)
  have t: "ox_fused_topk_bias moe_demo_ops (route_args self (Some [0, 0])) [1, 2] (ox_gate moe_demo_ops [1, 2]) = ([], [])"
    by (simp add: moe_demo_ops_def)
  have r: "eplb_route moe_demo_ops (mv_ubatch moe_demo_env) (padding_mask moe_demo_env (length [1, 2 :: int])) [] (mv_eplb moe_demo_env)
      = Inr ([], mv_eplb moe_demo_env)" by (simp add: eplb_route_def moe_demo_env_def)
  have ids: "gt_tid2eid (mk_gate self) = None \<and> gt_bias_vl (mk_gate self) = None \<or> Some [0, 0 :: nat] \<noteq> None" by simp
  note out = shared_experts_once [OF i f m(1) ids n t r moe_demo_contract]
  have k: "routed_output moe_demo_ops self me [1, 2] [] [] p = [10, 20]"
    "ox_shared_mlp moe_demo_ops sm [1, 2] = [3, 6]" "ox_add moe_demo_ops = (+)" for p sm
    by (simp_all add: routed_output_def moe_demo_ops_def)
  have "\<exists>env'. moe_forward mega_demo_dg moe_demo_ops self [1, 2] (Some [0, 0]) moe_demo_env = Inr ([13, 26], env')"
    using out m(2) by (auto simp: k split: option.splits)
  then show ?thesis using i f by blast
qed

end
