(* ===== verification/ModelStage.thy ===== *)
theory ModelStage
  imports ModelForward MoeLayer
begin

text \<open>
  A loaded pipeline stage: the forward pass of \<^verbatim>\<open>ModelForward\<close> over layers whose feed-forward part is the
  mixture-of-experts layer of \<^verbatim>\<open>MoeLayer\<close>, after \<^verbatim>\<open>process_weights_after_loading\<close>.

  A tensor is the list of its rows, one per token.  Between layers the pass keeps the state of the
  MegaMoE experts (shared buffers, load counters) and, as a parameter, that of the attention.
\<close>

section \<open>The state and the layers\<close>

text \<open>
  \<open>sg_moe\<close> is what all expert layers share; the load balancer's state and the captured routing belong to
  one layer each.  \<open>sg_rest\<close> is the attention's.
\<close>

record ('q, 's) stage_env =
  sg_moe :: "'q moe_env"
  sg_eplb :: "nat \<Rightarrow> eplb_state"
  sg_captured :: "nat \<Rightarrow> int list list list option"
  sg_rest :: 's

record ('h, 'q, 's) stage_layer =
  sl_ops :: "('h list, ('q, 's) stage_env) layer_ops"
  sl_ffn :: moe_layer

text \<open>\<^verbatim>\<open>self.ffn(x, input_ids)\<close> of layer \<open>i\<close>.\<close>

definition layer_ffn ::
  "deep_gemm \<Rightarrow> ('h, 'q) moe_ops \<Rightarrow> moe_layer \<Rightarrow> nat \<Rightarrow> 'h list \<Rightarrow> nat list option \<Rightarrow> ('q, 's) stage_env
   \<Rightarrow> ('h list \<times> ('q, 's) stage_env) result" where
  "layer_ffn dg ox self i x input_ids env =
     bind_result (moe_forward dg ox self x input_ids
                    ((sg_moe env)\<lparr>mv_eplb := sg_eplb env i, mv_captured := sg_captured env i\<rparr>)) (\<lambda>(y, e).
       Inr (y, env\<lparr>sg_moe := e, sg_eplb := (sg_eplb env)(i := mv_eplb e),
                   sg_captured := (sg_captured env)(i := mv_captured e)\<rparr>))"

definition stage_layer_call ::
  "deep_gemm \<Rightarrow> ('h, 'q) moe_ops \<Rightarrow> bool \<Rightarrow> nat \<Rightarrow> ('h, 'q, 's) stage_layer \<Rightarrow> nat list \<Rightarrow> nat list option \<Rightarrow> 'h list
   \<Rightarrow> 'h list stream option \<Rightarrow> ('q, 's) stage_env \<Rightarrow> (('h list \<times> 'h list stream) \<times> ('q, 's) stage_env) result" where
  "stage_layer_call dg ox use_sp i layer =
     decoder_layer use_sp ((sl_ops layer)\<lparr>lo_ffn := layer_ffn dg ox (sl_ffn layer) i\<rparr>)"

definition stage_layers ::
  "deep_gemm \<Rightarrow> ('h, 'q) moe_ops \<Rightarrow> bool \<Rightarrow> ('h, 'q, 's) stage_layer list \<Rightarrow>
   (nat list \<Rightarrow> nat list option \<Rightarrow> 'h list \<Rightarrow> 'h list stream option \<Rightarrow> ('q, 's) stage_env
    \<Rightarrow> (('h list \<times> 'h list stream) \<times> ('q, 's) stage_env) result) list" where
  "stage_layers dg ox use_sp layers = map (\<lambda>i. stage_layer_call dg ox use_sp i (layers ! i)) [0..<length layers]"

section \<open>After loading\<close>

text \<open>\<^verbatim>\<open>finalize_mega_moe_weights\<close> of the model, over the indices of the stage's layers.\<close>

fun finalize_mega_layers ::
  "deep_gemm \<Rightarrow> nat \<Rightarrow> (nat \<Rightarrow> shared_linear \<times> shared_linear) \<Rightarrow> nat list \<Rightarrow> ('h, 'q, 's) stage_layer list
   \<Rightarrow> ('h, 'q, 's) stage_layer list result" where
  "finalize_mega_layers dg major lin [] layers = Inr layers"
| "finalize_mega_layers dg major lin (i # idxs) layers =
     bind_result (finalize_mega_moe_weights dg major (lin i) (sl_ffn (layers ! i))) (\<lambda>ffn.
       finalize_mega_layers dg major lin idxs (layers[i := (layers ! i)\<lparr>sl_ffn := ffn\<rparr>]))"

definition process_weights_after_loading ::
  "deep_gemm \<Rightarrow> nat \<Rightarrow> (nat \<Rightarrow> shared_linear \<times> shared_linear) \<Rightarrow> (('h list, ('q, 's) stage_env) layer_ops \<Rightarrow> 'h list)
   \<Rightarrow> bool \<Rightarrow> nat \<Rightarrow> nat \<Rightarrow> ('h, 'q, 's) stage_layer list \<Rightarrow> ('h, 'q, 's) stage_layer list result" where
  "process_weights_after_loading dg major lin folded first_rank start_layer end_layer layers =
     bind_result (finalize_mega_layers dg major lin [start_layer..<end_layer] layers) (\<lambda>layers1.
       Inr (map2 (\<lambda>layer ops. layer\<lparr>sl_ops := ops\<rparr>) layers1
              (finalize_mhc_broadcast_weights folded first_rank start_layer end_layer (map sl_ops layers1))))"

lemma finalize_mega_layers_at:
  assumes "finalize_mega_layers dg major lin idxs ls = Inr ls'" "distinct idxs" "\<forall>i \<in> set idxs. i < length ls"
  shows "length ls' = length ls \<and> map sl_ops ls' = map sl_ops ls \<and> (\<forall>i. i \<notin> set idxs \<longrightarrow> ls' ! i = ls ! i)
    \<and> (\<forall>i \<in> set idxs. finalize_mega_moe_weights dg major (lin i) (sl_ffn (ls ! i)) = Inr (sl_ffn (ls' ! i)))"
  using assms
proof (induction idxs arbitrary: ls)
  case (Cons j idxs)
  obtain ffn where f: "finalize_mega_moe_weights dg major (lin j) (sl_ffn (ls ! j)) = Inr ffn"
    and r: "finalize_mega_layers dg major lin idxs (ls[j := (ls ! j)\<lparr>sl_ffn := ffn\<rparr>]) = Inr ls'"
    using Cons.prems(1) by (auto simp: bind_result_eq_Inr)
  have j: "j < length ls" "j \<notin> set idxs" "distinct idxs" using Cons.prems by simp_all
  have b: "\<forall>i \<in> set idxs. i < length (ls[j := (ls ! j)\<lparr>sl_ffn := ffn\<rparr>])" using Cons.prems(3) by simp
  note ih = Cons.IH [OF r j(3) b]
  have m: "map sl_ops (ls[j := (ls ! j)\<lparr>sl_ffn := ffn\<rparr>]) = map sl_ops ls"
    using j(1) by (simp add: map_update list_update_same_conv)
  have jj: "ls' ! j = (ls ! j)\<lparr>sl_ffn := ffn\<rparr>" using ih j by simp
  have "finalize_mega_moe_weights dg major (lin i) (sl_ffn (ls ! i)) = Inr (sl_ffn (ls' ! i))" if "i \<in> set idxs" for i
  proof -
    have "i \<noteq> j" using that j(2) by blast
    moreover have "finalize_mega_moe_weights dg major (lin i) (sl_ffn (ls[j := (ls ! j)\<lparr>sl_ffn := ffn\<rparr>] ! i)) = Inr (sl_ffn (ls' ! i))"
      using ih that by blast
    ultimately show ?thesis by simp
  qed
  moreover have "finalize_mega_moe_weights dg major (lin j) (sl_ffn (ls ! j)) = Inr (sl_ffn (ls' ! j))" using f jj by simp
  moreover have "ls' ! i = ls ! i" if "i \<notin> set (j # idxs)" for i
  proof -
    have "ls' ! i = ls[j := (ls ! j)\<lparr>sl_ffn := ffn\<rparr>] ! i" using ih that by simp
    then show ?thesis using that by simp
  qed
  moreover have "length ls' = length ls" "map sl_ops ls' = map sl_ops ls" using ih m by simp_all
  ultimately show ?case by simp
qed simp

text \<open>What a loaded stage's layers are, from the layers before loading.\<close>

lemma loaded_layers:
  assumes p: "process_weights_after_loading dg major lin folded fr a b ls = Inr ls'" and ab: "a < b" "b \<le> length ls"
  shows "length ls' = length ls"
    "a \<le> i \<Longrightarrow> i < b \<Longrightarrow> finalize_mega_moe_weights dg major (lin i) (sl_ffn (ls ! i)) = Inr (sl_ffn (ls' ! i))"
    "i < b \<Longrightarrow> sl_ops (ls' ! i) = (if fr \<and> i = a then (sl_ops (ls ! i))\<lparr>lo_broadcast := Some (folded (sl_ops (ls ! i)))\<rparr>
       else sl_ops (ls ! i))"
proof -
  obtain l1 where f: "finalize_mega_layers dg major lin [a..<b] ls = Inr l1"
    and l': "ls' = map2 (\<lambda>layer ops. layer\<lparr>sl_ops := ops\<rparr>) l1
      (finalize_mhc_broadcast_weights folded fr a b (map sl_ops l1))"
    using p by (auto simp: process_weights_after_loading_def bind_result_eq_Inr)
  have "\<forall>i \<in> set [a..<b]. i < length ls" using ab by simp
  note g = finalize_mega_layers_at [OF f distinct_upt this]
  then have l: "length l1 = length ls" and o: "map sl_ops l1 = map sl_ops ls" by blast+
  show n: "length ls' = length ls" by (simp add: l' l finalize_mhc_broadcast_weights_def)
  have at: "ls' ! i = (l1 ! i)\<lparr>sl_ops := finalize_mhc_broadcast_weights folded fr a b (map sl_ops ls) ! i\<rparr>" if "i < b" for i
    using that ab by (simp add: l' o l finalize_mhc_broadcast_weights_def)
  show "a \<le> i \<Longrightarrow> i < b \<Longrightarrow> finalize_mega_moe_weights dg major (lin i) (sl_ffn (ls ! i)) = Inr (sl_ffn (ls' ! i))"
    using g at by simp
  show "i < b \<Longrightarrow> sl_ops (ls' ! i) = (if fr \<and> i = a then (sl_ops (ls ! i))\<lparr>lo_broadcast := Some (folded (sl_ops (ls ! i)))\<rparr>
       else sl_ops (ls ! i))"
    using at ab by (auto simp: finalize_mhc_broadcast_weights_def nth_list_update)
qed

section \<open>A finalised expert layer returns\<close>

text \<open>The load balancer is off, or all its tensors are set and there is one count per micro-batch.\<close>

definition eplb_ready :: "nat \<Rightarrow> eplb_state \<Rightarrow> bool" where
  "eplb_ready ubatch st \<longleftrightarrow> ep_logical_to_physical_map st = None \<or>
     ep_expert_load_view st \<noteq> None \<and> ep_logical_replica_count st \<noteq> None \<and> ep_should_record st \<noteq> None \<and>
     (\<forall>ns. ep_num_unpadded_tokens st = Some ns \<longrightarrow> ubatch < length ns)"

text \<open>The kernels and the shared MLP give one row per token.\<close>

definition experts_keep_tokens :: "('h, 'q) moe_ops \<Rightarrow> bool" where
  "experts_keep_tokens ox \<longleftrightarrow>
     (\<forall>l1 l2 s rows n c f. length (ox_kernel ox l1 l2 s rows n c f) = n) \<and>
     (\<forall>sm x. length (ox_shared_mlp ox sm x) = length x) \<and>
     (\<forall>fa x ids. length (ox_fused ox fa x ids) = length x) \<and>
     (\<forall>ms x w ids c. length (ox_fi ox ms x w ids c) = length x)"

lemma eplb_route_ready:
  assumes "eplb_ready ubatch st"
  shows "\<exists>ids' st'. eplb_route ox ubatch pads ids st = Inr (ids', st') \<and> eplb_ready ubatch st'"
  using assms unfolding eplb_ready_def eplb_route_def
  by (auto simp: Let_def split: option.splits prod.splits)

lemma mega_forward_returns:
  assumes keep: "experts_keep_tokens ox" and len: "length x \<le> me_max_num_tokens me"
    and w: "me_transformed_l1_weights me = Some l1" "me_transformed_l2_weights me = Some l2"
    and ready: "eplb_ready (mv_ubatch env) (mv_eplb env)"
  shows "\<exists>y env'. mega_forward dg ox me x wts ids c f env = Inr (y, env') \<and> length y = length x
    \<and> mv_ubatch env' = mv_ubatch env \<and> eplb_ready (mv_ubatch env) (mv_eplb env')"
proof -
  obtain ids' st' where r: "eplb_route ox (mv_ubatch env) (padding_mask env (length x)) ids (mv_eplb env) = Inr (ids', st')"
    "eplb_ready (mv_ubatch env) st'" using eplb_route_ready [OF ready] by blast
  obtain buf cache where b: "get_symm_buffer dg (mv_group env) (mv_device env) me (mv_buffers env) = (buf, cache)" by fastforce
  have k: "length (ox_kernel ox a b' s rows n c f) = n" for a b' s rows n c f using keep unfolding experts_keep_tokens_def by blast
  show ?thesis using len r unfolding mega_forward_def by (simp add: b w Let_def k)
qed

lemma moe_forward_returns:
  assumes init: "moe_init ml mc table raw names ep tp_rank nm = Inr (self0, names')"
    and fin: "finalize_mega_moe_weights dg major lin self0 = Inr self"
    and keep: "experts_keep_tokens ox" and len: "length x \<le> mo_max_num_batched_tokens (mc_setup mc)"
    and ready: "eplb_ready (mv_ubatch env) (mv_eplb env)"
  shows "\<exists>y env'. moe_forward dg ox self x (Some toks) env = Inr (y, env') \<and> length y = length x
    \<and> mv_ubatch env' = mv_ubatch env \<and> eplb_ready (mv_ubatch env) (mv_eplb env')"
proof -
  obtain w ids where t: "ox_fused_topk_bias ox (route_args self (Some toks)) x (ox_gate ox x) = (w, ids)" by fastforce
  have serial: "length (case mk_shared_experts self of None \<Rightarrow> y | Some sm \<Rightarrow> map2 (ox_add ox) y (ox_shared_mlp ox sm x)) = length x"
    if "length y = length x" for y using that keep by (simp add: experts_keep_tokens_def split: option.splits)
  show ?thesis
  proof (cases "mk_experts self")
    case (Mega me)
    then obtain me0 sh where me0: "mk_experts self0 = Mega me0" and f: "finalize_weights dg major me0 sh = Inr me"
      using fin unfolding finalize_mega_moe_weights_def by (auto simp: bind_result_eq_Inr split: moe_experts.splits)
    note m0 = moe_init_mega [OF init me0]
    note m = finalized_weights [OF f m0(1,2)]
    obtain l1 l2 where l: "me_transformed_l1_weights me = Some l1" "me_transformed_l2_weights me = Some l2" using m(1) by blast
    have len': "length x \<le> me_max_num_tokens me" using len m(2) m0(3) by simp
    from mega_forward_returns [OF keep len' l ready, of dg w ids "mk_swiglu_limit self" True] show ?thesis
      unfolding moe_forward_def using Mega serial by (auto simp: t raise_if_def)
  next
    case (MegaFI ms c nm)
    have "length (ox_fi ox ms x w ids (mk_swiglu_limit self)) = length x" using keep by (simp add: experts_keep_tokens_def)
    then show ?thesis unfolding moe_forward_def using MegaFI serial ready by (simp add: t raise_if_def)
  next
    case (Fused fa)
    then show ?thesis unfolding moe_forward_def using keep ready by (simp add: t raise_if_def experts_keep_tokens_def)
  qed
qed

section \<open>A layer\<close>

text \<open>
  What the kernels and collectives of a layer promise, for \<open>n\<close> tokens of which the rank holds \<open>m\<close> (all of
  them without sequence parallelism): each mixing kernel gives one row per token, gathering gives at
  least the rows of all tokens and scattering the rank's.  When the attention returns, it gives one row per
  token and has left the state of the experts alone; it may raise.
\<close>

definition layer_contract :: "bool \<Rightarrow> nat \<Rightarrow> nat \<Rightarrow> ('h list, ('q, 's) stage_env) layer_ops \<Rightarrow> bool" where
  "layer_contract use_sp n m lo \<longleftrightarrow>
     (\<forall>x fn. length (snd (lo_pre_broadcast lo x fn)) = length x) \<and> (\<forall>x. length (snd (snd (lo_pre lo x))) = length x) \<and>
     (\<forall>x s. length (snd (lo_attn_post_pre lo x s)) = length x) \<and> (\<forall>x s. length (snd (lo_ffn_post_pre lo x s)) = length x) \<and>
     (\<forall>x k. lo_first lo k x = take k x) \<and>
     (use_sp \<longrightarrow> (\<forall>x. length x = m \<longrightarrow> n \<le> length (lo_all_gather lo x)) \<and>
       (\<forall>x. length x = n \<longrightarrow> length (lo_reduce_scatter lo x) = m)) \<and>
     (\<not> use_sp \<longrightarrow> m = n) \<and>
     (\<forall>ps x env y env'. lo_attn lo ps x env = Inr (y, env') \<longrightarrow>
        length y = length x \<and> sg_moe env' = sg_moe env \<and> sg_eplb env' = sg_eplb env)"

text \<open>The state between layers: the load balancer of every layer of the stage is ready.\<close>

definition stage_ready :: "nat \<Rightarrow> nat \<Rightarrow> ('q, 's) stage_env \<Rightarrow> bool" where
  "stage_ready a b env \<longleftrightarrow> (\<forall>i. a \<le> i \<and> i < b \<longrightarrow> eplb_ready (mv_ubatch (sg_moe env)) (sg_eplb env i))"

lemma layer_ffn_returns:
  assumes moe: "\<And>env. eplb_ready (mv_ubatch env) (mv_eplb env) \<Longrightarrow>
      \<exists>y env'. moe_forward dg ox self x ids env = Inr (y, env') \<and> length y = length x
        \<and> mv_ubatch env' = mv_ubatch env \<and> eplb_ready (mv_ubatch env) (mv_eplb env')"
    and r: "stage_ready a b env" and i: "a \<le> i" "i < b"
  shows "\<exists>y env'. layer_ffn dg ox self i x ids env = Inr (y, env') \<and> length y = length x \<and> stage_ready a b env'"
proof -
  let ?e = "(sg_moe env)\<lparr>mv_eplb := sg_eplb env i, mv_captured := sg_captured env i\<rparr>"
  have "eplb_ready (mv_ubatch ?e) (mv_eplb ?e)" using r i by (simp add: stage_ready_def)
  then obtain y e where m: "moe_forward dg ox self x ids ?e = Inr (y, e)" "length y = length x"
      "mv_ubatch e = mv_ubatch (sg_moe env)" "eplb_ready (mv_ubatch (sg_moe env)) (mv_eplb e)"
    using moe by fastforce
  then show ?thesis using r by (simp add: layer_ffn_def stage_ready_def)
qed

lemma layer_outcome:
  assumes con: "layer_contract use_sp n m lo" and ps: "length ps = n" and x: "length x = m"
    and entry: "stream \<noteq> None \<or> \<not> lo_dim2 lo x \<or> lo_broadcast lo \<noteq> None"
    and ready: "stage_ready a b env" and i: "a \<le> i" "i < b"
    and ffn: "\<And>x env. length x = m \<Longrightarrow> stage_ready a b env \<Longrightarrow>
      \<exists>y env'. lo_ffn lo x ids env = Inr (y, env') \<and> length y = length x \<and> stage_ready a b env'"
  shows "(\<exists>y s env'. decoder_layer use_sp lo ps ids x stream env = Inr ((y, s), env') \<and> length y = m \<and> stage_ready a b env')
    \<or> (\<exists>e x2. decoder_layer use_sp lo ps ids x stream env = Inl e \<and> length x2 = n \<and> lo_attn lo ps x2 env = Inl e)"
proof -
  note c = con [unfolded layer_contract_def]
  have "\<exists>s1 x1. enter_layer lo x stream = Inr (s1, x1) \<and> length x1 = length x"
  proof (cases stream)
    case None
    show ?thesis
    proof (cases "lo_dim2 lo x")
      case True
      then obtain fn where "lo_broadcast lo = Some fn" using entry None by auto
      then show ?thesis using c None True by (simp add: enter_layer_def) (metis surjective_pairing)
    next
      case False
      obtain p r x' where "lo_pre lo x = (p, r, x')" by (metis prod_cases3)
      moreover have "length (snd (snd (lo_pre lo x))) = length x" using c by blast
      ultimately show ?thesis using None False by (simp add: enter_layer_def)
    qed
  next
    case (Some s)
    have "length (snd (lo_attn_post_pre lo x s)) = length x" using c by blast
    then show ?thesis using Some by (simp add: enter_layer_def) (metis surjective_pairing)
  qed
  then obtain s1 x1 where e: "enter_layer lo x stream = Inr (s1, x1)" "length x1 = m" using x by auto
  define x2 where "x2 = (if use_sp then lo_first lo (length ps) (lo_all_gather lo x1) else x1)"
  have sp: "lo_first lo k x = take k x" "use_sp \<Longrightarrow> length x = m \<Longrightarrow> n \<le> length (lo_all_gather lo x)"
    "use_sp \<Longrightarrow> length x = n \<Longrightarrow> length (lo_reduce_scatter lo x) = m" "\<not> use_sp \<Longrightarrow> m = n" for k x using c by blast+
  have x2: "length x2 = n" unfolding x2_def using sp(2) [of x1] sp(4) e(2) ps by (cases use_sp) (simp_all add: sp(1))
  show ?thesis
  proof (cases "lo_attn lo ps x2 env")
    case (Inl err)
    then have "decoder_layer use_sp lo ps ids x stream env = Inl err" using e by (simp add: decoder_layer_def x2_def [symmetric])
    then show ?thesis using Inl x2 by blast
  next
    case (Inr r)
    obtain x3 env1 where a: "lo_attn lo ps x2 env = Inr (x3, env1)" using Inr by (cases r) simp
    have k: "length x3 = n" "sg_moe env1 = sg_moe env" "sg_eplb env1 = sg_eplb env" using c a x2 by blast+
    define x4 where "x4 = (if use_sp then lo_reduce_scatter lo x3 else x3)"
    have x4: "length x4 = m" unfolding x4_def using sp(3) [of x3] sp(4) k(1) by (cases use_sp) simp_all
    obtain s2 x5 where f: "lo_ffn_post_pre lo x4 s1 = (s2, x5)" by fastforce
    have "length (snd (lo_ffn_post_pre lo x4 s1)) = length x4" using c by blast
    then have x5: "length x5 = m" using f x4 by simp
    have r1: "stage_ready a b env1" using ready k by (simp add: stage_ready_def)
    obtain y env2 where "lo_ffn lo x5 ids env1 = Inr (y, env2)" "length y = m" "stage_ready a b env2"
      using ffn [OF x5 r1] x5 by auto
    moreover from this have "decoder_layer use_sp lo ps ids x stream env = Inr ((y, s2), env2)"
      using e a f by (simp add: decoder_layer_def x2_def [symmetric] x4_def [symmetric])
    ultimately show ?thesis by blast
  qed
qed

section \<open>The stage\<close>

text \<open>
  A loaded stage: layers \<open>a\<close> to \<open>b\<close> were constructed from one configuration and went through
  \<^verbatim>\<open>process_weights_after_loading\<close>; the model's calls are theirs.
\<close>

definition loaded_stage ::
  "deep_gemm \<Rightarrow> ('h, 'q) moe_ops \<Rightarrow> moe_lib \<Rightarrow> moe_config \<Rightarrow> ('h, 'q, 's) stage_layer list
   \<Rightarrow> ('h list, ('q, 's) stage_env) model_ops \<Rightarrow> bool" where
  "loaded_stage dg ox ml mc layers0 mo \<longleftrightarrow>
     mf_start_layer mo < mf_end_layer mo \<and> mf_end_layer mo \<le> length layers0 \<and>
     (\<forall>i. mf_start_layer mo \<le> i \<and> i < mf_end_layer mo \<longrightarrow>
        (\<exists>table raw names ep tp nm names'. moe_init ml mc table raw names ep tp nm = Inr (sl_ffn (layers0 ! i), names'))) \<and>
     (\<exists>major lin folded layers.
        process_weights_after_loading dg major lin folded (mf_first_rank mo) (mf_start_layer mo) (mf_end_layer mo) layers0 = Inr layers \<and>
        mf_layers mo = stage_layers dg ox (mf_use_sp mo) layers)"

text \<open>The model's own collectives and its last mixing kernel, and the sharding of the token ids.\<close>

definition stage_contract :: "nat \<Rightarrow> nat \<Rightarrow> ('h list, 'e) model_ops \<Rightarrow> bool" where
  "stage_contract n m mo \<longleftrightarrow>
     (\<forall>x s. length (mf_mhc_post mo x s) = length x) \<and> (\<forall>x. mf_rows mo x = length x) \<and> (\<forall>k x. mf_first mo k x = take k x) \<and>
     (mf_use_sp mo \<longrightarrow> (\<forall>x. length x = n \<longrightarrow> length (mf_shard mo x) = m) \<and>
        (\<forall>x. length x = m \<longrightarrow> n \<le> length (mf_gather mo x)) \<and> (\<forall>ids. \<exists>ids'. mf_shard_ids mo (Some ids) = Inr (Some ids')))"

text \<open>
  The input a stage is given: the embeddings or token ids whose embedding returns, or the tensors of the
  stage before, which have all residual streams.
\<close>

definition stage_given ::
  "('h list, 'e) model_ops \<Rightarrow> ('h list \<Rightarrow> bool) \<Rightarrow> nat \<Rightarrow> nat list \<Rightarrow> 'h list option \<Rightarrow> 'h list option \<Rightarrow> bool" where
  "stage_given mo dim2 n toks intermediate inputs_embeds \<longleftrightarrow>
     (if mf_first_rank mo
      then (case inputs_embeds of Some e \<Rightarrow> length e = n | None \<Rightarrow> \<exists>h. mf_embed mo (Some toks) = Inr h \<and> length h = n)
      else \<exists>h. intermediate = Some h \<and> length h = n \<and> \<not> dim2 (if mf_use_sp mo then mf_shard mo h else h))"

lemma trace_outcome:
  assumes step: "\<And>i x s env. i \<in> set idxs \<Longrightarrow> length x = m \<Longrightarrow> stage_ready a b env \<Longrightarrow> s \<noteq> None \<or> x = xi \<and> i = ii \<Longrightarrow>
      (\<exists>y s' env'. (mf_layers mo ! i) ps ids x s env = Inr ((y, s'), env') \<and> length y = m \<and> stage_ready a b env')
      \<or> (\<exists>e. (mf_layers mo ! i) ps ids x s env = Inl e \<and> Q e)"
    and "length x = m" "stage_ready a b env" "s \<noteq> None \<or> x = xi \<and> idxs \<noteq> [] \<and> hd idxs = ii"
  shows "(\<exists>tr env'. layer_trace mo ps ids idxs x s env = Inr (tr, env') \<and> (\<forall>t \<in> set tr. length (fst t) = m) \<and> stage_ready a b env')
    \<or> (\<exists>e. layer_trace mo ps ids idxs x s env = Inl e \<and> Q e)"
  using assms
proof (induction idxs arbitrary: x s env)
  case (Cons i idxs)
  have "s \<noteq> None \<or> x = xi \<and> i = ii" using Cons.prems(4) by simp
  from Cons.prems(1) [OF _ Cons.prems(2,3) this] consider
      y s' env' where "(mf_layers mo ! i) ps ids x s env = Inr ((y, s'), env')" "length y = m" "stage_ready a b env'"
    | e where "(mf_layers mo ! i) ps ids x s env = Inl e" "Q e" by auto
  then show ?case
  proof cases
    case 1
    have "(\<exists>tr env''. layer_trace mo ps ids idxs y (Some s') env' = Inr (tr, env'') \<and> (\<forall>t \<in> set tr. length (fst t) = m) \<and> stage_ready a b env'')
      \<or> (\<exists>e. layer_trace mo ps ids idxs y (Some s') env' = Inl e \<and> Q e)"
      by (rule Cons.IH [OF _ 1(2,3)]) (use Cons.prems(1) in auto)
    then show ?thesis using 1 by auto
  next
    case 2 then show ?thesis by simp
  qed
qed simp

lemma stage_layer_outcome:
  assumes stage: "loaded_stage dg ox ml mc layers0 mo" and keep: "experts_keep_tokens ox"
    and con: "layer_contract (mf_use_sp mo) n m (sl_ops (layers0 ! i))" and ps: "length ps = n"
    and i: "mf_start_layer mo \<le> i" "i < mf_end_layer mo" and x: "length x = m" "m \<le> mo_max_num_batched_tokens (mc_setup mc)"
    and ready: "stage_ready (mf_start_layer mo) (mf_end_layer mo) env"
    and entry: "s \<noteq> None \<or> mf_first_rank mo \<and> i = mf_start_layer mo \<or> \<not> lo_dim2 (sl_ops (layers0 ! i)) x"
  shows "(\<exists>y s' env'. (mf_layers mo ! i) ps (Some toks) x s env = Inr ((y, s'), env') \<and> length y = m
      \<and> stage_ready (mf_start_layer mo) (mf_end_layer mo) env')
    \<or> (\<exists>e x2. (mf_layers mo ! i) ps (Some toks) x s env = Inl e \<and> length x2 = n \<and> lo_attn (sl_ops (layers0 ! i)) ps x2 env = Inl e)"
proof -
  let ?a = "mf_start_layer mo" and ?b = "mf_end_layer mo" and ?sp = "mf_use_sp mo"
  obtain major lin folded layers where p: "process_weights_after_loading dg major lin folded (mf_first_rank mo) ?a ?b layers0 = Inr layers"
    and ml: "mf_layers mo = stage_layers dg ox ?sp layers" and ab: "?a < ?b" "?b \<le> length layers0"
    using stage unfolding loaded_stage_def by blast
  obtain table raw names ep tp nm names' where init: "moe_init ml mc table raw names ep tp nm = Inr (sl_ffn (layers0 ! i), names')"
    using stage i unfolding loaded_stage_def by blast
  note l = loaded_layers [OF p ab]
  note fin = l(2) [OF i]
  let ?lo = "(sl_ops (layers ! i))\<lparr>lo_ffn := layer_ffn dg ox (sl_ffn (layers ! i)) i\<rparr>"
  have call: "mf_layers mo ! i = decoder_layer ?sp ?lo"
    using i ab l(1) by (simp add: ml stage_layers_def stage_layer_call_def)
  have o: "lo_attn ?lo = lo_attn (sl_ops (layers0 ! i))" "lo_dim2 ?lo = lo_dim2 (sl_ops (layers0 ! i))"
    "layer_contract ?sp n m ?lo" "mf_first_rank mo \<and> i = ?a \<Longrightarrow> lo_broadcast ?lo \<noteq> None"
    using l(3) [OF i(2)] con by (auto simp: layer_contract_def)
  have en: "s \<noteq> None \<or> \<not> lo_dim2 ?lo x \<or> lo_broadcast ?lo \<noteq> None" using entry o(2,4) by auto
  have f: "\<exists>y env'. lo_ffn ?lo z (Some toks) e = Inr (y, env') \<and> length y = length z \<and> stage_ready ?a ?b env'"
    if "length z = m" "stage_ready ?a ?b e" for z e
  proof -
    have "length z \<le> mo_max_num_batched_tokens (mc_setup mc)" using that(1) x(2) by simp
    then show ?thesis using layer_ffn_returns [OF moe_forward_returns [OF init fin keep] that(2) i] by simp
  qed
  show ?thesis unfolding call using layer_outcome [OF o(3) ps x(1) en ready i f] unfolding o(1) by blast
qed

text \<open>
  C40. A loaded stage raises only what its attention raises.  Take a pipeline stage whose layers were
  constructed from one configuration and have gone through \<^verbatim>\<open>process_weights_after_loading\<close>: the experts'
  weights are finalised, and the first layer of the first rank has its folded matrix.  On token ids, on
  the input its position in the pipeline gives it and on a batch within the scheduler's token budget, with
  the load balancer off or set up, the forward pass
  either returns, or raises an exception that the attention of one of its layers raised on a tensor with one row per
  token.  So no guard of the expert layers (missing token ids, too many tokens for the symmetric
  buffer, missing weights, missing load balancer tensors), no assertion of the layers or the model and no mismatch of
  the hidden-state buffer is reached, with and without sequence parallelism.  When it returns, a rank that is not the
  last hands on one row per token it holds, the last one has filled the buffer with one row per token of the batch, and the load
  balancer is set up as before, so the next pass can run.
\<close>

theorem loaded_stage_returns:
  assumes stage: "loaded_stage dg ox ml mc layers0 mo" and keep: "experts_keep_tokens ox"
    and con: "stage_contract (length positions) m mo"
      "\<forall>i. mf_start_layer mo \<le> i \<and> i < mf_end_layer mo \<longrightarrow> layer_contract (mf_use_sp mo) (length positions) m (sl_ops (layers0 ! i))"
    and given: "stage_given mo (lo_dim2 (sl_ops (layers0 ! mf_start_layer mo))) (length positions) toks intermediate inputs_embeds"
    and batch: "length positions \<le> mo_max_num_batched_tokens (mc_setup mc)" "m \<le> length positions"
    and buf: "\<forall>c h. buf = Some (c, h) \<longrightarrow> c = mo_max_num_batched_tokens (mc_setup mc)"
    and ready: "stage_ready (mf_start_layer mo) (mf_end_layer mo) env"
  shows "(\<exists>out buf' env'. model_forward mo (Some toks) positions intermediate inputs_embeds buf env = Inr (out, buf', env')
      \<and> stage_ready (mf_start_layer mo) (mf_end_layer mo) env'
      \<and> (if mf_last_rank mo
         then (\<exists>h aux. out = Final h aux) \<and> (\<forall>c h0. buf = Some (c, h0) \<longrightarrow> (\<exists>h. buf' = Some (c, Some h) \<and> length h = length positions))
         else (\<exists>h. out = Intermediate h \<and> length h = m) \<and> buf' = buf))
    \<or> (\<exists>e i x env'. model_forward mo (Some toks) positions intermediate inputs_embeds buf env = Inl e
        \<and> mf_start_layer mo \<le> i \<and> i < mf_end_layer mo \<and> length x = length positions
        \<and> lo_attn (sl_ops (layers0 ! i)) positions x env' = Inl e)"
proof -
  let ?a = "mf_start_layer mo" and ?b = "mf_end_layer mo" and ?n = "length positions" and ?max = "mo_max_num_batched_tokens (mc_setup mc)"
  have ab: "?a < ?b" using stage by (simp add: loaded_stage_def)
  have mn: "\<not> mf_use_sp mo \<Longrightarrow> m = ?n" using con(2) ab by (auto simp: layer_contract_def)
  note c = con(1) [unfolded stage_contract_def]
  have c1: "length (mf_mhc_post mo x s) = length x" "mf_rows mo x = length x" "mf_first mo k x = take k x" for x s k
    using c by blast+
  have c2: "length x = ?n \<Longrightarrow> length (if mf_use_sp mo then mf_shard mo x else x) = m"
    "mf_use_sp mo \<Longrightarrow> length x = m \<Longrightarrow> ?n \<le> length (mf_gather mo x)" for x using c mn by auto
  obtain h0 where h0: "stage_input mo (Some toks) inputs_embeds intermediate = Inr h0" "length h0 = ?n"
    "mf_first_rank mo \<or> \<not> lo_dim2 (sl_ops (layers0 ! ?a)) (if mf_use_sp mo then mf_shard mo h0 else h0)"
    using given by (auto simp: stage_given_def stage_input_def split: if_splits option.splits)
  have "\<exists>ids. mf_use_sp mo \<longrightarrow> mf_shard_ids mo (Some toks) = Inr (Some ids)" using c by blast
  then obtain ids where ids: "stage_ids mo (Some toks) = Inr (Some ids)"
    by (cases "mf_use_sp mo") (auto simp: stage_ids_def raise_if_def)
  let ?h = "if mf_use_sp mo then mf_shard mo h0 else h0"
  let ?Q = "\<lambda>e. \<exists>i x env'. ?a \<le> i \<and> i < ?b \<and> length x = ?n \<and> lo_attn (sl_ops (layers0 ! i)) positions x env' = Inl e"
  have step: "(\<exists>y s' env'. (mf_layers mo ! i) positions (Some ids) x s e = Inr ((y, s'), env') \<and> length y = m \<and> stage_ready ?a ?b env')
      \<or> (\<exists>err. (mf_layers mo ! i) positions (Some ids) x s e = Inl err \<and> ?Q err)"
    if "i \<in> set [?a..<?b]" "length x = m" "stage_ready ?a ?b e" "s \<noteq> None \<or> x = ?h \<and> i = ?a" for i x s e
  proof -
    have i: "?a \<le> i" "i < ?b" using that(1) by simp_all
    have con': "layer_contract (mf_use_sp mo) ?n m (sl_ops (layers0 ! i))" using con(2) i by blast
    have mx: "m \<le> ?max" using batch by simp
    have "s \<noteq> None \<or> mf_first_rank mo \<and> i = ?a \<or> \<not> lo_dim2 (sl_ops (layers0 ! i)) x" using that(4) h0(3) by auto
    from stage_layer_outcome [OF stage keep con' refl i that(2) mx that(3) this] show ?thesis using i by blast
  qed
  have ne: "[?a..<?b] \<noteq> []" "hd [?a..<?b] = ?a" using ab by simp_all
  have hd0: "None \<noteq> (None :: 'a list stream option) \<or> ?h = ?h \<and> [?a..<?b] \<noteq> [] \<and> hd [?a..<?b] = ?a" using ne by simp
  have tr: "(\<exists>tr env'. layer_trace mo positions (Some ids) [?a..<?b] ?h None env = Inr (tr, env')
      \<and> (\<forall>t \<in> set tr. length (fst t) = m) \<and> stage_ready ?a ?b env')
    \<or> (\<exists>e. layer_trace mo positions (Some ids) [?a..<?b] ?h None env = Inl e \<and> ?Q e)"
    by (rule trace_outcome [where xi = ?h and ii = ?a]) ((rule step; assumption) | rule c2(1) [OF h0(2)] ready hd0)+
  have ref: "model_forward mo (Some toks) positions intermediate inputs_embeds buf env
      = bind_result (layer_trace mo positions (Some ids) [?a..<?b] ?h None env) (\<lambda>(tr, env').
          bind_result (finish mo ?n buf (map (aux_of mo ?n) (captured mo [?a..<?b] tr))
              (mf_mhc_post mo (fst (last tr)) (snd (last tr)))) (\<lambda>(out, buf'). Inr (out, buf', env')))"
    unfolding model_forward_reference [OF ab] reference_forward_def h0(1) ids by (simp add: Let_def)
  from tr show ?thesis
  proof (elim disjE exE conjE)
    fix e i x env' assume "layer_trace mo positions (Some ids) [?a..<?b] ?h None env = Inl e" "?a \<le> i" "i < ?b" "length x = ?n"
      "lo_attn (sl_ops (layers0 ! i)) positions x env' = Inl e"
    then show ?thesis unfolding ref by (intro disjI2 exI [of _ e] exI [of _ i] exI [of _ x] exI [of _ env']) simp
  next
    fix trc env' assume t: "layer_trace mo positions (Some ids) [?a..<?b] ?h None env = Inr (trc, env')"
      "\<forall>t \<in> set trc. length (fst t) = m" "stage_ready ?a ?b env'"
    have "trc \<noteq> []" using layer_trace_length [OF t(1)] ab by auto
    then have m: "length (mf_mhc_post mo (fst (last trc)) (snd (last trc))) = m" using t(2) by (simp add: c1)
    let ?x = "mf_mhc_post mo (fst (last trc)) (snd (last trc))"
    let ?x1 = "if mf_use_sp mo then mf_first mo ?n (mf_gather mo ?x) else ?x"
    have x1: "length ?x1 = ?n" using m c2(2) [of ?x] mn by (simp add: c1)
    have fin: "\<exists>out buf'. finish mo ?n buf aux ?x = Inr (out, buf') \<and> (if mf_last_rank mo
         then (\<exists>h aux. out = Final h aux) \<and> (\<forall>c h0. buf = Some (c, h0) \<longrightarrow> (\<exists>h. buf' = Some (c, Some h) \<and> length h = ?n))
         else (\<exists>h. out = Intermediate h \<and> length h = m) \<and> buf' = buf)" for aux
      using x1 buf batch(1) m by (cases buf) (auto simp: finish_def c1(2) raise_if_def Let_def)
    from fin [of "map (aux_of mo ?n) (captured mo [?a..<?b] trc)"] obtain out buf' where
        f: "finish mo ?n buf (map (aux_of mo ?n) (captured mo [?a..<?b] trc)) ?x = Inr (out, buf')"
      and g: "if mf_last_rank mo
         then (\<exists>h aux. out = Final h aux) \<and> (\<forall>c h0. buf = Some (c, h0) \<longrightarrow> (\<exists>h. buf' = Some (c, Some h) \<and> length h = ?n))
         else (\<exists>h. out = Intermediate h \<and> length h = m) \<and> buf' = buf" by blast
    have "model_forward mo (Some toks) positions intermediate inputs_embeds buf env = Inr (out, buf', env')"
      unfolding ref t(1) bind_result_Inr prod.case f ..
    then show ?thesis using g t(3) by (intro disjI1 exI [of _ out] exI [of _ buf'] exI [of _ env'] conjI)
  qed
qed

text \<open>
  Two layers over integers on a single rank, which starts from token ids and ends with a buffer of eight rows: attention
  counts its calls, and the experts are constructed and finalised as in the demonstration of \<^verbatim>\<open>MoeLayer\<close>.
\<close>

definition stage_demo_experts :: "(int, int) moe_ops" where
  "stage_demo_experts = moe_demo_ops\<lparr>ox_kernel := (\<lambda>_ _ s rows n _ _.
     map (\<lambda>k. (if s = None then 10 else 13) * (if k < length rows then rows ! k else 0)) [0..<n])\<rparr>"

definition stage_demo_ops :: "(int list, (int, nat) stage_env) layer_ops" where
  "stage_demo_ops = \<lparr>lo_dim2 = (\<lambda>_. True), lo_broadcast = None, lo_pre_broadcast = (\<lambda>x fn. ((x, x, x), x)),
     lo_pre = (\<lambda>x. (x, x, x)), lo_attn_post_pre = (\<lambda>x s. (s, x)), lo_ffn_post_pre = (\<lambda>x s. (s, x)),
     lo_all_gather = (\<lambda>x. x), lo_reduce_scatter = (\<lambda>x. x), lo_first = take,
     lo_attn = (\<lambda>ps x env. Inr (map (\<lambda>v. v + 1) x, env\<lparr>sg_rest := sg_rest env + 1\<rparr>)),
     lo_ffn = (\<lambda>x ids env. Inr (x, env))\<rparr>"

definition stage_demo_layers :: "moe_layer \<Rightarrow> (int, int, nat) stage_layer list" where
  "stage_demo_layers ffn = replicate 2 \<lparr>sl_ops = stage_demo_ops, sl_ffn = ffn\<rparr>"

definition stage_demo :: "(int, int, nat) stage_layer list \<Rightarrow> (int list, (int, nat) stage_env) model_ops" where
  "stage_demo layers = \<lparr>mf_first_rank = True, mf_last_rank = True, mf_use_sp = False, mf_use_mega_moe = True,
     mf_embed = (\<lambda>ids. Inr (map int (the ids))), mf_shard = (\<lambda>x. x), mf_shard_ids = Inr, mf_gather = (\<lambda>x. x),
     mf_first = take, mf_rows = length, mf_mhc_post = (\<lambda>x s. x), mf_mean = (\<lambda>x. x), mf_head_norm = (\<lambda>x. x),
     mf_layers = stage_layers mega_demo_dg stage_demo_experts False layers, mf_start_layer = 0, mf_end_layer = 2,
     mf_aux_hidden_state_layers = [2]\<rparr>"

definition stage_demo_env :: "(int, nat) stage_env" where
  "stage_demo_env = \<lparr>sg_moe = moe_demo_env, sg_eplb = (\<lambda>_. mv_eplb moe_demo_env), sg_captured = (\<lambda>_. None), sg_rest = 0\<rparr>"

theorem loaded_stage_returns_witness:
  "\<exists>self0 names' layers h aux h2 env'.
     moe_init moe_demo_lib moe_demo_config [[0]] [0] [] (3, 0) 0 ''layers.0.ffn'' = Inr (self0, names')
   \<and> process_weights_after_loading mega_demo_dg 10 (\<lambda>_. (moe_demo_linear 256, moe_demo_linear 128)) (\<lambda>_. [0]) True 0 2
       (stage_demo_layers self0) = Inr layers
   \<and> model_forward (stage_demo layers) (Some [3, 4]) [0, 1] None None (Some (8, None)) stage_demo_env
       = Inr (Final h aux, Some (8, Some h2), env') \<and> length h2 = 2"
proof -
  let ?lin = "\<lambda>_ :: nat. (moe_demo_linear 256, moe_demo_linear 128)"
  obtain self0 names' self where i: "moe_init moe_demo_lib moe_demo_config [[0]] [0] [] (3, 0) 0 ''layers.0.ffn'' = Inr (self0, names')"
    and f: "finalize_mega_moe_weights mega_demo_dg 10 (moe_demo_linear 256, moe_demo_linear 128) self0 = Inr self"
    using moe_demo_layer by blast
  have u: "[0..<2] = [0, Suc 0]" by (simp add: numeral_2_eq_2)
  have r: "replicate 2 z = [z, z]" for z :: "(int, int, nat) stage_layer" by (simp add: numeral_2_eq_2)
  have "\<exists>ls. process_weights_after_loading mega_demo_dg 10 ?lin (\<lambda>_. [0]) True 0 2 (stage_demo_layers self0) = Inr ls"
    by (simp add: process_weights_after_loading_def stage_demo_layers_def u r f)
  then obtain ls where ls: "process_weights_after_loading mega_demo_dg 10 ?lin (\<lambda>_. [0]) True 0 2 (stage_demo_layers self0) = Inr ls" by blast
  let ?mo = "stage_demo ls"
  have p: "mf_start_layer ?mo = 0" "mf_end_layer ?mo = 2" "mf_first_rank ?mo" "\<not> mf_use_sp ?mo"
      "mf_layers ?mo = stage_layers mega_demo_dg stage_demo_experts False ls" by (simp_all add: stage_demo_def)
  have two: "length [0, 1 :: nat] = 2" by simp
  have at: "stage_demo_layers self0 ! k = \<lparr>sl_ops = stage_demo_ops, sl_ffn = self0\<rparr>" if "k < 2" for k
    using that by (simp add: stage_demo_layers_def)
  have st: "loaded_stage mega_demo_dg stage_demo_experts moe_demo_lib moe_demo_config (stage_demo_layers self0) ?mo"
    unfolding loaded_stage_def p using i ls at p(3,4) by (simp add: stage_demo_layers_def) blast
  have keep: "experts_keep_tokens stage_demo_experts" by (simp add: experts_keep_tokens_def stage_demo_experts_def moe_demo_ops_def)
  have lc: "layer_contract False 2 2 stage_demo_ops" by (auto simp: layer_contract_def stage_demo_ops_def)
  have sc: "stage_contract (length [0, 1 :: nat]) 2 ?mo" by (simp add: stage_contract_def stage_demo_def)
  have con: "\<forall>k. mf_start_layer ?mo \<le> k \<and> k < mf_end_layer ?mo \<longrightarrow>
      layer_contract (mf_use_sp ?mo) (length [0, 1 :: nat]) 2 (sl_ops (stage_demo_layers self0 ! k))"
    unfolding p two using lc p(4) by (simp add: at)
  have g: "stage_given ?mo (lo_dim2 (sl_ops (stage_demo_layers self0 ! mf_start_layer ?mo))) (length [0, 1 :: nat]) [3, 4] None None"
    by (simp add: stage_given_def stage_demo_def)
  have mx: "mo_max_num_batched_tokens (mc_setup moe_demo_config) = 8" by (simp add: moe_demo_config_def mega_demo_setup_def)
  have b: "length [0, 1 :: nat] \<le> mo_max_num_batched_tokens (mc_setup moe_demo_config)" "2 \<le> length [0, 1 :: nat]"
    "\<forall>c h. Some (8, None :: int list option) = Some (c, h) \<longrightarrow> c = mo_max_num_batched_tokens (mc_setup moe_demo_config)" by (simp_all add: mx)
  have rd: "stage_ready (mf_start_layer ?mo) (mf_end_layer ?mo) stage_demo_env"
    by (simp add: stage_ready_def eplb_ready_def stage_demo_env_def moe_demo_env_def)
  have silent: "lo_attn (sl_ops (stage_demo_layers self0 ! k)) ps x e \<noteq> Inl err" if "k < 2" for k ps x e err
    using that by (simp add: at stage_demo_ops_def)
  have lst: "mf_last_rank ?mo" by (simp add: stage_demo_def)
  from loaded_stage_returns [OF st keep sc con g b rd]
  obtain out buf' env' where o: "model_forward ?mo (Some [3, 4]) [0, 1] None None (Some (8, None)) stage_demo_env = Inr (out, buf', env')"
    "\<exists>h aux. out = Final h aux" "\<exists>h. buf' = Some (8, Some h) \<and> length h = 2"
    using silent p(2) lst by auto
  then show ?thesis using i ls by blast
qed

end
