(* ===== verification/RadixKey.thy ===== *)
theory RadixKey
  imports Prelude
begin

text \<open>
  Keys of the prefix cache, class \<^verbatim>\<open>RadixKey\<close> of
  \<^verbatim>\<open>src/docker/sgl-src/python/sglang/srt/mem_cache/radix_cache.py\<close>: a sequence of tokens with a
  namespace, read as single tokens or, for speculative decoding, as overlapping pairs.

  A logical unit of a key is a token or a pair (\<open>unit_key\<close>).  \<open>units\<close> is what iterating over the key
  yields; the other operations work on the raw tokens, and the lemmas relate them to the units.
\<close>

section \<open>The class\<close>

datatype unit_key = Tok int | Big int int

record radix_key =
  rk_token_ids :: "int list"
  rk_extra_key :: "string option"
  rk_cache_salt :: "string option"
  rk_is_bigram :: bool
  rk_limit :: "nat option"

text \<open>An empty salt counts as none.\<close>

definition make_key :: "int list \<Rightarrow> string option \<Rightarrow> bool \<Rightarrow> nat option \<Rightarrow> string option \<Rightarrow> radix_key" where
  "make_key token_ids extra_key is_bigram limit cache_salt =
     \<lparr>rk_token_ids = token_ids, rk_extra_key = extra_key,
      rk_cache_salt = (if cache_salt = Some '''' then None else cache_salt), rk_is_bigram = is_bigram, rk_limit = limit\<rparr>"

definition raw_len :: "radix_key \<Rightarrow> nat" where
  "raw_len k = (let n = length (rk_token_ids k)
                in case rk_limit k of Some l \<Rightarrow> if l < n then l else n | None \<Rightarrow> n)"

definition raw_token_ids :: "radix_key \<Rightarrow> int list" where
  "raw_token_ids k = take (raw_len k) (rk_token_ids k)"

definition key_len :: "radix_key \<Rightarrow> nat" where
  "key_len k = (let n = raw_len k in if rk_is_bigram k then (if n > 0 then n - 1 else 0) else n)"

definition units :: "radix_key \<Rightarrow> unit_key list" where
  "units k = (let t = rk_token_ids k; n = raw_len k
              in if rk_is_bigram k then map (\<lambda>i. Big (t ! i) (t ! (i + 1))) [0..<if n > 0 then n - 1 else 0]
                 else map (\<lambda>i. Tok (t ! i)) [0..<n])"

text \<open>\<^verbatim>\<open>key[start:stop]\<close> with bounds that are not negative; a slice has no limit of its own.\<close>

definition slice_key :: "nat \<Rightarrow> nat \<Rightarrow> radix_key \<Rightarrow> radix_key" where
  "slice_key start stop k =
     (let a = min start (key_len k); b = min stop (key_len k);
          raw = (if rk_is_bigram k then (if b > a then pyslice a (b + 1) (rk_token_ids k) else [])
                 else pyslice a b (rk_token_ids k))
      in k\<lparr>rk_token_ids := raw, rk_limit := None\<rparr>)"

definition drop_key :: "nat \<Rightarrow> radix_key \<Rightarrow> radix_key" where
  "drop_key n k = slice_key n (key_len k) k"

definition item_key :: "int \<Rightarrow> radix_key \<Rightarrow> radix_key result" where
  "item_key idx k =
     (let i = (if idx < 0 then idx + int (key_len k) else idx)
      in raise_if (i < 0 \<or> i \<ge> int (key_len k)) (IndexError ''RadixKey index out of range'')
           (Inr (slice_key (nat i) (nat i + 1) k)))"

definition page_aligned :: "nat \<Rightarrow> radix_key \<Rightarrow> radix_key" where
  "page_aligned page_size k =
     (if page_size = 1 then k else slice_key 0 (key_len k div page_size * page_size) k)"

definition maybe_to_bigram_view :: "bool \<Rightarrow> radix_key \<Rightarrow> 'v list option \<Rightarrow> radix_key \<times> 'v list option" where
  "maybe_to_bigram_view is_eagle k value =
     (if is_eagle \<and> \<not> rk_is_bigram k then
        let k' = k\<lparr>rk_is_bigram := True\<rparr> in (k', map_option (take (key_len k')) value)
      else (k, value))"

definition check_compatible :: "radix_key \<Rightarrow> radix_key \<Rightarrow> 'a result \<Rightarrow> 'a result" where
  "check_compatible k other rest =
     raise_if (rk_extra_key k \<noteq> rk_extra_key other) (ValueError ''RadixKey operations require matching extra_key'')
     (raise_if (rk_cache_salt k \<noteq> rk_cache_salt other) (ValueError ''RadixKey operations require matching cache_salt'') rest)"

section \<open>The galloping comparison\<close>

text \<open>The inner loop: a binary search in a window that holds the first difference.\<close>

function bisect :: "int list \<Rightarrow> int list \<Rightarrow> nat \<Rightarrow> nat \<Rightarrow> nat" where
  "bisect t0 t1 lo hi =
     (if hi - lo > 1 then
        let mid = (lo + hi) div 2
        in if pyslice lo mid t0 = pyslice lo mid t1 then bisect t0 t1 mid hi else bisect t0 t1 lo mid
      else lo)"
  by pat_completeness auto
termination by (relation "measure (\<lambda>(t0, t1, lo, hi). hi - lo)") auto

text \<open>The outer loop; the window's width is \<open>2 ^ j\<close>.\<close>

function gallop :: "int list \<Rightarrow> int list \<Rightarrow> nat \<Rightarrow> nat \<Rightarrow> nat \<Rightarrow> nat" where
  "gallop t0 t1 n lo j =
     (if lo < n then
        let hi = (if lo + 2 ^ j < n then lo + 2 ^ j else n)
        in if pyslice lo hi t0 \<noteq> pyslice lo hi t1 then bisect t0 t1 lo hi else gallop t0 t1 n hi (j + 1)
      else n)"
  by pat_completeness auto
termination by (relation "measure (\<lambda>(t0, t1, n, lo, j). n - lo)") (auto intro: diff_less_mono2)

declare bisect.simps [simp del] gallop.simps [simp del]

definition key_match :: "radix_key \<Rightarrow> radix_key \<Rightarrow> nat \<Rightarrow> nat result" where
  "key_match k other page_size =
     check_compatible k other
       (let t0 = rk_token_ids k; t1 = rk_token_ids other; n = min (length t0) (length t1);
            matched_tokens = gallop t0 t1 n 0 0
        in if rk_is_bigram k then
             let matched = min (min (matched_tokens - 1) (key_len k)) (key_len other)
             in Inr (if page_size > 1 then matched div page_size * page_size else matched)
           else
             let matched = min (min matched_tokens (key_len k)) (key_len other)
             in Inr (if page_size = 1 then matched else matched div page_size * page_size))"

section \<open>Child keys\<close>

text \<open>
  The dictionary key for the first page of units.  Python tells the three forms apart by type: a bare
  page, a pair with a string, and a pair with a pair.
\<close>

datatype child_key =
    CPlain "unit_key list"
  | CExtra string "unit_key list"
  | CSalted "string option" string "unit_key list"

definition page_units :: "nat \<Rightarrow> radix_key \<Rightarrow> unit_key list" where
  "page_units page_size k =
     (let t = rk_token_ids k
      in if rk_is_bigram k then map (\<lambda>j. Big (t ! j) (t ! (j + 1))) [0..<page_size]
         else map Tok (take page_size t))"

definition child_key_of :: "nat \<Rightarrow> radix_key \<Rightarrow> child_key" where
  "child_key_of page_size k =
     (case rk_cache_salt k of
        Some salt \<Rightarrow> CSalted (rk_extra_key k) salt (page_units page_size k)
      | None \<Rightarrow> (case rk_extra_key k of None \<Rightarrow> CPlain (page_units page_size k)
                 | Some e \<Rightarrow> CExtra e (page_units page_size k)))"

definition child_key :: "nat \<Rightarrow> radix_key \<Rightarrow> child_key result" where
  "child_key page_size k =
     raise_if (if rk_is_bigram k then length (rk_token_ids k) \<le> page_size
               else page_size = 1 \<and> rk_token_ids k = [])
       (IndexError ''array index out of range'') (Inr (child_key_of page_size k))"

section \<open>Operations on units\<close>

definition ns_of :: "radix_key \<Rightarrow> string option \<times> string option" where
  "ns_of k = (rk_extra_key k, rk_cache_salt k)"

fun lcp_len :: "'a list \<Rightarrow> 'a list \<Rightarrow> nat" where
  "lcp_len (x # xs) (y # ys) = (if x = y then Suc (lcp_len xs ys) else 0)"
| "lcp_len _ _ = 0"

lemma raw_len_le: "raw_len k \<le> length (rk_token_ids k)"
  by (auto simp: raw_len_def Let_def split: option.splits)

lemma length_units [simp]: "length (units k) = key_len k"
  by (auto simp: units_def key_len_def Let_def)

lemma units_bigrams:
  "rk_is_bigram k \<Longrightarrow> units k = map (\<lambda>i. Big (rk_token_ids k ! i) (rk_token_ids k ! (i + 1))) [0..<raw_len k - 1]"
  by (simp add: units_def Let_def)

lemma units_tokens: "\<not> rk_is_bigram k \<Longrightarrow> units k = map Tok (raw_token_ids k)"
  using raw_len_le [of k] by (auto simp: units_def raw_token_ids_def intro: nth_equalityI)

lemma raw_len_unlimited: "rk_limit k = None \<Longrightarrow> raw_len k = length (rk_token_ids k)"
  by (simp add: raw_len_def)

lemma key_len_cases: "key_len k = (if rk_is_bigram k then raw_len k - 1 else raw_len k)"
  by (simp add: key_len_def Let_def)

lemma key_len_slice: "key_len (slice_key a b k) = min b (key_len k) - min a (key_len k)"
proof -
  have r: "raw_len (slice_key a b k) = length (rk_token_ids (slice_key a b k))"
    by (rule raw_len_unlimited) (simp add: slice_key_def Let_def)
  show ?thesis
    using raw_len_le [of k] unfolding key_len_cases [of "slice_key a b k"] r
    by (auto simp: slice_key_def Let_def length_slice key_len_cases [of k])
qed

lemma nth_units_bigram:
  "rk_is_bigram k \<Longrightarrow> i < key_len k \<Longrightarrow> units k ! i = Big (rk_token_ids k ! i) (rk_token_ids k ! (i + 1))"
  by (simp add: units_def Let_def key_len_def split: if_splits)

lemma nth_units_token: "\<not> rk_is_bigram k \<Longrightarrow> i < key_len k \<Longrightarrow> units k ! i = Tok (rk_token_ids k ! i)"
  by (simp add: units_def Let_def key_len_def)

lemma bigram_room: "rk_is_bigram k \<Longrightarrow> i < key_len k \<Longrightarrow> i + 1 < length (rk_token_ids k)"
  using raw_len_le [of k] by (auto simp: key_len_def Let_def split: if_splits)

lemma token_room: "\<not> rk_is_bigram k \<Longrightarrow> key_len k \<le> length (rk_token_ids k)"
  using raw_len_le [of k] by (simp add: key_len_def)

lemma units_slice: "units (slice_key a b k) = pyslice a b (units k)"
proof (rule nth_equalityI)
  show len: "length (units (slice_key a b k)) = length (pyslice a b (units k))"
    by (auto simp: key_len_slice length_slice)
  fix i assume "i < length (units (slice_key a b k))"
  then have i: "i < min b (key_len k) - min a (key_len k)" by (simp add: key_len_slice)
  then have b: "a + i < b" "a + i < key_len k" by auto
  have r: "pyslice a b (units k) ! i = units k ! (a + i)" using b by (simp add: nth_slice)
  have il: "i < key_len (slice_key a b k)" using i by (simp add: key_len_slice)
  show "units (slice_key a b k) ! i = pyslice a b (units k) ! i"
  proof (cases "rk_is_bigram k")
    case True
    then have bg: "rk_is_bigram (slice_key a b k)" by (simp add: slice_key_def Let_def)
    have t: "rk_token_ids (slice_key a b k) = pyslice (min a (key_len k)) (min b (key_len k) + 1) (rk_token_ids k)"
      using True i by (auto simp: slice_key_def Let_def)
    show ?thesis
      unfolding r nth_units_bigram [OF bg il] nth_units_bigram [OF True b(2)] t
      using b bigram_room [OF True b(2)] by (simp add: pyslice_def)
  next
    case False
    then have bg: "\<not> rk_is_bigram (slice_key a b k)" by (simp add: slice_key_def Let_def)
    show ?thesis
      unfolding r nth_units_token [OF bg il] nth_units_token [OF False b(2)]
      using b False token_room [OF False] by (simp add: slice_key_def Let_def pyslice_def)
  qed
qed

lemma units_drop: "units (drop_key n k) = drop n (units k)"
  by (simp add: drop_key_def units_slice pyslice_def)

lemma ns_of_slice [simp]: "ns_of (slice_key a b k) = ns_of k" "ns_of (drop_key n k) = ns_of k"
  "rk_is_bigram (slice_key a b k) = rk_is_bigram k" "rk_is_bigram (drop_key n k) = rk_is_bigram k"
  by (simp_all add: ns_of_def drop_key_def slice_key_def Let_def)

lemma ns_of_page_aligned [simp]: "ns_of (page_aligned ps k) = ns_of k"
  "rk_is_bigram (page_aligned ps k) = rk_is_bigram k"
  by (simp_all add: page_aligned_def)

lemma units_page_aligned: "units (page_aligned ps k) = take (key_len k div ps * ps) (units k)"
  by (simp add: page_aligned_def units_slice pyslice_def)

section \<open>The comparison finds the longest common prefix\<close>

lemma lcp_len_le: "lcp_len xs ys \<le> length xs" "lcp_len xs ys \<le> length ys"
  by (induction xs ys rule: lcp_len.induct) auto

lemma take_lcp: "take (lcp_len xs ys) xs = take (lcp_len xs ys) ys"
  by (induction xs ys rule: lcp_len.induct) auto

lemma lcp_len_unique:
  assumes "take r xs = take r ys" "r \<le> length xs" "r \<le> length ys"
    and "r = length xs \<or> r = length ys \<or> take (Suc r) xs \<noteq> take (Suc r) ys"
  shows "lcp_len xs ys = r"
  using assms
proof (induction xs ys arbitrary: r rule: lcp_len.induct)
  case (1 x xs y ys)
  show ?case
  proof (cases r)
    case (Suc r')
    with 1(1) [of r'] 1(2-) show ?thesis by auto
  qed (use 1(2-) in auto)
qed auto

lemma lcp_len_ge: "take r xs = take r ys \<Longrightarrow> r \<le> length xs \<Longrightarrow> r \<le> length ys \<Longrightarrow> r \<le> lcp_len xs ys"
  by (induction xs ys arbitrary: r rule: lcp_len.induct) (auto simp: take_Cons split: nat.splits if_splits)

lemma bisect_finds:
  assumes "take lo t0 = take lo t1" "take hi t0 \<noteq> take hi t1" "lo < hi"
  shows "let r = bisect t0 t1 lo hi in r < hi \<and> take r t0 = take r t1 \<and> take (Suc r) t0 \<noteq> take (Suc r) t1"
  using assms
proof (induction t0 t1 lo hi rule: bisect.induct)
  case (1 t0 t1 lo hi)
  show ?case
  proof (cases "hi - lo > 1")
    case True
    let ?m = "(lo + hi) div 2"
    have m: "lo \<le> ?m" "lo < ?m" "?m < hi" using True by auto
    have eq: "pyslice lo ?m t0 = pyslice lo ?m t1 \<longleftrightarrow> take ?m t0 = take ?m t1"
      using 1(3) by (simp add: take_pyslice [OF m(1)])
    show ?thesis
    proof (cases "take ?m t0 = take ?m t1")
      case same: True
      then show ?thesis using 1(1) [OF True refl] 1(4) m eq by (simp add: bisect.simps [of t0 t1 lo hi] True Let_def)
    next
      case False
      then show ?thesis using 1(2) [OF True refl] 1(3) m eq
        by (auto simp: bisect.simps [of t0 t1 lo hi] True Let_def)
    qed
  next
    case False
    then have "hi = Suc lo" using 1(5) by simp
    then show ?thesis using 1(3,4) by (simp add: bisect.simps)
  qed
qed

lemma gallop_lcp:
  assumes "take lo t0 = take lo t1" "n = min (length t0) (length t1)" "lo \<le> n"
  shows "gallop t0 t1 n lo j = lcp_len t0 t1"
  using assms
proof (induction t0 t1 n lo j rule: gallop.induct)
  case (1 t0 t1 n lo j)
  show ?case
  proof (cases "lo < n")
    case True
    define hi where "hi = (if lo + 2 ^ j < n then lo + 2 ^ j else n)"
    have hi: "lo < hi" "lo \<le> hi" "hi \<le> n" using True by (auto simp: hi_def)
    have eq: "pyslice lo hi t0 = pyslice lo hi t1 \<longleftrightarrow> take hi t0 = take hi t1"
      using 1(2) by (simp add: take_pyslice [OF hi(2)])
    show ?thesis
    proof (cases "take hi t0 = take hi t1")
      case same: True
      then have "gallop t0 t1 n lo j = gallop t0 t1 n hi (j + 1)"
        using True eq by (simp add: gallop.simps [of t0 t1 n lo j] hi_def Let_def)
      then show ?thesis using 1(1) [OF True hi_def] eq same 1(3) hi(3) by simp
    next
      case False
      have g: "gallop t0 t1 n lo j = bisect t0 t1 lo hi"
        using True eq False by (simp add: gallop.simps [of t0 t1 n lo j] hi_def Let_def)
      have b: "bisect t0 t1 lo hi < hi" "take (bisect t0 t1 lo hi) t0 = take (bisect t0 t1 lo hi) t1"
        "take (Suc (bisect t0 t1 lo hi)) t0 \<noteq> take (Suc (bisect t0 t1 lo hi)) t1"
        using bisect_finds [OF 1(2) False hi(1)] by (simp_all add: Let_def)
      show ?thesis unfolding g using b hi(3) 1(3) by (intro lcp_len_unique [symmetric]) auto
    qed
  next
    case False
    then have "lo = n" using 1(4) by simp
    then show ?thesis using 1(2,3) by (subst lcp_len_unique [of n]) (auto simp: gallop.simps)
  qed
qed

lemma lcp_len_take: "lcp_len (take a xs) (take b ys) = min (lcp_len xs ys) (min a b)"
proof (induction xs ys arbitrary: a b rule: lcp_len.induct)
  case (1 x xs y ys)
  then show ?case by (cases a; cases b) auto
qed auto

lemma lcp_len_map: "inj f \<Longrightarrow> lcp_len (map f xs) (map f ys) = lcp_len xs ys"
  by (induction xs ys rule: lcp_len.induct) (auto dest: injD)

fun bigrams :: "int list \<Rightarrow> unit_key list" where
  "bigrams (x # y # zs) = Big x y # bigrams (y # zs)"
| "bigrams _ = []"

lemma length_bigrams: "length (bigrams xs) = length xs - 1"
  by (induction xs rule: bigrams.induct) auto

lemma nth_bigrams: "i + 1 < length xs \<Longrightarrow> bigrams xs ! i = Big (xs ! i) (xs ! (i + 1))"
proof (induction xs arbitrary: i rule: bigrams.induct)
  case (1 x y zs)
  then show ?case by (cases i) auto
qed auto

lemma lcp_single: "lcp_len [x] ys - Suc 0 = 0"
  by (cases ys) auto

lemma lcp_bigrams: "lcp_len (bigrams xs) (bigrams ys) = lcp_len xs ys - 1"
proof (induction xs arbitrary: ys rule: bigrams.induct)
  case (1 x y zs)
  show ?case
  proof (cases ys rule: bigrams.cases)
    case (1 x' y' zs')
    have "lcp_len (bigrams (y # zs)) (bigrams (y' # zs')) = lcp_len (y # zs) (y' # zs') - 1"
      by (rule "1.IH")
    with 1 show ?thesis by auto
  qed (cases zs; auto)+
qed (simp_all add: lcp_single)

lemma units_of_tokens:
  "units k = (if rk_is_bigram k then take (key_len k) (bigrams (rk_token_ids k))
              else take (key_len k) (map Tok (rk_token_ids k)))"
proof (cases "rk_is_bigram k")
  case True
  have r: "key_len k \<le> length (rk_token_ids k) - 1" using raw_len_le [of k] True by (simp add: key_len_cases)
  have "units k = take (key_len k) (bigrams (rk_token_ids k))"
  proof (rule nth_equalityI)
    fix i assume "i < length (units k)"
    then have i: "i < key_len k" by simp
    then have "i + 1 < length (rk_token_ids k)" by (rule bigram_room [OF True])
    with i show "units k ! i = take (key_len k) (bigrams (rk_token_ids k)) ! i"
      by (simp add: nth_units_bigram [OF True] nth_bigrams [unfolded One_nat_def])
  qed (use r in \<open>simp add: length_bigrams\<close>)
  then show ?thesis using True by simp
next
  case False
  then show ?thesis by (simp add: units_tokens raw_token_ids_def key_len_cases take_map)
qed

lemma key_match_lcp:
  assumes "ns_of k = ns_of k'" "rk_is_bigram k = rk_is_bigram k'" "0 < ps"
  shows "key_match k k' ps = Inr (lcp_len (units k) (units k') div ps * ps)"
proof -
  let ?n = "min (length (rk_token_ids k)) (length (rk_token_ids k'))"
  have g: "gallop (rk_token_ids k) (rk_token_ids k') ?n 0 0 = lcp_len (rk_token_ids k) (rk_token_ids k')"
    by (rule gallop_lcp) auto
  have t: "inj Tok" by (simp add: inj_def)
  show ?thesis
  proof (cases "rk_is_bigram k")
    case True
    have l: "lcp_len (units k) (units k') = min (min (lcp_len (rk_token_ids k) (rk_token_ids k') - 1) (key_len k)) (key_len k')"
      using True assms(2) by (simp add: units_of_tokens lcp_len_take lcp_bigrams min.assoc)
    show ?thesis using assms True by (auto simp: key_match_def check_compatible_def ns_of_def g l Let_def)
  next
    case False
    have l: "lcp_len (units k) (units k') = min (min (lcp_len (rk_token_ids k) (rk_token_ids k')) (key_len k)) (key_len k')"
      using False assms(2) by (simp add: units_of_tokens lcp_len_take lcp_len_map [OF t] min.assoc)
    show ?thesis using assms False by (auto simp: key_match_def check_compatible_def ns_of_def g l Let_def)
  qed
qed

text \<open>
  C29. The galloping comparison of keys is exact.  On two keys of one namespace and one view it returns
  the length of the longest common prefix of their logical units, rounded down to whole pages; for the
  pair view that is one less than the shared tokens, and limits on either key are respected.  Keys of
  different namespaces are refused.
\<close>

theorem match_is_longest_common_prefix:
  "(ns_of k = ns_of k' \<and> rk_is_bigram k = rk_is_bigram k' \<and> 0 < ps \<longrightarrow>
      key_match k k' ps = Inr (lcp_len (units k) (units k') div ps * ps))
   \<and> (ns_of k \<noteq> ns_of k' \<longrightarrow> (\<exists>msg. key_match k k' ps = Inl (ValueError msg)))"
  by (auto simp: key_match_lcp) (auto simp: key_match_def check_compatible_def ns_of_def raise_if_def)

theorem match_is_longest_common_prefix_witness:
  "key_match (make_key [1, 2, 3, 4, 5, 6] None True None None) (make_key [1, 2, 3, 4, 9] None True None None) 2 = Inr 2"
  using match_is_longest_common_prefix [of "make_key [1, 2, 3, 4, 5, 6] None True None None"
      "make_key [1, 2, 3, 4, 9] None True None None" 2]
  by (simp add: ns_of_def make_key_def units_of_tokens key_len_cases raw_len_def)

section \<open>Child keys separate namespaces and pages\<close>

lemma page_units_take: "ps \<le> key_len k \<Longrightarrow> page_units ps k = take ps (units k)"
proof (cases "rk_is_bigram k")
  case True
  assume ps: "ps \<le> key_len k"
  show ?thesis
  proof (rule nth_equalityI)
    fix i assume "i < length (page_units ps k)"
    then have "i < ps" "i < key_len k" using ps True by (simp_all add: page_units_def Let_def)
    then show "page_units ps k ! i = take ps (units k) ! i"
      by (simp add: page_units_def Let_def True nth_units_bigram)
  qed (use ps True in \<open>simp add: page_units_def Let_def\<close>)
next
  case False
  assume "ps \<le> key_len k"
  then show ?thesis using False by (simp add: page_units_def Let_def units_of_tokens take_map min_def)
qed

lemma child_key_defined:
  assumes "0 < ps" "ps \<le> key_len k"
  shows "child_key ps k = Inr (child_key_of ps k)"
proof -
  have "rk_token_ids k \<noteq> []" "rk_is_bigram k \<Longrightarrow> ps < length (rk_token_ids k)"
    using assms raw_len_le [of k] by (auto simp: key_len_cases split: if_splits)
  then show ?thesis by (auto simp: child_key_def raise_if_def)
qed

lemma child_key_of_eq_iff:
  "child_key_of ps k = child_key_of ps k' \<longleftrightarrow> ns_of k = ns_of k' \<and> page_units ps k = page_units ps k'"
  by (auto simp: child_key_of_def ns_of_def split: option.splits)

lemma child_key_of_eq:
  assumes "ps \<le> key_len k" "ps \<le> key_len k'"
  shows "child_key_of ps k = child_key_of ps k' \<longleftrightarrow> ns_of k = ns_of k' \<and> take ps (units k) = take ps (units k')"
  using assms by (simp add: child_key_of_eq_iff page_units_take)

end
