(* ===== verification/RadixTree.thy ===== *)
theory RadixTree
  imports RadixKey "HOL-Library.AList"
begin

text \<open>
  The prefix cache of \<^verbatim>\<open>src/docker/sgl-src/python/sglang/srt/mem_cache/radix_cache.py\<close>: tree nodes,
  splitting, matching and inserting, and the eviction policies of \<^verbatim>\<open>evict_policy.py\<close>.

  Node objects live in a store: \<open>rc_nodes\<close> maps the identity of a node to its fields, \<open>rc_counter\<close> is
  the next identity, as in \<^verbatim>\<open>TreeNode.counter\<close>.  Children and parents are identities, so an update is
  seen through every reference.  The clock is an arbitrary sequence of readings (\<open>rc_time\<close>).  A loop that
  walks the tree is a \<open>partial_function\<close> in the option type: \<open>None\<close> is a loop that does not end.

  Left out are the recorder of placement events, which does nothing unless it is enabled, the hash
  values it would use, and the host fields of a node, which this class never reads.
\<close>

section \<open>Nodes and the cache\<close>

record tree_node =
  tn_children :: "(child_key \<times> nat) list"
  tn_parent :: "nat option"
  tn_key :: radix_key
  tn_value :: "int list option"
  tn_lock_ref :: int
  tn_last_access_time :: int
  tn_creation_time :: int
  tn_hit_count :: nat
  tn_priority :: int

datatype eviction_policy = LRU | LFU | FIFO | MRU | FILO | Priority | SLRU nat

record radix_cache =
  rc_disable :: bool
  rc_page_size :: nat
  rc_is_eagle :: bool
  rc_disable_finished_insert :: bool
  rc_policy :: eviction_policy
  rc_time :: "nat \<Rightarrow> int"
  rc_readings :: nat
  rc_nodes :: "nat \<Rightarrow> tree_node"
  rc_counter :: nat
  rc_root_node :: nat
  rc_evictable_size :: int
  rc_protected_size :: int
  rc_evictable_leaves :: "nat list"

abbreviation node :: "radix_cache \<Rightarrow> nat \<Rightarrow> tree_node" where
  "node s n \<equiv> rc_nodes s n"

definition upd_node :: "nat \<Rightarrow> (tree_node \<Rightarrow> tree_node) \<Rightarrow> radix_cache \<Rightarrow> radix_cache" where
  "upd_node n f s = s\<lparr>rc_nodes := (rc_nodes s)(n := f (rc_nodes s n))\<rparr>"

text \<open>\<^verbatim>\<open>time.monotonic()\<close>.\<close>

definition monotonic :: "radix_cache \<Rightarrow> int \<times> radix_cache" where
  "monotonic s = (rc_time s (rc_readings s), s\<lparr>rc_readings := rc_readings s + 1\<rparr>)"

definition no_key :: radix_key where
  "no_key = make_key [] None False None None"

text \<open>\<^verbatim>\<open>TreeNode(priority=...)\<close>; its key and value are set by the caller.\<close>

definition new_tree_node :: "int \<Rightarrow> radix_cache \<Rightarrow> nat \<times> radix_cache" where
  "new_tree_node priority s =
     (let (t1, s1) = monotonic s; (t2, s2) = monotonic s1; n = rc_counter s2
      in (n, s2\<lparr>rc_nodes := (rc_nodes s2)(n := \<lparr>tn_children = [], tn_parent = None, tn_key = no_key, tn_value = None,
            tn_lock_ref = 0, tn_last_access_time = t1, tn_creation_time = t2, tn_hit_count = 0, tn_priority = priority\<rparr>),
          rc_counter := n + 1\<rparr>))"

definition evicted :: "tree_node \<Rightarrow> bool" where
  "evicted nd \<longleftrightarrow> tn_value nd = None"

text \<open>\<^verbatim>\<open>reset\<close>; \<^verbatim>\<open>-sys.maxsize\<close> is the root's priority.\<close>

definition maxsize :: int where
  "maxsize = 2 ^ 63 - 1"

definition reset :: "radix_cache \<Rightarrow> radix_cache" where
  "reset s =
     (let (r, s1) = new_tree_node (- maxsize) s
      in (upd_node r (\<lambda>nd. nd\<lparr>tn_key := no_key, tn_value := Some [], tn_lock_ref := 1\<rparr>) s1)
           \<lparr>rc_root_node := r, rc_evictable_size := 0, rc_protected_size := 0, rc_evictable_leaves := []\<rparr>)"

definition cache_init :: "bool \<Rightarrow> nat \<Rightarrow> bool \<Rightarrow> bool \<Rightarrow> eviction_policy \<Rightarrow> (nat \<Rightarrow> int) \<Rightarrow> radix_cache" where
  "cache_init disable page_size is_eagle disable_finished_insert policy time =
     reset \<lparr>rc_disable = disable, rc_page_size = page_size, rc_is_eagle = is_eagle,
       rc_disable_finished_insert = disable_finished_insert, rc_policy = policy, rc_time = time, rc_readings = 0,
       rc_nodes = (\<lambda>_. \<lparr>tn_children = [], tn_parent = None, tn_key = no_key, tn_value = None, tn_lock_ref = 0,
         tn_last_access_time = 0, tn_creation_time = 0, tn_hit_count = 0, tn_priority = 0\<rparr>),
       rc_counter = 0, rc_root_node = 0, rc_evictable_size = 0, rc_protected_size = 0, rc_evictable_leaves = []\<rparr>"

section \<open>Leaf status\<close>

text \<open>The set of evictable leaves as a list without duplicates.\<close>

definition add_leaf :: "nat \<Rightarrow> radix_cache \<Rightarrow> radix_cache" where
  "add_leaf n s = (if n \<in> set (rc_evictable_leaves s) then s else s\<lparr>rc_evictable_leaves := rc_evictable_leaves s @ [n]\<rparr>)"

definition remove_leaf :: "nat \<Rightarrow> radix_cache \<Rightarrow> radix_cache" where
  "remove_leaf n s = s\<lparr>rc_evictable_leaves := filter (\<lambda>m. m \<noteq> n) (rc_evictable_leaves s)\<rparr>"

definition update_leaf_status :: "nat \<Rightarrow> radix_cache \<Rightarrow> radix_cache" where
  "update_leaf_status n s =
     (if evicted (node s n) \<or> tn_lock_ref (node s n) > 0 then remove_leaf n s
      else if list_ex (\<lambda>(k, c). \<not> evicted (node s c)) (tn_children (node s n)) then remove_leaf n s
      else add_leaf n s)"

section \<open>Splitting\<close>

text \<open>
  \<^verbatim>\<open>_split_node(child.key, child, split_len)\<close>: every caller passes the child's own key.  A child without
  a parent would be the root, which is never split.
\<close>

definition split_node :: "nat \<Rightarrow> nat \<Rightarrow> radix_cache \<Rightarrow> nat \<times> radix_cache" where
  "split_node child split_len s =
     (let ps = rc_page_size s; cn = node s child; k = tn_key cn;
          (new, s1) = new_tree_node (tn_priority cn) s;
          upper = (node s1 new)\<lparr>tn_hit_count := tn_hit_count cn,
              tn_children := [(child_key_of ps (drop_key split_len k), child)],
              tn_parent := tn_parent cn, tn_lock_ref := tn_lock_ref cn,
              tn_key := slice_key 0 split_len k, tn_value := map_option (take split_len) (tn_value cn)\<rparr>;
          s2 = upd_node new (\<lambda>_. upper) s1;
          s3 = upd_node child (\<lambda>nd. nd\<lparr>tn_parent := Some new, tn_key := drop_key split_len k,
                 tn_value := map_option (drop split_len) (tn_value cn)\<rparr>) s2;
          s4 = (case tn_parent cn of
                  None \<Rightarrow> s3
                | Some p \<Rightarrow> upd_node p (\<lambda>nd. nd\<lparr>tn_children := AList.update (child_key_of ps k) new (tn_children nd)\<rparr>) s3)
      in (new, s4))"

section \<open>Matching\<close>

definition touch :: "int \<Rightarrow> nat \<Rightarrow> radix_cache \<Rightarrow> radix_cache" where
  "touch t n s = upd_node n (\<lambda>nd. nd\<lparr>tn_last_access_time := t\<rparr>) s"

definition value_of :: "tree_node \<Rightarrow> int list" where
  "value_of nd = (case tn_value nd of None \<Rightarrow> [] | Some v \<Rightarrow> v)"

text \<open>
  The loop of \<^verbatim>\<open>_match_prefix_helper\<close>.  The child key is computed from the remaining key at the start of
  each round, where the code computes it at the end of the previous one.
\<close>

partial_function (option) match_loop ::
  "int \<Rightarrow> nat \<Rightarrow> radix_key \<Rightarrow> int list \<Rightarrow> radix_cache \<Rightarrow> (int list \<times> nat \<times> radix_cache) result option" where
  "match_loop t n key value s =
     (if key_len key = 0 then Some (Inr (value, n, s))
      else (case child_key (rc_page_size s) key of
        Inl e \<Rightarrow> Some (Inl e)
      | Inr ck \<Rightarrow>
          (case map_of (tn_children (node s n)) ck of
             None \<Rightarrow> Some (Inr (value, n, s))
           | Some child \<Rightarrow>
               (let s1 = touch t child s
                in (case key_match (tn_key (node s1 child)) key (rc_page_size s) of
                      Inl e \<Rightarrow> Some (Inl e)
                    | Inr prefix_len \<Rightarrow>
                        if prefix_len < key_len (tn_key (node s1 child)) then
                          (let (new, s2) = split_node child prefix_len s1
                           in Some (Inr (value @ value_of (node s2 new), new, s2)))
                        else match_loop t child (drop_key prefix_len key) (value @ value_of (node s1 child)) s1)))))"

declare match_loop.simps [code]

definition match_prefix_helper ::
  "nat \<Rightarrow> radix_key \<Rightarrow> radix_cache \<Rightarrow> (int list \<times> nat \<times> radix_cache) result option" where
  "match_prefix_helper n key s =
     (let (t, s1) = monotonic s; s2 = touch t n s1
      in (case child_key (rc_page_size s) key of
            Inl e \<Rightarrow> Some (Inl e)
          | Inr _ \<Rightarrow> match_loop t n key [] s2))"

text \<open>The device indices, the last node and the cache afterwards.\<close>

definition match_prefix :: "radix_key \<Rightarrow> radix_cache \<Rightarrow> (int list \<times> nat \<times> radix_cache) result option" where
  "match_prefix key0 s =
     (let key1 = fst (maybe_to_bigram_view (rc_is_eagle s) key0 (None :: int list option)); none = Some (Inr ([], rc_root_node s, s))
      in if rc_disable s \<or> key_len key1 = 0 then none
         else let key = page_aligned (rc_page_size s) key1
              in if key_len key = 0 then none else match_prefix_helper (rc_root_node s) key s)"

section \<open>Inserting\<close>

definition inc_hit_count :: "nat \<Rightarrow> bool \<Rightarrow> radix_cache \<Rightarrow> radix_cache" where
  "inc_hit_count n chunked s = (if chunked then s else upd_node n (\<lambda>nd. nd\<lparr>tn_hit_count := tn_hit_count nd + 1\<rparr>) s)"

definition raise_priority :: "int \<Rightarrow> nat \<Rightarrow> radix_cache \<Rightarrow> radix_cache" where
  "raise_priority p n s = upd_node n (\<lambda>nd. nd\<lparr>tn_priority := max (tn_priority nd) p\<rparr>) s"

text \<open>
  The loop of \<^verbatim>\<open>_insert_helper\<close>: the rest of the key and of the values, the length found so far, the node
  reached.
\<close>

partial_function (option) insert_loop ::
  "int \<Rightarrow> int \<Rightarrow> bool \<Rightarrow> nat \<Rightarrow> radix_key \<Rightarrow> int list \<Rightarrow> nat \<Rightarrow> radix_cache
   \<Rightarrow> (nat \<times> radix_key \<times> int list \<times> nat \<times> radix_cache) result option" where
  "insert_loop t priority chunked n key value found s =
     (if key_len key = 0 then Some (Inr (n, key, value, found, s))
      else (case child_key (rc_page_size s) key of
        Inl e \<Rightarrow> Some (Inl e)
      | Inr ck \<Rightarrow>
          (case map_of (tn_children (node s n)) ck of
             None \<Rightarrow> Some (Inr (n, key, value, found, s))
           | Some child \<Rightarrow>
               (let s1 = touch t child s
                in (case key_match (tn_key (node s1 child)) key (rc_page_size s) of
                      Inl e \<Rightarrow> Some (Inl e)
                    | Inr prefix_len \<Rightarrow>
                        (let (next, s2) = (if prefix_len < key_len (tn_key (node s1 child))
                                           then split_node child prefix_len s1 else (child, s1));
                             s3 = inc_hit_count next chunked (raise_priority priority next s2)
                         in insert_loop t priority chunked next (drop_key prefix_len key) (drop prefix_len value)
                              (found + prefix_len) s3))))))"

declare insert_loop.simps [code]

definition attach_leaf :: "int \<Rightarrow> bool \<Rightarrow> nat \<Rightarrow> radix_key \<Rightarrow> int list \<Rightarrow> radix_cache \<Rightarrow> nat \<times> radix_cache" where
  "attach_leaf priority chunked n key value s =
     (let (new, s1) = new_tree_node priority s;
          s2 = upd_node new (\<lambda>nd. nd\<lparr>tn_parent := Some n, tn_key := key, tn_value := Some value\<rparr>) s1;
          s3 = inc_hit_count new chunked s2;
          s4 = upd_node n (\<lambda>nd. nd\<lparr>tn_children := AList.update (child_key_of (rc_page_size s) key) new (tn_children nd)\<rparr>) s3;
          s5 = s4\<lparr>rc_evictable_size := rc_evictable_size s4 + int (key_len key)\<rparr>
      in (new, update_leaf_status new (update_leaf_status n s5)))"

definition insert_helper ::
  "nat \<Rightarrow> radix_key \<Rightarrow> int list \<Rightarrow> int \<Rightarrow> bool \<Rightarrow> radix_cache \<Rightarrow> (nat \<times> nat \<times> radix_cache) result option" where
  "insert_helper n key value priority chunked s =
     (let (t, s1) = monotonic s; s2 = raise_priority priority n (touch t n s1)
      in if key_len key = 0 then Some (Inr (0, n, s2))
         else (case insert_loop t priority chunked n key value 0 s2 of
                 None \<Rightarrow> None
               | Some (Inl e) \<Rightarrow> Some (Inl e)
               | Some (Inr (m, key', value', found, s3)) \<Rightarrow>
                   if key_len key' = 0 then Some (Inr (found, m, s3))
                   else let (new, s4) = attach_leaf priority chunked m key' value' s3
                        in Some (Inr (found, new, s4))))"

text \<open>\<^verbatim>\<open>insert\<close>: the length of the prefix that was there, and the last node; \<open>None\<close> as a value stores the token ids.\<close>

definition cache_insert ::
  "radix_key \<Rightarrow> int list option \<Rightarrow> int \<Rightarrow> bool \<Rightarrow> radix_cache \<Rightarrow> (nat \<times> nat option \<times> radix_cache) result option" where
  "cache_insert key0 value0 priority chunked s =
     (if rc_disable s then Some (Inr (0, None, s))
      else
        let (key1, value1) = maybe_to_bigram_view (rc_is_eagle s) key0 value0;
            key = page_aligned (rc_page_size s) key1;
            value = (case value1 of Some v \<Rightarrow> take (key_len key) v | None \<Rightarrow> take (key_len key) (rk_token_ids key))
        in (case insert_helper (rc_root_node s) key value priority chunked s of
              None \<Rightarrow> None
            | Some (Inl e) \<Rightarrow> Some (Inl e)
            | Some (Inr (prefix_len, last_node, s')) \<Rightarrow> Some (Inr (prefix_len, Some last_node, s'))))"

end
