(* ===== verification/RadixInv.thy ===== *)
theory RadixInv
  imports RadixTree
begin

text \<open>
  What the prefix cache represents.  A \<open>layout\<close> gives every live node its namespace, the units on the
  path from the root to its end, and the slots stored along that path; \<open>tree_ok\<close> says that a store of
  nodes represents a layout.  \<open>cached\<close> is the abstract contents: which page-aligned sequences of units are
  in the cache, with their slots.  The lemmas show that a layout is a tree in which the next page
  decides the next child, and that splitting a node changes the layout but not the contents.
\<close>

type_synonym namespace = "string option \<times> string option"
type_synonym layout = "nat \<rightharpoonup> namespace \<times> unit_key list \<times> int list"

lemma key_len_drop: "key_len (drop_key n k) = key_len k - n"
  using units_drop [of n k] by (metis length_drop length_units)

section \<open>Representation\<close>

text \<open>A live node below its parent.\<close>

definition node_ok :: "radix_cache \<Rightarrow> layout \<Rightarrow> nat \<Rightarrow> namespace \<Rightarrow> unit_key list \<Rightarrow> int list \<Rightarrow> bool" where
  "node_ok s T n ns xs vs \<longleftrightarrow>
     (\<exists>p nsp xp vp v. tn_parent (node s n) = Some p \<and> T p = Some (nsp, xp, vp) \<and> (p = rc_root_node s \<or> nsp = ns) \<and>
        map_of (tn_children (node s p)) (child_key_of (rc_page_size s) (tn_key (node s n))) = Some n \<and>
        ns_of (tn_key (node s n)) = ns \<and> rk_is_bigram (tn_key (node s n)) = rc_is_eagle s \<and>
        tn_value (node s n) = Some v \<and> xs = xp @ units (tn_key (node s n)) \<and> vs = vp @ v \<and>
        length v = key_len (tn_key (node s n)) \<and> 0 < key_len (tn_key (node s n)) \<and>
        rc_page_size s dvd key_len (tn_key (node s n)))"

definition children_ok :: "radix_cache \<Rightarrow> layout \<Rightarrow> nat \<Rightarrow> bool" where
  "children_ok s T p \<longleftrightarrow> distinct (map fst (tn_children (node s p))) \<and>
     (\<forall>k c. map_of (tn_children (node s p)) k = Some c \<longrightarrow> c \<in> dom T \<and> c \<noteq> rc_root_node s \<and> tn_parent (node s c) = Some p \<and>
        k = child_key_of (rc_page_size s) (tn_key (node s c)))"

definition tree_ok :: "radix_cache \<Rightarrow> layout \<Rightarrow> bool" where
  "tree_ok s T \<longleftrightarrow> 0 < rc_page_size s \<and> finite (dom T) \<and> (\<forall>n \<in> dom T. n < rc_counter s) \<and>
     T (rc_root_node s) = Some ((None, None), [], []) \<and> tn_parent (node s (rc_root_node s)) = None \<and>
     tn_value (node s (rc_root_node s)) = Some [] \<and>
     (\<forall>n ns xs vs. T n = Some (ns, xs, vs) \<longrightarrow> n \<noteq> rc_root_node s \<longrightarrow> node_ok s T n ns xs vs) \<and>
     (\<forall>p \<in> dom T. children_ok s T p)"

lemma node_okI:
  "tn_parent (node s n) = Some p \<Longrightarrow> T p = Some (nsp, xp, vp) \<Longrightarrow> p = rc_root_node s \<or> nsp = ns \<Longrightarrow>
   map_of (tn_children (node s p)) (child_key_of (rc_page_size s) (tn_key (node s n))) = Some n \<Longrightarrow>
   ns_of (tn_key (node s n)) = ns \<Longrightarrow> rk_is_bigram (tn_key (node s n)) = rc_is_eagle s \<Longrightarrow> tn_value (node s n) = Some v \<Longrightarrow>
   xs = xp @ units (tn_key (node s n)) \<Longrightarrow> vs = vp @ v \<Longrightarrow> length v = key_len (tn_key (node s n)) \<Longrightarrow>
   0 < key_len (tn_key (node s n)) \<Longrightarrow> rc_page_size s dvd key_len (tn_key (node s n)) \<Longrightarrow> node_ok s T n ns xs vs"
  unfolding node_ok_def by blast

lemma tree_okI:
  "0 < rc_page_size s \<Longrightarrow> finite (dom T) \<Longrightarrow> (\<And>n. n \<in> dom T \<Longrightarrow> n < rc_counter s) \<Longrightarrow>
   T (rc_root_node s) = Some ((None, None), [], []) \<Longrightarrow> tn_parent (node s (rc_root_node s)) = None \<Longrightarrow>
   tn_value (node s (rc_root_node s)) = Some [] \<Longrightarrow>
   (\<And>n ns xs vs. T n = Some (ns, xs, vs) \<Longrightarrow> n \<noteq> rc_root_node s \<Longrightarrow> node_ok s T n ns xs vs) \<Longrightarrow>
   (\<And>p. p \<in> dom T \<Longrightarrow> children_ok s T p) \<Longrightarrow> tree_ok s T"
  unfolding tree_ok_def by blast

text \<open>Only these fields matter for the representation.\<close>

definition same_skeleton :: "radix_cache \<Rightarrow> radix_cache \<Rightarrow> bool" where
  "same_skeleton s s' \<longleftrightarrow> rc_page_size s' = rc_page_size s \<and> rc_is_eagle s' = rc_is_eagle s \<and> rc_counter s' = rc_counter s \<and>
     rc_root_node s' = rc_root_node s \<and>
     (\<forall>n. tn_children (node s' n) = tn_children (node s n) \<and> tn_parent (node s' n) = tn_parent (node s n) \<and>
        tn_key (node s' n) = tn_key (node s n) \<and> tn_value (node s' n) = tn_value (node s n))"

lemma tree_ok_skeleton: "same_skeleton s s' \<Longrightarrow> tree_ok s' T = tree_ok s T"
  unfolding same_skeleton_def tree_ok_def node_ok_def children_ok_def by simp

lemma skeleton_trans: "same_skeleton s s' \<Longrightarrow> same_skeleton s' s'' \<Longrightarrow> same_skeleton s s''"
  by (simp add: same_skeleton_def)

lemma skeleton_simps [simp]:
  "same_skeleton s s" "same_skeleton s (touch t n s)" "same_skeleton s (raise_priority p n s)"
  "same_skeleton s (inc_hit_count n c s)" "same_skeleton s (snd (monotonic s))"
  by (simp_all add: same_skeleton_def touch_def raise_priority_def inc_hit_count_def upd_node_def monotonic_def)

lemma tree_okD:
  assumes "tree_ok s T"
  shows "0 < rc_page_size s" "finite (dom T)" "n \<in> dom T \<Longrightarrow> n < rc_counter s"
    "T (rc_root_node s) = Some ((None, None), [], [])" "tn_parent (node s (rc_root_node s)) = None"
    "T n = Some (ns, xs, vs) \<Longrightarrow> n \<noteq> rc_root_node s \<Longrightarrow> node_ok s T n ns xs vs" "n \<in> dom T \<Longrightarrow> children_ok s T n"
    "tn_value (node s (rc_root_node s)) = Some []"
  using assms unfolding tree_ok_def by (blast | simp)+

text \<open>A child found under a key.\<close>

lemma child_found:
  assumes ok: "tree_ok s T" and n: "n \<in> dom T" and c: "map_of (tn_children (node s n)) k = Some c"
  shows "c \<in> dom T" "c \<noteq> rc_root_node s" "tn_parent (node s c) = Some n" "k = child_key_of (rc_page_size s) (tn_key (node s c))"
  using tree_okD(7) [OF ok n] c unfolding children_ok_def by auto

lemma node_parts:
  assumes ok: "tree_ok s T" and n: "T n = Some (ns, xs, vs)" "n \<noteq> rc_root_node s"
  obtains p nsp xp vp v where "tn_parent (node s n) = Some p" "T p = Some (nsp, xp, vp)" "p = rc_root_node s \<or> nsp = ns"
    "map_of (tn_children (node s p)) (child_key_of (rc_page_size s) (tn_key (node s n))) = Some n"
    "ns_of (tn_key (node s n)) = ns" "rk_is_bigram (tn_key (node s n)) = rc_is_eagle s" "tn_value (node s n) = Some v"
    "xs = xp @ units (tn_key (node s n))" "vs = vp @ v" "length v = key_len (tn_key (node s n))"
    "0 < key_len (tn_key (node s n))" "rc_page_size s dvd key_len (tn_key (node s n))"
    "rc_page_size s \<le> key_len (tn_key (node s n))" "length xp < length xs"
  using tree_okD(6) [OF ok n] unfolding node_ok_def by (metis (no_types) dvd_imp_le length_append length_units less_add_same_cancel1 that)

text \<open>Paths have whole pages and a slot for each unit.\<close>

lemma path_shape:
  assumes ok: "tree_ok s T" and n: "T n = Some (ns, xs, vs)"
  shows "length vs = length xs \<and> rc_page_size s dvd length xs"
  using n
proof (induction "length xs" arbitrary: n ns xs vs rule: less_induct)
  case less
  show ?case
  proof (cases "n = rc_root_node s")
    case True
    then show ?thesis using tree_okD(4) [OF ok] less.prems by simp
  next
    case False
    obtain p nsp xp vp v where p: "T p = Some (nsp, xp, vp)" "xs = xp @ units (tn_key (node s n))" "vs = vp @ v"
      "length v = key_len (tn_key (node s n))" "rc_page_size s dvd key_len (tn_key (node s n))" "length xp < length xs"
      by (rule node_parts [OF ok less.prems False])
    from less.hyps [OF p(6,1)] p show ?thesis by simp
  qed
qed

lemma path_nonempty:
  assumes ok: "tree_ok s T" and n: "T n = Some (ns, xs, vs)" "n \<noteq> rc_root_node s"
  shows "xs \<noteq> []" "ns_of (tn_key (node s n)) = ns"
  by (rule node_parts [OF assms], force)+

lemma child_longer:
  assumes ok: "tree_ok s T" and c: "T c = Some (ns, xc, vc)" "c \<noteq> rc_root_node s"
    and p: "tn_parent (node s c) = Some p" "T p = Some (nsp, xp, vp)"
  shows "length xp + rc_page_size s \<le> length xc"
  by (rule node_parts [OF ok c]) (use p in simp)

section \<open>The next page decides the next child\<close>

lemma child_pages:
  assumes ok: "tree_ok s T" and c: "T c = Some (ns, xc, vc)" "c \<noteq> rc_root_node s" and d: "T d = Some (ns, xd, vd)" "d \<noteq> rc_root_node s"
    and p: "tn_parent (node s c) = Some p" "tn_parent (node s d) = Some p"
    and pages: "take (length xp + rc_page_size s) xc = take (length xp + rc_page_size s) xd" "T p = Some (nsp, xp, vp)"
  shows "c = d"
proof -
  obtain p1 n1 x1 v1 w1 where c1: "tn_parent (node s c) = Some p1" "T p1 = Some (n1, x1, v1)"
    "map_of (tn_children (node s p1)) (child_key_of (rc_page_size s) (tn_key (node s c))) = Some c"
    "ns_of (tn_key (node s c)) = ns" "xc = x1 @ units (tn_key (node s c))" "rc_page_size s \<le> key_len (tn_key (node s c))"
    by (rule node_parts [OF ok c])
  obtain p2 n2 x2 v2 w2 where d1: "tn_parent (node s d) = Some p2" "T p2 = Some (n2, x2, v2)"
    "map_of (tn_children (node s p2)) (child_key_of (rc_page_size s) (tn_key (node s d))) = Some d"
    "ns_of (tn_key (node s d)) = ns" "xd = x2 @ units (tn_key (node s d))" "rc_page_size s \<le> key_len (tn_key (node s d))"
    by (rule node_parts [OF ok d])
  have e: "p1 = p" "p2 = p" "x1 = xp" "x2 = xp" using c1(1,2) d1(1,2) p pages(2) by simp_all
  have "take (rc_page_size s) (units (tn_key (node s c))) = take (rc_page_size s) (units (tn_key (node s d)))"
    using pages(1) c1(5) d1(5) e by simp
  then have "child_key_of (rc_page_size s) (tn_key (node s c)) = child_key_of (rc_page_size s) (tn_key (node s d))"
    using c1(4,6) d1(4,6) by (simp add: child_key_of_eq)
  then show ?thesis using c1(3) d1(3) e by simp
qed

text \<open>
  A node whose path extends another's lies below it: there is a child of the shorter one on the way.
\<close>

lemma descend:
  assumes ok: "tree_ok s T" and m: "T m = Some (ns, xm, vm)" "m \<noteq> rc_root_node s"
    and n: "T n = Some (nsn, xn, vn)" "n = rc_root_node s \<or> nsn = ns" and shorter: "length xn < length xm" "take (length xn) xm = xn"
  shows "\<exists>c xc vc. T c = Some (ns, xc, vc) \<and> c \<noteq> rc_root_node s \<and> tn_parent (node s c) = Some n \<and> xc = take (length xc) xm \<and>
    vc = take (length xc) vm \<and> length xc \<le> length xm \<and> (c = m \<or> length xc < length xm) \<and> vn = take (length xn) vm"
  using m n shorter
proof (induction "length xm" arbitrary: m ns xm vm n nsn xn vn rule: less_induct)
  case less
  note ps = path_shape [OF ok]
  obtain p nsp xp vp v where p: "tn_parent (node s m) = Some p" "T p = Some (nsp, xp, vp)" "p = rc_root_node s \<or> nsp = ns"
    "xm = xp @ units (tn_key (node s m))" "vm = vp @ v" "length xp < length xm"
    by (rule node_parts [OF ok less.prems(1,2)])
  have lp: "length vp = length xp" using ps [OF p(2)] by simp
  have lm: "length vm = length xm" using ps [OF less.prems(1)] by simp
  have xp: "xp = take (length xp) xm" "vp = take (length xp) vm" using p(4,5) lp by simp_all
  have dvd: "rc_page_size s dvd length xn" "rc_page_size s dvd length xp" "rc_page_size s dvd length xm"
    using ps [OF less.prems(3)] ps [OF p(2)] ps [OF less.prems(1)] by simp_all
  consider "length xn < length xp" | "length xn = length xp" | "length xp < length xn" by linarith
  then show ?case
  proof cases
    case 1
    then have pr: "p \<noteq> rc_root_node s" using tree_okD(4) [OF ok] p(2) by auto
    then have "nsp = ns" using p(3) by simp
    moreover have "take (length xn) xp = xn" using less.prems(6) 1 p(4) by simp
    ultimately obtain c xc vc where c: "T c = Some (ns, xc, vc)" "c \<noteq> rc_root_node s" "tn_parent (node s c) = Some n"
      "xc = take (length xc) xp" "vc = take (length xc) vp" "length xc \<le> length xp" "vn = take (length xn) vp"
      using less.hyps [OF p(6) _ pr less.prems(3,4) 1] p(2) by blast
    then show ?thesis using p(4,5,6) lp 1
      by (intro exI [of _ c] exI [of _ xc] exI [of _ vc]) auto
  next
    case 2
    have same: "xn = xp" using less.prems(6) p(4) 2 by simp
    have "n = p"
    proof (cases "p = rc_root_node s")
      case True
      then have "xn = []" using p(2) tree_okD(4) [OF ok] same by simp
      then show ?thesis using path_nonempty [OF ok less.prems(3)] True by blast
    next
      case False
      then have nsp: "nsp = ns" using p(3) by simp
      have nr: "n \<noteq> rc_root_node s" using same path_nonempty(1) [OF ok p(2) False] less.prems(3) tree_okD(4) [OF ok] by auto
      then have nsn: "nsn = ns" using less.prems(4) by simp
      obtain q nq xq vq w where q: "tn_parent (node s p) = Some q" "T q = Some (nq, xq, vq)" "q = rc_root_node s \<or> nq = ns"
        "xp = xq @ units (tn_key (node s p))" "length xq < length xp" "rc_page_size s \<le> key_len (tn_key (node s p))"
        using node_parts [OF ok p(2) False] nsp by metis
      have "take (length xq) xn = xq" using q(4) same by simp
      then obtain c xc vc where c: "T c = Some (ns, xc, vc)" "c \<noteq> rc_root_node s" "tn_parent (node s c) = Some q"
        "xc = take (length xc) xn" "c = n \<or> length xc < length xn"
        using less.hyps [of xn n ns vn q nq xq vq] less.prems(3,5) nr nsn q(2,3,5) same by blast
      have "length xq + rc_page_size s \<le> length xc" by (rule child_longer [OF ok c(1,2,3) q(2)])
      then have "take (length xq + rc_page_size s) xc = take (length xq + rc_page_size s) xp"
        using c(4) same by (metis min.absorb1 take_take)
      then have "c = p" using child_pages [OF ok c(1,2) _ False c(3) q(1) _ q(2)] p(2) nsp by blast
      then have "xc = xp" using c(1) p(2) by simp
      then show ?thesis using c(5) same \<open>c = p\<close> by auto
    qed
    then have "vn = vp" using less.prems(3) p(2) by simp
    then show ?thesis using \<open>n = p\<close> p(1,5) lp lm less.prems(1,2) same by (intro exI [of _ m] exI [of _ xm] exI [of _ vm]) simp
  next
    case 3
    then have nr: "n \<noteq> rc_root_node s" using tree_okD(4) [OF ok] less.prems(3) by auto
    then have nsn: "nsn = ns" using less.prems(4) by simp
    have "take (length xp) xn = xp" using less.prems(6) 3 xp(1) by (metis min.absorb1 less_imp_le take_take)
    then obtain c xc vc where c: "T c = Some (ns, xc, vc)" "c \<noteq> rc_root_node s" "tn_parent (node s c) = Some p"
      "xc = take (length xc) xn" "length xc \<le> length xn"
      using less.hyps [of xn n ns vn p nsp xp vp] less.prems(3,5) nr nsn p(2,3) 3 by blast
    have "length xp + rc_page_size s \<le> length xn"
      using dvd(1,2) 3 by (metis dvd_diff_nat dvd_imp_le le_add_diff_inverse less_imp_le nat_add_left_cancel_le zero_less_diff)
    moreover have "length xp + rc_page_size s \<le> length xc" by (rule child_longer [OF ok c(1,2,3) p(2)])
    ultimately have "take (length xp + rc_page_size s) xc = take (length xp + rc_page_size s) xm"
      using c(4) less.prems(6) by (metis min.absorb1 take_take)
    then have "c = m" using child_pages [OF ok c(1,2) less.prems(1,2) c(3) p(1) _ p(2)] by blast
    then have "length xm \<le> length xn" using c(1,5) less.prems(1) by simp
    then show ?thesis using less.prems(5) by simp
  qed
qed

section \<open>Splitting a node\<close>

text \<open>The store after a split, with the parent and the value of the node at hand.\<close>

lemma split_node_store:
  fixes s c l
  defines "cn \<equiv> node s c" and "new \<equiv> rc_counter s"
  assumes p: "tn_parent cn = Some p" and v: "tn_value cn = Some v" and d: "c \<noteq> new" "p \<noteq> new" "p \<noteq> c"
  shows "fst (split_node c l s) = new"
    and "tn_children (node (snd (split_node c l s)) n) =
      (if n = new then [(child_key_of (rc_page_size s) (drop_key l (tn_key cn)), c)]
       else if n = p then AList.update (child_key_of (rc_page_size s) (tn_key cn)) new (tn_children (node s p)) else tn_children (node s n))"
    and "tn_parent (node (snd (split_node c l s)) n) = (if n = new then Some p else if n = c then Some new else tn_parent (node s n))"
    and "tn_key (node (snd (split_node c l s)) n) =
      (if n = new then slice_key 0 l (tn_key cn) else if n = c then drop_key l (tn_key cn) else tn_key (node s n))"
    and "tn_value (node (snd (split_node c l s)) n) =
      (if n = new then Some (take l v) else if n = c then Some (drop l v) else tn_value (node s n))"
    and "tn_lock_ref (node (snd (split_node c l s)) n) = (if n = new then tn_lock_ref cn else tn_lock_ref (node s n))"
    and "rc_counter (snd (split_node c l s)) = Suc new"
  using assms by (simp_all add: split_node_def new_tree_node_def monotonic_def upd_node_def Let_def)

lemma split_node_same [simp]:
  "rc_page_size (snd (split_node c l s)) = rc_page_size s" "rc_is_eagle (snd (split_node c l s)) = rc_is_eagle s"
  "rc_root_node (snd (split_node c l s)) = rc_root_node s" "rc_disable (snd (split_node c l s)) = rc_disable s"
  "rc_evictable_size (snd (split_node c l s)) = rc_evictable_size s" "rc_protected_size (snd (split_node c l s)) = rc_protected_size s"
  "rc_evictable_leaves (snd (split_node c l s)) = rc_evictable_leaves s"
  by (auto simp: split_node_def new_tree_node_def monotonic_def upd_node_def Let_def split: option.splits)

text \<open>The layout after a split has one node more, in the middle of the old one.\<close>

definition split_layout :: "radix_cache \<Rightarrow> layout \<Rightarrow> nat \<Rightarrow> nat \<Rightarrow> layout" where
  "split_layout s T c l =
     (case T c of
        Some (ns, xs, vs) \<Rightarrow> let m = length xs - key_len (tn_key (node s c)) + l in T(rc_counter s \<mapsto> (ns, take m xs, take m vs))
      | None \<Rightarrow> T)"

lemma split_ok:
  assumes ok: "tree_ok s T" and c: "T c = Some (ns, xc, vc)" "c \<noteq> rc_root_node s"
    and l: "0 < l" "l < key_len (tn_key (node s c))" "rc_page_size s dvd l"
  shows "tree_ok (snd (split_node c l s)) (split_layout s T c l)"
proof -
  let ?s = "snd (split_node c l s)" and ?new = "rc_counter s" and ?ps = "rc_page_size s"
  define k where "k = tn_key (node s c)"
  obtain p nsp xp vp v where p: "tn_parent (node s c) = Some p" "T p = Some (nsp, xp, vp)" "p = rc_root_node s \<or> nsp = ns"
    "map_of (tn_children (node s p)) (child_key_of ?ps k) = Some c"
    "ns_of k = ns" "rk_is_bigram k = rc_is_eagle s" "tn_value (node s c) = Some v"
    "xc = xp @ units k" "vc = vp @ v" "length v = key_len k" "?ps dvd key_len k" "length xp < length xc"
    unfolding k_def by (rule node_parts [OF ok c])
  have lp: "length vp = length xp" using path_shape [OF ok p(2)] by simp
  have new: "?new \<notin> dom T" using tree_okD(3) [OF ok] by blast
  have d: "c \<noteq> ?new" "p \<noteq> ?new" "p \<noteq> c" "rc_root_node s \<noteq> ?new" using new c p(2,12) tree_okD(4) [OF ok] by auto
  note st = split_node_store [OF p(1,7) d(1-3), of l, folded k_def]
  have psl: "?ps \<le> l" "?ps \<le> key_len k" using l dvd_imp_le [OF l(3,1)] by (simp_all add: k_def)
  have lk: "l < key_len k" using l(2) by (simp add: k_def)
  have ck: "child_key_of ?ps (slice_key 0 l k) = child_key_of ?ps k"
    using psl lk by (simp add: child_key_of_eq key_len_slice units_slice pyslice_def)
  have T': "split_layout s T c l = T(?new \<mapsto> (ns, xp @ take l (units k), vp @ take l v))"
    using c p(8,9) lp by (simp add: split_layout_def Let_def k_def)
  let ?T = "T(?new \<mapsto> (ns, xp @ take l (units k), vp @ take l v))"
  have Tn: "?T n = (if n = ?new then Some (ns, xp @ take l (units k), vp @ take l v) else T n)" for n by simp
  have nodes: "node_ok ?s ?T n ms xs vs" if n: "?T n = Some (ms, xs, vs)" "n \<noteq> rc_root_node s" for n ms xs vs
  proof (cases "n = ?new \<or> n = c")
    case True
    then show ?thesis
    proof
      assume "n = ?new"
      then show ?thesis using n p d l(1,3) lk
        by (intro node_okI [of _ _ p _ nsp xp vp _ "take l v"]) (simp_all add: st ck update_conv' units_slice pyslice_def key_len_slice)
    next
      assume nc: "n = c"
      have "?ps dvd key_len k - l" using p(11) l(3) by simp
      then show ?thesis using nc n c p d lk
        by (intro node_okI [of _ _ ?new _ ns "xp @ take l (units k)" "vp @ take l v" _ "drop l v"])
          (simp_all add: st units_drop key_len_drop)
    qed
  next
    case False
    then have Tn: "T n = Some (ms, xs, vs)" using n by simp
    obtain q nsq xq vq w where q: "tn_parent (node s n) = Some q" "T q = Some (nsq, xq, vq)" "q = rc_root_node s \<or> nsq = ms"
      "map_of (tn_children (node s q)) (child_key_of ?ps (tn_key (node s n))) = Some n"
      "ns_of (tn_key (node s n)) = ms" "rk_is_bigram (tn_key (node s n)) = rc_is_eagle s"
      "tn_value (node s n) = Some w" "xs = xq @ units (tn_key (node s n))" "vs = vq @ w"
      "length w = key_len (tn_key (node s n))" "0 < key_len (tn_key (node s n))" "?ps dvd key_len (tn_key (node s n))"
      by (rule node_parts [OF ok Tn n(2)])
    have "q \<noteq> ?new" using q(2) new by auto
    moreover have "q = p \<Longrightarrow> child_key_of ?ps (tn_key (node s n)) \<noteq> child_key_of ?ps k" using q(4) p(4) False by auto
    ultimately show ?thesis using q False
      by (intro node_okI [of _ _ q _ nsq xq vq _ w]) (auto simp: st update_conv')
  qed
  have kids: "children_ok ?s ?T q" if q: "q \<in> dom ?T" for q
  proof (cases "q = ?new")
    case True
    then show ?thesis using c d unfolding children_ok_def by (auto simp: st split: if_splits)
  next
    case False
    then have "q \<in> dom T" using q by auto
    then have old: "children_ok s T q" by (rule tree_okD(7) [OF ok])
    show ?thesis
    proof (cases "q = p")
      case True
      have "a \<noteq> c \<and> a \<noteq> ?new" if "map_of (tn_children (node s p)) j = Some a" "j \<noteq> child_key_of ?ps k" for a j
        using child_found(1,4) [OF ok _ that(1)] p(2) that(2) k_def new by auto
      then show ?thesis using old True False d new unfolding children_ok_def
        by (auto simp: st update_conv' ck distinct_update)
    next
      case np: False
      have "a \<noteq> c \<and> a \<noteq> ?new" if "map_of (tn_children (node s q)) j = Some a" for a j
        using child_found(1,3) [OF ok \<open>q \<in> dom T\<close> that] p(1) np new by auto
      then show ?thesis using old np False new unfolding children_ok_def by (auto simp: st)
    qed
  qed
  have root: "rc_root_node s \<noteq> c" using c(2) by simp
  have bound: "n < rc_counter ?s" if "n \<in> dom ?T" for n
    using that tree_okD(3) [OF ok, of n] by (auto simp: st(7) less_Suc_eq)
  show ?thesis
    unfolding T' using nodes kids d root bound tree_okD(1,2,4,5,8) [OF ok] by (intro tree_okI) (simp_all add: st)
qed

section \<open>The contents\<close>

text \<open>
  A sequence of whole pages is cached with its slots when it is a prefix of some path; the empty sequence
  always is.
\<close>

definition cached :: "nat \<Rightarrow> layout \<Rightarrow> namespace \<Rightarrow> unit_key list \<Rightarrow> int list \<Rightarrow> bool" where
  "cached ps T ns xs vs \<longleftrightarrow> ps dvd length xs \<and> (xs = [] \<and> vs = [] \<or>
     (\<exists>m xm vm. T m = Some (ns, xm, vm) \<and> length xs \<le> length xm \<and> xs = take (length xs) xm \<and> vs = take (length xs) vm))"

lemma prefix_take: "xs = take (length xs) ys \<Longrightarrow> k \<le> length xs \<Longrightarrow> take k xs = take k ys"
  by (metis min.absorb1 take_take)

lemma cached_empty [simp]: "cached ps T ns [] vs \<longleftrightarrow> vs = []"
  by (auto simp: cached_def)

lemma cached_take:
  assumes "cached ps T ns xs vs" "ps dvd k" "k \<le> length xs"
  shows "cached ps T ns (take k xs) (take k vs)"
proof (cases "xs = []")
  case False
  then obtain m xm vm where m: "T m = Some (ns, xm, vm)" "length xs \<le> length xm" "xs = take (length xs) xm" "vs = take (length xs) vm"
    using assms(1) by (auto simp: cached_def)
  have "take k xs = take k xm" using assms(3) by (rule prefix_take [OF m(3)])
  moreover have "take k vs = take k vm" using assms(3) m(4) by (simp add: min_absorb1)
  ultimately show ?thesis using assms(2,3) m(1,2) unfolding cached_def
    by (intro conjI disjI2 exI [of _ m] exI [of _ xm] exI [of _ vm]) (simp_all add: min_absorb1)
qed (use assms in auto)

lemma cached_path: "tree_ok s T \<Longrightarrow> T n = Some (ns, xs, vs) \<Longrightarrow> cached (rc_page_size s) T ns xs vs"
  using path_shape unfolding cached_def by (metis order_refl take_all_iff)

lemma cached_split:
  assumes ok: "tree_ok s T" and c: "T c = Some (ns, xc, vc)"
  shows "cached ps (split_layout s T c l) = cached ps T"
proof (intro ext iffI)
  fix ms xs vs
  have new: "rc_counter s \<notin> dom T" using tree_okD(3) [OF ok] by blast
  let ?m = "length xc - key_len (tn_key (node s c)) + l"
  have T': "split_layout s T c l = T(rc_counter s \<mapsto> (ns, take ?m xc, take ?m vc))"
    using c by (simp add: split_layout_def Let_def)
  {
    assume a: "cached ps (split_layout s T c l) ms xs vs"
    show "cached ps T ms xs vs"
    proof (cases "xs = []")
      case False
      then obtain m xm vm where m: "split_layout s T c l m = Some (ms, xm, vm)" "length xs \<le> length xm"
        "xs = take (length xs) xm" "vs = take (length xs) vm" using a by (auto simp: cached_def)
      show ?thesis
      proof (cases "m = rc_counter s")
        case True
        then have e: "ms = ns" "xm = take ?m xc" "vm = take ?m vc" using m(1) T' by simp_all
        have le: "length xs \<le> ?m" "length xs \<le> length xc" using m(2) e(2) by simp_all
        have "xs = take (length xs) xc" using m(3) e(2) le(1) by (simp add: min_absorb1)
        moreover have "vs = take (length xs) vc" using m(4) e(3) le(1) by (simp add: min_absorb1)
        ultimately show ?thesis using a c e le unfolding cached_def by blast
      next
        case False
        then show ?thesis using a m T' unfolding cached_def by auto
      qed
    qed (use a in auto)
  next
    assume a: "cached ps T ms xs vs"
    then show "cached ps (split_layout s T c l) ms xs vs"
      using new unfolding cached_def T' by (metis domIff fun_upd_apply option.distinct(1))
  }
qed

text \<open>Equal sequences have equal slots: the contents are a partial function.\<close>

lemma prefix_slots:
  assumes ok: "tree_ok s T" and m: "T m = Some (ns, xm, vm)" and n: "T n = Some (ns, xn, vn)"
    and k: "rc_page_size s dvd k" "k \<le> length xm" "k \<le> length xn" "take k xm = take k xn"
  shows "take k vm = take k vn"
  using m k
proof (induction "length xm" arbitrary: m xm vm rule: less_induct)
  case less
  show ?case
  proof (cases "k = 0")
    case False
    then have mr: "m \<noteq> rc_root_node s" and nr: "n \<noteq> rc_root_node s"
      using less.prems tree_okD(4) [OF ok] n by auto
    obtain p nsp xp vp v where p: "tn_parent (node s m) = Some p" "T p = Some (nsp, xp, vp)" "p = rc_root_node s \<or> nsp = ns"
      "xm = xp @ units (tn_key (node s m))" "vm = vp @ v" "length xp < length xm"
      by (rule node_parts [OF ok less.prems(1) mr])
    have lp: "length vp = length xp" "rc_page_size s dvd length xp" using path_shape [OF ok p(2)] by simp_all
    show ?thesis
    proof (cases "k \<le> length xp")
      case True
      then have "nsp = ns" using p(2,3) False tree_okD(4) [OF ok] by auto
      then have "take k vp = take k vn"
        using less.hyps [OF p(6)] p(2,4) True less.prems(2,4,5) by simp
      then show ?thesis using p(5) lp(1) True by simp
    next
      case below: False
      have ge: "length xp + rc_page_size s \<le> k"
        using lp(2) less.prems(2) below by (metis dvd_diff_nat dvd_imp_le le_add_diff_inverse less_imp_le not_le nat_add_left_cancel_le zero_less_diff)
      have pre: "take (length xp) xn = xp" using less.prems(5) below p(4)
        by (metis append_eq_conv_conj min.absorb1 nat_le_linear take_take)
      obtain c xc vc where c: "T c = Some (ns, xc, vc)" "c \<noteq> rc_root_node s" "tn_parent (node s c) = Some p"
        "xc = take (length xc) xn" "vc = take (length xc) vn"
        using descend [OF ok n nr p(2,3)] pre below less.prems(4) by (metis less_le_trans not_le)
      have lc: "length xp + rc_page_size s \<le> length xc"
        by (rule child_longer [OF ok c(1,2,3) p(2)])
      have "take (length xp + rc_page_size s) xc = take (length xp + rc_page_size s) xm"
        using c(4) lc less.prems(5) ge by (metis min.absorb1 take_take)
      then have "c = m" using child_pages [OF ok c(1,2) less.prems(1) mr c(3) p(1) _ p(2)] by blast
      then have "vm = take (length xm) vn" using c(1,5) less.prems(1) by simp
      then show ?thesis using less.prems(3) by (metis min.absorb1 take_take)
    qed
  qed simp
qed

lemma cached_unique:
  assumes "tree_ok s T" "cached (rc_page_size s) T ns xs vs" "cached (rc_page_size s) T ns xs vs'"
  shows "vs = vs'"
proof (cases "xs = []")
  case False
  then show ?thesis using assms unfolding cached_def by (metis prefix_slots)
qed (use assms in auto)

section \<open>Where a walk stops\<close>

definition stuck :: "radix_cache \<Rightarrow> nat \<Rightarrow> radix_key \<Rightarrow> bool" where
  "stuck s n key \<longleftrightarrow> key_len key = 0 \<or> map_of (tn_children (node s n)) (child_key_of (rc_page_size s) key) = None"

text \<open>Where no child continues the key, nothing longer is cached.\<close>

lemma stuck_longest:
  assumes ok: "tree_ok s T" and n: "T n = Some (nsn, xn, vn)" "n = rc_root_node s \<or> nsn = ns_of key"
    and key: "rk_is_bigram key = rc_is_eagle s" and st: "stuck s n key"
    and c: "cached (rc_page_size s) T (ns_of key) (xn @ take j (units key)) vs" "j \<le> key_len key"
  shows "j = 0"
proof (rule ccontr)
  assume j: "j \<noteq> 0"
  let ?xs = "xn @ take j (units key)" and ?ps = "rc_page_size s"
  have lx: "length ?xs = length xn + j" using c(2) by simp
  obtain m xm vm where m: "T m = Some (ns_of key, xm, vm)" "length ?xs \<le> length xm" "?xs = take (length ?xs) xm"
    using c(1) j lx unfolding cached_def by (metis add_eq_0_iff_both_eq_0 list.size(3))
  have mr: "m \<noteq> rc_root_node s" using m(1,2) lx j tree_okD(4) [OF ok] by auto
  have dv: "?ps dvd length xn" "?ps dvd length xn + j" using path_shape [OF ok n(1)] c(1) lx by (simp_all add: cached_def)
  then have psj: "?ps \<le> j" using j by (metis dvd_add_right_iff dvd_imp_le neq0_conv)
  have xm: "take (length xn) xm = xn" using m(3) lx by (metis append_eq_conv_conj min.absorb1 le_add1 take_take)
  obtain d xd vd where d: "T d = Some (ns_of key, xd, vd)" "d \<noteq> rc_root_node s" "tn_parent (node s d) = Some n"
    "xd = take (length xd) xm"
    using descend [OF ok m(1) mr n _ xm] m(2) lx j by auto
  obtain p nsp xp vp v where p: "tn_parent (node s d) = Some p" "T p = Some (nsp, xp, vp)"
    "map_of (tn_children (node s p)) (child_key_of ?ps (tn_key (node s d))) = Some d"
    "ns_of (tn_key (node s d)) = ns_of key" "xd = xp @ units (tn_key (node s d))" "?ps \<le> key_len (tn_key (node s d))"
    by (rule node_parts [OF ok d(1,2)])
  have e: "p = n" "xp = xn" using p(1,2) d(3) n(1) by simp_all
  have "take (length xn + ?ps) xd = take (length xn + ?ps) xm"
    using d(4) p(5,6) e by (metis length_append length_units min.absorb1 nat_add_left_cancel_le take_take)
  moreover have "take (length xn + ?ps) xm = take (length xn + ?ps) ?xs"
    using m(3) lx psj by (metis min.absorb1 nat_add_left_cancel_le take_take)
  ultimately have "take ?ps (units (tn_key (node s d))) = take ?ps (take j (units key))" using p(5) e by simp
  then have "take ?ps (units (tn_key (node s d))) = take ?ps (units key)" using psj by (simp add: min_absorb1)
  then have "child_key_of ?ps (tn_key (node s d)) = child_key_of ?ps key"
    using p(4,6) psj c(2) by (simp add: child_key_of_eq)
  then show False using st p(3) e j c(2) by (simp add: stuck_def)
qed

text \<open>After a split at the comparison's result the walk cannot go on.\<close>

lemma split_stuck:
  assumes ok: "tree_ok s T" and c: "T c = Some (ns_of key, xc, vc)" "c \<noteq> rc_root_node s"
    and l: "l = lcp_len (units (tn_key (node s c))) (units key) div rc_page_size s * rc_page_size s"
      "0 < l" "l < key_len (tn_key (node s c))" and key: "rc_page_size s dvd key_len key" 
  shows "stuck (snd (split_node c l s)) (rc_counter s) (drop_key l key)"
proof -
  let ?ps = "rc_page_size s" and ?k = "tn_key (node s c)" and ?d = "key_len (drop_key l key)"
  obtain p nsp xp vp v where p: "tn_parent (node s c) = Some p" "T p = Some (nsp, xp, vp)" "tn_value (node s c) = Some v"
    "ns_of ?k = ns_of key" "?ps dvd key_len ?k" "length xp < length xc"
    by (rule node_parts [OF ok c])
  have new: "rc_counter s \<notin> dom T" using tree_okD(3) [OF ok] by blast
  then have d: "c \<noteq> rc_counter s" "p \<noteq> rc_counter s" "p \<noteq> c" using c p(2,6) by auto
  note st = split_node_store [OF p(1,3) d, of l]
  have pos: "0 < ?ps" by (rule tree_okD(1) [OF ok])
  have dvl: "?ps dvd l" using l(1) by simp
  show ?thesis
  proof (cases "?d = 0")
    case False
    have rest: "?ps \<le> ?d" "?ps \<le> key_len (drop_key l ?k)"
      using False key p(5) dvl l(3) by (auto simp: key_len_drop intro: dvd_imp_le)
    have "take ?ps (drop l (units ?k)) \<noteq> take ?ps (drop l (units key))"
    proof
      assume same: "take ?ps (drop l (units ?k)) = take ?ps (drop l (units key))"
      have "take l (units ?k) = take l (units key)"
        using take_lcp [of "units ?k" "units key"] l(1) by (metis min.absorb1 take_take div_times_less_eq_dividend)
      then have "take (l + ?ps) (units ?k) = take (l + ?ps) (units key)" using same by (simp add: take_add)
      then have "l + ?ps \<le> lcp_len (units ?k) (units key)"
        using rest pos unfolding key_len_drop by (intro lcp_len_ge; simp)
      then have "(l + ?ps) div ?ps \<le> l div ?ps" using l(1) pos by (metis div_le_mono nonzero_mult_div_cancel_right less_irrefl)
      moreover have "(l + ?ps) div ?ps = Suc (l div ?ps)" using pos div_add_self2 [of ?ps l] by simp
      ultimately show False by linarith
    qed
    then have "child_key_of ?ps (drop_key l ?k) \<noteq> child_key_of ?ps (drop_key l key)"
      using rest by (simp add: child_key_of_eq units_drop)
    then show ?thesis by (simp add: stuck_def st)
  qed (simp add: stuck_def)
qed

end
