(* ===== verification/RadixBooks.thy ===== *)
theory RadixBooks
  imports RadixInv
begin

text \<open>
  The cache's book-keeping: the lock counts, the evictable and the protected size, and the set of
  evictable leaves, for a list \<open>L\<close> of the nodes that requests hold.  A node's lock count is the number of
  held nodes at or below it.  \<open>reshaped\<close> collects what the steps of a walk keep: touching, raising a
  priority, counting a hit and splitting change neither the contents nor the books.
\<close>

section \<open>The books\<close>

text \<open>Node \<open>m\<close> lies at or below node \<open>n\<close>.\<close>

definition below :: "layout \<Rightarrow> nat \<Rightarrow> nat \<Rightarrow> bool" where
  "below T n m \<longleftrightarrow> (\<exists>ns xn vn xm vm. T n = Some (ns, xn, vn) \<and> T m = Some (ns, xm, vm) \<and> length xn \<le> length xm \<and>
     take (length xn) xm = xn)"

definition holders :: "layout \<Rightarrow> nat list \<Rightarrow> nat \<Rightarrow> int" where
  "holders T L n = int (length (filter (below T n) L))"

definition live :: "radix_cache \<Rightarrow> layout \<Rightarrow> nat set" where
  "live s T = dom T - {rc_root_node s}"

definition size_where :: "radix_cache \<Rightarrow> layout \<Rightarrow> bool \<Rightarrow> int" where
  "size_where s T unlocked = (\<Sum>n | n \<in> live s T \<and> (tn_lock_ref (node s n) = 0) = unlocked. int (key_len (tn_key (node s n))))"

definition books :: "radix_cache \<Rightarrow> layout \<Rightarrow> nat list \<Rightarrow> bool" where
  "books s T L \<longleftrightarrow> set L \<subseteq> dom T \<and> tn_lock_ref (node s (rc_root_node s)) = 1 \<and>
     (\<forall>n \<in> live s T. tn_lock_ref (node s n) = holders T L n) \<and>
     rc_evictable_size s = size_where s T True \<and> rc_protected_size s = size_where s T False \<and>
     distinct (rc_evictable_leaves s) \<and>
     set (rc_evictable_leaves s) = {n \<in> live s T. tn_lock_ref (node s n) = 0 \<and> tn_children (node s n) = []}"

definition same_config :: "radix_cache \<Rightarrow> radix_cache \<Rightarrow> bool" where
  "same_config s s' \<longleftrightarrow> rc_page_size s' = rc_page_size s \<and> rc_is_eagle s' = rc_is_eagle s \<and> rc_root_node s' = rc_root_node s \<and>
     rc_disable s' = rc_disable s \<and> rc_policy s' = rc_policy s \<and> rc_disable_finished_insert s' = rc_disable_finished_insert s"

definition reshaped :: "radix_cache \<Rightarrow> layout \<Rightarrow> radix_cache \<Rightarrow> layout \<Rightarrow> bool" where
  "reshaped s T s' T' \<longleftrightarrow> tree_ok s' T' \<and> T \<subseteq>\<^sub>m T' \<and> cached (rc_page_size s) T' = cached (rc_page_size s) T \<and> same_config s s' \<and>
     (\<forall>L. books s T L \<longrightarrow> books s' T' L)"

lemma reshaped_refl: "tree_ok s T \<Longrightarrow> reshaped s T s T"
  by (simp add: reshaped_def same_config_def)

lemma reshaped_trans: "reshaped s T s' T' \<Longrightarrow> reshaped s' T' s'' T'' \<Longrightarrow> reshaped s T s'' T''"
  unfolding reshaped_def same_config_def using map_le_trans by metis

section \<open>Fields that do not matter\<close>

definition cosmetic :: "radix_cache \<Rightarrow> radix_cache \<Rightarrow> bool" where
  "cosmetic s s' \<longleftrightarrow> same_skeleton s s' \<and> same_config s s' \<and> (\<forall>n. tn_lock_ref (node s' n) = tn_lock_ref (node s n)) \<and>
     rc_evictable_size s' = rc_evictable_size s \<and> rc_protected_size s' = rc_protected_size s \<and>
     rc_evictable_leaves s' = rc_evictable_leaves s"

lemma cosmetic_trans: "cosmetic s s' \<Longrightarrow> cosmetic s' s'' \<Longrightarrow> cosmetic s s''"
  unfolding cosmetic_def same_skeleton_def same_config_def by simp

lemma cosmetic_steps [simp]:
  "cosmetic s s" "cosmetic s (touch t n s)" "cosmetic s (raise_priority p n s)"
  "cosmetic s (inc_hit_count n c s)" "cosmetic s (snd (monotonic s))"
  by (simp_all add: cosmetic_def same_config_def) (simp_all add: touch_def raise_priority_def inc_hit_count_def upd_node_def monotonic_def)

lemma cosmetic_reshaped:
  assumes "tree_ok s T" "cosmetic s s'"
  shows "reshaped s T s' T"
  using tree_ok_skeleton [of s s' T] assms
  by (simp add: reshaped_def cosmetic_def books_def live_def size_where_def same_skeleton_def same_config_def)

lemma cosmetic_stuck: "cosmetic s s' \<Longrightarrow> stuck s' n key = stuck s n key"
  by (simp add: cosmetic_def same_skeleton_def stuck_def)

section \<open>Splitting keeps the books\<close>

lemma below_ancestor:
  assumes ok: "tree_ok s T" and c: "T c = Some (ns, xc, vc)" "c \<noteq> rc_root_node s" and m: "T m = Some (ns, xm, vm)"
    and p: "tn_parent (node s c) = Some p" "T p = Some (nsp, xp, vp)" "p = rc_root_node s \<or> nsp = ns"
    and k: "length xp + rc_page_size s \<le> k" "k \<le> length xm" "take k xm = take k xc" "k \<le> length xc"
  shows "below T c m"
proof -
  have pos: "0 < rc_page_size s" by (rule tree_okD(1) [OF ok])
  have mr: "m \<noteq> rc_root_node s" using m k(1,2) pos tree_okD(4) [OF ok] by auto
  have xp: "take (length xp) xc = xp" by (rule node_parts [OF ok c]) (use p in simp)
  have "take (length xp) (take k xm) = take (length xp) (take k xc)" using k(3) by simp
  then have pre: "take (length xp) xm = xp" using k(1) xp by (simp add: min_absorb1)
  have short: "length xp < length xm" using k(1,2) pos by linarith
  obtain d xd vd where d: "T d = Some (ns, xd, vd)" "d \<noteq> rc_root_node s" "tn_parent (node s d) = Some p"
    "xd = take (length xd) xm" "length xd \<le> length xm"
    using descend [OF ok m mr p(2,3) short pre] by blast
  have "take (length xp + rc_page_size s) xd = take (length xp + rc_page_size s) (take k xm)"
    using prefix_take [OF d(4) child_longer [OF ok d(1-3) p(2)]] k(1) by (simp add: min_absorb1)
  also have "\<dots> = take (length xp + rc_page_size s) xc" using k(1,3) by (simp add: min_absorb1)
  finally have "d = c" using child_pages [OF ok d(1,2) c d(3) p(1) _ p(2)] by blast
  then have "xc = take (length xc) xm" "length xc \<le> length xm" using d(1,4,5) c(1) by simp_all
  then show ?thesis using c(1) m unfolding below_def by metis
qed

lemma update_nonempty [simp]: "AList.update k v al \<noteq> []"
  by (cases al) auto

lemma sum_split_node:
  fixes f g :: "nat \<Rightarrow> int"
  assumes "finite S" "new \<notin> S" "c \<in> S" "\<And>n. n \<in> S - {c} \<Longrightarrow> g n = f n" "g new + g c = f c"
  shows "(\<Sum>n\<in>insert new S. g n) = (\<Sum>n\<in>S. f n)"
proof -
  have "(\<Sum>n\<in>S - {c}. g n) = (\<Sum>n\<in>S - {c}. f n)" using assms(4) by simp
  then show ?thesis using assms(1,2,3,5) by (simp add: sum.remove [of S c])
qed

lemma split_books:
  assumes ok: "tree_ok s T" and c: "T c = Some (ns, xc, vc)" "c \<noteq> rc_root_node s"
    and l: "0 < l" "l < key_len (tn_key (node s c))" "rc_page_size s dvd l" and b: "books s T L"
  shows "books (snd (split_node c l s)) (split_layout s T c l) L"
proof -
  let ?s = "snd (split_node c l s)" and ?new = "rc_counter s" and ?T = "split_layout s T c l"
  obtain p nsp xp vp v where p: "tn_parent (node s c) = Some p" "T p = Some (nsp, xp, vp)" "p = rc_root_node s \<or> nsp = ns"
    "map_of (tn_children (node s p)) (child_key_of (rc_page_size s) (tn_key (node s c))) = Some c" "tn_value (node s c) = Some v"
    "xc = xp @ units (tn_key (node s c))" "length xp < length xc"
    by (rule node_parts [OF ok c])
  have new: "?new \<notin> dom T" using tree_okD(3) [OF ok] by blast
  then have d: "c \<noteq> ?new" "p \<noteq> ?new" "p \<noteq> c" "rc_root_node s \<noteq> ?new" using c p(2,7) tree_okD(4) [OF ok] by auto
  note st = split_node_store [OF p(1,5) d(1-3), of l]
  define m where "m = length xp + l"
  have T': "?T = T(?new \<mapsto> (ns, take m xc, take m vc))" using c(1) p(6) by (simp add: split_layout_def Let_def m_def)
  have psl: "rc_page_size s \<le> l" using l by (auto intro: dvd_imp_le)
  have lm: "m < length xc" using p(6) l(2) by (simp add: m_def)
  have LT: "set L \<subseteq> dom T" using b by (simp add: books_def)
  have old: "below ?T n k \<longleftrightarrow> below T n k" if "n \<in> dom T" "k \<in> dom T" for n k
    using that new unfolding below_def T' by (metis fun_upd_other)
  have up: "below ?T ?new k \<longleftrightarrow> below T c k" if k: "k \<in> dom T" for k
  proof
    assume "below ?T ?new k"
    then obtain xk vk where k: "T k = Some (ns, xk, vk)" "m \<le> length xk" "take m xk = take m xc"
      using k new lm unfolding below_def T' by (auto simp: min_absorb2 split: if_splits)
    then show "below T c k" using below_ancestor [OF ok c k(1) p(1-3), of m] psl lm by (simp add: m_def)
  next
    assume "below T c k"
    then obtain xk vk where k: "T k = Some (ns, xk, vk)" "length xc \<le> length xk" "take (length xc) xk = xc"
      using c(1) unfolding below_def by auto
    then have "take m xk = take m xc" using lm by (metis min.absorb1 less_imp_le take_take)
    then show "below ?T ?new k" using k lm new unfolding below_def T'
      by (intro exI [of _ ns] exI [of _ "take m xc"] exI [of _ "take m vc"] exI [of _ xk] exI [of _ vk]) (auto simp: min_absorb2)
  qed
  have hold: "holders ?T L n = (if n = ?new then holders T L c else holders T L n)" if "n \<in> dom ?T" for n
  proof -
    have "filter (below ?T n) L = filter (below T (if n = ?new then c else n)) L"
    proof (rule filter_cong [OF refl])
      fix k assume "k \<in> set L"
      then have "k \<in> dom T" using LT by auto
      then show "below ?T n k = below T (if n = ?new then c else n) k" using up old [of n k] that T' by auto
    qed
    then show ?thesis by (simp add: holders_def)
  qed
  have live: "live ?s ?T = insert ?new (live s T)" using d(4) T' by (auto simp: live_def)
  have fin: "finite (live s T)" "?new \<notin> live s T" "c \<in> live s T" using tree_okD(2) [OF ok] new c by (auto simp: live_def)
  have sz: "size_where ?s ?T u = size_where s T u" for u
  proof (cases "(tn_lock_ref (node s c) = 0) = u")
    case True
    let ?S = "{n. n \<in> live s T \<and> (tn_lock_ref (node s n) = 0) = u}"
    have S: "{n. n \<in> live ?s ?T \<and> (tn_lock_ref (node ?s n) = 0) = u} = insert ?new ?S"
      using True fin(2) by (auto simp: live st)
    show ?thesis unfolding size_where_def S using fin True l(2)
      by (intro sum_split_node [of _ _ c]) (auto simp: st key_len_slice key_len_drop d)
  next
    case False
    then have S: "{n. n \<in> live ?s ?T \<and> (tn_lock_ref (node ?s n) = 0) = u} = {n. n \<in> live s T \<and> (tn_lock_ref (node s n) = 0) = u}"
      using fin(2) by (auto simp: live st)
    show ?thesis unfolding size_where_def S
    proof (rule sum.cong [OF refl])
      fix n assume "n \<in> {n. n \<in> live s T \<and> (tn_lock_ref (node s n) = 0) = u}"
      then have "n \<noteq> ?new" "n \<noteq> c" using fin(2) False by auto
      then show "int (key_len (tn_key (node ?s n))) = int (key_len (tn_key (node s n)))" by (simp add: st(4))
    qed
  qed
  have full: "tn_children (node s p) \<noteq> []" using p(4) by auto
  have kids: "{n \<in> live ?s ?T. tn_lock_ref (node ?s n) = 0 \<and> tn_children (node ?s n) = []} =
      {n \<in> live s T. tn_lock_ref (node s n) = 0 \<and> tn_children (node s n) = []}"
    using fin(2) full by (auto simp: live st)
  have locks: "\<forall>n\<in>live ?s ?T. tn_lock_ref (node ?s n) = holders ?T L n"
  proof
    fix n assume n: "n \<in> live ?s ?T"
    then have "n = ?new \<or> n \<in> live s T" "n \<in> dom ?T" by (simp_all add: live) (auto simp: live_def T')
    then show "tn_lock_ref (node ?s n) = holders ?T L n" using hold [of n] b fin(2,3) by (auto simp: books_def st(6))
  qed
  have root: "tn_lock_ref (node ?s (rc_root_node ?s)) = 1" using b d(4) by (simp add: books_def st(6))
  have "set L \<subseteq> dom ?T" using LT T' by auto
  then show ?thesis using b locks root unfolding books_def sz kids by simp
qed

lemma split_reshaped:
  assumes "tree_ok s T" "T c = Some (ns, xc, vc)" "c \<noteq> rc_root_node s"
    and "0 < l" "l < key_len (tn_key (node s c))" "rc_page_size s dvd l"
  shows "reshaped s T (snd (split_node c l s)) (split_layout s T c l)"
proof -
  have "rc_counter s \<notin> dom T" using tree_okD(3) [OF assms(1)] by blast
  then have "T \<subseteq>\<^sub>m split_layout s T c l" using assms(2) by (auto simp: split_layout_def Let_def map_le_def)
  moreover have "same_config s (snd (split_node c l s))"
    by (auto simp: same_config_def split_node_def new_tree_node_def monotonic_def upd_node_def Let_def split: option.splits)
  ultimately show ?thesis
    using split_ok [OF assms] split_books [OF assms] cached_split [OF assms(1,2)] by (simp add: reshaped_def)
qed
end
