(* ===== verification/RadixWalk.thy ===== *)
theory RadixWalk
  imports RadixBooks
begin

text \<open>
  Matching and inserting refine the abstract contents.  Both loops of the prefix cache walk down the tree
  along a key; one step is shared (\<open>walk_child\<close>, \<open>walk_split\<close>).  The lemmas show that the walks end, that a
  match returns the slots of the longest cached prefix and changes nothing but the shape of the tree, and
  that an insertion adds exactly the rest of the key.
\<close>

section \<open>One step\<close>

text \<open>The key that is left at a node of the walk.\<close>

definition walk_at :: "radix_cache \<Rightarrow> layout \<Rightarrow> nat \<Rightarrow> radix_key \<Rightarrow> unit_key list \<Rightarrow> int list \<Rightarrow> bool" where
  "walk_at s T n key xn vn \<longleftrightarrow> tree_ok s T \<and> (\<exists>ns. T n = Some (ns, xn, vn) \<and> (n = rc_root_node s \<or> ns = ns_of key)) \<and>
     rk_is_bigram key = rc_is_eagle s \<and> rc_page_size s dvd key_len key"

lemma walk_at_drop: "walk_at s T n key xn vn \<Longrightarrow> rc_page_size s dvd l \<Longrightarrow> walk_at s T n (drop_key l key) xn vn"
  by (auto simp: walk_at_def key_len_drop)

lemma walk_at_slots: "walk_at s T n key xn vn \<Longrightarrow> length vn = length xn"
  unfolding walk_at_def using path_shape by blast

lemma walk_at_cosmetic: "walk_at s T n key xn vn \<Longrightarrow> cosmetic s s' \<Longrightarrow> walk_at s' T n key xn vn"
  using tree_ok_skeleton [of s s' T] by (auto simp: walk_at_def cosmetic_def same_config_def)

lemma walk_child:
  assumes w: "walk_at s T n key xn vn" and key: "key_len key \<noteq> 0"
    and c: "map_of (tn_children (node s n)) (child_key_of (rc_page_size s) key) = Some c"
  obtains l v xc vc where "key_match (tn_key (node s c)) key (rc_page_size s) = Inr l"
    "l = lcp_len (units (tn_key (node s c))) (units key) div rc_page_size s * rc_page_size s"
    "0 < l" "rc_page_size s dvd l" "l \<le> key_len key" "l \<le> key_len (tn_key (node s c))"
    "take l (units (tn_key (node s c))) = take l (units key)"
    "T c = Some (ns_of key, xc, vc)" "c \<noteq> rc_root_node s" "tn_value (node s c) = Some v" "length v = key_len (tn_key (node s c))"
    "xc = xn @ units (tn_key (node s c))" "vc = vn @ v"
proof -
  let ?ps = "rc_page_size s" and ?k = "tn_key (node s c)"
  obtain ns where ok: "tree_ok s T" and n: "T n = Some (ns, xn, vn)" using w by (auto simp: walk_at_def)
  have pos: "0 < ?ps" by (rule tree_okD(1) [OF ok])
  have nd: "n \<in> dom T" using n by auto
  note cf = child_found [OF ok nd c]
  obtain nsc xc vc where Tc: "T c = Some (nsc, xc, vc)" using cf(1) by auto
  obtain p nsp xp vp v where p: "tn_parent (node s c) = Some p" "T p = Some (nsp, xp, vp)" "ns_of ?k = nsc"
    "rk_is_bigram ?k = rc_is_eagle s" "tn_value (node s c) = Some v" "xc = xp @ units ?k" "vc = vp @ v" "length v = key_len ?k"
    "?ps \<le> key_len ?k"
    by (rule node_parts [OF ok Tc cf(2)])
  have e: "p = n" "xp = xn" "vp = vn" using p(1,2) cf(3) n by simp_all
  have psk: "?ps \<le> key_len key" using w key by (auto simp: walk_at_def intro: dvd_imp_le)
  have ns: "ns_of ?k = ns_of key" and page: "take ?ps (units ?k) = take ?ps (units key)"
    using cf(4) child_key_of_eq [OF p(9) psk] by simp_all
  let ?l = "lcp_len (units ?k) (units key) div ?ps * ?ps"
  have "key_match ?k key ?ps = Inr ?l" using key_match_lcp [OF ns _ pos] p(4) w by (simp add: walk_at_def)
  moreover have "0 < ?l"
  proof -
    have "?ps \<le> lcp_len (units ?k) (units key)" using page p(9) psk by (intro lcp_len_ge) simp_all
    then have "1 \<le> lcp_len (units ?k) (units key) div ?ps" using pos by (simp add: less_eq_div_iff_mult_less_eq)
    then show ?thesis using pos by simp
  qed
  moreover have le: "?l \<le> lcp_len (units ?k) (units key)" by (rule div_times_less_eq_dividend)
  moreover have "take ?l (units ?k) = take ?l (units key)"
    using take_lcp [of "units ?k" "units key"] le by (metis min.absorb1 take_take)
  moreover have "?l \<le> key_len key" "?l \<le> key_len ?k"
    using le lcp_len_le [of "units ?k" "units key"] unfolding length_units by linarith+
  ultimately show thesis using that [of ?l xc vc v] Tc ns p cf(2) e by simp
qed

text \<open>The walk reaches the middle of a child.\<close>

lemma walk_split:
  assumes ok: "tree_ok s T" and c: "T c = Some (ns_of key, xc, vc)" "c \<noteq> rc_root_node s"
    and l: "l = lcp_len (units (tn_key (node s c))) (units key) div rc_page_size s * rc_page_size s"
      "0 < l" "l < key_len (tn_key (node s c))" and key: "rk_is_bigram key = rc_is_eagle s" "rc_page_size s dvd key_len key"
    and v: "tn_value (node s c) = Some v" "xc = xn @ units (tn_key (node s c))" "vc = vn @ v" "length vn = length xn"
    and split: "split_node c l s = (new, s')"
  shows "reshaped s T s' (split_layout s T c l)"
    "walk_at s' (split_layout s T c l) new (drop_key l key) (xn @ take l (units key)) (vn @ take l v)"
    "stuck s' new (drop_key l key)" "value_of (node s' new) = take l v"
proof -
  obtain p nsp xp vp where p: "tn_parent (node s c) = Some p" "T p = Some (nsp, xp, vp)" "length xp < length xc"
    by (rule node_parts [OF ok c])
  have nd: "rc_counter s \<notin> dom T" using tree_okD(3) [OF ok] by blast
  then have d: "c \<noteq> rc_counter s" "p \<noteq> rc_counter s" "p \<noteq> c" using c p(2,3) by auto
  have e: "new = rc_counter s" "s' = snd (split_node c l s)"
    using split_node_store(1) [OF p(1) v(1) d, of l] split by simp_all
  have dv: "rc_page_size s dvd l" using l(1) by simp
  show r: "reshaped s T s' (split_layout s T c l)" unfolding e by (rule split_reshaped [OF ok c l(2,3) dv])
  show "stuck s' new (drop_key l key)" unfolding e by (rule split_stuck [OF ok c l key(2)])
  show "value_of (node s' new) = take l v" by (simp add: e value_of_def split_node_store(5) [OF p(1) v(1) d])
  have "take l (units (tn_key (node s c))) = take l (units key)"
    using take_lcp [of "units (tn_key (node s c))" "units key"] l(1) by (metis min.absorb1 take_take div_times_less_eq_dividend)
  then have "split_layout s T c l new = Some (ns_of key, xn @ take l (units key), vn @ take l v)"
    using c(1) v(2-4) l(3) by (simp add: split_layout_def Let_def e)
  then show "walk_at s' (split_layout s T c l) new (drop_key l key) (xn @ take l (units key)) (vn @ take l v)"
    using r key dv unfolding walk_at_def reshaped_def same_config_def by (simp add: key_len_drop)
qed

text \<open>What is left of a key.\<close>

definition rest_of :: "nat \<Rightarrow> radix_key \<Rightarrow> radix_key \<Rightarrow> bool" where
  "rest_of l key rest \<longleftrightarrow> units rest = drop l (units key) \<and> ns_of rest = ns_of key \<and> rk_is_bigram rest = rk_is_bigram key"

lemma rest_of_refl: "rest_of 0 key key"
  by (simp add: rest_of_def)

lemma rest_of_drop: "rest_of l key (drop_key l key)"
  by (simp add: rest_of_def units_drop)

lemma rest_of_trans: "rest_of l key k' \<Longrightarrow> rest_of l' k' k'' \<Longrightarrow> rest_of (l + l') key k''"
  by (simp add: rest_of_def add.commute)


text \<open>One round of either loop, up to the split.\<close>

lemma walk_step:
  fixes t
  assumes w: "walk_at s T n key xn vn" and key: "key_len key \<noteq> 0"
    and c: "map_of (tn_children (node s n)) (child_key_of (rc_page_size s) key) = Some c"
  defines "s1 \<equiv> touch t c s"
  obtains l m s2 T2 where "child_key (rc_page_size s) key = Inr (child_key_of (rc_page_size s) key)"
    "key_match (tn_key (node s1 c)) key (rc_page_size s) = Inr l" "0 < l" "l \<le> key_len key"
    "(if l < key_len (tn_key (node s1 c)) then split_node c l s1 else (c, s1)) = (m, s2)" "reshaped s T s2 T2"
    "walk_at s2 T2 m (drop_key l key) (xn @ take l (units key)) (vn @ value_of (node s2 m))" "length (value_of (node s2 m)) = l"
    "l < key_len (tn_key (node s1 c)) \<longrightarrow> stuck s2 m (drop_key l key)"
proof -
  let ?ps = "rc_page_size s"
  have ok: "tree_ok s T" and bg: "rk_is_bigram key = rc_is_eagle s" and kd: "?ps dvd key_len key"
    using w by (auto simp: walk_at_def)
  have pos: "0 < ?ps" by (rule tree_okD(1) [OF ok])
  have psk: "?ps \<le> key_len key" using kd key by (auto intro: dvd_imp_le)
  have cos: "cosmetic s s1" by (simp add: s1_def)
  have w1: "walk_at s1 T n key xn vn" by (rule walk_at_cosmetic [OF w cos])
  have same: "rc_page_size s1 = ?ps" "rc_is_eagle s1 = rc_is_eagle s" "tn_children (node s1 n) = tn_children (node s n)"
    using cos by (simp_all add: cosmetic_def same_skeleton_def)
  have c1: "map_of (tn_children (node s1 n)) (child_key_of (rc_page_size s1) key) = Some c" using c same by simp
  obtain l v xc vc where l: "key_match (tn_key (node s1 c)) key ?ps = Inr l"
    "l = lcp_len (units (tn_key (node s1 c))) (units key) div rc_page_size s1 * rc_page_size s1"
    "0 < l" "?ps dvd l" "l \<le> key_len key" "l \<le> key_len (tn_key (node s1 c))"
    "take l (units (tn_key (node s1 c))) = take l (units key)"
    "T c = Some (ns_of key, xc, vc)" "c \<noteq> rc_root_node s1" "tn_value (node s1 c) = Some v" "length v = key_len (tn_key (node s1 c))"
    "xc = xn @ units (tn_key (node s1 c))" "vc = vn @ v"
    using walk_child [OF w1 key c1] unfolding same(1) by metis
  have r1: "reshaped s T s1 T" by (rule cosmetic_reshaped [OF ok cos])
  then have ok1: "tree_ok s1 T" by (simp add: reshaped_def)
  show thesis
  proof (cases "l < key_len (tn_key (node s1 c))")
    case True
    obtain m s2 where sp: "split_node c l s1 = (m, s2)" by (cases "split_node c l s1")
    have key1: "rk_is_bigram key = rc_is_eagle s1" "rc_page_size s1 dvd key_len key" using bg kd same by simp_all
    note ws = walk_split [OF ok1 l(8,9,2,3) True key1 l(10,12,13) walk_at_slots [OF w] sp]
    show thesis
      by (rule that [OF child_key_defined [OF pos psk] l(1,3,5) _ reshaped_trans [OF r1 ws(1)]]) (use True sp ws(2,3,4) l(11) in simp_all)
  next
    case False
    then have full: "l = key_len (tn_key (node s1 c))" using l(6) by simp
    have val: "value_of (node s1 c) = v" using l(10) by (simp add: value_of_def)
    have "walk_at s1 T c (drop_key l key) (xn @ take l (units key)) (vn @ v)"
      using l(4,7,8,12,13) full ok1 bg kd same by (simp add: walk_at_def key_len_drop)
    moreover have "length (value_of (node s1 c)) = l" using val full l(11) by simp
    ultimately show thesis
      by (intro that [of l c s1 T, OF child_key_defined [OF pos psk] l(1,3,5) _ r1]) (use False val in simp_all)
  qed
qed

lemma walk_stop:
  assumes w: "walk_at s T n key xn vn"
  shows "stuck s n key \<longleftrightarrow> key_len key = 0 \<or>
    child_key (rc_page_size s) key = Inr (child_key_of (rc_page_size s) key) \<and>
    map_of (tn_children (node s n)) (child_key_of (rc_page_size s) key) = None"
proof (cases "key_len key = 0")
  case False
  then have "rc_page_size s \<le> key_len key" "0 < rc_page_size s" using w tree_okD(1) by (auto simp: walk_at_def intro: dvd_imp_le)
  then show ?thesis using False child_key_defined by (auto simp: stuck_def)
qed (simp add: stuck_def)

section \<open>The loops\<close>

lemma match_loop_walk:
  assumes "walk_at s T n key xn vn"
  shows "\<exists>l rest v n' s' T'. match_loop t n key acc s = Some (Inr (acc @ v, n', s')) \<and> reshaped s T s' T' \<and>
    rest_of l key rest \<and> l \<le> key_len key \<and> walk_at s' T' n' rest (xn @ take l (units key)) (vn @ v) \<and> stuck s' n' rest"
  using assms
proof (induction "key_len key" arbitrary: s T n key xn vn acc rule: less_induct)
  case less
  have ok: "tree_ok s T" using less.prems by (simp add: walk_at_def)
  show ?case
  proof (cases "stuck s n key")
    case True
    then have "match_loop t n key acc s = Some (Inr (acc, n, s))"
      unfolding walk_stop [OF less.prems] by (subst match_loop.simps) auto
    then show ?thesis using True less.prems reshaped_refl [OF ok]
      by (intro exI [of _ 0] exI [of _ key] exI [of _ "[]"] exI [of _ n] exI [of _ s] exI [of _ T]) (simp add: rest_of_refl)
  next
    case False
    then obtain c where c: "key_len key \<noteq> 0" "map_of (tn_children (node s n)) (child_key_of (rc_page_size s) key) = Some c"
      by (auto simp: stuck_def)
    obtain l m s2 T2 where st: "child_key (rc_page_size s) key = Inr (child_key_of (rc_page_size s) key)"
      "key_match (tn_key (node (touch t c s) c)) key (rc_page_size s) = Inr l" "0 < l" "l \<le> key_len key"
      "(if l < key_len (tn_key (node (touch t c s) c)) then split_node c l (touch t c s) else (c, touch t c s)) = (m, s2)"
      "reshaped s T s2 T2"
      "walk_at s2 T2 m (drop_key l key) (xn @ take l (units key)) (vn @ value_of (node s2 m))"
      "l < key_len (tn_key (node (touch t c s) c)) \<longrightarrow> stuck s2 m (drop_key l key)"
      by (rule walk_step [OF less.prems c, of t])
    let ?v = "value_of (node s2 m)"
    have step: "match_loop t n key acc s =
        (if l < key_len (tn_key (node (touch t c s) c)) then Some (Inr (acc @ ?v, m, s2))
         else match_loop t m (drop_key l key) (acc @ ?v) s2)"
      using c st(1,2,5) by (subst match_loop.simps) (auto simp: Let_def split: if_splits)
    show ?thesis
    proof (cases "l < key_len (tn_key (node (touch t c s) c))")
      case True
      then show ?thesis using step st
        by (intro exI [of _ l] exI [of _ "drop_key l key"] exI [of _ ?v] exI [of _ m] exI [of _ s2] exI [of _ T2]) (simp add: rest_of_drop)
    next
      case False
      have short: "key_len (drop_key l key) < key_len key" using st(3) c(1) by (simp add: key_len_drop)
      obtain l' rest v' n' s' T' where IH: "match_loop t m (drop_key l key) (acc @ ?v) s2 = Some (Inr ((acc @ ?v) @ v', n', s'))"
        "reshaped s2 T2 s' T'" "rest_of l' (drop_key l key) rest" "l' \<le> key_len (drop_key l key)"
        "walk_at s' T' n' rest ((xn @ take l (units key)) @ take l' (units (drop_key l key))) ((vn @ ?v) @ v')" "stuck s' n' rest"
        using less.hyps [OF short st(7)] by blast
      show ?thesis using step False IH reshaped_trans [OF st(6) IH(2)] st(4) rest_of_trans [OF rest_of_drop IH(3)]
        by (intro exI [of _ "l + l'"] exI [of _ rest] exI [of _ "?v @ v'"] exI [of _ n'] exI [of _ s'] exI [of _ T'])
           (simp add: key_len_drop units_drop take_add)
    qed
  qed
qed

lemma insert_loop_walk:
  assumes "walk_at s T n key xn vn"
  shows "\<exists>l rest v n' s' T'. insert_loop t pr ch n key vals found s = Some (Inr (n', rest, drop l vals, found + l, s')) \<and>
    reshaped s T s' T' \<and> rest_of l key rest \<and> l \<le> key_len key \<and> walk_at s' T' n' rest (xn @ take l (units key)) (vn @ v) \<and>
    stuck s' n' rest"
  using assms
proof (induction "key_len key" arbitrary: s T n key xn vn vals found rule: less_induct)
  case less
  have ok: "tree_ok s T" using less.prems by (simp add: walk_at_def)
  show ?case
  proof (cases "stuck s n key")
    case True
    then have "insert_loop t pr ch n key vals found s = Some (Inr (n, key, vals, found, s))"
      unfolding walk_stop [OF less.prems] by (subst insert_loop.simps) auto
    then show ?thesis using True less.prems reshaped_refl [OF ok]
      by (intro exI [of _ 0] exI [of _ key] exI [of _ "[]"] exI [of _ n] exI [of _ s] exI [of _ T]) (simp add: rest_of_refl)
  next
    case False
    then obtain c where c: "key_len key \<noteq> 0" "map_of (tn_children (node s n)) (child_key_of (rc_page_size s) key) = Some c"
      by (auto simp: stuck_def)
    obtain l m s2 T2 where st: "child_key (rc_page_size s) key = Inr (child_key_of (rc_page_size s) key)"
      "key_match (tn_key (node (touch t c s) c)) key (rc_page_size s) = Inr l" "0 < l" "l \<le> key_len key"
      "(if l < key_len (tn_key (node (touch t c s) c)) then split_node c l (touch t c s) else (c, touch t c s)) = (m, s2)"
      "reshaped s T s2 T2"
      "walk_at s2 T2 m (drop_key l key) (xn @ take l (units key)) (vn @ value_of (node s2 m))"
      by (rule walk_step [OF less.prems c, of t])
    let ?v = "value_of (node s2 m)" and ?s3 = "inc_hit_count m ch (raise_priority pr m s2)"
    have cos: "cosmetic s2 ?s3" by (rule cosmetic_trans [of _ "raise_priority pr m s2"]) simp_all
    have ok2: "tree_ok s2 T2" using st(7) by (simp add: walk_at_def)
    have step: "insert_loop t pr ch n key vals found s = insert_loop t pr ch m (drop_key l key) (drop l vals) (found + l) ?s3"
      using c st(1,2,5) by (subst insert_loop.simps) (simp add: Let_def split_def)
    have short: "key_len (drop_key l key) < key_len key" using st(3) c(1) by (simp add: key_len_drop)
    obtain l' rest v' n' s' T' where IH:
      "insert_loop t pr ch m (drop_key l key) (drop l vals) (found + l) ?s3 = Some (Inr (n', rest, drop l' (drop l vals), found + l + l', s'))"
      "reshaped ?s3 T2 s' T'" "rest_of l' (drop_key l key) rest" "l' \<le> key_len (drop_key l key)"
      "walk_at s' T' n' rest ((xn @ take l (units key)) @ take l' (units (drop_key l key))) ((vn @ ?v) @ v')" "stuck s' n' rest"
      using less.hyps [OF short walk_at_cosmetic [OF st(7) cos]] by blast
    have "insert_loop t pr ch n key vals found s = Some (Inr (n', rest, drop (l + l') vals, found + (l + l'), s'))"
      using step IH(1) by (simp add: add.commute add.left_commute)
    moreover have "walk_at s' T' n' rest (xn @ take (l + l') (units key)) (vn @ (?v @ v'))"
      using IH(5) by (simp add: units_drop take_add)
    moreover have "l + l' \<le> key_len key" using IH(4) st(4) by (simp add: key_len_drop)
    moreover have "reshaped s T s' T'" by (rule reshaped_trans [OF reshaped_trans [OF st(6) cosmetic_reshaped [OF ok2 cos]] IH(2)])
    ultimately show ?thesis using IH(6) rest_of_trans [OF rest_of_drop IH(3)] by blast
  qed
qed

section \<open>Attaching a leaf\<close>

lemma leaf_status_same [simp]:
  "rc_nodes (update_leaf_status n s) = rc_nodes s" "rc_counter (update_leaf_status n s) = rc_counter s"
  "rc_evictable_size (update_leaf_status n s) = rc_evictable_size s" "rc_protected_size (update_leaf_status n s) = rc_protected_size s"
  "same_config s' (update_leaf_status n s) = same_config s' s"
  by (simp_all add: update_leaf_status_def add_leaf_def remove_leaf_def same_config_def)

lemma leaf_status_config [simp]:
  "rc_page_size (update_leaf_status n s) = rc_page_size s" "rc_is_eagle (update_leaf_status n s) = rc_is_eagle s"
  "rc_root_node (update_leaf_status n s) = rc_root_node s"
  by (simp_all add: update_leaf_status_def add_leaf_def remove_leaf_def)

definition is_leaf :: "radix_cache \<Rightarrow> nat \<Rightarrow> bool" where
  "is_leaf s n \<longleftrightarrow> tn_value (node s n) \<noteq> None \<and> tn_lock_ref (node s n) \<le> 0 \<and> (\<forall>(k, c) \<in> set (tn_children (node s n)). tn_value (node s c) = None)"

lemma leaf_status_leaves:
  "set (rc_evictable_leaves (update_leaf_status n s)) =
     (if is_leaf s n then insert n (set (rc_evictable_leaves s)) else set (rc_evictable_leaves s) - {n})"
  "distinct (rc_evictable_leaves s) \<Longrightarrow> distinct (rc_evictable_leaves (update_leaf_status n s))"
  by (auto simp: update_leaf_status_def is_leaf_def add_leaf_def remove_leaf_def evicted_def list_ex_iff)

lemma update_has: "(k, v) \<in> set (AList.update k v al)"
  by (induction al) auto

lemma attach_store:
  fixes pr ch n key vals s
  defines "s' \<equiv> snd (attach_leaf pr ch n key vals s)" and "new \<equiv> rc_counter s"
  assumes "n \<noteq> new"
  shows "fst (attach_leaf pr ch n key vals s) = new"
    and "tn_children (node s' m) = (if m = new then [] else if m = n then AList.update (child_key_of (rc_page_size s) key) new (tn_children (node s n))
       else tn_children (node s m))"
    and "tn_parent (node s' m) = (if m = new then Some n else tn_parent (node s m))"
    and "tn_key (node s' m) = (if m = new then key else tn_key (node s m))"
    and "tn_value (node s' m) = (if m = new then Some vals else tn_value (node s m))"
    and "tn_lock_ref (node s' m) = (if m = new then 0 else tn_lock_ref (node s m))"
    and "rc_counter s' = Suc new" "rc_evictable_size s' = rc_evictable_size s + int (key_len key)" "rc_protected_size s' = rc_protected_size s"
    and "same_config s s'"
    and "set (rc_evictable_leaves s') = insert new (set (rc_evictable_leaves s) - {n})"
    and "distinct (rc_evictable_leaves s) \<Longrightarrow> distinct (rc_evictable_leaves s')"
proof -
  define s5 where "s5 = (let (new, s1) = new_tree_node pr s;
          s2 = upd_node new (\<lambda>nd. nd\<lparr>tn_parent := Some n, tn_key := key, tn_value := Some vals\<rparr>) s1;
          s3 = inc_hit_count new ch s2;
          s4 = upd_node n (\<lambda>nd. nd\<lparr>tn_children := AList.update (child_key_of (rc_page_size s) key) new (tn_children nd)\<rparr>) s3
      in s4\<lparr>rc_evictable_size := rc_evictable_size s4 + int (key_len key)\<rparr>)"
  have a: "attach_leaf pr ch n key vals s = (new, update_leaf_status new (update_leaf_status n s5))"
    by (simp add: attach_leaf_def s5_def new_tree_node_def monotonic_def new_def Let_def)
  then have s': "s' = update_leaf_status new (update_leaf_status n s5)" by (simp add: s'_def)
  show "fst (attach_leaf pr ch n key vals s) = new" by (simp add: a)
  have nodes: "tn_children (node s5 m) = (if m = new then [] else if m = n then AList.update (child_key_of (rc_page_size s) key) new (tn_children (node s n)) else tn_children (node s m))"
    "tn_parent (node s5 m) = (if m = new then Some n else tn_parent (node s m))" "tn_key (node s5 m) = (if m = new then key else tn_key (node s m))"
    "tn_value (node s5 m) = (if m = new then Some vals else tn_value (node s m))"
    "tn_lock_ref (node s5 m) = (if m = new then 0 else tn_lock_ref (node s m))" for m
    using assms(3) by (simp_all add: s5_def new_tree_node_def monotonic_def upd_node_def inc_hit_count_def new_def Let_def)
  have rest: "rc_counter s5 = Suc new" "rc_evictable_size s5 = rc_evictable_size s + int (key_len key)" "rc_protected_size s5 = rc_protected_size s"
    "same_config s s5" "rc_evictable_leaves s5 = rc_evictable_leaves s"
    by (simp_all add: s5_def new_tree_node_def monotonic_def upd_node_def inc_hit_count_def new_def Let_def same_config_def)
  have leaf: "\<not> is_leaf s5 n" "is_leaf (update_leaf_status n s5) new"
    using assms(3) update_has [of "child_key_of (rc_page_size s) key" new "tn_children (node s n)"]
    by (auto simp: is_leaf_def nodes)
  show "tn_children (node s' m) = (if m = new then [] else if m = n then AList.update (child_key_of (rc_page_size s) key) new (tn_children (node s n)) else tn_children (node s m))"
    and "tn_parent (node s' m) = (if m = new then Some n else tn_parent (node s m))"
    and "tn_key (node s' m) = (if m = new then key else tn_key (node s m))"
    and "tn_value (node s' m) = (if m = new then Some vals else tn_value (node s m))"
    and "tn_lock_ref (node s' m) = (if m = new then 0 else tn_lock_ref (node s m))"
    and "rc_counter s' = Suc new" "rc_evictable_size s' = rc_evictable_size s + int (key_len key)" "rc_protected_size s' = rc_protected_size s"
    and "same_config s s'"
    by (simp_all add: s' nodes rest)
  show "set (rc_evictable_leaves s') = insert new (set (rc_evictable_leaves s) - {n})"
    using leaf by (simp add: s' leaf_status_leaves(1) rest)
  show "distinct (rc_evictable_leaves s')" if "distinct (rc_evictable_leaves s)"
    using that by (simp add: s' leaf_status_leaves(2) rest)
qed

end
