(* ===== verification/RadixRefine.thy ===== *)
theory RadixRefine
  imports RadixWalk
begin

text \<open>
  The prefix cache's \<open>match_prefix\<close> and \<open>insert\<close> against the abstract contents: an insertion attaches
  one leaf to the node where the walk stops, and every operation keeps the representation and the books.
\<close>

type_synonym contents = "namespace \<Rightarrow> unit_key list \<Rightarrow> int list \<Rightarrow> bool"

section \<open>The new leaf\<close>

lemma below_new:
  assumes "below (T(new \<mapsto> (ns, x, v))) new m" "m \<in> dom T" "new \<notin> dom T"
  shows "\<exists>xm vm. T m = Some (ns, xm, vm) \<and> length x \<le> length xm \<and> take (length x) xm = x"
proof -
  have "m \<noteq> new" using assms(2,3) by auto
  then show ?thesis using assms(1) unfolding below_def by auto
qed

lemma attach_ok:
  fixes pr ch
  assumes w: "walk_at s T n key xn vn" and st: "stuck s n key" and key: "key_len key \<noteq> 0" "length vals = key_len key"
  defines "s' \<equiv> snd (attach_leaf pr ch n key vals s)" and "T' \<equiv> T(rc_counter s \<mapsto> (ns_of key, xn @ units key, vn @ vals))"
  shows "tree_ok s' T'"
proof -
  let ?new = "rc_counter s" and ?ps = "rc_page_size s"
  obtain ns where ok: "tree_ok s T" and n: "T n = Some (ns, xn, vn)" "n = rc_root_node s \<or> ns = ns_of key"
    and bg: "rk_is_bigram key = rc_is_eagle s" and kd: "?ps dvd key_len key"
    using w by (auto simp: walk_at_def)
  have new: "?new \<notin> dom T" using tree_okD(3) [OF ok] by blast
  then have d: "n \<noteq> ?new" "rc_root_node s \<noteq> ?new" using n tree_okD(4) [OF ok] by auto
  note a = attach_store [OF d(1), of pr ch key vals, folded s'_def]
  have cfg: "rc_page_size s' = ?ps" "rc_is_eagle s' = rc_is_eagle s" "rc_root_node s' = rc_root_node s"
    using a(10) by (simp_all add: same_config_def)
  have fresh: "map_of (tn_children (node s n)) (child_key_of ?ps key) = None" using st key(1) by (simp add: stuck_def)
  show ?thesis
  proof (rule tree_okI)
    show "finite (dom T')" "T' (rc_root_node s') = Some ((None, None), [], [])" "0 < rc_page_size s'"
      "tn_parent (node s' (rc_root_node s')) = None" "tn_value (node s' (rc_root_node s')) = Some []"
      using tree_okD [OF ok] d by (simp_all add: T'_def cfg a)
    show "m < rc_counter s'" if "m \<in> dom T'" for m
      using that tree_okD(3) [OF ok, of m] by (auto simp: T'_def a less_Suc_eq)
  next
    fix m ms xs vs assume m: "T' m = Some (ms, xs, vs)" "m \<noteq> rc_root_node s'"
    show "node_ok s' T' m ms xs vs"
    proof (cases "m = ?new")
      case True
      then show ?thesis using m n d bg kd key
        by (intro node_okI [of _ _ n _ ns xn vn _ vals]) (auto simp: a cfg T'_def update_conv')
    next
      case False
      then have Tm: "T m = Some (ms, xs, vs)" using m by (simp add: T'_def)
      obtain q nsq xq vq w where q: "tn_parent (node s m) = Some q" "T q = Some (nsq, xq, vq)" "q = rc_root_node s \<or> nsq = ms"
        "map_of (tn_children (node s q)) (child_key_of ?ps (tn_key (node s m))) = Some m"
        "ns_of (tn_key (node s m)) = ms" "rk_is_bigram (tn_key (node s m)) = rc_is_eagle s"
        "tn_value (node s m) = Some w" "xs = xq @ units (tn_key (node s m))" "vs = vq @ w"
        "length w = key_len (tn_key (node s m))" "0 < key_len (tn_key (node s m))" "?ps dvd key_len (tn_key (node s m))"
        using node_parts [OF ok Tm] m(2) cfg(3) by metis
      have "q \<noteq> ?new" "q = n \<Longrightarrow> child_key_of ?ps (tn_key (node s m)) \<noteq> child_key_of ?ps key" using q(2,4) new fresh by auto
      then show ?thesis using q False
        by (intro node_okI [of _ _ q _ nsq xq vq _ w]) (auto simp: a cfg T'_def update_conv')
    qed
  next
    fix q assume q: "q \<in> dom T'"
    show "children_ok s' T' q"
    proof (cases "q = ?new")
      case True
      then show ?thesis by (simp add: children_ok_def a)
    next
      case False
      then have qT: "q \<in> dom T" using q by (auto simp: T'_def)
      have "map_of (tn_children (node s q)) j \<noteq> Some ?new" for j
        using child_found(1) [OF ok qT, of j ?new] new by blast
      then show ?thesis using tree_okD(7) [OF ok qT] False d unfolding children_ok_def
        by (auto simp: a cfg T'_def update_conv' distinct_update)
    qed
  qed
qed

lemma attach_cached:
  assumes w: "walk_at s T n key xn vn" and len: "length vals = key_len key"
  defines "T' \<equiv> T(rc_counter s \<mapsto> (ns_of key, xn @ units key, vn @ vals))"
  shows "cached ps T' ns xs vs \<longleftrightarrow> cached ps T ns xs vs \<or>
    ns = ns_of key \<and> ps dvd length xs \<and> length xs \<le> length xn + key_len key \<and> xs = take (length xs) (xn @ units key) \<and>
    vs = take (length xs) (vn @ vals)"
proof -
  have new: "rc_counter s \<notin> dom T" using w tree_okD(3) unfolding walk_at_def by blast
  have new': "T (rc_counter s) = None" using new by auto
  have lv: "length vn = length xn" by (rule walk_at_slots [OF w])
  have "(\<exists>m xm vm. T' m = Some (ns, xm, vm) \<and> length xs \<le> length xm \<and> xs = take (length xs) xm \<and> vs = take (length xs) vm) \<longleftrightarrow>
    (\<exists>m xm vm. T m = Some (ns, xm, vm) \<and> length xs \<le> length xm \<and> xs = take (length xs) xm \<and> vs = take (length xs) vm) \<or>
    (ns = ns_of key \<and> length xs \<le> length xn + key_len key \<and> xs = take (length xs) (xn @ units key) \<and> vs = take (length xs) (vn @ vals))"
    (is "?L \<longleftrightarrow> ?R \<or> ?N")
  proof
    assume ?L
    then obtain m xm vm where m: "T' m = Some (ns, xm, vm)" "length xs \<le> length xm" "xs = take (length xs) xm" "vs = take (length xs) vm" by blast
    then show "?R \<or> ?N" by (cases "m = rc_counter s") (auto simp: T'_def)
  next
    assume "?R \<or> ?N"
    then show ?L
    proof
      assume ?R
      then show ?L using new' unfolding T'_def by (metis fun_upd_other option.distinct(1))
    next
      assume ?N
      then show ?L by (intro exI [of _ "rc_counter s"]) (auto simp: T'_def)
    qed
  qed
  then show ?thesis unfolding cached_def by blast
qed

lemma attach_books:
  fixes pr ch
  assumes w: "walk_at s T n key xn vn" and st: "stuck s n key" and key: "key_len key \<noteq> 0" "length vals = key_len key"
    and b: "books s T L"
  defines "s' \<equiv> snd (attach_leaf pr ch n key vals s)" and "T' \<equiv> T(rc_counter s \<mapsto> (ns_of key, xn @ units key, vn @ vals))"
  shows "books s' T' L"
proof -
  let ?new = "rc_counter s"
  obtain ns where ok: "tree_ok s T" and n: "T n = Some (ns, xn, vn)" "n = rc_root_node s \<or> ns = ns_of key"
    and bg: "rk_is_bigram key = rc_is_eagle s" and kd: "rc_page_size s dvd key_len key"
    using w by (auto simp: walk_at_def)
  have new: "?new \<notin> dom T" using tree_okD(3) [OF ok] by blast
  then have d: "n \<noteq> ?new" "rc_root_node s \<noteq> ?new" using n tree_okD(4) [OF ok] by auto
  note a = attach_store [OF d(1), of pr ch key vals, folded s'_def]
  have root: "rc_root_node s' = rc_root_node s" using a(10) by (simp add: same_config_def)
  have LT: "set L \<subseteq> dom T" using b by (simp add: books_def)
  have none: "\<not> below T' ?new m" if m: "m \<in> dom T" for m
  proof
    assume below: "below T' ?new m"
    obtain xm vm where xm: "T m = Some (ns_of key, xm, vm)" "length (xn @ units key) \<le> length xm" "take (length (xn @ units key)) xm = xn @ units key"
      using below_new [OF below [unfolded T'_def] m new] by blast
    have dv: "rc_page_size s dvd length (xn @ units key)" using path_shape [OF ok n(1)] kd by simp
    have "cached (rc_page_size s) T (ns_of key) (take (length (xn @ units key)) xm) (take (length (xn @ units key)) vm)"
      by (rule cached_take [OF cached_path [OF ok xm(1)] dv xm(2)])
    then have c: "cached (rc_page_size s) T (ns_of key) (xn @ take (key_len key) (units key)) (take (length (xn @ units key)) vm)"
      unfolding xm(3) by simp
    show False using stuck_longest [OF ok n bg st c order_refl] key(1) by simp
  qed
  have old: "below T' k m \<longleftrightarrow> below T k m" if "k \<in> dom T" "m \<in> dom T" for k m
    using that new unfolding below_def T'_def by (metis fun_upd_other)
  have hold: "holders T' L k = (if k = ?new then 0 else holders T L k)" if "k \<in> dom T'" for k
  proof (cases "k = ?new")
    case True
    then have "filter (below T' k) L = []" using none LT unfolding filter_empty_conv by blast
    then show ?thesis using True by (simp add: holders_def)
  next
    case False
    then have "k \<in> dom T" using that by (auto simp: T'_def)
    then have "filter (below T' k) L = filter (below T k) L" using old LT by (intro filter_cong [OF refl]) blast
    then show ?thesis using False by (simp add: holders_def)
  qed
  have live: "live s' T' = insert ?new (live s T)" using d(2) by (auto simp: live_def T'_def root)
  have fin: "finite (live s T)" "?new \<notin> live s T" using tree_okD(2) [OF ok] new by (auto simp: live_def)
  have free: "size_where s' T' True = size_where s T True + int (key_len key)"
  proof -
    let ?S = "{k. k \<in> live s T \<and> tn_lock_ref (node s k) = 0}"
    have S: "{k. k \<in> live s' T' \<and> (tn_lock_ref (node s' k) = 0) = True} = insert ?new ?S" using fin(2) by (auto simp: live a(6))
    have "(\<Sum>k\<in>?S. int (key_len (tn_key (node s' k)))) = (\<Sum>k\<in>?S. int (key_len (tn_key (node s k))))"
      using fin(2) by (intro sum.cong [OF refl]) (auto simp: a(4))
    then show ?thesis unfolding size_where_def S using fin by (simp add: a(4))
  qed
  have held: "size_where s' T' False = size_where s T False"
  proof -
    have S: "{k. k \<in> live s' T' \<and> (tn_lock_ref (node s' k) = 0) = False} = {k. k \<in> live s T \<and> (tn_lock_ref (node s k) = 0) = False}"
      using fin(2) by (auto simp: live a(6))
    show ?thesis unfolding size_where_def S using fin(2) by (intro sum.cong [OF refl]) (auto simp: a(4))
  qed
  have leaves: "set (rc_evictable_leaves s') = {k \<in> live s' T'. tn_lock_ref (node s' k) = 0 \<and> tn_children (node s' k) = []}"
    using b fin(2) d(1) unfolding books_def by (auto simp: a live)
  have locks: "\<forall>k\<in>live s' T'. tn_lock_ref (node s' k) = holders T' L k"
  proof
    fix k assume k: "k \<in> live s' T'"
    then have "k \<in> dom T'" "k = ?new \<or> k \<in> live s T" unfolding live by (auto simp: live_def T'_def)
    then show "tn_lock_ref (node s' k) = holders T' L k" using hold [of k] b by (auto simp: books_def a(6))
  qed
  have "set L \<subseteq> dom T'" using LT by (auto simp: T'_def)
  then show ?thesis using b locks leaves d(2) unfolding books_def free held by (simp add: a(6,8,9,12) root)
qed
section \<open>The operations\<close>

text \<open>The key an operation works on: viewed as pairs when the cache is for speculation, cut to whole pages.\<close>

definition aligned_key :: "radix_cache \<Rightarrow> radix_key \<Rightarrow> radix_key" where
  "aligned_key s key = page_aligned (rc_page_size s) (fst (maybe_to_bigram_view (rc_is_eagle s) key (None :: int list option)))"

definition fits :: "radix_cache \<Rightarrow> radix_key \<Rightarrow> bool" where
  "fits s key \<longleftrightarrow> (rk_is_bigram key \<longrightarrow> rc_is_eagle s)"

lemma aligned_key_facts:
  "ns_of (aligned_key s key) = ns_of key" "fits s key \<Longrightarrow> rk_is_bigram (aligned_key s key) = rc_is_eagle s"
  "rc_page_size s dvd key_len (aligned_key s key)"
proof -
  show "ns_of (aligned_key s key) = ns_of key" by (simp add: aligned_key_def maybe_to_bigram_view_def Let_def ns_of_def page_aligned_def slice_key_def)
  show "rk_is_bigram (aligned_key s key) = rc_is_eagle s" if "fits s key"
    using that by (auto simp: aligned_key_def maybe_to_bigram_view_def Let_def fits_def)
  have "key_len (page_aligned ps k) = key_len k div ps * ps" for ps k
    using units_page_aligned [of ps k] div_times_less_eq_dividend [of "key_len k" ps] by (metis length_take length_units min.absorb2)
  then show "rc_page_size s dvd key_len (aligned_key s key)" by (simp add: aligned_key_def)
qed

lemma walk_at_root:
  "tree_ok s T \<Longrightarrow> fits s key \<Longrightarrow> walk_at s T (rc_root_node s) (aligned_key s key) [] []"
  using tree_okD(4) [of s T] by (simp add: walk_at_def aligned_key_facts)

text \<open>The longest cached prefix of a sequence.\<close>

definition longest_of :: "contents \<Rightarrow> namespace \<Rightarrow> unit_key list \<Rightarrow> int list \<Rightarrow> bool" where
  "longest_of C ns U vs \<longleftrightarrow> length vs \<le> length U \<and> C ns (take (length vs) U) vs \<and>
     (\<forall>k ws. k \<le> length U \<and> C ns (take k U) ws \<longrightarrow> k \<le> length vs)"

lemma longest_of_unique:
  "tree_ok s T \<Longrightarrow> longest_of (cached (rc_page_size s) T) ns U vs \<Longrightarrow> longest_of (cached (rc_page_size s) T) ns U vs' \<Longrightarrow> vs = vs'"
  unfolding longest_of_def by (metis cached_unique le_antisym)

lemma walk_longest:
  assumes w: "walk_at s T n rest xs vs" and st: "stuck s n rest" and r: "rest_of l key rest" "l \<le> key_len key" "xs = take l (units key)"
  shows "longest_of (cached (rc_page_size s) T) (ns_of key) (units key) vs" "length vs = l"
proof -
  obtain ns where ok: "tree_ok s T" and n: "T n = Some (ns, xs, vs)" "n = rc_root_node s \<or> ns = ns_of rest"
    and bg: "rk_is_bigram rest = rc_is_eagle s" using w by (auto simp: walk_at_def)
  have ns: "ns_of rest = ns_of key" using r(1) by (simp add: rest_of_def)
  have ps: "length vs = length xs" "rc_page_size s dvd length xs" using path_shape [OF ok n(1)] by simp_all
  show l: "length vs = l" using ps r(2,3) by simp
  have c: "cached (rc_page_size s) T (ns_of key) (take l (units key)) vs"
  proof (cases "n = rc_root_node s")
    case True
    then show ?thesis using n tree_okD(4) [OF ok] r(3) by auto
  next
    case False
    then show ?thesis using cached_path [OF ok n(1)] n(2) ns r(3) by simp
  qed
  have "k \<le> l" if k: "k \<le> key_len key" "cached (rc_page_size s) T (ns_of key) (take k (units key)) ws" for k ws
  proof (rule ccontr)
    assume "\<not> k \<le> l"
    then have "take k (units key) = xs @ take (k - l) (units rest)" using r(1,3) by (simp add: rest_of_def take_add [symmetric])
    then have "cached (rc_page_size s) T (ns_of rest) (xs @ take (k - l) (units rest)) ws" using k(2) ns by simp
    moreover have "k - l \<le> key_len rest" using k(1) r(1) by (metis diff_le_mono length_drop length_units rest_of_def)
    ultimately have "k - l = 0" by (rule stuck_longest [OF ok n bg st])
    then show False using \<open>\<not> k \<le> l\<close> by simp
  qed
  then show "longest_of (cached (rc_page_size s) T) (ns_of key) (units key) vs"
    using c l r(2) by (auto simp: longest_of_def)
qed

text \<open>A match: its slots, the node where it ends, and the tree it leaves.\<close>

definition node_at :: "radix_cache \<Rightarrow> layout \<Rightarrow> nat \<Rightarrow> namespace \<Rightarrow> unit_key list \<Rightarrow> int list \<Rightarrow> bool" where
  "node_at s T n ns xs vs \<longleftrightarrow> (\<exists>ns'. T n = Some (ns', xs, vs) \<and> (n = rc_root_node s \<or> ns' = ns))"

lemma match_prefix_spec:
  assumes ok: "tree_ok s T" and on: "\<not> rc_disable s" and key: "fits s key"
  shows "\<exists>vs n s' T'. match_prefix key s = Some (Inr (vs, n, s')) \<and> reshaped s T s' T' \<and>
    node_at s' T' n (ns_of key) (take (length vs) (units (aligned_key s key))) vs \<and>
    longest_of (cached (rc_page_size s) T) (ns_of key) (units (aligned_key s key)) vs"
proof (cases "key_len (aligned_key s key) = 0")
  case True
  then have U: "units (aligned_key s key) = []" by (metis length_0_conv length_units)
  have "match_prefix key s = Some (Inr ([], rc_root_node s, s))"
    using True on by (simp add: match_prefix_def Let_def aligned_key_def)
  then show ?thesis using U reshaped_refl [OF ok] tree_okD(4) [OF ok]
    by (intro exI [of _ "[]"] exI [of _ "rc_root_node s"] exI [of _ s] exI [of _ T]) (simp add: longest_of_def node_at_def)
next
  case False
  let ?k = "aligned_key s key"
  have pos: "0 < rc_page_size s" by (rule tree_okD(1) [OF ok])
  have psk: "rc_page_size s \<le> key_len ?k" using False aligned_key_facts(3) by (auto intro: dvd_imp_le)
  define t where "t = fst (monotonic s)"
  define s2 where "s2 = touch t (rc_root_node s) (snd (monotonic s))"
  have cos: "cosmetic s s2" unfolding s2_def by (rule cosmetic_trans [of _ "snd (monotonic s)"]) simp_all
  have w: "walk_at s2 T (rc_root_node s) ?k [] []" by (rule walk_at_cosmetic [OF walk_at_root [OF ok key] cos])
  obtain l rest v n' s' T' where m: "match_loop t (rc_root_node s) ?k [] s2 = Some (Inr ([] @ v, n', s'))" "reshaped s2 T s' T'"
    "rest_of l ?k rest" "l \<le> key_len ?k" "walk_at s' T' n' rest ([] @ take l (units ?k)) ([] @ v)" "stuck s' n' rest"
    using match_loop_walk [OF w] by blast
  have nz: "key_len (fst (maybe_to_bigram_view (rc_is_eagle s) key (None :: int list option))) \<noteq> 0"
    using False units_page_aligned by (metis aligned_key_def length_0_conv length_units take_Nil)
  have "match_prefix key s = Some (Inr (v, n', s'))"
    using m(1) on nz False child_key_defined [OF pos psk]
    by (simp add: match_prefix_def match_prefix_helper_def Let_def aligned_key_def [symmetric] t_def s2_def split_def)
  moreover have r: "reshaped s T s' T'" by (rule reshaped_trans [OF cosmetic_reshaped [OF ok cos] m(2)])
  moreover have "longest_of (cached (rc_page_size s') T') (ns_of key) (units ?k) v" "length v = l"
    using walk_longest [OF m(5,6,3,4)] by (simp_all add: aligned_key_facts)
  moreover have "node_at s' T' n' (ns_of key) (take l (units ?k)) v"
    using m(5,3) aligned_key_facts(1) [of s key] unfolding walk_at_def node_at_def rest_of_def by auto
  ultimately show ?thesis unfolding reshaped_def same_config_def longest_of_def by metis
qed

text \<open>The contents with one more sequence and its slots.\<close>

definition with_sequence :: "nat \<Rightarrow> contents \<Rightarrow> namespace \<Rightarrow> unit_key list \<Rightarrow> int list \<Rightarrow> contents" where
  "with_sequence ps C ns U V ns' xs vs \<longleftrightarrow> C ns' xs vs \<or>
     ns' = ns \<and> ps dvd length xs \<and> length xs \<le> length U \<and> xs = take (length xs) U \<and> vs = take (length xs) V"

lemma with_cached_sequence:
  assumes "cached ps T ns U V"
  shows "with_sequence ps (cached ps T) ns U V = cached ps T"
proof (intro ext)
  fix ns' xs vs
  show "with_sequence ps (cached ps T) ns U V ns' xs vs = cached ps T ns' xs vs"
    using cached_take [OF assms, of "length xs"] unfolding with_sequence_def by metis
qed

definition inserted ::
  "radix_cache \<Rightarrow> layout \<Rightarrow> namespace \<Rightarrow> unit_key list \<Rightarrow> int list \<Rightarrow> nat \<Rightarrow> nat \<Rightarrow> radix_cache \<Rightarrow> layout \<Rightarrow> int list \<Rightarrow> bool" where
  "inserted s T ns U vals l n s' T' w \<longleftrightarrow>
     tree_ok s' T' \<and> same_config s s' \<and> T \<subseteq>\<^sub>m T' \<and> (\<forall>L. books s T L \<longrightarrow> books s' T' L) \<and>
     longest_of (cached (rc_page_size s) T) ns U w \<and> length w = l \<and> node_at s' T' n ns U (w @ drop l vals) \<and>
     cached (rc_page_size s) T' = with_sequence (rc_page_size s) (cached (rc_page_size s) T) ns U (w @ drop l vals)"

lemma insert_helper_spec:
  assumes ok: "tree_ok s T" and w0: "walk_at s T (rc_root_node s) key [] []" and len: "length vals = key_len key"
  shows "\<exists>l n s' T' w. insert_helper (rc_root_node s) key vals pr ch s = Some (Inr (l, n, s')) \<and>
    inserted s T (ns_of key) (units key) vals l n s' T' w"
proof -
  define t where "t = fst (monotonic s)"
  define s2 where "s2 = raise_priority pr (rc_root_node s) (touch t (rc_root_node s) (snd (monotonic s)))"
  have cos: "cosmetic s s2" unfolding s2_def
    by (rule cosmetic_trans [OF cosmetic_trans [of _ "snd (monotonic s)" "touch t (rc_root_node s) (snd (monotonic s))"]]) simp_all
  have r2: "reshaped s T s2 T" by (rule cosmetic_reshaped [OF ok cos])
  have w: "walk_at s2 T (rc_root_node s) key [] []" by (rule walk_at_cosmetic [OF w0 cos])
  obtain l rest v n' s' T' where m:
    "insert_loop t pr ch (rc_root_node s) key vals 0 s2 = Some (Inr (n', rest, drop l vals, 0 + l, s'))" "reshaped s2 T s' T'"
    "rest_of l key rest" "l \<le> key_len key" "walk_at s' T' n' rest ([] @ take l (units key)) ([] @ v)" "stuck s' n' rest"
    using insert_loop_walk [OF w] by blast
  have r: "reshaped s T s' T'" by (rule reshaped_trans [OF r2 m(2)])
  have ps: "rc_page_size s' = rc_page_size s" "rc_root_node s' = rc_root_node s" using r by (simp_all add: reshaped_def same_config_def)
  have lw: "longest_of (cached (rc_page_size s') T') (ns_of key) (units key) v" and lv: "length v = l"
    using walk_longest [OF m(5,6,3,4)] by simp_all
  then have lc: "longest_of (cached (rc_page_size s) T) (ns_of key) (units key) v"
    using r ps by (simp add: reshaped_def longest_of_def)
  have kr: "key_len rest = key_len key - l" using m(3) by (metis length_drop length_units rest_of_def)
  have nn: "node_at s' T' n' (ns_of key) (take l (units key)) v"
    using m(5,3) unfolding walk_at_def node_at_def rest_of_def by auto
  have step: "insert_helper (rc_root_node s) key vals pr ch s =
      (if key_len key = 0 then Some (Inr (0, rc_root_node s, s2))
       else if key_len rest = 0 then Some (Inr (l, n', s'))
       else let (new, s4) = attach_leaf pr ch n' rest (drop l vals) s' in Some (Inr (l, new, s4)))"
    using m(1) by (simp add: insert_helper_def Let_def t_def [symmetric] s2_def [symmetric] split_def)
  consider "key_len key = 0" | "key_len key \<noteq> 0" "key_len rest = 0" | "key_len key \<noteq> 0" "key_len rest \<noteq> 0" by blast
  then show ?thesis
  proof cases
    case 1
    then have U: "units key = []" "vals = []" using len by (metis length_0_conv length_units) (use 1 len in simp)
    have "inserted s T (ns_of key) (units key) vals 0 (rc_root_node s) s2 T []"
      using r2 U tree_okD(4) [OF ok] with_cached_sequence [of "rc_page_size s" T "ns_of key" "[]" "[]"]
      unfolding inserted_def reshaped_def by (simp add: longest_of_def node_at_def same_config_def)
    then show ?thesis using step 1 by auto
  next
    case 2
    then have all: "l = key_len key" "drop l vals = []" using kr m(4) len by simp_all
    then have "cached (rc_page_size s) T (ns_of key) (units key) v" using lc lv by (simp add: longest_of_def)
    then have "inserted s T (ns_of key) (units key) vals l n' s' T' v"
      using r lc lv nn all with_cached_sequence unfolding inserted_def reshaped_def by simp
    then show ?thesis using step 2 by auto
  next
    case 3
    obtain new s4 where a: "attach_leaf pr ch n' rest (drop l vals) s' = (new, s4)" by (cases "attach_leaf pr ch n' rest (drop l vals) s'")
    have dl: "length (drop l vals) = key_len rest" using len kr by simp
    let ?T = "T'(rc_counter s' \<mapsto> (ns_of rest, take l (units key) @ units rest, v @ drop l vals))"
    have U: "take l (units key) @ units rest = units key" "ns_of rest = ns_of key" using m(3) by (simp_all add: rest_of_def)
    have wn: "walk_at s' T' n' rest (take l (units key)) v" using m(5) by simp
    have ok': "tree_ok s' T'" using r by (simp add: reshaped_def)
    have fresh: "rc_counter s' \<notin> dom T'" using tree_okD(3) [OF ok'] by blast
    have nne: "n' \<noteq> rc_counter s'" using nn fresh by (auto simp: node_at_def)
    note st = attach_store [OF nne, of pr ch rest "drop l vals"]
    have new: "new = rc_counter s'" "s4 = snd (attach_leaf pr ch n' rest (drop l vals) s')" using a st(1) by simp_all
    have cfg: "same_config s s4" using st(10) r new by (simp add: reshaped_def same_config_def)
    have ok4: "tree_ok s4 ?T" unfolding new by (rule attach_ok [OF wn m(6) 3(2) dl])
    have bk: "books s4 ?T L" if "books s T L" for L unfolding new
      by (rule attach_books [OF wn m(6) 3(2) dl]) (use that r in \<open>simp add: reshaped_def\<close>)
    have le: "T \<subseteq>\<^sub>m ?T" using r fresh unfolding reshaped_def map_le_def by (metis domIff fun_upd_other)
    have ct: "cached (rc_page_size s) ?T = with_sequence (rc_page_size s) (cached (rc_page_size s) T) (ns_of key) (units key) (v @ drop l vals)"
      using attach_cached [OF wn dl, of "rc_page_size s"] r U kr m(4) unfolding with_sequence_def reshaped_def by (intro ext) (simp add: min_absorb2)
    have "inserted s T (ns_of key) (units key) vals l new s4 ?T v"
      unfolding inserted_def using ok4 cfg le bk lc lv ct U new(1) by (simp add: node_at_def)
    then show ?thesis using step 3 a by auto
  qed
qed

lemma insert_spec:
  assumes ok: "tree_ok s T" and on: "\<not> rc_disable s" and key: "fits s key" and len: "key_len (aligned_key s key) \<le> length vals"
  shows "\<exists>l n s' T' w. cache_insert key (Some vals) pr ch s = Some (Inr (l, Some n, s')) \<and>
    inserted s T (ns_of key) (units (aligned_key s key)) (take (key_len (aligned_key s key)) vals) l n s' T' w"
proof -
  let ?k = "aligned_key s key"
  have view: "fst (maybe_to_bigram_view e key (Some vals)) = fst (maybe_to_bigram_view e key (None :: int list option))" for e
    by (simp add: maybe_to_bigram_view_def Let_def)
  have vw: "\<exists>n. snd (maybe_to_bigram_view (rc_is_eagle s) key (Some vals)) = Some (take n vals) \<and> key_len ?k \<le> n"
  proof (cases "rc_is_eagle s \<and> \<not> rk_is_bigram key")
    case True
    let ?k' = "key\<lparr>rk_is_bigram := True\<rparr>"
    have "key_len (page_aligned (rc_page_size s) ?k') \<le> key_len ?k'" by (metis length_take length_units min.cobounded1 units_page_aligned)
    then show ?thesis using True by (auto simp: maybe_to_bigram_view_def Let_def aligned_key_def)
  next
    case False
    then show ?thesis using len by (intro exI [of _ "length vals"]) (auto simp: maybe_to_bigram_view_def)
  qed
  then obtain n where n: "snd (maybe_to_bigram_view (rc_is_eagle s) key (Some vals)) = Some (take n vals)" "key_len ?k \<le> n" by blast
  have "cache_insert key (Some vals) pr ch s =
    (case insert_helper (rc_root_node s) ?k (take (key_len ?k) vals) pr ch s of
       None \<Rightarrow> None | Some (Inl e) \<Rightarrow> Some (Inl e) | Some (Inr (l, n, s')) \<Rightarrow> Some (Inr (l, Some n, s')))"
    using on n by (simp add: cache_insert_def Let_def split_def view aligned_key_def [symmetric] min_absorb1)
  moreover have lt: "length (take (key_len ?k) vals) = key_len ?k" using len by simp
  moreover obtain l m s' T' w where "insert_helper (rc_root_node s) ?k (take (key_len ?k) vals) pr ch s = Some (Inr (l, m, s'))"
    "inserted s T (ns_of ?k) (units ?k) (take (key_len ?k) vals) l m s' T' w"
    using insert_helper_spec [OF ok walk_at_root [OF ok key] lt] by blast
  ultimately show ?thesis by (auto simp: aligned_key_facts)
qed

section \<open>The cache refines its contents\<close>

text \<open>
  The simulation relation: a cache stands for the contents \<open>C\<close>, with the nodes \<open>L\<close> held by requests.
\<close>

definition represents :: "radix_cache \<Rightarrow> contents \<Rightarrow> nat list \<Rightarrow> bool" where
  "represents s C L \<longleftrightarrow> (\<exists>T. tree_ok s T \<and> books s T L \<and> cached (rc_page_size s) T = C)"

definition no_contents :: contents where
  "no_contents ns xs vs \<longleftrightarrow> xs = [] \<and> vs = []"

lemma reset_represents:
  assumes "0 < rc_page_size s"
  shows "represents (reset s) no_contents []"
proof -
  let ?r = "rc_counter s" and ?s = "reset s"
  let ?T = "[?r \<mapsto> ((None, None), [], [])] :: layout"
  have n: "node ?s ?r = \<lparr>tn_children = [], tn_parent = None, tn_key = no_key, tn_value = Some [], tn_lock_ref = 1,
      tn_last_access_time = rc_time s (rc_readings s), tn_creation_time = rc_time s (Suc (rc_readings s)), tn_hit_count = 0, tn_priority = - maxsize\<rparr>"
    and f: "rc_root_node ?s = ?r" "rc_page_size ?s = rc_page_size s" "rc_counter ?s = Suc ?r" "rc_evictable_size ?s = 0" "rc_protected_size ?s = 0"
      "rc_evictable_leaves ?s = []"
    by (simp_all add: reset_def new_tree_node_def monotonic_def upd_node_def Let_def)
  have "tree_ok ?s ?T" using assms by (intro tree_okI) (auto simp: f n children_ok_def split: if_splits)
  moreover have "live ?s ?T = {}" by (simp add: live_def f)
  then have "books ?s ?T []" by (simp add: books_def f n size_where_def)
  moreover have "cached (rc_page_size ?s) ?T = no_contents"
    by (intro ext) (auto simp: cached_def no_contents_def split: if_splits)
  ultimately show ?thesis unfolding represents_def by blast
qed

lemma cache_init_represents: "0 < ps \<Longrightarrow> represents (cache_init d ps e f p t) no_contents []"
  unfolding cache_init_def by (rule reset_represents) simp

lemma match_represents:
  assumes "represents s C L" "\<not> rc_disable s" "fits s key"
  shows "\<exists>vs n s'. match_prefix key s = Some (Inr (vs, n, s')) \<and> represents s' C L \<and> same_config s s' \<and>
    longest_of C (ns_of key) (units (aligned_key s key)) vs"
proof -
  obtain T where T: "tree_ok s T" "books s T L" "cached (rc_page_size s) T = C" using assms(1) by (auto simp: represents_def)
  obtain vs n s' T' where "match_prefix key s = Some (Inr (vs, n, s'))" and r: "reshaped s T s' T'"
    and "longest_of (cached (rc_page_size s) T) (ns_of key) (units (aligned_key s key)) vs"
    using match_prefix_spec [OF T(1) assms(2,3)] by blast
  moreover have "represents s' C L"
    using r T unfolding represents_def reshaped_def same_config_def by (intro exI [of _ T']) simp
  ultimately show ?thesis using T(3) r by (auto simp: reshaped_def)
qed

lemma insert_represents:
  assumes "represents s C L" "\<not> rc_disable s" "fits s key" "key_len (aligned_key s key) \<le> length vals"
  defines "U \<equiv> units (aligned_key s key)"
  shows "\<exists>l n s' w. cache_insert key (Some vals) pr ch s = Some (Inr (l, Some n, s')) \<and> same_config s s' \<and>
    longest_of C (ns_of key) U w \<and> length w = l \<and>
    represents s' (with_sequence (rc_page_size s) C (ns_of key) U (w @ drop l (take (length U) vals))) L"
proof -
  obtain T where T: "tree_ok s T" "books s T L" "cached (rc_page_size s) T = C" using assms(1) by (auto simp: represents_def)
  obtain l n s' T' w where i: "cache_insert key (Some vals) pr ch s = Some (Inr (l, Some n, s'))"
    "inserted s T (ns_of key) U (take (key_len (aligned_key s key)) vals) l n s' T' w"
    using insert_spec [OF T(1) assms(2,3,4)] unfolding U_def by blast
  have "represents s' (with_sequence (rc_page_size s) C (ns_of key) U (w @ drop l (take (length U) vals))) L"
    using i(2) T unfolding represents_def inserted_def same_config_def by (intro exI [of _ T']) (simp add: U_def)
  then show ?thesis using i T(3) unfolding inserted_def by blast
qed

lemma represents_unique: "represents s C L \<Longrightarrow> C ns xs vs \<Longrightarrow> C ns xs vs' \<Longrightarrow> vs = vs'"
  unfolding represents_def using cached_unique by blast

lemma longest_all: "C ns U V \<Longrightarrow> longest_of C ns U vs \<Longrightarrow> length vs = length U"
  unfolding longest_of_def by (metis le_antisym order_refl take_all)

lemma aligned_key_config: "same_config s s' \<Longrightarrow> aligned_key s' key = aligned_key s key"
  by (simp add: aligned_key_def same_config_def)

lemma represents_page: "represents s C L \<Longrightarrow> 0 < rc_page_size s"
  unfolding represents_def using tree_okD(1) by blast

lemma longest_prefix_eq: "represents s C L \<Longrightarrow> longest_of C ns U vs \<Longrightarrow> longest_of C ns U vs' \<Longrightarrow> vs = vs'"
  unfolding longest_of_def by (metis represents_unique le_antisym)

lemma with_other_namespace: "ns' \<noteq> ns \<Longrightarrow> longest_of (with_sequence ps C ns U V) ns' U' vs = longest_of C ns' U' vs"
  by (simp add: longest_of_def with_sequence_def)

text \<open>
  C4. \<open>match_prefix\<close> refines a lookup in the abstract contents.  On every cache that stands for contents
  \<open>C\<close> it returns, the slots it returns are those of the longest cached prefix of the key in whole
  pages, and although it may split a node, the contents, the lock counts, the two sizes and the set of
  evictable leaves are as before.
\<close>

theorem match_prefix_refines_lookup:
  assumes "represents s C L" "\<not> rc_disable s" "fits s key"
  shows "\<exists>vs n s'. match_prefix key s = Some (Inr (vs, n, s')) \<and> represents s' C L \<and>
    longest_of C (ns_of key) (units (aligned_key s key)) vs"
  using match_represents [OF assms] by blast

definition demo_cache :: radix_cache where
  "demo_cache = cache_init False 2 False False LRU (\<lambda>_. 0)"

definition demo_key :: "int list \<Rightarrow> radix_key" where
  "demo_key tokens = make_key tokens None False None None"

definition demo_filled :: radix_cache where
  "demo_filled = (case cache_insert (demo_key [1, 2, 3, 4, 5]) (Some [10, 11, 12, 13, 14]) 0 False demo_cache of
     Some (Inr (l, n, s)) \<Rightarrow> s | _ \<Rightarrow> demo_cache)"

lemma demo_represents: "represents demo_cache no_contents []"
  unfolding demo_cache_def by (rule cache_init_represents) simp

lemma demo_ready: "\<not> rc_disable demo_cache" "fits demo_cache (demo_key [1, 2, 3, 4, 5])"
  "key_len (aligned_key demo_cache (demo_key [1, 2, 3, 4, 5])) \<le> length [10, 11, 12, 13, 14 :: int]"
  by code_simp+

lemma demo_key_ready:
  "rc_page_size demo_cache = 2" "ns_of (demo_key ts) = (None, None)" "rc_is_eagle demo_cache = False"
  "units (aligned_key demo_cache (demo_key [1, 2, 3, 4, 5])) = [Tok 1, Tok 2, Tok 3, Tok 4]"
  "units (aligned_key demo_cache (demo_key [1, 2, 9])) = [Tok 1, Tok 2]"
  by (code_simp | simp add: demo_key_def make_key_def ns_of_def)+

abbreviation demo_contents :: contents where
  "demo_contents \<equiv> with_sequence 2 no_contents (None, None) [Tok 1, Tok 2, Tok 3, Tok 4] [10, 11, 12, 13]"

lemma demo_insert:
  "\<exists>n s. cache_insert (demo_key [1, 2, 3, 4, 5]) (Some [10, 11, 12, 13, 14]) 0 False demo_cache = Some (Inr (0, Some n, s)) \<and>
     represents s demo_contents [] \<and> same_config demo_cache s"
proof -
  obtain l n s w where i: "cache_insert (demo_key [1, 2, 3, 4, 5]) (Some [10, 11, 12, 13, 14]) 0 False demo_cache = Some (Inr (l, Some n, s))"
    "same_config demo_cache s" "longest_of no_contents (None, None) [Tok 1, Tok 2, Tok 3, Tok 4] w" "length w = l"
    "represents s (with_sequence 2 no_contents (None, None) [Tok 1, Tok 2, Tok 3, Tok 4]
       (w @ drop l (take (length [Tok 1, Tok 2, Tok 3, Tok 4]) [10, 11, 12, 13, 14]))) []"
    using insert_represents [OF demo_represents demo_ready(1,2,3), of 0 False] unfolding demo_key_ready by blast
  have "w = []" using i(3) by (auto simp: longest_of_def no_contents_def)
  then show ?thesis using i by simp
qed

lemma demo_lookup: "C (None, None) [Tok 1, Tok 2] [10, 11] \<Longrightarrow> represents s C L \<Longrightarrow>
  longest_of C (None, None) [Tok 1, Tok 2] vs \<Longrightarrow> vs = [10, 11]"
  using longest_all [of C "(None, None)" "[Tok 1, Tok 2]" "[10, 11]" vs] represents_unique
  unfolding longest_of_def by (metis order_refl take_all)

theorem match_prefix_refines_lookup_witness:
  "\<exists>n s m s'. cache_insert (demo_key [1, 2, 3, 4, 5]) (Some [10, 11, 12, 13, 14]) 0 False demo_cache = Some (Inr (0, Some n, s)) \<and>
     match_prefix (demo_key [1, 2, 9]) s = Some (Inr ([10, 11], m, s'))"
proof -
  obtain n s where i: "cache_insert (demo_key [1, 2, 3, 4, 5]) (Some [10, 11, 12, 13, 14]) 0 False demo_cache = Some (Inr (0, Some n, s))"
    "represents s demo_contents []" "same_config demo_cache s" using demo_insert by blast
  have f: "\<not> rc_disable s" "fits s (demo_key [1, 2, 9])" using i(3) demo_ready(1)
    by (simp_all add: same_config_def fits_def demo_key_def make_key_def)
  obtain vs m s' where m: "match_prefix (demo_key [1, 2, 9]) s = Some (Inr (vs, m, s'))"
    "longest_of demo_contents (None, None) [Tok 1, Tok 2] vs"
    using match_prefix_refines_lookup [OF i(2) f] unfolding aligned_key_config [OF i(3)] demo_key_ready by blast
  have "vs = [10, 11]" by (rule demo_lookup [OF _ i(2) m(2)]) (simp add: with_sequence_def)
  then show ?thesis using i(1) m(1) by blast
qed

text \<open>
  C14. An inserted key is found again.  The insertion reports how much of the key was cached before; a
  match of the same key afterwards returns, for that part, the slots the cache already had, and for the
  rest the slots that were inserted: all whole pages of the key.
\<close>

theorem inserted_key_is_matched:
  assumes "represents s C L" "\<not> rc_disable s" "fits s key" "key_len (aligned_key s key) \<le> length vals"
  shows "\<exists>l n s' w m s''. cache_insert key (Some vals) pr ch s = Some (Inr (l, Some n, s')) \<and>
    longest_of C (ns_of key) (units (aligned_key s key)) w \<and> length w = l \<and>
    match_prefix key s' = Some (Inr (w @ drop l (take (key_len (aligned_key s key)) vals), m, s''))"
proof -
  let ?U = "units (aligned_key s key)"
  obtain l n s' w where i: "cache_insert key (Some vals) pr ch s = Some (Inr (l, Some n, s'))" "same_config s s'"
    "longest_of C (ns_of key) ?U w" "length w = l"
    "represents s' (with_sequence (rc_page_size s) C (ns_of key) ?U (w @ drop l (take (length ?U) vals))) L"
    using insert_represents [OF assms] by blast
  let ?V = "w @ drop l (take (length ?U) vals)" and ?C = "with_sequence (rc_page_size s) C (ns_of key) ?U (w @ drop l (take (length ?U) vals))"
  have on: "\<not> rc_disable s'" "fits s' key" using i(2) assms(2,3) by (simp_all add: same_config_def fits_def)
  obtain vs m s'' where m: "match_prefix key s' = Some (Inr (vs, m, s''))" "longest_of ?C (ns_of key) ?U vs"
    using match_represents [OF i(5) on] unfolding aligned_key_config [OF i(2)] by blast
  have "length w \<le> length ?U" using i(3) by (simp add: longest_of_def)
  then have "length ?V = length ?U" using i(4) assms(4) by simp
  then have full: "?C (ns_of key) ?U ?V" by (simp add: with_sequence_def aligned_key_facts)
  then have "vs = ?V" using longest_all [OF full m(2)] m(2) represents_unique [OF i(5)]
    unfolding longest_of_def by (metis order_refl take_all)
  then show ?thesis using i m by auto
qed

theorem inserted_key_is_matched_witness:
  "\<exists>n s m s'. cache_insert (demo_key [1, 2, 3, 4, 5]) (Some [10, 11, 12, 13, 14]) 0 False demo_cache = Some (Inr (0, Some n, s)) \<and>
     match_prefix (demo_key [1, 2, 3, 4, 5]) s = Some (Inr ([10, 11, 12, 13], m, s'))"
proof -
  obtain l n s w m s' where i: "cache_insert (demo_key [1, 2, 3, 4, 5]) (Some [10, 11, 12, 13, 14]) 0 False demo_cache = Some (Inr (l, Some n, s))"
    "longest_of no_contents (None, None) [Tok 1, Tok 2, Tok 3, Tok 4] w" "length w = l"
    "match_prefix (demo_key [1, 2, 3, 4, 5]) s = Some (Inr (w @ drop l (take (length [Tok 1, Tok 2, Tok 3, Tok 4]) [10, 11, 12, 13, 14]), m, s'))"
    using inserted_key_is_matched [OF demo_represents demo_ready(1,2,3), of 0 False] unfolding demo_key_ready length_units [symmetric] by blast
  have "w = []" using i(2) by (auto simp: longest_of_def no_contents_def)
  then show ?thesis using i by auto
qed

text \<open>
  C26. Namespaces are isolated.  Inserting a key leaves every match under another namespace as it was:
  a request with a different \<open>extra_key\<close> or \<open>cache_salt\<close> is given the same slots as before, whatever
  the tokens.
\<close>

theorem namespaces_are_isolated:
  assumes "represents s C L" "\<not> rc_disable s" "fits s key" "key_len (aligned_key s key) \<le> length vals"
    and "fits s key'" "ns_of key' \<noteq> ns_of key"
  shows "\<exists>l n s' vs m t m' t'. cache_insert key (Some vals) pr ch s = Some (Inr (l, Some n, s')) \<and>
    match_prefix key' s = Some (Inr (vs, m, t)) \<and> match_prefix key' s' = Some (Inr (vs, m', t'))"
proof -
  obtain l n s' w where i: "cache_insert key (Some vals) pr ch s = Some (Inr (l, Some n, s'))" "same_config s s'"
    "represents s' (with_sequence (rc_page_size s) C (ns_of key) (units (aligned_key s key))
       (w @ drop l (take (length (units (aligned_key s key))) vals))) L"
    using insert_represents [OF assms(1-4)] by blast
  have on: "\<not> rc_disable s'" "fits s' key'" using i(2) assms(2,5) by (simp_all add: same_config_def fits_def)
  obtain vs' m' t' where m': "match_prefix key' s' = Some (Inr (vs', m', t'))" "longest_of C (ns_of key') (units (aligned_key s key')) vs'"
    using match_represents [OF i(3) on] unfolding aligned_key_config [OF i(2)] with_other_namespace [OF assms(6)] by blast
  obtain vs m t where m: "match_prefix key' s = Some (Inr (vs, m, t))" "longest_of C (ns_of key') (units (aligned_key s key')) vs"
    using match_represents [OF assms(1,2,5)] by blast
  show ?thesis using i(1) m(1) m'(1) longest_prefix_eq [OF assms(1) m(2) m'(2)] by blast
qed

definition salted_key :: radix_key where
  "salted_key = make_key [1, 2, 3] None False None (Some ''s'')"

theorem namespaces_are_isolated_witness:
  "\<exists>l n s vs m t m' t'. cache_insert (demo_key [1, 2, 3, 4, 5]) (Some [10, 11, 12, 13, 14]) 0 False demo_cache = Some (Inr (l, Some n, s)) \<and>
     match_prefix salted_key demo_cache = Some (Inr (vs, m, t)) \<and> match_prefix salted_key s = Some (Inr (vs, m', t'))"
  by (rule namespaces_are_isolated [OF demo_represents demo_ready(1,2,3)])
     (simp_all add: salted_key_def demo_key_def fits_def make_key_def ns_of_def)

end
