(* ===== verification/RadixLocks.thy ===== *)
theory RadixLocks
  imports RadixRefine
begin

text \<open>
  Locks of the prefix cache: \<open>inc_lock_ref\<close> and \<open>dec_lock_ref\<close> walk from a node to the root and move
  nodes between the evictable and the protected size.  The lemmas show that both walks end, and that a
  node's count is the number of requests that hold a node at or below it.
\<close>

section \<open>Locking and unlocking\<close>

definition resize :: "int \<Rightarrow> radix_cache \<Rightarrow> radix_cache" where
  "resize d s = s\<lparr>rc_evictable_size := rc_evictable_size s + d, rc_protected_size := rc_protected_size s - d\<rparr>"

definition add_lock :: "int \<Rightarrow> nat \<Rightarrow> radix_cache \<Rightarrow> radix_cache" where
  "add_lock d n s = update_leaf_status n (upd_node n (\<lambda>nd. nd\<lparr>tn_lock_ref := tn_lock_ref nd + d\<rparr>) s)"

text \<open>The loops; the first number is \<open>delta\<close>.\<close>

partial_function (option) inc_loop :: "nat \<Rightarrow> int \<Rightarrow> radix_cache \<Rightarrow> (int \<times> radix_cache) result option" where
  "inc_loop n delta s =
     (if n = rc_root_node s then Some (Inr (delta, s))
      else let k = int (key_len (tn_key (node s n)));
               (delta1, s1) = (if tn_lock_ref (node s n) = 0 then (delta - k, resize (- k) s) else (delta, s));
               s2 = add_lock 1 n s1
           in (case tn_parent (node s2 n) of
                 None \<Rightarrow> Some (Inl (AttributeError ''lock_ref''))
               | Some p \<Rightarrow> inc_loop p delta1 s2))"

partial_function (option) dec_loop :: "nat \<Rightarrow> int \<Rightarrow> radix_cache \<Rightarrow> (int \<times> radix_cache) result option" where
  "dec_loop n delta s =
     (if n = rc_root_node s then Some (Inr (delta, s))
      else let k = int (key_len (tn_key (node s n)));
               (delta1, s1) = (if tn_lock_ref (node s n) = 1 then (delta + k, resize k s) else (delta, s));
               s2 = add_lock (- 1) n s1
           in (case tn_parent (node s2 n) of
                 None \<Rightarrow> Some (Inl (AssertionError ''This request holds the node from another tree''))
               | Some p \<Rightarrow> dec_loop p delta1 s2))"

declare inc_loop.simps [code] dec_loop.simps [code]

definition inc_lock_ref :: "nat \<Rightarrow> radix_cache \<Rightarrow> (int \<times> radix_cache) result option" where
  "inc_lock_ref n s = (if rc_disable s then Some (Inr (0, s)) else inc_loop n 0 s)"

definition dec_lock_ref :: "nat \<Rightarrow> radix_cache \<Rightarrow> (int \<times> radix_cache) result option" where
  "dec_lock_ref n s = (if rc_disable s then Some (Inr (0, s)) else dec_loop n 0 s)"

section \<open>The ledger\<close>

text \<open>The part of the books that only depends on the lock counts as they are.\<close>

definition ledger :: "radix_cache \<Rightarrow> layout \<Rightarrow> bool" where
  "ledger s T \<longleftrightarrow> tn_lock_ref (node s (rc_root_node s)) = 1 \<and>
     rc_evictable_size s = size_where s T True \<and> rc_protected_size s = size_where s T False \<and> distinct (rc_evictable_leaves s) \<and>
     set (rc_evictable_leaves s) = {n \<in> live s T. tn_lock_ref (node s n) = 0 \<and> tn_children (node s n) = []}"

lemma books_ledger:
  "books s T L \<longleftrightarrow> ledger s T \<and> set L \<subseteq> dom T \<and> (\<forall>n \<in> live s T. tn_lock_ref (node s n) = holders T L n)"
  by (auto simp: books_def ledger_def)

lemma size_where_sum:
  assumes "finite (dom T)"
  shows "size_where s T u = (\<Sum>n \<in> live s T. if (tn_lock_ref (node s n) = 0) = u then int (key_len (tn_key (node s n))) else 0)"
  unfolding size_where_def using assms by (subst sum.inter_filter [symmetric]) (auto simp: live_def)

lemma sum_change:
  fixes f g :: "nat \<Rightarrow> int"
  assumes "finite S" "n \<in> S" "\<And>m. m \<in> S \<Longrightarrow> m \<noteq> n \<Longrightarrow> g m = f m"
  shows "(\<Sum>m\<in>S. g m) = (\<Sum>m\<in>S. f m) + g n - f n"
proof -
  have "(\<Sum>m\<in>S - {n}. g m) = (\<Sum>m\<in>S - {n}. f m)" using assms(3) by simp
  then show ?thesis using assms(1,2) by (simp add: sum.remove [of S n])
qed

lemma leaf_children:
  assumes ok: "tree_ok s T" and n: "n \<in> live s T"
  shows "(\<forall>(k, c) \<in> set (tn_children (node s n)). tn_value (node s c) = None) \<longleftrightarrow> tn_children (node s n) = []" and "tn_value (node s n) \<noteq> None"
proof -
  have val: "tn_value (node s m) \<noteq> None" if m: "m \<in> live s T" for m
  proof -
    obtain ns xs vs where T: "T m = Some (ns, xs, vs)" using m unfolding live_def by auto
    have r: "m \<noteq> rc_root_node s" using m by (simp add: live_def)
    show ?thesis by (rule node_parts [OF ok T r]) simp
  qed
  show "tn_value (node s n) \<noteq> None" by (rule val [OF n])
  have "n \<in> dom T" using n by (simp add: live_def)
  then have "distinct (map fst (tn_children (node s n)))" "\<And>k c. map_of (tn_children (node s n)) k = Some c \<Longrightarrow> c \<in> live s T"
    using tree_okD(7) [OF ok] child_found(1,2) [OF ok] unfolding children_ok_def live_def by blast+
  then have kid: "c \<in> live s T" if "(k, c) \<in> set (tn_children (node s n))" for k c using that by (metis map_of_is_SomeI)
  then show "(\<forall>(k, c) \<in> set (tn_children (node s n)). tn_value (node s c) = None) \<longleftrightarrow> tn_children (node s n) = []"
    using val kid by (cases "tn_children (node s n)") fastforce+
qed

definition relocked :: "(nat \<Rightarrow> int) \<Rightarrow> radix_cache \<Rightarrow> radix_cache \<Rightarrow> bool" where
  "relocked d s s' \<longleftrightarrow> same_skeleton s s' \<and> same_config s s' \<and> (\<forall>m. tn_lock_ref (node s' m) = tn_lock_ref (node s m) + d m)"

lemma leaf_status_rest [simp]:
  "rc_disable (update_leaf_status n s) = rc_disable s" "rc_policy (update_leaf_status n s) = rc_policy s"
  "rc_disable_finished_insert (update_leaf_status n s) = rc_disable_finished_insert s"
  by (simp_all add: update_leaf_status_def add_leaf_def remove_leaf_def)

lemma relocked_add: "relocked (\<lambda>m. if m = n then d else 0) s (add_lock d n s)"
  by (auto simp: relocked_def same_skeleton_def add_lock_def upd_node_def same_config_def)

lemma relocked_resize: "relocked (\<lambda>_. 0) s (resize k s)"
  by (simp add: relocked_def same_skeleton_def resize_def same_config_def)

lemma relocked_trans: "relocked d s s' \<Longrightarrow> relocked e s' s'' \<Longrightarrow> (\<And>m. f m = d m + e m) \<Longrightarrow> relocked f s s''"
  by (auto simp: relocked_def same_config_def intro: skeleton_trans)

lemma relocked_live: "relocked d s s' \<Longrightarrow> live s' T = live s T" "relocked d s s' \<Longrightarrow> tree_ok s' T = tree_ok s T"
  using tree_ok_skeleton by (auto simp: relocked_def live_def same_config_def)

text \<open>Changing the count of one node moves its tokens between the two sizes.\<close>

lemma ledger_step:
  assumes ok: "tree_ok s T" and led: "ledger s T" and n: "n \<in> live s T" and pos: "0 \<le> tn_lock_ref (node s n) + d"
  defines "k \<equiv> int (key_len (tn_key (node s n)))"
  defines "r \<equiv> (if tn_lock_ref (node s n) + d = 0 then k else 0) - (if tn_lock_ref (node s n) = 0 then k else 0)"
  shows "ledger (add_lock d n (resize r s)) T"
proof -
  let ?s = "add_lock d n (resize r s)"
  have r0: "relocked (\<lambda>m. if m = n then d else 0) s ?s"
    by (rule relocked_trans [OF relocked_resize relocked_add]) simp
  then have lock: "tn_lock_ref (node ?s m) = tn_lock_ref (node s m) + (if m = n then d else 0)"
    and key: "tn_key (node ?s m) = tn_key (node s m)" and kids: "tn_children (node ?s m) = tn_children (node s m)"
    and val: "tn_value (node ?s m) = tn_value (node s m)" for m
    by (simp_all add: relocked_def same_skeleton_def)
  have lv: "live ?s T = live s T" by (rule relocked_live(1) [OF r0])
  have fin: "finite (dom T)" "finite (live s T)" using tree_okD(2) [OF ok] by (simp_all add: live_def)
  have size: "size_where ?s T u = size_where s T u + (if (tn_lock_ref (node s n) + d = 0) = u then k else 0) - (if (tn_lock_ref (node s n) = 0) = u then k else 0)" for u
    unfolding size_where_sum [OF fin(1)] lv
    by (subst sum_change [OF fin(2) n, of _ "\<lambda>m. if (tn_lock_ref (node s m) = 0) = u then int (key_len (tn_key (node s m))) else 0"])
       (auto simp: lock key k_def)
  have ev: "rc_evictable_size ?s = rc_evictable_size s + r" "rc_protected_size ?s = rc_protected_size s - r"
    by (simp_all add: add_lock_def upd_node_def resize_def)
  define s1 where "s1 = upd_node n (\<lambda>nd. nd\<lparr>tn_lock_ref := tn_lock_ref nd + d\<rparr>) (resize r s)"
  have s1: "?s = update_leaf_status n s1" "rc_evictable_leaves s1 = rc_evictable_leaves s" "rc_nodes s1 = rc_nodes ?s"
    by (simp_all add: add_lock_def s1_def upd_node_def resize_def)
  have leaf: "is_leaf s1 n \<longleftrightarrow> tn_lock_ref (node s n) + d = 0 \<and> tn_children (node s n) = []"
    using leaf_children [OF ok n] pos unfolding is_leaf_def s1(3) by (auto simp: lock val kids)
  have leaves: "set (rc_evictable_leaves ?s) = {m \<in> live ?s T. tn_lock_ref (node ?s m) = 0 \<and> tn_children (node ?s m) = []}"
    using led n unfolding s1(1) leaf_status_leaves(1) leaf s1(2) unfolding s1(1) [symmetric] lv lock kids ledger_def by auto
  have dist: "distinct (rc_evictable_leaves ?s)"
    using led unfolding s1(1) by (intro leaf_status_leaves(2)) (simp add: s1(2) ledger_def)
  have root: "rc_root_node ?s = rc_root_node s" using r0 by (simp add: relocked_def same_config_def)
  have "n \<noteq> rc_root_node s" using n by (simp add: live_def)
  then have rl: "tn_lock_ref (node ?s (rc_root_node ?s)) = 1" unfolding root lock using led by (simp add: ledger_def)
  have "rc_evictable_size ?s = size_where ?s T True" unfolding ev size using led by (simp add: ledger_def r_def)
  moreover have "rc_protected_size ?s = size_where ?s T False" unfolding ev size using led by (simp add: ledger_def r_def)
  ultimately show ?thesis using rl leaves dist unfolding ledger_def by blast
qed
section \<open>Ancestors\<close>

lemma live_layout: "n \<in> live s T \<longleftrightarrow> n \<noteq> rc_root_node s \<and> (\<exists>ns xs vs. T n = Some (ns, xs, vs))"
  by (auto simp: live_def)

lemma below_root:
  assumes ok: "tree_ok s T" and m: "m \<in> live s T"
  shows "\<not> below T m (rc_root_node s)"
proof
  assume b: "below T m (rc_root_node s)"
  obtain ns xs vs where T: "T m = Some (ns, xs, vs)" "m \<noteq> rc_root_node s" using m by (auto simp: live_layout)
  have "xs \<noteq> []" by (rule path_nonempty(1) [OF ok T])
  then show False using b T tree_okD(4) [OF ok] by (auto simp: below_def)
qed

lemma path_inj:
  assumes ok: "tree_ok s T" and m: "T m = Some (ns, xs, vm)" "m \<noteq> rc_root_node s" and n: "T n = Some (ns, xs, vn)" "n \<noteq> rc_root_node s"
  shows "m = n"
proof -
  obtain p nsp xp vp v where p: "tn_parent (node s n) = Some p" "T p = Some (nsp, xp, vp)" "p = rc_root_node s \<or> nsp = ns"
    "xs = xp @ units (tn_key (node s n))" "length xp < length xs"
    by (rule node_parts [OF ok n])
  have xp: "take (length xp) xs = xp" using p(4) by simp
  obtain c xc vc where c: "T c = Some (ns, xc, vc)" "c \<noteq> rc_root_node s" "tn_parent (node s c) = Some p" "xc = take (length xc) xs"
    "c = m \<or> length xc < length xs"
    using descend [OF ok m p(2,3,5) xp] by blast
  have "take (length xp + rc_page_size s) xc = take (length xp + rc_page_size s) xs"
    by (rule prefix_take [OF c(4) child_longer [OF ok c(1-3) p(2)]])
  then have "c = n" using child_pages [OF ok c(1,2) n c(3) p(1) _ p(2)] by blast
  then show ?thesis using c(1,5) n(1) by auto
qed

lemma below_step:
  assumes ok: "tree_ok s T" and n: "n \<in> live s T" and m: "m \<in> live s T" and par: "tn_parent (node s n) = Some p"
  shows "below T m n \<longleftrightarrow> m = n \<or> below T m p"
proof -
  obtain ns xn vn where Tn: "T n = Some (ns, xn, vn)" "n \<noteq> rc_root_node s" using n by (auto simp: live_layout)
  obtain ms xm vm where Tm: "T m = Some (ms, xm, vm)" "m \<noteq> rc_root_node s" using m by (auto simp: live_layout)
  obtain p' nsp xp vp v where p': "tn_parent (node s n) = Some p'" "T p' = Some (nsp, xp, vp)" "p' = rc_root_node s \<or> nsp = ns"
    "xn = xp @ units (tn_key (node s n))" "length xp < length xn"
    by (rule node_parts [OF ok Tn])
  have p: "T p = Some (nsp, xp, vp)" "p = rc_root_node s \<or> nsp = ns" using p' par by simp_all
  have xp: "take (length xp) xn = xp" using p'(4) by simp
  have pos: "0 < rc_page_size s" by (rule tree_okD(1) [OF ok])
  show ?thesis
  proof
    assume "below T m n"
    then have b: "ms = ns" "length xm \<le> length xn" "take (length xm) xn = xm" using Tn(1) Tm(1) by (auto simp: below_def)
    show "m = n \<or> below T m p"
    proof (cases "length xm \<le> length xp")
      case True
      then have "p \<noteq> rc_root_node s" using path_nonempty(1) [OF ok Tm] p(1) tree_okD(4) [OF ok] by auto
      then have "nsp = ns" using p(2) by simp
      moreover have "take (length xm) xp = xm" using b(3) p'(4) True by simp
      ultimately show ?thesis using Tm(1) p(1) b(1) True unfolding below_def by blast
    next
      case False
      have dv: "rc_page_size s dvd length xm" "rc_page_size s dvd length xp" using path_shape [OF ok] Tm(1) p(1) by blast+
      then have "rc_page_size s dvd length xm - length xp" by simp
      then have ge: "length xp + rc_page_size s \<le> length xm" using False dvd_imp_le [of "rc_page_size s" "length xm - length xp"] by simp
      have Tm': "T m = Some (ns, xm, vm)" using Tm(1) b(1) by simp
      have same: "take (length xm) xm = take (length xm) xn" using b(3) by simp
      have "below T n m" by (rule below_ancestor [OF ok Tn Tm' p'(1,2,3) ge order_refl same b(2)])
      then have "length xn \<le> length xm" using Tn(1) Tm(1) by (auto simp: below_def)
      then have "xn = xm" using b(2,3) by simp
      then show ?thesis using path_inj [OF ok Tm] Tn b(1) by simp
    qed
  next
    assume "m = n \<or> below T m p"
    then show "below T m n"
    proof
      assume "m = n"
      then show ?thesis using Tn(1) by (simp add: below_def)
    next
      assume b: "below T m p"
      then have "p \<noteq> rc_root_node s" using below_root [OF ok m] by auto
      then have "nsp = ns" using p(2) by simp
      then have e: "ms = ns" "length xm \<le> length xp" "take (length xm) xp = xm" using b Tm(1) p(1) by (auto simp: below_def)
      then have "take (length xm) xn = xm" using p'(4) by simp
      then show ?thesis using Tm(1) Tn(1) e p'(5) by (simp add: below_def)
    qed
  qed
qed

section \<open>The loops\<close>

definition counts_below :: "radix_cache \<Rightarrow> layout \<Rightarrow> nat \<Rightarrow> nat \<Rightarrow> int" where
  "counts_below s T n m = (if m \<in> live s T \<and> below T m n then 1 else 0)"

lemma counts_below_step:
  assumes "tree_ok s T" "n \<in> live s T" "tn_parent (node s n) = Some p"
  shows "counts_below s T n m = (if m = n then 1 else 0) + counts_below s T p m"
proof -
  have "\<not> below T n p"
  proof -
    obtain ns xn vn where Tn: "T n = Some (ns, xn, vn)" "n \<noteq> rc_root_node s" using assms(2) by (auto simp: live_layout)
    obtain p' nsp xp vp v where "tn_parent (node s n) = Some p'" "T p' = Some (nsp, xp, vp)" "length xp < length xn"
      by (rule node_parts [OF assms(1) Tn])
    then show ?thesis using assms(3) Tn(1) by (auto simp: below_def)
  qed
  then show ?thesis using below_step [OF assms(1,2) _ assms(3)] assms(2) by (auto simp: counts_below_def)
qed

lemma live_parent:
  assumes ok: "tree_ok s T" and n: "n \<in> live s T"
  obtains p where "tn_parent (node s n) = Some p" "p \<in> dom T" "length (fst (snd (the (T p)))) < length (fst (snd (the (T n))))"
proof -
  obtain ns xn vn where Tn: "T n = Some (ns, xn, vn)" "n \<noteq> rc_root_node s" using n by (auto simp: live_layout)
  show thesis by (rule node_parts [OF ok Tn]) (use that Tn in force)
qed

lemma walk_up:
  assumes "tree_ok s T" "ledger s T" "n \<in> dom T" "d = 1 \<or> d = - 1" "\<forall>m \<in> live s T. 0 \<le> tn_lock_ref (node s m) + d * counts_below s T n m"
    and "\<forall>m \<in> live s T. 0 \<le> tn_lock_ref (node s m)"
  shows "\<exists>e s'. (if d = 1 then inc_loop n delta s else dec_loop n delta s) = Some (Inr (delta + e, s')) \<and>
    relocked (\<lambda>m. d * counts_below s T n m) s s' \<and> ledger s' T \<and> e = rc_evictable_size s' - rc_evictable_size s"
  using assms
proof (induction "length (fst (snd (the (T n))))" arbitrary: n s delta rule: less_induct)
  case less
  note ok = less.prems(1)
  show ?case
  proof (cases "n = rc_root_node s")
    case True
    then have c: "counts_below s T n m = 0" for m using below_root [OF ok] by (simp add: counts_below_def)
    have "(if d = 1 then inc_loop n delta s else dec_loop n delta s) = Some (Inr (delta + 0, s))"
      using True by (simp add: inc_loop.simps dec_loop.simps)
    moreover have "relocked (\<lambda>m. d * counts_below s T n m) s s" by (simp add: relocked_def c same_config_def)
    ultimately show ?thesis using less.prems(2) by (intro exI [of _ 0] exI [of _ s]) simp
  next
    case False
    then have n: "n \<in> live s T" using less.prems(3) by (simp add: live_def)
    obtain p where p: "tn_parent (node s n) = Some p" "p \<in> dom T" "length (fst (snd (the (T p)))) < length (fst (snd (the (T n))))"
      by (rule live_parent [OF ok n])
    note cs = counts_below_step [OF ok n p(1)]
    have cp: "counts_below s T p n = 0" using cs [of n] by (auto simp: counts_below_def split: if_splits)
    define r where "r = (if tn_lock_ref (node s n) + d = 0 then int (key_len (tn_key (node s n))) else 0) -
      (if tn_lock_ref (node s n) = 0 then int (key_len (tn_key (node s n))) else 0)"
    define s2 where "s2 = add_lock d n (resize r s)"
    have pos: "0 \<le> tn_lock_ref (node s n) + d" using less.prems(5) [rule_format, OF n] cs [of n] cp by simp
    have rs: "relocked (\<lambda>m. if m = n then d else 0) s s2"
      unfolding s2_def by (rule relocked_trans [OF relocked_resize relocked_add]) simp
    have led: "ledger s2 T" unfolding s2_def r_def by (rule ledger_step [OF ok less.prems(2) n pos])
    have par: "tn_parent (node s2 n) = Some p" using rs p(1) by (simp add: relocked_def same_skeleton_def)
    have lock: "tn_lock_ref (node s2 m) = tn_lock_ref (node s m) + (if m = n then d else 0)" for m using rs by (simp add: relocked_def)
    have cs2: "counts_below s2 T p m = counts_below s T p m" for m by (simp add: counts_below_def relocked_live(1) [OF rs])
    have rz: "resize 0 s = s" by (simp add: resize_def)
    have d: "d = 1 \<or> d = - 1" by (rule less.prems(4))
    have step: "(if d = 1 then inc_loop n delta s else dec_loop n delta s) = (if d = 1 then inc_loop p (delta + r) s2 else dec_loop p (delta + r) s2)"
    proof (cases "d = 1")
      case True
      have "tn_lock_ref (node s n) + 1 \<noteq> 0" using less.prems(6) n by auto
      then have r: "r = (if tn_lock_ref (node s n) = 0 then - int (key_len (tn_key (node s n))) else 0)" using True by (simp add: r_def)
      show ?thesis
      proof (cases "tn_lock_ref (node s n) = 0")
        case z: True
        then show ?thesis using True False par r by (subst inc_loop.simps) (simp add: s2_def Let_def)
      next
        case nz: False
        then show ?thesis using True False par r by (subst inc_loop.simps) (simp add: s2_def Let_def rz)
      qed
    next
      case nd: False
      then have dm: "d = - 1" using d by simp
      then have "tn_lock_ref (node s n) \<noteq> 0" using pos by auto
      then have r: "r = (if tn_lock_ref (node s n) = 1 then int (key_len (tn_key (node s n))) else 0)" using dm by (simp add: r_def)
      show ?thesis
      proof (cases "tn_lock_ref (node s n) = 1")
        case z: True
        then show ?thesis using dm False par r by (subst dec_loop.simps) (simp add: s2_def Let_def)
      next
        case nz: False
        then show ?thesis using dm False par r by (subst dec_loop.simps) (simp add: s2_def Let_def rz)
      qed
    qed
    have ok2: "tree_ok s2 T" using ok relocked_live(2) [OF rs] by simp
    have nn: "\<forall>m \<in> live s2 T. 0 \<le> tn_lock_ref (node s2 m) + d * counts_below s2 T p m"
    proof
      fix m assume "m \<in> live s2 T"
      then have "0 \<le> tn_lock_ref (node s m) + d * counts_below s T n m" using less.prems(5) by (simp add: relocked_live(1) [OF rs])
      then show "0 \<le> tn_lock_ref (node s2 m) + d * counts_below s2 T p m"
        by (cases "m = n") (simp_all add: lock cs2 cs distrib_left)
    qed
    have nn2: "\<forall>m \<in> live s2 T. 0 \<le> tn_lock_ref (node s2 m)"
      using less.prems(6) pos by (auto simp: lock relocked_live(1) [OF rs])
    obtain e s' where IH: "(if d = 1 then inc_loop p (delta + r) s2 else dec_loop p (delta + r) s2) = Some (Inr (delta + r + e, s'))"
      "relocked (\<lambda>m. d * counts_below s2 T p m) s2 s'" "ledger s' T" "e = rc_evictable_size s' - rc_evictable_size s2"
      using less.hyps [OF p(3) ok2 led p(2) d nn nn2] by blast
    have "relocked (\<lambda>m. d * counts_below s T n m) s s'"
      by (rule relocked_trans [OF rs IH(2)]) (simp add: cs cs2 distrib_left)
    moreover have "rc_evictable_size s2 = rc_evictable_size s + r" by (simp add: s2_def add_lock_def upd_node_def resize_def)
    ultimately show ?thesis using step IH(1,3,4) by (intro exI [of _ "r + e"] exI [of _ s']) (simp add: add.assoc)
  qed
qed

lemma holders_nonneg: "0 \<le> holders T L n"
  by (simp add: holders_def)

lemma holders_Cons: "holders T (n # L) m = holders T L m + (if below T m n then 1 else 0)"
  by (simp add: holders_def)

lemma holders_remove: "n \<in> set L \<Longrightarrow> holders T L m = holders T (remove1 n L) m + (if below T m n then 1 else 0)"
  by (induction L) (auto simp: holders_def)

lemma relock_books:
  assumes ok: "tree_ok s T" and b: "books s T L" and r: "relocked (\<lambda>m. d * counts_below s T n m) s s'" and led: "ledger s' T"
    and L: "set L' \<subseteq> dom T" "\<And>m. m \<in> live s T \<Longrightarrow> holders T L' m = holders T L m + (if below T m n then d else 0)"
  shows "tree_ok s' T" "books s' T L'" "same_config s s'"
proof -
  show "tree_ok s' T" using ok relocked_live(2) [OF r] by simp
  show "same_config s s'" using r by (simp add: relocked_def)
  have "tn_lock_ref (node s' m) = holders T L' m" if m: "m \<in> live s T" for m
    using b r L(2) [OF m] m by (auto simp: books_def relocked_def counts_below_def)
  then show "books s' T L'" using led L(1) by (simp add: books_ledger relocked_live(1) [OF r])
qed

lemma inc_spec:
  assumes ok: "tree_ok s T" and b: "books s T L" and on: "\<not> rc_disable s" and n: "n \<in> dom T"
  shows "\<exists>e s'. inc_lock_ref n s = Some (Inr (e, s')) \<and> tree_ok s' T \<and> books s' T (n # L) \<and> same_config s s' \<and>
    e = rc_evictable_size s' - rc_evictable_size s"
proof -
  have led: "ledger s T" and pos: "\<forall>m \<in> live s T. 0 \<le> tn_lock_ref (node s m)"
    using b holders_nonneg by (auto simp: books_ledger)
  have pos': "\<forall>m \<in> live s T. 0 \<le> tn_lock_ref (node s m) + 1 * counts_below s T n m" using pos by (simp add: counts_below_def)
  obtain e s' where w: "inc_loop n 0 s = Some (Inr (e, s'))" "relocked (\<lambda>m. 1 * counts_below s T n m) s s'" "ledger s' T"
    "e = rc_evictable_size s' - rc_evictable_size s"
    using walk_up [OF ok led n _ pos' pos, of 0] by auto
  have "set (n # L) \<subseteq> dom T" using b n by (simp add: books_def)
  then show ?thesis using w on relock_books [OF ok b w(2,3), of "n # L"] by (simp add: inc_lock_ref_def holders_Cons)
qed

lemma dec_spec:
  assumes ok: "tree_ok s T" and b: "books s T L" and on: "\<not> rc_disable s" and n: "n \<in> set L"
  shows "\<exists>e s'. dec_lock_ref n s = Some (Inr (e, s')) \<and> tree_ok s' T \<and> books s' T (remove1 n L) \<and> same_config s s' \<and>
    e = rc_evictable_size s' - rc_evictable_size s"
proof -
  have led: "ledger s T" and lock: "\<forall>m \<in> live s T. tn_lock_ref (node s m) = holders T L m" and LT: "set L \<subseteq> dom T"
    using b by (auto simp: books_ledger)
  have pos: "\<forall>m \<in> live s T. 0 \<le> tn_lock_ref (node s m)" using lock holders_nonneg by auto
  have pos': "\<forall>m \<in> live s T. 0 \<le> tn_lock_ref (node s m) + (- 1) * counts_below s T n m"
    using lock holders_remove [OF n] holders_nonneg [of T "remove1 n L"] by (auto simp: counts_below_def)
  have nd: "n \<in> dom T" using LT n by blast
  obtain e s' where w: "dec_loop n 0 s = Some (Inr (e, s'))" "relocked (\<lambda>m. (- 1) * counts_below s T n m) s s'" "ledger s' T"
    "e = rc_evictable_size s' - rc_evictable_size s"
    using walk_up [OF ok led nd _ pos' pos, of 0] by auto
  have "set (remove1 n L) \<subseteq> dom T" using LT set_remove1_subset [of n L] by blast
  then show ?thesis using w on relock_books [OF ok b w(2,3), of "remove1 n L"] holders_remove [OF n] by (simp add: dec_lock_ref_def)
qed

text \<open>
  Lock counts are the requests that hold a prefix.  On a cache whose books are right for the list of
  held nodes, \<open>inc_lock_ref\<close> of a live node and \<open>dec_lock_ref\<close> of a held one return, the books are right
  afterwards for the list with that node added or taken away, and the returned \<open>delta\<close> is the change of
  the evictable size.
\<close>

theorem lock_counts_are_holders:
  assumes "tree_ok s T" "books s T L" "\<not> rc_disable s" "n \<in> dom T"
  shows "(\<exists>e s'. inc_lock_ref n s = Some (Inr (e, s')) \<and> tree_ok s' T \<and> books s' T (n # L) \<and> e = rc_evictable_size s' - rc_evictable_size s)
    \<and> (n \<in> set L \<longrightarrow> (\<exists>e s'. dec_lock_ref n s = Some (Inr (e, s')) \<and> tree_ok s' T \<and> books s' T (remove1 n L) \<and>
          e = rc_evictable_size s' - rc_evictable_size s))"
  using inc_spec [OF assms] dec_spec [OF assms(1-3)] by blast

theorem lock_counts_are_holders_witness:
  "\<exists>n s e s'. cache_insert (demo_key [1, 2, 3, 4, 5]) (Some [10, 11, 12, 13, 14]) 0 False demo_cache = Some (Inr (0, Some n, s)) \<and>
     inc_lock_ref n s = Some (Inr (e, s')) \<and> e = rc_evictable_size s' - rc_evictable_size s"
proof -
  obtain T where T: "tree_ok demo_cache T" "books demo_cache T []" "cached 2 T = no_contents"
    using demo_represents by (auto simp: represents_def demo_key_ready)
  obtain l n s T' w where i: "cache_insert (demo_key [1, 2, 3, 4, 5]) (Some [10, 11, 12, 13, 14]) 0 False demo_cache = Some (Inr (l, Some n, s))"
    "inserted demo_cache T (None, None) (units (aligned_key demo_cache (demo_key [1, 2, 3, 4, 5])))
       (take (key_len (aligned_key demo_cache (demo_key [1, 2, 3, 4, 5]))) [10, 11, 12, 13, 14]) l n s T' w"
    using insert_spec [OF T(1) demo_ready(1,2,3), of 0 False] unfolding demo_key_ready(2) by blast
  have w: "longest_of no_contents (None, None) [Tok 1, Tok 2, Tok 3, Tok 4] w" "length w = l"
    and t: "tree_ok s T'" "books s T' []" "\<not> rc_disable s" "n \<in> dom T'"
    using i(2) T demo_ready(1) unfolding inserted_def demo_key_ready by (auto simp: same_config_def node_at_def)
  have "l = 0" using w by (auto simp: longest_of_def no_contents_def)
  then show ?thesis using i(1) lock_counts_are_holders [OF t] by blast
qed

end
