(* ===== verification/KvAllocator.thy ===== *)
theory KvAllocator
  imports Triton
begin

text \<open>
  The allocators of KV-cache slots in \<^verbatim>\<open>src/docker/sgl-src/python/sglang/srt/mem_cache/allocator/\<close>
  (\<^verbatim>\<open>base.py\<close>, \<^verbatim>\<open>token.py\<close>, \<^verbatim>\<open>paged.py\<close>) and the two Triton kernels of
  \<^verbatim>\<open>src/docker/sgl-src/python/sglang/kernels/ops/memory/allocator.py\<close> that place new tokens on pages.

  A slot is an index into the KV cache; page \<open>p\<close> holds the slots from \<open>p * page_size\<close> on, and page 0
  is the padding page.  \<open>paged_row\<close> is the layout of a request's row of slots: position \<open>i\<close> lies on the
  row's page \<open>i div page_size\<close>.  The checks of the debug mode are left out.
\<close>

section \<open>The base class\<close>

record allocator =
  al_size :: nat
  al_page_size :: nat
  al_num_pages :: nat
  al_need_sort :: bool
  al_free_pages :: "int list"
  al_release_pages :: "int list"
  al_free_group :: "int list list option"
  al_free_page_reps_group :: "int list list"

definition available_size :: "allocator \<Rightarrow> nat" where
  "available_size al = (length (al_free_pages al) + length (al_release_pages al)) * al_page_size al"

definition merge_and_sort_free :: "allocator \<Rightarrow> allocator" where
  "merge_and_sort_free al =
     (if al_release_pages al \<noteq> []
      then al\<lparr>al_free_pages := sort (al_free_pages al @ al_release_pages al), al_release_pages := []\<rparr>
      else al)"

definition free_group_begin :: "allocator \<Rightarrow> allocator" where
  "free_group_begin al = al\<lparr>al_free_group := Some []\<rparr>"

definition free_group_end :: "(int list \<Rightarrow> allocator \<Rightarrow> allocator) \<Rightarrow> allocator \<Rightarrow> allocator" where
  "free_group_end free al =
     (let al' = al\<lparr>al_free_group := None\<rparr>
      in case al_free_group al of None \<Rightarrow> al' | Some [] \<Rightarrow> al' | Some pending \<Rightarrow> free (concat pending) al')"

text \<open>
  \<^verbatim>\<open>free_segments\<close> over the class's \<^verbatim>\<open>free_segment\<close>; \<open>prev_end\<close> is the end of the previous segment
  that was not empty.
\<close>

fun free_segments_from ::
  "nat \<Rightarrow> (int list \<Rightarrow> nat \<Rightarrow> 'a \<Rightarrow> 'a) \<Rightarrow> nat option \<Rightarrow> (int list \<times> nat) list \<Rightarrow> 'a \<Rightarrow> 'a" where
  "free_segments_from ps free_segment prev_end [] al = al"
| "free_segments_from ps free_segment prev_end ((idx, start_pos) # segs) al =
     (if idx = [] then free_segments_from ps free_segment prev_end segs al
      else
        let seg_end = start_pos + length idx;
            (idx', start') =
              (case prev_end of
                 Some e \<Rightarrow> if start_pos div ps = (e - 1) div ps
                          then let boundary = (start_pos div ps + 1) * ps in (drop (boundary - start_pos) idx, boundary)
                          else (idx, start_pos)
               | None \<Rightarrow> (idx, start_pos))
        in free_segments_from ps free_segment (Some seg_end) segs (free_segment idx' start' al))"

definition free_segments :: "nat \<Rightarrow> (int list \<Rightarrow> nat \<Rightarrow> 'a \<Rightarrow> 'a) \<Rightarrow> (int list \<times> nat) list \<Rightarrow> 'a \<Rightarrow> 'a" where
  "free_segments ps free_segment segs al = free_segments_from ps free_segment None segs al"

section \<open>One slot per page: TokenToKVPoolAllocator\<close>

definition token_clear :: "allocator \<Rightarrow> allocator" where
  "token_clear al = al\<lparr>al_free_pages := map int [1..<al_size al + 1], al_free_group := None, al_release_pages := []\<rparr>"

definition token_init :: "nat \<Rightarrow> bool \<Rightarrow> allocator" where
  "token_init n need_sort = token_clear
     \<lparr>al_size = n, al_page_size = 1, al_num_pages = n, al_need_sort = need_sort, al_free_pages = [], al_release_pages = [],
      al_free_group = None, al_free_page_reps_group = []\<rparr>"

definition token_alloc :: "nat \<Rightarrow> allocator \<Rightarrow> int list option \<times> allocator" where
  "token_alloc need_size al =
     (let al1 = (if al_need_sort al \<and> need_size > length (al_free_pages al) then merge_and_sort_free al else al)
      in if need_size > length (al_free_pages al1) then (None, al1)
         else (Some (take need_size (al_free_pages al1)), al1\<lparr>al_free_pages := drop need_size (al_free_pages al1)\<rparr>))"

definition token_free :: "int list \<Rightarrow> allocator \<Rightarrow> allocator" where
  "token_free idx al =
     (if idx = [] then al
      else case al_free_group al of
        None \<Rightarrow> if al_need_sort al then al\<lparr>al_release_pages := al_release_pages al @ idx\<rparr>
                else al\<lparr>al_free_pages := al_free_pages al @ idx\<rparr>
      | Some grp \<Rightarrow> al\<lparr>al_free_group := Some (grp @ [idx])\<rparr>)"

text \<open>The base class's \<^verbatim>\<open>free_segment\<close> ignores the position.\<close>

definition token_free_segment :: "int list \<Rightarrow> nat \<Rightarrow> allocator \<Rightarrow> allocator" where
  "token_free_segment idx start_pos al = token_free idx al"

section \<open>Pages: PagedTokenToKVPoolAllocator\<close>

definition paged_clear :: "allocator \<Rightarrow> allocator" where
  "paged_clear al = al\<lparr>al_free_pages := map int [1..<al_num_pages al + 1], al_free_group := None,
     al_free_page_reps_group := [], al_release_pages := []\<rparr>"

definition paged_init :: "nat \<Rightarrow> nat \<Rightarrow> bool \<Rightarrow> allocator" where
  "paged_init n ps need_sort = paged_clear
     \<lparr>al_size = n, al_page_size = ps, al_num_pages = n div ps, al_need_sort = need_sort, al_free_pages = [],
      al_release_pages = [], al_free_group = None, al_free_page_reps_group = []\<rparr>"

definition page_slots :: "nat \<Rightarrow> int \<Rightarrow> int list" where
  "page_slots ps page = map (\<lambda>off. page * int ps + int off) [0..<ps]"

definition paged_alloc :: "nat \<Rightarrow> allocator \<Rightarrow> int list option \<times> allocator" where
  "paged_alloc need_size al =
     (let num_pages = need_size div al_page_size al;
          al1 = (if al_need_sort al \<and> num_pages > length (al_free_pages al) then merge_and_sort_free al else al)
      in if num_pages > length (al_free_pages al1) then (None, al1)
         else (Some (concat (map (page_slots (al_page_size al)) (take num_pages (al_free_pages al1)))),
               al1\<lparr>al_free_pages := drop num_pages (al_free_pages al1)\<rparr>))"

definition release_page_ids :: "int list \<Rightarrow> allocator \<Rightarrow> allocator" where
  "release_page_ids ids al =
     (if al_need_sort al then al\<lparr>al_release_pages := ids @ al_release_pages al\<rparr>
      else al\<lparr>al_free_pages := ids @ al_free_pages al\<rparr>)"

text \<open>\<^verbatim>\<open>torch.unique\<close> sorts.\<close>

definition paged_free :: "int list \<Rightarrow> allocator \<Rightarrow> allocator" where
  "paged_free idx al =
     (if idx = [] then al
      else case al_free_group al of
        None \<Rightarrow> release_page_ids (sort (remdups (map (\<lambda>i. i div int (al_page_size al)) idx))) al
      | Some grp \<Rightarrow> al\<lparr>al_free_group := Some (grp @ [idx])\<rparr>)"

text \<open>\<^verbatim>\<open>xs[::n]\<close>.\<close>

fun every :: "nat \<Rightarrow> 'a list \<Rightarrow> 'a list" where
  "every n [] = []"
| "every n (x # xs) = x # every n (drop (n - 1) xs)"

definition page_reps :: "nat \<Rightarrow> nat \<Rightarrow> int list \<Rightarrow> int list list" where
  "page_reps ps start_pos idx =
     (let offset = start_pos mod ps
      in if offset = 0 then [every ps idx] else [take 1 idx, every ps (drop (ps - offset) idx)])"

definition paged_free_segment :: "int list \<Rightarrow> nat \<Rightarrow> allocator \<Rightarrow> allocator" where
  "paged_free_segment idx start_pos al =
     (if idx = [] then al
      else
        let pieces = page_reps (al_page_size al) start_pos idx
        in case al_free_group al of
             None \<Rightarrow> release_page_ids (concat (map (map (\<lambda>i. i div int (al_page_size al))) pieces)) al
           | Some _ \<Rightarrow> al\<lparr>al_free_page_reps_group := al_free_page_reps_group al @ pieces\<rparr>)"

definition paged_free_group_begin :: "allocator \<Rightarrow> allocator" where
  "paged_free_group_begin al = (free_group_begin al)\<lparr>al_free_page_reps_group := []\<rparr>"

definition paged_free_group_end :: "allocator \<Rightarrow> allocator" where
  "paged_free_group_end al =
     (let al1 = free_group_end paged_free al
      in if al_free_page_reps_group al1 = [] then al1
         else (release_page_ids (map (\<lambda>i. i div int (al_page_size al1)) (concat (al_free_page_reps_group al1))) al1)
                \<lparr>al_free_page_reps_group := []\<rparr>)"

text \<open>\<^verbatim>\<open>get_num_new_pages\<close> of \<^verbatim>\<open>utils/common.py\<close>, for an extension and for a decode step.\<close>

definition new_pages :: "nat \<Rightarrow> nat \<Rightarrow> nat \<Rightarrow> nat" where
  "new_pages ps pre_len seq_len = (seq_len + ps - 1) div ps - (pre_len + ps - 1) div ps"

definition get_num_new_pages :: "nat \<Rightarrow> nat list \<Rightarrow> nat list \<Rightarrow> nat" where
  "get_num_new_pages ps pre_lens seq_lens = sum_list (map2 (new_pages ps) pre_lens seq_lens)"

definition get_num_new_pages_decode :: "nat \<Rightarrow> nat list \<Rightarrow> nat" where
  "get_num_new_pages_decode ps seq_lens = length (filter (\<lambda>n. n mod ps = 1) seq_lens)"

section \<open>The kernels\<close>

text \<open>The arguments of a launch: lengths before and after, the last slot of each row, the free pages.\<close>

record extend_args =
  xa_pre_lens :: "nat list"
  xa_seq_lens :: "nat list"
  xa_last_loc :: "int list"
  xa_free_pages :: "int list"
  xa_page_size :: nat

definition extend_lens :: "extend_args \<Rightarrow> nat list" where
  "extend_lens a = map2 (\<lambda>n m. n - m) (xa_seq_lens a) (xa_pre_lens a)"

definition page_counts :: "extend_args \<Rightarrow> nat list" where
  "page_counts a = map2 (new_pages (xa_page_size a)) (xa_pre_lens a) (xa_seq_lens a)"

text \<open>
  One program of \<^verbatim>\<open>alloc_extend_kernel\<close>.  Its sums over the loaded lengths run over the programs up to
  its own, so they are prefix sums; the second part is a blocked loop of width 4096.
\<close>

definition alloc_extend_kernel :: "extend_args \<Rightarrow> nat \<Rightarrow> int writes" where
  "alloc_extend_kernel a pid =
     (let ps = xa_page_size a; seq_len = xa_seq_lens a ! pid; pre_len = xa_pre_lens a ! pid;
          extend_len = seq_len - pre_len;
          output_start_loc = sum_list (take (pid + 1) (extend_lens a)) - extend_len;
          self_pages = (seq_len + ps - 1) div ps - (pre_len + ps - 1) div ps;
          new_page_start_loc = sum_list (take (pid + 1) (page_counts a)) - self_pages;
          num_part1 = min seq_len ((pre_len + ps - 1) div ps * ps) - pre_len;
          part1 = map (\<lambda>off. (output_start_loc + off, xa_last_loc a ! pid + 1 + int off))
                    (filter (\<lambda>off. off < num_part1) [0..<ps])
      in if pre_len + num_part1 = seq_len then part1
         else
           let num_part2 = seq_len div ps * ps - (pre_len + ps - 1) div ps * ps;
               part2 = map (\<lambda>off. (output_start_loc + num_part1 + off,
                                   xa_free_pages a ! (new_page_start_loc + off div ps) * int ps + int (off mod ps)))
                         (filter (\<lambda>off. off < num_part2) (block_offsets num_part2 4096))
           in if pre_len + num_part1 + num_part2 = seq_len then part1 @ part2
              else
                let num_part3 = seq_len - seq_len div ps * ps;
                    start_loc = xa_free_pages a ! (new_page_start_loc + self_pages - 1);
                    part3 = map (\<lambda>off. (output_start_loc + num_part1 + num_part2 + off, start_loc * int ps + int off))
                              (filter (\<lambda>off. off < num_part3) [0..<ps])
                in part1 @ part2 @ part3)"

text \<open>The assignment of a slice, as writes; and one iteration of the loop of \<^verbatim>\<open>alloc_extend_naive\<close>.\<close>

definition slice_writes :: "nat \<Rightarrow> int list \<Rightarrow> int writes" where
  "slice_writes start vals = zip [start..<start + length vals] vals"

definition alloc_extend_naive :: "extend_args \<Rightarrow> nat \<Rightarrow> int writes" where
  "alloc_extend_naive a i =
     (let ps = xa_page_size a; seq_len = xa_seq_lens a ! i; pre_len = xa_pre_lens a ! i;
          end_pos = sum_list (take (i + 1) (extend_lens a)); start_pos = end_pos - extend_lens a ! i;
          num_new = page_counts a ! i; num_full = seq_len div ps - (pre_len + ps - 1) div ps;
          need_page = num_new - num_full;
          end_new = sum_list (take (i + 1) (page_counts a)); start_new = end_new - num_new;
          num1 = min seq_len ((pre_len + ps - 1) div ps * ps) - pre_len;
          part1 = (if num1 \<noteq> 0 then slice_writes start_pos (map (\<lambda>off. xa_last_loc a ! i + 1 + int off) [0..<num1]) else [])
      in if pre_len + num1 = seq_len then part1
         else
           let num2 = (seq_len div ps - (pre_len + ps - 1) div ps) * ps;
               pages = pyslice start_new (end_new - need_page) (xa_free_pages a);
               part2 = (if num2 \<noteq> 0 then slice_writes (start_pos + num1) (concat (map (page_slots ps) pages)) else [])
           in if pre_len + num1 + num2 = seq_len then part1 @ part2
              else
                let num3 = seq_len - seq_len div ps * ps;
                    part3 = (if num3 \<noteq> 0
                             then slice_writes (end_pos - num3)
                                    (map (\<lambda>off. xa_free_pages a ! (end_new - 1) * int ps + int off) [0..<num3])
                             else [])
                in part1 @ part2 @ part3)"

text \<open>One program of \<^verbatim>\<open>alloc_decode_kernel\<close>: the rows are one token longer than before.\<close>

definition alloc_decode_kernel :: "nat list \<Rightarrow> int list \<Rightarrow> int list \<Rightarrow> nat \<Rightarrow> nat \<Rightarrow> int writes" where
  "alloc_decode_kernel seq_lens last_loc free_pages ps pid =
     (let seq_len = seq_lens ! pid; pre_len = seq_len - 1;
          self_pages = (seq_len + ps - 1) div ps - (pre_len + ps - 1) div ps;
          new_page_start_loc = sum_list (take (pid + 1) (map (\<lambda>n. new_pages ps (n - 1) n) seq_lens)) - self_pages
      in if self_pages = 0 then [(pid, last_loc ! pid + 1)]
         else [(pid, free_pages ! new_page_start_loc * int ps)])"

text \<open>
  \<^verbatim>\<open>alloc_extend\<close> and \<^verbatim>\<open>alloc_decode\<close>.  \<open>raw\<close> is what \<^verbatim>\<open>torch.empty\<close> leaves in the output; the kernel
  runs before the check that there are enough pages.
\<close>

definition alloc_extend ::
  "int list \<Rightarrow> nat list \<Rightarrow> nat list \<Rightarrow> int list \<Rightarrow> nat \<Rightarrow> allocator \<Rightarrow> int list option \<times> allocator" where
  "alloc_extend raw pre_lens seq_lens last_loc extend_num_tokens al =
     (let ps = al_page_size al; bs = length pre_lens;
          al1 = (if al_need_sort al \<and> extend_num_tokens div ps + bs + 1 > length (al_free_pages al)
                 then merge_and_sort_free al else al);
          a = \<lparr>xa_pre_lens = pre_lens, xa_seq_lens = seq_lens, xa_last_loc = last_loc,
               xa_free_pages = al_free_pages al1, xa_page_size = ps\<rparr>;
          out = launch [0..<bs] (alloc_extend_kernel a) raw;
          num_new_pages = get_num_new_pages ps pre_lens seq_lens
      in if num_new_pages > length (al_free_pages al1) then (None, al1)
         else (Some out, al1\<lparr>al_free_pages := drop num_new_pages (al_free_pages al1)\<rparr>))"

definition alloc_decode :: "int list \<Rightarrow> nat list \<Rightarrow> int list \<Rightarrow> allocator \<Rightarrow> int list option \<times> allocator" where
  "alloc_decode raw seq_lens last_loc al =
     (let ps = al_page_size al; bs = length seq_lens;
          al1 = (if al_need_sort al \<and> bs > length (al_free_pages al) then merge_and_sort_free al else al);
          out = launch [0..<bs] (alloc_decode_kernel seq_lens last_loc (al_free_pages al1) ps) raw;
          num_new_pages = get_num_new_pages_decode ps seq_lens
      in if num_new_pages > length (al_free_pages al1) then (None, al1)
         else (Some out, al1\<lparr>al_free_pages := drop num_new_pages (al_free_pages al1)\<rparr>))"

section \<open>Rows of pages\<close>

text \<open>The row of \<open>n\<close> slots over a list of pages.\<close>

definition paged_row :: "nat \<Rightarrow> int list \<Rightarrow> nat \<Rightarrow> int list" where
  "paged_row ps pages n = map (\<lambda>i. pages ! (i div ps) * int ps + int (i mod ps)) [0..<n]"

lemma length_paged_row [simp]: "length (paged_row ps pages n) = n"
  by (simp add: paged_row_def)

lemma nth_paged_row: "i < n \<Longrightarrow> paged_row ps pages n ! i = pages ! (i div ps) * int ps + int (i mod ps)"
  by (simp add: paged_row_def)

lemma paged_row_div: "0 < ps \<Longrightarrow> i < n \<Longrightarrow> paged_row ps pages n ! i div int ps = pages ! (i div ps)"
  by (simp add: nth_paged_row div_add1_eq flip: zdiv_int)

text \<open>The value the extension gives to position \<open>p\<close> of row \<open>i\<close>.\<close>

definition extend_slot :: "extend_args \<Rightarrow> nat \<Rightarrow> nat \<Rightarrow> int" where
  "extend_slot a i p =
     (let ps = xa_page_size a; pre = xa_pre_lens a ! i; b = (pre + ps - 1) div ps
      in if p < b * ps then xa_last_loc a ! i + 1 + int (p - pre)
         else xa_free_pages a ! (sum_list (take i (page_counts a)) + (p div ps - b)) * int ps + int (p mod ps))"

definition extend_ok :: "extend_args \<Rightarrow> bool" where
  "extend_ok a \<longleftrightarrow> 0 < xa_page_size a \<and> length (xa_seq_lens a) = length (xa_pre_lens a) \<and>
     (\<forall>i < length (xa_pre_lens a). xa_pre_lens a ! i \<le> xa_seq_lens a ! i)"

lemma extend_sums:
  assumes "extend_ok a" "i < length (xa_pre_lens a)"
  shows "extend_lens a ! i = xa_seq_lens a ! i - xa_pre_lens a ! i"
    "page_counts a ! i = new_pages (xa_page_size a) (xa_pre_lens a ! i) (xa_seq_lens a ! i)"
    "sum_list (take (i + 1) (extend_lens a)) = sum_list (take i (extend_lens a)) + extend_lens a ! i"
    "sum_list (take (i + 1) (page_counts a)) = sum_list (take i (page_counts a)) + page_counts a ! i"
  using assms by (simp_all add: extend_ok_def extend_lens_def page_counts_def take_Suc_conv_app_nth)

lemma upt_shift: "map (\<lambda>off. g (k + off)) [0..<n] = map g [k..<k + n]"
  by (rule nth_equalityI) auto

lemma upt_parts: "a \<le> b \<Longrightarrow> b \<le> c \<Longrightarrow> [a..<b] @ [b..<c] = [a..<c :: nat]"
  by (metis le_add_diff_inverse upt_add_eq_append)

lemma ceil_bounds:
  assumes "0 < (ps :: nat)"
  shows "n \<le> (n + ps - 1) div ps * ps" "(n + ps - 1) div ps * ps < n + ps"
proof -
  have "n + ps - 1 = (n + ps - 1) div ps * ps + (n + ps - 1) mod ps" by simp
  moreover have "(n + ps - 1) mod ps < ps" using assms by simp
  ultimately show "n \<le> (n + ps - 1) div ps * ps" "(n + ps - 1) div ps * ps < n + ps" using assms by linarith+
qed

lemma ceil_exact: "0 < (ps :: nat) \<Longrightarrow> (e * ps + ps - 1) div ps = e"
  by (rule div_nat_eqI) (simp_all add: algebra_simps)

lemma ceil_split:
  assumes "0 < (ps :: nat)"
  shows "(n + ps - 1) div ps = n div ps + (if n mod ps = 0 then 0 else 1)"
proof -
  define q r where "q = n div ps" and "r = n mod ps"
  have n: "n = q * ps + r" and r: "r < ps" using assms by (simp_all add: q_def r_def)
  have "(n + ps - 1) div ps = q + (if r = 0 then 0 else 1)"
    by (rule div_nat_eqI) (use n r in \<open>auto simp: algebra_simps\<close>)
  then show ?thesis by (simp add: q_def r_def)
qed

text \<open>Every program stores the values of its own row's new positions, in order.\<close>

lemma extend_kernel_writes:
  assumes ok: "extend_ok a" and i: "i < length (xa_pre_lens a)"
  shows "alloc_extend_kernel a i = map (\<lambda>off. (sum_list (take i (extend_lens a)) + off, extend_slot a i (xa_pre_lens a ! i + off)))
    [0..<extend_lens a ! i]"
proof -
  define ps where "ps = xa_page_size a"
  define pre where "pre = xa_pre_lens a ! i"
  define seq where "seq = xa_seq_lens a ! i"
  define b where "b = (pre + ps - 1) div ps"
  define e where "e = seq div ps"
  define st where "st = sum_list (take i (extend_lens a))"
  define np where "np = sum_list (take i (page_counts a))"
  let ?f = "\<lambda>off. (st + off, extend_slot a i (pre + off))"
  have pos: "0 < ps" and le: "pre \<le> seq" using ok i by (simp_all add: extend_ok_def ps_def pre_def seq_def)
  have ext: "extend_lens a ! i = seq - pre" using extend_sums(1) [OF ok i] by (simp add: seq_def pre_def)
  have o1: "sum_list (take (i + 1) (extend_lens a)) - (seq - pre) = st"
    using extend_sums(3) [OF ok i] ext by (simp add: st_def)
  have pc: "page_counts a ! i = (seq + ps - 1) div ps - b"
    using extend_sums(2) [OF ok i] by (simp add: new_pages_def b_def ps_def pre_def seq_def)
  have o2: "sum_list (take (i + 1) (page_counts a)) - ((seq + ps - 1) div ps - b) = np"
    using extend_sums(4) [OF ok i] pc by (simp add: np_def)
  have bb: "pre \<le> b * ps" "b * ps < pre + ps" using ceil_bounds [OF pos, of pre] by (simp_all add: b_def)
  have slot1: "extend_slot a i (pre + off) = xa_last_loc a ! i + 1 + int off" if "pre + off < b * ps" for off
    using that by (simp add: extend_slot_def Let_def ps_def pre_def b_def)
  have slot2: "extend_slot a i p = xa_free_pages a ! (np + (p div ps - b)) * int ps + int (p mod ps)" if "b * ps \<le> p" for p
    using that by (simp add: extend_slot_def Let_def ps_def pre_def b_def np_def)
  let ?n1 = "min seq (b * ps) - pre"
  have part1: "map (\<lambda>off. (st + off, xa_last_loc a ! i + 1 + int off)) (filter (\<lambda>off. off < ?n1) [0..<ps]) = map ?f [0..<?n1]"
  proof -
    have "filter (\<lambda>off. off < ?n1) [0..<ps] = [0..<?n1]" using bb by (simp add: filter_less_upt)
    then show ?thesis using slot1 by auto
  qed
  show ?thesis
  proof (cases "pre + ?n1 = seq")
    case True
    then have "?n1 = seq - pre" by simp
    then show ?thesis
      unfolding alloc_extend_kernel_def Let_def ext
      using True part1 by (simp only: o1 flip: ps_def pre_def seq_def b_def st_def) simp
  next
    case False
    then have sb: "b * ps < seq" using le bb by linarith
    then have n1: "?n1 = b * ps - pre" by simp
    have be: "b \<le> e" using sb pos by (simp add: e_def less_eq_div_iff_mult_less_eq)
    then have bep: "b * ps \<le> e * ps" by (rule mult_le_mono1)
    let ?n2 = "e * ps - b * ps"
    have es: "e * ps \<le> seq" "seq < e * ps + ps" using pos
      by (simp_all add: e_def) (metis add.commute dividend_less_div_times)
    have part2: "map (\<lambda>off. (st + ?n1 + off, xa_free_pages a ! (np + off div ps) * int ps + int (off mod ps)))
        (filter (\<lambda>off. off < ?n2) (block_offsets ?n2 4096)) = map ?f [?n1..<?n1 + ?n2]"
    proof -
      have v: "xa_free_pages a ! (np + off div ps) * int ps + int (off mod ps) = extend_slot a i (pre + (?n1 + off))" for off
      proof -
        have p: "pre + (?n1 + off) = off + b * ps" using n1 bb by linarith
        show ?thesis unfolding p using slot2 [of "off + b * ps"] pos by simp
      qed
      show ?thesis unfolding upt_shift [of ?f, symmetric] by (simp add: v add.assoc)
    qed
    show ?thesis
    proof (cases "pre + ?n1 + ?n2 = seq")
      case True
      then have l: "?n1 + ?n2 = seq - pre" by simp
      have "alloc_extend_kernel a i = map ?f [0..<?n1] @ map ?f [?n1..<?n1 + ?n2]"
        unfolding alloc_extend_kernel_def Let_def
        using True False part1 part2 by (simp only: o1 o2 if_False if_True simp_thms flip: ps_def pre_def seq_def b_def e_def)
      then show ?thesis unfolding ext l by (simp flip: map_append st_def pre_def add: upt_parts)
    next
      case F2: False
      then have ne: "e * ps < seq" using n1 bep es(1) bb(1) le by linarith
      then have "seq mod ps \<noteq> 0" using div_mult_mod_eq [of seq ps] unfolding e_def by linarith
      then have self: "(seq + ps - 1) div ps = e + 1" using ceil_split [OF pos, of seq] by (simp add: e_def)
      let ?n3 = "seq - e * ps"
      have part3: "map (\<lambda>off. (st + ?n1 + ?n2 + off, xa_free_pages a ! (np + (e + 1 - b) - 1) * int ps + int off))
          (filter (\<lambda>off. off < ?n3) [0..<ps]) = map ?f [?n1 + ?n2..<?n1 + ?n2 + ?n3]"
      proof -
        have fl: "filter (\<lambda>off. off < ?n3) [0..<ps] = [0..<?n3]" using es by (simp add: filter_less_upt)
        have v: "xa_free_pages a ! (np + (e + 1 - b) - 1) * int ps + int off = extend_slot a i (pre + (?n1 + ?n2 + off))"
          if "off < ?n3" for off
        proof -
          have p: "pre + (?n1 + ?n2 + off) = off + e * ps" using n1 bb bep by linarith
          have "off < ps" using that es by linarith
          moreover have "b * ps \<le> off + e * ps" using be by (simp add: mult_le_mono1 trans_le_add2)
          ultimately show ?thesis unfolding p using slot2 [of "off + e * ps"] pos be by simp
        qed
        show ?thesis unfolding upt_shift [of ?f, symmetric] fl using v by (auto simp: add.assoc)
      qed
      have l: "?n1 + ?n2 + ?n3 = seq - pre" using n1 bb bep es sb by linarith
      have "alloc_extend_kernel a i = map ?f [0..<?n1] @ map ?f [?n1..<?n1 + ?n2] @ map ?f [?n1 + ?n2..<?n1 + ?n2 + ?n3]"
        unfolding alloc_extend_kernel_def Let_def
        using False F2 part1 part2 part3 self by (simp only: o1 o2 [unfolded self] if_False flip: ps_def pre_def seq_def b_def e_def)
      then show ?thesis unfolding ext l [symmetric] by (simp flip: map_append st_def pre_def add: upt_parts)
    qed
  qed
qed

text \<open>A launch whose programs fill consecutive segments leaves the segments' values one after another.\<close>

lemma apply_writes_block:
  "k + n \<le> length buf \<Longrightarrow> apply_writes buf (map (\<lambda>off. (k + off, f off)) [0..<n]) = set_slice k (map f [0..<n]) buf"
proof (induction n)
  case (Suc n)
  have "apply_writes buf (map (\<lambda>off. (k + off, f off)) [0..<Suc n]) = (set_slice k (map f [0..<n]) buf)[k + n := f n]"
    using Suc by simp
  also have "\<dots> = set_slice k (map f [0..<Suc n]) buf"
    using Suc.prems by (intro nth_equalityI) (auto simp: nth_set_slice nth_list_update nth_append less_Suc_eq)
  finally show ?case .
qed (simp add: set_slice_def)

lemma launch_consecutive:
  assumes "length buf = sum_list lens"
  shows "launch [0..<length lens] (\<lambda>i. map (\<lambda>off. (sum_list (take i lens) + off, val i off)) [0..<lens ! i]) buf
    = concat (map (\<lambda>i. map (val i) [0..<lens ! i]) [0..<length lens])"
proof -
  let ?prog = "\<lambda>i. map (\<lambda>off. (sum_list (take i lens) + off, val i off)) [0..<lens ! i]"
  let ?out = "\<lambda>m. concat (map (\<lambda>i. map (val i) [0..<lens ! i]) [0..<m])"
  have len: "length (?out m) = sum_list (take m lens)" if "m \<le> length lens" for m
    using that by (induction m) (simp_all add: take_Suc_conv_app_nth)
  have "launch [0..<m] ?prog buf = ?out m @ drop (sum_list (take m lens)) buf" if "m \<le> length lens" for m
    using that
  proof (induction m)
    case (Suc m)
    then have m: "m < length lens" "m \<le> length lens" by auto
    have s: "sum_list (take m lens) + lens ! m \<le> length buf"
      using cu_le_sum [of "Suc m" lens] Suc.prems assms by (simp add: nth_cu take_Suc_conv_app_nth)
    have "launch [0..<Suc m] ?prog buf = apply_writes (launch [0..<m] ?prog buf) (?prog m)"
      by (simp add: launch_def)
    also have "\<dots> = set_slice (sum_list (take m lens)) (map (val m) [0..<lens ! m]) (?out m @ drop (sum_list (take m lens)) buf)"
      using s Suc.IH [OF m(2)] len [OF m(2)] by (simp add: apply_writes_block)
    also have "\<dots> = ?out (Suc m) @ drop (sum_list (take (Suc m) lens)) buf"
      using len [OF m(2)] m(1) by (simp add: set_slice_def take_Suc_conv_app_nth add.commute)
    finally show ?case .
  qed (simp add: launch_def)
  from this [of "length lens"] show ?thesis using assms by simp
qed

text \<open>The new positions continue the row on its own last page and then on the new pages.\<close>

lemma extend_slot_row:
  assumes ok: "extend_ok a" and i: "i < length (xa_pre_lens a)"
    and pages: "length pages = (xa_pre_lens a ! i + xa_page_size a - 1) div xa_page_size a"
    and last_loc: "xa_pre_lens a ! i > 0 \<Longrightarrow>
      xa_last_loc a ! i = paged_row (xa_page_size a) pages (xa_pre_lens a ! i) ! (xa_pre_lens a ! i - 1)"
    and enough: "sum_list (page_counts a) \<le> length (xa_free_pages a)"
    and p: "xa_pre_lens a ! i \<le> p" "p < xa_seq_lens a ! i"
  defines "new \<equiv> pyslice (sum_list (take i (page_counts a))) (sum_list (take (i + 1) (page_counts a))) (xa_free_pages a)"
  shows "extend_slot a i p = (pages @ new) ! (p div xa_page_size a) * int (xa_page_size a) + int (p mod xa_page_size a)"
proof -
  define ps where "ps = xa_page_size a"
  define pre where "pre = xa_pre_lens a ! i"
  define b where "b = (pre + ps - 1) div ps"
  have pos: "0 < ps" using ok by (simp add: extend_ok_def ps_def)
  have bb: "pre \<le> b * ps" "b * ps < pre + ps" using ceil_bounds [OF pos, of pre] by (simp_all add: b_def)
  have lb: "length pages = b" using pages by (simp add: b_def pre_def ps_def)
  have slot: "extend_slot a i p = (if p < b * ps then xa_last_loc a ! i + 1 + int (p - pre)
      else xa_free_pages a ! (sum_list (take i (page_counts a)) + (p div ps - b)) * int ps + int (p mod ps))"
    by (simp add: extend_slot_def Let_def b_def ps_def pre_def)
  show ?thesis
  proof (cases "p < b * ps")
    case True
    have pre0: "pre > 0" using True bb by (cases "pre = 0") auto
    have q: "(pre - 1) div ps = b - 1" "p div ps = b - 1"
      using bb True p(1) pre0 by (auto intro!: div_nat_eqI simp: pre_def algebra_simps)
    have "(pre - 1) div ps * ps + (pre - 1) mod ps = pre - 1" "p div ps * ps + p mod ps = p" by simp_all
    then have "int (p mod ps) = int ((pre - 1) mod ps) + 1 + int (p - pre)"
      unfolding q using p(1) pre0 by (simp add: pre_def)
    moreover have "xa_last_loc a ! i = pages ! (b - 1) * int ps + int ((pre - 1) mod ps)"
      using last_loc pre0 by (simp add: nth_paged_row q [unfolded One_nat_def] flip: ps_def pre_def)
    moreover have "b - 1 < length pages" using lb True by (cases b) auto
    ultimately show ?thesis
      using True by (simp add: slot nth_append q [unfolded One_nat_def] flip: ps_def)
  next
    case False
    have len: "length (page_counts a) = length (xa_pre_lens a)" using ok by (simp add: extend_ok_def page_counts_def)
    have bp: "b \<le> p div ps" using False pos by (simp add: less_eq_div_iff_mult_less_eq)
    have "p div ps < (xa_seq_lens a ! i + ps - 1) div ps"
      using p(2) pos ceil_bounds(1) [OF pos, of "xa_seq_lens a ! i"] by (simp add: div_less_iff_less_mult)
    then have k: "p div ps - b < page_counts a ! i"
      using extend_sums(2) [OF ok i] bp unfolding new_pages_def ps_def [symmetric] pre_def [symmetric] b_def [symmetric] by linarith
    have t: "sum_list (take (i + 1) (page_counts a)) \<le> length (xa_free_pages a)"
      using sum_take_mono [of "i + 1" "length (page_counts a)" "page_counts a"] enough i len by simp
    have "new ! (p div ps - b) = xa_free_pages a ! (sum_list (take i (page_counts a)) + (p div ps - b))"
      unfolding new_def using k t extend_sums(4) [OF ok i] by (intro nth_slice) linarith+
    then show ?thesis
      using False bp lb by (simp add: slot nth_append flip: ps_def)
  qed
qed

section \<open>Extending rows\<close>

text \<open>Row \<open>n\<close> slots long, on these pages, with this last slot.\<close>

definition row_on :: "nat \<Rightarrow> int list \<Rightarrow> nat \<Rightarrow> int \<Rightarrow> bool" where
  "row_on ps pages n last_slot \<longleftrightarrow>
     length pages = (n + ps - 1) div ps \<and> (n > 0 \<longrightarrow> last_slot = paged_row ps pages n ! (n - 1))"

lemma take_paged_row: "n \<le> m \<Longrightarrow> length pages = (n + ps - 1) div ps \<Longrightarrow> 0 < ps \<Longrightarrow>
  take n (paged_row ps (pages @ new) m) = paged_row ps pages n"
proof (rule nth_equalityI)
  fix i assume "n \<le> m" "length pages = (n + ps - 1) div ps" "0 < ps"
    "i < length (take n (paged_row ps (pages @ new) m))"
  then have "i < n" "i div ps < length pages" "i < m"
    using ceil_bounds(1) [of ps n] by (auto simp: div_less_iff_less_mult)
  then show "take n (paged_row ps (pages @ new) m) ! i = paged_row ps pages n ! i"
    by (simp add: nth_paged_row nth_append)
qed simp

lemma concat_segments:
  "m \<le> length cs \<Longrightarrow>
   concat (map (\<lambda>i. pyslice (sum_list (take i cs)) (sum_list (take (i + 1) cs)) xs) [0..<m]) = take (sum_list (take m cs)) xs"
proof (induction m)
  case (Suc m)
  have "sum_list (take m cs) \<le> sum_list (take (m + 1) cs)" by (rule sum_take_mono) simp
  from take_pyslice [OF this, of xs] show ?case using Suc by simp
qed simp

lemma mset_take_drop: "mset xs = mset (take n xs) + mset (drop n xs)"
  by (metis append_take_drop_id mset_append)

lemma merge_mset: "mset (al_free_pages (merge_and_sort_free al) @ al_release_pages (merge_and_sort_free al))
    = mset (al_free_pages al @ al_release_pages al)"
  by (simp add: merge_and_sort_free_def)

lemma extend_out:
  assumes ok: "extend_ok a" and raw: "length raw = sum_list (extend_lens a)"
    and enough: "sum_list (page_counts a) \<le> length (xa_free_pages a)"
    and rows: "\<forall>i < length (xa_pre_lens a). row_on (xa_page_size a) (pages i) (xa_pre_lens a ! i) (xa_last_loc a ! i)"
  shows "launch [0..<length (xa_pre_lens a)] (alloc_extend_kernel a) raw
    = concat (map (\<lambda>i. drop (xa_pre_lens a ! i) (paged_row (xa_page_size a)
        (pages i @ pyslice (sum_list (take i (page_counts a))) (sum_list (take (i + 1) (page_counts a))) (xa_free_pages a))
        (xa_seq_lens a ! i))) [0..<length (xa_pre_lens a)])"
proof -
  let ?new = "\<lambda>i. pyslice (sum_list (take i (page_counts a))) (sum_list (take (i + 1) (page_counts a))) (xa_free_pages a)"
  let ?row = "\<lambda>i. paged_row (xa_page_size a) (pages i @ ?new i) (xa_seq_lens a ! i)"
  have len: "length (extend_lens a) = length (xa_pre_lens a)" using ok by (simp add: extend_ok_def extend_lens_def)
  have "launch [0..<length (xa_pre_lens a)] (alloc_extend_kernel a) raw
      = launch [0..<length (xa_pre_lens a)]
          (\<lambda>i. map (\<lambda>off. (sum_list (take i (extend_lens a)) + off, extend_slot a i (xa_pre_lens a ! i + off))) [0..<extend_lens a ! i]) raw"
    unfolding launch_def by (auto simp: extend_kernel_writes [OF ok] intro!: arg_cong [of _ _ "\<lambda>ws. apply_writes raw (concat ws)"])
  also have "\<dots> = concat (map (\<lambda>i. map (\<lambda>off. extend_slot a i (xa_pre_lens a ! i + off)) [0..<extend_lens a ! i]) [0..<length (xa_pre_lens a)])"
    using launch_consecutive [OF raw] len by simp
  also have "\<dots> = concat (map (\<lambda>i. drop (xa_pre_lens a ! i) (?row i)) [0..<length (xa_pre_lens a)])"
  proof (intro arg_cong [of _ _ concat] map_cong refl)
    fix i assume "i \<in> set [0..<length (xa_pre_lens a)]"
    then have i: "i < length (xa_pre_lens a)" by simp
    have r: "length (pages i) = (xa_pre_lens a ! i + xa_page_size a - 1) div xa_page_size a"
      "xa_pre_lens a ! i > 0 \<Longrightarrow> xa_last_loc a ! i = paged_row (xa_page_size a) (pages i) (xa_pre_lens a ! i) ! (xa_pre_lens a ! i - 1)"
      using rows i by (simp_all add: row_on_def)
    show "map (\<lambda>off. extend_slot a i (xa_pre_lens a ! i + off)) [0..<extend_lens a ! i] = drop (xa_pre_lens a ! i) (?row i)"
      using extend_sums(1) [OF ok i]
      by (intro nth_equalityI) (auto simp: nth_paged_row extend_slot_row [OF ok i r enough])
  qed
  finally show ?thesis .
qed

lemma alloc_extend_rows:
  fixes al :: allocator
  defines "ps \<equiv> al_page_size al"
  assumes pos: "0 < ps" and lens: "length seq = length pre" "\<forall>i < length pre. pre ! i \<le> seq ! i"
    and raw: "length raw = sum_list (map2 (\<lambda>n m. n - m) seq pre)"
    and rows: "\<forall>i < length pre. row_on ps (pages i) (pre ! i) (last_loc ! i)"
    and alloc: "alloc_extend raw pre seq last_loc n al = (Some out, al')"
  shows "\<exists>new. length new = length pre \<and> (\<forall>i < length pre. length (new ! i) = new_pages ps (pre ! i) (seq ! i))
    \<and> mset (al_free_pages al @ al_release_pages al) = mset (concat new) + mset (al_free_pages al' @ al_release_pages al')
    \<and> out = concat (map (\<lambda>i. drop (pre ! i) (paged_row ps (pages i @ new ! i) (seq ! i))) [0..<length pre])
    \<and> (\<forall>i < length pre. take (pre ! i) (paged_row ps (pages i @ new ! i) (seq ! i)) = paged_row ps (pages i) (pre ! i))"
proof -
  define al1 where "al1 = (if al_need_sort al \<and> n div ps + length pre + 1 > length (al_free_pages al)
      then merge_and_sort_free al else al)"
  define a where "a = \<lparr>xa_pre_lens = pre, xa_seq_lens = seq, xa_last_loc = last_loc, xa_free_pages = al_free_pages al1, xa_page_size = ps\<rparr>"
  have ok: "extend_ok a" using pos lens by (simp add: extend_ok_def a_def)
  have cnt: "sum_list (page_counts a) = get_num_new_pages ps pre seq"
    by (simp add: page_counts_def get_num_new_pages_def a_def)
  have out: "out = launch [0..<length pre] (alloc_extend_kernel a) raw"
    and enough: "sum_list (page_counts a) \<le> length (al_free_pages al1)"
    and al': "al' = al1\<lparr>al_free_pages := drop (sum_list (page_counts a)) (al_free_pages al1)\<rparr>"
    using alloc unfolding cnt alloc_extend_def by (auto simp: Let_def al1_def ps_def a_def split: if_splits)
  define new where "new = map (\<lambda>i. pyslice (sum_list (take i (page_counts a))) (sum_list (take (i + 1) (page_counts a)))
      (al_free_pages al1)) [0..<length pre]"
  have lc: "length (page_counts a) = length pre" using lens by (simp add: page_counts_def a_def)
  have cn: "concat new = take (sum_list (page_counts a)) (al_free_pages al1)"
    using concat_segments [of "length pre" "page_counts a" "al_free_pages al1"] lc by (simp add: new_def)
  have "mset (al_free_pages al @ al_release_pages al) = mset (al_free_pages al1 @ al_release_pages al1)"
    using merge_mset [of al] by (simp add: al1_def)
  also have "\<dots> = mset (concat new) + mset (al_free_pages al' @ al_release_pages al')"
    unfolding cn by (simp add: al' mset_take_drop [of "al_free_pages al1" "sum_list (page_counts a)"])
  finally have m: "mset (al_free_pages al @ al_release_pages al) = mset (concat new) + mset (al_free_pages al' @ al_release_pages al')" .
  have f: "xa_pre_lens a = pre" "xa_seq_lens a = seq" "xa_last_loc a = last_loc" "xa_free_pages a = al_free_pages al1"
    "xa_page_size a = ps" by (simp_all add: a_def)
  have nn: "new ! i = pyslice (sum_list (take i (page_counts a))) (sum_list (take (Suc i) (page_counts a))) (al_free_pages al1)"
    if "i < length pre" for i using that by (simp add: new_def)
  have o: "out = concat (map (\<lambda>i. drop (pre ! i) (paged_row ps (pages i @ new ! i) (seq ! i))) [0..<length pre])"
    unfolding out using extend_out [OF ok, of raw pages] raw rows enough
    by (auto simp: f nn extend_lens_def intro!: arg_cong [of _ _ concat])
  have t: "take (pre ! i) (paged_row ps (pages i @ new ! i) (seq ! i)) = paged_row ps (pages i) (pre ! i)" if "i < length pre" for i
    using that lens(2) rows pos by (intro take_paged_row) (auto simp: row_on_def)
  have c: "length (new ! i) = new_pages ps (pre ! i) (seq ! i)" if i: "i < length pre" for i
  proof -
    have "sum_list (take (Suc i) (page_counts a)) \<le> sum_list (page_counts a)"
      by (metis append_take_drop_id le_add1 sum_list_append)
    moreover have "sum_list (take (Suc i) (page_counts a)) = sum_list (take i (page_counts a)) + page_counts a ! i"
      using i lc by (simp add: take_Suc_conv_app_nth)
    moreover have "page_counts a ! i = new_pages ps (pre ! i) (seq ! i)" using i lens(1) by (simp add: page_counts_def f)
    ultimately show ?thesis using enough unfolding nn [OF i] pyslice_def by simp
  qed
  show ?thesis using m o t c by (intro exI [of _ new]) (simp add: new_def)
qed

lemma div_sum_le: "0 < (ps :: nat) \<Longrightarrow> sum_list (map (\<lambda>x. x div ps) xs) \<le> sum_list xs div ps"
proof (induction xs)
  case (Cons x xs)
  have "x div ps + sum_list (map (\<lambda>x. x div ps) xs) \<le> x div ps + sum_list xs div ps" using Cons by simp
  also have "\<dots> \<le> (x + sum_list xs) div ps" by (metis div_add1_eq le_add1)
  finally show ?case by simp
qed simp

lemma new_pages_bound: "0 < ps \<Longrightarrow> pre \<le> seq \<Longrightarrow> new_pages ps pre seq \<le> (seq - pre) div ps + 1"
proof -
  assume ps: "0 < ps" and le: "pre \<le> seq"
  have "seq + ps - 1 \<le> (seq - pre) + ((pre + ps - 1) div ps * ps + (ps - 1))"
    using ceil_bounds(1) [OF ps, of pre] le by linarith
  then have "(seq + ps - 1) div ps \<le> ((seq - pre) + (ps - 1) + (pre + ps - 1) div ps * ps) div ps" by (intro div_le_mono) simp
  also have "\<dots> = (pre + ps - 1) div ps + ((seq - pre) + (ps - 1)) div ps" by (rule div_mult_self1) (use ps in simp)
  finally have one: "(seq + ps - 1) div ps \<le> (pre + ps - 1) div ps + ((seq - pre) + (ps - 1)) div ps" .
  have "((seq - pre) + (ps - 1)) div ps \<le> ((seq - pre) + ps) div ps" by (intro div_le_mono) simp
  moreover have "((seq - pre) + ps) div ps = (seq - pre) div ps + 1" by (rule div_add_self2) (use ps in simp)
  ultimately have "((seq - pre) + (ps - 1)) div ps \<le> (seq - pre) div ps + 1" by simp
  then show ?thesis using one unfolding new_pages_def by linarith
qed

lemma num_new_pages_bound:
  assumes ps: "0 < ps" and l: "length seq = length pre" "\<forall>i < length pre. pre ! i \<le> seq ! i"
  shows "get_num_new_pages ps pre seq \<le> sum_list (map2 (\<lambda>n m. n - m) seq pre) div ps + length pre"
proof -
  have one: "sum_list (map (\<lambda>x. x div ps + 1) xs) = sum_list (map (\<lambda>x. x div ps) xs) + length xs" for xs
    by (induction xs) simp_all
  have "get_num_new_pages ps pre seq \<le> sum_list (map (\<lambda>x. x div ps + 1) (map2 (\<lambda>n m. n - m) seq pre))"
    using l
  proof (induction pre seq rule: list_induct2')
    case (4 p pre s seq)
    have a: "\<forall>i < length pre. pre ! i \<le> seq ! i" "p \<le> s" using 4(3) by fastforce+
    then show ?case using 4 new_pages_bound [OF ps a(2)] by (simp add: get_num_new_pages_def)
  qed (simp_all add: get_num_new_pages_def)
  also have "\<dots> = sum_list (map (\<lambda>x. x div ps) (map2 (\<lambda>n m. n - m) seq pre)) + length pre"
    using l(1) by (simp only: one) simp
  also have "\<dots> \<le> sum_list (map2 (\<lambda>n m. n - m) seq pre) div ps + length pre"
    using div_sum_le [OF ps, of "map2 (\<lambda>n m. n - m) seq pre"] by (rule add_right_mono)
  finally show ?thesis .
qed

text \<open>The pages that an allocation can get: the free ones, and the released ones where they are kept apart.\<close>

definition spare_pages :: "allocator \<Rightarrow> nat" where
  "spare_pages al = length (al_free_pages al) + (if al_need_sort al then length (al_release_pages al) else 0)"

lemma merge_spare: "al_need_sort al \<Longrightarrow> length (al_free_pages (merge_and_sort_free al)) = spare_pages al"
  by (simp add: merge_and_sort_free_def spare_pages_def)

lemma alloc_extend_none:
  assumes pos: "0 < al_page_size al" and l: "length seq = length pre" "\<forall>i < length pre. pre ! i \<le> seq ! i"
    and n: "n = sum_list (map2 (\<lambda>n m. n - m) seq pre)"
  shows "fst (alloc_extend raw pre seq last_loc n al) = None \<longleftrightarrow> spare_pages al < get_num_new_pages (al_page_size al) pre seq"
    "alloc_extend raw pre seq last_loc n al = (None, al') \<Longrightarrow>
      mset (al_free_pages al' @ al_release_pages al') = mset (al_free_pages al @ al_release_pages al)"
proof -
  have b: "get_num_new_pages (al_page_size al) pre seq \<le> n div al_page_size al + length pre"
    unfolding n by (rule num_new_pages_bound [OF pos l])
  show "fst (alloc_extend raw pre seq last_loc n al) = None \<longleftrightarrow> spare_pages al < get_num_new_pages (al_page_size al) pre seq"
  proof (cases "al_need_sort al \<and> n div al_page_size al + length pre + 1 > length (al_free_pages al)")
    case True
    then show ?thesis by (simp add: alloc_extend_def Let_def merge_spare)
  next
    case False
    then show ?thesis using b by (auto simp: alloc_extend_def Let_def spare_pages_def)
  qed
  show "alloc_extend raw pre seq last_loc n al = (None, al') \<Longrightarrow>
      mset (al_free_pages al' @ al_release_pages al') = mset (al_free_pages al @ al_release_pages al)"
    using merge_mset [of al] by (auto simp: alloc_extend_def Let_def split: if_splits)
qed

lemma length_segments: "\<forall>i < n. length (xss ! i) = f i \<Longrightarrow> length xss = n \<Longrightarrow> length (concat xss) = sum_list (map f [0..<n])"
  unfolding length_concat by (intro arg_cong [of _ _ sum_list] nth_equalityI) simp_all

lemma num_new_pages_upt:
  "length seq = length pre \<Longrightarrow> get_num_new_pages ps pre seq = sum_list (map (\<lambda>i. new_pages ps (pre ! i) (seq ! i)) [0..<length pre])"
  unfolding get_num_new_pages_def by (intro arg_cong [of _ _ sum_list] nth_equalityI) simp_all

text \<open>
  C11. Extending a batch of rows keeps their layout and takes exactly the pages it counts.  On rows
  that each lie on their own list of pages, \<^verbatim>\<open>alloc_extend\<close> returns \<^verbatim>\<open>None\<close> exactly when
  \<^verbatim>\<open>get_num_new_pages\<close> counts more pages than the allocator has (free, or released and not yet
  merged), and then no page has left the lists.  Otherwise each request gets as many new pages as its
  own count says, together the counted number; these are what left the free lists, so a page that was
  free once is given to one row only; and the kernel's output is, request by request, exactly what
  continues the row on its last page and then on its new pages, the old slots staying where they are.
\<close>

theorem alloc_extend_continues_rows:
  fixes al :: allocator
  assumes pos: "0 < al_page_size al" and lens: "length seq = length pre" "\<forall>i < length pre. pre ! i \<le> seq ! i"
    and n: "n = sum_list (map2 (\<lambda>n m. n - m) seq pre)" and raw: "length raw = n"
    and rows: "\<forall>i < length pre. row_on (al_page_size al) (pages i) (pre ! i) (last_loc ! i)"
  shows "if spare_pages al < get_num_new_pages (al_page_size al) pre seq
    then \<exists>al'. alloc_extend raw pre seq last_loc n al = (None, al')
      \<and> mset (al_free_pages al' @ al_release_pages al') = mset (al_free_pages al @ al_release_pages al)
    else \<exists>out al' new. alloc_extend raw pre seq last_loc n al = (Some out, al') \<and> length new = length pre
      \<and> (\<forall>i < length pre. length (new ! i) = new_pages (al_page_size al) (pre ! i) (seq ! i))
      \<and> length (concat new) = get_num_new_pages (al_page_size al) pre seq
      \<and> mset (al_free_pages al @ al_release_pages al) = mset (concat new) + mset (al_free_pages al' @ al_release_pages al')
      \<and> out = concat (map (\<lambda>i. drop (pre ! i) (paged_row (al_page_size al) (pages i @ new ! i) (seq ! i))) [0..<length pre])
      \<and> (\<forall>i < length pre. take (pre ! i) (paged_row (al_page_size al) (pages i @ new ! i) (seq ! i))
           = paged_row (al_page_size al) (pages i) (pre ! i))"
proof (cases "spare_pages al < get_num_new_pages (al_page_size al) pre seq")
  case True
  then obtain al' where "alloc_extend raw pre seq last_loc n al = (None, al')"
    using alloc_extend_none(1) [OF pos lens n] by (metis prod.collapse)
  then show ?thesis using True alloc_extend_none(2) [OF pos lens n] by auto
next
  case False
  then obtain out al' where a: "alloc_extend raw pre seq last_loc n al = (Some out, al')"
    using alloc_extend_none(1) [OF pos lens n] by (metis option.collapse prod.collapse)
  have r: "length raw = sum_list (map2 (\<lambda>n m. n - m) seq pre)" using raw n by simp
  obtain new where new: "length new = length pre"
    "\<forall>i < length pre. length (new ! i) = new_pages (al_page_size al) (pre ! i) (seq ! i)"
    "mset (al_free_pages al @ al_release_pages al) = mset (concat new) + mset (al_free_pages al' @ al_release_pages al')"
    "out = concat (map (\<lambda>i. drop (pre ! i) (paged_row (al_page_size al) (pages i @ new ! i) (seq ! i))) [0..<length pre])"
    "\<forall>i < length pre. take (pre ! i) (paged_row (al_page_size al) (pages i @ new ! i) (seq ! i)) = paged_row (al_page_size al) (pages i) (pre ! i)"
    using alloc_extend_rows [OF pos lens r rows a] by blast
  have "length (concat new) = get_num_new_pages (al_page_size al) pre seq"
    using length_segments [OF new(2,1)] num_new_pages_upt [OF lens(1)] by simp
  then show ?thesis unfolding if_not_P [OF False] using a new by (intro exI [of _ out] exI [of _ al'] exI [of _ new]) simp
qed

text \<open>Two requests on pages of four slots: the first has six tokens and gets three, the second is new.\<close>

definition extend_demo :: allocator where
  "extend_demo = (paged_init 40 4 False)\<lparr>al_free_pages := [5, 9, 7, 2]\<rparr>"

theorem alloc_extend_continues_rows_witness:
  "(\<exists>out al' new. alloc_extend (replicate 8 0) [6, 0] [9, 5] [17, -1] 8 extend_demo = (Some out, al') \<and> length new = 2
      \<and> length (concat new) = 3
      \<and> out = concat (map (\<lambda>i. drop ([6, 0] ! i) (paged_row 4 ([[3, 4], []] ! i @ new ! i) ([9, 5] ! i))) [0..<2]))
   \<and> (\<exists>al'. alloc_extend (replicate 8 0) [6, 0] [9, 5] [17, -1] 8 (extend_demo\<lparr>al_free_pages := [5, 9]\<rparr>) = (None, al'))"
proof -
  have ps: "al_page_size extend_demo = 4" by (simp add: extend_demo_def paged_init_def paged_clear_def)
  have cnt: "get_num_new_pages 4 [6, 0] [9, 5] = 3" by (simp add: get_num_new_pages_def new_pages_def)
  have sp: "spare_pages extend_demo = 4" "spare_pages (extend_demo\<lparr>al_free_pages := [5, 9]\<rparr>) = 2"
    by (simp_all add: spare_pages_def extend_demo_def paged_init_def paged_clear_def)
  have r: "\<forall>i < length [6, 0 :: nat]. row_on 4 ([[3, 4], []] ! i) ([6, 0] ! i) ([17, -1] ! i)"
    by (auto simp: row_on_def less_Suc_eq nth_paged_row)
  have l: "length [9, 5 :: nat] = length [6, 0 :: nat]" "\<forall>i < length [6, 0 :: nat]. [6, 0] ! i \<le> [9, 5 :: nat] ! i"
    "8 = sum_list (map2 (\<lambda>n m. n - m) [9, 5] [6, 0 :: nat])" "length (replicate 8 (0 :: int)) = 8"
    by (auto simp: less_Suc_eq)
  have two: "length [6, 0 :: nat] = 2" by simp
  have p2: "al_page_size (extend_demo\<lparr>al_free_pages := [5, 9]\<rparr>) = 4" by (simp add: ps)
  have four: "0 < (4 :: nat)" by simp
  note A = alloc_extend_continues_rows [where al = extend_demo, unfolded ps, OF four l r, unfolded cnt sp two]
  note B = alloc_extend_continues_rows [where al = "extend_demo\<lparr>al_free_pages := [5, 9]\<rparr>", unfolded p2, OF four l r, unfolded cnt sp two]
  have less: "\<not> 4 < (3 :: nat)" "2 < (3 :: nat)" by simp_all
  show ?thesis using A [unfolded if_not_P [OF less(1)]] B [unfolded if_P [OF less(2)]] by blast
qed

section \<open>The kernel and its plain version\<close>

lemma page_rows: "concat (map (page_slots ps) pages) = paged_row ps pages (length pages * ps)"
proof (cases "ps = 0")
  case False
  then have pos: "0 < ps" by simp
  show ?thesis
  proof (induction pages rule: rev_induct)
    case (snoc p pages)
    let ?n = "length pages"
    let ?g = "\<lambda>i. (pages @ [p]) ! (i div ps) * int ps + int (i mod ps)"
    have "paged_row ps (pages @ [p]) (length (pages @ [p]) * ps) = map ?g [0..<?n * ps] @ map ?g [?n * ps..<?n * ps + ps]"
      by (simp add: paged_row_def upt_parts add.commute flip: map_append)
    also have "map ?g [0..<?n * ps] = paged_row ps pages (?n * ps)"
      using pos by (auto simp: paged_row_def nth_append div_less_iff_less_mult)
    also have "map ?g [?n * ps..<?n * ps + ps] = page_slots ps p"
      unfolding upt_shift [symmetric] page_slots_def by auto
    finally show ?case using snoc by simp
  qed (simp add: paged_row_def)
qed (simp add: page_slots_def paged_row_def)

lemma slice_writes_map: "slice_writes k (map f [0..<n]) = map (\<lambda>off. (k + off, f off)) [0..<n]"
  by (rule nth_equalityI) (auto simp: slice_writes_def)

lemma naive_is_kernel:
  assumes ok: "extend_ok a" and i: "i < length (xa_pre_lens a)"
    and enough: "sum_list (page_counts a) \<le> length (xa_free_pages a)"
  shows "alloc_extend_naive a i = alloc_extend_kernel a i"
proof -
  define ps where "ps = xa_page_size a"
  define pre where "pre = xa_pre_lens a ! i"
  define seq where "seq = xa_seq_lens a ! i"
  define b where "b = (pre + ps - 1) div ps"
  define e where "e = seq div ps"
  define st where "st = sum_list (take i (extend_lens a))"
  define np where "np = sum_list (take i (page_counts a))"
  define self where "self = (seq + ps - 1) div ps - b"
  have pos: "0 < ps" and le: "pre \<le> seq" using ok i by (simp_all add: extend_ok_def ps_def pre_def seq_def)
  have ext: "extend_lens a ! i = seq - pre" using extend_sums(1) [OF ok i] by (simp add: seq_def pre_def)
  have s1: "sum_list (take (i + 1) (extend_lens a)) = st + (seq - pre)" using extend_sums(3) [OF ok i] ext by (simp add: st_def)
  have pc: "page_counts a ! i = self"
    using extend_sums(2) [OF ok i] by (simp add: new_pages_def self_def b_def ps_def pre_def seq_def)
  have s2: "sum_list (take (i + 1) (page_counts a)) = np + self" using extend_sums(4) [OF ok i] pc by (simp add: np_def)
  have bb: "pre \<le> b * ps" "b * ps < pre + ps" using ceil_bounds [OF pos, of pre] by (simp_all add: b_def)
  have es: "e * ps \<le> seq" "seq < e * ps + ps" using pos by (simp_all add: e_def) (metis add.commute dividend_less_div_times)
  let ?n1 = "min seq (b * ps) - pre"
  have fl1: "filter (\<lambda>off. off < ?n1) [0..<ps] = [0..<?n1]" and fl3: "filter (\<lambda>off. off < seq - e * ps) [0..<ps] = [0..<seq - e * ps]"
    using bb es by (simp_all add: filter_less_upt)
  have K: "alloc_extend_kernel a i = (let part1 = map (\<lambda>off. (st + off, xa_last_loc a ! i + 1 + int off)) [0..<?n1] in
      if pre + ?n1 = seq then part1 else
      let n2 = e * ps - b * ps;
          part2 = map (\<lambda>off. (st + ?n1 + off, xa_free_pages a ! (np + off div ps) * int ps + int (off mod ps))) [0..<n2] in
      if pre + ?n1 + n2 = seq then part1 @ part2 else
      part1 @ part2 @ map (\<lambda>off. (st + ?n1 + n2 + off, xa_free_pages a ! (np + self - 1) * int ps + int off)) [0..<seq - e * ps])"
    unfolding alloc_extend_kernel_def Let_def
      ps_def [symmetric] pre_def [symmetric] seq_def [symmetric] b_def [symmetric] e_def [symmetric] self_def [symmetric] s1 s2 fl1 fl3
    by simp
  have N: "alloc_extend_naive a i = (let part1 = map (\<lambda>off. (st + off, xa_last_loc a ! i + 1 + int off)) [0..<?n1] in
      if pre + ?n1 = seq then part1 else
      let n2 = (e - b) * ps;
          part2 = (if n2 \<noteq> 0 then slice_writes (st + ?n1) (concat (map (page_slots ps) (pyslice np (np + self - (self - (e - b))) (xa_free_pages a)))) else []) in
      if pre + ?n1 + n2 = seq then part1 @ part2 else
      part1 @ part2 @ map (\<lambda>off. (st + (seq - pre) - (seq - e * ps) + off, xa_free_pages a ! (np + self - 1) * int ps + int off)) [0..<seq - e * ps])"
    unfolding alloc_extend_naive_def Let_def
      ps_def [symmetric] pre_def [symmetric] seq_def [symmetric] b_def [symmetric] e_def [symmetric] s1 s2 ext pc slice_writes_map
    by simp
  show ?thesis
  proof (cases "pre + ?n1 = seq")
    case False
    then have sb: "b * ps < seq" using le bb by linarith
    then have n1: "?n1 = b * ps - pre" by simp
    have be: "b \<le> e" using sb pos by (simp add: e_def less_eq_div_iff_mult_less_eq)
    then have bep: "b * ps \<le> e * ps" by (rule mult_le_mono1)
    have n2: "(e - b) * ps = e * ps - b * ps" by (simp add: diff_mult_distrib)
    have self_ge: "e - b \<le> self" using ceil_split [OF pos, of seq] by (simp add: self_def e_def)
    have t: "np + self \<le> length (xa_free_pages a)"
      using sum_take_mono [of "i + 1" "length (page_counts a)" "page_counts a"] enough i ok s2
      by (simp add: extend_ok_def page_counts_def)
    let ?pages = "pyslice np (np + self - (self - (e - b))) (xa_free_pages a)"
    have lp: "length ?pages = e - b" using t self_ge by (simp add: length_slice)
    have at: "?pages ! k = xa_free_pages a ! (np + k)" if "k < e - b" for k
      using t self_ge that by (intro nth_slice) linarith+
    have "slice_writes (st + ?n1) (concat (map (page_slots ps) ?pages))
        = map (\<lambda>off. (st + ?n1 + off, ?pages ! (off div ps) * int ps + int (off mod ps))) [0..<(e - b) * ps]"
      unfolding page_rows lp paged_row_def slice_writes_map ..
    also have "\<dots> = map (\<lambda>off. (st + ?n1 + off, xa_free_pages a ! (np + off div ps) * int ps + int (off mod ps))) [0..<(e - b) * ps]"
      using pos at by (auto simp: div_less_iff_less_mult)
    finally have p2: "(if (e - b) * ps \<noteq> 0 then slice_writes (st + ?n1) (concat (map (page_slots ps) ?pages)) else [])
        = map (\<lambda>off. (st + ?n1 + off, xa_free_pages a ! (np + off div ps) * int ps + int (off mod ps))) [0..<(e - b) * ps]"
      by (cases "(e - b) * ps = 0") simp_all
    have p3: "st + (seq - pre) - (seq - e * ps) = st + ?n1 + (e - b) * ps" using n1 n2 bb bep es sb by linarith
    show ?thesis unfolding K N Let_def p2 p3 unfolding n2 ..
  qed (simp add: K N)
qed

text \<open>
  C28. The Triton kernel agrees with the plain version.  On the same arguments, with at least as many
  free pages as the batch needs, the launch of \<^verbatim>\<open>alloc_extend_kernel\<close> over the batch fills the output as
  the loop of \<^verbatim>\<open>alloc_extend_naive\<close> does, whatever the output held before.
\<close>

theorem extend_kernel_is_naive:
  assumes "extend_ok a" "sum_list (page_counts a) \<le> length (xa_free_pages a)"
  shows "launch [0..<length (xa_pre_lens a)] (alloc_extend_kernel a) raw
    = launch [0..<length (xa_pre_lens a)] (alloc_extend_naive a) raw"
  unfolding launch_def by (auto simp: naive_is_kernel [OF assms(1) _ assms(2)] intro!: arg_cong [of _ _ "\<lambda>ws. apply_writes raw (concat ws)"])

definition naive_demo :: extend_args where
  "naive_demo = \<lparr>xa_pre_lens = [6, 0], xa_seq_lens = [9, 5], xa_last_loc = [17, -1], xa_free_pages = [5, 9, 7, 2], xa_page_size = 4\<rparr>"

theorem extend_kernel_is_naive_witness:
  "launch [0..<2] (alloc_extend_kernel naive_demo) (replicate 8 0) = launch [0..<2] (alloc_extend_naive naive_demo) (replicate 8 0)"
proof -
  have "extend_ok naive_demo" by (auto simp: extend_ok_def naive_demo_def less_Suc_eq numeral_2_eq_2)
  moreover have "sum_list (page_counts naive_demo) \<le> length (xa_free_pages naive_demo)"
    by (simp add: page_counts_def naive_demo_def new_pages_def)
  moreover have two: "length (xa_pre_lens naive_demo) = 2" by (simp add: naive_demo_def)
  ultimately show ?thesis using extend_kernel_is_naive [of naive_demo "replicate 8 0"] unfolding two by blast
qed

section \<open>Decode steps\<close>

definition decode_args :: "nat list \<Rightarrow> int list \<Rightarrow> int list \<Rightarrow> nat \<Rightarrow> extend_args" where
  "decode_args seq_lens last_loc free_pages ps =
     \<lparr>xa_pre_lens = map (\<lambda>n. n - 1) seq_lens, xa_seq_lens = seq_lens, xa_last_loc = last_loc, xa_free_pages = free_pages,
      xa_page_size = ps\<rparr>"

lemma decode_counts: "page_counts (decode_args seq l f ps) = map (\<lambda>n. new_pages ps (n - 1) n) seq"
  by (rule nth_equalityI) (simp_all add: page_counts_def decode_args_def)

lemma decode_args_ok: "0 < ps \<Longrightarrow> extend_ok (decode_args seq l f ps)"
  by (simp add: extend_ok_def decode_args_def)

lemma decode_extends: "\<forall>n \<in> set seq. 0 < n \<Longrightarrow> extend_lens (decode_args seq l f ps) = replicate (length seq) 1"
  by (induction seq) (auto simp: extend_lens_def decode_args_def)

lemma new_pages_decode: "1 < ps \<Longrightarrow> 0 < n \<Longrightarrow> new_pages ps (n - 1) n = (if n mod ps = 1 then 1 else 0)"
proof -
  assume ps: "1 < ps" and n: "0 < n"
  define m where "m = n - 1"
  have nm: "n = Suc m" using n by (simp add: m_def)
  have "Suc m div ps = (if Suc m mod ps = 0 then Suc (m div ps) else m div ps)" by (rule div_Suc)
  moreover have "Suc m mod ps = (if Suc (m mod ps) = ps then 0 else Suc (m mod ps))" by (rule mod_Suc)
  ultimately show ?thesis
    using ps ceil_split [of ps n] ceil_split [of ps m] unfolding new_pages_def nm by (auto split: if_splits)
qed

lemma decode_page_total:
  "1 < ps \<Longrightarrow> \<forall>n \<in> set seq. 0 < n \<Longrightarrow> sum_list (map (\<lambda>n. new_pages ps (n - 1) n) seq) = get_num_new_pages_decode ps seq"
  by (induction seq) (auto simp: get_num_new_pages_decode_def new_pages_decode [unfolded One_nat_def])

lemma decode_kernel_writes:
  assumes ps: "0 < ps" and pid: "pid < length seq" "\<forall>n \<in> set seq. 0 < n"
  shows "alloc_decode_kernel seq last_loc fp ps pid
    = [(pid, extend_slot (decode_args seq last_loc fp ps) pid (seq ! pid - 1))]"
proof -
  let ?a = "decode_args seq last_loc fp ps"
  have i: "pid < length (xa_pre_lens ?a)" using pid by (simp add: decode_args_def)
  have n: "0 < seq ! pid" using pid by simp
  define m where "m = seq ! pid - 1"
  have nm: "seq ! pid = Suc m" using n by (simp add: m_def)
  have s: "sum_list (take (pid + 1) (map (\<lambda>n. new_pages ps (n - 1) n) seq))
      = sum_list (take pid (page_counts ?a)) + new_pages ps m (Suc m)"
    using pid(1) nm by (simp add: take_Suc_conv_app_nth decode_counts)
  have c: "(m + ps - 1) div ps = m div ps + (if m mod ps = 0 then 0 else 1)"
    "(Suc m + ps - 1) div ps = Suc m div ps + (if Suc m mod ps = 0 then 0 else 1)" by (rule ceil_split [OF ps])+
  have d: "Suc m div ps = (if Suc m mod ps = 0 then Suc (m div ps) else m div ps)"
    "Suc m mod ps = (if Suc (m mod ps) = ps then 0 else Suc (m mod ps))" by (rule div_Suc, rule mod_Suc)
  have slot: "extend_slot ?a pid m = (if m mod ps \<noteq> 0 then last_loc ! pid + 1
      else fp ! (sum_list (take pid (page_counts ?a))) * int ps)"
  proof (cases "m mod ps = 0")
    case True
    then have "m = m div ps * ps" by (metis add.right_neutral div_mult_mod_eq)
    then show ?thesis using True c(1) nm by (simp add: extend_slot_def Let_def decode_args_def pid)
  next
    case False
    then have "m < (m div ps + 1) * ps" using ps by (simp add: dividend_less_div_times)
    then show ?thesis using False c(1) nm by (simp add: extend_slot_def Let_def decode_args_def pid)
  qed
  have np: "new_pages ps m (Suc m) = (if m mod ps = 0 then 1 else 0)"
    using c d ps by (auto simp: new_pages_def)
  show ?thesis
    unfolding alloc_decode_kernel_def Let_def s nm
    using np slot by (auto simp: new_pages_def)
qed

lemma alloc_decode_rows:
  fixes al :: allocator
  defines "ps \<equiv> al_page_size al"
  assumes pos: "1 < ps" and seq: "\<forall>n \<in> set seq. 0 < n" and raw: "length raw = length seq"
    and rows: "\<forall>i < length seq. row_on ps (pages i) (seq ! i - 1) (last_loc ! i)"
    and alloc: "alloc_decode raw seq last_loc al = (Some out, al')"
  shows "\<exists>new. length new = length seq \<and> length out = length seq \<and> (\<forall>i < length seq. length (new ! i) = new_pages ps (seq ! i - 1) (seq ! i))
    \<and> mset (al_free_pages al @ al_release_pages al) = mset (concat new) + mset (al_free_pages al' @ al_release_pages al')
    \<and> (\<forall>i < length seq. paged_row ps (pages i) (seq ! i - 1) @ [out ! i] = paged_row ps (pages i @ new ! i) (seq ! i))"
proof -
  define al1 where "al1 = (if al_need_sort al \<and> length seq > length (al_free_pages al) then merge_and_sort_free al else al)"
  define a where "a = decode_args seq last_loc (al_free_pages al1) ps"
  have p0: "0 < ps" using pos by simp
  have ok: "extend_ok a" using decode_args_ok [OF p0] by (simp add: a_def)
  have cnt: "sum_list (page_counts a) = get_num_new_pages_decode ps seq"
    using decode_page_total [OF pos seq] by (simp add: a_def decode_counts)
  have f: "xa_pre_lens a = map (\<lambda>n. n - 1) seq" "xa_seq_lens a = seq" "xa_last_loc a = last_loc" "xa_free_pages a = al_free_pages al1"
    "xa_page_size a = ps" by (simp_all add: a_def decode_args_def)
  have out: "out = launch [0..<length seq] (alloc_decode_kernel seq last_loc (al_free_pages al1) ps) raw"
    and enough: "sum_list (page_counts a) \<le> length (al_free_pages al1)"
    and al': "al' = al1\<lparr>al_free_pages := drop (sum_list (page_counts a)) (al_free_pages al1)\<rparr>"
    using alloc unfolding cnt alloc_decode_def by (auto simp: Let_def al1_def ps_def split: if_splits)
  have kern: "map (alloc_decode_kernel seq last_loc (al_free_pages al1) ps) [0..<length seq]
      = map (cell_writes (\<lambda>i. extend_slot a i (seq ! i - 1))) [0..<length seq]"
    by (auto simp: decode_kernel_writes [OF p0 _ seq] cell_writes_def a_def)
  have o: "out = map (\<lambda>i. extend_slot a i (seq ! i - 1)) [0..<length seq]"
    using launch_cells [of "length seq" raw "\<lambda>i. extend_slot a i (seq ! i - 1)"] raw unfolding out launch_def kern by simp
  define new where "new = map (\<lambda>i. pyslice (sum_list (take i (page_counts a))) (sum_list (take (i + 1) (page_counts a)))
      (al_free_pages al1)) [0..<length seq]"
  have lc: "length (page_counts a) = length seq" by (simp add: a_def decode_counts)
  have cn: "concat new = take (sum_list (page_counts a)) (al_free_pages al1)"
    using concat_segments [of "length seq" "page_counts a" "al_free_pages al1"] lc by (simp add: new_def)
  have "mset (al_free_pages al @ al_release_pages al) = mset (al_free_pages al1 @ al_release_pages al1)"
    using merge_mset [of al] by (simp add: al1_def)
  also have "\<dots> = mset (concat new) + mset (al_free_pages al' @ al_release_pages al')"
    unfolding cn by (simp add: al' mset_take_drop [of "al_free_pages al1" "sum_list (page_counts a)"])
  finally have m: "mset (al_free_pages al @ al_release_pages al) = mset (concat new) + mset (al_free_pages al' @ al_release_pages al')" .
  have r: "paged_row ps (pages i) (seq ! i - 1) @ [out ! i] = paged_row ps (pages i @ new ! i) (seq ! i)" if i: "i < length seq" for i
  proof -
    have i': "i < length (xa_pre_lens a)" and n: "0 < seq ! i" using i seq by (simp_all add: f)
    have ro: "length (pages i) = (seq ! i - 1 + ps - 1) div ps"
      "seq ! i - 1 > 0 \<Longrightarrow> last_loc ! i = paged_row ps (pages i) (seq ! i - 1) ! (seq ! i - 1 - 1)"
      using rows i by (simp_all add: row_on_def)
    have "out ! i = paged_row ps (pages i @ new ! i) (seq ! i) ! (seq ! i - 1)"
      using extend_slot_row [OF ok i', of "pages i" "seq ! i - 1"] ro enough n i by (simp add: f o nth_paged_row new_def)
    moreover have "take (seq ! i - 1) (paged_row ps (pages i @ new ! i) (seq ! i)) = paged_row ps (pages i) (seq ! i - 1)"
      using ro(1) p0 by (intro take_paged_row) auto
    ultimately show ?thesis
      using take_Suc_conv_app_nth [of "seq ! i - 1" "paged_row ps (pages i @ new ! i) (seq ! i)"] n by simp
  qed
  have c: "length (new ! i) = new_pages ps (seq ! i - 1) (seq ! i)" if i: "i < length seq" for i
  proof -
    have "sum_list (take (Suc i) (page_counts a)) \<le> sum_list (page_counts a)"
      by (metis append_take_drop_id le_add1 sum_list_append)
    moreover have "sum_list (take (Suc i) (page_counts a)) = sum_list (take i (page_counts a)) + page_counts a ! i"
      using i lc by (simp add: take_Suc_conv_app_nth)
    moreover have "page_counts a ! i = new_pages ps (seq ! i - 1) (seq ! i)" using i by (simp add: a_def decode_counts)
    moreover have "new ! i = pyslice (sum_list (take i (page_counts a))) (sum_list (take (Suc i) (page_counts a))) (al_free_pages al1)"
      using i by (simp add: new_def)
    ultimately show ?thesis using enough unfolding pyslice_def by simp
  qed
  show ?thesis using m r c by (intro exI [of _ new]) (simp add: new_def o)
qed

text \<open>
  A decode step continues every row by one slot.  For pages of more than one slot and rows that lie
  on their pages, a successful \<^verbatim>\<open>alloc_decode\<close> returns for each row the slot that follows its last one,
  on the row's last page or at the start of a new page; the host's count of rows whose new length is one
  past a page boundary is exactly the number of pages the kernel took from the free list.
\<close>

theorem alloc_decode_continues_rows:
  fixes al :: allocator
  defines "ps \<equiv> al_page_size al"
  assumes pos: "1 < ps" and seq: "\<forall>n \<in> set seq. 0 < n" and raw: "length raw = length seq"
    and rows: "\<forall>i < length seq. row_on ps (pages i) (seq ! i - 1) (last_loc ! i)"
    and alloc: "alloc_decode raw seq last_loc al = (Some out, al')"
  shows "\<exists>new. length new = length seq \<and> length out = length seq
    \<and> mset (al_free_pages al @ al_release_pages al) = mset (concat new) + mset (al_free_pages al' @ al_release_pages al')
    \<and> (\<forall>i < length seq. paged_row ps (pages i) (seq ! i - 1) @ [out ! i] = paged_row ps (pages i @ new ! i) (seq ! i))"
  using alloc_decode_rows [OF assms(2-) [unfolded ps_def]] unfolding ps_def by blast

theorem alloc_decode_continues_rows_witness:
  "\<exists>out al' new. alloc_decode [0, 0] [5, 7] [15, 17] extend_demo = (Some out, al') \<and> length new = 2
    \<and> paged_row 4 [3] 4 @ [out ! 0] = paged_row 4 ([3] @ new ! 0) 5
    \<and> paged_row 4 [1, 4] 6 @ [out ! 1] = paged_row 4 ([1, 4] @ new ! 1) 7"
proof -
  have ps: "al_page_size extend_demo = 4" by (simp add: extend_demo_def paged_init_def paged_clear_def)
  obtain out al' where a: "alloc_decode [0, 0] [5, 7] [15, 17] extend_demo = (Some out, al')"
    unfolding alloc_decode_def Let_def ps get_num_new_pages_decode_def by (simp add: extend_demo_def paged_init_def paged_clear_def)
  have r: "\<forall>i < length [5, 7 :: nat]. row_on (al_page_size extend_demo) ([[3], [1, 4]] ! i) ([5, 7] ! i - 1) ([15, 17] ! i)"
    by (auto simp: row_on_def ps less_Suc_eq nth_paged_row)
  have l: "1 < al_page_size extend_demo" "\<forall>n \<in> set [5, 7 :: nat]. 0 < n" "length [0, 0 :: int] = length [5, 7 :: nat]"
    by (simp_all add: ps)
  from alloc_decode_continues_rows [OF l r a] obtain new where "length new = length [5, 7 :: nat]"
    and n: "\<forall>i < length [5, 7 :: nat]. paged_row 4 ([[3], [1, 4]] ! i) ([5, 7] ! i - 1) @ [out ! i] = paged_row 4 ([[3], [1, 4]] ! i @ new ! i) ([5, 7] ! i)"
    unfolding ps by blast
  then show ?thesis using a n [rule_format, of 0] n [rule_format, of 1] by (intro exI [of _ out] exI [of _ al'] exI [of _ new]) simp
qed

section \<open>Freeing\<close>

lemma every_nth: "0 < ps \<Longrightarrow> every ps xs = map (\<lambda>k. xs ! (k * ps)) [0..<(length xs + ps - 1) div ps]"
proof (induction ps xs rule: every.induct)
  case (2 ps x xs)
  have "(length (x # xs) + ps - 1) div ps = (length xs + ps) div ps" by simp
  also have "\<dots> = Suc (length xs div ps)" using 2(2) by (simp add: div_add_self2)
  finally have c: "(length (x # xs) + ps - 1) div ps = Suc (length xs div ps)" .
  have d: "(length (drop (ps - 1) xs) + ps - 1) div ps = length xs div ps"
  proof (cases "ps - 1 \<le> length xs")
    case True
    then have e: "length (drop (ps - 1) xs) + ps - 1 = length xs" using 2(2) by simp
    show ?thesis unfolding e ..
  next
    case False
    then show ?thesis using 2(2) by simp
  qed
  have "drop (ps - 1) xs ! (k * ps) = (x # xs) ! (Suc k * ps)" if "k < length xs div ps" for k
  proof -
    have "0 < length xs div ps" using that by simp
    then have "ps \<le> length xs" by (simp add: div_greater_zero_iff)
    moreover have "Suc k * ps - 1 = ps - 1 + k * ps" using 2(2) by simp
    ultimately show ?thesis using 2(2) by (simp add: nth_Cons_pos)
  qed
  then have "map (\<lambda>k. drop (ps - 1) xs ! (k * ps)) [0..<length xs div ps] = map (\<lambda>k. (x # xs) ! (Suc k * ps)) [0..<length xs div ps]"
    by auto
  moreover have "map (\<lambda>k. (x # xs) ! (k * ps)) [0..<Suc (length xs div ps)]
      = (x # xs) ! (0 * ps) # map (\<lambda>k. (x # xs) ! (Suc k * ps)) [0..<length xs div ps]"
    by (subst upt_conv_Cons) (simp_all add: map_Suc_upt [symmetric] o_def del: upt_Suc)
  ultimately show ?case unfolding c using 2 d by simp
qed simp

lemma nth_row_slice: "j < b - a \<Longrightarrow> b \<le> n \<Longrightarrow> pyslice a b (paged_row ps pages n) ! j = pages ! ((a + j) div ps) * int ps + int ((a + j) mod ps)"
  by (simp add: nth_slice nth_paged_row)

lemma row_slice_div: "0 < ps \<Longrightarrow> j < b - a \<Longrightarrow> b \<le> n \<Longrightarrow> pyslice a b (paged_row ps pages n) ! j div int ps = pages ! ((a + j) div ps)"
  by (simp add: nth_slice paged_row_div)

lemma every_pages:
  assumes ps: "0 < ps" and b: "q * ps \<le> b" "b \<le> n"
  shows "map (\<lambda>i. i div int ps) (every ps (pyslice (q * ps) b (paged_row ps pages n))) = map ((!) pages) [q..<(b + ps - 1) div ps]"
proof -
  let ?seg = "pyslice (q * ps) b (paged_row ps pages n)"
  have l: "length ?seg = b - q * ps" using b by (simp add: length_slice)
  define c where "c = (b - q * ps + ps - 1) div ps"
  have e: "b + ps - 1 = (b - q * ps + ps - 1) + q * ps" using b(1) ps by linarith
  have "(b + ps - 1) div ps = q + c" unfolding e c_def by (rule div_mult_self1) (use ps in simp)
  then have cq: "(b + ps - 1) div ps = c + q" by simp
  have "?seg ! (k * ps) div int ps = pages ! (q + k)" if "k < c" for k
  proof -
    have "k * ps < b - q * ps"
    proof -
      have "Suc k * ps \<le> c * ps" using that by (intro mult_le_mono1) simp
      also have "\<dots> < b - q * ps + ps" using ceil_bounds(2) [OF ps, of "b - q * ps"] by (simp add: c_def)
      finally show ?thesis by simp
    qed
    moreover have "(q * ps + k * ps) div ps = q + k" using ps by (simp flip: add_mult_distrib)
    ultimately show ?thesis using row_slice_div [OF ps _ b(2)] by simp
  qed
  then have "map (\<lambda>i. i div int ps) (every ps ?seg) = map (\<lambda>k. pages ! (q + k)) [0..<c]"
    by (simp add: every_nth [OF ps] l c_def)
  also have "\<dots> = map ((!) pages) [q..<q + c]" by (rule upt_shift)
  finally show ?thesis unfolding cq by (simp add: add.commute)
qed

text \<open>The representatives of a segment of a row are one slot of each of its pages.\<close>

lemma page_reps_pages:
  assumes ps: "0 < ps" and ab: "a < b" "b \<le> n"
  shows "concat (map (map (\<lambda>i. i div int ps)) (page_reps ps a (pyslice a b (paged_row ps pages n))))
    = map ((!) pages) [a div ps..<(b + ps - 1) div ps]"
proof (cases "a mod ps = 0")
  case True
  then have a: "a = a div ps * ps" by (metis add.right_neutral div_mult_mod_eq)
  have "a div ps * ps \<le> b" using ab by (simp add: a [symmetric])
  from every_pages [OF ps this ab(2), of pages] True show ?thesis by (simp add: page_reps_def a [symmetric])
next
  case False
  let ?q = "a div ps" and ?row = "paged_row ps pages n"
  have r: "a = ?q * ps + a mod ps" "a mod ps < ps" using ps by simp_all
  have d: "drop (ps - a mod ps) (pyslice a b ?row) = pyslice ((?q + 1) * ps) b ?row"
  proof -
    have "ps - a mod ps + a = ?q * ps + ps" using r by linarith
    then have "ps - a mod ps + a = (?q + 1) * ps" by simp
    then show ?thesis by (simp add: pyslice_def drop_take add.commute [of a])
  qed
  have t: "map (\<lambda>i. i div int ps) (take 1 (pyslice a b ?row)) = [pages ! ?q]"
  proof -
    have "pyslice a b ?row \<noteq> []" using ab by (simp add: pyslice_def)
    then have "take 1 (pyslice a b ?row) = [pyslice a b ?row ! 0]" by (cases "pyslice a b ?row") simp_all
    then show ?thesis using row_slice_div [OF ps, of 0 b a n pages] ab by simp
  qed
  have e: "map (\<lambda>i. i div int ps) (every ps (pyslice ((?q + 1) * ps) b ?row)) = map ((!) pages) [?q + 1..<(b + ps - 1) div ps]"
  proof (cases "(?q + 1) * ps \<le> b")
    case True
    then show ?thesis by (rule every_pages [OF ps _ ab(2)])
  next
    case le: False
    have lo: "?q * ps + ps \<le> b + ps - 1" using ab(1) r(1) False by linarith
    have hi: "b + ps - 1 < ?q * ps + ps + ps" using le by simp
    have "(b + ps - 1) div ps = ?q + 1" by (rule div_nat_eqI) (use lo hi in \<open>simp_all add: algebra_simps\<close>)
    then show ?thesis using le by (simp add: pyslice_def)
  qed
  have lt: "?q < (b + ps - 1) div ps"
  proof -
    have "?q * ps < b" using ab(1) r(1) by linarith
    also have "b \<le> (b + ps - 1) div ps * ps" by (rule ceil_bounds(1) [OF ps])
    finally show ?thesis using ps by simp
  qed
  show ?thesis using False t e lt unfolding page_reps_def Let_def by (simp add: d [unfolded Suc_eq_plus1] upt_conv_Cons)
qed

lemma row_slice_pages:
  assumes ps: "0 < ps" and ab: "a < b" "b \<le> n"
  shows "set (map (\<lambda>i. i div int ps) (pyslice a b (paged_row ps pages n))) = (!) pages ` {a div ps..<(b + ps - 1) div ps}"
proof -
  have "set (map (\<lambda>i. i div int ps) (pyslice a b (paged_row ps pages n))) = (\<lambda>j. pages ! ((a + j) div ps)) ` {0..<b - a}"
  proof -
    have "map (\<lambda>i. i div int ps) (pyslice a b (paged_row ps pages n)) = map (\<lambda>j. pages ! ((a + j) div ps)) [0..<b - a]"
      using ab by (intro nth_equalityI) (simp_all add: length_slice row_slice_div [OF ps])
    then show ?thesis by (metis set_map set_upt)
  qed
  also have "\<dots> = (!) pages ` ((\<lambda>p. p div ps) ` ((+) a ` {0..<b - a}))" by (simp only: image_image)
  also have "(+) a ` {0..<b - a} = {a..<b}" using ab by (simp add: image_add_atLeastLessThan)
  also have "(\<lambda>p. p div ps) ` {a..<b} = {a div ps..<(b + ps - 1) div ps}"
  proof (intro equalityI subsetI)
    fix k assume "k \<in> {a div ps..<(b + ps - 1) div ps}"
    then have k: "a div ps \<le> k" "Suc k \<le> (b + ps - 1) div ps" by auto
    have "Suc k * ps < b + ps" using mult_le_mono1 [OF k(2), of ps] ceil_bounds(2) [OF ps, of b] by linarith
    then have kb: "k * ps < b" by simp
    have "max a (k * ps) div ps = k"
    proof (cases "a \<le> k * ps")
      case False
      then have "k \<le> a div ps" using ps by (simp add: less_eq_div_iff_mult_less_eq)
      then show ?thesis using False k(1) by simp
    qed (use ps in \<open>simp add: max_def\<close>)
    then show "k \<in> (\<lambda>p. p div ps) ` {a..<b}" using kb ab by (intro image_eqI [of _ _ "max a (k * ps)"]) auto
  next
    fix k assume "k \<in> (\<lambda>p. p div ps) ` {a..<b}"
    then obtain p where p: "k = p div ps" "a \<le> p" "p < b" by auto
    then have "p div ps < (b + ps - 1) div ps" using ceil_bounds(1) [OF ps, of b] by (simp add: div_less_iff_less_mult ps)
    then show "k \<in> {a div ps..<(b + ps - 1) div ps}" using p by (simp add: div_le_mono)
  qed
  finally show ?thesis .
qed

text \<open>The pages an allocator can still give out.\<close>

definition idle :: "allocator \<Rightarrow> int multiset" where
  "idle al = mset (al_free_pages al @ al_release_pages al)"

lemma available_idle: "available_size al = size (idle al) * al_page_size al"
  by (simp add: available_size_def idle_def)

lemma release_page_ids_fields [simp]:
  "idle (release_page_ids ids al) = idle al + mset ids" "al_page_size (release_page_ids ids al) = al_page_size al"
  "al_free_group (release_page_ids ids al) = al_free_group al"
  "al_free_page_reps_group (release_page_ids ids al) = al_free_page_reps_group al"
  "al_need_sort (release_page_ids ids al) = al_need_sort al"
  by (simp_all add: release_page_ids_def idle_def)

lemma map_nth_slice: "y \<le> length xs \<Longrightarrow> map ((!) xs) [x..<y] = pyslice x y xs"
  by (rule nth_equalityI) (auto simp: pyslice_def)

text \<open>What the two ways of freeing do to a segment of a row.\<close>

lemma paged_free_segment_row:
  assumes "0 < al_page_size al" "al_free_group al = None" "a < b" "b \<le> n"
  shows "paged_free_segment (pyslice a b (paged_row (al_page_size al) pages n)) a al
    = release_page_ids (map ((!) pages) [a div al_page_size al..<(b + al_page_size al - 1) div al_page_size al]) al"
proof -
  have "pyslice a b (paged_row (al_page_size al) pages n) \<noteq> []" using assms(3,4) by (simp add: pyslice_def)
  then show ?thesis using assms page_reps_pages [OF assms(1,3,4), of pages] by (simp add: paged_free_segment_def Let_def)
qed

lemma paged_free_row:
  assumes "0 < al_page_size al" "al_free_group al = None" "a < b" "b \<le> n"
  shows "\<exists>ids. paged_free (pyslice a b (paged_row (al_page_size al) pages n)) al = release_page_ids ids al \<and> distinct ids \<and>
    set ids = (!) pages ` {a div al_page_size al..<(b + al_page_size al - 1) div al_page_size al}"
proof -
  let ?seg = "pyslice a b (paged_row (al_page_size al) pages n)"
  have "?seg \<noteq> []" using assms(3,4) by (simp add: pyslice_def)
  then have "paged_free ?seg al = release_page_ids (sort (remdups (map (\<lambda>i. i div int (al_page_size al)) ?seg))) al"
    using assms by (simp add: paged_free_def)
  then show ?thesis using row_slice_pages [OF assms(1,3,4), of pages] by auto
qed

text \<open>
  Freeing by representatives is freeing.  For a part of a row on distinct pages, \<^verbatim>\<open>free_segment\<close>,
  which takes one slot per page without sorting or removing duplicates, returns to the pool exactly the
  pages that \<^verbatim>\<open>free\<close> with its \<^verbatim>\<open>torch.unique\<close> returns: those the part touches, each once.
\<close>

theorem free_segment_is_free:
  fixes al :: allocator
  defines "ps \<equiv> al_page_size al"
  assumes ps: "0 < ps" and grp: "al_free_group al = None" and pages: "distinct pages" "length pages = (n + ps - 1) div ps"
    and ab: "a < b" "b \<le> n"
  defines "seg \<equiv> pyslice a b (paged_row ps pages n)"
  shows "idle (paged_free_segment seg a al) = idle al + mset (pyslice (a div ps) ((b + ps - 1) div ps) pages)
    \<and> idle (paged_free seg al) = idle (paged_free_segment seg a al)"
proof -
  have hi: "(b + ps - 1) div ps \<le> length pages" unfolding pages(2) using ab(2) by (simp add: div_le_mono)
  have s: "idle (paged_free_segment seg a al) = idle al + mset (pyslice (a div ps) ((b + ps - 1) div ps) pages)"
    unfolding seg_def ps_def using paged_free_segment_row [OF ps [unfolded ps_def] grp ab] hi
    by (simp add: map_nth_slice ps_def)
  obtain ids where ids: "paged_free seg al = release_page_ids ids al" "distinct ids"
    "set ids = (!) pages ` {a div ps..<(b + ps - 1) div ps}"
    using paged_free_row [OF ps [unfolded ps_def] grp ab, of pages] unfolding seg_def ps_def by blast
  have sl: "pyslice (a div ps) ((b + ps - 1) div ps) pages = map ((!) pages) [a div ps..<(b + ps - 1) div ps]"
    by (rule map_nth_slice [OF hi, symmetric])
  have "distinct (pyslice (a div ps) ((b + ps - 1) div ps) pages)" using pages(1) by (simp add: pyslice_def)
  moreover have "set (pyslice (a div ps) ((b + ps - 1) div ps) pages) = set ids" unfolding sl ids(3) by simp
  ultimately have "mset (pyslice (a div ps) ((b + ps - 1) div ps) pages) = mset ids"
    using ids(2) by (metis set_eq_iff_mset_eq_distinct)
  then show ?thesis using s ids(1) by simp
qed

theorem free_segment_is_free_witness:
  "idle (paged_free_segment (pyslice 2 9 (paged_row 4 [3, 8, 6] 10)) 2 extend_demo) = idle extend_demo + mset [3, 8, 6]
   \<and> idle (paged_free (pyslice 2 9 (paged_row 4 [3, 8, 6] 10)) extend_demo)
     = idle (paged_free_segment (pyslice 2 9 (paged_row 4 [3, 8, 6] 10)) 2 extend_demo)"
proof -
  have d: "al_page_size extend_demo = 4" "al_free_group extend_demo = None"
    by (simp_all add: extend_demo_def paged_init_def paged_clear_def)
  have p: "0 < al_page_size extend_demo" "distinct [3, 8, 6 :: int]"
    "length [3, 8, 6 :: int] = (10 + al_page_size extend_demo - 1) div al_page_size extend_demo" by (simp_all add: d)
  have "pyslice (2 div 4) ((9 + 4 - 1) div 4) [3, 8, 6] = [3, 8, 6 :: int]" by (simp add: pyslice_def)
  then show ?thesis using free_segment_is_free [OF p(1) d(2) p(2,3), of 2 9] unfolding d(1) by simp
qed

section \<open>Free groups\<close>

text \<open>Segments freed inside a group return to the pool when the group ends, as without the group.\<close>

definition free_all :: "(int list \<times> nat) list \<Rightarrow> allocator \<Rightarrow> allocator" where
  "free_all segs al = foldl (\<lambda>al (idx, start). paged_free_segment idx start al) al segs"

definition seg_reps :: "nat \<Rightarrow> int list \<times> nat \<Rightarrow> int list list" where
  "seg_reps ps s = (if fst s = [] then [] else page_reps ps (snd s) (fst s))"

lemma free_all_grouped:
  "al_free_group al = Some g \<Longrightarrow>
   free_all segs al = al\<lparr>al_free_page_reps_group := al_free_page_reps_group al
     @ concat (map (seg_reps (al_page_size al)) segs)\<rparr>"
proof (induction segs arbitrary: al)
  case (Cons s segs)
  obtain idx start where s: "s = (idx, start)" by (cases s)
  let ?al = "paged_free_segment idx start al"
  let ?p = "seg_reps (al_page_size al) s"
  have al: "?al = al\<lparr>al_free_page_reps_group := al_free_page_reps_group al @ ?p\<rparr>"
    using Cons.prems by (simp add: paged_free_segment_def Let_def seg_reps_def s)
  have "free_all (s # segs) al = free_all segs ?al" by (simp add: free_all_def s)
  also have "\<dots> = al\<lparr>al_free_page_reps_group := al_free_page_reps_group al @ ?p
      @ concat (map (seg_reps (al_page_size al)) segs)\<rparr>"
    unfolding al using Cons.IH [of "al\<lparr>al_free_page_reps_group := al_free_page_reps_group al @ ?p\<rparr>"] Cons.prems by simp
  finally show ?case by simp
qed (simp add: free_all_def)

lemma free_all_direct:
  "al_free_group al = None \<Longrightarrow>
   idle (free_all segs al) = idle al + mset (map (\<lambda>i. i div int (al_page_size al))
     (concat (concat (map (seg_reps (al_page_size al)) segs))))"
proof (induction segs arbitrary: al)
  case (Cons s segs)
  obtain idx start where s: "s = (idx, start)" by (cases s)
  let ?al = "paged_free_segment idx start al"
  have a: "al_free_group ?al = None" "al_page_size ?al = al_page_size al"
    "idle ?al = idle al + mset (map (\<lambda>i. i div int (al_page_size al)) (concat (seg_reps (al_page_size al) s)))"
    using Cons.prems by (simp_all add: paged_free_segment_def Let_def map_concat seg_reps_def s)
  have "free_all (s # segs) al = free_all segs ?al" by (simp add: free_all_def s)
  then show ?case using Cons.IH [OF a(1), unfolded a(2,3)] by (simp add: add.assoc)
qed (simp add: free_all_def)

lemma group_defers:
  assumes "al_free_group al = None"
  shows "idle (paged_free_group_end (free_all segs (paged_free_group_begin al))) = idle (free_all segs al)"
proof -
  let ?g = "paged_free_group_begin al"
  have g: "al_free_group ?g = Some []" "al_page_size ?g = al_page_size al" "al_free_page_reps_group ?g = []" "idle ?g = idle al"
    by (simp_all add: paged_free_group_begin_def free_group_begin_def idle_def)
  let ?reps = "concat (map (seg_reps (al_page_size al)) segs)"
  have f: "free_all segs ?g = ?g\<lparr>al_free_page_reps_group := ?reps\<rparr>" using free_all_grouped [OF g(1)] g(2,3) by simp
  have e: "free_group_end paged_free (free_all segs ?g) = (free_all segs ?g)\<lparr>al_free_group := None\<rparr>"
    using g(1) by (simp add: free_group_end_def f)
  have i: "idle (al'\<lparr>al_free_page_reps_group := x\<rparr>) = idle al'" "idle (al'\<lparr>al_free_group := y\<rparr>) = idle al'" for al' x y
    by (simp_all add: idle_def)
  show ?thesis
    unfolding paged_free_group_end_def Let_def e free_all_direct [OF assms] using g(2,4) by (auto simp: f i)
qed

section \<open>The pool interface\<close>

text \<open>
  What the prefix cache relies on: freeing a page-exact run of slots from position 0 adds exactly its
  length to what is available.
\<close>

locale kv_pool =
  fixes free_segment :: "int list \<Rightarrow> nat \<Rightarrow> 'a \<Rightarrow> 'a" and available :: "'a \<Rightarrow> nat"
    and ready :: "'a \<Rightarrow> bool" and exact :: "int list \<Rightarrow> bool"
  assumes free_ready: "ready al \<Longrightarrow> exact seg \<Longrightarrow> ready (free_segment seg 0 al)"
    and free_available: "ready al \<Longrightarrow> exact seg \<Longrightarrow> available (free_segment seg 0 al) = available al + length seg"
begin

lemma free_list_available:
  assumes "ready al" "\<forall>seg \<in> set segs. exact seg"
  shows "ready (foldl (\<lambda>al seg. free_segment seg 0 al) al segs)
    \<and> available (foldl (\<lambda>al seg. free_segment seg 0 al) al segs) = available al + sum_list (map length segs)"
  using assms by (induction segs arbitrary: al) (simp_all add: free_ready free_available add.assoc)

end

definition token_ready :: "allocator \<Rightarrow> bool" where
  "token_ready al \<longleftrightarrow> al_free_group al = None \<and> al_page_size al = 1"

definition paged_ready :: "nat \<Rightarrow> allocator \<Rightarrow> bool" where
  "paged_ready ps al \<longleftrightarrow> 0 < ps \<and> al_free_group al = None \<and> al_page_size al = ps \<and> (al_need_sort al \<or> al_release_pages al = [])"

lemma paged_ready_release: "paged_ready ps al \<Longrightarrow> paged_ready ps (release_page_ids ids al)"
  by (auto simp: paged_ready_def release_page_ids_def)

definition page_exact :: "nat \<Rightarrow> int list \<Rightarrow> bool" where
  "page_exact ps seg \<longleftrightarrow> (\<exists>pages. seg = paged_row ps pages (length pages * ps))"

interpretation token_pool: kv_pool token_free_segment available_size token_ready "\<lambda>_. True"
  by unfold_locales (auto simp: token_ready_def token_free_segment_def token_free_def available_size_def)

interpretation paged_pool: kv_pool paged_free_segment available_size "paged_ready ps" "page_exact ps" for ps
proof
  fix al seg assume r: "paged_ready ps al" and e: "page_exact ps seg"
  obtain pages where seg: "seg = paged_row ps pages (length pages * ps)" using e by (auto simp: page_exact_def)
  have ps: "0 < ps" "al_page_size al = ps" "al_free_group al = None" using r by (simp_all add: paged_ready_def)
  have "paged_ready ps (paged_free_segment seg 0 al) \<and> available_size (paged_free_segment seg 0 al) = available_size al + length seg"
  proof (cases "pages = []")
    case True
    then show ?thesis using r seg by (simp add: paged_free_segment_def paged_row_def)
  next
    case False
    have "pyslice 0 (length pages * ps) (paged_row ps pages (length pages * ps)) = seg" by (simp add: pyslice_def seg)
    then have f: "paged_free_segment seg 0 al = release_page_ids (map ((!) pages) [0..<length pages]) al"
      using paged_free_segment_row [of al 0 "length pages * ps" "length pages * ps" pages] ps False ceil_exact [OF ps(1), of "length pages"]
      by simp
    show ?thesis unfolding f using ps paged_ready_release [OF r] by (simp add: available_idle seg algebra_simps)
  qed
  then show "paged_ready ps (paged_free_segment seg 0 al)" "available_size (paged_free_segment seg 0 al) = available_size al + length seg"
    by blast+
qed

end
