(* ===== verification/RadixEvict.thy ===== *)
theory RadixEvict
  imports RadixLocks KvAllocator "HOL-Library.Product_Lexorder"
begin

text \<open>
  Eviction from the prefix cache into the slot pool: \<^verbatim>\<open>evict\<close> and \<^verbatim>\<open>_delete_leaf\<close> of \<^verbatim>\<open>radix_cache.py\<close>,
  the strategies of \<^verbatim>\<open>evict_policy.py\<close>, \<^verbatim>\<open>evict_from_tree_cache\<close> of \<^verbatim>\<open>common.py\<close> for a plain allocator, and
  the capacity check of \<^verbatim>\<open>allocator/base.py\<close>.  The cache uses the pool only through \<open>free_segment\<close>, so the
  lemmas are proved in the interface \<open>kv_pool\<close> and hold for both allocators.
\<close>

section \<open>Strategies\<close>

text \<open>A strategy's value as a pair; a bare time is a pair with a constant.\<close>

definition get_priority :: "eviction_policy \<Rightarrow> tree_node \<Rightarrow> int \<times> int" where
  "get_priority policy nd =
     (case policy of
        LRU \<Rightarrow> (0, tn_last_access_time nd)
      | LFU \<Rightarrow> (int (tn_hit_count nd), tn_last_access_time nd)
      | FIFO \<Rightarrow> (0, tn_creation_time nd)
      | MRU \<Rightarrow> (0, - tn_last_access_time nd)
      | FILO \<Rightarrow> (0, - tn_creation_time nd)
      | Priority \<Rightarrow> (tn_priority nd, tn_last_access_time nd)
      | SLRU threshold \<Rightarrow> (if tn_hit_count nd \<ge> threshold then 1 else 0, tn_last_access_time nd))"

section \<open>The heap\<close>

text \<open>
  Entries pair a priority with a node.  They compare as Python tuples do, and nodes by \<^verbatim>\<open>__lt__\<close>.  A pop
  takes an entry that no other is less than; which of several is up to \<^verbatim>\<open>heapq\<close> and to the iteration order
  of the set of leaves, so \<open>tie\<close> decides, differently at each pop.
\<close>

type_synonym entry = "(int \<times> int) \<times> nat"

definition heap_less :: "radix_cache \<Rightarrow> entry \<Rightarrow> entry \<Rightarrow> bool" where
  "heap_less s e e' \<longleftrightarrow>
     (if fst e = fst e' then snd e \<noteq> snd e' \<and> tn_last_access_time (node s (snd e)) < tn_last_access_time (node s (snd e'))
      else fst (fst e) < fst (fst e') \<or> fst (fst e) = fst (fst e') \<and> snd (fst e) < snd (fst e'))"

definition heap_mins :: "radix_cache \<Rightarrow> entry list \<Rightarrow> entry list" where
  "heap_mins s h = filter (\<lambda>e. \<not> list_ex (\<lambda>e'. heap_less s e' e) h) h"

definition heap_pop :: "nat \<Rightarrow> radix_cache \<Rightarrow> entry list \<Rightarrow> entry \<times> entry list" where
  "heap_pop choice s h = (let ms = heap_mins s h; e = ms ! (choice mod length ms) in (e, remove1 e h))"

definition entry_of :: "radix_cache \<Rightarrow> nat \<Rightarrow> entry" where
  "entry_of s n = (get_priority (rc_policy s) (node s n), n)"

section \<open>Deleting and evicting\<close>

definition delete_leaf :: "nat \<Rightarrow> radix_cache \<Rightarrow> radix_cache result" where
  "delete_leaf n s =
     (case child_key (rc_page_size s) (tn_key (node s n)) of
        Inl e \<Rightarrow> Inl e
      | Inr key \<Rightarrow>
          (case tn_parent (node s n) of
             None \<Rightarrow> Inl (AttributeError ''children'')
           | Some p \<Rightarrow>
               raise_if (map_of (tn_children (node s p)) key \<noteq> Some n) (AssertionError ''parent does not have child key'')
                 (let s1 = upd_node p (\<lambda>nd. nd\<lparr>tn_children := AList.delete key (tn_children nd)\<rparr>) s;
                      s2 = s1\<lparr>rc_evictable_size := rc_evictable_size s1 - int (key_len (tn_key (node s n)))\<rparr>
                  in Inr (update_leaf_status p (remove_leaf n s2)))))"

text \<open>The loop of \<^verbatim>\<open>evict\<close>: tokens evicted so far, pops so far, the heap, the cache and the pool.\<close>

partial_function (option) evict_loop ::
  "(int list \<Rightarrow> nat \<Rightarrow> 'p \<Rightarrow> 'p) \<Rightarrow> (nat \<Rightarrow> nat) \<Rightarrow> nat \<Rightarrow> nat \<Rightarrow> nat \<Rightarrow> entry list \<Rightarrow> radix_cache \<Rightarrow> 'p
   \<Rightarrow> (nat \<times> radix_cache \<times> 'p) result option" where
  "evict_loop free_segment tie num_tokens num_evicted j h s pool =
     (if num_evicted < num_tokens \<and> h \<noteq> [] then
        let (e, h1) = heap_pop (tie j) s h; x = snd e
        in (case tn_value (node s x) of
              None \<Rightarrow> Some (Inl (TypeError ''value is None''))
            | Some v \<Rightarrow>
                let pool1 = free_segment v 0 pool
                in (case delete_leaf x s of
                      Inl err \<Rightarrow> Some (Inl err)
                    | Inr s1 \<Rightarrow>
                        (case tn_parent (node s1 x) of
                           None \<Rightarrow> Some (Inl (AttributeError ''children''))
                         | Some p \<Rightarrow>
                             let h2 = (if tn_children (node s1 p) = [] \<and> tn_lock_ref (node s1 p) = 0 then entry_of s1 p # h1 else h1)
                             in evict_loop free_segment tie num_tokens (num_evicted + length v) (j + 1) h2 s1 pool1)))
      else Some (Inr (num_evicted, s, pool)))"

declare evict_loop.simps [code]

definition evict ::
  "(int list \<Rightarrow> nat \<Rightarrow> 'p \<Rightarrow> 'p) \<Rightarrow> (nat \<Rightarrow> nat) \<Rightarrow> nat \<Rightarrow> radix_cache \<Rightarrow> 'p \<Rightarrow> (nat \<times> radix_cache \<times> 'p) result option" where
  "evict free_segment tie num_tokens s pool =
     (if rc_disable s then Some (Inr (0, s, pool))
      else evict_loop free_segment tie num_tokens 0 0 (map (entry_of s) (rc_evictable_leaves s)) s pool)"

text \<open>\<^verbatim>\<open>evict_from_tree_cache\<close> for an allocator that is not the hybrid one: evict only the shortfall.\<close>

definition evict_from_tree_cache ::
  "(int list \<Rightarrow> nat \<Rightarrow> 'p \<Rightarrow> 'p) \<Rightarrow> ('p \<Rightarrow> nat) \<Rightarrow> (nat \<Rightarrow> nat) \<Rightarrow> nat \<Rightarrow> radix_cache \<Rightarrow> 'p \<Rightarrow> (radix_cache \<times> 'p) result option" where
  "evict_from_tree_cache free_segment available tie num_tokens s pool =
     (if available pool < num_tokens then
        (case evict free_segment tie (num_tokens - available pool) s pool of
           None \<Rightarrow> None
         | Some (Inl e) \<Rightarrow> Some (Inl e)
         | Some (Inr (k, s', pool')) \<Rightarrow> Some (Inr (s', pool')))
      else Some (Inr (s, pool)))"

definition check_decode_capacity ::
  "(int list \<Rightarrow> nat \<Rightarrow> 'p \<Rightarrow> 'p) \<Rightarrow> ('p \<Rightarrow> nat) \<Rightarrow> (nat \<Rightarrow> nat) \<Rightarrow> nat \<Rightarrow> radix_cache \<Rightarrow> 'p \<Rightarrow> (bool \<times> radix_cache \<times> 'p) result option" where
  "check_decode_capacity free_segment available tie num_tokens s pool =
     (case evict_from_tree_cache free_segment available tie num_tokens s pool of
        None \<Rightarrow> None
      | Some (Inl e) \<Rightarrow> Some (Inl e)
      | Some (Inr (s', pool')) \<Rightarrow> Some (Inr (available pool' \<ge> num_tokens, s', pool')))"

section \<open>Popping\<close>

definition entry_rank :: "radix_cache \<Rightarrow> entry \<Rightarrow> int \<times> int \<times> int" where
  "entry_rank s e = (fst (fst e), snd (fst e), tn_last_access_time (node s (snd e)))"

lemma heap_less_rank: "heap_less s e e' \<Longrightarrow> entry_rank s e < entry_rank s e'"
  by (auto simp: heap_less_def entry_rank_def less_prod_def split: if_splits)

lemma heap_mins_nonempty:
  assumes "h \<noteq> []"
  shows "heap_mins s h \<noteq> []"
proof -
  obtain e where e: "e \<in> set h" "entry_rank s e = Min (entry_rank s ` set h)"
    using Min_in [of "entry_rank s ` set h"] assms by (auto simp: image_iff)
  have "\<not> heap_less s e' e" if "e' \<in> set h" for e'
    using heap_less_rank [of s e' e] e(2) Min_le [of "entry_rank s ` set h" "entry_rank s e'"] that by (auto simp: leD)
  then have "e \<in> set (heap_mins s h)" using e(1) by (auto simp: heap_mins_def list_ex_iff)
  then show ?thesis by auto
qed

lemma heap_pop_minimal:
  assumes "h \<noteq> []" "heap_pop c s h = (e, h')"
  shows "e \<in> set h" "h' = remove1 e h" "\<forall>e' \<in> set h. \<not> heap_less s e' e"
proof -
  have "e \<in> set (heap_mins s h)"
    using assms heap_mins_nonempty [OF assms(1), of s] by (auto simp: heap_pop_def Let_def intro!: nth_mem)
  then show "e \<in> set h" "\<forall>e' \<in> set h. \<not> heap_less s e' e" by (auto simp: heap_mins_def list_ex_iff)
  show "h' = remove1 e h" using assms(2) by (auto simp: heap_pop_def Let_def)
qed

section \<open>Deleting a leaf\<close>

lemma delete_store:
  assumes p: "tn_parent (node s n) = Some p" and del: "delete_leaf n s = Inr s'"
  shows "tn_children (node s' m) = (if m = p then AList.delete (child_key_of (rc_page_size s) (tn_key (node s n))) (tn_children (node s p)) else tn_children (node s m))"
    "tn_parent (node s' m) = tn_parent (node s m)" "tn_key (node s' m) = tn_key (node s m)" "tn_value (node s' m) = tn_value (node s m)"
    "tn_lock_ref (node s' m) = tn_lock_ref (node s m)" "rc_counter s' = rc_counter s" "same_config s s'"
    "rc_evictable_size s' = rc_evictable_size s - int (key_len (tn_key (node s n)))" "rc_protected_size s' = rc_protected_size s"
    "set (rc_evictable_leaves s') = (if is_leaf s' p then insert p (set (rc_evictable_leaves s) - {n}) else set (rc_evictable_leaves s) - {n} - {p})"
    "distinct (rc_evictable_leaves s) \<Longrightarrow> distinct (rc_evictable_leaves s')"
proof -
  define K where "K = child_key_of (rc_page_size s) (tn_key (node s n))"
  define s3 where "s3 = remove_leaf n ((upd_node p (\<lambda>nd. nd\<lparr>tn_children := AList.delete K (tn_children nd)\<rparr>) s)
    \<lparr>rc_evictable_size := rc_evictable_size s - int (key_len (tn_key (node s n)))\<rparr>)"
  have s': "s' = update_leaf_status p s3"
    using del p by (auto simp: delete_leaf_def child_key_def raise_if_def Let_def s3_def K_def upd_node_def split: if_splits)
  have nodes: "rc_nodes s3 = (rc_nodes s)(p := (node s p)\<lparr>tn_children := AList.delete K (tn_children (node s p))\<rparr>)"
    by (simp add: s3_def remove_leaf_def upd_node_def)
  show "tn_children (node s' m) = (if m = p then AList.delete (child_key_of (rc_page_size s) (tn_key (node s n))) (tn_children (node s p)) else tn_children (node s m))"
    "tn_parent (node s' m) = tn_parent (node s m)" "tn_key (node s' m) = tn_key (node s m)" "tn_value (node s' m) = tn_value (node s m)"
    "tn_lock_ref (node s' m) = tn_lock_ref (node s m)"
    by (simp_all add: s' nodes K_def)
  show "rc_counter s' = rc_counter s" "same_config s s'"
    "rc_evictable_size s' = rc_evictable_size s - int (key_len (tn_key (node s n)))" "rc_protected_size s' = rc_protected_size s"
    by (simp_all add: s' s3_def remove_leaf_def upd_node_def same_config_def)
  have lv: "rc_evictable_leaves s3 = filter (\<lambda>m. m \<noteq> n) (rc_evictable_leaves s)" by (simp add: s3_def remove_leaf_def upd_node_def)
  have il: "is_leaf s' p = is_leaf s3 p" by (simp add: s' is_leaf_def)
  show "set (rc_evictable_leaves s') = (if is_leaf s' p then insert p (set (rc_evictable_leaves s) - {n}) else set (rc_evictable_leaves s) - {n} - {p})"
    unfolding il unfolding s' leaf_status_leaves(1) lv by auto
  show "distinct (rc_evictable_leaves s')" if "distinct (rc_evictable_leaves s)"
    using that unfolding s' by (intro leaf_status_leaves(2)) (simp add: lv)
qed

lemma delete_defined:
  assumes ok: "tree_ok s T" and n: "n \<in> live s T" and p: "tn_parent (node s n) = Some p"
  shows "\<exists>s'. delete_leaf n s = Inr s'"
proof -
  obtain ns xs vs where T: "T n = Some (ns, xs, vs)" "n \<noteq> rc_root_node s" using n by (auto simp: live_layout)
  obtain q where q: "tn_parent (node s n) = Some q"
    "map_of (tn_children (node s q)) (child_key_of (rc_page_size s) (tn_key (node s n))) = Some n" "rc_page_size s \<le> key_len (tn_key (node s n))"
    by (rule node_parts [OF ok T])
  show ?thesis using q p child_key_defined [OF tree_okD(1) [OF ok] q(3)] by (simp add: delete_leaf_def Let_def)
qed

lemma delete_ok:
  assumes ok: "tree_ok s T" and n: "n \<in> live s T" and kids: "tn_children (node s n) = []" and p: "tn_parent (node s n) = Some p"
    and del: "delete_leaf n s = Inr s'"
  shows "tree_ok s' (T(n := None))"
proof -
  let ?T = "T(n := None)" and ?ps = "rc_page_size s"
  note d = delete_store [OF p del]
  have cfg: "rc_page_size s' = ?ps" "rc_is_eagle s' = rc_is_eagle s" "rc_root_node s' = rc_root_node s"
    using d(7) by (simp_all add: same_config_def)
  have nr: "n \<noteq> rc_root_node s" using n by (simp add: live_def)
  show ?thesis
  proof (rule tree_okI)
    show "0 < rc_page_size s'" "finite (dom ?T)" "?T (rc_root_node s') = Some ((None, None), [], [])"
      "tn_parent (node s' (rc_root_node s')) = None" "tn_value (node s' (rc_root_node s')) = Some []"
      using tree_okD [OF ok] nr by (simp_all add: cfg d)
    show "m < rc_counter s'" if "m \<in> dom ?T" for m using that tree_okD(3) [OF ok, of m] by (auto simp: d split: if_splits)
  next
    fix m ms xs vs assume m: "?T m = Some (ms, xs, vs)" "m \<noteq> rc_root_node s'"
    then have Tm: "T m = Some (ms, xs, vs)" "m \<noteq> rc_root_node s" "m \<noteq> n" by (auto simp: cfg split: if_splits)
    obtain q nsq xq vq w where q: "tn_parent (node s m) = Some q" "T q = Some (nsq, xq, vq)" "q = rc_root_node s \<or> nsq = ms"
      "map_of (tn_children (node s q)) (child_key_of ?ps (tn_key (node s m))) = Some m"
      "ns_of (tn_key (node s m)) = ms" "rk_is_bigram (tn_key (node s m)) = rc_is_eagle s"
      "tn_value (node s m) = Some w" "xs = xq @ units (tn_key (node s m))" "vs = vq @ w"
      "length w = key_len (tn_key (node s m))" "0 < key_len (tn_key (node s m))" "?ps dvd key_len (tn_key (node s m))"
      by (rule node_parts [OF ok Tm(1,2)])
    have qn: "q \<noteq> n" using q(4) kids by auto
    have "map_of (tn_children (node s p)) (child_key_of ?ps (tn_key (node s n))) = Some n"
    proof -
      obtain ns' xs' vs' where T: "T n = Some (ns', xs', vs')" using n by (auto simp: live_layout)
      show ?thesis by (rule node_parts [OF ok T nr]) (use p in simp)
    qed
    then have "q = p \<Longrightarrow> child_key_of ?ps (tn_key (node s m)) \<noteq> child_key_of ?ps (tn_key (node s n))" using q(4) Tm(3) by auto
    then show "node_ok s' ?T m ms xs vs" using q qn
      by (intro node_okI [of _ _ q _ nsq xq vq _ w]) (auto simp: d cfg delete_conv')
  next
    fix q assume "q \<in> dom ?T"
    then have qT: "q \<in> dom T" "q \<noteq> n" by (auto split: if_splits)
    have old: "children_ok s T q" by (rule tree_okD(7) [OF ok qT(1)])
    show "children_ok s' ?T q"
    proof (cases "q = p")
      case True
      have "c \<noteq> n" if "map_of (tn_children (node s p)) j = Some c" "j \<noteq> child_key_of ?ps (tn_key (node s n))" for c j
        using child_found(4) [OF ok _ that(1)] qT True that(2) by blast
      then show ?thesis using old True unfolding children_ok_def d cfg by (auto simp: delete_conv' distinct_delete split: if_splits)
    next
      case False
      have "c \<noteq> n" if "map_of (tn_children (node s q)) j = Some c" for c j
        using child_found(3) [OF ok qT(1) that] p False by auto
      then show ?thesis using old False unfolding children_ok_def d cfg by auto
    qed
  qed
qed
lemma delete_empty_children:
  assumes ok: "tree_ok s' T'" and p: "p \<in> dom T'" "p \<noteq> rc_root_node s' \<Longrightarrow> 0 \<le> tn_lock_ref (node s' p)" "tn_lock_ref (node s' (rc_root_node s')) = 1"
  shows "is_leaf s' p \<longleftrightarrow> tn_lock_ref (node s' p) = 0 \<and> tn_children (node s' p) = []"
proof (cases "p = rc_root_node s'")
  case False
  then have "p \<in> live s' T'" using p(1) by (simp add: live_def)
  then show ?thesis using leaf_children [OF ok] p(2) False by (auto simp: is_leaf_def)
qed (use p(3) in \<open>auto simp: is_leaf_def\<close>)

lemma delete_books:
  assumes ok: "tree_ok s T" and n: "n \<in> live s T" and kids: "tn_children (node s n) = []" and p: "tn_parent (node s n) = Some p"
    and del: "delete_leaf n s = Inr s'" and b: "books s T L" and free: "tn_lock_ref (node s n) = 0"
  shows "books s' (T(n := None)) L" "n \<notin> set L"
    and "set (rc_evictable_leaves s') = set (rc_evictable_leaves s) - {n} \<union>
      (if tn_children (node s' p) = [] \<and> tn_lock_ref (node s' p) = 0 then {p} else {})" "p \<notin> set (rc_evictable_leaves s)"
proof -
  let ?T = "T(n := None)"
  note d = delete_store [OF p del]
  have ok': "tree_ok s' ?T" by (rule delete_ok [OF ok n kids p del])
  have nr: "n \<noteq> rc_root_node s" and Tn: "\<exists>ns xs vs. T n = Some (ns, xs, vs)" using n by (auto simp: live_layout)
  have root: "rc_root_node s' = rc_root_node s" using d(7) by (simp add: same_config_def)
  have lock: "\<forall>m \<in> live s T. tn_lock_ref (node s m) = holders T L m" and LT: "set L \<subseteq> dom T" using b by (auto simp: books_def)
  show nL: "n \<notin> set L"
  proof
    assume "n \<in> set L"
    moreover have "below T n n" using Tn by (auto simp: below_def)
    ultimately have "filter (below T n) L \<noteq> []" by (auto simp: filter_empty_conv)
    then show False using lock n free by (simp add: holders_def)
  qed
  have hold: "holders ?T L m = holders T L m" if "m \<noteq> n" for m
  proof -
    have "filter (below ?T m) L = filter (below T m) L"
      using that nL by (intro filter_cong [OF refl]) (auto simp: below_def)
    then show ?thesis by (simp add: holders_def)
  qed
  have lv: "live s' ?T = live s T - {n}" by (auto simp: live_def root)
  have fin: "finite (live s T)" using tree_okD(2) [OF ok] by (simp add: live_def)
  have fd: "finite (dom ?T)" by (rule tree_okD(2) [OF ok'])
  have size: "size_where s' ?T u = size_where s T u - (if u then int (key_len (tn_key (node s n))) else 0)" for u
    using sum.remove [OF fin n, of "\<lambda>m. if (tn_lock_ref (node s m) = 0) = u then int (key_len (tn_key (node s m))) else 0"] free
    unfolding size_where_sum [OF fd] size_where_sum [OF tree_okD(2) [OF ok]] lv d(3,5) by auto
  obtain q where q: "q = p" "q \<in> dom T" "map_of (tn_children (node s q)) (child_key_of (rc_page_size s) (tn_key (node s n))) = Some n" "q \<noteq> n"
  proof -
    obtain ns xs vs where T: "T n = Some (ns, xs, vs)" using Tn by blast
    show thesis by (rule node_parts [OF ok T nr]) (use p T that in force)
  qed
  then have pT: "p \<in> dom ?T" "p \<noteq> n" by auto
  have full: "tn_children (node s p) \<noteq> []" using q by auto
  then show pl: "p \<notin> set (rc_evictable_leaves s)" using b by (auto simp: books_def)
  have pos: "p \<noteq> rc_root_node s' \<Longrightarrow> 0 \<le> tn_lock_ref (node s' p)"
    using lock q(1,2) holders_nonneg [of T L p] by (auto simp: d(5) root live_def)
  have r1: "tn_lock_ref (node s' (rc_root_node s')) = 1" using b by (simp add: d(5) root books_def)
  have leaf: "is_leaf s' p \<longleftrightarrow> tn_lock_ref (node s' p) = 0 \<and> tn_children (node s' p) = []"
    by (rule delete_empty_children [OF ok' pT(1) pos r1])
  show lvs: "set (rc_evictable_leaves s') = set (rc_evictable_leaves s) - {n} \<union>
      (if tn_children (node s' p) = [] \<and> tn_lock_ref (node s' p) = 0 then {p} else {})"
    unfolding d(10) leaf using pl by auto
  have pr: "tn_lock_ref (node s' p) = 0 \<Longrightarrow> p \<noteq> rc_root_node s" using r1 root by auto
  have leaves: "set (rc_evictable_leaves s') = {m \<in> live s' ?T. tn_lock_ref (node s' m) = 0 \<and> tn_children (node s' m) = []}"
  proof -
    have "{m \<in> live s' ?T. tn_lock_ref (node s' m) = 0 \<and> tn_children (node s' m) = []} =
        {m \<in> live s T. tn_lock_ref (node s m) = 0 \<and> tn_children (node s m) = []} - {n} \<union>
        (if tn_children (node s' p) = [] \<and> tn_lock_ref (node s' p) = 0 then {p} else {})"
      using full pr pT q(2) q(1) unfolding lv by (auto simp: d(1,5) live_def split: if_splits)
    then show ?thesis unfolding lvs using b by (simp add: books_def)
  qed
  have "\<forall>m \<in> live s' ?T. tn_lock_ref (node s' m) = holders ?T L m" using lock hold by (auto simp: lv d(5))
  moreover have "set L \<subseteq> dom ?T" using LT nL by auto
  moreover have "distinct (rc_evictable_leaves s')" using b by (intro d(11)) (simp add: books_def)
  ultimately show "books s' ?T L" using b r1 leaves by (simp add: books_def d(8,9) size)
qed

section \<open>Unlocked nodes have an unlocked leaf below them\<close>

lemma below_trans:
  assumes "below T a b" "below T b c"
  shows "below T a c"
proof -
  obtain ns xa va xb vb xc vc where "T a = Some (ns, xa, va)" "T b = Some (ns, xb, vb)" "T c = Some (ns, xc, vc)"
    "length xa \<le> length xb" "length xb \<le> length xc" "take (length xa) xb = xa" "take (length xb) xc = xb"
    using assms by (auto simp: below_def)
  moreover from this have "take (length xa) xc = xa" by (metis min.absorb1 take_take)
  ultimately show ?thesis by (auto simp: below_def)
qed

lemma filter_le: "(\<And>x. x \<in> set xs \<Longrightarrow> P x \<Longrightarrow> Q x) \<Longrightarrow> length (filter P xs) \<le> length (filter Q xs)"
  by (induction xs) auto

lemma leafless_nothing_evictable:
  assumes ok: "tree_ok s T" and b: "books s T L" and none: "rc_evictable_leaves s = []"
  shows "rc_evictable_size s = 0"
proof -
  let ?S = "{n \<in> live s T. tn_lock_ref (node s n) = 0}" and ?len = "\<lambda>n. length (fst (snd (the (T n))))"
  have lock: "\<forall>m \<in> live s T. tn_lock_ref (node s m) = holders T L m" using b by (simp add: books_def)
  have fin: "finite ?S" using tree_okD(2) [OF ok] by (simp add: live_def)
  have "?S = {}"
  proof (rule ccontr)
    assume "?S \<noteq> {}"
    then obtain n where n: "n \<in> ?S" "?len n = Max (?len ` ?S)" using fin Max_in [of "?len ` ?S"] by (auto simp: image_iff)
    have "tn_children (node s n) \<noteq> []" using b none n(1) by (auto simp: books_def)
    then obtain k c rest where "tn_children (node s n) = (k, c) # rest" by (metis neq_Nil_conv surj_pair)
    then have c: "map_of (tn_children (node s n)) k = Some c" by simp
    have nd: "n \<in> dom T" using n(1) by (simp add: live_def)
    note cf = child_found [OF ok nd c]
    have cl: "c \<in> live s T" using cf(1,2) by (simp add: live_def)
    have sub: "below T c m \<Longrightarrow> below T n m" if "m \<in> dom T" for m
    proof -
      assume cm: "below T c m"
      have "below T n c" using below_step [OF ok cl _ cf(3), of n] n(1) nd by (auto simp: below_def)
      then show "below T n m" using cm below_trans by blast
    qed
    have "holders T L c \<le> holders T L n"
    proof -
      have "length (filter (below T c) L) \<le> length (filter (below T n) L)"
        using sub b unfolding books_def by (intro filter_le) blast
      then show ?thesis by (simp add: holders_def)
    qed
    then have "c \<in> ?S" using lock cl n(1) holders_nonneg [of T L c] by auto
    then have "?len c \<le> ?len n" using n(2) fin by simp
    moreover have "?len n < ?len c" by (rule live_parent [OF ok cl]) (use cf(3) in simp)
    ultimately show False by simp
  qed
  then have "size_where s T True = 0" unfolding size_where_def by (intro sum.neutral) auto
  then show ?thesis using b by (simp add: books_def)
qed

section \<open>The loop ends, frees what it evicts, and evicts enough\<close>

text \<open>What eviction does to a cache: nodes disappear, held ones stay, and \<open>k\<close> tokens leave the evictable size.\<close>

definition shrunk :: "nat \<Rightarrow> radix_cache \<Rightarrow> layout \<Rightarrow> radix_cache \<Rightarrow> layout \<Rightarrow> bool" where
  "shrunk k s T s' T' \<longleftrightarrow> tree_ok s' T' \<and> T' \<subseteq>\<^sub>m T \<and> same_config s s' \<and> (\<forall>L. books s T L \<longrightarrow> books s' T' L) \<and>
     rc_evictable_size s' = rc_evictable_size s - int k \<and> (\<forall>n \<in> dom T'. tn_value (node s' n) = tn_value (node s n))"

lemma shrunk_refl: "tree_ok s T \<Longrightarrow> shrunk 0 s T s T"
  by (simp add: shrunk_def same_config_def)

lemma shrunk_trans:
  assumes "shrunk k s T s' T'" "shrunk l s' T' s'' T''"
  shows "shrunk (k + l) s T s'' T''"
proof -
  have "\<forall>n \<in> dom T''. tn_value (node s'' n) = tn_value (node s n)"
    using assms unfolding shrunk_def by (metis map_le_implies_dom_le subsetD)
  then show ?thesis using assms map_le_trans unfolding shrunk_def same_config_def by auto
qed

definition heap_matches :: "radix_cache \<Rightarrow> entry list \<Rightarrow> bool" where
  "heap_matches s h \<longleftrightarrow> distinct (map snd h) \<and> set (map snd h) = set (rc_evictable_leaves s)"

lemma evict_step:
  assumes ok: "tree_ok s T" and b: "books s T L" and h: "heap_matches s h" "h \<noteq> []" and pop: "heap_pop c s h = (e, h1)"
  obtains v p s1 where "snd e \<in> live s T" "tn_lock_ref (node s (snd e)) = 0" "tn_children (node s (snd e)) = []" "tn_value (node s (snd e)) = Some v" "delete_leaf (snd e) s = Inr s1" "tn_parent (node s1 (snd e)) = Some p"
    "shrunk (length v) s T s1 (T(snd e := None))" "books s1 (T(snd e := None)) L"
    "heap_matches s1 (if tn_children (node s1 p) = [] \<and> tn_lock_ref (node s1 p) = 0 then entry_of s1 p # h1 else h1)"
proof -
  let ?x = "snd e" and ?T = "T(snd e := None)"
  note m = heap_pop_minimal [OF h(2) pop]
  have "?x \<in> set (rc_evictable_leaves s)" using m(1) h(1) by (auto simp: heap_matches_def)
  then have x: "?x \<in> live s T" "tn_lock_ref (node s ?x) = 0" "tn_children (node s ?x) = []" using b by (auto simp: books_def)
  obtain ns xs vs where T: "T ?x = Some (ns, xs, vs)" "?x \<noteq> rc_root_node s" using x(1) by (auto simp: live_layout)
  obtain p v where p: "tn_parent (node s ?x) = Some p" "tn_value (node s ?x) = Some v" "length v = key_len (tn_key (node s ?x))"
    by (rule node_parts [OF ok T])
  obtain s1 where del: "delete_leaf ?x s = Inr s1" using delete_defined [OF ok x(1) p(1)] by blast
  note d = delete_store [OF p(1) del]
  have par: "tn_parent (node s1 ?x) = Some p" using p(1) by (simp add: d(2))
  note db = delete_books [OF ok x(1,3) p(1) del _ x(2)]
  have sub: "T(?x := None) \<subseteq>\<^sub>m T" by (auto simp: map_le_def)
  have sh: "shrunk (length v) s T s1 ?T" using delete_ok [OF ok x(1,3) p(1) del] db(1) d sub p(3) by (simp add: shrunk_def)
  have dist: "distinct (map snd h1)" "set (map snd h1) = set (rc_evictable_leaves s) - {?x}"
  proof -
    have dh: "distinct h" "inj_on snd (set h)" using h(1) by (auto simp: heap_matches_def distinct_map)
    have "set h1 = set h - {e}" unfolding m(2) by (rule set_remove1_eq [OF dh(1)])
    then show "set (map snd h1) = set (rc_evictable_leaves s) - {?x}"
      using h(1) m(1) dh(2) unfolding heap_matches_def by (auto dest: inj_onD)
    show "distinct (map snd h1)" using h(1) unfolding m(2) heap_matches_def
      by (metis distinct_map distinct_remove1 inj_on_subset set_remove1_subset)
  qed
  have "heap_matches s1 (if tn_children (node s1 p) = [] \<and> tn_lock_ref (node s1 p) = 0 then entry_of s1 p # h1 else h1)"
    using dist db(3,4) [OF b] by (auto simp: heap_matches_def entry_of_def)
  then show thesis using that [OF x p(2) del par sh db(1) [OF b]] by blast
qed

text \<open>
  The loop's rule.  What holds before the loop and is kept by removing an unlocked leaf and freeing its
  slots holds after it; the loop ends, and short of the request only when nothing evictable is left.
\<close>

definition eviction_invariant ::
  "(int list \<Rightarrow> nat \<Rightarrow> 'p \<Rightarrow> 'p) \<Rightarrow> nat list \<Rightarrow> (radix_cache \<Rightarrow> layout \<Rightarrow> 'p \<Rightarrow> bool) \<Rightarrow> bool" where
  "eviction_invariant free_segment L Inv \<longleftrightarrow> (\<forall>s T pool n v s1. tree_ok s T \<longrightarrow> books s T L \<longrightarrow> Inv s T pool \<longrightarrow> n \<in> live s T \<longrightarrow>
     tn_children (node s n) = [] \<longrightarrow> tn_value (node s n) = Some v \<longrightarrow> shrunk (length v) s T s1 (T(n := None)) \<longrightarrow>
     Inv s1 (T(n := None)) (free_segment v 0 pool))"

lemma eviction_invariantD:
  assumes "eviction_invariant free_segment L Inv" "tree_ok s T" "books s T L" "Inv s T pool" "n \<in> live s T" "tn_children (node s n) = []"
    "tn_value (node s n) = Some v" "shrunk (length v) s T s1 (T(n := None))"
  shows "Inv s1 (T(n := None)) (free_segment v 0 pool)"
  using assms unfolding eviction_invariant_def by blast

lemma evict_loop_rule:
  assumes "eviction_invariant free_segment L Inv" "tree_ok s T" "books s T L" "heap_matches s h" "Inv s T pool"
  shows "\<exists>k s' T' pool'. evict_loop free_segment tie num got j h s pool = Some (Inr (got + k, s', pool')) \<and> shrunk k s T s' T' \<and>
    Inv s' T' pool' \<and> (num \<le> got + k \<or> rc_evictable_size s' = 0)"
  using assms(2-5)
proof (induction "card (dom T)" arbitrary: s T h pool got j rule: less_induct)
  case less
  note ok = less.prems(1)
  show ?case
  proof (cases "got < num \<and> h \<noteq> []")
    case False
    then have "evict_loop free_segment tie num got j h s pool = Some (Inr (got + 0, s, pool))"
      by (subst evict_loop.simps) auto
    moreover have "num \<le> got + 0 \<or> rc_evictable_size s = 0"
      using False leafless_nothing_evictable [OF ok less.prems(2)] less.prems(3) by (auto simp: heap_matches_def)
    ultimately show ?thesis using shrunk_refl [OF ok] less.prems(4) by (intro exI [of _ 0] exI [of _ s] exI [of _ T] exI [of _ pool]) simp
  next
    case True
    obtain e h1 where pop: "heap_pop (tie j) s h = (e, h1)" by (cases "heap_pop (tie j) s h")
    obtain v p s1 where st: "snd e \<in> live s T" "tn_children (node s (snd e)) = []" "tn_value (node s (snd e)) = Some v"
      "delete_leaf (snd e) s = Inr s1"
      "tn_parent (node s1 (snd e)) = Some p" "shrunk (length v) s T s1 (T(snd e := None))" "books s1 (T(snd e := None)) L"
      "heap_matches s1 (if tn_children (node s1 p) = [] \<and> tn_lock_ref (node s1 p) = 0 then entry_of s1 p # h1 else h1)"
      by (rule evict_step [OF ok less.prems(2,3) conjunct2 [OF True] pop])
    let ?h = "if tn_children (node s1 p) = [] \<and> tn_lock_ref (node s1 p) = 0 then entry_of s1 p # h1 else h1"
    let ?T = "T(snd e := None)"
    have step: "evict_loop free_segment tie num got j h s pool = evict_loop free_segment tie num (got + length v) (j + 1) ?h s1 (free_segment v 0 pool)"
      using True pop st(3,4,5) by (subst evict_loop.simps) (simp add: Let_def)
    have ok1: "tree_ok s1 ?T" using st(6) by (simp add: shrunk_def)
    have inv: "Inv s1 ?T (free_segment v 0 pool)"
      by (rule eviction_invariantD [OF assms(1) ok less.prems(2,4) st(1,2,3,6)])
    have "snd e \<in> dom T" using st(1) by (simp add: live_def)
    then have less': "card (dom ?T) < card (dom T)" using card_Diff1_less [OF tree_okD(2) [OF ok]] by simp
    obtain k s' T' pool' where IH:
      "evict_loop free_segment tie num (got + length v) (j + 1) ?h s1 (free_segment v 0 pool) = Some (Inr (got + length v + k, s', pool'))"
      "shrunk k s1 ?T s' T'" "Inv s' T' pool'" "num \<le> got + length v + k \<or> rc_evictable_size s' = 0"
      using less.hyps [OF less' ok1 st(7,8) inv] by blast
    then show ?thesis using step shrunk_trans [OF st(6) IH(2)]
      by (intro exI [of _ "length v + k"] exI [of _ s'] exI [of _ T'] exI [of _ pool']) (simp add: add.assoc)
  qed
qed

lemma evict_rule:
  assumes "eviction_invariant free_segment L Inv" "tree_ok s T" "books s T L" "\<not> rc_disable s" "Inv s T pool"
  shows "\<exists>k s' T' pool'. evict free_segment tie num s pool = Some (Inr (k, s', pool')) \<and> shrunk k s T s' T' \<and>
    Inv s' T' pool' \<and> (num \<le> k \<or> rc_evictable_size s' = 0)"
proof -
  have "heap_matches s (map (entry_of s) (rc_evictable_leaves s))"
    using assms(3) by (simp add: heap_matches_def books_def entry_of_def comp_def)
  from evict_loop_rule [OF assms(1,2,3) this assms(5), of tie num 0 0] show ?thesis using assms(4) by (simp add: evict_def)
qed

section \<open>Eviction and the capacity check, for any pool\<close>

context kv_pool
begin

definition frees_exact :: "radix_cache \<Rightarrow> layout \<Rightarrow> bool" where
  "frees_exact s T \<longleftrightarrow> (\<forall>n \<in> live s T. \<forall>v. tn_value (node s n) = Some v \<longrightarrow> exact v)"

lemma frees_exact_step:
  "frees_exact s T \<Longrightarrow> shrunk k s T s1 (T(n := None)) \<Longrightarrow> frees_exact s1 (T(n := None))"
  unfolding frees_exact_def shrunk_def same_config_def live_def by (metis DiffD1 DiffD2 DiffI dom_fun_upd)

lemma slots_conserved:
  "eviction_invariant free_segment L (\<lambda>s T pool. ready pool \<and> frees_exact s T \<and> int (available pool) + rc_evictable_size s = c)"
  unfolding eviction_invariant_def
proof (intro allI impI)
  fix s T pool n v s1
  assume a: "ready pool \<and> frees_exact s T \<and> int (available pool) + rc_evictable_size s = c"
    and n: "n \<in> live s T" "tn_value (node s n) = Some v" and sh: "shrunk (length v) s T s1 (T(n := None))"
  have "exact v" using a n by (simp add: frees_exact_def)
  then show "ready (free_segment v 0 pool) \<and> frees_exact s1 (T(n := None)) \<and> int (available (free_segment v 0 pool)) + rc_evictable_size s1 = c"
    using a sh free_ready free_available frees_exact_step [OF _ sh] by (simp add: shrunk_def)
qed

lemma evict_spec:
  assumes "tree_ok s T" "books s T L" "\<not> rc_disable s" "ready pool" "frees_exact s T"
  shows "\<exists>k s' T' pool'. evict free_segment tie num s pool = Some (Inr (k, s', pool')) \<and> shrunk k s T s' T' \<and>
    ready pool' \<and> available pool' = available pool + k \<and> (num \<le> k \<or> rc_evictable_size s' = 0)"
proof -
  obtain k s' T' pool' where e: "evict free_segment tie num s pool = Some (Inr (k, s', pool'))" "shrunk k s T s' T'" "ready pool'"
    "int (available pool') + rc_evictable_size s' = int (available pool) + rc_evictable_size s" "num \<le> k \<or> rc_evictable_size s' = 0"
    using evict_rule [OF slots_conserved assms(1,2,3), of pool "int (available pool) + rc_evictable_size s" tie num] assms(4,5) by blast
  moreover have "available pool' = available pool + k" using e(2,4) by (simp add: shrunk_def)
  ultimately show ?thesis by blast
qed

lemma evictable_nonneg: "books s T L \<Longrightarrow> 0 \<le> rc_evictable_size s"
  by (simp add: books_def size_where_def sum_nonneg)

text \<open>The check succeeds exactly when the free slots and the evictable ones suffice.\<close>

lemma check_capacity_spec:
  assumes "tree_ok s T" "books s T L" "\<not> rc_disable s" "ready pool" "frees_exact s T"
  shows "\<exists>k s' T' pool'. check_decode_capacity free_segment available tie num s pool =
      Some (Inr (int num \<le> int (available pool) + rc_evictable_size s, s', pool')) \<and>
    shrunk k s T s' T' \<and> ready pool' \<and> available pool' = available pool + k"
proof (cases "available pool < num")
  case True
  obtain k s' T' pool' where e: "evict free_segment tie (num - available pool) s pool = Some (Inr (k, s', pool'))" "shrunk k s T s' T'"
    "ready pool'" "available pool' = available pool + k" "num - available pool \<le> k \<or> rc_evictable_size s' = 0"
    using evict_spec [OF assms] by blast
  have "books s' T' L" using e(2) assms(2) by (simp add: shrunk_def)
  then have "0 \<le> rc_evictable_size s'" by (rule evictable_nonneg)
  then have "num \<le> available pool' \<longleftrightarrow> int num \<le> int (available pool) + rc_evictable_size s"
    using e(2,4,5) True unfolding shrunk_def by auto
  then show ?thesis using e True
    by (intro exI [of _ k] exI [of _ s'] exI [of _ T'] exI [of _ pool']) (simp add: check_decode_capacity_def evict_from_tree_cache_def)
next
  case False
  then show ?thesis using evictable_nonneg [OF assms(2)] shrunk_refl [OF assms(1)] assms(4)
    by (intro exI [of _ 0] exI [of _ s] exI [of _ T] exI [of _ pool]) (simp add: check_decode_capacity_def evict_from_tree_cache_def)
qed

end

section \<open>Slots stay page-exact\<close>

definition exact_contents :: "nat \<Rightarrow> contents \<Rightarrow> bool" where
  "exact_contents ps C \<longleftrightarrow> (\<forall>ns xs vs. C ns xs vs \<longrightarrow> page_exact ps vs)"

lemma page_exact_drop:
  assumes ps: "0 < ps" and e: "page_exact ps (us @ vs)" and l: "ps dvd length us"
  shows "page_exact ps vs"
proof -
  obtain pages where row: "us @ vs = paged_row ps pages (length pages * ps)" using e by (auto simp: page_exact_def)
  obtain q where q: "length us = q * ps" using l by (metis dvd_div_mult_self)
  have len: "length us + length vs = length pages * ps" using arg_cong [OF row, of length] by (simp add: paged_row_def)
  then have qp: "q \<le> length pages" using q ps by (metis le_add1 mult_le_cancel2)
  have lv: "length vs = (length pages - q) * ps" using len q by (simp add: diff_mult_distrib)
  have "vs = drop (length us) (us @ vs)" by simp
  also have "\<dots> = paged_row ps (drop q pages) (length (drop q pages) * ps)"
  proof (rule nth_equalityI)
    show "length (drop (length us) (us @ vs)) = length (paged_row ps (drop q pages) (length (drop q pages) * ps))" using lv by simp
    fix i assume "i < length (drop (length us) (us @ vs))"
    then have i: "i < (length pages - q) * ps" "q * ps + i < length pages * ps" using lv len q by simp_all
    have "(q * ps + i) div ps = q + i div ps" "(q * ps + i) mod ps = i mod ps" using ps by simp_all
    moreover have "drop (length us) (us @ vs) ! i = paged_row ps pages (length pages * ps) ! (q * ps + i)"
      unfolding row q using qp by (intro nth_drop) simp
    ultimately show "drop (length us) (us @ vs) ! i = paged_row ps (drop q pages) (length (drop q pages) * ps) ! i"
      using i qp by (simp add: nth_paged_row)
  qed
  finally show ?thesis unfolding page_exact_def by blast
qed

lemma exact_nodes:
  assumes ok: "tree_ok s T" and e: "exact_contents (rc_page_size s) (cached (rc_page_size s) T)"
  shows "paged_pool.frees_exact (rc_page_size s) s T"
  unfolding paged_pool.frees_exact_def
proof (intro ballI allI impI)
  fix n v assume n: "n \<in> live s T" and v: "tn_value (node s n) = Some v"
  obtain ns xs vs where T: "T n = Some (ns, xs, vs)" "n \<noteq> rc_root_node s" using n by (auto simp: live_layout)
  obtain p nsp xp vp v' where p: "T p = Some (nsp, xp, vp)" "tn_value (node s n) = Some v'" "vs = vp @ v'"
    by (rule node_parts [OF ok T])
  have "page_exact (rc_page_size s) (vp @ v)" using e cached_path [OF ok T(1)] p v unfolding exact_contents_def by (metis option.inject)
  then show "page_exact (rc_page_size s) v"
    by (rule page_exact_drop [OF tree_okD(1) [OF ok]]) (use path_shape [OF ok p(1)] in simp)
qed

lemma shrunk_represents:
  assumes "shrunk k s T s' T'" "books s T L"
  shows "represents s' (cached (rc_page_size s) T') L" "cached (rc_page_size s) T' ns xs vs \<Longrightarrow> cached (rc_page_size s) T ns xs vs"
proof -
  show "represents s' (cached (rc_page_size s) T') L" using assms unfolding represents_def shrunk_def same_config_def by auto
  show "cached (rc_page_size s) T ns xs vs" if "cached (rc_page_size s) T' ns xs vs"
    using that assms(1) unfolding cached_def shrunk_def map_le_def by (metis domI)
qed

section \<open>Properties\<close>

text \<open>
  C9. Eviction ends and frees enough.  With the paged allocator and any eviction policy and tie-breaking, an
  eviction returns; the slots it reports are free in the allocator afterwards and have left the evictable
  size; it stops short of the request only when nothing evictable is left; what remains cached was cached
  before with the same slots; and the held nodes and all books are intact.
\<close>

theorem evict_frees_enough:
  assumes "represents s C L" "\<not> rc_disable s" "paged_ready (rc_page_size s) pool" "exact_contents (rc_page_size s) C"
  shows "\<exists>k s' pool' C'. evict paged_free_segment tie num s pool = Some (Inr (k, s', pool')) \<and> represents s' C' L \<and> C' \<le> C \<and>
    available_size pool' = available_size pool + k \<and> rc_evictable_size s' = rc_evictable_size s - int k \<and>
    (num \<le> k \<or> rc_evictable_size s' = 0)"
proof -
  obtain T where T: "tree_ok s T" "books s T L" "cached (rc_page_size s) T = C" using assms(1) by (auto simp: represents_def)
  have e: "paged_pool.frees_exact (rc_page_size s) s T" using exact_nodes [OF T(1)] T(3) assms(4) by simp
  obtain k s' T' pool' where ev: "evict paged_free_segment tie num s pool = Some (Inr (k, s', pool'))" "shrunk k s T s' T'"
    "available_size pool' = available_size pool + k" "num \<le> k \<or> rc_evictable_size s' = 0"
    using paged_pool.evict_spec [OF T(1,2) assms(2,3) e] by blast
  have "cached (rc_page_size s) T' \<le> C" using shrunk_represents(2) [OF ev(2) T(2)] T(3) by (auto simp: le_fun_def)
  moreover have "rc_evictable_size s' = rc_evictable_size s - int k" using ev(2) by (simp add: shrunk_def)
  ultimately show ?thesis using ev shrunk_represents(1) [OF ev(2) T(2)] by blast
qed

lemma token_evict_frees_enough:
  assumes "represents s C L" "\<not> rc_disable s" "token_ready pool"
  shows "\<exists>k s' pool'. evict token_free_segment tie num s pool = Some (Inr (k, s', pool')) \<and>
    available_size pool' = available_size pool + k \<and> (num \<le> k \<or> rc_evictable_size s' = 0)"
proof -
  obtain T where T: "tree_ok s T" "books s T L" using assms(1) by (auto simp: represents_def)
  have "token_pool.frees_exact s T" by (simp add: token_pool.frees_exact_def)
  from token_pool.evict_spec [OF T assms(2,3) this] show ?thesis by blast
qed

lemma demo_exact: "exact_contents 2 demo_contents"
  unfolding exact_contents_def
proof (intro allI impI)
  fix ns xs and vs :: "int list" assume d: "demo_contents ns xs vs"
  define k where "k = length xs div 2"
  have "vs = [] \<or> length xs = 2 * k \<and> k \<le> 2 \<and> vs = take (2 * k) [10, 11, 12, 13]"
    using d unfolding with_sequence_def no_contents_def k_def by auto
  moreover have "k \<le> 2 \<longleftrightarrow> k = 0 \<or> k = 1 \<or> k = 2" by auto
  ultimately have "vs = [] \<or> vs = [10, 11] \<or> vs = [10, 11, 12, 13]" by auto
  moreover have "page_exact 2 []" by (auto simp: page_exact_def paged_row_def intro!: exI [of _ "[]"])
  moreover have "page_exact 2 [10, 11]" unfolding page_exact_def by (rule exI [of _ "[5]"]) code_simp
  moreover have "page_exact 2 [10, 11, 12, 13]" unfolding page_exact_def by (rule exI [of _ "[5, 6]"]) code_simp
  ultimately show "page_exact 2 vs" by blast
qed

definition demo_pool :: allocator where
  "demo_pool = (paged_init 20 2 False)\<lparr>al_free_pages := [1, 2]\<rparr>"

lemma demo_pool_ready: "paged_ready 2 demo_pool" "available_size demo_pool = 4"
  by (simp_all add: paged_ready_def demo_pool_def paged_init_def paged_clear_def available_size_def)

theorem evict_frees_enough_witness:
  "\<exists>n s k s' pool'. cache_insert (demo_key [1, 2, 3, 4, 5]) (Some [10, 11, 12, 13, 14]) 0 False demo_cache = Some (Inr (0, Some n, s)) \<and>
     evict paged_free_segment (\<lambda>_. 0) 3 s demo_pool = Some (Inr (k, s', pool')) \<and> available_size pool' = 4 + k"
proof -
  obtain n s where i: "cache_insert (demo_key [1, 2, 3, 4, 5]) (Some [10, 11, 12, 13, 14]) 0 False demo_cache = Some (Inr (0, Some n, s))"
    "represents s demo_contents []" "same_config demo_cache s" using demo_insert by blast
  have c: "rc_page_size s = 2" "\<not> rc_disable s" using i(3) demo_ready(1) demo_key_ready(1) by (simp_all add: same_config_def)
  show ?thesis using evict_frees_enough [OF i(2) c(2), of demo_pool "\<lambda>_. 0" 3] i(1) demo_pool_ready demo_exact unfolding c(1) by auto
qed

text \<open>
  The capacity check before a decode step is exact.  It returns, after evicting what is needed, and its
  answer is whether the request fits into the free slots together with the evictable ones; a yes means
  that the allocator then has that many slots free.
\<close>

theorem decode_capacity_check_exact:
  assumes "represents s C L" "\<not> rc_disable s" "paged_ready (rc_page_size s) pool" "exact_contents (rc_page_size s) C"
  shows "\<exists>s' pool' C'. check_decode_capacity paged_free_segment available_size tie num s pool =
      Some (Inr (int num \<le> int (available_size pool) + rc_evictable_size s, s', pool')) \<and> represents s' C' L \<and> C' \<le> C \<and>
    (int num \<le> int (available_size pool) + rc_evictable_size s \<longrightarrow> num \<le> available_size pool')"
proof -
  obtain T where T: "tree_ok s T" "books s T L" "cached (rc_page_size s) T = C" using assms(1) by (auto simp: represents_def)
  have e: "paged_pool.frees_exact (rc_page_size s) s T" using exact_nodes [OF T(1)] T(3) assms(4) by simp
  obtain k s' T' pool' where ev: "check_decode_capacity paged_free_segment available_size tie num s pool =
      Some (Inr (int num \<le> int (available_size pool) + rc_evictable_size s, s', pool'))" "shrunk k s T s' T'"
    using paged_pool.check_capacity_spec [OF T(1,2) assms(2,3) e] by blast
  have "cached (rc_page_size s) T' \<le> C" using shrunk_represents(2) [OF ev(2) T(2)] T(3) by (auto simp: le_fun_def)
  moreover have "int num \<le> int (available_size pool) + rc_evictable_size s \<longrightarrow> num \<le> available_size pool'"
    using ev(1) by (auto simp: check_decode_capacity_def split: option.splits sum.splits)
  ultimately show ?thesis using ev(1) shrunk_represents(1) [OF ev(2) T(2)] by blast
qed

theorem decode_capacity_check_exact_witness:
  "\<exists>n s s' pool'. cache_insert (demo_key [1, 2, 3, 4, 5]) (Some [10, 11, 12, 13, 14]) 0 False demo_cache = Some (Inr (0, Some n, s)) \<and>
     check_decode_capacity paged_free_segment available_size (\<lambda>_. 0) 3 s demo_pool = Some (Inr (3 \<le> 4 + rc_evictable_size s, s', pool'))"
proof -
  obtain n s where i: "cache_insert (demo_key [1, 2, 3, 4, 5]) (Some [10, 11, 12, 13, 14]) 0 False demo_cache = Some (Inr (0, Some n, s))"
    "represents s demo_contents []" "same_config demo_cache s" using demo_insert by blast
  have c: "rc_page_size s = 2" "\<not> rc_disable s" using i(3) demo_ready(1) demo_key_ready(1) by (simp_all add: same_config_def)
  show ?thesis using decode_capacity_check_exact [OF i(2) c(2), of demo_pool "\<lambda>_. 0" 3] i(1) demo_pool_ready demo_exact unfolding c(1) by auto
qed

text \<open>
  C6. A locked prefix survives eviction.  After a request has matched its key and locked the node it was
  given, no eviction of any amount takes a slot of that prefix away: a match of the same key afterwards
  returns the same slots.
\<close>

theorem locked_prefix_survives_eviction:
  assumes "represents s C L" "\<not> rc_disable s" "fits s key" "paged_ready (rc_page_size s) pool" "exact_contents (rc_page_size s) C"
  shows "\<exists>vs n s1 e s2 k s3 pool' m s4. match_prefix key s = Some (Inr (vs, n, s1)) \<and> inc_lock_ref n s1 = Some (Inr (e, s2)) \<and>
    evict paged_free_segment tie num s2 pool = Some (Inr (k, s3, pool')) \<and> match_prefix key s3 = Some (Inr (vs, m, s4))"
proof -
  let ?U = "units (aligned_key s key)" and ?ns = "ns_of key" and ?ps = "rc_page_size s"
  obtain T where T: "tree_ok s T" "books s T L" "cached ?ps T = C" using assms(1) by (auto simp: represents_def)
  obtain vs n s1 T1 where m: "match_prefix key s = Some (Inr (vs, n, s1))" "reshaped s T s1 T1"
    "node_at s1 T1 n ?ns (take (length vs) ?U) vs" "longest_of (cached ?ps T) ?ns ?U vs"
    using match_prefix_spec [OF T(1) assms(2,3)] by blast
  have r: "tree_ok s1 T1" "books s1 T1 L" "same_config s s1" "cached ?ps T1 = C" using m(2) T by (auto simp: reshaped_def)
  have n: "n \<in> dom T1" "\<not> rc_disable s1" using m(3) r(3) assms(2) by (auto simp: node_at_def same_config_def)
  obtain e s2 where l: "inc_lock_ref n s1 = Some (Inr (e, s2))" "tree_ok s2 T1" "books s2 T1 (n # L)" "same_config s1 s2"
    using inc_spec [OF r(1,2) n(2,1)] by blast
  have on2: "\<not> rc_disable s2" using l(4) n(2) by (simp add: same_config_def)
  have cs: "rc_page_size s2 = ?ps" using r(3) l(4) by (simp add: same_config_def)
  have rd: "paged_ready (rc_page_size s2) pool" using assms(4) cs by simp
  have ex: "paged_pool.frees_exact (rc_page_size s2) s2 T1" using exact_nodes [OF l(2)] cs r(4) assms(5) by simp
  obtain k s3 T3 pool' where ev: "evict paged_free_segment tie num s2 pool = Some (Inr (k, s3, pool'))" "shrunk k s2 T1 s3 T3"
    using paged_pool.evict_spec [OF l(2,3) on2 rd ex] by blast
  have b3: "books s3 T3 (n # L)" "tree_ok s3 T3" "same_config s2 s3" "T3 \<subseteq>\<^sub>m T1" using ev(2) l(3) by (auto simp: shrunk_def)
  have cfg: "same_config s s3" using r(3) l(4) b3(3) by (simp add: same_config_def)
  have f3: "\<not> rc_disable s3" "fits s3 key" using cfg assms(2,3) by (simp_all add: same_config_def fits_def)
  have "n \<in> dom T3" using b3(1) by (simp add: books_def)
  then have T3n: "T3 n = T1 n" using b3(4) by (auto simp: map_le_def)
  have sub: "cached ?ps T3 ms xs ws \<Longrightarrow> C ms xs ws" for ms xs ws using shrunk_represents(2) [OF ev(2) l(3)] cs r(4) by simp
  have "longest_of (cached ?ps T3) ?ns ?U vs"
  proof -
    have "cached ?ps T3 ?ns (take (length vs) ?U) vs"
    proof (cases "n = rc_root_node s1")
      case True
      then show ?thesis using m(3) tree_okD(4) [OF r(1)] by (auto simp: node_at_def)
    next
      case False
      then have "T3 n = Some (?ns, take (length vs) ?U, vs)" using m(3) T3n by (auto simp: node_at_def)
      then show ?thesis using cached_path [OF b3(2)] cfg by (simp add: same_config_def)
    qed
    then show ?thesis using m(4) sub T(3) unfolding longest_of_def by blast
  qed
  moreover have ps3: "rc_page_size s3 = ?ps" using cfg by (simp add: same_config_def)
  ultimately have "longest_of (cached (rc_page_size s3) T3) ?ns ?U vs" by simp
  moreover obtain ws m' s4 where m4: "match_prefix key s3 = Some (Inr (ws, m', s4))"
    "longest_of (cached (rc_page_size s3) T3) ?ns (units (aligned_key s3 key)) ws"
    using match_prefix_spec [OF b3(2) f3] by blast
  ultimately have "ws = vs" using longest_of_unique [OF b3(2)] aligned_key_config [OF cfg, of key] by simp
  then show ?thesis using m(1) l(1) ev(1) m4(1) by blast
qed

theorem locked_prefix_survives_eviction_witness:
  "\<exists>m0 s vs n s1 e s2 k s3 pool' m s4.
     cache_insert (demo_key [1, 2, 3, 4, 5]) (Some [10, 11, 12, 13, 14]) 0 False demo_cache = Some (Inr (0, Some m0, s)) \<and>
     match_prefix (demo_key [1, 2, 9]) s = Some (Inr (vs, n, s1)) \<and> inc_lock_ref n s1 = Some (Inr (e, s2)) \<and>
     evict paged_free_segment (\<lambda>_. 0) 9 s2 demo_pool = Some (Inr (k, s3, pool')) \<and> match_prefix (demo_key [1, 2, 9]) s3 = Some (Inr (vs, m, s4))"
proof -
  obtain n s where i: "cache_insert (demo_key [1, 2, 3, 4, 5]) (Some [10, 11, 12, 13, 14]) 0 False demo_cache = Some (Inr (0, Some n, s))"
    "represents s demo_contents []" "same_config demo_cache s" using demo_insert by blast
  have c: "rc_page_size s = 2" "\<not> rc_disable s" "fits s (demo_key [1, 2, 9])"
    using i(3) demo_ready(1) demo_key_ready(1) by (simp_all add: same_config_def fits_def demo_key_def make_key_def)
  show ?thesis
    using locked_prefix_survives_eviction [OF i(2) c(2,3), of demo_pool "\<lambda>_. 0" 9] i(1) demo_pool_ready demo_exact unfolding c(1) by blast
qed

end
