(* ===== verification/PageLedger.thy ===== *)
theory PageLedger
  imports RadixEvict
begin

text \<open>
  The ledger of KV pages.  A page is free in the allocator, owned by a request, or cached in the tree.
  The lemmas show that storing a row in the tree and evicting a leaf move pages between these places
  and that no page is ever in two of them.
\<close>

section \<open>Pages in one place\<close>

text \<open>\<open>M\<close> are the pages that are free or owned, \<open>K\<close> the cached ones, \<open>P\<close> all of them.\<close>

definition apart :: "int multiset \<Rightarrow> int set \<Rightarrow> int set \<Rightarrow> bool" where
  "apart M K P \<longleftrightarrow> (\<forall>p. count M p \<le> 1) \<and> set_mset M \<inter> K = {} \<and> set_mset M \<union> K = P"

lemma count_distinct: "(\<forall>p. count (mset xs) p \<le> 1) \<longleftrightarrow> distinct xs"
  by (induction xs) (auto simp: count_eq_zero_iff le_Suc_eq not_in_iff)

lemma apart_distinct:
  assumes "apart (M + mset ids) K P"
  shows "distinct ids" "set ids \<inter> K = {}" "set ids \<inter> set_mset M = {}"
proof -
  have c: "count M p + count (mset ids) p \<le> 1" for p using assms by (simp add: apart_def)
  then show "distinct ids" using count_distinct by (metis add_leD2)
  show "set ids \<inter> K = {}" using assms by (auto simp: apart_def)
  have "\<not> (0 < count M p \<and> 0 < count (mset ids) p)" for p using c [of p] by linarith
  then show "set ids \<inter> set_mset M = {}" unfolding count_greater_zero_iff by auto
qed

lemma apart_cache:
  assumes "apart (M + mset ids) K P"
  shows "apart M (K \<union> set ids) P"
proof -
  have c: "count M p + count (mset ids) p \<le> 1" for p using assms by (simp add: apart_def)
  then have "\<forall>p. count M p \<le> 1" by (meson add_leD1)
  then show ?thesis using assms apart_distinct [OF assms] unfolding apart_def by auto
qed

lemma apart_evict:
  assumes "apart M K P" "distinct ids" "set ids \<subseteq> K"
  shows "apart (M + mset ids) (K - set ids) P"
proof -
  have "count (M + mset ids) p \<le> 1" for p
  proof (cases "p \<in> set ids")
    case True
    then have "count M p = 0" using assms(1,3) by (auto simp: apart_def count_eq_zero_iff)
    then show ?thesis using assms(2) count_distinct [of ids] by simp
  next
    case False
    then have "count (mset ids) p = 0" by (simp add: count_eq_zero_iff)
    then show ?thesis using assms(1) unfolding apart_def by (metis add.right_neutral count_union)
  qed
  then show ?thesis using assms unfolding apart_def by auto
qed

section \<open>The pages of the contents\<close>

definition cached_pages :: "nat \<Rightarrow> contents \<Rightarrow> int set" where
  "cached_pages ps C = {v div int ps | v ns xs vs. C ns xs vs \<and> v \<in> set vs}"

text \<open>A page stands in one place of the tree: it determines the sequence up to its own end.\<close>

definition page_unique :: "nat \<Rightarrow> contents \<Rightarrow> bool" where
  "page_unique ps C \<longleftrightarrow> (\<forall>ns xs vs ns' xs' vs' i j. C ns xs vs \<longrightarrow> C ns' xs' vs' \<longrightarrow> i < length vs \<longrightarrow> j < length vs' \<longrightarrow>
     vs ! i div int ps = vs' ! j div int ps \<longrightarrow>
     ns = ns' \<and> i div ps = j div ps \<and> take ((i div ps + 1) * ps) xs = take ((i div ps + 1) * ps) xs')"

lemma page_uniqueD:
  assumes "page_unique ps C" "C ns xs vs" "C ns' xs' vs'" "i < length vs" "j < length vs'" "vs ! i div int ps = vs' ! j div int ps"
  shows "ns = ns'" "i div ps = j div ps" "take ((i div ps + 1) * ps) xs = take ((i div ps + 1) * ps) xs'"
  using assms unfolding page_unique_def by blast+

lemma cached_pagesI: "C ns xs vs \<Longrightarrow> v \<in> set vs \<Longrightarrow> v div int ps \<in> cached_pages ps C"
  unfolding cached_pages_def by blast

lemma page_unique_mono: "page_unique ps C \<Longrightarrow> C' \<le> C \<Longrightarrow> page_unique ps C'"
  unfolding page_unique_def le_fun_def le_bool_def by blast

lemma exact_contents_mono: "exact_contents ps C \<Longrightarrow> C' \<le> C \<Longrightarrow> exact_contents ps C'"
  unfolding exact_contents_def le_fun_def le_bool_def by blast

lemma whole_page: "0 < ps \<Longrightarrow> ps dvd n \<Longrightarrow> i < n \<Longrightarrow> (i div ps + 1) * ps \<le> (n :: nat)"
  by (metis Suc_eq_plus1 Suc_leI dvd_mult_div_cancel less_mult_imp_div_less mult.commute mult_le_mono2)

lemma row_pages: "0 < ps \<Longrightarrow> (\<lambda>v. v div int ps) ` set (paged_row ps pages (length pages * ps)) = set pages"
proof -
  assume ps: "0 < ps"
  have d: "i < length pages * ps \<Longrightarrow> paged_row ps pages (length pages * ps) ! i div int ps = pages ! (i div ps)" for i
    by (rule paged_row_div [OF ps])
  have "set pages \<subseteq> (\<lambda>v. v div int ps) ` set (paged_row ps pages (length pages * ps))"
  proof
    fix p assume "p \<in> set pages"
    then obtain k where k: "k < length pages" "pages ! k = p" by (auto simp: in_set_conv_nth)
    have "k * ps < length pages * ps" using k(1) ps by simp
    then show "p \<in> (\<lambda>v. v div int ps) ` set (paged_row ps pages (length pages * ps))"
      using d [of "k * ps"] k(2) ps by (auto simp: set_conv_nth image_iff intro!: exI [of _ "k * ps"])
  qed
  moreover have "(\<lambda>v. v div int ps) ` set (paged_row ps pages (length pages * ps)) \<subseteq> set pages"
    using d ps by (auto simp: set_conv_nth less_mult_imp_div_less)
  ultimately show ?thesis by blast
qed

section \<open>Storing a sequence\<close>

lemma with_sequence_pages:
  assumes C: "C ns (take (length w) U) w" and len: "length (w @ vals) = length U" "ps dvd length U"
  shows "cached_pages ps (with_sequence ps C ns U (w @ vals)) = cached_pages ps C \<union> (\<lambda>v. v div int ps) ` set vals"
    (is "cached_pages ps ?C = _ \<union> ?new")
proof
  show "cached_pages ps ?C \<subseteq> cached_pages ps C \<union> ?new"
  proof
    fix p assume "p \<in> cached_pages ps ?C"
    then obtain v ns' xs vs where v: "p = v div int ps" "?C ns' xs vs" "v \<in> set vs" by (auto simp: cached_pages_def)
    then consider "C ns' xs vs" | "v \<in> set w" | "v \<in> set vals"
      unfolding with_sequence_def by (metis in_set_takeD set_append UnE)
    then show "p \<in> cached_pages ps C \<union> ?new" using v C by cases (auto intro: cached_pagesI)
  qed
  have "?C ns U (w @ vals)" using len by (simp add: with_sequence_def)
  then have "?new \<subseteq> cached_pages ps ?C" by (auto intro: cached_pagesI)
  moreover have "cached_pages ps C \<subseteq> cached_pages ps ?C" unfolding cached_pages_def with_sequence_def by blast
  ultimately show "cached_pages ps C \<union> ?new \<subseteq> cached_pages ps ?C" by blast
qed

text \<open>Where a slot of the new contents comes from.\<close>

lemma with_sequence_slot:
  assumes ps: "0 < ps" and C: "C ns (take l U) w" "length w = l" "ps dvd l" "l \<le> length U"
    and vals: "vals = paged_row ps q (length q * ps)" "length (w @ vals) = length U" "ps dvd length U"
    and e: "with_sequence ps C ns U (w @ vals) ns' xs vs" "i < length vs"
  shows "(\<exists>ys ws. C ns' ys ws \<and> i < length ws \<and> ws ! i = vs ! i \<and> take ((i div ps + 1) * ps) ys = take ((i div ps + 1) * ps) xs) \<or>
    ns' = ns \<and> l \<le> i \<and> (i - l) div ps < length q \<and> vs ! i div int ps = q ! ((i - l) div ps) \<and>
      take ((i div ps + 1) * ps) xs = take ((i div ps + 1) * ps) U"
proof (cases "C ns' xs vs")
  case True
  then show ?thesis using e(2) by blast
next
  case False
  then have n: "ns' = ns" "ps dvd length xs" "length xs \<le> length U" "xs = take (length xs) U" "vs = take (length xs) (w @ vals)"
    using e(1) by (auto simp: with_sequence_def)
  have i: "i < length xs" using e(2) n(3,5) vals(2) by simp
  then have k: "(i div ps + 1) * ps \<le> length xs" by (rule whole_page [OF ps n(2)])
  then have xs: "take ((i div ps + 1) * ps) xs = take ((i div ps + 1) * ps) U" by (rule prefix_take [OF n(4)])
  have vi: "vs ! i = (w @ vals) ! i" using i unfolding n(5) by (rule nth_take)
  show ?thesis
  proof (cases "i < l")
    case True
    then have "(i div ps + 1) * ps \<le> l" by (rule whole_page [OF ps C(3)])
    then have "take ((i div ps + 1) * ps) (take l U) = take ((i div ps + 1) * ps) xs" unfolding xs by (simp add: min_absorb1)
    moreover have "w ! i = vs ! i" using True C(2) vi by (simp add: nth_append)
    ultimately show ?thesis using C(1,2) n(1) True by blast
  next
    case False
    then have "i - l < length q * ps" using i n(3) vals(1,2) C(2) by simp
    moreover from this have "(i - l) div ps < length q" by (simp add: less_mult_imp_div_less)
    moreover have "vs ! i = vals ! (i - l)" using False C(2) vi by (simp add: nth_append)
    ultimately show ?thesis using paged_row_div [OF ps, of "i - l" "length q * ps" q] vals(1) n(1) xs False by simp
  qed
qed

lemma page_unique_insert:
  assumes ps: "0 < ps" and u: "page_unique ps C" and C: "C ns (take l U) w" "length w = l" "ps dvd l" "l \<le> length U"
    and vals: "vals = paged_row ps q (length q * ps)" "length (w @ vals) = length U" "ps dvd length U"
    and q: "distinct q" "set q \<inter> cached_pages ps C = {}"
  shows "page_unique ps (with_sequence ps C ns U (w @ vals))"
  unfolding page_unique_def
proof (intro allI impI)
  fix ns1 xs1 vs1 ns2 xs2 vs2 i j
  let ?C = "with_sequence ps C ns U (w @ vals)"
  assume a: "?C ns1 xs1 vs1" "?C ns2 xs2 vs2" "i < length vs1" "j < length vs2" and eq: "vs1 ! i div int ps = vs2 ! j div int ps"
  note one = with_sequence_slot [OF ps C vals a(1,3)] and two = with_sequence_slot [OF ps C vals a(2,4)]
  have fresh: "\<not> (C nsa ys ws \<and> x < length ws \<and> ws ! x div int ps = q ! k \<and> k < length q)" for nsa ys ws x k
    using q(2) cached_pagesI [of C nsa ys ws "ws ! x" ps] by (metis disjoint_iff nth_mem)
  let ?D = "ns1 = ns2 \<and> i div ps = j div ps \<and> take ((i div ps + 1) * ps) xs1 = take ((i div ps + 1) * ps) xs2"
  show ?D using one
  proof (elim disjE exE conjE)
    fix ys1 ws1
    assume o1: "C ns1 ys1 ws1" "i < length ws1" "ws1 ! i = vs1 ! i" "take ((i div ps + 1) * ps) ys1 = take ((i div ps + 1) * ps) xs1"
    show ?D using two
    proof (elim disjE exE conjE)
      fix ys2 ws2
      assume o2: "C ns2 ys2 ws2" "j < length ws2" "ws2 ! j = vs2 ! j" "take ((j div ps + 1) * ps) ys2 = take ((j div ps + 1) * ps) xs2"
      have e: "ws1 ! i div int ps = ws2 ! j div int ps" using o1(3) o2(3) eq by simp
      have u': "ns1 = ns2" "i div ps = j div ps" "take ((i div ps + 1) * ps) ys1 = take ((i div ps + 1) * ps) ys2"
        by (rule page_uniqueD [OF u o1(1) o2(1) o1(2) o2(2) e])+
      show ?D using u' o1(4) o2(4) by simp
    next
      assume "(j - l) div ps < length q" "vs2 ! j div int ps = q ! ((j - l) div ps)"
      then show ?D using fresh [of ns1 ys1 ws1 i "(j - l) div ps"] o1 eq by simp
    qed
  next
    assume n1: "ns1 = ns" "l \<le> i" "(i - l) div ps < length q" "vs1 ! i div int ps = q ! ((i - l) div ps)"
      "take ((i div ps + 1) * ps) xs1 = take ((i div ps + 1) * ps) U"
    show ?D using two
    proof (elim disjE exE conjE)
      fix ys2 ws2 assume "C ns2 ys2 ws2" "j < length ws2" "ws2 ! j = vs2 ! j"
      then show ?D using fresh [of ns2 ys2 ws2 j "(i - l) div ps"] n1 eq by simp
    next
      assume n2: "ns2 = ns" "l \<le> j" "(j - l) div ps < length q" "vs2 ! j div int ps = q ! ((j - l) div ps)"
        "take ((j div ps + 1) * ps) xs2 = take ((j div ps + 1) * ps) U"
      have "(i - l) div ps = (j - l) div ps" using n1(3,4) n2(3,4) q(1) eq by (simp add: nth_eq_iff_index_eq)
      then have "i div ps = j div ps" using C(3) n1(2) n2(2) by (metis div_plus_div_distrib_dvd_right le_add_diff_inverse2)
      then show ?D using n1 n2 by simp
    qed
  qed
qed

section \<open>Freeing part of a row\<close>

lemma free_row_part:
  assumes r: "paged_ready ps pool" and a: "a * ps \<le> e" "e \<le> n" and len: "length pages = (n + ps - 1) div ps"
  shows "paged_ready ps (paged_free_segment (pyslice (a * ps) e (paged_row ps pages n)) (a * ps) pool)"
    "idle (paged_free_segment (pyslice (a * ps) e (paged_row ps pages n)) (a * ps) pool) = idle pool + mset (pyslice a ((e + ps - 1) div ps) pages)"
proof -
  let ?seg = "pyslice (a * ps) e (paged_row ps pages n)" and ?ids = "map ((!) pages) [a..<(e + ps - 1) div ps]"
  have ps: "0 < ps" "al_page_size pool = ps" "al_free_group pool = None" using r by (simp_all add: paged_ready_def)
  have hi: "(e + ps - 1) div ps \<le> length pages" unfolding len using a(2) by (simp add: div_le_mono)
  have "paged_ready ps (paged_free_segment ?seg (a * ps) pool) \<and>
    idle (paged_free_segment ?seg (a * ps) pool) = idle pool + mset (pyslice a ((e + ps - 1) div ps) pages)"
  proof (cases "a * ps < e")
    case True
    have "paged_free_segment ?seg (a * ps) pool = release_page_ids ?ids pool"
      using paged_free_segment_row [of pool "a * ps" e n pages] ps True a(2) by simp
    then show ?thesis using paged_ready_release [OF r] hi by (simp add: map_nth_slice)
  next
    case False
    then have e: "e = a * ps" using a(1) by simp
    then have "pyslice a ((e + ps - 1) div ps) pages = []" "?seg = []" using ceil_exact [OF ps(1)] by (simp_all add: pyslice_def)
    then show ?thesis using r by (simp add: paged_free_segment_def)
  qed
  then show "paged_ready ps (paged_free_segment ?seg (a * ps) pool)"
    "idle (paged_free_segment ?seg (a * ps) pool) = idle pool + mset (pyslice a ((e + ps - 1) div ps) pages)" by simp_all
qed

lemma free_whole_pages:
  assumes r: "paged_ready ps pool"
  shows "paged_ready ps (paged_free_segment (paged_row ps pages (length pages * ps)) 0 pool)"
    "idle (paged_free_segment (paged_row ps pages (length pages * ps)) 0 pool) = idle pool + mset pages"
proof -
  have ps: "0 < ps" using r by (simp add: paged_ready_def)
  have all: "pyslice 0 (length pages * ps) (paged_row ps pages (length pages * ps)) = paged_row ps pages (length pages * ps)"
    "pyslice 0 (length pages) pages = pages" by (simp_all add: pyslice_def)
  note f = free_row_part [OF r, of 0 "length pages * ps" "length pages * ps" pages, unfolded ceil_exact [OF ps] all mult_zero_left]
  show "paged_ready ps (paged_free_segment (paged_row ps pages (length pages * ps)) 0 pool)"
    "idle (paged_free_segment (paged_row ps pages (length pages * ps)) 0 pool) = idle pool + mset pages"
    using f by simp_all
qed

section \<open>Evicting a leaf\<close>

lemma leaf_alone:
  assumes ok: "tree_ok s T" and n: "n \<in> live s T" "tn_children (node s n) = []" and b: "below T n m"
  shows "m = n"
proof (rule ccontr)
  assume mn: "m \<noteq> n"
  obtain ns xn vn xm vm where T: "T n = Some (ns, xn, vn)" "T m = Some (ns, xm, vm)" "length xn \<le> length xm" "take (length xn) xm = xn"
    using b by (auto simp: below_def)
  have nr: "n \<noteq> rc_root_node s" using n(1) by (simp add: live_def)
  have "0 < length xn" using path_nonempty(1) [OF ok T(1) nr] by simp
  then have mr: "m \<noteq> rc_root_node s" using T(2,3) tree_okD(4) [OF ok] by auto
  have "length xn \<noteq> length xm"
  proof
    assume "length xn = length xm"
    then have "T m = Some (ns, xn, vm)" using T(2,4) by simp
    then show False using path_inj [OF ok T(1) nr _ mr] mn by blast
  qed
  then have short: "length xn < length xm" using T(3) by simp
  have ns: "n = rc_root_node s \<or> ns = ns" by simp
  obtain d xd vd where d: "T d = Some (ns, xd, vd)" "d \<noteq> rc_root_node s" "tn_parent (node s d) = Some n"
    using descend [OF ok T(2) mr T(1) ns short T(4)] by blast
  show False by (rule node_parts [OF ok d(1,2)]) (use d(3) n(2) in simp)
qed


text \<open>A leaf's own slots are whole pages, and no other path has them.\<close>

lemma path_pages:
  assumes ok: "tree_ok s T" and T: "T n = Some (ns, xs, vs)" "n \<noteq> rc_root_node s"
    and u: "page_unique (rc_page_size s) (cached (rc_page_size s) T)" and e: "exact_contents (rc_page_size s) (cached (rc_page_size s) T)"
  obtains v pages where "tn_value (node s n) = Some v" "v = paged_row (rc_page_size s) pages (length pages * rc_page_size s)" "distinct pages"
    "set pages \<subseteq> cached_pages (rc_page_size s) (cached (rc_page_size s) T)"
proof -
  let ?ps = "rc_page_size s"
  have ps: "0 < ?ps" by (rule tree_okD(1) [OF ok])
  obtain p nsp xp vp v where p: "T p = Some (nsp, xp, vp)" "tn_value (node s n) = Some v" "vs = vp @ v" by (rule node_parts [OF ok T])
  have "n \<in> live s T" using T by (auto simp: live_def)
  then have "page_exact ?ps v" using exact_nodes [OF ok e] p(2) by (simp add: paged_pool.frees_exact_def)
  then obtain pages where row: "v = paged_row ?ps pages (length pages * ?ps)" by (auto simp: page_exact_def)
  have c: "cached ?ps T ns xs vs" by (rule cached_path [OF ok T(1)])
  have dv: "?ps dvd length vp" using path_shape [OF ok p(1)] by simp
  have at: "length vp + k * ?ps < length vs \<and> vs ! (length vp + k * ?ps) div int ?ps = pages ! k" if "k < length pages" for k
    using that paged_row_div [OF ps, of "k * ?ps" "length pages * ?ps" pages] ps by (simp add: p(3) row)
  have "distinct pages" unfolding distinct_conv_nth
  proof (intro allI impI notI)
    fix i j assume ij: "i < length pages" "j < length pages" "i \<noteq> j" "pages ! i = pages ! j"
    have "(length vp + i * ?ps) div ?ps = (length vp + j * ?ps) div ?ps"
      by (rule page_uniqueD(2) [OF u c c]) (use at [OF ij(1)] at [OF ij(2)] ij(4) in simp_all)
    then show False using ij(3) ps dv by (simp add: div_plus_div_distrib_dvd_left)
  qed
  moreover have "(\<lambda>v. v div int ?ps) ` set v \<subseteq> cached_pages ?ps (cached ?ps T)" using cached_pagesI [of "cached ?ps T", OF c] p(3) by auto
  then have "set pages \<subseteq> cached_pages ?ps (cached ?ps T)" unfolding row row_pages [OF ps] .
  ultimately show thesis using that p(2) row by blast
qed

text \<open>A page of a node's own slots is found on the paths through that node only.\<close>

lemma page_below:
  assumes ok: "tree_ok s T" and n: "n \<in> live s T" "tn_value (node s n) = Some v"
    and u: "page_unique (rc_page_size s) (cached (rc_page_size s) T)"
    and m: "T m = Some (ms, xm, vm)" and w: "x \<in> set v" "y \<in> set vm" "x div int (rc_page_size s) = y div int (rc_page_size s)"
  shows "below T n m"
proof -
  let ?ps = "rc_page_size s"
  have ps: "0 < ?ps" by (rule tree_okD(1) [OF ok])
  obtain ns xs vs where T: "T n = Some (ns, xs, vs)" "n \<noteq> rc_root_node s" using n(1) by (auto simp: live_layout)
  obtain p nsp xp vp v' where p: "tn_parent (node s n) = Some p" "T p = Some (nsp, xp, vp)" "p = rc_root_node s \<or> nsp = ns"
    "tn_value (node s n) = Some v'" "vs = vp @ v'" by (rule node_parts [OF ok T])
  have vs: "vs = vp @ v" using p(4,5) n(2) by simp
  obtain j where j: "j < length v" "v ! j = x" using w(1) by (auto simp: in_set_conv_nth)
  obtain i where i: "i < length vm" "vm ! i = y" using w(2) by (auto simp: in_set_conv_nth)
  have sh: "length vs = length xs" "?ps dvd length xs" "length vp = length xp" "?ps dvd length xp" "length vm = length xm" "?ps dvd length xm"
    using path_shape [OF ok T(1)] path_shape [OF ok p(2)] path_shape [OF ok m] by simp_all
  let ?i = "length vp + j"
  have at: "?i < length vs" "vs ! ?i div int ?ps = vm ! i div int ?ps" using j i w(3) by (simp_all add: vs)
  note un = page_uniqueD [OF u cached_path [OF ok T(1)] cached_path [OF ok m] at(1) i(1) at(2)]
  have k: "(?i div ?ps + 1) * ?ps \<le> length xs" "(?i div ?ps + 1) * ?ps \<le> length xm"
    using whole_page [OF ps sh(2), of ?i] whole_page [OF ps sh(6), of i] at(1) i(1) sh un(2) by simp_all
  have "length xp div ?ps \<le> ?i div ?ps" using sh(3) by (simp add: div_le_mono)
  then have "(length xp div ?ps + 1) * ?ps \<le> (?i div ?ps + 1) * ?ps" by (intro mult_le_mono1) simp
  then have low: "length xp + ?ps \<le> (?i div ?ps + 1) * ?ps" using sh(4) by simp
  have Tm: "T m = Some (ns, xm, vm)" using m un(1) by simp
  show "below T n m" by (rule below_ancestor [OF ok T Tm p(1,2,3) low k(2) un(3) [symmetric] k(1)])
qed

lemma evicted_leaf_pages:
  assumes ok: "tree_ok s T" and n: "n \<in> live s T" "tn_children (node s n) = []" "tn_value (node s n) = Some v"
    and u: "page_unique (rc_page_size s) (cached (rc_page_size s) T)"
  shows "cached_pages (rc_page_size s) (cached (rc_page_size s) (T(n := None)))
    = cached_pages (rc_page_size s) (cached (rc_page_size s) T) - (\<lambda>v. v div int (rc_page_size s)) ` set v" (is "?l = ?r - ?v")
proof -
  let ?ps = "rc_page_size s"
  have path: "\<exists>m xm vm. T' m = Some (ns, xm, vm) \<and> y \<in> set vm" if "cached ?ps T' ns xs vs" "y \<in> set vs" for T' ns xs vs y
    using that in_set_takeD unfolding cached_def by (metis empty_iff empty_set)
  obtain ns xs vs where T: "T n = Some (ns, xs, vs)" "n \<noteq> rc_root_node s" using n(1) by (auto simp: live_layout)
  obtain p nsp xp vp v' where p: "tn_parent (node s n) = Some p" "T p = Some (nsp, xp, vp)" "length xp < length xs" "vs = vp @ v'" "tn_value (node s n) = Some v'"
    by (rule node_parts [OF ok T])
  have pn: "p \<noteq> n" using p(2,3) T(1) by auto
  have path': "cached ?ps (T(n := None)) ms xm vm" if "T m = Some (ms, xm, vm)" "m \<noteq> n" for m ms xm vm
    using that path_shape [OF ok that(1)] unfolding cached_def
    by (intro conjI disjI2 exI [of _ m] exI [of _ xm] exI [of _ vm]) auto
  have "?l \<subseteq> ?r - ?v"
  proof
    fix q assume "q \<in> ?l"
    then obtain y ms xs' vs' where y: "q = y div int ?ps" "cached ?ps (T(n := None)) ms xs' vs'" "y \<in> set vs'" by (auto simp: cached_pages_def)
    obtain m xm vm where "(T(n := None)) m = Some (ms, xm, vm)" "y \<in> set vm" using path [OF y(2,3)] by blast
    then have m: "T m = Some (ms, xm, vm)" "m \<noteq> n" "y \<in> set vm" by (auto split: if_splits)
    have "q \<in> ?r" unfolding y(1) by (rule cached_pagesI [of "cached ?ps T", OF cached_path [OF ok m(1)] m(3)])
    moreover have "q \<notin> ?v" 
    proof
      assume "q \<in> ?v"
      then obtain x where "x \<in> set v" "x div int ?ps = y div int ?ps" using y(1) by auto
      then have "below T n m" using page_below [OF ok n(1,3) u m(1) _ m(3)] by blast
      then show False using leaf_alone [OF ok n(1,2)] m(2) by blast
    qed
    ultimately show "q \<in> ?r - ?v" by blast
  qed
  moreover have "?r - ?v \<subseteq> ?l"
  proof
    fix q assume q: "q \<in> ?r - ?v"
    then obtain y ms xs' vs' where y: "q = y div int ?ps" "cached ?ps T ms xs' vs'" "y \<in> set vs'" by (auto simp: cached_pages_def)
    obtain m xm vm where m: "T m = Some (ms, xm, vm)" "y \<in> set vm" using path [OF y(2,3)] by blast
    show "q \<in> ?l"
    proof (cases "m = n")
      case False
      then show ?thesis unfolding y(1) by (intro cached_pagesI [of "cached ?ps (T(n := None))", OF path' [OF m(1)] m(2)])
    next
      case True
      then have "y \<in> set vp" using m q y(1) T(1) p(4,5) n(3) by auto
      then show ?thesis unfolding y(1) by (rule cached_pagesI [of "cached ?ps (T(n := None))", OF path' [OF p(2) pn]])
    qed
  qed
  ultimately show ?thesis by blast
qed


section \<open>The ledger\<close>

text \<open>
  \<open>own\<close> are the pages owned by requests.  Every page of \<open>P\<close> is free, owned or cached, in exactly one of
  these ways and in one place.
\<close>

definition page_ledger :: "nat \<Rightarrow> contents \<Rightarrow> allocator \<Rightarrow> int list \<Rightarrow> int set \<Rightarrow> bool" where
  "page_ledger ps C pool own P \<longleftrightarrow> paged_ready ps pool \<and> exact_contents ps C \<and> page_unique ps C \<and>
     apart (idle pool + mset own) (cached_pages ps C) P"

lemma page_ledger_own: "mset own = mset own' \<Longrightarrow> page_ledger ps C pool own P = page_ledger ps C pool own' P"
  by (simp add: page_ledger_def)

lemma page_ledger_invariant:
  "eviction_invariant paged_free_segment L
     (\<lambda>s T pool. rc_page_size s = ps \<and> page_ledger ps (cached ps T) pool own P)"
  unfolding eviction_invariant_def
proof (intro allI impI)
  fix s T pool n v s1
  assume ok: "tree_ok s T" and a: "rc_page_size s = ps \<and> page_ledger ps (cached ps T) pool own P"
    and n: "n \<in> live s T" "tn_children (node s n) = []" "tn_value (node s n) = Some v" and sh: "shrunk (length v) s T s1 (T(n := None))"
  let ?T = "T(n := None)" and ?C = "cached ps T"
  have ps: "rc_page_size s = ps" "0 < ps" using a tree_okD(1) [OF ok] by auto
  have led: "paged_ready ps pool" "exact_contents ps ?C" "page_unique ps ?C" "apart (idle pool + mset own) (cached_pages ps ?C) P"
    using a by (simp_all add: page_ledger_def)
  obtain ns xs vs where T: "T n = Some (ns, xs, vs)" "n \<noteq> rc_root_node s" using n(1) by (auto simp: live_layout)
  obtain v' pages where v': "tn_value (node s n) = Some v'" "v' = paged_row ps pages (length pages * ps)" "distinct pages" "set pages \<subseteq> cached_pages ps ?C"
    by (rule path_pages [OF ok T, unfolded ps, OF led(3,2)])
  have v: "v = paged_row ps pages (length pages * ps)" using v'(1,2) n(3) by simp
  note f = free_whole_pages [OF led(1), of pages, folded v]
  have sub: "cached ps ?T \<le> ?C" unfolding cached_def le_fun_def by (auto split: if_splits)
  have "cached_pages ps (cached ps ?T) = cached_pages ps ?C - set pages"
    using evicted_leaf_pages [OF ok n, unfolded ps, OF led(3)] row_pages [OF ps(2), of pages] v by simp
  moreover have "apart ((idle pool + mset own) + mset pages) (cached_pages ps ?C - set pages) P" by (rule apart_evict [OF led(4) v'(3,4)])
  ultimately have "apart (idle (paged_free_segment v 0 pool) + mset own) (cached_pages ps (cached ps ?T)) P" unfolding f(2) by (simp add: ac_simps)
  then show "rc_page_size s1 = ps \<and> page_ledger ps (cached ps ?T) (paged_free_segment v 0 pool) own P"
    using f(1) sh ps page_unique_mono [OF led(3) sub] exact_contents_mono [OF led(2) sub]
    by (simp add: page_ledger_def shrunk_def same_config_def)
qed

lemma evict_keeps_ledger:
  assumes "tree_ok s T" "books s T L" "\<not> rc_disable s" "page_ledger (rc_page_size s) (cached (rc_page_size s) T) pool own P"
  shows "\<exists>k s' T' pool'. evict paged_free_segment tie num s pool = Some (Inr (k, s', pool')) \<and> shrunk k s T s' T' \<and>
    page_ledger (rc_page_size s) (cached (rc_page_size s) T') pool' own P \<and> available_size pool' = available_size pool + k \<and>
    (num \<le> k \<or> rc_evictable_size s' = 0)"
proof -
  let ?ps = "rc_page_size s"
  have r: "paged_ready ?ps pool" and e: "exact_contents ?ps (cached ?ps T)" using assms(4) by (simp_all add: page_ledger_def)
  obtain k s' T' pool' where a: "evict paged_free_segment tie num s pool = Some (Inr (k, s', pool'))" "shrunk k s T s' T'"
    "page_ledger ?ps (cached ?ps T') pool' own P" "num \<le> k \<or> rc_evictable_size s' = 0"
    using evict_rule [OF page_ledger_invariant assms(1,2,3), of ?ps pool own P tie num] assms(4) by blast
  have "available_size pool' = available_size pool + k"
    using paged_pool.evict_spec [OF assms(1,2,3) r exact_nodes [OF assms(1) e], of tie num] a(1) by auto
  then show ?thesis using a by blast
qed


section \<open>The cache's sizes count pages\<close>

definition own_pages :: "radix_cache \<Rightarrow> nat \<Rightarrow> int set" where
  "own_pages s n = (case tn_value (node s n) of None \<Rightarrow> {} | Some v \<Rightarrow> (\<lambda>v. v div int (rc_page_size s)) ` set v)"

lemma own_pages_apart:
  assumes ok: "tree_ok s T" and u: "page_unique (rc_page_size s) (cached (rc_page_size s) T)"
    and n: "n \<in> live s T" and m: "m \<in> live s T" "n \<noteq> m"
  shows "own_pages s n \<inter> own_pages s m = {}"
proof (rule ccontr)
  assume ne: "own_pages s n \<inter> own_pages s m \<noteq> {}"
  let ?ps = "rc_page_size s"
  obtain nsn xn vn where Tn: "T n = Some (nsn, xn, vn)" "n \<noteq> rc_root_node s" using n by (auto simp: live_layout)
  obtain nsm xm vm where Tm: "T m = Some (nsm, xm, vm)" "m \<noteq> rc_root_node s" using m(1) by (auto simp: live_layout)
  obtain vpn v where v: "tn_value (node s n) = Some v" "vn = vpn @ v" by (rule node_parts [OF ok Tn])
  obtain vpm w where w: "tn_value (node s m) = Some w" "vm = vpm @ w" by (rule node_parts [OF ok Tm])
  obtain x y where xy: "x \<in> set v" "y \<in> set w" "x div int ?ps = y div int ?ps" using ne v(1) w(1) by (auto simp: own_pages_def)
  have mem: "x \<in> set vn" "y \<in> set vm" using xy v(2) w(2) by simp_all
  have "below T n m" by (rule page_below [OF ok n v(1) u Tm(1) xy(1) mem(2) xy(3)])
  moreover have "below T m n" by (rule page_below [OF ok m(1) w(1) u Tn(1) xy(2) mem(1) xy(3) [symmetric]])
  ultimately have "nsn = nsm \<and> xn = xm" using Tn(1) Tm(1) unfolding below_def by auto
  then show False using path_inj [OF ok Tn _ Tm(2)] Tm(1) m(2) by auto
qed

lemma own_pages_card:
  assumes ok: "tree_ok s T" and u: "page_unique (rc_page_size s) (cached (rc_page_size s) T)"
    and e: "exact_contents (rc_page_size s) (cached (rc_page_size s) T)" and n: "n \<in> live s T"
  shows "card (own_pages s n) * rc_page_size s = key_len (tn_key (node s n))"
proof -
  obtain ns xs vs where T: "T n = Some (ns, xs, vs)" "n \<noteq> rc_root_node s" using n by (auto simp: live_layout)
  obtain v' where l: "tn_value (node s n) = Some v'" "length v' = key_len (tn_key (node s n))" by (rule node_parts [OF ok T])
  obtain v pages where v: "tn_value (node s n) = Some v" "v = paged_row (rc_page_size s) pages (length pages * rc_page_size s)" "distinct pages"
    by (rule path_pages [OF ok T u e])
  have "own_pages s n = set pages" using v row_pages [OF tree_okD(1) [OF ok], of pages] by (simp add: own_pages_def)
  then show ?thesis using v l by (simp add: distinct_card)
qed

lemma cached_pages_own:
  assumes ok: "tree_ok s T"
  shows "cached_pages (rc_page_size s) (cached (rc_page_size s) T) = (\<Union>n \<in> live s T. own_pages s n)" (is "?l = ?r")
proof
  let ?ps = "rc_page_size s"
  have on: "y div int ?ps \<in> ?r" if "T n = Some (ns, xs, vs)" "y \<in> set vs" for n ns xs vs y
    using that
  proof (induction "length xs" arbitrary: n ns xs vs rule: less_induct)
    case less
    have nr: "n \<noteq> rc_root_node s" using less.prems tree_okD(4) [OF ok] by auto
    obtain p nsp xp vp v where p: "T p = Some (nsp, xp, vp)" "tn_value (node s n) = Some v" "vs = vp @ v" "length xp < length xs"
      by (rule node_parts [OF ok less.prems(1) nr])
    show ?case
    proof (cases "y \<in> set vp")
      case True
      then show ?thesis by (rule less.hyps [OF p(4,1)])
    next
      case False
      then have "y div int ?ps \<in> own_pages s n" using less.prems(2) p(2,3) by (simp add: own_pages_def)
      moreover have "n \<in> live s T" using less.prems(1) nr by (auto simp: live_def)
      ultimately show ?thesis by blast
    qed
  qed
  show "?l \<subseteq> ?r"
  proof
    fix q assume "q \<in> ?l"
    then obtain y ns xs vs where y: "q = y div int ?ps" "cached ?ps T ns xs vs" "y \<in> set vs" by (auto simp: cached_pages_def)
    then obtain m xm vm where "T m = Some (ns, xm, vm)" "y \<in> set vm" using in_set_takeD unfolding cached_def by (metis empty_iff empty_set)
    then show "q \<in> ?r" using on y(1) by blast
  qed
  show "?r \<subseteq> ?l"
  proof
    fix q assume "q \<in> ?r"
    then obtain n v y where n: "n \<in> live s T" "tn_value (node s n) = Some v" "y \<in> set v" "q = y div int ?ps"
      by (auto simp: own_pages_def split: option.splits)
    obtain ns xs vs where T: "T n = Some (ns, xs, vs)" "n \<noteq> rc_root_node s" using n(1) by (auto simp: live_layout)
    obtain vp v' where p: "tn_value (node s n) = Some v'" "vs = vp @ v'" by (rule node_parts [OF ok T])
    then have "y \<in> set vs" using n(2,3) by simp
    then show "q \<in> ?l" unfolding n(4) by (rule cached_pagesI [of "cached ?ps T", OF cached_path [OF ok T(1)]])
  qed
qed

lemma cache_sizes_count_pages:
  assumes ok: "tree_ok s T" and b: "books s T L" and u: "page_unique (rc_page_size s) (cached (rc_page_size s) T)"
    and e: "exact_contents (rc_page_size s) (cached (rc_page_size s) T)"
  shows "finite (cached_pages (rc_page_size s) (cached (rc_page_size s) T))"
    "rc_evictable_size s + rc_protected_size s = int (card (cached_pages (rc_page_size s) (cached (rc_page_size s) T)) * rc_page_size s)"
proof -
  let ?ps = "rc_page_size s" and ?len = "\<lambda>n. int (key_len (tn_key (node s n)))"
  have fin: "finite (live s T)" using tree_okD(2) [OF ok] by (simp add: live_def)
  have fin': "finite (own_pages s n)" for n by (simp add: own_pages_def split: option.splits)
  show "finite (cached_pages ?ps (cached ?ps T))" unfolding cached_pages_own [OF ok] using fin fin' by blast
  have "rc_evictable_size s + rc_protected_size s = (\<Sum>n \<in> {n \<in> live s T. tn_lock_ref (node s n) = 0}. ?len n)
      + (\<Sum>n \<in> {n \<in> live s T. tn_lock_ref (node s n) \<noteq> 0}. ?len n)"
    using b by (simp add: books_def size_where_def)
  also have "\<dots> = (\<Sum>n \<in> live s T. ?len n)"
    using fin by (subst sum.union_disjoint [symmetric]) (auto intro: arg_cong [where f = "sum ?len"])
  also have "\<dots> = (\<Sum>n \<in> live s T. int (card (own_pages s n) * ?ps))" using own_pages_card [OF ok u e] by simp
  also have "\<dots> = int (card (\<Union>n \<in> live s T. own_pages s n) * ?ps)"
    using card_UN_disjoint [OF fin, of "own_pages s"] own_pages_apart [OF ok u] fin' by (simp add: sum_distrib_right)
  finally show "rc_evictable_size s + rc_protected_size s = int (card (cached_pages ?ps (cached ?ps T)) * ?ps)"
    unfolding cached_pages_own [OF ok] .
qed

lemma apart_card:
  assumes "apart M K P" "finite K"
  shows "size M + card K = card P"
proof -
  have c: "\<forall>p. count M p \<le> 1" "set_mset M \<inter> K = {}" "P = set_mset M \<union> K" using assms(1) by (auto simp: apart_def)
  have "size M = (\<Sum>p \<in> set_mset M. count M p)" by (rule size_multiset_overloaded_eq)
  also have "\<dots> = (\<Sum>p \<in> set_mset M. 1)"
  proof (rule sum.cong [OF refl])
    fix p assume "p \<in> set_mset M"
    then have "0 < count M p" by simp
    then show "count M p = 1" using c(1) le_antisym [of "count M p" 1] by simp
  qed
  finally have "size M = card (set_mset M)" by simp
  then show ?thesis using c card_Un_disjoint [OF finite_set_mset assms(2) c(2)] by simp
qed

text \<open>Free, evictable, protected and owned slots add up to all.\<close>

lemma ledger_total:
  assumes ok: "tree_ok s T" and b: "books s T L" and l: "page_ledger (rc_page_size s) (cached (rc_page_size s) T) pool own P"
  shows "int (available_size pool) + rc_evictable_size s + rc_protected_size s + int (length own * rc_page_size s) = int (card P * rc_page_size s)"
proof -
  let ?ps = "rc_page_size s"
  have a: "apart (idle pool + mset own) (cached_pages ?ps (cached ?ps T)) P" "page_unique ?ps (cached ?ps T)" "exact_contents ?ps (cached ?ps T)"
    "al_page_size pool = ?ps" using l by (simp_all add: page_ledger_def paged_ready_def)
  note z = cache_sizes_count_pages [OF ok b a(2,3)]
  have "card P = size (idle pool) + length own + card (cached_pages ?ps (cached ?ps T))"
    using apart_card [OF a(1) z(1)] by simp
  then have "card P * ?ps = available_size pool + length own * ?ps + card (cached_pages ?ps (cached ?ps T)) * ?ps"
    using a(4) by (simp add: available_idle distrib_right)
  then show ?thesis using z(2) by simp
qed

end
