(* ===== verification/RadixRequests.thy ===== *)
theory RadixRequests
  imports PageLedger
begin

text \<open>
  Requests and the prefix cache: \<^verbatim>\<open>cache_finished_req\<close> and \<^verbatim>\<open>cache_unfinished_req\<close> of \<^verbatim>\<open>radix_cache.py\<close>.
  A request owns a row of slots; its first \<open>rq_cache_protected_len\<close> slots belong to the tree and are
  locked through its last node, the rest is its own.  The lemmas show where each page of the row goes.
\<close>

section \<open>The operations\<close>

text \<open>
  What the operations read and change of a request and of its \<^verbatim>\<open>kv\<close> record.  \<open>rq_fill_ids\<close> is
  \<^verbatim>\<open>get_fill_ids()\<close>; a missing priority is \<open>None\<close>.  \<open>rq_input_embeds\<close> and \<open>rq_embed_overrides\<close> say whether
  \<^verbatim>\<open>input_embeds\<close> and \<^verbatim>\<open>positional_embed_overrides\<close> are set.
\<close>

record request =
  rq_origin_input_ids :: "int list"
  rq_output_ids :: "int list"
  rq_fill_ids :: "int list"
  rq_extra_key :: "string option"
  rq_cache_salt :: "string option"
  rq_priority :: "int option"
  rq_req_pool_idx :: "nat option"
  rq_cache_protected_len :: nat
  rq_kv_committed_len :: nat
  rq_kv_allocated_len :: nat
  rq_swa_evicted_seqlen :: nat
  rq_last_node :: "nat option"
  rq_prefix_indices :: "int list"
  rq_input_embeds :: bool
  rq_embed_overrides :: bool

definition request_key :: "radix_cache \<Rightarrow> request \<Rightarrow> int list \<Rightarrow> radix_key" where
  "request_key s rq token_ids =
     page_aligned (rc_page_size s) (make_key token_ids (rq_extra_key rq) (rc_is_eagle s) None (rq_cache_salt rq))"

definition request_priority :: "request \<Rightarrow> int" where
  "request_priority rq = (case rq_priority rq of None \<Rightarrow> 0 | Some p \<Rightarrow> p)"

text \<open>A call that may raise or not return, followed by the rest of the body.\<close>

definition and_then :: "'a result option \<Rightarrow> ('a \<Rightarrow> 'b result option) \<Rightarrow> 'b result option" where
  "and_then x f = (case x of None \<Rightarrow> None | Some (Inl e) \<Rightarrow> Some (Inl e) | Some (Inr v) \<Rightarrow> f v)"

lemma and_then_simps [simp]: "and_then (Some (Inr v)) f = f v" "and_then (Some (Inl e)) f = Some (Inl e)" "and_then None f = None"
  by (simp_all add: and_then_def)

text \<open>
  The allocator is given by its page size and its \<open>free_segment\<close>; \<open>rows\<close> is \<^verbatim>\<open>req_to_token\<close>.  The callers pass
  requests that hold a row.
\<close>

definition cache_finished_req ::
  "nat \<Rightarrow> (int list \<Rightarrow> nat \<Rightarrow> 'p \<Rightarrow> 'p) \<Rightarrow> request \<Rightarrow> bool \<Rightarrow> nat \<Rightarrow> (nat \<Rightarrow> int list) \<Rightarrow> radix_cache \<Rightarrow> 'p
   \<Rightarrow> (radix_cache \<times> 'p) result option" where
  "cache_finished_req ps free_segment rq is_insert0 kv_len_to_handle rows s pool =
     (let is_insert = (is_insert0 \<and> \<not> rc_disable_finished_insert s);
          row = rows (the (rq_req_pool_idx rq)); start = rq_cache_protected_len rq
      in if rc_disable s then Some (Inr (s, free_segment (pyslice start kv_len_to_handle row) start pool))
         else
           let token_ids = take kv_len_to_handle (rq_origin_input_ids rq @ rq_output_ids rq);
               kv_indices = take (length token_ids) row;
               key = request_key s rq token_ids;
               n = key_len key
           in and_then
                (if is_insert
                 then and_then (cache_insert key (Some (take n kv_indices)) (request_priority rq) False s) (\<lambda>(l, m, s1). Some (Inr (l, s1)))
                 else Some (Inr (n, s)))
                (\<lambda>(freed_end, s1).
                   let pool1 = free_segments ps free_segment [(pyslice start freed_end kv_indices, start), (drop n kv_indices, n)] pool
                   in (case rq_last_node rq of
                         None \<Rightarrow> Some (Inr (s1, pool1))
                       | Some m \<Rightarrow> and_then (dec_lock_ref m s1) (\<lambda>(d, s2). Some (Inr (s2, pool1))))))"

text \<open>
  \<^verbatim>\<open>kv_indices\<close> is a view of the row that is written later; the part read after the write lies beyond the
  written slice.  A request without a last node would fail in \<^verbatim>\<open>dec_lock_ref\<close>.
\<close>

definition cache_unfinished_req ::
  "(int list \<Rightarrow> nat \<Rightarrow> 'p \<Rightarrow> 'p) \<Rightarrow> request \<Rightarrow> bool \<Rightarrow> (nat \<Rightarrow> int list) \<Rightarrow> radix_cache \<Rightarrow> 'p
   \<Rightarrow> (request \<times> (nat \<Rightarrow> int list) \<times> radix_cache \<times> 'p) result option" where
  "cache_unfinished_req free_segment rq chunked rows s pool =
     (if rc_disable s then Some (Inr (rq, rows, s, pool))
      else
        let token_ids = rq_fill_ids rq; row = rows (the (rq_req_pool_idx rq)); start = rq_cache_protected_len rq;
            kv_indices = take (length token_ids) row;
            key = request_key s rq token_ids
        in and_then (cache_insert key (Some (take (key_len key) kv_indices)) (request_priority rq) chunked s) (\<lambda>(new_prefix_len, m, s1).
             let pool1 = free_segment (pyslice start new_prefix_len kv_indices) start pool
             in and_then (match_prefix key s1) (\<lambda>(new_indices, new_last_node, s2).
                  if length new_indices \<noteq> key_len key then Some (Inl (AssertionError ''len(new_indices) == len(radix_key)''))
                  else
                    let rows1 = rows(the (rq_req_pool_idx rq) := set_slice start (drop start new_indices) row)
                    in (case rq_last_node rq of
                          None \<Rightarrow> Some (Inl (AttributeError ''lock_ref''))
                        | Some old \<Rightarrow>
                            and_then (dec_lock_ref old s2) (\<lambda>(d, s3).
                              and_then (inc_lock_ref new_last_node s3) (\<lambda>(d', s4).
                                Some (Inr (rq\<lparr>rq_cache_protected_len := length new_indices, rq_last_node := Some new_last_node,
                                    rq_prefix_indices := (if length new_indices < length kv_indices
                                      then new_indices @ drop (length new_indices) kv_indices else new_indices)\<rparr>,
                                  rows1, s4, pool1))))))))"

section \<open>A request's key\<close>

lemma request_key_facts:
  "ns_of (request_key s rq ts) = (rq_extra_key rq, if rq_cache_salt rq = Some '''' then None else rq_cache_salt rq)"
  "rk_is_bigram (request_key s rq ts) = rc_is_eagle s" "rc_page_size s dvd key_len (request_key s rq ts)" "key_len (request_key s rq ts) \<le> length ts"
proof -
  let ?k = "make_key ts (rq_extra_key rq) (rc_is_eagle s) None (rq_cache_salt rq)"
  show "ns_of (request_key s rq ts) = (rq_extra_key rq, if rq_cache_salt rq = Some '''' then None else rq_cache_salt rq)"
    by (simp add: request_key_def) (simp add: ns_of_def make_key_def)
  show "rk_is_bigram (request_key s rq ts) = rc_is_eagle s" by (simp add: request_key_def) (simp add: make_key_def)
  have l: "key_len (request_key s rq ts) = key_len ?k div rc_page_size s * rc_page_size s"
    using units_page_aligned [of "rc_page_size s" ?k] div_times_less_eq_dividend [of "key_len ?k" "rc_page_size s"]
    unfolding request_key_def by (metis length_take length_units min.absorb2)
  then show "rc_page_size s dvd key_len (request_key s rq ts)" by simp
  have "key_len ?k \<le> length ts" by (simp add: key_len_cases raw_len_def make_key_def)
  then show "key_len (request_key s rq ts) \<le> length ts" unfolding l by (meson div_times_less_eq_dividend order_trans)
qed

lemma fits_request_key: "fits s (request_key s rq ts)"
  by (simp add: fits_def request_key_facts)

lemma aligned_again:
  assumes "rk_is_bigram key = rc_is_eagle s" "rc_page_size s dvd key_len key"
  shows "units (aligned_key s key) = units key" "key_len (aligned_key s key) = key_len key"
proof -
  have v: "fst (maybe_to_bigram_view (rc_is_eagle s) key (None :: int list option)) = key"
    using assms(1) by (simp add: maybe_to_bigram_view_def)
  have "key_len key div rc_page_size s * rc_page_size s = key_len key" using assms(2) by simp
  then show u: "units (aligned_key s key) = units key" unfolding aligned_key_def v units_page_aligned by simp
  show "key_len (aligned_key s key) = key_len key" using u by (metis length_units)
qed

lemmas request_aligned = aligned_again [OF request_key_facts(2,3)]

section \<open>Whole pages of a row\<close>

lemma row_slice_exact:
  assumes ps: "0 < ps" and ab: "b * ps \<le> n" "length pages = (n + ps - 1) div ps"
  shows "pyslice (a * ps) (b * ps) (paged_row ps pages n) = paged_row ps (pyslice a b pages) (length (pyslice a b pages) * ps)"
proof -
  have b: "b \<le> length pages"
  proof -
    have "(b * ps + ps - 1) div ps \<le> (n + ps - 1) div ps" using ab(1) by (intro div_le_mono) simp
    then show ?thesis using ab(2) ceil_exact [OF ps] by simp
  qed
  have l: "length (pyslice a b pages) = b - a" using b by (simp add: pyslice_def)
  show ?thesis
  proof (rule nth_equalityI)
    show "length (pyslice (a * ps) (b * ps) (paged_row ps pages n)) = length (paged_row ps (pyslice a b pages) (length (pyslice a b pages) * ps))"
      using ab(1) l by (simp add: pyslice_def diff_mult_distrib)
    fix i assume "i < length (pyslice (a * ps) (b * ps) (paged_row ps pages n))"
    then have i: "i < b * ps - a * ps" using ab(1) by (simp add: pyslice_def)
    then have i': "i < (b - a) * ps" by (simp add: diff_mult_distrib)
    have q: "i div ps < b - a" using i' by (simp add: less_mult_imp_div_less)
    have "pyslice (a * ps) (b * ps) (paged_row ps pages n) ! i = pages ! ((a * ps + i) div ps) * int ps + int ((a * ps + i) mod ps)"
      by (rule nth_row_slice [OF i ab(1)])
    also have "\<dots> = pages ! (a + i div ps) * int ps + int (i mod ps)" using ps by simp
    also have "\<dots> = paged_row ps (pyslice a b pages) (length (pyslice a b pages) * ps) ! i"
      using i' q l b by (simp add: nth_paged_row pyslice_def)
    finally show "pyslice (a * ps) (b * ps) (paged_row ps pages n) ! i = paged_row ps (pyslice a b pages) (length (pyslice a b pages) * ps) ! i" .
  qed
qed

lemma page_exact_append:
  assumes ps: "0 < ps" and e: "page_exact ps us" "page_exact ps vs"
  shows "page_exact ps (us @ vs)"
proof -
  obtain p q where pq: "us = paged_row ps p (length p * ps)" "vs = paged_row ps q (length q * ps)" using e by (auto simp: page_exact_def)
  have "us @ vs = paged_row ps (p @ q) (length (p @ q) * ps)"
  proof (rule nth_equalityI)
    show "length (us @ vs) = length (paged_row ps (p @ q) (length (p @ q) * ps))" by (simp add: pq distrib_right)
    fix i assume i: "i < length (us @ vs)"
    show "(us @ vs) ! i = paged_row ps (p @ q) (length (p @ q) * ps) ! i"
    proof (cases "i < length p * ps")
      case True
      then show ?thesis using i by (simp add: pq nth_append nth_paged_row less_mult_imp_div_less distrib_right)
    next
      case False
      then obtain j where j: "i = length p * ps + j" by (metis add_diff_inverse_nat)
      then show ?thesis using i ps by (simp add: pq nth_append nth_paged_row distrib_right)
    qed
  qed
  then show ?thesis unfolding page_exact_def by blast
qed

lemma page_exact_take:
  assumes ps: "0 < ps" and e: "page_exact ps vs" and k: "ps dvd k"
  shows "page_exact ps (take k vs)"
proof -
  obtain q where q: "vs = paged_row ps q (length q * ps)" using e by (auto simp: page_exact_def)
  obtain b where b: "k = b * ps" using k by (metis dvd_div_mult_self)
  show ?thesis
  proof (cases "b \<le> length q")
    case True
    have "pyslice (0 * ps) (b * ps) vs = paged_row ps (pyslice 0 b q) (length (pyslice 0 b q) * ps)"
      unfolding q by (rule row_slice_exact [OF ps]) (use True ceil_exact [OF ps] in simp_all)
    then have "take k vs = paged_row ps (pyslice 0 b q) (length (pyslice 0 b q) * ps)" by (simp add: b pyslice_def)
    then show ?thesis unfolding page_exact_def by blast
  next
    case False
    then have "take k vs = vs" by (simp add: q b)
    then show ?thesis using e by simp
  qed
qed


lemma ledger_free:
  assumes "page_ledger ps C pool (own @ ids) P" "paged_ready ps pool'" "idle pool' = idle pool + mset ids"
  shows "page_ledger ps C pool' own P"
  using assms by (simp add: page_ledger_def ac_simps)

section \<open>Inserting a request's row\<close>

lemma row_parts: "a \<le> b \<Longrightarrow> mset (drop a xs) = mset (pyslice a b xs) + mset (drop b xs)"
  unfolding pyslice_def by (metis drop_drop le_add_diff_inverse2 mset_take_drop)

text \<open>
  The first \<open>prot\<close> slots are the tree's, at the node \<open>m\<close>; the request owns the pages from there on.  After the
  insertion the pages up to the cached length are duplicates that the caller frees, the further whole
  pages of the key are the tree's, and the rest is still the request's.
\<close>

lemma insert_row:
  assumes ok: "tree_ok s T" and on: "\<not> rc_disable s"
    and key: "rk_is_bigram key = rc_is_eagle s" "rc_page_size s dvd key_len key"
    and at: "node_at s T m (ns_of key) (take prot (units key)) (take prot kv)" "prot \<le> key_len key"
    and row: "kv = paged_row (rc_page_size s) pages n" "length pages = (n + rc_page_size s - 1) div rc_page_size s" "key_len key \<le> n"
    and led: "page_ledger (rc_page_size s) (cached (rc_page_size s) T) pool (own @ drop (prot div rc_page_size s) pages) P"
  shows "\<exists>l m' s' T' w. cache_insert key (Some (take (key_len key) kv)) pr ch s = Some (Inr (l, Some m', s')) \<and> tree_ok s' T' \<and>
    (\<forall>L. books s T L \<longrightarrow> books s' T' L) \<and> same_config s s' \<and> T \<subseteq>\<^sub>m T' \<and> prot \<le> l \<and> l \<le> key_len key \<and> rc_page_size s dvd l \<and> length w = l \<and>
    take prot w = take prot kv \<and> node_at s' T' m' (ns_of key) (units key) (w @ drop l (take (key_len key) kv)) \<and>
    (\<forall>pool'. paged_ready (rc_page_size s) pool' \<longrightarrow>
       idle pool' = idle pool + mset (pyslice (prot div rc_page_size s) (l div rc_page_size s) pages) \<longrightarrow>
       page_ledger (rc_page_size s) (cached (rc_page_size s) T') pool' (own @ drop (key_len key div rc_page_size s) pages) P)"
proof -
  let ?ps = "rc_page_size s" and ?U = "units key" and ?k = "key_len key" and ?ns = "ns_of key" and ?C = "cached (rc_page_size s) T"
  have ps: "0 < ?ps" by (rule tree_okD(1) [OF ok])
  note al = aligned_again [OF key]
  have fits: "fits s key" using key(1) by (simp add: fits_def)
  have le: "key_len (aligned_key s key) \<le> length (take ?k kv)" using row(1,3) al(2) by simp
  obtain l m' s' T' w where ins: "cache_insert key (Some (take ?k kv)) pr ch s = Some (Inr (l, Some m', s'))"
    "inserted s T ?ns ?U (take ?k kv) l m' s' T' w"
    using insert_spec [OF ok on fits le, of pr ch] unfolding al take_take min.idem by blast
  have w: "longest_of ?C ?ns ?U w" "length w = l" "cached ?ps T' = with_sequence ?ps ?C ?ns ?U (w @ drop l (take ?k kv))"
    using ins(2) by (simp_all add: inserted_def)
  have cw: "?C ?ns (take l ?U) w" "l \<le> ?k" using w(1,2) by (auto simp: longest_of_def)
  have lp: "length (take prot ?U) = prot" "length (take prot kv) = prot" using at(2) row(1,3) by simp_all
  have cp: "?C ?ns (take prot ?U) (take prot kv) \<and> ?ps dvd prot"
  proof -
    obtain ns' where m: "T m = Some (ns', take prot ?U, take prot kv)" "m = rc_root_node s \<or> ns' = ?ns" using at(1) by (auto simp: node_at_def)
    have dv: "?ps dvd prot" using path_shape [OF ok m(1)] lp by simp
    show ?thesis
    proof (cases "m = rc_root_node s")
      case True
      then have e: "take prot ?U = []" "take prot kv = []" using m(1) tree_okD(4) [OF ok] by simp_all
      show ?thesis unfolding e using dv by simp
    next
      case False
      then show ?thesis using cached_path [OF ok m(1)] m(2) dv by simp
    qed
  qed
  then have pl: "prot \<le> l" using w(1,2) at(2) unfolding longest_of_def by auto
  have "?ps dvd length (take l ?U)" using cw(1) unfolding cached_def by simp
  then have dl: "?ps dvd l" using cw(2) by simp
  have tw: "take prot w = take prot kv"
  proof -
    have "?C ?ns (take prot (take l ?U)) (take prot w)" by (rule cached_take [OF cw(1)]) (use cp pl cw(2) in simp_all)
    then have "?C ?ns (take prot ?U) (take prot w)" using pl by (simp add: min_absorb1)
    then show ?thesis using cached_unique [OF ok] cp by blast
  qed
  let ?a = "prot div ?ps" and ?b = "l div ?ps" and ?c = "?k div ?ps"
  have mult: "prot = ?a * ?ps" "l = ?b * ?ps" "?k = ?c * ?ps" using cp dl key(2) by simp_all
  have ab: "?a \<le> ?b" "?b \<le> ?c" using pl cw(2) by (simp_all add: div_le_mono)
  let ?q = "pyslice ?b ?c pages"
  have vals: "drop l (take ?k kv) = paged_row ?ps ?q (length ?q * ?ps)"
    using row_slice_exact [OF ps, of ?c n pages ?b] row(2,3) mult unfolding row(1) by (simp add: pyslice_def drop_take)
  have lv: "length (w @ drop l (take ?k kv)) = length ?U" using w(2) cw(2) row(1,3) by simp
  have dU: "?ps dvd length ?U" using key(2) by simp
  have led': "paged_ready ?ps pool" "exact_contents ?ps ?C" "page_unique ?ps ?C"
    "apart (idle pool + mset (own @ drop ?a pages)) (cached_pages ?ps ?C) P" using led by (simp_all add: page_ledger_def)
  have parts: "mset (drop ?a pages) = mset (pyslice ?a ?b pages) + (mset ?q + mset (drop ?c pages))"
    using row_parts [OF ab(1), of pages] row_parts [OF ab(2), of pages] by simp
  have ap: "apart ((idle pool + mset own + mset (pyslice ?a ?b pages) + mset (drop ?c pages)) + mset ?q) (cached_pages ?ps ?C) P"
    using led'(4) parts by (simp add: ac_simps)
  have new: "cached_pages ?ps (cached ?ps T') = cached_pages ?ps ?C \<union> set ?q"
    using with_sequence_pages [OF _ lv dU, of ?C ?ns] cw(1) w(2,3) row_pages [OF ps, of ?q] vals by simp
  have uniq: "page_unique ?ps (cached ?ps T')" unfolding w(3)
    by (rule page_unique_insert [OF ps led'(3) cw(1) w(2) dl _ vals lv dU apart_distinct(1,2) [OF ap]]) (use cw(2) in simp)
  have exact: "exact_contents ?ps (cached ?ps T')" unfolding exact_contents_def
  proof (intro allI impI)
    fix ns xs vs assume "cached ?ps T' ns xs vs"
    then consider "?C ns xs vs" | "?ps dvd length xs" "vs = take (length xs) (w @ drop l (take ?k kv))"
      unfolding w(3) with_sequence_def by blast
    then show "page_exact ?ps vs"
    proof cases
      case 1
      then show ?thesis using led'(2) unfolding exact_contents_def by blast
    next
      case 2
      have "page_exact ?ps w" using led'(2) cw(1) unfolding exact_contents_def by blast
      moreover have "page_exact ?ps (drop l (take ?k kv))" unfolding page_exact_def using vals by blast
      ultimately have "page_exact ?ps (w @ drop l (take ?k kv))" by (rule page_exact_append [OF ps])
      then show ?thesis unfolding 2(2) by (rule page_exact_take [OF ps _ 2(1)])
    qed
  qed
  have "page_ledger ?ps (cached ?ps T') pool' (own @ drop ?c pages) P"
    if "paged_ready ?ps pool'" "idle pool' = idle pool + mset (pyslice ?a ?b pages)" for pool'
    using that apart_cache [OF ap] new uniq exact by (simp add: page_ledger_def ac_simps)
  then show ?thesis using ins pl cw(2) dl w(2) tw unfolding inserted_def by blast
qed


section \<open>Freeing what a finished request leaves\<close>

lemma finished_frees:
  assumes r: "paged_ready ps pool" and abc: "a \<le> b" "b \<le> c" "c * ps \<le> n" and kv: "kv = paged_row ps pages n" "length pages = (n + ps - 1) div ps"
  defines "pool' \<equiv> free_segments ps paged_free_segment [(pyslice (a * ps) (b * ps) kv, a * ps), (drop (c * ps) kv, c * ps)] pool"
  shows "paged_ready ps pool'" "idle pool' = idle pool + mset (pyslice a b pages) + mset (drop c pages)"
proof -
  have ps: "0 < ps" using r by (simp add: paged_ready_def)
  let ?one = "paged_free_segment (pyslice (a * ps) (b * ps) kv) (a * ps) pool"
  have ab: "a * ps \<le> b * ps" "b * ps \<le> n" using abc by (auto intro: order_trans [OF mult_le_mono1])
  note one = free_row_part [OF r ab kv(2), folded kv(1), unfolded ceil_exact [OF ps]]
  have tail: "pyslice (c * ps) n kv = drop (c * ps) kv" "pyslice c ((n + ps - 1) div ps) pages = drop c pages"
    using kv by (simp_all add: pyslice_def)
  note two = free_row_part [OF one(1) abc(3) order_refl kv(2), folded kv(1), unfolded tail]
  have skip: "paged_free_segment [] x y = y" for x y by (simp add: paged_free_segment_def)
  have apart_pages: "(b * ps - Suc 0) div ps \<noteq> c" if "0 < b"
  proof -
    have "(b * ps - Suc 0) div ps < b" using that ps by (simp add: div_less_iff_less_mult)
    then show ?thesis using abc(2) by simp
  qed
  have l1: "length (pyslice (a * ps) (b * ps) kv) = b * ps - a * ps" using ab(2) kv by (simp add: pyslice_def)
  have "pool' = paged_free_segment (drop (c * ps) kv) (c * ps) ?one"
  proof (cases "pyslice (a * ps) (b * ps) kv = []")
    case True
    then show ?thesis unfolding pool'_def free_segments_def by (auto simp: skip)
  next
    case False
    then have pos: "0 < b" using l1 by (cases b) auto
    have "a * ps + (b * ps - a * ps) = b * ps" using ab(1) by simp
    then show ?thesis using False l1 apart_pages [OF pos] ps unfolding pool'_def free_segments_def by (auto simp: skip Let_def)
  qed
  then show "paged_ready ps pool'" "idle pool' = idle pool + mset (pyslice a b pages) + mset (drop c pages)"
    using one two by simp_all
qed


section \<open>Requests and the ledger\<close>

text \<open>
  The request's first slots are those of the path to its last node, which it holds locked: \<open>ts\<close> are the
  tokens whose slots are in the row.
\<close>

definition serves :: "radix_cache \<Rightarrow> layout \<Rightarrow> request \<Rightarrow> int list \<Rightarrow> int list \<Rightarrow> bool" where
  "serves s T rq ts kv \<longleftrightarrow> rq_cache_protected_len rq \<le> key_len (request_key s rq ts) \<and>
     (\<exists>m. rq_last_node rq = Some m \<and> node_at s T m (ns_of (request_key s rq ts))
        (take (rq_cache_protected_len rq) (units (request_key s rq ts))) (take (rq_cache_protected_len rq) kv))"

lemma serves_ledger_page: "page_ledger ps C pool own P \<Longrightarrow> paged_ready ps pool"
  by (simp add: page_ledger_def)

lemma request_pages:
  assumes ok: "tree_ok s T" and sv: "serves s T rq ts kv" and kv: "kv = paged_row (rc_page_size s) pages (length ts)"
  shows "rq_cache_protected_len rq = rq_cache_protected_len rq div rc_page_size s * rc_page_size s"
    "key_len (request_key s rq ts) = key_len (request_key s rq ts) div rc_page_size s * rc_page_size s"
    "key_len (request_key s rq ts) \<le> length ts"
proof -
  obtain m ns where m: "T m = Some (ns, take (rq_cache_protected_len rq) (units (request_key s rq ts)), take (rq_cache_protected_len rq) kv)"
    "rq_cache_protected_len rq \<le> key_len (request_key s rq ts)" using sv by (auto simp: serves_def node_at_def)
  then have "rc_page_size s dvd rq_cache_protected_len rq" using path_shape [OF ok m(1)] by simp
  then show "rq_cache_protected_len rq = rq_cache_protected_len rq div rc_page_size s * rc_page_size s" by simp
  show "key_len (request_key s rq ts) = key_len (request_key s rq ts) div rc_page_size s * rc_page_size s" "key_len (request_key s rq ts) \<le> length ts"
    using request_key_facts(3,4) [of s rq ts] by simp_all
qed

lemma finished_spec:
  assumes ok: "tree_ok s T" and b: "books s T L" and on: "\<not> rc_disable s"
    and sv: "serves s T rq ts kv" "rq_last_node rq = Some m" "m \<in> set L"
    and ts: "ts = take committed (rq_origin_input_ids rq @ rq_output_ids rq)" "kv = take (length ts) (rows (the (rq_req_pool_idx rq)))"
    and kv: "kv = paged_row (rc_page_size s) pages (length ts)" "length pages = (length ts + rc_page_size s - 1) div rc_page_size s"
    and led: "page_ledger (rc_page_size s) (cached (rc_page_size s) T) pool (own @ drop (rq_cache_protected_len rq div rc_page_size s) pages) P"
  shows "\<exists>s' T' pool'. cache_finished_req (rc_page_size s) paged_free_segment rq is_insert committed rows s pool = Some (Inr (s', pool')) \<and>
    tree_ok s' T' \<and> books s' T' (remove1 m L) \<and> same_config s s' \<and> T \<subseteq>\<^sub>m T' \<and> page_ledger (rc_page_size s) (cached (rc_page_size s) T') pool' own P"
proof -
  let ?ps = "rc_page_size s" and ?key = "request_key s rq ts" and ?p = "rq_cache_protected_len rq" and ?row = "rows (the (rq_req_pool_idx rq))"
  let ?k = "key_len ?key"
  define frees where "frees l = free_segments ?ps paged_free_segment [(pyslice ?p l kv, ?p), (drop ?k kv, ?k)] pool" for l
  have ps: "0 < ?ps" by (rule tree_okD(1) [OF ok])
  note rp = request_pages [OF ok sv(1) kv(1)]
  have at: "node_at s T m (ns_of ?key) (take ?p (units ?key)) (take ?p kv)" "?p \<le> ?k" using sv(1,2) by (auto simp: serves_def)
  have pk: "?p div ?ps \<le> ?k div ?ps" using at(2) by (simp add: div_le_mono)
  have ready: "paged_ready ?ps pool" by (rule serves_ledger_page [OF led])
  have klen: "?k div ?ps * ?ps \<le> length ts" using rp(2,3) by simp
  have "\<exists>l s1 T1. (if is_insert \<and> \<not> rc_disable_finished_insert s
        then and_then (cache_insert ?key (Some (take ?k kv)) (request_priority rq) False s) (\<lambda>(l, m, s1). Some (Inr (l, s1))) else Some (Inr (?k, s)))
      = Some (Inr (l, s1)) \<and> tree_ok s1 T1 \<and> books s1 T1 L \<and> same_config s s1 \<and> T \<subseteq>\<^sub>m T1 \<and> page_ledger ?ps (cached ?ps T1) (frees l) own P"
  proof (cases "is_insert \<and> \<not> rc_disable_finished_insert s")
    case True
    obtain l m' s1 T1 w where i: "cache_insert ?key (Some (take ?k kv)) (request_priority rq) False s = Some (Inr (l, Some m', s1))"
      "tree_ok s1 T1" "\<forall>L. books s T L \<longrightarrow> books s1 T1 L" "same_config s s1" "T \<subseteq>\<^sub>m T1" "?p \<le> l" "l \<le> ?k" "?ps dvd l"
      "\<forall>pool'. paged_ready ?ps pool' \<longrightarrow> idle pool' = idle pool + mset (pyslice (?p div ?ps) (l div ?ps) pages) \<longrightarrow>
         page_ledger ?ps (cached ?ps T1) pool' (own @ drop (?k div ?ps) pages) P"
      using insert_row [OF ok on request_key_facts(2,3) at kv rp(3) led, of "request_priority rq" False] by blast
    have ab: "?p div ?ps \<le> l div ?ps" "l div ?ps \<le> ?k div ?ps" using i(6,7) by (simp_all add: div_le_mono)
    have lm: "l = l div ?ps * ?ps" using i(8) by simp
    note f = finished_frees [OF ready ab klen kv, folded rp(1,2) lm, folded frees_def]
    note one = free_row_part(1) [OF ready, of "?p div ?ps" l "length ts" pages, folded rp(1) kv(1), OF i(6) order_trans [OF i(7) rp(3)] kv(2)]
      free_row_part(2) [OF ready, of "?p div ?ps" l "length ts" pages, folded rp(1) kv(1), OF i(6) order_trans [OF i(7) rp(3)] kv(2)]
    have ce: "(l + ?ps - 1) div ?ps = l div ?ps" using ceil_exact [OF ps, of "l div ?ps"] lm by simp
    have led1: "page_ledger ?ps (cached ?ps T1) (paged_free_segment (pyslice ?p l kv) ?p pool) (own @ drop (?k div ?ps) pages) P"
      using i(9) one unfolding ce by blast
    have "page_ledger ?ps (cached ?ps T1) (frees l) own P"
      by (rule ledger_free [OF led1 f(1)]) (unfold f(2) one(2) ce, rule refl)
    then show ?thesis using True i b by (intro exI [of _ l] exI [of _ s1] exI [of _ T1]) simp
  next
    case False
    note f = finished_frees [OF ready pk order_refl klen kv, folded rp(1,2), folded frees_def]
    have "page_ledger ?ps (cached ?ps T) (frees ?k) own P"
      by (rule ledger_free [OF led f(1)]) (simp add: f(2) row_parts [OF pk])
    then show ?thesis using False ok b by (intro exI [of _ ?k] exI [of _ s] exI [of _ T]) (auto simp: same_config_def)
  qed
  then obtain l s1 T1 where st: "(if is_insert \<and> \<not> rc_disable_finished_insert s
        then and_then (cache_insert ?key (Some (take ?k kv)) (request_priority rq) False s) (\<lambda>(l, m, s1). Some (Inr (l, s1))) else Some (Inr (?k, s)))
      = Some (Inr (l, s1))" "tree_ok s1 T1" "books s1 T1 L" "same_config s s1" "T \<subseteq>\<^sub>m T1" "page_ledger ?ps (cached ?ps T1) (frees l) own P" by blast
  have on1: "\<not> rc_disable s1" using st(4) on by (simp add: same_config_def)
  obtain e s2 where d: "dec_lock_ref m s1 = Some (Inr (e, s2))" "tree_ok s2 T1" "books s2 T1 (remove1 m L)" "same_config s1 s2"
    using dec_spec [OF st(2,3) on1 sv(3)] by blast
  have "cache_finished_req ?ps paged_free_segment rq is_insert committed rows s pool = Some (Inr (s2, frees l))"
    using on st(1) d(1) sv(2) unfolding cache_finished_req_def Let_def ts(1) [symmetric] ts(2) [symmetric] frees_def by simp
  moreover have "same_config s s2" using st(4) d(4) by (simp add: same_config_def)
  ultimately show ?thesis using d st(5,6) by blast
qed


lemma exact_before_row:
  assumes ps: "0 < ps" and e: "page_exact ps V" "length V = c * ps" and n: "c * ps \<le> n" "length pages = (n + ps - 1) div ps"
  shows "\<exists>q. V @ drop (c * ps) (paged_row ps pages n) = paged_row ps (q @ drop c pages) n \<and> length (q @ drop c pages) = length pages \<and>
    drop c (q @ drop c pages) = drop c pages"
proof -
  obtain q where q: "V = paged_row ps q (length q * ps)" using e(1) by (auto simp: page_exact_def)
  then have lq: "length q = c" using e(2) ps by simp
  have "(c * ps + ps - 1) div ps \<le> (n + ps - 1) div ps" using n(1) by (intro div_le_mono) simp
  then have cp: "c \<le> length pages" using ceil_exact [OF ps] n(2) by simp
  have "V @ drop (c * ps) (paged_row ps pages n) = paged_row ps (q @ drop c pages) n"
  proof (rule nth_equalityI)
    show "length (V @ drop (c * ps) (paged_row ps pages n)) = length (paged_row ps (q @ drop c pages) n)" using e(2) n(1) by simp
    fix i assume "i < length (V @ drop (c * ps) (paged_row ps pages n))"
    then have i: "i < n" using e(2) n(1) by simp
    show "(V @ drop (c * ps) (paged_row ps pages n)) ! i = paged_row ps (q @ drop c pages) n ! i"
    proof (cases "i < c * ps")
      case True
      then show ?thesis using i lq by (simp add: q nth_append nth_paged_row less_mult_imp_div_less)
    next
      case False
      then obtain j where j: "i = c * ps + j" by (metis add_diff_inverse_nat)
      have "c + j div ps < length pages"
        using i j ceil_bounds(1) [OF ps, of n] n(2) ps by (metis div_less_iff_less_mult div_mult_self3 less_le_trans nat_neq_iff)
      then show ?thesis using i e(2) lq ps cp by (simp add: j nth_append nth_paged_row)
    qed
  qed
  then show ?thesis using lq cp by auto
qed


lemma request_key_config: "same_config s s' \<Longrightarrow> rq_extra_key rq' = rq_extra_key rq \<Longrightarrow> rq_cache_salt rq' = rq_cache_salt rq \<Longrightarrow>
  request_key s' rq' ts = request_key s rq ts"
  by (simp add: request_key_def same_config_def)

lemma unfinished_spec:
  assumes ok: "tree_ok s T" and b: "books s T L" and on: "\<not> rc_disable s"
    and sv: "serves s T rq ts kv" "rq_last_node rq = Some m" "m \<in> set L"
    and ts: "ts = rq_fill_ids rq" "kv = take (length ts) (rows (the (rq_req_pool_idx rq)))"
    and kv: "kv = paged_row (rc_page_size s) pages (length ts)" "length pages = (length ts + rc_page_size s - 1) div rc_page_size s"
    and led: "page_ledger (rc_page_size s) (cached (rc_page_size s) T) pool (own @ drop (rq_cache_protected_len rq div rc_page_size s) pages) P"
  shows "\<exists>n rq' kv' pages' s' T' pool'.
    cache_unfinished_req paged_free_segment rq chunked rows s pool =
      Some (Inr (rq', rows(the (rq_req_pool_idx rq) := kv' @ drop (length ts) (rows (the (rq_req_pool_idx rq)))), s', pool')) \<and>
    rq' = rq\<lparr>rq_cache_protected_len := key_len (request_key s rq ts), rq_last_node := Some n, rq_prefix_indices := kv'\<rparr> \<and>
    tree_ok s' T' \<and> books s' T' (n # remove1 m L) \<and> same_config s s' \<and> T \<subseteq>\<^sub>m T' \<and> serves s' T' rq' ts kv' \<and>
    kv' = paged_row (rc_page_size s) pages' (length ts) \<and> length pages' = length pages \<and>
    drop (key_len (request_key s rq ts)) kv' = drop (key_len (request_key s rq ts)) kv \<and>
    drop (key_len (request_key s rq ts) div rc_page_size s) pages' = drop (key_len (request_key s rq ts) div rc_page_size s) pages \<and>
    page_ledger (rc_page_size s) (cached (rc_page_size s) T') pool' (own @ drop (key_len (request_key s rq ts) div rc_page_size s) pages) P"
proof -
  let ?ps = "rc_page_size s" and ?key = "request_key s rq ts" and ?p = "rq_cache_protected_len rq" and ?row = "rows (the (rq_req_pool_idx rq))"
  let ?k = "key_len ?key" and ?U = "units (request_key s rq ts)" and ?ns = "ns_of (request_key s rq ts)"
  have ps: "0 < ?ps" by (rule tree_okD(1) [OF ok])
  note rp = request_pages [OF ok sv(1) kv(1)]
  have at: "node_at s T m ?ns (take ?p ?U) (take ?p kv)" "?p \<le> ?k" using sv(1,2) by (auto simp: serves_def)
  have ready: "paged_ready ?ps pool" by (rule serves_ledger_page [OF led])
  obtain l m' s1 T1 w where i: "cache_insert ?key (Some (take ?k kv)) (request_priority rq) chunked s = Some (Inr (l, Some m', s1))"
    "tree_ok s1 T1" "\<forall>L. books s T L \<longrightarrow> books s1 T1 L" "same_config s s1" "T \<subseteq>\<^sub>m T1" "?p \<le> l" "l \<le> ?k" "?ps dvd l" "length w = l" "take ?p w = take ?p kv"
    "node_at s1 T1 m' ?ns ?U (w @ drop l (take ?k kv))"
    "\<forall>pool'. paged_ready ?ps pool' \<longrightarrow> idle pool' = idle pool + mset (pyslice (?p div ?ps) (l div ?ps) pages) \<longrightarrow>
       page_ledger ?ps (cached ?ps T1) pool' (own @ drop (?k div ?ps) pages) P"
    using insert_row [OF ok on request_key_facts(2,3) at kv rp(3) led, of "request_priority rq" chunked] by blast
  let ?V = "w @ drop l (take ?k kv)"
  define pool1 where "pool1 = paged_free_segment (pyslice ?p l kv) ?p pool"
  have lm: "l = l div ?ps * ?ps" using i(8) by simp
  note one = free_row_part [OF ready, of "?p div ?ps" l "length ts" pages, folded rp(1) kv(1), OF i(6) order_trans [OF i(7) rp(3)] kv(2), folded pool1_def]
  have ce: "(l + ?ps - 1) div ?ps = l div ?ps" using ceil_exact [OF ps, of "l div ?ps"] lm by simp
  have led1: "page_ledger ?ps (cached ?ps T1) pool1 (own @ drop (?k div ?ps) pages) P" using i(12) one unfolding ce by blast
  have ps1: "rc_page_size s1 = ?ps" and on1: "\<not> rc_disable s1" using i(4) on by (simp_all add: same_config_def)
  have lV: "length ?V = ?k" using i(7,9) rp(3) kv(1) by simp
  have fit1: "fits s1 ?key" using i(4) fits_request_key [of s rq ts] by (simp add: same_config_def fits_def)
  have key1: "units (aligned_key s1 ?key) = ?U" using request_aligned(1) [of s rq ts] by (simp add: aligned_key_config [OF i(4)])
  obtain vs n s2 T2 where mt: "match_prefix ?key s1 = Some (Inr (vs, n, s2))" "reshaped s1 T1 s2 T2"
    "node_at s2 T2 n ?ns (take (length vs) ?U) vs" "longest_of (cached ?ps T1) ?ns ?U vs"
    using match_prefix_spec [OF i(2) on1 fit1] unfolding key1 ps1 by blast
  have full: "cached ?ps T1 ?ns ?U ?V"
  proof -
    obtain ns' where m: "T1 m' = Some (ns', ?U, ?V)" "m' = rc_root_node s1 \<or> ns' = ?ns" using i(11) by (auto simp: node_at_def)
    show ?thesis
    proof (cases "m' = rc_root_node s1")
      case True
      then have e: "?U = []" "?V = []" using m(1) tree_okD(4) [OF i(2)] by simp_all
      show ?thesis unfolding e by simp
    next
      case False
      then show ?thesis using cached_path [OF i(2) m(1)] m(2) ps1 by simp
    qed
  qed
  have lvs: "length vs = ?k" using longest_all [of "cached ?ps T1", OF full mt(4)] by simp
  then have "cached ?ps T1 ?ns ?U vs" using mt(4) by (simp add: longest_of_def)
  then have V: "vs = ?V" using cached_unique [OF i(2)] full ps1 by metis
  have r2: "tree_ok s2 T2" "books s2 T2 L" "same_config s1 s2" "T1 \<subseteq>\<^sub>m T2" "cached ?ps T2 = cached ?ps T1" "\<not> rc_disable s2"
    using mt(2) b i(3) ps1 on1 by (auto simp: reshaped_def same_config_def)
  obtain e s3 where d: "dec_lock_ref m s2 = Some (Inr (e, s3))" "tree_ok s3 T2" "books s3 T2 (remove1 m L)" "same_config s2 s3"
    using dec_spec [OF r2(1,2,6) sv(3)] by blast
  have n3: "n \<in> dom T2" "\<not> rc_disable s3" using mt(3) r2(6) d(4) by (auto simp: node_at_def same_config_def)
  obtain e' s4 where g: "inc_lock_ref n s3 = Some (Inr (e', s4))" "tree_ok s4 T2" "books s4 T2 (n # remove1 m L)" "same_config s3 s4"
    using inc_spec [OF d(2,3) n3(2,1)] by blast
  have cfg: "same_config s s4" using i(4) r2(3) d(4) g(4) by (simp add: same_config_def)
  define kv' where "kv' = vs @ drop ?k kv"
  have tk: "take ?k kv' = vs" "drop ?k kv' = drop ?k kv" "length kv' = length ts" using lvs rp(3) kv(1) by (simp_all add: kv'_def)
  have ex: "page_exact ?ps vs" using led1 full V unfolding page_ledger_def exact_contents_def by blast
  have lk: "length vs = ?k div ?ps * ?ps" "?k div ?ps * ?ps \<le> length ts" using lvs rp(2,3) by simp_all
  obtain q where q: "kv' = paged_row ?ps (q @ drop (?k div ?ps) pages) (length ts)" "length (q @ drop (?k div ?ps) pages) = length pages"
    "drop (?k div ?ps) (q @ drop (?k div ?ps) pages) = drop (?k div ?ps) pages"
    using exact_before_row [OF ps ex lk kv(2), folded rp(2) kv(1)] unfolding kv'_def by blast
  let ?rq = "rq\<lparr>rq_cache_protected_len := ?k, rq_last_node := Some n, rq_prefix_indices := kv'\<rparr>"
  have key': "request_key s4 ?rq ts = ?key" by (rule request_key_config [OF cfg]) simp_all
  have sv': "serves s4 T2 ?rq ts kv'"
    unfolding serves_def key' using mt(3) lvs tk(1) cfg r2(3) d(4) g(4) by (auto simp: node_at_def same_config_def)
  have tp: "take ?p vs = take ?p ?row"
  proof -
    have "take ?p vs = take ?p kv" unfolding V using i(6,9,10) by simp
    also have "\<dots> = take ?p ?row" unfolding ts(2) using at(2) rp(3) by simp
    finally show ?thesis .
  qed
  have ltr: "length ts \<le> length ?row"
  proof -
    have "length kv = length ts" using kv(1) by simp
    then show ?thesis using ts(2) by (simp add: min_def split: if_splits)
  qed
  have row: "set_slice ?p (drop ?p vs) ?row = kv' @ drop (length ts) ?row"
  proof -
    have "drop ?k kv @ drop (length ts) ?row = drop ?k ?row" unfolding ts(2) using rp(3) ltr
      by (metis append_take_drop_id drop_append diff_is_0_eq drop_0 length_take min.absorb2)
    moreover have "set_slice ?p (drop ?p vs) ?row = (take ?p vs @ drop ?p vs) @ drop ?k ?row"
      using at(2) lvs unfolding set_slice_def tp by simp
    ultimately show ?thesis by (simp add: kv'_def)
  qed
  have pre: "(if length vs < length kv then vs @ drop (length vs) kv else vs) = kv'" using lvs kv(1) by (simp add: kv'_def)
  have "cache_unfinished_req paged_free_segment rq chunked rows s pool =
      Some (Inr (?rq, rows(the (rq_req_pool_idx rq) := kv' @ drop (length ts) ?row), s4, pool1))"
    using on i(1) mt(1) lvs d(1) g(1) sv(2) row pre
    unfolding cache_unfinished_req_def Let_def ts(1) [symmetric] ts(2) [symmetric] by (simp add: pool1_def)
  moreover have "T \<subseteq>\<^sub>m T2" using i(5) r2(4) by (rule map_le_trans)
  moreover have "page_ledger ?ps (cached ?ps T2) pool1 (own @ drop (?k div ?ps) pages) P" unfolding r2(5) by (rule led1)
  ultimately show ?thesis using g(2,3) cfg sv' q tk(2) by blast
qed

end
