(* ===== verification/RequestRows.thy ===== *)
theory RequestRows
  imports RadixRequests
begin

text \<open>
  The rows of KV slots of the running requests: \<^verbatim>\<open>ReqToTokenPool\<close> of \<^verbatim>\<open>mem_cache/memory_pool.py\<close>, the
  writers of \<^verbatim>\<open>mem_cache/allocation.py\<close> and their kernels in \<^verbatim>\<open>kernels/ops/memory/common.py\<close>.  The optional
  auxiliary cache is left out.
\<close>

section \<open>ReqToTokenPool\<close>

record row_pool =
  rp_size :: nat
  rp_max_context_len :: nat
  rp_req_to_token :: "nat \<Rightarrow> int list"
  rp_free_slots :: "nat list"
  rp_req_generation :: "nat \<Rightarrow> nat"

text \<open>Row 0 is the padding row.\<close>

definition row_pool_init :: "nat \<Rightarrow> nat \<Rightarrow> row_pool" where
  "row_pool_init n max_context_len =
     \<lparr>rp_size = n, rp_max_context_len = max_context_len,
      rp_req_to_token = (\<lambda>i. if i < n + 1 then replicate max_context_len 0 else []),
      rp_free_slots = [1..<n + 1], rp_req_generation = (\<lambda>_. 0)\<rparr>"

definition row_write :: "nat \<Rightarrow> nat \<Rightarrow> int list \<Rightarrow> (nat \<Rightarrow> int list) \<Rightarrow> nat \<Rightarrow> int list" where
  "row_write i start vals rows = rows(i := set_slice start vals (rows i))"

definition rows_available :: "row_pool \<Rightarrow> nat" where
  "rows_available p = length (rp_free_slots p)"

definition alloc_rows :: "nat \<Rightarrow> row_pool \<Rightarrow> nat list option \<times> row_pool" where
  "alloc_rows need_size p =
     (let k = length (rp_free_slots p) - need_size
      in if need_size > length (rp_free_slots p) then (None, p)
         else if need_size = 0 then (Some [], p)
         else let select_index = drop k (rp_free_slots p)
              in (Some select_index,
                  p\<lparr>rp_free_slots := take k (rp_free_slots p),
                    rp_req_generation := (\<lambda>i. if i \<in> set select_index then rp_req_generation p i + 1 else rp_req_generation p i)\<rparr>))"

definition holds_kv :: "request \<Rightarrow> bool" where
  "holds_kv rq \<longleftrightarrow> rq_req_pool_idx rq \<noteq> None"

text \<open>The loop over the requests; \<open>select_index\<close> has one index per request without a row.\<close>

fun give_rows :: "nat list \<Rightarrow> request list \<Rightarrow> request list" where
  "give_rows select_index [] = []"
| "give_rows select_index (r # rs) =
     (if holds_kv r then r # give_rows select_index rs
      else r\<lparr>rq_req_pool_idx := Some (hd select_index)\<rparr> # give_rows (tl select_index) rs)"

definition row_alloc :: "request list \<Rightarrow> row_pool \<Rightarrow> (nat list option \<times> request list \<times> row_pool) result" where
  "row_alloc reqs p =
     (let reusing = filter holds_kv reqs
      in if \<not> list_all (\<lambda>r. rq_kv_allocated_len r > 0) reusing then Inl (AssertionError ''a reused row must carry allocated KV'')
         else case alloc_rows (length reqs - length reusing) p of
                (None, p') \<Rightarrow> Inr (None, reqs, p')
              | (Some select_index, p') \<Rightarrow>
                  let reqs' = give_rows select_index reqs in Inr (Some (map (\<lambda>r. the (rq_req_pool_idx r)) reqs'), reqs', p'))"

definition free_rows :: "nat list \<Rightarrow> row_pool \<Rightarrow> row_pool" where
  "free_rows indices p = p\<lparr>rp_free_slots := rp_free_slots p @ indices\<rparr>"

definition row_free :: "request \<Rightarrow> row_pool \<Rightarrow> (request \<times> row_pool) result" where
  "row_free rq p =
     (case rq_req_pool_idx rq of
        None \<Rightarrow> Inl (AssertionError ''request must have req_pool_idx'')
      | Some i \<Rightarrow> Inr (rq\<lparr>rq_req_pool_idx := None\<rparr>, free_rows [i] p))"

definition row_pool_clear :: "row_pool \<Rightarrow> row_pool" where
  "row_pool_clear p = p\<lparr>rp_free_slots := [1..<rp_size p + 1], rp_req_generation := (\<lambda>_. 0)\<rparr>"

section \<open>Writing the rows of a batch\<close>

record row_args =
  ra_req_pool_indices :: "nat list"
  ra_prefix_tensors :: "int list list"
  ra_prefix_lens :: "nat list"
  ra_seq_lens :: "nat list"
  ra_extend_lens :: "nat list"

text \<open>The plain loop of \<^verbatim>\<open>write_cache_indices\<close>; \<open>pt\<close> is the sum of the lengths before.\<close>

fun write_rows :: "row_args \<Rightarrow> int list \<Rightarrow> nat list \<Rightarrow> nat \<Rightarrow> (nat \<Rightarrow> int list) \<Rightarrow> nat \<Rightarrow> int list" where
  "write_rows a out_cache_loc [] pt rows = rows"
| "write_rows a out_cache_loc (i # is) pt rows =
     (let req_idx = ra_req_pool_indices a ! i; prefix_len = ra_prefix_lens a ! i; extend_len = ra_extend_lens a ! i;
          rows1 = row_write req_idx 0 (ra_prefix_tensors a ! i) rows;
          rows2 = row_write req_idx prefix_len (pyslice pt (pt + extend_len) out_cache_loc) rows1
      in write_rows a out_cache_loc is (pt + extend_len) rows2)"

definition write_cache_indices :: "row_args \<Rightarrow> int list \<Rightarrow> (nat \<Rightarrow> int list) \<Rightarrow> nat \<Rightarrow> int list" where
  "write_cache_indices a out_cache_loc rows = write_rows a out_cache_loc [0..<length (ra_req_pool_indices a)] 0 rows"

text \<open>One program of \<^verbatim>\<open>write_req_to_token_pool_triton\<close>, as writes to its request's row.\<close>

definition write_req_to_token_pool_triton :: "row_args \<Rightarrow> int list \<Rightarrow> nat \<Rightarrow> int writes" where
  "write_req_to_token_pool_triton a out_cache_loc pid =
     (let pre_len = ra_prefix_lens a ! pid; seq_len = ra_seq_lens a ! pid;
          cumsum_start = sum_list (take pid (ra_extend_lens a))
      in map (\<lambda>off. (off, ra_prefix_tensors a ! pid ! off)) (filter (\<lambda>off. off < pre_len) (block_offsets pre_len 512)) @
         map (\<lambda>off. (pre_len + off, out_cache_loc ! (cumsum_start + off)))
           (filter (\<lambda>off. off < seq_len - pre_len) (block_offsets (seq_len - pre_len) 512)))"

definition launch_rows :: "row_args \<Rightarrow> (nat \<Rightarrow> int writes) \<Rightarrow> (nat \<Rightarrow> int list) \<Rightarrow> nat \<Rightarrow> int list" where
  "launch_rows a prog rows =
     foldl (\<lambda>rows pid. rows(ra_req_pool_indices a ! pid := apply_writes (rows (ra_req_pool_indices a ! pid)) (prog pid)))
       rows [0..<length (ra_req_pool_indices a)]"

text \<open>\<^verbatim>\<open>get_last_loc_torch\<close>, and the kernel's masked load for one position.\<close>

definition get_last_loc_torch :: "(nat \<Rightarrow> int list) \<Rightarrow> nat list \<Rightarrow> nat list \<Rightarrow> int list" where
  "get_last_loc_torch rows req_pool_indices prefix_lens =
     map2 (\<lambda>r n. if n > 0 then rows r ! (n - 1) else -1) req_pool_indices prefix_lens"

definition get_last_loc_kernel :: "(nat \<Rightarrow> int list) \<Rightarrow> nat list \<Rightarrow> nat list \<Rightarrow> nat \<Rightarrow> int writes" where
  "get_last_loc_kernel rows req_pool_indices prefix_lens pid =
     map (\<lambda>i. (i, if prefix_lens ! i > 0 then rows (req_pool_indices ! i) ! (prefix_lens ! i - 1) else -1))
       (filter (\<lambda>i. i < length prefix_lens) (map (\<lambda>off. off + pid * 256) [0..<256]))"

definition get_last_loc_triton :: "int list \<Rightarrow> (nat \<Rightarrow> int list) \<Rightarrow> nat list \<Rightarrow> nat list \<Rightarrow> int list" where
  "get_last_loc_triton raw rows req_pool_indices prefix_lens =
     launch [0..<(length prefix_lens + 255) div 256] (get_last_loc_kernel rows req_pool_indices prefix_lens) raw"

section \<open>Rows are held once\<close>

text \<open>The rows that are free and those that requests hold are all rows but the padding row, each once.\<close>

definition rows_apart :: "row_pool \<Rightarrow> nat list \<Rightarrow> bool" where
  "rows_apart p held \<longleftrightarrow> distinct (rp_free_slots p @ held) \<and> set (rp_free_slots p @ held) = {1..rp_size p}"

definition held_rows :: "request list \<Rightarrow> nat list" where
  "held_rows reqs = List.map_filter rq_req_pool_idx reqs"

lemma held_rows_simps [simp]:
  "held_rows [] = []" "held_rows (r # rs) = (case rq_req_pool_idx r of None \<Rightarrow> held_rows rs | Some i \<Rightarrow> i # held_rows rs)"
  "held_rows (rs @ rs') = held_rows rs @ held_rows rs'"
  by (simp_all add: held_rows_def List.map_filter_def split: option.splits)

lemma init_rows_apart: "rows_apart (row_pool_init n m) []"
  by (auto simp: rows_apart_def row_pool_init_def)

lemma alloc_rows_spec:
  assumes "alloc_rows k p = (r, p')"
  shows "r = None \<longleftrightarrow> rows_available p < k" "r = None \<Longrightarrow> p' = p"
    "r = Some sel \<Longrightarrow> length sel = k \<and> rp_free_slots p = rp_free_slots p' @ sel \<and> rp_size p' = rp_size p \<and> rp_req_to_token p' = rp_req_to_token p"
  using assms by (auto simp: alloc_rows_def rows_available_def Let_def split: if_splits)

lemma give_rows_held:
  "length sel = length (filter (\<lambda>r. \<not> holds_kv r) rs) \<Longrightarrow> mset (held_rows (give_rows sel rs)) = mset (held_rows rs) + mset sel"
proof (induction sel rs rule: give_rows.induct)
  case (2 sel r rs)
  show ?case
  proof (cases "holds_kv r")
    case True
    then show ?thesis using 2 by (auto simp: holds_kv_def)
  next
    case False
    then obtain x xs where "sel = x # xs" using "2.prems" by (cases sel) auto
    then show ?thesis using 2 False by (simp add: holds_kv_def)
  qed
qed simp

text \<open>A request of a batch before and after it has been given a row.\<close>

definition with_row :: "request \<Rightarrow> request \<Rightarrow> bool" where
  "with_row r r' \<longleftrightarrow> (\<exists>i. r' = r\<lparr>rq_req_pool_idx := Some i\<rparr> \<and> (rq_req_pool_idx r = None \<or> rq_req_pool_idx r = Some i))"

lemma give_rows_with_row: "list_all2 with_row rs (give_rows sel rs)"
  by (induction sel rs rule: give_rows.induct) (auto simp: with_row_def holds_kv_def)

lemma rows_apart_mset: "mset held = mset held' \<Longrightarrow> rows_apart p held = rows_apart p held'"
  unfolding rows_apart_def distinct_append set_append by (metis mset_eq_imp_distinct_iff mset_eq_setD)


lemma held_all: "list_all2 with_row rs rs' \<Longrightarrow> held_rows rs' = map (\<lambda>r. the (rq_req_pool_idx r)) rs'"
  by (induction rs rs' rule: list_all2_induct) (auto simp: with_row_def)

lemma alloc_spec:
  assumes apart: "rows_apart p (held_rows reqs @ others)" and kv: "\<forall>r \<in> set reqs. holds_kv r \<longrightarrow> 0 < rq_kv_allocated_len r"
  shows "\<exists>r reqs' p'. row_alloc reqs p = Inr (r, reqs', p') \<and> rp_req_to_token p' = rp_req_to_token p \<and>
    (if rows_available p < length (filter (\<lambda>r. \<not> holds_kv r) reqs) then r = None \<and> reqs' = reqs \<and> p' = p
     else r = Some (held_rows reqs') \<and> list_all2 with_row reqs reqs' \<and> rows_apart p' (held_rows reqs' @ others))"
proof -
  let ?k = "length (filter (\<lambda>r. \<not> holds_kv r) reqs)"
  have k: "length reqs - length (filter holds_kv reqs) = ?k" using sum_length_filter_compl [of holds_kv reqs] by simp
  have ok: "list_all (\<lambda>r. 0 < rq_kv_allocated_len r) (filter holds_kv reqs)" using kv by (simp add: list_all_iff)
  obtain r p' where a: "alloc_rows ?k p = (r, p')" by (cases "alloc_rows ?k p")
  note s = alloc_rows_spec [OF a]
  show ?thesis
  proof (cases "rows_available p < ?k")
    case True
    then have r: "r = None" "p' = p" using s(1,2) by blast+
    then show ?thesis using True ok a unfolding row_alloc_def Let_def k by simp
  next
    case False
    then obtain sel where sel: "r = Some sel" using s(1) by auto
    note f = s(3) [OF sel]
    let ?rs = "give_rows sel reqs"
    have w: "list_all2 with_row reqs ?rs" by (rule give_rows_with_row)
    have h: "mset (held_rows ?rs @ others) = mset sel + mset (held_rows reqs @ others)" using give_rows_held [of sel reqs] f by simp
    have "rows_apart p' (sel @ held_rows reqs @ others)" using apart f by (auto simp: rows_apart_def)
    then have "rows_apart p' (held_rows ?rs @ others)" using rows_apart_mset [of "held_rows ?rs @ others" "sel @ held_rows reqs @ others"] h by simp
    then show ?thesis using False ok a sel f w held_all [OF w] unfolding row_alloc_def Let_def k by auto
  qed
qed

lemma free_spec:
  assumes "rows_apart p (i # others)" "rq_req_pool_idx rq = Some i"
  shows "row_free rq p = Inr (rq\<lparr>rq_req_pool_idx := None\<rparr>, free_rows [i] p)" "rows_apart (free_rows [i] p) others"
  using assms by (auto simp: row_free_def rows_apart_def free_rows_def)

section \<open>The kernel writes what the loop writes\<close>

definition row_args_ok :: "row_args \<Rightarrow> int list \<Rightarrow> (nat \<Rightarrow> int list) \<Rightarrow> bool" where
  "row_args_ok a out rows \<longleftrightarrow>
     (let n = length (ra_req_pool_indices a)
      in distinct (ra_req_pool_indices a) \<and> length (ra_extend_lens a) = n \<and> length out = sum_list (ra_extend_lens a) \<and>
         (\<forall>i < n. length (ra_prefix_tensors a ! i) = ra_prefix_lens a ! i \<and> ra_seq_lens a ! i = ra_prefix_lens a ! i + ra_extend_lens a ! i \<and>
            ra_seq_lens a ! i \<le> length (rows (ra_req_pool_indices a ! i))))"

text \<open>What becomes of the row of request \<open>i\<close>.\<close>

definition written_row :: "row_args \<Rightarrow> int list \<Rightarrow> nat \<Rightarrow> int list \<Rightarrow> int list" where
  "written_row a out i old = ra_prefix_tensors a ! i @
     pyslice (sum_list (take i (ra_extend_lens a))) (sum_list (take (Suc i) (ra_extend_lens a))) out @ drop (ra_seq_lens a ! i) old"

lemma set_slice_prefix:
  "length xs = n \<Longrightarrow> n + length ys \<le> length zs \<Longrightarrow> set_slice n ys (set_slice 0 xs zs) = xs @ ys @ drop (n + length ys) zs"
  by (simp add: set_slice_def add.commute)

lemma segment_length:
  assumes "row_args_ok a out rows" "i < length (ra_req_pool_indices a)"
  shows "sum_list (take (Suc i) (ra_extend_lens a)) = sum_list (take i (ra_extend_lens a)) + ra_extend_lens a ! i"
    "sum_list (take i (ra_extend_lens a)) + ra_extend_lens a ! i \<le> length out"
proof -
  have l: "i < length (ra_extend_lens a)" "length out = sum_list (ra_extend_lens a)" using assms by (auto simp: row_args_ok_def Let_def)
  then show s: "sum_list (take (Suc i) (ra_extend_lens a)) = sum_list (take i (ra_extend_lens a)) + ra_extend_lens a ! i"
    by (simp add: take_Suc_conv_app_nth)
  have "sum_list (take (Suc i) (ra_extend_lens a)) \<le> sum_list (ra_extend_lens a)" by (metis append_take_drop_id le_add1 sum_list_append)
  then show "sum_list (take i (ra_extend_lens a)) + ra_extend_lens a ! i \<le> length out" using s l(2) by simp
qed

lemma loop_row:
  assumes ok: "row_args_ok a out rows" and i: "i < length (ra_req_pool_indices a)" and old: "length old = length (rows (ra_req_pool_indices a ! i))"
  shows "set_slice (ra_prefix_lens a ! i)
      (pyslice (sum_list (take i (ra_extend_lens a))) (sum_list (take i (ra_extend_lens a)) + ra_extend_lens a ! i) out)
      (set_slice 0 (ra_prefix_tensors a ! i) old) = written_row a out i old"
proof -
  note s = segment_length [OF ok i]
  have r: "length (ra_prefix_tensors a ! i) = ra_prefix_lens a ! i" "ra_seq_lens a ! i = ra_prefix_lens a ! i + ra_extend_lens a ! i"
    "ra_seq_lens a ! i \<le> length old" using ok i old by (auto simp: row_args_ok_def Let_def)
  have "length (pyslice (sum_list (take i (ra_extend_lens a))) (sum_list (take i (ra_extend_lens a)) + ra_extend_lens a ! i) out) = ra_extend_lens a ! i"
    using s(2) by (simp add: pyslice_def)
  then show ?thesis using set_slice_prefix [OF r(1)] r(2,3) unfolding written_row_def s(1) by simp
qed

lemma kernel_row:
  assumes ok: "row_args_ok a out rows" and i: "i < length (ra_req_pool_indices a)" and old: "length old = length (rows (ra_req_pool_indices a ! i))"
  shows "apply_writes old (write_req_to_token_pool_triton a out i) = written_row a out i old"
proof -
  let ?c = "sum_list (take i (ra_extend_lens a))" and ?e = "ra_extend_lens a ! i" and ?p = "ra_prefix_lens a ! i"
  note s = segment_length [OF ok i]
  have r: "length (ra_prefix_tensors a ! i) = ?p" "ra_seq_lens a ! i = ?p + ?e" "ra_seq_lens a ! i \<le> length old"
    using ok i old by (auto simp: row_args_ok_def Let_def)
  have one: "map (\<lambda>off. ra_prefix_tensors a ! i ! off) [0..<?p] = ra_prefix_tensors a ! i" using r(1) by (metis map_nth)
  have two: "map (\<lambda>off. out ! (?c + off)) [0..<?e] = pyslice ?c (?c + ?e) out" using s(2) by (intro nth_equalityI) (auto simp: pyslice_def)
  have "apply_writes old (write_req_to_token_pool_triton a out i) =
      apply_writes (apply_writes old (map (\<lambda>off. (0 + off, ra_prefix_tensors a ! i ! off)) [0..<?p])) (map (\<lambda>off. (?p + off, out ! (?c + off))) [0..<?e])"
    using r(2) by (simp add: write_req_to_token_pool_triton_def Let_def)
  also have "\<dots> = set_slice ?p (pyslice ?c (?c + ?e) out) (set_slice 0 (ra_prefix_tensors a ! i) old)"
    using r apply_writes_block [of 0 ?p old "\<lambda>off. ra_prefix_tensors a ! i ! off"]
      apply_writes_block [of ?p ?e "set_slice 0 (ra_prefix_tensors a ! i) old" "\<lambda>off. out ! (?c + off)"]
    unfolding one two by simp
  also have "\<dots> = written_row a out i old" by (rule loop_row [OF ok i old])
  finally show ?thesis .
qed


definition rows_after :: "row_args \<Rightarrow> int list \<Rightarrow> nat \<Rightarrow> (nat \<Rightarrow> int list) \<Rightarrow> nat \<Rightarrow> int list" where
  "rows_after a out n rows =
     foldl (\<lambda>rows i. rows(ra_req_pool_indices a ! i := written_row a out i (rows (ra_req_pool_indices a ! i)))) rows [0..<n]"

lemma rows_after_simps [simp]:
  "rows_after a out 0 rows = rows"
  "rows_after a out (Suc n) rows = (rows_after a out n rows)(ra_req_pool_indices a ! n :=
     written_row a out n (rows_after a out n rows (ra_req_pool_indices a ! n)))"
  by (simp_all add: rows_after_def)

lemma rows_after_old:
  assumes "distinct (ra_req_pool_indices a)" "n \<le> length (ra_req_pool_indices a)" "r \<notin> ((!) (ra_req_pool_indices a)) ` {0..<n}"
  shows "rows_after a out n rows r = rows r"
  using assms(2,3)
proof (induction n)
  case (Suc n)
  then have "r \<noteq> ra_req_pool_indices a ! n" "r \<notin> (!) (ra_req_pool_indices a) ` {0..<n}" by auto
  then show ?case using Suc by simp
qed simp

lemma rows_after_new:
  assumes d: "distinct (ra_req_pool_indices a)" and n: "n \<le> length (ra_req_pool_indices a)" "i < n"
  shows "rows_after a out n rows (ra_req_pool_indices a ! i) = written_row a out i (rows (ra_req_pool_indices a ! i))"
  using n
proof (induction n)
  case (Suc n)
  have fresh: "ra_req_pool_indices a ! n \<notin> (!) (ra_req_pool_indices a) ` {0..<n}" using Suc.prems(1) d by (auto simp: nth_eq_iff_index_eq)
  show ?case
  proof (cases "i = n")
    case True
    then show ?thesis using rows_after_old [OF d _ fresh, of out rows] Suc.prems by simp
  next
    case False
    then have "ra_req_pool_indices a ! i \<noteq> ra_req_pool_indices a ! n" using Suc.prems d by (simp add: nth_eq_iff_index_eq)
    then show ?thesis using False Suc by simp
  qed
qed simp

text \<open>The row that is written next still has its old length.\<close>

lemma next_row:
  assumes ok: "row_args_ok a out rows" and n: "n < length (ra_req_pool_indices a)"
  shows "rows_after a out n rows (ra_req_pool_indices a ! n) = rows (ra_req_pool_indices a ! n)"
proof -
  have d: "distinct (ra_req_pool_indices a)" using ok by (simp add: row_args_ok_def Let_def)
  then have "ra_req_pool_indices a ! n \<notin> (!) (ra_req_pool_indices a) ` {0..<n}" using n by (auto simp: nth_eq_iff_index_eq)
  then show ?thesis using rows_after_old [OF d] n by simp
qed

lemma launch_rows_spec:
  assumes ok: "row_args_ok a out rows"
  shows "launch_rows a (write_req_to_token_pool_triton a out) rows = rows_after a out (length (ra_req_pool_indices a)) rows"
proof -
  have "foldl (\<lambda>rows pid. rows(ra_req_pool_indices a ! pid :=
      apply_writes (rows (ra_req_pool_indices a ! pid)) (write_req_to_token_pool_triton a out pid))) rows [0..<n] = rows_after a out n rows"
    if "n \<le> length (ra_req_pool_indices a)" for n
    using that by (induction n) (simp_all add: next_row [OF ok] kernel_row [OF ok])
  then show ?thesis unfolding launch_rows_def by simp
qed

lemma write_rows_append:
  "write_rows a out (is @ js) pt rows = write_rows a out js (pt + sum_list (map ((!) (ra_extend_lens a)) is)) (write_rows a out is pt rows)"
  by (induction "is" arbitrary: pt rows) (simp_all add: Let_def add.assoc)

lemma write_rows_spec:
  assumes ok: "row_args_ok a out rows"
  shows "write_cache_indices a out rows = rows_after a out (length (ra_req_pool_indices a)) rows"
proof -
  have l: "length (ra_extend_lens a) = length (ra_req_pool_indices a)" using ok by (simp add: row_args_ok_def Let_def)
  have "write_rows a out [0..<n] 0 rows = rows_after a out n rows" if "n \<le> length (ra_req_pool_indices a)" for n
    using that
  proof (induction n)
    case (Suc n)
    have t: "map ((!) (ra_extend_lens a)) [0..<n] = take n (ra_extend_lens a)" using Suc.prems l by (intro nth_equalityI) simp_all
    have n: "n < length (ra_req_pool_indices a)" using Suc.prems by simp
    show ?case using Suc
      by (simp add: write_rows_append t Let_def row_write_def next_row [OF ok n] loop_row [OF ok n refl])
  qed simp
  then show ?thesis unfolding write_cache_indices_def by simp
qed

text \<open>
  C27. The kernel that writes a batch's rows leaves the rows that the plain loop leaves: each request's row
  starts with its prefix and its slice of the new slots, the rest of it and all other rows are as before.
\<close>

theorem row_kernel_is_loop:
  assumes "row_args_ok a out rows"
  shows "launch_rows a (write_req_to_token_pool_triton a out) rows = write_cache_indices a out rows
    \<and> (\<forall>i < length (ra_req_pool_indices a). write_cache_indices a out rows (ra_req_pool_indices a ! i)
         = written_row a out i (rows (ra_req_pool_indices a ! i)))
    \<and> (\<forall>r. r \<notin> set (ra_req_pool_indices a) \<longrightarrow> write_cache_indices a out rows r = rows r)"
proof -
  have d: "distinct (ra_req_pool_indices a)" using assms by (simp add: row_args_ok_def Let_def)
  have s: "(!) (ra_req_pool_indices a) ` {0..<length (ra_req_pool_indices a)} = set (ra_req_pool_indices a)" by (metis list.set_map map_nth set_upt)
  show ?thesis unfolding launch_rows_spec [OF assms] write_rows_spec [OF assms]
    using rows_after_new [OF d order_refl] rows_after_old [OF d order_refl, of _ out rows] unfolding s by blast
qed

definition row_demo :: row_args where
  "row_demo = \<lparr>ra_req_pool_indices = [2, 1], ra_prefix_tensors = [[10, 11], []], ra_prefix_lens = [2, 0], ra_seq_lens = [3, 2], ra_extend_lens = [1, 2]\<rparr>"

theorem row_kernel_is_loop_witness:
  "row_args_ok row_demo [12, 20, 21] (\<lambda>_. replicate 4 0) \<and>
   launch_rows row_demo (write_req_to_token_pool_triton row_demo [12, 20, 21]) (\<lambda>_. replicate 4 0) 2 = [10, 11, 12, 0]"
proof -
  have ok: "row_args_ok row_demo [12, 20, 21] (\<lambda>_. replicate 4 0)" by (auto simp: row_args_ok_def Let_def row_demo_def less_Suc_eq)
  have "write_cache_indices row_demo [12, 20, 21] (\<lambda>_. replicate 4 0) 2 = [10, 11, 12, 0]" by code_simp
  then show ?thesis using row_kernel_is_loop [OF ok] ok by simp
qed

lemma filter_upt: "filter (\<lambda>i. i < n) [a..<b] = [a..<min n b]"
  by (induction b) (auto simp: min_def le_Suc_eq)

lemma last_loc_kernel_is_torch:
  assumes "length req_pool_indices = length prefix_lens" "length raw = length prefix_lens"
  shows "get_last_loc_triton raw rows req_pool_indices prefix_lens = get_last_loc_torch rows req_pool_indices prefix_lens"
proof -
  let ?n = "length prefix_lens"
  let ?f = "\<lambda>i. if prefix_lens ! i > 0 then rows (req_pool_indices ! i) ! (prefix_lens ! i - 1) else -1"
  have m: "map (\<lambda>off. off + pid * 256) [0..<256] = [pid * 256..<pid * 256 + 256]" for pid :: nat
    by (intro nth_equalityI) (simp_all add: add.commute)
  have c: "concat (map (get_last_loc_kernel rows req_pool_indices prefix_lens) [0..<k]) = map (\<lambda>i. (0 + i, ?f i)) [0..<min ?n (k * 256)]" for k
  proof (induction k)
    case (Suc k)
    have j: "[0..<min ?n (k * 256)] @ [k * 256..<min ?n (k * 256 + 256)] = [0..<min ?n (Suc k * 256)]"
      by (auto simp: min_def upt_add_eq_append [symmetric] upt_parts add.commute)
    have kn: "get_last_loc_kernel rows req_pool_indices prefix_lens k = map (\<lambda>i. (0 + i, ?f i)) [k * 256..<min ?n (k * 256 + 256)]"
      unfolding get_last_loc_kernel_def m filter_upt by simp
    have "concat (map (get_last_loc_kernel rows req_pool_indices prefix_lens) [0..<Suc k]) =
        map (\<lambda>i. (0 + i, ?f i)) ([0..<min ?n (k * 256)] @ [k * 256..<min ?n (k * 256 + 256)])"
      unfolding upt_Suc_append [OF le0] map_append concat_append Suc by (simp add: kn)
    then show ?case unfolding j .
  qed simp
  have "?n \<le> (?n + 255) div 256 * 256" using ceil_bounds(1) [of 256 ?n] by simp
  then have "get_last_loc_triton raw rows req_pool_indices prefix_lens = apply_writes raw (map (\<lambda>i. (0 + i, ?f i)) [0..<?n])"
    unfolding get_last_loc_triton_def launch_def c by (simp add: min_absorb1)
  also have "\<dots> = map ?f [0..<?n]" using apply_writes_block [of 0 ?n raw ?f] assms(2) by (simp add: set_slice_def)
  also have "\<dots> = get_last_loc_torch rows req_pool_indices prefix_lens"
    using assms(1) by (intro nth_equalityI) (simp_all add: get_last_loc_torch_def)
  finally show ?thesis .
qed

end
