(* ===== verification/KvMemory.thy ===== *)
theory KvMemory
  imports RequestRows
begin

text \<open>
  The KV memory of the running requests, where the prefix cache, the allocator and the rows meet:
  \<^verbatim>\<open>mem_cache/allocation.py\<close>, \<^verbatim>\<open>release_kv_cache\<close> and its helpers in \<^verbatim>\<open>mem_cache/common.py\<close>, and what
  \<^verbatim>\<open>managers/schedule_batch.py\<close> does with them: the match of a new request, the extension, the decode step,
  and the retraction of requests when memory runs out.
\<close>

section \<open>Slots with eviction\<close>

definition alloc_token_slots ::
  "(nat \<Rightarrow> nat) \<Rightarrow> nat \<Rightarrow> radix_cache \<Rightarrow> allocator \<Rightarrow> (int list \<times> radix_cache \<times> allocator) result option" where
  "alloc_token_slots tie num_tokens s al =
     and_then (evict_from_tree_cache token_free_segment available_size tie num_tokens s al) (\<lambda>(s', al').
       case token_alloc num_tokens al' of
         (None, al'') \<Rightarrow> Some (Inl (RuntimeError ''Out of memory''))
       | (Some out, al'') \<Rightarrow> Some (Inr (out, s', al'')))"

definition alloc_paged_token_slots_extend ::
  "int list \<Rightarrow> (nat \<Rightarrow> nat) \<Rightarrow> nat list \<Rightarrow> nat list \<Rightarrow> int list \<Rightarrow> nat \<Rightarrow> radix_cache \<Rightarrow> allocator
   \<Rightarrow> (int list \<times> radix_cache \<times> allocator) result option" where
  "alloc_paged_token_slots_extend raw tie prefix_lens seq_lens last_loc extend_num_tokens s al =
     (let num_tokens = extend_num_tokens + length seq_lens * al_page_size al
      in and_then (evict_from_tree_cache paged_free_segment available_size tie num_tokens s al) (\<lambda>(s', al').
           case alloc_extend raw prefix_lens seq_lens last_loc extend_num_tokens al' of
             (None, al'') \<Rightarrow> Some (Inl (RuntimeError ''Prefill out of memory''))
           | (Some out, al'') \<Rightarrow> Some (Inr (out, s', al''))))"

definition alloc_paged_token_slots_decode ::
  "int list \<Rightarrow> (nat \<Rightarrow> nat) \<Rightarrow> nat list \<Rightarrow> int list \<Rightarrow> radix_cache \<Rightarrow> allocator
   \<Rightarrow> (int list \<times> radix_cache \<times> allocator) result option" where
  "alloc_paged_token_slots_decode raw tie seq_lens last_loc s al =
     (let num_tokens = length seq_lens * al_page_size al
      in and_then (evict_from_tree_cache paged_free_segment available_size tie num_tokens s al) (\<lambda>(s', al').
           case alloc_decode raw seq_lens last_loc al' of
             (None, al'') \<Rightarrow> Some (Inl (RuntimeError ''Decode out of memory''))
           | (Some out, al'') \<Rightarrow> Some (Inr (out, s', al''))))"

section \<open>The memory and the requests\<close>

record kv_memory =
  km_cache :: radix_cache
  km_allocator :: allocator
  km_rows :: row_pool

text \<open>A request's tokens, its length key, and \<^verbatim>\<open>set_extend_range\<close> with \<^verbatim>\<open>get_fill_ids\<close>.\<close>

definition request_tokens :: "request \<Rightarrow> int list" where
  "request_tokens rq = rq_origin_input_ids rq @ rq_output_ids rq"

definition set_extend_range :: "nat \<Rightarrow> request \<Rightarrow> request" where
  "set_extend_range end_pos rq = rq\<lparr>rq_fill_ids := take end_pos (request_tokens rq)\<rparr>"

definition compute_max_prefix_len :: "int option \<Rightarrow> nat \<Rightarrow> nat" where
  "compute_max_prefix_len logprob_start_len input_len =
     (let max_prefix_len = int input_len - 1;
          max_prefix_len' = (case logprob_start_len of
             Some l \<Rightarrow> if l \<ge> 0 then min max_prefix_len l else max_prefix_len
           | None \<Rightarrow> max_prefix_len)
      in nat (max max_prefix_len' 0))"

text \<open>
  \<^verbatim>\<open>init_next_round_input\<close> with the tree cache: the match of the request's tokens, of none when embeddings
  override them, and thrown away under \<^verbatim>\<open>SGLANG_RADIX_FORCE_MISS\<close> by \<^verbatim>\<open>zero_match_result\<close>.  \<open>logprob_start_len\<close> is
  \<open>None\<close> unless log-probabilities are returned and the session does not stream.  The tail a sliding-window layout
  prefills again is empty for this cache.  Diffusion models, the positions of multimodal requests and the results of
  tiered caches are left out.
\<close>

definition zero_match_result :: "int list \<times> nat \<times> radix_cache \<Rightarrow> int list \<times> nat \<times> radix_cache" where
  "zero_match_result r = (case r of (indices, last_node, s) \<Rightarrow> (take 0 indices, rc_root_node s, s))"

definition match_key_of :: "int option \<Rightarrow> request \<Rightarrow> radix_key" where
  "match_key_of logprob_start_len rq =
     (let token_ids = request_tokens rq; key_limit = Some (compute_max_prefix_len logprob_start_len (length token_ids));
          (token_ids', key_limit') = (if rq_embed_overrides rq then ([], None) else (token_ids, key_limit))
      in make_key token_ids' (rq_extra_key rq) False key_limit' (rq_cache_salt rq))"

definition init_next_round_input ::
  "bool \<Rightarrow> int option \<Rightarrow> request \<Rightarrow> kv_memory \<Rightarrow> (request \<times> kv_memory) result option" where
  "init_next_round_input force_miss logprob_start_len rq m =
     and_then (match_prefix (match_key_of logprob_start_len rq) (km_cache m)) (\<lambda>match.
       let (indices, last_node, s') = (if force_miss then zero_match_result match else match)
       in Some (Inr (rq\<lparr>rq_prefix_indices := indices, rq_last_node := Some last_node, rq_cache_protected_len := length indices\<rparr>,
            m\<lparr>km_cache := s'\<rparr>)))"

definition req_inc_lock_ref :: "request \<Rightarrow> kv_memory \<Rightarrow> kv_memory result option" where
  "req_inc_lock_ref rq m =
     (case rq_last_node rq of
        None \<Rightarrow> Some (Inl (AttributeError ''lock_ref''))
      | Some n \<Rightarrow> and_then (inc_lock_ref n (km_cache m)) (\<lambda>(d, s'). Some (Inr (m\<lparr>km_cache := s'\<rparr>))))"

section \<open>Extension and decode\<close>

text \<open>
  \<^verbatim>\<open>alloc_for_extend\<close>.  \<open>raw\<close> is what \<^verbatim>\<open>torch.empty\<close> leaves; the page size is the cache's.
\<close>

definition extend_row_args :: "request list \<Rightarrow> row_args" where
  "extend_row_args reqs =
     \<lparr>ra_req_pool_indices = map (\<lambda>r. the (rq_req_pool_idx r)) reqs, ra_prefix_tensors = map rq_prefix_indices reqs,
      ra_prefix_lens = map (\<lambda>r. length (rq_prefix_indices r)) reqs, ra_seq_lens = map (\<lambda>r. length (rq_fill_ids r)) reqs,
      ra_extend_lens = map (\<lambda>r. length (rq_fill_ids r) - length (rq_prefix_indices r)) reqs\<rparr>"

definition last_slot :: "int list \<Rightarrow> int" where
  "last_slot t = (if t \<noteq> [] then last t else -1)"

definition alloc_for_extend ::
  "int list \<Rightarrow> (nat \<Rightarrow> nat) \<Rightarrow> request list \<Rightarrow> kv_memory \<Rightarrow> (int list \<times> request list \<times> kv_memory) result option" where
  "alloc_for_extend raw tie reqs m =
     (case row_alloc reqs (km_rows m) of
        Inl e \<Rightarrow> Some (Inl e)
      | Inr (None, reqs', p') \<Rightarrow> Some (Inl (RuntimeError ''alloc_req_slots runs out of memory''))
      | Inr (Some req_pool_indices, reqs', p') \<Rightarrow>
          let a = extend_row_args reqs'; s = km_cache m; n = sum_list (ra_extend_lens a)
          in and_then
               (if rc_page_size s = 1 then alloc_token_slots tie n s (km_allocator m)
                else alloc_paged_token_slots_extend raw tie (ra_prefix_lens a) (ra_seq_lens a)
                       (map (\<lambda>r. last_slot (rq_prefix_indices r)) reqs) n s (km_allocator m))
               (\<lambda>(out_cache_loc, s', al').
                  Some (Inr (out_cache_loc,
                    map (\<lambda>r. r\<lparr>rq_kv_allocated_len := length (rq_fill_ids r), rq_kv_committed_len := length (rq_fill_ids r)\<rparr>) reqs',
                    \<lparr>km_cache = s', km_allocator = al',
                     km_rows = p'\<lparr>rp_req_to_token := write_cache_indices a out_cache_loc (rp_req_to_token p')\<rparr>\<rparr>))))"

text \<open>
  \<^verbatim>\<open>alloc_for_decode\<close> for one token per request; \<open>seq_lens\<close> are the batch's lengths before the step.
\<close>

definition decode_rows :: "request list \<Rightarrow> nat list \<Rightarrow> int list \<Rightarrow> (nat \<Rightarrow> int list) \<Rightarrow> nat \<Rightarrow> int list" where
  "decode_rows reqs seq_lens out rows =
     foldl (\<lambda>rows (r, n, v). rows(the (rq_req_pool_idx r) := (rows (the (rq_req_pool_idx r)))[n := v])) rows (zip reqs (zip seq_lens out))"

definition alloc_for_decode ::
  "int list \<Rightarrow> (nat \<Rightarrow> nat) \<Rightarrow> request list \<Rightarrow> nat list \<Rightarrow> kv_memory \<Rightarrow> (int list \<times> request list \<times> kv_memory) result option" where
  "alloc_for_decode raw tie reqs seq_lens m =
     (let s = km_cache m; rows = rp_req_to_token (km_rows m)
      in and_then
           (if rc_page_size s = 1 then alloc_token_slots tie (length reqs) s (km_allocator m)
            else alloc_paged_token_slots_decode raw tie (map Suc seq_lens)
                   (map2 (\<lambda>r n. rows (the (rq_req_pool_idx r)) ! (n - 1)) reqs seq_lens) s (km_allocator m))
           (\<lambda>(out_cache_loc, s', al').
              Some (Inr (out_cache_loc,
                map (\<lambda>r. r\<lparr>rq_kv_allocated_len := rq_kv_allocated_len r + 1, rq_kv_committed_len := rq_kv_committed_len r + 1\<rparr>) reqs,
                \<lparr>km_cache = s', km_allocator = al',
                 km_rows = (km_rows m)\<lparr>rp_req_to_token := decode_rows reqs seq_lens out_cache_loc rows\<rparr>\<rparr>))))"

section \<open>Release\<close>

text \<open>\<^verbatim>\<open>free_kv_row_segments\<close>: the segments split at the floor below which the window's slots are gone.\<close>

fun split_segments :: "nat \<Rightarrow> (int list \<times> nat) list \<Rightarrow> int list list \<times> (int list \<times> nat) list" where
  "split_segments swa_evicted_seqlen [] = ([], [])"
| "split_segments swa_evicted_seqlen ((kv_indices, start_pos) # segments) =
     (let (swa_dead, swa_alive) = split_segments swa_evicted_seqlen segments;
          num_indices = length kv_indices; num_dead = min (swa_evicted_seqlen - start_pos) num_indices
      in if num_indices = 0 then (swa_dead, swa_alive)
         else (if num_dead > 0 then take num_dead kv_indices # swa_dead else swa_dead,
               if num_dead < num_indices then (drop num_dead kv_indices, start_pos + num_dead) # swa_alive else swa_alive))"

definition free_kv_row_segments :: "(int list \<times> nat) list \<Rightarrow> nat \<Rightarrow> allocator \<Rightarrow> allocator result" where
  "free_kv_row_segments segments swa_evicted_seqlen al =
     (let (swa_dead, swa_alive) = split_segments swa_evicted_seqlen segments;
          ps = al_page_size al;
          al1 = (if swa_dead \<noteq> [] then paged_free (concat swa_dead) al else al)
      in if swa_dead \<noteq> [] \<and> swa_alive \<noteq> [] \<and> swa_evicted_seqlen mod ps \<noteq> 0 then Inl (AssertionError ''SWA eviction floor splits a page'')
         else Inr (if swa_alive \<noteq> [] then free_segments ps paged_free_segment swa_alive al1 else al1))"

definition free_kv_row :: "request \<Rightarrow> (nat \<times> nat) list \<Rightarrow> kv_memory \<Rightarrow> kv_memory result" where
  "free_kv_row rq ranges m =
     (let row = rp_req_to_token (km_rows m) (the (rq_req_pool_idx rq))
      in case free_kv_row_segments (map (\<lambda>(start, end). (pyslice start end row, start)) ranges) (rq_swa_evicted_seqlen rq) (km_allocator m) of
           Inl e \<Rightarrow> Inl e
         | Inr al' \<Rightarrow> Inr (m\<lparr>km_allocator := al'\<rparr>))"

text \<open>\<open>overallocates\<close>: a speculative algorithm is set or \<^verbatim>\<open>strip_thinking_cache\<close> is on.\<close>

definition release_overallocated_kv_indices :: "bool \<Rightarrow> request \<Rightarrow> nat \<Rightarrow> nat \<Rightarrow> kv_memory \<Rightarrow> kv_memory result" where
  "release_overallocated_kv_indices overallocates rq start_p end_p m =
     (let ps = al_page_size (km_allocator m);
          start' = (if ps > 1 then (start_p + ps - 1) div ps * ps else start_p)
      in if \<not> overallocates \<and> start_p \<noteq> end_p then Inl (AssertionError ''Unexpected overallocated KV cache'')
         else if start' < end_p then free_kv_row rq [(start', end_p)] m else Inr m)"

definition is_kv_released :: "request \<Rightarrow> bool" where
  "is_kv_released rq \<longleftrightarrow> rq_kv_allocated_len rq = 0 \<and> rq_swa_evicted_seqlen rq = 0"

definition mark_kv_released :: "request \<Rightarrow> request" where
  "mark_kv_released rq = rq\<lparr>rq_kv_allocated_len := 0, rq_swa_evicted_seqlen := 0\<rparr>"

text \<open>\<open>strips_thinking\<close>: \<^verbatim>\<open>strip_thinking_cache\<close> is on and the request has reasoning tokens.\<close>

definition effective_kv_committed_len :: "bool \<Rightarrow> request \<Rightarrow> nat" where
  "effective_kv_committed_len strips_thinking rq =
     (if strips_thinking then min (rq_kv_committed_len rq) (length (rq_origin_input_ids rq)) else rq_kv_committed_len rq)"

text \<open>
  \<open>is_insert\<close> is the argument and the request not being marked \<^verbatim>\<open>skip_radix_cache_insert\<close>.  \<^verbatim>\<open>cache_finished_req\<close>
  of the radix cache leaves the row with the request, so the second assertion repeats the first.
\<close>

definition release_kv_cache :: "bool \<Rightarrow> bool \<Rightarrow> bool \<Rightarrow> request \<Rightarrow> kv_memory \<Rightarrow> (request \<times> kv_memory) result option" where
  "release_kv_cache overallocates strips_thinking is_insert rq m =
     (if (\<not> holds_kv rq) \<noteq> is_kv_released rq then Some (Inl (AssertionError ''is_kv_released''))
      else if \<not> holds_kv rq then Some (Inl (AssertionError ''Only MambaRadixCache allow freeing before alloc''))
      else
        let committed = effective_kv_committed_len strips_thinking rq
        in and_then (cache_finished_req (al_page_size (km_allocator m)) paged_free_segment rq is_insert committed
                       (rp_req_to_token (km_rows m)) (km_cache m) (km_allocator m))
             (\<lambda>(s', al').
                case release_overallocated_kv_indices overallocates rq committed (rq_kv_allocated_len rq) (m\<lparr>km_cache := s', km_allocator := al'\<rparr>) of
                  Inl e \<Rightarrow> Some (Inl e)
                | Inr m' \<Rightarrow> (case row_free rq (km_rows m') of
                               Inl e \<Rightarrow> Some (Inl e)
                             | Inr (rq', p') \<Rightarrow> Some (Inr (mark_kv_released rq', m'\<lparr>km_rows := p'\<rparr>)))))"

section \<open>Retraction\<close>

text \<open>\<^verbatim>\<open>sort(key=..., reverse=True)\<close> keeps the order of equal keys.\<close>

definition sort_reverse :: "('a \<Rightarrow> 'b :: linorder) \<Rightarrow> 'a list \<Rightarrow> 'a list" where
  "sort_reverse key xs = rev (sort_key key (rev xs))"

definition length_key :: "request \<Rightarrow> int \<times> int" where
  "length_key rq = (int (length (rq_output_ids rq)), - int (length (rq_origin_input_ids rq)))"

definition retraction_key :: "bool \<Rightarrow> request \<Rightarrow> int \<times> int \<times> int" where
  "retraction_key low_values_first rq =
     (let priority_sign = (if low_values_first then 1 else -1);
          priority = (case rq_priority rq of Some p \<Rightarrow> p | None \<Rightarrow> if low_values_first then maxsize else - maxsize - 1)
      in (priority * (- priority_sign), length_key rq))"

definition get_decode_retraction_order :: "bool \<Rightarrow> bool \<Rightarrow> request list \<Rightarrow> nat list" where
  "get_decode_retraction_order by_priority low_values_first reqs =
     (if by_priority then sort_reverse (\<lambda>i. retraction_key low_values_first (reqs ! i)) [0..<length reqs]
      else sort_reverse (\<lambda>i. length_key (reqs ! i)) [0..<length reqs])"

text \<open>Without speculation: the pages the next step needs.\<close>

definition new_tokens_required_next_decode :: "nat \<Rightarrow> request list \<Rightarrow> nat" where
  "new_tokens_required_next_decode page_size requests =
     length (filter (\<lambda>r. rq_kv_committed_len r mod page_size = 0) requests) * page_size"

definition check_decode_mem :: "(nat \<Rightarrow> nat) \<Rightarrow> request list \<Rightarrow> kv_memory \<Rightarrow> (bool \<times> kv_memory) result option" where
  "check_decode_mem tie requests m =
     and_then (check_decode_capacity paged_free_segment available_size tie
                 (new_tokens_required_next_decode (al_page_size (km_allocator m)) requests) (km_cache m) (km_allocator m))
       (\<lambda>(b, s', al'). Some (Inr (b, m\<lparr>km_cache := s', km_allocator := al'\<rparr>)))"

text \<open>
  \<^verbatim>\<open>reset_for_retract\<close>; the last statement discards the output of a request given by embeddings.  Counters, flags,
  log-probabilities and the fields of other caches are left out.
\<close>

definition reset_for_retract :: "request \<Rightarrow> request result" where
  "reset_for_retract rq =
     (if holds_kv rq then Inl (AssertionError ''expect it is already released'')
      else let rq1 = rq\<lparr>rq_prefix_indices := [], rq_last_node := None, rq_cache_protected_len := 0, rq_kv_committed_len := 0, rq_fill_ids := []\<rparr>
           in Inr (if rq_input_embeds rq then rq1\<lparr>rq_output_ids := []\<rparr> else rq1))"

text \<open>What a request that is given back starts from.\<close>

definition retry_tokens :: "request \<Rightarrow> int list" where
  "retry_tokens rq = (if rq_input_embeds rq then rq_origin_input_ids rq else request_tokens rq)"

text \<open>\<^verbatim>\<open>release_req\<close> outside disaggregation; \<open>retract_steps\<close> is \<^verbatim>\<open>SGLANG_RETRACT_DECODE_STEPS\<close>.\<close>

definition release_req ::
  "bool \<Rightarrow> bool \<Rightarrow> nat \<Rightarrow> (nat \<Rightarrow> nat) \<Rightarrow> request \<Rightarrow> nat \<Rightarrow> kv_memory \<Rightarrow> (request \<times> kv_memory) result option" where
  "release_req overallocates strips_thinking retract_steps tie rq remaining_req_count m =
     and_then (release_kv_cache overallocates strips_thinking False rq m) (\<lambda>(rq', m').
       and_then (evict_from_tree_cache paged_free_segment available_size tie (remaining_req_count * retract_steps) (km_cache m') (km_allocator m'))
         (\<lambda>(s', al'). case reset_for_retract rq' of
            Inl e \<Rightarrow> Some (Inl e)
          | Inr rq'' \<Rightarrow> Some (Inr (rq'', m'\<lparr>km_cache := s', km_allocator := al'\<rparr>))))"


section \<open>Keys of a request's tokens\<close>

definition token_units :: "bool \<Rightarrow> int list \<Rightarrow> unit_key list" where
  "token_units pairs ts = (if pairs then map (\<lambda>i. Big (ts ! i) (ts ! (i + 1))) [0..<length ts - 1] else map Tok ts)"

lemma units_make_key:
  "units (make_key ts e b None salt) = token_units b ts" "units (make_key ts e b (Some l) salt) = token_units b (take l ts)"
  by (auto simp: units_def make_key_def token_units_def raw_len_def Let_def min_def intro!: nth_equalityI)

lemma token_units_take: "token_units b (take l ts) = take (length (token_units b (take l ts))) (token_units b ts)"
  by (auto simp: token_units_def min_def take_map intro!: nth_equalityI)

lemma units_request_key:
  "units (request_key s rq ts) = take (length (token_units (rc_is_eagle s) ts) div rc_page_size s * rc_page_size s) (token_units (rc_is_eagle s) ts)"
proof -
  have l: "key_len k = length (units k)" for k by simp
  show ?thesis unfolding request_key_def units_page_aligned l units_make_key ..
qed

lemma key_len_request_key:
  "key_len (request_key s rq ts) = length (token_units (rc_is_eagle s) ts) div rc_page_size s * rc_page_size s"
  by (metis length_units units_request_key length_take min.absorb2 div_times_less_eq_dividend)

lemma length_token_units: "length (token_units b ts) = (if b then length ts - 1 else length ts)"
  by (simp add: token_units_def)

lemma key_len_mono: "length ts \<le> length ts' \<Longrightarrow> key_len (request_key s rq ts) \<le> key_len (request_key s rq' ts')"
  unfolding key_len_request_key by (intro mult_le_mono1 div_le_mono) (auto simp: length_token_units)

lemma request_key_prefix:
  assumes "p \<le> key_len (request_key s rq (take j ts))"
  shows "take p (units (request_key s rq (take j ts))) = take p (units (request_key s rq ts))"
proof -
  let ?t = "token_units (rc_is_eagle s)"
  have le: "p \<le> key_len (request_key s rq ts)" using assms key_len_mono [of "take j ts" ts s rq rq] by simp
  have "take p (units (request_key s rq (take j ts))) = take p (?t (take j ts))"
    using assms unfolding units_request_key key_len_request_key by (simp add: min_absorb1)
  also have "\<dots> = take p (?t ts)"
    using assms unfolding key_len_request_key by (subst token_units_take) (auto simp: min_def intro: order_trans [OF _ div_times_less_eq_dividend])
  also have "\<dots> = take p (units (request_key s rq ts))"
    using le unfolding units_request_key key_len_request_key by (simp add: min_absorb1)
  finally show ?thesis .
qed

text \<open>The key of a match has a limit or no tokens, and no pairs yet; the cache reads it as the key of the first tokens.\<close>

lemma make_key_units:
  assumes "lim = Some l \<or> lim = None \<and> length ts \<le> l"
  shows "units (aligned_key s (make_key ts (rq_extra_key rq) False lim (rq_cache_salt rq))) = units (request_key s rq (take l ts))"
    "ns_of (make_key ts (rq_extra_key rq) False lim (rq_cache_salt rq)) = ns_of (request_key s rq (take l ts))"
    "fits s (make_key ts (rq_extra_key rq) False lim (rq_cache_salt rq))"
proof -
  let ?k = "make_key ts (rq_extra_key rq) False lim (rq_cache_salt rq)"
  have v: "fst (maybe_to_bigram_view (rc_is_eagle s) ?k (None :: int list option)) = make_key ts (rq_extra_key rq) (rc_is_eagle s) lim (rq_cache_salt rq)"
    by (simp add: maybe_to_bigram_view_def make_key_def Let_def)
  have len: "key_len k = length (units k)" for k by simp
  have u: "units (make_key ts e b lim salt) = token_units b (take l ts)" for e b salt using assms by (auto simp: units_make_key)
  show "units (aligned_key s ?k) = units (request_key s rq (take l ts))"
    unfolding aligned_key_def v units_page_aligned len u units_request_key ..
  show "ns_of ?k = ns_of (request_key s rq (take l ts))" unfolding request_key_facts(1) by (simp add: ns_of_def make_key_def)
  show "fits s ?k" by (simp add: fits_def make_key_def)
qed

lemma match_key_units:
  "\<exists>l. units (aligned_key s (match_key_of lp rq)) = units (request_key s rq (take l (request_tokens rq)))
     \<and> ns_of (match_key_of lp rq) = ns_of (request_key s rq (take l (request_tokens rq))) \<and> fits s (match_key_of lp rq)"
proof (cases "rq_embed_overrides rq")
  case True
  have "(None :: nat option) = Some 0 \<or> (None :: nat option) = None \<and> length ([] :: int list) \<le> 0" by simp
  from make_key_units [OF this, where s = s and rq = rq] show ?thesis using True by (intro exI [of _ 0]) (simp add: match_key_of_def)
next
  case False
  then show ?thesis using make_key_units [OF disjI1 [OF refl]] by (intro exI) (simp add: match_key_of_def Let_def)
qed

end
