(* ===== verification/MemorySafety.thy ===== *)
theory MemorySafety
  imports KvMemory
begin

text \<open>
  The invariant of the KV memory and what every operation on requests does to it: every page is free,
  cached, or owned by one request; every row is free or held by one request; and every request's first slots
  are those of the tree path it holds locked.
\<close>

section \<open>The invariant\<close>

definition pages_of :: "nat \<Rightarrow> int list \<Rightarrow> int list" where
  "pages_of ps kv = map (\<lambda>v. v div int ps) (every ps kv)"

text \<open>The slots of a request: the start of its row, or its match when it has no row yet.\<close>

definition row_slots :: "kv_memory \<Rightarrow> request \<Rightarrow> int list" where
  "row_slots m rq = (case rq_req_pool_idx rq of
     None \<Rightarrow> rq_prefix_indices rq
   | Some i \<Rightarrow> take (rq_kv_allocated_len rq) (rp_req_to_token (km_rows m) i))"

definition own_of :: "kv_memory \<Rightarrow> request \<Rightarrow> int list" where
  "own_of m rq = drop (rq_cache_protected_len rq div rc_page_size (km_cache m)) (pages_of (rc_page_size (km_cache m)) (row_slots m rq))"

definition row_ok :: "kv_memory \<Rightarrow> request \<Rightarrow> bool" where
  "row_ok m rq \<longleftrightarrow> (case rq_req_pool_idx rq of
     None \<Rightarrow> rq_kv_allocated_len rq = 0 \<and> rq_cache_protected_len rq = length (rq_prefix_indices rq)
   | Some i \<Rightarrow> 0 < rq_kv_allocated_len rq \<and> rq_kv_allocated_len rq \<le> length (rp_req_to_token (km_rows m) i) \<and>
       rq_kv_committed_len rq \<le> rq_kv_allocated_len rq \<and> rq_kv_committed_len rq \<le> length (request_tokens rq) \<and>
       rq_cache_protected_len rq \<le> key_len (request_key (km_cache m) rq (take (rq_kv_committed_len rq) (request_tokens rq))))"

definition request_ok :: "kv_memory \<Rightarrow> layout \<Rightarrow> request \<Rightarrow> bool" where
  "request_ok m T rq \<longleftrightarrow>
     row_slots m rq = paged_row (rc_page_size (km_cache m)) (pages_of (rc_page_size (km_cache m)) (row_slots m rq)) (length (row_slots m rq)) \<and>
     serves (km_cache m) T rq (request_tokens rq) (row_slots m rq) \<and> rq_swa_evicted_seqlen rq = 0 \<and> row_ok m rq"

text \<open>Every row of the pool has the maximal length.\<close>

definition row_lengths :: "row_pool \<Rightarrow> bool" where
  "row_lengths p \<longleftrightarrow> (\<forall>i \<in> {1..rp_size p}. length (rp_req_to_token p i) = rp_max_context_len p)"

definition locked_nodes :: "request list \<Rightarrow> nat list" where
  "locked_nodes reqs = map (\<lambda>r. the (rq_last_node r)) reqs"

definition memory_at :: "kv_memory \<Rightarrow> layout \<Rightarrow> request list \<Rightarrow> int set \<Rightarrow> bool" where
  "memory_at m T reqs P \<longleftrightarrow>
     1 < rc_page_size (km_cache m) \<and> \<not> rc_disable (km_cache m) \<and> rows_apart (km_rows m) (held_rows reqs) \<and> row_lengths (km_rows m) \<and>
     tree_ok (km_cache m) T \<and> books (km_cache m) T (locked_nodes reqs) \<and> (\<forall>rq \<in> set reqs. request_ok m T rq) \<and>
     page_ledger (rc_page_size (km_cache m)) (cached (rc_page_size (km_cache m)) T) (km_allocator m) (concat (map (own_of m) reqs)) P"

definition memory_ok :: "kv_memory \<Rightarrow> request list \<Rightarrow> int set \<Rightarrow> bool" where
  "memory_ok m reqs P \<longleftrightarrow> (\<exists>T. memory_at m T reqs P)"

lemma memory_atD:
  assumes "memory_at m T reqs P"
  shows "1 < rc_page_size (km_cache m)" "\<not> rc_disable (km_cache m)" "rows_apart (km_rows m) (held_rows reqs)"
    "tree_ok (km_cache m) T" "books (km_cache m) T (locked_nodes reqs)" "rq \<in> set reqs \<Longrightarrow> request_ok m T rq"
    "page_ledger (rc_page_size (km_cache m)) (cached (rc_page_size (km_cache m)) T) (km_allocator m) (concat (map (own_of m) reqs)) P"
    "row_lengths (km_rows m)"
  using assms by (simp_all add: memory_at_def)

section \<open>Order does not matter\<close>

lemma holders_perm: "mset L = mset L' \<Longrightarrow> holders T L n = holders T L' n"
  unfolding holders_def by (metis mset_filter size_mset)

lemma books_perm: "mset L = mset L' \<Longrightarrow> books s T L = books s T L'"
  using holders_perm [of L L' T] mset_eq_setD [of L L'] by (simp add: books_def)

lemma held_rows_perm: "mset rs = mset rs' \<Longrightarrow> mset (held_rows rs) = mset (held_rows rs')"
proof -
  have "mset (held_rows xs) = mset (map (\<lambda>r. the (rq_req_pool_idx r)) (filter (\<lambda>r. rq_req_pool_idx r \<noteq> None) xs))" for xs
    by (induction xs) (auto split: option.splits)
  then show "mset rs = mset rs' \<Longrightarrow> ?thesis" by simp
qed

lemma mset_concat_map: "mset (concat (map f xs)) = (\<Sum>x \<in># mset xs. mset (f x))"
  by (induction xs) simp_all

lemma memory_at_perm:
  assumes "mset reqs = mset reqs'" "memory_at m T reqs P"
  shows "memory_at m T reqs' P"
proof -
  have l: "mset (locked_nodes reqs) = mset (locked_nodes reqs')" using assms(1) by (simp add: locked_nodes_def)
  have o: "mset (concat (map (own_of m) reqs)) = mset (concat (map (own_of m) reqs'))"
    using assms(1) by (simp only: mset_concat_map)
  have s: "set reqs = set reqs'" by (rule mset_eq_setD [OF assms(1)])
  show ?thesis
    using assms(2) books_perm [OF l] rows_apart_mset [OF held_rows_perm [OF assms(1)]] page_ledger_own [OF o] s
    by (simp add: memory_at_def)
qed

section \<open>What an operation leaves alone\<close>

lemma request_ok_keep:
  assumes "request_ok m T rq" "same_config (km_cache m) (km_cache m')"
    and "\<forall>i. rq_req_pool_idx rq = Some i \<longrightarrow> rp_req_to_token (km_rows m') i = rp_req_to_token (km_rows m) i"
    and "T' (the (rq_last_node rq)) = T (the (rq_last_node rq))"
  shows "request_ok m' T' rq" "own_of m' rq = own_of m rq"
proof -
  have rs: "row_slots m' rq = row_slots m rq" using assms(3) by (simp add: row_slots_def split: option.splits)
  have ps: "rc_page_size (km_cache m') = rc_page_size (km_cache m)" using assms(2) by (simp add: same_config_def)
  have key: "request_key (km_cache m') rq ts = request_key (km_cache m) rq ts" for ts by (rule request_key_config [OF assms(2)]) simp_all
  show "own_of m' rq = own_of m rq" by (simp add: own_of_def rs ps)
  have "node_at (km_cache m') T' n ns xs vs = node_at (km_cache m) T n ns xs vs" if "rq_last_node rq = Some n" for n ns xs vs
    using assms(2,4) that by (simp add: node_at_def same_config_def)
  then have "serves (km_cache m') T' rq (request_tokens rq) (row_slots m' rq)"
    using assms(1) unfolding request_ok_def serves_def key rs by metis
  moreover have "row_ok m' rq" using assms(1,3) by (auto simp: request_ok_def row_ok_def key split: option.splits)
  ultimately show "request_ok m' T' rq" using assms(1) by (simp add: request_ok_def rs ps)
qed

lemma locked_append: "locked_nodes (rs @ rs') = locked_nodes rs @ locked_nodes rs'"
  by (simp add: locked_nodes_def)

lemma memory_frame:
  assumes at: "memory_at m T (rs @ others) P" and cfg: "same_config (km_cache m) (km_cache m')"
    and T': "tree_ok (km_cache m') T'" "books (km_cache m') T' (locked_nodes rs' @ locked_nodes others)"
      "\<forall>n \<in> set (locked_nodes others). T' n = T n"
    and rows: "rows_apart (km_rows m') (held_rows rs' @ held_rows others)" "row_lengths (km_rows m')"
      "\<forall>i \<in> set (held_rows others). rp_req_to_token (km_rows m') i = rp_req_to_token (km_rows m) i"
    and new: "\<forall>r \<in> set rs'. request_ok m' T' r"
    and led: "page_ledger (rc_page_size (km_cache m)) (cached (rc_page_size (km_cache m)) T') (km_allocator m')
      (concat (map (own_of m') rs') @ concat (map (own_of m) others)) P"
  shows "memory_at m' T' (rs' @ others) P"
proof -
  have old: "request_ok m' T' r" "own_of m' r = own_of m r" if r: "r \<in> set others" for r
  proof -
    have a: "request_ok m T r" using memory_atD(6) [OF at] r by simp
    have i: "\<forall>i. rq_req_pool_idx r = Some i \<longrightarrow> rp_req_to_token (km_rows m') i = rp_req_to_token (km_rows m) i"
    proof (intro allI impI)
      fix i assume "rq_req_pool_idx r = Some i"
      then have "i \<in> set (held_rows others)" using r by (induction others) (auto split: option.splits)
      then show "rp_req_to_token (km_rows m') i = rp_req_to_token (km_rows m) i" using rows(3) by blast
    qed
    have n: "T' (the (rq_last_node r)) = T (the (rq_last_node r))" using T'(3) r by (simp add: locked_nodes_def)
    show "request_ok m' T' r" "own_of m' r = own_of m r" by (rule request_ok_keep [of m T r m' T', OF a cfg i n])+
  qed
  have o: "map (own_of m') others = map (own_of m) others" using old(2) by simp
  have cf: "rc_page_size (km_cache m') = rc_page_size (km_cache m)" "rc_disable (km_cache m') = rc_disable (km_cache m)"
    using cfg by (simp_all add: same_config_def)
  show ?thesis unfolding memory_at_def cf map_append concat_append o locked_append held_rows_simps
    using memory_atD(1,2) [OF at] T' rows(1,2) new old(1) led by auto
qed

text \<open>What every operation leaves alone: the configuration, the width of the rows, and the rows of the requests it is not about.\<close>

definition unmoved :: "kv_memory \<Rightarrow> kv_memory \<Rightarrow> request list \<Rightarrow> bool" where
  "unmoved m m' reqs \<longleftrightarrow> same_config (km_cache m) (km_cache m') \<and> rp_max_context_len (km_rows m') = rp_max_context_len (km_rows m) \<and>
     (\<forall>i \<in> set (held_rows reqs). rp_req_to_token (km_rows m') i = rp_req_to_token (km_rows m) i)"

lemma unmoved_slots:
  assumes "unmoved m m' reqs" "rq \<in> set reqs"
  shows "row_slots m' rq = row_slots m rq"
proof (cases "rq_req_pool_idx rq")
  case (Some i)
  then have "i \<in> set (held_rows reqs)" using assms(2) by (induction reqs) (auto split: option.splits)
  then show ?thesis using assms(1) Some by (simp add: row_slots_def unmoved_def)
qed (simp add: row_slots_def)

lemma unmoved_trans: "unmoved m m' reqs \<Longrightarrow> unmoved m' m'' reqs \<Longrightarrow> unmoved m m'' reqs"
  by (simp add: unmoved_def same_config_def)

lemma unmoved_append: "unmoved m m' (rs @ rs') \<longleftrightarrow> unmoved m m' rs \<and> unmoved m m' rs'"
  by (auto simp: unmoved_def)

lemma grown_keeps: "T \<subseteq>\<^sub>m T' \<Longrightarrow> books s T L \<Longrightarrow> set L' \<subseteq> set L \<Longrightarrow> \<forall>n \<in> set L'. T' n = T n"
  unfolding books_def map_le_def by (metis subsetD)

lemma shrunk_keeps: "T' \<subseteq>\<^sub>m T \<Longrightarrow> books s' T' L \<Longrightarrow> set L' \<subseteq> set L \<Longrightarrow> \<forall>n \<in> set L'. T' n = T n"
  unfolding books_def map_le_def by (metis subsetD)

lemma pages_of_row: "0 < ps \<Longrightarrow> length pages = (n + ps - 1) div ps \<Longrightarrow> pages_of ps (paged_row ps pages n) = pages"
  using every_pages [of ps 0 n n pages] map_nth [of pages] by (simp add: pages_of_def pyslice_def)

lemma length_pages_of: "0 < ps \<Longrightarrow> length (pages_of ps kv) = (length kv + ps - 1) div ps"
  by (simp add: pages_of_def every_nth)


section \<open>Admission\<close>

lemma exact_pages: "0 < ps \<Longrightarrow> page_exact ps vs \<Longrightarrow> vs = paged_row ps (pages_of ps vs) (length vs)"
proof -
  assume ps: "0 < ps" and "page_exact ps vs"
  then obtain q where q: "vs = paged_row ps q (length q * ps)" by (auto simp: page_exact_def)
  then have "pages_of ps vs = q" using pages_of_row [OF ps] ceil_exact [OF ps, of "length q"] by metis
  then show ?thesis using q by (metis length_paged_row)
qed

definition waiting :: "request \<Rightarrow> bool" where
  "waiting rq \<longleftrightarrow> rq_req_pool_idx rq = None \<and> rq_kv_allocated_len rq = 0 \<and> rq_swa_evicted_seqlen rq = 0"

text \<open>The match of a new round is a cached prefix of the request's tokens, the empty one when it is thrown away.\<close>

lemma round_match:
  assumes ok: "tree_ok (km_cache m) T" and on: "\<not> rc_disable (km_cache m)"
  shows "\<exists>vs n s1 T1 l. init_next_round_input fm lp rq m =
      Some (Inr (rq\<lparr>rq_prefix_indices := vs, rq_last_node := Some n, rq_cache_protected_len := length vs\<rparr>, m\<lparr>km_cache := s1\<rparr>)) \<and>
    reshaped (km_cache m) T s1 T1 \<and>
    node_at s1 T1 n (ns_of (request_key (km_cache m) rq (take l (request_tokens rq))))
      (take (length vs) (units (request_key (km_cache m) rq (take l (request_tokens rq))))) vs \<and>
    length vs \<le> key_len (request_key (km_cache m) rq (take l (request_tokens rq))) \<and>
    cached (rc_page_size (km_cache m)) T (ns_of (request_key (km_cache m) rq (take l (request_tokens rq))))
      (take (length vs) (units (request_key (km_cache m) rq (take l (request_tokens rq))))) vs"
proof -
  let ?s = "km_cache m" and ?key = "match_key_of lp rq"
  obtain l where l: "units (aligned_key ?s ?key) = units (request_key ?s rq (take l (request_tokens rq)))"
    "ns_of ?key = ns_of (request_key ?s rq (take l (request_tokens rq)))" "fits ?s ?key" using match_key_units by blast
  obtain vs n s1 T1 where mt: "match_prefix ?key ?s = Some (Inr (vs, n, s1))" "reshaped ?s T s1 T1"
    "node_at s1 T1 n (ns_of ?key) (take (length vs) (units (aligned_key ?s ?key))) vs"
    "longest_of (cached (rc_page_size ?s) T) (ns_of ?key) (units (aligned_key ?s ?key)) vs"
    using match_prefix_spec [OF ok on l(3)] by blast
  have len: "length vs \<le> key_len (request_key ?s rq (take l (request_tokens rq)))"
    "cached (rc_page_size ?s) T (ns_of ?key) (take (length vs) (units (aligned_key ?s ?key))) vs"
    using mt(4) unfolding longest_of_def l(1) by simp_all
  show ?thesis
  proof (cases fm)
    case True
    have "tree_ok s1 T1" using mt(2) by (simp add: reshaped_def)
    then have "node_at s1 T1 (rc_root_node s1) ns [] []" for ns using tree_okD(4) by (auto simp: node_at_def)
    then show ?thesis using True mt(1,2)
      by (intro exI [of _ "[]"] exI [of _ "rc_root_node s1"] exI [of _ s1] exI [of _ T1] exI [of _ l])
        (simp add: init_next_round_input_def zero_match_result_def)
  next
    case False
    then show ?thesis using mt len unfolding l(1,2)
      by (intro exI [of _ vs] exI [of _ n] exI [of _ s1] exI [of _ T1] exI [of _ l]) (simp add: init_next_round_input_def)
  qed
qed

lemma admit_spec:
  assumes at: "memory_at m T reqs P" and w: "waiting rq"
  shows "\<exists>vs n m1 m2 T2. init_next_round_input fm lp rq m =
      Some (Inr (rq\<lparr>rq_prefix_indices := vs, rq_last_node := Some n, rq_cache_protected_len := length vs\<rparr>, m1)) \<and>
    req_inc_lock_ref (rq\<lparr>rq_prefix_indices := vs, rq_last_node := Some n, rq_cache_protected_len := length vs\<rparr>) m1 = Some (Inr m2) \<and>
    memory_at m2 T2 (rq\<lparr>rq_prefix_indices := vs, rq_last_node := Some n, rq_cache_protected_len := length vs\<rparr> # reqs) P \<and> unmoved m m2 reqs \<and>
    (\<exists>ns xs. cached (rc_page_size (km_cache m)) T ns xs vs) \<and> km_allocator m2 = km_allocator m \<and> km_rows m2 = km_rows m"
proof -
  let ?s = "km_cache m" and ?ts = "request_tokens rq" and ?ps = "rc_page_size (km_cache m)"
  note D = memory_atD [OF at]
  let ?rk = "\<lambda>ts. request_key ?s rq ts"
  have ps: "0 < ?ps" using D(1) by simp
  obtain vs n s1 T1 l where mt: "init_next_round_input fm lp rq m =
      Some (Inr (rq\<lparr>rq_prefix_indices := vs, rq_last_node := Some n, rq_cache_protected_len := length vs\<rparr>, m\<lparr>km_cache := s1\<rparr>))"
    "reshaped ?s T s1 T1" "node_at s1 T1 n (ns_of (?rk (take l ?ts))) (take (length vs) (units (?rk (take l ?ts)))) vs"
    "length vs \<le> key_len (?rk (take l ?ts))" "cached ?ps T (ns_of (?rk (take l ?ts))) (take (length vs) (units (?rk (take l ?ts)))) vs"
    using round_match [OF D(4,2)] by blast
  have r1: "tree_ok s1 T1" "books s1 T1 (locked_nodes reqs)" "same_config ?s s1" "T \<subseteq>\<^sub>m T1" "cached ?ps T1 = cached ?ps T" "\<not> rc_disable s1"
    using mt(2) D(2,5) by (auto simp: reshaped_def same_config_def)
  note lv = mt(4)
  have n1: "n \<in> dom T1" using mt(3) by (auto simp: node_at_def)
  obtain e s2 where g: "inc_lock_ref n s1 = Some (Inr (e, s2))" "tree_ok s2 T1" "books s2 T1 (n # locked_nodes reqs)" "same_config s1 s2"
    using inc_spec [OF r1(1,2,6) n1] by blast
  have cfg: "same_config ?s s2" using r1(3) g(4) by (simp add: same_config_def)
  let ?rq = "rq\<lparr>rq_prefix_indices := vs, rq_last_node := Some n, rq_cache_protected_len := length vs\<rparr>"
  let ?m1 = "m\<lparr>km_cache := s1\<rparr>" and ?m2 = "m\<lparr>km_cache := s2\<rparr>"
  have tk: "request_tokens ?rq = ?ts" by (simp add: request_tokens_def)
  have rs: "row_slots ?m2 ?rq = vs" using w by (simp add: row_slots_def waiting_def)
  have ps2: "rc_page_size s2 = ?ps" using cfg by (simp add: same_config_def)
  have key2: "request_key s2 ?rq ts = ?rk ts" for ts by (rule request_key_config [OF cfg]) simp_all
  have lv': "length vs \<le> key_len (?rk ?ts)" using lv key_len_mono [of "take l ?ts" ?ts ?s rq rq] by simp
  have nd: "node_at s2 T1 n (ns_of (?rk ?ts)) (take (length vs) (units (?rk ?ts))) vs"
  proof -
    from mt(3) have "node_at s1 T1 n (ns_of (?rk ?ts)) (take (length vs) (units (?rk ?ts))) vs"
      unfolding request_key_prefix [OF lv] request_key_facts(1) .
    then show ?thesis using g(4) by (simp add: node_at_def same_config_def)
  qed
  note cv = mt(5)
  then have "page_exact ?ps vs" using D(7) unfolding page_ledger_def exact_contents_def by blast
  then have ex: "vs = paged_row ?ps (pages_of ?ps vs) (length vs)" by (rule exact_pages [OF ps])
  have ok: "request_ok ?m2 T1 ?rq"
    unfolding request_ok_def rs tk using w ex nd lv'
    by (simp add: ps2 serves_def row_ok_def waiting_def key2)
  have "?ps dvd length vs"
  proof -
    obtain ns' where "T1 n = Some (ns', take (length vs) (units (?rk ?ts)), vs)" using nd by (auto simp: node_at_def)
    then show ?thesis using path_shape [OF r1(1), of n] r1(3) lv' by (simp add: same_config_def min_absorb2)
  qed
  then have "(length vs + ?ps - 1) div ?ps = length vs div ?ps" using ceil_exact [OF ps, of "length vs div ?ps"] by simp
  then have own: "own_of ?m2 ?rq = []" by (simp add: own_of_def rs ps2 length_pages_of [OF ps])
  have keep: "\<forall>k \<in> set (locked_nodes reqs). T1 k = T k" by (rule grown_keeps [OF r1(4) D(5) subset_refl])
  have "memory_at ?m2 T1 ([?rq] @ reqs) P"
  proof (rule memory_frame [of m T "[]"])
    show "memory_at m T ([] @ reqs) P" using at by simp
    show "page_ledger ?ps (cached ?ps T1) (km_allocator ?m2) (concat (map (own_of ?m2) [?rq]) @ concat (map (own_of m) reqs)) P"
      using D(7) own r1(5) by simp
    show "rows_apart (km_rows ?m2) (held_rows [?rq] @ held_rows reqs)" using D(3) w by (simp add: waiting_def)
  qed (use cfg g(2,3) keep ok D(8) in \<open>simp_all add: locked_nodes_def\<close>)
  moreover note mt(1)
  moreover have "req_inc_lock_ref ?rq ?m1 = Some (Inr ?m2)" using g(1) by (simp add: req_inc_lock_ref_def)
  moreover have "unmoved m ?m2 reqs" using cfg by (simp add: unmoved_def)
  moreover have "\<exists>ns xs. cached ?ps T ns xs vs" using cv by blast
  ultimately show ?thesis by (intro exI [of _ vs] exI [of _ n] exI [of _ ?m1] exI [of _ ?m2] exI [of _ T1]) simp
qed


section \<open>Caching an unfinished request\<close>

lemma serves_take:
  assumes "rq_cache_protected_len rq \<le> key_len (request_key s rq (take j ts))"
  shows "serves s T rq (take j ts) kv = serves s T rq ts kv"
proof -
  have "rq_cache_protected_len rq \<le> key_len (request_key s rq ts)" using assms key_len_mono [of "take j ts" ts s rq rq] by simp
  then show ?thesis using assms by (simp add: serves_def request_key_prefix [OF assms] request_key_facts(1))
qed

lemma serves_cut: "rq_cache_protected_len rq \<le> c \<Longrightarrow> serves s T rq ts (take c kv) = serves s T rq ts kv"
  by (simp add: serves_def min_absorb1)

lemma held_first: "rq_req_pool_idx rq = Some i \<Longrightarrow> rows_apart p (held_rows (rq # others)) \<Longrightarrow> i \<notin> set (held_rows others)"
  by (auto simp: rows_apart_def)

definition with_cache :: "radix_cache \<Rightarrow> allocator \<Rightarrow> (nat \<Rightarrow> int list) \<Rightarrow> kv_memory \<Rightarrow> kv_memory" where
  "with_cache s al rows m = m\<lparr>km_cache := s, km_allocator := al, km_rows := (km_rows m)\<lparr>rp_req_to_token := rows\<rparr>\<rparr>"

lemma with_cache_simps [simp]:
  "km_cache (with_cache s al rows m) = s" "km_allocator (with_cache s al rows m) = al"
  "km_rows (with_cache s al rows m) = (km_rows m)\<lparr>rp_req_to_token := rows\<rparr>"
  by (simp_all add: with_cache_def)

lemma rows_apart_rows [simp]: "rows_apart (p\<lparr>rp_req_to_token := rows\<rparr>) held = rows_apart p held"
  by (simp add: rows_apart_def)

text \<open>The request has just been extended: all its slots are committed, for exactly its fill tokens.\<close>

definition filled :: "request \<Rightarrow> bool" where
  "filled rq \<longleftrightarrow> holds_kv rq \<and> rq_kv_committed_len rq = rq_kv_allocated_len rq \<and> rq_fill_ids rq = take (rq_kv_allocated_len rq) (request_tokens rq)"

lemma unfinished_keeps:
  assumes at: "memory_at m T (rq # others) P" and f: "filled rq"
  shows "\<exists>rq' rows' s' al' T'.
    cache_unfinished_req paged_free_segment rq chunked (rp_req_to_token (km_rows m)) (km_cache m) (km_allocator m) = Some (Inr (rq', rows', s', al')) \<and>
    memory_at (with_cache s' al' rows' m) T' (rq' # others) P \<and>
    rq_prefix_indices rq' = row_slots (with_cache s' al' rows' m) rq' \<and> filled rq' \<and>
    rq_cache_protected_len rq' = key_len (request_key (km_cache m) rq (rq_fill_ids rq)) \<and>
    unmoved m (with_cache s' al' rows' m) others"
proof -
  let ?s = "km_cache m" and ?ps = "rc_page_size (km_cache m)" and ?rows = "rp_req_to_token (km_rows m)"
  let ?ts = "rq_fill_ids rq" and ?kv = "row_slots m rq" and ?al = "rq_kv_allocated_len rq"
  note D = memory_atD [OF at]
  have ps: "0 < ?ps" using D(1) by simp
  obtain i where i: "rq_req_pool_idx rq = Some i" using f by (auto simp: filled_def holds_kv_def)
  have R: "request_ok m T rq" by (rule D(6)) simp
  have ro: "0 < ?al" "?al \<le> length (?rows i)" "?al \<le> length (request_tokens rq)"
    "rq_cache_protected_len rq \<le> key_len (request_key ?s rq (take ?al (request_tokens rq)))"
    using R f i by (auto simp: request_ok_def row_ok_def filled_def)
  have ts: "?ts = take ?al (request_tokens rq)" "length ?ts = ?al" using f ro(3) by (simp_all add: filled_def)
  have kv: "?kv = take ?al (?rows i)" "length ?kv = ?al" using i ro(2) by (simp_all add: row_slots_def)
  let ?pages = "pages_of ?ps ?kv"
  have row: "?kv = paged_row ?ps ?pages (length ?ts)" "length ?pages = (length ?ts + ?ps - 1) div ?ps"
    using R kv(2) ts(2) length_pages_of [OF ps, of ?kv] by (simp_all add: request_ok_def)
  have sv: "serves ?s T rq ?ts ?kv" using R ro(4) serves_take [of rq ?s ?al] unfolding request_ok_def ts(1) by blast
  obtain n where n: "rq_last_node rq = Some n" using sv by (auto simp: serves_def)
  have nL: "n \<in> set (locked_nodes (rq # others))" using n by (simp add: locked_nodes_def)
  have kr: "?kv = take (length ?ts) (?rows (the (rq_req_pool_idx rq)))" using kv(1) ts(2) i by simp
  have led: "page_ledger ?ps (cached ?ps T) (km_allocator m) (concat (map (own_of m) others) @ drop (rq_cache_protected_len rq div ?ps) ?pages) P"
    using D(7) page_ledger_own [of "concat (map (own_of m) (rq # others))" "concat (map (own_of m) others) @ own_of m rq"]
    by (simp add: own_of_def ac_simps)
  let ?k = "key_len (request_key ?s rq ?ts)"
  obtain n' rq' kv' pages' s' T' al' where u:
    "cache_unfinished_req paged_free_segment rq chunked ?rows ?s (km_allocator m) =
       Some (Inr (rq', ?rows(the (rq_req_pool_idx rq) := kv' @ drop (length ?ts) (?rows (the (rq_req_pool_idx rq)))), s', al'))"
    "rq' = rq\<lparr>rq_cache_protected_len := ?k, rq_last_node := Some n', rq_prefix_indices := kv'\<rparr>"
    "tree_ok s' T'" "books s' T' (n' # remove1 n (locked_nodes (rq # others)))" "same_config ?s s'" "T \<subseteq>\<^sub>m T'" "serves s' T' rq' ?ts kv'"
    "kv' = paged_row ?ps pages' (length ?ts)" "length pages' = length ?pages" "drop (?k div ?ps) pages' = drop (?k div ?ps) ?pages"
    "page_ledger ?ps (cached ?ps T') al' (concat (map (own_of m) others) @ drop (?k div ?ps) ?pages) P"
    using unfinished_spec [where rows = ?rows and ts = ?ts, OF D(4,5,2) sv n nL refl kr row led, of chunked] by blast
  let ?rows' = "?rows(the (rq_req_pool_idx rq) := kv' @ drop (length ?ts) (?rows (the (rq_req_pool_idx rq))))"
  let ?m' = "with_cache s' al' ?rows' m"
  have lk: "length kv' = ?al" using u(8) ts(2) by simp
  have rs: "row_slots ?m' rq' = kv'" using i lk by (simp add: row_slots_def u(2))
  have ps': "rc_page_size s' = ?ps" using u(5) by (simp add: same_config_def)
  have pk: "pages_of ?ps kv' = pages'" unfolding u(8) by (rule pages_of_row [OF ps]) (simp add: u(9) row(2))
  have key': "request_key s' rq' t = request_key ?s rq t" for t by (rule request_key_config [OF u(5)]) (simp_all add: u(2))
  have tk: "request_tokens rq' = request_tokens rq" by (simp add: request_tokens_def u(2))
  have kt: "?k = key_len (request_key ?s rq (take ?al (request_tokens rq)))" using ts(1) by simp
  have svt: "serves s' T' rq' (request_tokens rq') kv'"
  proof -
    have "rq_cache_protected_len rq' \<le> key_len (request_key s' rq' (take ?al (request_tokens rq')))" unfolding key' tk by (simp add: u(2) kt)
    then show ?thesis using u(7) serves_take unfolding ts(1) tk by blast
  qed
  have lr: "length (kv' @ drop (length ?ts) (?rows i)) = length (?rows i)" using lk ts(2) ro(2) by simp
  have rok: "row_ok ?m' rq'"
    unfolding row_ok_def tk with_cache_simps(1) key' using i f ro lr kt by (simp add: u(2) filled_def)
  have ok: "request_ok ?m' T' rq'"
    using R u(8) pk svt rok lk ts(2) unfolding request_ok_def rs with_cache_simps(1) ps' by (simp add: u(2))
  have own: "own_of ?m' rq' = drop (?k div ?ps) ?pages"
  proof -
    have "rq_cache_protected_len rq' = ?k" by (simp add: u(2))
    then show ?thesis using u(10) unfolding own_of_def rs with_cache_simps(1) ps' pk by simp
  qed
  have L: "remove1 n (locked_nodes (rq # others)) = locked_nodes others" using n by (simp add: locked_nodes_def)
  have "memory_at ?m' T' ([rq'] @ others) P"
  proof (rule memory_frame [of m T "[rq]"])
    show "memory_at m T ([rq] @ others) P" using at by simp
    show "\<forall>k \<in> set (locked_nodes others). T' k = T k" by (rule grown_keeps [OF u(6) D(5)]) (simp add: locked_nodes_def subset_insertI)
    show "\<forall>j \<in> set (held_rows others). rp_req_to_token (km_rows ?m') j = rp_req_to_token (km_rows m) j"
      using held_first [OF i D(3)] i by auto
    show "rows_apart (km_rows ?m') (held_rows [rq'] @ held_rows others)" using D(3) i by (simp add: u(2))
    show "row_lengths (km_rows ?m')" using D(8) lr i unfolding row_lengths_def by auto
    show "books (km_cache ?m') T' (locked_nodes [rq'] @ locked_nodes others)" using u(4) unfolding L by (simp add: u(2) locked_nodes_def)
    show "page_ledger ?ps (cached ?ps T') (km_allocator ?m') (concat (map (own_of ?m') [rq']) @ concat (map (own_of m) others)) P"
      using u(11) own page_ledger_own [of "drop (?k div ?ps) ?pages @ concat (map (own_of m) others)" "concat (map (own_of m) others) @ drop (?k div ?ps) ?pages"]
      by (simp add: ac_simps)
  qed (use u(3,5) ok in simp_all)
  moreover have "filled rq'" using f ts(1) tk by (simp add: filled_def u(2) holds_kv_def)
  moreover have "unmoved m ?m' others" using held_first [OF i D(3)] i u(5) by (auto simp: unmoved_def)
  ultimately show ?thesis using u(1) rs by (intro exI [of _ rq'] exI [of _ ?rows'] exI [of _ s'] exI [of _ al'] exI [of _ T']) (simp add: u(2))
qed


section \<open>Release\<close>

lemma free_row_tail:
  assumes r: "paged_ready ps al" and row: "take n rw = paged_row ps pages n" "n \<le> length rw" "length pages = (n + ps - 1) div ps" and c: "c * ps < n"
  shows "\<exists>al'. free_kv_row_segments [(pyslice (c * ps) n rw, c * ps)] 0 al = Inr al' \<and> paged_ready ps al' \<and> idle al' = idle al + mset (drop c pages)"
proof -
  have p: "al_page_size al = ps" using r by (simp add: paged_ready_def)
  have seg: "pyslice (c * ps) n rw = pyslice (c * ps) n (paged_row ps pages n)" unfolding row(1) [symmetric] by (simp add: pyslice_def drop_take)
  have ne: "length (pyslice (c * ps) n rw) \<noteq> 0" using c row(2) by (simp add: pyslice_def)
  have sp: "split_segments 0 [(pyslice (c * ps) n rw, c * ps)] = ([], [(pyslice (c * ps) n rw, c * ps)])" using ne by simp
  have "free_kv_row_segments [(pyslice (c * ps) n rw, c * ps)] 0 al = Inr (paged_free_segment (pyslice (c * ps) n rw) (c * ps) al)"
    unfolding free_kv_row_segments_def sp using ne by (auto simp: free_segments_def p)
  moreover have "pyslice c ((n + ps - 1) div ps) pages = drop c pages" using row(3) by (simp add: pyslice_def)
  ultimately show ?thesis using free_row_part [OF r less_imp_le [OF c] order_refl row(3)] unfolding seg by simp
qed

lemma overallocated_freed:
  assumes r: "paged_ready ps (km_allocator m)" and i: "rq_req_pool_idx rq = Some i" and sw: "rq_swa_evicted_seqlen rq = 0"
    and row: "take n (rp_req_to_token (km_rows m) i) = paged_row ps pages n" "n \<le> length (rp_req_to_token (km_rows m) i)" "length pages = (n + ps - 1) div ps"
    and ps: "1 < ps" and ov: "overallocates \<or> c = n" "c \<le> n"
  shows "\<exists>al'. release_overallocated_kv_indices overallocates rq c n m = Inr (m\<lparr>km_allocator := al'\<rparr>) \<and> paged_ready ps al' \<and>
    idle al' = idle (km_allocator m) + mset (drop ((c + ps - 1) div ps) pages)"
proof -
  let ?c = "(c + ps - 1) div ps"
  have p: "al_page_size (km_allocator m) = ps" using r by (simp add: paged_ready_def)
  show ?thesis
  proof (cases "?c * ps < n")
    case True
    obtain al' where "free_kv_row_segments [(pyslice (?c * ps) n (rp_req_to_token (km_rows m) i), ?c * ps)] 0 (km_allocator m) = Inr al'"
      "paged_ready ps al'" "idle al' = idle (km_allocator m) + mset (drop ?c pages)"
      using free_row_tail [OF r row True] by blast
    then show ?thesis using True ps ov i sw by (intro exI [of _ al']) (simp add: release_overallocated_kv_indices_def p free_kv_row_def Let_def)
  next
    case False
    have "(n + ps - 1) div ps \<le> ?c"
    proof -
      have "n \<le> ?c * ps" using False by simp
      then have "(n + ps - 1) div ps \<le> (?c * ps + ps - 1) div ps" by (intro div_le_mono) simp
      then show ?thesis using ceil_exact [of ps ?c] ps by simp
    qed
    then have "drop ?c pages = []" using row(3) by simp
    then show ?thesis using False ps ov r by (intro exI [of _ "km_allocator m"]) (simp add: release_overallocated_kv_indices_def p Let_def)
  qed
qed

lemma cut_row:
  assumes ps: "0 < ps" and row: "kv = paged_row ps pages n" "length pages = (n + ps - 1) div ps" and c: "c \<le> n"
  shows "take c kv = paged_row ps (take ((c + ps - 1) div ps) pages) c" "length (take ((c + ps - 1) div ps) pages) = (c + ps - 1) div ps"
proof -
  have le: "(c + ps - 1) div ps \<le> (n + ps - 1) div ps" using c by (intro div_le_mono) simp
  then show l: "length (take ((c + ps - 1) div ps) pages) = (c + ps - 1) div ps" using row(2) by simp
  show "take c kv = paged_row ps (take ((c + ps - 1) div ps) pages) c"
    using take_paged_row [OF c l ps, of "drop ((c + ps - 1) div ps) pages"] by (simp add: row(1))
qed

lemma release_keeps:
  assumes at: "memory_at m T (rq # others) P" and i: "rq_req_pool_idx rq = Some i"
    and len: "overallocates \<or> effective_kv_committed_len strips rq = rq_kv_allocated_len rq"
    and prot: "rq_cache_protected_len rq \<le> key_len (request_key (km_cache m) rq (take (effective_kv_committed_len strips rq) (request_tokens rq)))"
  shows "\<exists>m' T'. release_kv_cache overallocates strips is_insert rq m = Some (Inr (mark_kv_released (rq\<lparr>rq_req_pool_idx := None\<rparr>), m')) \<and>
    memory_at m' T' others P \<and> unmoved m m' others"
proof -
  let ?s = "km_cache m" and ?ps = "rc_page_size (km_cache m)" and ?rows = "rp_req_to_token (km_rows m)" and ?al = "rq_kv_allocated_len rq"
  define c where "c = effective_kv_committed_len strips rq"
  let ?C = "(c + ?ps - 1) div ?ps" and ?kv = "row_slots m rq" and ?p = "rq_cache_protected_len rq"
  let ?pages = "pages_of (rc_page_size (km_cache m)) (row_slots m rq)" and ?ts = "take c (request_tokens rq)"
  note D = memory_atD [OF at]
  have ps: "0 < ?ps" using D(1) by simp
  have R: "request_ok m T rq" by (rule D(6)) simp
  have ro: "0 < ?al" "?al \<le> length (?rows i)" "c \<le> ?al" "c \<le> length (request_tokens rq)" "rq_swa_evicted_seqlen rq = 0"
    using R i by (auto simp: request_ok_def row_ok_def c_def effective_kv_committed_len_def)
  have kv: "?kv = take ?al (?rows i)" "length ?kv = ?al" using i ro(2) by (simp_all add: row_slots_def)
  have row: "?kv = paged_row ?ps ?pages ?al" "length ?pages = (?al + ?ps - 1) div ?ps"
    using R kv(2) length_pages_of [OF ps, of ?kv] by (simp_all add: request_ok_def)
  have lts: "length ?ts = c" using ro(4) by simp
  note cut = cut_row [OF ps row ro(3)]
  have pc: "?p \<le> c" using prot request_key_facts(4) [of ?s rq ?ts] lts by (simp add: c_def)
  have sv: "serves ?s T rq ?ts (take c ?kv)"
  proof -
    have p: "?p \<le> key_len (request_key ?s rq (take c (request_tokens rq)))" using prot by (simp add: c_def)
    show ?thesis using R serves_take [OF p] serves_cut [OF pc] unfolding request_ok_def by blast
  qed
  obtain n where n: "rq_last_node rq = Some n" using sv by (auto simp: serves_def)
  have nL: "n \<in> set (locked_nodes (rq # others))" using n by (simp add: locked_nodes_def)
  have toks: "?ts = take c (rq_origin_input_ids rq @ rq_output_ids rq)" by (simp add: request_tokens_def)
  have kr: "take c ?kv = take (length ?ts) (?rows (the (rq_req_pool_idx rq)))" using kv(1) lts i ro(3) by (simp add: min_absorb1)
  have prow: "take c ?kv = paged_row ?ps (take ?C ?pages) (length ?ts)" "length (take ?C ?pages) = (length ?ts + ?ps - 1) div ?ps"
    unfolding lts using cut .
  have pC: "?p div ?ps \<le> ?C" using pc by (intro div_le_mono) (use ps in simp)
  have "drop (?p div ?ps) ?pages = drop (?p div ?ps) (take ?C ?pages) @ drop ?C ?pages"
    using pC cut(2) by (metis append_take_drop_id drop_append diff_is_0_eq drop_0)
  then have led: "page_ledger ?ps (cached ?ps T) (km_allocator m) ((concat (map (own_of m) others) @ drop ?C ?pages) @ drop (?p div ?ps) (take ?C ?pages)) P"
    using D(7) page_ledger_own [of "concat (map (own_of m) (rq # others))" "(concat (map (own_of m) others) @ drop ?C ?pages) @ drop (?p div ?ps) (take ?C ?pages)"]
    by (simp add: own_of_def ac_simps)
  obtain s1 T1 al1 where f: "cache_finished_req ?ps paged_free_segment rq is_insert c ?rows ?s (km_allocator m) = Some (Inr (s1, al1))"
    "tree_ok s1 T1" "books s1 T1 (remove1 n (locked_nodes (rq # others)))" "same_config ?s s1" "T \<subseteq>\<^sub>m T1"
    "page_ledger ?ps (cached ?ps T1) al1 (concat (map (own_of m) others) @ drop ?C ?pages) P"
    using finished_spec [where rows = ?rows and ts = ?ts, OF D(4,5,2) sv n nL toks kr prow led, of is_insert] by blast
  let ?m1 = "m\<lparr>km_cache := s1, km_allocator := al1\<rparr>"
  have ready: "paged_ready ?ps (km_allocator ?m1)" using f(6) by (simp add: page_ledger_def)
  have trow: "take ?al (rp_req_to_token (km_rows ?m1) i) = paged_row ?ps ?pages ?al" "?al \<le> length (rp_req_to_token (km_rows ?m1) i)"
    using row(1) kv(1) ro(2) by simp_all
  obtain al2 where o: "release_overallocated_kv_indices overallocates rq c ?al ?m1 = Inr (?m1\<lparr>km_allocator := al2\<rparr>)" "paged_ready ?ps al2"
    "idle al2 = idle al1 + mset (drop ?C ?pages)"
    using overallocated_freed [OF ready i ro(5) trow row(2) D(1), of overallocates c] len ro(3) by (auto simp: c_def)
  let ?m2 = "?m1\<lparr>km_allocator := al2\<rparr>"
  let ?m3 = "?m2\<lparr>km_rows := free_rows [i] (km_rows m)\<rparr>"
  have ra: "rows_apart (km_rows m) (i # held_rows others)" using D(3) i by simp
  note rf = free_spec [OF ra i]
  have L: "remove1 n (locked_nodes (rq # others)) = locked_nodes others" using n by (simp add: locked_nodes_def)
  have "memory_at ?m3 T1 ([] @ others) P"
  proof (rule memory_frame [of m T "[rq]"])
    show "memory_at m T ([rq] @ others) P" using at by simp
    show "\<forall>k \<in> set (locked_nodes others). T1 k = T k" by (rule grown_keeps [OF f(5) D(5)]) (simp add: locked_nodes_def subset_insertI)
    show "rows_apart (km_rows ?m3) (held_rows [] @ held_rows others)" using rf(2) by simp
    show "books (km_cache ?m3) T1 (locked_nodes [] @ locked_nodes others)" using f(3) unfolding L by (simp add: locked_nodes_def)
    show "page_ledger ?ps (cached ?ps T1) (km_allocator ?m3) (concat (map (own_of ?m3) []) @ concat (map (own_of m) others)) P"
      using ledger_free [OF f(6) o(2,3)] by simp
    show "row_lengths (km_rows ?m3)" using D(8) by (simp add: row_lengths_def free_rows_def)
  qed (use f(2,4) in \<open>simp_all add: free_rows_def\<close>)
  moreover have "release_kv_cache overallocates strips is_insert rq m = Some (Inr (mark_kv_released (rq\<lparr>rq_req_pool_idx := None\<rparr>), ?m3))"
  proof -
    have p: "al_page_size (km_allocator m) = ?ps" using D(7) by (simp add: page_ledger_def paged_ready_def)
    have h: "holds_kv rq" "\<not> is_kv_released rq" using i ro(1) by (simp_all add: holds_kv_def is_kv_released_def)
    show ?thesis using f(1) o(1) rf(1) h unfolding release_kv_cache_def p c_def [symmetric] by simp
  qed
  moreover have "unmoved m ?m3 others" using f(4) by (simp add: unmoved_def free_rows_def)
  ultimately show ?thesis by (intro exI [of _ ?m3] exI [of _ T1]) simp
qed

end
