(* ===== verification/MemoryBatches.thy ===== *)
theory MemoryBatches
  imports MemorySafety
begin

text \<open>
  Batches and the invariant of the KV memory: when an extension or a decode step gets its slots, that it
  raises exactly when memory is short, and that the requests of the batch own what they were given.
\<close>

section \<open>When the allocator has enough pages\<close>

lemma merge_free: "length (al_free_pages (merge_and_sort_free al)) = size (idle al)"
  by (auto simp: merge_and_sort_free_def idle_def)

lemma merge_ready: "paged_ready ps al \<Longrightarrow> paged_ready ps (merge_and_sort_free al)"
  by (auto simp: paged_ready_def merge_and_sort_free_def)

lemma take_pages_ready: "paged_ready ps al \<Longrightarrow> paged_ready ps (al\<lparr>al_free_pages := xs\<rparr>)"
  by (simp add: paged_ready_def)

lemma unsorted_free: "paged_ready ps al \<Longrightarrow> \<not> al_need_sort al \<Longrightarrow> length (al_free_pages al) = size (idle al)"
  by (auto simp: paged_ready_def idle_def)

lemma extend_succeeds:
  assumes r: "paged_ready ps al" and l: "length seq = length pre" "\<forall>i < length pre. pre ! i \<le> seq ! i"
    and n: "n = sum_list (map2 (\<lambda>n m. n - m) seq pre)"
  shows "(\<exists>al'. alloc_extend raw pre seq last_loc n al = (None, al')) \<longleftrightarrow> size (idle al) < get_num_new_pages ps pre seq"
    "alloc_extend raw pre seq last_loc n al = (out, al') \<Longrightarrow> paged_ready ps al'"
proof -
  have ps: "0 < ps" "al_page_size al = ps" using r by (simp_all add: paged_ready_def)
  define al1 where "al1 = (if al_need_sort al \<and> n div ps + length pre + 1 > length (al_free_pages al) then merge_and_sort_free al else al)"
  have b: "get_num_new_pages ps pre seq \<le> n div ps + length pre" unfolding n by (rule num_new_pages_bound [OF ps(1) l])
  have f: "length (al_free_pages al1) < get_num_new_pages ps pre seq \<longleftrightarrow> size (idle al) < get_num_new_pages ps pre seq"
  proof (cases "al_need_sort al \<and> n div ps + length pre + 1 > length (al_free_pages al)")
    case True
    then show ?thesis by (simp add: al1_def merge_free)
  next
    case False
    have "length (al_free_pages al) \<le> size (idle al)" by (simp add: idle_def)
    moreover have "al_need_sort al \<Longrightarrow> n div ps + length pre + 1 \<le> length (al_free_pages al)" using False by simp
    ultimately show ?thesis using False b unsorted_free [OF r] unfolding al1_def by (cases "al_need_sort al") auto
  qed
  then show "(\<exists>al'. alloc_extend raw pre seq last_loc n al = (None, al')) \<longleftrightarrow> size (idle al) < get_num_new_pages ps pre seq"
    by (auto simp: alloc_extend_def Let_def ps(2) al1_def)
  have "paged_ready ps al1" using r merge_ready by (simp add: al1_def)
  then show "alloc_extend raw pre seq last_loc n al = (out, al') \<Longrightarrow> paged_ready ps al'"
    using take_pages_ready by (auto simp: alloc_extend_def Let_def ps(2) al1_def split: if_splits)
qed

lemma decode_page_bound: "get_num_new_pages_decode ps seq \<le> length seq"
  by (simp add: get_num_new_pages_decode_def)

lemma decode_succeeds:
  assumes r: "paged_ready ps al"
  shows "(\<exists>al'. alloc_decode raw seq last_loc al = (None, al')) \<longleftrightarrow> size (idle al) < get_num_new_pages_decode ps seq"
    "alloc_decode raw seq last_loc al = (out, al') \<Longrightarrow> paged_ready ps al'"
proof -
  have ps: "0 < ps" "al_page_size al = ps" using r by (simp_all add: paged_ready_def)
  define al1 where "al1 = (if al_need_sort al \<and> length seq > length (al_free_pages al) then merge_and_sort_free al else al)"
  have f: "length (al_free_pages al1) < get_num_new_pages_decode ps seq \<longleftrightarrow> size (idle al) < get_num_new_pages_decode ps seq"
  proof (cases "al_need_sort al \<and> length seq > length (al_free_pages al)")
    case True
    then show ?thesis by (simp add: al1_def merge_free)
  next
    case False
    have "length (al_free_pages al) \<le> size (idle al)" by (simp add: idle_def)
    moreover have "al_need_sort al \<Longrightarrow> length seq \<le> length (al_free_pages al)" using False by simp
    ultimately show ?thesis using False decode_page_bound [of ps seq] unsorted_free [OF r] unfolding al1_def by (cases "al_need_sort al") auto
  qed
  then show "(\<exists>al'. alloc_decode raw seq last_loc al = (None, al')) \<longleftrightarrow> size (idle al) < get_num_new_pages_decode ps seq"
    by (auto simp: alloc_decode_def Let_def ps(2) al1_def)
  have "paged_ready ps al1" using r merge_ready by (simp add: al1_def)
  then show "alloc_decode raw seq last_loc al = (out, al') \<Longrightarrow> paged_ready ps al'"
    using take_pages_ready by (auto simp: alloc_decode_def Let_def ps(2) al1_def split: if_splits)
qed

section \<open>Evicting the shortfall\<close>

lemma evict_from_keeps:
  assumes "tree_ok s T" "books s T L" "\<not> rc_disable s" "page_ledger (rc_page_size s) (cached (rc_page_size s) T) al own P"
  shows "\<exists>k s' T' al'. evict_from_tree_cache paged_free_segment available_size tie num s al = Some (Inr (s', al')) \<and> shrunk k s T s' T' \<and>
    page_ledger (rc_page_size s) (cached (rc_page_size s) T') al' own P \<and> available_size al' = available_size al + k \<and>
    (num \<le> available_size al' \<or> rc_evictable_size s' = 0)"
proof (cases "available_size al < num")
  case True
  obtain k s' T' al' where e: "evict paged_free_segment tie (num - available_size al) s al = Some (Inr (k, s', al'))" "shrunk k s T s' T'"
    "page_ledger (rc_page_size s) (cached (rc_page_size s) T') al' own P" "available_size al' = available_size al + k"
    "num - available_size al \<le> k \<or> rc_evictable_size s' = 0"
    using evict_keeps_ledger [OF assms] by blast
  then have "num \<le> available_size al' \<or> rc_evictable_size s' = 0" by auto
  then show ?thesis using True e by (intro exI [of _ k] exI [of _ s'] exI [of _ T'] exI [of _ al']) (simp add: evict_from_tree_cache_def)
next
  case False
  then show ?thesis using shrunk_refl [OF assms(1)] assms(4)
    by (intro exI [of _ 0] exI [of _ s] exI [of _ T] exI [of _ al]) (simp add: evict_from_tree_cache_def)
qed

text \<open>Pages taken from the free lists are owned by the requests.\<close>

lemma ledger_take:
  assumes "page_ledger ps C al own P" "paged_ready ps al'" "idle al = mset ids + idle al'"
  shows "page_ledger ps C al' (own @ ids) P"
  using assms by (simp add: page_ledger_def ac_simps)

text \<open>What a request may get: what is free and what is evictable.\<close>

lemma after_eviction:
  assumes "shrunk k s T s' T'" "available_size al' = available_size al + k" "num \<le> available_size al' \<or> rc_evictable_size s' = 0"
    and "books s T L" "need \<le> num"
  shows "int need \<le> int (available_size al) + rc_evictable_size s \<longleftrightarrow> need \<le> available_size al'"
proof -
  have e: "rc_evictable_size s' = rc_evictable_size s - int k" using assms(1) by (simp add: shrunk_def)
  have "books s' T' L" using assms(1,4) by (simp add: shrunk_def)
  then have "0 \<le> rc_evictable_size s'" by (rule paged_pool.evictable_nonneg)
  then show ?thesis using assms(2,3,5) e by auto
qed

lemma alloc_extend_spec:
  assumes ok: "tree_ok s T" "books s T L" "\<not> rc_disable s" and led: "page_ledger (rc_page_size s) (cached (rc_page_size s) T) al own P"
    and lens: "length seq = length pre" "\<forall>i < length pre. pre ! i \<le> seq ! i" "n = sum_list (map2 (\<lambda>n m. n - m) seq pre)" "length raw = n"
    and rows: "\<forall>i < length pre. row_on (rc_page_size s) (pages i) (pre ! i) (last_loc ! i)"
  shows "\<exists>k s' T'. shrunk k s T s' T' \<and>
    (if int (get_num_new_pages (rc_page_size s) pre seq * rc_page_size s) \<le> int (available_size al) + rc_evictable_size s
     then \<exists>out al' new. alloc_paged_token_slots_extend raw tie pre seq last_loc n s al = Some (Inr (out, s', al')) \<and>
       length new = length pre \<and> (\<forall>i < length pre. length (new ! i) = new_pages (rc_page_size s) (pre ! i) (seq ! i)) \<and>
       out = concat (map (\<lambda>i. drop (pre ! i) (paged_row (rc_page_size s) (pages i @ new ! i) (seq ! i))) [0..<length pre]) \<and>
       (\<forall>i < length pre. take (pre ! i) (paged_row (rc_page_size s) (pages i @ new ! i) (seq ! i)) = paged_row (rc_page_size s) (pages i) (pre ! i)) \<and>
       page_ledger (rc_page_size s) (cached (rc_page_size s) T') al' (own @ concat new) P
     else alloc_paged_token_slots_extend raw tie pre seq last_loc n s al = Some (Inl (RuntimeError ''Prefill out of memory'')))"
proof -
  let ?ps = "rc_page_size s" and ?need = "get_num_new_pages (rc_page_size s) pre seq"
  have r: "paged_ready ?ps al" using led by (simp add: page_ledger_def)
  have ps: "0 < ?ps" "al_page_size al = ?ps" using r by (simp_all add: paged_ready_def)
  let ?num = "n + length seq * ?ps"
  obtain k s' T' al0 where e: "evict_from_tree_cache paged_free_segment available_size tie ?num s al = Some (Inr (s', al0))" "shrunk k s T s' T'"
    "page_ledger ?ps (cached ?ps T') al0 own P" "available_size al0 = available_size al + k" "?num \<le> available_size al0 \<or> rc_evictable_size s' = 0"
    using evict_from_keeps [OF ok led] by blast
  have r0: "paged_ready ?ps al0" using e(3) by (simp add: page_ledger_def)
  have p0: "al_page_size al0 = ?ps" using r0 by (simp add: paged_ready_def)
  have "?need * ?ps \<le> (n div ?ps + length seq) * ?ps"
    using num_new_pages_bound [OF ps(1) lens(1,2)] lens(1,3) by (intro mult_le_mono1) simp
  also have "\<dots> \<le> ?num" by (simp add: distrib_right)
  finally have le: "?need * ?ps \<le> ?num" .
  have "int (?need * ?ps) \<le> int (available_size al) + rc_evictable_size s \<longleftrightarrow> ?need * ?ps \<le> available_size al0"
    by (rule after_eviction [OF e(2,4,5) ok(2) le])
  also have "\<dots> \<longleftrightarrow> ?need \<le> size (idle al0)" using ps(1) by (simp add: available_idle p0)
  finally have enough: "int (?need * ?ps) \<le> int (available_size al) + rc_evictable_size s \<longleftrightarrow> ?need \<le> size (idle al0)" .
  note x = extend_succeeds [OF r0 lens(1,2,3)]
  have call: "alloc_paged_token_slots_extend raw tie pre seq last_loc n s al =
      (case alloc_extend raw pre seq last_loc n al0 of (None, al') \<Rightarrow> Some (Inl (RuntimeError ''Prefill out of memory''))
       | (Some out, al') \<Rightarrow> Some (Inr (out, s', al')))"
    using e(1) by (simp add: alloc_paged_token_slots_extend_def Let_def ps(2))
  show ?thesis
  proof (cases "?need \<le> size (idle al0)")
    case True
    then obtain out al' where a: "alloc_extend raw pre seq last_loc n al0 = (Some out, al')"
      using x(1) by (metis not_le option.exhaust surj_pair)
    have "\<forall>i < length pre. row_on (al_page_size al0) (pages i) (pre ! i) (last_loc ! i)" using rows p0 by simp
    from alloc_extend_rows [OF _ lens(1,2) _ this a] obtain new where new: "length new = length pre"
      "\<forall>i < length pre. length (new ! i) = new_pages ?ps (pre ! i) (seq ! i)"
      "mset (al_free_pages al0 @ al_release_pages al0) = mset (concat new) + mset (al_free_pages al' @ al_release_pages al')"
      "out = concat (map (\<lambda>i. drop (pre ! i) (paged_row ?ps (pages i @ new ! i) (seq ! i))) [0..<length pre])"
      "\<forall>i < length pre. take (pre ! i) (paged_row ?ps (pages i @ new ! i) (seq ! i)) = paged_row ?ps (pages i) (pre ! i)"
      using ps(1) lens(3,4) unfolding p0 by blast
    have "page_ledger ?ps (cached ?ps T') al' (own @ concat new) P"
      by (rule ledger_take [OF e(3) x(2) [OF a]]) (use new(3) in \<open>simp add: idle_def\<close>)
    then show ?thesis using True enough call a new e(2)
      by (intro exI [of _ k] exI [of _ s'] exI [of _ T'] conjI, simp) (simp, intro exI [of _ out] exI [of _ al'] exI [of _ new], simp)
  next
    case False
    then obtain al' where "alloc_extend raw pre seq last_loc n al0 = (None, al')" using x(1) by auto
    then show ?thesis using False enough call e(2) by (intro exI [of _ k] exI [of _ s'] exI [of _ T']) simp
  qed
qed


lemma alloc_decode_spec:
  assumes ok: "tree_ok s T" "books s T L" "\<not> rc_disable s" and led: "page_ledger (rc_page_size s) (cached (rc_page_size s) T) al own P"
    and ps1: "1 < rc_page_size s" and seq: "\<forall>n \<in> set seq. 0 < n" and raw: "length raw = length seq"
    and rows: "\<forall>i < length seq. row_on (rc_page_size s) (pages i) (seq ! i - 1) (last_loc ! i)"
  shows "\<exists>k s' T'. shrunk k s T s' T' \<and>
    (if int (get_num_new_pages_decode (rc_page_size s) seq * rc_page_size s) \<le> int (available_size al) + rc_evictable_size s
     then \<exists>out al' new. alloc_paged_token_slots_decode raw tie seq last_loc s al = Some (Inr (out, s', al')) \<and>
       length new = length seq \<and> length out = length seq \<and> (\<forall>i < length seq. length (new ! i) = new_pages (rc_page_size s) (seq ! i - 1) (seq ! i)) \<and>
       (\<forall>i < length seq. paged_row (rc_page_size s) (pages i) (seq ! i - 1) @ [out ! i] = paged_row (rc_page_size s) (pages i @ new ! i) (seq ! i)) \<and>
       page_ledger (rc_page_size s) (cached (rc_page_size s) T') al' (own @ concat new) P
     else alloc_paged_token_slots_decode raw tie seq last_loc s al = Some (Inl (RuntimeError ''Decode out of memory'')))"
proof -
  let ?ps = "rc_page_size s" and ?need = "get_num_new_pages_decode (rc_page_size s) seq"
  have r: "paged_ready ?ps al" using led by (simp add: page_ledger_def)
  have ps: "0 < ?ps" "al_page_size al = ?ps" using r by (simp_all add: paged_ready_def)
  let ?num = "length seq * ?ps"
  obtain k s' T' al0 where e: "evict_from_tree_cache paged_free_segment available_size tie ?num s al = Some (Inr (s', al0))" "shrunk k s T s' T'"
    "page_ledger ?ps (cached ?ps T') al0 own P" "available_size al0 = available_size al + k" "?num \<le> available_size al0 \<or> rc_evictable_size s' = 0"
    using evict_from_keeps [OF ok led] by blast
  have r0: "paged_ready ?ps al0" using e(3) by (simp add: page_ledger_def)
  have p0: "al_page_size al0 = ?ps" using r0 by (simp add: paged_ready_def)
  have le: "?need * ?ps \<le> ?num" using decode_page_bound [of ?ps seq] by (intro mult_le_mono1) simp
  have "int (?need * ?ps) \<le> int (available_size al) + rc_evictable_size s \<longleftrightarrow> ?need * ?ps \<le> available_size al0"
    by (rule after_eviction [OF e(2,4,5) ok(2) le])
  also have "\<dots> \<longleftrightarrow> ?need \<le> size (idle al0)" using ps(1) by (simp add: available_idle p0)
  finally have enough: "int (?need * ?ps) \<le> int (available_size al) + rc_evictable_size s \<longleftrightarrow> ?need \<le> size (idle al0)" .
  note x = decode_succeeds [OF r0]
  have call: "alloc_paged_token_slots_decode raw tie seq last_loc s al =
      (case alloc_decode raw seq last_loc al0 of (None, al') \<Rightarrow> Some (Inl (RuntimeError ''Decode out of memory''))
       | (Some out, al') \<Rightarrow> Some (Inr (out, s', al')))"
    using e(1) by (simp add: alloc_paged_token_slots_decode_def Let_def ps(2))
  show ?thesis
  proof (cases "?need \<le> size (idle al0)")
    case True
    then obtain out al' where a: "alloc_decode raw seq last_loc al0 = (Some out, al')"
      using x(1) by (metis not_le option.exhaust surj_pair)
    have row: "\<forall>i < length seq. row_on (al_page_size al0) (pages i) (seq ! i - 1) (last_loc ! i)" using rows p0 by simp
    have big: "1 < al_page_size al0" using ps1 p0 by simp
    obtain new where new: "length new = length seq" "length out = length seq"
      "\<forall>i < length seq. length (new ! i) = new_pages ?ps (seq ! i - 1) (seq ! i)"
      "mset (al_free_pages al0 @ al_release_pages al0) = mset (concat new) + mset (al_free_pages al' @ al_release_pages al')"
      "\<forall>i < length seq. paged_row ?ps (pages i) (seq ! i - 1) @ [out ! i] = paged_row ?ps (pages i @ new ! i) (seq ! i)"
      using alloc_decode_rows [OF big seq raw row a] unfolding p0 by blast
    have "page_ledger ?ps (cached ?ps T') al' (own @ concat new) P"
      by (rule ledger_take [OF e(3) x(2) [OF a]]) (use new(4) in \<open>simp add: idle_def\<close>)
    then show ?thesis using True enough call a new e(2)
      by (intro exI [of _ k] exI [of _ s'] exI [of _ T'] conjI, simp) (simp, intro exI [of _ out] exI [of _ al'] exI [of _ new], simp)
  next
    case False
    then obtain al' where "alloc_decode raw seq last_loc al0 = (None, al')" using x(1) [of raw seq last_loc] by auto
    then show ?thesis using False enough call e(2) by (intro exI [of _ k] exI [of _ s'] exI [of _ T']) simp
  qed
qed

section \<open>Extending a batch\<close>

text \<open>The request is about to be extended: its prefix is what it has, and its fill tokens go further.\<close>

definition extending :: "kv_memory \<Rightarrow> request \<Rightarrow> bool" where
  "extending m rq \<longleftrightarrow> rq_prefix_indices rq = row_slots m rq \<and> length (rq_prefix_indices rq) \<le> length (rq_fill_ids rq) \<and> 0 < length (rq_fill_ids rq) \<and>
     rq_fill_ids rq = take (length (rq_fill_ids rq)) (request_tokens rq) \<and> length (rq_fill_ids rq) \<le> rp_max_context_len (km_rows m) \<and>
     rq_cache_protected_len rq \<le> key_len (request_key (km_cache m) rq (rq_fill_ids rq))"

definition extended :: "request \<Rightarrow> request" where
  "extended r = r\<lparr>rq_kv_allocated_len := length (rq_fill_ids r), rq_kv_committed_len := length (rq_fill_ids r)\<rparr>"

lemma nth_concat_slice:
  "i < length xss \<Longrightarrow> map length xss = ls \<Longrightarrow> pyslice (sum_list (take i ls)) (sum_list (take (Suc i) ls)) (concat xss) = xss ! i"
proof (induction xss arbitrary: i ls)
  case (Cons xs xss)
  then obtain l ls' where ls: "ls = l # ls'" "length xs = l" "map length xss = ls'" by (cases ls) auto
  show ?case
  proof (cases i)
    case 0
    then show ?thesis using ls by (simp add: pyslice_def)
  next
    case (Suc j)
    have "pyslice (sum_list (take j ls')) (sum_list (take (Suc j) ls')) (concat xss) = xss ! j"
      using Cons.IH [of j ls'] Cons.prems(1) Suc ls(3) by simp
    then show ?thesis using ls Suc by (simp add: pyslice_def)
  qed
qed simp

lemma held_nth: "list_all2 with_row rs rs' \<Longrightarrow> i < length rs \<Longrightarrow> held_rows rs' ! i = the (rq_req_pool_idx (rs' ! i))"
  using held_all by (metis list_all2_lengthD nth_map)

lemma last_slot_row: "rq_prefix_indices rq = paged_row ps pages n \<Longrightarrow> n > 0 \<Longrightarrow> last_slot (rq_prefix_indices rq) = paged_row ps pages n ! (n - 1)"
  by (metis last_slot_def last_conv_nth length_greater_0_conv length_paged_row)


lemma protected_le:
  assumes "request_ok m T rq"
  shows "rq_cache_protected_len rq \<le> length (row_slots m rq)"
proof (cases "rq_req_pool_idx rq")
  case None
  then show ?thesis using assms by (simp add: request_ok_def row_ok_def row_slots_def)
next
  case (Some i)
  then have c: "rq_cache_protected_len rq \<le> key_len (request_key (km_cache m) rq (take (rq_kv_committed_len rq) (request_tokens rq)))"
    "rq_kv_committed_len rq \<le> rq_kv_allocated_len rq" "rq_kv_allocated_len rq \<le> length (rp_req_to_token (km_rows m) i)"
    using assms by (simp_all add: request_ok_def row_ok_def)
  have "key_len (request_key (km_cache m) rq (take (rq_kv_committed_len rq) (request_tokens rq))) \<le> rq_kv_committed_len rq"
    using request_key_facts(4) [of "km_cache m" rq "take (rq_kv_committed_len rq) (request_tokens rq)"] by simp
  then show ?thesis using c Some by (simp add: row_slots_def)
qed

lemma grown_pages: "0 < ps \<Longrightarrow> pre \<le> seq \<Longrightarrow> (pre + ps - 1) div ps + new_pages ps pre seq = (seq + ps - 1) div ps"
  unfolding new_pages_def by (simp add: div_le_mono)

lemma own_grows:
  assumes ps: "0 < ps" and p: "p \<le> n" and l: "length pages = (n + ps - 1) div ps"
  shows "drop (p div ps) (pages @ new) = drop (p div ps) pages @ new"
proof -
  have "p div ps \<le> (n + ps - 1) div ps" using p ps by (intro div_le_mono) simp
  then show ?thesis using l by simp
qed

lemma extended_ok:
  assumes R: "request_ok m T r" and E: "extending m r" and w: "with_row r r'" "rq_req_pool_idx r' = Some i" and ps: "0 < rc_page_size (km_cache m)"
    and cfg: "same_config (km_cache m) (km_cache m')" and keep: "T' (the (rq_last_node r)) = T (the (rq_last_node r))"
    and len: "length new = new_pages (rc_page_size (km_cache m)) (length (rq_prefix_indices r)) (length (rq_fill_ids r))"
    and row: "rp_req_to_token (km_rows m') i = rq_prefix_indices r @ drop (length (rq_prefix_indices r))
      (paged_row (rc_page_size (km_cache m)) (pages_of (rc_page_size (km_cache m)) (row_slots m r) @ new) (length (rq_fill_ids r))) @ rest"
  shows "request_ok m' T' (extended r')" "own_of m' (extended r') = own_of m r @ new"
proof -
  let ?ps = "rc_page_size (km_cache m)" and ?pre = "length (rq_prefix_indices r)" and ?n = "length (rq_fill_ids r)"
  let ?pages = "pages_of (rc_page_size (km_cache m)) (row_slots m r)" and ?p = "rq_cache_protected_len r"
  have e: "rq_prefix_indices r = row_slots m r" "?pre \<le> ?n" "0 < ?n" "rq_fill_ids r = take ?n (request_tokens r)"
    "?p \<le> key_len (request_key (km_cache m) r (rq_fill_ids r))" using E unfolding extending_def by blast+
  have lp: "length ?pages = (?pre + ?ps - 1) div ?ps" using length_pages_of [OF ps, of "row_slots m r"] e(1) by simp
  have pr: "rq_prefix_indices r = paged_row ?ps ?pages ?pre" using R e(1) by (simp add: request_ok_def)
  let ?kv = "paged_row ?ps (?pages @ new) ?n"
  have tk: "take ?pre ?kv = rq_prefix_indices r" using take_paged_row [OF e(2) lp ps] pr by simp
  have "rq_prefix_indices r @ drop ?pre ?kv = ?kv" using append_take_drop_id [of ?pre ?kv] unfolding tk .
  then have "rp_req_to_token (km_rows m') i = ?kv @ rest" using row by (metis append_assoc)
  then have rs: "row_slots m' (extended r') = ?kv" and rl: "?n \<le> length (rp_req_to_token (km_rows m') i)"
    using w by (auto simp: row_slots_def extended_def with_row_def)
  have lpn: "length (?pages @ new) = (?n + ?ps - 1) div ?ps" using lp len grown_pages [OF ps e(2)] by simp
  have pk: "pages_of ?ps ?kv = ?pages @ new" by (rule pages_of_row [OF ps lpn])
  have ps': "rc_page_size (km_cache m') = ?ps" using cfg by (simp add: same_config_def)
  have p: "?p \<le> ?pre" using protected_le [OF R] e(1) by simp
  have f: "rq_cache_protected_len (extended r') = ?p" "request_tokens (extended r') = request_tokens r" "rq_last_node (extended r') = rq_last_node r"
    "rq_swa_evicted_seqlen (extended r') = rq_swa_evicted_seqlen r" "rq_req_pool_idx (extended r') = Some i"
    "rq_kv_allocated_len (extended r') = ?n" "rq_kv_committed_len (extended r') = ?n"
    using w by (auto simp: extended_def with_row_def request_tokens_def)
  have key: "request_key (km_cache m') (extended r') ts = request_key (km_cache m) r ts" for ts
    by (rule request_key_config [OF cfg]) (use w in \<open>auto simp: extended_def with_row_def\<close>)
  show "own_of m' (extended r') = own_of m r @ new"
    unfolding own_of_def rs ps' pk f(1) by (rule own_grows [OF ps p lp])
  have tp: "take ?p ?kv = take ?p (row_slots m r)"
  proof -
    have "take ?p ?kv = take ?p (take ?pre ?kv)" using p by (simp add: min_absorb1)
    then show ?thesis unfolding tk by (simp add: e(1))
  qed
  have "node_at (km_cache m') T' n ns xs vs = node_at (km_cache m) T n ns xs vs" if "rq_last_node r = Some n" for n ns xs vs
    using cfg keep that by (simp add: node_at_def same_config_def)
  then have "serves (km_cache m') T' (extended r') (request_tokens r) ?kv"
    using R unfolding request_ok_def serves_def key f tp by metis
  moreover have "row_ok m' (extended r')" unfolding row_ok_def f key using e rl by simp (metis length_take min.absorb_iff2 min.commute)
  ultimately show "request_ok m' T' (extended r')" using R unfolding request_ok_def rs ps' pk f by simp
qed


lemma with_row_map: "list_all2 with_row rs rs' \<Longrightarrow> (\<And>r r'. with_row r r' \<Longrightarrow> f r' = f r) \<Longrightarrow> map f rs' = map f rs"
  by (induction rs rs' rule: list_all2_induct) auto

lemma with_row_args:
  assumes "list_all2 with_row rs rs'"
  shows "extend_row_args rs' = \<lparr>ra_req_pool_indices = held_rows rs', ra_prefix_tensors = map rq_prefix_indices rs,
    ra_prefix_lens = map (\<lambda>r. length (rq_prefix_indices r)) rs, ra_seq_lens = map (\<lambda>r. length (rq_fill_ids r)) rs,
    ra_extend_lens = map (\<lambda>r. length (rq_fill_ids r) - length (rq_prefix_indices r)) rs\<rparr>"
  unfolding extend_row_args_def held_all [OF assms]
  by (simp add: with_row_map [OF assms] with_row_def) (auto intro!: with_row_map [OF assms] simp: with_row_def)

definition pages_needed :: "nat \<Rightarrow> request list \<Rightarrow> nat" where
  "pages_needed ps rs = get_num_new_pages ps (map (\<lambda>r. length (rq_prefix_indices r)) rs) (map (\<lambda>r. length (rq_fill_ids r)) rs)"

definition slots_to_come :: "request list \<Rightarrow> nat" where
  "slots_to_come rs = sum_list (map (\<lambda>r. length (rq_fill_ids r) - length (rq_prefix_indices r)) rs)"

lemma owned_grow:
  "length new = length rs \<Longrightarrow> (\<And>i. i < length rs \<Longrightarrow> f (rs' ! i) = g (rs ! i) @ new ! i) \<Longrightarrow> length rs' = length rs \<Longrightarrow>
   mset (concat (map f rs')) = mset (concat (map g rs)) + mset (concat new)"
proof (induction rs arbitrary: rs' new)
  case (Cons r rs)
  then obtain n ns x xs where e: "new = n # ns" "rs' = x # xs" by (metis Suc_length_conv length_Cons)
  have "f x = g r @ n" using Cons.prems(2) [of 0] e by simp
  moreover have "mset (concat (map f xs)) = mset (concat (map g rs)) + mset (concat ns)"
    using Cons.prems e by (intro Cons.IH) (simp, metis Suc_less_eq length_Cons nth_Cons_Suc, simp)
  ultimately show ?case using e by (simp add: ac_simps)
qed simp

text \<open>The rows after the batch is written: its requests' rows hold what they had and what came.\<close>

lemma extend_rows:
  fixes rs rs' p' segs
  defines "rows' \<equiv> write_cache_indices (extend_row_args rs') (concat segs) (rp_req_to_token p')"
  assumes w: "list_all2 with_row rs rs'" and apart: "rows_apart p' (held_rows rs' @ held)" and len: "row_lengths p'"
    and fit: "\<forall>r \<in> set rs. length (rq_prefix_indices r) \<le> length (rq_fill_ids r) \<and> length (rq_fill_ids r) \<le> rp_max_context_len p'"
    and segs: "map length segs = map (\<lambda>r. length (rq_fill_ids r) - length (rq_prefix_indices r)) rs"
  shows "i < length rs \<Longrightarrow> rows' (held_rows rs' ! i) =
      rq_prefix_indices (rs ! i) @ segs ! i @ drop (length (rq_fill_ids (rs ! i))) (rp_req_to_token p' (held_rows rs' ! i))"
    "length (rows' j) = length (rp_req_to_token p' j)"
    "j \<notin> set (held_rows rs') \<Longrightarrow> rows' j = rp_req_to_token p' j"
proof -
  let ?a = "extend_row_args rs'" and ?rows = "rp_req_to_token p'" and ?out = "concat segs"
  note args = with_row_args [OF w]
  have sl: "map length segs = ra_extend_lens ?a" using segs by (simp add: args)
  have ls: "length segs = length rs" using segs by (metis length_map)
  have idx: "ra_req_pool_indices ?a = held_rows rs'" "length (held_rows rs') = length rs"
    using args held_all [OF w] w by (simp_all add: list_all2_lengthD)
  have ok: "row_args_ok ?a ?out ?rows"
    unfolding row_args_ok_def Let_def idx(1)
  proof (intro conjI allI impI)
    show "distinct (held_rows rs')" using apart by (simp add: rows_apart_def)
    show "length (ra_extend_lens ?a) = length (held_rows rs')" using idx(2) by (simp add: args)
    show "length ?out = sum_list (ra_extend_lens ?a)" unfolding length_concat sl ..
    fix i assume i: "i < length (held_rows rs')"
    then have "held_rows rs' ! i \<in> {1..rp_size p'}" using apart nth_mem [OF i] by (auto simp: rows_apart_def)
    then have "length (?rows (held_rows rs' ! i)) = rp_max_context_len p'" using len by (simp add: row_lengths_def)
    then show "length (ra_prefix_tensors ?a ! i) = ra_prefix_lens ?a ! i" "ra_seq_lens ?a ! i = ra_prefix_lens ?a ! i + ra_extend_lens ?a ! i"
      "ra_seq_lens ?a ! i \<le> length (?rows (held_rows rs' ! i))" using i idx(2) fit by (simp_all add: args)
  qed
  have dis: "distinct (ra_req_pool_indices ?a)" using ok by (simp add: row_args_ok_def Let_def)
  have after: "rows' = rows_after ?a ?out (length (held_rows rs')) ?rows" using write_rows_spec [OF ok] idx(1) by (simp add: rows'_def)
  show "rows' (held_rows rs' ! i) = rq_prefix_indices (rs ! i) @ segs ! i @ drop (length (rq_fill_ids (rs ! i))) (?rows (held_rows rs' ! i))"
    if i: "i < length rs"
  proof -
    have "rows' (held_rows rs' ! i) = written_row ?a ?out i (?rows (held_rows rs' ! i))"
      unfolding after using rows_after_new [OF dis, of "length (held_rows rs')" i ?out ?rows] idx i by simp
    moreover have "pyslice (sum_list (take i (ra_extend_lens ?a))) (sum_list (take (Suc i) (ra_extend_lens ?a))) ?out = segs ! i"
      using nth_concat_slice [OF _ sl] i ls by simp
    ultimately show ?thesis unfolding written_row_def using i by (simp add: args)
  qed
  have "length (rows_after ?a ?out k ?rows j) = length (?rows j)" if "k \<le> length rs" for k
    using that
  proof (induction k)
    case (Suc k)
    have k: "k < length (ra_req_pool_indices ?a)" using Suc.prems idx by simp
    have "length (written_row ?a ?out k (?rows (ra_req_pool_indices ?a ! k))) = length (?rows (ra_req_pool_indices ?a ! k))"
      using kernel_row [OF ok k refl] by (metis length_apply_writes)
    then show ?case using Suc next_row [OF ok k] by simp
  qed simp
  then show "length (rows' j) = length (?rows j)" using idx(2) by (simp add: after)
  show "rows' j = ?rows j" if j: "j \<notin> set (held_rows rs')"
  proof -
    have "j \<notin> (!) (ra_req_pool_indices ?a) ` {0..<length (held_rows rs')}" using j unfolding idx(1) by auto
    then show ?thesis using rows_after_old [OF dis, of "length (held_rows rs')" j ?out ?rows] idx by (simp add: after)
  qed
qed

text \<open>A batch whose requests each got pages, after evictions.\<close>

lemma grown_batch:
  assumes at: "memory_at m T (rs @ others) P" and sh: "shrunk k (km_cache m) T (km_cache m') T'"
    and led: "page_ledger (rc_page_size (km_cache m)) (cached (rc_page_size (km_cache m)) T') (km_allocator m') (concat (map (own_of m) (rs @ others)) @ concat new) P"
    and l: "length rs' = length rs" "length new = length rs" "locked_nodes rs' = locked_nodes rs"
    and req: "\<And>i. i < length rs \<Longrightarrow> T' (the (rq_last_node (rs ! i))) = T (the (rq_last_node (rs ! i))) \<Longrightarrow>
      request_ok m' T' (rs' ! i) \<and> own_of m' (rs' ! i) = own_of m (rs ! i) @ new ! i"
    and rows: "rows_apart (km_rows m') (held_rows rs' @ held_rows others)" "row_lengths (km_rows m')" "unmoved m m' others"
  shows "memory_at m' T' (rs' @ others) P"
proof -
  have sub: "T' \<subseteq>\<^sub>m T" "tree_ok (km_cache m') T'" "same_config (km_cache m) (km_cache m')" using sh by (simp_all add: shrunk_def)
  have bk: "books (km_cache m') T' (locked_nodes (rs @ others))" using sh memory_atD(5) [OF at] by (simp add: shrunk_def)
  have keep: "\<forall>n \<in> set (locked_nodes (rs @ others)). T' n = T n" by (rule shrunk_keeps [OF sub(1) bk subset_refl])
  have r: "request_ok m' T' (rs' ! i)" "own_of m' (rs' ! i) = own_of m (rs ! i) @ new ! i" if i: "i < length rs" for i
    using req [OF i] keep i by (auto simp: locked_nodes_def)
  have own: "mset (concat (map (own_of m') rs')) = mset (concat (map (own_of m) rs)) + mset (concat new)"
    by (rule owned_grow [OF l(2) r(2) l(1)])
  have ok: "\<forall>r \<in> set rs'. request_ok m' T' r" using r(1) l(1) by (auto simp: in_set_conv_nth)
  have ledger: "page_ledger (rc_page_size (km_cache m)) (cached (rc_page_size (km_cache m)) T') (km_allocator m')
      (concat (map (own_of m') rs') @ concat (map (own_of m) others)) P"
    using led own page_ledger_own [of "concat (map (own_of m') rs') @ concat (map (own_of m) others)"
      "concat (map (own_of m) (rs @ others)) @ concat new" "rc_page_size (km_cache m)"] by (simp add: ac_simps)
  have books: "books (km_cache m') T' (locked_nodes rs' @ locked_nodes others)" using bk by (simp add: locked_append l(3))
  have kept: "\<forall>n \<in> set (locked_nodes others). T' n = T n" using keep by (simp add: locked_append)
  have left: "\<forall>i \<in> set (held_rows others). rp_req_to_token (km_rows m') i = rp_req_to_token (km_rows m) i" using rows(3) by (simp add: unmoved_def)
  show ?thesis by (rule memory_frame [OF at sub(3,2) books kept rows(1,2) left ok ledger])
qed

text \<open>What the allocator is asked for, and that it fits the rows.\<close>

lemma extending_lens:
  assumes at: "memory_at m T (rs @ others) P" and ex: "\<forall>r \<in> set rs. extending m r"
  defines "pre \<equiv> map (\<lambda>r. length (rq_prefix_indices r)) rs" and "seq \<equiv> map (\<lambda>r. length (rq_fill_ids r)) rs"
  shows "length seq = length pre" "\<forall>i < length pre. pre ! i \<le> seq ! i" "slots_to_come rs = sum_list (map2 (\<lambda>n m. n - m) seq pre)"
    "\<forall>i < length pre. row_on (rc_page_size (km_cache m)) (pages_of (rc_page_size (km_cache m)) (row_slots m (rs ! i))) (pre ! i)
      (map (\<lambda>r. last_slot (rq_prefix_indices r)) rs ! i)"
proof -
  let ?ps = "rc_page_size (km_cache m)" and ?pages = "\<lambda>i. pages_of (rc_page_size (km_cache m)) (row_slots m (rs ! i))"
  have ps: "0 < ?ps" using memory_atD(1) [OF at] by simp
  have e: "rq_prefix_indices r = row_slots m r" "length (rq_prefix_indices r) \<le> length (rq_fill_ids r)" if "r \<in> set rs" for r
    using ex that unfolding extending_def by blast+
  show "length seq = length pre" by (simp add: pre_def seq_def)
  show "\<forall>i < length pre. pre ! i \<le> seq ! i" using e(2) by (simp add: pre_def seq_def)
  have "map2 (\<lambda>n m. n - m) seq pre = map (\<lambda>r. length (rq_fill_ids r) - length (rq_prefix_indices r)) rs"
    unfolding pre_def seq_def by (induction rs) simp_all
  then show "slots_to_come rs = sum_list (map2 (\<lambda>n m. n - m) seq pre)" by (simp add: slots_to_come_def)
  show "\<forall>i < length pre. row_on ?ps (?pages i) (pre ! i) (map (\<lambda>r. last_slot (rq_prefix_indices r)) rs ! i)"
  proof (intro allI impI)
    fix i assume "i < length pre"
    then have i: "i < length rs" by (simp add: pre_def)
    have pr: "rq_prefix_indices (rs ! i) = paged_row ?ps (?pages i) (pre ! i)" "length (?pages i) = (pre ! i + ?ps - 1) div ?ps"
      using memory_atD(6) [OF at, of "rs ! i"] e(1) [of "rs ! i"] i length_pages_of [OF ps, of "row_slots m (rs ! i)"]
      by (simp_all add: request_ok_def pre_def)
    show "row_on ?ps (?pages i) (pre ! i) (map (\<lambda>r. last_slot (rq_prefix_indices r)) rs ! i)"
      unfolding row_on_def using last_slot_row [OF pr(1)] pr(2) i by simp
  qed
qed

text \<open>The batch once its slots are there.\<close>

lemma extend_written:
  assumes at: "memory_at m T (rs @ others) P" and ex: "\<forall>r \<in> set rs. extending m r" and w: "list_all2 with_row rs rs'"
    and p: "rp_req_to_token p' = rp_req_to_token (km_rows m)" "rows_apart p' (held_rows rs' @ held_rows others)"
      "rp_size p' = rp_size (km_rows m)" "rp_max_context_len p' = rp_max_context_len (km_rows m)"
    and sh: "shrunk k (km_cache m) T s' T'"
    and new: "length new = length rs" "\<forall>i < length rs. length (new ! i) = new_pages (rc_page_size (km_cache m)) (length (rq_prefix_indices (rs ! i))) (length (rq_fill_ids (rs ! i)))"
      "out = concat (map (\<lambda>i. drop (length (rq_prefix_indices (rs ! i)))
         (paged_row (rc_page_size (km_cache m)) (pages_of (rc_page_size (km_cache m)) (row_slots m (rs ! i)) @ new ! i) (length (rq_fill_ids (rs ! i))))) [0..<length rs])"
    and led: "page_ledger (rc_page_size (km_cache m)) (cached (rc_page_size (km_cache m)) T') al' (concat (map (own_of m) (rs @ others)) @ concat new) P"
    and m': "m' = \<lparr>km_cache = s', km_allocator = al', km_rows = p'\<lparr>rp_req_to_token := write_cache_indices (extend_row_args rs') out (rp_req_to_token p')\<rparr>\<rparr>"
  shows "memory_at m' T' (map extended rs' @ others) P" "unmoved m m' others"
proof -
  let ?ps = "rc_page_size (km_cache m)" and ?segs = "map (\<lambda>i. drop (length (rq_prefix_indices (rs ! i)))
    (paged_row (rc_page_size (km_cache m)) (pages_of (rc_page_size (km_cache m)) (row_slots m (rs ! i)) @ new ! i) (length (rq_fill_ids (rs ! i))))) [0..<length rs]"
  note D = memory_atD [OF at]
  have ps: "0 < ?ps" using D(1) by simp
  have lr: "length rs' = length rs" using w by (simp add: list_all2_lengthD)
  have len: "row_lengths p'" using D(8) p by (simp add: row_lengths_def)
  have fit: "\<forall>r \<in> set rs. length (rq_prefix_indices r) \<le> length (rq_fill_ids r) \<and> length (rq_fill_ids r) \<le> rp_max_context_len p'"
    using ex unfolding extending_def p(4) by blast
  have segs: "map length ?segs = map (\<lambda>r. length (rq_fill_ids r) - length (rq_prefix_indices r)) rs" by (intro nth_equalityI) simp_all
  note written = extend_rows [OF w p(2) len fit segs, folded new(3)]
  have rows: "rp_req_to_token (km_rows m') = write_cache_indices (extend_row_args rs') out (rp_req_to_token p')" by (simp add: m')
  have cfg: "same_config (km_cache m) (km_cache m')" using sh by (simp add: shrunk_def m')
  have h: "with_row (rs ! i) (rs' ! i)" "rq_req_pool_idx (rs' ! i) = Some (held_rows rs' ! i)" if i: "i < length rs" for i
  proof -
    show "with_row (rs ! i) (rs' ! i)" using w i by (simp add: list_all2_nthD)
    then show "rq_req_pool_idx (rs' ! i) = Some (held_rows rs' ! i)" using held_nth [OF w i] by (auto simp: with_row_def)
  qed
  have kept: "rp_req_to_token (km_rows m') j = rp_req_to_token (km_rows m) j" if j: "j \<in> set (held_rows others)" for j
  proof -
    have "j \<notin> set (held_rows rs')" using j p(2) by (auto simp: rows_apart_def)
    then show ?thesis using written(3) unfolding rows by (simp add: p(1))
  qed
  show um: "unmoved m m' others" using cfg kept p(4) by (simp add: unmoved_def m')
  show "memory_at m' T' (map extended rs' @ others) P"
  proof (rule grown_batch [OF at _ _ _ new(1)])
    show "shrunk k (km_cache m) T (km_cache m') T'" using sh by (simp add: m')
    show "page_ledger ?ps (cached ?ps T') (km_allocator m') (concat (map (own_of m) (rs @ others)) @ concat new) P" using led by (simp add: m')
    have "map (\<lambda>r. the (rq_last_node r)) rs' = map (\<lambda>r. the (rq_last_node r)) rs" by (rule with_row_map [OF w]) (auto simp: with_row_def)
    then show "locked_nodes (map extended rs') = locked_nodes rs" by (simp add: locked_nodes_def extended_def comp_def)
    have hr: "held_rows (map extended rs') = held_rows rs'" by (induction rs') (simp_all add: extended_def split: option.splits)
    show "rows_apart (km_rows m') (held_rows (map extended rs') @ held_rows others)" using p(2) by (simp add: hr m')
    show "row_lengths (km_rows m')" using len written(2) unfolding row_lengths_def rows by (simp add: m')
    show "unmoved m m' others" by (rule um)
    fix i assume i: "i < length rs" and kp: "T' (the (rq_last_node (rs ! i))) = T (the (rq_last_node (rs ! i)))"
    have R: "request_ok m T (rs ! i)" using D(6) i by simp
    have E: "extending m (rs ! i)" using ex i by simp
    have ln: "length (new ! i) = new_pages ?ps (length (rq_prefix_indices (rs ! i))) (length (rq_fill_ids (rs ! i)))" using new(2) i by simp
    have rw: "rp_req_to_token (km_rows m') (held_rows rs' ! i) = rq_prefix_indices (rs ! i) @ drop (length (rq_prefix_indices (rs ! i)))
        (paged_row ?ps (pages_of ?ps (row_slots m (rs ! i)) @ new ! i) (length (rq_fill_ids (rs ! i)))) @
        drop (length (rq_fill_ids (rs ! i))) (rp_req_to_token p' (held_rows rs' ! i))"
      unfolding rows using written(1) [OF i] i by simp
    show "request_ok m' T' (map extended rs' ! i) \<and> own_of m' (map extended rs' ! i) = own_of m (rs ! i) @ new ! i"
      using extended_ok [where T = T and T' = T', OF R E h [OF i] ps cfg kp ln rw] i lr by simp
  qed (simp add: lr)
qed

lemma alloc_rows_size: "row_alloc rs p = Inr (q, rs', p') \<Longrightarrow> rp_size p' = rp_size p \<and> rp_max_context_len p' = rp_max_context_len p"
  by (auto simp: row_alloc_def Let_def alloc_rows_def split: if_splits option.splits prod.splits)

lemma extend_keeps:
  assumes at: "memory_at m T (rs @ others) P" and ex: "\<forall>r \<in> set rs. extending m r" and raw: "length raw = slots_to_come rs"
  shows "if rows_available (km_rows m) < length (filter (\<lambda>r. \<not> holds_kv r) rs)
    then alloc_for_extend raw tie rs m = Some (Inl (RuntimeError ''alloc_req_slots runs out of memory''))
    else if int (pages_needed (rc_page_size (km_cache m)) rs * rc_page_size (km_cache m)) \<le> int (available_size (km_allocator m)) + rc_evictable_size (km_cache m)
    then \<exists>out rs' m' T'. alloc_for_extend raw tie rs m = Some (Inr (out, map extended rs', m')) \<and> list_all2 with_row rs rs' \<and>
      memory_at m' T' (map extended rs' @ others) P \<and> unmoved m m' others
    else alloc_for_extend raw tie rs m = Some (Inl (RuntimeError ''Prefill out of memory''))"
proof -
  let ?s = "km_cache m" and ?ps = "rc_page_size (km_cache m)" and ?n = "slots_to_come rs"
  let ?pre = "map (\<lambda>r. length (rq_prefix_indices r)) rs" and ?seq = "map (\<lambda>r. length (rq_fill_ids r)) rs"
  let ?last = "map (\<lambda>r. last_slot (rq_prefix_indices r)) rs" and ?pages = "\<lambda>i. pages_of ?ps (row_slots m (rs ! i))"
  note D = memory_atD [OF at]
  have apart: "rows_apart (km_rows m) (held_rows rs @ held_rows others)" using D(3) by simp
  have held: "\<forall>r \<in> set rs. holds_kv r \<longrightarrow> 0 < rq_kv_allocated_len r"
  proof (intro ballI impI)
    fix r assume r: "r \<in> set rs" "holds_kv r"
    then show "0 < rq_kv_allocated_len r" using D(6) [of r] by (auto simp: request_ok_def row_ok_def holds_kv_def)
  qed
  obtain q rs' p' where ra: "row_alloc rs (km_rows m) = Inr (q, rs', p')" "rp_req_to_token p' = rp_req_to_token (km_rows m)"
    "if rows_available (km_rows m) < length (filter (\<lambda>r. \<not> holds_kv r) rs) then q = None \<and> rs' = rs \<and> p' = km_rows m
     else q = Some (held_rows rs') \<and> list_all2 with_row rs rs' \<and> rows_apart p' (held_rows rs' @ held_rows others)"
    using alloc_spec [OF apart held] by blast
  show ?thesis
  proof (cases "rows_available (km_rows m) < length (filter (\<lambda>r. \<not> holds_kv r) rs)")
    case True
    then have "q = None" using ra(3) by simp
    then show ?thesis using True ra(1) by (simp add: alloc_for_extend_def)
  next
    case rows_left: False
    then have q: "q = Some (held_rows rs')" "list_all2 with_row rs rs'" "rows_apart p' (held_rows rs' @ held_rows others)" using ra(3) by simp_all
    note args = with_row_args [OF q(2)] and lens = extending_lens [OF at ex]
    have call: "alloc_for_extend raw tie rs m = and_then (alloc_paged_token_slots_extend raw tie ?pre ?seq ?last ?n ?s (km_allocator m))
        (\<lambda>(out, s', al'). Some (Inr (out, map extended rs', \<lparr>km_cache = s', km_allocator = al',
           km_rows = p'\<lparr>rp_req_to_token := write_cache_indices (extend_row_args rs') out (rp_req_to_token p')\<rparr>\<rparr>)))"
      using ra(1) q(1) D(1) by (simp add: alloc_for_extend_def Let_def args slots_to_come_def extended_def [abs_def])
    obtain k s' T' where spec: "shrunk k ?s T s' T'"
      "if int (pages_needed ?ps rs * ?ps) \<le> int (available_size (km_allocator m)) + rc_evictable_size ?s
       then \<exists>out al' new. alloc_paged_token_slots_extend raw tie ?pre ?seq ?last ?n ?s (km_allocator m) = Some (Inr (out, s', al')) \<and>
         length new = length ?pre \<and> (\<forall>i < length ?pre. length (new ! i) = new_pages ?ps (?pre ! i) (?seq ! i)) \<and>
         out = concat (map (\<lambda>i. drop (?pre ! i) (paged_row ?ps (?pages i @ new ! i) (?seq ! i))) [0..<length ?pre]) \<and>
         (\<forall>i < length ?pre. take (?pre ! i) (paged_row ?ps (?pages i @ new ! i) (?seq ! i)) = paged_row ?ps (?pages i) (?pre ! i)) \<and>
         page_ledger ?ps (cached ?ps T') al' (concat (map (own_of m) (rs @ others)) @ concat new) P
       else alloc_paged_token_slots_extend raw tie ?pre ?seq ?last ?n ?s (km_allocator m) = Some (Inl (RuntimeError ''Prefill out of memory''))"
      using alloc_extend_spec [OF D(4,5,2,7) lens(1,2,3) raw lens(4), of tie] unfolding pages_needed_def by blast
    show ?thesis
    proof (cases "int (pages_needed ?ps rs * ?ps) \<le> int (available_size (km_allocator m)) + rc_evictable_size ?s")
      case False
      then show ?thesis using spec(2) call rows_left by simp
    next
      case True
      then obtain out al' new where new: "alloc_paged_token_slots_extend raw tie ?pre ?seq ?last ?n ?s (km_allocator m) = Some (Inr (out, s', al'))"
        "length new = length ?pre" "\<forall>i < length ?pre. length (new ! i) = new_pages ?ps (?pre ! i) (?seq ! i)"
        "out = concat (map (\<lambda>i. drop (?pre ! i) (paged_row ?ps (?pages i @ new ! i) (?seq ! i))) [0..<length ?pre])"
        "page_ledger ?ps (cached ?ps T') al' (concat (map (own_of m) (rs @ others)) @ concat new) P" using spec(2) by auto
      let ?m' = "\<lparr>km_cache = s', km_allocator = al', km_rows = p'\<lparr>rp_req_to_token := write_cache_indices (extend_row_args rs') out (rp_req_to_token p')\<rparr>\<rparr>"
      have l: "length new = length rs" using new(2) by simp
      have np: "\<forall>i < length rs. length (new ! i) = new_pages ?ps (length (rq_prefix_indices (rs ! i))) (length (rq_fill_ids (rs ! i)))" using new(3) by simp
      have o: "out = concat (map (\<lambda>i. drop (length (rq_prefix_indices (rs ! i))) (paged_row ?ps (?pages i @ new ! i) (length (rq_fill_ids (rs ! i))))) [0..<length rs])"
        unfolding new(4) by (intro arg_cong [of _ _ concat] map_cong) simp_all
      note sz = alloc_rows_size [OF ra(1), THEN conjunct1] alloc_rows_size [OF ra(1), THEN conjunct2]
      note written = extend_written [OF at ex q(2) ra(2) q(3) sz spec(1) l np o new(5) refl]
      show ?thesis using True rows_left q(2) call new(1) written by auto
    qed
  qed
qed


section \<open>A decode step\<close>

definition decoding :: "kv_memory \<Rightarrow> request \<Rightarrow> bool" where
  "decoding m rq \<longleftrightarrow> holds_kv rq \<and> rq_kv_committed_len rq = rq_kv_allocated_len rq \<and> rq_kv_allocated_len rq < rp_max_context_len (km_rows m) \<and>
     rq_kv_allocated_len rq < length (request_tokens rq)"

definition decoded :: "request \<Rightarrow> request" where
  "decoded r = r\<lparr>rq_kv_allocated_len := rq_kv_allocated_len r + 1, rq_kv_committed_len := rq_kv_committed_len r + 1\<rparr>"

lemma decode_rows_old: "j \<notin> set (map (\<lambda>r. the (rq_req_pool_idx r)) rs) \<Longrightarrow> decode_rows rs ns vs rows j = rows j"
  unfolding decode_rows_def
proof (induction rs arbitrary: ns vs rows)
  case (Cons r rs)
  then show ?case by (cases ns; cases vs) auto
qed simp

lemma decode_rows_new:
  "distinct (map (\<lambda>r. the (rq_req_pool_idx r)) rs) \<Longrightarrow> length ns = length rs \<Longrightarrow> length vs = length rs \<Longrightarrow> i < length rs \<Longrightarrow>
   decode_rows rs ns vs rows (the (rq_req_pool_idx (rs ! i))) = (rows (the (rq_req_pool_idx (rs ! i))))[ns ! i := vs ! i]"
proof (induction rs arbitrary: ns vs rows i)
  case (Cons r rs)
  then obtain n ns' v vs' where e: "ns = n # ns'" "vs = v # vs'" by (metis Suc_length_conv length_Cons)
  let ?rows = "rows(the (rq_req_pool_idx r) := (rows (the (rq_req_pool_idx r)))[n := v])"
  have step: "decode_rows (r # rs) ns vs rows = decode_rows rs ns' vs' ?rows" by (simp add: decode_rows_def e)
  show ?case
  proof (cases i)
    case 0
    have "the (rq_req_pool_idx r) \<notin> set (map (\<lambda>r. the (rq_req_pool_idx r)) rs)" using Cons.prems(1) by auto
    then show ?thesis unfolding step using 0 decode_rows_old by (simp add: e)
  next
    case (Suc j)
    have j: "the (rq_req_pool_idx (rs ! j)) \<noteq> the (rq_req_pool_idx r)" using Cons.prems(1,4) Suc by auto (metis imageI nth_mem)
    have "decode_rows rs ns' vs' ?rows (the (rq_req_pool_idx (rs ! j))) = (?rows (the (rq_req_pool_idx (rs ! j))))[ns' ! j := vs' ! j]"
      by (rule Cons.IH) (use Cons.prems Suc e in auto)
    then show ?thesis unfolding step using Suc j by (simp add: e)
  qed
qed simp

lemma decoded_ok:
  assumes R: "request_ok m T r" and d: "decoding m r" and i: "rq_req_pool_idx r = Some i" and ps: "0 < rc_page_size (km_cache m)"
    and cfg: "same_config (km_cache m) (km_cache m')" and keep: "T' (the (rq_last_node r)) = T (the (rq_last_node r))"
    and len: "length new = new_pages (rc_page_size (km_cache m)) (rq_kv_allocated_len r) (rq_kv_allocated_len r + 1)"
    and mx: "length (rp_req_to_token (km_rows m) i) = rp_max_context_len (km_rows m)"
    and row: "rp_req_to_token (km_rows m') i = (rp_req_to_token (km_rows m) i)[rq_kv_allocated_len r := v]"
    and v: "paged_row (rc_page_size (km_cache m)) (pages_of (rc_page_size (km_cache m)) (row_slots m r)) (rq_kv_allocated_len r) @ [v]
      = paged_row (rc_page_size (km_cache m)) (pages_of (rc_page_size (km_cache m)) (row_slots m r) @ new) (rq_kv_allocated_len r + 1)"
  shows "request_ok m' T' (decoded r)" "own_of m' (decoded r) = own_of m r @ new"
proof -
  let ?ps = "rc_page_size (km_cache m)" and ?n = "rq_kv_allocated_len r" and ?row = "rp_req_to_token (km_rows m) i" and ?p = "rq_cache_protected_len r"
  let ?pages = "pages_of (rc_page_size (km_cache m)) (row_slots m r)"
  have n: "?n < length ?row" "?n < length (request_tokens r)" "rq_kv_committed_len r = ?n" using d mx by (simp_all add: decoding_def)
  have kv: "row_slots m r = take ?n ?row" "length (row_slots m r) = ?n" using i n by (simp_all add: row_slots_def)
  have lp: "length ?pages = (?n + ?ps - 1) div ?ps" using length_pages_of [OF ps, of "row_slots m r"] kv(2) by simp
  let ?kv = "paged_row ?ps (?pages @ new) (?n + 1)"
  have kr: "take (?n + 1) (?row[?n := v]) = ?kv"
  proof -
    have "take (?n + 1) (?row[?n := v]) = take ?n ?row @ [v]" using n(1) by (simp add: take_Suc_conv_app_nth)
    also have "take ?n ?row = paged_row ?ps ?pages ?n" using R kv by (simp add: request_ok_def)
    finally show ?thesis using v by simp
  qed
  have f: "rq_cache_protected_len (decoded r) = ?p" "request_tokens (decoded r) = request_tokens r" "rq_last_node (decoded r) = rq_last_node r"
    "rq_swa_evicted_seqlen (decoded r) = rq_swa_evicted_seqlen r" "rq_req_pool_idx (decoded r) = Some i"
    "rq_kv_allocated_len (decoded r) = ?n + 1" "rq_kv_committed_len (decoded r) = ?n + 1"
    using i n(3) by (simp_all add: decoded_def request_tokens_def)
  have rs: "row_slots m' (decoded r) = ?kv" using kr by (simp add: row_slots_def f row)
  have lpn: "length (?pages @ new) = (?n + 1 + ?ps - 1) div ?ps" using lp len grown_pages [OF ps, of ?n "?n + 1"] by simp
  have pk: "pages_of ?ps ?kv = ?pages @ new" by (rule pages_of_row [OF ps lpn])
  have ps': "rc_page_size (km_cache m') = ?ps" using cfg by (simp add: same_config_def)
  have p: "?p \<le> ?n" using protected_le [OF R] kv(2) by simp
  have key: "request_key (km_cache m') (decoded r) ts = request_key (km_cache m) r ts" for ts
    by (rule request_key_config [OF cfg]) (simp_all add: decoded_def)
  show "own_of m' (decoded r) = own_of m r @ new" unfolding own_of_def rs ps' pk f(1) by (rule own_grows [OF ps p lp])
  have tp: "take ?p ?kv = take ?p (row_slots m r)"
  proof -
    have "take ?p ?kv = take ?p (take (?n + 1) (?row[?n := v]))" by (simp only: kr)
    also have "\<dots> = take ?p (take ?n ?row)" using p by (simp add: min_absorb1)
    finally show ?thesis by (simp only: kv(1))
  qed
  have "node_at (km_cache m') T' n ns xs vs = node_at (km_cache m) T n ns xs vs" if "rq_last_node r = Some n" for n ns xs vs
    using cfg keep that by (simp add: node_at_def same_config_def)
  then have "serves (km_cache m') T' (decoded r) (request_tokens r) ?kv"
    using R unfolding request_ok_def serves_def key f tp by metis
  moreover have "row_ok m' (decoded r)"
  proof -
    have "?p \<le> key_len (request_key (km_cache m) r (take ?n (request_tokens r)))" using R i n(3) by (simp add: request_ok_def row_ok_def)
    also have "\<dots> \<le> key_len (request_key (km_cache m) r (take (?n + 1) (request_tokens r)))" by (rule key_len_mono) simp
    finally show ?thesis unfolding row_ok_def f key using n by (simp add: row)
  qed
  ultimately show "request_ok m' T' (decoded r)" using R unfolding request_ok_def rs ps' pk f by simp
qed


lemma held_all_rows: "\<forall>r \<in> set rs. holds_kv r \<Longrightarrow> held_rows rs = map (\<lambda>r. the (rq_req_pool_idx r)) rs"
  by (induction rs) (auto simp: holds_kv_def)

text \<open>The step's need is what the capacity check asks for.\<close>

lemma decode_need:
  assumes "1 < ps" "\<forall>r \<in> set rs. rq_kv_committed_len r = rq_kv_allocated_len r"
  shows "get_num_new_pages_decode ps (map (\<lambda>r. Suc (rq_kv_allocated_len r)) rs) * ps = new_tokens_required_next_decode ps rs"
proof -
  have "Suc n mod ps = 1 \<longleftrightarrow> n mod ps = 0" for n
    using assms(1) by (metis One_nat_def Suc_lessD mod_Suc mod_less nat.inject nat.simps(3) zero_less_one)
  then have "filter (\<lambda>n. n mod ps = 1) (map (\<lambda>r. Suc (rq_kv_allocated_len r)) rs) = map (\<lambda>r. Suc (rq_kv_allocated_len r)) (filter (\<lambda>r. rq_kv_allocated_len r mod ps = 0) rs)"
    by (simp add: filter_map comp_def)
  moreover have "filter (\<lambda>r. rq_kv_allocated_len r mod ps = 0) rs = filter (\<lambda>r. rq_kv_committed_len r mod ps = 0) rs"
    using assms(2) by (intro filter_cong) simp_all
  ultimately show ?thesis by (simp add: get_num_new_pages_decode_def new_tokens_required_next_decode_def)
qed

text \<open>The last slot of a request is on its row of pages.\<close>

lemma decoding_rows:
  assumes at: "memory_at m T (rs @ others) P" and dec: "\<forall>r \<in> set rs. decoding m r" and i: "i < length rs"
  shows "rq_req_pool_idx (rs ! i) = Some (map (\<lambda>r. the (rq_req_pool_idx r)) rs ! i)"
    "length (rp_req_to_token (km_rows m) (map (\<lambda>r. the (rq_req_pool_idx r)) rs ! i)) = rp_max_context_len (km_rows m)"
    "row_on (rc_page_size (km_cache m)) (pages_of (rc_page_size (km_cache m)) (row_slots m (rs ! i))) (rq_kv_allocated_len (rs ! i))
      (rp_req_to_token (km_rows m) (the (rq_req_pool_idx (rs ! i))) ! (rq_kv_allocated_len (rs ! i) - 1))"
proof -
  let ?ps = "rc_page_size (km_cache m)" and ?rows = "rp_req_to_token (km_rows m)" and ?idx = "map (\<lambda>r. the (rq_req_pool_idx r)) rs"
  let ?n = "rq_kv_allocated_len (rs ! i)" and ?pages = "pages_of (rc_page_size (km_cache m)) (row_slots m (rs ! i))"
  note D = memory_atD [OF at]
  have ps: "0 < ?ps" using D(1) by simp
  have R: "request_ok m T (rs ! i)" and d: "decoding m (rs ! i)" using D(6) dec i by simp_all
  have hold: "\<forall>r \<in> set rs. holds_kv r" using dec by (simp add: decoding_def)
  show h: "rq_req_pool_idx (rs ! i) = Some (?idx ! i)" using hold i by (auto simp: holds_kv_def)
  have "?idx ! i \<in> set (held_rows (rs @ others))" using i held_all_rows [OF hold] by simp
  then show mx: "length (?rows (?idx ! i)) = rp_max_context_len (km_rows m)" using D(3,8) by (auto simp: row_lengths_def rows_apart_def)
  have pos: "0 < ?n" using R h by (simp add: request_ok_def row_ok_def)
  have slots: "row_slots m (rs ! i) = take ?n (?rows (?idx ! i))" "length (row_slots m (rs ! i)) = ?n"
    using h d mx by (simp_all add: row_slots_def decoding_def)
  have "?rows (the (rq_req_pool_idx (rs ! i))) ! (?n - 1) = row_slots m (rs ! i) ! (?n - 1)" using i pos unfolding slots(1) by simp
  also have "\<dots> = paged_row ?ps ?pages ?n ! (?n - 1)" using R slots(2) by (simp add: request_ok_def)
  finally show "row_on ?ps ?pages ?n (?rows (the (rq_req_pool_idx (rs ! i))) ! (?n - 1))"
    unfolding row_on_def using length_pages_of [OF ps, of "row_slots m (rs ! i)"] slots(2) by simp
qed

text \<open>The batch once its slots are there.\<close>

lemma decode_written:
  assumes at: "memory_at m T (rs @ others) P" and dec: "\<forall>r \<in> set rs. decoding m r" and sh: "shrunk k (km_cache m) T s' T'"
    and new: "length new = length rs" "length out = length rs"
      "\<forall>i < length rs. length (new ! i) = new_pages (rc_page_size (km_cache m)) (rq_kv_allocated_len (rs ! i)) (rq_kv_allocated_len (rs ! i) + 1)"
      "\<forall>i < length rs. paged_row (rc_page_size (km_cache m)) (pages_of (rc_page_size (km_cache m)) (row_slots m (rs ! i))) (rq_kv_allocated_len (rs ! i)) @ [out ! i] =
        paged_row (rc_page_size (km_cache m)) (pages_of (rc_page_size (km_cache m)) (row_slots m (rs ! i)) @ new ! i) (rq_kv_allocated_len (rs ! i) + 1)"
    and led: "page_ledger (rc_page_size (km_cache m)) (cached (rc_page_size (km_cache m)) T') al' (concat (map (own_of m) (rs @ others)) @ concat new) P"
    and m': "m' = \<lparr>km_cache = s', km_allocator = al',
      km_rows = (km_rows m)\<lparr>rp_req_to_token := decode_rows rs (map rq_kv_allocated_len rs) out (rp_req_to_token (km_rows m))\<rparr>\<rparr>"
  shows "memory_at m' T' (map decoded rs @ others) P" "unmoved m m' others"
proof -
  let ?ps = "rc_page_size (km_cache m)" and ?rows = "rp_req_to_token (km_rows m)" and ?idx = "map (\<lambda>r. the (rq_req_pool_idx r)) rs"
  note D = memory_atD [OF at] and R = decoding_rows [OF at dec]
  have ps: "0 < ?ps" using D(1) by simp
  have hold: "\<forall>r \<in> set rs. holds_kv r" using dec by (simp add: decoding_def)
  have apart: "rows_apart (km_rows m) (?idx @ held_rows others)" using D(3) held_all_rows [OF hold] by simp
  have dis: "distinct ?idx" using apart by (simp add: rows_apart_def)
  have rows: "rp_req_to_token (km_rows m') = decode_rows rs (map rq_kv_allocated_len rs) out ?rows" by (simp add: m')
  have rowi: "rp_req_to_token (km_rows m') (?idx ! i) = (?rows (?idx ! i))[rq_kv_allocated_len (rs ! i) := out ! i]" if i: "i < length rs" for i
    unfolding rows using decode_rows_new [OF dis _ new(2) i, of "map rq_kv_allocated_len rs" ?rows] i by simp
  have cfg: "same_config (km_cache m) (km_cache m')" using sh by (simp add: shrunk_def m')
  have kept: "rp_req_to_token (km_rows m') j = ?rows j" if j: "j \<in> set (held_rows others)" for j
  proof -
    have "j \<notin> set ?idx" using apart j by (auto simp: rows_apart_def)
    then show ?thesis unfolding rows by (rule decode_rows_old)
  qed
  show um: "unmoved m m' others" using cfg kept by (simp add: unmoved_def m')
  show "memory_at m' T' (map decoded rs @ others) P"
  proof (rule grown_batch [OF at _ _ _ new(1)])
    show "shrunk k (km_cache m) T (km_cache m') T'" using sh by (simp add: m')
    show "page_ledger ?ps (cached ?ps T') (km_allocator m') (concat (map (own_of m) (rs @ others)) @ concat new) P" using led by (simp add: m')
    show "locked_nodes (map decoded rs) = locked_nodes rs" by (simp add: locked_nodes_def decoded_def comp_def)
    have hr: "held_rows (map decoded rs) = ?idx" using held_all_rows [of "map decoded rs"] hold by (simp add: holds_kv_def decoded_def comp_def)
    show "rows_apart (km_rows m') (held_rows (map decoded rs) @ held_rows others)" using apart by (simp add: hr m')
    have "length (rp_req_to_token (km_rows m') j) = length (?rows j)" for j
    proof (cases "j \<in> set ?idx")
      case True
      then obtain i where "i < length rs" "?idx ! i = j" by (auto simp: in_set_conv_nth)
      then show ?thesis using rowi by (metis length_list_update)
    qed (simp add: rows decode_rows_old)
    then show "row_lengths (km_rows m')" using D(8) by (simp add: row_lengths_def m')
    show "unmoved m m' others" by (rule um)
    fix i assume i: "i < length rs" and kp: "T' (the (rq_last_node (rs ! i))) = T (the (rq_last_node (rs ! i)))"
    have ri: "request_ok m T (rs ! i)" "decoding m (rs ! i)" using D(6) dec i by simp_all
    have l: "length (new ! i) = new_pages ?ps (rq_kv_allocated_len (rs ! i)) (rq_kv_allocated_len (rs ! i) + 1)" using new(3) i by simp
    have v: "paged_row ?ps (pages_of ?ps (row_slots m (rs ! i))) (rq_kv_allocated_len (rs ! i)) @ [out ! i] =
        paged_row ?ps (pages_of ?ps (row_slots m (rs ! i)) @ new ! i) (rq_kv_allocated_len (rs ! i) + 1)" using new(4) i by simp
    show "request_ok m' T' (map decoded rs ! i) \<and> own_of m' (map decoded rs ! i) = own_of m (rs ! i) @ new ! i"
      using decoded_ok [where T = T and T' = T', OF ri R(1) [OF i] ps cfg kp l R(2) [OF i] rowi [OF i] v] i by simp
  qed simp
qed

lemma decode_keeps:
  assumes at: "memory_at m T (rs @ others) P" and dec: "\<forall>r \<in> set rs. decoding m r" and raw: "length raw = length rs"
  shows "if int (new_tokens_required_next_decode (rc_page_size (km_cache m)) rs) \<le> int (available_size (km_allocator m)) + rc_evictable_size (km_cache m)
    then \<exists>out m' T'. alloc_for_decode raw tie rs (map rq_kv_allocated_len rs) m = Some (Inr (out, map decoded rs, m')) \<and>
      memory_at m' T' (map decoded rs @ others) P \<and> unmoved m m' others
    else alloc_for_decode raw tie rs (map rq_kv_allocated_len rs) m = Some (Inl (RuntimeError ''Decode out of memory''))"
proof -
  let ?s = "km_cache m" and ?ps = "rc_page_size (km_cache m)" and ?rows = "rp_req_to_token (km_rows m)"
  let ?seq = "map (\<lambda>r. Suc (rq_kv_allocated_len r)) rs" and ?pages = "\<lambda>i. pages_of ?ps (row_slots m (rs ! i))"
  let ?last = "map2 (\<lambda>r n. ?rows (the (rq_req_pool_idx r)) ! (n - 1)) rs (map rq_kv_allocated_len rs)"
  note D = memory_atD [OF at] and R = decoding_rows [OF at dec]
  have on: "\<forall>i < length ?seq. row_on ?ps (?pages i) (?seq ! i - 1) (?last ! i)"
  proof (intro allI impI)
    fix i assume "i < length ?seq"
    then have i: "i < length rs" by simp
    have e: "?seq ! i - 1 = rq_kv_allocated_len (rs ! i)" "?last ! i = ?rows (the (rq_req_pool_idx (rs ! i))) ! (rq_kv_allocated_len (rs ! i) - 1)"
      using i by simp_all
    show "row_on ?ps (?pages i) (?seq ! i - 1) (?last ! i)" unfolding e by (rule R(3) [OF i])
  qed
  have sp: "\<forall>n \<in> set ?seq. 0 < n" "length raw = length ?seq" using raw by simp_all
  have need: "get_num_new_pages_decode ?ps ?seq * ?ps = new_tokens_required_next_decode ?ps rs"
    by (rule decode_need [OF D(1)]) (use dec in \<open>simp add: decoding_def\<close>)
  have call: "alloc_for_decode raw tie rs (map rq_kv_allocated_len rs) m =
      and_then (alloc_paged_token_slots_decode raw tie ?seq ?last ?s (km_allocator m))
        (\<lambda>(out, s', al'). Some (Inr (out, map decoded rs, \<lparr>km_cache = s', km_allocator = al',
           km_rows = (km_rows m)\<lparr>rp_req_to_token := decode_rows rs (map rq_kv_allocated_len rs) out ?rows\<rparr>\<rparr>)))"
    using D(1) by (simp add: alloc_for_decode_def Let_def decoded_def [abs_def] comp_def)
  obtain k s' T' where spec: "shrunk k ?s T s' T'"
    "if int (get_num_new_pages_decode ?ps ?seq * ?ps) \<le> int (available_size (km_allocator m)) + rc_evictable_size ?s
     then \<exists>out al' new. alloc_paged_token_slots_decode raw tie ?seq ?last ?s (km_allocator m) = Some (Inr (out, s', al')) \<and>
       length new = length ?seq \<and> length out = length ?seq \<and> (\<forall>i < length ?seq. length (new ! i) = new_pages ?ps (?seq ! i - 1) (?seq ! i)) \<and>
       (\<forall>i < length ?seq. paged_row ?ps (?pages i) (?seq ! i - 1) @ [out ! i] = paged_row ?ps (?pages i @ new ! i) (?seq ! i)) \<and>
       page_ledger ?ps (cached ?ps T') al' (concat (map (own_of m) (rs @ others)) @ concat new) P
     else alloc_paged_token_slots_decode raw tie ?seq ?last ?s (km_allocator m) = Some (Inl (RuntimeError ''Decode out of memory''))"
    using alloc_decode_spec [OF D(4,5,2,7,1) sp on, of tie] by blast
  show ?thesis
  proof (cases "int (new_tokens_required_next_decode ?ps rs) \<le> int (available_size (km_allocator m)) + rc_evictable_size ?s")
    case False
    then show ?thesis using spec(2) call unfolding need by simp
  next
    case True
    then obtain out al' new where new: "alloc_paged_token_slots_decode raw tie ?seq ?last ?s (km_allocator m) = Some (Inr (out, s', al'))"
      "length new = length ?seq" "length out = length ?seq" "\<forall>i < length ?seq. length (new ! i) = new_pages ?ps (?seq ! i - 1) (?seq ! i)"
      "\<forall>i < length ?seq. paged_row ?ps (?pages i) (?seq ! i - 1) @ [out ! i] = paged_row ?ps (?pages i @ new ! i) (?seq ! i)"
      "page_ledger ?ps (cached ?ps T') al' (concat (map (own_of m) (rs @ others)) @ concat new) P" using spec(2) unfolding need by auto
    have l: "length new = length rs" "length out = length rs" using new(2,3) by simp_all
    have np: "\<forall>i < length rs. length (new ! i) = new_pages ?ps (rq_kv_allocated_len (rs ! i)) (rq_kv_allocated_len (rs ! i) + 1)" using new(4) by simp
    have v: "\<forall>i < length rs. paged_row ?ps (?pages i) (rq_kv_allocated_len (rs ! i)) @ [out ! i] = paged_row ?ps (?pages i @ new ! i) (rq_kv_allocated_len (rs ! i) + 1)"
      using new(5) by simp
    show ?thesis using True call new(1) decode_written [OF at dec spec(1) l np v new(6) refl] by auto
  qed
qed

end
