(* ===== verification/MemoryRetract.thy ===== *)
theory MemoryRetract
  imports MemoryBatches
begin

text \<open>
  Retraction: \<^verbatim>\<open>retract_decode\<close> of \<^verbatim>\<open>managers/schedule_batch.py\<close> gives requests of the decode batch back to
  the queue until the next step fits.  The lemmas show that it never raises, that the memory stays in order,
  and that the step it makes room for then succeeds.
\<close>

section \<open>The loop\<close>

text \<open>
  \<open>reqs\<close> are the batch's requests, changed in place; \<open>retracted\<close> collects those given back.  Beam groups
  and the host backup of disaggregated decoding are left out.
\<close>

function retract_loop ::
  "bool \<Rightarrow> bool \<Rightarrow> nat \<Rightarrow> (nat \<Rightarrow> nat) \<Rightarrow> bool \<Rightarrow> nat list \<Rightarrow> request list \<Rightarrow> request list \<Rightarrow> kv_memory
   \<Rightarrow> (nat list \<times> request list \<times> request list \<times> kv_memory) result option" where
  "retract_loop overallocates strips retract_steps tie first_iter sorted_indices reqs retracted m =
     and_then (if first_iter then Some (Inr (False, m)) else check_decode_mem tie (map ((!) reqs) sorted_indices) m) (\<lambda>(fits_now, m1).
       if fits_now \<or> length sorted_indices = 1 then Some (Inr (sorted_indices, reqs, retracted, m1))
       else if sorted_indices = [] then Some (Inl (IndexError ''pop from empty list''))
       else
         let idx = last sorted_indices; remaining = butlast sorted_indices
         in and_then (release_req overallocates strips retract_steps tie (reqs ! idx) (length remaining) m1) (\<lambda>(rq', m2).
              retract_loop overallocates strips retract_steps tie False remaining (reqs[idx := rq']) (retracted @ [rq']) m2))"
  by pat_completeness auto

termination by (relation "measure (\<lambda>(ov, strips, steps, tie, f, idxs, reqs, rs, m). length idxs)") auto

declare retract_loop.simps [simp del]

definition filter_batch :: "nat list \<Rightarrow> request list \<Rightarrow> request list" where
  "filter_batch keep_indices reqs =
     (if length keep_indices = 0 then [] else if length keep_indices = length reqs then reqs else map ((!) reqs) keep_indices)"

text \<open>The requests that stay, those given back to the queue, and those aborted.\<close>

definition retract_decode ::
  "bool \<Rightarrow> bool \<Rightarrow> nat \<Rightarrow> (nat \<Rightarrow> nat) \<Rightarrow> bool \<Rightarrow> bool \<Rightarrow> request list \<Rightarrow> kv_memory
   \<Rightarrow> (request list \<times> request list \<times> request list \<times> kv_memory) result option" where
  "retract_decode overallocates strips retract_steps tie by_priority low_values_first reqs m =
     and_then (retract_loop overallocates strips retract_steps tie True (get_decode_retraction_order by_priority low_values_first reqs) reqs [] m)
       (\<lambda>(sorted_indices, reqs', retracted, m1).
          if length sorted_indices \<le> 1 then
            and_then (check_decode_mem tie (map ((!) reqs') sorted_indices) m1) (\<lambda>(fits_now, m2).
              if fits_now then Some (Inr (filter_batch sorted_indices reqs', retracted, [], m2))
              else if sorted_indices = [] then Some (Inl (IndexError ''pop from empty list''))
              else let last_idx = last sorted_indices
                in and_then (release_req overallocates strips retract_steps tie (reqs' ! last_idx) 0 m2) (\<lambda>(rq', m3).
                     Some (Inr (filter_batch (butlast sorted_indices) (reqs'[last_idx := rq']), retracted, [rq'], m3))))
          else Some (Inr (filter_batch sorted_indices reqs', retracted, [], m1)))"

section \<open>The order\<close>

lemma sort_reverse_perm: "mset (sort_reverse key xs) = mset xs"
  by (simp add: sort_reverse_def)

lemma retraction_order_perm: "mset (get_decode_retraction_order p l reqs) = mset [0..<length reqs]"
  by (simp add: get_decode_retraction_order_def sort_reverse_perm)

lemma retraction_order_set:
  "set (get_decode_retraction_order p l reqs) = {0..<length reqs}" "distinct (get_decode_retraction_order p l reqs)"
  "length (get_decode_retraction_order p l reqs) = length reqs"
  using mset_eq_setD [OF retraction_order_perm [of p l reqs]] mset_eq_imp_distinct_iff [OF retraction_order_perm [of p l reqs]]
    mset_eq_length [OF retraction_order_perm [of p l reqs]] by simp_all

lemma requests_in_order: "mset (map ((!) reqs) (get_decode_retraction_order p l reqs)) = mset reqs"
  by (metis map_nth mset_map retraction_order_perm)

section \<open>Evictions and the memory\<close>

lemma evicted_memory:
  assumes at: "memory_at m T reqs P"
  shows "\<exists>s' T' al'. evict_from_tree_cache paged_free_segment available_size tie num (km_cache m) (km_allocator m) = Some (Inr (s', al')) \<and>
    memory_at (m\<lparr>km_cache := s', km_allocator := al'\<rparr>) T' reqs P \<and> unmoved m (m\<lparr>km_cache := s', km_allocator := al'\<rparr>) reqs \<and>
    int (available_size al') + rc_evictable_size s' = int (available_size (km_allocator m)) + rc_evictable_size (km_cache m)"
proof -
  note D = memory_atD [OF at]
  obtain k s' T' al' where e: "evict_from_tree_cache paged_free_segment available_size tie num (km_cache m) (km_allocator m) = Some (Inr (s', al'))"
    "shrunk k (km_cache m) T s' T'"
    "page_ledger (rc_page_size (km_cache m)) (cached (rc_page_size (km_cache m)) T') al' (concat (map (own_of m) reqs)) P"
    "available_size al' = available_size (km_allocator m) + k"
    using evict_from_keeps [OF D(4,5,2,7)] by blast
  have sub: "T' \<subseteq>\<^sub>m T" "tree_ok s' T'" "same_config (km_cache m) s'" "books s' T' (locked_nodes reqs)"
    "rc_evictable_size s' = rc_evictable_size (km_cache m) - int k" using e(2) D(5) by (simp_all add: shrunk_def)
  let ?m' = "m\<lparr>km_cache := s', km_allocator := al'\<rparr>"
  have keep: "\<forall>n \<in> set (locked_nodes reqs). T' n = T n" by (rule shrunk_keeps [OF sub(1,4) subset_refl])
  have "memory_at ?m' T' ([] @ reqs) P"
    by (rule memory_frame [of m T "[]"]) (use at D(3,8) sub keep e(3) in \<open>simp_all add: locked_nodes_def\<close>)
  moreover have "unmoved m ?m' reqs" using sub(3) by (simp add: unmoved_def)
  ultimately show ?thesis using e(1,4) sub(5) by (intro exI [of _ s'] exI [of _ T'] exI [of _ al']) simp
qed

lemma memory_page_size: "memory_at m T reqs P \<Longrightarrow> al_page_size (km_allocator m) = rc_page_size (km_cache m)"
  using memory_atD(7) by (auto simp: page_ledger_def paged_ready_def)

lemma check_decode_mem_keeps:
  assumes at: "memory_at m T reqs P"
  shows "\<exists>b m' T'. check_decode_mem tie rs m = Some (Inr (b, m')) \<and>
    (b \<longleftrightarrow> new_tokens_required_next_decode (rc_page_size (km_cache m)) rs \<le> available_size (km_allocator m')) \<and>
    memory_at m' T' reqs P \<and> unmoved m m' reqs"
proof -
  obtain s' T' al' where e: "evict_from_tree_cache paged_free_segment available_size tie
      (new_tokens_required_next_decode (rc_page_size (km_cache m)) rs) (km_cache m) (km_allocator m) = Some (Inr (s', al'))"
    "memory_at (m\<lparr>km_cache := s', km_allocator := al'\<rparr>) T' reqs P" "unmoved m (m\<lparr>km_cache := s', km_allocator := al'\<rparr>) reqs"
    using evicted_memory [OF at] by blast
  then show ?thesis
    by (intro exI [of _ "new_tokens_required_next_decode (rc_page_size (km_cache m)) rs \<le> available_size al'"]
        exI [of _ "m\<lparr>km_cache := s', km_allocator := al'\<rparr>"] exI [of _ T'])
      (simp add: check_decode_mem_def check_decode_capacity_def memory_page_size [OF at])
qed

lemma release_req_keeps:
  assumes at: "memory_at m T (rq # others) P" and kv: "holds_kv rq" "rq_kv_committed_len rq = rq_kv_allocated_len rq"
  shows "\<exists>rq' m' T'. release_req overallocates False steps tie rq n m = Some (Inr (rq', m')) \<and> waiting rq' \<and>
    request_tokens rq' = retry_tokens rq \<and> memory_at m' T' others P \<and> unmoved m m' others"
proof -
  obtain i where i: "rq_req_pool_idx rq = Some i" using kv(1) by (auto simp: holds_kv_def)
  have c: "effective_kv_committed_len False rq = rq_kv_allocated_len rq" using kv(2) by (simp add: effective_kv_committed_len_def)
  have "rq_cache_protected_len rq \<le> key_len (request_key (km_cache m) rq (take (rq_kv_committed_len rq) (request_tokens rq)))"
    using memory_atD(6) [OF at, of rq] i by (simp add: request_ok_def row_ok_def)
  then have p: "rq_cache_protected_len rq \<le> key_len (request_key (km_cache m) rq (take (effective_kv_committed_len False rq) (request_tokens rq)))"
    using c kv(2) by simp
  let ?rq = "mark_kv_released (rq\<lparr>rq_req_pool_idx := None\<rparr>)"
  obtain m1 T1 where r: "release_kv_cache overallocates False False rq m = Some (Inr (?rq, m1))" "memory_at m1 T1 others P" "unmoved m m1 others"
    using release_keeps [OF at i disjI2 [OF c] p] by blast
  obtain s' T' al' where e: "evict_from_tree_cache paged_free_segment available_size tie (n * steps) (km_cache m1) (km_allocator m1) = Some (Inr (s', al'))"
    "memory_at (m1\<lparr>km_cache := s', km_allocator := al'\<rparr>) T' others P" "unmoved m1 (m1\<lparr>km_cache := s', km_allocator := al'\<rparr>) others"
    using evicted_memory [OF r(2)] by blast
  show ?thesis using r(1) e unmoved_trans [OF r(3) e(3)]
    by (simp add: release_req_def reset_for_retract_def holds_kv_def mark_kv_released_def waiting_def request_tokens_def retry_tokens_def Let_def) blast
qed


section \<open>The loop makes room\<close>

lemma retract_step:
  "retract_loop ov strips steps tie f (idxs @ [i]) reqs acc m =
     and_then (if f then Some (Inr (False, m)) else check_decode_mem tie (map ((!) reqs) (idxs @ [i])) m) (\<lambda>(fits_now, m1).
       if fits_now \<or> idxs = [] then Some (Inr (idxs @ [i], reqs, acc, m1))
       else and_then (release_req ov strips steps tie (reqs ! i) (length idxs) m1) (\<lambda>(rq', m2).
              retract_loop ov strips steps tie False idxs (reqs[i := rq']) (acc @ [rq']) m2))"
  by (subst retract_loop.simps) (rule arg_cong [of _ _ "and_then _"], auto simp: Let_def)

lemma set_held_rows: "set (held_rows rs) = {i. \<exists>r \<in> set rs. rq_req_pool_idx r = Some i}"
  by (induction rs) (auto split: option.splits)

lemma unmoved_sub: "unmoved m m' rs \<Longrightarrow> set rs' \<subseteq> set rs \<Longrightarrow> unmoved m m' rs'"
  unfolding unmoved_def set_held_rows by blast

lemma decoding_unmoved: "unmoved m m' rs \<Longrightarrow> decoding m r \<Longrightarrow> decoding m' r"
  by (simp add: decoding_def unmoved_def)

text \<open>What the loop leaves: the first \<open>k\<close> requests of the order stay, the others wait again, and the step fits.\<close>

definition retracted_to ::
  "kv_memory \<Rightarrow> request list \<Rightarrow> nat list \<Rightarrow> request list \<Rightarrow> int set \<Rightarrow> nat \<Rightarrow> request list \<Rightarrow> request list \<Rightarrow> kv_memory \<Rightarrow> bool" where
  "retracted_to m reqs idxs others P k reqs' new m' \<longleftrightarrow>
     0 < k \<and> k \<le> length idxs \<and> length reqs' = length reqs \<and> (\<forall>i. i \<notin> set (drop k idxs) \<longrightarrow> reqs' ! i = reqs ! i) \<and>
     map request_tokens new = map (\<lambda>i. retry_tokens (reqs ! i)) (rev (drop k idxs)) \<and> (\<forall>r \<in> set new. waiting r) \<and>
     memory_ok m' (map ((!) reqs) (take k idxs) @ others) P \<and> unmoved m m' (map ((!) reqs) (take k idxs) @ others) \<and>
     (k = 1 \<or> new_tokens_required_next_decode (rc_page_size (km_cache m)) (map ((!) reqs) (take k idxs)) \<le> available_size (km_allocator m'))"

lemma retract_loop_keeps:
  assumes "memory_at m T (map ((!) reqs) idxs @ others) P" "\<forall>i \<in> set idxs. i < length reqs \<and> decoding m (reqs ! i)" "distinct idxs" "idxs \<noteq> []"
  shows "\<exists>k reqs' new m'. retract_loop ov False steps tie f idxs reqs acc m = Some (Inr (take k idxs, reqs', acc @ new, m')) \<and>
    (f \<longrightarrow> k < length idxs \<or> length idxs = 1) \<and> retracted_to m reqs idxs others P k reqs' new m'"
  using assms
proof (induction idxs arbitrary: f reqs acc m T rule: rev_induct)
  case (snoc i idxs)
  let ?all = "map ((!) reqs) (idxs @ [i])" and ?ps = "rc_page_size (km_cache m)"
  obtain b m1 T1 where c: "(if f then Some (Inr (False, m)) else check_decode_mem tie ?all m) = Some (Inr (b, m1))"
    "b \<longrightarrow> new_tokens_required_next_decode ?ps ?all \<le> available_size (km_allocator m1)" "memory_at m1 T1 (?all @ others) P" "unmoved m m1 (?all @ others)" "f \<longrightarrow> \<not> b"
  proof (cases f)
    case True
    have "unmoved m m (?all @ others)" by (simp add: unmoved_def same_config_def)
    then show ?thesis using that [of False m T] True snoc.prems(1) by simp
  next
    case False
    then show ?thesis using that check_decode_mem_keeps [OF snoc.prems(1), of tie ?all] by auto
  qed
  show ?case
  proof (cases "b \<or> idxs = []")
    case True
    then have r: "retract_loop ov False steps tie f (idxs @ [i]) reqs acc m = Some (Inr (take (length (idxs @ [i])) (idxs @ [i]), reqs, acc @ [], m1))"
      unfolding retract_step c(1) by simp
    have res: "retracted_to m reqs (idxs @ [i]) others P (length (idxs @ [i])) reqs [] m1"
      using True c(2-4) by (auto simp: retracted_to_def memory_ok_def)
    show ?thesis
      by (rule exI [of _ "length (idxs @ [i])"], rule exI [of _ reqs], rule exI [of _ "[]"], rule exI [of _ m1]) (use r res c(5) True in auto)
  next
    case False
    then have b: "\<not> b" "idxs \<noteq> []" by simp_all
    have d: "holds_kv (reqs ! i)" "rq_kv_committed_len (reqs ! i) = rq_kv_allocated_len (reqs ! i)" using snoc.prems(2) by (simp_all add: decoding_def)
    have "mset (?all @ others) = mset (reqs ! i # map ((!) reqs) idxs @ others)" by simp
    from memory_at_perm [OF this c(3)] have at: "memory_at m1 T1 (reqs ! i # map ((!) reqs) idxs @ others) P" .
    obtain rq' m2 T2 where r: "release_req ov False steps tie (reqs ! i) (length idxs) m1 = Some (Inr (rq', m2))" "waiting rq'"
      "request_tokens rq' = retry_tokens (reqs ! i)"
      "memory_at m2 T2 (map ((!) reqs) idxs @ others) P" "unmoved m1 m2 (map ((!) reqs) idxs @ others)"
      using release_req_keeps [OF at d, of ov steps tie "length idxs"] by blast
    have i: "i \<notin> set idxs" "distinct idxs" "i < length reqs" using snoc.prems(2,3) by simp_all
    let ?reqs = "reqs[i := rq']"
    have same: "map ((!) ?reqs) js = map ((!) reqs) js" if "i \<notin> set js" for js using that by (induction js) auto
    have um: "unmoved m m2 (map ((!) reqs) idxs @ others)" by (rule unmoved_trans [OF unmoved_sub [OF c(4)] r(5)]) auto
    have mem: "memory_at m2 T2 (map ((!) ?reqs) idxs @ others) P" unfolding same [OF i(1)] by (rule r(4))
    have dec: "\<forall>j \<in> set idxs. j < length ?reqs \<and> decoding m2 (?reqs ! j)"
      using snoc.prems(2) decoding_unmoved [OF um] i(1) by (auto simp: nth_list_update)
    obtain k reqs' new m' where l: "retract_loop ov False steps tie False idxs ?reqs (acc @ [rq']) m2 = Some (Inr (take k idxs, reqs', (acc @ [rq']) @ new, m'))"
      "retracted_to m2 ?reqs idxs others P k reqs' new m'"
      using snoc.IH [OF mem dec i(2) b(2), of False "acc @ [rq']"] by blast
    note R = l(2) [unfolded retracted_to_def]
    have tk: "map ((!) ?reqs) (take k idxs) = map ((!) reqs) (take k idxs)" by (rule same) (use i(1) in \<open>auto dest: in_set_takeD\<close>)
    have sub: "unmoved m m2 (map ((!) reqs) (take k idxs) @ others)"
      by (rule unmoved_sub [OF um]) (auto dest: in_set_takeD)
    have ps: "rc_page_size (km_cache m2) = ?ps" using um by (simp add: unmoved_def same_config_def)
    have dk: "drop k (idxs @ [i]) = drop k idxs @ [i]" "take k (idxs @ [i]) = take k idxs" using R by simp_all
    have tks: "map request_tokens (rq' # new) = map (\<lambda>i. retry_tokens (reqs ! i)) (rev (drop k (idxs @ [i])))"
    proof -
      have "map (\<lambda>j. retry_tokens (?reqs ! j)) (rev (drop k idxs)) = map (\<lambda>j. retry_tokens (reqs ! j)) (rev (drop k idxs))"
        using i(1) by (intro map_cong) (auto, metis in_set_dropD nth_list_update_neq)
      then show ?thesis using R r(3) dk(1) by simp
    qed
    have oth: "\<forall>j. j \<notin> set (drop k (idxs @ [i])) \<longrightarrow> reqs' ! j = reqs ! j" using R dk(1) by (auto simp: nth_list_update_neq)
    have res: "retract_loop ov False steps tie f (idxs @ [i]) reqs acc m = Some (Inr (take k (idxs @ [i]), reqs', acc @ rq' # new, m'))"
      unfolding retract_step c(1) dk(2) using b r(1) l(1) by simp
    have "unmoved m m' (map ((!) reqs) (take k idxs) @ others)" using R unmoved_trans [OF sub] unfolding tk by blast
    then have to: "retracted_to m reqs (idxs @ [i]) others P k reqs' (rq' # new) m'"
      using R tks oth r(2) unfolding retracted_to_def dk(2) tk ps by simp
    have lt: "k < length (idxs @ [i])" using R by simp
    show ?thesis
      by (rule exI [of _ k], rule exI [of _ reqs'], rule exI [of _ "rq' # new"], rule exI [of _ m']) (use res to lt in simp)
  qed
qed simp


section \<open>Retraction\<close>

lemma filter_kept:
  assumes "distinct idxs" "set idxs = {0..<length reqs}" "0 < k" "k \<le> length idxs" "k < length idxs \<or> length idxs = 1"
    "length reqs' = length reqs" "\<forall>i. i \<notin> set (drop k idxs) \<longrightarrow> reqs' ! i = reqs ! i"
  shows "filter_batch (take k idxs) reqs' = map ((!) reqs) (take k idxs)" "map ((!) reqs') (take k idxs) = map ((!) reqs) (take k idxs)"
proof -
  have l: "length idxs = length reqs" using distinct_card [OF assms(1)] assms(2) by simp
  have "set (take k idxs) \<inter> set (drop k idxs) = {}" using set_take_disj_set_drop_if_distinct [OF assms(1), of k k] by simp
  then show m: "map ((!) reqs') (take k idxs) = map ((!) reqs) (take k idxs)" using assms(7) by auto
  show "filter_batch (take k idxs) reqs' = map ((!) reqs) (take k idxs)"
  proof (cases "k < length idxs")
    case True
    then show ?thesis using m assms(3,6) l by (auto simp: filter_batch_def)
  next
    case False
    then have one: "length idxs = 1" "k = 1" using assms(3-5) by simp_all
    then obtain i x where i: "idxs = [i]" "reqs' = [x]" using assms(6) l by (metis One_nat_def length_0_conv length_Suc_conv)
    then have "idxs = [0]" using assms(2) one l by auto
    then show ?thesis using m one i assms(6) by (auto simp: filter_batch_def)
  qed
qed

text \<open>
  What \<^verbatim>\<open>retract_decode\<close> leaves: the first \<open>k\<close> requests of the order stay, the others wait again or are
  aborted, nothing is lost of the tokens they start from, and the next step fits into free slots.
\<close>

definition made_room ::
  "kv_memory \<Rightarrow> request list \<Rightarrow> nat list \<Rightarrow> request list \<Rightarrow> int set \<Rightarrow> nat \<Rightarrow> request list \<Rightarrow> request list \<Rightarrow> kv_memory \<Rightarrow> bool" where
  "made_room m reqs order others P k retracted aborted m' \<longleftrightarrow>
     k + length retracted + length aborted = length reqs \<and> (k < length reqs \<or> length reqs = 1) \<and>
     length aborted \<le> 1 \<and> (aborted \<noteq> [] \<longrightarrow> k = 0) \<and> (\<forall>r \<in> set (retracted @ aborted). waiting r) \<and>
     map request_tokens (retracted @ aborted) = map (\<lambda>i. retry_tokens (reqs ! i)) (rev (drop k order)) \<and>
     memory_ok m' (map ((!) reqs) (take k order) @ others) P \<and> unmoved m m' (map ((!) reqs) (take k order) @ others) \<and>
     new_tokens_required_next_decode (rc_page_size (km_cache m)) (map ((!) reqs) (take k order)) \<le> available_size (km_allocator m')"

lemma abort_last:
  assumes to: "retracted_to m reqs idxs others P 1 reqs' new m1" and set: "\<forall>i \<in> set idxs. i < length reqs \<and> decoding m (reqs ! i)"
    and l: "length idxs = length reqs" and kept: "map ((!) reqs') (take 1 idxs) = map ((!) reqs) (take 1 idxs)"
  shows "\<exists>b m2. check_decode_mem tie (map ((!) reqs') (take 1 idxs)) m1 = Some (Inr (b, m2)) \<and>
    (b \<longrightarrow> made_room m reqs idxs others P 1 new [] m2) \<and>
    (\<not> b \<longrightarrow> (\<exists>rq' m3. release_req ov False steps tie (reqs' ! last (take 1 idxs)) 0 m2 = Some (Inr (rq', m3)) \<and>
       made_room m reqs idxs others P 0 new [rq'] m3))"
proof -
  note R = to [unfolded retracted_to_def]
  obtain i idxs' where i: "idxs = i # idxs'" using R by (cases idxs) auto
  have one: "map ((!) reqs) (take 1 idxs) = [reqs ! i]" "reqs' ! i = reqs ! i" "last (take 1 idxs) = i" using kept by (simp_all add: i)
  obtain T1 where at: "memory_at m1 T1 (reqs ! i # others) P" using R unfolding one memory_ok_def by auto
  have um: "unmoved m m1 (reqs ! i # others)" using R unfolding one by simp
  obtain b m2 T2 where c: "check_decode_mem tie [reqs ! i] m1 = Some (Inr (b, m2))"
    "b \<longleftrightarrow> new_tokens_required_next_decode (rc_page_size (km_cache m1)) [reqs ! i] \<le> available_size (km_allocator m2)"
    "memory_at m2 T2 (reqs ! i # others) P" "unmoved m1 m2 (reqs ! i # others)"
    using check_decode_mem_keeps [OF at, of tie "[reqs ! i]"] by blast
  have ps: "rc_page_size (km_cache m1) = rc_page_size (km_cache m)" using um by (simp add: unmoved_def same_config_def)
  have um2: "unmoved m m2 (reqs ! i # others)" by (rule unmoved_trans [OF um c(4)])
  have n: "length new = length idxs'" using R unfolding i by (metis length_drop length_map length_rev diff_Suc_1 length_Cons)
  have tk: "map request_tokens new = map (\<lambda>i. retry_tokens (reqs ! i)) (rev idxs')" using R by (simp add: i)
  have kv: "holds_kv (reqs ! i)" "rq_kv_committed_len (reqs ! i) = rq_kv_allocated_len (reqs ! i)" using set by (simp_all add: i decoding_def)
  obtain rq' m3 T3 where r: "release_req ov False steps tie (reqs ! i) 0 m2 = Some (Inr (rq', m3))" "waiting rq'"
    "request_tokens rq' = retry_tokens (reqs ! i)" "memory_at m3 T3 others P" "unmoved m2 m3 others"
    using release_req_keeps [OF c(3) kv, of ov steps tie 0] by blast
  have um3: "unmoved m m3 others" by (rule unmoved_trans [OF unmoved_sub [OF um2] r(5)]) auto
  have "made_room m reqs idxs others P 1 new [] m2" if b
    using that c(2,3) R n l tk um2 unfolding made_room_def one ps by (auto simp: i memory_ok_def)
  moreover have "made_room m reqs idxs others P 0 new [rq'] m3"
    using R n l tk r(2-4) um3 by (auto simp: made_room_def i memory_ok_def new_tokens_required_next_decode_def)
  ultimately show ?thesis using c(1) r(1) kept unfolding one by auto
qed

lemma retract_keeps:
  assumes at: "memory_at m T (reqs @ others) P" and dec: "\<forall>r \<in> set reqs. decoding m r" and ne: "reqs \<noteq> []"
  shows "\<exists>k retracted aborted m'. retract_decode ov False steps tie by_priority low reqs m =
      Some (Inr (map ((!) reqs) (take k (get_decode_retraction_order by_priority low reqs)), retracted, aborted, m')) \<and>
    made_room m reqs (get_decode_retraction_order by_priority low reqs) others P k retracted aborted m'"
proof -
  define idxs where "idxs = get_decode_retraction_order by_priority low reqs"
  note order = retraction_order_set [of by_priority low reqs, folded idxs_def]
  have "mset (reqs @ others) = mset (map ((!) reqs) idxs @ others)" using requests_in_order [of reqs by_priority low] by (simp add: idxs_def)
  from memory_at_perm [OF this at] have at': "memory_at m T (map ((!) reqs) idxs @ others) P" .
  have d: "\<forall>i \<in> set idxs. i < length reqs \<and> decoding m (reqs ! i)" using order(1) dec by simp
  have ni: "idxs \<noteq> []" using order(3) ne by auto
  obtain k reqs' new m1 where l: "retract_loop ov False steps tie True idxs reqs [] m = Some (Inr (take k idxs, reqs', [] @ new, m1))"
    "True \<longrightarrow> k < length idxs \<or> length idxs = 1" "retracted_to m reqs idxs others P k reqs' new m1"
    using retract_loop_keeps [OF at' d order(2) ni, of ov steps tie True "[]"] by blast
  note R = l(3) [unfolded retracted_to_def]
  have k: "k < length idxs \<or> length idxs = 1" using l(2) by simp
  have kept: "filter_batch (take k idxs) reqs' = map ((!) reqs) (take k idxs)" "map ((!) reqs') (take k idxs) = map ((!) reqs) (take k idxs)"
    using filter_kept [OF order(2,1) _ _ k, of reqs'] R by blast+
  have len: "length (take k idxs) = k" using R by simp
  have call: "retract_decode ov False steps tie by_priority low reqs m =
      (if k \<le> 1 then and_then (check_decode_mem tie (map ((!) reqs') (take k idxs)) m1) (\<lambda>(fits_now, m2).
          if fits_now then Some (Inr (filter_batch (take k idxs) reqs', new, [], m2))
          else if take k idxs = [] then Some (Inl (IndexError ''pop from empty list''))
          else and_then (release_req ov False steps tie (reqs' ! last (take k idxs)) 0 m2) (\<lambda>(rq', m3).
             Some (Inr (filter_batch (butlast (take k idxs)) (reqs'[last (take k idxs) := rq']), new, [rq'], m3))))
       else Some (Inr (filter_batch (take k idxs) reqs', new, [], m1)))"
    unfolding retract_decode_def idxs_def [symmetric] l(1) and_then_simps prod.case len append_Nil Let_def by (rule refl)
  show ?thesis
  proof (cases "k = 1")
    case False
    have "length new = length idxs - k" using R by (metis length_drop length_map length_rev)
    then have "made_room m reqs idxs others P k new [] m1" using R order(3) k False by (auto simp: made_room_def)
    moreover have "\<not> k \<le> 1" using False R by linarith
    ultimately show ?thesis unfolding idxs_def [symmetric] call kept(1) by auto
  next
    case True
    obtain b m2 where c: "check_decode_mem tie (map ((!) reqs') (take 1 idxs)) m1 = Some (Inr (b, m2))"
      "b \<longrightarrow> made_room m reqs idxs others P 1 new [] m2"
      "\<not> b \<longrightarrow> (\<exists>rq' m3. release_req ov False steps tie (reqs' ! last (take 1 idxs)) 0 m2 = Some (Inr (rq', m3)) \<and>
         made_room m reqs idxs others P 0 new [rq'] m3)"
      using abort_last [OF l(3) [unfolded True] d order(3) kept(2) [unfolded True], of tie ov steps] by blast
    have t1: "take 1 idxs \<noteq> []" "filter_batch (butlast (take 1 idxs)) x = []" for x using ni by (simp_all add: take_Suc filter_batch_def)
    show ?thesis
    proof (cases b)
      case b: True
      then show ?thesis using c(1,2) unfolding idxs_def [symmetric] call kept(1) unfolding True by auto
    next
      case b: False
      then obtain rq' m3 where "release_req ov False steps tie (reqs' ! last (take 1 idxs)) 0 m2 = Some (Inr (rq', m3))"
        "made_room m reqs idxs others P 0 new [rq'] m3" using c(3) by blast
      then have "retract_decode ov False steps tie by_priority low reqs m = Some (Inr (map ((!) reqs) (take 0 idxs), new, [rq'], m3))"
        unfolding call unfolding True using c(1) b t1 by simp
      then show ?thesis using \<open>made_room m reqs idxs others P 0 new [rq'] m3\<close> unfolding idxs_def [symmetric] by blast
    qed
  qed
qed

end
