(* ===== verification/MemoryChecks.thy ===== *)
theory MemoryChecks
  imports MemoryRetract
begin

text \<open>
  The engine's own memory checks, \<^verbatim>\<open>managers/scheduler_components/invariant_checker.py\<close>, for the plain pool:
  the count of all slots, the search for freed pages that are still in use or freed twice, and the count of
  the rows.  The lemmas show that a memory in order passes all of them.
\<close>

section \<open>The checks\<close>

text \<open>\<^verbatim>\<open>_get_token_info\<close>: what the statistics report as available and as evictable.\<close>

definition get_token_info :: "kv_memory \<Rightarrow> int \<times> int" where
  "get_token_info m = (int (available_size (km_allocator m)), rc_evictable_size (km_cache m))"

text \<open>\<^verbatim>\<open>_check_pool_invariant\<close>: whether the slots accounted for are not all slots.\<close>

definition check_pool_invariant :: "int \<Rightarrow> int \<Rightarrow> int \<Rightarrow> int \<Rightarrow> int \<Rightarrow> int \<Rightarrow> bool" where
  "check_pool_invariant available evictable protected session_held total_slots uncached =
     (let total_accounted = available + evictable + protected + session_held + uncached in total_accounted \<noteq> total_slots)"

definition check_full_pool :: "int \<Rightarrow> int \<Rightarrow> int \<times> int \<Rightarrow> int \<Rightarrow> kv_memory \<Rightarrow> bool" where
  "check_full_pool session_held max_total_num_tokens stats uncached m =
     check_pool_invariant (fst stats) (snd stats) (rc_protected_size (km_cache m)) session_held max_total_num_tokens uncached"

text \<open>\<^verbatim>\<open>_get_total_uncached_sizes\<close>, for the full pool.\<close>

fun uncached_sizes :: "nat \<Rightarrow> request list \<Rightarrow> int result" where
  "uncached_sizes page_size [] = Inr 0"
| "uncached_sizes page_size (r # rs) =
     (if \<not> holds_kv r then uncached_sizes page_size rs
      else if page_size > 1 \<and> rq_cache_protected_len r mod page_size \<noteq> 0 then Inl (AssertionError '''')
      else
        let allocated_len = (if page_size > 1 then (rq_kv_allocated_len r + page_size - 1) div page_size * page_size else rq_kv_allocated_len r)
        in case uncached_sizes page_size rs of
             Inl e \<Rightarrow> Inl e
           | Inr n \<Rightarrow> Inr (int allocated_len - int (rq_cache_protected_len r) + n))"

text \<open>\<open>other\<close> is the running batch, when it is not the last batch itself.\<close>

definition get_total_uncached_sizes :: "nat \<Rightarrow> request list \<Rightarrow> request list option \<Rightarrow> int result" where
  "get_total_uncached_sizes page_size last_batch other =
     uncached_sizes page_size (last_batch @ (case other of None \<Rightarrow> [] | Some rs \<Rightarrow> rs))"

text \<open>\<^verbatim>\<open>raise_error_or_warn\<close> counts the warnings it gives.\<close>

definition raise_error_or_warn :: "bool \<Rightarrow> string \<Rightarrow> nat \<Rightarrow> nat result" where
  "raise_error_or_warn strict message warnings = (if strict then Inl (ValueError message) else Inr (warnings + 1))"

definition check_kv_page_invariants :: "bool \<Rightarrow> nat \<Rightarrow> request list \<Rightarrow> kv_memory \<Rightarrow> nat \<Rightarrow> nat result" where
  "check_kv_page_invariants strict page_size last_batch m warnings =
     (let rows = rp_req_to_token (km_rows m); row_width = rp_max_context_len (km_rows m);
          owners = filter holds_kv last_batch
      in if list_ex (\<lambda>r. \<not> (rq_kv_committed_len r \<le> rq_kv_allocated_len r \<and> rq_kv_allocated_len r \<le> row_width)) owners
         then Inl (AssertionError '''')
         else
           let active = filter (\<lambda>r. rq_kv_allocated_len r > 0) owners;
               owner_pages = concat (map (\<lambda>r. map (\<lambda>v. v div int page_size) (take (rq_kv_allocated_len r) (rows (the (rq_req_pool_idx r))))) active);
               free = al_free_pages (km_allocator m) @ al_release_pages (km_allocator m);
               stale = filter (\<lambda>p. p \<in> set free) owner_pages
           in if active = [] then Inr warnings
              else case (if length (remdups free) \<noteq> length free then raise_error_or_warn strict ''KV double free'' warnings else Inr warnings) of
                     Inl e \<Rightarrow> Inl e
                   | Inr w \<Rightarrow> if stale \<noteq> [] then raise_error_or_warn strict ''KV page use-after-free'' w else Inr w)"

definition check_req_pool :: "bool \<Rightarrow> nat \<Rightarrow> kv_memory \<Rightarrow> nat \<Rightarrow> nat result" where
  "check_req_pool strict session_req_count m warnings =
     (if length (rp_free_slots (km_rows m)) + session_req_count \<noteq> rp_size (km_rows m)
      then raise_error_or_warn strict ''req_to_token_pool memory leak detected!'' warnings else Inr warnings)"

text \<open>\<open>pages\<close> is \<^verbatim>\<open>SGLANG_CHECK_KV_PAGE_INVARIANTS\<close>, \<open>total\<close> the number of slots; no sessions.\<close>

definition self_check_during_busy ::
  "bool \<Rightarrow> bool \<Rightarrow> int \<Rightarrow> nat \<Rightarrow> request list \<Rightarrow> request list option \<Rightarrow> kv_memory \<Rightarrow> nat \<Rightarrow> nat result" where
  "self_check_during_busy pages strict max_total_num_tokens page_size last_batch other m warnings =
     (case get_total_uncached_sizes page_size last_batch other of
        Inl e \<Rightarrow> Inl e
      | Inr full_uncached \<Rightarrow>
          if check_full_pool 0 max_total_num_tokens (get_token_info m) full_uncached m then Inl (AssertionError ''Full Pool Mem Leak Detected!'')
          else if pages then check_kv_page_invariants strict page_size last_batch m warnings else Inr warnings)"

text \<open>\<^verbatim>\<open>_check_all_pools\<close> when idle.\<close>

definition check_all_pools :: "int \<Rightarrow> kv_memory \<Rightarrow> bool" where
  "check_all_pools max_total_num_tokens m = check_full_pool 0 max_total_num_tokens (get_token_info m) 0 m"

section \<open>What the checks count\<close>

lemma protected_aligned:
  assumes ok: "tree_ok (km_cache m) T" and R: "request_ok m T r"
  shows "rc_page_size (km_cache m) dvd rq_cache_protected_len r"
    "v \<in> set (take (rq_cache_protected_len r) (row_slots m r)) \<Longrightarrow>
     v div int (rc_page_size (km_cache m)) \<in> cached_pages (rc_page_size (km_cache m)) (cached (rc_page_size (km_cache m)) T)"
proof -
  let ?ps = "rc_page_size (km_cache m)" and ?p = "rq_cache_protected_len r" and ?k = "request_key (km_cache m) r (request_tokens r)"
  obtain n ns where n: "?p \<le> key_len ?k" "T n = Some (ns, take ?p (units ?k), take ?p (row_slots m r))"
    using R by (auto simp: request_ok_def serves_def node_at_def)
  have "length (take ?p (units ?k)) = ?p" using n(1) by (simp add: min_absorb2)
  then show d: "?ps dvd ?p" using path_shape [OF ok n(2)] by simp
  then have "cached ?ps T ns (take ?p (units ?k)) (take ?p (row_slots m r))"
    using n path_shape [OF ok n(2)] unfolding cached_def by (metis order_refl take_all)
  then show "v \<in> set (take ?p (row_slots m r)) \<Longrightarrow> v div int ?ps \<in> cached_pages ?ps (cached ?ps T)" by (rule cached_pagesI)
qed

lemma own_pages_counted:
  assumes ok: "tree_ok (km_cache m) T" and ps: "1 < rc_page_size (km_cache m)" and R: "\<forall>r \<in> set rs. request_ok m T r"
  shows "uncached_sizes (rc_page_size (km_cache m)) rs = Inr (int (length (concat (map (own_of m) rs)) * rc_page_size (km_cache m)))"
  using R
proof (induction rs)
  case (Cons r rs)
  let ?ps = "rc_page_size (km_cache m)" and ?p = "rq_cache_protected_len r" and ?n = "rq_kv_allocated_len r"
  have R: "request_ok m T r" using Cons.prems by simp
  have d: "?ps dvd ?p" by (rule protected_aligned [OF ok R])
  have IH: "uncached_sizes ?ps rs = Inr (int (length (concat (map (own_of m) rs)) * ?ps))" using Cons by simp
  show ?case
  proof (cases "rq_req_pool_idx r")
    case None
    then have "length (row_slots m r) = ?p" using R by (simp add: request_ok_def row_ok_def row_slots_def)
    moreover have "(?p + ?ps - 1) div ?ps = ?p div ?ps" using ceil_exact [of ?ps "?p div ?ps"] d ps by simp
    ultimately have "own_of m r = []" using ps by (simp add: own_of_def length_pages_of)
    then show ?thesis using None IH by (simp add: holds_kv_def)
  next
    case (Some i)
    have l: "length (row_slots m r) = ?n" using R Some by (simp add: request_ok_def row_ok_def row_slots_def)
    have o: "length (own_of m r) = (?n + ?ps - 1) div ?ps - ?p div ?ps" using ps l by (simp add: own_of_def length_pages_of)
    have "?p \<le> ?n" using protected_le [OF R] l by simp
    then have le: "?p div ?ps \<le> (?n + ?ps - 1) div ?ps" using ps by (intro div_le_mono) simp
    have "?p div ?ps * ?ps = ?p" using d by simp
    then have "length (own_of m r) * ?ps + ?p = (?n + ?ps - 1) div ?ps * ?ps"
      unfolding o using le by (metis add_mult_distrib le_add_diff_inverse2)
    then have "int (length (own_of m r) * ?ps) = int ((?n + ?ps - 1) div ?ps * ?ps) - int ?p" by linarith
    then show ?thesis using IH Some ps d by (simp add: holds_kv_def Let_def dvd_eq_mod_eq_0 distrib_right)
  qed
qed simp

text \<open>Every page a request refers to is cached or its own.\<close>

lemma referred_pages:
  assumes ok: "tree_ok (km_cache m) T" and ps: "1 < rc_page_size (km_cache m)" and R: "request_ok m T r" and v: "v \<in> set (row_slots m r)"
  shows "v div int (rc_page_size (km_cache m)) \<in>
    cached_pages (rc_page_size (km_cache m)) (cached (rc_page_size (km_cache m)) T) \<union> set (own_of m r)"
proof -
  let ?ps = "rc_page_size (km_cache m)" and ?kv = "row_slots m r" and ?p = "rq_cache_protected_len r"
  obtain j where j: "j < length ?kv" "v = ?kv ! j" using v by (auto simp: in_set_conv_nth)
  show ?thesis
  proof (cases "j < ?p")
    case True
    then have "v \<in> set (take ?p ?kv)" using j by (auto simp: in_set_conv_nth intro!: exI [of _ j])
    then show ?thesis using protected_aligned(2) [OF ok R] by blast
  next
    case False
    have row: "?kv = paged_row ?ps (pages_of ?ps ?kv) (length ?kv)" using R by (simp add: request_ok_def)
    have "v div int ?ps = pages_of ?ps ?kv ! (j div ?ps)" using j paged_row_div [of ?ps j "length ?kv"] ps row by (metis gr_implies_not0 gr0I)
    moreover have lt: "j div ?ps < length (pages_of ?ps ?kv)"
    proof -
      have "j + ?ps \<le> length ?kv + ?ps - 1" using j(1) by linarith
      then have "(j + ?ps) div ?ps \<le> (length ?kv + ?ps - 1) div ?ps" by (rule div_le_mono)
      moreover have "(j + ?ps) div ?ps = j div ?ps + 1" using ps by (intro div_add_self2) simp
      ultimately show ?thesis using ps by (simp add: length_pages_of)
    qed
    moreover have "?p div ?ps \<le> j div ?ps" using False by (intro div_le_mono) simp
    ultimately have "v div int ?ps \<in> set (own_of m r)"
      unfolding own_of_def by (auto simp: in_set_conv_nth intro!: exI [of _ "j div ?ps - ?p div ?ps"])
    then show ?thesis by simp
  qed
qed

lemma no_stale_pages:
  assumes at: "memory_at m T reqs P"
  shows "distinct (al_free_pages (km_allocator m) @ al_release_pages (km_allocator m))"
    "r \<in> set reqs \<Longrightarrow> v \<in> set (row_slots m r) \<Longrightarrow>
     v div int (rc_page_size (km_cache m)) \<notin> set (al_free_pages (km_allocator m) @ al_release_pages (km_allocator m))"
proof -
  let ?ps = "rc_page_size (km_cache m)" and ?free = "al_free_pages (km_allocator m) @ al_release_pages (km_allocator m)"
  note D = memory_atD [OF at]
  have a: "apart (mset (concat (map (own_of m) reqs)) + mset ?free) (cached_pages ?ps (cached ?ps T)) P"
    using D(7) by (simp add: page_ledger_def idle_def ac_simps)
  show "distinct ?free" by (rule apart_distinct(1) [OF a])
  show "v div int ?ps \<notin> set ?free" if "r \<in> set reqs" "v \<in> set (row_slots m r)"
    using referred_pages [OF D(4,1) D(6) [OF that(1)] that(2)] apart_distinct(2,3) [OF a] that(1) by auto
qed

section \<open>A memory in order passes\<close>

lemma page_check_passes:
  assumes at: "memory_at m T reqs P" and sub: "set batch \<subseteq> set reqs"
  shows "check_kv_page_invariants strict (rc_page_size (km_cache m)) batch m w = Inr w"
proof -
  let ?free = "al_free_pages (km_allocator m) @ al_release_pages (km_allocator m)"
  note D = memory_atD [OF at]
  have R: "request_ok m T r" if "r \<in> set batch" for r using D(6) sub that by blast
  have own: "rq_kv_committed_len r \<le> rq_kv_allocated_len r \<and> rq_kv_allocated_len r \<le> rp_max_context_len (km_rows m) \<and>
      take (rq_kv_allocated_len r) (rp_req_to_token (km_rows m) (the (rq_req_pool_idx r))) = row_slots m r" if r: "r \<in> set batch" "holds_kv r" for r
  proof -
    obtain i where i: "rq_req_pool_idx r = Some i" using r(2) by (auto simp: holds_kv_def)
    have "i \<in> set (held_rows reqs)" using i r(1) sub by (auto simp: set_held_rows)
    then have "length (rp_req_to_token (km_rows m) i) = rp_max_context_len (km_rows m)" using D(3,8) by (auto simp: rows_apart_def row_lengths_def)
    then show ?thesis using R [OF r(1)] i by (simp add: request_ok_def row_ok_def row_slots_def)
  qed
  have "\<not> list_ex (\<lambda>r. \<not> (rq_kv_committed_len r \<le> rq_kv_allocated_len r \<and> rq_kv_allocated_len r \<le> rp_max_context_len (km_rows m))) (filter holds_kv batch)"
    using own by (auto simp: list_ex_iff)
  moreover have "filter (\<lambda>p. p \<in> set ?free)
      (concat (map (\<lambda>r. map (\<lambda>v. v div int (rc_page_size (km_cache m))) (take (rq_kv_allocated_len r) (rp_req_to_token (km_rows m) (the (rq_req_pool_idx r)))))
        (filter (\<lambda>r. rq_kv_allocated_len r > 0) (filter holds_kv batch)))) = []"
    using own no_stale_pages(2) [OF at] sub by (fastforce simp: filter_empty_conv)
  moreover have "length (remdups ?free) = length ?free" using no_stale_pages(1) [OF at] by (simp only: distinct_remdups_id)
  ultimately show ?thesis unfolding check_kv_page_invariants_def Let_def by simp
qed

lemma busy_check_passes:
  assumes at: "memory_at m T reqs P" and batches: "mset reqs = mset (last_batch @ (case other of None \<Rightarrow> [] | Some rs \<Rightarrow> rs))"
    and slots: "n = int (card P * rc_page_size (km_cache m))"
  shows "self_check_during_busy pages strict n (rc_page_size (km_cache m)) last_batch other m w = Inr w"
proof -
  let ?all = "last_batch @ (case other of None \<Rightarrow> [] | Some rs \<Rightarrow> rs)" and ?ps = "rc_page_size (km_cache m)"
  have at': "memory_at m T ?all P" by (rule memory_at_perm [OF batches at])
  note D = memory_atD [OF at']
  have u: "get_total_uncached_sizes ?ps last_batch other = Inr (int (length (concat (map (own_of m) ?all)) * ?ps))"
    unfolding get_total_uncached_sizes_def by (rule own_pages_counted [OF D(4,1)]) (use D(6) in blast)
  have "check_full_pool 0 n (get_token_info m) (int (length (concat (map (own_of m) ?all)) * ?ps)) m = False"
    using ledger_total [OF D(4,5,7)] slots by (simp add: check_full_pool_def check_pool_invariant_def get_token_info_def)
  moreover have "check_kv_page_invariants strict ?ps last_batch m w = Inr w" by (rule page_check_passes [OF at']) simp
  ultimately show ?thesis unfolding self_check_during_busy_def u by simp
qed

lemma idle_check_passes:
  assumes at: "memory_at m T [] P" and slots: "n = int (card P * rc_page_size (km_cache m))"
  shows "\<not> check_all_pools n m" "check_req_pool strict 0 m w = Inr w"
proof -
  note D = memory_atD [OF at]
  show "\<not> check_all_pools n m"
    using ledger_total [OF D(4,5,7)] slots by (simp add: check_all_pools_def check_full_pool_def check_pool_invariant_def get_token_info_def)
  have "distinct (rp_free_slots (km_rows m))" "set (rp_free_slots (km_rows m)) = {1..rp_size (km_rows m)}" using D(3) by (simp_all add: rows_apart_def)
  then have "length (rp_free_slots (km_rows m)) = rp_size (km_rows m)" by (metis card_atLeastAtMost diff_Suc_1 distinct_card)
  then show "check_req_pool strict 0 m w = Inr w" by (simp add: check_req_pool_def)
qed

end
