(* ===== verification/MemoryReach.thy ===== *)
theory MemoryReach
  imports MemoryChecks
begin

text \<open>
  The requests' way through the KV memory as a step relation: a request is matched and admitted, extended
  in a batch, cached as it stands, decodes, and is released or retracted, in any order the scheduler
  chooses.  Whatever happens, the memory stays in order, and the engine's own checks stay silent.
\<close>

section \<open>The states\<close>

text \<open>
  The requests by what comes next: \<open>ks_ready\<close> are matched and locked (or a chunk of theirs is cached) and wait
  for their extension, \<open>ks_filled\<close> have just been extended, \<open>ks_running\<close> decode.
\<close>

record kv_state =
  ks_memory :: kv_memory
  ks_ready :: "request list"
  ks_filled :: "request list"
  ks_running :: "request list"

definition all_requests :: "kv_state \<Rightarrow> request list" where
  "all_requests S = ks_ready S @ ks_filled S @ ks_running S"

definition start_memory :: "nat \<Rightarrow> nat \<Rightarrow> bool \<Rightarrow> nat \<Rightarrow> nat \<Rightarrow> bool \<Rightarrow> bool \<Rightarrow> eviction_policy \<Rightarrow> (nat \<Rightarrow> int) \<Rightarrow> kv_memory" where
  "start_memory num_slots page_size need_sort num_rows max_context_len is_eagle disable_finished_insert policy time =
     \<lparr>km_cache = cache_init False page_size is_eagle disable_finished_insert policy time,
      km_allocator = paged_init num_slots page_size need_sort, km_rows = row_pool_init num_rows max_context_len\<rparr>"

section \<open>The steps\<close>

text \<open>A range that the scheduler may give: beyond what is there, within the tokens and the row.\<close>

definition range_ok :: "kv_memory \<Rightarrow> nat \<Rightarrow> request \<Rightarrow> bool" where
  "range_ok m end_pos rq \<longleftrightarrow> length (rq_prefix_indices rq) < end_pos \<and> end_pos \<le> length (request_tokens rq) \<and> end_pos \<le> rp_max_context_len (km_rows m)"

text \<open>The result of a forward pass: one more output token.\<close>

definition emitted :: "int \<Rightarrow> request \<Rightarrow> request" where
  "emitted t rq = rq\<lparr>rq_output_ids := rq_output_ids rq @ [t]\<rparr>"

text \<open>
  \<open>ov\<close>: requests may hold more slots than are committed.  A step is a call that returned; which request it is
  for, the ranges, and what \<^verbatim>\<open>torch.empty\<close> leaves are the step's own.
\<close>

inductive kv_step :: "bool \<Rightarrow> kv_state \<Rightarrow> kv_state \<Rightarrow> bool" for ov :: bool where
  admit: "waiting rq \<Longrightarrow> init_next_round_input fm lp rq m = Some (Inr (rq', m1)) \<Longrightarrow> req_inc_lock_ref rq' m1 = Some (Inr m2) \<Longrightarrow>
    kv_step ov \<lparr>ks_memory = m, ks_ready = R, ks_filled = F, ks_running = D\<rparr> \<lparr>ks_memory = m2, ks_ready = rq' # R, ks_filled = F, ks_running = D\<rparr>"
| extend: "mset R = mset (rs @ R') \<Longrightarrow> list_all2 (range_ok m) ends rs \<Longrightarrow> rs1 = map2 set_extend_range ends rs \<Longrightarrow>
    length raw = slots_to_come rs1 \<Longrightarrow> alloc_for_extend raw tie rs1 m = Some (Inr (out, rs', m')) \<Longrightarrow>
    kv_step ov \<lparr>ks_memory = m, ks_ready = R, ks_filled = F, ks_running = D\<rparr> \<lparr>ks_memory = m', ks_ready = R', ks_filled = rs' @ F, ks_running = D\<rparr>"
| emit_filled: "mset F = mset (rq # F') \<Longrightarrow>
    kv_step ov \<lparr>ks_memory = m, ks_ready = R, ks_filled = F, ks_running = D\<rparr>
      \<lparr>ks_memory = m, ks_ready = R, ks_filled = emitted t rq # F', ks_running = D\<rparr>"
| emit_running: "mset D = mset (rq # D') \<Longrightarrow>
    kv_step ov \<lparr>ks_memory = m, ks_ready = R, ks_filled = F, ks_running = D\<rparr>
      \<lparr>ks_memory = m, ks_ready = R, ks_filled = F, ks_running = emitted t rq # D'\<rparr>"
| cache: "mset F = mset (rq # F') \<Longrightarrow>
    cache_unfinished_req paged_free_segment rq False (rp_req_to_token (km_rows m)) (km_cache m) (km_allocator m) = Some (Inr (rq', rows', s', al')) \<Longrightarrow>
    kv_step ov \<lparr>ks_memory = m, ks_ready = R, ks_filled = F, ks_running = D\<rparr>
      \<lparr>ks_memory = with_cache s' al' rows' m, ks_ready = R, ks_filled = F', ks_running = rq' # D\<rparr>"
| stash: "mset F = mset (rq # F') \<Longrightarrow>
    cache_unfinished_req paged_free_segment rq True (rp_req_to_token (km_rows m)) (km_cache m) (km_allocator m) = Some (Inr (rq', rows', s', al')) \<Longrightarrow>
    kv_step ov \<lparr>ks_memory = m, ks_ready = R, ks_filled = F, ks_running = D\<rparr>
      \<lparr>ks_memory = with_cache s' al' rows' m, ks_ready = rq' # R, ks_filled = F', ks_running = D\<rparr>"
| decode: "mset D = mset (rs @ D') \<Longrightarrow> \<forall>r \<in> set rs. rq_kv_allocated_len r < rp_max_context_len (km_rows m) \<and> rq_kv_allocated_len r < length (request_tokens r) \<Longrightarrow>
    length raw = length rs \<Longrightarrow> alloc_for_decode raw tie rs (map rq_kv_allocated_len rs) m = Some (Inr (out, rs', m')) \<Longrightarrow>
    kv_step ov \<lparr>ks_memory = m, ks_ready = R, ks_filled = F, ks_running = D\<rparr> \<lparr>ks_memory = m', ks_ready = R, ks_filled = F, ks_running = rs' @ D'\<rparr>"
| check: "check_decode_mem tie rs m = Some (Inr (b, m')) \<Longrightarrow>
    kv_step ov \<lparr>ks_memory = m, ks_ready = R, ks_filled = F, ks_running = D\<rparr> \<lparr>ks_memory = m', ks_ready = R, ks_filled = F, ks_running = D\<rparr>"
| release: "mset (R @ F @ D) = mset (rq # R' @ F' @ D') \<Longrightarrow> set R' \<subseteq> set R \<Longrightarrow> set F' \<subseteq> set F \<Longrightarrow> set D' \<subseteq> set D \<Longrightarrow> holds_kv rq \<Longrightarrow>
    release_kv_cache ov False is_insert rq m = Some (Inr (rq', m')) \<Longrightarrow>
    kv_step ov \<lparr>ks_memory = m, ks_ready = R, ks_filled = F, ks_running = D\<rparr> \<lparr>ks_memory = m', ks_ready = R', ks_filled = F', ks_running = D'\<rparr>"
| retract: "mset D = mset (rs @ D') \<Longrightarrow> rs \<noteq> [] \<Longrightarrow>
    \<forall>r \<in> set rs. rq_kv_allocated_len r < rp_max_context_len (km_rows m) \<and> rq_kv_allocated_len r < length (request_tokens r) \<Longrightarrow>
    retract_decode ov False steps tie by_priority low rs m = Some (Inr (rs', retracted, aborted, m')) \<Longrightarrow>
    kv_step ov \<lparr>ks_memory = m, ks_ready = R, ks_filled = F, ks_running = D\<rparr> \<lparr>ks_memory = m', ks_ready = R, ks_filled = F, ks_running = rs' @ D'\<rparr>"

inductive kv_reach :: "bool \<Rightarrow> kv_memory \<Rightarrow> kv_state \<Rightarrow> bool" for ov m0 where
  start: "kv_reach ov m0 \<lparr>ks_memory = m0, ks_ready = [], ks_filled = [], ks_running = []\<rparr>"
| move: "kv_reach ov m0 S \<Longrightarrow> kv_step ov S S' \<Longrightarrow> kv_reach ov m0 S'"

section \<open>The start\<close>

lemma no_contents_ledger:
  "exact_contents ps no_contents" "page_unique ps no_contents" "cached_pages ps no_contents = {}"
  by (auto simp: exact_contents_def page_unique_def cached_pages_def no_contents_def page_exact_def paged_row_def intro: exI [of _ "[]"])

lemma start_memory_ok:
  assumes "1 < ps"
  shows "memory_ok (start_memory n ps ns rows ctx e f p t) [] {1..int (n div ps)}"
    "rc_page_size (km_cache (start_memory n ps ns rows ctx e f p t)) = ps"
    "\<exists>T. memory_at (start_memory n ps ns rows ctx e f p t) T [] {1..int (n div ps)} \<and> cached ps T = no_contents"
proof -
  let ?s = "cache_init False ps e f p t" and ?al = "paged_init n ps ns"
  have c: "rc_page_size ?s = ps" "\<not> rc_disable ?s"
    by (simp_all add: cache_init_def reset_def new_tree_node_def monotonic_def upd_node_def Let_def)
  obtain T where T: "tree_ok ?s T" "books ?s T []" "cached ps T = no_contents"
    using cache_init_represents [of ps False e f p t] assms c(1) by (auto simp: represents_def)
  have al: "paged_ready ps ?al" "idle ?al = mset (map int [1..<n div ps + 1])"
    using assms by (simp_all add: paged_ready_def paged_init_def paged_clear_def idle_def)
  have "\<forall>x. count (mset (map int [1..<n div ps + 1])) x \<le> 1" unfolding count_distinct by (simp add: distinct_map)
  moreover have "set (map int [1..<n div ps + 1]) = {1..int (n div ps)}"
    unfolding set_map set_upt image_int_atLeastLessThan by auto
  ultimately have "page_ledger ps (cached ps T) ?al [] {1..int (n div ps)}"
    unfolding page_ledger_def T(3) apart_def using al no_contents_ledger by simp
  then have at: "memory_at (start_memory n ps ns rows ctx e f p t) T [] {1..int (n div ps)}"
    using assms c T init_rows_apart [of rows ctx]
    by (auto simp: memory_at_def start_memory_def locked_nodes_def row_lengths_def row_pool_init_def)
  show "memory_ok (start_memory n ps ns rows ctx e f p t) [] {1..int (n div ps)}" unfolding memory_ok_def using at by blast
  show "rc_page_size (km_cache (start_memory n ps ns rows ctx e f p t)) = ps" using c(1) by (simp add: start_memory_def)
  show "\<exists>T. memory_at (start_memory n ps ns rows ctx e f p t) T [] {1..int (n div ps)} \<and> cached ps T = no_contents" using at T(3) by blast
qed

section \<open>Changes outside the memory\<close>

text \<open>The request changed, but not what the memory knows of it.\<close>

definition same_memory :: "kv_memory \<Rightarrow> request \<Rightarrow> request \<Rightarrow> bool" where
  "same_memory m r r' \<longleftrightarrow> rq_last_node r' = rq_last_node r \<and> rq_req_pool_idx r' = rq_req_pool_idx r \<and> own_of m r' = own_of m r \<and>
     (\<forall>T. request_ok m T r \<longrightarrow> request_ok m T r')"

lemma memory_same:
  assumes at: "memory_at m T (rs @ others) P" and same: "list_all2 (same_memory m) rs rs'"
  shows "memory_at m T (rs' @ others) P"
proof -
  have "locked_nodes rs' = locked_nodes rs \<and> held_rows rs' = held_rows rs \<and> map (own_of m) rs' = map (own_of m) rs \<and>
      ((\<forall>r \<in> set rs. request_ok m T r) \<longrightarrow> (\<forall>r \<in> set rs'. request_ok m T r))"
    using same by (induction rs rs' rule: list_all2_induct) (auto simp: same_memory_def locked_nodes_def split: option.splits)
  then show ?thesis using at by (simp add: memory_at_def locked_append ball_Un)
qed

lemma range_same: "same_memory m r (set_extend_range e r)"
  by (auto simp: same_memory_def set_extend_range_def own_of_def row_slots_def request_ok_def row_ok_def serves_def request_key_def request_tokens_def
    split: option.splits)

lemma emit_same: "same_memory m r (emitted t r)"
proof -
  let ?r = "emitted t r"
  have tk: "request_tokens ?r = request_tokens r @ [t]" by (simp add: request_tokens_def emitted_def)
  have emitted_f: "rq_last_node ?r = rq_last_node r" "rq_req_pool_idx ?r = rq_req_pool_idx r" "rq_cache_protected_len ?r = rq_cache_protected_len r"
    "rq_swa_evicted_seqlen ?r = rq_swa_evicted_seqlen r" "rq_kv_allocated_len ?r = rq_kv_allocated_len r" "rq_kv_committed_len ?r = rq_kv_committed_len r"
    "rq_prefix_indices ?r = rq_prefix_indices r" by (simp_all add: emitted_def)
  have key: "request_key s ?r ts = request_key s r ts" for s ts by (simp add: request_key_def emitted_def)
  have rs: "row_slots m ?r = row_slots m r" by (simp add: row_slots_def emitted_f split: option.splits)
  have "request_ok m T ?r" if R: "request_ok m T r" for T
  proof -
    let ?n = "length (request_tokens r)"
    have "rq_cache_protected_len r \<le> key_len (request_key (km_cache m) r (take ?n (request_tokens ?r)))"
      using R by (simp add: request_ok_def serves_def tk)
    from serves_take [OF this] have "serves (km_cache m) T r (request_tokens ?r) (row_slots m r)"
      using R by (simp add: request_ok_def tk)
    then have "serves (km_cache m) T ?r (request_tokens ?r) (row_slots m ?r)" by (simp add: serves_def key rs emitted_f)
    moreover have "row_ok m ?r" using R by (auto simp: request_ok_def row_ok_def tk key emitted_f split: option.splits)
    ultimately show ?thesis using R by (simp add: request_ok_def rs emitted_f)
  qed
  then show ?thesis by (simp add: same_memory_def own_of_def rs emitted_f)
qed

section \<open>What every step keeps\<close>

definition ready_ok :: "kv_memory \<Rightarrow> request \<Rightarrow> bool" where
  "ready_ok m r \<longleftrightarrow> rq_prefix_indices r = row_slots m r \<and> (holds_kv r \<longrightarrow> rq_kv_committed_len r = rq_kv_allocated_len r)"

definition running_ok :: "request \<Rightarrow> bool" where
  "running_ok r \<longleftrightarrow> holds_kv r \<and> rq_kv_committed_len r = rq_kv_allocated_len r"

definition kv_inv :: "int set \<Rightarrow> nat \<Rightarrow> kv_state \<Rightarrow> bool" where
  "kv_inv P ps S \<longleftrightarrow> rc_page_size (km_cache (ks_memory S)) = ps \<and> memory_ok (ks_memory S) (all_requests S) P \<and> (\<forall>r \<in> set (ks_ready S). ready_ok (ks_memory S) r) \<and>
     (\<forall>r \<in> set (ks_filled S). filled r) \<and> (\<forall>r \<in> set (ks_running S). running_ok r)"

lemma kv_invI:
  assumes "memory_at m T reqs P" "mset reqs = mset (R @ F @ D)" "\<forall>r \<in> set R. ready_ok m r" "\<forall>r \<in> set F. filled r" "\<forall>r \<in> set D. running_ok r"
    "rc_page_size (km_cache m) = ps"
  shows "kv_inv P ps \<lparr>ks_memory = m, ks_ready = R, ks_filled = F, ks_running = D\<rparr>"
  using assms(3-6) memory_at_perm [OF assms(2,1)] by (auto simp: kv_inv_def memory_ok_def all_requests_def)

lemma unmoved_page_size: "unmoved m m' reqs \<Longrightarrow> rc_page_size (km_cache m') = rc_page_size (km_cache m)"
  by (simp add: unmoved_def same_config_def)

lemma ready_unmoved: "unmoved m m' reqs \<Longrightarrow> set R \<subseteq> set reqs \<Longrightarrow> \<forall>r \<in> set R. ready_ok m r \<Longrightarrow> \<forall>r \<in> set R. ready_ok m' r"
  using unmoved_slots by (fastforce simp: ready_ok_def)


lemma extending_ready:
  assumes at: "memory_at m T reqs P" and r: "r \<in> set reqs" "ready_ok m r" "range_ok m e r"
  shows "extending m (set_extend_range e r)"
proof -
  let ?r = "set_extend_range e r" and ?ps = "rc_page_size (km_cache m)"
  have R: "request_ok m T r" by (rule memory_atD(6) [OF at r(1)])
  have f: "rq_fill_ids ?r = take e (request_tokens r)" "rq_prefix_indices ?r = rq_prefix_indices r" "request_tokens ?r = request_tokens r"
    "row_slots m ?r = row_slots m r" "rq_cache_protected_len ?r = rq_cache_protected_len r"
    by (simp_all add: set_extend_range_def request_tokens_def row_slots_def split: option.splits)
  have e: "length (rq_prefix_indices r) < e" "length (take e (request_tokens r)) = e" "e \<le> rp_max_context_len (km_rows m)"
    using r(3) by (simp_all add: range_ok_def)
  have "rq_cache_protected_len r \<le> length (rq_prefix_indices r)" using protected_le [OF R] r(2) by (simp add: ready_ok_def)
  then have lt: "rq_cache_protected_len r < e" using e(1) by simp
  have d: "?ps dvd rq_cache_protected_len r" by (rule protected_aligned(1) [OF memory_atD(4) [OF at] R])
  have "rq_cache_protected_len r \<le> length (token_units (rc_is_eagle (km_cache m)) (take e (request_tokens r)))"
    using lt e(2) by (auto simp: length_token_units)
  then have "rq_cache_protected_len r div ?ps * ?ps \<le> key_len (request_key (km_cache m) ?r (take e (request_tokens r)))"
    unfolding key_len_request_key by (intro mult_le_mono1 div_le_mono)
  then have "rq_cache_protected_len r \<le> key_len (request_key (km_cache m) ?r (take e (request_tokens r)))" using d by simp
  moreover have "rq_prefix_indices r = row_slots m r" using r(2) by (simp add: ready_ok_def)
  ultimately show ?thesis unfolding extending_def f e(2) using e by auto
qed

lemma filled_extended:
  assumes "extending m r" "with_row r r'"
  shows "filled (extended r')"
proof -
  have "rq_fill_ids r = take (length (rq_fill_ids r)) (request_tokens r)" using assms(1) unfolding extending_def by blast
  then show ?thesis using assms(2) by (auto simp: filled_def extended_def with_row_def holds_kv_def request_tokens_def)
qed

lemma extend_ready:
  assumes inv: "kv_inv P ps \<lparr>ks_memory = m, ks_ready = R, ks_filled = F, ks_running = D\<rparr>" and R: "mset R = mset (rs @ R')"
    and e: "list_all2 (range_ok m) ends rs" "rs1 = map2 set_extend_range ends rs"
  shows "\<exists>T. memory_at m T (rs1 @ R' @ F @ D) P" "\<forall>r \<in> set rs1. extending m r"
proof -
  let ?others = "R' @ F @ D"
  obtain T where "memory_at m T (R @ F @ D) P" using inv by (auto simp: kv_inv_def memory_ok_def all_requests_def)
  moreover have "mset (R @ F @ D) = mset (rs @ ?others)" using R by simp
  ultimately have at: "memory_at m T (rs @ ?others) P" using memory_at_perm by blast
  have sR: "set R = set rs \<union> set R'" using mset_eq_setD [OF R] by simp
  have ready: "\<forall>r \<in> set R. ready_ok m r" using inv by (simp add: kv_inv_def)
  have "list_all2 (same_memory m) rs rs1" unfolding e(2) using e(1)
    by (induction ends rs rule: list_all2_induct) (simp_all add: range_same)
  then show "\<exists>T. memory_at m T (rs1 @ ?others) P" using memory_same [OF at] by blast
  show "\<forall>r \<in> set rs1. extending m r"
  proof
    fix r assume "r \<in> set rs1"
    then obtain i where i: "i < length ends" "i < length rs" "r = set_extend_range (ends ! i) (rs ! i)" by (auto simp: e(2) set_zip)
    then show "extending m r"
      using extending_ready [OF at, of "rs ! i" "ends ! i"] e(1) ready sR by (auto simp: list_all2_conv_all_nth)
  qed
qed

lemma extend_step_keeps:
  assumes inv: "kv_inv P ps \<lparr>ks_memory = m, ks_ready = R, ks_filled = F, ks_running = D\<rparr>" and R: "mset R = mset (rs @ R')"
    and e: "list_all2 (range_ok m) ends rs" "rs1 = map2 set_extend_range ends rs" "length raw = slots_to_come rs1"
    and call: "alloc_for_extend raw tie rs1 m = Some (Inr (out, rs', m'))"
  shows "kv_inv P ps \<lparr>ks_memory = m', ks_ready = R', ks_filled = rs' @ F, ks_running = D\<rparr>"
proof -
  let ?others = "R' @ F @ D"
  obtain T where at1: "memory_at m T (rs1 @ ?others) P" using extend_ready(1) [OF inv R e(1,2)] by blast
  note ex = extend_ready(2) [OF inv R e(1,2)]
  have sR: "set R = set rs \<union> set R'" using mset_eq_setD [OF R] by simp
  have ready: "\<forall>r \<in> set R. ready_ok m r" using inv by (simp add: kv_inv_def)
  obtain out' rs0 m0 T' where x: "alloc_for_extend raw tie rs1 m = Some (Inr (out', map extended rs0, m0))" "list_all2 with_row rs1 rs0"
    "memory_at m0 T' (map extended rs0 @ ?others) P" "unmoved m m0 ?others"
    using extend_keeps [OF at1 ex e(3), of tie] call by (auto split: if_splits)
  have same: "rs' = map extended rs0" "m' = m0" using call x(1) by simp_all
  have "\<forall>r \<in> set rs'. filled r"
  proof
    fix r assume "r \<in> set rs'"
    then obtain i where "i < length rs0" "r = extended (rs0 ! i)" by (auto simp: same in_set_conv_nth)
    then show "filled r" using filled_extended [of m "rs1 ! i" "rs0 ! i"] x(2) ex by (auto simp: list_all2_conv_all_nth)
  qed
  then show ?thesis
    using x(3,4) inv ready_unmoved [OF x(4), of R'] unmoved_page_size [OF x(4)] ready sR same by (intro kv_invI [where reqs = "rs' @ ?others"]) (auto simp: kv_inv_def)
qed

lemma admit_step_keeps:
  assumes inv: "kv_inv P ps \<lparr>ks_memory = m, ks_ready = R, ks_filled = F, ks_running = D\<rparr>" and w: "waiting rq"
    and calls: "init_next_round_input fm lp rq m = Some (Inr (rq', m1))" "req_inc_lock_ref rq' m1 = Some (Inr m2)"
  shows "kv_inv P ps \<lparr>ks_memory = m2, ks_ready = rq' # R, ks_filled = F, ks_running = D\<rparr>"
proof -
  obtain T where at: "memory_at m T (R @ F @ D) P" using inv by (auto simp: kv_inv_def memory_ok_def all_requests_def)
  obtain vs n T2 where a: "rq' = rq\<lparr>rq_prefix_indices := vs, rq_last_node := Some n, rq_cache_protected_len := length vs\<rparr>"
    "memory_at m2 T2 (rq' # R @ F @ D) P" "unmoved m m2 (R @ F @ D)"
    using admit_spec [OF at w, of fm lp] calls by auto
  have "ready_ok m2 rq'" using w by (simp add: a(1) ready_ok_def row_slots_def waiting_def holds_kv_def)
  then show ?thesis using a(2) inv ready_unmoved [OF a(3), of R] unmoved_page_size [OF a(3)]
    by (intro kv_invI [where reqs = "rq' # R @ F @ D"]) (auto simp: kv_inv_def)
qed

lemma unfinished_step_keeps:
  assumes inv: "kv_inv P ps \<lparr>ks_memory = m, ks_ready = R, ks_filled = F, ks_running = D\<rparr>" and F: "mset F = mset (rq # F')"
    and call: "cache_unfinished_req paged_free_segment rq chunked (rp_req_to_token (km_rows m)) (km_cache m) (km_allocator m) = Some (Inr (rq', rows', s', al'))"
  shows "kv_inv P ps \<lparr>ks_memory = with_cache s' al' rows' m, ks_ready = rq' # R, ks_filled = F', ks_running = D\<rparr>"
    "kv_inv P ps \<lparr>ks_memory = with_cache s' al' rows' m, ks_ready = R, ks_filled = F', ks_running = rq' # D\<rparr>"
proof -
  let ?others = "R @ F' @ D" and ?m' = "with_cache s' al' rows' m"
  obtain T where "memory_at m T (R @ F @ D) P" using inv by (auto simp: kv_inv_def memory_ok_def all_requests_def)
  moreover have "mset (R @ F @ D) = mset (rq # ?others)" using F by simp
  ultimately have at: "memory_at m T (rq # ?others) P" using memory_at_perm by blast
  have sF: "set F = insert rq (set F')" using mset_eq_setD [OF F] by simp
  have "filled rq" using inv sF by (simp add: kv_inv_def)
  from unfinished_keeps [OF at this, of chunked] call obtain T' where u: "memory_at ?m' T' (rq' # ?others) P"
    "rq_prefix_indices rq' = row_slots ?m' rq'" "filled rq'" "unmoved m ?m' ?others" by auto
  have r: "ready_ok ?m' rq'" "running_ok rq'" using u(2,3) by (simp_all add: ready_ok_def running_ok_def filled_def)
  show "kv_inv P ps \<lparr>ks_memory = ?m', ks_ready = rq' # R, ks_filled = F', ks_running = D\<rparr>"
    using u(1) r inv ready_unmoved [OF u(4), of R] unmoved_page_size [OF u(4)] sF by (intro kv_invI [where reqs = "rq' # ?others"]) (auto simp: kv_inv_def)
  show "kv_inv P ps \<lparr>ks_memory = ?m', ks_ready = R, ks_filled = F', ks_running = rq' # D\<rparr>"
    using u(1) r inv ready_unmoved [OF u(4), of R] unmoved_page_size [OF u(4)] sF by (intro kv_invI [where reqs = "rq' # ?others"]) (auto simp: kv_inv_def)
qed


lemma decoding_running: "running_ok r \<Longrightarrow> rq_kv_allocated_len r < rp_max_context_len (km_rows m) \<Longrightarrow>
  rq_kv_allocated_len r < length (request_tokens r) \<Longrightarrow> decoding m r"
  by (simp add: decoding_def running_ok_def)

lemma decode_step_keeps:
  assumes inv: "kv_inv P ps \<lparr>ks_memory = m, ks_ready = R, ks_filled = F, ks_running = D\<rparr>" and D: "mset D = mset (rs @ D')"
    and room: "\<forall>r \<in> set rs. rq_kv_allocated_len r < rp_max_context_len (km_rows m) \<and> rq_kv_allocated_len r < length (request_tokens r)"
    and call: "length raw = length rs" "alloc_for_decode raw tie rs (map rq_kv_allocated_len rs) m = Some (Inr (out, rs', m'))"
  shows "kv_inv P ps \<lparr>ks_memory = m', ks_ready = R, ks_filled = F, ks_running = rs' @ D'\<rparr>"
proof -
  let ?others = "R @ F @ D'"
  obtain T where "memory_at m T (R @ F @ D) P" using inv by (auto simp: kv_inv_def memory_ok_def all_requests_def)
  moreover have "mset (R @ F @ D) = mset (rs @ ?others)" using D by simp
  ultimately have at: "memory_at m T (rs @ ?others) P" using memory_at_perm by blast
  have sD: "set D = set rs \<union> set D'" using mset_eq_setD [OF D] by simp
  have dec: "\<forall>r \<in> set rs. decoding m r" using inv room sD by (auto simp: kv_inv_def intro!: decoding_running)
  obtain T' where d: "rs' = map decoded rs" "memory_at m' T' (rs' @ ?others) P" "unmoved m m' ?others"
    using decode_keeps [OF at dec call(1), of tie] call(2) by (auto split: if_splits)
  have "\<forall>r \<in> set rs'. running_ok r" using dec by (auto simp: d(1) running_ok_def decoded_def decoding_def holds_kv_def)
  then show ?thesis using d(2) inv ready_unmoved [OF d(3), of R] unmoved_page_size [OF d(3)] sD by (intro kv_invI [where reqs = "rs' @ ?others"]) (auto simp: kv_inv_def)
qed

lemma check_step_keeps:
  assumes inv: "kv_inv P ps \<lparr>ks_memory = m, ks_ready = R, ks_filled = F, ks_running = D\<rparr>" and call: "check_decode_mem tie rs m = Some (Inr (b, m'))"
  shows "kv_inv P ps \<lparr>ks_memory = m', ks_ready = R, ks_filled = F, ks_running = D\<rparr>"
proof -
  obtain T where at: "memory_at m T (R @ F @ D) P" using inv by (auto simp: kv_inv_def memory_ok_def all_requests_def)
  obtain T' where "memory_at m' T' (R @ F @ D) P" "unmoved m m' (R @ F @ D)" using check_decode_mem_keeps [OF at, of tie rs] call by auto
  then show ?thesis using inv ready_unmoved [of m m' "R @ F @ D" R] unmoved_page_size [of m m' "R @ F @ D"] by (intro kv_invI [where reqs = "R @ F @ D"]) (auto simp: kv_inv_def)
qed

text \<open>Every request that holds a row can be released: nothing is over-allocated.\<close>

lemma holder_committed:
  assumes inv: "kv_inv P ps S" and r: "rq \<in> set (all_requests S)" "holds_kv rq"
  shows "rq_kv_committed_len rq = rq_kv_allocated_len rq"
  using assms by (auto simp: kv_inv_def all_requests_def ready_ok_def filled_def running_ok_def)

lemma release_possible:
  assumes inv: "kv_inv P ps S" and r: "mset (all_requests S) = mset (rq # others)" "holds_kv rq"
  shows "\<exists>m' T'. release_kv_cache ov False is_insert rq (ks_memory S) = Some (Inr (mark_kv_released (rq\<lparr>rq_req_pool_idx := None\<rparr>), m')) \<and>
    memory_at m' T' others P \<and> unmoved (ks_memory S) m' others"
proof -
  obtain T where "memory_at (ks_memory S) T (all_requests S) P" using inv by (auto simp: kv_inv_def memory_ok_def)
  from memory_at_perm [OF r(1) this] have at: "memory_at (ks_memory S) T (rq # others) P" .
  obtain i where i: "rq_req_pool_idx rq = Some i" using r(2) by (auto simp: holds_kv_def)
  have "rq \<in> set (all_requests S)" using mset_eq_setD [OF r(1)] by simp
  then have c: "effective_kv_committed_len False rq = rq_kv_allocated_len rq"
    using holder_committed [OF inv _ r(2)] by (simp add: effective_kv_committed_len_def)
  have "rq_cache_protected_len rq \<le> key_len (request_key (km_cache (ks_memory S)) rq (take (effective_kv_committed_len False rq) (request_tokens rq)))"
    using memory_atD(6) [OF at, of rq] i by (simp add: request_ok_def row_ok_def effective_kv_committed_len_def)
  from release_keeps [OF at i disjI2 [OF c] this] show ?thesis by blast
qed

lemma release_step_keeps:
  assumes inv: "kv_inv P ps \<lparr>ks_memory = m, ks_ready = R, ks_filled = F, ks_running = D\<rparr>" and all: "mset (R @ F @ D) = mset (rq # R' @ F' @ D')"
    and sub: "set R' \<subseteq> set R" "set F' \<subseteq> set F" "set D' \<subseteq> set D" and kv: "holds_kv rq"
    and call: "release_kv_cache ov False is_insert rq m = Some (Inr (rq', m'))"
  shows "kv_inv P ps \<lparr>ks_memory = m', ks_ready = R', ks_filled = F', ks_running = D'\<rparr>"
proof -
  obtain T' where r: "memory_at m' T' (R' @ F' @ D') P" "unmoved m m' (R' @ F' @ D')"
    using release_possible [OF inv _ kv, of "R' @ F' @ D'" ov is_insert] all call by (auto simp: all_requests_def)
  have "\<forall>r \<in> set R'. ready_ok m r" using inv sub(1) by (auto simp: kv_inv_def)
  then have "\<forall>r \<in> set R'. ready_ok m' r" using ready_unmoved [OF r(2), of R'] unmoved_page_size [OF r(2)] by simp
  then show ?thesis using r(1) inv sub unmoved_page_size [OF r(2)] by (intro kv_invI [where reqs = "R' @ F' @ D'"]) (auto simp: kv_inv_def)
qed

lemma retract_step_keeps:
  assumes inv: "kv_inv P ps \<lparr>ks_memory = m, ks_ready = R, ks_filled = F, ks_running = D\<rparr>" and D: "mset D = mset (rs @ D')" "rs \<noteq> []"
    and room: "\<forall>r \<in> set rs. rq_kv_allocated_len r < rp_max_context_len (km_rows m) \<and> rq_kv_allocated_len r < length (request_tokens r)"
    and call: "retract_decode ov False steps tie by_priority low rs m = Some (Inr (rs', retracted, aborted, m'))"
  shows "kv_inv P ps \<lparr>ks_memory = m', ks_ready = R, ks_filled = F, ks_running = rs' @ D'\<rparr>"
proof -
  let ?others = "R @ F @ D'"
  obtain T where "memory_at m T (R @ F @ D) P" using inv by (auto simp: kv_inv_def memory_ok_def all_requests_def)
  moreover have "mset (R @ F @ D) = mset (rs @ ?others)" using D by simp
  ultimately have at: "memory_at m T (rs @ ?others) P" using memory_at_perm by blast
  have sD: "set D = set rs \<union> set D'" using mset_eq_setD [OF D(1)] by simp
  have dec: "\<forall>r \<in> set rs. decoding m r" using inv room sD by (auto simp: kv_inv_def intro!: decoding_running)
  let ?order = "get_decode_retraction_order by_priority low rs"
  obtain k where k: "rs' = map ((!) rs) (take k ?order)" "made_room m rs ?order ?others P k retracted aborted m'"
    using retract_keeps [OF at dec D(2), of ov steps tie by_priority low] call by auto
  obtain T' where r: "memory_at m' T' (rs' @ ?others) P" "unmoved m m' (rs' @ ?others)"
    using k by (auto simp: made_room_def memory_ok_def)
  have "set rs' \<subseteq> set rs" unfolding k(1) using retraction_order_set(1) [of by_priority low rs] by (auto dest!: in_set_takeD)
  then have "\<forall>r \<in> set rs'. running_ok r" using inv sD by (auto simp: kv_inv_def)
  then show ?thesis using r(1) inv ready_unmoved [OF r(2), of R] unmoved_page_size [OF r(2)] sD by (intro kv_invI [where reqs = "rs' @ ?others"]) (auto simp: kv_inv_def)
qed

lemma emit_step_keeps:
  assumes inv: "kv_inv P ps \<lparr>ks_memory = m, ks_ready = R, ks_filled = F, ks_running = D\<rparr>"
  shows "mset F = mset (rq # F') \<Longrightarrow> kv_inv P ps \<lparr>ks_memory = m, ks_ready = R, ks_filled = emitted t rq # F', ks_running = D\<rparr>"
    "mset D = mset (rq # D') \<Longrightarrow> kv_inv P ps \<lparr>ks_memory = m, ks_ready = R, ks_filled = F, ks_running = emitted t rq # D'\<rparr>"
proof -
  obtain T where at: "memory_at m T (R @ F @ D) P" using inv by (auto simp: kv_inv_def memory_ok_def all_requests_def)
  have one: "memory_at m T (emitted t rq # others) P" if "mset (R @ F @ D) = mset (rq # others)" for others
    using memory_same [of m T "[rq]" others P "[emitted t rq]"] memory_at_perm [OF that at] emit_same [of m rq t] by simp
  have pre: "take n (request_tokens (emitted t rq)) = take n (request_tokens rq)" if "n \<le> length (request_tokens rq)" for n
    using that by (simp add: emitted_def request_tokens_def)
  show "kv_inv P ps \<lparr>ks_memory = m, ks_ready = R, ks_filled = emitted t rq # F', ks_running = D\<rparr>" if F: "mset F = mset (rq # F')"
  proof -
    have sF: "set F = insert rq (set F')" using mset_eq_setD [OF F] by simp
    then have f: "filled rq" using inv by (simp add: kv_inv_def)
    have R: "request_ok m T rq" using memory_atD(6) [OF at] sF by simp
    have "rq_kv_allocated_len rq \<le> length (request_tokens rq)"
      using R f by (auto simp: filled_def holds_kv_def request_ok_def row_ok_def)
    then have "filled (emitted t rq)" using f pre [of "rq_kv_allocated_len rq"] by (simp add: filled_def emitted_def holds_kv_def)
    moreover have "memory_at m T (emitted t rq # R @ F' @ D) P" by (rule one) (use F in simp)
    ultimately show ?thesis using inv sF by (intro kv_invI [where reqs = "emitted t rq # R @ F' @ D"]) (auto simp: kv_inv_def)
  qed
  show "kv_inv P ps \<lparr>ks_memory = m, ks_ready = R, ks_filled = F, ks_running = emitted t rq # D'\<rparr>" if D: "mset D = mset (rq # D')"
  proof -
    have sD: "set D = insert rq (set D')" using mset_eq_setD [OF D] by simp
    then have "running_ok (emitted t rq)" using inv by (simp add: kv_inv_def running_ok_def emitted_def holds_kv_def)
    moreover have "memory_at m T (emitted t rq # R @ F @ D') P" by (rule one) (use D in simp)
    ultimately show ?thesis using inv sD by (intro kv_invI [where reqs = "emitted t rq # R @ F @ D'"]) (auto simp: kv_inv_def)
  qed
qed

section \<open>Every reachable state\<close>

lemma step_keeps: "kv_step ov S S' \<Longrightarrow> kv_inv P ps S \<Longrightarrow> kv_inv P ps S'"
proof (induction rule: kv_step.induct)
  case (admit rq lp m rq' m1 m2 R F D)
  then show ?case using admit_step_keeps by blast
next
  case (extend R rs R' m ends rs1 raw tie out rs' m' F D)
  then show ?case using extend_step_keeps by blast
next
  case (emit_filled F rq F' m R D t)
  then show ?case using emit_step_keeps(1) by blast
next
  case (emit_running D rq D' m R F t)
  then show ?case using emit_step_keeps(2) by blast
next
  case (cache F rq F' m rq' rows' s' al' R D)
  then show ?case using unfinished_step_keeps(2) by blast
next
  case (stash F rq F' m rq' rows' s' al' R D)
  then show ?case using unfinished_step_keeps(1) by blast
next
  case (decode D rs D' m raw tie out rs' m' R F)
  then show ?case using decode_step_keeps by blast
next
  case (check tie rs m b m' R F D)
  then show ?case using check_step_keeps by blast
next
  case (release R F D rq R' F' D' is_insert m rq' m')
  then show ?case using release_step_keeps by blast
next
  case (retract D rs D' m steps tie by_priority low rs' retracted aborted m' R F)
  then show ?case using retract_step_keeps by blast
qed

lemma reach_inv: "kv_reach ov m0 S \<Longrightarrow> memory_ok m0 [] P \<Longrightarrow> rc_page_size (km_cache m0) = ps \<Longrightarrow> kv_inv P ps S"
proof (induction rule: kv_reach.induct)
  case start
  then show ?case by (simp add: kv_inv_def all_requests_def)
next
  case (move S S')
  then show ?case using step_keeps by blast
qed

end
