(* ===== verification/MemoryProps.thy ===== *)
theory MemoryProps
  imports MemoryReach
begin

text \<open>
  What holds in every state the requests can bring the KV memory to: the engine's checks stay silent, each
  operation returns unless memory is short in exactly the way its error says, and retraction makes room for
  the next step.  A state with two running requests shows that the statements apply.
\<close>

section \<open>A state with two running requests\<close>

definition demo_memory :: kv_memory where
  "demo_memory = start_memory 8 2 False 4 16 False False LRU (\<lambda>_. 0)"

definition demo_request :: "int list \<Rightarrow> request" where
  "demo_request ts =
     \<lparr>rq_origin_input_ids = ts, rq_output_ids = [], rq_fill_ids = [], rq_extra_key = None, rq_cache_salt = None, rq_priority = None,
      rq_req_pool_idx = None, rq_cache_protected_len = 0, rq_kv_committed_len = 0, rq_kv_allocated_len = 0, rq_swa_evicted_seqlen = 0,
      rq_last_node = None, rq_prefix_indices = [], rq_input_embeds = False, rq_embed_overrides = False\<rparr>"

text \<open>Admission always succeeds.\<close>

lemma admit_possible:
  assumes inv: "kv_inv P ps \<lparr>ks_memory = m, ks_ready = R, ks_filled = F, ks_running = D\<rparr>" and w: "waiting rq"
  shows "\<exists>rq' m2. kv_step ov \<lparr>ks_memory = m, ks_ready = R, ks_filled = F, ks_running = D\<rparr>
      \<lparr>ks_memory = m2, ks_ready = rq' # R, ks_filled = F, ks_running = D\<rparr> \<and>
    request_tokens rq' = request_tokens rq \<and> rq_origin_input_ids rq' = rq_origin_input_ids rq \<and> \<not> holds_kv rq' \<and> km_allocator m2 = km_allocator m \<and> km_rows m2 = km_rows m \<and>
    length (rq_prefix_indices rq') \<le> key_len (request_key (km_cache m2) rq' (request_tokens rq)) \<and> rc_is_eagle (km_cache m2) = rc_is_eagle (km_cache m)"
proof -
  obtain T where at: "memory_at m T (R @ F @ D) P" using inv by (auto simp: kv_inv_def memory_ok_def all_requests_def)
  obtain vs n m1 m2 T2 where a: "init_next_round_input False None rq m =
      Some (Inr (rq\<lparr>rq_prefix_indices := vs, rq_last_node := Some n, rq_cache_protected_len := length vs\<rparr>, m1))"
    "req_inc_lock_ref (rq\<lparr>rq_prefix_indices := vs, rq_last_node := Some n, rq_cache_protected_len := length vs\<rparr>) m1 = Some (Inr m2)"
    "memory_at m2 T2 (rq\<lparr>rq_prefix_indices := vs, rq_last_node := Some n, rq_cache_protected_len := length vs\<rparr> # R @ F @ D) P"
    "unmoved m m2 (R @ F @ D)" "km_allocator m2 = km_allocator m" "km_rows m2 = km_rows m"
    using admit_spec [OF at w, of False None] by blast
  let ?rq = "rq\<lparr>rq_prefix_indices := vs, rq_last_node := Some n, rq_cache_protected_len := length vs\<rparr>"
  have "request_ok m2 T2 ?rq" by (rule memory_atD(6) [OF a(3)]) simp
  then have "length vs \<le> key_len (request_key (km_cache m2) ?rq (request_tokens rq))" by (simp add: request_ok_def serves_def request_tokens_def)
  then show ?thesis using kv_step.admit [OF w a(1,2)] w a(4-6)
    by (intro exI [of _ ?rq] exI [of _ m2]) (simp add: request_tokens_def waiting_def holds_kv_def unmoved_def same_config_def)
qed

lemma unfinished_fields:
  assumes "cache_unfinished_req fs rq chunked rows s pool = Some (Inr (rq', r))"
  shows "request_tokens rq' = request_tokens rq \<and> rq_origin_input_ids rq' = rq_origin_input_ids rq \<and> rq_kv_allocated_len rq' = rq_kv_allocated_len rq"
  using assms by (auto simp: cache_unfinished_req_def and_then_def Let_def request_tokens_def split: if_splits option.splits sum.splits prod.splits)

text \<open>Caching a request that has just been extended always succeeds.\<close>

lemma cache_possible:
  assumes inv: "kv_inv P ps \<lparr>ks_memory = m, ks_ready = R, ks_filled = rq # F, ks_running = D\<rparr>"
  shows "\<exists>rq' m'. kv_step ov \<lparr>ks_memory = m, ks_ready = R, ks_filled = rq # F, ks_running = D\<rparr>
      \<lparr>ks_memory = m', ks_ready = R, ks_filled = F, ks_running = rq' # D\<rparr> \<and>
    request_tokens rq' = request_tokens rq \<and> rq_kv_allocated_len rq' = rq_kv_allocated_len rq \<and>
    rp_max_context_len (km_rows m') = rp_max_context_len (km_rows m)"
proof -
  obtain T where "memory_at m T (R @ (rq # F) @ D) P" using inv by (auto simp: kv_inv_def memory_ok_def all_requests_def)
  moreover have "mset (R @ (rq # F) @ D) = mset (rq # R @ F @ D)" by simp
  ultimately have at: "memory_at m T (rq # R @ F @ D) P" using memory_at_perm by blast
  have f: "filled rq" using inv by (simp add: kv_inv_def)
  obtain rq' rows' s' al' where u: "cache_unfinished_req paged_free_segment rq False (rp_req_to_token (km_rows m)) (km_cache m) (km_allocator m) =
      Some (Inr (rq', rows', s', al'))" using unfinished_keeps [OF at f, of False] by blast
  show ?thesis using kv_step.cache [OF refl u, of ov R F D] unfinished_fields [OF u]
    by (intro exI [of _ rq'] exI [of _ "with_cache s' al' rows' m"]) simp
qed

lemma demo_two:
  "\<exists>m r1 r2. kv_reach False demo_memory \<lparr>ks_memory = m, ks_ready = [r1, r2], ks_filled = [], ks_running = []\<rparr> \<and>
     request_tokens r1 = [5, 6, 7] \<and> request_tokens r2 = [1, 2, 3] \<and> list_all2 (range_ok m) [3, 3] [r1, r2] \<and>
     rows_available (km_rows m) = 4 \<and> available_size (km_allocator m) = 8 \<and> rp_max_context_len (km_rows m) = 16 \<and> \<not> holds_kv r1 \<and> \<not> holds_kv r2"
proof -
  note ok = start_memory_ok [of 2 8 False 4 16 False False LRU "\<lambda>_. 0", folded demo_memory_def]
  have z: "rp_max_context_len (km_rows demo_memory) = 16" "rows_available (km_rows demo_memory) = 4" "available_size (km_allocator demo_memory) = 8"
    "rc_is_eagle (km_cache demo_memory) = False"
    by (simp_all add: demo_memory_def start_memory_def row_pool_init_def rows_available_def paged_init_def paged_clear_def available_size_def
      cache_init_def reset_def new_tree_node_def monotonic_def upd_node_def Let_def)
  have w: "waiting (demo_request ts)" and tk: "request_tokens (demo_request ts) = ts" for ts
    by (simp_all add: waiting_def demo_request_def request_tokens_def)
  note S0 = kv_reach.start [of False demo_memory]
  have i0: "kv_inv {1..int (8 div 2)} 2 \<lparr>ks_memory = demo_memory, ks_ready = [], ks_filled = [], ks_running = []\<rparr>"
    by (rule reach_inv [OF S0]) (use ok in simp_all)
  obtain r2 m1 where a: "kv_step False \<lparr>ks_memory = demo_memory, ks_ready = [], ks_filled = [], ks_running = []\<rparr>
      \<lparr>ks_memory = m1, ks_ready = [r2], ks_filled = [], ks_running = []\<rparr>" "request_tokens r2 = [1, 2, 3]" "\<not> holds_kv r2"
    "km_allocator m1 = km_allocator demo_memory" "km_rows m1 = km_rows demo_memory" "rc_is_eagle (km_cache m1) = False"
    "length (rq_prefix_indices r2) \<le> key_len (request_key (km_cache m1) r2 [1, 2, 3])"
    using admit_possible [OF i0 w, of False "[1, 2, 3]"] z(4) unfolding tk by auto
  note i1 = step_keeps [OF a(1) i0]
  obtain r1 m2 where b: "kv_step False \<lparr>ks_memory = m1, ks_ready = [r2], ks_filled = [], ks_running = []\<rparr>
      \<lparr>ks_memory = m2, ks_ready = [r1, r2], ks_filled = [], ks_running = []\<rparr>" "request_tokens r1 = [5, 6, 7]" "\<not> holds_kv r1"
    "km_allocator m2 = km_allocator m1" "km_rows m2 = km_rows m1" "rc_is_eagle (km_cache m2) = False"
    "length (rq_prefix_indices r1) \<le> key_len (request_key (km_cache m2) r1 [5, 6, 7])"
    using admit_possible [OF i1 w, of False "[5, 6, 7]"] a(6) unfolding tk by auto
  note i2 = step_keeps [OF b(1) i1]
  have "rc_page_size (km_cache m1) = 2" "rc_page_size (km_cache m2) = 2" using i1 i2 by (simp_all add: kv_inv_def)
  then have "length (rq_prefix_indices r2) \<le> 2" "length (rq_prefix_indices r1) \<le> 2"
    using a(6,7) b(6,7) by (simp_all add: key_len_request_key length_token_units)
  then show ?thesis using kv_reach.move [OF kv_reach.move [OF S0 a(1)] b(1)] a b z
    by (intro exI [of _ m2] exI) (auto simp: range_ok_def)
qed


section \<open>What a batch gets\<close>

lemma extended_lens:
  assumes "list_all2 (range_ok m) ends rs" "rs1 = map2 set_extend_range ends rs" "list_all2 with_row rs1 rs0"
  shows "map request_tokens (map extended rs0) = map request_tokens rs \<and> map rq_origin_input_ids (map extended rs0) = map rq_origin_input_ids rs \<and>
    map rq_kv_allocated_len (map extended rs0) = ends"
proof -
  have "list_all2 (\<lambda>r r'. request_tokens (extended r') = request_tokens r \<and> rq_origin_input_ids (extended r') = rq_origin_input_ids r \<and> rq_kv_allocated_len (extended r') = length (rq_fill_ids r)) rs1 rs0"
    by (rule list.rel_mono_strong [OF assms(3)]) (auto simp: with_row_def extended_def request_tokens_def)
  then have "map (\<lambda>r. request_tokens (extended r)) rs0 = map request_tokens rs1 \<and>
      map (\<lambda>r. rq_origin_input_ids (extended r)) rs0 = map rq_origin_input_ids rs1 \<and> map (\<lambda>r. rq_kv_allocated_len (extended r)) rs0 = map (\<lambda>r. length (rq_fill_ids r)) rs1"
    by (induction rs1 rs0 rule: list_all2_induct) simp_all
  moreover have "map request_tokens rs1 = map request_tokens rs \<and> map rq_origin_input_ids rs1 = map rq_origin_input_ids rs \<and> map (\<lambda>r. length (rq_fill_ids r)) rs1 = ends"
    unfolding assms(2) using assms(1)
    by (induction ends rs rule: list_all2_induct) (auto simp: set_extend_range_def request_tokens_def range_ok_def)
  ultimately show ?thesis by (simp add: comp_def)
qed

lemma extend_possible:
  assumes inv: "kv_inv P ps \<lparr>ks_memory = m, ks_ready = R, ks_filled = F, ks_running = D\<rparr>" and R: "mset R = mset (rs @ R')"
    and e: "list_all2 (range_ok m) ends rs" "rs1 = map2 set_extend_range ends rs" "length raw = slots_to_come rs1"
  shows "if rows_available (km_rows m) < length (filter (\<lambda>r. \<not> holds_kv r) rs1)
    then alloc_for_extend raw tie rs1 m = Some (Inl (RuntimeError ''alloc_req_slots runs out of memory''))
    else if int (pages_needed ps rs1 * ps) \<le> int (available_size (km_allocator m)) + rc_evictable_size (km_cache m)
    then \<exists>out rs' m'. alloc_for_extend raw tie rs1 m = Some (Inr (out, rs', m')) \<and> map request_tokens rs' = map request_tokens rs \<and>
      map rq_origin_input_ids rs' = map rq_origin_input_ids rs \<and> map rq_kv_allocated_len rs' = ends \<and> unmoved m m' (R' @ F @ D) \<and> memory_ok m' (rs' @ R' @ F @ D) P
    else alloc_for_extend raw tie rs1 m = Some (Inl (RuntimeError ''Prefill out of memory''))"
proof -
  obtain T where at: "memory_at m T (rs1 @ R' @ F @ D) P" using extend_ready(1) [OF inv R e(1,2)] by blast
  have ps: "rc_page_size (km_cache m) = ps" using inv by (simp add: kv_inv_def)
  note x = extend_keeps [OF at extend_ready(2) [OF inv R e(1,2)] e(3), of tie, unfolded ps]
  have y: "\<exists>out rs' m'. alloc_for_extend raw tie rs1 m = Some (Inr (out, rs', m')) \<and> map request_tokens rs' = map request_tokens rs \<and>
      map rq_origin_input_ids rs' = map rq_origin_input_ids rs \<and> map rq_kv_allocated_len rs' = ends \<and> unmoved m m' (R' @ F @ D) \<and> memory_ok m' (rs' @ R' @ F @ D) P"
    if h: "\<exists>out rs0 m' T'. alloc_for_extend raw tie rs1 m = Some (Inr (out, map extended rs0, m')) \<and> list_all2 with_row rs1 rs0 \<and>
      memory_at m' T' (map extended rs0 @ R' @ F @ D) P \<and> unmoved m m' (R' @ F @ D)"
  proof -
    obtain out rs0 m' T' where "alloc_for_extend raw tie rs1 m = Some (Inr (out, map extended rs0, m'))" "list_all2 with_row rs1 rs0"
      "memory_at m' T' (map extended rs0 @ R' @ F @ D) P" "unmoved m m' (R' @ F @ D)" using h by blast
    then show ?thesis using extended_lens [OF e(1,2)]
      by (intro exI [of _ out] exI [of _ "map extended rs0"] exI [of _ m']) (auto simp: memory_ok_def)
  qed
  show ?thesis using x y by (simp split: if_splits)
qed

lemma demo_filled:
  "\<exists>m q1 q2. kv_reach False demo_memory \<lparr>ks_memory = m, ks_ready = [], ks_filled = [q1, q2], ks_running = []\<rparr> \<and>
     map request_tokens [q1, q2] = [[5, 6, 7], [1, 2, 3]] \<and> map rq_kv_allocated_len [q1, q2] = [3, 3] \<and> rp_max_context_len (km_rows m) = 16"
proof -
  note ok = start_memory_ok [of 2 8 False 4 16 False False LRU "\<lambda>_. 0", folded demo_memory_def]
  have inv: "kv_inv {1..4} 2 S" if "kv_reach False demo_memory S" for S using reach_inv [OF that] ok by simp
  obtain m r1 r2 where S: "kv_reach False demo_memory \<lparr>ks_memory = m, ks_ready = [r1, r2], ks_filled = [], ks_running = []\<rparr>"
    "request_tokens r1 = [5, 6, 7]" "request_tokens r2 = [1, 2, 3]" "list_all2 (range_ok m) [3, 3] [r1, r2]"
    "rows_available (km_rows m) = 4" "available_size (km_allocator m) = 8" "rp_max_context_len (km_rows m) = 16" using demo_two by blast
  let ?rs1 = "map2 set_extend_range [3, 3] [r1, r2]"
  have i: "kv_inv {1..4} 2 \<lparr>ks_memory = m, ks_ready = [r1, r2], ks_filled = [], ks_running = []\<rparr>" by (rule inv [OF S(1)])
  obtain T where at: "memory_at m T [r1, r2] {1..4}" using i by (auto simp: kv_inv_def memory_ok_def all_requests_def)
  have "0 \<le> rc_evictable_size (km_cache m)" by (rule paged_pool.evictable_nonneg [OF memory_atD(5) [OF at]])
  moreover have "pages_needed 2 ?rs1 * 2 \<le> 8"
  proof -
    have "rq_fill_ids (set_extend_range 3 r1) = [5, 6, 7]" "rq_fill_ids (set_extend_range 3 r2) = [1, 2, 3]"
      using S(2,3) by (simp_all add: set_extend_range_def)
    then show ?thesis by (simp add: pages_needed_def get_num_new_pages_def new_pages_def)
  qed
  moreover have "length (filter (\<lambda>r. \<not> holds_kv r) ?rs1) \<le> 4" by simp
  ultimately obtain out rs' m1 where x: "alloc_for_extend (replicate (slots_to_come ?rs1) 0) (\<lambda>_. 0) ?rs1 m = Some (Inr (out, rs', m1))"
    "map request_tokens rs' = map request_tokens [r1, r2]" "map rq_kv_allocated_len rs' = [3, 3]" "rp_max_context_len (km_rows m1) = rp_max_context_len (km_rows m)"
    using extend_possible [OF i _ S(4) refl, of "[]" "replicate (slots_to_come ?rs1) 0" "\<lambda>_. 0"] S(5,6) by (auto simp: unmoved_def split: if_splits)
  obtain q1 q2 where q: "rs' = [q1, q2]" using x(3) by (auto simp: map_eq_Cons_conv)
  have S1: "kv_reach False demo_memory \<lparr>ks_memory = m1, ks_ready = [], ks_filled = [q1, q2], ks_running = []\<rparr>"
    using kv_reach.move [OF S(1) kv_step.extend [OF _ S(4) refl _ x(1), of _ "[]"]] by (simp add: q)
  show ?thesis by (rule exI [of _ m1], rule exI [of _ q1], rule exI [of _ q2]) (use S1 x(2-4) S(2,3,7) in \<open>simp add: q\<close>)
qed

lemma demo_running:
  "\<exists>m r1 r2. kv_reach False demo_memory \<lparr>ks_memory = m, ks_ready = [], ks_filled = [], ks_running = [r1, r2]\<rparr> \<and>
     map (length \<circ> request_tokens) [r1, r2] = [4, 4] \<and> map rq_kv_allocated_len [r1, r2] = [3, 3] \<and> rp_max_context_len (km_rows m) = 16"
proof -
  note ok = start_memory_ok [of 2 8 False 4 16 False False LRU "\<lambda>_. 0", folded demo_memory_def]
  have inv: "kv_inv {1..4} 2 S" if "kv_reach False demo_memory S" for S using reach_inv [OF that] ok by simp
  obtain m1 q1 q2 where S1: "kv_reach False demo_memory \<lparr>ks_memory = m1, ks_ready = [], ks_filled = [q1, q2], ks_running = []\<rparr>"
    and x: "map request_tokens [q1, q2] = [[5, 6, 7], [1, 2, 3]]" "map rq_kv_allocated_len [q1, q2] = [3, 3]" "rp_max_context_len (km_rows m1) = 16"
    using demo_filled by (elim exE conjE) (rule that)
  have S2: "kv_reach False demo_memory \<lparr>ks_memory = m1, ks_ready = [], ks_filled = [emitted 8 q1, q2], ks_running = []\<rparr>"
    by (rule kv_reach.move [OF S1 kv_step.emit_filled]) simp
  have S3: "kv_reach False demo_memory \<lparr>ks_memory = m1, ks_ready = [], ks_filled = [emitted 4 q2, emitted 8 q1], ks_running = []\<rparr>"
    by (rule kv_reach.move [OF S2 kv_step.emit_filled]) simp
  obtain p2 m2 where c: "kv_step False \<lparr>ks_memory = m1, ks_ready = [], ks_filled = [emitted 4 q2, emitted 8 q1], ks_running = []\<rparr>
      \<lparr>ks_memory = m2, ks_ready = [], ks_filled = [emitted 8 q1], ks_running = [p2]\<rparr>"
    "request_tokens p2 = request_tokens (emitted 4 q2)" "rq_kv_allocated_len p2 = rq_kv_allocated_len (emitted 4 q2)"
    "rp_max_context_len (km_rows m2) = rp_max_context_len (km_rows m1)" using cache_possible [OF inv [OF S3]] by blast
  note S4 = kv_reach.move [OF S3 c(1)]
  obtain p1 m3 where d: "kv_step False \<lparr>ks_memory = m2, ks_ready = [], ks_filled = [emitted 8 q1], ks_running = [p2]\<rparr>
      \<lparr>ks_memory = m3, ks_ready = [], ks_filled = [], ks_running = [p1, p2]\<rparr>"
    "request_tokens p1 = request_tokens (emitted 8 q1)" "rq_kv_allocated_len p1 = rq_kv_allocated_len (emitted 8 q1)"
    "rp_max_context_len (km_rows m3) = rp_max_context_len (km_rows m2)" using cache_possible [OF inv [OF S4]] by blast
  have tk: "request_tokens (emitted t r) = request_tokens r @ [t]" "rq_kv_allocated_len (emitted t r) = rq_kv_allocated_len r" for t r
    by (simp_all add: emitted_def request_tokens_def)
  show ?thesis
    by (rule exI [of _ m3], rule exI [of _ p1], rule exI [of _ p2])
      (use kv_reach.move [OF S4 d(1)] c(2-4) d(2-4) x in \<open>simp add: tk\<close>)
qed


section \<open>The checks stay silent\<close>

lemma reach_start:
  assumes "kv_reach ov (start_memory n ps ns rows ctx e f p t) S" "1 < ps"
  shows "kv_inv {1..int (n div ps)} ps S"
  by (rule reach_inv [OF assms(1)]) (use start_memory_ok [OF assms(2)] in simp_all)

lemma card_pages: "card {1..int k} = k"
  by simp

text \<open>
  C1. In every state the requests can bring the memory to, by any sequence of admissions, extensions, decode
  steps, cachings, releases and retractions, the engine's own check during operation passes: every slot is
  counted once as free, evictable, protected or owned, no request refers to a freed page, no page is
  freed twice, and no warning is counted.
\<close>

theorem reachable_checks_silent:
  assumes "kv_reach ov (start_memory n ps ns rows ctx e f p t) S" "1 < ps"
    and "mset (all_requests S) = mset (last_batch @ (case other of None \<Rightarrow> [] | Some rs \<Rightarrow> rs))"
  shows "self_check_during_busy pages strict (int (n div ps * ps)) ps last_batch other (ks_memory S) w = Inr w"
proof -
  note inv = reach_start [OF assms(1,2)]
  obtain T where at: "memory_at (ks_memory S) T (all_requests S) {1..int (n div ps)}" using inv by (auto simp: kv_inv_def memory_ok_def)
  have p: "rc_page_size (km_cache (ks_memory S)) = ps" using inv by (simp add: kv_inv_def)
  show ?thesis using busy_check_passes [OF at assms(3) refl, of pages strict w] unfolding p card_pages .
qed

theorem reachable_checks_silent_witness:
  "\<exists>m r1 r2. kv_reach False demo_memory \<lparr>ks_memory = m, ks_ready = [], ks_filled = [], ks_running = [r1, r2]\<rparr> \<and>
     map rq_kv_allocated_len [r1, r2] = [3, 3] \<and> self_check_during_busy True True 8 2 [r1] (Some [r2]) m 0 = Inr 0"
proof -
  obtain m r1 r2 where S: "kv_reach False demo_memory \<lparr>ks_memory = m, ks_ready = [], ks_filled = [], ks_running = [r1, r2]\<rparr>"
    "map rq_kv_allocated_len [r1, r2] = [3, 3]" using demo_running by (elim exE conjE) (rule that)
  have "mset (all_requests \<lparr>ks_memory = m, ks_ready = [], ks_filled = [], ks_running = [r1, r2]\<rparr>) = mset ([r1] @ (case Some [r2] of None \<Rightarrow> [] | Some rs \<Rightarrow> rs))"
    by (simp add: all_requests_def)
  then have silent: "self_check_during_busy True True 8 2 [r1] (Some [r2]) m 0 = Inr 0"
    using reachable_checks_silent [OF S(1) [unfolded demo_memory_def], of "[r1]" "Some [r2]" True True 0] by simp
  show ?thesis by (rule exI [of _ m], rule exI [of _ r1], rule exI [of _ r2]) (use S silent in blast)
qed

lemma nothing_protected:
  assumes "books s T []"
  shows "rc_protected_size s = 0"
proof -
  have "tn_lock_ref (node s n) = 0" if "n \<in> live s T" for n using assms that by (simp add: books_def holders_def)
  then have "{n. n \<in> live s T \<and> (tn_lock_ref (node s n) = 0) = False} = {}" by auto
  then have "size_where s T False = 0" unfolding size_where_def by (simp only: sum.empty)
  then show ?thesis using assms by (simp add: books_def)
qed

text \<open>
  C12. When the last request has gone, nothing of the memory is lost: the idle checks of the pools and of the
  rows pass, and every slot is free or can be evicted.
\<close>

theorem idle_memory_complete:
  assumes "kv_reach ov (start_memory n ps ns rows ctx e f p t) S" "1 < ps" "all_requests S = []"
  shows "\<not> check_all_pools (int (n div ps * ps)) (ks_memory S) \<and> check_req_pool strict 0 (ks_memory S) w = Inr w \<and>
    int (available_size (km_allocator (ks_memory S))) + rc_evictable_size (km_cache (ks_memory S)) = int (n div ps * ps)"
proof -
  note inv = reach_start [OF assms(1,2)]
  obtain T where at: "memory_at (ks_memory S) T [] {1..int (n div ps)}" using inv assms(3) by (auto simp: kv_inv_def memory_ok_def)
  have p: "rc_page_size (km_cache (ks_memory S)) = ps" using inv by (simp add: kv_inv_def)
  note D = memory_atD [OF at]
  have "books (km_cache (ks_memory S)) T []" using D(5) by (simp add: locked_nodes_def)
  then have "rc_protected_size (km_cache (ks_memory S)) = 0" by (rule nothing_protected)
  then show ?thesis using idle_check_passes(1) [OF at refl] idle_check_passes(2) [OF at refl, of strict w] ledger_total [OF D(4,5,7)] p unfolding p card_pages by simp
qed

lemma release_one:
  assumes inv: "kv_inv P ps \<lparr>ks_memory = m, ks_ready = [], ks_filled = [], ks_running = rq # D\<rparr>"
  shows "\<exists>m'. kv_step ov \<lparr>ks_memory = m, ks_ready = [], ks_filled = [], ks_running = rq # D\<rparr> \<lparr>ks_memory = m', ks_ready = [], ks_filled = [], ks_running = D\<rparr>"
proof -
  let ?S = "\<lparr>ks_memory = m, ks_ready = [], ks_filled = [], ks_running = rq # D\<rparr>"
  have kv: "holds_kv rq" using inv by (simp add: kv_inv_def running_ok_def)
  have all: "mset (all_requests ?S) = mset (rq # D)" by (simp add: all_requests_def)
  obtain m' where "release_kv_cache ov False True rq m = Some (Inr (mark_kv_released (rq\<lparr>rq_req_pool_idx := None\<rparr>), m'))"
    using release_possible [OF inv all kv, of ov True] by auto
  from kv_step.release [of "[]" "[]" "rq # D" rq "[]" "[]" D, OF _ _ _ _ kv this] show ?thesis by (intro exI [of _ m']) (simp add: subset_insertI)
qed

theorem idle_memory_complete_witness:
  "\<exists>m r1 r2 m'. kv_reach False demo_memory \<lparr>ks_memory = m, ks_ready = [], ks_filled = [], ks_running = [r1, r2]\<rparr> \<and>
     (kv_step False)\<^sup>*\<^sup>* \<lparr>ks_memory = m, ks_ready = [], ks_filled = [], ks_running = [r1, r2]\<rparr> \<lparr>ks_memory = m', ks_ready = [], ks_filled = [], ks_running = []\<rparr> \<and>
     int (available_size (km_allocator m')) + rc_evictable_size (km_cache m') = 8"
proof -
  note ok = start_memory_ok [of 2 8 False 4 16 False False LRU "\<lambda>_. 0", folded demo_memory_def]
  have inv: "kv_inv {1..4} 2 S" if "kv_reach False demo_memory S" for S using reach_inv [OF that] ok by simp
  obtain m r1 r2 where S: "kv_reach False demo_memory \<lparr>ks_memory = m, ks_ready = [], ks_filled = [], ks_running = [r1, r2]\<rparr>"
    using demo_running by (elim exE conjE) (rule that)
  obtain m1 where a: "kv_step False \<lparr>ks_memory = m, ks_ready = [], ks_filled = [], ks_running = [r1, r2]\<rparr>
      \<lparr>ks_memory = m1, ks_ready = [], ks_filled = [], ks_running = [r2]\<rparr>" using release_one [OF inv [OF S]] by blast
  note S1 = kv_reach.move [OF S a]
  obtain m2 where b: "kv_step False \<lparr>ks_memory = m1, ks_ready = [], ks_filled = [], ks_running = [r2]\<rparr>
      \<lparr>ks_memory = m2, ks_ready = [], ks_filled = [], ks_running = []\<rparr>" using release_one [OF inv [OF S1]] by blast
  note S2 = kv_reach.move [OF S1 b]
  have total: "int (available_size (km_allocator m2)) + rc_evictable_size (km_cache m2) = 8"
    using idle_memory_complete [OF S2 [unfolded demo_memory_def]] by (simp add: all_requests_def)
  have path: "(kv_step False)\<^sup>*\<^sup>* \<lparr>ks_memory = m, ks_ready = [], ks_filled = [], ks_running = [r1, r2]\<rparr> \<lparr>ks_memory = m2, ks_ready = [], ks_filled = [], ks_running = []\<rparr>"
    by (rule converse_rtranclp_into_rtranclp [where r = "kv_step False", OF a r_into_rtranclp [where r = "kv_step False", OF b]])
  show ?thesis by (rule exI [of _ m], rule exI [of _ r1], rule exI [of _ r2], rule exI [of _ m2]) (use S path total in blast)
qed


section \<open>Each operation returns, or memory is short\<close>

text \<open>
  C5. Extending a batch in a reachable state: it raises that the rows are out exactly when more requests need
  a row than rows are free, and that memory is out exactly when the pages the ranges need exceed what is free
  and evictable.  Otherwise every request keeps its tokens and holds one slot for each token of its range, and
  the memory is in order again.
\<close>

theorem extension_outcome:
  assumes "kv_reach ov (start_memory n ps ns rows ctx e f p t) S" "1 < ps"
    and "mset (ks_ready S) = mset (rs @ R')" "list_all2 (range_ok (ks_memory S)) ends rs"
    and "rs1 = map2 set_extend_range ends rs" "length raw = slots_to_come rs1"
  shows "if rows_available (km_rows (ks_memory S)) < length (filter (\<lambda>r. \<not> holds_kv r) rs1)
    then alloc_for_extend raw tie rs1 (ks_memory S) = Some (Inl (RuntimeError ''alloc_req_slots runs out of memory''))
    else if int (available_size (km_allocator (ks_memory S))) + rc_evictable_size (km_cache (ks_memory S)) < int (pages_needed ps rs1 * ps)
    then alloc_for_extend raw tie rs1 (ks_memory S) = Some (Inl (RuntimeError ''Prefill out of memory''))
    else \<exists>out rs' m'. alloc_for_extend raw tie rs1 (ks_memory S) = Some (Inr (out, rs', m')) \<and> map request_tokens rs' = map request_tokens rs \<and>
      map rq_kv_allocated_len rs' = ends \<and> memory_ok m' (rs' @ R' @ ks_filled S @ ks_running S) {1..int (n div ps)}"
proof -
  obtain m R F D where S: "S = \<lparr>ks_memory = m, ks_ready = R, ks_filled = F, ks_running = D\<rparr>" by (cases S)
  note x = extend_possible [OF reach_start [OF assms(1,2), unfolded S] _ assms(4) [unfolded S kv_state.select_convs] assms(5,6), of R' tie]
  show ?thesis using x assms(3) unfolding S kv_state.select_convs not_le [symmetric] by (auto split: if_splits)
qed

theorem extension_outcome_witness:
  "\<exists>m r1 r2 out q1 q2 m'. kv_reach False demo_memory \<lparr>ks_memory = m, ks_ready = [r1, r2], ks_filled = [], ks_running = []\<rparr> \<and>
     alloc_for_extend (replicate (slots_to_come [set_extend_range 3 r1, set_extend_range 3 r2]) 0) (\<lambda>_. 0) [set_extend_range 3 r1, set_extend_range 3 r2] m =
       Some (Inr (out, [q1, q2], m')) \<and> request_tokens q1 = [5, 6, 7] \<and> rq_kv_allocated_len q1 = 3 \<and> rq_kv_allocated_len q2 = 3"
proof -
  obtain m r1 r2 where S: "kv_reach False demo_memory \<lparr>ks_memory = m, ks_ready = [r1, r2], ks_filled = [], ks_running = []\<rparr>"
    "request_tokens r1 = [5, 6, 7]" "request_tokens r2 = [1, 2, 3]" "list_all2 (range_ok m) [3, 3] [r1, r2]"
    "rows_available (km_rows m) = 4" "available_size (km_allocator m) = 8" using demo_two by blast
  let ?rs1 = "[set_extend_range 3 r1, set_extend_range 3 r2]"
  obtain T where at: "memory_at m T [r1, r2] {1..int (8 div 2)}"
    using reach_start [OF S(1) [unfolded demo_memory_def]] by (auto simp: kv_inv_def memory_ok_def all_requests_def)
  have "0 \<le> rc_evictable_size (km_cache m)" by (rule paged_pool.evictable_nonneg [OF memory_atD(5) [OF at]])
  moreover have "pages_needed 2 ?rs1 * 2 \<le> 8"
  proof -
    have "rq_fill_ids (set_extend_range 3 r1) = [5, 6, 7]" "rq_fill_ids (set_extend_range 3 r2) = [1, 2, 3]"
      using S(2,3) by (simp_all add: set_extend_range_def)
    then show ?thesis by (simp add: pages_needed_def get_num_new_pages_def new_pages_def)
  qed
  moreover have "length (filter (\<lambda>r. \<not> holds_kv r) ?rs1) \<le> 4" by simp
  ultimately obtain out rs' m' where x: "alloc_for_extend (replicate (slots_to_come ?rs1) 0) (\<lambda>_. 0) ?rs1 m = Some (Inr (out, rs', m'))"
    "map request_tokens rs' = [[5, 6, 7], [1, 2, 3]]" "map rq_kv_allocated_len rs' = [3, 3]"
    using extension_outcome [OF S(1) [unfolded demo_memory_def], of "[r1, r2]" "[]" "[3, 3]" ?rs1 "replicate (slots_to_come ?rs1) 0" "\<lambda>_. 0"] S(2-6)
    by (auto split: if_splits)
  obtain q1 q2 where q: "rs' = [q1, q2]" using x(3) by (auto simp: map_eq_Cons_conv)
  show ?thesis
    by (rule exI [of _ m], rule exI [of _ r1], rule exI [of _ r2], rule exI [of _ out], rule exI [of _ q1], rule exI [of _ q2], rule exI [of _ m'])
      (use S(1) x in \<open>simp add: q\<close>)
qed

text \<open>The requests of a decode step: running, with a token whose slot is still missing, and room in the row.\<close>

definition step_ok :: "kv_memory \<Rightarrow> request \<Rightarrow> bool" where
  "step_ok m r \<longleftrightarrow> rq_kv_allocated_len r < rp_max_context_len (km_rows m) \<and> rq_kv_allocated_len r < length (request_tokens r)"

lemma running_batch:
  assumes inv: "kv_inv P ps S" and D: "mset (ks_running S) = mset (rs @ D')" and room: "list_all (step_ok (ks_memory S)) rs"
  shows "\<exists>T. memory_at (ks_memory S) T (rs @ ks_ready S @ ks_filled S @ D') P" "\<forall>r \<in> set rs. decoding (ks_memory S) r"
proof -
  have all: "mset (all_requests S) = mset (rs @ ks_ready S @ ks_filled S @ D')" using D by (simp add: all_requests_def)
  obtain T where "memory_at (ks_memory S) T (all_requests S) P" using inv by (auto simp: kv_inv_def memory_ok_def)
  from memory_at_perm [OF all this] show "\<exists>T. memory_at (ks_memory S) T (rs @ ks_ready S @ ks_filled S @ D') P" by blast
  have "set rs \<subseteq> set (ks_running S)" using mset_eq_setD [OF D] by simp
  then show "\<forall>r \<in> set rs. decoding (ks_memory S) r"
    using inv room by (auto simp: kv_inv_def list_all_iff step_ok_def intro!: decoding_running)
qed

text \<open>
  C10. A decode step in a reachable state raises that memory is out exactly when the pages that its requests
  begin, as the capacity check counts them, exceed what is free and evictable.  Otherwise every request
  has one more slot, and the memory is in order again.
\<close>

theorem decode_outcome:
  assumes "kv_reach ov (start_memory n ps ns rows ctx e f p t) S" "1 < ps"
    and "mset (ks_running S) = mset (rs @ D')" "list_all (step_ok (ks_memory S)) rs" "length raw = length rs"
  shows "if int (available_size (km_allocator (ks_memory S))) + rc_evictable_size (km_cache (ks_memory S)) < int (new_tokens_required_next_decode ps rs)
    then alloc_for_decode raw tie rs (map rq_kv_allocated_len rs) (ks_memory S) = Some (Inl (RuntimeError ''Decode out of memory''))
    else \<exists>out m'. alloc_for_decode raw tie rs (map rq_kv_allocated_len rs) (ks_memory S) = Some (Inr (out, map decoded rs, m')) \<and>
      memory_ok m' (map decoded rs @ ks_ready S @ ks_filled S @ D') {1..int (n div ps)}"
proof -
  note inv = reach_start [OF assms(1,2)]
  obtain T where at: "memory_at (ks_memory S) T (rs @ ks_ready S @ ks_filled S @ D') {1..int (n div ps)}" using running_batch(1) [OF inv assms(3,4)] by blast
  have ps: "rc_page_size (km_cache (ks_memory S)) = ps" using inv by (simp add: kv_inv_def)
  show ?thesis using decode_keeps [OF at running_batch(2) [OF inv assms(3,4)] assms(5), of tie, unfolded ps]
    unfolding memory_ok_def not_le [symmetric] by (auto split: if_splits)
qed

theorem decode_outcome_witness:
  "\<exists>m r1 r2 out m'. kv_reach False demo_memory \<lparr>ks_memory = m, ks_ready = [], ks_filled = [], ks_running = [r1, r2]\<rparr> \<and>
     alloc_for_decode [0, 0] (\<lambda>_. 0) [r1, r2] [3, 3] m = Some (Inr (out, [decoded r1, decoded r2], m'))"
proof -
  obtain m r1 r2 where S: "kv_reach False demo_memory \<lparr>ks_memory = m, ks_ready = [], ks_filled = [], ks_running = [r1, r2]\<rparr>"
    "map (length \<circ> request_tokens) [r1, r2] = [4, 4]" "map rq_kv_allocated_len [r1, r2] = [3, 3]" "rp_max_context_len (km_rows m) = 16"
    using demo_running by (elim exE conjE) (rule that)
  let ?S = "\<lparr>ks_memory = m, ks_ready = [], ks_filled = [], ks_running = [r1, r2]\<rparr>"
  note inv = reach_start [OF S(1) [unfolded demo_memory_def]]
  obtain T where at: "memory_at m T [r1, r2] {1..int (8 div 2)}" using inv by (auto simp: kv_inv_def memory_ok_def all_requests_def)
  have nn: "0 \<le> rc_evictable_size (km_cache m)" by (rule paged_pool.evictable_nonneg [OF memory_atD(5) [OF at]])
  have "rq_kv_committed_len r1 = 3" "rq_kv_committed_len r2 = 3" using inv S(3) by (simp_all add: kv_inv_def running_ok_def)
  then have "new_tokens_required_next_decode 2 [r1, r2] = 0" by (simp add: new_tokens_required_next_decode_def)
  moreover have "list_all (step_ok m) [r1, r2]" using S(2-4) by (simp add: step_ok_def)
  ultimately obtain out m' where d: "alloc_for_decode [0, 0] (\<lambda>_. 0) [r1, r2] [3, 3] m = Some (Inr (out, [decoded r1, decoded r2], m'))"
    using decode_outcome [OF S(1) [unfolded demo_memory_def], of "[r1, r2]" "[]" "[0, 0]" "\<lambda>_. 0"] nn S(3) by auto
  show ?thesis by (rule exI [of _ m], rule exI [of _ r1], rule exI [of _ r2], rule exI [of _ out], rule exI [of _ m']) (use S(1) d in blast)
qed

text \<open>
  C8. A request that holds a row can be released in every reachable state: the release raises nothing, takes
  the row from the request, marks it released, and leaves a memory in order for all others, so that every
  slot it owned is free or cached.
\<close>

theorem release_succeeds:
  assumes "kv_reach ov (start_memory n ps ns rows ctx e f p t) S" "1 < ps" "mset (all_requests S) = mset (rq # others)" "holds_kv rq"
  shows "\<exists>m'. release_kv_cache ov False is_insert rq (ks_memory S) = Some (Inr (mark_kv_released (rq\<lparr>rq_req_pool_idx := None\<rparr>), m')) \<and>
    memory_ok m' others {1..int (n div ps)}"
  using release_possible [OF reach_start [OF assms(1,2)] assms(3,4), of ov is_insert] by (auto simp: memory_ok_def)

theorem release_succeeds_witness:
  "\<exists>m r1 r2 m'. kv_reach False demo_memory \<lparr>ks_memory = m, ks_ready = [], ks_filled = [], ks_running = [r1, r2]\<rparr> \<and>
     release_kv_cache False False True r1 m = Some (Inr (mark_kv_released (r1\<lparr>rq_req_pool_idx := None\<rparr>), m')) \<and> memory_ok m' [r2] {1..4}"
proof -
  obtain m r1 r2 where S: "kv_reach False demo_memory \<lparr>ks_memory = m, ks_ready = [], ks_filled = [], ks_running = [r1, r2]\<rparr>"
    using demo_running by (elim exE conjE) (rule that)
  have "holds_kv r1" using reach_start [OF S [unfolded demo_memory_def]] by (simp add: kv_inv_def running_ok_def)
  then obtain m' where r: "release_kv_cache False False True r1 m = Some (Inr (mark_kv_released (r1\<lparr>rq_req_pool_idx := None\<rparr>), m')) \<and> memory_ok m' [r2] {1..4}"
    using release_succeeds [OF S [unfolded demo_memory_def], of r1 "[r2]" True] by (auto simp: all_requests_def)
  show ?thesis by (rule exI [of _ m], rule exI [of _ r1], rule exI [of _ r2], rule exI [of _ m']) (use S r in blast)
qed


section \<open>Retraction makes room\<close>

lemma sort_reverse_sorted: "sorted_wrt (\<lambda>x y. key y \<le> key x) (sort_reverse key xs)"
  unfolding sort_reverse_def sorted_wrt_rev by (metis sorted_map sorted_sort_key)

text \<open>
  C3. Retraction in a reachable state never raises.  It keeps the first requests of its order, which is by
  the number of output tokens, then by the shorter prompt, under the priorities when they are used, and gives the others
  back without memory and with all their tokens, except that a request given by embeddings starts again from its prompt
  and loses the output it had; one request alone that still does not fit is aborted.  The decode
  step of the requests it keeps then gets its slots.
\<close>

theorem retraction_makes_room:
  assumes "kv_reach ov (start_memory n ps ns rows ctx e f p t) S" "1 < ps"
    and "mset (ks_running S) = mset (rs @ D')" "list_all (step_ok (ks_memory S)) rs" "rs \<noteq> []"
    and "order = get_decode_retraction_order by_priority low rs"
  shows "\<exists>k retracted aborted m'. retract_decode ov False steps tie by_priority low rs (ks_memory S) =
      Some (Inr (map ((!) rs) (take k order), retracted, aborted, m')) \<and>
    (if by_priority then sorted_wrt (\<lambda>i j. retraction_key low (rs ! j) \<le> retraction_key low (rs ! i)) order
     else sorted_wrt (\<lambda>i j. length_key (rs ! j) \<le> length_key (rs ! i)) order) \<and>
    (k < length rs \<or> length rs = 1) \<and> length aborted \<le> 1 \<and> (aborted = [] \<or> k = 0) \<and> list_all waiting (retracted @ aborted) \<and>
    map request_tokens (retracted @ aborted)
      = map (\<lambda>i. if rq_input_embeds (rs ! i) then rq_origin_input_ids (rs ! i) else request_tokens (rs ! i)) (rev (drop k order)) \<and>
    (\<exists>out m''. alloc_for_decode (map raw [0..<k]) tie' (map ((!) rs) (take k order)) (map rq_kv_allocated_len (map ((!) rs) (take k order))) m' =
       Some (Inr (out, map decoded (map ((!) rs) (take k order)), m'')))"
proof -
  note inv = reach_start [OF assms(1,2)]
  let ?others = "ks_ready S @ ks_filled S @ D'"
  obtain T where at: "memory_at (ks_memory S) T (rs @ ?others) {1..int (n div ps)}" using running_batch(1) [OF inv assms(3,4)] by blast
  note dec = running_batch(2) [OF inv assms(3,4)]
  obtain k retracted aborted m' where r: "retract_decode ov False steps tie by_priority low rs (ks_memory S) =
      Some (Inr (map ((!) rs) (take k order), retracted, aborted, m'))"
    "made_room (ks_memory S) rs order ?others {1..int (n div ps)} k retracted aborted m'"
    using retract_keeps [OF at dec assms(5), of ov steps tie by_priority low] unfolding assms(6) by blast
  note R = r(2) [unfolded made_room_def]
  let ?kept = "map ((!) rs) (take k order)"
  obtain T' where at': "memory_at m' T' (?kept @ ?others) {1..int (n div ps)}" using R by (auto simp: memory_ok_def)
  have um: "unmoved (ks_memory S) m' (?kept @ ?others)" using R by blast
  have lk: "length ?kept = k" using R retraction_order_set(3) [of by_priority low rs] by (simp add: assms(6))
  have "set ?kept \<subseteq> set rs" using retraction_order_set(1) [of by_priority low rs] by (auto simp: assms(6) dest!: in_set_takeD)
  then have dk: "\<forall>r \<in> set ?kept. decoding m' r" using dec decoding_unmoved [OF um] by blast
  have "0 \<le> rc_evictable_size (km_cache m')" by (rule paged_pool.evictable_nonneg [OF memory_atD(5) [OF at']])
  then have fits: "int (new_tokens_required_next_decode (rc_page_size (km_cache m')) ?kept) \<le> int (available_size (km_allocator m')) + rc_evictable_size (km_cache m')"
    using R unmoved_page_size [OF um] by simp
  have lr: "length (map raw [0..<k]) = length ?kept" using lk by simp
  obtain out m'' where d: "alloc_for_decode (map raw [0..<k]) tie' ?kept (map rq_kv_allocated_len ?kept) m' = Some (Inr (out, map decoded ?kept, m''))"
    using decode_keeps [OF at' dk lr, of tie'] fits by auto
  have s: "if by_priority then sorted_wrt (\<lambda>i j. retraction_key low (rs ! j) \<le> retraction_key low (rs ! i)) order
     else sorted_wrt (\<lambda>i j. length_key (rs ! j) \<le> length_key (rs ! i)) order"
    unfolding assms(6) get_decode_retraction_order_def by (simp add: sort_reverse_sorted)
  show ?thesis
    by (rule exI [of _ k], rule exI [of _ retracted], rule exI [of _ aborted], rule exI [of _ m'])
      (use r(1) s R d in \<open>auto simp: list_all_iff retry_tokens_def\<close>)
qed

theorem retraction_makes_room_witness:
  "\<exists>m r1 r2 kept back_to_queue aborted m'. kv_reach False demo_memory \<lparr>ks_memory = m, ks_ready = [], ks_filled = [], ks_running = [r1, r2]\<rparr> \<and>
     retract_decode False False 20 (\<lambda>_. 0) False False [r1, r2] m = Some (Inr (kept, back_to_queue, aborted, m')) \<and> length kept < 2"
proof -
  obtain m r1 r2 where S: "kv_reach False demo_memory \<lparr>ks_memory = m, ks_ready = [], ks_filled = [], ks_running = [r1, r2]\<rparr>"
    "map (length \<circ> request_tokens) [r1, r2] = [4, 4]" "map rq_kv_allocated_len [r1, r2] = [3, 3]" "rp_max_context_len (km_rows m) = 16"
    using demo_running by (elim exE conjE) (rule that)
  let ?S = "\<lparr>ks_memory = m, ks_ready = [], ks_filled = [], ks_running = [r1, r2]\<rparr>"
  have pre: "(1 :: nat) < 2" "mset (ks_running ?S) = mset ([r1, r2] @ [])" "list_all (step_ok (ks_memory ?S)) [r1, r2]" "[r1, r2] \<noteq> []"
    using S(2-4) by (simp_all add: step_ok_def)
  obtain k retracted aborted m' where r: "retract_decode False False 20 (\<lambda>_. 0) False False [r1, r2] (ks_memory ?S) =
      Some (Inr (map ((!) [r1, r2]) (take k (get_decode_retraction_order False False [r1, r2])), retracted, aborted, m'))"
      "k < length [r1, r2] \<or> length [r1, r2] = 1"
    using retraction_makes_room [OF S(1) [unfolded demo_memory_def] pre refl, where steps = 20 and tie = "\<lambda>_. 0" and by_priority = False and low = False]
    by blast
  have l: "length (map ((!) [r1, r2]) (take k (get_decode_retraction_order False False [r1, r2]))) < 2" using r(2) by auto
  show ?thesis
    by (rule exI [of _ m], rule exI [of _ r1], rule exI [of _ r2],
      rule exI [of _ "map ((!) [r1, r2]) (take k (get_decode_retraction_order False False [r1, r2]))"], rule exI [of _ retracted], rule exI [of _ aborted], rule exI [of _ m'])
      (use S(1) r(1) l in simp)
qed

section \<open>Caching an extended request\<close>

text \<open>
  C15. Caching a request that has just been extended raises nothing in a reachable state, the assertion that
  the inserted key is matched in full included.  Afterwards the protected part of the request is the whole
  pages of its tokens, the prefix it hands to its next extension is its row, and the memory is in order.
\<close>

theorem caching_succeeds:
  assumes "kv_reach ov (start_memory n ps ns rows ctx e f p t) S" "1 < ps" "mset (ks_filled S) = mset (rq # F')"
  shows "\<exists>rq' rows' s' al'. cache_unfinished_req paged_free_segment rq chunked (rp_req_to_token (km_rows (ks_memory S))) (km_cache (ks_memory S)) (km_allocator (ks_memory S)) =
      Some (Inr (rq', rows', s', al')) \<and>
    rq_cache_protected_len rq' = length (token_units (rc_is_eagle (km_cache (ks_memory S))) (rq_fill_ids rq)) div ps * ps \<and>
    rq_prefix_indices rq' = take (length (rq_fill_ids rq)) (rows' (the (rq_req_pool_idx rq'))) \<and>
    memory_ok (with_cache s' al' rows' (ks_memory S)) (rq' # ks_ready S @ F' @ ks_running S) {1..int (n div ps)}"
proof -
  note inv = reach_start [OF assms(1,2)]
  let ?m = "ks_memory S"
  obtain T where T: "memory_at ?m T (all_requests S) {1..int (n div ps)}" using inv by (auto simp: kv_inv_def memory_ok_def)
  have "mset (all_requests S) = mset (rq # ks_ready S @ F' @ ks_running S)" using assms(3) by (simp add: all_requests_def)
  from memory_at_perm [OF this T] have at: "memory_at ?m T (rq # ks_ready S @ F' @ ks_running S) {1..int (n div ps)}" .
  have f: "filled rq" using inv mset_eq_setD [OF assms(3)] by (simp add: kv_inv_def)
  have ps: "rc_page_size (km_cache ?m) = ps" using inv by (simp add: kv_inv_def)
  obtain rq' rows' s' al' T' where u:
    "cache_unfinished_req paged_free_segment rq chunked (rp_req_to_token (km_rows ?m)) (km_cache ?m) (km_allocator ?m) = Some (Inr (rq', rows', s', al'))"
    "memory_at (with_cache s' al' rows' ?m) T' (rq' # ks_ready S @ F' @ ks_running S) {1..int (n div ps)}"
    "rq_prefix_indices rq' = row_slots (with_cache s' al' rows' ?m) rq'" "filled rq'"
    "rq_cache_protected_len rq' = key_len (request_key (km_cache ?m) rq (rq_fill_ids rq))"
    using unfinished_keeps [OF at f, of chunked] by blast
  have R: "request_ok ?m T rq" by (rule memory_atD(6) [OF at]) simp
  have "rq_kv_allocated_len rq \<le> length (request_tokens rq)" using R f by (auto simp: filled_def holds_kv_def request_ok_def row_ok_def)
  then have "rq_kv_allocated_len rq' = length (rq_fill_ids rq)" using unfinished_fields [OF u(1)] f by (simp add: filled_def)
  moreover obtain i where "rq_req_pool_idx rq' = Some i" using u(4) by (auto simp: filled_def holds_kv_def)
  ultimately have "rq_prefix_indices rq' = take (length (rq_fill_ids rq)) (rows' (the (rq_req_pool_idx rq')))" using u(3) by (simp add: row_slots_def)
  then show ?thesis using u(1,2,5) key_len_request_key [of "km_cache ?m" rq "rq_fill_ids rq"] ps unfolding memory_ok_def by auto
qed


theorem caching_succeeds_witness:
  "\<exists>m q1 q2 rq' rows' s' al'. kv_reach False demo_memory \<lparr>ks_memory = m, ks_ready = [], ks_filled = [q1, q2], ks_running = []\<rparr> \<and>
     cache_unfinished_req paged_free_segment q1 False (rp_req_to_token (km_rows m)) (km_cache m) (km_allocator m) = Some (Inr (rq', rows', s', al')) \<and>
     memory_ok (with_cache s' al' rows' m) [rq', q2] {1..4}"
proof -
  obtain m q1 q2 where S: "kv_reach False demo_memory \<lparr>ks_memory = m, ks_ready = [], ks_filled = [q1, q2], ks_running = []\<rparr>"
    using demo_filled by (elim exE conjE) (rule that)
  let ?S = "\<lparr>ks_memory = m, ks_ready = [], ks_filled = [q1, q2], ks_running = []\<rparr>"
  have pre: "(1 :: nat) < 2" "mset (ks_filled ?S) = mset (q1 # [q2])" by simp_all
  obtain rq' rows' s' al' where u: "cache_unfinished_req paged_free_segment q1 False (rp_req_to_token (km_rows (ks_memory ?S)))
      (km_cache (ks_memory ?S)) (km_allocator (ks_memory ?S)) = Some (Inr (rq', rows', s', al'))"
    "memory_ok (with_cache s' al' rows' (ks_memory ?S)) (rq' # ks_ready ?S @ [q2] @ ks_running ?S) {1..int (8 div 2)}"
    using caching_succeeds [OF S [unfolded demo_memory_def] pre, of False] by blast
  show ?thesis
    by (rule exI [of _ m], rule exI [of _ q1], rule exI [of _ q2], rule exI [of _ rq'], rule exI [of _ rows'], rule exI [of _ s'], rule exI [of _ al'])
      (use S u in simp)
qed

end
