(* ===== verification/MemoryStrip.thy ===== *)
theory MemoryStrip
  imports MemoryProps
begin

text \<open>
  What goes wrong when thinking is stripped from the cache: a request that was retracted with output tokens
  caches them when it is extended again, and its release then frees pages that the tree still caches.
\<close>

section \<open>Releasing less than is protected\<close>

lemma stripped_release:
  assumes at: "memory_at m T [rq] P" and i: "rq_req_pool_idx rq = Some i" and e: "\<not> rc_is_eagle (km_cache m)"
    and c: "c = effective_kv_committed_len True rq" "rc_page_size (km_cache m) dvd c" "c < rq_cache_protected_len rq"
  shows "\<exists>rq' m'. release_kv_cache True True False rq m = Some (Inr (rq', m')) \<and> tree_ok (km_cache m') T \<and> same_config (km_cache m) (km_cache m') \<and>
    idle (km_allocator m') = idle (km_allocator m) +
      mset (drop (c div rc_page_size (km_cache m)) (pages_of (rc_page_size (km_cache m)) (row_slots m rq)))"
proof -
  let ?s = "km_cache m" and ?al = "km_allocator m" and ?ps = "rc_page_size (km_cache m)" and ?n = "rq_kv_allocated_len rq"
  let ?row = "rp_req_to_token (km_rows m) i" and ?pages = "pages_of (rc_page_size (km_cache m)) (row_slots m rq)"
  note D = memory_atD [OF at]
  have ps: "0 < ?ps" using D(1) by simp
  have R: "request_ok m T rq" by (rule D(6)) simp
  have ro: "0 < ?n" "?n \<le> length ?row" "rq_kv_committed_len rq \<le> ?n" "rq_kv_committed_len rq \<le> length (request_tokens rq)" "rq_swa_evicted_seqlen rq = 0"
    using R i by (simp_all add: request_ok_def row_ok_def)
  have cn: "c \<le> rq_kv_committed_len rq" by (simp add: c(1) effective_kv_committed_len_def)
  have kv: "row_slots m rq = take ?n ?row" "length (row_slots m rq) = ?n" using i ro(2) by (simp_all add: row_slots_def)
  have row: "take ?n ?row = paged_row ?ps ?pages ?n" "length ?pages = (?n + ?ps - 1) div ?ps"
    using R kv length_pages_of [OF ps, of "row_slots m rq"] by (simp_all add: request_ok_def)
  have ready: "paged_ready ?ps ?al" using D(7) by (simp add: page_ledger_def)
  let ?ts = "take c (rq_origin_input_ids rq @ rq_output_ids rq)"
  have lt: "length ?ts = c" using cn ro(4) by (simp add: request_tokens_def)
  have k: "key_len (request_key ?s rq ?ts) = c" unfolding key_len_request_key length_token_units lt using e c(2) by simp
  obtain n where n: "rq_last_node rq = Some n" using R by (auto simp: request_ok_def serves_def)
  have "n \<in> set (locked_nodes [rq])" using n by (simp add: locked_nodes_def)
  then obtain d s' where u: "dec_lock_ref n ?s = Some (Inr (d, s'))" "tree_ok s' T" "same_config ?s s'"
    using dec_spec [OF D(4,5,2)] by blast
  have empty: "pyslice (rq_cache_protected_len rq) c (take c ?row) = []" "drop c (take c ?row) = []" using c(3) by (simp_all add: pyslice_def)
  have fin: "cache_finished_req (al_page_size ?al) paged_free_segment rq False c (rp_req_to_token (km_rows m)) ?s ?al = Some (Inr (s', ?al))"
    unfolding cache_finished_req_def Let_def k lt using D(2) i n u(1) empty by (simp add: free_segments_def)
  let ?m1 = "m\<lparr>km_cache := s', km_allocator := ?al\<rparr>"
  have cl: "(c + ?ps - 1) div ?ps = c div ?ps" using ceil_exact [OF ps, of "c div ?ps"] c(2) by simp
  have le: "c \<le> ?n" using cn ro(3) by simp
  have r1: "paged_ready ?ps (km_allocator ?m1)" "take ?n (rp_req_to_token (km_rows ?m1) i) = paged_row ?ps ?pages ?n"
    "?n \<le> length (rp_req_to_token (km_rows ?m1) i)" using ready row(1) ro(2) by simp_all
  obtain al' where o: "release_overallocated_kv_indices True rq c ?n ?m1 = Inr (?m1\<lparr>km_allocator := al'\<rparr>)"
    "idle al' = idle ?al + mset (drop (c div ?ps) ?pages)"
    using overallocated_freed [OF r1(1) i ro(5) r1(2,3) row(2) D(1) disjI1 [OF TrueI] le] unfolding cl by auto
  have "rows_apart (km_rows m) (i # [])" using D(3) i by simp
  note f = free_spec(1) [OF this i]
  have h: "holds_kv rq" "\<not> is_kv_released rq" using i ro(1) by (simp_all add: holds_kv_def is_kv_released_def)
  have "release_kv_cache True True False rq m = Some (Inr (mark_kv_released (rq\<lparr>rq_req_pool_idx := None\<rparr>),
      ?m1\<lparr>km_allocator := al', km_rows := free_rows [i] (km_rows m)\<rparr>))"
    unfolding release_kv_cache_def c(1) [symmetric] Let_def fin and_then_simps prod.case o(1) using f h by simp
  then show ?thesis using u(2,3) o(2) by (intro exI) auto
qed

section \<open>A retracted request that is extended again\<close>

definition strip_memory :: kv_memory where
  "strip_memory = start_memory 8 2 False 4 16 False False LRU (\<lambda>_. 0)"

text \<open>Its prompt has two tokens; it was retracted after three output tokens.\<close>

definition strip_request :: request where
  "strip_request = (demo_request [1, 2])\<lparr>rq_output_ids := [3, 4, 5]\<rparr>"

lemma strip_running:
  "\<exists>m rq. kv_reach True strip_memory \<lparr>ks_memory = m, ks_ready = [], ks_filled = [], ks_running = [rq]\<rparr> \<and>
     rq_origin_input_ids rq = [1, 2] \<and> rq_kv_allocated_len rq = 5 \<and> rq_cache_protected_len rq = 4 \<and> \<not> rc_is_eagle (km_cache m)"
proof -
  note ok = start_memory_ok [of 2 8 False 4 16 False False LRU "\<lambda>_. 0", folded strip_memory_def]
  have inv: "kv_inv {1..4} 2 S" if "kv_reach True strip_memory S" for S using reach_inv [OF that] ok by simp
  have z: "rp_max_context_len (km_rows strip_memory) = 16" "rows_available (km_rows strip_memory) = 4" "available_size (km_allocator strip_memory) = 8"
    "rc_is_eagle (km_cache strip_memory) = False"
    by (simp_all add: strip_memory_def start_memory_def row_pool_init_def rows_available_def paged_init_def paged_clear_def available_size_def
      cache_init_def reset_def new_tree_node_def monotonic_def upd_node_def Let_def)
  have w: "waiting strip_request" and tk: "request_tokens strip_request = [1, 2, 3, 4, 5]" "rq_origin_input_ids strip_request = [1, 2]"
    by (simp_all add: waiting_def demo_request_def request_tokens_def strip_request_def)
  note S0 = kv_reach.start [of True strip_memory]
  obtain r m1 where a: "kv_step True \<lparr>ks_memory = strip_memory, ks_ready = [], ks_filled = [], ks_running = []\<rparr>
      \<lparr>ks_memory = m1, ks_ready = [r], ks_filled = [], ks_running = []\<rparr>" "request_tokens r = [1, 2, 3, 4, 5]" "rq_origin_input_ids r = [1, 2]" "\<not> holds_kv r"
    "km_allocator m1 = km_allocator strip_memory" "km_rows m1 = km_rows strip_memory" "rc_is_eagle (km_cache m1) = False"
    "length (rq_prefix_indices r) \<le> key_len (request_key (km_cache m1) r [1, 2, 3, 4, 5])"
    using admit_possible [OF inv [OF S0] w, of True] z(4) unfolding tk by auto
  note S1 = kv_reach.move [OF S0 a(1)]
  have "rc_page_size (km_cache m1) = 2" using inv [OF S1] by (simp add: kv_inv_def)
  then have "length (rq_prefix_indices r) \<le> 4" using a(7,8) by (simp add: key_len_request_key length_token_units)
  then have range: "list_all2 (range_ok m1) [5] [r]" using a(2,6) z(1) by (simp add: range_ok_def)
  let ?rs = "map2 set_extend_range [5] [r]"
  obtain T where at: "memory_at m1 T [r] {1..4}" using inv [OF S1] by (auto simp: kv_inv_def memory_ok_def all_requests_def)
  have "0 \<le> rc_evictable_size (km_cache m1)" by (rule paged_pool.evictable_nonneg [OF memory_atD(5) [OF at]])
  moreover have "pages_needed 2 ?rs * 2 \<le> 8"
  proof -
    have "rq_fill_ids (set_extend_range 5 r) = [1, 2, 3, 4, 5]" using a(2) by (simp add: set_extend_range_def)
    then show ?thesis by (simp add: pages_needed_def get_num_new_pages_def new_pages_def)
  qed
  moreover have "length (filter (\<lambda>r. \<not> holds_kv r) ?rs) \<le> 4" by simp
  ultimately obtain out rs' m2 where x: "alloc_for_extend (replicate (slots_to_come ?rs) 0) (\<lambda>_. 0) ?rs m1 = Some (Inr (out, rs', m2))"
    "map request_tokens rs' = map request_tokens [r]" "map rq_origin_input_ids rs' = map rq_origin_input_ids [r]" "map rq_kv_allocated_len rs' = [5]"
    "same_config (km_cache m1) (km_cache m2)"
    using extend_possible [OF inv [OF S1] _ range refl, of "[]" "replicate (slots_to_come ?rs) 0" "\<lambda>_. 0"] a(5,6) z(2,3)
    by (auto simp: unmoved_def split: if_splits)
  obtain q where q: "rs' = [q]" using x(4) by (auto simp: map_eq_Cons_conv)
  have S2: "kv_reach True strip_memory \<lparr>ks_memory = m2, ks_ready = [], ks_filled = [q], ks_running = []\<rparr>"
    using kv_reach.move [OF S1 kv_step.extend [OF _ range refl _ x(1), of _ "[]"]] by (simp add: q)
  obtain T2 where at2: "memory_at m2 T2 (q # []) {1..4}" using inv [OF S2] by (auto simp: kv_inv_def memory_ok_def all_requests_def)
  have f: "filled q" using inv [OF S2] by (simp add: kv_inv_def)
  obtain rq' rows' s' al' where u: "cache_unfinished_req paged_free_segment q False (rp_req_to_token (km_rows m2)) (km_cache m2) (km_allocator m2) =
      Some (Inr (rq', rows', s', al'))" "rq_cache_protected_len rq' = key_len (request_key (km_cache m2) q (rq_fill_ids q))"
    "unmoved m2 (with_cache s' al' rows' m2) []" using unfinished_keeps [OF at2 f, of False] by blast
  have fill: "rq_fill_ids q = [1, 2, 3, 4, 5]" using f x(2,4) a(2) by (simp add: filled_def q)
  have cfg: "rc_page_size (km_cache m2) = 2" "rc_is_eagle (km_cache m2) = False" "rc_is_eagle s' = False"
    using inv [OF S2] x(5) a(7) u(3) by (simp_all add: kv_inv_def same_config_def unmoved_def)
  have p: "rq_cache_protected_len rq' = 4" using u(2) cfg(1,2) by (simp add: fill key_len_request_key length_token_units)
  have S3: "kv_reach True strip_memory \<lparr>ks_memory = with_cache s' al' rows' m2, ks_ready = [], ks_filled = [], ks_running = [rq']\<rparr>"
    using kv_reach.move [OF S2 kv_step.cache [OF refl u(1)]] by simp
  show ?thesis
    by (rule exI [of _ "with_cache s' al' rows' m2"], rule exI [of _ rq']) (use S3 p cfg(3) unfinished_fields [OF u(1)] x(3,4) a(3) in \<open>simp add: q\<close>)
qed

text \<open>
  C32. With \<^verbatim>\<open>strip_thinking_cache\<close>, releasing a request that was retracted after some output can free pages the
  tree still caches: its protected length covers output tokens, while the release handles the prompt alone.
\<close>

theorem stripped_release_frees_cached_pages:
  "\<exists>m rq rq' m' T page. kv_reach True strip_memory \<lparr>ks_memory = m, ks_ready = [], ks_filled = [], ks_running = [rq]\<rparr> \<and>
     release_kv_cache True True False rq m = Some (Inr (rq', m')) \<and> tree_ok (km_cache m') T \<and>
     page \<in> set (al_free_pages (km_allocator m') @ al_release_pages (km_allocator m')) \<and> page \<in> cached_pages 2 (cached 2 T)"
proof -
  note ok = start_memory_ok [of 2 8 False 4 16 False False LRU "\<lambda>_. 0", folded strip_memory_def]
  obtain m rq where S: "kv_reach True strip_memory \<lparr>ks_memory = m, ks_ready = [], ks_filled = [], ks_running = [rq]\<rparr>"
    "rq_origin_input_ids rq = [1, 2]" "rq_kv_allocated_len rq = 5" "rq_cache_protected_len rq = 4" "\<not> rc_is_eagle (km_cache m)" using strip_running by blast
  have inv: "kv_inv {1..4} 2 \<lparr>ks_memory = m, ks_ready = [], ks_filled = [], ks_running = [rq]\<rparr>" using reach_inv [OF S(1)] ok by simp
  then obtain T where at: "memory_at m T [rq] {1..4}" by (auto simp: kv_inv_def memory_ok_def all_requests_def)
  have ps: "rc_page_size (km_cache m) = 2" and run: "running_ok rq" using inv by (simp_all add: kv_inv_def)
  obtain i where i: "rq_req_pool_idx rq = Some i" using run by (auto simp: running_ok_def holds_kv_def)
  have c: "2 = effective_kv_committed_len True rq" using run S(2,3) by (simp add: effective_kv_committed_len_def running_ok_def)
  have R: "request_ok m T rq" by (rule memory_atD(6) [OF at]) simp
  let ?kv = "row_slots m rq" and ?pages = "pages_of 2 (row_slots m rq)"
  have len: "length ?kv = 5" using R i S(3) by (simp add: request_ok_def row_ok_def row_slots_def)
  then have lp: "length ?pages = 3" by (simp add: length_pages_of)
  obtain rq' m' where r: "release_kv_cache True True False rq m = Some (Inr (rq', m'))" "tree_ok (km_cache m') T"
    "idle (km_allocator m') = idle (km_allocator m) + mset (drop 1 ?pages)"
    using stripped_release [OF at i S(5) c] S(4) unfolding ps by auto
  have "?pages ! 1 \<in> set (drop 1 ?pages)" using lp by (simp add: in_set_conv_nth) (rule exI [of _ 0], simp)
  then have "?pages ! 1 \<in># idle (km_allocator m')" unfolding r(3) by simp
  then have free: "?pages ! 1 \<in> set (al_free_pages (km_allocator m') @ al_release_pages (km_allocator m'))" by (simp add: idle_def)
  have row: "?kv = paged_row 2 ?pages 5" using R ps len by (simp add: request_ok_def)
  have "?kv ! 2 div 2 = ?pages ! 1" using paged_row_div [of 2 2 5 ?pages] row by simp
  moreover have "?kv ! 2 \<in> set (take (rq_cache_protected_len rq) ?kv)" using len S(4) by (auto simp: in_set_conv_nth intro!: exI [of _ 2])
  ultimately have cached: "?pages ! 1 \<in> cached_pages 2 (cached 2 T)"
    using protected_aligned(2) [OF memory_atD(4) [OF at] R, of "?kv ! 2"] ps by simp
  show ?thesis
    by (rule exI [of _ m], rule exI [of _ rq], rule exI [of _ rq'], rule exI [of _ m'], rule exI [of _ T], rule exI [of _ "?pages ! 1"])
      (use S(1) r(1,2) free cached in blast)
qed

end
