(* ===== verification/Spec2Isabelle.thy ===== *)
theory Spec2Isabelle
  imports Deployment WeightLoading VisionModel ModelStage MemoryStrip
begin

text \<open>
  A verification development of the serving stack of this repository: the DeepSeek-V4 vision model
  under vLLM on SM12x devices, with DSpark speculative decoding and adaptive verification, and the
  key-value memory of the engine its alternative image runs.

  \<^bold>\<open>The program.\<close>  The repository's own code is a set of overlay files that replace parts of vLLM in
  the published images; the alternative image is built from a copy of SGLang in the repository.  Four
  layers are modelled.

  \<^item> The \<^emph>\<open>configuration\<close> layer, \<^verbatim>\<open>src/docker/overlay-54631-image/vllm/config/speculative.py\<close>: it turns
    the arguments of a speculative-decoding request into a validated configuration and a draft model.
  \<^item> The \<^emph>\<open>attention metadata\<close> layer, \<^verbatim>\<open>src/docker/overlay-sm121-adaptive/\<close>: for every batch the
    scheduler forms, \<^verbatim>\<open>indexer.py\<close> plans the sparse indexer, \<^verbatim>\<open>sparse_mla.py\<close> the compressed
    context of C128A layers, \<^verbatim>\<open>sparse_swa.py\<close> the sliding window, and \<^verbatim>\<open>flashinfer_sparse.py\<close> turns
    their metadata into kernel calls.
  \<^item> The \<^emph>\<open>model\<close> layer, \<^verbatim>\<open>src/docker/overlay-54631-image/vllm/models/deepseek_v4/nvidia/\<close>:
    \<^verbatim>\<open>model.py\<close> loads the checkpoint into the layers of a rank and runs them, \<^verbatim>\<open>vl_model.py\<close> puts the
    vision tower in front of it.
  \<^item> The \<^emph>\<open>memory\<close> layer of the alternative image, \<^verbatim>\<open>src/docker/sgl-src/python/sglang/srt/mem_cache/\<close>:
    the allocators of cache slots (\<^verbatim>\<open>allocator/\<close>, with the kernels of \<^verbatim>\<open>kernels/ops/memory/allocator.py\<close>)
    the prefix cache (\<^verbatim>\<open>radix_cache.py\<close>, \<^verbatim>\<open>evict_policy.py\<close>), a radix tree from token sequences to
    slots that gives slots back to the allocator when they run out, and the rows of slots of the running
    requests (\<^verbatim>\<open>memory_pool.py\<close>, \<^verbatim>\<open>allocation.py\<close>, \<^verbatim>\<open>common.py\<close>); in \<^verbatim>\<open>managers/\<close>, what \<^verbatim>\<open>schedule_batch.py\<close>
    does with them, and the checks of \<^verbatim>\<open>scheduler_components/invariant_checker.py\<close>.

  The configuration's token count, method and adaptive switch are what the builders read; the metadata
  objects of the builders are what the attention layer reads; the model chooses the attention layer and
  collects the auxiliary states the draft model reads.  The prefix cache hands slots to requests and
  evicts into the allocator through \<^verbatim>\<open>free_segment\<close>.  A request takes its prefix from the cache, its row from the
  pool and its other slots from the allocator; a batch extends rows, a decode step lengthens them by one, caching
  moves whole pages of a row to the tree, and release and retraction give everything back.

  \<^bold>\<open>Theories.\<close>

  \<^item> \<open>Prelude\<close>: errors as values (\<open>py_error\<close>, \<open>result\<close>, \<open>raise_if\<close>, \<open>bind_result\<close>), ceiling division,
    slices, prefix sums (\<open>cu\<close>), two-dimensional views (\<open>tensor2\<close>), Python's string operations,
    dictionaries used as memo tables (locale \<open>memo\<close>), and the interface of the chunk planners (locale \<open>chunk_planner\<close>): a step function that makes progress yields a plan that covers a
    range exactly once.
  \<^item> \<open>Triton\<close>: launches of Triton kernels as lists of stores, and what a kernel that fills rows or
    segments leaves behind (locales \<open>row_kernel\<close>, \<open>segment_kernel\<close>).
  \<^item> \<open>Platform\<close>: what the files read of the rest of vLLM, as records.
  \<^item> \<open>IndexerPrefill\<close>, \<open>IndexerDecode\<close>, \<open>IndexerBuild\<close>: \<^verbatim>\<open>indexer.py\<close>.  Prefill chunking, key
    ranges and context parallelism; the decode paths (native, flattened uniform, flattened variable);
    the builder and its \<^verbatim>\<open>build\<close>.
  \<^item> \<open>SparseMLA\<close>: \<^verbatim>\<open>sparse_mla.py\<close>.  The C128A kernel, its buffers, \<^verbatim>\<open>build\<close>.
  \<^item> \<open>SwaPlan\<close>, \<open>SwaKernels\<close>, \<open>SwaBuild\<close>: \<^verbatim>\<open>sparse_swa.py\<close>.  The workspace plan of the prefill; the
    causal, the DSpark and the image-aware index kernels; the builder, \<^verbatim>\<open>build\<close> and the update between
    draft steps.
  \<^item> \<open>FlashInferSparse\<close>, \<open>FlashInferSM120\<close>: \<^verbatim>\<open>flashinfer_sparse.py\<close>.  The workspace registry, head
    padding, the sparse-index cache and the SM100 layer; the SM12x layer with its chunked prefill.
  \<^item> \<open>HfConfig\<close>, \<open>QwenDspark\<close>, \<open>SpecConfig\<close>, \<open>SpecProps\<close>: \<^verbatim>\<open>speculative.py\<close>.  The override of a draft's
    Hugging Face configuration for every model family; the contract of Qwen3-Omni drafts; the
    constructor \<^verbatim>\<open>__post_init__\<close>, the validator \<^verbatim>\<open>_verify_args\<close> and the queries of the engine; and what
    a constructed configuration guarantees.
  \<^item> \<open>MegaExperts\<close>: \<^verbatim>\<open>model.py\<close>, class \<^verbatim>\<open>DeepseekV4MegaMoEExperts\<close> and its helpers: placement of the
    logical experts on ranks and slots, the loader of one expert tensor, the one-time layout transform,
    the scales of the shared experts and the cache of symmetric buffers.
  \<^item> \<open>WeightLoading\<close>: \<^verbatim>\<open>model.py\<close>, \<^verbatim>\<open>load_weights\<close> with its branches (stacked, expert, sink and plain
    parameters) and the padding of shared-expert weights.
  \<^item> \<open>MoeLayer\<close>: \<^verbatim>\<open>model.py\<close>, class \<^verbatim>\<open>DeepseekV4MoE\<close>: its construction with gate, guards and expert
    classes, its forward pass and that of the MegaMoE experts, the views and counters of the expert load
    balancer.
  \<^item> \<open>ModelForward\<close>: \<^verbatim>\<open>model.py\<close>, the choice of the attention class, the entry of a decoder layer,
    the folded matrix of the first layer, and the forward pass of the model with its auxiliary states and
    pipeline stages.  \<open>ModelStage\<close>: its layers with the experts of \<open>MoeLayer\<close> inside, after
    \<^verbatim>\<open>process_weights_after_loading\<close>, and the state of the experts between layers.
  \<^item> \<open>VisionModel\<close>: \<^verbatim>\<open>vl_model.py\<close>, the image inputs, the loop over the images of a request, and the
    embeddings of a prompt with sentinels and image entries.
  \<^item> \<open>KvAllocator\<close>: both slot allocators, the extension and decode kernels, and the interface the
    prefix cache uses (locale \<open>kv_pool\<close>, interpreted for both).
  \<^item> \<open>RadixKey\<close>: keys of the prefix cache, their units, comparison and child keys.
  \<^item> \<open>RadixTree\<close>: nodes in a store, splitting, matching, inserting.  \<open>RadixInv\<close>: what a store represents
    (\<open>tree_ok\<close>, \<open>cached\<close>).  \<open>RadixBooks\<close>: lock counts, sizes and leaves (\<open>books\<close>) and the steps that
    keep them.  \<open>RadixWalk\<close>: the two loops.  \<open>RadixRefine\<close>: the simulation relation \<open>represents\<close> and the
    operations against it.
  \<^item> \<open>RadixLocks\<close>: locking and unlocking.  \<open>RadixEvict\<close>: deletion, the eviction policies, eviction into
    an allocator and the capacity check of a decode step.
  \<^item> \<open>PageLedger\<close>: where every page is: free, cached, or owned by one request (\<open>page_ledger\<close>), and how
    matching, inserting, freeing and allocating move pages.  \<open>RadixRequests\<close>: caching a finished and an
    unfinished request.  \<open>RequestRows\<close>: the pool of rows, the writers of a batch's rows and their kernels.
  \<^item> \<open>KvMemory\<close>: cache, allocator and rows together (\<open>kv_memory\<close>), with the operations on requests: match and
    lock, \<^verbatim>\<open>alloc_for_extend\<close>, \<^verbatim>\<open>alloc_for_decode\<close>, \<^verbatim>\<open>release_kv_cache\<close>, the decode check and the order of retraction.
  \<^item> \<open>MemorySafety\<close>: the invariant of memory and requests (\<open>memory_at\<close>, \<open>memory_ok\<close>), kept by admission, caching and
    release.  \<open>MemoryBatches\<close>: by extension and decode.  \<open>MemoryRetract\<close>: \<^verbatim>\<open>retract_decode\<close>.  \<open>MemoryChecks\<close>: the
    engine's own checks.
  \<^item> \<open>MemoryReach\<close>: all operations as one step relation (\<open>kv_step\<close>, \<open>kv_reach\<close>) and its invariant.
    \<open>MemoryProps\<close>: what holds in every reachable state.  \<open>MemoryStrip\<close>: a release that breaks the invariant when
    thinking is stripped.
  \<^item> \<open>StepPipeline\<close>: a batch through both builders and the SM12x layer.
  \<^item> \<open>Deployment\<close>: from the speculative configuration to the gates of every attention component.

  \<^bold>\<open>Correspondence.\<close>  A Python class is a record with the attributes the code uses (\<open>indexer_builder\<close>,
  \<open>mla_builder\<close>, \<open>swa_builder\<close>, \<open>swa_metadata\<close>, \<open>spec_config\<close>, ...), a method a function that returns
  the updated record, an exception a value of \<open>py_error\<close>.  Buffers that the code preallocates and
  writes in place are lists in the builder's record, and \<^verbatim>\<open>torch.empty\<close> is a parameter, so that no
  property depends on what an uninitialised buffer holds.  A view of a buffer is a \<open>tensor2\<close> with a
  stride.  Device tensors and their host copies are separate fields, since they differ under adaptive
  verification.  Tree nodes of the prefix cache are identities in a store, since several nodes refer to
  one another and updates are seen through every reference.  Integers are unbounded, with the wrap-around of 32-bit unsigned comparisons written
  out where the kernel has it; rates are rationals, without rounding.

  \<^bold>\<open>What the lemmas show.\<close>  For the planners, that chunks cover the batch exactly once and respect the
  workspace and logits budgets.  For the kernels, the contents of every row and length they write, for
  causal windows, DSpark blocks, image spans, compressed contexts and sharded key ranges.  For the
  builders, that the shape of their buffers is an invariant, that the decode paths agree with one
  another, that the update between draft steps is a rebuild, and on which inputs they raise.  For the
  layer, when a forward pass returns, and that its calls serve every token once with its own data.  For
  the configuration, that the Qwen3-Omni checks decide a declarative contract, which draft lengths are
  accepted by the constructor and the validator, that adaptive verification implies DSpark, and the limits of the draft model.  For the model,
  that loading fills every expert slot of every rank with its own expert in any order of the checkpoint,
  that padding and converted scales keep every weight and its scale, that the forward pass equals the
  pass that reconstructs every state separately and, once the weights are finalised, raises only what the attention raises, that shared
  experts are added exactly once however they are computed, and that each prompt position gets its own
  embedding.  For the memory layer, that an extension continues every row of slots and the kernel agrees
  with its reference; that the prefix cache, whatever its shape, is a finite map from page-aligned
  sequences in a namespace to slots, which matching reads, inserting extends and eviction shrinks; that
  lock counts are the requests that hold a prefix, so that eviction never takes a held one; and that
  eviction ends and frees what is asked for whenever that much is evictable.  For the requests, that in
  every reachable state each page is free, cached or owned by one request, so that the engine's checks
  stay silent; that extension and decode fail exactly when the memory is short; that caching, release and
  retraction never fail; that retraction makes room for the step it is called for; and that the memory is complete
  when the requests have gone.
  \<open>StepPipeline\<close> and \<open>Deployment\<close> compose the layers.

  \<^bold>\<open>Loops.\<close>  A loop is a total function: structural recursion over lists, or \<open>function\<close> with a measure
  (\<open>absorb_reqs\<close>, \<open>range_step\<close>, the chunk planners, \<open>bisect\<close>, \<open>gallop\<close>, \<open>nat_str\<close>, \<open>str_replace\<close>, and \<open>retract_loop\<close>, whose list of
  candidates shrinks).  The
  loops that walk the prefix tree or the eviction heap may run forever on a store that is no tree; they
  are \<open>partial_function\<close>s into the option type (\<open>match_loop\<close>, \<open>insert_loop\<close>, \<open>inc_loop\<close>, \<open>dec_loop\<close>,
  \<open>evict_loop\<close>), and the properties say that they return.  No fuel is used.

  \<^bold>\<open>Parameters.\<close>  Code outside the repository is an argument: \<^verbatim>\<open>split_decodes_and_prefills\<close> and the
  token-to-request map of the engine (\<open>swa_ext\<close>, \<open>mla_ext\<close>, \<open>indexer_ext\<close>), the global top-k kernel, the
  platform queries (\<open>platform\<close>), the constructor of \<^verbatim>\<open>ModelConfig\<close> and the wrapper configurations of
  drafts (\<open>spec_ext\<close>), the layout transform of DeepGEMM, the mixing and attention of a decoder layer
  (\<open>layer_ops\<close>, \<open>model_ops\<close>), the router, kernels and shared MLP of the expert layer (\<open>moe_ops\<close>, \<open>moe_lib\<close>), the
  clock, the order of equal entries in a heap, the parameters' own weight loaders (\<open>load_env\<close>), the vision tower and the
  merge of multimodal embeddings.  Where a property needs one of them to behave as documented, a named hypothesis
  says so (\<open>split_contract\<close>, \<open>batch_cut\<close>, \<open>loads_draft\<close>, \<open>family_of_major\<close>,
  \<open>merge_in_order\<close>, \<open>sentinels_from\<close>, \<open>kernel_reads_own_rows\<close>, \<open>kernel_adds_shared\<close>, \<open>plain_request\<close>,
  \<open>experts_keep_tokens\<close>, \<open>layer_contract\<close>, \<open>stage_contract\<close>).  Optional fields of the metadata are options, and every test for
  \<^verbatim>\<open>None\<close> before their use is an exception of the model (\<open>required\<close>).

  \<^bold>\<open>Not modelled.\<close>  In \<^verbatim>\<open>model.py\<close> the construction of the engine's linear and attention layers and the table
  of checkpoint names; the kernels of FlashInfer and DeepGEMM; hashing, printing and logging; the scripts
  under \<^verbatim>\<open>src/scripts\<close> and the patch tools under \<^verbatim>\<open>src/docker\<close>, which drive containers and files; the older
  copies of the same overlays; the padding mask that sequence parallelism splits in the forward context.  Of \<^verbatim>\<open>src/docker/sgl-src\<close>, a vendored engine, everything but the memory of
  its requests; of the prefix cache, the recorder of placement events and the metrics; of the requests' memory, beam groups, diffusion models,
  the positions of multimodal requests, disaggregated serving, the slots of speculative decoding, the sliding-window and Mamba pools and the
  scheduler's choices, which the step relation leaves open.  The step relation has the decode step after
  the previous token, as without the overlapped schedule, and stripped thinking off, which \<open>MemoryStrip\<close> turns on.
\<close>

end
